(* ===== verification/Prelude.thy ===== *)
theory Prelude
  imports Complex_Main "HOL-Library.Word" "HOL-Library.Sublist"
begin

text \<open>
  Shared ground of the development: the development's collections of facts, the names of the
  model's types, and the generic lemmas on lists, maps and 64-bit words that several components
  use.

  Conventions. A Go string is the list of its bytes (\<open>string\<close>, one \<open>char\<close> per byte). A Go
  \<open>int64\<close> is an \<open>i64\<close> (a 64-bit word): \<open>+\<close> wraps as in Go, \<open>sint\<close> reads the signed value,
  \<open><s\<close> and \<open>\<le>s\<close> are Go's comparisons. A \<open>float64\<close> is an exact rational: rounding is not
  modelled. An instant (\<open>time.Time\<close>) and a \<open>time.Duration\<close> are the number of nanoseconds since
  the Unix epoch, respectively of the span, as an integer; every instant is taken in UTC. A Go
  pointer that means "value or absent" is an \<open>option\<close>.
\<close>

section \<open>Collections of facts\<close>

named_theorems trim_simps \<open>facts about strings.TrimSpace and its callers\<close>
named_theorems time_simps \<open>facts about truncation of instants\<close>
named_theorems table_simps \<open>facts about reads and writes of modelled SQL tables\<close>

section \<open>Names of types\<close>

type_synonym i64 = "64 word"
type_synonym instant = int
type_synonym duration = int
type_synonym float64 = rat

section \<open>Options\<close>

lemma option_eqI: "(\<And>x. a = Some x \<longleftrightarrow> b = Some x) \<Longrightarrow> a = b"
  by (cases a; cases b) (metis option.distinct(1) option.inject)+

lemma set_map_filter: "set (List.map_filter f xs) = {y. \<exists>x \<in> set xs. f x = Some y}"
  by (induction xs) (auto split: option.splits)

section \<open>Integer division\<close>

lemma div_eq_iff_between:
  fixes d :: int
  assumes "0 < d"
  shows "t div d = k \<longleftrightarrow> d * k \<le> t \<and> t < d * k + d"
proof
  assume "t div d = k"
  then have "t = d * k + t mod d" by (metis mult_div_mod_eq)
  with pos_mod_bound [OF assms, of t] pos_mod_sign [OF assms, of t]
  show "d * k \<le> t \<and> t < d * k + d" by linarith
next
  assume "d * k \<le> t \<and> t < d * k + d"
  then have "t - d * k div 1 < d" "0 \<le> t - d * k" by auto
  then have "(t - d * k) div d = 0" by simp
  moreover have "t div d = (t - d * k) div d + k"
    using assms div_mult_self2 [of d "t - d * k" k] by simp
  ultimately show "t div d = k" by simp
qed

section \<open>Instants\<close>

text \<open>The zero \<open>time.Time\<close> is midnight of 1 January of year 1, UTC.\<close>

definition zero_time :: instant where
  "zero_time = - 62135596800 * 1000000000"

definition nanosecond :: duration where "nanosecond = 1"
definition second :: duration where "second = 1000000000"
definition minute :: duration where "minute = 60 * 1000000000"
definition hour :: duration where "hour = 3600 * 1000000000"

lemmas duration_defs = nanosecond_def second_def minute_def hour_def

definition isZero :: "instant \<Rightarrow> bool" where
  "isZero t \<longleftrightarrow> t = zero_time"

text \<open>\<open>Time.Truncate\<close> rounds down to a multiple of \<open>d\<close> since the zero time.\<close>

definition truncateTo :: "duration \<Rightarrow> instant \<Rightarrow> instant" where
  "truncateTo d t = (if d \<le> 0 then t else t - (t - zero_time) mod d)"

lemma hour_pos [simp]: "0 < hour" "\<not> hour \<le> 0" "hour \<noteq> 0"
  by (simp_all add: duration_defs)

lemma second_pos [simp]: "0 < second" "\<not> second \<le> 0" "second \<noteq> 0"
  by (simp_all add: duration_defs)

lemma truncateTo_le [time_simps]: "0 < d \<Longrightarrow> truncateTo d t \<le> t"
  by (simp add: truncateTo_def)

lemma truncateTo_gt [time_simps]: "0 < d \<Longrightarrow> t < truncateTo d t + d"
  using pos_mod_bound [of d "t - zero_time"] by (simp add: truncateTo_def)

text \<open>For whole hours the origin does not matter: the zero time is a multiple of an hour.\<close>

lemma truncateTo_hour [time_simps]: "truncateTo hour t = hour * (t div hour)"
proof -
  have "zero_time mod hour = 0" by (simp add: zero_time_def hour_def)
  then have "(t - zero_time) mod hour = t mod hour"
    by (metis diff_zero mod_diff_right_eq)
  then show ?thesis by (simp add: truncateTo_def minus_mod_eq_mult_div)
qed

lemma truncateTo_hour_idem [simp]: "truncateTo hour (truncateTo hour t) = truncateTo hour t"
  by (simp add: truncateTo_hour)

lemma truncateTo_hour_add [time_simps]: "truncateTo hour (t + k * hour) = truncateTo hour t + k * hour"
proof -
  have "(t + k * hour) div hour = k + t div hour"
    by (simp add: div_mult_self1 [of hour t k] mult.commute)
  then show ?thesis by (simp add: truncateTo_hour algebra_simps)
qed

lemma truncateTo_hour_add1 [time_simps]: "truncateTo hour (t + hour) = truncateTo hour t + hour"
  using truncateTo_hour_add [of t 1] by simp

lemma truncateTo_hour_mono [time_simps]: "s \<le> t \<Longrightarrow> truncateTo hour s \<le> truncateTo hour t"
  by (simp add: truncateTo_hour zdiv_mono1)

lemma truncateTo_hour_aligned: "truncateTo hour b = b \<longleftrightarrow> hour dvd b"
proof
  assume "truncateTo hour b = b"
  then show "hour dvd b" by (metis dvd_triv_left truncateTo_hour)
next
  assume "hour dvd b"
  then show "truncateTo hour b = b" by (simp add: truncateTo_hour)
qed

text \<open>An instant lies in the hour bucket that starts at an aligned \<open>b\<close> iff it truncates to \<open>b\<close>.\<close>

lemma truncateTo_hour_eq_iff:
  assumes "truncateTo hour b = b"
  shows "truncateTo hour t = b \<longleftrightarrow> b \<le> t \<and> t < b + hour"
proof -
  obtain k where b: "b = hour * k"
    using assms truncateTo_hour_aligned by (auto elim: dvdE)
  have "t div hour = k \<longleftrightarrow> b \<le> t \<and> t < b + hour"
    unfolding b by (subst div_eq_iff_between) (auto simp: algebra_simps)
  then show ?thesis
    unfolding truncateTo_hour by (simp add: b duration_defs)
qed

section \<open>64-bit words\<close>

definition max_i64 :: i64 where "max_i64 = 0x7FFFFFFFFFFFFFFF"

lemma sint_max_i64 [simp]: "sint max_i64 = 2 ^ 63 - 1"
  by (simp add: max_i64_def)

lemma sint_i64_bounds: "- (2 ^ 63) \<le> sint (a :: i64)" "sint (a :: i64) \<le> 2 ^ 63 - 1"
  using sint_greater_eq [of a] sint_less [of a] by simp_all

lemma sint_of_int_i64:
  assumes "- (2 ^ 63) \<le> i" "i < 2 ^ 63"
  shows "sint (word_of_int i :: i64) = i"
  unfolding sint_sbintrunc' by (rule signed_take_bit_int_eq_self) (use assms in simp_all)

lemma sint_add_i64:
  fixes a b :: i64
  assumes "- (2 ^ 63) \<le> sint a + sint b" "sint a + sint b < 2 ^ 63"
  shows "sint (a + b) = sint a + sint b"
  using assms by (simp add: signed_take_bit_int_eq_self sint_word_ariths(1))

lemma sint_sub_i64:
  fixes a b :: i64
  assumes "- (2 ^ 63) \<le> sint a - sint b" "sint a - sint b < 2 ^ 63"
  shows "sint (a - b) = sint a - sint b"
  using assms by (simp add: signed_take_bit_int_eq_self sint_word_ariths(2))

lemma i64_zero_iff: "w = 0 \<longleftrightarrow> sint w = 0" for w :: i64
  using signed_word_eqI [of w 0] by auto

lemmas i64_order = word_sless_alt word_sle_eq

end
