(* ===== verification/GoStrings.thy ===== *)
theory GoStrings
  imports Prelude
begin

text \<open>
  The Go standard-library functions on strings that the program uses, on byte lists:
  \<open>strings.TrimSpace\<close>, \<open>ToLower\<close>, \<open>Split\<close>, \<open>Join\<close>, \<open>Replace\<close>, \<open>strconv.FormatInt\<close> and
  \<open>ParseInt\<close>, UTF-8 decoding, hexadecimal and unpadded URL-safe base64. \<open>ToLower\<close> maps the
  ASCII letters and leaves every other byte alone, so it is Go's function on ASCII text.
\<close>

section \<open>White space\<close>

text \<open>The UTF-8 encodings of the code points for which \<open>unicode.IsSpace\<close> holds.\<close>

definition ws_seqs :: "string list" where
  "ws_seqs =
     [[CHR 0x20], [CHR 0x09], [CHR 0x0A], [CHR 0x0B], [CHR 0x0C], [CHR 0x0D],
      [CHR 0xC2, CHR 0x85], [CHR 0xC2, CHR 0xA0], [CHR 0xE1, CHR 0x9A, CHR 0x80],
      [CHR 0xE2, CHR 0x80, CHR 0x80], [CHR 0xE2, CHR 0x80, CHR 0x81],
      [CHR 0xE2, CHR 0x80, CHR 0x82], [CHR 0xE2, CHR 0x80, CHR 0x83],
      [CHR 0xE2, CHR 0x80, CHR 0x84], [CHR 0xE2, CHR 0x80, CHR 0x85],
      [CHR 0xE2, CHR 0x80, CHR 0x86], [CHR 0xE2, CHR 0x80, CHR 0x87],
      [CHR 0xE2, CHR 0x80, CHR 0x88], [CHR 0xE2, CHR 0x80, CHR 0x89],
      [CHR 0xE2, CHR 0x80, CHR 0x8A], [CHR 0xE2, CHR 0x80, CHR 0xA8],
      [CHR 0xE2, CHR 0x80, CHR 0xA9], [CHR 0xE2, CHR 0x80, CHR 0xAF],
      [CHR 0xE2, CHR 0x81, CHR 0x9F], [CHR 0xE3, CHR 0x80, CHR 0x80]]"

fun hasPrefix :: "string \<Rightarrow> string \<Rightarrow> bool" where
  "hasPrefix s [] = True"
| "hasPrefix [] (p # ps) = False"
| "hasPrefix (c # s) (p # ps) = (c = p \<and> hasPrefix s ps)"

definition hasSuffix :: "string \<Rightarrow> string \<Rightarrow> bool" where
  "hasSuffix s p = hasPrefix (rev s) (rev p)"

text \<open>The length of the first of the given sequences that starts the string, 0 if none does.\<close>

fun lead_len :: "string list \<Rightarrow> string \<Rightarrow> nat" where
  "lead_len [] s = 0"
| "lead_len (w # ws) s = (if hasPrefix s w then length w else lead_len ws s)"

function trim_lead :: "string list \<Rightarrow> string \<Rightarrow> string" where
  "trim_lead ws s =
     (if lead_len ws s = 0 \<or> s = [] then s else trim_lead ws (drop (lead_len ws s) s))"
  by pat_completeness auto
termination
  by (relation "measure (\<lambda>(ws, s). length s)") auto

declare trim_lead.simps [simp del]

definition trimLeft :: "string \<Rightarrow> string" where
  "trimLeft s = trim_lead ws_seqs s"

definition trimRight :: "string \<Rightarrow> string" where
  "trimRight s = rev (trim_lead (map rev ws_seqs) (rev s))"

definition trimSpace :: "string \<Rightarrow> string" where
  "trimSpace s = trimRight (trimLeft s)"

lemma hasPrefix_iff [simp]: "hasPrefix s p \<longleftrightarrow> prefix p s"
  by (induction s p rule: hasPrefix.induct) auto

lemma hasSuffix_iff [simp]: "hasSuffix s p \<longleftrightarrow> suffix p s"
  by (simp add: hasSuffix_def suffix_to_prefix)

lemma lead_len_0: "[] \<notin> set ws \<Longrightarrow> lead_len ws s = 0 \<longleftrightarrow> (\<forall>w \<in> set ws. \<not> prefix w s)"
  by (induction ws) auto

lemma trim_lead_suffix: "suffix (trim_lead ws s) s"
proof (induction ws s rule: trim_lead.induct)
  case (1 ws s)
  show ?case
  proof (cases "lead_len ws s = 0 \<or> s = []")
    case True
    then show ?thesis by (simp add: trim_lead.simps [of ws s])
  next
    case False
    then have "suffix (trim_lead ws (drop (lead_len ws s) s)) (drop (lead_len ws s) s)"
      using 1 by blast
    then show ?thesis
      using False by (simp add: trim_lead.simps [of ws s]) (meson suffix_drop suffix_order.trans)
  qed
qed

lemma trim_lead_stop: "lead_len ws (trim_lead ws s) = 0 \<or> trim_lead ws s = []"
proof (induction ws s rule: trim_lead.induct)
  case (1 ws s)
  then show ?case by (cases "lead_len ws s = 0 \<or> s = []") (auto simp: trim_lead.simps [of ws s])
qed

lemma trim_lead_id: "lead_len ws s = 0 \<or> s = [] \<Longrightarrow> trim_lead ws s = s"
  by (simp add: trim_lead.simps [of ws s])

lemma trimRight_prefix: "prefix (trimRight s) s"
  using trim_lead_suffix [of "map rev ws_seqs" "rev s"]
  by (simp add: trimRight_def suffix_to_prefix)

lemma ws_seqs_nonempty: "[] \<notin> set ws_seqs" "[] \<notin> set (map rev ws_seqs)"
  by (simp_all add: ws_seqs_def)

lemma lead_len_prefix:
  assumes "lead_len ws_seqs t = 0" "prefix u t"
  shows "lead_len ws_seqs u = 0"
  using assms ws_seqs_nonempty(1) by (auto simp: lead_len_0 dest: prefix_order.trans)

lemma lead_len_Nil: "lead_len ws_seqs [] = 0" "lead_len (map rev ws_seqs) [] = 0"
  by (simp_all add: lead_len_0 [OF ws_seqs_nonempty(1)] lead_len_0 [OF ws_seqs_nonempty(2)])
    (auto simp: ws_seqs_def)

text \<open>A string is trimmed when no white space starts or ends it.\<close>

definition trimmed :: "string \<Rightarrow> bool" where
  "trimmed s \<longleftrightarrow> lead_len ws_seqs s = 0 \<and> lead_len (map rev ws_seqs) (rev s) = 0"

lemma trimmed_trimSpace [simp, trim_simps]: "trimmed (trimSpace s)"
proof -
  have "lead_len ws_seqs (trimLeft s) = 0"
    using trim_lead_stop [of ws_seqs s] lead_len_Nil by (auto simp: trimLeft_def)
  then have "lead_len ws_seqs (trimSpace s) = 0"
    unfolding trimSpace_def by (rule lead_len_prefix) (rule trimRight_prefix)
  moreover have "lead_len (map rev ws_seqs) (rev (trimSpace s)) = 0"
    using trim_lead_stop [of "map rev ws_seqs" "rev (trimLeft s)"] lead_len_Nil
    by (auto simp: trimSpace_def trimRight_def)
  ultimately show ?thesis by (simp add: trimmed_def)
qed

lemma trimSpace_id [trim_simps]: "trimmed s \<Longrightarrow> trimSpace s = s"
  by (simp add: trimmed_def trimSpace_def trimLeft_def trimRight_def trim_lead_id)

lemma trimSpace_idem [simp]: "trimSpace (trimSpace s) = trimSpace s"
  by (rule trimSpace_id) simp

lemma trimSpace_Nil [simp]: "trimSpace [] = []"
  by (rule trimSpace_id) (simp add: trimmed_def lead_len_Nil)

lemma trimSpace_length: "length (trimSpace s) \<le> length s"
proof -
  have "length (trimSpace s) \<le> length (trimLeft s)"
    unfolding trimSpace_def by (rule prefix_length_le [OF trimRight_prefix])
  also have "\<dots> \<le> length s"
    unfolding trimLeft_def by (rule suffix_length_le [OF trim_lead_suffix])
  finally show ?thesis .
qed

lemma set_trimSpace: "set (trimSpace s) \<subseteq> set s"
proof -
  have "set (trimSpace s) \<subseteq> set (trimLeft s)"
    unfolding trimSpace_def using trimRight_prefix by (meson prefix_def set_mono_prefix)
  also have "\<dots> \<subseteq> set s"
    unfolding trimLeft_def using trim_lead_suffix by (meson set_mono_suffix)
  finally show ?thesis .
qed

text \<open>SQLite's \<open>TRIM\<close> removes the blanks at both ends, and no other white space.\<close>

definition sqlTrim :: "string \<Rightarrow> string" where
  "sqlTrim s = rev (dropWhile (\<lambda>c. c = CHR 0x20) (rev (dropWhile (\<lambda>c. c = CHR 0x20) s)))"

lemma trimmed_ends:
  assumes "trimmed s" "s \<noteq> []"
  shows "hd s \<noteq> CHR 0x20" "last s \<noteq> CHR 0x20"
proof -
  have mem: "[CHR 0x20] \<in> set ws_seqs" "[CHR 0x20] \<in> set (map rev ws_seqs)" by (simp_all add: ws_seqs_def)
  have "\<not> prefix [CHR 0x20] s" "\<not> prefix [CHR 0x20] (rev s)"
    using assms(1) mem ws_seqs_nonempty by (auto simp: trimmed_def lead_len_0)
  then show "hd s \<noteq> CHR 0x20" "last s \<noteq> CHR 0x20"
    using assms(2) by (cases s, simp_all) (cases s rule: rev_cases, simp_all)
qed

lemma dropWhile_hd: "s \<noteq> [] \<Longrightarrow> \<not> P (hd s) \<Longrightarrow> dropWhile P s = s"
  by (cases s) simp_all

lemma sqlTrim_trimmed [trim_simps]: "trimmed s \<Longrightarrow> sqlTrim s = s"
  using trimmed_ends [of s] by (cases "s = []") (simp_all add: sqlTrim_def dropWhile_hd hd_rev)

lemma sqlTrim_trimSpace [simp]: "sqlTrim (trimSpace s) = trimSpace s"
  by (simp add: sqlTrim_trimmed)

section \<open>Case, splitting, joining, replacing\<close>

definition lower_char :: "char \<Rightarrow> char" where
  "lower_char c =
     (let n = of_char c :: nat in if 65 \<le> n \<and> n \<le> 90 then char_of (n + 32) else c)"

definition toLower :: "string \<Rightarrow> string" where
  "toLower s = map lower_char s"

fun split_on :: "char \<Rightarrow> string \<Rightarrow> string list" where
  "split_on d [] = [[]]"
| "split_on d (c # cs) =
     (if c = d then [] # split_on d cs
      else (case split_on d cs of [] \<Rightarrow> [[c]] | p # ps \<Rightarrow> (c # p) # ps))"

fun join :: "string \<Rightarrow> string list \<Rightarrow> string" where
  "join sep [] = []"
| "join sep [p] = p"
| "join sep (p # q # ps) = p @ sep @ join sep (q # ps)"

text \<open>\<open>strings.Contains\<close> and \<open>strings.Replace\<close> with a count of one.\<close>

fun contains :: "string \<Rightarrow> string \<Rightarrow> bool" where
  "contains [] p = (p = [])"
| "contains (c # s) p = (hasPrefix (c # s) p \<or> contains s p)"

fun replace_first :: "string \<Rightarrow> string \<Rightarrow> string \<Rightarrow> string" where
  "replace_first old new [] = (if old = [] then new else [])"
| "replace_first old new (c # s) =
     (if hasPrefix (c # s) old then new @ drop (length old) (c # s)
      else c # replace_first old new s)"

text \<open>\<open>strings.ReplaceAll\<close> of a text that is not empty.\<close>

function replaceAll :: "string \<Rightarrow> string \<Rightarrow> string \<Rightarrow> string" where
  "replaceAll old new [] = []"
| "replaceAll old new (c # s) =
     (if old \<noteq> [] \<and> hasPrefix (c # s) old then new @ replaceAll old new (drop (length old) (c # s))
      else c # replaceAll old new s)"
  by pat_completeness auto
termination by (relation "measure (\<lambda>(old, new, s). length s)") (auto simp: Suc_le_eq)

fun trimPrefix :: "string \<Rightarrow> string \<Rightarrow> string" where
  "trimPrefix p s = (if hasPrefix s p then drop (length p) s else s)"

fun trimSuffix :: "string \<Rightarrow> string \<Rightarrow> string" where
  "trimSuffix p s = (if hasSuffix s p then take (length s - length p) s else s)"

fun trimRightChar :: "char \<Rightarrow> string \<Rightarrow> string" where
  "trimRightChar c s = rev (dropWhile (\<lambda>x. x = c) (rev s))"

lemma split_on_nonempty [simp]: "split_on d s \<noteq> []"
  by (induction s) (auto split: list.split)

lemma split_on_plain: "d \<notin> set s \<Longrightarrow> split_on d s = [s]"
  by (induction s) auto

lemma split_on_cons: "d \<notin> set p \<Longrightarrow> split_on d (p @ d # s) = p # split_on d s"
  by (induction p) auto

lemma split_join:
  assumes "ps \<noteq> []" and "\<forall>p \<in> set ps. d \<notin> set p"
  shows "split_on d (join [d] ps) = ps"
  using assms by (induction "[d]" ps rule: join.induct) (auto simp: split_on_plain split_on_cons)

lemma join_split: "join [d] (split_on d s) = s"
proof (induction s)
  case Nil
  then show ?case by simp
next
  case (Cons c s)
  obtain p ps where sp: "split_on d s = p # ps"
    by (meson list.exhaust split_on_nonempty)
  with Cons show ?case by (cases ps) (auto simp: sp)
qed

lemma split_on_free: "p \<in> set (split_on d s) \<Longrightarrow> d \<notin> set p"
proof (induction s arbitrary: p)
  case Nil
  then show ?case by simp
next
  case (Cons c s)
  then show ?case by (cases "split_on d s") (auto split: if_splits)
qed

section \<open>Integers in decimal\<close>

definition digit_char :: "nat \<Rightarrow> char" where
  "digit_char n = char_of (48 + n)"

definition char_digit :: "char \<Rightarrow> nat option" where
  "char_digit c = (let n = of_char c :: nat in if 48 \<le> n \<and> n \<le> 57 then Some (n - 48) else None)"

fun nat_digits :: "nat \<Rightarrow> string" where
  "nat_digits n = (if n < 10 then [digit_char n] else nat_digits (n div 10) @ [digit_char (n mod 10)])"

declare nat_digits.simps [simp del]

definition formatInt :: "int \<Rightarrow> string" where
  "formatInt i = (if i < 0 then CHR ''-'' # nat_digits (nat (- i)) else nat_digits (nat i))"

fun parse_digits :: "nat \<Rightarrow> string \<Rightarrow> nat option" where
  "parse_digits acc [] = Some acc"
| "parse_digits acc (c # cs) =
     (case char_digit c of None \<Rightarrow> None | Some d \<Rightarrow> parse_digits (10 * acc + d) cs)"

definition parseUnsigned :: "string \<Rightarrow> nat option" where
  "parseUnsigned s = (if s = [] then None else parse_digits 0 s)"

text \<open>\<open>strconv.ParseInt(s, 10, 64)\<close>, which is also \<open>strconv.Atoi\<close> on a 64-bit platform.\<close>

definition int64_min :: int where "int64_min = - (2 ^ 63)"
definition int64_max :: int where "int64_max = 2 ^ 63 - 1"

definition in_int64 :: "int \<Rightarrow> bool" where
  "in_int64 i \<longleftrightarrow> int64_min \<le> i \<and> i \<le> int64_max"

definition parseInt64 :: "string \<Rightarrow> int option" where
  "parseInt64 s =
     (let neg = (s \<noteq> [] \<and> hd s = CHR ''-'');
          body = (if s \<noteq> [] \<and> (hd s = CHR ''-'' \<or> hd s = CHR ''+'') then tl s else s)
      in case parseUnsigned body of
           None \<Rightarrow> None
         | Some n \<Rightarrow>
             (let i = (if neg then - int n else int n)
              in if in_int64 i then Some i else None))"

lemma char_digit_digit_char [simp]: "d < 10 \<Longrightarrow> char_digit (digit_char d) = Some d"
  by (simp add: char_digit_def digit_char_def)

lemma digit_char_not_sign:
  assumes "d < 10"
  shows "digit_char d \<noteq> CHR ''-''" "digit_char d \<noteq> CHR ''+''" "digit_char d \<noteq> CHR ''.''"
  using char_digit_digit_char [OF assms] by (auto simp: char_digit_def)

lemma nat_digits_nonempty [simp]: "nat_digits n \<noteq> []"
  by (subst nat_digits.simps) simp

lemma parse_digits_append:
  "parse_digits acc (s @ t) = (case parse_digits acc s of None \<Rightarrow> None | Some a \<Rightarrow> parse_digits a t)"
  by (induction s arbitrary: acc) (auto split: option.splits)

lemma parse_nat_digits: "parse_digits 0 (nat_digits n) = Some n"
proof (induction n rule: nat_digits.induct)
  case (1 n)
  then show ?case
    by (cases "n < 10") (simp_all add: nat_digits.simps [of n] parse_digits_append)
qed

lemma nat_digits_chars: "c \<in> set (nat_digits n) \<Longrightarrow> \<exists>d < 10. c = digit_char d"
proof (induction n rule: nat_digits.induct)
  case (1 n)
  then show ?case
    by (cases "n < 10") (auto simp: nat_digits.simps [of n] intro: exI [of _ "n mod 10"])
qed

lemma nat_digits_plain:
  shows "CHR ''-'' \<notin> set (nat_digits n)" and "CHR ''+'' \<notin> set (nat_digits n)"
    and "CHR ''.'' \<notin> set (nat_digits n)"
  by (metis digit_char_not_sign nat_digits_chars)+

lemma formatInt_no_dot: "CHR ''.'' \<notin> set (formatInt i)"
  by (simp add: formatInt_def nat_digits_plain)

lemma nat_digits_hd: "hd (nat_digits n) \<noteq> CHR ''-''" "hd (nat_digits n) \<noteq> CHR ''+''"
  by (metis hd_in_set nat_digits_nonempty nat_digits_plain)+

lemma parseInt64_unsigned:
  assumes "s \<noteq> []" "hd s \<noteq> CHR ''-''" "hd s \<noteq> CHR ''+''"
  shows "parseInt64 s =
    (case parseUnsigned s of None \<Rightarrow> None
     | Some n \<Rightarrow> if in_int64 (int n) then Some (int n) else None)"
  using assms by (cases "parseUnsigned s") (simp_all add: parseInt64_def)

lemma parseInt64_negative:
  "parseInt64 (CHR ''-'' # s) =
    (case parseUnsigned s of None \<Rightarrow> None
     | Some n \<Rightarrow> if in_int64 (- int n) then Some (- int n) else None)"
  by (cases "parseUnsigned s") (simp_all add: parseInt64_def)

lemma parseUnsigned_nat_digits [simp]: "parseUnsigned (nat_digits n) = Some n"
  by (simp add: parseUnsigned_def parse_nat_digits)

lemma parse_formatInt: "in_int64 i \<Longrightarrow> parseInt64 (formatInt i) = Some i"
  by (cases "i < 0")
    (simp_all add: formatInt_def parseInt64_negative parseInt64_unsigned nat_digits_hd)

lemma nat_digits_inj: "nat_digits m = nat_digits n \<Longrightarrow> m = n"
  by (metis option.inject parse_nat_digits)

lemma nat_digits_not_Nil_eq: "nat_digits m = nat_digits n \<longleftrightarrow> m = n"
  using nat_digits_inj by blast

lemma parseInt64_range: "parseInt64 s = Some i \<Longrightarrow> in_int64 i"
  by (auto simp: parseInt64_def Let_def split: option.splits if_splits)

end
