(* ===== verification/Encodings.thy ===== *)
theory Encodings
  imports GoStrings
begin

text \<open>
  Byte-level encodings of the Go standard library that the program applies: UTF-8 decoding
  (\<open>utf8.RuneCountInString\<close>, \<open>utf8.ValidString\<close>, \<open>[]rune(s)\<close>), \<open>hex.EncodeToString\<close> and
  \<open>base64.RawURLEncoding\<close>.
\<close>

section \<open>UTF-8\<close>

definition byte_in :: "nat \<Rightarrow> nat \<Rightarrow> char \<Rightarrow> bool" where
  "byte_in lo hi c \<longleftrightarrow> lo \<le> (of_char c :: nat) \<and> of_char c \<le> hi"

fun conts :: "nat \<Rightarrow> string \<Rightarrow> bool" where
  "conts 0 s = True"
| "conts (Suc n) [] = False"
| "conts (Suc n) (c # s) = (byte_in 0x80 0xBF c \<and> conts n s)"

fun second_in :: "nat \<Rightarrow> nat \<Rightarrow> nat \<Rightarrow> string \<Rightarrow> bool" where
  "second_in lo hi n [] = False"
| "second_in lo hi n (c # s) = (byte_in lo hi c \<and> conts n s)"

text \<open>
  The multi-byte forms of UTF-8: range of the first byte, range of the second byte, number of
  further continuation bytes.
\<close>

definition rune_forms :: "(nat \<times> nat \<times> nat \<times> nat \<times> nat) list" where
  "rune_forms =
     [(0xC2, 0xDF, 0x80, 0xBF, 0),
      (0xE0, 0xE0, 0xA0, 0xBF, 1), (0xE1, 0xEC, 0x80, 0xBF, 1),
      (0xED, 0xED, 0x80, 0x9F, 1), (0xEE, 0xEF, 0x80, 0xBF, 1),
      (0xF0, 0xF0, 0x90, 0xBF, 2), (0xF1, 0xF3, 0x80, 0xBF, 2), (0xF4, 0xF4, 0x80, 0x8F, 2)]"

fun form_width :: "(nat \<times> nat \<times> nat \<times> nat \<times> nat) list \<Rightarrow> char \<Rightarrow> string \<Rightarrow> nat" where
  "form_width [] c s = 0"
| "form_width ((lo, hi, lo2, hi2, n) # fs) c s =
     (if byte_in lo hi c \<and> second_in lo2 hi2 n s then n + 2 else form_width fs c s)"

text \<open>The number of bytes of the rune at the head of the string; 0 for an invalid encoding.\<close>

fun rune_width :: "string \<Rightarrow> nat" where
  "rune_width [] = 0"
| "rune_width (c # s) = (if byte_in 0x00 0x7F c then 1 else form_width rune_forms c s)"

definition rune_error :: string where
  "rune_error = [CHR 0xEF, CHR 0xBF, CHR 0xBD]"

text \<open>
  The runes of a string, each as its UTF-8 encoding; an invalid byte is one rune U+FFFD, as in
  \<open>[]rune(s)\<close>.
\<close>

function runes :: "string \<Rightarrow> string list" where
  "runes s =
     (if s = [] then []
      else if rune_width s = 0 then rune_error # runes (drop 1 s)
      else take (rune_width s) s # runes (drop (rune_width s) s))"
  by pat_completeness auto
termination
  by (relation "measure length") auto

function validString :: "string \<Rightarrow> bool" where
  "validString s =
     (if s = [] then True
      else if rune_width s = 0 then False
      else validString (drop (rune_width s) s))"
  by pat_completeness auto
termination
  by (relation "measure length") auto

declare runes.simps [simp del] validString.simps [simp del]

definition runeCount :: "string \<Rightarrow> nat" where
  "runeCount s = length (runes s)"

lemma runes_Nil [simp]: "runes [] = []" and validString_Nil [simp]: "validString []"
  by (simp_all add: runes.simps validString.simps)

definition ascii :: "string \<Rightarrow> bool" where
  "ascii s \<longleftrightarrow> (\<forall>c \<in> set s. byte_in 0x00 0x7F c)"

lemma rune_width_ascii: "byte_in 0x00 0x7F c \<Longrightarrow> rune_width (c # s) = 1"
  by simp

lemma runes_ascii: "ascii s \<Longrightarrow> runes s = map (\<lambda>c. [c]) s"
proof (induction s)
  case Nil
  then show ?case by simp
next
  case (Cons c s)
  then show ?case by (simp add: ascii_def runes.simps [of "c # s"])
qed

lemma validString_ascii: "ascii s \<Longrightarrow> validString s"
proof (induction s)
  case Nil
  then show ?case by simp
next
  case (Cons c s)
  then show ?case by (simp add: ascii_def validString.simps [of "c # s"])
qed

lemma concat_runes_valid: "validString s \<Longrightarrow> concat (runes s) = s"
proof (induction s rule: validString.induct)
  case (1 s)
  then show ?case
    by (cases "s = []"; cases "rune_width s = 0")
      (auto simp: validString.simps [of s] runes.simps [of s])
qed

lemma conts_length: "conts n s \<Longrightarrow> n \<le> length s"
  by (induction n s rule: conts.induct) auto

lemma second_in_length: "second_in lo hi n s \<Longrightarrow> Suc n \<le> length s"
  by (cases s) (auto dest: conts_length)

lemma form_width_le_length: "form_width fs c s \<le> Suc (length s)"
  by (induction fs c s rule: form_width.induct) (auto dest: second_in_length)

lemma rune_width_le_length: "rune_width s \<le> length s"
  by (cases s) (simp_all add: form_width_le_length)

lemma form_width_le: "\<forall>(lo, hi, lo2, hi2, n) \<in> set fs. n + 2 \<le> k \<Longrightarrow> form_width fs c s \<le> k"
  by (induction fs c s rule: form_width.induct) auto

lemma rune_width_le_4: "rune_width s \<le> 4"
  by (cases s) (auto intro: form_width_le simp: rune_forms_def)

text \<open>The width of a rune is decided by its own bytes: cutting the string after it changes nothing.\<close>

lemma conts_take: "n \<le> k \<Longrightarrow> conts n (take k s) = conts n s"
proof (induction n arbitrary: k s)
  case 0
  then show ?case by simp
next
  case (Suc n)
  then show ?case by (cases k; cases s) auto
qed

lemma second_in_take: "Suc n \<le> k \<Longrightarrow> second_in lo hi n (take k s) = second_in lo hi n s"
  by (cases k; cases s) (auto simp: conts_take)

lemma form_width_take:
  assumes "\<forall>(lo, hi, lo2, hi2, n) \<in> set fs. n < 3" and "3 \<le> j \<or> form_width fs c s \<le> Suc j"
    and "form_width fs c s \<noteq> 0"
  shows "form_width fs c (take j s) = form_width fs c s"
  using assms
proof (induction fs c s rule: form_width.induct)
  case (1 c s)
  then show ?case by simp
next
  case (2 lo hi lo2 hi2 n fs c s)
  show ?case
  proof (cases "byte_in lo hi c \<and> second_in lo2 hi2 n s")
    case True
    with 2 have "Suc n \<le> j" by auto
    with True show ?thesis by (simp add: second_in_take)
  next
    case False
    have "second_in lo2 hi2 n (take j s) \<Longrightarrow> second_in lo2 hi2 n s"
      using second_in_length [of lo2 hi2 n "take j s"] by (auto simp: second_in_take)
    with False 2 show ?thesis by auto
  qed
qed

lemma rune_width_take:
  assumes "rune_width s \<noteq> 0" "rune_width s \<le> k"
  shows "rune_width (take k s) = rune_width s"
proof (cases s)
  case Nil
  with assms show ?thesis by simp
next
  case (Cons c t)
  with assms obtain j where k: "k = Suc j" by (cases k) auto
  have forms: "\<forall>(lo, hi, lo2, hi2, n) \<in> set rune_forms. n < 3" by (simp add: rune_forms_def)
  show ?thesis
    using assms k form_width_take [OF forms, of j c t] by (auto simp: Cons)
qed

section \<open>Hexadecimal\<close>

definition hex_digit :: "nat \<Rightarrow> char" where
  "hex_digit n = (if n < 10 then char_of (48 + n) else char_of (87 + n))"

definition hex_byte :: "char \<Rightarrow> string" where
  "hex_byte c = (let n = of_char c :: nat in [hex_digit (n div 16), hex_digit (n mod 16)])"

definition hexEncode :: "string \<Rightarrow> string" where
  "hexEncode s = concat (map hex_byte s)"

lemma length_hexEncode [simp]: "length (hexEncode s) = 2 * length s"
  by (induction s) (auto simp: hexEncode_def hex_byte_def Let_def)

section \<open>Unpadded URL-safe base64\<close>

definition b64_char :: "nat \<Rightarrow> char" where
  "b64_char n =
     (if n < 26 then char_of (65 + n)
      else if n < 52 then char_of (97 + (n - 26))
      else if n < 62 then char_of (48 + (n - 52))
      else if n = 62 then CHR ''-'' else CHR ''_'')"

fun base64RawURL :: "string \<Rightarrow> string" where
  "base64RawURL [] = []"
| "base64RawURL [a] =
     (let x = of_char a :: nat in [b64_char (x div 4), b64_char ((x mod 4) * 16)])"
| "base64RawURL [a, b] =
     (let x = of_char a :: nat; y = of_char b :: nat
      in [b64_char (x div 4), b64_char ((x mod 4) * 16 + y div 16), b64_char ((y mod 16) * 4)])"
| "base64RawURL (a # b # c # s) =
     (let x = of_char a :: nat; y = of_char b :: nat; z = of_char c :: nat
      in [b64_char (x div 4), b64_char ((x mod 4) * 16 + y div 16),
          b64_char ((y mod 16) * 4 + z div 64), b64_char (z mod 64)] @ base64RawURL s)"

lemma b64_char_no_dot: "b64_char n \<noteq> CHR ''.''"
proof -
  have "(of_char (b64_char n) :: nat) \<noteq> of_char (CHR ''.'')"
    by (auto simp: b64_char_def)
  then show ?thesis by auto
qed

lemma base64_no_dot: "CHR ''.'' \<notin> set (base64RawURL s)"
  by (induction s rule: base64RawURL.induct) (auto simp: Let_def b64_char_no_dot dest: sym)

lemma base64_Nil_iff [simp]: "base64RawURL s = [] \<longleftrightarrow> s = []"
  by (cases s rule: base64RawURL.cases) (auto simp: Let_def)

end
