(* ===== verification/Entities.thy ===== *)
theory Entities
  imports Encodings
begin

text \<open>
  The persisted entities (\<open>internal/entities\<close>): the usage identity and its two authentication
  kinds, the accounting facts of an attempt and the usage event. Identities, keys and texts are
  byte strings; nullable columns are options.
\<close>

section \<open>Usage identity (entities/usage\_identity.go)\<close>

text \<open>
  \<open>UsageIdentityAuthType\<close> is a Go \<open>int\<close>; only 1 and 2 are constants of the type, any other value
  is representable and invalid.
\<close>

type_synonym authType = int

definition UsageIdentityAuthTypeAuthFile :: authType where "UsageIdentityAuthTypeAuthFile = 1"
definition UsageIdentityAuthTypeAIProvider :: authType where "UsageIdentityAuthTypeAIProvider = 2"

definition UsageIdentityAuthTypeNameOAuth :: string where
  "UsageIdentityAuthTypeNameOAuth = ''oauth''"
definition UsageIdentityAuthTypeNameAPIKey :: string where
  "UsageIdentityAuthTypeNameAPIKey = ''apikey''"

lemmas auth_type_defs =
  UsageIdentityAuthTypeAuthFile_def UsageIdentityAuthTypeAIProvider_def
  UsageIdentityAuthTypeNameOAuth_def UsageIdentityAuthTypeNameAPIKey_def

definition authTypeValid :: "authType \<Rightarrow> bool" where
  "authTypeValid a \<longleftrightarrow> a = UsageIdentityAuthTypeAuthFile \<or> a = UsageIdentityAuthTypeAIProvider"

definition canonicalName :: "authType \<Rightarrow> string option" where
  "canonicalName a =
     (if a = UsageIdentityAuthTypeAuthFile then Some UsageIdentityAuthTypeNameOAuth
      else if a = UsageIdentityAuthTypeAIProvider then Some UsageIdentityAuthTypeNameAPIKey
      else None)"

definition parseUsageIdentityAuthType :: "string \<Rightarrow> authType option" where
  "parseUsageIdentityAuthType name =
     (if trimSpace name = UsageIdentityAuthTypeNameOAuth then Some UsageIdentityAuthTypeAuthFile
      else if trimSpace name = UsageIdentityAuthTypeNameAPIKey
        then Some UsageIdentityAuthTypeAIProvider
      else None)"

text \<open>What CPA observes of an account: the state of its sign-in and the latest quota snapshots.\<close>

record authRefreshErrorObservation =
  ae_Code :: string
  ae_HTTPStatus :: int

record authRenewalObservation =
  rn_RequiresSignIn :: "bool option"
  rn_RenewalState :: "string option"
  rn_RecoveryStage :: "string option"
  rn_AccessTokenExpiresAt :: "instant option"
  rn_NextRefreshAfter :: "instant option"
  rn_NextAction :: "string option"
  rn_RecoveryHint :: "string option"
  rn_RefreshError :: "authRefreshErrorObservation option"

record passiveQuotaMetric =
  pm_Key :: string
  pm_Label :: string
  pm_Scope :: string
  pm_Metric :: string
  pm_PlanType :: string
  pm_UsedPercent :: "float64 option"
  pm_Remaining :: "float64 option"
  pm_Balance :: string
  pm_Unit :: string
  pm_Allowed :: "bool option"
  pm_LimitReached :: "bool option"
  pm_HasCredits :: "bool option"
  pm_Unlimited :: "bool option"
  pm_Window :: "i64 option"
  pm_ResetAt :: string
  pm_ResetAfterSeconds :: "float64 option"

record passiveQuotaObservation =
  po_ObservedAt :: instant
  po_ActiveLimit :: string
  po_Quota :: "passiveQuotaMetric list"

record passiveModelQuotaObservation =
  pq_Model :: string
  pq_ObservedAt :: instant
  pq_ActiveLimit :: string
  pq_Quota :: "passiveQuotaMetric list"

text \<open>
  The columns of \<open>UsageIdentity\<close> but its key, which is the key of its table, and the fields of a
  listed identity that are not stored (the cost of its attempts).
\<close>

record usageIdentity =
  ui_CanonicalValidAttempts :: i64
  ui_Name :: string
  ui_AuthType :: authType
  ui_AuthTypeName :: string
  ui_Identity :: string
  ui_Type :: string
  ui_Provider :: string
  ui_LookupKey :: string
  ui_Prefix :: string
  ui_BaseURL :: string
  ui_AccountID :: "string option"
  ui_ProjectID :: "string option"
  ui_ActiveStart :: "instant option"
  ui_ActiveUntil :: "instant option"
  ui_PlanType :: "string option"
  ui_AuthFileStatus :: "string option"
  ui_Unavailable :: "bool option"
  ui_LastRefresh :: "instant option"
  ui_NextRetryAfter :: "instant option"
  ui_MetadataObservedAt :: "instant option"
  ui_AuthRenewal :: "authRenewalObservation option"
  ui_PassiveQuota :: "passiveQuotaObservation option"
  ui_PassiveModelQuotas :: "passiveModelQuotaObservation list"
  ui_TotalRequests :: i64
  ui_SuccessCount :: i64
  ui_FailureCount :: i64
  ui_InputTokens :: i64
  ui_OutputTokens :: i64
  ui_ReasoningTokens :: i64
  ui_CachedTokens :: i64
  ui_TotalTokens :: i64
  ui_LastAggregatedUsageEventID :: nat
  ui_FirstUsedAt :: "instant option"
  ui_LastUsedAt :: "instant option"
  ui_StatsUpdatedAt :: "instant option"
  ui_TotalCost :: float64
  ui_CostAvailable :: bool
  ui_IsDeleted :: bool
  ui_Disabled :: bool
  ui_CreatedAt :: instant
  ui_UpdatedAt :: instant
  ui_DeletedAt :: "instant option"

fun usageIdentityDisplayQualifiers :: "string list \<Rightarrow> string list \<Rightarrow> string list" where
  \<comment> \<open>the first argument is the set \<open>seen\<close>, in the order of insertion, which is also the result\<close>
  "usageIdentityDisplayQualifiers seen [] = seen"
| "usageIdentityDisplayQualifiers seen (v # vs) =
     (let value = trimSpace v
      in if value = [] then usageIdentityDisplayQualifiers seen vs
         else if value \<in> set seen then usageIdentityDisplayQualifiers seen vs
         else usageIdentityDisplayQualifiers (seen @ [value]) vs)"

definition formatUsageIdentityBaseURLDisplay :: "string \<Rightarrow> string" where
  "formatUsageIdentityBaseURLDisplay raw =
     (let trimmed = trimSpace raw;
          lower = toLower trimmed
      in if trimmed = [] then []
         else trimRightChar (CHR ''/'')
           (if hasPrefix lower ''https://'' then drop 8 trimmed
            else if hasPrefix lower ''http://'' then drop 7 trimmed
            else trimmed))"

definition displayName :: "usageIdentity \<Rightarrow> string" where
  "displayName item =
     (let name = trimSpace (ui_Name item);
          provider = trimSpace (ui_Provider item)
      in if ui_AuthType item \<noteq> UsageIdentityAuthTypeAIProvider
         then (if name \<noteq> [] then name else provider)
         else if trimSpace (ui_Type item) = ''openai'' \<and> name \<noteq> [] \<and> name \<noteq> ''openai''
                 \<and> provider = name
         then name
         else
           let pre = trimSpace (ui_Prefix item);
               baseURL = formatUsageIdentityBaseURLDisplay (ui_BaseURL item);
               qualifiers = usageIdentityDisplayQualifiers [] [pre, baseURL]
           in if name \<noteq> [] \<and> qualifiers \<noteq> [] then name @ ''('' @ join '' @ '' qualifiers @ '')''
              else if name \<noteq> [] then name
              else if pre \<noteq> [] \<and> baseURL \<noteq> [] then pre @ ''('' @ baseURL @ '')''
              else if pre \<noteq> [] then pre
              else if provider \<noteq> [] \<and> baseURL \<noteq> [] then provider @ ''('' @ baseURL @ '')''
              else if baseURL \<noteq> [] then baseURL
              else provider)"

lemma trimmed_auth_names [simp]:
  "trimSpace UsageIdentityAuthTypeNameOAuth = UsageIdentityAuthTypeNameOAuth"
  "trimSpace UsageIdentityAuthTypeNameAPIKey = UsageIdentityAuthTypeNameAPIKey"
  by (rule trimSpace_id, simp add: auth_type_defs trimmed_def ws_seqs_def)+

lemma authTypeValid_canonical: "authTypeValid a \<longleftrightarrow> canonicalName a \<noteq> None"
  by (simp add: authTypeValid_def canonicalName_def)

lemma parse_canonicalName: "canonicalName a = Some n \<Longrightarrow> parseUsageIdentityAuthType n = Some a"
  by (auto simp: canonicalName_def parseUsageIdentityAuthType_def split: if_splits)
    (simp add: auth_type_defs)

section \<open>Accounting facts (entities/usage\_accounting.go)\<close>

record usageAccounting =
  ua_AccountingState :: string
  ua_TokenQuality :: "string option"
  ua_TotalTokens :: "i64 option"
  ua_InputTokens :: "i64 option"
  ua_UncachedTokens :: "i64 option"
  ua_CacheReadTokens :: "i64 option"
  ua_CacheWriteTokens :: "i64 option"
  ua_OutputTokens :: "i64 option"
  ua_NonReasoningTokens :: "i64 option"
  ua_ReasoningTokens :: "i64 option"
  ua_UnclassifiedTokens :: "i64 option"

section \<open>Usage event (entities/usage\_event.go)\<close>

text \<open>
  The archival scalar token columns (\<open>InputTokens\<close> \<dots> \<open>TotalTokens\<close>), which no code path of the
  model reads, are left out.
\<close>

record usageEvent =
  ev_ID :: nat
  ev_EventKey :: string
  ev_APIGroupKey :: string
  ev_Provider :: string
  ev_Endpoint :: string
  ev_AuthType :: string
  ev_RequestID :: string
  ev_Model :: string
  ev_ModelAlias :: "string option"
  ev_Timestamp :: instant
  ev_Source :: string
  ev_AuthIndex :: string
  ev_Failed :: bool
  ev_StatusCode :: int
  ev_ExecutorType :: string
  ev_ReasoningEffort :: string
  ev_ServiceTier :: string
  ev_LatencyMS :: i64
  ev_TTFTMS :: "i64 option"
  ev_UsageAccounting :: usageAccounting
  ev_Generate :: "bool option"
  ev_Stream :: "bool option"
  ev_ResponseServiceTier :: "string option"

text \<open>
  The API key an attempt is attributed to (\<open>repository/usage\_events.go\<close>): the group key if it
  looks like a key, else the source of an API-key attempt if that does, else nothing.
\<close>

definition usageEventAPIKeyIdentity :: "usageEvent \<Rightarrow> string" where
  "usageEventAPIKeyIdentity e =
     (let apiGroupKey = trimSpace (ev_APIGroupKey e)
      in if hasPrefix apiGroupKey ''sk-'' then apiGroupKey
         else if trimSpace (ev_AuthType e) = UsageIdentityAuthTypeNameAPIKey
         then (let src = trimSpace (ev_Source e) in if hasPrefix src ''sk-'' then src else [])
         else [])"

definition usageEventStatusCode :: "int \<Rightarrow> int option" where
  "usageEventStatusCode v = (if v \<le> 0 then None else Some v)"

definition optionalInt64Value :: "i64 option \<Rightarrow> i64" where
  "optionalInt64Value v = (case v of None \<Rightarrow> 0 | Some x \<Rightarrow> x)"

definition optionalStringValue :: "string option \<Rightarrow> string" where
  "optionalStringValue v = (case v of None \<Rightarrow> [] | Some x \<Rightarrow> x)"

lemma optionalInt64Value_simps [simp]:
  "optionalInt64Value None = 0" "optionalInt64Value (Some x) = x"
  by (simp_all add: optionalInt64Value_def)

lemma optionalStringValue_simps [simp]:
  "optionalStringValue None = []" "optionalStringValue (Some x) = x"
  by (simp_all add: optionalStringValue_def)

end
