(* ===== verification/Accounting.thy ===== *)
theory Accounting
  imports Entities
begin

text \<open>
  Accounting v2 (\<open>repository/usage\_accounting.go\<close>, and the cost and throughput rules of
  \<open>repository/usage.go\<close> and \<open>repository/usage\_events.go\<close>): the validator of the canonical token
  buckets, the interpretation of one attempt and the cost of one attempt.
\<close>

section \<open>Validation of the canonical buckets\<close>

definition AccountingAbsent :: string where "AccountingAbsent = ''absent''"
definition AccountingValid :: string where "AccountingValid = ''valid''"

datatype accountingError =
    TokenQualityRequired
  | UnsupportedTokenQuality string
  | BucketsRequired
  | BucketsNegative
  | InputBucketsDoNotSum
  | OutputBucketsDoNotSum
  | TotalBucketsDoNotSum
  | CompleteWithUnclassified

definition accountingFactsAbsent :: "usageAccounting \<Rightarrow> bool" where
  "accountingFactsAbsent f \<longleftrightarrow>
     ua_TokenQuality f = None \<and> ua_TotalTokens f = None \<and> ua_InputTokens f = None \<and>
     ua_UncachedTokens f = None \<and> ua_CacheReadTokens f = None \<and>
     ua_CacheWriteTokens f = None \<and> ua_OutputTokens f = None \<and>
     ua_NonReasoningTokens f = None \<and> ua_ReasoningTokens f = None \<and>
     ua_UnclassifiedTokens f = None"

definition usageAccountingState :: "usageAccounting \<Rightarrow> string" where
  "usageAccountingState f = (if accountingFactsAbsent f then AccountingAbsent else AccountingValid)"

text \<open>The loop of \<open>accountingSumEquals\<close>; \<open>None\<close> is its early \<open>return false\<close>.\<close>

fun accountingSum :: "i64 \<Rightarrow> i64 list \<Rightarrow> i64 option" where
  "accountingSum acc [] = Some acc"
| "accountingSum acc (v # vs) =
     (if v <s 0 \<or> (max_i64 - v) <s acc then None else accountingSum (acc + v) vs)"

definition accountingSumEquals :: "i64 \<Rightarrow> i64 list \<Rightarrow> bool" where
  "accountingSumEquals tot values =
     (case accountingSum 0 values of None \<Rightarrow> False | Some acc \<Rightarrow> tot = acc)"

definition accountingBuckets :: "usageAccounting \<Rightarrow> i64 option list" where
  "accountingBuckets f =
     [ua_TotalTokens f, ua_InputTokens f, ua_UncachedTokens f, ua_CacheReadTokens f,
      ua_CacheWriteTokens f, ua_OutputTokens f, ua_NonReasoningTokens f, ua_ReasoningTokens f,
      ua_UnclassifiedTokens f]"

text \<open>\<open>None\<close> is Go's \<open>nil\<close> error.\<close>

definition validateUsageAccounting :: "usageAccounting \<Rightarrow> accountingError option" where
  "validateUsageAccounting f =
     (case ua_TokenQuality f of
        None \<Rightarrow> Some TokenQualityRequired
      | Some q \<Rightarrow>
          if q \<noteq> ''complete'' \<and> q \<noteq> ''inconsistent'' \<and> q \<noteq> ''unclassified''
          then Some (UnsupportedTokenQuality q)
          else if None \<in> set (accountingBuckets f) then Some BucketsRequired
          else if \<exists>v \<in> set (accountingBuckets f). the v <s 0 then Some BucketsNegative
          else if \<not> accountingSumEquals (the (ua_InputTokens f))
                 [the (ua_UncachedTokens f), the (ua_CacheReadTokens f), the (ua_CacheWriteTokens f)]
          then Some InputBucketsDoNotSum
          else if \<not> accountingSumEquals (the (ua_OutputTokens f))
                 [the (ua_NonReasoningTokens f), the (ua_ReasoningTokens f)]
          then Some OutputBucketsDoNotSum
          else if \<not> accountingSumEquals (the (ua_TotalTokens f))
                 [the (ua_InputTokens f), the (ua_OutputTokens f), the (ua_UnclassifiedTokens f)]
          then Some TotalBucketsDoNotSum
          else if q = ''complete'' \<and> the (ua_UnclassifiedTokens f) \<noteq> 0
          then Some CompleteWithUnclassified
          else None)"

lemma sint_sum_step:
  fixes acc v :: i64
  assumes "0 \<le> sint acc" "0 \<le> sint v"
  shows "(max_i64 - v) <s acc \<longleftrightarrow> 2 ^ 63 \<le> sint acc + sint v"
    and "\<not> (max_i64 - v) <s acc \<Longrightarrow> sint (acc + v) = sint acc + sint v"
proof -
  have "sint (max_i64 - v) = 2 ^ 63 - 1 - sint v"
    using assms(2) sint_i64_bounds(2) [of v] by (subst sint_sub_i64) simp_all
  then show iff: "(max_i64 - v) <s acc \<longleftrightarrow> 2 ^ 63 \<le> sint acc + sint v"
    by (auto simp: i64_order)
  show "\<not> (max_i64 - v) <s acc \<Longrightarrow> sint (acc + v) = sint acc + sint v"
    using assms iff by (simp add: sint_add_i64)
qed

text \<open>The guarded loop computes the exact sum, or stops because it would not fit.\<close>

lemma accountingSum_exact:
  assumes "0 \<le> sint acc"
  shows "accountingSum acc vs =
    (if (\<forall>v \<in> set vs. 0 \<le> sint v) \<and> sint acc + (\<Sum>v\<leftarrow>vs. sint v) < 2 ^ 63
     then Some (acc + sum_list vs) else None)"
  using assms
proof (induction vs arbitrary: acc)
  case Nil
  then show ?case using sint_i64_bounds(2) [of acc] by simp
next
  case (Cons v vs)
  show ?case
  proof (cases "v <s 0 \<or> (max_i64 - v) <s acc")
    case True
    have rest: "(\<forall>v \<in> set vs. 0 \<le> sint v) \<Longrightarrow> 0 \<le> (\<Sum>v\<leftarrow>vs. sint v)"
      by (intro sum_list_nonneg) auto
    have "0 \<le> sint v \<Longrightarrow> (\<forall>v \<in> set vs. 0 \<le> sint v) \<Longrightarrow>
        2 ^ 63 \<le> sint acc + (sint v + (\<Sum>v\<leftarrow>vs. sint v))"
      using True sint_sum_step(1) [OF Cons.prems, of v] rest
      by (force simp: i64_order)
    with True show ?thesis by (auto simp: i64_order)
  next
    case False
    then have v: "0 \<le> sint v" by (simp add: i64_order)
    have step: "sint (acc + v) = sint acc + sint v"
      using False sint_sum_step(2) [OF Cons.prems v] by blast
    show ?thesis
      using False Cons.IH [of "acc + v"] Cons.prems v step by (auto simp: add.assoc)
  qed
qed

text \<open>So the comparison is the equation between the exact integers.\<close>

lemma accountingSumEquals_iff:
  "accountingSumEquals tot vs \<longleftrightarrow>
     (\<forall>v \<in> set vs. 0 \<le> sint v) \<and> sint tot = (\<Sum>v\<leftarrow>vs. sint v)"
proof -
  let ?S = "\<Sum>v\<leftarrow>vs. sint v"
  have sum: "sint (sum_list vs) = ?S" if "\<forall>v \<in> set vs. 0 \<le> sint v" "?S < 2 ^ 63"
    using that
  proof (induction vs)
    case Nil
    then show ?case by simp
  next
    case (Cons v vs)
    then have "0 \<le> (\<Sum>v\<leftarrow>vs. sint v)" by (intro sum_list_nonneg) auto
    with Cons show ?case by (simp add: sint_add_i64)
  qed
  show ?thesis
  proof (cases "(\<forall>v \<in> set vs. 0 \<le> sint v) \<and> ?S < 2 ^ 63")
    case True
    then have "tot = sum_list vs \<longleftrightarrow> sint tot = ?S"
      using sum by (metis signed_word_eqI)
    with True show ?thesis
      by (simp add: accountingSumEquals_def accountingSum_exact)
  next
    case False
    then show ?thesis
      using sint_i64_bounds(2) [of tot]
      by (auto simp: accountingSumEquals_def accountingSum_exact)
  qed
qed

text \<open>What an accepted record satisfies, on the exact integers.\<close>

definition accountingWellFormed :: "usageAccounting \<Rightarrow> bool" where
  "accountingWellFormed f \<longleftrightarrow>
     ua_TokenQuality f \<in> {Some ''complete'', Some ''inconsistent'', Some ''unclassified''} \<and>
     (\<exists>tot input uncached cread cwrite out nonreason rsn unclass.
        accountingBuckets f = map Some
          [tot, input, uncached, cread, cwrite, out, nonreason, rsn, unclass] \<and>
        (\<forall>v \<in> {tot, input, uncached, cread, cwrite, out, nonreason, rsn, unclass}.
           0 \<le> sint v) \<and>
        sint input = sint uncached + sint cread + sint cwrite \<and>
        sint out = sint nonreason + sint rsn \<and>
        sint tot = sint input + sint out + sint unclass \<and>
        (ua_TokenQuality f = Some ''complete'' \<longrightarrow> unclass = 0))"

lemma buckets_present:
  assumes "None \<notin> set (accountingBuckets f)"
  obtains tot input uncached cread cwrite out nonreason rsn unclass where
    "ua_TotalTokens f = Some tot" "ua_InputTokens f = Some input"
    "ua_UncachedTokens f = Some uncached" "ua_CacheReadTokens f = Some cread"
    "ua_CacheWriteTokens f = Some cwrite" "ua_OutputTokens f = Some out"
    "ua_NonReasoningTokens f = Some nonreason" "ua_ReasoningTokens f = Some rsn"
    "ua_UnclassifiedTokens f = Some unclass"
  using assms by (fastforce simp: accountingBuckets_def not_None_eq)

lemma validate_None_iff: "validateUsageAccounting f = None \<longleftrightarrow> accountingWellFormed f"
proof (cases "None \<in> set (accountingBuckets f)")
  case True
  then have "\<not> accountingWellFormed f"
    by (auto simp: accountingWellFormed_def)
  with True show ?thesis
    by (auto simp: validateUsageAccounting_def split: option.split)
next
  case False
  then obtain tot input uncached cread cwrite out nonreason rsn unclass where
    fields: "ua_TotalTokens f = Some tot" "ua_InputTokens f = Some input"
    "ua_UncachedTokens f = Some uncached" "ua_CacheReadTokens f = Some cread"
    "ua_CacheWriteTokens f = Some cwrite" "ua_OutputTokens f = Some out"
    "ua_NonReasoningTokens f = Some nonreason" "ua_ReasoningTokens f = Some rsn"
    "ua_UnclassifiedTokens f = Some unclass"
    by (rule buckets_present)
  show ?thesis
    unfolding validateUsageAccounting_def accountingWellFormed_def accountingBuckets_def
    by (simp add: fields accountingSumEquals_iff i64_order not_less split: option.split)
qed

lemma validate_not_absent: "validateUsageAccounting f = None \<Longrightarrow> \<not> accountingFactsAbsent f"
  by (auto simp: validateUsageAccounting_def accountingFactsAbsent_def)

lemma validate_state: "validateUsageAccounting f = None \<Longrightarrow> usageAccountingState f = AccountingValid"
  by (simp add: usageAccountingState_def validate_not_absent)

section \<open>Throughput of one attempt\<close>

definition usageEventOutputTPS :: "i64 \<Rightarrow> i64 \<Rightarrow> i64 option \<Rightarrow> float64 option" where
  "usageEventOutputTPS outputTokens latencyMS ttftMS =
     (case ttftMS of
        None \<Rightarrow> None
      | Some t \<Rightarrow>
          if outputTokens \<le>s 0 \<or> t \<le>s 0 \<or> latencyMS \<le>s t then None
          else Some (of_int (sint outputTokens) * 1000 / of_int (sint (latencyMS - t))))"

definition usageEventEndToEndOutputTPS :: "i64 \<Rightarrow> i64 \<Rightarrow> float64 option" where
  "usageEventEndToEndOutputTPS outputTokens latencyMS =
     (if outputTokens \<le>s 0 \<or> latencyMS \<le>s 0 then None
      else Some (of_int (sint outputTokens) * 1000 / of_int (sint latencyMS)))"

section \<open>Interpretation of one attempt\<close>

record usageTokenInput =
  ti_TotalTokens :: "i64 option"
  ti_UncachedTokens :: "i64 option"
  ti_CacheReadTokens :: "i64 option"
  ti_CacheWriteTokens :: "i64 option"

record usageTokenOutput =
  to_TotalTokens :: "i64 option"
  to_NonReasoningTokens :: "i64 option"
  to_ReasoningTokens :: "i64 option"

record usageAccountingRecord =
  ar_State :: string
  ar_Quality :: "string option"
  ar_TotalTokens :: "i64 option"
  ar_Input :: usageTokenInput
  ar_Output :: usageTokenOutput
  ar_UnclassifiedTokens :: "i64 option"

record usageAttemptFacts =
  af_Accounting :: usageAccountingRecord
  af_Generate :: "bool option"
  af_Stream :: "bool option"
  af_RequestServiceTier :: "string option"
  af_ResponseServiceTier :: "string option"
  af_OutputTPS :: "float64 option"
  af_EndToEndOutputTPS :: "float64 option"

definition interpretBase :: "usageEvent \<Rightarrow> usageAttemptFacts" where
  "interpretBase e =
     (let f = ev_UsageAccounting e;
          tier = trimSpace (ev_ServiceTier e)
      in \<lparr>af_Accounting =
           \<lparr>ar_State = usageAccountingState f, ar_Quality = ua_TokenQuality f,
            ar_TotalTokens = ua_TotalTokens f,
            ar_Input = \<lparr>ti_TotalTokens = ua_InputTokens f, ti_UncachedTokens = ua_UncachedTokens f,
              ti_CacheReadTokens = ua_CacheReadTokens f,
              ti_CacheWriteTokens = ua_CacheWriteTokens f\<rparr>,
            ar_Output = \<lparr>to_TotalTokens = ua_OutputTokens f,
              to_NonReasoningTokens = ua_NonReasoningTokens f,
              to_ReasoningTokens = ua_ReasoningTokens f\<rparr>,
            ar_UnclassifiedTokens = ua_UnclassifiedTokens f\<rparr>,
          af_Generate = ev_Generate e, af_Stream = ev_Stream e,
          af_RequestServiceTier = (if tier = [] then None else Some tier),
          af_ResponseServiceTier = ev_ResponseServiceTier e,
          af_OutputTPS = None, af_EndToEndOutputTPS = None\<rparr>)"

text \<open>
  \<open>None\<close> is the panic of dereferencing a missing output or reasoning bucket, which the code does
  without a check.
\<close>

definition interpretUsageAttempt :: "usageEvent \<Rightarrow> usageAttemptFacts option" where
  "interpretUsageAttempt e =
     (let facts = interpretBase e; f = ev_UsageAccounting e
      in if ar_State (af_Accounting facts) \<noteq> AccountingValid \<or> ua_TokenQuality f \<noteq> Some ''complete''
         then Some facts
         else if ev_Generate e \<noteq> Some True \<or> ev_Stream e \<noteq> Some True then Some facts
         else
           (case (ua_OutputTokens f, ua_ReasoningTokens f) of
              (Some out, Some reasoning) \<Rightarrow>
                (let facts1 = facts\<lparr>af_EndToEndOutputTPS :=
                       usageEventEndToEndOutputTPS out (ev_LatencyMS e)\<rparr>
                 in Some (if reasoning = 0
                      then facts1\<lparr>af_OutputTPS :=
                             usageEventOutputTPS out (ev_LatencyMS e) (ev_TTFTMS e)\<rparr>
                      else facts1))
            | _ \<Rightarrow> None))"

lemma validated_buckets:
  assumes "validateUsageAccounting f = None"
  obtains out reasoning where "ua_OutputTokens f = Some out" "ua_ReasoningTokens f = Some reasoning"
    "0 \<le> sint out" "0 \<le> sint reasoning"
  using assms by (auto simp: validate_None_iff accountingWellFormed_def accountingBuckets_def)

lemma interpret_validated_Some:
  assumes "validateUsageAccounting (ev_UsageAccounting e) = None"
  shows "interpretUsageAttempt e \<noteq> None"
  using assms by (elim validated_buckets) (simp add: interpretUsageAttempt_def Let_def)

lemma interpret_absent_Some:
  assumes "accountingFactsAbsent (ev_UsageAccounting e)"
  shows "interpretUsageAttempt e = Some (interpretBase e)"
  using assms
  by (simp add: interpretUsageAttempt_def interpretBase_def Let_def usageAccountingState_def
      AccountingAbsent_def AccountingValid_def)

lemma outputTPS_SomeD:
  assumes "usageEventOutputTPS out lat ttft = Some v"
  obtains t where "ttft = Some t" "0 < sint out" "0 < sint t" "sint t < sint lat"
    "v = of_int (sint out) * 1000 / of_int (sint lat - sint t)"
proof -
  obtain t where t: "ttft = Some t"
    using assms by (cases ttft) (simp_all add: usageEventOutputTPS_def)
  then have pos: "0 < sint out" "0 < sint t" "sint t < sint lat"
    and v: "v = of_int (sint out) * 1000 / of_int (sint (lat - t))"
    using assms by (simp_all add: usageEventOutputTPS_def i64_order not_le split: if_splits)
  have "sint (lat - t) = sint lat - sint t"
    using pos sint_i64_bounds [of lat] by (intro sint_sub_i64) auto
  with t pos v show ?thesis by (intro that) auto
qed

lemma endToEndTPS_eq:
  "0 < sint out \<Longrightarrow> 0 < sint lat \<Longrightarrow>
    usageEventEndToEndOutputTPS out lat = Some (of_int (sint out) * 1000 / of_int (sint lat))"
  by (simp add: usageEventEndToEndOutputTPS_def i64_order)

lemma rate_mono:
  fixes n a b :: int
  assumes "0 < n" "0 < a" "a < b"
  shows "0 < of_int n * 1000 / (of_int b :: rat)"
    and "of_int n * 1000 / of_int b \<le> of_int n * 1000 / (of_int (b - a) :: rat)"
proof -
  have pos: "(0::rat) < of_int (b - a)" "(0::rat) < of_int b" "(0::rat) < of_int n * 1000"
    using assms by simp_all
  then show "0 < of_int n * 1000 / (of_int b :: rat)" by simp
  have "(of_int (b - a) :: rat) \<le> of_int b" using assms by (simp only: of_int_le_iff)
  with pos show "of_int n * 1000 / of_int b \<le> of_int n * 1000 / (of_int (b - a) :: rat)"
    by (intro divide_left_mono) auto
qed

lemma endToEnd_le_outputTPS:
  assumes "usageEventOutputTPS out lat ttft = Some v"
  shows "\<exists>w. usageEventEndToEndOutputTPS out lat = Some w \<and> w \<le> v \<and> 0 < w"
  using assms
proof (rule outputTPS_SomeD)
  fix t
  assume t: "0 < sint out" "0 < sint t" "sint t < sint lat"
    and v: "v = of_int (sint out) * 1000 / of_int (sint lat - sint t)"
  have lat: "0 < sint lat" using t by linarith
  show "\<exists>w. usageEventEndToEndOutputTPS out lat = Some w \<and> w \<le> v \<and> 0 < w"
    unfolding endToEndTPS_eq [OF t(1) lat] v using rate_mono [OF t] by blast
qed

section \<open>Cost of one attempt (repository/usage.go)\<close>

record modelPriceSetting =
  mp_Model :: string
  mp_PromptPricePer1M :: float64
  mp_CompletionPricePer1M :: float64
  mp_CachePricePer1M :: float64

definition calculateUsageEventCost :: "usageEvent \<Rightarrow> modelPriceSetting \<Rightarrow> float64 option" where
  "calculateUsageEventCost e pricing =
     (case interpretUsageAttempt e of
        None \<Rightarrow> None
      | Some i \<Rightarrow>
          (let facts = af_Accounting i
           in if ar_State facts \<noteq> AccountingValid \<or> ar_Quality facts \<noteq> Some ''complete'' then Some 0
              else
                (let promptTokens = optionalInt64Value (ti_UncachedTokens (ar_Input facts))
                       + optionalInt64Value (ti_CacheWriteTokens (ar_Input facts));
                     completionTokens = optionalInt64Value (to_TotalTokens (ar_Output facts));
                     cachedTokens = optionalInt64Value (ti_CacheReadTokens (ar_Input facts))
                 in Some (of_int (sint promptTokens) / 1000000 * mp_PromptPricePer1M pricing
                      + of_int (sint completionTokens) / 1000000 * mp_CompletionPricePer1M pricing
                      + of_int (sint cachedTokens) / 1000000 * mp_CachePricePer1M pricing))))"

definition usageEventHasCompleteAccounting :: "usageEvent \<Rightarrow> bool option" where
  "usageEventHasCompleteAccounting e =
     map_option (\<lambda>i. ar_State (af_Accounting i) = AccountingValid
       \<and> ar_Quality (af_Accounting i) = Some ''complete'') (interpretUsageAttempt e)"

record tokenStats =
  ts_InputTokens :: i64
  ts_OutputTokens :: i64
  ts_ReasoningTokens :: i64
  ts_CachedTokens :: i64
  ts_TotalTokens :: i64

text \<open>The outer option is the panic, the inner one the boolean the code returns beside the stats.\<close>

definition usageEventCanonicalTokenStats :: "usageEvent \<Rightarrow> tokenStats option option" where
  "usageEventCanonicalTokenStats e =
     map_option (\<lambda>i. let facts = af_Accounting i in
       if ar_State facts \<noteq> AccountingValid then None
       else Some \<lparr>ts_InputTokens = optionalInt64Value (ti_TotalTokens (ar_Input facts)),
              ts_OutputTokens = optionalInt64Value (to_TotalTokens (ar_Output facts)),
              ts_ReasoningTokens = optionalInt64Value (to_ReasoningTokens (ar_Output facts)),
              ts_CachedTokens = optionalInt64Value (ti_CacheReadTokens (ar_Input facts)),
              ts_TotalTokens = optionalInt64Value (ar_TotalTokens facts)\<rparr>)
       (interpretUsageAttempt e)"

lemma interpret_Accounting:
  "interpretUsageAttempt e = Some i \<Longrightarrow> af_Accounting i = af_Accounting (interpretBase e)"
  by (auto simp: interpretUsageAttempt_def Let_def split: if_splits option.splits)

text \<open>The reads of a validated record are its exact bucket values.\<close>

lemma wellFormed_values:
  assumes "accountingWellFormed f"
  shows "0 \<le> sint (optionalInt64Value (ua_UncachedTokens f))"
    "0 \<le> sint (optionalInt64Value (ua_CacheReadTokens f))"
    "0 \<le> sint (optionalInt64Value (ua_CacheWriteTokens f))"
    "0 \<le> sint (optionalInt64Value (ua_OutputTokens f))"
    "sint (optionalInt64Value (ua_InputTokens f)) =
       sint (optionalInt64Value (ua_UncachedTokens f))
       + sint (optionalInt64Value (ua_CacheReadTokens f))
       + sint (optionalInt64Value (ua_CacheWriteTokens f))"
  using assms by (auto simp: accountingWellFormed_def accountingBuckets_def)

section \<open>Properties\<close>

text \<open>
  C1. \<open>ValidateUsageAccounting\<close> accepts a record exactly when its quality is supported, all nine
  buckets are present and non-negative, the input, output and total buckets are the exact integer
  sums of their parts (no 64-bit overflow can fake an equality), and a complete record has no
  unclassified tokens.
\<close>

theorem validateUsageAccounting_correct:
  "validateUsageAccounting f = None \<longleftrightarrow> accountingWellFormed f"
  by (rule validate_None_iff)

text \<open>
  \<open>InterpretUsageAttempt\<close> never dereferences a missing bucket on an event the store accepts
  (facts absent, or validated), and when it reports both throughputs, the end-to-end rate is
  positive and at most the output rate.
\<close>

theorem interpretUsageAttempt_stored:
  assumes "accountingFactsAbsent (ev_UsageAccounting e) \<or>
           validateUsageAccounting (ev_UsageAccounting e) = None"
  shows "\<exists>facts. interpretUsageAttempt e = Some facts \<and>
    (\<forall>v. af_OutputTPS facts = Some v \<longrightarrow>
       (\<exists>w. af_EndToEndOutputTPS facts = Some w \<and> 0 < w \<and> w \<le> v))"
proof -
  have "interpretUsageAttempt e \<noteq> None"
    using assms interpret_validated_Some interpret_absent_Some by fastforce
  then obtain facts where facts: "interpretUsageAttempt e = Some facts" by blast
  have "\<exists>w. af_EndToEndOutputTPS facts = Some w \<and> 0 < w \<and> w \<le> v"
    if tps: "af_OutputTPS facts = Some v" for v
  proof -
    have "\<exists>out. usageEventOutputTPS out (ev_LatencyMS e) (ev_TTFTMS e) = Some v \<and>
        af_EndToEndOutputTPS facts = usageEventEndToEndOutputTPS out (ev_LatencyMS e)"
      using facts tps
      by (auto simp: interpretUsageAttempt_def interpretBase_def Let_def
          split: if_splits option.splits)
    then show ?thesis using endToEnd_le_outputTPS by fastforce
  qed
  with facts show ?thesis by blast
qed

definition sampleAccounting :: usageAccounting where
  "sampleAccounting =
     \<lparr>ua_AccountingState = AccountingValid, ua_TokenQuality = Some ''complete'',
      ua_TotalTokens = Some 15, ua_InputTokens = Some 10, ua_UncachedTokens = Some 6,
      ua_CacheReadTokens = Some 3, ua_CacheWriteTokens = Some 1, ua_OutputTokens = Some 5,
      ua_NonReasoningTokens = Some 5, ua_ReasoningTokens = Some 0,
      ua_UnclassifiedTokens = Some 0\<rparr>"

definition sampleEvent :: usageEvent where
  "sampleEvent =
     \<lparr>ev_ID = 0, ev_EventKey = ''redis-inbox:1'', ev_APIGroupKey = ''sk-a'',
      ev_Provider = ''openai'', ev_Endpoint = ''/v1'', ev_AuthType = ''apikey'',
      ev_RequestID = [], ev_Model = ''m'', ev_ModelAlias = None, ev_Timestamp = 0,
      ev_Source = ''sk-a'', ev_AuthIndex = ''1'', ev_Failed = False, ev_StatusCode = 0,
      ev_ExecutorType = [], ev_ReasoningEffort = [], ev_ServiceTier = [],
      ev_LatencyMS = 2000, ev_TTFTMS = Some 1000, ev_UsageAccounting = sampleAccounting,
      ev_Generate = Some True, ev_Stream = Some True, ev_ResponseServiceTier = None\<rparr>"

lemma sample_validated: "validateUsageAccounting sampleAccounting = None"
  by (simp add: validateUsageAccounting_def sampleAccounting_def accountingBuckets_def
      accountingSumEquals_def max_i64_def word_sless_alt)

lemma interpretUsageAttempt_stored_witness:
  "\<exists>facts. interpretUsageAttempt sampleEvent = Some facts \<and> af_OutputTPS facts = Some 5 \<and>
     (\<exists>w. af_EndToEndOutputTPS facts = Some w \<and> 0 < w \<and> w \<le> 5)"
proof -
  have ok: "validateUsageAccounting (ev_UsageAccounting sampleEvent) = None"
    by (simp add: sampleEvent_def sample_validated)
  have out: "\<exists>facts. interpretUsageAttempt sampleEvent = Some facts \<and> af_OutputTPS facts = Some 5"
    by (simp add: interpretUsageAttempt_def interpretBase_def sampleEvent_def sampleAccounting_def
        usageAccountingState_def accountingFactsAbsent_def usageEventOutputTPS_def word_sless_alt
        word_sle_eq Let_def)
  show ?thesis
    using interpretUsageAttempt_stored [OF disjI2 [OF ok]] out by auto
qed

text \<open>
  C2. The cost of a validated complete attempt is the linear form of its exact token counts: the
  uncached and the cache-write tokens at the prompt price, the output at the completion price, the
  cache reads at the cache price; the 64-bit sum of the prompt tokens does not wrap. An attempt
  of another quality costs nothing.
\<close>

theorem calculateUsageEventCost_exact:
  assumes "validateUsageAccounting (ev_UsageAccounting e) = None"
  shows "calculateUsageEventCost e pricing =
    Some (if ua_TokenQuality (ev_UsageAccounting e) = Some ''complete''
      then of_int (sint (optionalInt64Value (ua_UncachedTokens (ev_UsageAccounting e)))
             + sint (optionalInt64Value (ua_CacheWriteTokens (ev_UsageAccounting e))))
             / 1000000 * mp_PromptPricePer1M pricing
           + of_int (sint (optionalInt64Value (ua_OutputTokens (ev_UsageAccounting e))))
             / 1000000 * mp_CompletionPricePer1M pricing
           + of_int (sint (optionalInt64Value (ua_CacheReadTokens (ev_UsageAccounting e))))
             / 1000000 * mp_CachePricePer1M pricing
      else 0)"
proof -
  let ?f = "ev_UsageAccounting e"
  obtain i where i: "interpretUsageAttempt e = Some i"
    using interpret_validated_Some [OF assms] by blast
  have acc: "af_Accounting i = af_Accounting (interpretBase e)"
    by (rule interpret_Accounting [OF i])
  have wf: "accountingWellFormed ?f" using assms by (simp add: validate_None_iff)
  have "sint (optionalInt64Value (ua_UncachedTokens ?f) + optionalInt64Value (ua_CacheWriteTokens ?f))
      = sint (optionalInt64Value (ua_UncachedTokens ?f))
        + sint (optionalInt64Value (ua_CacheWriteTokens ?f))"
    using wellFormed_values [OF wf] sint_i64_bounds [of "optionalInt64Value (ua_InputTokens ?f)"]
    by (intro sint_add_i64) linarith+
  then have "(of_int (sint (optionalInt64Value (ua_UncachedTokens ?f)
          + optionalInt64Value (ua_CacheWriteTokens ?f))) :: rat)
      = of_int (sint (optionalInt64Value (ua_UncachedTokens ?f))
        + sint (optionalInt64Value (ua_CacheWriteTokens ?f)))"
    by (simp only:)
  then show ?thesis
    by (simp add: calculateUsageEventCost_def i acc interpretBase_def Let_def validate_state [OF assms])
qed

lemma calculateUsageEventCost_exact_witness:
  "calculateUsageEventCost sampleEvent
     \<lparr>mp_Model = ''m'', mp_PromptPricePer1M = 1000000, mp_CompletionPricePer1M = 2000000,
      mp_CachePricePer1M = 0\<rparr> = Some 17"
proof -
  have ok: "validateUsageAccounting (ev_UsageAccounting sampleEvent) = None"
    by (simp add: sampleEvent_def sample_validated)
  show ?thesis
    unfolding calculateUsageEventCost_exact [OF ok]
    by (simp add: sampleEvent_def sampleAccounting_def)
qed

end
