(* ===== verification/UsageMessage.thy ===== *)
theory UsageMessage
  imports Accounting
begin

text \<open>
  The queue message (\<open>service/redis\_usage.go\<close>, \<open>service/redis\_usage\_accounting.go\<close>,
  \<open>cpa/usage\_accounting.go\<close>): its schema, the validation of its accounting envelope, the
  replay-safe projection that is written to the inbox, and the decoder.

  The JSON codec of the schema (\<open>json.Unmarshal\<close> and \<open>json.Marshal\<close> of \<open>queuedUsageDetail\<close>) and
  SHA-256 are parameters; \<open>jsonCodec\<close> states what the code relies on.
\<close>

section \<open>Schema of the message\<close>

record usageTokenBreakdown =
  tb_SchemaVersion :: "i64 option"
  tb_Quality :: "string option"
  tb_TotalTokens :: "i64 option"
  tb_Input :: "usageTokenInput option"
  tb_Output :: "usageTokenOutput option"
  tb_UnclassifiedTokens :: "i64 option"

record usageAccountingFields =
  uf_AccountingVersion :: "i64 option"
  uf_TokenBreakdown :: "usageTokenBreakdown option"
  uf_Generate :: "bool option"
  uf_Stream :: "bool option"
  uf_ResponseServiceTier :: "string option"

text \<open>\<open>qd_Fail\<close> is the status code of the \<open>fail\<close> object, the only field of it that is kept.\<close>

record queuedUsageDetail =
  qd_Fields :: usageAccountingFields
  qd_Timestamp :: "instant option"
  qd_LatencyMS :: i64
  qd_TTFTMS :: "i64 option"
  qd_Source :: string
  qd_AuthIndex :: string
  qd_Failed :: bool
  qd_Fail :: "int option"
  qd_Provider :: string
  qd_ExecutorType :: string
  qd_Model :: string
  qd_Alias :: "string option"
  qd_Endpoint :: string
  qd_AuthType :: string
  qd_APIKey :: string
  qd_RequestID :: string
  qd_ReasoningEffort :: string
  qd_ServiceTier :: string

section \<open>Small helpers\<close>

fun firstNonEmpty :: "string list \<Rightarrow> string" where
  "firstNonEmpty [] = []"
| "firstNonEmpty (v # vs) =
     (let trimmed_v = trimSpace v in if trimmed_v \<noteq> [] then trimmed_v else firstNonEmpty vs)"

definition trimRedisOptionalString :: "string option \<Rightarrow> string option" where
  "trimRedisOptionalString v =
     (case v of
        None \<Rightarrow> None
      | Some s \<Rightarrow> (let t = trimSpace s in if t = [] then None else Some t))"

definition normalizeRedisAuthType :: "string \<Rightarrow> string" where
  "normalizeRedisAuthType value =
     (let lowered = toLower (trimSpace value);
          name = (if lowered = ''api_key'' then UsageIdentityAuthTypeNameAPIKey else lowered)
      in case parseUsageIdentityAuthType name of
           None \<Rightarrow> name
         | Some authType \<Rightarrow> (case canonicalName authType of None \<Rightarrow> [] | Some c \<Rightarrow> c))"

definition statusCode :: "queuedUsageDetail \<Rightarrow> int" where
  "statusCode d = (case qd_Fail d of None \<Rightarrow> 0 | Some c \<Rightarrow> c)"

definition smax0 :: "i64 \<Rightarrow> i64" where
  "smax0 v = (if v <s 0 then 0 else v)"

section \<open>Accounting envelope\<close>

text \<open>
  \<open>queuedAccountingFacts\<close> dereferences the breakdown and its two halves: \<open>None\<close> is that panic.
\<close>

definition queuedAccountingFacts :: "usageAccountingFields \<Rightarrow> usageAccounting option" where
  "queuedAccountingFacts d =
     (case uf_TokenBreakdown d of
        None \<Rightarrow> None
      | Some b \<Rightarrow>
          (case (tb_Input b, tb_Output b) of
             (Some i, Some out) \<Rightarrow>
               Some \<lparr>ua_AccountingState = [], ua_TokenQuality = tb_Quality b,
                 ua_TotalTokens = tb_TotalTokens b,
                 ua_InputTokens = ti_TotalTokens i, ua_UncachedTokens = ti_UncachedTokens i,
                 ua_CacheReadTokens = ti_CacheReadTokens i,
                 ua_CacheWriteTokens = ti_CacheWriteTokens i,
                 ua_OutputTokens = to_TotalTokens out,
                 ua_NonReasoningTokens = to_NonReasoningTokens out,
                 ua_ReasoningTokens = to_ReasoningTokens out,
                 ua_UnclassifiedTokens = tb_UnclassifiedTokens b\<rparr>
           | _ \<Rightarrow> None))"

datatype decodeError = JSONInvalid | EnvelopeRequired | VersionsMustBe2 | FactsInvalid | PoppedAtZero

definition validateQueuedAccounting :: "usageAccountingFields \<Rightarrow> decodeError option" where
  "validateQueuedAccounting d =
     (case uf_TokenBreakdown d of
        None \<Rightarrow> Some EnvelopeRequired
      | Some b \<Rightarrow>
          if uf_Generate d = None \<or> uf_Stream d = None \<or> tb_Input b = None \<or> tb_Output b = None
          then Some EnvelopeRequired
          else if uf_AccountingVersion d \<noteq> Some 2 \<or> tb_SchemaVersion b \<noteq> Some 2
          then Some VersionsMustBe2
          else
            (case queuedAccountingFacts d of
               None \<Rightarrow> Some FactsInvalid
             | Some facts \<Rightarrow>
                 if validateUsageAccounting facts \<noteq> None then Some FactsInvalid else None))"

section \<open>Projection and decoding\<close>

definition compactQueuedUsageDetail :: "queuedUsageDetail \<Rightarrow> queuedUsageDetail" where
  "compactQueuedUsageDetail d = d
     \<lparr>qd_Timestamp := (if qd_Timestamp d = Some zero_time then None else qd_Timestamp d),
      qd_Fail := (if qd_Fail d = Some 0 then None else qd_Fail d),
      qd_Source := trimSpace (qd_Source d),
      qd_AuthIndex := trimSpace (qd_AuthIndex d),
      qd_Provider := trimSpace (qd_Provider d),
      qd_ExecutorType := trimSpace (qd_ExecutorType d),
      qd_Model := trimSpace (qd_Model d),
      qd_Endpoint := trimSpace (qd_Endpoint d),
      qd_AuthType := trimSpace (qd_AuthType d),
      qd_APIKey := trimSpace (qd_APIKey d),
      qd_RequestID := trimSpace (qd_RequestID d),
      qd_ReasoningEffort := trimSpace (qd_ReasoningEffort d),
      qd_ServiceTier := trimSpace (qd_ServiceTier d),
      qd_Alias := trimRedisOptionalString (qd_Alias d)\<rparr>"

definition toUsageEvent :: "queuedUsageDetail \<Rightarrow> instant \<Rightarrow> usageEvent option" where
  "toUsageEvent d fallbackTimestamp =
     map_option (\<lambda>facts.
       \<lparr>ev_ID = 0, ev_EventKey = [],
        ev_APIGroupKey = firstNonEmpty [qd_APIKey d, qd_Provider d, qd_Endpoint d, ''unknown''],
        ev_Provider = trimSpace (qd_Provider d),
        ev_Endpoint = trimSpace (qd_Endpoint d),
        ev_AuthType = normalizeRedisAuthType (qd_AuthType d),
        ev_RequestID = trimSpace (qd_RequestID d),
        ev_Model = firstNonEmpty [qd_Model d, ''unknown''],
        ev_ModelAlias = trimRedisOptionalString (qd_Alias d),
        ev_Timestamp =
          (case qd_Timestamp d of
             Some t \<Rightarrow> if isZero t then fallbackTimestamp else t
           | None \<Rightarrow> fallbackTimestamp),
        ev_Source = trimSpace (qd_Source d),
        ev_AuthIndex = trimSpace (qd_AuthIndex d),
        ev_Failed = qd_Failed d,
        ev_StatusCode = statusCode d,
        ev_ExecutorType = trimSpace (qd_ExecutorType d),
        ev_ReasoningEffort = trimSpace (qd_ReasoningEffort d),
        ev_ServiceTier = trimSpace (qd_ServiceTier d),
        ev_LatencyMS = smax0 (qd_LatencyMS d),
        ev_TTFTMS = qd_TTFTMS d,
        ev_UsageAccounting = facts,
        ev_Generate = uf_Generate (qd_Fields d),
        ev_Stream = uf_Stream (qd_Fields d),
        ev_ResponseServiceTier = trimRedisOptionalString (uf_ResponseServiceTier (qd_Fields d))\<rparr>)
     (queuedAccountingFacts (qd_Fields d))"

type_synonym json_reader = "string \<Rightarrow> queuedUsageDetail option"
type_synonym json_writer = "queuedUsageDetail \<Rightarrow> string option"

text \<open>
  \<open>DecodeRedisUsageMessage\<close>: the outer option is the panic of \<open>toUsageEvent\<close>, the sum its error.
\<close>

definition decodeRedisUsageMessage ::
  "json_reader \<Rightarrow> string \<Rightarrow> instant \<Rightarrow> (decodeError + usageEvent) option" where
  "decodeRedisUsageMessage unmarshal message fallbackTimestamp =
     (case unmarshal message of
        None \<Rightarrow> Some (Inl JSONInvalid)
      | Some payload \<Rightarrow>
          (case validateQueuedAccounting (qd_Fields payload) of
             Some err \<Rightarrow> Some (Inl err)
           | None \<Rightarrow> map_option Inr (toUsageEvent payload fallbackTimestamp)))"

text \<open>\<open>json.Marshal\<close> of a string of plain ASCII letters, digits, blanks and \<open>=\<close>: the text in quotes.\<close>

definition quoteJSON :: "string \<Rightarrow> string" where
  "quoteJSON s = [CHR 0x22] @ s @ [CHR 0x22]"

definition redactedInvalidRedisUsageMessage :: "(string \<Rightarrow> string) \<Rightarrow> string \<Rightarrow> string" where
  "redactedInvalidRedisUsageMessage sha256 message =
     quoteJSON (''redacted invalid CPA usage message sha256='' @ hexEncode (sha256 message)
       @ '' bytes='' @ nat_digits (length message))"

text \<open>\<open>None\<close> is the error of \<open>json.Marshal\<close>.\<close>

definition replaySafeRedisUsageMessage ::
  "json_reader \<Rightarrow> json_writer \<Rightarrow> (string \<Rightarrow> string) \<Rightarrow> string \<Rightarrow> string option" where
  "replaySafeRedisUsageMessage unmarshal marshal sha256 message =
     (case unmarshal message of
        None \<Rightarrow> Some (redactedInvalidRedisUsageMessage sha256 message)
      | Some payload \<Rightarrow>
          if validateQueuedAccounting (qd_Fields payload) \<noteq> None
          then Some (redactedInvalidRedisUsageMessage sha256 message)
          else marshal (compactQueuedUsageDetail payload))"

text \<open>
  What the code relies on of \<open>encoding/json\<close>: a value that was read, once trimmed, can be written,
  and reading what was written gives it back; a JSON string does not decode as the struct.
\<close>

definition jsonCodec :: "json_reader \<Rightarrow> json_writer \<Rightarrow> bool" where
  "jsonCodec unmarshal marshal \<longleftrightarrow>
     (\<forall>m p. unmarshal m = Some p \<longrightarrow>
        (\<exists>s. marshal (compactQueuedUsageDetail p) = Some s \<and>
             unmarshal s = Some (compactQueuedUsageDetail p))) \<and>
     (\<forall>s. unmarshal (quoteJSON s) = None)"

section \<open>Lemmas\<close>

lemma firstNonEmpty_trimmed: "trimmed (firstNonEmpty vs)"
proof (induction vs)
  case Nil
  show ?case using trimmed_trimSpace [of "[]"] by simp
next
  case (Cons v vs)
  then show ?case by (simp add: Let_def)
qed

lemma firstNonEmpty_default:
  "trimSpace d \<noteq> [] \<Longrightarrow> d \<in> set vs \<Longrightarrow> firstNonEmpty vs \<noteq> []"
  by (induction vs) (auto simp: Let_def)

lemma firstNonEmpty_trimSpace [simp]:
  "firstNonEmpty (map trimSpace vs) = firstNonEmpty vs"
  by (induction vs) (simp_all add: Let_def)

lemma firstNonEmpty_Cons_trimSpace [simp]:
  "firstNonEmpty (trimSpace v # vs) = firstNonEmpty (v # vs)"
  by (simp add: Let_def)

lemma trimRedisOptionalString_idem [simp]:
  "trimRedisOptionalString (trimRedisOptionalString v) = trimRedisOptionalString v"
  by (cases v) (simp_all add: trimRedisOptionalString_def Let_def)

lemma normalizeRedisAuthType_trim [simp]:
  "normalizeRedisAuthType (trimSpace v) = normalizeRedisAuthType v"
  by (simp add: normalizeRedisAuthType_def)

text \<open>A value the identity projections own is stored under its canonical name.\<close>

lemma normalizeRedisAuthType_parse:
  assumes "parseUsageIdentityAuthType (normalizeRedisAuthType v) = Some a"
  shows "canonicalName a = Some (normalizeRedisAuthType v)"
proof -
  define lowered where "lowered = toLower (trimSpace v)"
  define name where
    "name = (if lowered = ''api_key'' then UsageIdentityAuthTypeNameAPIKey else lowered)"
  have unf: "normalizeRedisAuthType v =
      (case parseUsageIdentityAuthType name of None \<Rightarrow> name
       | Some authType \<Rightarrow> (case canonicalName authType of None \<Rightarrow> [] | Some c \<Rightarrow> c))"
    unfolding normalizeRedisAuthType_def name_def lowered_def Let_def by (rule refl)
  show ?thesis
  proof (cases "parseUsageIdentityAuthType name")
    case None
    with unf assms show ?thesis by simp
  next
    case (Some b)
    then obtain c where c: "canonicalName b = Some c"
      by (auto simp: parseUsageIdentityAuthType_def canonicalName_def auth_type_defs
          split: if_splits)
    with Some unf have "normalizeRedisAuthType v = c" by simp
    with assms parse_canonicalName [OF c] c show ?thesis by simp
  qed
qed

lemma smax0_nonneg [simp]: "0 \<le>s smax0 v"
  by (simp add: smax0_def i64_order)

lemma compact_Fields [simp]: "qd_Fields (compactQueuedUsageDetail d) = qd_Fields d"
  by (simp add: compactQueuedUsageDetail_def)

lemma compact_idem: "compactQueuedUsageDetail (compactQueuedUsageDetail d) = compactQueuedUsageDetail d"
  by (simp add: compactQueuedUsageDetail_def)

lemma compact_statusCode [simp]: "statusCode (compactQueuedUsageDetail d) = statusCode d"
  by (simp add: statusCode_def compactQueuedUsageDetail_def)

text \<open>The decoder reads the same event from a message and from its compacted form.\<close>

lemma toUsageEvent_compact [simp]:
  "toUsageEvent (compactQueuedUsageDetail d) fb = toUsageEvent d fb"
  unfolding toUsageEvent_def compact_Fields compact_statusCode
  by (rule arg_cong [where f = "\<lambda>f. map_option f (queuedAccountingFacts (qd_Fields d))"])
    (simp add: compactQueuedUsageDetail_def isZero_def Let_def split: option.split)

lemma validateQueued_facts:
  assumes "validateQueuedAccounting d = None"
  obtains facts where "queuedAccountingFacts d = Some facts"
    "validateUsageAccounting facts = None" "uf_Generate d \<noteq> None" "uf_Stream d \<noteq> None"
  using assms
  by (auto simp: validateQueuedAccounting_def split: option.splits if_splits)

text \<open>So the decoder never panics.\<close>

lemma decode_total: "decodeRedisUsageMessage unmarshal m fb \<noteq> None"
  by (auto simp: decodeRedisUsageMessage_def toUsageEvent_def split: option.split
      elim: validateQueued_facts)

lemma decode_InrE:
  assumes "decodeRedisUsageMessage unmarshal m fb = Some (Inr e)"
  obtains p facts where "unmarshal m = Some p" "validateQueuedAccounting (qd_Fields p) = None"
    "toUsageEvent p fb = Some e" "ev_UsageAccounting e = facts"
    "queuedAccountingFacts (qd_Fields p) = Some facts" "validateUsageAccounting facts = None"
proof -
  from assms obtain p where p: "unmarshal m = Some p" "validateQueuedAccounting (qd_Fields p) = None"
      "toUsageEvent p fb = Some e"
    by (auto simp: decodeRedisUsageMessage_def split: option.splits)
  from p(2) obtain facts where "queuedAccountingFacts (qd_Fields p) = Some facts"
      "validateUsageAccounting facts = None"
    by (rule validateQueued_facts)
  moreover from this p(3) have "ev_UsageAccounting e = facts"
    by (auto simp: toUsageEvent_def)
  ultimately show thesis using p that by blast
qed

lemma decode_validated:
  "decodeRedisUsageMessage unmarshal m fb = Some (Inr e) \<Longrightarrow>
     validateUsageAccounting (ev_UsageAccounting e) = None"
  by (elim decode_InrE) simp

lemma decode_redacted:
  "jsonCodec unmarshal marshal \<Longrightarrow>
     decodeRedisUsageMessage unmarshal (redactedInvalidRedisUsageMessage sha256 m) fb
       = Some (Inl JSONInvalid)"
  by (simp add: jsonCodec_def decodeRedisUsageMessage_def redactedInvalidRedisUsageMessage_def)

lemma replaySafe_valid:
  assumes codec: "jsonCodec unmarshal marshal"
    and dec: "decodeRedisUsageMessage unmarshal m fb = Some (Inr e)"
  shows "\<exists>s. replaySafeRedisUsageMessage unmarshal marshal sha256 m = Some s \<and>
    (\<forall>fb'. decodeRedisUsageMessage unmarshal s fb' = decodeRedisUsageMessage unmarshal m fb')"
  using dec
proof (rule decode_InrE)
  fix p facts
  assume p: "unmarshal m = Some p" "validateQueuedAccounting (qd_Fields p) = None"
  from codec p(1) obtain s where s: "marshal (compactQueuedUsageDetail p) = Some s"
      "unmarshal s = Some (compactQueuedUsageDetail p)"
    unfolding jsonCodec_def by blast
  have "replaySafeRedisUsageMessage unmarshal marshal sha256 m = Some s"
    using p s by (simp add: replaySafeRedisUsageMessage_def)
  moreover have "decodeRedisUsageMessage unmarshal s fb' = decodeRedisUsageMessage unmarshal m fb'"
    for fb'
    using p s by (simp add: decodeRedisUsageMessage_def)
  ultimately show ?thesis by blast
qed

lemma replaySafe_invalid:
  assumes "decodeRedisUsageMessage unmarshal m fb = Some (Inl err)"
  shows "replaySafeRedisUsageMessage unmarshal marshal sha256 m =
    Some (redactedInvalidRedisUsageMessage sha256 m)"
proof -
  have "unmarshal m = None \<or> (\<exists>p. unmarshal m = Some p \<and> validateQueuedAccounting (qd_Fields p) \<noteq> None)"
    using assms by (auto simp: decodeRedisUsageMessage_def split: option.splits)
  then show ?thesis by (auto simp: replaySafeRedisUsageMessage_def)
qed

lemma replaySafe_total:
  assumes "jsonCodec unmarshal marshal"
  shows "replaySafeRedisUsageMessage unmarshal marshal sha256 m \<noteq> None"
proof (cases "decodeRedisUsageMessage unmarshal m 0")
  case None
  then show ?thesis using decode_total by blast
next
  case (Some r)
  show ?thesis
  proof (cases r)
    case (Inl err)
    with Some show ?thesis by (simp add: replaySafe_invalid)
  next
    case (Inr e)
    with Some show ?thesis using replaySafe_valid [OF assms, of m 0 e sha256] by auto
  qed
qed

section \<open>Properties\<close>

text \<open>
  C3. The replay-safe projection loses nothing the decoder reads: if a popped message decodes to an
  event, then the text stored in its place exists and decodes to the same result, whatever the
  fallback time.
\<close>

theorem replaySafe_preserves_decoding:
  assumes "jsonCodec unmarshal marshal"
    and "decodeRedisUsageMessage unmarshal m fb = Some (Inr e)"
  shows "\<exists>s. replaySafeRedisUsageMessage unmarshal marshal sha256 m = Some s \<and>
    (\<forall>fb'. decodeRedisUsageMessage unmarshal s fb' = decodeRedisUsageMessage unmarshal m fb')"
  using assms by (rule replaySafe_valid)

text \<open>
  A message that does not decode is replaced by a marker that is built from its SHA-256 digest and
  its length only, and that fails to decode as well, so the row ends as a decoding failure.
\<close>

theorem replaySafe_redacts_invalid:
  assumes "jsonCodec unmarshal marshal"
    and "decodeRedisUsageMessage unmarshal m fb = Some (Inl err)"
  shows "\<exists>s. replaySafeRedisUsageMessage unmarshal marshal sha256 m = Some s \<and>
    (\<forall>fb'. decodeRedisUsageMessage unmarshal s fb' = Some (Inl JSONInvalid)) \<and>
    (\<forall>m'. sha256 m' = sha256 m \<and> length m' = length m \<longrightarrow>
       redactedInvalidRedisUsageMessage sha256 m' = s)"
proof (intro exI conjI allI impI)
  show "replaySafeRedisUsageMessage unmarshal marshal sha256 m =
      Some (redactedInvalidRedisUsageMessage sha256 m)"
    using assms(2) by (rule replaySafe_invalid)
  show "decodeRedisUsageMessage unmarshal (redactedInvalidRedisUsageMessage sha256 m) fb' =
      Some (Inl JSONInvalid)" for fb'
    using assms(1) by (rule decode_redacted)
  show "redactedInvalidRedisUsageMessage sha256 m' = redactedInvalidRedisUsageMessage sha256 m"
    if "sha256 m' = sha256 m \<and> length m' = length m" for m'
    using that by (simp add: redactedInvalidRedisUsageMessage_def)
qed

text \<open>
  Every message decodes to an event or to an error, never to a panic; and a decoded event is
  normalised: its accounting is validated, so its interpretation cannot fail, its latency is not negative, its model and group
  key are trimmed and not empty, and its authentication kind, when it is one of the two the
  identities own, is written under its canonical name.
\<close>

theorem decodeRedisUsageMessage_normalised:
  "\<exists>r. decodeRedisUsageMessage unmarshal m fb = Some r \<and>
    (case r of
       Inl err \<Rightarrow> True
     | Inr e \<Rightarrow>
         validateUsageAccounting (ev_UsageAccounting e) = None \<and>
         interpretUsageAttempt e \<noteq> None \<and>
         0 \<le>s ev_LatencyMS e \<and>
         trimmed (ev_Model e) \<and> ev_Model e \<noteq> [] \<and>
         trimmed (ev_APIGroupKey e) \<and> ev_APIGroupKey e \<noteq> [] \<and>
         (case parseUsageIdentityAuthType (ev_AuthType e) of
            None \<Rightarrow> True
          | Some a \<Rightarrow> canonicalName a = Some (ev_AuthType e)))"
proof -
  obtain r where r: "decodeRedisUsageMessage unmarshal m fb = Some r"
    using decode_total by blast
  show ?thesis
  proof (cases r)
    case (Inl err)
    with r show ?thesis by simp
  next
    case (Inr e)
    with r have dec: "decodeRedisUsageMessage unmarshal m fb = Some (Inr e)" by simp
    then obtain p where p: "toUsageEvent p fb = Some e" by (rule decode_InrE)
    then obtain facts where facts: "queuedAccountingFacts (qd_Fields p) = Some facts"
      by (cases "queuedAccountingFacts (qd_Fields p)") (simp_all add: toUsageEvent_def)
    have fields: "ev_LatencyMS e = smax0 (qd_LatencyMS p)"
        "ev_Model e = firstNonEmpty [qd_Model p, ''unknown'']"
        "ev_APIGroupKey e = firstNonEmpty [qd_APIKey p, qd_Provider p, qd_Endpoint p, ''unknown'']"
        "ev_AuthType e = normalizeRedisAuthType (qd_AuthType p)"
      using p facts by (auto simp: toUsageEvent_def simp del: firstNonEmpty.simps)
    have unknown: "trimSpace ''unknown'' \<noteq> []"
      by (subst trimSpace_id) (simp_all add: trimmed_def ws_seqs_def)
    have "case parseUsageIdentityAuthType (ev_AuthType e) of
        None \<Rightarrow> True | Some a \<Rightarrow> canonicalName a = Some (ev_AuthType e)"
      using normalizeRedisAuthType_parse [of "qd_AuthType p"] fields(4)
      by (auto split: option.split)
    moreover have "ev_Model e \<noteq> []" "ev_APIGroupKey e \<noteq> []"
      unfolding fields by (rule firstNonEmpty_default [OF unknown], simp)+
    moreover have "trimmed (ev_Model e)" "trimmed (ev_APIGroupKey e)"
      unfolding fields by (rule firstNonEmpty_trimmed)+
    moreover have "0 \<le>s ev_LatencyMS e" by (simp add: fields(1))
    ultimately show ?thesis
      using r Inr decode_validated [OF dec]
        interpret_validated_Some [OF decode_validated [OF dec]] by simp
  qed
qed

text \<open>A codec that reads one complete message and its compacted form.\<close>

definition sampleDetail :: queuedUsageDetail where
  "sampleDetail =
     \<lparr>qd_Fields = \<lparr>uf_AccountingVersion = Some 2,
        uf_TokenBreakdown = Some \<lparr>tb_SchemaVersion = Some 2, tb_Quality = Some ''complete'',
          tb_TotalTokens = Some 15,
          tb_Input = Some \<lparr>ti_TotalTokens = Some 10, ti_UncachedTokens = Some 6,
            ti_CacheReadTokens = Some 3, ti_CacheWriteTokens = Some 1\<rparr>,
          tb_Output = Some \<lparr>to_TotalTokens = Some 5, to_NonReasoningTokens = Some 5,
            to_ReasoningTokens = Some 0\<rparr>,
          tb_UnclassifiedTokens = Some 0\<rparr>,
        uf_Generate = Some True, uf_Stream = Some True, uf_ResponseServiceTier = None\<rparr>,
      qd_Timestamp = Some zero_time, qd_LatencyMS = 2000, qd_TTFTMS = Some 1000,
      qd_Source = ''sk-a'', qd_AuthIndex = ''1'', qd_Failed = False, qd_Fail = Some 0,
      qd_Provider = ''openai '', qd_ExecutorType = [], qd_Model = ''m'', qd_Alias = Some [],
      qd_Endpoint = ''/v1'', qd_AuthType = ''api_key'', qd_APIKey = ''sk-a'', qd_RequestID = [],
      qd_ReasoningEffort = [], qd_ServiceTier = []\<rparr>"

definition sampleRead :: json_reader where
  "sampleRead s =
     (if s = ''{0}'' then Some sampleDetail
      else if s = ''{1}'' then Some (compactQueuedUsageDetail sampleDetail) else None)"

definition sampleWrite :: json_writer where
  "sampleWrite d = (if d = compactQueuedUsageDetail sampleDetail then Some ''{1}'' else None)"

lemma sample_jsonCodec: "jsonCodec sampleRead sampleWrite"
  by (auto simp: jsonCodec_def sampleRead_def sampleWrite_def compact_idem quoteJSON_def)

lemma sample_decodes: "\<exists>e. decodeRedisUsageMessage sampleRead ''{0}'' 7 = Some (Inr e) \<and> ev_Timestamp e = 7"
proof -
  have "queuedAccountingFacts (qd_Fields sampleDetail) =
      Some (sampleAccounting\<lparr>ua_AccountingState := []\<rparr>)"
    by (simp add: queuedAccountingFacts_def sampleDetail_def sampleAccounting_def)
  moreover have "validateUsageAccounting (sampleAccounting\<lparr>ua_AccountingState := []\<rparr>) = None"
    by (simp add: validateUsageAccounting_def sampleAccounting_def accountingBuckets_def
        accountingSumEquals_def max_i64_def word_sless_alt)
  ultimately have "validateQueuedAccounting (qd_Fields sampleDetail) = None"
    by (simp add: validateQueuedAccounting_def) (simp add: sampleDetail_def)
  then show ?thesis
    by (simp add: decodeRedisUsageMessage_def sampleRead_def)
      (simp add: toUsageEvent_def queuedAccountingFacts_def sampleDetail_def isZero_def)
qed

lemma replaySafe_preserves_decoding_witness:
  "\<exists>s. replaySafeRedisUsageMessage sampleRead sampleWrite (\<lambda>_. []) ''{0}'' = Some s \<and>
    (\<forall>fb. decodeRedisUsageMessage sampleRead s fb = decodeRedisUsageMessage sampleRead ''{0}'' fb)"
  using sample_decodes replaySafe_preserves_decoding [OF sample_jsonCodec] by blast

lemma replaySafe_redacts_invalid_witness:
  "\<exists>s. replaySafeRedisUsageMessage sampleRead sampleWrite (\<lambda>_. []) ''bad'' = Some s \<and>
    (\<forall>fb. decodeRedisUsageMessage sampleRead s fb = Some (Inl JSONInvalid))"
proof -
  have "decodeRedisUsageMessage sampleRead ''bad'' 0 = Some (Inl JSONInvalid)"
    by (simp add: decodeRedisUsageMessage_def sampleRead_def)
  from replaySafe_redacts_invalid [OF sample_jsonCodec this] show ?thesis by blast
qed

end
