(* ===== verification/Tables.thy ===== *)
theory Tables
  imports Prelude
begin

text \<open>
  SQL tables with an integer primary key, as the repository layer uses them: rows in ascending
  order of their \<open>AUTOINCREMENT\<close> key and the next key, which is never reused. A statement is a
  function on the table; a failed statement or transaction leaves the table as it was. Also the
  batching of statements below SQLite's limit of bound variables (\<open>repository/batch.go\<close>).
\<close>

section \<open>Tables\<close>

record 'r table =
  tbl_rows :: "(nat \<times> 'r) list"
  tbl_next :: nat

definition emptyTable :: "'r table" where
  "emptyTable = \<lparr>tbl_rows = [], tbl_next = 1\<rparr>"

definition tableOK :: "'r table \<Rightarrow> bool" where
  "tableOK t \<longleftrightarrow> sorted_wrt (<) (map fst (tbl_rows t)) \<and>
     (\<forall>i \<in> fst ` set (tbl_rows t). 0 < i \<and> i < tbl_next t) \<and> 0 < tbl_next t"

definition lookupRow :: "'r table \<Rightarrow> nat \<Rightarrow> 'r option" where
  "lookupRow t = map_of (tbl_rows t)"

definition newRows :: "'r table \<Rightarrow> 'r list \<Rightarrow> (nat \<times> 'r) list" where
  "newRows t rs = zip [tbl_next t..<tbl_next t + length rs] rs"

definition insertRows :: "'r list \<Rightarrow> 'r table \<Rightarrow> 'r table" where
  "insertRows rs t =
     t\<lparr>tbl_rows := tbl_rows t @ newRows t rs, tbl_next := tbl_next t + length rs\<rparr>"

definition updateWhere :: "(nat \<Rightarrow> 'r \<Rightarrow> bool) \<Rightarrow> (nat \<Rightarrow> 'r \<Rightarrow> 'r) \<Rightarrow> 'r table \<Rightarrow> 'r table" where
  "updateWhere P f t =
     t\<lparr>tbl_rows := map (\<lambda>(i, r). (i, if P i r then f i r else r)) (tbl_rows t)\<rparr>"

definition selectWhere :: "(nat \<Rightarrow> 'r \<Rightarrow> bool) \<Rightarrow> 'r table \<Rightarrow> (nat \<times> 'r) list" where
  "selectWhere P t = filter (\<lambda>(i, r). P i r) (tbl_rows t)"

definition deleteWhere :: "(nat \<Rightarrow> 'r \<Rightarrow> bool) \<Rightarrow> 'r table \<Rightarrow> 'r table" where
  "deleteWhere P t = t\<lparr>tbl_rows := filter (\<lambda>(i, r). \<not> P i r) (tbl_rows t)\<rparr>"

text \<open>\<open>LIMIT\<close> is added only for a positive limit.\<close>

definition limitRows :: "int \<Rightarrow> 'a list \<Rightarrow> 'a list" where
  "limitRows limit rs = (if 0 < limit then take (nat limit) rs else rs)"

lemma tableOK_empty [simp]: "tableOK emptyTable"
  by (simp add: tableOK_def emptyTable_def)

lemma tableOK_distinct: "tableOK t \<Longrightarrow> distinct (map fst (tbl_rows t))"
  by (simp add: tableOK_def strict_sorted_iff)

lemma lookup_mem: "tableOK t \<Longrightarrow> lookupRow t i = Some r \<longleftrightarrow> (i, r) \<in> set (tbl_rows t)"
  by (simp add: lookupRow_def tableOK_distinct)

lemma lookup_bound: "tableOK t \<Longrightarrow> lookupRow t i = Some r \<Longrightarrow> 0 < i \<and> i < tbl_next t"
  by (auto simp: lookup_mem tableOK_def)

lemma lookup_next: "tableOK t \<Longrightarrow> tbl_next t \<le> i \<Longrightarrow> lookupRow t i = None"
  by (cases "lookupRow t i") (auto dest: lookup_bound)

lemma newRows_ids [simp]: "map fst (newRows t rs) = [tbl_next t..<tbl_next t + length rs]"
  by (simp add: newRows_def)

lemma newRows_data [simp]: "map snd (newRows t rs) = rs"
  by (simp add: newRows_def)

lemma length_newRows [simp]: "length (newRows t rs) = length rs"
  by (simp add: newRows_def)

lemma newRows_mem:
  "(i, r) \<in> set (newRows t rs) \<longleftrightarrow>
     tbl_next t \<le> i \<and> i < tbl_next t + length rs \<and> r = rs ! (i - tbl_next t)"
proof
  assume "(i, r) \<in> set (newRows t rs)"
  then show "tbl_next t \<le> i \<and> i < tbl_next t + length rs \<and> r = rs ! (i - tbl_next t)"
    by (auto simp: newRows_def in_set_zip)
next
  assume "tbl_next t \<le> i \<and> i < tbl_next t + length rs \<and> r = rs ! (i - tbl_next t)"
  then show "(i, r) \<in> set (newRows t rs)"
    unfolding newRows_def in_set_zip
    by (intro exI [of _ "i - tbl_next t"]) auto
qed

lemma insertRows_ok [table_simps]:
  assumes "tableOK t"
  shows "tableOK (insertRows rs t)"
proof -
  have "sorted_wrt (<) (map fst (tbl_rows t) @ [tbl_next t..<tbl_next t + length rs])"
    unfolding sorted_wrt_append using assms by (auto simp: tableOK_def)
  then show ?thesis
    using assms by (auto simp: tableOK_def insertRows_def newRows_mem)
qed

lemma map_of_newRows:
  "map_of (newRows t rs) i =
    (if tbl_next t \<le> i \<and> i < tbl_next t + length rs then Some (rs ! (i - tbl_next t)) else None)"
proof (cases "tbl_next t \<le> i \<and> i < tbl_next t + length rs")
  case True
  have "distinct (map fst (newRows t rs))" by (simp add: distinct_upt)
  moreover from True have "(i, rs ! (i - tbl_next t)) \<in> set (newRows t rs)"
    by (simp add: newRows_mem)
  ultimately show ?thesis using True by (simp add: map_of_is_SomeI)
next
  case False
  then have "i \<notin> fst ` set (newRows t rs)" by (auto simp: newRows_mem)
  then have "map_of (newRows t rs) i = None" by (simp add: map_of_eq_None_iff)
  with False show ?thesis by auto
qed

lemma lookup_insertRows:
  assumes "tableOK t"
  shows "lookupRow (insertRows rs t) i =
    (if i < tbl_next t then lookupRow t i
     else if i < tbl_next t + length rs then Some (rs ! (i - tbl_next t)) else None)"
  using lookup_next [OF assms, of i]
  by (auto simp: lookupRow_def insertRows_def map_add_def map_of_newRows split: option.split)

lemma insertRows_append:
  "insertRows (xs @ ys) t = insertRows ys (insertRows xs t)"
proof -
  have "[tbl_next t..<tbl_next t + (length xs + length ys)] =
      [tbl_next t..<tbl_next t + length xs]
      @ [tbl_next t + length xs..<tbl_next t + length xs + length ys]"
    by (metis add.assoc le_add1 upt_add_eq_append)
  then show ?thesis by (simp add: insertRows_def newRows_def add.assoc)
qed

lemma insertRows_Nil [simp]: "insertRows [] t = t"
  by (simp add: insertRows_def newRows_def)

lemma map_of_map_pairs:
  "map_of (map (\<lambda>(i, r). (i, f i r)) rows) i = map_option (f i) (map_of rows i)"
  by (induction rows) auto

lemma lookup_updateWhere:
  "lookupRow (updateWhere P f t) i = map_option (\<lambda>r. if P i r then f i r else r) (lookupRow t i)"
  unfolding lookupRow_def updateWhere_def
  by (simp add: map_of_map_pairs [of "\<lambda>i r. if P i r then f i r else r"])

lemma updateWhere_ids [simp]: "map fst (tbl_rows (updateWhere P f t)) = map fst (tbl_rows t)"
  by (simp add: updateWhere_def o_def case_prod_beta)

lemma updateWhere_next [simp]: "tbl_next (updateWhere P f t) = tbl_next t"
  by (simp add: updateWhere_def)

lemma updateWhere_ok [table_simps]: "tableOK t \<Longrightarrow> tableOK (updateWhere P f t)"
  unfolding tableOK_def
  by (metis list.set_map updateWhere_ids updateWhere_next)

lemma deleteWhere_next [simp]: "tbl_next (deleteWhere P t) = tbl_next t"
  by (simp add: deleteWhere_def)

lemma deleteWhere_ok [table_simps]: "tableOK t \<Longrightarrow> tableOK (deleteWhere P t)"
  by (auto simp: tableOK_def deleteWhere_def sorted_wrt_map intro: sorted_wrt_filter)

lemma lookup_deleteWhere:
  assumes "tableOK t"
  shows "lookupRow (deleteWhere P t) i = Some r \<longleftrightarrow> lookupRow t i = Some r \<and> \<not> P i r"
  using assms by (auto simp: lookup_mem deleteWhere_ok) (auto simp: deleteWhere_def)

lemma lookup_selectWhere:
  "tableOK t \<Longrightarrow> (i, r) \<in> set (selectWhere P t) \<longleftrightarrow> lookupRow t i = Some r \<and> P i r"
  by (auto simp: lookup_mem selectWhere_def)

lemma selectWhere_sorted: "tableOK t \<Longrightarrow> sorted_wrt (<) (map fst (selectWhere P t))"
  by (auto simp: tableOK_def selectWhere_def sorted_wrt_map intro: sorted_wrt_filter)

lemma limitRows_prefix: "prefix (limitRows limit rs) rs"
  by (simp add: limitRows_def take_is_prefix)

lemma limitRows_mem: "x \<in> set (limitRows limit rs) \<Longrightarrow> x \<in> set rs"
  by (auto simp: limitRows_def dest: in_set_takeD split: if_splits)

lemma limitRows_length: "0 < limit \<Longrightarrow> int (length (limitRows limit rs)) \<le> limit"
  by (simp add: limitRows_def)

lemma limitRows_sorted:
  "sorted_wrt (<) (map fst rs) \<Longrightarrow> sorted_wrt (<) (map fst (limitRows limit rs))"
  by (simp add: limitRows_def sorted_wrt_take take_map [symmetric])

section \<open>Batches (repository/batch.go)\<close>

definition maxRepositoryInsertBatchSize :: int where "maxRepositoryInsertBatchSize = 900"
definition sqliteVariableLimit :: int where "sqliteVariableLimit = 999"

definition insertBatchSize :: "int \<Rightarrow> int" where
  \<comment> \<open>of the number of bound columns of the model, 0 when its schema cannot be parsed\<close>
  "insertBatchSize columnCount =
     (if columnCount \<le> 0 then maxRepositoryInsertBatchSize
      else let batchSize = sqliteVariableLimit div columnCount
           in if batchSize \<le> 0 then 1 else min maxRepositoryInsertBatchSize batchSize)"

text \<open>The slices \<open>xs[start:end]\<close> of a loop that steps by a positive batch size.\<close>

function batches :: "nat \<Rightarrow> 'a list \<Rightarrow> 'a list list" where
  "batches n xs = (if xs = [] \<or> n = 0 then [] else take n xs # batches n (drop n xs))"
  by pat_completeness auto
termination by (relation "measure (\<lambda>(n, xs). length xs)") auto

declare batches.simps [simp del]

lemma concat_batches [simp]: "0 < n \<Longrightarrow> concat (batches n xs) = xs"
  by (induction n xs rule: batches.induct) (subst batches.simps, simp)

lemma batches_length: "b \<in> set (batches n xs) \<Longrightarrow> length b \<le> n \<and> b \<noteq> []"
proof (induction n xs rule: batches.induct)
  case (1 n xs)
  then show ?case
    by (cases "xs = [] \<or> n = 0") (auto simp: batches.simps [of n xs])
qed

lemma insertBatchSize_pos: "0 < insertBatchSize c"
  by (simp add: insertBatchSize_def maxRepositoryInsertBatchSize_def Let_def)

lemma insertBatchSize_variables:
  assumes "0 < c" "c \<le> sqliteVariableLimit"
  shows "insertBatchSize c * c \<le> sqliteVariableLimit"
proof -
  have "1 \<le> sqliteVariableLimit div c"
    using assms pos_imp_zdiv_pos_iff [of c sqliteVariableLimit] by linarith
  then have "insertBatchSize c \<le> sqliteVariableLimit div c"
    using assms by (simp add: insertBatchSize_def Let_def)
  then have "insertBatchSize c * c \<le> (sqliteVariableLimit div c) * c"
    using assms by (simp add: mult_right_mono)
  also have "\<dots> \<le> sqliteVariableLimit"
    using assms by (metis div_mult_mod_eq le_add_same_cancel1 pos_mod_sign)
  finally show ?thesis .
qed

text \<open>A batched write is the unbatched one.\<close>

lemma fold_insert_batches:
  assumes "0 < n"
  shows "fold insertRows (batches n xs) t = insertRows xs t"
proof -
  have "fold insertRows bs t = insertRows (concat bs) t" for bs
    by (induction bs arbitrary: t) (simp_all add: insertRows_append)
  with assms show ?thesis by simp
qed

lemma updateWhere_cong:
  assumes "\<And>i r. (i, r) \<in> set (tbl_rows t) \<Longrightarrow>
    (if P i r then f i r else r) = (if Q i r then g i r else r)"
  shows "updateWhere P f t = updateWhere Q g t"
proof -
  have "map (\<lambda>(i, r). (i, if P i r then f i r else r)) (tbl_rows t) =
      map (\<lambda>(i, r). (i, if Q i r then g i r else r)) (tbl_rows t)"
    using assms by (intro map_cong) auto
  then show ?thesis by (simp add: updateWhere_def)
qed

lemma updateWhere_fuse:
  "updateWhere Q g (updateWhere P f t) =
     updateWhere (\<lambda>i r. True)
       (\<lambda>i r. let r' = (if P i r then f i r else r) in if Q i r' then g i r' else r') t"
proof -
  have "map (\<lambda>(i, r). (i, if Q i r then g i r else r))
        (map (\<lambda>(i, r). (i, if P i r then f i r else r)) rows) =
      map (\<lambda>(i, r). (i, let r' = (if P i r then f i r else r) in if Q i r' then g i r' else r'))
        rows" for rows
    by (induction rows) (auto simp: Let_def)
  then show ?thesis by (simp add: updateWhere_def)
qed

lemma updateWhere_none: "(\<And>i r. \<not> P i r) \<Longrightarrow> updateWhere P f t = t"
  by (simp add: updateWhere_def case_prod_beta)

lemma fold_updateWhere_ids:
  assumes "distinct (concat bs)"
  shows "fold (\<lambda>ids. updateWhere (\<lambda>i r. i \<in> set ids) f) bs t =
    updateWhere (\<lambda>i r. i \<in> set (concat bs)) f t"
  using assms
proof (induction bs arbitrary: t)
  case Nil
  show ?case by (simp add: updateWhere_none)
next
  case (Cons b bs)
  have "fold (\<lambda>ids. updateWhere (\<lambda>i r. i \<in> set ids) f) (b # bs) t =
    updateWhere (\<lambda>i r. i \<in> set (concat bs)) f (updateWhere (\<lambda>i r. i \<in> set b) f t)"
    using Cons by simp
  also have "\<dots> = updateWhere (\<lambda>i r. i \<in> set (concat (b # bs))) f t"
    unfolding updateWhere_fuse using Cons.prems by (intro updateWhere_cong) (auto simp: Let_def)
  finally show ?case .
qed

end
