(* ===== verification/Inbox.thy ===== *)
theory Inbox
  imports Tables Encodings
begin

text \<open>
  The inbox of popped messages (\<open>repository/redis\_usage\_inbox.go\<close>,
  \<open>repository/redis\_usage\_inbox\_metrics.go\<close>): a table of raw messages with a status, an attempt
  counter and the key of the event a message became. Every operation takes the time that gorm
  writes to \<open>created\_at\<close> and \<open>updated\_at\<close> as an argument.
\<close>

section \<open>Rows\<close>

datatype inboxStatus = Pending | Processed | DecodeFailed | ProcessFailed | Discarded

record inboxRow =
  ib_QueueKey :: string
  ib_MessageHash :: string
  ib_RawMessage :: string
  ib_Status :: inboxStatus
  ib_AttemptCount :: nat
  ib_LastError :: string
  ib_UsageEventKey :: string
  ib_PoppedAt :: instant
  ib_ProcessedAt :: "instant option"
  ib_CreatedAt :: instant
  ib_UpdatedAt :: instant

type_synonym inbox = "inboxRow table"

record inboxInsert =
  ii_QueueKey :: string
  ii_RawMessage :: string
  ii_PoppedAt :: instant

definition redisUsageInboxMaxErrorLength :: nat where "redisUsageInboxMaxErrorLength = 1024"
definition redisUsageInboxMaxProcessAttempts :: nat where "redisUsageInboxMaxProcessAttempts = 5"

definition processable :: "inboxRow \<Rightarrow> bool" where
  "processable r \<longleftrightarrow> ib_Status r = Pending \<or> ib_Status r = ProcessFailed"

section \<open>Bounded error texts\<close>

function cutToValid :: "string \<Rightarrow> string" where
  "cutToValid message = (if validString message then message else cutToValid (butlast message))"
  by pat_completeness auto
termination
proof (relation "measure length")
  fix message :: string
  assume "\<not> validString message"
  then have "message \<noteq> []" by auto
  then show "(butlast message, message) \<in> measure length" by simp
qed simp

declare cutToValid.simps [simp del]

definition boundedRedisUsageInboxError :: "string option \<Rightarrow> string" where
  "boundedRedisUsageInboxError err =
     (case err of
        None \<Rightarrow> []
      | Some message \<Rightarrow>
          if length message \<le> redisUsageInboxMaxErrorLength then message
          else cutToValid (take redisUsageInboxMaxErrorLength message))"

section \<open>Operations\<close>

definition inboxRowOf :: "(string \<Rightarrow> string) \<Rightarrow> instant \<Rightarrow> inboxInsert \<Rightarrow> inboxRow" where
  "inboxRowOf sha256 now input =
     \<lparr>ib_QueueKey = trimSpace (ii_QueueKey input),
      ib_MessageHash = hexEncode (sha256 (ii_RawMessage input)),
      ib_RawMessage = ii_RawMessage input,
      ib_Status = Pending, ib_AttemptCount = 0, ib_LastError = [], ib_UsageEventKey = [],
      ib_PoppedAt = ii_PoppedAt input, ib_ProcessedAt = None,
      ib_CreatedAt = now, ib_UpdatedAt = now\<rparr>"

text \<open>Eleven columns of the entity are bound by an insert; the key is not.\<close>

definition insertRedisUsageInboxMessages ::
  "(string \<Rightarrow> string) \<Rightarrow> instant \<Rightarrow> inboxInsert list \<Rightarrow> inbox \<Rightarrow> inbox \<times> (nat \<times> inboxRow) list" where
  "insertRedisUsageInboxMessages sha256 now inputs t =
     (if inputs = [] then (t, [])
      else let rows = map (inboxRowOf sha256 now) inputs
           in (fold insertRows (batches (nat (insertBatchSize 11)) rows) t, newRows t rows))"

definition markRedisUsageInboxProcessed ::
  "nat \<Rightarrow> string \<Rightarrow> instant \<Rightarrow> instant \<Rightarrow> inbox \<Rightarrow> inbox" where
  "markRedisUsageInboxProcessed rowID eventKey processedAt now =
     updateWhere (\<lambda>i r. i = rowID)
       (\<lambda>i r. r\<lparr>ib_Status := Processed, ib_UsageEventKey := eventKey,
                ib_ProcessedAt := Some processedAt, ib_LastError := [], ib_UpdatedAt := now\<rparr>)"

text \<open>One statement: \<open>CASE id\<close> takes the first mark of the row.\<close>

definition markProcessedBatch :: "(nat \<times> string) list \<Rightarrow> instant \<Rightarrow> inbox \<Rightarrow> inbox" where
  "markProcessedBatch marks processedAt =
     updateWhere (\<lambda>i r. i \<in> set (map fst marks))
       (\<lambda>i r. r\<lparr>ib_Status := Processed,
                ib_UsageEventKey :=
                  (case map_of marks i of None \<Rightarrow> ib_UsageEventKey r | Some key \<Rightarrow> key),
                ib_ProcessedAt := Some processedAt, ib_UpdatedAt := processedAt,
                ib_LastError := []\<rparr>)"

definition maxMarksPerBatch :: nat where
  "maxMarksPerBatch = nat ((sqliteVariableLimit - 3) div 3)"

definition markRedisUsageInboxProcessedBatch ::
  "(nat \<times> string) list \<Rightarrow> instant \<Rightarrow> inbox \<Rightarrow> inbox" where
  "markRedisUsageInboxProcessedBatch marks processedAt t =
     (if marks = [] then t
      else fold (\<lambda>b. markProcessedBatch b processedAt) (batches maxMarksPerBatch marks) t)"

definition failedRow :: "inboxStatus \<Rightarrow> string option \<Rightarrow> instant \<Rightarrow> inboxRow \<Rightarrow> inboxRow" where
  "failedRow status err now r =
     r\<lparr>ib_Status := status, ib_AttemptCount := ib_AttemptCount r + 1,
       ib_LastError := boundedRedisUsageInboxError err, ib_UpdatedAt := now\<rparr>"

definition markRedisUsageInboxFailed ::
  "nat \<Rightarrow> inboxStatus \<Rightarrow> string option \<Rightarrow> instant \<Rightarrow> inbox \<Rightarrow> inbox" where
  "markRedisUsageInboxFailed rowID status err now =
     updateWhere (\<lambda>i r. i = rowID) (\<lambda>i. failedRow status err now)"

definition markRedisUsageInboxDecodeFailed ::
  "nat \<Rightarrow> string option \<Rightarrow> instant \<Rightarrow> inbox \<Rightarrow> inbox" where
  "markRedisUsageInboxDecodeFailed rowID = markRedisUsageInboxFailed rowID DecodeFailed"

definition processFailedRow :: "string option \<Rightarrow> instant \<Rightarrow> inboxRow \<Rightarrow> inboxRow" where
  "processFailedRow err now r =
     r\<lparr>ib_Status :=
          (if ib_AttemptCount r + 1 \<ge> redisUsageInboxMaxProcessAttempts then Discarded
           else ProcessFailed),
       ib_AttemptCount := ib_AttemptCount r + 1,
       ib_LastError := boundedRedisUsageInboxError err, ib_UpdatedAt := now\<rparr>"

definition markRedisUsageInboxProcessFailed ::
  "nat \<Rightarrow> string option \<Rightarrow> instant \<Rightarrow> inbox \<Rightarrow> inbox" where
  "markRedisUsageInboxProcessFailed rowID err now =
     updateWhere (\<lambda>i r. i = rowID) (\<lambda>i. processFailedRow err now)"

definition maxIDsPerBatch :: nat where "maxIDsPerBatch = nat (sqliteVariableLimit - 5)"

definition markRedisUsageInboxProcessFailedBatch ::
  "nat list \<Rightarrow> string option \<Rightarrow> instant \<Rightarrow> inbox \<Rightarrow> inbox" where
  "markRedisUsageInboxProcessFailedBatch ids err now t =
     (if ids = [] then t
      else fold (\<lambda>b. updateWhere (\<lambda>i r. i \<in> set b) (\<lambda>i. processFailedRow err now))
             (batches maxIDsPerBatch ids) t)"

definition listProcessableRedisUsageInbox :: "int \<Rightarrow> inbox \<Rightarrow> (nat \<times> inboxRow) list" where
  "listProcessableRedisUsageInbox limit t = limitRows limit (selectWhere (\<lambda>i. processable) t)"

definition listPendingRedisUsageInbox :: "int \<Rightarrow> inbox \<Rightarrow> (nat \<times> inboxRow) list" where
  "listPendingRedisUsageInbox limit t =
     limitRows limit (selectWhere (\<lambda>i r. ib_Status r = Pending) t)"

definition countPendingRedisUsageInbox :: "inbox \<Rightarrow> nat" where
  "countPendingRedisUsageInbox t =
     length (selectWhere (\<lambda>i r. ib_Status r = Pending \<or> ib_Status r = ProcessFailed) t)"

record inboxBacklog =
  bl_PendingCount :: nat
  bl_OldestPoppedAt :: "instant option"

definition readRedisUsageInboxBacklog :: "inbox \<Rightarrow> inboxBacklog" where
  "readRedisUsageInboxBacklog t =
     \<lparr>bl_PendingCount = length (selectWhere (\<lambda>i. processable) t),
      bl_OldestPoppedAt =
        (case limitRows 1 (selectWhere (\<lambda>i. processable) t) of
           [] \<Rightarrow> None
         | (i, r) # _ \<Rightarrow> Some (ib_PoppedAt r))\<rparr>"

text \<open>
  Cleanup. The start of the local day is a parameter: it depends on the time zone of the process.
  The two deletions are separate statements; \<open>fault\<close> tells which one fails, if any.
\<close>

datatype cleanupFault = ProcessedDeleteFails | FailedDeleteFails

record cleanupResult =
  cl_ProcessedDeleted :: nat
  cl_FailedDeleted :: nat

definition processedExpired :: "instant \<Rightarrow> inboxRow \<Rightarrow> bool" where
  "processedExpired cutoff r \<longleftrightarrow>
     ib_Status r = Processed \<and>
     (case ib_ProcessedAt r of None \<Rightarrow> False | Some p \<Rightarrow> p < cutoff)"

definition failedExpired :: "instant \<Rightarrow> inboxRow \<Rightarrow> bool" where
  "failedExpired cutoff r \<longleftrightarrow>
     ib_Status r \<in> {DecodeFailed, ProcessFailed, Discarded} \<and> ib_UpdatedAt r < cutoff"

definition failedRetention :: duration where "failedRetention = 7 * 24 * hour"

definition cleanupRedisUsageInbox ::
  "(instant \<Rightarrow> instant) \<Rightarrow> cleanupFault option \<Rightarrow> instant \<Rightarrow> inbox \<Rightarrow>
     inbox \<times> cleanupResult \<times> cleanupFault option" where
  "cleanupRedisUsageInbox localDayStart fault now t =
     (let processedCutoff = localDayStart now;
          failedCutoff = now - failedRetention;
          result = \<lparr>cl_ProcessedDeleted = 0, cl_FailedDeleted = 0\<rparr>
      in if fault = Some ProcessedDeleteFails then (t, result, fault)
         else
           let t1 = deleteWhere (\<lambda>i. processedExpired processedCutoff) t;
               result1 = result\<lparr>cl_ProcessedDeleted :=
                 length (selectWhere (\<lambda>i. processedExpired processedCutoff) t)\<rparr>
           in if fault = Some FailedDeleteFails then (t1, result1, fault)
              else (deleteWhere (\<lambda>i. failedExpired failedCutoff) t1,
                    result1\<lparr>cl_FailedDeleted :=
                      length (selectWhere (\<lambda>i. failedExpired failedCutoff) t1)\<rparr>, None))"

section \<open>Lemmas: bounded errors\<close>

lemma cutToValid_valid [simp]: "validString (cutToValid s)"
  by (induction s rule: cutToValid.induct) (simp add: cutToValid.simps)

lemma cutToValid_prefix: "prefix (cutToValid s) s"
proof (induction s rule: cutToValid.induct)
  case (1 s)
  then show ?case
    by (cases "validString s")
      (auto simp: cutToValid.simps [of s] intro: prefix_order.trans [OF _ prefixeq_butlast])
qed

lemma cutToValid_longest:
  "k \<le> length s \<Longrightarrow> validString (take k s) \<Longrightarrow> k \<le> length (cutToValid s)"
proof (induction s rule: cutToValid.induct)
  case (1 s)
  show ?case
  proof (cases "validString s")
    case True
    with 1 show ?thesis by (simp add: cutToValid.simps [of s])
  next
    case False
    with 1(3) have "k \<noteq> length s" by auto
    with 1(2) have k: "k < length s" by simp
    with 1(3) have "validString (take k (butlast s))" by (simp add: take_butlast)
    with k 1(1) False show ?thesis by (simp add: cutToValid.simps [of s])
  qed
qed

text \<open>A valid text has a valid prefix within three bytes of any cut.\<close>

lemma valid_prefix_near:
  "validString s \<Longrightarrow> n \<le> length s \<Longrightarrow> \<exists>k \<le> n. n \<le> k + 3 \<and> validString (take k s)"
proof (induction s arbitrary: n rule: validString.induct)
  case (1 s)
  show ?case
  proof (cases "s = [] \<or> n < rune_width s")
    case True
    then have "n \<le> 3" using 1(3) rune_width_le_4 [of s] by auto
    then show ?thesis by (intro exI [of _ 0]) simp
  next
    case False
    let ?w = "rune_width s"
    from False 1(2) have w: "?w \<noteq> 0" and valid: "validString (drop ?w s)"
      by (auto simp: validString.simps [of s] split: if_splits)
    have "n - ?w \<le> length (drop ?w s)" using 1(3) by simp
    then obtain k where k: "k \<le> n - ?w" "n - ?w \<le> k + 3" "validString (take k (drop ?w s))"
      using 1(1) [OF _ w valid] False by blast
    have width: "rune_width (take (?w + k) s) = ?w"
      using rune_width_take [OF w, of "?w + k"] by simp
    have "take (?w + k) s \<noteq> []" using w rune_width_le_length [of s] by auto
    then have "validString (take (?w + k) s)"
      using width w k(3) by (subst validString.simps) (simp add: drop_take)
    then show ?thesis using k False by (intro exI [of _ "?w + k"]) auto
  qed
qed

lemma boundedError_length: "length (boundedRedisUsageInboxError err) \<le> redisUsageInboxMaxErrorLength"
proof (cases err)
  case (Some m)
  have "length (cutToValid (take redisUsageInboxMaxErrorLength m)) \<le> redisUsageInboxMaxErrorLength"
    using prefix_length_le [OF cutToValid_prefix [of "take redisUsageInboxMaxErrorLength m"]] by simp
  with Some show ?thesis by (simp add: boundedRedisUsageInboxError_def)
qed (simp add: boundedRedisUsageInboxError_def)

section \<open>Lemmas: invariant of the inbox\<close>

text \<open>The life of a row: what its status says of its attempts and of its processing time.\<close>

definition rowOK :: "inboxRow \<Rightarrow> bool" where
  "rowOK r \<longleftrightarrow>
     (case ib_Status r of
        Pending \<Rightarrow> ib_AttemptCount r = 0 \<and> ib_ProcessedAt r = None
      | ProcessFailed \<Rightarrow> 1 \<le> ib_AttemptCount r \<and> ib_AttemptCount r < redisUsageInboxMaxProcessAttempts
          \<and> ib_ProcessedAt r = None
      | Discarded \<Rightarrow> ib_AttemptCount r = redisUsageInboxMaxProcessAttempts \<and> ib_ProcessedAt r = None
      | DecodeFailed \<Rightarrow> 1 \<le> ib_AttemptCount r
          \<and> ib_AttemptCount r \<le> redisUsageInboxMaxProcessAttempts \<and> ib_ProcessedAt r = None
      | Processed \<Rightarrow> ib_AttemptCount r < redisUsageInboxMaxProcessAttempts \<and> ib_ProcessedAt r \<noteq> None) \<and>
     length (ib_LastError r) \<le> redisUsageInboxMaxErrorLength"

definition inboxOK :: "inbox \<Rightarrow> bool" where
  "inboxOK t \<longleftrightarrow> tableOK t \<and> (\<forall>i r. lookupRow t i = Some r \<longrightarrow> rowOK r)"

lemma inboxOK_table: "inboxOK t \<Longrightarrow> tableOK t"
  by (simp add: inboxOK_def)

lemma inboxOK_empty: "inboxOK emptyTable"
  by (simp add: inboxOK_def lookupRow_def) (simp add: emptyTable_def)

text \<open>The ids of the rows that may still be processed: the only ones the marks are applied to.\<close>

definition processableIDs :: "inbox \<Rightarrow> nat set" where
  "processableIDs t = {i. \<exists>r. lookupRow t i = Some r \<and> processable r}"

lemma processable_listed:
  assumes "tableOK t" "(i, r) \<in> set (listProcessableRedisUsageInbox limit t)"
  shows "lookupRow t i = Some r" "processable r" "i \<in> processableIDs t"
proof -
  have "(i, r) \<in> set (selectWhere (\<lambda>i. processable) t)"
    using assms(2) unfolding listProcessableRedisUsageInbox_def by (rule limitRows_mem)
  then show "lookupRow t i = Some r" "processable r"
    using assms(1) by (simp_all add: lookup_selectWhere)
  then show "i \<in> processableIDs t" by (auto simp: processableIDs_def)
qed

lemma update_inboxOK:
  assumes "inboxOK t"
    and "\<And>i r. lookupRow t i = Some r \<Longrightarrow> rowOK r \<Longrightarrow> P i r \<Longrightarrow> rowOK (f i r)"
  shows "inboxOK (updateWhere P f t)"
  using assms by (auto simp: inboxOK_def updateWhere_ok lookup_updateWhere)

lemma processed_rowOK:
  assumes "rowOK r" "processable r"
  shows "rowOK (r\<lparr>ib_Status := Processed, ib_UsageEventKey := k, ib_ProcessedAt := Some p,
      ib_UpdatedAt := u, ib_LastError := []\<rparr>)"
  using assms
  by (cases "ib_Status r")
    (simp_all add: rowOK_def processable_def redisUsageInboxMaxProcessAttempts_def)

lemma processFailed_rowOK:
  assumes "rowOK r" "processable r"
  shows "rowOK (processFailedRow err now r)"
  using assms boundedError_length [of err]
  by (cases "ib_Status r")
    (auto simp: rowOK_def processable_def processFailedRow_def
      redisUsageInboxMaxProcessAttempts_def)

lemma decodeFailed_rowOK:
  assumes "rowOK r" "processable r"
  shows "rowOK (failedRow DecodeFailed err now r)"
  using assms boundedError_length [of err]
  by (cases "ib_Status r")
    (simp_all add: failedRow_def rowOK_def processable_def redisUsageInboxMaxProcessAttempts_def)

section \<open>Lemmas: effect of the operations\<close>

lemma insert_eq:
  "fst (insertRedisUsageInboxMessages sha256 now inputs t) =
     insertRows (map (inboxRowOf sha256 now) inputs) t"
proof -
  have "0 < nat (insertBatchSize 11)" using insertBatchSize_pos [of 11] by simp
  then show ?thesis
    by (simp add: insertRedisUsageInboxMessages_def Let_def fold_insert_batches)
qed

lemma insert_rows_eq:
  "snd (insertRedisUsageInboxMessages sha256 now inputs t) =
     newRows t (map (inboxRowOf sha256 now) inputs)"
  by (simp add: insertRedisUsageInboxMessages_def Let_def newRows_def)

lemma inboxRowOf_OK: "rowOK (inboxRowOf sha256 now input)"
  by (simp add: rowOK_def inboxRowOf_def)

lemma batch_sizes [simp]: "0 < maxMarksPerBatch" "0 < maxIDsPerBatch"
  by (simp_all add: maxMarksPerBatch_def maxIDsPerBatch_def sqliteVariableLimit_def)

lemma processFailedBatch_eq:
  "distinct ids \<Longrightarrow> markRedisUsageInboxProcessFailedBatch ids err now t =
     updateWhere (\<lambda>i r. i \<in> set ids) (\<lambda>i. processFailedRow err now) t"
  by (simp add: markRedisUsageInboxProcessFailedBatch_def fold_updateWhere_ids updateWhere_none
      del: set_concat)

definition processedRow :: "string \<Rightarrow> instant \<Rightarrow> inboxRow \<Rightarrow> inboxRow" where
  "processedRow key processedAt r =
     r\<lparr>ib_Status := Processed, ib_UsageEventKey := key, ib_ProcessedAt := Some processedAt,
       ib_UpdatedAt := processedAt, ib_LastError := []\<rparr>"

lemma markProcessedBatch_lookup:
  "lookupRow (markProcessedBatch marks p t) i =
     (case map_of marks i of
        None \<Rightarrow> lookupRow t i
      | Some key \<Rightarrow> map_option (processedRow key p) (lookupRow t i))"
proof (cases "map_of marks i")
  case None
  then have "i \<notin> set (map fst marks)" by (simp add: map_of_eq_None_iff)
  with None show ?thesis
    by (simp add: markProcessedBatch_def lookup_updateWhere map_option.id [unfolded id_def]
        del: set_map)
next
  case (Some key)
  then have "i \<in> set (map fst marks)" by (metis map_of_eq_None_iff option.distinct(1) set_map)
  with Some show ?thesis
    by (cases "lookupRow t i")
      (simp_all add: markProcessedBatch_def lookup_updateWhere processedRow_def del: set_map)
qed

lemma markProcessedBatch_table: "tableOK t \<Longrightarrow> tableOK (markProcessedBatch marks p t)"
  by (simp add: markProcessedBatch_def updateWhere_ok)

lemma fold_markProcessed_table:
  "tableOK t \<Longrightarrow> tableOK (fold (\<lambda>b. markProcessedBatch b p) bs t)"
  by (induction bs arbitrary: t) (simp_all add: markProcessedBatch_table)

lemma fold_markProcessed_lookup:
  assumes "distinct (map fst (concat bs))"
  shows "lookupRow (fold (\<lambda>b. markProcessedBatch b p) bs t) i =
    (case map_of (concat bs) i of
       None \<Rightarrow> lookupRow t i
     | Some key \<Rightarrow> map_option (processedRow key p) (lookupRow t i))"
  using assms
proof (induction bs arbitrary: t)
  case Nil
  show ?case by simp
next
  case (Cons b bs)
  have "map_of b i = None \<or> map_of (concat bs) i = None"
  proof (rule ccontr)
    assume "\<not> ?thesis"
    then have "i \<in> set (map fst b)" "i \<in> set (map fst (concat bs))"
      by (simp_all add: map_of_eq_None_iff)
    with Cons.prems show False
      unfolding concat.simps map_append distinct_append by blast
  qed
  moreover have "distinct (map fst (concat bs))" using Cons.prems by simp
  ultimately show ?case
    using Cons.IH [of "markProcessedBatch b p t"]
    by (cases "map_of b i"; cases "map_of (concat bs) i")
      (simp_all add: markProcessedBatch_lookup map_add_def del: set_concat)
qed

text \<open>The batched statements mark every row once, with its own key.\<close>

lemma processedBatch_lookup:
  assumes "distinct (map fst marks)"
  shows "lookupRow (markRedisUsageInboxProcessedBatch marks p t) i =
    (case map_of marks i of
       None \<Rightarrow> lookupRow t i
     | Some key \<Rightarrow> map_option (processedRow key p) (lookupRow t i))"
  using fold_markProcessed_lookup [of "batches maxMarksPerBatch marks" p t i] assms
  by (simp add: markRedisUsageInboxProcessedBatch_def)

lemma processedBatch_table:
  "tableOK t \<Longrightarrow> tableOK (markRedisUsageInboxProcessedBatch marks p t)"
  by (simp add: markRedisUsageInboxProcessedBatch_def fold_markProcessed_table)

lemma processedBatch_next:
  "tbl_next (markRedisUsageInboxProcessedBatch marks p t) = tbl_next t"
proof -
  have "tbl_next (fold (\<lambda>b. markProcessedBatch b p) bs t) = tbl_next t" for bs
    by (induction bs arbitrary: t) (simp_all add: markProcessedBatch_def)
  then show ?thesis by (simp add: markRedisUsageInboxProcessedBatch_def)
qed

lemma processFailedBatch_lookup:
  assumes "distinct ids"
  shows "lookupRow (markRedisUsageInboxProcessFailedBatch ids err now t) i =
    (if i \<in> set ids then map_option (processFailedRow err now) (lookupRow t i) else lookupRow t i)"
  by (cases "lookupRow t i") (simp_all add: processFailedBatch_eq [OF assms] lookup_updateWhere)

lemma decodeFailed_lookup:
  "lookupRow (markRedisUsageInboxDecodeFailed j err now t) i =
     (if i = j then map_option (failedRow DecodeFailed err now) (lookupRow t i) else lookupRow t i)"
  by (cases "lookupRow t i")
    (auto simp: markRedisUsageInboxDecodeFailed_def markRedisUsageInboxFailed_def
      lookup_updateWhere)

section \<open>Steps of the inbox\<close>

text \<open>
  The callers mark only rows that they listed as processable; a row may have been deleted since.
\<close>

definition markable :: "inbox \<Rightarrow> nat set \<Rightarrow> bool" where
  "markable t ids \<longleftrightarrow> (\<forall>i \<in> ids. \<forall>r. lookupRow t i = Some r \<longrightarrow> processable r)"

inductive inbox_step :: "inbox \<Rightarrow> inbox \<Rightarrow> bool" where
  step_insert: "inbox_step t (fst (insertRedisUsageInboxMessages sha256 now inputs t))"
| step_processed:
    "distinct (map fst marks) \<Longrightarrow> markable t (fst ` set marks) \<Longrightarrow>
       inbox_step t (markRedisUsageInboxProcessedBatch marks p t)"
| step_decodeFailed:
    "markable t {j} \<Longrightarrow> inbox_step t (markRedisUsageInboxDecodeFailed j err now t)"
| step_processFailed:
    "distinct ids \<Longrightarrow> markable t (set ids) \<Longrightarrow>
       inbox_step t (markRedisUsageInboxProcessFailedBatch ids err now t)"
| step_cleanup: "inbox_step t (fst (cleanupRedisUsageInbox dayStart fault now t))"

inductive_cases inbox_stepE: "inbox_step s t"

definition inbox_reachable :: "inbox \<Rightarrow> bool" where
  "inbox_reachable t \<longleftrightarrow> inbox_step\<^sup>*\<^sup>* emptyTable t"

lemma cleanup_lookup:
  assumes "tableOK t"
  shows "tableOK (fst (cleanupRedisUsageInbox dayStart fault now t))"
    and "lookupRow (fst (cleanupRedisUsageInbox dayStart fault now t)) i = Some r \<longleftrightarrow>
      lookupRow t i = Some r \<and>
      (fault = Some ProcessedDeleteFails \<or> \<not> processedExpired (dayStart now) r) \<and>
      (fault \<noteq> None \<or> \<not> failedExpired (now - failedRetention) r)"
proof -
  show "tableOK (fst (cleanupRedisUsageInbox dayStart fault now t))"
    using assms by (simp add: cleanupRedisUsageInbox_def Let_def deleteWhere_ok)
  show "lookupRow (fst (cleanupRedisUsageInbox dayStart fault now t)) i = Some r \<longleftrightarrow>
      lookupRow t i = Some r \<and>
      (fault = Some ProcessedDeleteFails \<or> \<not> processedExpired (dayStart now) r) \<and>
      (fault \<noteq> None \<or> \<not> failedExpired (now - failedRetention) r)"
  proof (cases fault)
    case None
    with assms show ?thesis
      by (simp add: cleanupRedisUsageInbox_def Let_def lookup_deleteWhere deleteWhere_ok)
  next
    case (Some f)
    with assms show ?thesis
      by (cases f) (simp_all add: cleanupRedisUsageInbox_def Let_def lookup_deleteWhere)
  qed
qed

lemma inbox_step_ok:
  assumes "inbox_step s t" "inboxOK s"
  shows "inboxOK t"
  using assms
proof (induction rule: inbox_step.induct)
  case (step_insert t sha256 now inputs)
  let ?rows = "map (inboxRowOf sha256 now) inputs"
  have tab: "tableOK t" using step_insert by (rule inboxOK_table)
  have "rowOK (?rows ! k)" if "k < length ?rows" for k
    using that by (simp add: inboxRowOf_OK)
  with step_insert show ?case
    unfolding insert_eq
    by (auto simp: inboxOK_def insertRows_ok lookup_insertRows [OF tab] split: if_splits)
next
  case (step_processed marks t p)
  have "rowOK (processedRow key p r)" if "rowOK r" "processable r" for key r
    using processed_rowOK [OF that] by (simp add: processedRow_def)
  moreover have "j \<in> fst ` set marks" if "map_of marks j = Some key" for j key
    using that by (force dest: map_of_SomeD)
  ultimately show ?case
    using step_processed
    by (fastforce simp: inboxOK_def processedBatch_table processedBatch_lookup markable_def
        split: option.splits)
next
  case (step_decodeFailed t j err now)
  then show ?case
    unfolding markRedisUsageInboxDecodeFailed_def markRedisUsageInboxFailed_def
    by (intro update_inboxOK) (auto simp: markable_def intro!: decodeFailed_rowOK)
next
  case (step_processFailed ids t err now)
  then show ?case
    unfolding processFailedBatch_eq [OF step_processFailed(1)]
    by (intro update_inboxOK) (auto simp: markable_def intro!: processFailed_rowOK)
next
  case (step_cleanup t dayStart fault now)
  then show ?case by (auto simp: inboxOK_def cleanup_lookup)
qed

lemma inbox_steps_ok: "inbox_step\<^sup>*\<^sup>* s t \<Longrightarrow> inboxOK s \<Longrightarrow> inboxOK t"
  by (induction rule: rtranclp_induct) (auto intro: inbox_step_ok)

lemma inbox_reachable_ok: "inbox_reachable t \<Longrightarrow> inboxOK t"
  unfolding inbox_reachable_def by (rule inbox_steps_ok [OF _ inboxOK_empty])

text \<open>A row that is no longer processable keeps its contents until it is deleted.\<close>

lemma inbox_step_final:
  assumes "inbox_step s t" "inboxOK s" "lookupRow s i = Some r" "\<not> processable r"
  shows "lookupRow t i \<in> {None, Some r}"
  using assms
proof (induction rule: inbox_step.induct)
  case (step_insert t sha256 now inputs)
  have "tableOK t" using step_insert(1) by (rule inboxOK_table)
  with step_insert lookup_bound [of t i r] show ?case
    by (simp add: insert_eq lookup_insertRows)
next
  case (step_processed marks t p)
  then have "i \<notin> fst ` set marks" by (auto simp: markable_def)
  then have "map_of marks i = None" by (simp add: map_of_eq_None_iff)
  with step_processed show ?case by (simp add: processedBatch_lookup)
next
  case (step_decodeFailed t j err now)
  then show ?case by (auto simp: decodeFailed_lookup markable_def)
next
  case (step_processFailed ids t err now)
  then show ?case by (auto simp: processFailedBatch_lookup markable_def)
next
  case (step_cleanup t dayStart fault now)
  then have tab: "tableOK t" by (simp add: inboxOK_def)
  show ?case
  proof (cases "lookupRow (fst (cleanupRedisUsageInbox dayStart fault now t)) i")
    case (Some q)
    then show ?thesis using cleanup_lookup(2) [OF tab] step_cleanup by simp
  qed simp
qed

text \<open>The key of a deleted row is not used again.\<close>

lemma inbox_step_gone:
  assumes "inbox_step u v" "inboxOK u"
  shows "tbl_next u \<le> tbl_next v \<and>
    (lookupRow u j = None \<and> j < tbl_next u \<longrightarrow> lookupRow v j = None)"
  using assms
proof (induction rule: inbox_step.induct)
  case (step_insert t sha256 now inputs)
  then have "tableOK t" by (rule inboxOK_table)
  then show ?case by (simp add: insert_eq lookup_insertRows) (simp add: insertRows_def)
next
  case (step_processed marks t p)
  then show ?case by (simp add: processedBatch_lookup processedBatch_next split: option.split)
next
  case (step_decodeFailed t k err now)
  show ?case
    by (simp add: decodeFailed_lookup)
      (simp add: markRedisUsageInboxDecodeFailed_def markRedisUsageInboxFailed_def)
next
  case (step_processFailed ids t err now)
  then show ?case by (simp add: processFailedBatch_lookup) (simp add: processFailedBatch_eq)
next
  case (step_cleanup t dayStart fault now)
  then have tab: "tableOK t" by (rule inboxOK_table)
  have next_eq: "tbl_next (fst (cleanupRedisUsageInbox dayStart fault now t)) = tbl_next t"
    by (simp add: cleanupRedisUsageInbox_def Let_def)
  show ?case
  proof (cases "lookupRow (fst (cleanupRedisUsageInbox dayStart fault now t)) j")
    case (Some q)
    then show ?thesis
      using next_eq cleanup_lookup(2) [OF tab, of dayStart fault now j q] by simp
  qed (simp add: next_eq)
qed

lemma countPending_eq:
  "countPendingRedisUsageInbox t = length (selectWhere (\<lambda>i. processable) t)"
proof -
  have "processable = (\<lambda>r. ib_Status r = Pending \<or> ib_Status r = ProcessFailed)"
    by (simp add: fun_eq_iff processable_def)
  then show ?thesis by (simp add: countPendingRedisUsageInbox_def)
qed

lemma listed_count:
  "bl_PendingCount (readRedisUsageInboxBacklog t) = countPendingRedisUsageInbox t"
  by (simp add: readRedisUsageInboxBacklog_def countPending_eq)

lemma listed_all_mem:
  assumes "tableOK t" "processable r" "lookupRow t i = Some r"
    "limit \<le> 0 \<or> int (countPendingRedisUsageInbox t) \<le> limit"
  shows "(i, r) \<in> set (listProcessableRedisUsageInbox limit t)"
proof -
  have "(i, r) \<in> set (selectWhere (\<lambda>i. processable) t)"
    using assms by (simp add: lookup_selectWhere)
  then show ?thesis
    using assms(4) by (auto simp: listProcessableRedisUsageInbox_def limitRows_def countPending_eq)
qed

text \<open>The effect of a sequence of failed attempts on one row.\<close>

definition failedAttempts ::
  "(nat list \<times> string option \<times> instant) list \<Rightarrow> inbox \<Rightarrow> inbox" where
  "failedAttempts calls =
     fold (\<lambda>(ids, err, now). markRedisUsageInboxProcessFailedBatch ids err now) calls"

lemma processFailedRow_simps [simp]:
  "ib_AttemptCount (processFailedRow err now r) = ib_AttemptCount r + 1"
  "processable (processFailedRow err now r) \<longleftrightarrow>
     ib_AttemptCount r + 1 < redisUsageInboxMaxProcessAttempts"
  by (auto simp: processFailedRow_def processable_def)

lemma failedAttempts_row:
  assumes "\<forall>(ids, err, now) \<in> set calls. distinct ids \<and> i \<in> set ids"
    and "lookupRow t i = Some r"
  shows "\<exists>r'. lookupRow (failedAttempts calls t) i = Some r' \<and>
    ib_AttemptCount r' = ib_AttemptCount r + length calls \<and>
    (calls \<noteq> [] \<longrightarrow>
       (processable r' \<longleftrightarrow>
          ib_AttemptCount r + length calls < redisUsageInboxMaxProcessAttempts))"
  using assms
proof (induction calls arbitrary: t r)
  case Nil
  then show ?case by (simp add: failedAttempts_def)
next
  case (Cons c calls)
  obtain ids err now where c: "c = (ids, err, now)" by (cases c)
  let ?t = "markRedisUsageInboxProcessFailedBatch ids err now t"
  have row: "lookupRow ?t i = Some (processFailedRow err now r)"
    using Cons.prems c by (simp add: processFailedBatch_lookup)
  have calls: "\<forall>(ids, err, now) \<in> set calls. distinct ids \<and> i \<in> set ids" using Cons.prems by simp
  show ?case
    using Cons.IH [OF calls row] row c
    by (cases "calls = []") (auto simp: failedAttempts_def)
qed

section \<open>Properties\<close>

text \<open>
  C13. The life of an inbox row. From the empty inbox, through any sequence of inserts, marks of
  processable rows and cleanups (failing ones included): the keys stay strictly ascending and
  below the next key; a pending row has no attempt, a failed one between one and four, a
  discarded one exactly five; only processed rows have a processing time; and the stored errors
  stay within 1024 bytes.
\<close>

theorem inbox_invariant:
  "inbox_reachable t \<Longrightarrow> inboxOK t"
  by (rule inbox_reachable_ok)

lemma inbox_invariant_witness:
  "inboxOK (fst (insertRedisUsageInboxMessages (\<lambda>m. m) 0
     [\<lparr>ii_QueueKey = ''q'', ii_RawMessage = ''m'', ii_PoppedAt = 1\<rparr>] emptyTable))"
  by (rule inbox_invariant) (auto simp: inbox_reachable_def intro: step_insert)

text \<open>
  A row that has been processed, could not be decoded or was discarded is final: no step changes
  it any more, it can only be deleted, and no other row ever takes its key.
\<close>

theorem inbox_final_rows:
  assumes "inbox_reachable s" "inbox_step\<^sup>*\<^sup>* s t"
    and "lookupRow s i = Some r" "\<not> processable r"
  shows "lookupRow t i = None \<or> lookupRow t i = Some r"
proof -
  have "lookupRow t i \<in> {None, Some r} \<and> i < tbl_next t \<and> inboxOK t"
    using assms(2)
  proof (induction rule: rtranclp_induct)
    case base
    have ok: "inboxOK s" using assms(1) by (rule inbox_reachable_ok)
    with assms(3) show ?case using lookup_bound [OF inboxOK_table [OF ok] assms(3)] by simp
  next
    case (step u v)
    then have ok: "inboxOK u" by simp
    have bound: "tbl_next u \<le> tbl_next v" "lookupRow u i = None \<Longrightarrow> i < tbl_next u \<Longrightarrow> lookupRow v i = None"
      using inbox_step_gone [OF step(2) ok, of i] by simp_all
    have "lookupRow v i = None \<or> lookupRow v i = Some r"
    proof (cases "lookupRow u i")
      case None
      with bound step show ?thesis by simp
    next
      case (Some q)
      with step have row: "lookupRow u i = Some r" by simp
      show ?thesis using inbox_step_final [OF step(2) ok row assms(4)] by simp
    qed
    moreover have "i < tbl_next v" using step bound(1) by simp
    moreover have "inboxOK v" by (rule inbox_step_ok [OF step(2) ok])
    ultimately show ?case by simp
  qed
  then show ?thesis by blast
qed

lemma inbox_final_rows_witness:
  "\<exists>s r. lookupRow s 1 = Some r \<and> \<not> processable r \<and>
     (\<forall>t. inbox_step\<^sup>*\<^sup>* s t \<longrightarrow> lookupRow t 1 = None \<or> lookupRow t 1 = Some r)"
proof -
  define s0 where "s0 = fst (insertRedisUsageInboxMessages (\<lambda>m. m) 0
     [\<lparr>ii_QueueKey = ''q'', ii_RawMessage = ''m'', ii_PoppedAt = 1\<rparr>] emptyTable)"
  define s where "s = markRedisUsageInboxDecodeFailed 1 None 2 s0"
  have row0: "\<exists>r. lookupRow s0 1 = Some r \<and> processable r"
    by (simp add: s0_def insert_eq lookup_insertRows inboxRowOf_def processable_def)
      (simp add: emptyTable_def lookupRow_def)
  then obtain r0 where r0: "lookupRow s0 1 = Some r0" "processable r0" by blast
  have "inbox_step emptyTable s0" unfolding s0_def by (rule step_insert)
  moreover have "inbox_step s0 s"
    unfolding s_def using r0 by (intro step_decodeFailed) (simp add: markable_def)
  ultimately have reach: "inbox_reachable s"
    unfolding inbox_reachable_def by (meson rtranclp.simps)
  have row: "lookupRow s 1 = Some (failedRow DecodeFailed None 2 r0)"
    using r0 by (simp add: s_def decodeFailed_lookup)
  have fin: "\<not> processable (failedRow DecodeFailed None 2 r0)"
    by (simp add: processable_def failedRow_def)
  show ?thesis
    using inbox_final_rows [OF reach _ row fin] row fin by blast
qed

text \<open>
  Retries are bounded. A pending row that fails in a sequence of batches counts every one of
  them, stays listed for retry before the fifth, and is discarded, and listed no more, from the
  fifth on, however the batches were split into statements.
\<close>

theorem inbox_retries_bounded:
  assumes "\<forall>(ids, err, now) \<in> set calls. distinct ids \<and> i \<in> set ids"
    and "lookupRow t i = Some r" "ib_AttemptCount r = 0" "processable r" "tableOK t"
  shows "\<exists>r'. lookupRow (failedAttempts calls t) i = Some r' \<and>
    ib_AttemptCount r' = length calls \<and>
    (processable r' \<longleftrightarrow> length calls < 5)"
  using failedAttempts_row [OF assms(1,2)] assms(3,4) 
  by (cases "calls = []") (auto simp: failedAttempts_def redisUsageInboxMaxProcessAttempts_def assms(2))

lemma inbox_retries_bounded_witness:
  "\<exists>r'. lookupRow (failedAttempts (replicate 5 ([1], Some ''locked'', 9))
        (insertRows [inboxRowOf (\<lambda>m. m) 0 \<lparr>ii_QueueKey = ''q'', ii_RawMessage = ''m'', ii_PoppedAt = 1\<rparr>]
           emptyTable)) 1 = Some r' \<and> ib_AttemptCount r' = 5 \<and> \<not> processable r'"
proof -
  let ?r = "inboxRowOf (\<lambda>m. m) 0 \<lparr>ii_QueueKey = ''q'', ii_RawMessage = ''m'', ii_PoppedAt = 1\<rparr>"
  let ?t = "insertRows [?r] emptyTable"
  have "lookupRow ?t 1 = Some ?r"
    by (simp add: lookup_insertRows) (simp add: emptyTable_def lookupRow_def)
  moreover have "tableOK ?t" by (simp add: insertRows_ok)
  ultimately show ?thesis
    using inbox_retries_bounded [of "replicate 5 ([1], Some ''locked'', 9)" 1 ?t ?r]
    by (auto simp: inboxRowOf_def processable_def)
qed

text \<open>
  Listing. The processable rows are listed in ascending order of their key, at most \<open>limit\<close> of
  them when a limit is given, each of them pending or retryable, the ones listed before the ones
  left out; and the count, the metrics backlog and its oldest time agree with the list.
\<close>

theorem inbox_listing:
  assumes "tableOK t"
  shows "sorted_wrt (<) (map fst (listProcessableRedisUsageInbox limit t)) \<and>
    (0 < limit \<longrightarrow> int (length (listProcessableRedisUsageInbox limit t)) \<le> limit) \<and>
    (\<forall>(i, r) \<in> set (listProcessableRedisUsageInbox limit t).
       lookupRow t i = Some r \<and> processable r \<and>
       (\<forall>j q. lookupRow t j = Some q \<and> processable q \<and> j < i \<longrightarrow>
          (j, q) \<in> set (listProcessableRedisUsageInbox limit t))) \<and>
    length (listProcessableRedisUsageInbox 0 t) = countPendingRedisUsageInbox t \<and>
    bl_PendingCount (readRedisUsageInboxBacklog t) = countPendingRedisUsageInbox t \<and>
    bl_OldestPoppedAt (readRedisUsageInboxBacklog t) =
      (case listProcessableRedisUsageInbox 0 t of [] \<Rightarrow> None | (i, r) # _ \<Rightarrow> Some (ib_PoppedAt r))"
proof (intro conjI)
  let ?all = "selectWhere (\<lambda>i. processable) t"
  let ?L = "listProcessableRedisUsageInbox limit t"
  have sorted: "sorted_wrt (<) (map fst ?all)" by (rule selectWhere_sorted [OF assms])
  then show "sorted_wrt (<) (map fst ?L)"
    unfolding listProcessableRedisUsageInbox_def by (rule limitRows_sorted)
  show "0 < limit \<longrightarrow> int (length ?L) \<le> limit"
    by (simp add: listProcessableRedisUsageInbox_def limitRows_length)
  show "length (listProcessableRedisUsageInbox 0 t) = countPendingRedisUsageInbox t"
    by (simp add: listProcessableRedisUsageInbox_def limitRows_def countPending_eq)
  show "bl_PendingCount (readRedisUsageInboxBacklog t) = countPendingRedisUsageInbox t"
    by (rule listed_count)
  show "bl_OldestPoppedAt (readRedisUsageInboxBacklog t) =
      (case listProcessableRedisUsageInbox 0 t of [] \<Rightarrow> None | (i, r) # _ \<Rightarrow> Some (ib_PoppedAt r))"
    by (simp add: readRedisUsageInboxBacklog_def listProcessableRedisUsageInbox_def limitRows_def
        take_Suc split: list.split)
  obtain rest where rest: "?all = ?L @ rest"
    using limitRows_prefix [of limit ?all] unfolding listProcessableRedisUsageInbox_def prefix_def
    by blast
  show "\<forall>(i, r) \<in> set ?L. lookupRow t i = Some r \<and> processable r \<and>
       (\<forall>j q. lookupRow t j = Some q \<and> processable q \<and> j < i \<longrightarrow> (j, q) \<in> set ?L)"
  proof (clarify, intro conjI allI impI)
    fix i r
    assume ir: "(i, r) \<in> set ?L"
    show "lookupRow t i = Some r" "processable r"
      using processable_listed [OF assms ir] by auto
    fix j q
    assume jq: "lookupRow t j = Some q \<and> processable q \<and> j < i"
    then have "(j, q) \<in> set ?L \<or> (j, q) \<in> set rest"
      using assms rest by (metis Un_iff lookup_selectWhere set_append)
    moreover have "(j, q) \<notin> set rest"
    proof
      assume "(j, q) \<in> set rest"
      with ir sorted have "i < j" unfolding rest by (fastforce simp: sorted_wrt_append)
      with jq show False by simp
    qed
    ultimately show "(j, q) \<in> set ?L" by blast
  qed
qed

lemma inbox_listing_witness:
  "length (listProcessableRedisUsageInbox 0 (insertRows
     [inboxRowOf (\<lambda>m. m) 0 \<lparr>ii_QueueKey = ''q'', ii_RawMessage = ''m'', ii_PoppedAt = 1\<rparr>] emptyTable)) = 1"
proof -
  let ?t = "insertRows
     [inboxRowOf (\<lambda>m. m) 0 \<lparr>ii_QueueKey = ''q'', ii_RawMessage = ''m'', ii_PoppedAt = 1\<rparr>] emptyTable"
  have "tableOK ?t" by (simp add: insertRows_ok)
  moreover have "countPendingRedisUsageInbox ?t = 1"
    by (simp add: countPendingRedisUsageInbox_def insertRows_def newRows_def emptyTable_def
        selectWhere_def inboxRowOf_def)
  ultimately show ?thesis using inbox_listing [of ?t 0] by simp
qed

text \<open>
  Cleanup deletes exactly what has expired: processed rows of before the start of the local day,
  and failed or discarded rows untouched for seven days; even when a statement fails, a pending
  row survives with its contents, and what is reported deleted is what is gone.
\<close>

theorem inbox_cleanup_exact:
  assumes "inboxOK t" "cleanupRedisUsageInbox dayStart fault now t = (t', result, err)"
  shows "inboxOK t' \<and> err = fault \<and>
    (\<forall>i r. lookupRow t i = Some r \<and> ib_Status r = Pending \<longrightarrow> lookupRow t' i = Some r) \<and>
    (fault = None \<longrightarrow>
       (\<forall>i r. lookupRow t' i = Some r \<longleftrightarrow>
          lookupRow t i = Some r \<and> \<not> processedExpired (dayStart now) r
          \<and> \<not> failedExpired (now - 7 * 24 * hour) r)) \<and>
    length (tbl_rows t') + cl_ProcessedDeleted result + cl_FailedDeleted result = length (tbl_rows t)"
proof (intro conjI)
  have tab: "tableOK t" by (rule inboxOK_table [OF assms(1)])
  have t': "t' = fst (cleanupRedisUsageInbox dayStart fault now t)" using assms(2) by simp
  show "inboxOK t'"
    unfolding t' using assms(1) by (auto simp: inboxOK_def cleanup_lookup)
  have parts: "length (tbl_rows (deleteWhere P s)) + length (selectWhere P s) = length (tbl_rows s)"
    for P and s :: inbox
  proof -
    have "length (filter (\<lambda>(i, r). \<not> P i r) rows) + length (filter (\<lambda>(i, r). P i r) rows)
        = length rows" for rows
      by (induction rows) auto
    then show ?thesis by (simp add: deleteWhere_def selectWhere_def)
  qed
  show "err = fault"
    using assms(2) by (auto simp: cleanupRedisUsageInbox_def Let_def split: if_splits cleanupFault.splits)
      (metis cleanupFault.exhaust option.exhaust)+
  show "length (tbl_rows t') + cl_ProcessedDeleted result + cl_FailedDeleted result =
      length (tbl_rows t)"
    using assms(2) parts [of "\<lambda>i. processedExpired (dayStart now)" t]
      parts [of "\<lambda>i. failedExpired (now - failedRetention)"
        "deleteWhere (\<lambda>i. processedExpired (dayStart now)) t"]
    by (auto simp: cleanupRedisUsageInbox_def Let_def split: if_splits)
  show "\<forall>i r. lookupRow t i = Some r \<and> ib_Status r = Pending \<longrightarrow> lookupRow t' i = Some r"
    unfolding t' cleanup_lookup(2) [OF tab]
    by (auto simp: processedExpired_def failedExpired_def)
  show "fault = None \<longrightarrow>
      (\<forall>i r. lookupRow t' i = Some r \<longleftrightarrow>
         lookupRow t i = Some r \<and> \<not> processedExpired (dayStart now) r
         \<and> \<not> failedExpired (now - 7 * 24 * hour) r)"
    unfolding t' cleanup_lookup(2) [OF tab] by (auto simp: failedRetention_def)
qed

lemma inbox_cleanup_exact_witness:
  "\<exists>t' result. cleanupRedisUsageInbox (\<lambda>n. n) None 5 (emptyTable :: inbox) = (t', result, None) \<and>
     inboxOK t'"
proof -
  obtain t' result err where c:
      "cleanupRedisUsageInbox (\<lambda>n. n) None 5 (emptyTable :: inbox) = (t', result, err)"
    by (cases "cleanupRedisUsageInbox (\<lambda>n. n) None 5 (emptyTable :: inbox)") auto
  from inbox_cleanup_exact [OF inboxOK_empty c] c show ?thesis by blast
qed

text \<open>
  A stored error text is at most 1024 bytes; a shorter text is stored as it is, a longer one is
  cut to a valid UTF-8 prefix, and, if it was valid, at most three bytes before the limit.
\<close>

theorem boundedRedisUsageInboxError_cut:
  "length (boundedRedisUsageInboxError (Some m)) \<le> 1024 \<and>
   prefix (boundedRedisUsageInboxError (Some m)) m \<and>
   (if length m \<le> 1024 then boundedRedisUsageInboxError (Some m) = m
    else validString (boundedRedisUsageInboxError (Some m)) \<and>
      (validString m \<longrightarrow> 1021 \<le> length (boundedRedisUsageInboxError (Some m))))"
proof (cases "length m \<le> 1024")
  case True
  then show ?thesis by (simp add: boundedRedisUsageInboxError_def redisUsageInboxMaxErrorLength_def)
next
  case False
  have eq: "boundedRedisUsageInboxError (Some m) = cutToValid (take 1024 m)"
    using False by (simp add: boundedRedisUsageInboxError_def redisUsageInboxMaxErrorLength_def)
  have "prefix (cutToValid (take 1024 m)) m"
    using cutToValid_prefix take_is_prefix by (rule prefix_order.trans)
  moreover have "1021 \<le> length (cutToValid (take 1024 m))" if valid: "validString m"
  proof -
    obtain k where k: "k \<le> 1024" "1024 \<le> k + 3" "validString (take k m)"
      using valid_prefix_near [OF valid, of 1024] False by auto
    then have "k \<le> length (cutToValid (take 1024 m))"
      using False by (intro cutToValid_longest) (simp_all add: min_def)
    with k(2) show ?thesis by linarith
  qed
  moreover have "length (cutToValid (take 1024 m)) \<le> 1024"
    using prefix_length_le [OF cutToValid_prefix [of "take 1024 m"]] by simp
  ultimately show ?thesis using False by (simp add: eq)
qed

lemma boundedRedisUsageInboxError_cut_witness:
  "boundedRedisUsageInboxError (Some ''locked'') = ''locked''"
  using boundedRedisUsageInboxError_cut [of "''locked''"] by simp

end
