(* ===== verification/Aggregates.thy ===== *)
theory Aggregates
  imports Prelude "HOL-Library.Multiset"
begin

text \<open>
  The interface of an aggregate: a state built by folding a step over events, whose states can be
  merged. The client's facts are proved once here: the aggregate of a concatenation is the merge
  of the aggregates, and the order of the events does not matter.
\<close>

locale aggregate =
  fixes step :: "'s \<Rightarrow> 'e \<Rightarrow> 's"
    and start :: 's
    and merge :: "'s \<Rightarrow> 's \<Rightarrow> 's"
    and okE :: "'e \<Rightarrow> bool"
    and okS :: "'s \<Rightarrow> bool"
  assumes step_merge: "okS s \<Longrightarrow> okE e \<Longrightarrow> step s e = merge s (step start e)"
    and merge_assoc: "merge (merge a b) c = merge a (merge b c)"
    and merge_commute: "merge a b = merge b a"
    and merge_start: "okS s \<Longrightarrow> merge start s = s"
    and ok_start: "okS start"
    and ok_step: "okS s \<Longrightarrow> okE e \<Longrightarrow> okS (step s e)"
begin

lemma merge_left_commute: "merge a (merge b c) = merge b (merge a c)"
  by (metis merge_assoc merge_commute)

lemma fold_ok: "okS s \<Longrightarrow> \<forall>e \<in> set es. okE e \<Longrightarrow> okS (fold (\<lambda>e s. step s e) es s)"
  by (induction es arbitrary: s) (simp_all add: ok_step)

lemma fold_merge:
  "okS s \<Longrightarrow> \<forall>e \<in> set es. okE e \<Longrightarrow>
     fold (\<lambda>e s. step s e) es s = merge s (fold (\<lambda>e s. step s e) es start)"
proof (induction es arbitrary: s)
  case Nil
  then show ?case using merge_start merge_commute by simp
next
  case (Cons e es)
  have e: "okE e" "\<forall>e \<in> set es. okE e" using Cons.prems by simp_all
  have "fold (\<lambda>e s. step s e) es (step s e) = merge (step s e) (fold (\<lambda>e s. step s e) es start)"
    using Cons.prems(1) e by (intro Cons.IH) (simp_all add: ok_step)
  also have "\<dots> = merge s (merge (step start e) (fold (\<lambda>e s. step s e) es start))"
    by (simp add: step_merge [OF Cons.prems(1) e(1)] merge_assoc)
  also have "merge (step start e) (fold (\<lambda>e s. step s e) es start) =
      fold (\<lambda>e s. step s e) es (step start e)"
    using e ok_start by (intro Cons.IH [symmetric]) (simp_all add: ok_step)
  finally show ?case by simp
qed

lemma fold_append:
  assumes "\<forall>e \<in> set (xs @ ys). okE e"
  shows "fold (\<lambda>e s. step s e) (xs @ ys) start =
    merge (fold (\<lambda>e s. step s e) xs start) (fold (\<lambda>e s. step s e) ys start)"
  using assms fold_ok [OF ok_start, of xs] by (simp add: fold_merge [of "fold (\<lambda>e s. step s e) xs start"])

lemma fold_Cons_merge:
  assumes "\<forall>e \<in> set (x # xs). okE e"
  shows "fold (\<lambda>e s. step s e) (x # xs) start =
    merge (step start x) (fold (\<lambda>e s. step s e) xs start)"
  using fold_append [of "[x]" xs] assms by simp

lemma fold_perm:
  assumes "mset xs = mset ys" "\<forall>e \<in> set xs. okE e"
  shows "fold (\<lambda>e s. step s e) xs start = fold (\<lambda>e s. step s e) ys start"
  using assms
proof (induction xs arbitrary: ys)
  case Nil
  then show ?case by simp
next
  case (Cons x xs)
  then have "x \<in> set ys" by (metis list.set_intros(1) set_mset_mset)
  then obtain us vs where ys: "ys = us @ x # vs" by (meson split_list)
  have okY: "\<forall>e \<in> set ys. okE e" using Cons.prems by (metis set_mset_mset)
  have "fold (\<lambda>e s. step s e) xs start = fold (\<lambda>e s. step s e) (us @ vs) start"
    using Cons.prems ys by (intro Cons.IH) simp_all
  moreover have "fold (\<lambda>e s. step s e) ys start =
      merge (step start x) (fold (\<lambda>e s. step s e) (us @ vs) start)"
    using okY fold_append [of us "x # vs"] fold_Cons_merge [of x vs] fold_append [of us vs]
    by (simp add: ys merge_left_commute)
  ultimately show ?case using fold_Cons_merge [of x xs] Cons.prems by simp
qed

end

text \<open>
  Sums of rows: addition of result rows, as the read models add the rows of their segments and as
  \<open>GROUP BY\<close> adds the rows of a group.
\<close>

definition totalRows :: "('r \<Rightarrow> 'r \<Rightarrow> 'r) \<Rightarrow> 'r \<Rightarrow> 'r list \<Rightarrow> 'r" where
  "totalRows add zero rows = fold (\<lambda>r acc. add acc r) rows zero"

lemma total_Nil [simp]: "totalRows add zero [] = zero"
  by (simp add: totalRows_def)

locale row_sum =
  fixes add :: "'r \<Rightarrow> 'r \<Rightarrow> 'r"
    and zero :: 'r
  assumes add_assoc: "add (add a b) c = add a (add b c)"
    and add_commute: "add a b = add b a"
    and add_zero: "add zero a = a"

sublocale row_sum \<subseteq> aggregate add zero add "\<lambda>_. True" "\<lambda>_. True"
proof
  fix a b c s e
  show "add s e = add s (add zero e)" by (simp only: add_zero)
  show "add (add a b) c = add a (add b c)" by (rule add_assoc)
  show "add a b = add b a" by (rule add_commute)
  show "add zero s = s" by (rule add_zero)
qed simp_all

context row_sum begin

lemma add_zero_right: "add a zero = a"
  using add_commute [of a zero] by (simp only: add_zero)

lemma total_Cons [simp]: "totalRows add zero (x # xs) = add x (totalRows add zero xs)"
  unfolding totalRows_def by (rule fold_Cons_merge [of x xs, unfolded add_zero]) simp

lemma total_append: "totalRows add zero (xs @ ys) = add (totalRows add zero xs) (totalRows add zero ys)"
  using fold_append [of xs ys] unfolding totalRows_def by simp

lemma total_perm: "mset xs = mset ys \<Longrightarrow> totalRows add zero xs = totalRows add zero ys"
  using fold_perm [of xs ys] unfolding totalRows_def by simp

end

end
