(* ===== verification/Rollups.thy ===== *)
theory Rollups
  imports Accounting Aggregates
begin

text \<open>
  Hourly rollups (\<open>repository/usage\_rollups\_hourly.go\<close>, \<open>entities/usage\_rollup\_hourly.go\<close>): the
  aggregate of one hour and key, the Go loop that builds it, the SQL aggregation that rebuilds it,
  the upsert that increments it. A rollup table is an association list with distinct keys; the row
  id and the times of creation and update, which nothing reads, are left out.

  Counters are 64-bit words and wrap. The SQL statements use the same operations: this is
  SQLite's arithmetic as long as the sum of one counter stays below \<open>2 ^ 63\<close>, and
  \<open>rollup_counters_exact\<close> says that below this bound the words are the exact sums.
  \<open>strftime\<close> is the truncation to the hour (its rounding of fractions of a millisecond is not
  modelled), and \<open>TRIM\<close> with the code's set of characters is \<open>strings.TrimSpace\<close>.
\<close>

section \<open>Keyed rows\<close>

fun alterRow :: "'k \<Rightarrow> ('v option \<Rightarrow> 'v) \<Rightarrow> ('k \<times> 'v) list \<Rightarrow> ('k \<times> 'v) list" where
  "alterRow k f [] = [(k, f None)]"
| "alterRow k f ((k', v) # rows) =
     (if k = k' then (k, f (Some v)) # rows else (k', v) # alterRow k f rows)"

lemma map_of_alterRow [table_simps]:
  "map_of (alterRow k f rows) = (map_of rows)(k \<mapsto> f (map_of rows k))"
  by (induction rows) (auto simp: fun_eq_iff)

lemma keys_alterRow: "fst ` set (alterRow k f rows) = insert k (fst ` set rows)"
  by (simp add: dom_map_of_conv_image_fst [symmetric] map_of_alterRow)

lemma distinct_alterRow:
  "distinct (map fst rows) \<Longrightarrow> distinct (map fst (alterRow k f rows))"
proof (induction rows)
  case (Cons a rows)
  obtain k' v where a: "a = (k', v)" by (cases a)
  have "k \<noteq> k' \<Longrightarrow> k' \<notin> fst ` set rows \<Longrightarrow> k' \<notin> fst ` set (alterRow k f rows)"
    by (simp add: keys_alterRow)
  with Cons a show ?case by auto
qed simp

section \<open>Rollups\<close>

record rollupKey =
  rk_BucketStart :: instant
  rk_Provider :: string
  rk_Model :: string
  rk_AuthType :: string
  rk_AuthIndex :: string
  rk_APIKeyIdentity :: string

record hourlyRollup =
  hr_RequestCount :: i64
  hr_SuccessCount :: i64
  hr_FailureCount :: i64
  hr_AccountingAbsentAttempts :: i64
  hr_AccountingValidAttempts :: i64
  hr_AccountingValidCompleteAttempts :: i64
  hr_AccountingValidInconsistentAttempts :: i64
  hr_AccountingValidUnclassifiedAttempts :: i64
  hr_CompleteZeroAttempts :: i64
  hr_CompletePromptTokens :: i64
  hr_CompleteCacheReadTokens :: i64
  hr_CompleteOutputTokens :: i64
  hr_TotalTokens :: i64
  hr_InputTokens :: i64
  hr_UncachedTokens :: i64
  hr_CacheReadTokens :: i64
  hr_CacheWriteTokens :: i64
  hr_OutputTokens :: i64
  hr_NonReasoningTokens :: i64
  hr_ReasoningTokens :: i64
  hr_UnclassifiedTokens :: i64
  hr_TotalLatencyMS :: i64
  hr_LatencySampleCount :: i64
  hr_LastEventAt :: instant

type_synonym rollupTable = "(rollupKey \<times> hourlyRollup) list"

definition emptyRollup :: hourlyRollup where
  "emptyRollup =
     \<lparr>hr_RequestCount = 0, hr_SuccessCount = 0, hr_FailureCount = 0,
      hr_AccountingAbsentAttempts = 0, hr_AccountingValidAttempts = 0,
      hr_AccountingValidCompleteAttempts = 0, hr_AccountingValidInconsistentAttempts = 0,
      hr_AccountingValidUnclassifiedAttempts = 0, hr_CompleteZeroAttempts = 0,
      hr_CompletePromptTokens = 0, hr_CompleteCacheReadTokens = 0, hr_CompleteOutputTokens = 0,
      hr_TotalTokens = 0, hr_InputTokens = 0, hr_UncachedTokens = 0, hr_CacheReadTokens = 0,
      hr_CacheWriteTokens = 0, hr_OutputTokens = 0, hr_NonReasoningTokens = 0,
      hr_ReasoningTokens = 0, hr_UnclassifiedTokens = 0, hr_TotalLatencyMS = 0,
      hr_LatencySampleCount = 0, hr_LastEventAt = zero_time\<rparr>"

definition eventBucket :: "usageEvent \<Rightarrow> instant" where
  "eventBucket e = truncateTo hour (ev_Timestamp e)"

definition hourlyUsageRollupKey :: "usageEvent \<Rightarrow> rollupKey" where
  "hourlyUsageRollupKey e =
     \<lparr>rk_BucketStart = eventBucket e,
      rk_Provider = trimSpace (ev_Provider e), rk_Model = trimSpace (ev_Model e),
      rk_AuthType = trimSpace (ev_AuthType e), rk_AuthIndex = trimSpace (ev_AuthIndex e),
      rk_APIKeyIdentity = usageEventAPIKeyIdentity e\<rparr>"

section \<open>The Go loop\<close>

definition applyCompleteAccounting :: "hourlyRollup \<Rightarrow> usageAccounting \<Rightarrow> hourlyRollup" where
  "applyCompleteAccounting r f =
     (let promptTokens = optionalInt64Value (ua_UncachedTokens f)
            + optionalInt64Value (ua_CacheWriteTokens f);
          cacheReadTokens = optionalInt64Value (ua_CacheReadTokens f);
          outputTokens = optionalInt64Value (ua_OutputTokens f)
      in r\<lparr>hr_AccountingValidCompleteAttempts := hr_AccountingValidCompleteAttempts r + 1,
           hr_CompletePromptTokens := hr_CompletePromptTokens r + promptTokens,
           hr_CompleteCacheReadTokens := hr_CompleteCacheReadTokens r + cacheReadTokens,
           hr_CompleteOutputTokens := hr_CompleteOutputTokens r + outputTokens,
           hr_CompleteZeroAttempts := hr_CompleteZeroAttempts r +
             (if promptTokens = 0 \<and> cacheReadTokens = 0 \<and> outputTokens = 0 then 1 else 0)\<rparr>)"

definition applyQuality :: "hourlyRollup \<Rightarrow> usageAccounting \<Rightarrow> hourlyRollup" where
  "applyQuality r f =
     (let q = optionalStringValue (ua_TokenQuality f)
      in if q = ''complete'' then applyCompleteAccounting r f
         else if q = ''inconsistent''
         then r\<lparr>hr_AccountingValidInconsistentAttempts :=
                  hr_AccountingValidInconsistentAttempts r + 1\<rparr>
         else if q = ''unclassified''
         then r\<lparr>hr_AccountingValidUnclassifiedAttempts :=
                  hr_AccountingValidUnclassifiedAttempts r + 1\<rparr>
         else r)"

definition addCanonicalTokens :: "hourlyRollup \<Rightarrow> usageAccounting \<Rightarrow> hourlyRollup" where
  "addCanonicalTokens r f =
     r\<lparr>hr_TotalTokens := hr_TotalTokens r + optionalInt64Value (ua_TotalTokens f),
       hr_InputTokens := hr_InputTokens r + optionalInt64Value (ua_InputTokens f),
       hr_UncachedTokens := hr_UncachedTokens r + optionalInt64Value (ua_UncachedTokens f),
       hr_CacheReadTokens := hr_CacheReadTokens r + optionalInt64Value (ua_CacheReadTokens f),
       hr_CacheWriteTokens := hr_CacheWriteTokens r + optionalInt64Value (ua_CacheWriteTokens f),
       hr_OutputTokens := hr_OutputTokens r + optionalInt64Value (ua_OutputTokens f),
       hr_NonReasoningTokens := hr_NonReasoningTokens r + optionalInt64Value (ua_NonReasoningTokens f),
       hr_ReasoningTokens := hr_ReasoningTokens r + optionalInt64Value (ua_ReasoningTokens f),
       hr_UnclassifiedTokens := hr_UnclassifiedTokens r + optionalInt64Value (ua_UnclassifiedTokens f)\<rparr>"

definition applyUsageAccountingToHourlyRollup :: "hourlyRollup \<Rightarrow> usageEvent \<Rightarrow> hourlyRollup" where
  "applyUsageAccountingToHourlyRollup r e =
     (let f = ev_UsageAccounting e
      in if ua_AccountingState f = AccountingAbsent
         then r\<lparr>hr_AccountingAbsentAttempts := hr_AccountingAbsentAttempts r + 1\<rparr>
         else if ua_AccountingState f = AccountingValid
         then addCanonicalTokens
                (applyQuality (r\<lparr>hr_AccountingValidAttempts := hr_AccountingValidAttempts r + 1\<rparr>) f) f
         else r)"

definition applyUsageEventToHourlyRollup :: "hourlyRollup \<Rightarrow> usageEvent \<Rightarrow> hourlyRollup" where
  "applyUsageEventToHourlyRollup r e =
     (let r1 = r\<lparr>hr_RequestCount := hr_RequestCount r + 1\<rparr>;
          r2 = (if ev_Failed e then r1\<lparr>hr_FailureCount := hr_FailureCount r1 + 1\<rparr>
                else r1\<lparr>hr_SuccessCount := hr_SuccessCount r1 + 1\<rparr>);
          r3 = applyUsageAccountingToHourlyRollup r2 e;
          r4 = (if 0 <s ev_LatencyMS e
                then r3\<lparr>hr_TotalLatencyMS := hr_TotalLatencyMS r3 + ev_LatencyMS e,
                        hr_LatencySampleCount := hr_LatencySampleCount r3 + 1\<rparr>
                else r3)
      in if isZero (hr_LastEventAt r4) \<or> hr_LastEventAt r4 < ev_Timestamp e
         then r4\<lparr>hr_LastEventAt := ev_Timestamp e\<rparr> else r4)"

definition addEventRow :: "usageEvent \<Rightarrow> rollupTable \<Rightarrow> rollupTable" where
  "addEventRow e =
     alterRow (hourlyUsageRollupKey e)
       (\<lambda>row. applyUsageEventToHourlyRollup (case row of None \<Rightarrow> emptyRollup | Some r \<Rightarrow> r) e)"

definition buildUsageRollupsForBuckets :: "instant list \<Rightarrow> usageEvent list \<Rightarrow> rollupTable" where
  "buildUsageRollupsForBuckets bucketList events =
     fold (\<lambda>e rows. if eventBucket e \<in> set (map (truncateTo hour) bucketList)
                    then addEventRow e rows else rows) events []"

definition buildUsageRollupsForEvents :: "usageEvent list \<Rightarrow> rollupTable" where
  "buildUsageRollupsForEvents events =
     (if events = [] then []
      else buildUsageRollupsForBuckets (remdups (map eventBucket events)) events)"

section \<open>Writes to the rollup table\<close>

definition mergeRollup :: "hourlyRollup \<Rightarrow> hourlyRollup \<Rightarrow> hourlyRollup" where
  \<comment> \<open>the assignments of \<open>DO UPDATE SET\<close>; the second row is \<open>excluded\<close>\<close>
  "mergeRollup r x =
     \<lparr>hr_RequestCount = hr_RequestCount r + hr_RequestCount x,
      hr_SuccessCount = hr_SuccessCount r + hr_SuccessCount x,
      hr_FailureCount = hr_FailureCount r + hr_FailureCount x,
      hr_AccountingAbsentAttempts = hr_AccountingAbsentAttempts r + hr_AccountingAbsentAttempts x,
      hr_AccountingValidAttempts = hr_AccountingValidAttempts r + hr_AccountingValidAttempts x,
      hr_AccountingValidCompleteAttempts =
        hr_AccountingValidCompleteAttempts r + hr_AccountingValidCompleteAttempts x,
      hr_AccountingValidInconsistentAttempts =
        hr_AccountingValidInconsistentAttempts r + hr_AccountingValidInconsistentAttempts x,
      hr_AccountingValidUnclassifiedAttempts =
        hr_AccountingValidUnclassifiedAttempts r + hr_AccountingValidUnclassifiedAttempts x,
      hr_CompleteZeroAttempts = hr_CompleteZeroAttempts r + hr_CompleteZeroAttempts x,
      hr_CompletePromptTokens = hr_CompletePromptTokens r + hr_CompletePromptTokens x,
      hr_CompleteCacheReadTokens = hr_CompleteCacheReadTokens r + hr_CompleteCacheReadTokens x,
      hr_CompleteOutputTokens = hr_CompleteOutputTokens r + hr_CompleteOutputTokens x,
      hr_TotalTokens = hr_TotalTokens r + hr_TotalTokens x,
      hr_InputTokens = hr_InputTokens r + hr_InputTokens x,
      hr_UncachedTokens = hr_UncachedTokens r + hr_UncachedTokens x,
      hr_CacheReadTokens = hr_CacheReadTokens r + hr_CacheReadTokens x,
      hr_CacheWriteTokens = hr_CacheWriteTokens r + hr_CacheWriteTokens x,
      hr_OutputTokens = hr_OutputTokens r + hr_OutputTokens x,
      hr_NonReasoningTokens = hr_NonReasoningTokens r + hr_NonReasoningTokens x,
      hr_ReasoningTokens = hr_ReasoningTokens r + hr_ReasoningTokens x,
      hr_UnclassifiedTokens = hr_UnclassifiedTokens r + hr_UnclassifiedTokens x,
      hr_TotalLatencyMS = hr_TotalLatencyMS r + hr_TotalLatencyMS x,
      hr_LatencySampleCount = hr_LatencySampleCount r + hr_LatencySampleCount x,
      hr_LastEventAt = max (hr_LastEventAt r) (hr_LastEventAt x)\<rparr>"

definition upsertRollup :: "rollupKey \<times> hourlyRollup \<Rightarrow> rollupTable \<Rightarrow> rollupTable" where
  "upsertRollup kr = alterRow (fst kr)
     (\<lambda>row. case row of None \<Rightarrow> snd kr | Some r \<Rightarrow> mergeRollup r (snd kr))"

definition incrementUsageRollupsForEvents :: "usageEvent list \<Rightarrow> rollupTable \<Rightarrow> rollupTable" where
  "incrementUsageRollupsForEvents events rows =
     (if events = [] then rows
      else fold upsertRollup (buildUsageRollupsForEvents events) rows)"

definition deleteBuckets :: "instant list \<Rightarrow> rollupTable \<Rightarrow> rollupTable" where
  "deleteBuckets bucketList = filter (\<lambda>(k, r). rk_BucketStart k \<notin> set bucketList)"

definition rebuildUsageRollupsForBuckets ::
  "instant list \<Rightarrow> usageEvent list \<Rightarrow> rollupTable \<Rightarrow> rollupTable" where
  "rebuildUsageRollupsForBuckets bucketList events rows =
     (if bucketList = [] then rows
      else deleteBuckets bucketList rows @ buildUsageRollupsForBuckets bucketList events)"

text \<open>\<open>stored\<close> is the table of usage events, in the order of its key.\<close>

definition eventsBetween :: "instant \<Rightarrow> instant \<Rightarrow> usageEvent list \<Rightarrow> usageEvent list" where
  "eventsBetween start endExclusive =
     filter (\<lambda>e. start \<le> ev_Timestamp e \<and> ev_Timestamp e < endExclusive)"

definition rebuildUsageRollupsForEvents ::
  "usageEvent list \<Rightarrow> usageEvent list \<Rightarrow> rollupTable \<Rightarrow> rollupTable" where
  "rebuildUsageRollupsForEvents stored seedEvents rows =
     (if seedEvents = [] then rows
      else let bucketList = sort (remdups (map eventBucket seedEvents));
               events = concat (map (\<lambda>b. eventsBetween b (b + hour) stored) bucketList)
           in rebuildUsageRollupsForBuckets bucketList events rows)"

function bucketsFrom :: "instant \<Rightarrow> instant \<Rightarrow> instant list" where
  "bucketsFrom bucket end = (if end < bucket then [] else bucket # bucketsFrom (bucket + hour) end)"
  by pat_completeness auto
termination
  by (relation "measure (\<lambda>(bucket, end). nat (end + hour - bucket))") (auto simp: hour_def)

declare bucketsFrom.simps [simp del]

definition hourlyBucketRange :: "instant \<Rightarrow> instant \<Rightarrow> instant list" where
  "hourlyBucketRange start end =
     (if end < start then [] else bucketsFrom (truncateTo hour start) end)"

section \<open>The SQL aggregation\<close>

text \<open>\<open>SUM(CASE WHEN P THEN f ELSE 0 END)\<close> over a group.\<close>

definition sumCase :: "(usageEvent \<Rightarrow> bool) \<Rightarrow> (usageEvent \<Rightarrow> i64) \<Rightarrow> usageEvent list \<Rightarrow> i64" where
  "sumCase P f g = sum_list (map (\<lambda>e. if P e then f e else 0) g)"

definition sqlAbsent :: "usageEvent \<Rightarrow> bool" where
  "sqlAbsent e \<longleftrightarrow> ua_AccountingState (ev_UsageAccounting e) = ''absent''"
definition sqlValid :: "usageEvent \<Rightarrow> bool" where
  "sqlValid e \<longleftrightarrow> ua_AccountingState (ev_UsageAccounting e) = ''valid''"
definition sqlQuality :: "string \<Rightarrow> usageEvent \<Rightarrow> bool" where
  "sqlQuality q e \<longleftrightarrow> sqlValid e \<and> ua_TokenQuality (ev_UsageAccounting e) = Some q"

abbreviation coalesced :: "(usageAccounting \<Rightarrow> i64 option) \<Rightarrow> usageEvent \<Rightarrow> i64" where
  "coalesced column e \<equiv> optionalInt64Value (column (ev_UsageAccounting e))"

definition sqlCompleteZero :: "usageEvent \<Rightarrow> bool" where
  "sqlCompleteZero e \<longleftrightarrow> sqlQuality ''complete'' e \<and>
     coalesced ua_UncachedTokens e = 0 \<and> coalesced ua_CacheReadTokens e = 0 \<and>
     coalesced ua_CacheWriteTokens e = 0 \<and> coalesced ua_OutputTokens e = 0"

definition sqlGroupRollup :: "usageEvent list \<Rightarrow> hourlyRollup" where
  "sqlGroupRollup g =
     \<lparr>hr_RequestCount = of_nat (length g),
      hr_SuccessCount = sumCase (\<lambda>e. \<not> ev_Failed e) (\<lambda>e. 1) g,
      hr_FailureCount = sumCase ev_Failed (\<lambda>e. 1) g,
      hr_AccountingAbsentAttempts = sumCase sqlAbsent (\<lambda>e. 1) g,
      hr_AccountingValidAttempts = sumCase sqlValid (\<lambda>e. 1) g,
      hr_AccountingValidCompleteAttempts = sumCase (sqlQuality ''complete'') (\<lambda>e. 1) g,
      hr_AccountingValidInconsistentAttempts = sumCase (sqlQuality ''inconsistent'') (\<lambda>e. 1) g,
      hr_AccountingValidUnclassifiedAttempts = sumCase (sqlQuality ''unclassified'') (\<lambda>e. 1) g,
      hr_CompleteZeroAttempts = sumCase sqlCompleteZero (\<lambda>e. 1) g,
      hr_CompletePromptTokens = sumCase (sqlQuality ''complete'')
        (\<lambda>e. coalesced ua_UncachedTokens e + coalesced ua_CacheWriteTokens e) g,
      hr_CompleteCacheReadTokens = sumCase (sqlQuality ''complete'') (coalesced ua_CacheReadTokens) g,
      hr_CompleteOutputTokens = sumCase (sqlQuality ''complete'') (coalesced ua_OutputTokens) g,
      hr_TotalTokens = sumCase sqlValid (coalesced ua_TotalTokens) g,
      hr_InputTokens = sumCase sqlValid (coalesced ua_InputTokens) g,
      hr_UncachedTokens = sumCase sqlValid (coalesced ua_UncachedTokens) g,
      hr_CacheReadTokens = sumCase sqlValid (coalesced ua_CacheReadTokens) g,
      hr_CacheWriteTokens = sumCase sqlValid (coalesced ua_CacheWriteTokens) g,
      hr_OutputTokens = sumCase sqlValid (coalesced ua_OutputTokens) g,
      hr_NonReasoningTokens = sumCase sqlValid (coalesced ua_NonReasoningTokens) g,
      hr_ReasoningTokens = sumCase sqlValid (coalesced ua_ReasoningTokens) g,
      hr_UnclassifiedTokens = sumCase sqlValid (coalesced ua_UnclassifiedTokens) g,
      hr_TotalLatencyMS = sumCase (\<lambda>e. 0 <s ev_LatencyMS e) ev_LatencyMS g,
      hr_LatencySampleCount = sumCase (\<lambda>e. 0 <s ev_LatencyMS e) (\<lambda>e. 1) g,
      hr_LastEventAt = Max (set (map ev_Timestamp g))\<rparr>"

definition groupOf :: "rollupKey \<Rightarrow> usageEvent list \<Rightarrow> usageEvent list" where
  "groupOf k = filter (\<lambda>e. hourlyUsageRollupKey e = k)"

definition rebuildUsageRollupsForRangeWithSQL ::
  "usageEvent list \<Rightarrow> instant \<Rightarrow> instant \<Rightarrow> rollupTable \<Rightarrow> rollupTable" where
  "rebuildUsageRollupsForRangeWithSQL stored start endExclusive rows =
     (let events = eventsBetween start endExclusive stored
      in rows @ map (\<lambda>k. (k, sqlGroupRollup (groupOf k events)))
                  (remdups (map hourlyUsageRollupKey events)))"

definition rebuildUsageRollupsForBucketRange ::
  "usageEvent list \<Rightarrow> instant \<Rightarrow> instant \<Rightarrow> rollupTable \<Rightarrow> rollupTable" where
  "rebuildUsageRollupsForBucketRange stored startBucket endBucket rows =
     (let start = truncateTo hour startBucket; end = truncateTo hour endBucket
      in if end < start then rows
         else rebuildUsageRollupsForRangeWithSQL stored start (end + hour)
                (deleteBuckets (hourlyBucketRange start end) rows))"

section \<open>The aggregate\<close>

definition timed :: "usageEvent \<Rightarrow> bool" where
  "timed e \<longleftrightarrow> zero_time \<le> ev_Timestamp e"

abbreviation rollupOf :: "usageEvent list \<Rightarrow> hourlyRollup" where
  "rollupOf es \<equiv> fold (\<lambda>e r. applyUsageEventToHourlyRollup r e) es emptyRollup"

lemma mergeRollup_assoc: "mergeRollup (mergeRollup a b) c = mergeRollup a (mergeRollup b c)"
  by (simp add: mergeRollup_def add.assoc max.assoc)

lemma mergeRollup_commute: "mergeRollup a b = mergeRollup b a"
  by (simp add: mergeRollup_def add.commute max.commute)

lemma mergeRollup_empty: "zero_time \<le> hr_LastEventAt r \<Longrightarrow> mergeRollup emptyRollup r = r"
  by (simp add: mergeRollup_def emptyRollup_def max_def)

lemma LastEventAt_accounting [simp]:
  "hr_LastEventAt (applyUsageAccountingToHourlyRollup r e) = hr_LastEventAt r"
  by (simp add: applyUsageAccountingToHourlyRollup_def addCanonicalTokens_def applyQuality_def
      applyCompleteAccounting_def Let_def)

lemma LastEventAt_apply:
  assumes "zero_time \<le> hr_LastEventAt r" "timed e"
  shows "hr_LastEventAt (applyUsageEventToHourlyRollup r e) = max (hr_LastEventAt r) (ev_Timestamp e)"
  using assms by (simp add: applyUsageEventToHourlyRollup_def Let_def isZero_def timed_def max_def)

text \<open>The accounting part of one event adds a fixed amount to every counter.\<close>

lemma applyComplete_merge:
  "applyCompleteAccounting (mergeRollup r x) f = mergeRollup r (applyCompleteAccounting x f)"
  by (simp add: applyCompleteAccounting_def mergeRollup_def Let_def add.assoc)

lemma applyQuality_merge: "applyQuality (mergeRollup r x) f = mergeRollup r (applyQuality x f)"
  by (simp add: applyQuality_def applyComplete_merge Let_def)
    (simp add: mergeRollup_def add.assoc)

lemma addTokens_merge:
  "addCanonicalTokens (mergeRollup r x) f = mergeRollup r (addCanonicalTokens x f)"
  by (simp add: addCanonicalTokens_def mergeRollup_def add.assoc)

lemma applyAccounting_merge:
  "applyUsageAccountingToHourlyRollup (mergeRollup r x) e =
     mergeRollup r (applyUsageAccountingToHourlyRollup x e)"
proof -
  have absent: "mergeRollup r x\<lparr>hr_AccountingAbsentAttempts :=
        hr_AccountingAbsentAttempts (mergeRollup r x) + 1\<rparr> =
      mergeRollup r (x\<lparr>hr_AccountingAbsentAttempts := hr_AccountingAbsentAttempts x + 1\<rparr>)"
    by (simp add: mergeRollup_def add.assoc)
  have valid: "mergeRollup r x\<lparr>hr_AccountingValidAttempts :=
        hr_AccountingValidAttempts (mergeRollup r x) + 1\<rparr> =
      mergeRollup r (x\<lparr>hr_AccountingValidAttempts := hr_AccountingValidAttempts x + 1\<rparr>)"
    by (simp add: mergeRollup_def add.assoc)
  show ?thesis
    unfolding applyUsageAccountingToHourlyRollup_def Let_def absent valid
      applyQuality_merge addTokens_merge
    by simp
qed

text \<open>All of \<open>applyUsageEventToHourlyRollup\<close> but the time of the last event.\<close>

definition applyCounters :: "hourlyRollup \<Rightarrow> usageEvent \<Rightarrow> hourlyRollup" where
  "applyCounters r e =
     (let r1 = r\<lparr>hr_RequestCount := hr_RequestCount r + 1\<rparr>;
          r2 = (if ev_Failed e then r1\<lparr>hr_FailureCount := hr_FailureCount r1 + 1\<rparr>
                else r1\<lparr>hr_SuccessCount := hr_SuccessCount r1 + 1\<rparr>);
          r3 = applyUsageAccountingToHourlyRollup r2 e
      in if 0 <s ev_LatencyMS e
         then r3\<lparr>hr_TotalLatencyMS := hr_TotalLatencyMS r3 + ev_LatencyMS e,
                 hr_LatencySampleCount := hr_LatencySampleCount r3 + 1\<rparr>
         else r3)"

lemma apply_counters:
  assumes "zero_time \<le> hr_LastEventAt r" "timed e"
  shows "applyUsageEventToHourlyRollup r e =
    (applyCounters r e)\<lparr>hr_LastEventAt := max (hr_LastEventAt r) (ev_Timestamp e)\<rparr>"
proof -
  have last: "hr_LastEventAt (applyCounters r e) = hr_LastEventAt r"
    by (simp add: applyCounters_def Let_def)
  have "applyUsageEventToHourlyRollup r e =
    (if isZero (hr_LastEventAt (applyCounters r e)) \<or>
        hr_LastEventAt (applyCounters r e) < ev_Timestamp e
     then (applyCounters r e)\<lparr>hr_LastEventAt := ev_Timestamp e\<rparr> else applyCounters r e)"
    unfolding applyUsageEventToHourlyRollup_def applyCounters_def Let_def by (rule refl)
  also have "\<dots> = (applyCounters r e)\<lparr>hr_LastEventAt := max (hr_LastEventAt r) (ev_Timestamp e)\<rparr>"
  proof (cases "hr_LastEventAt r < ev_Timestamp e")
    case True
    then show ?thesis by (simp add: last max_def)
  next
    case False
    then have "max (hr_LastEventAt r) (ev_Timestamp e) = hr_LastEventAt (applyCounters r e)"
      by (simp add: last max_def)
    moreover have "isZero (hr_LastEventAt r) \<Longrightarrow> ev_Timestamp e = hr_LastEventAt r"
      using assms False by (simp add: isZero_def timed_def)
    ultimately show ?thesis using False by (simp add: last)
  qed
  finally show ?thesis .
qed

lemma applyCounters_merge: "applyCounters (mergeRollup r x) e = mergeRollup r (applyCounters x e)"
proof -
  have req: "mergeRollup r x\<lparr>hr_RequestCount := hr_RequestCount (mergeRollup r x) + 1\<rparr> =
      mergeRollup r (x\<lparr>hr_RequestCount := hr_RequestCount x + 1\<rparr>)" for r x
    by (simp add: mergeRollup_def add.assoc)
  have fail: "mergeRollup r x\<lparr>hr_FailureCount := hr_FailureCount (mergeRollup r x) + 1\<rparr> =
      mergeRollup r (x\<lparr>hr_FailureCount := hr_FailureCount x + 1\<rparr>)" for r x
    by (simp add: mergeRollup_def add.assoc)
  have succ: "mergeRollup r x\<lparr>hr_SuccessCount := hr_SuccessCount (mergeRollup r x) + 1\<rparr> =
      mergeRollup r (x\<lparr>hr_SuccessCount := hr_SuccessCount x + 1\<rparr>)" for r x
    by (simp add: mergeRollup_def add.assoc)
  have lat: "mergeRollup r x\<lparr>hr_TotalLatencyMS := hr_TotalLatencyMS (mergeRollup r x) + l,
        hr_LatencySampleCount := hr_LatencySampleCount (mergeRollup r x) + 1\<rparr> =
      mergeRollup r (x\<lparr>hr_TotalLatencyMS := hr_TotalLatencyMS x + l,
        hr_LatencySampleCount := hr_LatencySampleCount x + 1\<rparr>)" for r x l
    by (simp add: mergeRollup_def add.assoc)
  show ?thesis
    unfolding applyCounters_def Let_def req
    by (cases "ev_Failed e"; cases "0 <s ev_LatencyMS e")
      (simp_all only: if_True if_False fail succ applyAccounting_merge lat)
qed

lemma apply_merge:
  assumes "zero_time \<le> hr_LastEventAt r" "timed e"
  shows "applyUsageEventToHourlyRollup r e =
    mergeRollup r (applyUsageEventToHourlyRollup emptyRollup e)"
proof -
  have r: "r = mergeRollup r emptyRollup"
    using mergeRollup_empty [OF assms(1)] mergeRollup_commute by metis
  have upd: "(mergeRollup a b)\<lparr>hr_LastEventAt := max (hr_LastEventAt a) t\<rparr> =
      mergeRollup a (b\<lparr>hr_LastEventAt := t\<rparr>)" for a b t
    by (simp add: mergeRollup_def)
  have "applyUsageEventToHourlyRollup r e =
      (applyCounters (mergeRollup r emptyRollup) e)
        \<lparr>hr_LastEventAt := max (hr_LastEventAt r) (ev_Timestamp e)\<rparr>"
    using apply_counters [OF assms] r by simp
  also have "\<dots> = mergeRollup r ((applyCounters emptyRollup e)\<lparr>hr_LastEventAt := ev_Timestamp e\<rparr>)"
    by (simp add: applyCounters_merge upd)
  also have "(applyCounters emptyRollup e)\<lparr>hr_LastEventAt := ev_Timestamp e\<rparr> =
      applyUsageEventToHourlyRollup emptyRollup e"
    using apply_counters [of emptyRollup e] assms(2) by (simp add: emptyRollup_def timed_def max_def)
  finally show ?thesis .
qed

interpretation rollup: aggregate applyUsageEventToHourlyRollup emptyRollup mergeRollup timed
  "\<lambda>r. zero_time \<le> hr_LastEventAt r"
proof
  show "zero_time \<le> hr_LastEventAt s \<Longrightarrow> timed e \<Longrightarrow>
      applyUsageEventToHourlyRollup s e = mergeRollup s (applyUsageEventToHourlyRollup emptyRollup e)"
    for s e by (rule apply_merge)
  show "mergeRollup (mergeRollup a b) c = mergeRollup a (mergeRollup b c)" for a b c
    by (rule mergeRollup_assoc)
  show "mergeRollup a b = mergeRollup b a" for a b by (rule mergeRollup_commute)
  show "zero_time \<le> hr_LastEventAt s \<Longrightarrow> mergeRollup emptyRollup s = s" for s
    by (rule mergeRollup_empty)
  show "zero_time \<le> hr_LastEventAt emptyRollup" by (simp add: emptyRollup_def)
  show "zero_time \<le> hr_LastEventAt s \<Longrightarrow> timed e \<Longrightarrow>
      zero_time \<le> hr_LastEventAt (applyUsageEventToHourlyRollup s e)" for s e
    by (simp add: LastEventAt_apply timed_def max_def)
qed

section \<open>The contents of a rollup table\<close>

text \<open>What the row of a key must be, given the events.\<close>

definition rollupSpec :: "usageEvent list \<Rightarrow> rollupKey \<Rightarrow> hourlyRollup option" where
  "rollupSpec es k = (let g = groupOf k es in if g = [] then None else Some (rollupOf g))"

lemma groupOf_append [simp]: "groupOf k (xs @ ys) = groupOf k xs @ groupOf k ys"
  by (simp add: groupOf_def)

lemma groupOf_Nil [simp]: "groupOf k [] = []"
  by (simp add: groupOf_def)

lemma key_bucket [simp]: "rk_BucketStart (hourlyUsageRollupKey e) = eventBucket e"
  by (simp add: hourlyUsageRollupKey_def)

lemma eventBucket_aligned [simp]: "truncateTo hour (eventBucket e) = eventBucket e"
  by (simp add: eventBucket_def)

lemma build_lookup:
  "map_of (buildUsageRollupsForBuckets B es) k =
     (if rk_BucketStart k \<in> set (map (truncateTo hour) B) then rollupSpec es k else None)"
proof (induction es rule: rev_induct)
  case Nil
  show ?case by (simp add: buildUsageRollupsForBuckets_def rollupSpec_def)
next
  case (snoc e es)
  show ?case
  proof (cases "hourlyUsageRollupKey e = k")
    case True
    then have "rk_BucketStart k = eventBucket e" by auto
    with True snoc show ?thesis
      by (simp add: buildUsageRollupsForBuckets_def addEventRow_def map_of_alterRow rollupSpec_def
          groupOf_def Let_def split: option.split)
  next
    case False
    with snoc show ?thesis
      by (simp add: buildUsageRollupsForBuckets_def addEventRow_def map_of_alterRow rollupSpec_def
          groupOf_def Let_def)
  qed
qed

lemma build_distinct: "distinct (map fst (buildUsageRollupsForBuckets B es))"
proof (induction es rule: rev_induct)
  case Nil
  show ?case by (simp add: buildUsageRollupsForBuckets_def)
next
  case (snoc e es)
  then show ?case by (simp add: buildUsageRollupsForBuckets_def addEventRow_def distinct_alterRow)
qed

lemma build_events_lookup: "map_of (buildUsageRollupsForEvents es) k = rollupSpec es k"
proof (cases "es = []")
  case True
  then show ?thesis by (simp add: buildUsageRollupsForEvents_def rollupSpec_def)
next
  case False
  have "rollupSpec es k = None" if "rk_BucketStart k \<notin> eventBucket ` set es"
  proof -
    have "groupOf k es = []" using that by (auto simp: groupOf_def filter_empty_conv)
    then show ?thesis by (simp add: rollupSpec_def)
  qed
  moreover have "set (map (truncateTo hour) (remdups (map eventBucket es))) = eventBucket ` set es"
    by (simp add: image_image)
  ultimately show ?thesis
    using False by (simp add: buildUsageRollupsForEvents_def build_lookup del: set_map)
qed

lemma build_events_distinct: "distinct (map fst (buildUsageRollupsForEvents es))"
  by (simp add: buildUsageRollupsForEvents_def build_distinct)

lemma fold_upsert_lookup:
  assumes "distinct (map fst xs)"
  shows "map_of (fold upsertRollup xs rows) k =
    (case map_of xs k of
       None \<Rightarrow> map_of rows k
     | Some x \<Rightarrow> Some (case map_of rows k of None \<Rightarrow> x | Some r \<Rightarrow> mergeRollup r x))"
  using assms
proof (induction xs arbitrary: rows)
  case (Cons kx xs)
  obtain k' x where kx: "kx = (k', x)" by (cases kx)
  have "k' = k \<Longrightarrow> map_of xs k = None" using Cons.prems kx by (simp add: map_of_eq_None_iff)
  with Cons kx show ?case
    by (cases "k' = k") (simp_all add: upsertRollup_def map_of_alterRow split: option.split)
qed simp

lemma fold_upsert_distinct:
  "distinct (map fst rows) \<Longrightarrow> distinct (map fst (fold upsertRollup xs rows))"
  by (induction xs arbitrary: rows) (simp_all add: upsertRollup_def distinct_alterRow)

lemma rollupSpec_append:
  assumes "\<forall>e \<in> set (xs @ ys). timed e"
  shows "rollupSpec (xs @ ys) k =
    (case rollupSpec ys k of
       None \<Rightarrow> rollupSpec xs k
     | Some y \<Rightarrow> Some (case rollupSpec xs k of None \<Rightarrow> y | Some x \<Rightarrow> mergeRollup x y))"
proof -
  have "\<forall>e \<in> set (groupOf k xs @ groupOf k ys). timed e"
    using assms by (auto simp: groupOf_def)
  from rollup.fold_append [OF this] show ?thesis
    by (cases "groupOf k xs = []"; cases "groupOf k ys = []") (simp_all add: rollupSpec_def Let_def)
qed

text \<open>Incrementing a correct table by new events gives the table of all events.\<close>

lemma increment_lookup:
  assumes "\<forall>e \<in> set (old @ new). timed e" "map_of rows k = rollupSpec old k"
  shows "map_of (incrementUsageRollupsForEvents new rows) k = rollupSpec (old @ new) k"
proof (cases "new = []")
  case True
  with assms show ?thesis by (simp add: incrementUsageRollupsForEvents_def)
next
  case False
  then show ?thesis
    using assms rollupSpec_append [OF assms(1), of k]
    by (simp add: incrementUsageRollupsForEvents_def build_events_lookup build_events_distinct
        fold_upsert_lookup split: option.split)
qed

lemma increment_distinct:
  "distinct (map fst rows) \<Longrightarrow> distinct (map fst (incrementUsageRollupsForEvents es rows))"
  by (simp add: incrementUsageRollupsForEvents_def fold_upsert_distinct)

section \<open>The SQL aggregation computes the same rollup\<close>

text \<open>What the store guarantees of an event: a valid state is a validated record.\<close>

definition storedOK :: "usageEvent \<Rightarrow> bool" where
  "storedOK e \<longleftrightarrow> timed e \<and>
     (ua_AccountingState (ev_UsageAccounting e) = AccountingValid \<longrightarrow>
        validateUsageAccounting (ev_UsageAccounting e) = None)"

lemma storedOK_timed: "storedOK e \<Longrightarrow> timed e"
  by (simp add: storedOK_def)

lemma sumCase_simps [simp]:
  "sumCase P f [] = 0"
  "sumCase P f (e # es) = (if P e then f e else 0) + sumCase P f es"
  by (simp_all add: sumCase_def)

text \<open>With validated buckets, a prompt of zero tokens is two empty buckets.\<close>

lemma prompt_zero_iff:
  assumes "validateUsageAccounting f = None"
  shows "optionalInt64Value (ua_UncachedTokens f) + optionalInt64Value (ua_CacheWriteTokens f) = 0
    \<longleftrightarrow> optionalInt64Value (ua_UncachedTokens f) = 0 \<and> optionalInt64Value (ua_CacheWriteTokens f) = 0"
proof -
  let ?a = "optionalInt64Value (ua_UncachedTokens f)"
  let ?b = "optionalInt64Value (ua_CacheWriteTokens f)"
  have wf: "accountingWellFormed f" using assms by (simp add: validate_None_iff)
  note v = wellFormed_values [OF wf]
  have sum: "sint (?a + ?b) = sint ?a + sint ?b"
    using v sint_i64_bounds [of "optionalInt64Value (ua_InputTokens f)"]
    by (intro sint_add_i64) linarith+
  show ?thesis
    unfolding i64_zero_iff sum using v(1,3) by linarith
qed

lemma sqlGroup_single:
  assumes "storedOK e"
  shows "sqlGroupRollup [e] = applyUsageEventToHourlyRollup emptyRollup e"
proof -
  let ?f = "ev_UsageAccounting e"
  have t: "zero_time \<le> ev_Timestamp e" "timed e" using assms by (simp_all add: storedOK_def timed_def)
  have apply_eq: "applyUsageEventToHourlyRollup emptyRollup e =
      (applyCounters emptyRollup e)\<lparr>hr_LastEventAt := ev_Timestamp e\<rparr>"
    using apply_counters [of emptyRollup e] t by (simp add: emptyRollup_def max_def)
  show ?thesis
  proof (cases "ua_AccountingState ?f = AccountingValid")
    case False
    then show ?thesis
      unfolding apply_eq sqlGroupRollup_def
      by (simp add: applyCounters_def applyUsageAccountingToHourlyRollup_def emptyRollup_def Let_def
          sqlAbsent_def sqlValid_def sqlQuality_def sqlCompleteZero_def AccountingAbsent_def
          AccountingValid_def)
  next
    case True
    then have ok: "validateUsageAccounting ?f = None" using assms by (simp add: storedOK_def)
    have valid: "sqlValid e" "\<not> sqlAbsent e"
      using True by (simp_all add: sqlValid_def sqlAbsent_def AccountingValid_def)
    have acc: "applyUsageAccountingToHourlyRollup r e =
        addCanonicalTokens (applyQuality (r\<lparr>hr_AccountingValidAttempts :=
          hr_AccountingValidAttempts r + 1\<rparr>) ?f) ?f" for r
      using True
      by (simp add: applyUsageAccountingToHourlyRollup_def Let_def AccountingAbsent_def AccountingValid_def)
    obtain q where q: "ua_TokenQuality ?f = Some q"
        and q3: "q = ''complete'' \<or> q = ''inconsistent'' \<or> q = ''unclassified''"
      using ok by (auto simp: validate_None_iff accountingWellFormed_def)
    from q3 show ?thesis
      unfolding apply_eq sqlGroupRollup_def
      by (elim disjE)
        (simp_all add: applyCounters_def acc addCanonicalTokens_def applyQuality_def
          applyCompleteAccounting_def emptyRollup_def Let_def valid q sqlQuality_def
          sqlCompleteZero_def prompt_zero_iff [OF ok] conj_ac)
  qed
qed

lemma sqlGroup_Cons:
  "es \<noteq> [] \<Longrightarrow> sqlGroupRollup (e # es) = mergeRollup (sqlGroupRollup [e]) (sqlGroupRollup es)"
  by (simp add: sqlGroupRollup_def mergeRollup_def)

lemma sqlGroup_eq:
  "es \<noteq> [] \<Longrightarrow> \<forall>e \<in> set es. storedOK e \<Longrightarrow> sqlGroupRollup es = rollupOf es"
proof (induction es)
  case (Cons e es)
  have timed: "\<forall>x \<in> set (e # es). timed x" using Cons.prems by (auto simp: storedOK_timed)
  have single: "sqlGroupRollup [e] = applyUsageEventToHourlyRollup emptyRollup e"
    using Cons.prems by (intro sqlGroup_single) simp
  show ?case
  proof (cases "es = []")
    case True
    with single show ?thesis by simp
  next
    case False
    then show ?thesis
      using Cons single rollup.fold_Cons_merge [OF timed] by (simp add: sqlGroup_Cons del: fold_simps)
  qed
qed simp

section \<open>Ranges of buckets\<close>

lemma bucketsFrom_mem:
  "b \<in> set (bucketsFrom start end) \<longleftrightarrow> start \<le> b \<and> b \<le> end \<and> hour dvd (b - start)"
proof (induction start "end" rule: bucketsFrom.induct)
  case (1 bucket "end")
  show ?case
  proof (cases "end < bucket")
    case True
    then show ?thesis by (subst bucketsFrom.simps) auto
  next
    case False
    have ih: "b \<in> set (bucketsFrom (bucket + hour) end) \<longleftrightarrow>
        bucket + hour \<le> b \<and> b \<le> end \<and> hour dvd (b - (bucket + hour))"
      using 1 False by simp
    have dvd: "hour dvd (b - (bucket + hour)) \<longleftrightarrow> hour dvd (b - bucket)"
      by (metis diff_diff_eq dvd_minus_self dvd_diff_commute dvd_refl dvd_diff_right_iff diff_add_cancel dvd_add_left_iff)
    have "bucket + hour \<le> b" if "bucket \<le> b" "b \<noteq> bucket" "hour dvd (b - bucket)"
      using zdvd_imp_le [OF that(3)] that(1,2) by linarith
    then show ?thesis
      using False hour_pos(1) unfolding bucketsFrom.simps [of bucket "end"]
      by (auto simp: ih dvd simp del: hour_pos)
  qed
qed

lemma hourlyBucketRange_mem:
  "b \<in> set (hourlyBucketRange start end) \<longleftrightarrow>
     truncateTo hour b = b \<and> truncateTo hour start \<le> b \<and> b \<le> end \<and> start \<le> end"
proof -
  have "hour dvd (b - truncateTo hour start) \<longleftrightarrow> truncateTo hour b = b"
    unfolding truncateTo_hour_aligned by (simp add: truncateTo_hour dvd_diff_left_iff)
  then show ?thesis by (auto simp: hourlyBucketRange_def bucketsFrom_mem)
qed

section \<open>Rebuilding\<close>

definition rollupTableOK :: "rollupTable \<Rightarrow> bool" where
  "rollupTableOK rows \<longleftrightarrow> distinct (map fst rows) \<and>
     (\<forall>k \<in> fst ` set rows. truncateTo hour (rk_BucketStart k) = rk_BucketStart k)"

lemma deleteBuckets_lookup:
  "map_of (deleteBuckets B rows) k = (if rk_BucketStart k \<in> set B then None else map_of rows k)"
  by (induction rows) (auto simp: deleteBuckets_def)

lemma deleteBuckets_keys: "fst ` set (deleteBuckets B rows) \<subseteq> fst ` set rows"
  by (auto simp: deleteBuckets_def)

lemma deleteBuckets_ok: "rollupTableOK rows \<Longrightarrow> rollupTableOK (deleteBuckets B rows)"
  unfolding rollupTableOK_def deleteBuckets_def
  by (auto simp: distinct_map_filter)

lemma groupOf_between:
  assumes "truncateTo hour (rk_BucketStart k) = rk_BucketStart k"
    "truncateTo hour start = start" "truncateTo hour stop = stop"
    "start \<le> rk_BucketStart k" "rk_BucketStart k < stop"
  shows "groupOf k (eventsBetween start stop es) = groupOf k es"
proof -
  have "start \<le> ev_Timestamp e \<and> ev_Timestamp e < stop" if "hourlyUsageRollupKey e = k" for e
  proof -
    have b: "truncateTo hour (ev_Timestamp e) = rk_BucketStart k"
      using that by (auto simp: eventBucket_def [symmetric])
    have "start \<le> ev_Timestamp e"
      using assms(4) b truncateTo_le [of hour "ev_Timestamp e"] by simp
    moreover have "ev_Timestamp e < stop"
    proof (rule ccontr)
      assume "\<not> ev_Timestamp e < stop"
      then have "truncateTo hour stop \<le> truncateTo hour (ev_Timestamp e)"
        by (intro truncateTo_hour_mono) simp
      with assms(3,5) b show False by simp
    qed
    ultimately show ?thesis by simp
  qed
  then show ?thesis
    by (auto simp: groupOf_def eventsBetween_def filter_filter intro: filter_cong)
qed

lemma groupOf_outside:
  assumes "truncateTo hour start = start" "truncateTo hour stop = stop"
    "\<not> (start \<le> rk_BucketStart k \<and> rk_BucketStart k < stop)"
  shows "groupOf k (eventsBetween start stop es) = []"
proof -
  have False if "hourlyUsageRollupKey e = k" "start \<le> ev_Timestamp e" "ev_Timestamp e < stop" for e
  proof -
    have b: "truncateTo hour (ev_Timestamp e) = rk_BucketStart k"
      using that(1) by (auto simp: eventBucket_def [symmetric])
    have "start \<le> rk_BucketStart k"
      using truncateTo_hour_mono [OF that(2)] assms(1) b by simp
    moreover have "rk_BucketStart k < stop"
      using truncateTo_le [of hour "ev_Timestamp e"] that(3) b by simp
    ultimately show False using assms(3) by simp
  qed
  then show ?thesis by (auto simp: groupOf_def eventsBetween_def filter_empty_conv)
qed

lemma map_of_map_self: "map_of (map (\<lambda>k. (k, f k)) ks) k = (if k \<in> set ks then Some (f k) else None)"
  by (induction ks) auto

lemma rangeSQL_lookup:
  assumes "truncateTo hour start = start" "truncateTo hour stop = stop"
    "\<forall>e \<in> set stored. storedOK e"
    "truncateTo hour (rk_BucketStart k) = rk_BucketStart k"
    "start \<le> rk_BucketStart k \<Longrightarrow> rk_BucketStart k < stop \<Longrightarrow> map_of rows k = None"
  shows "map_of (rebuildUsageRollupsForRangeWithSQL stored start stop rows) k =
    (if start \<le> rk_BucketStart k \<and> rk_BucketStart k < stop then rollupSpec stored k
     else map_of rows k)"
proof -
  let ?E = "eventsBetween start stop stored"
  have mem: "k \<in> set (remdups (map hourlyUsageRollupKey ?E)) \<longleftrightarrow> groupOf k ?E \<noteq> []"
    by (auto simp: groupOf_def filter_empty_conv)
  have look: "map_of (rebuildUsageRollupsForRangeWithSQL stored start stop rows) k =
      (case map_of rows k of
         None \<Rightarrow> if groupOf k ?E \<noteq> [] then Some (sqlGroupRollup (groupOf k ?E)) else None
       | Some r \<Rightarrow> Some r)"
    unfolding rebuildUsageRollupsForRangeWithSQL_def Let_def map_of_append map_add_def
      map_of_map_self mem by (simp split: option.split)
  show ?thesis
  proof (cases "start \<le> rk_BucketStart k \<and> rk_BucketStart k < stop")
    case True
    have g: "groupOf k ?E = groupOf k stored"
      using True assms(1,2,4) by (intro groupOf_between) simp_all
    have "groupOf k stored \<noteq> [] \<Longrightarrow> sqlGroupRollup (groupOf k stored) = rollupOf (groupOf k stored)"
      using assms(3) by (intro sqlGroup_eq) (auto simp: groupOf_def)
    with True assms(5) show ?thesis by (simp add: look g rollupSpec_def Let_def)
  next
    case False
    then have "groupOf k ?E = []" by (intro groupOf_outside assms)
    with False show ?thesis by (auto simp: look split: option.split)
  qed
qed

lemma rangeSQL_ok:
  assumes "rollupTableOK rows" "truncateTo hour start = start" "truncateTo hour stop = stop"
    "\<forall>k \<in> fst ` set rows. \<not> (start \<le> rk_BucketStart k \<and> rk_BucketStart k < stop)"
  shows "rollupTableOK (rebuildUsageRollupsForRangeWithSQL stored start stop rows)"
proof -
  let ?E = "eventsBetween start stop stored"
  let ?ks = "remdups (map hourlyUsageRollupKey ?E)"
  have new: "k \<notin> fst ` set rows" if "k \<in> set ?ks" for k
    using that assms(4) groupOf_outside [OF assms(2,3), of k stored]
    by (fastforce simp: groupOf_def filter_empty_conv)
  have "truncateTo hour (rk_BucketStart k) = rk_BucketStart k" if "k \<in> set ?ks" for k
    using that by auto
  moreover have "distinct (map fst rows @ ?ks)" using assms(1) new by (auto simp: rollupTableOK_def)
  ultimately show ?thesis
    using assms(1)
    by (auto simp: rollupTableOK_def rebuildUsageRollupsForRangeWithSQL_def Let_def o_def
        simp del: set_remdups distinct_append)
qed

lemma rebuildRange_lookup:
  assumes "\<forall>e \<in> set stored. storedOK e" "truncateTo hour (rk_BucketStart k) = rk_BucketStart k"
  shows "map_of (rebuildUsageRollupsForBucketRange stored s t rows) k =
    (if truncateTo hour s \<le> rk_BucketStart k \<and> rk_BucketStart k \<le> truncateTo hour t
     then rollupSpec stored k else map_of rows k)"
proof (cases "truncateTo hour t < truncateTo hour s")
  case True
  then show ?thesis by (auto simp: rebuildUsageRollupsForBucketRange_def Let_def)
next
  case False
  let ?s = "truncateTo hour s" and ?t = "truncateTo hour t"
  let ?rows = "deleteBuckets (hourlyBucketRange ?s ?t) rows"
  have lt: "b \<le> ?t \<longleftrightarrow> b < ?t + hour" if "truncateTo hour b = b" for b
    using truncateTo_hour_eq_iff [of ?t b] that
    by (smt (verit, best) hour_pos(1) truncateTo_hour_add1 truncateTo_hour_idem truncateTo_hour_mono
        truncateTo_gt)
  have stop: "truncateTo hour (?t + hour) = ?t + hour" by (simp add: truncateTo_hour_add1)
  have del: "map_of ?rows k = (if ?s \<le> rk_BucketStart k \<and> rk_BucketStart k \<le> ?t then None
      else map_of rows k)"
    using False assms(2) by (simp add: deleteBuckets_lookup hourlyBucketRange_mem)
  have "map_of (rebuildUsageRollupsForBucketRange stored s t rows) k =
      map_of (rebuildUsageRollupsForRangeWithSQL stored ?s (?t + hour) ?rows) k"
    using False by (simp add: rebuildUsageRollupsForBucketRange_def Let_def)
  also have "\<dots> = (if ?s \<le> rk_BucketStart k \<and> rk_BucketStart k < ?t + hour then rollupSpec stored k
      else map_of ?rows k)"
    using assms stop del lt [OF assms(2)] by (intro rangeSQL_lookup) simp_all
  finally show ?thesis using del lt [OF assms(2)] by simp
qed

lemma rebuildRange_ok:
  assumes "rollupTableOK rows"
  shows "rollupTableOK (rebuildUsageRollupsForBucketRange stored s t rows)"
proof (cases "truncateTo hour t < truncateTo hour s")
  case True
  with assms show ?thesis by (simp add: rebuildUsageRollupsForBucketRange_def Let_def)
next
  case False
  let ?s = "truncateTo hour s" and ?t = "truncateTo hour t"
  let ?rows = "deleteBuckets (hourlyBucketRange ?s ?t) rows"
  have ok: "rollupTableOK ?rows" by (rule deleteBuckets_ok [OF assms])
  have "\<not> (?s \<le> rk_BucketStart k \<and> rk_BucketStart k < ?t + hour)" if "k \<in> fst ` set ?rows" for k
  proof
    assume range: "?s \<le> rk_BucketStart k \<and> rk_BucketStart k < ?t + hour"
    have al: "truncateTo hour (rk_BucketStart k) = rk_BucketStart k"
      using that ok by (auto simp: rollupTableOK_def)
    have "rk_BucketStart k \<le> ?t"
    proof (rule ccontr)
      assume "\<not> rk_BucketStart k \<le> ?t"
      then have "?t < rk_BucketStart k" by simp
      then have "truncateTo hour (rk_BucketStart k) \<noteq> ?t" using al by simp
      then show False
        using truncateTo_hour_eq_iff [of ?t "rk_BucketStart k"] range \<open>?t < rk_BucketStart k\<close> by simp
    qed
    with range al False have "rk_BucketStart k \<in> set (hourlyBucketRange ?s ?t)"
      by (simp add: hourlyBucketRange_mem)
    with that show False by (auto simp: deleteBuckets_def)
  qed
  then have "rollupTableOK (rebuildUsageRollupsForRangeWithSQL stored ?s (?t + hour) ?rows)"
    by (intro rangeSQL_ok ok) (simp_all add: truncateTo_hour_add1)
  with False show ?thesis by (simp add: rebuildUsageRollupsForBucketRange_def Let_def)
qed

lemma timed_all: "\<forall>e \<in> set es. storedOK e \<Longrightarrow> \<forall>e \<in> set es. timed e"
  by (simp add: storedOK_timed)

lemma rebuildBuckets_lookup:
  assumes "\<forall>b \<in> set B. truncateTo hour b = b" "B \<noteq> []"
  shows "map_of (rebuildUsageRollupsForBuckets B es rows) k =
    (if rk_BucketStart k \<in> set B then rollupSpec es k else map_of rows k)"
proof -
  have "set (map (truncateTo hour) B) = set B" using assms(1) by (force simp: image_iff)
  with assms(2) show ?thesis
    by (simp add: rebuildUsageRollupsForBuckets_def map_add_def build_lookup deleteBuckets_lookup
        del: set_map split: option.split)
qed

lemma groupOf_concat_between:
  assumes "\<forall>b \<in> set B. truncateTo hour b = b" "distinct B"
    "truncateTo hour (rk_BucketStart k) = rk_BucketStart k" "rk_BucketStart k \<in> set B"
  shows "groupOf k (concat (map (\<lambda>b. eventsBetween b (b + hour) es) B)) = groupOf k es"
  using assms
proof (induction B)
  case (Cons b B)
  have ends: "truncateTo hour (b + hour) = b + hour" using Cons.prems by (simp add: truncateTo_hour_add1)
  have other: "groupOf k (concat (map (\<lambda>b. eventsBetween b (b + hour) es) C)) = []"
    if "rk_BucketStart k \<notin> set C" "\<forall>b \<in> set C. truncateTo hour b = b" for C
    using that
  proof (induction C)
    case (Cons c C)
    have "\<not> (c \<le> rk_BucketStart k \<and> rk_BucketStart k < c + hour)"
      using Cons.prems assms(3) truncateTo_hour_eq_iff [of c "rk_BucketStart k"] by auto
    then have "groupOf k (eventsBetween c (c + hour) es) = []"
      using Cons.prems by (intro groupOf_outside) (simp_all add: truncateTo_hour_add1)
    with Cons show ?case by simp
  qed simp
  show ?case
  proof (cases "rk_BucketStart k = b")
    case True
    then have "groupOf k (eventsBetween b (b + hour) es) = groupOf k es"
      using Cons.prems ends by (intro groupOf_between) simp_all
    moreover have "groupOf k (concat (map (\<lambda>b. eventsBetween b (b + hour) es) B)) = []"
      using Cons.prems True by (intro other) simp_all
    ultimately show ?thesis by simp
  next
    case False
    then have "groupOf k (eventsBetween b (b + hour) es) = []"
      using other [of "[b]"] Cons.prems by simp
    with False Cons show ?thesis by simp
  qed
qed simp

lemma sumCase_exact:
  assumes "\<forall>e \<in> set es. P e \<longrightarrow> 0 \<le> sint (f e)" "(\<Sum>e\<leftarrow>es. if P e then sint (f e) else 0) < 2 ^ 63"
  shows "sint (sumCase P f es) = (\<Sum>e\<leftarrow>es. if P e then sint (f e) else 0)"
  using assms
proof (induction es)
  case (Cons e es)
  let ?S = "\<Sum>e\<leftarrow>es. if P e then sint (f e) else 0"
  have "0 \<le> ?S" using Cons.prems(1) by (intro sum_list_nonneg) auto
  with Cons show ?case by (cases "P e") (simp_all add: sint_add_i64)
qed simp

section \<open>Balance of the counters\<close>

definition balanced :: "hourlyRollup \<Rightarrow> bool" where
  "balanced r \<longleftrightarrow>
     hr_RequestCount r = hr_SuccessCount r + hr_FailureCount r \<and>
     hr_RequestCount r = hr_AccountingAbsentAttempts r + hr_AccountingValidAttempts r \<and>
     hr_AccountingValidAttempts r = hr_AccountingValidCompleteAttempts r
       + hr_AccountingValidInconsistentAttempts r + hr_AccountingValidUnclassifiedAttempts r \<and>
     hr_InputTokens r = hr_UncachedTokens r + hr_CacheReadTokens r + hr_CacheWriteTokens r \<and>
     hr_OutputTokens r = hr_NonReasoningTokens r + hr_ReasoningTokens r \<and>
     hr_TotalTokens r = hr_InputTokens r + hr_OutputTokens r + hr_UnclassifiedTokens r"

lemma balanced_merge:
  assumes "balanced a" "balanced b"
  shows "balanced (mergeRollup a b)"
proof -
  have two: "x + x' = (y + y') + (z + z')" if "x = y + z" "x' = y' + z'" for x x' y y' z z' :: i64
    using that by simp
  have three: "x + x' = (y + y') + (z + z') + (w + w')" if "x = y + z + w" "x' = y' + z' + w'"
    for x x' y y' z z' w w' :: i64
    using that by simp
  from assms show ?thesis
    unfolding balanced_def mergeRollup_def hourlyRollup.simps
    by (elim conjE, intro conjI)
      ((rule three, assumption, assumption) | (rule two, assumption, assumption))+
qed

text \<open>The bucket sums of a validated record hold on the words too.\<close>

lemma validated_word_sums:
  assumes "validateUsageAccounting f = None"
  shows "optionalInt64Value (ua_InputTokens f) = optionalInt64Value (ua_UncachedTokens f)
      + optionalInt64Value (ua_CacheReadTokens f) + optionalInt64Value (ua_CacheWriteTokens f)"
    "optionalInt64Value (ua_OutputTokens f) = optionalInt64Value (ua_NonReasoningTokens f)
      + optionalInt64Value (ua_ReasoningTokens f)"
    "optionalInt64Value (ua_TotalTokens f) = optionalInt64Value (ua_InputTokens f)
      + optionalInt64Value (ua_OutputTokens f) + optionalInt64Value (ua_UnclassifiedTokens f)"
proof -
  have word3: "a = b + c + d" if "sint a = sint b + sint c + sint d" for a b c d :: i64
    using that by (metis of_int_add of_int_sint scast_id scast_eq)
  have word2: "a = b + c" if "sint a = sint b + sint c" for a b c :: i64
    using that word3 [of a b c 0] by simp
  have wf: "accountingWellFormed f" using assms by (simp add: validate_None_iff)
  then obtain tot input uncached cread cwrite out nonreason rsn unclass where
    b: "accountingBuckets f = map Some
          [tot, input, uncached, cread, cwrite, out, nonreason, rsn, unclass]"
    and s: "sint input = sint uncached + sint cread + sint cwrite"
      "sint out = sint nonreason + sint rsn" "sint tot = sint input + sint out + sint unclass"
    unfolding accountingWellFormed_def by blast
  show "optionalInt64Value (ua_InputTokens f) = optionalInt64Value (ua_UncachedTokens f)
      + optionalInt64Value (ua_CacheReadTokens f) + optionalInt64Value (ua_CacheWriteTokens f)"
    "optionalInt64Value (ua_OutputTokens f) = optionalInt64Value (ua_NonReasoningTokens f)
      + optionalInt64Value (ua_ReasoningTokens f)"
    "optionalInt64Value (ua_TotalTokens f) = optionalInt64Value (ua_InputTokens f)
      + optionalInt64Value (ua_OutputTokens f) + optionalInt64Value (ua_UnclassifiedTokens f)"
    using b word3 [OF s(1)] word2 [OF s(2)] word3 [OF s(3)] by (simp_all add: accountingBuckets_def)
qed

lemma balanced_single:
  assumes "storedOK e" "ua_AccountingState (ev_UsageAccounting e) \<in> {AccountingAbsent, AccountingValid}"
  shows "balanced (applyUsageEventToHourlyRollup emptyRollup e)"
proof (cases "ua_AccountingState (ev_UsageAccounting e) = AccountingValid")
  case False
  with assms(2) have "sqlAbsent e" "\<not> sqlValid e"
    by (auto simp: sqlAbsent_def sqlValid_def AccountingAbsent_def AccountingValid_def)
  then show ?thesis
    by (simp add: sqlGroup_single [OF assms(1), symmetric] balanced_def sqlGroupRollup_def sqlQuality_def)
next
  case True
  then have ok: "validateUsageAccounting (ev_UsageAccounting e) = None"
    using assms(1) by (simp add: storedOK_def)
  have flags: "sqlValid e" "\<not> sqlAbsent e"
    using True by (simp_all add: sqlAbsent_def sqlValid_def AccountingValid_def)
  obtain q where q: "ua_TokenQuality (ev_UsageAccounting e) = Some q"
      and q3: "q = ''complete'' \<or> q = ''inconsistent'' \<or> q = ''unclassified''"
    using ok by (auto simp: validate_None_iff accountingWellFormed_def)
  from q3 show ?thesis
    by (elim disjE)
      (simp_all add: sqlGroup_single [OF assms(1), symmetric] balanced_def sqlGroupRollup_def
        sqlQuality_def flags q validated_word_sums [OF ok])
qed

lemma balanced_rollupOf:
  assumes "\<forall>e \<in> set es. storedOK e \<and>
      ua_AccountingState (ev_UsageAccounting e) \<in> {AccountingAbsent, AccountingValid}"
  shows "balanced (rollupOf es)"
  using assms
proof (induction es)
  case Nil
  show ?case by (simp add: balanced_def emptyRollup_def)
next
  case (Cons e es)
  have "\<forall>x \<in> set (e # es). timed x" using Cons.prems by (auto simp: storedOK_timed)
  from rollup.fold_Cons_merge [OF this] show ?case
    using Cons by (simp add: balanced_merge balanced_single del: fold_simps)
qed

section \<open>Properties\<close>

text \<open>
  Incrementing is exact: if a rollup table holds, for every key, the aggregate of the old events,
  then after \<open>incrementUsageRollupsForEvents\<close> for newly inserted events it holds the aggregate of
  all of them, with distinct keys, whatever the order in which the rollups were upserted.
\<close>

theorem increment_exact:
  assumes "\<forall>e \<in> set (old @ new). timed e" "\<forall>k. map_of rows k = rollupSpec old k"
    "distinct (map fst rows)"
  shows "distinct (map fst (incrementUsageRollupsForEvents new rows)) \<and>
    (\<forall>k. map_of (incrementUsageRollupsForEvents new rows) k = rollupSpec (old @ new) k)"
  using increment_lookup [OF assms(1)] increment_distinct [OF assms(3)] assms(2) by blast

lemma sample_storedOK: "storedOK sampleEvent"
  by (simp add: storedOK_def timed_def sampleEvent_def zero_time_def sample_validated)

lemma increment_exact_witness:
  "map_of (incrementUsageRollupsForEvents [sampleEvent] (incrementUsageRollupsForEvents [sampleEvent] []))
     (hourlyUsageRollupKey sampleEvent) = rollupSpec [sampleEvent, sampleEvent] (hourlyUsageRollupKey sampleEvent)"
proof -
  have t: "timed sampleEvent" using sample_storedOK by (rule storedOK_timed)
  have base: "\<forall>k. map_of ([] :: rollupTable) k = rollupSpec [] k" by (simp add: rollupSpec_def)
  have one: "distinct (map fst (incrementUsageRollupsForEvents [sampleEvent] [])) \<and>
      (\<forall>k. map_of (incrementUsageRollupsForEvents [sampleEvent] []) k = rollupSpec ([] @ [sampleEvent]) k)"
    using t base by (intro increment_exact) simp_all
  have "distinct (map fst (incrementUsageRollupsForEvents [sampleEvent]
        (incrementUsageRollupsForEvents [sampleEvent] []))) \<and>
      (\<forall>k. map_of (incrementUsageRollupsForEvents [sampleEvent]
        (incrementUsageRollupsForEvents [sampleEvent] [])) k = rollupSpec ([sampleEvent] @ [sampleEvent]) k)"
    using t one by (intro increment_exact) simp_all
  then show ?thesis by simp
qed

text \<open>
  C10. The SQL rebuild of a range of hours agrees with the Go aggregation: over stored events, every
  row of the range becomes the aggregate that incremental maintenance would have produced, rows
  outside the range keep their contents, and the dimensions stay unique, so the insert does not
  collide.
\<close>

theorem rebuildRange_exact:
  assumes "\<forall>e \<in> set stored. storedOK e" "rollupTableOK rows"
  shows "rollupTableOK (rebuildUsageRollupsForBucketRange stored s t rows) \<and>
    (\<forall>k. truncateTo hour (rk_BucketStart k) = rk_BucketStart k \<longrightarrow>
       map_of (rebuildUsageRollupsForBucketRange stored s t rows) k =
         (if truncateTo hour s \<le> rk_BucketStart k \<and> rk_BucketStart k \<le> truncateTo hour t
          then rollupSpec stored k else map_of rows k))"
  using rebuildRange_ok [OF assms(2)] rebuildRange_lookup [OF assms(1)] by blast

lemma rebuildRange_exact_witness:
  "map_of (rebuildUsageRollupsForBucketRange [sampleEvent] 0 0 []) (hourlyUsageRollupKey sampleEvent)
     = Some (rollupOf [sampleEvent])"
proof -
  have bucket: "rk_BucketStart (hourlyUsageRollupKey sampleEvent) = truncateTo hour 0"
    by (simp add: eventBucket_def sampleEvent_def)
  have "rollupTableOK []" by (simp add: rollupTableOK_def)
  then show ?thesis
    using rebuildRange_exact [of "[sampleEvent]" "[]" 0 0] bucket sample_storedOK
    by (simp add: rollupSpec_def groupOf_def Let_def del: key_bucket)
qed

text \<open>
  Rebuilding the hours that given events touch replaces exactly the rows of those hours by the
  aggregates of all the stored events of the hour.
\<close>

theorem rebuildForEvents_exact:
  assumes "truncateTo hour (rk_BucketStart k) = rk_BucketStart k"
  shows "map_of (rebuildUsageRollupsForEvents stored seeds rows) k =
    (if rk_BucketStart k \<in> eventBucket ` set seeds then rollupSpec stored k else map_of rows k)"
proof (cases "seeds = []")
  case True
  then show ?thesis by (simp add: rebuildUsageRollupsForEvents_def)
next
  case False
  let ?B = "sort (remdups (map eventBucket seeds))"
  have B: "\<forall>b \<in> set ?B. truncateTo hour b = b" "distinct ?B" "?B \<noteq> []"
    "set ?B = eventBucket ` set seeds"
    using False by (auto simp: sort_key_simps simp flip: set_empty)
  have "rollupSpec (concat (map (\<lambda>b. eventsBetween b (b + hour) stored) ?B)) k = rollupSpec stored k"
    if "rk_BucketStart k \<in> set ?B"
    using groupOf_concat_between [OF B(1,2) assms that, of stored] by (simp add: rollupSpec_def)
  then show ?thesis
    using False B rebuildBuckets_lookup [OF B(1,3)]
    by (simp add: rebuildUsageRollupsForEvents_def Let_def)
qed

lemma rebuildForEvents_exact_witness:
  "map_of (rebuildUsageRollupsForEvents [sampleEvent] [sampleEvent] []) (hourlyUsageRollupKey sampleEvent)
     = rollupSpec [sampleEvent] (hourlyUsageRollupKey sampleEvent)"
  by (subst rebuildForEvents_exact) simp_all

text \<open>
  The aggregate does not depend on the order of the events, and its counters balance: requests
  are successes plus failures and, for events the store wrote, absent plus valid attempts; the
  valid ones are the complete, inconsistent and unclassified ones; the token totals are the sums
  of their buckets.
\<close>

theorem rollup_balanced:
  assumes "\<forall>e \<in> set es. storedOK e \<and>
      ua_AccountingState (ev_UsageAccounting e) \<in> {AccountingAbsent, AccountingValid}"
    and "mset es' = mset es"
  shows "rollupOf es' = rollupOf es \<and>
    (let r = rollupOf es in
       hr_RequestCount r = hr_SuccessCount r + hr_FailureCount r \<and>
       hr_RequestCount r = hr_AccountingAbsentAttempts r + hr_AccountingValidAttempts r \<and>
       hr_AccountingValidAttempts r = hr_AccountingValidCompleteAttempts r
         + hr_AccountingValidInconsistentAttempts r + hr_AccountingValidUnclassifiedAttempts r \<and>
       hr_InputTokens r = hr_UncachedTokens r + hr_CacheReadTokens r + hr_CacheWriteTokens r \<and>
       hr_OutputTokens r = hr_NonReasoningTokens r + hr_ReasoningTokens r \<and>
       hr_TotalTokens r = hr_InputTokens r + hr_OutputTokens r + hr_UnclassifiedTokens r)"
proof -
  have "rollupOf es' = rollupOf es"
    using assms by (intro rollup.fold_perm [symmetric]) (auto simp: storedOK_timed)
  moreover have "let r = rollupOf es in
       hr_RequestCount r = hr_SuccessCount r + hr_FailureCount r \<and>
       hr_RequestCount r = hr_AccountingAbsentAttempts r + hr_AccountingValidAttempts r \<and>
       hr_AccountingValidAttempts r = hr_AccountingValidCompleteAttempts r
         + hr_AccountingValidInconsistentAttempts r + hr_AccountingValidUnclassifiedAttempts r \<and>
       hr_InputTokens r = hr_UncachedTokens r + hr_CacheReadTokens r + hr_CacheWriteTokens r \<and>
       hr_OutputTokens r = hr_NonReasoningTokens r + hr_ReasoningTokens r \<and>
       hr_TotalTokens r = hr_InputTokens r + hr_OutputTokens r + hr_UnclassifiedTokens r"
    using balanced_rollupOf [OF assms(1)] unfolding balanced_def Let_def .
  ultimately show ?thesis by blast
qed

lemma rollup_balanced_witness:
  "hr_RequestCount (rollupOf [sampleEvent, sampleEvent]) =
     hr_SuccessCount (rollupOf [sampleEvent, sampleEvent])
     + hr_FailureCount (rollupOf [sampleEvent, sampleEvent])"
  using rollup_balanced [of "[sampleEvent, sampleEvent]" "[sampleEvent, sampleEvent]"] sample_storedOK
  by (simp add: sampleEvent_def sampleAccounting_def Let_def)

text \<open>
  No overflow below the bound: as long as the exact sum of a non-negative column over the events
  of one rollup stays below \<open>2 ^ 63\<close>, the 64-bit total that the rollup holds for it is that exact
  sum, here for the total tokens and the latency.
\<close>

theorem rollup_counters_exact:
  assumes "\<forall>e \<in> set es. storedOK e" "es \<noteq> []"
    "(\<Sum>e\<leftarrow>es. if sqlValid e then sint (coalesced ua_TotalTokens e) else 0) < 2 ^ 63"
    "(\<Sum>e\<leftarrow>es. if 0 <s ev_LatencyMS e then sint (ev_LatencyMS e) else 0) < 2 ^ 63"
  shows "sint (hr_TotalTokens (rollupOf es)) =
      (\<Sum>e\<leftarrow>es. if sqlValid e then sint (coalesced ua_TotalTokens e) else 0) \<and>
    sint (hr_TotalLatencyMS (rollupOf es)) =
      (\<Sum>e\<leftarrow>es. if 0 <s ev_LatencyMS e then sint (ev_LatencyMS e) else 0)"
proof -
  have nonneg: "0 \<le> sint (coalesced ua_TotalTokens e)" if "e \<in> set es" "sqlValid e" for e
  proof -
    have "validateUsageAccounting (ev_UsageAccounting e) = None"
      using assms(1) that by (auto simp: storedOK_def sqlValid_def AccountingValid_def)
    then show ?thesis by (auto simp: validate_None_iff accountingWellFormed_def accountingBuckets_def)
  qed
  have "sint (sumCase sqlValid (coalesced ua_TotalTokens) es) =
      (\<Sum>e\<leftarrow>es. if sqlValid e then sint (coalesced ua_TotalTokens e) else 0)"
    using nonneg assms(3) by (intro sumCase_exact) auto
  moreover have "sint (sumCase (\<lambda>e. 0 <s ev_LatencyMS e) ev_LatencyMS es) =
      (\<Sum>e\<leftarrow>es. if 0 <s ev_LatencyMS e then sint (ev_LatencyMS e) else 0)"
    using assms(4) by (intro sumCase_exact) (auto simp: i64_order)
  ultimately show ?thesis
    by (simp add: sqlGroup_eq [OF assms(2,1), symmetric] sqlGroupRollup_def)
qed

lemma rollup_counters_exact_witness:
  "sint (hr_TotalTokens (rollupOf [sampleEvent, sampleEvent])) = 30"
  using rollup_counters_exact [of "[sampleEvent, sampleEvent]"] sample_storedOK
  by (simp add: sqlValid_def sampleEvent_def sampleAccounting_def AccountingValid_def word_sless_alt)

end
