(* ===== verification/EventStore.thy ===== *)
theory EventStore
  imports Rollups Tables
begin

text \<open>
  The event store: \<open>InsertUsageEvents\<close> of \<open>repository/db.go\<close>. The store is the table of usage
  events in the order of their ids, the next id, and the rollup table. The whole operation is one
  transaction: \<open>fault\<close> says that one of its statements fails, and then nothing changes.
  \<open>Transactions\<close> runs the same operation statement by statement and derives this.
\<close>

section \<open>Operations\<close>

record eventStore =
  st_events :: "usageEvent list"
  st_next :: nat
  st_rollups :: rollupTable

definition emptyStore :: eventStore where
  "emptyStore = \<lparr>st_events = [], st_next = 1, st_rollups = []\<rparr>"

datatype storeError = EventInvalid string accountingError | StatementFailed

text \<open>The loop that sets the state of every event, or stops at the first invalid record.\<close>

fun stateEvents :: "usageEvent list \<Rightarrow> storeError + usageEvent list" where
  "stateEvents [] = Inr []"
| "stateEvents (e # es) =
     (let f = ev_UsageAccounting e in
      if accountingFactsAbsent f
      then map_sum id ((#) (e\<lparr>ev_UsageAccounting := f\<lparr>ua_AccountingState := AccountingAbsent\<rparr>\<rparr>))
             (stateEvents es)
      else case validateUsageAccounting f of
             Some err \<Rightarrow> Inl (EventInvalid (ev_EventKey e) err)
           | None \<Rightarrow>
               map_sum id ((#) (e\<lparr>ev_UsageAccounting := f\<lparr>ua_AccountingState := AccountingValid\<rparr>\<rparr>))
                 (stateEvents es))"

definition eventKeys :: "usageEvent list \<Rightarrow> string set" where
  "eventKeys es = ev_EventKey ` set es"

text \<open>\<open>INSERT ... ON CONFLICT (event_key) DO NOTHING\<close> of one row.\<close>

definition insertEvent :: "usageEvent \<Rightarrow> eventStore \<Rightarrow> eventStore" where
  "insertEvent e st =
     (if ev_EventKey e \<in> set (map ev_EventKey (st_events st)) then st
      else st\<lparr>st_events := st_events st @ [e\<lparr>ev_ID := st_next st\<rparr>], st_next := st_next st + 1\<rparr>)"

text \<open>One batch: the new store, the affected keys and the number of inserted rows so far.\<close>

definition insertBatch ::
  "usageEvent list \<Rightarrow> eventStore \<times> string list \<times> nat \<Rightarrow> eventStore \<times> string list \<times> nat" where
  "insertBatch batch acc =
     (case acc of (st, affectedEventKeys, inserted) \<Rightarrow>
       let batchKeys = filter (\<lambda>k. k \<noteq> []) (map (\<lambda>e. trimSpace (ev_EventKey e)) batch);
           persistedKeys = filter (\<lambda>k. k \<in> set batchKeys) (map ev_EventKey (st_events st));
           existingKeys = map trimSpace persistedKeys;
           st1 = fold insertEvent batch st;
           rowsAffected = length (st_events st1) - length (st_events st)
       in (st1,
           (if 0 < rowsAffected
            then affectedEventKeys @ filter (\<lambda>k. k \<notin> set existingKeys) batchKeys
            else affectedEventKeys),
           inserted + rowsAffected))"

text \<open>Forty columns of the entity are bound by an insert.\<close>

definition usageEventBatchSize :: nat where
  "usageEventBatchSize = nat (insertBatchSize 40)"

definition insertUsageEvents ::
  "bool \<Rightarrow> usageEvent list \<Rightarrow> eventStore \<Rightarrow> eventStore \<times> (storeError + nat \<times> nat)" where
  "insertUsageEvents fault events st =
     (if events = [] then (st, Inr (0, 0))
      else case stateEvents events of
        Inl err \<Rightarrow> (st, Inl err)
      | Inr stated \<Rightarrow>
          if fault then (st, Inl StatementFailed)
          else
            (case fold insertBatch (batches usageEventBatchSize stated) (st, [], 0) of
               (st1, affectedEventKeys, inserted) \<Rightarrow>
                 let deduped = length events - inserted
                 in if affectedEventKeys = [] then (st1, Inr (inserted, deduped))
                    else
                      let affectedEvents =
                            filter (\<lambda>e. ev_EventKey e \<in> set affectedEventKeys) (st_events st1)
                      in (st1\<lparr>st_rollups :=
                                incrementUsageRollupsForEvents affectedEvents (st_rollups st1)\<rparr>,
                          Inr (inserted, deduped))))"

section \<open>Lemmas: states\<close>

text \<open>The keys the intake writes: trimmed and not empty.\<close>

definition keyOK :: "usageEvent \<Rightarrow> bool" where
  "keyOK e \<longleftrightarrow> trimmed (ev_EventKey e) \<and> ev_EventKey e \<noteq> []"

definition stateOK :: "usageEvent \<Rightarrow> bool" where
  "stateOK e \<longleftrightarrow> storedOK e \<and> keyOK e \<and>
     ua_AccountingState (ev_UsageAccounting e) \<in> {AccountingAbsent, AccountingValid}"

lemma validate_state_irrelevant [simp]:
  "validateUsageAccounting (f\<lparr>ua_AccountingState := s\<rparr>) = validateUsageAccounting f"
  by (cases "ua_TokenQuality f") (simp_all add: validateUsageAccounting_def accountingBuckets_def)

text \<open>The three outcomes of the loop's body.\<close>

definition statedEvent :: "usageEvent \<Rightarrow> usageEvent" where
  "statedEvent e = e\<lparr>ev_UsageAccounting := (ev_UsageAccounting e)\<lparr>ua_AccountingState :=
     (if accountingFactsAbsent (ev_UsageAccounting e) then AccountingAbsent else AccountingValid)\<rparr>\<rparr>"

definition refused :: "usageEvent \<Rightarrow> bool" where
  "refused e \<longleftrightarrow> \<not> accountingFactsAbsent (ev_UsageAccounting e) \<and>
     validateUsageAccounting (ev_UsageAccounting e) \<noteq> None"

lemma stateEvents_Cons:
  "\<not> refused e \<Longrightarrow> stateEvents (e # es) = map_sum id ((#) (statedEvent e)) (stateEvents es)"
  "refused e \<Longrightarrow> \<exists>err. stateEvents (e # es) = Inl err"
  by (auto simp: refused_def statedEvent_def Let_def split: option.split)

lemma stateEvents_Inr:
  "stateEvents es = Inr es' \<longleftrightarrow> (\<forall>e \<in> set es. \<not> refused e) \<and> es' = map statedEvent es"
proof (induction es arbitrary: es')
  case (Cons e es)
  show ?case
  proof (cases "refused e")
    case True
    then show ?thesis using stateEvents_Cons(2) [OF True, of es] by auto
  next
    case False
    then show ?thesis
      unfolding stateEvents_Cons(1) [OF False] using Cons by (cases "stateEvents es") auto
  qed
qed auto

lemma statedEvent_key [simp]: "ev_EventKey (statedEvent e) = ev_EventKey e"
  by (simp add: statedEvent_def)

lemma statedEvent_ok: "\<not> refused e \<Longrightarrow> timed e \<Longrightarrow> keyOK e \<Longrightarrow> stateOK (statedEvent e)"
  by (auto simp: refused_def statedEvent_def stateOK_def storedOK_def timed_def keyOK_def
      AccountingAbsent_def AccountingValid_def)

section \<open>Lemmas: insertion\<close>

lemma insertEvent_keys:
  "eventKeys (st_events (insertEvent e st)) = insert (ev_EventKey e) (eventKeys (st_events st))"
  by (auto simp: insertEvent_def eventKeys_def)

lemma insertEvent_rollups [simp]: "st_rollups (insertEvent e st) = st_rollups st"
  by (simp add: insertEvent_def)

lemma insertEvent_distinct:
  "distinct (map ev_EventKey (st_events st)) \<Longrightarrow>
     distinct (map ev_EventKey (st_events (insertEvent e st)))"
  by (simp add: insertEvent_def)

text \<open>The events a sequence of inserts adds, in order.\<close>

definition sameFacts :: "usageEvent \<Rightarrow> usageEvent \<Rightarrow> bool" where
  "sameFacts e e' \<longleftrightarrow> e\<lparr>ev_ID := 0\<rparr> = e'\<lparr>ev_ID := 0\<rparr>"

definition addedBy :: "usageEvent list \<Rightarrow> eventStore \<Rightarrow> eventStore \<Rightarrow> usageEvent list \<Rightarrow> bool" where
  "addedBy es st st' new \<longleftrightarrow>
     st_events st' = st_events st @ new \<and> st_rollups st' = st_rollups st \<and>
     (\<forall>e \<in> set new. \<exists>e0 \<in> set es. sameFacts e e0) \<and>
     eventKeys new = eventKeys es - eventKeys (st_events st) \<and>
     distinct (map ev_EventKey new)"

lemma addedBy_snoc:
  assumes "addedBy es st s new"
  shows "\<exists>new'. addedBy (es @ [e]) st (insertEvent e s) new'"
proof -
  have new: "st_events s = st_events st @ new" "st_rollups s = st_rollups st"
    "\<forall>e \<in> set new. \<exists>e0 \<in> set es. sameFacts e e0"
    "eventKeys new = eventKeys es - eventKeys (st_events st)" "distinct (map ev_EventKey new)"
    using assms unfolding addedBy_def by blast+
  have keys: "eventKeys (es @ [e]) = insert (ev_EventKey e) (eventKeys es)"
    by (simp add: eventKeys_def)
  show ?thesis
  proof (cases "ev_EventKey e \<in> set (map ev_EventKey (st_events s))")
    case True
    then have same: "insertEvent e s = s" unfolding insertEvent_def by simp
    have "ev_EventKey e \<in> eventKeys (st_events st) \<union> eventKeys new"
      using True unfolding new(1) by (auto simp: eventKeys_def)
    with new(4) have kk: "eventKeys new = eventKeys (es @ [e]) - eventKeys (st_events st)"
      unfolding keys by blast
    have "\<forall>x \<in> set new. \<exists>e0 \<in> set (es @ [e]). sameFacts x e0" using new(3) by auto
    then have "addedBy (es @ [e]) st (insertEvent e s) new"
      unfolding addedBy_def same by (intro conjI new(1,2,5) kk)
    then show ?thesis ..
  next
    case False
    let ?e = "e\<lparr>ev_ID := st_next s\<rparr>"
    have ins: "st_events (insertEvent e s) = st_events st @ (new @ [?e])"
      using False unfolding insertEvent_def by (simp add: new(1))
    have roll: "st_rollups (insertEvent e s) = st_rollups st" by (simp add: new(2))
    have fresh: "ev_EventKey e \<notin> eventKeys (st_events st)" "ev_EventKey e \<notin> set (map ev_EventKey new)"
      using False unfolding new(1) by (simp_all add: eventKeys_def)
    have "sameFacts ?e e" by (simp add: sameFacts_def)
    then have facts: "\<forall>x \<in> set (new @ [?e]). \<exists>e0 \<in> set (es @ [e]). sameFacts x e0"
      using new(3) by auto
    have "eventKeys (new @ [?e]) = insert (ev_EventKey e) (eventKeys new)" by (simp add: eventKeys_def)
    then have kk: "eventKeys (new @ [?e]) = eventKeys (es @ [e]) - eventKeys (st_events st)"
      unfolding keys new(4) using fresh(1) by (simp add: insert_Diff_if)
    have dist: "distinct (map ev_EventKey (new @ [?e]))" using fresh(2) new(5) by simp
    have "addedBy (es @ [e]) st (insertEvent e s) (new @ [?e])"
      unfolding addedBy_def by (intro conjI ins roll facts kk dist)
    then show ?thesis ..
  qed
qed

lemma fold_insertEvent: "\<exists>new. addedBy es st (fold insertEvent es st) new"
proof (induction es rule: rev_induct)
  case Nil
  show ?case by (simp add: addedBy_def eventKeys_def)
next
  case (snoc e es)
  then obtain new where "addedBy es st (fold insertEvent es st) new" ..
  from addedBy_snoc [OF this] show ?case by simp
qed

lemma fold_insertEventE:
  obtains new where "st_events (fold insertEvent es st) = st_events st @ new"
    "st_rollups (fold insertEvent es st) = st_rollups st"
    "\<forall>e \<in> set new. \<exists>e0 \<in> set es. sameFacts e e0"
    "eventKeys new = eventKeys es - eventKeys (st_events st)" "distinct (map ev_EventKey new)"
  using fold_insertEvent [of es st] unfolding addedBy_def by blast

lemma trimmed_keys: "\<forall>e \<in> set es. keyOK e \<Longrightarrow>
  filter (\<lambda>k. k \<noteq> []) (map (\<lambda>e. trimSpace (ev_EventKey e)) es) = map ev_EventKey es"
  by (induction es) (simp_all add: keyOK_def trimSpace_id)

text \<open>
  What the batches have done so far: the rows added, the affected keys being exactly theirs, and
  their number.
\<close>

definition batchState ::
  "eventStore \<Rightarrow> usageEvent list \<Rightarrow> eventStore \<times> string list \<times> nat \<Rightarrow> bool" where
  "batchState st es acc \<longleftrightarrow>
     (case acc of (st1, affected, inserted) \<Rightarrow>
        st1 = fold insertEvent es st \<and>
        set affected = eventKeys es - eventKeys (st_events st) \<and>
        inserted = length (st_events st1) - length (st_events st))"

lemma insertBatch_state:
  assumes "\<forall>e \<in> set (es @ b). keyOK e" "\<forall>e \<in> set (st_events st). keyOK e" "batchState st es acc"
  shows "batchState st (es @ b) (insertBatch b acc)"
proof -
  obtain st1 affected inserted where acc: "acc = (st1, affected, inserted)" by (cases acc)
  have st1: "st1 = fold insertEvent es st" and aff: "set affected = eventKeys es - eventKeys (st_events st)"
    and ins: "inserted = length (st_events st1) - length (st_events st)"
    using assms(3) by (simp_all add: batchState_def acc)
  obtain new where new: "st_events st1 = st_events st @ new"
      "\<forall>e \<in> set new. \<exists>e0 \<in> set es. sameFacts e e0" "eventKeys new = eventKeys es - eventKeys (st_events st)"
    by (rule fold_insertEventE [of es st, folded st1])
  obtain newb where newb: "st_events (fold insertEvent b st1) = st_events st1 @ newb"
      "eventKeys newb = eventKeys b - eventKeys (st_events st1)"
    by (rule fold_insertEventE [of b st1])
  have keysOK: "\<forall>e \<in> set (st_events st1). keyOK e"
  proof -
    have "keyOK e" if "sameFacts e e0" "keyOK e0" for e e0
    proof -
      have "ev_EventKey (e\<lparr>ev_ID := 0\<rparr>) = ev_EventKey (e0\<lparr>ev_ID := 0\<rparr>)"
        using that(1) by (simp only: sameFacts_def)
      with that(2) show ?thesis by (simp add: keyOK_def)
    qed
    then show ?thesis using new(1,2) assms(1,2) by fastforce
  qed
  have batchKeys: "filter (\<lambda>k. k \<noteq> []) (map (\<lambda>e. trimSpace (ev_EventKey e)) b) = map ev_EventKey b"
    using assms(1) by (intro trimmed_keys) simp
  have existing: "set (map trimSpace (filter (\<lambda>k. k \<in> set (map ev_EventKey b))
      (map ev_EventKey (st_events st1)))) = eventKeys b \<inter> eventKeys (st_events st1)"
  proof -
    have "trimSpace k = k" if "k \<in> eventKeys (st_events st1)" for k
      using that keysOK by (auto simp: eventKeys_def keyOK_def trimSpace_id)
    then show ?thesis by (force simp: eventKeys_def)
  qed
  have keys1: "eventKeys (st_events st1) = eventKeys (st_events st) \<union> eventKeys es"
    using new(1,3) by (auto simp: eventKeys_def)
  have affected': "set (if 0 < length (st_events (fold insertEvent b st1)) - length (st_events st1)
      then affected @ filter (\<lambda>k. k \<notin> set (map trimSpace (filter (\<lambda>k. k \<in> set (map ev_EventKey b))
        (map ev_EventKey (st_events st1))))) (map ev_EventKey b)
      else affected) = eventKeys (es @ b) - eventKeys (st_events st)"
  proof (cases "newb = []")
    case True
    then have "eventKeys b \<subseteq> eventKeys (st_events st1)" using newb(2) by (auto simp: eventKeys_def)
    with True newb(1) aff keys1 show ?thesis by (auto simp: eventKeys_def)
  next
    case False
    have "set (filter (\<lambda>k. k \<notin> set (map trimSpace (filter (\<lambda>k. k \<in> set (map ev_EventKey b))
        (map ev_EventKey (st_events st1))))) (map ev_EventKey b)) =
        eventKeys b - eventKeys (st_events st1)"
      unfolding set_filter existing by (auto simp: eventKeys_def)
    with False newb(1) aff keys1 show ?thesis by (auto simp: eventKeys_def)
  qed
  have len: "inserted + (length (st_events (fold insertEvent b st1)) - length (st_events st1)) =
      length (st_events (fold insertEvent b st1)) - length (st_events st)"
    using ins new(1) newb(1) by simp
  show ?thesis
    unfolding batchState_def insertBatch_def acc prod.case Let_def batchKeys
    using affected' len st1 by simp
qed

lemma batches_state:
  assumes "\<forall>e \<in> set es. keyOK e" "\<forall>e \<in> set (st_events st). keyOK e" "0 < n"
  shows "batchState st es (fold insertBatch (batches n es) (st, [], 0))"
proof -
  have "batchState st (seen @ concat bs) (fold insertBatch bs acc)"
    if "batchState st seen acc" "\<forall>e \<in> set (seen @ concat bs). keyOK e" for seen bs acc
    using that
  proof (induction bs arbitrary: seen acc)
    case (Cons b bs)
    have "batchState st (seen @ b) (insertBatch b acc)"
      using Cons.prems assms(2) by (intro insertBatch_state) auto
    then show ?case using Cons.IH [of "seen @ b" "insertBatch b acc"] Cons.prems by simp
  qed simp
  from this [of "[]" "(st, [], 0)" "batches n es"] show ?thesis
    using assms by (simp add: batchState_def eventKeys_def)
qed

section \<open>Lemmas: the transaction\<close>

lemma sameFacts_stateOK: "sameFacts e e0 \<Longrightarrow> stateOK e0 \<Longrightarrow> stateOK e"
proof -
  assume "sameFacts e e0" "stateOK e0"
  then have eq: "e\<lparr>ev_ID := 0\<rparr> = e0\<lparr>ev_ID := 0\<rparr>" by (simp add: sameFacts_def)
  have "stateOK (x\<lparr>ev_ID := i\<rparr>) = stateOK x" for x i
    by (simp add: stateOK_def storedOK_def timed_def keyOK_def)
  then show "stateOK e" using eq \<open>stateOK e0\<close> by metis
qed

lemma stateOK_D: "stateOK e \<Longrightarrow> keyOK e" "stateOK e \<Longrightarrow> storedOK e" "stateOK e \<Longrightarrow> timed e"
  by (simp_all add: stateOK_def storedOK_def)

lemma batchSize_pos: "0 < usageEventBatchSize"
  using insertBatchSize_pos [of 40] by (simp add: usageEventBatchSize_def)

lemma insert_effect:
  assumes "\<forall>e \<in> set events. timed e \<and> keyOK e \<and> \<not> refused e" "\<forall>e \<in> set (st_events st). stateOK e"
  obtains st' new where
    "insertUsageEvents False events st = (st', Inr (length new, length events - length new))"
    "st_events st' = st_events st @ new"
    "st_rollups st' = incrementUsageRollupsForEvents new (st_rollups st)"
    "\<forall>e \<in> set new. stateOK e" "\<forall>e \<in> set new. \<exists>e0 \<in> set events. sameFacts e (statedEvent e0)"
    "eventKeys new = eventKeys events - eventKeys (st_events st)"
    "distinct (map ev_EventKey new)" "length new \<le> length events"
proof -
  let ?stated = "map statedEvent events"
  obtain new where new: "st_events (fold insertEvent ?stated st) = st_events st @ new"
    "st_rollups (fold insertEvent ?stated st) = st_rollups st"
    "\<forall>e \<in> set new. \<exists>e0 \<in> set ?stated. sameFacts e e0"
    "eventKeys new = eventKeys ?stated - eventKeys (st_events st)" "distinct (map ev_EventKey new)"
    by (rule fold_insertEventE)
  have stated_ok: "\<forall>e \<in> set ?stated. stateOK e" using assms(1) by (simp add: statedEvent_ok)
  then have new_ok: "\<forall>e \<in> set new. stateOK e" using new(3) sameFacts_stateOK by blast
  have keys: "eventKeys ?stated = eventKeys events" by (simp add: eventKeys_def image_image)
  have "length new = card (eventKeys new)"
    using distinct_card [OF new(5)] by (simp add: eventKeys_def)
  also have "\<dots> \<le> card (eventKeys events)"
    unfolding new(4) keys by (intro card_mono) (auto simp: eventKeys_def)
  also have "\<dots> \<le> length events" unfolding eventKeys_def by (metis card_length length_map list.set_map)
  finally have le: "length new \<le> length events" .
  have facts: "\<forall>e \<in> set new. \<exists>e0 \<in> set events. sameFacts e (statedEvent e0)" using new(3) by auto
  have stated: "stateEvents events = Inr ?stated" using assms(1) by (simp add: stateEvents_Inr)
  have "batchState st ?stated (fold insertBatch (batches usageEventBatchSize ?stated) (st, [], 0))"
    using stated_ok assms(2) batchSize_pos by (intro batches_state) (auto simp: stateOK_D)
  then obtain affected where acc:
    "fold insertBatch (batches usageEventBatchSize ?stated) (st, [], 0) =
      (fold insertEvent ?stated st, affected, length new)"
    and aff: "set affected = eventKeys new"
    using new(1) by (auto simp: batchState_def new(4) split: prod.splits)
  have select: "filter (\<lambda>e. ev_EventKey e \<in> set affected) (st_events st @ new) = new"
  proof -
    have "filter (\<lambda>e. ev_EventKey e \<in> set affected) (st_events st) = []"
      unfolding aff new(4) by (auto simp: filter_empty_conv eventKeys_def)
    moreover have "filter (\<lambda>e. ev_EventKey e \<in> set affected) new = new"
      unfolding aff by (auto simp: filter_id_conv eventKeys_def)
    ultimately show ?thesis by simp
  qed
  show thesis
  proof (cases "events = []")
    case True
    show thesis
      by (rule that [of st "[]"])
        (simp_all add: True insertUsageEvents_def eventKeys_def incrementUsageRollupsForEvents_def)
  next
    case ne: False
    define st1 where "st1 = fold insertEvent ?stated st"
    show thesis
    proof (cases "affected = []")
      case True
      with aff have "new = []" by (simp add: eventKeys_def)
      have ins: "insertUsageEvents False events st = (st1, Inr (length new, length events - length new))"
        using ne by (simp add: insertUsageEvents_def stated acc True st1_def)
      show thesis
        by (rule that [OF ins]) (use new new_ok facts le keys \<open>new = []\<close> in
          \<open>simp_all add: st1_def incrementUsageRollupsForEvents_def\<close>)
    next
      case False
      let ?st' = "st1\<lparr>st_rollups := incrementUsageRollupsForEvents new (st_rollups st1)\<rparr>"
      have ins: "insertUsageEvents False events st = (?st', Inr (length new, length events - length new))"
        using ne False select by (simp add: insertUsageEvents_def stated acc st1_def new(1))
      show thesis
        by (rule that [OF ins]) (use new new_ok facts le keys in \<open>simp_all add: st1_def\<close>)
    qed
  qed
qed

lemma increment_keys_aligned:
  assumes "rollupTableOK rows"
  shows "rollupTableOK (incrementUsageRollupsForEvents es rows)"
proof -
  have "truncateTo hour (rk_BucketStart k) = rk_BucketStart k"
    if "k \<in> fst ` set (incrementUsageRollupsForEvents es rows)" for k
  proof -
    have "map_of (incrementUsageRollupsForEvents es rows) k \<noteq> None"
      using that by (simp add: map_of_eq_None_iff)
    then have "rollupSpec es k \<noteq> None \<or> map_of rows k \<noteq> None"
      by (auto simp: incrementUsageRollupsForEvents_def build_events_lookup build_events_distinct
          fold_upsert_lookup split: if_splits option.splits)
    then show ?thesis
    proof
      assume "rollupSpec es k \<noteq> None"
      then obtain e where "hourlyUsageRollupKey e = k"
        by (auto simp: rollupSpec_def groupOf_def Let_def filter_empty_conv split: if_splits)
      then show ?thesis by auto
    next
      assume "map_of rows k \<noteq> None"
      then have "k \<in> fst ` set rows" by (simp add: map_of_eq_None_iff)
      with assms show ?thesis by (auto simp: rollupTableOK_def)
    qed
  qed
  then show ?thesis
    using assms increment_distinct by (auto simp: rollupTableOK_def)
qed

text \<open>
  The invariant of the store. \<open>covered\<close> tells the hours whose rollups are maintained: all of them in
  a new database, those the backfill has reached in an older one.
\<close>

definition storeOK :: "(instant \<Rightarrow> bool) \<Rightarrow> eventStore \<Rightarrow> bool" where
  "storeOK covered st \<longleftrightarrow>
     (\<forall>e \<in> set (st_events st). stateOK e) \<and> distinct (map ev_EventKey (st_events st)) \<and>
     rollupTableOK (st_rollups st) \<and>
     (\<forall>k. covered (rk_BucketStart k) \<and> truncateTo hour (rk_BucketStart k) = rk_BucketStart k \<longrightarrow>
        map_of (st_rollups st) k = rollupSpec (st_events st) k)"

lemma storeOK_empty: "storeOK covered emptyStore"
  by (simp add: storeOK_def emptyStore_def rollupTableOK_def rollupSpec_def)

lemma storeOK_insert:
  assumes "storeOK covered st" "st_events st' = st_events st @ new" "\<forall>e \<in> set new. stateOK e"
    "st_rollups st' = incrementUsageRollupsForEvents new (st_rollups st)"
    "eventKeys new \<inter> eventKeys (st_events st) = {}" "distinct (map ev_EventKey new)"
  shows "storeOK covered st'"
proof -
  have "map_of (st_rollups st') k = rollupSpec (st_events st') k"
    if "covered (rk_BucketStart k)" "truncateTo hour (rk_BucketStart k) = rk_BucketStart k" for k
  proof -
    have "\<forall>e \<in> set (st_events st @ new). timed e"
      using assms(1,3) by (auto simp: storeOK_def stateOK_D)
    moreover have "map_of (st_rollups st) k = rollupSpec (st_events st) k"
      using assms(1) that by (simp add: storeOK_def)
    ultimately show ?thesis unfolding assms(2,4) by (rule increment_lookup)
  qed
  moreover have "distinct (map ev_EventKey (st_events st'))"
    using assms(1,5,6) by (auto simp: assms(2) storeOK_def eventKeys_def)
  moreover have "rollupTableOK (st_rollups st')"
    using assms(1) by (simp add: assms(4) storeOK_def increment_keys_aligned)
  ultimately show ?thesis using assms(1-3) by (auto simp: storeOK_def)
qed

lemma insert_refused:
  assumes "e \<in> set events" "refused e"
  shows "\<exists>err. insertUsageEvents fault events st = (st, Inl err)"
proof -
  have "\<exists>err. stateEvents events = Inl err"
  proof (cases "stateEvents events")
    case (Inr es)
    then show ?thesis using assms by (auto simp: stateEvents_Inr)
  qed simp
  then obtain err where "stateEvents events = Inl err" ..
  then show ?thesis using assms(1) by (auto simp: insertUsageEvents_def)
qed

lemma insertEvent_present: "ev_EventKey e \<in> eventKeys (st_events st) \<Longrightarrow> insertEvent e st = st"
  by (simp add: insertEvent_def eventKeys_def)

lemma fold_insertEvent_present:
  "eventKeys es \<subseteq> eventKeys (st_events st) \<Longrightarrow> fold insertEvent es st = st"
  by (induction es) (simp_all add: eventKeys_def insertEvent_def)

lemma fold_insertBatch_present:
  "eventKeys (concat bs) \<subseteq> eventKeys (st_events st) \<Longrightarrow>
     fold insertBatch bs (st, aff, n) = (st, aff, n)"
proof (induction bs)
  case (Cons b bs)
  then have "eventKeys b \<subseteq> eventKeys (st_events st)" "eventKeys (concat bs) \<subseteq> eventKeys (st_events st)"
    by (simp_all add: eventKeys_def image_Un)
  then show ?case using Cons.IH by (simp add: insertBatch_def fold_insertEvent_present Let_def)
qed simp

lemma insert_present:
  assumes "\<forall>e \<in> set events. timed e \<and> keyOK e \<and> \<not> refused e" "\<forall>e \<in> set (st_events st). stateOK e"
    "eventKeys events \<subseteq> eventKeys (st_events st)"
  shows "fst (insertUsageEvents False events st) = st"
proof -
  let ?stated = "map statedEvent events"
  have "stateEvents events = Inr ?stated" using assms(1) by (simp add: stateEvents_Inr)
  moreover have "eventKeys (concat (batches usageEventBatchSize ?stated)) \<subseteq> eventKeys (st_events st)"
    using assms(3) batchSize_pos by (simp add: eventKeys_def image_image del: set_concat)
  ultimately show ?thesis by (simp add: insertUsageEvents_def fold_insertBatch_present)
qed

lemma insert_exact:
  assumes "storeOK covered st" "\<forall>e \<in> set events. timed e \<and> keyOK e \<and> \<not> refused e"
  shows "\<exists>st' new. insertUsageEvents False events st =
        (st', Inr (length new, length events - length new)) \<and>
      st_events st' = st_events st @ new \<and>
      length new \<le> length events \<and> distinct (map ev_EventKey new) \<and>
      eventKeys new = eventKeys events - eventKeys (st_events st) \<and>
      (\<forall>e \<in> set new. \<exists>e0 \<in> set events. sameFacts e (statedEvent e0)) \<and>
      storeOK covered st'"
proof -
  have evs: "\<forall>e \<in> set (st_events st). stateOK e" using assms(1) by (simp add: storeOK_def)
  obtain st' new where e:
    "insertUsageEvents False events st = (st', Inr (length new, length events - length new))"
    "st_events st' = st_events st @ new"
    "st_rollups st' = incrementUsageRollupsForEvents new (st_rollups st)" "\<forall>e \<in> set new. stateOK e"
    "\<forall>e \<in> set new. \<exists>e0 \<in> set events. sameFacts e (statedEvent e0)"
    "eventKeys new = eventKeys events - eventKeys (st_events st)" "distinct (map ev_EventKey new)"
    "length new \<le> length events"
    using insert_effect [OF assms(2) evs] by metis
  have "storeOK covered st'"
    using e(6) by (intro storeOK_insert [OF assms(1) e(2,4,3) _ e(7)]) blast
  with e show ?thesis by blast
qed

section \<open>The interface of the store\<close>

text \<open>
  What the intake relies on: an insert adds exactly the keys that were missing, counts them, keeps
  the invariant, changes nothing when it fails, and has nothing left to do when all the keys are
  present.
\<close>

locale usage_sink =
  fixes ins :: "bool \<Rightarrow> 'e list \<Rightarrow> 's \<Rightarrow> 's \<times> ('err + nat \<times> nat)"
    and keys :: "'s \<Rightarrow> 'k set"
    and key :: "'e \<Rightarrow> 'k"
    and okE :: "'e \<Rightarrow> bool"
    and okS :: "'s \<Rightarrow> bool"
  assumes ins_ok: "okS s \<Longrightarrow> \<forall>e \<in> set es. okE e \<Longrightarrow>
      \<exists>s' i d. ins False es s = (s', Inr (i, d)) \<and> okS s' \<and> keys s' = keys s \<union> key ` set es \<and>
        i = card (key ` set es - keys s) \<and> i + d = length es"
    and ins_error: "ins fault es s = (s', Inl err) \<Longrightarrow> s' = s"
    and ins_fault: "es \<noteq> [] \<Longrightarrow> \<forall>e \<in> set es. okE e \<Longrightarrow> \<exists>err. ins True es s = (s, Inl err)"
    and ins_present: "okS s \<Longrightarrow> \<forall>e \<in> set es. okE e \<Longrightarrow> key ` set es \<subseteq> keys s \<Longrightarrow>
      fst (ins False es s) = s"
begin

text \<open>Replaying an insert that succeeded inserts nothing and changes nothing.\<close>

lemma replay:
  assumes "okS s" "\<forall>e \<in> set es. okE e" "set es' \<subseteq> set es"
  shows "ins False es' (fst (ins False es s)) = (fst (ins False es s), Inr (0, length es'))"
proof -
  obtain s1 i d where s1: "ins False es s = (s1, Inr (i, d))" "okS s1" "keys s1 = keys s \<union> key ` set es"
    using ins_ok [OF assms(1,2)] by blast
  have okE': "\<forall>e \<in> set es'. okE e" using assms(2,3) by blast
  have sub: "key ` set es' \<subseteq> keys s1" using assms(3) s1(3) by blast
  obtain s2 i' d' where s2: "ins False es' s1 = (s2, Inr (i', d'))"
      "i' = card (key ` set es' - keys s1)" "i' + d' = length es'"
    using ins_ok [OF s1(2) okE'] by blast
  have "key ` set es' - keys s1 = {}" using sub by blast
  with s2 have "i' = 0" "d' = length es'" by simp_all
  moreover have "s2 = s1" using ins_present [OF s1(2) okE' sub] s2(1) by simp
  ultimately show ?thesis using s1(1) s2(1) by simp
qed

text \<open>A failed attempt does not change what the retry does.\<close>

lemma retry:
  assumes "es \<noteq> []" "\<forall>e \<in> set es. okE e"
  shows "ins False es (fst (ins True es s)) = ins False es s"
  using ins_fault [OF assms, of s] by auto

end

interpretation sink: usage_sink insertUsageEvents "\<lambda>st. eventKeys (st_events st)" ev_EventKey
  "\<lambda>e. timed e \<and> keyOK e \<and> \<not> refused e" "storeOK covered" for covered
proof
  fix s :: eventStore and es
  assume ok: "storeOK covered s" "\<forall>e \<in> set es. timed e \<and> keyOK e \<and> \<not> refused e"
  then have evs: "\<forall>e \<in> set (st_events s). stateOK e" by (simp add: storeOK_def)
  obtain s' new where e:
    "insertUsageEvents False es s = (s', Inr (length new, length es - length new))"
    "st_events s' = st_events s @ new"
    "st_rollups s' = incrementUsageRollupsForEvents new (st_rollups s)" "\<forall>e \<in> set new. stateOK e"
    "eventKeys new = eventKeys es - eventKeys (st_events s)" "distinct (map ev_EventKey new)"
    "length new \<le> length es"
    using insert_effect [OF ok(2) evs] by metis
  have "storeOK covered s'"
    using e(5) by (intro storeOK_insert [OF ok(1) e(2,4,3) _ e(6)]) blast
  moreover have "eventKeys (st_events s') = eventKeys (st_events s) \<union> ev_EventKey ` set es"
    using e(2,5) by (auto simp: eventKeys_def)
  moreover have "length new = card (ev_EventKey ` set es - eventKeys (st_events s))"
    using distinct_card [OF e(6)] e(5) by (simp add: eventKeys_def)
  ultimately show "\<exists>s' i d. insertUsageEvents False es s = (s', Inr (i, d)) \<and> storeOK covered s' \<and>
      eventKeys (st_events s') = eventKeys (st_events s) \<union> ev_EventKey ` set es \<and>
      i = card (ev_EventKey ` set es - eventKeys (st_events s)) \<and> i + d = length es"
    using e(1,7) by (intro exI [of _ s'] exI [of _ "length new"] exI [of _ "length es - length new"]) simp
next
  fix s :: eventStore and es
  assume ok: "storeOK covered s" "\<forall>e \<in> set es. timed e \<and> keyOK e \<and> \<not> refused e"
    and sub: "ev_EventKey ` set es \<subseteq> eventKeys (st_events s)"
  then have evs: "\<forall>e \<in> set (st_events s). stateOK e" by (simp add: storeOK_def)
  show "fst (insertUsageEvents False es s) = s"
    by (rule insert_present [OF ok(2) evs]) (use sub in \<open>simp add: eventKeys_def\<close>)
next
  fix fault es and s s' :: eventStore and err
  assume "insertUsageEvents fault es s = (s', Inl err)"
  then show "s' = s"
    by (auto simp: insertUsageEvents_def Let_def split: if_splits sum.splits prod.splits)
next
  fix es and s :: eventStore
  assume "es \<noteq> []" "\<forall>e \<in> set es. timed e \<and> keyOK e \<and> \<not> refused e"
  then show "\<exists>err. insertUsageEvents True es s = (s, Inl err)"
    by (auto simp: insertUsageEvents_def split: sum.split)
qed

section \<open>Properties\<close>

text \<open>
  C8. \<open>InsertUsageEvents\<close> is an exact, deduplicated append. For events that pass validation, under
  proper keys, the result is the old rows followed by one new row per missing key, with the facts
  of one of the given events; the inserted and the deduplicated counts add up to the number of
  events given; and the store keeps its invariant: unique keys, validated records, and, for
  every maintained hour, rollups that equal the aggregate of all the events.
\<close>

theorem insertUsageEvents_exact:
  assumes "storeOK covered st" "\<forall>e \<in> set events. timed e \<and> keyOK e \<and> \<not> refused e"
  shows "\<exists>st' new. insertUsageEvents False events st =
        (st', Inr (length new, length events - length new)) \<and>
      st_events st' = st_events st @ new \<and>
      length new \<le> length events \<and> distinct (map ev_EventKey new) \<and>
      eventKeys new = eventKeys events - eventKeys (st_events st) \<and>
      (\<forall>e \<in> set new. \<exists>e0 \<in> set events. sameFacts e (statedEvent e0)) \<and>
      storeOK covered st'"
  using assms by (rule insert_exact)

lemma sampleEvent_input: "timed sampleEvent \<and> keyOK sampleEvent \<and> \<not> refused sampleEvent"
  using sample_storedOK sample_validated
  by (simp add: storedOK_def keyOK_def refused_def sampleEvent_def trimmed_def ws_seqs_def)

lemma insertUsageEvents_exact_witness:
  "\<exists>st'. insertUsageEvents False [sampleEvent, sampleEvent] emptyStore = (st', Inr (1, 1)) \<and>
     storeOK (\<lambda>_. True) st'"
proof -
  have ok: "\<forall>e \<in> set [sampleEvent, sampleEvent]. timed e \<and> keyOK e \<and> \<not> refused e"
    using sampleEvent_input by simp
  from insertUsageEvents_exact [OF storeOK_empty ok] obtain st' new where st':
    "insertUsageEvents False [sampleEvent, sampleEvent] emptyStore =
       (st', Inr (length new, length [sampleEvent, sampleEvent] - length new))"
    "distinct (map ev_EventKey new)"
    "eventKeys new = eventKeys [sampleEvent, sampleEvent] - eventKeys (st_events emptyStore)"
    "storeOK (\<lambda>_. True) st'"
    by blast
  have "length new = card (eventKeys new)"
    using distinct_card [OF st'(2)] by (simp add: eventKeys_def)
  then have "length new = 1" using st'(3) by (simp add: emptyStore_def eventKeys_def)
  with st'(1,4) show ?thesis by auto
qed

text \<open>
  Replaying is idempotent: inserting again any of the events of a successful insert reports all of
  them as duplicates and leaves events and rollups unchanged, so nothing is counted twice.
\<close>

theorem insertUsageEvents_replay:
  assumes "storeOK covered st" "\<forall>e \<in> set events. timed e \<and> keyOK e \<and> \<not> refused e"
    "set again \<subseteq> set events" "insertUsageEvents False events st = (st', r)"
  shows "insertUsageEvents False again st' = (st', Inr (0, length again))"
  using sink.replay [OF assms(1-3)] assms(4) by simp

lemma insertUsageEvents_replay_witness:
  "\<exists>st'. insertUsageEvents False [sampleEvent] st' = (st', Inr (0, 1)) \<and>
     st' = fst (insertUsageEvents False [sampleEvent] emptyStore)"
proof -
  have ok: "\<forall>e \<in> set [sampleEvent]. timed e \<and> keyOK e \<and> \<not> refused e"
    using sampleEvent_input by simp
  obtain st' r where st': "insertUsageEvents False [sampleEvent] emptyStore = (st', r)"
    by (cases "insertUsageEvents False [sampleEvent] emptyStore")
  have "insertUsageEvents False [sampleEvent] st' = (st', Inr (0, length [sampleEvent]))"
    by (rule insertUsageEvents_replay [OF storeOK_empty [of "\<lambda>_. True"] ok _ st']) simp
  with st' show ?thesis by simp
qed

end
