(* ===== verification/Intake.thy ===== *)
theory Intake
  imports UsageMessage Inbox EventStore
begin

text \<open>
  The intake (\<open>service/redis\_usage\_intake.go\<close>, \<open>service/redis\_usage\_processor.go\<close>): pulling popped
  messages into the inbox and processing inbox rows into usage events. The state is the inbox
  and the event store. Every database statement may fail: \<open>processFaults\<close> says which ones do, and
  \<open>pull\<close> takes the outcome of the queue pop and of the insert as arguments. The text of an error is
  a parameter.
\<close>

section \<open>State and environment\<close>

record intake =
  in_inbox :: inbox
  in_store :: eventStore

record intakeEnv =
  env_unmarshal :: json_reader
  env_marshal :: json_writer
  env_sha256 :: "string \<Rightarrow> string"
  env_decodeText :: "decodeError \<Rightarrow> string"
  env_storeText :: "storeError \<Rightarrow> string"

definition redisInboxProcessLimit :: int where "redisInboxProcessLimit = 1000"

definition redisUsageAttemptEventKey :: "nat \<Rightarrow> string" where
  "redisUsageAttemptEventKey inboxID = ''redis-inbox:'' @ nat_digits inboxID"

section \<open>Pull\<close>

record pullResult =
  pr_Empty :: bool
  pr_Status :: string
  pr_InsertedRows :: nat

datatype pullError = QueueNil | FetchFailed string | PersistFailed

text \<open>The projection of all the messages; \<open>None\<close> if one of them cannot be encoded.\<close>

fun projectMessages :: "intakeEnv \<Rightarrow> string list \<Rightarrow> string list option" where
  "projectMessages env [] = Some []"
| "projectMessages env (m # ms) =
     (case replaySafeRedisUsageMessage (env_unmarshal env) (env_marshal env) (env_sha256 env) m of
        None \<Rightarrow> None
      | Some s \<Rightarrow> map_option ((#) s) (projectMessages env ms))"

definition insertRedisInboxMessages ::
  "intakeEnv \<Rightarrow> bool \<Rightarrow> string \<Rightarrow> string list \<Rightarrow> instant \<Rightarrow> instant \<Rightarrow> inbox \<Rightarrow>
     (inbox \<times> (nat \<times> inboxRow) list) option" where
  "insertRedisInboxMessages env fault queueKey messages poppedAt clock t =
     (case projectMessages env messages of
        None \<Rightarrow> None
      | Some raws \<Rightarrow>
          if fault \<and> raws \<noteq> [] then None
          else Some (insertRedisUsageInboxMessages (env_sha256 env) clock
                 (map (\<lambda>raw. \<lparr>ii_QueueKey = queueKey, ii_RawMessage = raw, ii_PoppedAt = poppedAt\<rparr>)
                    raws) t))"

definition pull ::
  "intakeEnv \<Rightarrow> bool \<Rightarrow> string \<Rightarrow> (string + string list) \<Rightarrow> bool \<Rightarrow> instant \<Rightarrow> instant \<Rightarrow>
     intake \<Rightarrow> intake \<times> pullResult option \<times> pullError option" where
  "pull env queueNil queueKey popped fault fetchedAt clock s =
     (if queueNil then (s, None, Some QueueNil)
      else case popped of
        Inl err \<Rightarrow> (s, Some \<lparr>pr_Empty = False, pr_Status = ''failed'', pr_InsertedRows = 0\<rparr>,
                     Some (FetchFailed err))
      | Inr messages \<Rightarrow>
          if messages = []
          then (s, Some \<lparr>pr_Empty = True, pr_Status = ''empty'', pr_InsertedRows = 0\<rparr>, None)
          else
            (case insertRedisInboxMessages env fault queueKey messages fetchedAt clock (in_inbox s) of
               None \<Rightarrow> (s, Some \<lparr>pr_Empty = False, pr_Status = ''failed'', pr_InsertedRows = 0\<rparr>,
                         Some PersistFailed)
             | Some (t, rows) \<Rightarrow>
                 (s\<lparr>in_inbox := t\<rparr>,
                  Some \<lparr>pr_Empty = False, pr_Status = ''completed'', pr_InsertedRows = length rows\<rparr>,
                  None)))"

section \<open>Process\<close>

text \<open>The failures of one run: the list query, the decode-failed mark of given rows, the event
transaction, the processed marks, the process-failed marks.\<close>

record processFaults =
  pf_List :: bool
  pf_MarkDecode :: "nat \<Rightarrow> bool"
  pf_Insert :: bool
  pf_MarkProcessed :: bool
  pf_MarkFailed :: bool

definition noFaults :: processFaults where
  "noFaults = \<lparr>pf_List = False, pf_MarkDecode = (\<lambda>_. False), pf_Insert = False,
     pf_MarkProcessed = False, pf_MarkFailed = False\<rparr>"

record batchResult =
  br_Empty :: bool
  br_BatchLimitReached :: bool
  br_Status :: string
  br_InsertedEvents :: nat
  br_DedupedEvents :: nat

datatype processError =
    ListFailed
  | MarkDecodeFailedError
  | DecodeErrors "decodeError list"
  | EventsFailed storeError
  | MarkProcessedFailed

definition statusResult :: "string \<Rightarrow> batchResult" where
  "statusResult status = \<lparr>br_Empty = False, br_BatchLimitReached = False, br_Status = status,
     br_InsertedEvents = 0, br_DedupedEvents = 0\<rparr>"

definition emptyResult :: batchResult where
  "emptyResult = \<lparr>br_Empty = True, br_BatchLimitReached = False, br_Status = ''empty'',
     br_InsertedEvents = 0, br_DedupedEvents = 0\<rparr>"

definition decodeRedisUsageInboxRow :: "intakeEnv \<Rightarrow> inboxRow \<Rightarrow> (decodeError + usageEvent) option" where
  "decodeRedisUsageInboxRow env row =
     (if isZero (ib_PoppedAt row) then Some (Inl PoppedAtZero)
      else decodeRedisUsageMessage (env_unmarshal env) (ib_RawMessage row) (ib_PoppedAt row))"

text \<open>
  The decoding loop of \<open>processRows\<close>: the outer option is a panic of the decoder, the inner one a
  failed mark, which ends the loop; else the decoded events with their row ids and the errors.
\<close>

fun decodeRows ::
  "intakeEnv \<Rightarrow> processFaults \<Rightarrow> instant \<Rightarrow> (nat \<times> inboxRow) list \<Rightarrow> inbox \<Rightarrow>
     (inbox \<times> ((nat \<times> usageEvent) list \<times> decodeError list) option) option" where
  "decodeRows env faults clock [] t = Some (t, Some ([], []))"
| "decodeRows env faults clock ((i, row) # rows) t =
     (case decodeRedisUsageInboxRow env row of
        None \<Rightarrow> None
      | Some (Inl err) \<Rightarrow>
          if pf_MarkDecode faults i then Some (t, None)
          else map_option (\<lambda>(t', r). (t', map_option (\<lambda>(evs, errs). (evs, err # errs)) r))
                 (decodeRows env faults clock rows
                    (markRedisUsageInboxDecodeFailed i (Some (env_decodeText env err)) clock t))
      | Some (Inr e) \<Rightarrow>
          map_option (\<lambda>(t', r). (t', map_option (\<lambda>(evs, errs).
              ((i, e\<lparr>ev_EventKey := redisUsageAttemptEventKey i\<rparr>) # evs, errs)) r))
            (decodeRows env faults clock rows t))"

definition markRedisInboxRowsProcessFailed ::
  "intakeEnv \<Rightarrow> processFaults \<Rightarrow> instant \<Rightarrow> nat list \<Rightarrow> storeError \<Rightarrow> inbox \<Rightarrow> inbox" where
  "markRedisInboxRowsProcessFailed env faults clock ids err t =
     (if pf_MarkFailed faults then t
      else markRedisUsageInboxProcessFailedBatch ids (Some (env_storeText env err)) clock t)"

definition processRows ::
  "intakeEnv \<Rightarrow> processFaults \<Rightarrow> instant \<Rightarrow> instant \<Rightarrow> (nat \<times> inboxRow) list \<Rightarrow> intake \<Rightarrow>
     (intake \<times> batchResult \<times> processError option) option" where
  "processRows env faults clock processedAt inboxRows s =
     (case decodeRows env faults clock inboxRows (in_inbox s) of
        None \<Rightarrow> None
      | Some (t, None) \<Rightarrow>
          Some (s\<lparr>in_inbox := t\<rparr>, statusResult ''failed'', Some MarkDecodeFailedError)
      | Some (t, Some (valid, errs)) \<Rightarrow>
          let decodeErr = (if errs = [] then None else Some (DecodeErrors errs));
              s1 = s\<lparr>in_inbox := t\<rparr>
          in Some (
            if valid = []
            then (case decodeErr of
                    Some err \<Rightarrow> (s1, statusResult ''completed_with_warnings'', Some err)
                  | None \<Rightarrow> (s1, emptyResult, None))
            else
              (case insertUsageEvents (pf_Insert faults) (map snd valid) (in_store s1) of
                 (st, Inl err) \<Rightarrow>
                   (s1\<lparr>in_inbox := markRedisInboxRowsProcessFailed env faults clock (map fst valid) err t,
                       in_store := st\<rparr>,
                    statusResult ''failed'', Some (EventsFailed err))
               | (st, Inr (inserted, deduped)) \<Rightarrow>
                   if pf_MarkProcessed faults
                   then (s1\<lparr>in_store := st\<rparr>, statusResult ''failed'', Some MarkProcessedFailed)
                   else
                     (s1\<lparr>in_inbox := markRedisUsageInboxProcessedBatch
                            (map (\<lambda>(i, e). (i, ev_EventKey e)) valid) processedAt t,
                         in_store := st\<rparr>,
                      \<lparr>br_Empty = False, br_BatchLimitReached = False,
                       br_Status = (if decodeErr = None then ''completed''
                                    else ''completed_with_warnings''),
                       br_InsertedEvents = inserted, br_DedupedEvents = deduped\<rparr>,
                      decodeErr))))"

definition process ::
  "intakeEnv \<Rightarrow> processFaults \<Rightarrow> instant \<Rightarrow> instant \<Rightarrow> intake \<Rightarrow>
     (intake \<times> batchResult \<times> processError option) option" where
  "process env faults clock now s =
     (if pf_List faults then Some (s, statusResult ''failed'', Some ListFailed)
      else
        let rows = listProcessableRedisUsageInbox redisInboxProcessLimit (in_inbox s)
        in if rows = [] then Some (s, emptyResult, None)
           else map_option (\<lambda>(s', result, err).
                  (s', result\<lparr>br_BatchLimitReached := (int (length rows) = redisInboxProcessLimit)\<rparr>, err))
                (processRows env faults clock now rows s))"

section \<open>Lemmas: keys\<close>

lemma lead_len_hd: "[] \<notin> set ws \<Longrightarrow> c \<notin> hd ` set ws \<Longrightarrow> lead_len ws (c # s) = 0"
  by (induction ws) (auto simp: prefix_Cons neq_Nil_conv)

lemma digit_not_space: "d < 10 \<Longrightarrow> digit_char d \<notin> hd ` set (map rev ws_seqs)"
proof -
  assume "d < 10"
  then have "of_char (digit_char d) = (48 + d :: nat)" by (simp add: digit_char_def)
  moreover have "of_char c < (48 :: nat) \<or> 57 < (of_char c :: nat)" if "c \<in> hd ` set (map rev ws_seqs)" for c
    using that by (auto simp: ws_seqs_def)
  ultimately show ?thesis using \<open>d < 10\<close> by force
qed

lemma eventKey_trimmed: "trimmed (redisUsageAttemptEventKey i)"
proof -
  have "lead_len ws_seqs (redisUsageAttemptEventKey i) = 0"
    unfolding redisUsageAttemptEventKey_def append_Cons
    by (rule lead_len_hd [OF ws_seqs_nonempty(1)]) (simp add: ws_seqs_def)
  moreover have "lead_len (map rev ws_seqs) (rev (redisUsageAttemptEventKey i)) = 0"
  proof -
    obtain c cs where digits: "rev (nat_digits i) = c # cs" by (cases "rev (nat_digits i)") auto
    then have "c \<in> set (nat_digits i)" by (metis list.set_intros(1) set_rev)
    then obtain d where d: "d < 10" "c = digit_char d" using nat_digits_chars by blast
    have space: "c \<notin> hd ` set (map rev ws_seqs)" unfolding d(2) by (rule digit_not_space [OF d(1)])
    have eq: "rev (redisUsageAttemptEventKey i) = c # (cs @ rev ''redis-inbox:'')"
      unfolding redisUsageAttemptEventKey_def rev_append digits by (rule append_Cons)
    show ?thesis unfolding eq by (rule lead_len_hd [OF ws_seqs_nonempty(2) space])
  qed
  ultimately show ?thesis by (simp add: trimmed_def)
qed

lemma eventKey_inj [simp]: "redisUsageAttemptEventKey i = redisUsageAttemptEventKey j \<longleftrightarrow> i = j"
  by (auto simp: redisUsageAttemptEventKey_def dest: nat_digits_inj)

lemma eventKey_nonempty [simp]: "redisUsageAttemptEventKey i \<noteq> []"
  by (simp add: redisUsageAttemptEventKey_def)

section \<open>Lemmas: decoding\<close>

text \<open>
  A stored message whose timestamp, if it has one, is in year 1 or later. RFC 3339 can also write
  instants of year 0, which Go orders before the zero time that stands for no event in a rollup; a
  row with such a message is outside the conditions of this theory.
\<close>

definition datedMessage :: "intakeEnv \<Rightarrow> string \<Rightarrow> bool" where
  "datedMessage env raw \<longleftrightarrow>
     (\<forall>p t. env_unmarshal env raw = Some p \<and> qd_Timestamp p = Some t \<longrightarrow> zero_time \<le> t)"

definition datedRow :: "intakeEnv \<Rightarrow> inboxRow \<Rightarrow> bool" where
  "datedRow env r \<longleftrightarrow> zero_time \<le> ib_PoppedAt r \<and> datedMessage env (ib_RawMessage r)"

definition datedInput :: "intakeEnv \<Rightarrow> inboxInsert \<Rightarrow> bool" where
  "datedInput env input \<longleftrightarrow> zero_time \<le> ii_PoppedAt input \<and> datedMessage env (ii_RawMessage input)"

lemma decodeRow_cong:
  "ib_RawMessage r' = ib_RawMessage r \<Longrightarrow> ib_PoppedAt r' = ib_PoppedAt r \<Longrightarrow>
     decodeRedisUsageInboxRow env r' = decodeRedisUsageInboxRow env r"
  by (simp add: decodeRedisUsageInboxRow_def)

lemma decodeRow_total: "decodeRedisUsageInboxRow env row \<noteq> None"
  using decode_total by (auto simp: decodeRedisUsageInboxRow_def)

lemma decodeRow_ok:
  assumes "decodeRedisUsageInboxRow env r = Some (Inr e)" "datedRow env r"
  shows "timed (e\<lparr>ev_EventKey := redisUsageAttemptEventKey i\<rparr>) \<and>
    keyOK (e\<lparr>ev_EventKey := redisUsageAttemptEventKey i\<rparr>) \<and>
    \<not> refused (e\<lparr>ev_EventKey := redisUsageAttemptEventKey i\<rparr>)"
proof -
  from assms(1) have dec: "decodeRedisUsageMessage (env_unmarshal env) (ib_RawMessage r) (ib_PoppedAt r)
      = Some (Inr e)"
    by (simp add: decodeRedisUsageInboxRow_def split: if_splits)
  then obtain p where p: "env_unmarshal env (ib_RawMessage r) = Some p"
      "toUsageEvent p (ib_PoppedAt r) = Some e" by (rule decode_InrE)
  have "ev_Timestamp e = (case qd_Timestamp p of
      Some t \<Rightarrow> if isZero t then ib_PoppedAt r else t | None \<Rightarrow> ib_PoppedAt r)"
    using p(2) by (auto simp: toUsageEvent_def)
  then have "zero_time \<le> ev_Timestamp e"
    using assms(2) p(1) by (auto simp: datedRow_def datedMessage_def split: option.splits)
  then show ?thesis
    using decode_validated [OF dec] by (simp add: timed_def keyOK_def refused_def eventKey_trimmed)
qed

definition undecodable :: "intakeEnv \<Rightarrow> inboxRow \<Rightarrow> bool" where
  "undecodable env r \<longleftrightarrow> (\<exists>err. decodeRedisUsageInboxRow env r = Some (Inl err))"

definition eventOfRow :: "intakeEnv \<Rightarrow> nat \<Rightarrow> inboxRow \<Rightarrow> usageEvent option" where
  "eventOfRow env i r =
     (case decodeRedisUsageInboxRow env r of
        Some (Inr e) \<Rightarrow> Some (e\<lparr>ev_EventKey := redisUsageAttemptEventKey i\<rparr>) | _ \<Rightarrow> None)"

lemma eventOfRow_key: "eventOfRow env i r = Some e \<Longrightarrow> ev_EventKey e = redisUsageAttemptEventKey i"
  by (auto simp: eventOfRow_def split: option.splits sum.splits)

lemma eventOfRow_cong:
  "ib_RawMessage r' = ib_RawMessage r \<Longrightarrow> ib_PoppedAt r' = ib_PoppedAt r \<Longrightarrow>
     eventOfRow env i r' = eventOfRow env i r"
  "ib_RawMessage r' = ib_RawMessage r \<Longrightarrow> ib_PoppedAt r' = ib_PoppedAt r \<Longrightarrow>
     undecodable env r' = undecodable env r"
  by (simp_all add: eventOfRow_def undecodable_def decodeRow_cong [of r' r])

lemma eventOfRow_None: "eventOfRow env i r = None \<longleftrightarrow> undecodable env r"
  using decodeRow_total [of env r]
  by (auto simp: eventOfRow_def undecodable_def split: option.splits sum.splits)

lemma eventOfRow_ok:
  assumes "eventOfRow env i r = Some e" "datedRow env r"
  shows "timed e \<and> keyOK e \<and> \<not> refused e"
proof -
  from assms(1) obtain e0 where "decodeRedisUsageInboxRow env r = Some (Inr e0)"
      "e = e0\<lparr>ev_EventKey := redisUsageAttemptEventKey i\<rparr>"
    by (auto simp: eventOfRow_def split: option.splits sum.splits)
  with decodeRow_ok [OF _ assms(2)] show ?thesis by simp
qed

section \<open>Steps of the intake\<close>

text \<open>
  The changes that the two stages and the cleanup make to the persisted state, one transaction
  each; pulls may fall between the steps of a processing run. The messages pulled are dated, and so
  are the clocks.
\<close>

inductive intake_step :: "intakeEnv \<Rightarrow> intake \<Rightarrow> intake \<Rightarrow> bool" for env where
  is_pull:
    "\<forall>input \<in> set inputs. datedInput env input \<Longrightarrow>
     intake_step env s (s\<lparr>in_inbox :=
       fst (insertRedisUsageInboxMessages (env_sha256 env) clock inputs (in_inbox s))\<rparr>)"
| is_decodeFailed:
    "lookupRow (in_inbox s) i = Some r \<Longrightarrow> processable r \<Longrightarrow> undecodable env r \<Longrightarrow>
     intake_step env s (s\<lparr>in_inbox := markRedisUsageInboxDecodeFailed i err clock (in_inbox s)\<rparr>)"
| is_processFailed:
    "distinct ids \<Longrightarrow> set ids \<subseteq> processableIDs (in_inbox s) \<Longrightarrow>
     intake_step env s (s\<lparr>in_inbox := markRedisUsageInboxProcessFailedBatch ids err clock (in_inbox s)\<rparr>)"
| is_events:
    "\<forall>(i, e) \<in> set evs. \<exists>r. lookupRow (in_inbox s) i = Some r \<and> eventOfRow env i r = Some e \<Longrightarrow>
     insertUsageEvents False (map snd evs) (in_store s) = (st, r) \<Longrightarrow>
     intake_step env s (s\<lparr>in_store := st\<rparr>)"
| is_processed:
    "distinct ids \<Longrightarrow> set ids \<subseteq> processableIDs (in_inbox s) \<Longrightarrow>
     \<forall>i \<in> set ids. redisUsageAttemptEventKey i \<in> eventKeys (st_events (in_store s)) \<Longrightarrow>
     intake_step env s (s\<lparr>in_inbox := markRedisUsageInboxProcessedBatch
       (map (\<lambda>i. (i, redisUsageAttemptEventKey i)) ids) processedAt (in_inbox s)\<rparr>)"
| is_cleanup:
    "intake_step env s (s\<lparr>in_inbox := fst (cleanupRedisUsageInbox dayStart fault now (in_inbox s))\<rparr>)"

inductive_cases intake_stepE: "intake_step env s t"

definition emptyIntake :: intake where
  "emptyIntake = \<lparr>in_inbox = emptyTable, in_store = emptyStore\<rparr>"

section \<open>Invariant of the intake\<close>

text \<open>How the inbox and the events hang together.\<close>

definition rowLinked :: "intakeEnv \<Rightarrow> eventStore \<Rightarrow> nat \<Rightarrow> inboxRow \<Rightarrow> bool" where
  "rowLinked env st i r \<longleftrightarrow>
     datedRow env r \<and>
     (ib_Status r = Processed \<longrightarrow>
        ib_UsageEventKey r = redisUsageAttemptEventKey i \<and>
        redisUsageAttemptEventKey i \<in> eventKeys (st_events st)) \<and>
     (ib_Status r = DecodeFailed \<longrightarrow> undecodable env r) \<and>
     (redisUsageAttemptEventKey i \<in> eventKeys (st_events st) \<longrightarrow>
        (\<exists>e \<in> set (st_events st). \<exists>e0. eventOfRow env i r = Some e0 \<and> sameFacts e (statedEvent e0)))"

definition intakeOK :: "intakeEnv \<Rightarrow> intake \<Rightarrow> bool" where
  "intakeOK env s \<longleftrightarrow>
     inboxOK (in_inbox s) \<and> storeOK (\<lambda>_. True) (in_store s) \<and>
     (\<forall>k \<in> eventKeys (st_events (in_store s)).
        \<exists>i. 0 < i \<and> i < tbl_next (in_inbox s) \<and> k = redisUsageAttemptEventKey i) \<and>
     (\<forall>i r. lookupRow (in_inbox s) i = Some r \<longrightarrow> rowLinked env (in_store s) i r)"

lemma intakeOK_empty: "intakeOK env emptyIntake"
  using inboxOK_empty storeOK_empty
  by (simp add: intakeOK_def emptyIntake_def eventKeys_def) (simp add: emptyStore_def emptyTable_def lookupRow_def)

lemma intakeOK_D:
  assumes "intakeOK env s"
  shows "inboxOK (in_inbox s)" "tableOK (in_inbox s)" "storeOK (\<lambda>_. True) (in_store s)"
    "lookupRow (in_inbox s) i = Some r \<Longrightarrow> rowLinked env (in_store s) i r"
    "k \<in> eventKeys (st_events (in_store s)) \<Longrightarrow>
       \<exists>i. 0 < i \<and> i < tbl_next (in_inbox s) \<and> k = redisUsageAttemptEventKey i"
  using assms inboxOK_table unfolding intakeOK_def by blast+

text \<open>A change of the inbox that keeps every row's message, its link, and the next id.\<close>

lemma intakeOK_inbox:
  assumes "intakeOK env s" "inboxOK t" "tbl_next (in_inbox s) \<le> tbl_next t"
    and "\<And>i r. lookupRow t i = Some r \<Longrightarrow> rowLinked env (in_store s) i r"
  shows "intakeOK env (s\<lparr>in_inbox := t\<rparr>)"
proof -
  have "\<exists>i. 0 < i \<and> i < tbl_next t \<and> k = redisUsageAttemptEventKey i"
    if "k \<in> eventKeys (st_events (in_store s))" for k
    using intakeOK_D(5) [OF assms(1) that] assms(3) by auto
  with assms show ?thesis unfolding intakeOK_def by simp
qed

lemma rowLinked_status:
  assumes "rowLinked env st i r" "ib_RawMessage r' = ib_RawMessage r" "ib_PoppedAt r' = ib_PoppedAt r"
    "ib_Status r' = Processed \<Longrightarrow> ib_UsageEventKey r' = redisUsageAttemptEventKey i \<and>
       redisUsageAttemptEventKey i \<in> eventKeys (st_events st)"
    "ib_Status r' = DecodeFailed \<Longrightarrow> undecodable env r"
  shows "rowLinked env st i r'"
  using assms(1,4,5) eventOfRow_cong [OF assms(2,3)] unfolding rowLinked_def datedRow_def assms(2,3) by metis

lemma step_inboxOK:
  assumes "intakeOK env s" "inbox_step (in_inbox s) t"
  shows "inboxOK t"
  using assms inbox_step_ok intakeOK_D(1) by blast

lemma pull_ok:
  assumes "intakeOK env s" "\<forall>input \<in> set inputs. datedInput env input"
  shows "intakeOK env (s\<lparr>in_inbox :=
    fst (insertRedisUsageInboxMessages (env_sha256 env) clock inputs (in_inbox s))\<rparr>)"
proof (rule intakeOK_inbox [OF assms(1)])
  let ?t = "fst (insertRedisUsageInboxMessages (env_sha256 env) clock inputs (in_inbox s))"
  let ?rows = "map (inboxRowOf (env_sha256 env) clock) inputs"
  have tab: "tableOK (in_inbox s)" by (rule intakeOK_D(2) [OF assms(1)])
  show "inboxOK ?t" by (rule step_inboxOK [OF assms(1) step_insert])
  show "tbl_next (in_inbox s) \<le> tbl_next ?t" by (simp add: insert_eq insertRows_def)
  fix i r
  assume row: "lookupRow ?t i = Some r"
  show "rowLinked env (in_store s) i r"
  proof (cases "i < tbl_next (in_inbox s)")
    case True
    with row have "lookupRow (in_inbox s) i = Some r" by (simp add: insert_eq lookup_insertRows [OF tab])
    then show ?thesis by (rule intakeOK_D(4) [OF assms(1)])
  next
    case False
    with row have k: "i < tbl_next (in_inbox s) + length inputs"
      and r: "r = inboxRowOf (env_sha256 env) clock (inputs ! (i - tbl_next (in_inbox s)))"
      by (auto simp: insert_eq lookup_insertRows [OF tab] split: if_splits)
    have "inputs ! (i - tbl_next (in_inbox s)) \<in> set inputs" using False k by (intro nth_mem) simp
    with assms(2) have "datedRow env r" by (simp add: r inboxRowOf_def datedRow_def datedInput_def)
    moreover have "redisUsageAttemptEventKey i \<notin> eventKeys (st_events (in_store s))"
      using intakeOK_D(5) [OF assms(1), of "redisUsageAttemptEventKey i"] False by auto
    ultimately show ?thesis by (simp add: rowLinked_def r inboxRowOf_def)
  qed
qed

lemma failedRow_simps [simp]:
  "ib_RawMessage (failedRow st err now r) = ib_RawMessage r"
  "ib_PoppedAt (failedRow st err now r) = ib_PoppedAt r" "ib_Status (failedRow st err now r) = st"
  by (simp_all add: failedRow_def)

lemma processFailedRow_fields [simp]:
  "ib_RawMessage (processFailedRow err now r) = ib_RawMessage r"
  "ib_PoppedAt (processFailedRow err now r) = ib_PoppedAt r"
  "ib_Status (processFailedRow err now r) \<noteq> Processed"
  "ib_Status (processFailedRow err now r) \<noteq> DecodeFailed"
  by (simp_all add: processFailedRow_def)

lemma processedRow_fields [simp]:
  "ib_RawMessage (processedRow k p r) = ib_RawMessage r"
  "ib_PoppedAt (processedRow k p r) = ib_PoppedAt r"
  "ib_Status (processedRow k p r) = Processed" "ib_UsageEventKey (processedRow k p r) = k"
  by (simp_all add: processedRow_def)

lemma decodeFailed_next [simp]: "tbl_next (markRedisUsageInboxDecodeFailed i err now t) = tbl_next t"
  by (simp add: markRedisUsageInboxDecodeFailed_def markRedisUsageInboxFailed_def)

lemma processable_markable:
  "set ids \<subseteq> processableIDs t \<Longrightarrow> markable t (set ids)"
  by (auto simp: markable_def processableIDs_def)

lemma decodeFailed_ok:
  assumes "intakeOK env s" "lookupRow (in_inbox s) i = Some r" "processable r" "undecodable env r"
  shows "intakeOK env (s\<lparr>in_inbox := markRedisUsageInboxDecodeFailed i err clock (in_inbox s)\<rparr>)"
proof (rule intakeOK_inbox [OF assms(1)])
  let ?t = "markRedisUsageInboxDecodeFailed i err clock (in_inbox s)"
  show "inboxOK ?t"
    using assms(2,3) by (intro step_inboxOK [OF assms(1)] step_decodeFailed) (simp add: markable_def)
  show "tbl_next (in_inbox s) \<le> tbl_next ?t" by simp
  fix j q
  assume row: "lookupRow ?t j = Some q"
  show "rowLinked env (in_store s) j q"
  proof (cases "j = i")
    case True
    with row assms(2) have q: "q = failedRow DecodeFailed err clock r" by (simp add: decodeFailed_lookup)
    have "rowLinked env (in_store s) i r" by (rule intakeOK_D(4) [OF assms(1,2)])
    then show ?thesis unfolding True q by (rule rowLinked_status) (simp_all add: assms(4))
  next
    case False
    with row have "lookupRow (in_inbox s) j = Some q" by (simp add: decodeFailed_lookup)
    then show ?thesis by (rule intakeOK_D(4) [OF assms(1)])
  qed
qed

lemma processFailed_ok:
  assumes "intakeOK env s" "distinct ids" "set ids \<subseteq> processableIDs (in_inbox s)"
  shows "intakeOK env (s\<lparr>in_inbox := markRedisUsageInboxProcessFailedBatch ids err clock (in_inbox s)\<rparr>)"
proof (rule intakeOK_inbox [OF assms(1)])
  let ?t = "markRedisUsageInboxProcessFailedBatch ids err clock (in_inbox s)"
  show "inboxOK ?t"
    using assms by (intro step_inboxOK [OF assms(1)] step_processFailed processable_markable)
  show "tbl_next (in_inbox s) \<le> tbl_next ?t" by (simp add: processFailedBatch_eq [OF assms(2)])
  fix j q
  assume row: "lookupRow ?t j = Some q"
  show "rowLinked env (in_store s) j q"
  proof (cases "j \<in> set ids")
    case True
    with row obtain r where r: "lookupRow (in_inbox s) j = Some r" "q = processFailedRow err clock r"
      by (auto simp: processFailedBatch_lookup [OF assms(2)])
    from intakeOK_D(4) [OF assms(1) r(1)] show ?thesis
      unfolding r(2) by (rule rowLinked_status) simp_all
  next
    case False
    with row have "lookupRow (in_inbox s) j = Some q" by (simp add: processFailedBatch_lookup [OF assms(2)])
    then show ?thesis by (rule intakeOK_D(4) [OF assms(1)])
  qed
qed

lemma map_of_ids: "map_of (map (\<lambda>i. (i, f i)) ids) j = (if j \<in> set ids then Some (f j) else None)"
  by (rule map_of_map_self)

lemma processed_ok:
  assumes "intakeOK env s" "distinct ids" "set ids \<subseteq> processableIDs (in_inbox s)"
    "\<forall>i \<in> set ids. redisUsageAttemptEventKey i \<in> eventKeys (st_events (in_store s))"
  shows "intakeOK env (s\<lparr>in_inbox := markRedisUsageInboxProcessedBatch
    (map (\<lambda>i. (i, redisUsageAttemptEventKey i)) ids) p (in_inbox s)\<rparr>)"
proof (rule intakeOK_inbox [OF assms(1)])
  let ?marks = "map (\<lambda>i. (i, redisUsageAttemptEventKey i)) ids"
  let ?t = "markRedisUsageInboxProcessedBatch ?marks p (in_inbox s)"
  have dist: "distinct (map fst ?marks)" using assms(2) by (simp add: o_def)
  have "markable (in_inbox s) (fst ` set ?marks)"
    using processable_markable [OF assms(3)] by (simp add: image_image)
  with dist show "inboxOK ?t" by (intro step_inboxOK [OF assms(1)] step_processed)
  show "tbl_next (in_inbox s) \<le> tbl_next ?t" by (simp add: processedBatch_next)
  fix j q
  assume row: "lookupRow ?t j = Some q"
  show "rowLinked env (in_store s) j q"
  proof (cases "j \<in> set ids")
    case True
    with row obtain r where r: "lookupRow (in_inbox s) j = Some r"
        "q = processedRow (redisUsageAttemptEventKey j) p r"
      by (auto simp: processedBatch_lookup [OF dist] map_of_ids)
    from intakeOK_D(4) [OF assms(1) r(1)] show ?thesis
      unfolding r(2) by (rule rowLinked_status) (use assms(4) True in simp_all)
  next
    case False
    with row have "lookupRow (in_inbox s) j = Some q"
      by (simp add: processedBatch_lookup [OF dist] map_of_ids)
    then show ?thesis by (rule intakeOK_D(4) [OF assms(1)])
  qed
qed

lemma cleanup_ok:
  assumes "intakeOK env s"
  shows "intakeOK env (s\<lparr>in_inbox := fst (cleanupRedisUsageInbox dayStart fault now (in_inbox s))\<rparr>)"
proof (rule intakeOK_inbox [OF assms])
  let ?t = "fst (cleanupRedisUsageInbox dayStart fault now (in_inbox s))"
  show "inboxOK ?t" by (rule step_inboxOK [OF assms step_cleanup])
  show "tbl_next (in_inbox s) \<le> tbl_next ?t" by (simp add: cleanupRedisUsageInbox_def Let_def)
  fix j q
  assume "lookupRow ?t j = Some q"
  then have "lookupRow (in_inbox s) j = Some q" by (simp add: cleanup_lookup [OF intakeOK_D(2) [OF assms]])
  then show "rowLinked env (in_store s) j q" by (rule intakeOK_D(4) [OF assms])
qed

text \<open>The events of a run pass the store's checks, under the keys of their rows.\<close>

definition rowEvents :: "intakeEnv \<Rightarrow> inbox \<Rightarrow> (nat \<times> usageEvent) list \<Rightarrow> bool" where
  "rowEvents env t evs \<longleftrightarrow>
     (\<forall>(i, e) \<in> set evs. \<exists>r. lookupRow t i = Some r \<and> eventOfRow env i r = Some e)"

lemma rowEvents_input:
  assumes "intakeOK env s" "rowEvents env (in_inbox s) evs"
  shows "\<forall>e \<in> set (map snd evs). timed e \<and> keyOK e \<and> \<not> refused e"
proof
  fix e
  assume "e \<in> set (map snd evs)"
  then obtain i r where "lookupRow (in_inbox s) i = Some r" "eventOfRow env i r = Some e"
    using assms(2) by (fastforce simp: rowEvents_def)
  then show "timed e \<and> keyOK e \<and> \<not> refused e"
    using eventOfRow_ok intakeOK_D(4) [OF assms(1)] by (auto simp: rowLinked_def)
qed

lemma eventKeys_append: "eventKeys (xs @ ys) = eventKeys xs \<union> eventKeys ys"
  by (simp add: eventKeys_def image_Un)

lemma events_ok:
  assumes "intakeOK env s" "rowEvents env (in_inbox s) evs"
    "insertUsageEvents False (map snd evs) (in_store s) = (st, res)"
  shows "intakeOK env (s\<lparr>in_store := st\<rparr>)"
    and "eventKeys (st_events st) =
      eventKeys (st_events (in_store s)) \<union> redisUsageAttemptEventKey ` fst ` set evs"
proof -
  obtain st' new where ins:
    "insertUsageEvents False (map snd evs) (in_store s) =
       (st', Inr (length new, length (map snd evs) - length new))"
    "st_events st' = st_events (in_store s) @ new"
    "eventKeys new = eventKeys (map snd evs) - eventKeys (st_events (in_store s))"
    "\<forall>e \<in> set new. \<exists>e0 \<in> set (map snd evs). sameFacts e (statedEvent e0)"
    "storeOK (\<lambda>_. True) st'"
    using insert_exact [OF intakeOK_D(3) [OF assms(1)] rowEvents_input [OF assms(1,2)]] by blast
  have st: "st = st'" using ins(1) assms(3) by simp
  have ev: "\<exists>r. lookupRow (in_inbox s) i = Some r \<and> eventOfRow env i r = Some e"
    if "(i, e) \<in> set evs" for i e
    using assms(2) that by (auto simp: rowEvents_def)
  have keys: "eventKeys (map snd evs) = redisUsageAttemptEventKey ` fst ` set evs"
  proof -
    have "ev_EventKey (snd x) = redisUsageAttemptEventKey (fst x)" if "x \<in> set evs" for x
      using ev [of "fst x" "snd x"] that by (auto dest: eventOfRow_key)
    then show ?thesis by (simp add: eventKeys_def image_image)
  qed
  show all: "eventKeys (st_events st) =
      eventKeys (st_events (in_store s)) \<union> redisUsageAttemptEventKey ` fst ` set evs"
    unfolding st ins(2) eventKeys_append ins(3) keys by blast
  have "\<exists>i. 0 < i \<and> i < tbl_next (in_inbox s) \<and> k = redisUsageAttemptEventKey i" if "k \<in> eventKeys (st_events st)" for k
  proof -
    from that consider "k \<in> eventKeys (st_events (in_store s))"
      | i e where "(i, e) \<in> set evs" "k = redisUsageAttemptEventKey i"
      unfolding all by auto
    then show ?thesis
    proof cases
      case 1
      then show ?thesis by (rule intakeOK_D(5) [OF assms(1)])
    next
      case 2
      then show ?thesis using ev lookup_bound [OF intakeOK_D(2) [OF assms(1)]] by blast
    qed
  qed
  moreover have "rowLinked env st i r" if row: "lookupRow (in_inbox s) i = Some r" for i r
  proof -
    have old: "rowLinked env (in_store s) i r" by (rule intakeOK_D(4) [OF assms(1) row])
    have "\<exists>e \<in> set (st_events st). \<exists>e0. eventOfRow env i r = Some e0 \<and> sameFacts e (statedEvent e0)"
      if key: "redisUsageAttemptEventKey i \<in> eventKeys (st_events st)"
    proof (cases "redisUsageAttemptEventKey i \<in> eventKeys (st_events (in_store s))")
      case True
      with old ins(2) show ?thesis by (auto simp: rowLinked_def st)
    next
      case False
      with key ins(2) have "redisUsageAttemptEventKey i \<in> eventKeys new" by (auto simp: st eventKeys_def)
      then obtain e where e: "e \<in> set new" "ev_EventKey e = redisUsageAttemptEventKey i"
        by (auto simp: eventKeys_def)
      then obtain j e0 where e0: "(j, e0) \<in> set evs" "sameFacts e (statedEvent e0)"
        using ins(4) by auto
      have "ev_EventKey (e\<lparr>ev_ID := 0\<rparr>) = ev_EventKey ((statedEvent e0)\<lparr>ev_ID := 0\<rparr>)"
        using e0(2) by (simp only: sameFacts_def)
      then have "ev_EventKey e = ev_EventKey e0" by simp
      moreover obtain q where q: "lookupRow (in_inbox s) j = Some q" "eventOfRow env j q = Some e0"
        using ev [OF e0(1)] by blast
      ultimately have "j = i" using e(2) eventOfRow_key [OF q(2)] by simp
      with q row have "eventOfRow env i r = Some e0" by simp
      with e(1) e0(2) ins(2) show ?thesis by (auto simp: st)
    qed
    with old show ?thesis unfolding rowLinked_def all by blast
  qed
  ultimately show "intakeOK env (s\<lparr>in_store := st\<rparr>)"
    using assms(1) ins(5) unfolding intakeOK_def st by simp
qed

lemma intake_step_ok:
  assumes "intake_step env s s'" "intakeOK env s"
  shows "intakeOK env s'"
  using assms
proof (induction rule: intake_step.induct)
  case (is_events evs s st r)
  then show ?case by (intro events_ok(1)) (auto simp: rowEvents_def)
qed (simp_all add: pull_ok decodeFailed_ok processFailed_ok processed_ok cleanup_ok)

lemma intake_steps_ok:
  assumes "(intake_step env)\<^sup>*\<^sup>* s s'" "intakeOK env s"
  shows "intakeOK env s'"
  using assms(1) by (induction rule: rtranclp_induct) (simp_all add: assms intake_step_ok)

section \<open>A processing run is a sequence of steps\<close>

text \<open>What the decoding loop leaves: the undecodable rows are marked, the others untouched.\<close>

definition decodedAll ::
  "intakeEnv \<Rightarrow> (nat \<times> inboxRow) list \<Rightarrow> inbox \<Rightarrow> (nat \<times> usageEvent) list \<Rightarrow> decodeError list \<Rightarrow> bool" where
  "decodedAll env rows t valid errs \<longleftrightarrow>
     map fst valid = map fst (filter (\<lambda>(i, q). \<not> undecodable env q) rows) \<and>
     (\<forall>i e. (i, e) \<in> set valid \<longrightarrow> (\<exists>q. (i, q) \<in> set rows \<and> eventOfRow env i q = Some e)) \<and>
     (errs = [] \<longleftrightarrow> (\<forall>i q. (i, q) \<in> set rows \<longrightarrow> \<not> undecodable env q)) \<and>
     (\<forall>i q. (i, q) \<in> set rows \<longrightarrow> undecodable env q \<longrightarrow>
        (\<exists>q'. lookupRow t i = Some q' \<and> ib_Status q' = DecodeFailed))"

definition decodePost ::
  "intakeEnv \<Rightarrow> (nat \<times> inboxRow) list \<Rightarrow> inbox \<Rightarrow> inbox \<Rightarrow>
     ((nat \<times> usageEvent) list \<times> decodeError list) option \<Rightarrow> bool" where
  "decodePost env rows t t' r \<longleftrightarrow>
     (\<forall>s. in_inbox s = t \<longrightarrow> (intake_step env)\<^sup>*\<^sup>* s (s\<lparr>in_inbox := t'\<rparr>)) \<and>
     (\<forall>j. (\<forall>q. (j, q) \<in> set rows \<longrightarrow> \<not> undecodable env q) \<longrightarrow> lookupRow t' j = lookupRow t j) \<and>
     (case r of None \<Rightarrow> True | Some (valid, errs) \<Rightarrow> decodedAll env rows t' valid errs)"

lemma intake_upd_id: "in_inbox s = t \<Longrightarrow> s\<lparr>in_inbox := t\<rparr> = (s :: intake)"
  by (cases s) simp

lemma intake_upd_swap:
  "s\<lparr>in_inbox := t, in_store := st, in_inbox := t'\<rparr> = (s :: intake)\<lparr>in_inbox := t', in_store := st\<rparr>"
  by (cases s) simp

lemma decodedAll_mem:
  "decodedAll env rows t valid errs \<Longrightarrow> (i, e) \<in> set valid \<Longrightarrow>
     \<exists>q. (i, q) \<in> set rows \<and> eventOfRow env i q = Some e"
  unfolding decodedAll_def by blast

lemma decodedAll_bad:
  assumes "decodedAll env rows t valid errs" "undecodable env q"
    "lookupRow t i = Some q'" "ib_Status q' = DecodeFailed"
  shows "decodedAll env ((i, q) # rows) t valid (err # errs)"
  unfolding decodedAll_def
proof (intro conjI allI impI)
  show "map fst valid = map fst (filter (\<lambda>(i, q). \<not> undecodable env q) ((i, q) # rows))"
    using assms(1,2) by (simp add: decodedAll_def)
  show "\<exists>qa. (j, qa) \<in> set ((i, q) # rows) \<and> eventOfRow env j qa = Some e" if "(j, e) \<in> set valid" for j e
    using decodedAll_mem [OF assms(1) that] by auto
  show "(err # errs = []) = (\<forall>j r. (j, r) \<in> set ((i, q) # rows) \<longrightarrow> \<not> undecodable env r)"
    using assms(2) by auto
  show "\<exists>q'. lookupRow t j = Some q' \<and> ib_Status q' = DecodeFailed"
    if "(j, r) \<in> set ((i, q) # rows)" "undecodable env r" for j r
    using assms(1,3,4) that unfolding decodedAll_def by auto
qed

lemma decodedAll_good:
  assumes "decodedAll env rows t valid errs" "eventOfRow env i q = Some e" "\<not> undecodable env q"
  shows "decodedAll env ((i, q) # rows) t ((i, e) # valid) errs"
  unfolding decodedAll_def
proof (intro conjI allI impI)
  show "map fst ((i, e) # valid) = map fst (filter (\<lambda>(i, q). \<not> undecodable env q) ((i, q) # rows))"
    using assms(1,3) by (simp add: decodedAll_def)
  show "\<exists>qa. (j, qa) \<in> set ((i, q) # rows) \<and> eventOfRow env j qa = Some e'"
    if "(j, e') \<in> set ((i, e) # valid)" for j e'
    using decodedAll_mem [OF assms(1), of j e'] assms(2) that by auto
  show "(errs = []) = (\<forall>j r. (j, r) \<in> set ((i, q) # rows) \<longrightarrow> \<not> undecodable env r)"
    using assms(1,3) unfolding decodedAll_def by auto
  show "\<exists>q'. lookupRow t j = Some q' \<and> ib_Status q' = DecodeFailed"
    if "(j, r) \<in> set ((i, q) # rows)" "undecodable env r" for j r
    using assms(1,3) that unfolding decodedAll_def by auto
qed

lemma decodePost_steps:
  "decodePost env rows t t' r \<Longrightarrow> in_inbox s = t \<Longrightarrow> (intake_step env)\<^sup>*\<^sup>* s (s\<lparr>in_inbox := t'\<rparr>)"
  unfolding decodePost_def by blast

lemma decodeRows_post:
  assumes "distinct (map fst rows)" "\<forall>(i, q) \<in> set rows. lookupRow t i = Some q \<and> processable q"
  shows "\<exists>t' r. decodeRows env faults clock rows t = Some (t', r) \<and> decodePost env rows t t' r \<and>
    (r = None \<longrightarrow> (\<exists>i. pf_MarkDecode faults i))"
  using assms
proof (induction rows arbitrary: t)
  case Nil
  show ?case by (simp add: decodePost_def decodedAll_def intake_upd_id)
next
  case (Cons row rows)
  obtain i q where row: "row = (i, q)" by (cases row)
  have iq: "lookupRow t i = Some q" "processable q" and fresh: "i \<notin> fst ` set rows"
    and dist: "distinct (map fst rows)"
    using Cons.prems row by auto
  show ?case
  proof (cases "undecodable env q")
    case True
    then obtain err where err: "decodeRedisUsageInboxRow env q = Some (Inl err)"
      by (auto simp: undecodable_def)
    show ?thesis
    proof (cases "pf_MarkDecode faults i")
      case fault: True
      have "decodePost env (row # rows) t t None" by (simp add: decodePost_def intake_upd_id)
      with err fault show ?thesis by (auto simp: row)
    next
      case ok: False
      let ?t = "markRedisUsageInboxDecodeFailed i (Some (env_decodeText env err)) clock t"
      have "\<forall>(j, r) \<in> set rows. lookupRow ?t j = Some r \<and> processable r"
        using Cons.prems fresh by (force simp: decodeFailed_lookup)
      from Cons.IH [OF dist this] obtain t' r where ih:
        "decodeRows env faults clock rows ?t = Some (t', r)" "decodePost env rows ?t t' r"
        "r = None \<longrightarrow> (\<exists>i. pf_MarkDecode faults i)" by blast
      have run: "decodeRows env faults clock (row # rows) t =
          Some (t', map_option (\<lambda>(evs, errs). (evs, err # errs)) r)"
        using err ok ih(1) by (simp add: row)
      have steps: "(intake_step env)\<^sup>*\<^sup>* s (s\<lparr>in_inbox := t'\<rparr>)" if "in_inbox s = t" for s
      proof -
        have "intake_step env s (s\<lparr>in_inbox := ?t\<rparr>)"
          using is_decodeFailed [of s i q env] iq True that by simp
        moreover have "(intake_step env)\<^sup>*\<^sup>* (s\<lparr>in_inbox := ?t\<rparr>) ((s\<lparr>in_inbox := ?t\<rparr>)\<lparr>in_inbox := t'\<rparr>)"
          by (rule decodePost_steps [OF ih(2)]) simp
        ultimately show ?thesis by (simp add: converse_rtranclp_into_rtranclp)
      qed
      have frame: "lookupRow t' j = lookupRow t j"
        if "\<forall>q'. (j, q') \<in> set (row # rows) \<longrightarrow> \<not> undecodable env q'" for j
      proof -
        have "j \<noteq> i" using that True row by auto
        moreover have "lookupRow t' j = lookupRow ?t j" using ih(2) that by (simp add: decodePost_def)
        ultimately show ?thesis by (simp add: decodeFailed_lookup)
      qed
      have marked: "lookupRow t' i = Some (failedRow DecodeFailed (Some (env_decodeText env err)) clock q)"
      proof -
        have "(i, q') \<notin> set rows" for q' using fresh by force
        then have "lookupRow t' i = lookupRow ?t i" using ih(2) by (simp add: decodePost_def)
        with iq show ?thesis by (simp add: decodeFailed_lookup)
      qed
      have post: "case map_option (\<lambda>(evs, errs). (evs, err # errs)) r of
          None \<Rightarrow> True | Some (valid, errs) \<Rightarrow> decodedAll env (row # rows) t' valid errs"
        using ih(2) marked True row by (cases r) (auto simp: decodePost_def intro: decodedAll_bad)
      have "decodePost env (row # rows) t t' (map_option (\<lambda>(evs, errs). (evs, err # errs)) r)"
        unfolding decodePost_def using steps frame post by blast
      with run ih(3) show ?thesis by auto
    qed
  next
    case False
    then obtain e where e: "decodeRedisUsageInboxRow env q = Some (Inr e)"
      using decodeRow_total [of env q]
      by (cases "decodeRedisUsageInboxRow env q"; cases "the (decodeRedisUsageInboxRow env q)")
        (auto simp: undecodable_def)
    have ev: "eventOfRow env i q = Some (e\<lparr>ev_EventKey := redisUsageAttemptEventKey i\<rparr>)"
      by (simp add: eventOfRow_def e)
    have "\<forall>(j, r) \<in> set rows. lookupRow t j = Some r \<and> processable r" using Cons.prems by simp
    from Cons.IH [OF dist this] obtain t' r where ih:
      "decodeRows env faults clock rows t = Some (t', r)" "decodePost env rows t t' r"
      "r = None \<longrightarrow> (\<exists>i. pf_MarkDecode faults i)" by blast
    let ?add = "\<lambda>(evs, errs). ((i, e\<lparr>ev_EventKey := redisUsageAttemptEventKey i\<rparr>) # evs, errs)"
    have run: "decodeRows env faults clock (row # rows) t = Some (t', map_option ?add r)"
      using e ih(1) by (simp add: row)
    have frame: "lookupRow t' j = lookupRow t j"
      if "\<forall>q'. (j, q') \<in> set (row # rows) \<longrightarrow> \<not> undecodable env q'" for j
      using ih(2) that by (simp add: decodePost_def)
    have post: "case map_option ?add r of
        None \<Rightarrow> True | Some (valid, errs) \<Rightarrow> decodedAll env (row # rows) t' valid errs"
      using ih(2) False ev row by (cases r) (auto simp: decodePost_def intro: decodedAll_good)
    have "decodePost env (row # rows) t t' (map_option ?add r)"
      using ih(2) frame post unfolding decodePost_def by blast
    with run ih(3) show ?thesis by auto
  qed
qed

lemma listed_rows:
  assumes "tableOK t"
  shows "distinct (map fst (listProcessableRedisUsageInbox limit t))"
    "\<forall>(i, q) \<in> set (listProcessableRedisUsageInbox limit t). lookupRow t i = Some q \<and> processable q"
proof -
  have "sorted_wrt (<) (map fst (listProcessableRedisUsageInbox limit t))"
    unfolding listProcessableRedisUsageInbox_def
    by (rule limitRows_sorted [OF selectWhere_sorted [OF assms]])
  then show "distinct (map fst (listProcessableRedisUsageInbox limit t))"
    by (simp add: strict_sorted_iff)
  show "\<forall>(i, q) \<in> set (listProcessableRedisUsageInbox limit t). lookupRow t i = Some q \<and> processable q"
    using processable_listed [OF assms] by blast
qed

text \<open>The state between decoding and writing: the valid rows are still as listed.\<close>

lemma decodedAll_rows:
  assumes "decodePost env rows t t' (Some (valid, errs))" "distinct (map fst rows)"
    "\<forall>(i, q) \<in> set rows. lookupRow t i = Some q \<and> processable q"
  shows "distinct (map fst valid)" "set (map fst valid) \<subseteq> processableIDs t'" "rowEvents env t' valid"
proof -
  have all: "decodedAll env rows t' valid errs" and
    frame: "\<And>j. (\<forall>q. (j, q) \<in> set rows \<longrightarrow> \<not> undecodable env q) \<Longrightarrow> lookupRow t' j = lookupRow t j"
    using assms(1) by (auto simp: decodePost_def)
  show "distinct (map fst valid)"
    using all assms(2) by (simp add: decodedAll_def distinct_map_filter)
  have kept: "lookupRow t' i = Some q" if iq: "(i, q) \<in> set rows" "eventOfRow env i q = Some e" for i q e
  proof -
    have "\<not> undecodable env q" using iq(2) eventOfRow_None [of env i q] by auto
    moreover have "q' = q" if "(i, q') \<in> set rows" for q'
      using assms(2) iq(1) that by (rule eq_key_imp_eq_value [symmetric])
    ultimately have "lookupRow t' i = lookupRow t i" by (intro frame) blast
    with assms(3) iq(1) show ?thesis by auto
  qed
  show "rowEvents env t' valid"
    unfolding rowEvents_def
  proof (clarify)
    fix i e
    assume "(i, e) \<in> set valid"
    then obtain q where "(i, q) \<in> set rows" "eventOfRow env i q = Some e"
      using decodedAll_mem [OF all] by blast
    with kept show "\<exists>r. lookupRow t' i = Some r \<and> eventOfRow env i r = Some e" by blast
  qed
  show "set (map fst valid) \<subseteq> processableIDs t'"
  proof
    fix i
    assume "i \<in> set (map fst valid)"
    then obtain e where "(i, e) \<in> set valid" by auto
    then obtain q where q: "(i, q) \<in> set rows" "eventOfRow env i q = Some e"
      using decodedAll_mem [OF all] by blast
    with kept assms(3) show "i \<in> processableIDs t'" by (auto simp: processableIDs_def)
  qed
qed

lemma marks_of_valid:
  assumes "rowEvents env t valid"
  shows "map (\<lambda>(i, e). (i, ev_EventKey e)) valid =
    map (\<lambda>i. (i, redisUsageAttemptEventKey i)) (map fst valid)"
proof -
  have "ev_EventKey e = redisUsageAttemptEventKey i" if "(i, e) \<in> set valid" for i e
  proof -
    obtain r where "eventOfRow env i r = Some e"
      using assms \<open>(i, e) \<in> set valid\<close> unfolding rowEvents_def by blast
    then show ?thesis by (rule eventOfRow_key)
  qed
  then show ?thesis by auto
qed

text \<open>The outcomes of a run over listed rows.\<close>

definition runPost ::
  "intakeEnv \<Rightarrow> processFaults \<Rightarrow> (nat \<times> inboxRow) list \<Rightarrow> intake \<Rightarrow> intake \<Rightarrow> batchResult \<Rightarrow>
     processError option \<Rightarrow> bool" where
  "runPost env faults rows s s' result err \<longleftrightarrow>
     (intake_step env)\<^sup>*\<^sup>* s s' \<and>
     (faults = noFaults \<longrightarrow>
        (\<forall>(i, q) \<in> set rows. \<exists>q'. lookupRow (in_inbox s') i = Some q' \<and>
           ib_Status q' = (if undecodable env q then DecodeFailed else Processed)) \<and>
        br_InsertedEvents result + br_DedupedEvents result =
          length (filter (\<lambda>(i, q). \<not> undecodable env q) rows) \<and>
        (err = None \<longleftrightarrow> (\<forall>(i, q) \<in> set rows. \<not> undecodable env q)))"

lemma processRows_post:
  assumes "intakeOK env s" "distinct (map fst rows)"
    "\<forall>(i, q) \<in> set rows. lookupRow (in_inbox s) i = Some q \<and> processable q"
  shows "\<exists>s' result err. processRows env faults clock p rows s = Some (s', result, err) \<and>
    runPost env faults rows s s' result err"
proof -
  obtain t r where dec: "decodeRows env faults clock rows (in_inbox s) = Some (t, r)"
    and post: "decodePost env rows (in_inbox s) t r"
    and none: "r = None \<longrightarrow> (\<exists>i. pf_MarkDecode faults i)"
    using decodeRows_post [OF assms(2,3)] by blast
  let ?s1 = "s\<lparr>in_inbox := t\<rparr>"
  have steps1: "(intake_step env)\<^sup>*\<^sup>* s ?s1" using post by (simp add: decodePost_def)
  have ok1: "intakeOK env ?s1" by (rule intake_steps_ok [OF steps1 assms(1)])
  show ?thesis
  proof (cases r)
    case None
    then have "faults \<noteq> noFaults" using none by (auto simp: noFaults_def)
    with None dec steps1 show ?thesis by (simp add: processRows_def runPost_def)
  next
    case (Some ve)
    obtain valid errs where ve: "ve = (valid, errs)" by (cases ve)
    have post': "decodePost env rows (in_inbox s) t (Some (valid, errs))" using post Some ve by simp
    then have all: "decodedAll env rows t valid errs" by (simp add: decodePost_def)
    note valid = decodedAll_rows [OF post' assms(2,3)]
    have len: "length valid = length (filter (\<lambda>(i, q). \<not> undecodable env q) rows)"
      using all by (metis (no_types, lifting) decodedAll_def length_map)
    have bad: "\<exists>q'. lookupRow t i = Some q' \<and> ib_Status q' = DecodeFailed"
      if "(i, q) \<in> set rows" "undecodable env q" for i q
      using all that by (auto simp: decodedAll_def)
    have good: "i \<in> fst ` set valid" if "(i, q) \<in> set rows" "\<not> undecodable env q" for i q
    proof -
      have "i \<in> set (map fst (filter (\<lambda>(i, q). \<not> undecodable env q) rows))" using that by force
      then have "i \<in> set (map fst valid)" using all by (simp only: decodedAll_def)
      then show ?thesis by simp
    qed
    have errs: "errs = [] \<longleftrightarrow> (\<forall>(i, q) \<in> set rows. \<not> undecodable env q)"
      using all unfolding decodedAll_def by auto
    show ?thesis
    proof (cases "valid = []")
      case True
      then have "\<not> (\<exists>(i, q) \<in> set rows. \<not> undecodable env q)" using good by fastforce
      then have "runPost env faults rows s ?s1 res err"
        if "br_InsertedEvents res + br_DedupedEvents res = 0" "err = None \<longleftrightarrow> errs = []" for res err
        using steps1 bad len True that errs by (fastforce simp: runPost_def)
      with True dec Some ve show ?thesis
        by (cases "errs = []") (simp_all add: processRows_def statusResult_def emptyResult_def)
    next
      case ne: False
      have ids: "set (map fst valid) \<subseteq> processableIDs (in_inbox ?s1)"
        and rev: "rowEvents env (in_inbox ?s1) valid" using valid by simp_all
      obtain st ires where ins: "insertUsageEvents (pf_Insert faults) (map snd valid) (in_store s) = (st, ires)"
        by (cases "insertUsageEvents (pf_Insert faults) (map snd valid) (in_store s)")
      show ?thesis
      proof (cases ires)
        case (Inl err)
        have same: "st = in_store s" using sink.ins_error ins Inl by metis
        let ?t2 = "markRedisInboxRowsProcessFailed env faults clock (map fst valid) err t"
        have "(intake_step env)\<^sup>*\<^sup>* ?s1 (?s1\<lparr>in_inbox := ?t2, in_store := st\<rparr>)"
        proof (cases "pf_MarkFailed faults")
          case True
          then show ?thesis by (simp add: markRedisInboxRowsProcessFailed_def same)
        next
          case False
          have "intake_step env ?s1 (?s1\<lparr>in_inbox := ?t2\<rparr>)"
            using is_processFailed [OF valid(1) ids] False by (simp add: markRedisInboxRowsProcessFailed_def)
          then show ?thesis by (simp add: same r_into_rtranclp)
        qed
        with steps1 have "(intake_step env)\<^sup>*\<^sup>* s (?s1\<lparr>in_inbox := ?t2, in_store := st\<rparr>)" by simp
        moreover have "faults \<noteq> noFaults"
        proof
          assume "faults = noFaults"
          then have "insertUsageEvents False (map snd valid) (in_store s) = (st, Inl err)"
            using ins Inl by (simp add: noFaults_def)
          then show False
            using insert_exact [OF intakeOK_D(3) [OF ok1] rowEvents_input [OF ok1 rev]] by auto
        qed
        ultimately show ?thesis
          using dec Some ve ne ins Inl by (simp add: processRows_def runPost_def Let_def)
      next
        case (Inr counts)
        obtain a b where counts: "counts = (a, b)" by (cases counts)
        have nofault: "insertUsageEvents False (map snd valid) (in_store s) = (st, Inr (a, b))"
        proof (cases "pf_Insert faults")
          case True
          then show ?thesis
            using ins Inr sink.ins_fault [OF _ rowEvents_input [OF ok1 rev], of "in_store s"] ne
            by auto
        next
          case False
          with ins Inr counts show ?thesis by simp
        qed
        let ?s2 = "?s1\<lparr>in_store := st\<rparr>"
        have step2: "intake_step env ?s1 ?s2"
          using is_events [of valid ?s1 env st] rev nofault by (simp add: rowEvents_def)
        have sum: "a + b = length valid"
          using sink.ins_ok [OF intakeOK_D(3) [OF ok1] rowEvents_input [OF ok1 rev]] nofault by auto
        have keys: "\<forall>i \<in> set (map fst valid). redisUsageAttemptEventKey i \<in> eventKeys (st_events (in_store ?s2))"
          using events_ok(2) [OF ok1 rev, of st] nofault by auto
        have steps2: "(intake_step env)\<^sup>*\<^sup>* s ?s2" using steps1 step2 by simp
        show ?thesis
        proof (cases "pf_MarkProcessed faults")
          case True
          then have "faults \<noteq> noFaults" by (auto simp: noFaults_def)
          with dec Some ve ne ins Inr counts True steps2 show ?thesis
            by (simp add: processRows_def runPost_def Let_def)
        next
          case False
          let ?marks = "map (\<lambda>(i, e). (i, ev_EventKey e)) valid"
          let ?t3 = "markRedisUsageInboxProcessedBatch ?marks p t"
          have marks: "?marks = map (\<lambda>i. (i, redisUsageAttemptEventKey i)) (map fst valid)"
            by (rule marks_of_valid [OF rev])
          have "intake_step env ?s2 (?s2\<lparr>in_inbox := ?t3\<rparr>)"
            using is_processed [OF valid(1), of ?s2 env p] ids keys unfolding marks by simp
          with steps2 have "(intake_step env)\<^sup>*\<^sup>* s (s\<lparr>in_inbox := t, in_store := st, in_inbox := ?t3\<rparr>)"
            by (rule rtranclp.rtrancl_into_rtrancl)
          then have steps3: "(intake_step env)\<^sup>*\<^sup>* s (?s1\<lparr>in_inbox := ?t3, in_store := st\<rparr>)"
            unfolding intake_upd_swap by simp
          have dist: "distinct (map fst ?marks)" unfolding marks using valid(1) by (simp add: o_def)
          have look: "lookupRow ?t3 i = (if i \<in> fst ` set valid
              then map_option (processedRow (redisUsageAttemptEventKey i) p) (lookupRow t i)
              else lookupRow t i)" for i
            unfolding processedBatch_lookup [OF dist] unfolding marks map_of_ids by simp
          have status: "\<exists>q'. lookupRow ?t3 i = Some q' \<and>
              ib_Status q' = (if undecodable env q then DecodeFailed else Processed)"
            if iq: "(i, q) \<in> set rows" for i q
          proof (cases "undecodable env q")
            case True
            have "i \<notin> fst ` set valid"
            proof
              assume "i \<in> fst ` set valid"
              then obtain e where "(i, e) \<in> set valid" by auto
              then obtain q' where q': "(i, q') \<in> set rows" "eventOfRow env i q' = Some e"
                using decodedAll_mem [OF all] by blast
              have "q' = q" by (rule eq_key_imp_eq_value [OF assms(2) q'(1) iq])
              with q'(2) True eventOfRow_None [of env i q] show False by simp
            qed
            with bad [OF iq True] True show ?thesis by (simp add: look)
          next
            case False
            then have mem: "i \<in> fst ` set valid" by (rule good [OF iq])
            then have "i \<in> processableIDs t" using valid(2) by auto
            with mem False show ?thesis by (auto simp: look processableIDs_def)
          qed
          let ?s3 = "?s1\<lparr>in_inbox := ?t3, in_store := st\<rparr>"
          have run: "\<exists>result err. processRows env faults clock p rows s = Some (?s3, result, err) \<and>
              br_InsertedEvents result = a \<and> br_DedupedEvents result = b \<and> (err = None \<longleftrightarrow> errs = [])"
            using dec Some ve ne ins Inr counts False by (simp add: processRows_def Let_def)
          have "runPost env faults rows s ?s3 result err"
            if "br_InsertedEvents result = a" "br_DedupedEvents result = b" "err = None \<longleftrightarrow> errs = []"
            for result err
            unfolding runPost_def that len [symmetric] errs [symmetric]
          proof (intro conjI impI)
            show "(intake_step env)\<^sup>*\<^sup>* s ?s3" by (rule steps3)
            show "\<forall>(i, q) \<in> set rows. \<exists>q'. lookupRow (in_inbox ?s3) i = Some q' \<and>
                ib_Status q' = (if undecodable env q then DecodeFailed else Processed)"
            proof (clarify)
              fix i q
              assume "(i, q) \<in> set rows"
              from status [OF this] show "\<exists>q'. lookupRow (in_inbox ?s3) i = Some q' \<and>
                ib_Status q' = (if undecodable env q then DecodeFailed else Processed)" by simp
            qed
          qed (simp_all add: sum)
          with run show ?thesis by blast
        qed
      qed
    qed
  qed
qed

lemma process_post:
  assumes "intakeOK env s"
  shows "\<exists>s' result err. process env faults clock now s = Some (s', result, err) \<and>
    runPost env faults
      (if pf_List faults then [] else listProcessableRedisUsageInbox redisInboxProcessLimit (in_inbox s))
      s s' result err"
proof -
  let ?rows = "listProcessableRedisUsageInbox redisInboxProcessLimit (in_inbox s)"
  consider "pf_List faults" | "\<not> pf_List faults" "?rows = []" | "\<not> pf_List faults" "?rows \<noteq> []" by blast
  then show ?thesis
  proof cases
    case 1
    then have "faults \<noteq> noFaults" by (auto simp: noFaults_def)
    with 1 show ?thesis by (simp add: process_def runPost_def)
  next
    case 2
    then show ?thesis by (simp add: process_def runPost_def emptyResult_def)
  next
    case 3
    obtain s' result err where run: "processRows env faults clock now ?rows s = Some (s', result, err)"
        "runPost env faults ?rows s s' result err"
      using processRows_post [OF assms listed_rows [OF intakeOK_D(2) [OF assms(1)]]] by blast
    from run(2) have "runPost env faults ?rows s s'
        (result\<lparr>br_BatchLimitReached := b\<rparr>) err" for b
      by (simp add: runPost_def)
    with 3 run(1) show ?thesis by (simp add: process_def Let_def)
  qed
qed

section \<open>Pull\<close>

lemma projectMessages_eq:
  "jsonCodec (env_unmarshal env) (env_marshal env) \<Longrightarrow>
     projectMessages env ms = Some (map (\<lambda>m. the (replaySafeRedisUsageMessage
       (env_unmarshal env) (env_marshal env) (env_sha256 env) m)) ms)"
proof (induction ms)
  case (Cons m ms)
  from replaySafe_total [OF Cons.prems, of "env_sha256 env" m] Cons show ?case by auto
qed simp

lemma pull_steps:
  assumes "pull env queueNil queueKey popped fault fetchedAt clock s = (s', res, err)" "zero_time \<le> fetchedAt"
    and "\<And>messages raw. popped = Inr messages \<Longrightarrow> raw \<in> set (the (projectMessages env messages)) \<Longrightarrow>
      datedMessage env raw"
  shows "s' = s \<or> intake_step env s s'"
proof (cases "s' = s")
  case False
  then obtain messages raws where m: "popped = Inr messages" "projectMessages env messages = Some raws"
    "s' = s\<lparr>in_inbox := fst (insertRedisUsageInboxMessages (env_sha256 env) clock
       (map (\<lambda>raw. \<lparr>ii_QueueKey = queueKey, ii_RawMessage = raw, ii_PoppedAt = fetchedAt\<rparr>) raws)
       (in_inbox s))\<rparr>"
    using assms(1)
    by (auto simp: pull_def insertRedisInboxMessages_def split: if_splits sum.splits option.splits prod.splits)
  have "datedMessage env raw" if "raw \<in> set raws" for raw
    using assms(3) [OF m(1)] that m(2) by simp
  then show ?thesis unfolding m(3) using assms(2) by (intro disjI2 is_pull) (simp add: datedInput_def)
qed simp

definition intake_reachable :: "intakeEnv \<Rightarrow> intake \<Rightarrow> bool" where
  "intake_reachable env s \<longleftrightarrow> (intake_step env)\<^sup>*\<^sup>* emptyIntake s"

lemma intake_reachable_ok:
  assumes "intake_reachable env s"
  shows "intakeOK env s"
  by (rule intake_steps_ok [OF assms [unfolded intake_reachable_def] intakeOK_empty])

lemma unique_event:
  assumes "distinct (map ev_EventKey es)" "k \<in> eventKeys es"
  shows "\<exists>!e. e \<in> set es \<and> ev_EventKey e = k"
  using assms by (auto simp: eventKeys_def distinct_map inj_on_def)

section \<open>Properties\<close>

text \<open>
  C4. Exactly once. In every state reachable by pulls, processing runs and cleanups, with any of their
  statements failing, where every message pulled that decodes to a timestamp dates from year 1 or
  later, and so do the clocks of the pulls (\<open>datedInput\<close>, a condition of the pull step): no two events
  share a key, there are at most as many events as rows were ever put into the inbox, every processed row has exactly one event, under the key it records
  and with the facts its message decodes to, a row that could not be decoded has none, and the
  hourly rollups equal the aggregates of the events.
\<close>

theorem intake_exactly_once:
  assumes "intake_reachable env s"
  shows "distinct (map ev_EventKey (st_events (in_store s))) \<and>
    length (st_events (in_store s)) < tbl_next (in_inbox s) \<and>
    (\<forall>i r. lookupRow (in_inbox s) i = Some r \<and> ib_Status r = Processed \<longrightarrow>
       (\<exists>!e. e \<in> set (st_events (in_store s)) \<and> ev_EventKey e = ib_UsageEventKey r) \<and>
       (\<exists>e \<in> set (st_events (in_store s)). \<exists>e0.
          eventOfRow env i r = Some e0 \<and> sameFacts e (statedEvent e0))) \<and>
    (\<forall>i r. lookupRow (in_inbox s) i = Some r \<and> ib_Status r = DecodeFailed \<longrightarrow>
       redisUsageAttemptEventKey i \<notin> eventKeys (st_events (in_store s))) \<and>
    (\<forall>k. truncateTo hour (rk_BucketStart k) = rk_BucketStart k \<longrightarrow>
       map_of (st_rollups (in_store s)) k = rollupSpec (st_events (in_store s)) k)"
proof (intro conjI allI impI)
  let ?es = "st_events (in_store s)"
  have ok: "intakeOK env s" by (rule intake_reachable_ok [OF assms])
  have st: "storeOK (\<lambda>_. True) (in_store s)" by (rule intakeOK_D(3) [OF ok])
  show dist: "distinct (map ev_EventKey ?es)" using st by (simp add: storeOK_def)
  show "map_of (st_rollups (in_store s)) k = rollupSpec ?es k"
    if "truncateTo hour (rk_BucketStart k) = rk_BucketStart k" for k
    using st that by (simp add: storeOK_def)
  have sub: "eventKeys ?es \<subseteq> redisUsageAttemptEventKey ` {0<..<tbl_next (in_inbox s)}"
    using intakeOK_D(5) [OF ok] by fastforce
  have "length ?es = card (eventKeys ?es)"
    using distinct_card [OF dist] by (simp add: eventKeys_def)
  also have "\<dots> \<le> card {0<..<tbl_next (in_inbox s)}"
    using card_mono [OF _ sub] card_image_le [of "{0<..<tbl_next (in_inbox s)}" redisUsageAttemptEventKey]
    by (meson finite_greaterThanLessThan finite_imageI le_trans)
  also have "\<dots> < tbl_next (in_inbox s)"
    using intakeOK_D(2) [OF ok] by (simp add: tableOK_def)
  finally show "length ?es < tbl_next (in_inbox s)" .
  fix i r
  assume row: "lookupRow (in_inbox s) i = Some r \<and> ib_Status r = Processed"
  have link: "rowLinked env (in_store s) i r" using intakeOK_D(4) [OF ok] row by blast
  then have key: "ib_UsageEventKey r = redisUsageAttemptEventKey i"
      "redisUsageAttemptEventKey i \<in> eventKeys ?es"
    using row by (simp_all add: rowLinked_def)
  show "\<exists>!e. e \<in> set ?es \<and> ev_EventKey e = ib_UsageEventKey r"
    unfolding key(1) by (rule unique_event [OF dist key(2)])
  show "\<exists>e \<in> set ?es. \<exists>e0. eventOfRow env i r = Some e0 \<and> sameFacts e (statedEvent e0)"
    using link key(2) by (simp add: rowLinked_def)
next
  fix i r
  assume row: "lookupRow (in_inbox s) i = Some r \<and> ib_Status r = DecodeFailed"
  have "rowLinked env (in_store s) i r"
    using intakeOK_D(4) [OF intake_reachable_ok [OF assms]] row by blast
  then show "redisUsageAttemptEventKey i \<notin> eventKeys (st_events (in_store s))"
    using row eventOfRow_None [of env i r] by (auto simp: rowLinked_def)
qed

definition sampleEnv :: intakeEnv where
  "sampleEnv = \<lparr>env_unmarshal = sampleRead, env_marshal = sampleWrite, env_sha256 = (\<lambda>m. m),
     env_decodeText = (\<lambda>_. ''decode''), env_storeText = (\<lambda>_. ''store'')\<rparr>"

lemma sample_dated: "datedMessage sampleEnv raw"
  by (auto simp: datedMessage_def sampleEnv_def sampleRead_def sampleDetail_def
      compactQueuedUsageDetail_def split: if_splits)

definition sampleIntake :: intake where
  "sampleIntake = emptyIntake\<lparr>in_inbox := fst (insertRedisUsageInboxMessages (\<lambda>m. m) 5
     [\<lparr>ii_QueueKey = ''q'', ii_RawMessage = ''{0}'', ii_PoppedAt = 7\<rparr>,
      \<lparr>ii_QueueKey = ''q'', ii_RawMessage = ''bad'', ii_PoppedAt = 7\<rparr>] emptyTable)\<rparr>"

lemma sampleIntake_reachable: "intake_reachable sampleEnv sampleIntake"
proof -
  have "intake_step sampleEnv emptyIntake sampleIntake"
    using is_pull [of "[\<lparr>ii_QueueKey = ''q'', ii_RawMessage = ''{0}'', ii_PoppedAt = 7\<rparr>,
      \<lparr>ii_QueueKey = ''q'', ii_RawMessage = ''bad'', ii_PoppedAt = 7\<rparr>]" sampleEnv emptyIntake 5]
    by (simp add: sampleIntake_def sampleEnv_def emptyIntake_def zero_time_def datedInput_def
        sample_dated [unfolded sampleEnv_def])
  then show ?thesis by (simp add: intake_reachable_def r_into_rtranclp)
qed

text \<open>A run over the two rows of the sample stores the event of the first.\<close>

lemma sampleIntake_rows:
  "tbl_rows (in_inbox sampleIntake) =
     [(1, inboxRowOf (\<lambda>m. m) 5 \<lparr>ii_QueueKey = ''q'', ii_RawMessage = ''{0}'', ii_PoppedAt = 7\<rparr>),
      (2, inboxRowOf (\<lambda>m. m) 5 \<lparr>ii_QueueKey = ''q'', ii_RawMessage = ''bad'', ii_PoppedAt = 7\<rparr>)]"
  by (simp add: sampleIntake_def emptyTable_def insert_eq insertRows_def newRows_def emptyIntake_def)

lemma sampleIntake_run:
  "\<exists>s result err. process sampleEnv noFaults 9 9 sampleIntake = Some (s, result, err) \<and>
     intake_reachable sampleEnv s \<and>
     (\<exists>r. lookupRow (in_inbox s) 1 = Some r \<and> ib_Status r = Processed)"
proof -
  have ok: "intakeOK sampleEnv sampleIntake" by (rule intake_reachable_ok [OF sampleIntake_reachable])
  let ?rows = "listProcessableRedisUsageInbox redisInboxProcessLimit (in_inbox sampleIntake)"
  obtain s result err where run: "process sampleEnv noFaults 9 9 sampleIntake = Some (s, result, err)"
      "runPost sampleEnv noFaults ?rows sampleIntake s result err"
    using process_post [OF ok, of noFaults 9 9] by (auto simp: noFaults_def)
  let ?row = "inboxRowOf (\<lambda>m. m) 5 \<lparr>ii_QueueKey = ''q'', ii_RawMessage = ''{0}'', ii_PoppedAt = 7\<rparr>"
  have "(1, ?row) \<in> set ?rows"
    by (simp add: listProcessableRedisUsageInbox_def selectWhere_def sampleIntake_rows limitRows_def
        redisInboxProcessLimit_def processable_def inboxRowOf_def)
  moreover have "\<not> undecodable sampleEnv ?row"
    using sample_decodes
    by (auto simp: undecodable_def decodeRedisUsageInboxRow_def inboxRowOf_def sampleEnv_def isZero_def
        zero_time_def)
  ultimately have "\<exists>r. lookupRow (in_inbox s) 1 = Some r \<and> ib_Status r = Processed"
    using run(2) by (auto simp: runPost_def)
  moreover have "intake_reachable sampleEnv s"
    using run(2) sampleIntake_reachable unfolding runPost_def intake_reachable_def
    by (meson rtranclp_trans)
  ultimately show ?thesis using run(1) by blast
qed

lemma intake_exactly_once_witness:
  "\<exists>s result err. process sampleEnv noFaults 9 9 sampleIntake = Some (s, result, err) \<and>
     (\<exists>r. lookupRow (in_inbox s) 1 = Some r \<and> ib_Status r = Processed \<and>
        (\<exists>!e. e \<in> set (st_events (in_store s)) \<and> ev_EventKey e = ib_UsageEventKey r)) \<and>
     distinct (map ev_EventKey (st_events (in_store s))) \<and> st_events (in_store s) \<noteq> []"
proof -
  obtain s result err r where run: "process sampleEnv noFaults 9 9 sampleIntake = Some (s, result, err)"
      "intake_reachable sampleEnv s" "lookupRow (in_inbox s) 1 = Some r" "ib_Status r = Processed"
    using sampleIntake_run by blast
  have "distinct (map ev_EventKey (st_events (in_store s)))"
      "\<exists>!e. e \<in> set (st_events (in_store s)) \<and> ev_EventKey e = ib_UsageEventKey r"
    using intake_exactly_once [OF run(2)] run(3,4) by blast+
  then show ?thesis using run by (metis empty_iff list.set(1))
qed

text \<open>
  C5. From every state that keeps the invariant of the intake (which every reachable state does, and
  which says of the messages of the rows that those with a timestamp date from year 1 or later), a
  processing run returns, without a panic of the decoder, and is a sequence of steps of the intake.
  Without database failures it settles every row it lists: each becomes processed
  if its message decodes and decode-failed if not; the inserted and deduplicated counts add up to
  the decodable rows; and it reports an error only when a row did not decode.
\<close>

theorem process_settles:
  assumes "intakeOK env s"
  shows "\<exists>s' result err. process env faults clock now s = Some (s', result, err) \<and>
    (intake_step env)\<^sup>*\<^sup>* s s' \<and>
    (faults = noFaults \<longrightarrow>
       (let rows = listProcessableRedisUsageInbox redisInboxProcessLimit (in_inbox s) in
        (\<forall>(i, q) \<in> set rows. \<exists>q'. lookupRow (in_inbox s') i = Some q' \<and>
           ib_Status q' = (if undecodable env q then DecodeFailed else Processed)) \<and>
        br_InsertedEvents result + br_DedupedEvents result =
          length (filter (\<lambda>(i, q). \<not> undecodable env q) rows) \<and>
        (err = None \<longleftrightarrow> (\<forall>(i, q) \<in> set rows. \<not> undecodable env q))))"
proof -
  obtain s' result err where run: "process env faults clock now s = Some (s', result, err)"
    "runPost env faults
      (if pf_List faults then [] else listProcessableRedisUsageInbox redisInboxProcessLimit (in_inbox s))
      s s' result err"
    using process_post [OF assms] by blast
  have "faults = noFaults \<Longrightarrow> \<not> pf_List faults" by (simp add: noFaults_def)
  with run show ?thesis unfolding runPost_def Let_def by auto
qed

lemma process_settles_witness:
  "\<exists>s' result err. process sampleEnv noFaults 9 9 sampleIntake = Some (s', result, err) \<and>
     (intake_step sampleEnv)\<^sup>*\<^sup>* sampleIntake s'"
  using process_settles [OF intake_reachable_ok [OF sampleIntake_reachable]]
  by blast

text \<open>
  A pull that succeeds stores one pending row per popped message, in order, whose text is the
  replay-safe projection of the message; one that fails, at the queue or at the insert, leaves the
  state unchanged and says so.
\<close>

theorem pull_exact:
  assumes "jsonCodec (env_unmarshal env) (env_marshal env)"
    and "pull env False queueKey popped fault fetchedAt clock s = (s', Some res, err)"
  shows "(case popped of
       Inl e \<Rightarrow> s' = s \<and> err = Some (FetchFailed e) \<and> pr_Status res = ''failed''
     | Inr messages \<Rightarrow>
         if messages = [] then s' = s \<and> err = None \<and> pr_Empty res
         else if fault then s' = s \<and> err = Some PersistFailed \<and> pr_Status res = ''failed''
         else
           err = None \<and> pr_InsertedRows res = length messages \<and> in_store s' = in_store s \<and>
           in_inbox s' = insertRows (map (\<lambda>m. inboxRowOf (env_sha256 env) clock
             \<lparr>ii_QueueKey = queueKey,
              ii_RawMessage = the (replaySafeRedisUsageMessage (env_unmarshal env) (env_marshal env)
                (env_sha256 env) m),
              ii_PoppedAt = fetchedAt\<rparr>) messages) (in_inbox s))"
proof (cases popped)
  case (Inl e)
  then show ?thesis using assms(2) by (auto simp: pull_def)
next
  case (Inr messages)
  let ?raws = "map (\<lambda>m. the (replaySafeRedisUsageMessage (env_unmarshal env) (env_marshal env)
      (env_sha256 env) m)) messages"
  let ?inputs = "map (\<lambda>raw. \<lparr>ii_QueueKey = queueKey, ii_RawMessage = raw, ii_PoppedAt = fetchedAt\<rparr>) ?raws"
  have proj: "projectMessages env messages = Some ?raws" by (rule projectMessages_eq [OF assms(1)])
  show ?thesis
  proof (cases "messages = [] \<or> fault")
    case True
    then show ?thesis
      using assms(2) Inr proj by (auto simp: pull_def insertRedisInboxMessages_def)
  next
    case False
    let ?ins = "insertRedisUsageInboxMessages (env_sha256 env) clock ?inputs (in_inbox s)"
    have "(s', Some res, err) = (s\<lparr>in_inbox := fst ?ins\<rparr>,
        Some \<lparr>pr_Empty = False, pr_Status = ''completed'', pr_InsertedRows = length (snd ?ins)\<rparr>, None)"
      using assms(2) Inr False proj
      by (simp add: pull_def insertRedisInboxMessages_def split_beta)
    then show ?thesis using False Inr by (auto simp: insert_eq insert_rows_eq o_def)
  qed
qed

lemma pull_exact_witness:
  "pull sampleEnv False ''q'' (Inr [''{0}'']) True 7 7 emptyIntake =
     (emptyIntake, Some \<lparr>pr_Empty = False, pr_Status = ''failed'', pr_InsertedRows = 0\<rparr>, Some PersistFailed)"
proof -
  have codec: "jsonCodec (env_unmarshal sampleEnv) (env_marshal sampleEnv)"
    using sample_jsonCodec by (simp add: sampleEnv_def)
  obtain s' res err where run:
    "pull sampleEnv False ''q'' (Inr [''{0}'']) True 7 7 emptyIntake = (s', Some res, err)"
    using projectMessages_eq [OF codec, of "[''{0}'']"]
    by (simp add: pull_def insertRedisInboxMessages_def)
  then show ?thesis
    using pull_exact [OF codec run] projectMessages_eq [OF codec, of "[''{0}'']"]
    by (auto simp: pull_def insertRedisInboxMessages_def)
qed

end
