(* ===== verification/Transactions.thy ===== *)
theory Transactions
  imports EventStore
begin

text \<open>
  The inserts of usage events statement by statement. A transaction body is a sequence of database
  statements, each of which works on the state the earlier ones left and may fail; \<open>transaction\<close> is
  gorm's \<open>Transaction\<close>: it keeps the changes when the body returns no error and takes the state from
  before the body when it does. Which statements stand inside the transaction is part of the
  definitions, so a write outside of it would survive the failure of a later one.
\<close>

section \<open>Statements and transactions\<close>

text \<open>
  The number of statements that still succeed is threaded through a run: \<open>None\<close> when none fails. What
  is returned is the number left, the state and an error or a result.
\<close>

type_synonym budget = "nat option"
type_synonym ('s, 'e, 'a) work = "budget \<Rightarrow> 's \<Rightarrow> budget \<times> 's \<times> ('e + 'a)"

definition statement :: "'e \<Rightarrow> ('s \<Rightarrow> 's \<times> 'a) \<Rightarrow> ('s, 'e, 'a) work" where
  "statement failure f n s =
     (if n = Some 0 then (n, s, Inl failure)
      else (map_option (\<lambda>k. k - 1) n, fst (f s), Inr (snd (f s))))"

definition finished :: "'a \<Rightarrow> ('s, 'e, 'a) work" where
  "finished x n s = (n, s, Inr x)"

definition followed :: "('s, 'e, 'a) work \<Rightarrow> ('a \<Rightarrow> ('s, 'e, 'b) work) \<Rightarrow> ('s, 'e, 'b) work" where
  "followed w k n s =
     (case w n s of
        (n', s', Inl err) \<Rightarrow> (n', s', Inl err)
      | (n', s', Inr x) \<Rightarrow> k x n' s')"

text \<open>The commit is a statement of its own.\<close>

definition transaction :: "'e \<Rightarrow> ('s, 'e, 'a) work \<Rightarrow> ('s, 'e, 'a) work" where
  "transaction failure body n s =
     (case followed body (\<lambda>x. statement failure (\<lambda>s'. (s', x))) n s of
        (n', s', Inl err) \<Rightarrow> (n', s, Inl err)
      | (n', s', Inr x) \<Rightarrow> (n', s', Inr x))"

section \<open>The statements of an insert\<close>

text \<open>The rows of the hourly rollups bind 32 columns.\<close>

definition rollupBatchSize :: nat where
  "rollupBatchSize = nat (insertBatchSize 32)"

text \<open>The keys of a batch that are stored, then its rows, \<open>ON CONFLICT (event_key) DO NOTHING\<close>.\<close>

definition loadExistingKeys :: "string list \<Rightarrow> (eventStore, storeError, string list) work" where
  "loadExistingKeys batchKeys =
     (if batchKeys = [] then finished []
      else statement StatementFailed
             (\<lambda>st. (st, map trimSpace (filter (\<lambda>k. k \<in> set batchKeys) (map ev_EventKey (st_events st))))))"

definition createEvents :: "usageEvent list \<Rightarrow> (eventStore, storeError, nat) work" where
  "createEvents batch =
     statement StatementFailed
       (\<lambda>st. (fold insertEvent batch st,
              length (st_events (fold insertEvent batch st)) - length (st_events st)))"

definition insertBatchTx ::
  "usageEvent list \<Rightarrow> string list \<times> nat \<Rightarrow> (eventStore, storeError, string list \<times> nat) work" where
  "insertBatchTx batch acc =
     (case acc of (affectedEventKeys, inserted) \<Rightarrow>
       let batchKeys = filter (\<lambda>k. k \<noteq> []) (map (\<lambda>e. trimSpace (ev_EventKey e)) batch)
       in followed (loadExistingKeys batchKeys) (\<lambda>existingKeys.
          followed (createEvents batch) (\<lambda>rowsAffected.
          finished
            ((if 0 < rowsAffected
              then affectedEventKeys @ filter (\<lambda>k. k \<notin> set existingKeys) batchKeys
              else affectedEventKeys),
             inserted + rowsAffected))))"

fun insertBatchesTx ::
  "usageEvent list list \<Rightarrow> string list \<times> nat \<Rightarrow> (eventStore, storeError, string list \<times> nat) work" where
  "insertBatchesTx [] acc = finished acc"
| "insertBatchesTx (batch # rest) acc = followed (insertBatchTx batch acc) (insertBatchesTx rest)"

fun upsertBatchesTx :: "(rollupKey \<times> hourlyRollup) list list \<Rightarrow> (eventStore, storeError, unit) work" where
  "upsertBatchesTx [] = finished ()"
| "upsertBatchesTx (batch # rest) =
     followed (statement StatementFailed (\<lambda>st. (st\<lparr>st_rollups := fold upsertRollup batch (st_rollups st)\<rparr>, ())))
       (\<lambda>_. upsertBatchesTx rest)"

definition incrementUsageRollupsTx :: "usageEvent list \<Rightarrow> (eventStore, storeError, unit) work" where
  "incrementUsageRollupsTx events =
     (if events = [] then finished ()
      else upsertBatchesTx (batches rollupBatchSize (buildUsageRollupsForEvents events)))"

definition insertBody :: "usageEvent list \<Rightarrow> (eventStore, storeError, nat) work" where
  "insertBody stated =
     followed (insertBatchesTx (batches usageEventBatchSize stated) ([], 0)) (\<lambda>(affectedEventKeys, inserted).
       if affectedEventKeys = [] then finished inserted
       else followed (statement StatementFailed
                (\<lambda>st. (st, filter (\<lambda>e. ev_EventKey e \<in> set affectedEventKeys) (st_events st))))
              (\<lambda>affectedEvents. followed (incrementUsageRollupsTx affectedEvents) (\<lambda>_. finished inserted)))"

definition insertUsageEventsTx ::
  "usageEvent list \<Rightarrow> (eventStore, storeError, nat \<times> nat) work" where
  "insertUsageEventsTx events n st =
     (if events = [] then (n, st, Inr (0, 0))
      else case stateEvents events of
        Inl err \<Rightarrow> (n, st, Inl err)
      | Inr stated \<Rightarrow>
          followed (transaction StatementFailed (insertBody stated))
            (\<lambda>inserted. finished (inserted, length events - inserted)) n st)"

section \<open>Runs with a failing statement\<close>

text \<open>
  A work has a fixed number of statements from a state, and fails exactly when fewer succeed: then
  with the given error, else with the outcome of the run in which none fails.
\<close>

definition counted :: "'e \<Rightarrow> ('s, 'e, 'a) work \<Rightarrow> bool" where
  "counted failure w \<longleftrightarrow>
     (\<forall>s. \<exists>c s' x. w None s = (None, s', Inr x) \<and>
        (\<forall>k. c \<le> k \<longrightarrow> w (Some k) s = (Some (k - c), s', Inr x)) \<and>
        (\<forall>k. k < c \<longrightarrow> (\<exists>s''. w (Some k) s = (Some 0, s'', Inl failure))))"

lemma countedE:
  assumes "counted failure w"
  obtains c s' x where "w None s = (None, s', Inr x)"
    "\<And>k. c \<le> k \<Longrightarrow> w (Some k) s = (Some (k - c), s', Inr x)"
    "\<And>k. k < c \<Longrightarrow> \<exists>s''. w (Some k) s = (Some 0, s'', Inl failure)"
  using assms unfolding counted_def by metis

named_theorems counted_intros

lemma counted_statement [counted_intros]: "counted failure (statement failure f)"
  unfolding counted_def
proof
  fix s
  show "\<exists>c s' x. statement failure f None s = (None, s', Inr x) \<and>
      (\<forall>k. c \<le> k \<longrightarrow> statement failure f (Some k) s = (Some (k - c), s', Inr x)) \<and>
      (\<forall>k. k < c \<longrightarrow> (\<exists>s''. statement failure f (Some k) s = (Some 0, s'', Inl failure)))"
    by (rule exI [of _ 1]) (auto simp: statement_def)
qed

lemma counted_finished [counted_intros]: "counted failure (finished x)"
  unfolding counted_def by (auto simp: finished_def intro: exI [of _ 0])

lemma counted_followed [counted_intros]:
  assumes w: "counted failure w" and k: "\<And>x. counted failure (k x)"
  shows "counted failure (followed w k)"
  unfolding counted_def
proof
  fix s
  obtain c s1 x where 1: "w None s = (None, s1, Inr x)"
      "\<And>n. c \<le> n \<Longrightarrow> w (Some n) s = (Some (n - c), s1, Inr x)"
      "\<And>n. n < c \<Longrightarrow> \<exists>s''. w (Some n) s = (Some 0, s'', Inl failure)"
    using countedE [OF w] by metis
  obtain d s2 y where 2: "k x None s1 = (None, s2, Inr y)"
      "\<And>n. d \<le> n \<Longrightarrow> k x (Some n) s1 = (Some (n - d), s2, Inr y)"
      "\<And>n. n < d \<Longrightarrow> \<exists>s''. k x (Some n) s1 = (Some 0, s'', Inl failure)"
    using countedE [OF k] by metis
  have more: "followed w k (Some n) s = (Some (n - (c + d)), s2, Inr y)" if "c + d \<le> n" for n
    using that 1(2) [of n] 2(2) [of "n - c"] by (simp add: followed_def)
  have less: "\<exists>s''. followed w k (Some n) s = (Some 0, s'', Inl failure)" if "n < c + d" for n
  proof (cases "n < c")
    case True
    then show ?thesis using 1(3) [of n] by (auto simp: followed_def)
  next
    case False
    then show ?thesis using that 1(2) [of n] 2(3) [of "n - c"] by (auto simp: followed_def)
  qed
  show "\<exists>c s' x. followed w k None s = (None, s', Inr x) \<and>
      (\<forall>n. c \<le> n \<longrightarrow> followed w k (Some n) s = (Some (n - c), s', Inr x)) \<and>
      (\<forall>n. n < c \<longrightarrow> (\<exists>s''. followed w k (Some n) s = (Some 0, s'', Inl failure)))"
    using 1(1) 2(1) more less by (intro exI [of _ "c + d"] exI [of _ s2] exI [of _ y]) (simp add: followed_def)
qed

text \<open>A transaction commits the outcome of its body or leaves the state as it was.\<close>

lemma transaction_cases:
  assumes "counted failure body"
  shows "\<exists>c s' x. 0 < c \<and> body None s = (None, s', Inr x) \<and>
    transaction failure body None s = (None, s', Inr x) \<and>
    (\<forall>k. transaction failure body (Some k) s =
       (if k < c then (Some 0, s, Inl failure) else (Some (k - c), s', Inr x)))"
proof -
  obtain c s' x where 1: "body None s = (None, s', Inr x)"
      "\<And>n. c \<le> n \<Longrightarrow> body (Some n) s = (Some (n - c), s', Inr x)"
      "\<And>n. n < c \<Longrightarrow> \<exists>s''. body (Some n) s = (Some 0, s'', Inl failure)"
    using countedE [OF assms] by metis
  have "transaction failure body (Some k) s =
      (if k < Suc c then (Some 0, s, Inl failure) else (Some (k - Suc c), s', Inr x))" for k
  proof (cases "k < c")
    case True
    then show ?thesis using 1(3) [of k] by (auto simp: transaction_def followed_def)
  next
    case False
    then show ?thesis using 1(2) [of k] by (auto simp: transaction_def followed_def statement_def)
  qed
  then show ?thesis
    using 1(1) by (intro exI [of _ "Suc c"] exI [of _ s'] exI [of _ x])
      (simp add: transaction_def followed_def statement_def)
qed

section \<open>The run in which no statement fails\<close>

named_theorems run_simps

lemma finished_run [run_simps]: "finished x n s = (n, s, Inr x)"
  by (simp add: finished_def)

lemma statement_run [run_simps]: "statement failure f None s = (None, fst (f s), Inr (snd (f s)))"
  by (simp add: statement_def)

lemma insertBatchTx_run:
  "insertBatchTx batch (affected, inserted) None st =
     (case insertBatch batch (st, affected, inserted) of
        (st', affected', inserted') \<Rightarrow> (None, st', Inr (affected', inserted')))"
  by (auto simp: insertBatchTx_def insertBatch_def loadExistingKeys_def createEvents_def followed_def
      run_simps Let_def)

lemma insertBatchesTx_run:
  "insertBatchesTx bs (affected, inserted) None st =
     (case fold insertBatch bs (st, affected, inserted) of
        (st', affected', inserted') \<Rightarrow> (None, st', Inr (affected', inserted')))"
proof (induction bs arbitrary: affected inserted st)
  case (Cons b bs)
  obtain st1 affected1 inserted1 where "insertBatch b (st, affected, inserted) = (st1, affected1, inserted1)"
    by (cases "insertBatch b (st, affected, inserted)")
  then show ?case using Cons.IH by (simp add: followed_def insertBatchTx_run)
qed (simp add: run_simps)

lemma upsertBatchesTx_run:
  "upsertBatchesTx bs None st = (None, st\<lparr>st_rollups := fold upsertRollup (concat bs) (st_rollups st)\<rparr>, Inr ())"
  by (induction bs arbitrary: st) (simp_all add: followed_def run_simps)

lemma rollupBatchSize_pos: "0 < rollupBatchSize"
  using insertBatchSize_pos [of 32] by (simp add: rollupBatchSize_def)

lemma incrementTx_run:
  "incrementUsageRollupsTx events None st =
     (None, st\<lparr>st_rollups := incrementUsageRollupsForEvents events (st_rollups st)\<rparr>, Inr ())"
  using rollupBatchSize_pos
  by (simp add: incrementUsageRollupsTx_def incrementUsageRollupsForEvents_def upsertBatchesTx_run run_simps)

lemma insertBody_run:
  assumes "events \<noteq> []" "stateEvents events = Inr stated" "insertBody stated None st = (None, st', Inr inserted)"
  shows "insertUsageEvents False events st = (st', Inr (inserted, length events - inserted))"
proof -
  obtain st1 affected ins where acc:
    "fold insertBatch (batches usageEventBatchSize stated) (st, [], 0) = (st1, affected, ins)"
    by (cases "fold insertBatch (batches usageEventBatchSize stated) (st, [], 0)")
  show ?thesis
    using assms acc
    by (auto simp: insertBody_def insertUsageEvents_def followed_def insertBatchesTx_run incrementTx_run
        run_simps Let_def split: if_splits)
qed

section \<open>Every statement is counted\<close>

lemma counted_insertBatch [counted_intros]: "counted StatementFailed (insertBatchTx batch acc)"
  by (auto simp: insertBatchTx_def loadExistingKeys_def createEvents_def Let_def split: prod.split
      intro!: counted_intros)

lemma counted_insertBatches [counted_intros]: "counted StatementFailed (insertBatchesTx bs acc)"
  by (induction bs arbitrary: acc) (auto intro!: counted_intros)

lemma counted_upserts [counted_intros]: "counted StatementFailed (upsertBatchesTx bs)"
  by (induction bs) (auto intro!: counted_intros)

lemma counted_increment [counted_intros]: "counted StatementFailed (incrementUsageRollupsTx events)"
  by (auto simp: incrementUsageRollupsTx_def intro!: counted_intros)

lemma counted_insertBody: "counted StatementFailed (insertBody stated)"
  by (auto simp: insertBody_def split: prod.split intro!: counted_intros)

section \<open>Property\<close>

text \<open>
  C9. All or nothing, statement by statement. Let the loads of the stored keys, the inserts of the
  batches, the load of the affected events, the upserts of the rollup batches and the commit of an
  insert run one after the other on the changing database, with the first \<open>n\<close> of them succeeding
  and the next one failing: then the store is as before the call and the error is reported,
  whichever of them it is; with \<open>n\<close> at least the number \<open>c\<close> of statements, or none failing, the
  outcome is that of \<open>insertUsageEvents False\<close>. So the flag of \<open>insertUsageEvents\<close>, by which the other
  theories say that some statement fails, loses nothing. A batch with an event that fails validation runs no
  statement and changes nothing, and every other batch that is not empty runs at least one.
\<close>

theorem insertUsageEvents_atomic:
  "\<exists>c. (\<forall>n. snd (insertUsageEventsTx events (Some n) st) =
           (if n < c then (st, Inl StatementFailed) else insertUsageEvents False events st) \<and>
         snd (insertUsageEventsTx events (Some n) st) = insertUsageEvents (n < c) events st) \<and>
     snd (insertUsageEventsTx events None st) = insertUsageEvents False events st \<and>
     (0 < c \<longleftrightarrow> events \<noteq> [] \<and> (\<forall>e \<in> set events. \<not> refused e)) \<and>
     ((\<exists>e \<in> set events. refused e) \<longrightarrow> (\<exists>err. insertUsageEvents False events st = (st, Inl err)))"
proof (cases "events \<noteq> [] \<and> (\<forall>e \<in> set events. \<not> refused e)")
  case False
  then have "snd (insertUsageEventsTx events n st) = insertUsageEvents False events st" for n
    using stateEvents_Inr [of events]
    by (cases "stateEvents events") (auto simp: insertUsageEventsTx_def insertUsageEvents_def)
  then show ?thesis
    using False insert_refused [of _ events False st] by (intro exI [of _ 0]) auto
next
  case True
  define stated where "stated = map statedEvent events"
  have ok: "stateEvents events = Inr stated" using True by (simp add: stateEvents_Inr stated_def)
  obtain c st' inserted where run: "0 < c" "insertBody stated None st = (None, st', Inr inserted)"
      "transaction StatementFailed (insertBody stated) None st = (None, st', Inr inserted)"
      "\<And>k. transaction StatementFailed (insertBody stated) (Some k) st =
         (if k < c then (Some 0, st, Inl StatementFailed) else (Some (k - c), st', Inr inserted))"
    using transaction_cases [OF counted_insertBody [of stated], of st] by blast
  have flawless: "insertUsageEvents False events st = (st', Inr (inserted, length events - inserted))"
    using True by (intro insertBody_run [OF _ ok run(2)]) simp
  have fault: "insertUsageEvents True events st = (st, Inl StatementFailed)"
    using True by (simp add: insertUsageEvents_def ok)
  show ?thesis
    using True run by (intro exI [of _ c]) (auto simp: insertUsageEventsTx_def ok flawless fault followed_def run_simps)
qed

lemma insertUsageEvents_atomic_witness:
  "snd (insertUsageEventsTx [sampleEvent] (Some 0) emptyStore) = (emptyStore, Inl StatementFailed)"
proof -
  have "\<not> refused sampleEvent" using sampleEvent_input by simp
  then show ?thesis
    using insertUsageEvents_atomic [where events = "[sampleEvent]" and st = emptyStore] by auto
qed

end
