(* ===== verification/Pricing.thy ===== *)
theory Pricing
  imports Accounting Tables "HOL-Library.Multiset" "HOL-Library.List_Lexorder" "HOL-Library.Char_ord"
begin

text \<open>
  The price settings: the table and its operations (\<open>repository/pricing.go\<close>,
  \<open>loadPriceSettingsByModel\<close> of \<open>repository/usage.go\<close>) and the service on top of them
  (\<open>service/pricing_service.go\<close>). Names are ordered by their bytes, as Go and SQLite order them. The
  CPA endpoint that lists the models is a parameter.
\<close>

section \<open>Operations\<close>

type_synonym priceTable = "modelPriceSetting table"

text \<open>The trimmed, non-empty names of a list, each once, in the order of their first occurrence.\<close>

definition keepName :: "string \<Rightarrow> string list \<Rightarrow> string list" where
  "keepName name cleaned =
     (let t = trimSpace name in if t = [] \<or> t \<in> set cleaned then cleaned else cleaned @ [t])"

definition cleanNames :: "string list \<Rightarrow> string list" where
  "cleanNames names = fold keepName names []"

definition listUsedModels :: "usageEvent list \<Rightarrow> string list" where
  "listUsedModels events =
     sort (cleanNames (sort (remdups (filter (\<lambda>m. sqlTrim m \<noteq> []) (map ev_Model events)))))"

definition listModelPriceSettings :: "priceTable \<Rightarrow> modelPriceSetting list" where
  "listModelPriceSettings t = sort_key mp_Model (map snd (tbl_rows t))"

definition loadPriceSettingsByModel :: "priceTable \<Rightarrow> string \<rightharpoonup> modelPriceSetting" where
  "loadPriceSettingsByModel t =
     fold (\<lambda>s result. result(trimSpace (mp_Model s) \<mapsto> s)) (listModelPriceSettings t) Map.empty"

datatype pricingError = ModelRequired | PricesMustBeNonNegative | ModelNotUsed string

text \<open>\<open>First\<close> reads the row with the smallest key; \<open>Save\<close> updates it, or inserts a new one.\<close>

definition upsertModelPriceSetting ::
  "modelPriceSetting \<Rightarrow> priceTable \<Rightarrow> priceTable \<times> (pricingError + modelPriceSetting)" where
  "upsertModelPriceSetting input t =
     (let modelName = trimSpace (mp_Model input)
      in if modelName = [] then (t, Inl ModelRequired)
         else
           let setting = input\<lparr>mp_Model := modelName\<rparr>
           in case selectWhere (\<lambda>_ r. mp_Model r = modelName) t of
                [] \<Rightarrow> (insertRows [setting] t, Inr setting)
              | (i, _) # _ \<Rightarrow> (updateWhere (\<lambda>j _. j = i) (\<lambda>_ _. setting) t, Inr setting))"

definition deleteModelPriceSetting :: "string \<Rightarrow> priceTable \<Rightarrow> priceTable \<times> pricingError option" where
  "deleteModelPriceSetting model t =
     (let modelName = trimSpace model
      in if modelName = [] then (t, Some ModelRequired)
         else (deleteWhere (\<lambda>_ r. mp_Model r = modelName) t, None))"

text \<open>
  What \<open>FetchModels\<close> answers: an error, or a result, \<open>None\<close> being the nil result; without a fetcher
  there is no answer.
\<close>

definition normalizeCPAModels :: "string list option \<Rightarrow> string list" where
  "normalizeCPAModels result = (case result of None \<Rightarrow> [] | Some ids \<Rightarrow> sort (cleanNames ids))"

definition effectiveModels :: "(unit + string list option) option \<Rightarrow> usageEvent list \<Rightarrow> string list" where
  "effectiveModels fetched events =
     (case fetched of
        None \<Rightarrow> listUsedModels events
      | Some (Inl _) \<Rightarrow> listUsedModels events
      | Some (Inr result) \<Rightarrow> normalizeCPAModels result)"

definition updatePricing ::
  "string list \<Rightarrow> modelPriceSetting \<Rightarrow> priceTable \<Rightarrow> priceTable \<times> (pricingError + modelPriceSetting)" where
  "updatePricing usedModels input t =
     (let modelName = trimSpace (mp_Model input)
      in if modelName = [] then (t, Inl ModelRequired)
         else if mp_PromptPricePer1M input < 0 \<or> mp_CompletionPricePer1M input < 0
           \<or> mp_CachePricePer1M input < 0
         then (t, Inl PricesMustBeNonNegative)
         else if modelName \<notin> set usedModels then (t, Inl (ModelNotUsed modelName))
         else upsertModelPriceSetting (input\<lparr>mp_Model := modelName\<rparr>) t)"

definition deletePricing :: "string \<Rightarrow> priceTable \<Rightarrow> priceTable \<times> pricingError option" where
  "deletePricing model t = deleteModelPriceSetting model t"

section \<open>Lemmas\<close>

lemma fold_keepName:
  "distinct acc \<Longrightarrow> distinct (fold keepName names acc)"
  "set (fold keepName names acc) = set acc \<union> (trimSpace ` set names - {[]})"
  by (induction names arbitrary: acc) (auto simp: keepName_def Let_def)

lemma cleanNames_set: "set (cleanNames names) = trimSpace ` set names - {[]}"
  by (simp add: cleanNames_def fold_keepName)

lemma cleanNames_distinct: "distinct (cleanNames names)"
  by (simp add: cleanNames_def fold_keepName)

lemma effectiveModels_clean:
  "distinct (effectiveModels f es) \<and> sorted (effectiveModels f es) \<and>
   (\<forall>m \<in> set (effectiveModels f es). trimmed m \<and> m \<noteq> [])"
  by (auto simp: effectiveModels_def listUsedModels_def normalizeCPAModels_def cleanNames_distinct
      cleanNames_set split: option.split sum.split)

definition priceTableOK :: "priceTable \<Rightarrow> bool" where
  "priceTableOK t \<longleftrightarrow> tableOK t \<and> distinct (map (mp_Model \<circ> snd) (tbl_rows t)) \<and>
     (\<forall>s \<in> snd ` set (tbl_rows t). trimmed (mp_Model s) \<and> mp_Model s \<noteq> [] \<and>
        0 \<le> mp_PromptPricePer1M s \<and> 0 \<le> mp_CompletionPricePer1M s \<and> 0 \<le> mp_CachePricePer1M s)"

text \<open>The setting of a model, when its name is unique.\<close>

definition priceOf :: "priceTable \<Rightarrow> string \<Rightarrow> modelPriceSetting option" where
  "priceOf t m = find (\<lambda>s. mp_Model s = m) (map snd (tbl_rows t))"

lemma find_distinct:
  "distinct (map f xs) \<Longrightarrow> find (\<lambda>x. f x = k) xs = Some x \<longleftrightarrow> x \<in> set xs \<and> f x = k"
proof (induction xs)
  case (Cons y ys)
  then show ?case by (cases "f y = k") (force simp: image_iff)+
qed simp

lemma fold_upd_map:
  assumes "distinct (map g xs)"
  shows "fold (\<lambda>s m. m(g s \<mapsto> s)) xs m0 k = (case find (\<lambda>s. g s = k) xs of None \<Rightarrow> m0 k | Some s \<Rightarrow> Some s)"
  using assms
proof (induction xs arbitrary: m0)
  case (Cons x xs)
  have "g x = k \<Longrightarrow> find (\<lambda>s. g s = k) xs = None"
    using Cons.prems by (auto simp: find_None_iff) (metis image_eqI)
  with Cons show ?case by (simp split: option.split)
qed simp

lemma load_priceOf:
  assumes "priceTableOK t"
  shows "loadPriceSettingsByModel t m = priceOf t m"
proof -
  let ?rows = "map snd (tbl_rows t)"
  have d: "distinct (map mp_Model ?rows)" and tr: "\<forall>s \<in> set ?rows. trimSpace (mp_Model s) = mp_Model s"
    using assms by (auto simp: priceTableOK_def trimSpace_id)
  have set: "set (listModelPriceSettings t) = set ?rows" by (simp add: listModelPriceSettings_def)
  have "mset (map mp_Model (listModelPriceSettings t)) = mset (map mp_Model ?rows)"
    unfolding listModelPriceSettings_def mset_map mset_sort by (rule refl)
  then have d': "distinct (map mp_Model (listModelPriceSettings t))"
    using d by (metis mset_eq_imp_distinct_iff)
  have same: "map (\<lambda>s. trimSpace (mp_Model s)) (listModelPriceSettings t) = map mp_Model (listModelPriceSettings t)"
    using tr set by (intro map_cong) auto
  have "loadPriceSettingsByModel t m = find (\<lambda>s. trimSpace (mp_Model s) = m) (listModelPriceSettings t)"
    unfolding loadPriceSettingsByModel_def
    by (subst fold_upd_map) (simp_all add: same d' split: option.split)
  also have "\<dots> = find (\<lambda>s. mp_Model s = m) (listModelPriceSettings t)"
    using tr set by (intro find_cong) auto
  also have "\<dots> = find (\<lambda>s. mp_Model s = m) ?rows"
    by (rule option_eqI) (simp only: find_distinct [OF d'] find_distinct [OF d] set)
  finally show ?thesis by (simp add: priceOf_def)
qed

lemma priceOf_Some:
  "priceTableOK t \<Longrightarrow> priceOf t m = Some s \<longleftrightarrow> s \<in> snd ` set (tbl_rows t) \<and> mp_Model s = m"
  using find_distinct [of mp_Model "map snd (tbl_rows t)" m s] by (simp add: priceTableOK_def priceOf_def)

lemma priceOf_eqI:
  assumes "priceTableOK t" "priceTableOK t'"
    "\<And>s. s \<in> snd ` set (tbl_rows t') \<and> mp_Model s = m \<longleftrightarrow> s \<in> snd ` set (tbl_rows t) \<and> mp_Model s = m"
  shows "priceOf t' m = priceOf t m"
  by (rule option_eqI) (simp only: priceOf_Some [OF assms(1)] priceOf_Some [OF assms(2)] assms(3))

definition settingOK :: "modelPriceSetting \<Rightarrow> bool" where
  "settingOK s \<longleftrightarrow> trimmed (mp_Model s) \<and> mp_Model s \<noteq> [] \<and>
     0 \<le> mp_PromptPricePer1M s \<and> 0 \<le> mp_CompletionPricePer1M s \<and> 0 \<le> mp_CachePricePer1M s"

lemma distinct_map_update:
  assumes "distinct (map f xs)" "\<And>x. x \<in> set xs \<Longrightarrow> f (g x) = f x"
  shows "distinct (map f (map g xs))"
proof -
  have "map f (map g xs) = map f xs" using assms(2) by simp
  with assms(1) show ?thesis by (simp only:)
qed

text \<open>Writing a setting under its trimmed name.\<close>

lemma upsert_ok:
  assumes ok: "priceTableOK t" and s: "settingOK (input\<lparr>mp_Model := trimSpace (mp_Model input)\<rparr>)"
    and m: "trimSpace (mp_Model input) \<noteq> []"
  shows "\<exists>t'. upsertModelPriceSetting input t = (t', Inr (input\<lparr>mp_Model := trimSpace (mp_Model input)\<rparr>)) \<and>
    priceTableOK t' \<and>
    (\<forall>n. priceOf t' n = (if n = trimSpace (mp_Model input)
       then Some (input\<lparr>mp_Model := trimSpace (mp_Model input)\<rparr>) else priceOf t n))"
proof -
  define name where "name = trimSpace (mp_Model input)"
  define new where "new = input\<lparr>mp_Model := name\<rparr>"
  have new: "mp_Model new = name" "settingOK new" using s by (simp_all add: new_def name_def)
  have tab: "tableOK t" "distinct (map (mp_Model \<circ> snd) (tbl_rows t))"
    and rows: "\<forall>x \<in> snd ` set (tbl_rows t). settingOK x"
    using ok by (auto simp: priceTableOK_def settingOK_def)
  show ?thesis
  proof (cases "selectWhere (\<lambda>_ r. mp_Model r = name) t")
    case Nil
    then have fresh: "\<forall>x \<in> set (tbl_rows t). mp_Model (snd x) \<noteq> name"
      by (auto simp: selectWhere_def filter_empty_conv)
    let ?t = "insertRows [new] t"
    have rows': "tbl_rows ?t = tbl_rows t @ [(tbl_next t, new)]"
      by (simp add: insertRows_def newRows_def)
    have ok': "priceTableOK ?t"
      using tab rows new fresh insertRows_ok [OF tab(1), of "[new]"]
      by (auto simp: priceTableOK_def rows' settingOK_def)
    have "priceOf ?t n = (if n = name then Some new else priceOf t n)" for n
    proof (cases "n = name")
      case True
      then show ?thesis using new(1) by (simp add: priceOf_Some [OF ok'] rows')
    next
      case False
      then have "priceOf ?t n = priceOf t n"
        using new(1) by (intro priceOf_eqI [OF ok ok']) (auto simp: rows')
      with False show ?thesis by simp
    qed
    moreover have "upsertModelPriceSetting input t = (?t, Inr new)"
      using m Nil by (simp add: upsertModelPriceSetting_def Let_def name_def new_def)
    ultimately show ?thesis using ok' by (auto simp: name_def new_def)
  next
    case (Cons ir rest)
    obtain i old where ir: "ir = (i, old)" by (cases ir)
    then have "(i, old) \<in> set (selectWhere (\<lambda>_ r. mp_Model r = name) t)" using Cons by simp
    then have mem: "(i, old) \<in> set (tbl_rows t)" "mp_Model old = name" by (auto simp: selectWhere_def)
    have only: "(j = i) = (mp_Model r = name)" if "(j, r) \<in> set (tbl_rows t)" for j r
    proof
      assume "j = i"
      then have "r = old" using that mem(1) tableOK_distinct [OF tab(1)] by (metis eq_key_imp_eq_value)
      then show "mp_Model r = name" using mem(2) by simp
    next
      assume "mp_Model r = name"
      then show "j = i" using that mem tab(2) by (force simp: distinct_map inj_on_def)
    qed
    let ?t = "updateWhere (\<lambda>j _. j = i) (\<lambda>_ _. new) t"
    let ?f = "\<lambda>(j, r). (j, if j = i then new else r)"
    have rows': "tbl_rows ?t = map ?f (tbl_rows t)" by (simp add: updateWhere_def)
    have keep: "(mp_Model \<circ> snd) (?f x) = (mp_Model \<circ> snd) x" if x: "x \<in> set (tbl_rows t)" for x
    proof -
      obtain j r where jr: "x = (j, r)" by (cases x)
      show ?thesis using only [OF x [unfolded jr]] new(1) by (simp add: jr)
    qed
    have ok': "priceTableOK ?t"
      using tab rows new(2) updateWhere_ok [OF tab(1)]
        distinct_map_update [of "mp_Model \<circ> snd" "tbl_rows t" ?f, OF tab(2) keep]
      by (auto simp: priceTableOK_def rows' settingOK_def split: if_splits)
    have "priceOf ?t n = (if n = name then Some new else priceOf t n)" for n
    proof (cases "n = name")
      case True
      then show ?thesis using new(1) mem(1) by (force simp: priceOf_Some [OF ok'] rows' image_iff)
    next
      case False
      have "x \<in> snd ` set (tbl_rows ?t) \<and> mp_Model x = n \<longleftrightarrow> x \<in> snd ` set (tbl_rows t) \<and> mp_Model x = n" for x
        using False only new(1) by (force simp: rows' image_iff)
      then have "priceOf ?t n = priceOf t n" by (intro priceOf_eqI [OF ok ok'])
      with False show ?thesis by simp
    qed
    moreover have "upsertModelPriceSetting input t = (?t, Inr new)"
      using m Cons ir by (simp add: upsertModelPriceSetting_def Let_def name_def new_def)
    ultimately show ?thesis using ok' by (auto simp: name_def new_def)
  qed
qed

lemma delete_ok:
  assumes ok: "priceTableOK t" and m: "trimSpace model \<noteq> []"
  shows "\<exists>t'. deleteModelPriceSetting model t = (t', None) \<and> priceTableOK t' \<and>
    (\<forall>n. priceOf t' n = (if n = trimSpace model then None else priceOf t n))"
proof -
  let ?t = "deleteWhere (\<lambda>_ r. mp_Model r = trimSpace model) t"
  have rows: "set (tbl_rows ?t) = {(i, r). (i, r) \<in> set (tbl_rows t) \<and> mp_Model r \<noteq> trimSpace model}"
    by (auto simp: deleteWhere_def)
  have "distinct (map (mp_Model \<circ> snd) (tbl_rows ?t))"
    using ok by (simp add: deleteWhere_def priceTableOK_def distinct_map_filter)
  then have ok': "priceTableOK ?t"
    using ok deleteWhere_ok [of t] by (auto simp: priceTableOK_def rows)
  have "priceOf ?t n = (if n = trimSpace model then None else priceOf t n)" for n
  proof (cases "n = trimSpace model")
    case True
    then have "priceOf ?t n \<noteq> Some s" for s by (simp add: priceOf_Some [OF ok'] rows image_iff)
    with True show ?thesis by (cases "priceOf ?t n") simp_all
  next
    case False
    then have "priceOf ?t n = priceOf t n"
      by (intro priceOf_eqI [OF ok ok']) (force simp: rows image_iff)
    with False show ?thesis by simp
  qed
  with ok' m show ?thesis by (simp add: deleteModelPriceSetting_def Let_def)
qed

section \<open>Properties\<close>

text \<open>
  C18. A price update is accepted exactly for a used model and non-negative prices. When it is, the
  table stays well formed (trimmed, non-empty, unique names, no negative price) and reads back, by
  model, the given prices for the trimmed name and the old ones for every other name; when it is
  not, nothing changes. Deleting a named model forgets exactly that model.
\<close>

theorem pricing_exact:
  assumes "priceTableOK t" "\<forall>m \<in> set usedModels. trimmed m \<and> m \<noteq> []"
  shows "(case updatePricing usedModels input t of
      (t', Inr setting) \<Rightarrow>
         trimSpace (mp_Model input) \<in> set usedModels \<and>
         setting = input\<lparr>mp_Model := trimSpace (mp_Model input)\<rparr> \<and> priceTableOK t' \<and>
         loadPriceSettingsByModel t' = (loadPriceSettingsByModel t)(mp_Model setting \<mapsto> setting)
    | (t', Inl err) \<Rightarrow> t' = t \<and>
         (trimSpace (mp_Model input) \<notin> set usedModels \<or> mp_PromptPricePer1M input < 0 \<or>
          mp_CompletionPricePer1M input < 0 \<or> mp_CachePricePer1M input < 0)) \<and>
    (case deletePricing model t of
      (t', None) \<Rightarrow> priceTableOK t' \<and>
         loadPriceSettingsByModel t' = (loadPriceSettingsByModel t)(trimSpace model := None)
    | (t', Some err) \<Rightarrow> t' = t \<and> trimSpace model = [])"
proof -
  let ?name = "trimSpace (mp_Model input)"
  have del: "case deletePricing model t of
      (t', None) \<Rightarrow> priceTableOK t' \<and>
         loadPriceSettingsByModel t' = (loadPriceSettingsByModel t)(trimSpace model := None)
    | (t', Some err) \<Rightarrow> t' = t \<and> trimSpace model = []"
  proof (cases "trimSpace model = []")
    case True
    then show ?thesis by (simp add: deletePricing_def deleteModelPriceSetting_def)
  next
    case False
    from delete_ok [OF assms(1) this] obtain t' where t': "deleteModelPriceSetting model t = (t', None)"
        "priceTableOK t'" "\<forall>n. priceOf t' n = (if n = trimSpace model then None else priceOf t n)"
      by (elim exE conjE)
    have "loadPriceSettingsByModel t' = (loadPriceSettingsByModel t)(trimSpace model := None)"
      by (rule ext) (simp add: load_priceOf [OF assms(1)] load_priceOf [OF t'(2)] t'(3))
    with t'(1,2) show ?thesis by (simp add: deletePricing_def)
  qed
  show ?thesis
  proof (cases "?name \<in> set usedModels \<and> 0 \<le> mp_PromptPricePer1M input \<and>
      0 \<le> mp_CompletionPricePer1M input \<and> 0 \<le> mp_CachePricePer1M input")
    case True
    then have name: "?name \<noteq> []" using assms(2) by blast
    let ?new = "input\<lparr>mp_Model := ?name\<rparr>"
    have "settingOK (?new\<lparr>mp_Model := trimSpace (mp_Model ?new)\<rparr>)"
      using True name by (simp add: settingOK_def)
    from upsert_ok [OF assms(1) this] name obtain t' where up:
      "upsertModelPriceSetting ?new t = (t', Inr ?new)" "priceTableOK t'"
      "\<forall>n. priceOf t' n = (if n = ?name then Some ?new else priceOf t n)" by auto
    have "loadPriceSettingsByModel t' = (loadPriceSettingsByModel t)(?name \<mapsto> ?new)"
      by (rule ext) (simp add: load_priceOf [OF assms(1)] load_priceOf [OF up(2)] up(3))
    moreover have "updatePricing usedModels input t = (t', Inr ?new)"
      using True name up(1) by (simp add: updatePricing_def Let_def)
    ultimately show ?thesis using del True up(2) by simp
  next
    case False
    then have "fst (updatePricing usedModels input t) = t" "\<exists>err. snd (updatePricing usedModels input t) = Inl err"
      using assms(2) by (auto simp: updatePricing_def Let_def)
    with False del show ?thesis by (auto split: prod.splits)
  qed
qed

definition samplePrice :: modelPriceSetting where
  "samplePrice = \<lparr>mp_Model = '' m '', mp_PromptPricePer1M = 3, mp_CompletionPricePer1M = 5,
     mp_CachePricePer1M = 1\<rparr>"

lemma pricing_exact_witness:
  "snd (updatePricing [''m''] samplePrice emptyTable) = Inr (samplePrice\<lparr>mp_Model := ''m''\<rparr>) \<and>
   loadPriceSettingsByModel (fst (updatePricing [''m''] samplePrice emptyTable)) ''m'' =
     Some (samplePrice\<lparr>mp_Model := ''m''\<rparr>)"
proof -
  have ok: "priceTableOK emptyTable" by (simp add: priceTableOK_def) (simp add: emptyTable_def)
  have tr: "trimSpace '' m '' = ''m''" by code_simp
  have names: "\<forall>m \<in> set [''m'']. trimmed m \<and> m \<noteq> []" by (simp add: trimmed_def ws_seqs_def)
  have run: "snd (updatePricing [''m''] samplePrice emptyTable) = Inr (samplePrice\<lparr>mp_Model := ''m''\<rparr>)"
    by (simp add: updatePricing_def upsertModelPriceSetting_def samplePrice_def tr Let_def emptyTable_def
        selectWhere_def trimSpace_id names)
  then obtain t' where e: "updatePricing [''m''] samplePrice emptyTable = (t', Inr (samplePrice\<lparr>mp_Model := ''m''\<rparr>))"
    by (metis prod.collapse)
  have "loadPriceSettingsByModel t' = (loadPriceSettingsByModel emptyTable)(mp_Model (samplePrice\<lparr>mp_Model := ''m''\<rparr>) \<mapsto>
      samplePrice\<lparr>mp_Model := ''m''\<rparr>)"
    using conjunct1 [OF pricing_exact [OF ok names, of samplePrice "''m''"]]
    unfolding e prod.case sum.case by (elim conjE)
  then show ?thesis by (simp add: e)
qed

end
