(* ===== verification/AnalyticsRows.thy ===== *)
theory AnalyticsRows
  imports Rollups Pricing
begin

text \<open>
  The aggregation both analytics sources share: the result row (\<open>repository/analytics_rows.go\<close>) and its
  addition (\<open>analytics_core.go\<close>), the SQL expressions over prices (\<open>analytics_sql.go\<close>), the columns
  of the two sources and the select that is rendered for either of them
  (\<open>analytics_aggregate_source.go\<close>). A SQL expression over a row is a function of the row; \<open>SUM\<close>
  over a group is the sum of its values. The \<open>Bucket\<close> column of the row is the key of the trend's
  map and kept apart.
\<close>

section \<open>The result row\<close>

record analyticsAggregateRow =
  ag_RequestCount :: i64
  ag_SuccessCount :: i64
  ag_FailureCount :: i64
  ag_InputTokens :: i64
  ag_OutputTokens :: i64
  ag_TotalTokens :: i64
  ag_TotalCost :: float64
  ag_CachedTokens :: i64
  ag_CacheReadTokens :: i64
  ag_CacheReadObservedInputTokens :: i64
  ag_ReasoningTokens :: i64
  ag_CacheSavings :: float64
  ag_CacheSavingsEligibleRows :: i64
  ag_CacheSavingsIneligibleRows :: i64
  ag_MissingPricingEvents :: i64
  ag_PricedBillableEvents :: i64
  ag_AccountingAbsentAttempts :: i64
  ag_AccountingValidAttempts :: i64
  ag_AccountingValidCompleteAttempts :: i64
  ag_AccountingValidInconsistentAttempts :: i64
  ag_AccountingValidUnclassifiedAttempts :: i64
  ag_CanonicalTotalTokens :: i64
  ag_CanonicalInputTokens :: i64
  ag_CanonicalUncachedTokens :: i64
  ag_CanonicalCacheReadTokens :: i64
  ag_CanonicalCacheWriteTokens :: i64
  ag_CanonicalOutputTokens :: i64
  ag_CanonicalNonReasoningTokens :: i64
  ag_CanonicalReasoningTokens :: i64
  ag_CanonicalUnclassifiedTokens :: i64

definition zeroAggregateRow :: analyticsAggregateRow where
  "zeroAggregateRow =
     \<lparr>ag_RequestCount = 0,
      ag_SuccessCount = 0,
      ag_FailureCount = 0,
      ag_InputTokens = 0,
      ag_OutputTokens = 0,
      ag_TotalTokens = 0,
      ag_TotalCost = 0,
      ag_CachedTokens = 0,
      ag_CacheReadTokens = 0,
      ag_CacheReadObservedInputTokens = 0,
      ag_ReasoningTokens = 0,
      ag_CacheSavings = 0,
      ag_CacheSavingsEligibleRows = 0,
      ag_CacheSavingsIneligibleRows = 0,
      ag_MissingPricingEvents = 0,
      ag_PricedBillableEvents = 0,
      ag_AccountingAbsentAttempts = 0,
      ag_AccountingValidAttempts = 0,
      ag_AccountingValidCompleteAttempts = 0,
      ag_AccountingValidInconsistentAttempts = 0,
      ag_AccountingValidUnclassifiedAttempts = 0,
      ag_CanonicalTotalTokens = 0,
      ag_CanonicalInputTokens = 0,
      ag_CanonicalUncachedTokens = 0,
      ag_CanonicalCacheReadTokens = 0,
      ag_CanonicalCacheWriteTokens = 0,
      ag_CanonicalOutputTokens = 0,
      ag_CanonicalNonReasoningTokens = 0,
      ag_CanonicalReasoningTokens = 0,
      ag_CanonicalUnclassifiedTokens = 0\<rparr>"

definition addAnalyticsAggregateRow ::
  "analyticsAggregateRow \<Rightarrow> analyticsAggregateRow \<Rightarrow> analyticsAggregateRow" where
  "addAnalyticsAggregateRow dst src =
     \<lparr>ag_RequestCount = ag_RequestCount dst + ag_RequestCount src,
      ag_SuccessCount = ag_SuccessCount dst + ag_SuccessCount src,
      ag_FailureCount = ag_FailureCount dst + ag_FailureCount src,
      ag_InputTokens = ag_InputTokens dst + ag_InputTokens src,
      ag_OutputTokens = ag_OutputTokens dst + ag_OutputTokens src,
      ag_TotalTokens = ag_TotalTokens dst + ag_TotalTokens src,
      ag_TotalCost = ag_TotalCost dst + ag_TotalCost src,
      ag_CachedTokens = ag_CachedTokens dst + ag_CachedTokens src,
      ag_CacheReadTokens = ag_CacheReadTokens dst + ag_CacheReadTokens src,
      ag_CacheReadObservedInputTokens = ag_CacheReadObservedInputTokens dst + ag_CacheReadObservedInputTokens src,
      ag_ReasoningTokens = ag_ReasoningTokens dst + ag_ReasoningTokens src,
      ag_CacheSavings = ag_CacheSavings dst + ag_CacheSavings src,
      ag_CacheSavingsEligibleRows = ag_CacheSavingsEligibleRows dst + ag_CacheSavingsEligibleRows src,
      ag_CacheSavingsIneligibleRows = ag_CacheSavingsIneligibleRows dst + ag_CacheSavingsIneligibleRows src,
      ag_MissingPricingEvents = ag_MissingPricingEvents dst + ag_MissingPricingEvents src,
      ag_PricedBillableEvents = ag_PricedBillableEvents dst + ag_PricedBillableEvents src,
      ag_AccountingAbsentAttempts = ag_AccountingAbsentAttempts dst + ag_AccountingAbsentAttempts src,
      ag_AccountingValidAttempts = ag_AccountingValidAttempts dst + ag_AccountingValidAttempts src,
      ag_AccountingValidCompleteAttempts = ag_AccountingValidCompleteAttempts dst + ag_AccountingValidCompleteAttempts src,
      ag_AccountingValidInconsistentAttempts = ag_AccountingValidInconsistentAttempts dst + ag_AccountingValidInconsistentAttempts src,
      ag_AccountingValidUnclassifiedAttempts = ag_AccountingValidUnclassifiedAttempts dst + ag_AccountingValidUnclassifiedAttempts src,
      ag_CanonicalTotalTokens = ag_CanonicalTotalTokens dst + ag_CanonicalTotalTokens src,
      ag_CanonicalInputTokens = ag_CanonicalInputTokens dst + ag_CanonicalInputTokens src,
      ag_CanonicalUncachedTokens = ag_CanonicalUncachedTokens dst + ag_CanonicalUncachedTokens src,
      ag_CanonicalCacheReadTokens = ag_CanonicalCacheReadTokens dst + ag_CanonicalCacheReadTokens src,
      ag_CanonicalCacheWriteTokens = ag_CanonicalCacheWriteTokens dst + ag_CanonicalCacheWriteTokens src,
      ag_CanonicalOutputTokens = ag_CanonicalOutputTokens dst + ag_CanonicalOutputTokens src,
      ag_CanonicalNonReasoningTokens = ag_CanonicalNonReasoningTokens dst + ag_CanonicalNonReasoningTokens src,
      ag_CanonicalReasoningTokens = ag_CanonicalReasoningTokens dst + ag_CanonicalReasoningTokens src,
      ag_CanonicalUnclassifiedTokens = ag_CanonicalUnclassifiedTokens dst + ag_CanonicalUnclassifiedTokens src\<rparr>"

abbreviation sumRows :: "analyticsAggregateRow list \<Rightarrow> analyticsAggregateRow" where
  "sumRows \<equiv> totalRows addAnalyticsAggregateRow zeroAggregateRow"

interpretation aggRow: row_sum addAnalyticsAggregateRow zeroAggregateRow
proof
  fix a b c :: analyticsAggregateRow
  show "addAnalyticsAggregateRow (addAnalyticsAggregateRow a b) c =
      addAnalyticsAggregateRow a (addAnalyticsAggregateRow b c)"
    by (simp add: addAnalyticsAggregateRow_def add.assoc)
  show "addAnalyticsAggregateRow a b = addAnalyticsAggregateRow b a"
    by (simp add: addAnalyticsAggregateRow_def add.commute)
  show "addAnalyticsAggregateRow zeroAggregateRow a = a"
    by (simp add: addAnalyticsAggregateRow_def zeroAggregateRow_def)
qed

section \<open>SQL expressions over prices\<close>

text \<open>The second argument is the joined price setting; \<open>None\<close> is the row of NULLs.\<close>

definition analyticsPositiveToken :: "i64 \<Rightarrow> i64" where
  "analyticsPositiveToken column = (if 0 <s column then column else 0)"

definition perMillion :: "i64 \<Rightarrow> float64" where
  "perMillion tokens = of_int (sint tokens) / 1000000"

definition analyticsCostWithPromptTokens ::
  "i64 \<Rightarrow> i64 \<Rightarrow> i64 \<Rightarrow> modelPriceSetting option \<Rightarrow> float64" where
  "analyticsCostWithPromptTokens promptTokens outputTokens cachedTokens price =
     (case price of
        None \<Rightarrow> 0
      | Some p \<Rightarrow> perMillion promptTokens * mp_PromptPricePer1M p
          + perMillion outputTokens * mp_CompletionPricePer1M p
          + perMillion cachedTokens * mp_CachePricePer1M p)"

definition cacheCheaper :: "modelPriceSetting option \<Rightarrow> bool" where
  "cacheCheaper price =
     (case price of None \<Rightarrow> False | Some p \<Rightarrow> mp_PromptPricePer1M p \<ge> mp_CachePricePer1M p)"

definition analyticsCacheSavings :: "i64 \<Rightarrow> modelPriceSetting option \<Rightarrow> float64" where
  "analyticsCacheSavings cachedColumn price =
     (let cachedTokens = analyticsPositiveToken cachedColumn
      in case price of
           None \<Rightarrow> 0
         | Some p \<Rightarrow>
             if 0 <s cachedTokens \<and> mp_PromptPricePer1M p \<ge> mp_CachePricePer1M p
             then perMillion cachedTokens * (mp_PromptPricePer1M p - mp_CachePricePer1M p) else 0)"

definition analyticsCacheSavingsEligible :: "i64 \<Rightarrow> i64 \<Rightarrow> modelPriceSetting option \<Rightarrow> i64" where
  "analyticsCacheSavingsEligible cachedColumn countExpression price =
     (if 0 <s analyticsPositiveToken cachedColumn \<and> cacheCheaper price then countExpression else 0)"

definition analyticsCacheSavingsIneligible :: "i64 \<Rightarrow> i64 \<Rightarrow> modelPriceSetting option \<Rightarrow> i64" where
  "analyticsCacheSavingsIneligible cachedColumn countExpression price =
     (if 0 <s analyticsPositiveToken cachedColumn \<and>
         (case price of None \<Rightarrow> True | Some p \<Rightarrow> mp_PromptPricePer1M p < mp_CachePricePer1M p)
      then countExpression else 0)"

definition analyticsPricedBillable :: "i64 \<Rightarrow> i64 \<Rightarrow> modelPriceSetting option \<Rightarrow> i64" where
  "analyticsPricedBillable completeCount completeZeroCount price =
     (if price \<noteq> None then completeCount else completeZeroCount)"

definition analyticsMissingPricing :: "i64 \<Rightarrow> i64 \<Rightarrow> i64 \<Rightarrow> modelPriceSetting option \<Rightarrow> i64" where
  "analyticsMissingPricing countExpression completeCount completeZeroCount price =
     countExpression - (if price \<noteq> None then completeCount else completeZeroCount)"

section \<open>The two sources\<close>

record sourceRow =
  sr_Instant :: instant
  sr_Provider :: string
  sr_Model :: string
  sr_RequestCount :: i64
  sr_SuccessSum :: i64
  sr_FailureSum :: i64
  sr_InputTokens :: i64
  sr_OutputTokens :: i64
  sr_ReasoningTokens :: i64
  sr_CachedTokens :: i64
  sr_CacheReadTokens :: i64
  sr_CacheReadObservedInputTokens :: i64
  sr_TotalTokens :: i64
  sr_CompleteAttempts :: i64
  sr_CompleteZeroAttempts :: i64
  sr_CompletePromptTokens :: i64
  sr_CompleteCacheReadTokens :: i64
  sr_CompleteOutputTokens :: i64
  sr_LatencySum :: i64
  sr_LatencyCount :: i64
  sr_StateAttempts :: "string \<Rightarrow> i64"
  sr_ValidQualityAttempts :: "string \<Rightarrow> i64"
  sr_UncachedTokens :: i64
  sr_CacheWriteTokens :: i64
  sr_NonReasoningTokens :: i64
  sr_UnclassifiedTokens :: i64

text \<open>\<open>CASE WHEN P THEN COALESCE(column, 0) ELSE 0 END\<close> on one event.\<close>

definition whenTokens :: "(usageEvent \<Rightarrow> bool) \<Rightarrow> (usageAccounting \<Rightarrow> i64 option) \<Rightarrow> usageEvent \<Rightarrow> i64" where
  "whenTokens P column e = (if P e then optionalInt64Value (column (ev_UsageAccounting e)) else 0)"

definition when1 :: "bool \<Rightarrow> i64" where
  "when1 P = (if P then 1 else 0)"

definition analyticsEventsAggregateSource :: "usageEvent \<Rightarrow> sourceRow" where
  "analyticsEventsAggregateSource e =
     (let validToken = (\<lambda>column. whenTokens sqlValid column e);
          completeToken = (\<lambda>column. whenTokens (sqlQuality ''complete'') column e)
      in \<lparr>sr_Instant = ev_Timestamp e,
          sr_Provider = sqlTrim (ev_Provider e),
          sr_Model = sqlTrim (ev_Model e),
          sr_RequestCount = 1,
          sr_SuccessSum = (if ev_Failed e then 0 else 1),
          sr_FailureSum = (if ev_Failed e then 1 else 0),
          sr_InputTokens = validToken ua_InputTokens,
          sr_OutputTokens = validToken ua_OutputTokens,
          sr_ReasoningTokens = validToken ua_ReasoningTokens,
          sr_CachedTokens = validToken ua_CacheReadTokens,
          sr_CacheReadTokens = validToken ua_CacheReadTokens,
          sr_CacheReadObservedInputTokens = validToken ua_InputTokens,
          sr_TotalTokens = validToken ua_TotalTokens,
          sr_CompleteAttempts = when1 (sqlQuality ''complete'' e),
          sr_CompleteZeroAttempts = when1 (sqlQuality ''complete'' e \<and>
            coalesced ua_UncachedTokens e + coalesced ua_CacheWriteTokens e = 0 \<and>
            coalesced ua_CacheReadTokens e = 0 \<and> coalesced ua_OutputTokens e = 0),
          sr_CompletePromptTokens = completeToken ua_UncachedTokens + completeToken ua_CacheWriteTokens,
          sr_CompleteCacheReadTokens = completeToken ua_CacheReadTokens,
          sr_CompleteOutputTokens = completeToken ua_OutputTokens,
          sr_LatencySum = (if 0 <s ev_LatencyMS e then ev_LatencyMS e else 0),
          sr_LatencyCount = (if 0 <s ev_LatencyMS e then 1 else 0),
          sr_StateAttempts = (\<lambda>state. when1 (ua_AccountingState (ev_UsageAccounting e) = state)),
          sr_ValidQualityAttempts = (\<lambda>quality. when1 (sqlQuality quality e)),
          sr_UncachedTokens = validToken ua_UncachedTokens,
          sr_CacheWriteTokens = validToken ua_CacheWriteTokens,
          sr_NonReasoningTokens = validToken ua_NonReasoningTokens,
          sr_UnclassifiedTokens = validToken ua_UnclassifiedTokens\<rparr>)"

definition analyticsRollupsAggregateSource :: "rollupKey \<times> hourlyRollup \<Rightarrow> sourceRow" where
  "analyticsRollupsAggregateSource kr =
     (case kr of (k, r) \<Rightarrow>
        \<lparr>sr_Instant = rk_BucketStart k,
         sr_Provider = sqlTrim (rk_Provider k),
         sr_Model = sqlTrim (rk_Model k),
         sr_RequestCount = hr_RequestCount r,
         sr_SuccessSum = hr_SuccessCount r,
         sr_FailureSum = hr_FailureCount r,
         sr_InputTokens = hr_InputTokens r,
         sr_OutputTokens = hr_OutputTokens r,
         sr_ReasoningTokens = hr_ReasoningTokens r,
         sr_CachedTokens = hr_CacheReadTokens r,
         sr_CacheReadTokens = hr_CacheReadTokens r,
         sr_CacheReadObservedInputTokens = hr_InputTokens r,
         sr_TotalTokens = hr_TotalTokens r,
         sr_CompleteAttempts = hr_AccountingValidCompleteAttempts r,
         sr_CompleteZeroAttempts = hr_CompleteZeroAttempts r,
         sr_CompletePromptTokens = hr_CompletePromptTokens r,
         sr_CompleteCacheReadTokens = hr_CompleteCacheReadTokens r,
         sr_CompleteOutputTokens = hr_CompleteOutputTokens r,
         sr_LatencySum = hr_TotalLatencyMS r,
         sr_LatencyCount = hr_LatencySampleCount r,
         sr_StateAttempts = (\<lambda>state. if state = AccountingAbsent then hr_AccountingAbsentAttempts r
           else hr_AccountingValidAttempts r),
         sr_ValidQualityAttempts = (\<lambda>quality.
           if quality = ''complete'' then hr_AccountingValidCompleteAttempts r
           else if quality = ''inconsistent'' then hr_AccountingValidInconsistentAttempts r
           else hr_AccountingValidUnclassifiedAttempts r),
         sr_UncachedTokens = hr_UncachedTokens r,
         sr_CacheWriteTokens = hr_CacheWriteTokens r,
         sr_NonReasoningTokens = hr_NonReasoningTokens r,
         sr_UnclassifiedTokens = hr_UnclassifiedTokens r\<rparr>)"

section \<open>The select\<close>

text \<open>What one joined row contributes to the columns of the summary.\<close>

definition analyticsSummarySelect :: "sourceRow \<Rightarrow> modelPriceSetting option \<Rightarrow> analyticsAggregateRow" where
  "analyticsSummarySelect s price =
     \<lparr>ag_RequestCount = sr_RequestCount s,
      ag_SuccessCount = sr_SuccessSum s,
      ag_FailureCount = sr_FailureSum s,
      ag_InputTokens = analyticsPositiveToken (sr_InputTokens s),
      ag_OutputTokens = analyticsPositiveToken (sr_OutputTokens s),
      ag_TotalTokens = sr_TotalTokens s,
      ag_TotalCost = analyticsCostWithPromptTokens (sr_CompletePromptTokens s)
        (sr_CompleteOutputTokens s) (sr_CompleteCacheReadTokens s) price,
      ag_CachedTokens = analyticsPositiveToken (sr_CachedTokens s),
      ag_CacheReadTokens = analyticsPositiveToken (sr_CacheReadTokens s),
      ag_CacheReadObservedInputTokens = analyticsPositiveToken (sr_CacheReadObservedInputTokens s),
      ag_ReasoningTokens = analyticsPositiveToken (sr_ReasoningTokens s),
      ag_CacheSavings = analyticsCacheSavings (sr_CompleteCacheReadTokens s) price,
      ag_CacheSavingsEligibleRows =
        analyticsCacheSavingsEligible (sr_CompleteCacheReadTokens s) (sr_CompleteAttempts s) price,
      ag_CacheSavingsIneligibleRows =
        analyticsCacheSavingsIneligible (sr_CompleteCacheReadTokens s) (sr_CompleteAttempts s) price,
      ag_MissingPricingEvents =
        analyticsMissingPricing (sr_RequestCount s) (sr_CompleteAttempts s) (sr_CompleteZeroAttempts s) price,
      ag_PricedBillableEvents =
        analyticsPricedBillable (sr_CompleteAttempts s) (sr_CompleteZeroAttempts s) price,
      ag_AccountingAbsentAttempts = sr_StateAttempts s AccountingAbsent,
      ag_AccountingValidAttempts = sr_StateAttempts s AccountingValid,
      ag_AccountingValidCompleteAttempts = sr_ValidQualityAttempts s ''complete'',
      ag_AccountingValidInconsistentAttempts = sr_ValidQualityAttempts s ''inconsistent'',
      ag_AccountingValidUnclassifiedAttempts = sr_ValidQualityAttempts s ''unclassified'',
      ag_CanonicalTotalTokens = sr_TotalTokens s,
      ag_CanonicalInputTokens = sr_InputTokens s,
      ag_CanonicalUncachedTokens = sr_UncachedTokens s,
      ag_CanonicalCacheReadTokens = sr_CacheReadTokens s,
      ag_CanonicalCacheWriteTokens = sr_CacheWriteTokens s,
      ag_CanonicalOutputTokens = sr_OutputTokens s,
      ag_CanonicalNonReasoningTokens = sr_NonReasoningTokens s,
      ag_CanonicalReasoningTokens = sr_ReasoningTokens s,
      ag_CanonicalUnclassifiedTokens = sr_UnclassifiedTokens s\<rparr>"

text \<open>\<open>LEFT JOIN model_price_settings ON TRIM(model_price_settings.model) = TRIM(model)\<close>.\<close>

definition joinPrices :: "modelPriceSetting list \<Rightarrow> sourceRow \<Rightarrow> modelPriceSetting option list" where
  "joinPrices settings s =
     (case filter (\<lambda>p. sqlTrim (mp_Model p) = sr_Model s) settings of
        [] \<Rightarrow> [None]
      | ps \<Rightarrow> map Some ps)"

definition selectRows :: "modelPriceSetting list \<Rightarrow> sourceRow list \<Rightarrow> analyticsAggregateRow list" where
  "selectRows settings rows =
     concat (map (\<lambda>s. map (analyticsSummarySelect s) (joinPrices settings s)) rows)"

end
