(* ===== verification/AnalyticsSums.thy ===== *)
theory AnalyticsSums
  imports AnalyticsRows
begin

text \<open>
  Both sources give the same sums: what the select makes of a rollup row is the sum of what it makes
  of the events of its group, but for the two counters of cache savings, which count attempts of the
  row and not of the event. Those are only ever compared with zero, and agree there.
\<close>

section \<open>Columns of a sum\<close>

lemma zero_columns [simp]:
  "ag_RequestCount zeroAggregateRow = 0"
  "ag_SuccessCount zeroAggregateRow = 0"
  "ag_FailureCount zeroAggregateRow = 0"
  "ag_InputTokens zeroAggregateRow = 0"
  "ag_OutputTokens zeroAggregateRow = 0"
  "ag_TotalTokens zeroAggregateRow = 0"
  "ag_TotalCost zeroAggregateRow = 0"
  "ag_CachedTokens zeroAggregateRow = 0"
  "ag_CacheReadTokens zeroAggregateRow = 0"
  "ag_CacheReadObservedInputTokens zeroAggregateRow = 0"
  "ag_ReasoningTokens zeroAggregateRow = 0"
  "ag_CacheSavings zeroAggregateRow = 0"
  "ag_CacheSavingsEligibleRows zeroAggregateRow = 0"
  "ag_CacheSavingsIneligibleRows zeroAggregateRow = 0"
  "ag_MissingPricingEvents zeroAggregateRow = 0"
  "ag_PricedBillableEvents zeroAggregateRow = 0"
  "ag_AccountingAbsentAttempts zeroAggregateRow = 0"
  "ag_AccountingValidAttempts zeroAggregateRow = 0"
  "ag_AccountingValidCompleteAttempts zeroAggregateRow = 0"
  "ag_AccountingValidInconsistentAttempts zeroAggregateRow = 0"
  "ag_AccountingValidUnclassifiedAttempts zeroAggregateRow = 0"
  "ag_CanonicalTotalTokens zeroAggregateRow = 0"
  "ag_CanonicalInputTokens zeroAggregateRow = 0"
  "ag_CanonicalUncachedTokens zeroAggregateRow = 0"
  "ag_CanonicalCacheReadTokens zeroAggregateRow = 0"
  "ag_CanonicalCacheWriteTokens zeroAggregateRow = 0"
  "ag_CanonicalOutputTokens zeroAggregateRow = 0"
  "ag_CanonicalNonReasoningTokens zeroAggregateRow = 0"
  "ag_CanonicalReasoningTokens zeroAggregateRow = 0"
  "ag_CanonicalUnclassifiedTokens zeroAggregateRow = 0"
  by (simp_all add: zeroAggregateRow_def)

lemma add_columns [simp]:
  "ag_RequestCount (addAnalyticsAggregateRow a b) = ag_RequestCount a + ag_RequestCount b"
  "ag_SuccessCount (addAnalyticsAggregateRow a b) = ag_SuccessCount a + ag_SuccessCount b"
  "ag_FailureCount (addAnalyticsAggregateRow a b) = ag_FailureCount a + ag_FailureCount b"
  "ag_InputTokens (addAnalyticsAggregateRow a b) = ag_InputTokens a + ag_InputTokens b"
  "ag_OutputTokens (addAnalyticsAggregateRow a b) = ag_OutputTokens a + ag_OutputTokens b"
  "ag_TotalTokens (addAnalyticsAggregateRow a b) = ag_TotalTokens a + ag_TotalTokens b"
  "ag_TotalCost (addAnalyticsAggregateRow a b) = ag_TotalCost a + ag_TotalCost b"
  "ag_CachedTokens (addAnalyticsAggregateRow a b) = ag_CachedTokens a + ag_CachedTokens b"
  "ag_CacheReadTokens (addAnalyticsAggregateRow a b) = ag_CacheReadTokens a + ag_CacheReadTokens b"
  "ag_CacheReadObservedInputTokens (addAnalyticsAggregateRow a b) = ag_CacheReadObservedInputTokens a + ag_CacheReadObservedInputTokens b"
  "ag_ReasoningTokens (addAnalyticsAggregateRow a b) = ag_ReasoningTokens a + ag_ReasoningTokens b"
  "ag_CacheSavings (addAnalyticsAggregateRow a b) = ag_CacheSavings a + ag_CacheSavings b"
  "ag_CacheSavingsEligibleRows (addAnalyticsAggregateRow a b) = ag_CacheSavingsEligibleRows a + ag_CacheSavingsEligibleRows b"
  "ag_CacheSavingsIneligibleRows (addAnalyticsAggregateRow a b) = ag_CacheSavingsIneligibleRows a + ag_CacheSavingsIneligibleRows b"
  "ag_MissingPricingEvents (addAnalyticsAggregateRow a b) = ag_MissingPricingEvents a + ag_MissingPricingEvents b"
  "ag_PricedBillableEvents (addAnalyticsAggregateRow a b) = ag_PricedBillableEvents a + ag_PricedBillableEvents b"
  "ag_AccountingAbsentAttempts (addAnalyticsAggregateRow a b) = ag_AccountingAbsentAttempts a + ag_AccountingAbsentAttempts b"
  "ag_AccountingValidAttempts (addAnalyticsAggregateRow a b) = ag_AccountingValidAttempts a + ag_AccountingValidAttempts b"
  "ag_AccountingValidCompleteAttempts (addAnalyticsAggregateRow a b) = ag_AccountingValidCompleteAttempts a + ag_AccountingValidCompleteAttempts b"
  "ag_AccountingValidInconsistentAttempts (addAnalyticsAggregateRow a b) = ag_AccountingValidInconsistentAttempts a + ag_AccountingValidInconsistentAttempts b"
  "ag_AccountingValidUnclassifiedAttempts (addAnalyticsAggregateRow a b) = ag_AccountingValidUnclassifiedAttempts a + ag_AccountingValidUnclassifiedAttempts b"
  "ag_CanonicalTotalTokens (addAnalyticsAggregateRow a b) = ag_CanonicalTotalTokens a + ag_CanonicalTotalTokens b"
  "ag_CanonicalInputTokens (addAnalyticsAggregateRow a b) = ag_CanonicalInputTokens a + ag_CanonicalInputTokens b"
  "ag_CanonicalUncachedTokens (addAnalyticsAggregateRow a b) = ag_CanonicalUncachedTokens a + ag_CanonicalUncachedTokens b"
  "ag_CanonicalCacheReadTokens (addAnalyticsAggregateRow a b) = ag_CanonicalCacheReadTokens a + ag_CanonicalCacheReadTokens b"
  "ag_CanonicalCacheWriteTokens (addAnalyticsAggregateRow a b) = ag_CanonicalCacheWriteTokens a + ag_CanonicalCacheWriteTokens b"
  "ag_CanonicalOutputTokens (addAnalyticsAggregateRow a b) = ag_CanonicalOutputTokens a + ag_CanonicalOutputTokens b"
  "ag_CanonicalNonReasoningTokens (addAnalyticsAggregateRow a b) = ag_CanonicalNonReasoningTokens a + ag_CanonicalNonReasoningTokens b"
  "ag_CanonicalReasoningTokens (addAnalyticsAggregateRow a b) = ag_CanonicalReasoningTokens a + ag_CanonicalReasoningTokens b"
  "ag_CanonicalUnclassifiedTokens (addAnalyticsAggregateRow a b) = ag_CanonicalUnclassifiedTokens a + ag_CanonicalUnclassifiedTokens b"
  by (simp_all add: addAnalyticsAggregateRow_def)

lemma sumRows_columns:
  "ag_RequestCount (sumRows rs) = (\<Sum>r\<leftarrow>rs. ag_RequestCount r)"
  "ag_SuccessCount (sumRows rs) = (\<Sum>r\<leftarrow>rs. ag_SuccessCount r)"
  "ag_FailureCount (sumRows rs) = (\<Sum>r\<leftarrow>rs. ag_FailureCount r)"
  "ag_InputTokens (sumRows rs) = (\<Sum>r\<leftarrow>rs. ag_InputTokens r)"
  "ag_OutputTokens (sumRows rs) = (\<Sum>r\<leftarrow>rs. ag_OutputTokens r)"
  "ag_TotalTokens (sumRows rs) = (\<Sum>r\<leftarrow>rs. ag_TotalTokens r)"
  "ag_TotalCost (sumRows rs) = (\<Sum>r\<leftarrow>rs. ag_TotalCost r)"
  "ag_CachedTokens (sumRows rs) = (\<Sum>r\<leftarrow>rs. ag_CachedTokens r)"
  "ag_CacheReadTokens (sumRows rs) = (\<Sum>r\<leftarrow>rs. ag_CacheReadTokens r)"
  "ag_CacheReadObservedInputTokens (sumRows rs) = (\<Sum>r\<leftarrow>rs. ag_CacheReadObservedInputTokens r)"
  "ag_ReasoningTokens (sumRows rs) = (\<Sum>r\<leftarrow>rs. ag_ReasoningTokens r)"
  "ag_CacheSavings (sumRows rs) = (\<Sum>r\<leftarrow>rs. ag_CacheSavings r)"
  "ag_CacheSavingsEligibleRows (sumRows rs) = (\<Sum>r\<leftarrow>rs. ag_CacheSavingsEligibleRows r)"
  "ag_CacheSavingsIneligibleRows (sumRows rs) = (\<Sum>r\<leftarrow>rs. ag_CacheSavingsIneligibleRows r)"
  "ag_MissingPricingEvents (sumRows rs) = (\<Sum>r\<leftarrow>rs. ag_MissingPricingEvents r)"
  "ag_PricedBillableEvents (sumRows rs) = (\<Sum>r\<leftarrow>rs. ag_PricedBillableEvents r)"
  "ag_AccountingAbsentAttempts (sumRows rs) = (\<Sum>r\<leftarrow>rs. ag_AccountingAbsentAttempts r)"
  "ag_AccountingValidAttempts (sumRows rs) = (\<Sum>r\<leftarrow>rs. ag_AccountingValidAttempts r)"
  "ag_AccountingValidCompleteAttempts (sumRows rs) = (\<Sum>r\<leftarrow>rs. ag_AccountingValidCompleteAttempts r)"
  "ag_AccountingValidInconsistentAttempts (sumRows rs) = (\<Sum>r\<leftarrow>rs. ag_AccountingValidInconsistentAttempts r)"
  "ag_AccountingValidUnclassifiedAttempts (sumRows rs) = (\<Sum>r\<leftarrow>rs. ag_AccountingValidUnclassifiedAttempts r)"
  "ag_CanonicalTotalTokens (sumRows rs) = (\<Sum>r\<leftarrow>rs. ag_CanonicalTotalTokens r)"
  "ag_CanonicalInputTokens (sumRows rs) = (\<Sum>r\<leftarrow>rs. ag_CanonicalInputTokens r)"
  "ag_CanonicalUncachedTokens (sumRows rs) = (\<Sum>r\<leftarrow>rs. ag_CanonicalUncachedTokens r)"
  "ag_CanonicalCacheReadTokens (sumRows rs) = (\<Sum>r\<leftarrow>rs. ag_CanonicalCacheReadTokens r)"
  "ag_CanonicalCacheWriteTokens (sumRows rs) = (\<Sum>r\<leftarrow>rs. ag_CanonicalCacheWriteTokens r)"
  "ag_CanonicalOutputTokens (sumRows rs) = (\<Sum>r\<leftarrow>rs. ag_CanonicalOutputTokens r)"
  "ag_CanonicalNonReasoningTokens (sumRows rs) = (\<Sum>r\<leftarrow>rs. ag_CanonicalNonReasoningTokens r)"
  "ag_CanonicalReasoningTokens (sumRows rs) = (\<Sum>r\<leftarrow>rs. ag_CanonicalReasoningTokens r)"
  "ag_CanonicalUnclassifiedTokens (sumRows rs) = (\<Sum>r\<leftarrow>rs. ag_CanonicalUnclassifiedTokens r)"
  by (induction rs) simp_all

section \<open>Prices\<close>

definition priceAt :: "modelPriceSetting list \<Rightarrow> string \<Rightarrow> modelPriceSetting option" where
  "priceAt settings m = find (\<lambda>p. sqlTrim (mp_Model p) = m) settings"

definition uniquePrices :: "modelPriceSetting list \<Rightarrow> bool" where
  "uniquePrices settings \<longleftrightarrow> distinct (map (\<lambda>p. sqlTrim (mp_Model p)) settings)"

lemma filter_distinct_find:
  "distinct (map f xs) \<Longrightarrow> filter (\<lambda>x. f x = k) xs =
     (case find (\<lambda>x. f x = k) xs of None \<Rightarrow> [] | Some x \<Rightarrow> [x])"
proof (induction xs)
  case (Cons x xs)
  show ?case
  proof (cases "f x = k")
    case True
    then have "filter (\<lambda>x. f x = k) xs = []"
      using Cons.prems by (auto simp: filter_empty_conv) (metis image_eqI)
    with True show ?thesis by simp
  next
    case False
    with Cons show ?thesis by simp
  qed
qed simp

lemma joinPrices_unique:
  "uniquePrices settings \<Longrightarrow> joinPrices settings s = [priceAt settings (sr_Model s)]"
  by (simp add: joinPrices_def uniquePrices_def priceAt_def filter_distinct_find split: option.split)

lemma selectRows_unique:
  "uniquePrices settings \<Longrightarrow>
     selectRows settings rows = map (\<lambda>s. analyticsSummarySelect s (priceAt settings (sr_Model s))) rows"
  by (induction rows) (simp_all add: selectRows_def joinPrices_unique)

lemma priceTable_unique: "priceTableOK t \<Longrightarrow> uniquePrices (map snd (tbl_rows t))"
proof -
  assume ok: "priceTableOK t"
  then have "map (\<lambda>p. sqlTrim (mp_Model p)) (map snd (tbl_rows t)) = map (mp_Model \<circ> snd) (tbl_rows t)"
    by (auto simp: priceTableOK_def sqlTrim_trimmed)
  with ok show ?thesis unfolding uniquePrices_def by (simp only: priceTableOK_def)
qed

section \<open>Exact sums of token columns\<close>

text \<open>No sum of tokens, and no number of events, exceeds the 64-bit range.\<close>

definition fits :: "usageEvent list \<Rightarrow> bool" where
  "fits es \<longleftrightarrow> length es < 2 ^ 63 \<and>
     (\<Sum>e\<leftarrow>es. if sqlValid e then sint (coalesced ua_TotalTokens e) else 0) < 2 ^ 63"

definition columnOK :: "(usageEvent \<Rightarrow> bool) \<Rightarrow> (usageEvent \<Rightarrow> i64) \<Rightarrow> usageEvent list \<Rightarrow> bool" where
  "columnOK P f es \<longleftrightarrow> (\<forall>e \<in> set es. P e \<longrightarrow>
     sqlValid e \<and> 0 \<le> sint (f e) \<and> sint (f e) \<le> sint (coalesced ua_TotalTokens e))"

lemma stored_valid: "storedOK e \<Longrightarrow> sqlValid e \<Longrightarrow> accountingWellFormed (ev_UsageAccounting e)"
  by (simp add: storedOK_def sqlValid_def AccountingValid_def validate_None_iff)

lemma wellFormed_columns:
  assumes "accountingWellFormed f"
  shows "0 \<le> sint (optionalInt64Value (ua_InputTokens f))"
    "sint (optionalInt64Value (ua_InputTokens f)) \<le> sint (optionalInt64Value (ua_TotalTokens f))"
    "0 \<le> sint (optionalInt64Value (ua_OutputTokens f))"
    "sint (optionalInt64Value (ua_OutputTokens f)) \<le> sint (optionalInt64Value (ua_TotalTokens f))"
    "0 \<le> sint (optionalInt64Value (ua_ReasoningTokens f))"
    "sint (optionalInt64Value (ua_ReasoningTokens f)) \<le> sint (optionalInt64Value (ua_TotalTokens f))"
    "0 \<le> sint (optionalInt64Value (ua_CacheReadTokens f))"
    "sint (optionalInt64Value (ua_CacheReadTokens f)) \<le> sint (optionalInt64Value (ua_TotalTokens f))"
  using assms by (auto simp: accountingWellFormed_def accountingBuckets_def)

lemma wellFormed_prompt:
  assumes "accountingWellFormed f"
  shows "0 \<le> sint (optionalInt64Value (ua_UncachedTokens f) + optionalInt64Value (ua_CacheWriteTokens f))"
    "sint (optionalInt64Value (ua_UncachedTokens f) + optionalInt64Value (ua_CacheWriteTokens f))
       \<le> sint (optionalInt64Value (ua_TotalTokens f))"
proof -
  note v = wellFormed_values [OF assms] wellFormed_columns [OF assms]
  have "sint (optionalInt64Value (ua_UncachedTokens f) + optionalInt64Value (ua_CacheWriteTokens f)) =
      sint (optionalInt64Value (ua_UncachedTokens f)) + sint (optionalInt64Value (ua_CacheWriteTokens f))"
    using v sint_i64_bounds(2) [of "optionalInt64Value (ua_InputTokens f)"]
    by (intro sint_add_i64) linarith+
  then show "0 \<le> sint (optionalInt64Value (ua_UncachedTokens f) + optionalInt64Value (ua_CacheWriteTokens f))"
    "sint (optionalInt64Value (ua_UncachedTokens f) + optionalInt64Value (ua_CacheWriteTokens f))
       \<le> sint (optionalInt64Value (ua_TotalTokens f))"
    using v by linarith+
qed

abbreviation promptOf :: "usageEvent \<Rightarrow> i64" where
  "promptOf e \<equiv> coalesced ua_UncachedTokens e + coalesced ua_CacheWriteTokens e"

lemma columns_ok:
  assumes "\<forall>e \<in> set es. storedOK e"
  shows "columnOK sqlValid (coalesced ua_InputTokens) es" "columnOK sqlValid (coalesced ua_OutputTokens) es"
    "columnOK sqlValid (coalesced ua_ReasoningTokens) es" "columnOK sqlValid (coalesced ua_CacheReadTokens) es"
    "columnOK (sqlQuality ''complete'') (coalesced ua_CacheReadTokens) es"
    "columnOK (sqlQuality ''complete'') (coalesced ua_OutputTokens) es"
    "columnOK (sqlQuality ''complete'') promptOf es"
  using assms stored_valid wellFormed_columns wellFormed_prompt
  unfolding columnOK_def sqlQuality_def by blast+

lemma column_exact:
  assumes "columnOK P f es" "fits es" "\<forall>e \<in> set es. storedOK e"
  shows "sint (sumCase P f es) = (\<Sum>e\<leftarrow>es. sint (if P e then f e else 0))" "0 \<le> sint (sumCase P f es)"
proof -
  have eq: "(\<Sum>e\<leftarrow>es. sint (if P e then f e else 0)) = (\<Sum>e\<leftarrow>es. if P e then sint (f e) else 0)"
    by (intro arg_cong [where f = sum_list] map_cong) simp_all
  have "(if P e then sint (f e) else 0) \<le> (if sqlValid e then sint (coalesced ua_TotalTokens e) else 0)"
    if "e \<in> set es" for e
  proof -
    have "sqlValid e \<Longrightarrow> 0 \<le> sint (coalesced ua_TotalTokens e)"
      using assms(3) that wellFormed_columns(1,2) stored_valid order_trans by blast
    then show ?thesis using assms(1) that by (auto simp: columnOK_def)
  qed
  then have "(\<Sum>e\<leftarrow>es. if P e then sint (f e) else 0) \<le>
      (\<Sum>e\<leftarrow>es. if sqlValid e then sint (coalesced ua_TotalTokens e) else 0)"
    by (intro sum_list_mono)
  then have lt: "(\<Sum>e\<leftarrow>es. if P e then sint (f e) else 0) < 2 ^ 63" using assms(2) by (simp add: fits_def)
  have nn: "\<forall>e \<in> set es. P e \<longrightarrow> 0 \<le> sint (f e)" using assms(1) by (simp add: columnOK_def)
  show ex: "sint (sumCase P f es) = (\<Sum>e\<leftarrow>es. sint (if P e then f e else 0))"
    unfolding eq by (rule sumCase_exact [OF nn lt])
  show "0 \<le> sint (sumCase P f es)"
    unfolding ex eq using nn by (intro sum_list_nonneg) auto
qed

lemma stored_total_nonneg: "storedOK e \<Longrightarrow> sqlValid e \<Longrightarrow> 0 \<le> sint (coalesced ua_TotalTokens e)"
  using wellFormed_columns(1,2) [OF stored_valid [of e]] by linarith

lemma fits_append: "\<forall>e \<in> set (xs @ ys). storedOK e \<Longrightarrow> fits (xs @ ys) \<Longrightarrow> fits xs \<and> fits ys"
proof -
  assume ok: "\<forall>e \<in> set (xs @ ys). storedOK e" and fits: "fits (xs @ ys)"
  have "0 \<le> (\<Sum>e\<leftarrow>zs. if sqlValid e then sint (coalesced ua_TotalTokens e) else 0)"
    if "set zs \<subseteq> set (xs @ ys)" for zs
    using ok that stored_total_nonneg by (intro sum_list_nonneg) auto
  from this [of xs] this [of ys] fits show "fits xs \<and> fits ys" by (simp add: fits_def)
qed

lemma fits_perm: "mset xs = mset ys \<Longrightarrow> fits xs \<Longrightarrow> fits ys"
proof -
  assume m: "mset xs = mset ys" and "fits xs"
  moreover have "sum_list (map f xs) = sum_list (map f ys)" for f :: "usageEvent \<Rightarrow> int"
    using m by (metis mset_map sum_mset_sum_list)
  ultimately show "fits ys" using mset_eq_length [OF m] by (simp add: fits_def)
qed

lemma fits_filter:
  assumes "\<forall>e \<in> set es. storedOK e" "fits es"
  shows "fits (filter P es)"
proof -
  let ?xs = "filter P es" and ?ys = "filter (\<lambda>e. \<not> P e) es"
  have "mset es = mset (?xs @ ?ys)" by (metis mset_append mset_filter multiset_partition)
  then have "fits (?xs @ ?ys)" using assms(2) fits_perm by blast
  moreover have "\<forall>e \<in> set (?xs @ ?ys). storedOK e" using assms(1) by auto
  ultimately show ?thesis using fits_append by blast
qed

lemma positive_id: "0 \<le> sint w \<Longrightarrow> analyticsPositiveToken w = w"
  by (auto simp: analyticsPositiveToken_def i64_order i64_zero_iff)

section \<open>The select over one rollup row\<close>

text \<open>The row without the two counters of cache savings.\<close>

definition costly :: "analyticsAggregateRow \<Rightarrow> analyticsAggregateRow" where
  "costly r = r\<lparr>ag_CacheSavingsEligibleRows := 0, ag_CacheSavingsIneligibleRows := 0\<rparr>"

lemma costly_add: "costly (addAnalyticsAggregateRow a b) = addAnalyticsAggregateRow (costly a) (costly b)"
  by (simp add: costly_def addAnalyticsAggregateRow_def)

abbreviation eventSelect :: "modelPriceSetting option \<Rightarrow> usageEvent \<Rightarrow> analyticsAggregateRow" where
  "eventSelect price e \<equiv> analyticsSummarySelect (analyticsEventsAggregateSource e) price"

abbreviation groupSelect ::
  "modelPriceSetting option \<Rightarrow> rollupKey \<Rightarrow> usageEvent list \<Rightarrow> analyticsAggregateRow" where
  "groupSelect price k es \<equiv> analyticsSummarySelect (analyticsRollupsAggregateSource (k, sqlGroupRollup es)) price"

lemmas select_defs = analyticsSummarySelect_def analyticsEventsAggregateSource_def
  analyticsRollupsAggregateSource_def sqlGroupRollup_def Let_def

text \<open>The counters and the token columns.\<close>

lemma sum_positive:
  assumes "columnOK P f es"
  shows "(\<Sum>e\<leftarrow>es. analyticsPositiveToken (if P e then f e else 0)) = sumCase P f es"
  unfolding sumCase_def using assms
  by (intro arg_cong [where f = sum_list] map_cong) (auto simp: columnOK_def positive_id)

lemma group_counts:
  "ag_RequestCount (groupSelect p k es) = (\<Sum>e\<leftarrow>es. ag_RequestCount (eventSelect p e))"
  "ag_SuccessCount (groupSelect p k es) = (\<Sum>e\<leftarrow>es. ag_SuccessCount (eventSelect p e))"
  "ag_FailureCount (groupSelect p k es) = (\<Sum>e\<leftarrow>es. ag_FailureCount (eventSelect p e))"
  "ag_AccountingAbsentAttempts (groupSelect p k es) = (\<Sum>e\<leftarrow>es. ag_AccountingAbsentAttempts (eventSelect p e))"
  "ag_AccountingValidAttempts (groupSelect p k es) = (\<Sum>e\<leftarrow>es. ag_AccountingValidAttempts (eventSelect p e))"
  "ag_AccountingValidCompleteAttempts (groupSelect p k es) =
     (\<Sum>e\<leftarrow>es. ag_AccountingValidCompleteAttempts (eventSelect p e))"
  "ag_AccountingValidInconsistentAttempts (groupSelect p k es) =
     (\<Sum>e\<leftarrow>es. ag_AccountingValidInconsistentAttempts (eventSelect p e))"
  "ag_AccountingValidUnclassifiedAttempts (groupSelect p k es) =
     (\<Sum>e\<leftarrow>es. ag_AccountingValidUnclassifiedAttempts (eventSelect p e))"
  by (simp_all add: select_defs sumCase_def when1_def sqlAbsent_def sqlValid_def AccountingAbsent_def
      AccountingValid_def sum_list_triv if_distrib [of "\<lambda>b. \<not> b"] cong: if_cong)
    (induction es; simp)+

lemma group_canonical:
  "ag_TotalTokens (groupSelect p k es) = (\<Sum>e\<leftarrow>es. ag_TotalTokens (eventSelect p e))"
  "ag_CanonicalTotalTokens (groupSelect p k es) = (\<Sum>e\<leftarrow>es. ag_CanonicalTotalTokens (eventSelect p e))"
  "ag_CanonicalInputTokens (groupSelect p k es) = (\<Sum>e\<leftarrow>es. ag_CanonicalInputTokens (eventSelect p e))"
  "ag_CanonicalUncachedTokens (groupSelect p k es) = (\<Sum>e\<leftarrow>es. ag_CanonicalUncachedTokens (eventSelect p e))"
  "ag_CanonicalCacheReadTokens (groupSelect p k es) = (\<Sum>e\<leftarrow>es. ag_CanonicalCacheReadTokens (eventSelect p e))"
  "ag_CanonicalCacheWriteTokens (groupSelect p k es) = (\<Sum>e\<leftarrow>es. ag_CanonicalCacheWriteTokens (eventSelect p e))"
  "ag_CanonicalOutputTokens (groupSelect p k es) = (\<Sum>e\<leftarrow>es. ag_CanonicalOutputTokens (eventSelect p e))"
  "ag_CanonicalNonReasoningTokens (groupSelect p k es) =
     (\<Sum>e\<leftarrow>es. ag_CanonicalNonReasoningTokens (eventSelect p e))"
  "ag_CanonicalReasoningTokens (groupSelect p k es) = (\<Sum>e\<leftarrow>es. ag_CanonicalReasoningTokens (eventSelect p e))"
  "ag_CanonicalUnclassifiedTokens (groupSelect p k es) =
     (\<Sum>e\<leftarrow>es. ag_CanonicalUnclassifiedTokens (eventSelect p e))"
  by (simp_all add: select_defs sumCase_def whenTokens_def)

lemma group_tokens:
  assumes "\<forall>e \<in> set es. storedOK e" "fits es"
  shows "ag_InputTokens (groupSelect p k es) = (\<Sum>e\<leftarrow>es. ag_InputTokens (eventSelect p e))"
    "ag_OutputTokens (groupSelect p k es) = (\<Sum>e\<leftarrow>es. ag_OutputTokens (eventSelect p e))"
    "ag_ReasoningTokens (groupSelect p k es) = (\<Sum>e\<leftarrow>es. ag_ReasoningTokens (eventSelect p e))"
    "ag_CachedTokens (groupSelect p k es) = (\<Sum>e\<leftarrow>es. ag_CachedTokens (eventSelect p e))"
    "ag_CacheReadTokens (groupSelect p k es) = (\<Sum>e\<leftarrow>es. ag_CacheReadTokens (eventSelect p e))"
    "ag_CacheReadObservedInputTokens (groupSelect p k es) =
       (\<Sum>e\<leftarrow>es. ag_CacheReadObservedInputTokens (eventSelect p e))"
  using columns_ok [OF assms(1)] column_exact(2) [OF _ assms(2,1)]
  by (simp_all add: select_defs whenTokens_def sum_positive positive_id)

lemma complete_when:
  "(\<Sum>e\<leftarrow>es. when1 (sqlQuality q e)) = sumCase (sqlQuality q) (\<lambda>e. 1) es"
  by (simp add: sumCase_def when1_def)

lemma complete_zero_when:
  assumes "\<forall>e \<in> set es. storedOK e"
  shows "(\<Sum>e\<leftarrow>es. when1 (sqlQuality ''complete'' e \<and> promptOf e = 0 \<and>
      coalesced ua_CacheReadTokens e = 0 \<and> coalesced ua_OutputTokens e = 0)) =
    sumCase sqlCompleteZero (\<lambda>e. 1) es"
proof -
  have "(sqlQuality ''complete'' e \<and> promptOf e = 0 \<and> coalesced ua_CacheReadTokens e = 0 \<and>
      coalesced ua_OutputTokens e = 0) = sqlCompleteZero e" if "e \<in> set es" for e
  proof (cases "sqlQuality ''complete'' e")
    case True
    then have "validateUsageAccounting (ev_UsageAccounting e) = None"
      using assms that by (auto simp: storedOK_def sqlQuality_def sqlValid_def AccountingValid_def)
    from prompt_zero_iff [OF this] True show ?thesis by (auto simp: sqlCompleteZero_def)
  next
    case False
    then show ?thesis by (simp add: sqlCompleteZero_def)
  qed
  then show ?thesis unfolding sumCase_def
    by (intro arg_cong [where f = sum_list] map_cong) (simp_all add: when1_def)
qed

lemma group_pricing:
  assumes "\<forall>e \<in> set es. storedOK e"
  shows "ag_PricedBillableEvents (groupSelect p k es) = (\<Sum>e\<leftarrow>es. ag_PricedBillableEvents (eventSelect p e))"
    "ag_MissingPricingEvents (groupSelect p k es) = (\<Sum>e\<leftarrow>es. ag_MissingPricingEvents (eventSelect p e))"
proof -
  have n: "(\<Sum>e\<leftarrow>es. 1) = (of_nat (length es) :: i64)" by (induction es) simp_all
  show "ag_PricedBillableEvents (groupSelect p k es) = (\<Sum>e\<leftarrow>es. ag_PricedBillableEvents (eventSelect p e))"
    using complete_zero_when [OF assms]
    by (simp add: select_defs analyticsPricedBillable_def complete_when)
  show "ag_MissingPricingEvents (groupSelect p k es) = (\<Sum>e\<leftarrow>es. ag_MissingPricingEvents (eventSelect p e))"
    using complete_zero_when [OF assms]
    by (simp add: select_defs analyticsMissingPricing_def complete_when sum_list_subtractf n)
qed

text \<open>Cost and savings: the exact sums are linear in the tokens.\<close>

lemma of_int_sum_list: "of_int (sum_list (map f xs)) = (\<Sum>x\<leftarrow>xs. of_int (f x))"
  by (induction xs) simp_all

lemma sum_list_divide: "(\<Sum>x\<leftarrow>xs. f x) / (c :: rat) = (\<Sum>x\<leftarrow>xs. f x / c)"
  by (induction xs) (simp_all add: add_divide_distrib)

lemma perMillion_column:
  assumes "columnOK P f es" "fits es" "\<forall>e \<in> set es. storedOK e"
  shows "perMillion (sumCase P f es) = (\<Sum>e\<leftarrow>es. perMillion (if P e then f e else 0))"
  unfolding perMillion_def column_exact(1) [OF assms] of_int_sum_list sum_list_divide ..

lemma whenTokens_prompt:
  "whenTokens P ua_UncachedTokens e + whenTokens P ua_CacheWriteTokens e = (if P e then promptOf e else 0)"
  by (simp add: whenTokens_def)

lemma group_cost:
  assumes "\<forall>e \<in> set es. storedOK e" "fits es"
  shows "ag_TotalCost (groupSelect p k es) = (\<Sum>e\<leftarrow>es. ag_TotalCost (eventSelect p e))"
proof (cases p)
  case None
  then show ?thesis by (simp add: select_defs analyticsCostWithPromptTokens_def)
next
  case (Some price)
  let ?q = "sqlQuality ''complete''"
  note exact = columns_ok(5-7) [OF assms(1), THEN perMillion_column, OF assms(2,1)]
  have "ag_TotalCost (groupSelect p k es) =
      (\<Sum>e\<leftarrow>es. perMillion (if ?q e then promptOf e else 0)) * mp_PromptPricePer1M price
      + (\<Sum>e\<leftarrow>es. perMillion (if ?q e then coalesced ua_OutputTokens e else 0)) * mp_CompletionPricePer1M price
      + (\<Sum>e\<leftarrow>es. perMillion (if ?q e then coalesced ua_CacheReadTokens e else 0)) * mp_CachePricePer1M price"
    by (simp add: Some select_defs analyticsCostWithPromptTokens_def exact)
  also have "\<dots> = (\<Sum>e\<leftarrow>es. ag_TotalCost (eventSelect p e))"
    by (simp add: Some select_defs analyticsCostWithPromptTokens_def whenTokens_prompt)
      (simp add: whenTokens_def sum_list_mult_const sum_list_addf cong: if_cong)
  finally show ?thesis .
qed

text \<open>A saving at a price that is not below the cache price is linear; at any other price it is 0.\<close>

lemma savings_linear:
  assumes "0 \<le> sint w"
  shows "analyticsCacheSavings w price =
    perMillion w * (case price of None \<Rightarrow> 0
      | Some p \<Rightarrow> if mp_PromptPricePer1M p \<ge> mp_CachePricePer1M p
          then mp_PromptPricePer1M p - mp_CachePricePer1M p else 0)"
proof -
  have "\<not> 0 <s w \<Longrightarrow> perMillion w = 0" using assms by (simp add: perMillion_def i64_order)
  then show ?thesis
    using assms by (auto simp: analyticsCacheSavings_def Let_def positive_id split: option.split)
qed

lemma group_savings:
  assumes "\<forall>e \<in> set es. storedOK e" "fits es"
  shows "ag_CacheSavings (groupSelect p k es) = (\<Sum>e\<leftarrow>es. ag_CacheSavings (eventSelect p e))"
proof -
  let ?w = "\<lambda>e. if sqlQuality ''complete'' e then coalesced ua_CacheReadTokens e else 0"
  let ?rate = "case p of None \<Rightarrow> 0
    | Some p \<Rightarrow> if mp_PromptPricePer1M p \<ge> mp_CachePricePer1M p
        then mp_PromptPricePer1M p - mp_CachePricePer1M p else 0"
  note col = columns_ok(5) [OF assms(1)]
  have "ag_CacheSavings (groupSelect p k es) = (\<Sum>e\<leftarrow>es. perMillion (?w e)) * ?rate"
    using savings_linear [OF column_exact(2) [OF col assms(2,1)], of p] perMillion_column [OF col assms(2,1)]
    by (simp add: select_defs)
  also have "\<dots> = (\<Sum>e\<leftarrow>es. perMillion (?w e) * ?rate)" by (rule sum_list_mult_const [symmetric])
  also have "\<dots> = (\<Sum>e\<leftarrow>es. ag_CacheSavings (eventSelect p e))"
  proof (intro arg_cong [where f = sum_list] map_cong refl)
    fix e assume "e \<in> set es"
    then have "0 \<le> sint (?w e)" using col by (auto simp: columnOK_def)
    from savings_linear [OF this, of p]
    show "perMillion (?w e) * ?rate = ag_CacheSavings (eventSelect p e)"
      by (simp add: select_defs whenTokens_def)
  qed
  finally show ?thesis .
qed

section \<open>The counters of cache savings\<close>

text \<open>The attempts that count as eligible, or as ineligible, for a saving.\<close>

definition cachedAttempt :: "usageEvent \<Rightarrow> bool" where
  "cachedAttempt e \<longleftrightarrow> sqlQuality ''complete'' e \<and> 0 < sint (coalesced ua_CacheReadTokens e)"

definition countsTo :: "i64 \<Rightarrow> nat \<Rightarrow> bool \<Rightarrow> bool" where
  "countsTo w bound some \<longleftrightarrow> (\<exists>n. w = of_nat n \<and> n \<le> bound \<and> (n = 0) = (\<not> some))"

lemma countsTo_add:
  assumes "countsTo v a x" "countsTo w b y"
  shows "countsTo (v + w) (a + b) (x \<or> y)"
proof -
  obtain n m where "v = of_nat n" "n \<le> a" "(n = 0) = (\<not> x)" "w = of_nat m" "m \<le> b" "(m = 0) = (\<not> y)"
    using assms by (auto simp: countsTo_def)
  then have "v + w = of_nat (n + m)" "n + m \<le> a + b" "(n + m = 0) = (\<not> (x \<or> y))" by auto
  then show ?thesis unfolding countsTo_def by blast
qed

lemma countsTo_0: "countsTo 0 0 False"
  unfolding countsTo_def by (rule exI [of _ 0]) simp

lemma countsTo_sum:
  assumes "\<forall>x \<in> set xs. countsTo (f x) (b x) (P x)"
  shows "countsTo (\<Sum>x\<leftarrow>xs. f x) (\<Sum>x\<leftarrow>xs. b x) (\<exists>x \<in> set xs. P x)"
  using assms
proof (induction xs)
  case Nil
  then show ?case by (simp add: countsTo_0)
next
  case (Cons x xs)
  then have "countsTo (f x + (\<Sum>x\<leftarrow>xs. f x)) (b x + (\<Sum>x\<leftarrow>xs. b x)) (P x \<or> (\<exists>x \<in> set xs. P x))"
    by (intro countsTo_add) simp_all
  then show ?case by simp
qed

lemma countsTo_read:
  assumes "countsTo w b some" "b < 2 ^ 63"
  shows "(w = 0) = (\<not> some)" "(0 <s w) = some"
proof -
  obtain n where n: "w = of_nat n" "n \<le> b" "(n = 0) = (\<not> some)" using assms(1) by (auto simp: countsTo_def)
  have lt: "n < 2 ^ 63" using n(2) assms(2) by simp
  then have "int n < 2 ^ 63" by (metis of_nat_less_numeral_power_cancel_iff)
  moreover have "w = word_of_int (int n)" using n(1) by simp
  then have "sint w = signed_take_bit 63 (int n)" by (simp only: sint_sbintrunc') simp
  ultimately have s: "sint w = int n" by (simp add: signed_take_bit_int_eq_self)
  show "(w = 0) = (\<not> some)" unfolding i64_zero_iff s using n(3) by simp
  show "(0 <s w) = some" unfolding i64_order s using n(3) by auto
qed

lemma event_counters:
  "countsTo (ag_CacheSavingsEligibleRows (eventSelect p e)) 1 (cachedAttempt e \<and> cacheCheaper p)"
  "countsTo (ag_CacheSavingsIneligibleRows (eventSelect p e)) 1 (cachedAttempt e \<and> \<not> cacheCheaper p)"
proof -
  have pos: "0 <s analyticsPositiveToken w \<longleftrightarrow> 0 < sint w" for w
    by (auto simp: analyticsPositiveToken_def i64_order)
  have cheaper: "(case p of None \<Rightarrow> True | Some q \<Rightarrow> mp_PromptPricePer1M q < mp_CachePricePer1M q) = (\<not> cacheCheaper p)"
    by (auto simp: cacheCheaper_def split: option.split)
  have c: "countsTo (if b then 1 else 0) 1 b" for b
    unfolding countsTo_def by (rule exI [of _ "if b then 1 else 0"]) simp
  show "countsTo (ag_CacheSavingsEligibleRows (eventSelect p e)) 1 (cachedAttempt e \<and> cacheCheaper p)"
    using c [of "cachedAttempt e \<and> cacheCheaper p"]
    by (cases "sqlQuality ''complete'' e")
      (simp_all add: select_defs analyticsCacheSavingsEligible_def pos whenTokens_def when1_def cachedAttempt_def)
  show "countsTo (ag_CacheSavingsIneligibleRows (eventSelect p e)) 1 (cachedAttempt e \<and> \<not> cacheCheaper p)"
    using c [of "cachedAttempt e \<and> \<not> cacheCheaper p"]
    by (cases "sqlQuality ''complete'' e")
      (simp_all add: select_defs analyticsCacheSavingsIneligible_def pos whenTokens_def when1_def
        cachedAttempt_def cheaper)
qed

lemma sumCase_countsTo: "countsTo (sumCase P (\<lambda>e. 1) es) (length es) (\<exists>e \<in> set es. P e)"
proof -
  have "countsTo (\<Sum>e\<leftarrow>es. if P e then 1 else 0) (\<Sum>e\<leftarrow>es. 1) (\<exists>e \<in> set es. P e)"
  proof (intro countsTo_sum ballI)
    fix e
    show "countsTo (if P e then 1 else 0) 1 (P e)"
      unfolding countsTo_def by (rule exI [of _ "if P e then 1 else 0"]) simp
  qed
  then show ?thesis by (simp add: sumCase_def sum_list_triv)
qed

lemma sum_pos_iff:
  assumes "\<forall>e \<in> set es. 0 \<le> (f e :: int)"
  shows "0 < (\<Sum>e\<leftarrow>es. f e) \<longleftrightarrow> (\<exists>e \<in> set es. 0 < f e)"
  using assms
proof (induction es)
  case (Cons e es)
  then have "0 \<le> (\<Sum>e\<leftarrow>es. f e)" by (intro sum_list_nonneg) auto
  with Cons show ?case by auto
qed simp

lemma group_counters:
  assumes "\<forall>e \<in> set es. storedOK e" "fits es"
  shows "countsTo (ag_CacheSavingsEligibleRows (groupSelect p k es)) (length es)
      (\<exists>e \<in> set es. cachedAttempt e \<and> cacheCheaper p)"
    "countsTo (ag_CacheSavingsIneligibleRows (groupSelect p k es)) (length es)
      (\<exists>e \<in> set es. cachedAttempt e \<and> \<not> cacheCheaper p)"
proof -
  let ?q = "sqlQuality ''complete''"
  note col = columns_ok(5) [OF assms(1)]
  have nn: "\<forall>e \<in> set es. 0 \<le> sint (if ?q e then coalesced ua_CacheReadTokens e else 0)"
    using col by (simp add: columnOK_def)
  have pos: "0 <s analyticsPositiveToken (sumCase ?q (coalesced ua_CacheReadTokens) es) \<longleftrightarrow>
      (\<exists>e \<in> set es. cachedAttempt e)"
    unfolding positive_id [OF column_exact(2) [OF col assms(2,1)]] i64_order
      column_exact(1) [OF col assms(2,1)] sint_0 sum_pos_iff [OF nn]
    by (auto simp: cachedAttempt_def)
  have cheaper: "(case p of None \<Rightarrow> True | Some q \<Rightarrow> mp_PromptPricePer1M q < mp_CachePricePer1M q) = (\<not> cacheCheaper p)"
    by (auto simp: cacheCheaper_def split: option.split)
  have c: "countsTo (if (\<exists>e \<in> set es. cachedAttempt e) \<and> b then sumCase ?q (\<lambda>e. 1) es else 0) (length es)
      (\<exists>e \<in> set es. cachedAttempt e \<and> b)" for b
  proof (cases "(\<exists>e \<in> set es. cachedAttempt e) \<and> b")
    case True
    then have "\<exists>e \<in> set es. ?q e" by (auto simp: cachedAttempt_def)
    with True sumCase_countsTo [of ?q es] show ?thesis by simp
  next
    case False
    then show ?thesis unfolding countsTo_def by (intro exI [of _ 0]) auto
  qed
  show "countsTo (ag_CacheSavingsEligibleRows (groupSelect p k es)) (length es)
      (\<exists>e \<in> set es. cachedAttempt e \<and> cacheCheaper p)"
    using c [of "cacheCheaper p"] by (simp add: select_defs analyticsCacheSavingsEligible_def pos)
  show "countsTo (ag_CacheSavingsIneligibleRows (groupSelect p k es)) (length es)
      (\<exists>e \<in> set es. cachedAttempt e \<and> \<not> cacheCheaper p)"
    using c [of "\<not> cacheCheaper p"] by (simp add: select_defs analyticsCacheSavingsIneligible_def pos cheaper)
qed

section \<open>Rows that summarise events\<close>

definition eventPrice :: "modelPriceSetting list \<Rightarrow> usageEvent \<Rightarrow> modelPriceSetting option" where
  "eventPrice settings e = priceAt settings (sqlTrim (ev_Model e))"

definition rawRow :: "modelPriceSetting list \<Rightarrow> usageEvent list \<Rightarrow> analyticsAggregateRow" where
  "rawRow settings es = sumRows (map (\<lambda>e. eventSelect (eventPrice settings e) e) es)"

text \<open>
  A row summarises events when it is their sum but for the two counters, and those count between
  one and as many as there are events if some event counts, and nothing otherwise.
\<close>

definition summarises :: "modelPriceSetting list \<Rightarrow> usageEvent list \<Rightarrow> analyticsAggregateRow \<Rightarrow> bool" where
  "summarises settings es r \<longleftrightarrow> costly r = costly (rawRow settings es) \<and>
     countsTo (ag_CacheSavingsEligibleRows r) (length es)
       (\<exists>e \<in> set es. cachedAttempt e \<and> cacheCheaper (eventPrice settings e)) \<and>
     countsTo (ag_CacheSavingsIneligibleRows r) (length es)
       (\<exists>e \<in> set es. cachedAttempt e \<and> \<not> cacheCheaper (eventPrice settings e))"

lemma rawRow_append: "rawRow settings (xs @ ys) = addAnalyticsAggregateRow (rawRow settings xs) (rawRow settings ys)"
  by (simp add: rawRow_def aggRow.total_append)

lemma rawRow_perm: "mset xs = mset ys \<Longrightarrow> rawRow settings xs = rawRow settings ys"
  unfolding rawRow_def by (intro aggRow.total_perm) (simp add: mset_map)

lemma summarises_raw: "summarises settings es (rawRow settings es)"
proof -
  have n: "(\<Sum>e\<leftarrow>es. 1) = length es" by (induction es) simp_all
  have "countsTo (\<Sum>e\<leftarrow>es. ag_CacheSavingsEligibleRows (eventSelect (eventPrice settings e) e)) (\<Sum>e\<leftarrow>es. 1)
      (\<exists>e \<in> set es. cachedAttempt e \<and> cacheCheaper (eventPrice settings e))"
    by (intro countsTo_sum ballI event_counters)
  moreover have "countsTo (\<Sum>e\<leftarrow>es. ag_CacheSavingsIneligibleRows (eventSelect (eventPrice settings e) e)) (\<Sum>e\<leftarrow>es. 1)
      (\<exists>e \<in> set es. cachedAttempt e \<and> \<not> cacheCheaper (eventPrice settings e))"
    by (intro countsTo_sum ballI event_counters)
  ultimately show ?thesis unfolding summarises_def rawRow_def sumRows_columns n by (simp add: o_def)
qed

lemma summarises_append:
  assumes "summarises settings xs r" "summarises settings ys s"
  shows "summarises settings (xs @ ys) (addAnalyticsAggregateRow r s)"
  using assms unfolding summarises_def rawRow_append costly_add add_columns length_append set_append bex_Un
  by (intro conjI countsTo_add) simp_all

lemma summarises_perm:
  assumes "mset xs = mset ys" "summarises settings xs r"
  shows "summarises settings ys r"
  using assms(2) rawRow_perm [OF assms(1), of settings] mset_eq_setD [OF assms(1)] mset_eq_length [OF assms(1)]
  by (simp add: summarises_def)

lemma costly_eqI:
  assumes "ag_RequestCount r = ag_RequestCount s" "ag_SuccessCount r = ag_SuccessCount s"
    "ag_FailureCount r = ag_FailureCount s" "ag_InputTokens r = ag_InputTokens s"
    "ag_OutputTokens r = ag_OutputTokens s" "ag_TotalTokens r = ag_TotalTokens s"
    "ag_TotalCost r = ag_TotalCost s" "ag_CachedTokens r = ag_CachedTokens s"
    "ag_CacheReadTokens r = ag_CacheReadTokens s"
    "ag_CacheReadObservedInputTokens r = ag_CacheReadObservedInputTokens s"
    "ag_ReasoningTokens r = ag_ReasoningTokens s" "ag_CacheSavings r = ag_CacheSavings s"
    "ag_MissingPricingEvents r = ag_MissingPricingEvents s"
    "ag_PricedBillableEvents r = ag_PricedBillableEvents s"
    "ag_AccountingAbsentAttempts r = ag_AccountingAbsentAttempts s"
    "ag_AccountingValidAttempts r = ag_AccountingValidAttempts s"
    "ag_AccountingValidCompleteAttempts r = ag_AccountingValidCompleteAttempts s"
    "ag_AccountingValidInconsistentAttempts r = ag_AccountingValidInconsistentAttempts s"
    "ag_AccountingValidUnclassifiedAttempts r = ag_AccountingValidUnclassifiedAttempts s"
    "ag_CanonicalTotalTokens r = ag_CanonicalTotalTokens s"
    "ag_CanonicalInputTokens r = ag_CanonicalInputTokens s"
    "ag_CanonicalUncachedTokens r = ag_CanonicalUncachedTokens s"
    "ag_CanonicalCacheReadTokens r = ag_CanonicalCacheReadTokens s"
    "ag_CanonicalCacheWriteTokens r = ag_CanonicalCacheWriteTokens s"
    "ag_CanonicalOutputTokens r = ag_CanonicalOutputTokens s"
    "ag_CanonicalNonReasoningTokens r = ag_CanonicalNonReasoningTokens s"
    "ag_CanonicalReasoningTokens r = ag_CanonicalReasoningTokens s"
    "ag_CanonicalUnclassifiedTokens r = ag_CanonicalUnclassifiedTokens s"
  shows "costly r = costly s"
  using assms by (cases r; cases s) (simp add: costly_def)

text \<open>The select of the rollup of one group summarises the group.\<close>

lemma summarises_group:
  assumes "\<forall>e \<in> set es. storedOK e" "fits es" "\<forall>e \<in> set es. eventPrice settings e = p"
  shows "summarises settings es (groupSelect p k es)"
proof -
  have raw: "rawRow settings es = sumRows (map (eventSelect p) es)"
    unfolding rawRow_def using assms(3) by (intro arg_cong [where f = sumRows] map_cong) simp_all
  have "costly (groupSelect p k es) = costly (rawRow settings es)"
    unfolding raw
    by (intro costly_eqI; simp only: sumRows_columns group_counts group_canonical
        group_tokens [OF assms(1,2)] group_pricing [OF assms(1)] group_cost [OF assms(1,2)]
        group_savings [OF assms(1,2)] map_map o_def)
  moreover have "(\<exists>e \<in> set es. cachedAttempt e \<and> cacheCheaper (eventPrice settings e)) =
      (\<exists>e \<in> set es. cachedAttempt e \<and> cacheCheaper p)"
    "(\<exists>e \<in> set es. cachedAttempt e \<and> \<not> cacheCheaper (eventPrice settings e)) =
      (\<exists>e \<in> set es. cachedAttempt e \<and> \<not> cacheCheaper p)" using assms(3) by auto
  ultimately show ?thesis
    unfolding summarises_def using group_counters [OF assms(1,2), of k p] by simp
qed

text \<open>And so does the sum over the groups, for their concatenation.\<close>

lemma summarises_groups:
  assumes "\<forall>k \<in> set ks. summarises settings (g k) (f k)"
  shows "summarises settings (concat (map g ks)) (sumRows (map f ks))"
  using assms
proof (induction ks)
  case Nil
  show ?case using summarises_raw [of settings "[]"] by (simp add: rawRow_def)
next
  case (Cons k ks)
  then show ?case by (simp add: summarises_append)
qed

lemma mset_groups:
  assumes "distinct ks" "key ` set es \<subseteq> set ks"
  shows "mset (concat (map (\<lambda>k. filter (\<lambda>e. key e = k) es) ks)) = mset es"
  using assms
proof (induction ks arbitrary: es)
  case (Cons k ks)
  let ?rest = "filter (\<lambda>e. key e \<noteq> k) es"
  have "filter (\<lambda>e. key e = k') es = filter (\<lambda>e. key e = k') ?rest" if "k' \<in> set ks" for k'
    using that Cons.prems(1) by (auto simp: filter_filter intro: filter_cong)
  then have same: "map (\<lambda>k'. filter (\<lambda>e. key e = k') es) ks = map (\<lambda>k'. filter (\<lambda>e. key e = k') ?rest) ks"
    by (intro map_cong) simp_all
  have "mset (concat (map (\<lambda>k'. filter (\<lambda>e. key e = k') ?rest) ks)) = mset ?rest"
    using Cons.prems by (intro Cons.IH) auto
  moreover have "mset es = mset (filter (\<lambda>e. key e = k) es) + mset ?rest"
    by (metis mset_append mset_filter multiset_partition)
  ultimately show ?case by (simp only: same list.map concat.simps mset_append)
qed simp

end
