(* ===== verification/SourceRows.thy ===== *)
theory SourceRows
  imports AnalyticsSums
begin

text \<open>
  Source rows and the events behind them. A row of either source stands for some events: an event for itself,
  a rollup for its group. A list of rows covers a list of events when the rows stand for groups that make up
  the events. All the read models are sums over the rows of a plan, grouped by what a row shares with its
  events, so what they need of a plan is only that its rows cover the events of the window.
\<close>

section \<open>Rows that stand for events\<close>

text \<open>What decoding guarantees: provider and model are trimmed.\<close>

definition tidy :: "usageEvent \<Rightarrow> bool" where
  "tidy e \<longleftrightarrow> trimmed (ev_Provider e) \<and> trimmed (ev_Model e)"

definition latencySum :: "usageEvent \<Rightarrow> i64" where
  "latencySum e = (if 0 <s ev_LatencyMS e then ev_LatencyMS e else 0)"

definition latencyCount :: "usageEvent \<Rightarrow> i64" where
  "latencyCount e = (if 0 <s ev_LatencyMS e then 1 else 0)"

abbreviation pricedSelect :: "modelPriceSetting list \<Rightarrow> sourceRow \<Rightarrow> analyticsAggregateRow" where
  "pricedSelect settings s \<equiv> analyticsSummarySelect s (priceAt settings (sr_Model s))"

definition sameHour :: "instant \<Rightarrow> instant \<Rightarrow> bool" where
  "sameHour t u \<longleftrightarrow> truncateTo hour t = truncateTo hour u"

definition stands :: "modelPriceSetting list \<Rightarrow> usageEvent list \<Rightarrow> sourceRow \<Rightarrow> bool" where
  "stands settings es s \<longleftrightarrow> es \<noteq> [] \<and>
     (\<forall>e \<in> set es. ev_Model e = sr_Model s \<and> ev_Provider e = sr_Provider s \<and> sameHour (ev_Timestamp e) (sr_Instant s)) \<and>
     summarises settings es (pricedSelect settings s) \<and>
     sr_LatencySum s = (\<Sum>e\<leftarrow>es. latencySum e) \<and> sr_LatencyCount s = (\<Sum>e\<leftarrow>es. latencyCount e)"

lemma standsD:
  assumes "stands settings es s" "e \<in> set es"
  shows "ev_Model e = sr_Model s" "ev_Provider e = sr_Provider s" "sameHour (ev_Timestamp e) (sr_Instant s)"
  using assms by (auto simp: stands_def)

lemma stands_event: "tidy e \<Longrightarrow> stands settings [e] (analyticsEventsAggregateSource e)"
proof -
  assume t: "tidy e"
  let ?s = "analyticsEventsAggregateSource e"
  have m: "sr_Model ?s = ev_Model e" "sr_Provider ?s = ev_Provider e" "sr_Instant ?s = ev_Timestamp e"
    "sr_LatencySum ?s = latencySum e" "sr_LatencyCount ?s = latencyCount e"
    using t by (simp_all add: analyticsEventsAggregateSource_def Let_def tidy_def sqlTrim_trimmed latencySum_def
        latencyCount_def)
  have "rawRow settings [e] = pricedSelect settings ?s"
    using t by (simp add: rawRow_def eventPrice_def m aggRow.add_zero_right tidy_def sqlTrim_trimmed)
  with summarises_raw [of settings "[e]"] show ?thesis by (simp add: stands_def m sameHour_def)
qed

lemma group_latency:
  "sr_LatencySum (analyticsRollupsAggregateSource (k, sqlGroupRollup es)) = (\<Sum>e\<leftarrow>es. latencySum e)"
  "sr_LatencyCount (analyticsRollupsAggregateSource (k, sqlGroupRollup es)) = (\<Sum>e\<leftarrow>es. latencyCount e)"
  by (simp_all add: analyticsRollupsAggregateSource_def sqlGroupRollup_def sumCase_def latencySum_def
      latencyCount_def)

lemma key_facts:
  assumes "hourlyUsageRollupKey e = k" "tidy e"
  shows "sqlTrim (rk_Model k) = ev_Model e" "sqlTrim (rk_Provider k) = ev_Provider e"
    "rk_BucketStart k = truncateTo hour (ev_Timestamp e)"
  using assms by (auto simp: hourlyUsageRollupKey_def tidy_def trimSpace_id sqlTrim_trimmed eventBucket_def)

lemma stands_group:
  assumes "es \<noteq> []" "\<forall>e \<in> set es. storedOK e \<and> tidy e \<and> hourlyUsageRollupKey e = k" "fits es"
  shows "stands settings es (analyticsRollupsAggregateSource (k, sqlGroupRollup es))"
proof -
  let ?s = "analyticsRollupsAggregateSource (k, sqlGroupRollup es)"
  have s: "sr_Model ?s = sqlTrim (rk_Model k)" "sr_Provider ?s = sqlTrim (rk_Provider k)"
    "sr_Instant ?s = rk_BucketStart k"
    by (simp_all add: analyticsRollupsAggregateSource_def)
  have key: "ev_Model e = sr_Model ?s" "ev_Provider e = sr_Provider ?s" "sameHour (ev_Timestamp e) (sr_Instant ?s)"
    if "e \<in> set es" for e
    using assms(2) that key_facts [of e k] by (auto simp: s sameHour_def)
  have "\<forall>e \<in> set es. eventPrice settings e = priceAt settings (sr_Model ?s)"
    using key(1) assms(2) by (auto simp: eventPrice_def s tidy_def sqlTrim_trimmed)
  then have "summarises settings es (pricedSelect settings ?s)"
    using assms(2,3) by (intro summarises_group) auto
  with key assms(1) show ?thesis by (auto simp: stands_def group_latency)
qed

section \<open>Rows that cover events\<close>

definition covers :: "modelPriceSetting list \<Rightarrow> usageEvent list \<Rightarrow> sourceRow list \<Rightarrow> bool" where
  "covers settings es rows \<longleftrightarrow>
     (\<exists>groups. list_all2 (stands settings) groups rows \<and> mset (concat groups) = mset es)"

lemma coversE:
  assumes "covers settings es rows"
  obtains groups where "list_all2 (stands settings) groups rows" "mset (concat groups) = mset es"
  using assms by (auto simp: covers_def)

lemma covers_Nil: "covers settings [] []"
  by (auto simp: covers_def)

lemma covers_append:
  assumes "covers settings xs rs" "covers settings ys ss"
  shows "covers settings (xs @ ys) (rs @ ss)"
proof -
  obtain gs hs where "list_all2 (stands settings) gs rs" "mset (concat gs) = mset xs"
    "list_all2 (stands settings) hs ss" "mset (concat hs) = mset ys"
    using assms by (auto simp: covers_def)
  then show ?thesis unfolding covers_def by (intro exI [of _ "gs @ hs"]) (simp add: list_all2_appendI)
qed

lemma covers_perm: "mset xs = mset ys \<Longrightarrow> covers settings xs rs \<Longrightarrow> covers settings ys rs"
  by (simp add: covers_def)

lemma covers_events: "\<forall>e \<in> set es. tidy e \<Longrightarrow> covers settings es (map analyticsEventsAggregateSource es)"
proof (induction es)
  case (Cons e es)
  then have "covers settings [e] [analyticsEventsAggregateSource e]"
    unfolding covers_def by (intro exI [of _ "[[e]]"]) (simp add: stands_event)
  from covers_append [OF this Cons.IH] Cons.prems show ?case by simp
qed (simp add: covers_Nil)

text \<open>Selecting rows by what they share with their events selects the events.\<close>

lemma covers_filter:
  assumes "covers settings es rows" "\<And>g s e. stands settings g s \<Longrightarrow> e \<in> set g \<Longrightarrow> P e = Q s"
  shows "covers settings (filter P es) (filter Q rows)"
proof -
  have "\<exists>hs. list_all2 (stands settings) hs (filter Q rs) \<and> concat hs = filter P (concat gs)"
    if "list_all2 (stands settings) gs rs" for gs rs
    using that
  proof (induction rule: list_all2_induct)
    case (Cons g gs s rs)
    then obtain hs where hs: "list_all2 (stands settings) hs (filter Q rs)" "concat hs = filter P (concat gs)" by blast
    have "filter P g = (if Q s then g else [])"
      using assms(2) [OF Cons.hyps(1)] by (auto simp: filter_id_conv filter_empty_conv)
    then show ?case using hs Cons.hyps(1) by (intro exI [of _ "if Q s then g # hs else hs"]) simp
  qed simp
  then show ?thesis using assms(1) by (metis covers_def mset_filter)
qed

lemma covers_set:
  assumes "covers settings es rows" "\<And>g s e. stands settings g s \<Longrightarrow> e \<in> set g \<Longrightarrow> f e = h s"
  shows "h ` set rows = f ` set es"
proof -
  have "h ` set rs = f ` set (concat gs)" if "list_all2 (stands settings) gs rs" for gs rs
    using that
  proof (induction rule: list_all2_induct)
    case (Cons g gs s rs)
    then have "f ` set g = {h s}" using assms(2) [OF Cons.hyps(1)] by (auto simp: stands_def image_iff)
        (metis list.set_intros(1) neq_Nil_conv)
    with Cons.IH show ?case by (auto simp: image_Un)
  qed simp
  then show ?thesis using assms(1) by (metis covers_def mset_eq_setD)
qed

lemma covers_summarises:
  assumes "covers settings es rows"
  shows "summarises settings es (sumRows (map (pricedSelect settings) rows))"
proof -
  have "summarises settings (concat gs) (sumRows (map (pricedSelect settings) rs))"
    if "list_all2 (stands settings) gs rs" for gs rs
    using that
  proof (induction rule: list_all2_induct)
    case Nil
    show ?case using summarises_raw [of settings "[]"] by (simp add: rawRow_def)
  next
    case (Cons g gs s rs)
    then show ?case by (simp add: summarises_append stands_def)
  qed
  with assms show ?thesis by (auto elim!: coversE intro: summarises_perm)
qed

lemma covers_latency:
  assumes "covers settings es rows"
  shows "(\<Sum>s\<leftarrow>rows. sr_LatencySum s) = (\<Sum>e\<leftarrow>es. latencySum e)"
    "(\<Sum>s\<leftarrow>rows. sr_LatencyCount s) = (\<Sum>e\<leftarrow>es. latencyCount e)"
proof -
  obtain gs where gs: "list_all2 (stands settings) gs rows" "mset (concat gs) = mset es"
    using assms by (rule coversE)
  have "sum_list (map f (concat gs)) = sum_list (map f es)" for f :: "usageEvent \<Rightarrow> i64"
    using gs(2) by (metis mset_map sum_mset_sum_list)
  moreover have "(\<Sum>s\<leftarrow>rows. sr_LatencySum s) = sum_list (map latencySum (concat gs)) \<and>
      (\<Sum>s\<leftarrow>rows. sr_LatencyCount s) = sum_list (map latencyCount (concat gs))"
    using gs(1) by (induction rule: list_all2_induct) (simp_all add: stands_def)
  ultimately show "(\<Sum>s\<leftarrow>rows. sr_LatencySum s) = (\<Sum>e\<leftarrow>es. latencySum e)"
    "(\<Sum>s\<leftarrow>rows. sr_LatencyCount s) = (\<Sum>e\<leftarrow>es. latencyCount e)" by simp_all
qed

end
