(* ===== verification/AnalyticsSummary.thy ===== *)
theory AnalyticsSummary
  imports AnalyticsRows
begin

text \<open>
  From a result row to the summary the API shows (\<open>repository/analytics_summary.go\<close>,
  \<open>cost_completeness.go\<close>, records of \<open>dto/analytics.go\<close>), and the comparison with a previous
  period.
\<close>

section \<open>Records\<close>

record accountingComposition =
  ac_TotalTokens :: i64
  ac_InputTotalTokens :: i64
  ac_InputUncachedTokens :: i64
  ac_InputCacheReadTokens :: i64
  ac_InputCacheWriteTokens :: i64
  ac_OutputTotalTokens :: i64
  ac_OutputNonReasoningTokens :: i64
  ac_OutputReasoningTokens :: i64
  ac_UnclassifiedTokens :: i64

record analyticsAccountingSummary =
  as_TotalAttempts :: i64
  as_ValidAttempts :: i64
  as_CoveragePct :: "float64 option"
  as_StatesAbsent :: i64
  as_StatesValid :: i64
  as_QualityComplete :: i64
  as_QualityInconsistent :: i64
  as_QualityUnclassified :: i64
  as_Composition :: accountingComposition

record analyticsSummary =
  su_TotalCost :: float64
  su_TotalTokens :: i64
  su_RequestCount :: i64
  su_SuccessCount :: i64
  su_FailureCount :: i64
  su_InputTokens :: i64
  su_OutputTokens :: i64
  su_CachedTokens :: i64
  su_CacheReadTokens :: i64
  su_ReasoningTokens :: i64
  su_SuccessRate :: float64
  su_CostAvailable :: bool
  su_CostStatus :: string
  su_CacheReadShare :: float64
  su_CacheReadCoverage :: float64
  su_CacheReadShareState :: string
  su_EstimatedCacheSavings :: "float64 option"
  su_Accounting :: analyticsAccountingSummary

section \<open>Cost and cache\<close>

definition costStatusAvailable :: string where "costStatusAvailable = ''available''"
definition costStatusPartial :: string where "costStatusPartial = ''partial''"
definition costStatusUnavailable :: string where "costStatusUnavailable = ''unavailable''"

lemmas cost_status_defs = costStatusAvailable_def costStatusPartial_def costStatusUnavailable_def

definition assessCostCompleteness :: "i64 \<Rightarrow> i64 \<Rightarrow> bool \<times> string" where
  "assessCostCompleteness missingPricingEvents knownCostAttempts =
     (if missingPricingEvents = 0 then (True, costStatusAvailable)
      else if 0 <s knownCostAttempts then (False, costStatusPartial)
      else (False, costStatusUnavailable))"

definition shareAvailable :: string where "shareAvailable = ''available''"
definition sharePartial :: string where "sharePartial = ''partial''"
definition shareNoCacheData :: string where "shareNoCacheData = ''no_cache_data''"
definition shareNoPromptInput :: string where "shareNoPromptInput = ''no_prompt_input''"

lemmas share_state_defs = shareAvailable_def sharePartial_def shareNoCacheData_def shareNoPromptInput_def

definition percentOf :: "i64 \<Rightarrow> i64 \<Rightarrow> float64" where
  "percentOf part whole = of_int (sint part) / of_int (sint whole) * 100"

definition analyticsCacheReadMetrics :: "i64 \<Rightarrow> i64 \<Rightarrow> i64 \<Rightarrow> float64 \<times> float64 \<times> string" where
  "analyticsCacheReadMetrics inputTokens observedInputTokens cacheReadTokens =
     (if inputTokens \<le>s 0 then (0, 0, shareNoPromptInput)
      else if observedInputTokens \<le>s 0 then (0, 0, shareNoCacheData)
      else
        let share = percentOf cacheReadTokens observedInputTokens;
            coverage = percentOf observedInputTokens inputTokens
        in if coverage \<ge> 100 then (share, 100, shareAvailable) else (share, coverage, sharePartial))"

definition analyticsCacheEfficiency ::
  "i64 \<Rightarrow> i64 \<Rightarrow> i64 \<Rightarrow> float64 \<Rightarrow> i64 \<Rightarrow> i64 \<Rightarrow> bool \<Rightarrow> float64 \<times> float64 \<times> string \<times> float64 option" where
  "analyticsCacheEfficiency inputTokens observedInputTokens cacheReadTokens cacheSavings
     eligibleRows ineligibleRows pricingComplete =
     (case analyticsCacheReadMetrics inputTokens observedInputTokens cacheReadTokens of
        (share, coverage, state) \<Rightarrow>
          if state \<noteq> shareAvailable \<or> \<not> pricingComplete \<or> eligibleRows = 0 \<or> 0 <s ineligibleRows
          then (share, coverage, state, None)
          else (share, coverage, state, Some cacheSavings))"

section \<open>The summary\<close>

definition mapAnalyticsAccountingSummary :: "analyticsAggregateRow \<Rightarrow> analyticsAccountingSummary" where
  "mapAnalyticsAccountingSummary row =
     \<lparr>as_TotalAttempts = ag_RequestCount row,
      as_ValidAttempts = ag_AccountingValidAttempts row,
      as_CoveragePct =
        (if 0 <s ag_RequestCount row
         then Some (percentOf (ag_AccountingValidAttempts row) (ag_RequestCount row)) else None),
      as_StatesAbsent = ag_AccountingAbsentAttempts row,
      as_StatesValid = ag_AccountingValidAttempts row,
      as_QualityComplete = ag_AccountingValidCompleteAttempts row,
      as_QualityInconsistent = ag_AccountingValidInconsistentAttempts row,
      as_QualityUnclassified = ag_AccountingValidUnclassifiedAttempts row,
      as_Composition =
        \<lparr>ac_TotalTokens = ag_CanonicalTotalTokens row,
         ac_InputTotalTokens = ag_CanonicalInputTokens row,
         ac_InputUncachedTokens = ag_CanonicalUncachedTokens row,
         ac_InputCacheReadTokens = ag_CanonicalCacheReadTokens row,
         ac_InputCacheWriteTokens = ag_CanonicalCacheWriteTokens row,
         ac_OutputTotalTokens = ag_CanonicalOutputTokens row,
         ac_OutputNonReasoningTokens = ag_CanonicalNonReasoningTokens row,
         ac_OutputReasoningTokens = ag_CanonicalReasoningTokens row,
         ac_UnclassifiedTokens = ag_CanonicalUnclassifiedTokens row\<rparr>\<rparr>"

definition mapAnalyticsSummary :: "analyticsAggregateRow \<Rightarrow> analyticsSummary" where
  "mapAnalyticsSummary row =
     (let successRate =
            (if 0 <s ag_RequestCount row
             then percentOf (ag_SuccessCount row) (ag_RequestCount row) else 0);
          cost = (if ag_RequestCount row = 0 then (False, costStatusUnavailable)
                  else assessCostCompleteness (ag_MissingPricingEvents row) (ag_PricedBillableEvents row))
      in case analyticsCacheEfficiency (ag_InputTokens row) (ag_CacheReadObservedInputTokens row)
                (ag_CacheReadTokens row) (ag_CacheSavings row) (ag_CacheSavingsEligibleRows row)
                (ag_CacheSavingsIneligibleRows row) (snd cost = costStatusAvailable) of
           (share, coverage, state, savings) \<Rightarrow>
             \<lparr>su_TotalCost = ag_TotalCost row,
              su_TotalTokens = ag_TotalTokens row,
              su_RequestCount = ag_RequestCount row,
              su_SuccessCount = ag_SuccessCount row,
              su_FailureCount = ag_FailureCount row,
              su_InputTokens = ag_InputTokens row,
              su_OutputTokens = ag_OutputTokens row,
              su_CachedTokens = ag_CachedTokens row,
              su_CacheReadTokens = ag_CacheReadTokens row,
              su_ReasoningTokens = ag_ReasoningTokens row,
              su_SuccessRate = successRate,
              su_CostAvailable = fst cost,
              su_CostStatus = snd cost,
              su_CacheReadShare = share,
              su_CacheReadCoverage = coverage,
              su_CacheReadShareState = state,
              su_EstimatedCacheSavings = savings,
              su_Accounting = mapAnalyticsAccountingSummary row\<rparr>)"

section \<open>Comparison with the previous period\<close>

record analyticsComparison =
  cp_HasPreviousPeriod :: bool
  cp_TotalCostChangePct :: "float64 option"
  cp_TotalTokensChangePct :: "float64 option"
  cp_RequestCountChangePct :: "float64 option"
  cp_SuccessRateChangePP :: "float64 option"

definition analyticsPercentChange :: "float64 \<Rightarrow> float64 \<Rightarrow> float64 option" where
  "analyticsPercentChange current previous =
     (if previous = 0 then None else Some ((current - previous) / previous * 100))"

definition analyticsPointChange :: "float64 \<Rightarrow> float64 \<Rightarrow> float64 option" where
  "analyticsPointChange current previous = Some (current - previous)"

definition analyticsCostPercentChange :: "analyticsSummary \<Rightarrow> analyticsSummary \<Rightarrow> float64 option" where
  "analyticsCostPercentChange current previous =
     (if su_CostStatus current \<noteq> costStatusAvailable \<or> su_CostStatus previous \<noteq> costStatusAvailable
      then None else analyticsPercentChange (su_TotalCost current) (su_TotalCost previous))"

definition mapAnalyticsComparison :: "analyticsSummary \<Rightarrow> analyticsSummary \<Rightarrow> analyticsComparison" where
  "mapAnalyticsComparison current previous =
     (if su_RequestCount previous \<le>s 0
      then \<lparr>cp_HasPreviousPeriod = False, cp_TotalCostChangePct = None, cp_TotalTokensChangePct = None,
            cp_RequestCountChangePct = None, cp_SuccessRateChangePP = None\<rparr>
      else \<lparr>cp_HasPreviousPeriod = True,
            cp_TotalCostChangePct = analyticsCostPercentChange current previous,
            cp_TotalTokensChangePct = analyticsPercentChange (of_int (sint (su_TotalTokens current)))
              (of_int (sint (su_TotalTokens previous))),
            cp_RequestCountChangePct = analyticsPercentChange (of_int (sint (su_RequestCount current)))
              (of_int (sint (su_RequestCount previous))),
            cp_SuccessRateChangePP =
              analyticsPointChange (su_SuccessRate current) (su_SuccessRate previous)\<rparr>)"

end
