(* ===== verification/Backfill.thy ===== *)
theory Backfill
  imports EventStore
begin

text \<open>
  The backfill of the hourly rollups: the persistent progress row
  (\<open>repository/usage_rollup_backfill.go\<close>, \<open>repository/dto/usage_rollup_backfill.go\<close>), one batch
  (\<open>repository/usage_rollup_backfill_runner.go\<close>) and the loop of the runner
  (\<open>service/rollup_backfill_service.go\<close>). The columns \<open>name\<close>, \<open>created_at\<close> and \<open>updated_at\<close> of the
  row, which no operation reads back, are left out.
\<close>

section \<open>The progress row\<close>

record rollupBackfillStatus =
  bs_Status :: string
  bs_TargetBucketStart :: "instant option"
  bs_CoveredBucketStart :: "instant option"
  bs_StartedAt :: "instant option"
  bs_CompletedAt :: "instant option"
  bs_FailedAt :: "instant option"
  bs_LastError :: string

definition statusPending :: string where "statusPending = ''pending''"
definition statusRunning :: string where "statusRunning = ''running''"
definition statusCompleted :: string where "statusCompleted = ''completed''"
definition statusFailed :: string where "statusFailed = ''failed''"

lemmas status_defs = statusPending_def statusRunning_def statusCompleted_def statusFailed_def

definition emptyBackfillStatus :: rollupBackfillStatus where
  "emptyBackfillStatus = \<lparr>bs_Status = [], bs_TargetBucketStart = None, bs_CoveredBucketStart = None,
     bs_StartedAt = None, bs_CompletedAt = None, bs_FailedAt = None, bs_LastError = []\<rparr>"

definition pendingRollupBackfillStatus :: rollupBackfillStatus where
  "pendingRollupBackfillStatus = emptyBackfillStatus\<lparr>bs_Status := statusPending\<rparr>"

definition normalizeRollupBackfillStatus :: "rollupBackfillStatus \<Rightarrow> rollupBackfillStatus" where
  "normalizeRollupBackfillStatus status =
     (if bs_Status status = [] then status\<lparr>bs_Status := statusPending\<rparr> else status)"

record backfillDB =
  bf_store :: eventStore
  bf_state :: "rollupBackfillStatus option"

definition ensureUsageRollupBackfillState :: "backfillDB \<Rightarrow> backfillDB" where
  "ensureUsageRollupBackfillState db =
     (case bf_state db of
        None \<Rightarrow> db\<lparr>bf_state := Some pendingRollupBackfillStatus\<rparr>
      | Some _ \<Rightarrow> db)"

definition getUsageRollupBackfillStatus :: "backfillDB \<Rightarrow> rollupBackfillStatus" where
  "getUsageRollupBackfillStatus db =
     (case bf_state db of
        None \<Rightarrow> pendingRollupBackfillStatus
      | Some state \<Rightarrow> normalizeRollupBackfillStatus state)"

definition saveUsageRollupBackfillStatus :: "rollupBackfillStatus \<Rightarrow> backfillDB \<Rightarrow> backfillDB" where
  "saveUsageRollupBackfillStatus status db =
     db\<lparr>bf_state := Some (normalizeRollupBackfillStatus status)\<rparr>"

section \<open>One batch\<close>

definition defaultUsageRollupBackfillBatchHours :: int where
  "defaultUsageRollupBackfillBatchHours = 24"

definition rollupBackfillTarget :: "rollupBackfillStatus \<Rightarrow> instant \<Rightarrow> instant" where
  "rollupBackfillTarget status now =
     (case bs_TargetBucketStart status of
        Some t \<Rightarrow> truncateTo hour t
      | None \<Rightarrow> truncateTo hour now - hour)"

definition rollupBackfillTargetCovered :: "rollupBackfillStatus \<Rightarrow> bool" where
  "rollupBackfillTargetCovered status =
     (case (bs_TargetBucketStart status, bs_CoveredBucketStart status) of
        (Some t, Some c) \<Rightarrow> \<not> truncateTo hour c < truncateTo hour t
      | _ \<Rightarrow> False)"

text \<open>The bucket of the first row in timestamp order.\<close>

definition earliestUsageEventBucket :: "usageEvent list \<Rightarrow> instant option" where
  "earliestUsageEventBucket events =
     (if events = [] then None else Some (truncateTo hour (Min (ev_Timestamp ` set events))))"

record backfillBatchResult =
  bb_Status :: rollupBackfillStatus
  bb_Done :: bool
  bb_BatchStart :: "instant option"
  bb_BatchEnd :: "instant option"
  bb_RebuiltBucketCount :: nat

definition emptyBatchResult :: backfillBatchResult where
  "emptyBatchResult = \<lparr>bb_Status = emptyBackfillStatus, bb_Done = False, bb_BatchStart = None,
     bb_BatchEnd = None, bb_RebuiltBucketCount = 0\<rparr>"

text \<open>Which statement of a batch fails; a failure inside the transaction carries its message.\<close>

record backfillFaults =
  bx_ReadState :: bool
  bx_ReadEvents :: bool
  bx_Save :: bool
  bx_Tx :: "string option"
  bx_SaveFailed :: bool

definition noBackfillFaults :: backfillFaults where
  "noBackfillFaults = \<lparr>bx_ReadState = False, bx_ReadEvents = False, bx_Save = False,
     bx_Tx = None, bx_SaveFailed = False\<rparr>"

datatype backfillError = LoadStateFailed | LoadEarliestFailed | SaveStateFailed | BatchFailed string

text \<open>\<open>time.Duration(batchHours-1) * time.Hour\<close>, with the wrap-around of the 64-bit product.\<close>

definition batchSpan :: "int \<Rightarrow> duration" where
  "batchSpan batchHours = sint ((word_of_int (batchHours - 1) :: i64) * word_of_int hour)"

definition completeBackfill ::
  "backfillFaults \<Rightarrow> instant \<Rightarrow> instant \<Rightarrow> instant \<Rightarrow> backfillDB \<Rightarrow>
     backfillDB \<times> backfillBatchResult \<times> backfillError option" where
  "completeBackfill faults clock target startedAt db =
     (let status = emptyBackfillStatus\<lparr>bs_Status := statusCompleted, bs_TargetBucketStart := Some target,
            bs_CoveredBucketStart := Some target, bs_StartedAt := Some startedAt,
            bs_CompletedAt := Some clock\<rparr>
      in if bx_Save faults then (db, emptyBatchResult, Some SaveStateFailed)
         else (saveUsageRollupBackfillStatus status db,
               emptyBatchResult\<lparr>bb_Status := status, bb_Done := True\<rparr>, None))"

definition rebuildBackfillBatch ::
  "backfillFaults \<Rightarrow> instant \<Rightarrow> instant \<Rightarrow> instant \<Rightarrow> instant option \<Rightarrow> instant \<Rightarrow> int \<Rightarrow> backfillDB \<Rightarrow>
     backfillDB \<times> backfillBatchResult \<times> backfillError option" where
  "rebuildBackfillBatch faults clock target startedAt covered nxt batchHours db =
     (let batchEnd = (if target < nxt + batchSpan batchHours then target else nxt + batchSpan batchHours);
          running = emptyBackfillStatus\<lparr>bs_Status := statusRunning, bs_TargetBucketStart := Some target,
            bs_CoveredBucketStart := covered, bs_StartedAt := Some startedAt\<rparr>
      in if bx_Save faults then (db, emptyBatchResult, Some SaveStateFailed)
         else
           let db1 = saveUsageRollupBackfillStatus running db
           in case bx_Tx faults of
                Some msg \<Rightarrow>
                  let failed = running\<lparr>bs_Status := statusFailed, bs_FailedAt := Some clock,
                        bs_LastError := msg\<rparr>
                  in ((if bx_SaveFailed faults then db1 else saveUsageRollupBackfillStatus failed db1),
                      emptyBatchResult\<lparr>bb_Status := failed, bb_BatchStart := Some nxt,
                        bb_BatchEnd := Some batchEnd\<rparr>,
                      Some (BatchFailed msg))
              | None \<Rightarrow>
                  let db2 = saveUsageRollupBackfillStatus running db1;
                      db3 = db2\<lparr>bf_store := (bf_store db2)\<lparr>st_rollups :=
                        rebuildUsageRollupsForBucketRange (st_events (bf_store db2)) nxt batchEnd
                          (st_rollups (bf_store db2))\<rparr>\<rparr>;
                      finished = (\<not> batchEnd < target);
                      status0 = running\<lparr>bs_CoveredBucketStart := Some batchEnd\<rparr>;
                      status = (if finished
                        then status0\<lparr>bs_Status := statusCompleted, bs_CompletedAt := Some clock\<rparr>
                        else status0)
                  in (saveUsageRollupBackfillStatus status db3,
                      \<lparr>bb_Status = status, bb_Done = finished, bb_BatchStart = Some nxt,
                       bb_BatchEnd = Some batchEnd,
                       bb_RebuiltBucketCount = length (hourlyBucketRange nxt batchEnd)\<rparr>,
                      None))"

text \<open>\<open>wall\<close> is \<open>time.Now()\<close>, read only when the given clock is the zero time.\<close>

definition backfillUsageRollupsBatch ::
  "backfillFaults \<Rightarrow> instant \<Rightarrow> instant \<Rightarrow> int \<Rightarrow> backfillDB \<Rightarrow>
     backfillDB \<times> backfillBatchResult \<times> backfillError option" where
  "backfillUsageRollupsBatch faults wall now batchHours0 db =
     (let batchHours = (if batchHours0 \<le> 0 then defaultUsageRollupBackfillBatchHours else batchHours0);
          status = getUsageRollupBackfillStatus db
      in if bx_ReadState faults then (db, emptyBatchResult, Some LoadStateFailed)
         else if bs_Status status = statusCompleted \<and> rollupBackfillTargetCovered status
         then (db, emptyBatchResult\<lparr>bb_Status := status, bb_Done := True\<rparr>, None)
         else if bx_ReadEvents faults then (db, emptyBatchResult, Some LoadEarliestFailed)
         else
           let clock = (if isZero now then wall else now);
               target = rollupBackfillTarget status clock;
               startedAt = (case bs_StartedAt status of None \<Rightarrow> clock | Some s \<Rightarrow> s);
               covered = bs_CoveredBucketStart status
           in case earliestUsageEventBucket (st_events (bf_store db)) of
                None \<Rightarrow> completeBackfill faults clock target startedAt db
              | Some earliest \<Rightarrow>
                  if target < earliest then completeBackfill faults clock target startedAt db
                  else
                    let nxt = (case covered of None \<Rightarrow> earliest | Some c \<Rightarrow> truncateTo hour c + hour)
                    in if target < nxt then completeBackfill faults clock target startedAt db
                       else rebuildBackfillBatch faults clock target startedAt covered nxt batchHours db)"

section \<open>The runner\<close>

text \<open>
  One iteration of \<open>Run\<close>: the clock it reads and what fails in it. The list of the iterations ends
  where the context is cancelled during a sleep; \<open>None\<close> is then the returned \<open>ctx.Err()\<close>.
\<close>

record backfillTick =
  bt_wall :: instant
  bt_now :: instant
  bt_faults :: backfillFaults

fun runBackfill :: "backfillTick list \<Rightarrow> int \<Rightarrow> backfillDB \<Rightarrow> backfillDB \<times> backfillBatchResult option" where
  "runBackfill [] batchHours db = (db, None)"
| "runBackfill (t # ticks) batchHours db =
     (case backfillUsageRollupsBatch (bt_faults t) (bt_wall t) (bt_now t) batchHours db of
        (db', _, Some _) \<Rightarrow> runBackfill ticks batchHours db'
      | (db', result, None) \<Rightarrow>
          if bb_Done result then (db', Some result) else runBackfill ticks batchHours db')"

text \<open>\<open>NewUsageRollupBackfillRunner\<close>: the batch size, the idle interval and the backoff.\<close>

definition newUsageRollupBackfillRunner :: "int \<Rightarrow> duration \<Rightarrow> duration \<Rightarrow> int \<times> duration \<times> duration" where
  "newUsageRollupBackfillRunner batchHours idleInterval retryBackoff =
     ((if batchHours \<le> 0 then defaultUsageRollupBackfillBatchHours else batchHours),
      (if idleInterval \<le> 0 then 2 * second else idleInterval),
      (if retryBackoff \<le> 0 then 30 * second else retryBackoff))"

section \<open>The status of the backfill\<close>

text \<open>The largest batch for which the 64-bit product of \<open>batchSpan\<close> does not wrap.\<close>

definition maxBatchHours :: int where "maxBatchHours = 2562048"

lemma batchSpan_exact:
  assumes "0 < h" "h \<le> maxBatchHours"
  shows "batchSpan h = (h - 1) * hour"
proof -
  have small: "- (2 ^ 63) \<le> (h - 1) * hour" "(h - 1) * hour < 2 ^ 63"
    using assms by (auto simp: maxBatchHours_def hour_def)
  have "word_of_int (h - 1) * word_of_int hour = (word_of_int ((h - 1) * hour) :: i64)"
    by simp
  then have "batchSpan h = signed_take_bit 63 ((h - 1) * hour)"
    unfolding batchSpan_def by (simp only: sint_sbintrunc') simp
  then show ?thesis using small by (simp add: signed_take_bit_int_eq_self)
qed

definition effectiveHours :: "int \<Rightarrow> int" where
  "effectiveHours h = (if h \<le> 0 then defaultUsageRollupBackfillBatchHours else h)"

lemma effectiveHours_bounds: "h \<le> maxBatchHours \<Longrightarrow> 0 < effectiveHours h \<and> effectiveHours h \<le> maxBatchHours"
  by (simp add: effectiveHours_def defaultUsageRollupBackfillBatchHours_def maxBatchHours_def)

abbreviation aligned :: "instant \<Rightarrow> bool" where "aligned b \<equiv> truncateTo hour b = b"

lemma aligned_minus: "aligned b \<Longrightarrow> aligned (b - k * hour)"
  using truncateTo_hour_add [of b "- k"] by simp

lemma aligned_plus: "aligned b \<Longrightarrow> aligned (b + k * hour)"
  by (simp add: truncateTo_hour_add)

lemma aligned_minus1: "aligned b \<Longrightarrow> aligned (b - hour)"
  using aligned_minus [of b 1] by simp

lemma aligned_plus1: "aligned b \<Longrightarrow> aligned (b + hour)"
  using aligned_plus [of b 1] by simp

text \<open>Between aligned instants there are whole hours.\<close>

lemma aligned_step: "aligned a \<Longrightarrow> aligned b \<Longrightarrow> a < b \<Longrightarrow> a + hour \<le> b"
  using truncateTo_hour_eq_iff [of a b] by linarith

definition statusOK :: "rollupBackfillStatus \<Rightarrow> bool" where
  "statusOK s \<longleftrightarrow> bs_Status s \<noteq> [] \<and>
     (\<forall>t. bs_TargetBucketStart s = Some t \<longrightarrow> aligned t) \<and>
     (\<forall>c. bs_CoveredBucketStart s = Some c \<longrightarrow> aligned c \<and>
        (\<exists>t. bs_TargetBucketStart s = Some t \<and> c \<le> t)) \<and>
     (bs_Status s = statusCompleted \<longrightarrow> rollupBackfillTargetCovered s)"

text \<open>The row, when it is there, satisfies the invariant; a missing row reads as pending.\<close>

definition stateRowOK :: "backfillDB \<Rightarrow> bool" where
  "stateRowOK db \<longleftrightarrow> (\<forall>s. bf_state db = Some s \<longrightarrow> statusOK s)"

lemma normalize_id [simp]: "bs_Status s \<noteq> [] \<Longrightarrow> normalizeRollupBackfillStatus s = s"
  by (simp add: normalizeRollupBackfillStatus_def)

lemma statusOK_nonempty: "statusOK s \<Longrightarrow> bs_Status s \<noteq> []"
  by (simp add: statusOK_def)

lemma statusOK_pending: "statusOK pendingRollupBackfillStatus"
  by (simp add: statusOK_def pendingRollupBackfillStatus_def emptyBackfillStatus_def status_defs)

lemma get_ok: "stateRowOK db \<Longrightarrow> statusOK (getUsageRollupBackfillStatus db)"
  by (cases "bf_state db")
    (simp_all add: getUsageRollupBackfillStatus_def stateRowOK_def statusOK_pending statusOK_nonempty)

lemma get_save [simp]:
  "bs_Status s \<noteq> [] \<Longrightarrow> getUsageRollupBackfillStatus (saveUsageRollupBackfillStatus s db) = s"
  by (simp add: getUsageRollupBackfillStatus_def saveUsageRollupBackfillStatus_def)

lemma save_store [simp]: "bf_store (saveUsageRollupBackfillStatus s db) = bf_store db"
  by (simp add: saveUsageRollupBackfillStatus_def)

lemma save_row: "statusOK s \<Longrightarrow> stateRowOK (saveUsageRollupBackfillStatus s db)"
  by (simp add: stateRowOK_def saveUsageRollupBackfillStatus_def statusOK_nonempty)

lemma get_store_update [simp]:
  "getUsageRollupBackfillStatus (db\<lparr>bf_store := st\<rparr>) = getUsageRollupBackfillStatus db"
  by (simp add: getUsageRollupBackfillStatus_def)

section \<open>What one batch does\<close>

text \<open>
  The outcome of a batch, seen through the status it leaves: nothing changed; the whole target is
  covered; or the buckets from \<open>nxt\<close> to \<open>batchEnd\<close> are rebuilt, or only announced.
\<close>

datatype batchOutcome =
  Unchanged
| CoveredAll instant
| Rebuilt instant instant instant
| Announced instant

definition firstMissing :: "backfillDB \<Rightarrow> instant \<Rightarrow> bool" where
  "firstMissing db nxt \<longleftrightarrow> (\<exists>earliest. earliestUsageEventBucket (st_events (bf_store db)) = Some earliest \<and>
     nxt = (case bs_CoveredBucketStart (getUsageRollupBackfillStatus db) of
              None \<Rightarrow> earliest | Some c \<Rightarrow> truncateTo hour c + hour))"

fun outcome :: "backfillDB \<Rightarrow> backfillDB \<Rightarrow> batchOutcome \<Rightarrow> bool" where
  "outcome db db' Unchanged = (db' = db)"
| "outcome db db' (CoveredAll target) =
     (bf_store db' = bf_store db \<and>
      bs_TargetBucketStart (getUsageRollupBackfillStatus db') = Some target \<and>
      bs_CoveredBucketStart (getUsageRollupBackfillStatus db') = Some target \<and>
      (\<forall>earliest. earliestUsageEventBucket (st_events (bf_store db)) = Some earliest \<longrightarrow>
         target < earliest \<or> (\<exists>nxt. firstMissing db nxt \<and> target < nxt)))"
| "outcome db db' (Rebuilt nxt batchEnd target) =
     (firstMissing db nxt \<and> nxt \<le> batchEnd \<and> batchEnd \<le> target \<and>
      bf_store db' = (bf_store db)\<lparr>st_rollups :=
        rebuildUsageRollupsForBucketRange (st_events (bf_store db)) nxt batchEnd
          (st_rollups (bf_store db))\<rparr> \<and>
      bs_TargetBucketStart (getUsageRollupBackfillStatus db') = Some target \<and>
      bs_CoveredBucketStart (getUsageRollupBackfillStatus db') = Some batchEnd)"
| "outcome db db' (Announced target) =
     (bf_store db' = bf_store db \<and>
      bs_TargetBucketStart (getUsageRollupBackfillStatus db') = Some target \<and>
      bs_CoveredBucketStart (getUsageRollupBackfillStatus db') =
        bs_CoveredBucketStart (getUsageRollupBackfillStatus db))"

fun outcomeTarget :: "batchOutcome \<Rightarrow> instant option" where
  "outcomeTarget Unchanged = None"
| "outcomeTarget (CoveredAll target) = Some target"
| "outcomeTarget (Rebuilt nxt batchEnd target) = Some target"
| "outcomeTarget (Announced target) = Some target"

text \<open>The result a batch reports agrees with the row it leaves.\<close>

definition reported ::
  "backfillDB \<Rightarrow> backfillDB \<Rightarrow> batchOutcome \<Rightarrow> backfillBatchResult \<Rightarrow> backfillError option \<Rightarrow> bool" where
  "reported db db' oc r err \<longleftrightarrow>
     (err = None \<longrightarrow> bb_Status r = getUsageRollupBackfillStatus db' \<and>
        (if bb_Done r then bs_Status (getUsageRollupBackfillStatus db') = statusCompleted
         else \<exists>nxt batchEnd target. oc = Rebuilt nxt batchEnd target \<and> batchEnd < target)) \<and>
     (err \<noteq> None \<longrightarrow> oc = Unchanged \<or> (\<exists>target. oc = Announced target))"

lemma complete_outcome:
  assumes "stateRowOK db" "completeBackfill fl clock target startedAt db = (db', r, err)" "aligned target"
    "\<forall>earliest. earliestUsageEventBucket (st_events (bf_store db)) = Some earliest \<longrightarrow>
       target < earliest \<or> (\<exists>nxt. firstMissing db nxt \<and> target < nxt)"
  shows "stateRowOK db' \<and> (\<exists>oc. outcome db db' oc \<and> outcomeTarget oc \<in> {None, Some target} \<and>
    reported db db' oc r err) \<and> (err \<noteq> None \<longrightarrow> bx_Save fl)"
proof (cases "bx_Save fl")
  case True
  then have eqs: "db' = db" "err = Some SaveStateFailed"
    using assms(2) by (simp_all add: completeBackfill_def Let_def)
  have "outcome db db' Unchanged \<and> outcomeTarget Unchanged \<in> {None, Some target} \<and>
      reported db db' Unchanged r err"
    by (simp add: eqs reported_def)
  with eqs(1) assms(1) True show ?thesis by blast
next
  case False
  define status where "status = emptyBackfillStatus\<lparr>bs_Status := statusCompleted,
    bs_TargetBucketStart := Some target, bs_CoveredBucketStart := Some target,
    bs_StartedAt := Some startedAt, bs_CompletedAt := Some clock\<rparr>"
  have f: "bs_Status status = statusCompleted" "bs_TargetBucketStart status = Some target"
    "bs_CoveredBucketStart status = Some target" by (simp_all add: status_def)
  have eqs: "db' = saveUsageRollupBackfillStatus status db" "err = None" "bb_Done r" "bb_Status r = status"
    using assms(2) False by (auto simp: completeBackfill_def Let_def status_def)
  have ok: "statusOK status"
    using assms(3) by (simp add: statusOK_def f rollupBackfillTargetCovered_def statusCompleted_def)
  then have get: "getUsageRollupBackfillStatus db' = status"
    by (simp add: eqs(1) statusOK_nonempty)
  have "outcome db db' (CoveredAll target)" using assms(4) by (simp add: get f) (simp add: eqs(1))
  moreover have "reported db db' (CoveredAll target) r err" by (simp add: reported_def get f eqs(2-4))
  moreover have "stateRowOK db'" using ok by (simp add: eqs(1) save_row)
  moreover have "outcomeTarget (CoveredAll target) \<in> {None, Some target}" by simp
  ultimately show ?thesis using eqs(2) by blast
qed

lemma rebuild_outcome:
  assumes "stateRowOK db" "0 < h" "h \<le> maxBatchHours"
    "rebuildBackfillBatch fl clock target startedAt
       (bs_CoveredBucketStart (getUsageRollupBackfillStatus db)) nxt h db = (db', r, err)"
    "aligned target" "aligned nxt" "nxt \<le> target" "firstMissing db nxt"
    "\<forall>c. bs_CoveredBucketStart (getUsageRollupBackfillStatus db) = Some c \<longrightarrow> aligned c \<and> c \<le> target"
  shows "stateRowOK db' \<and> (\<exists>oc. outcome db db' oc \<and> outcomeTarget oc \<in> {None, Some target} \<and>
    reported db db' oc r err) \<and> (err \<noteq> None \<longrightarrow> bx_Save fl \<or> bx_Tx fl \<noteq> None)"
proof (cases "bx_Save fl")
  case True
  then have eqs: "db' = db" "err = Some SaveStateFailed"
    using assms(4) by (simp_all add: rebuildBackfillBatch_def Let_def)
  have "outcome db db' Unchanged \<and> outcomeTarget Unchanged \<in> {None, Some target} \<and>
      reported db db' Unchanged r err"
    by (simp add: eqs reported_def)
  with eqs(1) assms(1) True show ?thesis by blast
next
  case False
  let ?covered = "bs_CoveredBucketStart (getUsageRollupBackfillStatus db)"
  define batchEnd where
    "batchEnd = (if target < nxt + batchSpan h then target else nxt + batchSpan h)"
  define running where "running = emptyBackfillStatus\<lparr>bs_Status := statusRunning,
    bs_TargetBucketStart := Some target, bs_CoveredBucketStart := ?covered, bs_StartedAt := Some startedAt\<rparr>"
  have run: "bs_Status running = statusRunning" "bs_TargetBucketStart running = Some target"
    "bs_CoveredBucketStart running = ?covered" by (simp_all add: running_def)
  have span: "batchSpan h = (h - 1) * hour" using assms(2,3) by (rule batchSpan_exact)
  moreover have "0 \<le> (h - 1) * hour"
    using assms(2) by (intro mult_nonneg_nonneg) (simp_all add: hour_def)
  ultimately have ends: "nxt \<le> batchEnd" "batchEnd \<le> target" "aligned batchEnd"
    using assms(5,6,7) by (auto simp: batchEnd_def aligned_plus)
  have okrun: "statusOK (running\<lparr>bs_Status := s, bs_FailedAt := f, bs_LastError := e\<rparr>)"
    if "s \<noteq> []" "s \<noteq> statusCompleted" for s f e
    using that assms(5,9) by (simp add: statusOK_def run)
  have okrun0: "statusOK running"
    using assms(5,9) by (simp add: statusOK_def run status_defs)
  show ?thesis
  proof (cases "bx_Tx fl")
    case (Some msg)
    define failed where
      "failed = running\<lparr>bs_Status := statusFailed, bs_FailedAt := Some clock, bs_LastError := msg\<rparr>"
    have f: "bs_Status failed = statusFailed" "bs_TargetBucketStart failed = Some target"
      "bs_CoveredBucketStart failed = ?covered" by (simp_all add: failed_def run)
    have okf: "statusOK failed" unfolding failed_def by (rule okrun) (simp_all add: status_defs)
    let ?db1 = "saveUsageRollupBackfillStatus running db"
    have eqs: "db' = (if bx_SaveFailed fl then ?db1 else saveUsageRollupBackfillStatus failed ?db1)"
      "err = Some (BatchFailed msg)"
      using assms(4) False Some
      by (auto simp: rebuildBackfillBatch_def Let_def running_def failed_def)
    have "outcome db db' (Announced target)"
      using statusOK_nonempty [OF okf] statusOK_nonempty [OF okrun0] by (simp add: eqs(1) f run)
    moreover have "reported db db' (Announced target) r err" by (simp add: reported_def eqs)
    moreover have "stateRowOK db'" using okf okrun0 by (simp add: eqs(1) save_row)
    moreover have "outcomeTarget (Announced target) \<in> {None, Some target}" by simp
    ultimately show ?thesis using Some by blast
  next
    case None
    define finished where "finished = (\<not> batchEnd < target)"
    define status0 where "status0 = running\<lparr>bs_CoveredBucketStart := Some batchEnd\<rparr>"
    define status where "status = (if finished
      then status0\<lparr>bs_Status := statusCompleted, bs_CompletedAt := Some clock\<rparr> else status0)"
    have f: "bs_Status status = (if finished then statusCompleted else statusRunning)"
      "bs_TargetBucketStart status = Some target" "bs_CoveredBucketStart status = Some batchEnd"
      by (simp_all add: status_def status0_def run)
    have ok: "statusOK status"
      using assms(5) ends
      by (simp add: statusOK_def f rollupBackfillTargetCovered_def finished_def status_defs)
    let ?db2 = "saveUsageRollupBackfillStatus running (saveUsageRollupBackfillStatus running db)"
    let ?db3 = "?db2\<lparr>bf_store := (bf_store ?db2)\<lparr>st_rollups :=
      rebuildUsageRollupsForBucketRange (st_events (bf_store ?db2)) nxt batchEnd (st_rollups (bf_store ?db2))\<rparr>\<rparr>"
    have eqs: "db' = saveUsageRollupBackfillStatus status ?db3" "err = None" "bb_Done r = finished"
        "bb_Status r = status"
      using assms(4) False None
      by (auto simp: rebuildBackfillBatch_def Let_def running_def [symmetric] batchEnd_def [symmetric]
          finished_def [symmetric] status0_def [symmetric] status_def)
    have get: "getUsageRollupBackfillStatus db' = status" using ok by (simp add: eqs(1) statusOK_nonempty)
    have "outcome db db' (Rebuilt nxt batchEnd target)"
      using assms(8) ends(1,2) by (simp add: get f) (simp add: eqs(1))
    moreover have "reported db db' (Rebuilt nxt batchEnd target) r err"
      by (simp add: reported_def get f eqs(2-4)) (simp add: finished_def)
    moreover have "stateRowOK db'" using ok by (simp add: eqs(1) save_row)
    moreover have "outcomeTarget (Rebuilt nxt batchEnd target) \<in> {None, Some target}" by simp
    ultimately show ?thesis using eqs(2) by blast
  qed
qed

lemma target_aligned: "statusOK s \<Longrightarrow> aligned (rollupBackfillTarget s clock)"
  by (auto simp: rollupBackfillTarget_def statusOK_def aligned_minus1 split: option.split)

lemma target_covered_le:
  "statusOK s \<Longrightarrow> bs_CoveredBucketStart s = Some c \<Longrightarrow> aligned c \<and> c \<le> rollupBackfillTarget s clock"
  by (auto simp: rollupBackfillTarget_def statusOK_def split: option.split)

lemma earliest_aligned: "earliestUsageEventBucket es = Some b \<Longrightarrow> aligned b"
  by (auto simp: earliestUsageEventBucket_def split: if_splits)

text \<open>Every batch has one of the outcomes, keeps the row well formed and reports what it did.\<close>

lemma batch_outcome:
  assumes ok: "stateRowOK db" and hours: "h \<le> maxBatchHours"
    and run: "backfillUsageRollupsBatch fl wall now h db = (db', r, err)"
  shows "stateRowOK db' \<and>
    (\<exists>oc. outcome db db' oc \<and> reported db db' oc r err \<and>
       outcomeTarget oc \<in> {None, Some (rollupBackfillTarget (getUsageRollupBackfillStatus db)
                                    (if isZero now then wall else now))}) \<and>
    (err \<noteq> None \<longrightarrow> bx_ReadState fl \<or> bx_ReadEvents fl \<or> bx_Save fl \<or> bx_Tx fl \<noteq> None)"
proof -
  let ?status = "getUsageRollupBackfillStatus db"
  define clock where "clock = (if isZero now then wall else now)"
  define target where "target = rollupBackfillTarget ?status clock"
  define startedAt where "startedAt = (case bs_StartedAt ?status of None \<Rightarrow> clock | Some s \<Rightarrow> s)"
  have sok: "statusOK ?status" using ok by (rule get_ok)
  have al: "aligned target" unfolding target_def by (rule target_aligned [OF sok])
  have same: "outcome db db Unchanged" "outcomeTarget Unchanged = None" by simp_all
  show ?thesis
  proof (cases "bx_ReadState fl")
    case True
    then have "db' = db" "err = Some LoadStateFailed"
      using run by (simp_all add: backfillUsageRollupsBatch_def Let_def)
    moreover from this have "reported db db' Unchanged r err" by (simp add: reported_def)
    ultimately show ?thesis using ok True same by blast
  next
    case noRead: False
    show ?thesis
    proof (cases "bs_Status ?status = statusCompleted \<and> rollupBackfillTargetCovered ?status")
      case True
      then have "db' = db" "err = None" "bb_Done r" "bb_Status r = ?status"
        using run noRead by (auto simp: backfillUsageRollupsBatch_def Let_def)
      moreover from this True have "reported db db' Unchanged r err" by (simp add: reported_def)
      ultimately show ?thesis using ok same by blast
    next
      case going: False
      show ?thesis
      proof (cases "bx_ReadEvents fl")
        case True
        then have "db' = db" "err = Some LoadEarliestFailed"
          using run noRead going by (auto simp: backfillUsageRollupsBatch_def Let_def)
        moreover from this have "reported db db' Unchanged r err" by (simp add: reported_def)
        ultimately show ?thesis using ok True same by blast
      next
        case noEvents: False
        note unfolded = run [unfolded backfillUsageRollupsBatch_def Let_def, folded clock_def,
            folded target_def startedAt_def, folded effectiveHours_def]
        show ?thesis
        proof (cases "earliestUsageEventBucket (st_events (bf_store db))")
          case None
          then have "completeBackfill fl clock target startedAt db = (db', r, err)"
            using unfolded noRead going noEvents by simp
          from complete_outcome [OF ok this al] None show ?thesis
            unfolding target_def [unfolded clock_def, symmetric] by auto
        next
          case (Some earliest)
          let ?nxt = "case bs_CoveredBucketStart ?status of
            None \<Rightarrow> earliest | Some c \<Rightarrow> truncateTo hour c + hour"
          have first: "firstMissing db ?nxt" using Some by (auto simp: firstMissing_def)
          show ?thesis
          proof (cases "target < earliest \<or> target < ?nxt")
            case True
            then have "completeBackfill fl clock target startedAt db = (db', r, err)"
              using unfolded noRead going noEvents Some by (auto split: if_splits)
            from complete_outcome [OF ok this al] Some True first show ?thesis
              unfolding target_def [unfolded clock_def, symmetric] by auto
          next
            case False
            then have reb: "rebuildBackfillBatch fl clock target startedAt
                (bs_CoveredBucketStart ?status) ?nxt (effectiveHours h) db = (db', r, err)"
              using unfolded noRead going noEvents Some by auto
            have "aligned ?nxt"
              using earliest_aligned [OF Some] by (simp split: option.split add: truncateTo_hour_add1)
            moreover have "?nxt \<le> target" using False by simp
            moreover have "\<forall>c. bs_CoveredBucketStart ?status = Some c \<longrightarrow> aligned c \<and> c \<le> target"
              unfolding target_def using target_covered_le [OF sok] by blast
            ultimately have "stateRowOK db' \<and> (\<exists>oc. outcome db db' oc \<and>
                outcomeTarget oc \<in> {None, Some target} \<and> reported db db' oc r err) \<and>
                (err \<noteq> None \<longrightarrow> bx_Save fl \<or> bx_Tx fl \<noteq> None)"
              using effectiveHours_bounds [OF hours] first
              by (intro rebuild_outcome [OF ok _ _ reb al]) auto
            then show ?thesis unfolding target_def [unfolded clock_def, symmetric] by auto
          qed
        qed
      qed
    qed
  qed
qed

section \<open>What the rollups hold while the backfill runs\<close>

text \<open>
  A table left by the upgrade holds \<open>legacy\<close> events that were never rolled up. A bucket is
  maintained once the backfill has covered it, and from the start when it has no legacy event.
\<close>

definition maintained :: "usageEvent list \<Rightarrow> rollupBackfillStatus \<Rightarrow> instant \<Rightarrow> bool" where
  "maintained legacy s b \<longleftrightarrow>
     (\<exists>c. bs_CoveredBucketStart s = Some c \<and> b \<le> c) \<or> b \<notin> eventBucket ` set legacy"

text \<open>No rollup row without an event.\<close>

definition noPhantom :: "eventStore \<Rightarrow> bool" where
  "noPhantom st \<longleftrightarrow> (\<forall>k. map_of (st_rollups st) k \<noteq> None \<longrightarrow> groupOf k (st_events st) \<noteq> [])"

definition backfillOK :: "usageEvent list \<Rightarrow> backfillDB \<Rightarrow> bool" where
  "backfillOK legacy db \<longleftrightarrow> stateRowOK db \<and> noPhantom (bf_store db) \<and>
     storeOK (maintained legacy (getUsageRollupBackfillStatus db)) (bf_store db)"

lemma storeOK_mono:
  assumes "storeOK covered st" "\<And>k. \<lbrakk>covered' (rk_BucketStart k); aligned (rk_BucketStart k);
    \<not> covered (rk_BucketStart k)\<rbrakk> \<Longrightarrow> map_of (st_rollups st) k = rollupSpec (st_events st) k"
  shows "storeOK covered' st"
  using assms unfolding storeOK_def by blast

lemma groupOf_before_earliest:
  assumes "\<forall>earliest. earliestUsageEventBucket es = Some earliest \<longrightarrow> rk_BucketStart k < earliest"
  shows "groupOf k es = []"
proof (cases "es = []")
  case False
  have "truncateTo hour (Min (ev_Timestamp ` set es)) \<le> eventBucket e" if "e \<in> set es" for e
    unfolding eventBucket_def using that by (intro truncateTo_hour_mono Min_le) auto
  moreover have "rk_BucketStart k < truncateTo hour (Min (ev_Timestamp ` set es))"
    using assms False by (simp add: earliestUsageEventBucket_def)
  ultimately have "hourlyUsageRollupKey e \<noteq> k" if "e \<in> set es" for e
    using that key_bucket [of e] by force
  then show ?thesis by (simp add: groupOf_def filter_empty_conv)
qed simp

lemma empty_bucket_exact:
  "noPhantom st \<Longrightarrow> groupOf k (st_events st) = [] \<Longrightarrow> map_of (st_rollups st) k = rollupSpec (st_events st) k"
  by (auto simp: noPhantom_def rollupSpec_def)

text \<open>A bucket before the next one to rebuild is covered already, or has no event.\<close>

lemma before_firstMissing:
  assumes "firstMissing db nxt" "stateRowOK db" "aligned (rk_BucketStart k)" "rk_BucketStart k < nxt"
    "\<not> (\<exists>c. bs_CoveredBucketStart (getUsageRollupBackfillStatus db) = Some c \<and> rk_BucketStart k \<le> c)"
  shows "groupOf k (st_events (bf_store db)) = []"
proof (cases "bs_CoveredBucketStart (getUsageRollupBackfillStatus db)")
  case None
  with assms(1,4) show ?thesis
    by (intro groupOf_before_earliest) (auto simp: firstMissing_def)
next
  case (Some c)
  have "aligned c" using get_ok [OF assms(2)] Some by (auto simp: statusOK_def)
  moreover have "nxt = truncateTo hour c + hour" using assms(1) Some by (auto simp: firstMissing_def)
  moreover have "c < rk_BucketStart k" using assms(5) Some by auto
  ultimately have False using aligned_step [of c "rk_BucketStart k"] assms(3,4) by simp
  then show ?thesis ..
qed

lemma firstMissing_aligned: "firstMissing db nxt \<Longrightarrow> aligned nxt"
  by (auto simp: firstMissing_def earliest_aligned truncateTo_hour_add1 split: option.split)

lemma rebuild_noPhantom:
  assumes "noPhantom st" "storeOK covered st"
  shows "noPhantom (st\<lparr>st_rollups := rebuildUsageRollupsForBucketRange (st_events st) a b (st_rollups st)\<rparr>)"
proof -
  have "\<forall>e \<in> set (st_events st). storedOK e" and tab: "rollupTableOK (st_rollups st)"
    using assms(2) by (auto simp: storeOK_def stateOK_def)
  note look = rebuildRange_lookup [OF this(1)] and ok = rebuildRange_ok [OF tab, of "st_events st" a b]
  let ?rows = "rebuildUsageRollupsForBucketRange (st_events st) a b (st_rollups st)"
  have "groupOf k (st_events st) \<noteq> []" if row: "map_of ?rows k \<noteq> None" for k
  proof -
    have "k \<in> fst ` set ?rows" using row by (simp add: map_of_eq_None_iff)
    then have al: "aligned (rk_BucketStart k)" using ok by (auto simp: rollupTableOK_def)
    have "rollupSpec (st_events st) k \<noteq> None \<or> map_of (st_rollups st) k \<noteq> None"
      using row unfolding look [OF al] by (simp split: if_splits)
    then show ?thesis
    proof
      assume "rollupSpec (st_events st) k \<noteq> None"
      then show ?thesis by (simp add: rollupSpec_def Let_def split: if_splits)
    next
      assume "map_of (st_rollups st) k \<noteq> None"
      then show ?thesis using assms(1) by (simp add: noPhantom_def)
    qed
  qed
  then show ?thesis by (simp add: noPhantom_def)
qed

lemma rebuild_storeOK:
  assumes "storeOK covered st"
    "\<And>k. \<lbrakk>covered' (rk_BucketStart k); aligned (rk_BucketStart k); \<not> covered (rk_BucketStart k);
       \<not> (truncateTo hour a \<le> rk_BucketStart k \<and> rk_BucketStart k \<le> truncateTo hour b)\<rbrakk>
       \<Longrightarrow> map_of (st_rollups st) k = rollupSpec (st_events st) k"
  shows "storeOK covered'
    (st\<lparr>st_rollups := rebuildUsageRollupsForBucketRange (st_events st) a b (st_rollups st)\<rparr>)"
proof -
  have st: "\<forall>e \<in> set (st_events st). stateOK e" "distinct (map ev_EventKey (st_events st))"
    "rollupTableOK (st_rollups st)"
    "\<And>k. covered (rk_BucketStart k) \<Longrightarrow> aligned (rk_BucketStart k) \<Longrightarrow>
       map_of (st_rollups st) k = rollupSpec (st_events st) k"
    using assms(1) by (auto simp: storeOK_def)
  have "\<forall>e \<in> set (st_events st). storedOK e" using st(1) by (auto simp: stateOK_def)
  note look = rebuildRange_lookup [OF this]
  have "map_of (rebuildUsageRollupsForBucketRange (st_events st) a b (st_rollups st)) k =
      rollupSpec (st_events st) k" if "covered' (rk_BucketStart k)" "aligned (rk_BucketStart k)" for k
    unfolding look [OF that(2)] using st(4) assms(2) that by (simp split: if_splits) blast
  then show ?thesis using st(1,2) rebuildRange_ok [OF st(3)] by (simp add: storeOK_def)
qed

lemma batch_backfillOK:
  assumes ok: "backfillOK legacy db" and hours: "h \<le> maxBatchHours"
    and run: "backfillUsageRollupsBatch fl wall now h db = (db', r, err)"
  shows "backfillOK legacy db'"
proof -
  have row: "stateRowOK db" and ph: "noPhantom (bf_store db)"
    and st: "storeOK (maintained legacy (getUsageRollupBackfillStatus db)) (bf_store db)"
    using ok by (simp_all add: backfillOK_def)
  obtain oc where row': "stateRowOK db'" and oc: "outcome db db' oc"
    using batch_outcome [OF row hours run] by blast
  show ?thesis
  proof (cases oc)
    case Unchanged
    with oc ok show ?thesis by simp
  next
    case (Announced target)
    with oc have "bf_store db' = bf_store db" "maintained legacy (getUsageRollupBackfillStatus db') =
        maintained legacy (getUsageRollupBackfillStatus db)" by (auto simp: maintained_def fun_eq_iff)
    with ph st row' show ?thesis by (simp add: backfillOK_def)
  next
    case (CoveredAll target)
    with oc have f: "bf_store db' = bf_store db"
        "bs_CoveredBucketStart (getUsageRollupBackfillStatus db') = Some target"
        "\<forall>earliest. earliestUsageEventBucket (st_events (bf_store db)) = Some earliest \<longrightarrow>
           target < earliest \<or> (\<exists>nxt. firstMissing db nxt \<and> target < nxt)" by auto
    have "storeOK (maintained legacy (getUsageRollupBackfillStatus db')) (bf_store db)"
    proof (rule storeOK_mono [OF st])
      fix k :: rollupKey
      assume k: "maintained legacy (getUsageRollupBackfillStatus db') (rk_BucketStart k)"
        "aligned (rk_BucketStart k)"
        "\<not> maintained legacy (getUsageRollupBackfillStatus db) (rk_BucketStart k)"
      then have le: "rk_BucketStart k \<le> target" by (auto simp: maintained_def f(2))
      have none: "\<not> (\<exists>c. bs_CoveredBucketStart (getUsageRollupBackfillStatus db) = Some c \<and>
          rk_BucketStart k \<le> c)" using k(3) by (auto simp: maintained_def)
      have "groupOf k (st_events (bf_store db)) = []"
      proof (cases "\<exists>nxt. firstMissing db nxt \<and> target < nxt")
        case True
        with le obtain nxt where "firstMissing db nxt" "rk_BucketStart k < nxt" by auto
        from before_firstMissing [OF this(1) row k(2) this(2) none] show ?thesis .
      next
        case False
        with f(3) le show ?thesis by (intro groupOf_before_earliest) fastforce
      qed
      then show "map_of (st_rollups (bf_store db)) k = rollupSpec (st_events (bf_store db)) k"
        by (rule empty_bucket_exact [OF ph])
    qed
    with ph row' f(1) show ?thesis by (simp add: backfillOK_def)
  next
    case (Rebuilt nxt batchEnd target)
    with oc have f: "firstMissing db nxt" "nxt \<le> batchEnd"
        "bf_store db' = (bf_store db)\<lparr>st_rollups := rebuildUsageRollupsForBucketRange
           (st_events (bf_store db)) nxt batchEnd (st_rollups (bf_store db))\<rparr>"
        "bs_CoveredBucketStart (getUsageRollupBackfillStatus db') = Some batchEnd" by auto
    have al: "aligned nxt" "aligned batchEnd"
      using firstMissing_aligned [OF f(1)] get_ok [OF row'] f(4) by (auto simp: statusOK_def)
    have "storeOK (maintained legacy (getUsageRollupBackfillStatus db')) (bf_store db')"
      unfolding f(3)
    proof (rule rebuild_storeOK [OF st])
      fix k :: rollupKey
      assume k: "maintained legacy (getUsageRollupBackfillStatus db') (rk_BucketStart k)"
        "aligned (rk_BucketStart k)"
        "\<not> maintained legacy (getUsageRollupBackfillStatus db) (rk_BucketStart k)"
        "\<not> (truncateTo hour nxt \<le> rk_BucketStart k \<and> rk_BucketStart k \<le> truncateTo hour batchEnd)"
      then have lt: "rk_BucketStart k < nxt" by (auto simp: maintained_def f(4) al)
      have none: "\<not> (\<exists>c. bs_CoveredBucketStart (getUsageRollupBackfillStatus db) = Some c \<and>
          rk_BucketStart k \<le> c)" using k(3) by (auto simp: maintained_def)
      from before_firstMissing [OF f(1) row k(2) lt none]
      show "map_of (st_rollups (bf_store db)) k = rollupSpec (st_events (bf_store db)) k"
        by (rule empty_bucket_exact [OF ph])
    qed
    with rebuild_noPhantom [OF ph st] row' f(3) show ?thesis by (simp add: backfillOK_def)
  qed
qed

section \<open>The backfill beside the intake\<close>

text \<open>An insert of events, whatever its outcome.\<close>

lemma increment_row:
  assumes "map_of (incrementUsageRollupsForEvents new rows) k \<noteq> None"
  shows "map_of rows k \<noteq> None \<or> groupOf k new \<noteq> []"
proof (cases "new = []")
  case True
  with assms show ?thesis by (simp add: incrementUsageRollupsForEvents_def)
next
  case False
  have "map_of rows k \<noteq> None \<or> rollupSpec new k \<noteq> None"
    using assms False
    by (auto simp: incrementUsageRollupsForEvents_def fold_upsert_lookup build_events_distinct
        build_events_lookup split: option.splits)
  then show ?thesis by (auto simp: rollupSpec_def)
qed

lemma insert_backfillOK:
  assumes ok: "backfillOK legacy db" and evs: "\<forall>e \<in> set events. timed e \<and> keyOK e"
    and run: "insertUsageEvents fault events (bf_store db) = (st', res)"
  shows "backfillOK legacy (db\<lparr>bf_store := st'\<rparr>)"
proof (cases "st' = bf_store db")
  case True
  with ok show ?thesis by (simp add: backfillOK_def stateRowOK_def)
next
  case False
  have st: "storeOK (maintained legacy (getUsageRollupBackfillStatus db)) (bf_store db)"
    and row: "stateRowOK db" and ph: "noPhantom (bf_store db)" using ok by (simp_all add: backfillOK_def)
  obtain n where res: "res = Inr n" using False run by (cases res) (auto dest: sink.ins_error)
  obtain stated where stated: "stateEvents events = Inr stated"
    using False run by (cases "stateEvents events") (auto simp: insertUsageEvents_def split: if_splits)
  then have good: "\<forall>e \<in> set events. timed e \<and> keyOK e \<and> \<not> refused e"
    using evs by (simp add: stateEvents_Inr)
  have fault: "\<not> fault" using False run stated by (auto simp: insertUsageEvents_def split: if_splits)
  have all: "\<forall>e \<in> set (st_events (bf_store db)). stateOK e" using st by (simp add: storeOK_def)
  obtain st2 new where eff: "insertUsageEvents False events (bf_store db) =
        (st2, Inr (length new, length events - length new))"
    and new2: "st_events st2 = st_events (bf_store db) @ new"
      "st_rollups st2 = incrementUsageRollupsForEvents new (st_rollups (bf_store db))"
      "\<forall>e \<in> set new. stateOK e" "eventKeys new = eventKeys events - eventKeys (st_events (bf_store db))"
      "distinct (map ev_EventKey new)"
    by (rule insert_effect [OF good all])
  have "st2 = st'" using eff run fault by simp
  note new = new2 [unfolded this]
  have "storeOK (maintained legacy (getUsageRollupBackfillStatus db)) st'"
    using new(4) by (intro storeOK_insert [OF st new(1,3,2) _ new(5)]) blast
  moreover have "noPhantom st'"
    unfolding noPhantom_def
  proof (intro allI impI)
    fix k assume "map_of (st_rollups st') k \<noteq> None"
    then have "map_of (st_rollups (bf_store db)) k \<noteq> None \<or> groupOf k new \<noteq> []"
      unfolding new(2) by (rule increment_row)
    then show "groupOf k (st_events st') \<noteq> []" using ph by (auto simp: new(1) noPhantom_def)
  qed
  ultimately show ?thesis using row by (simp add: backfillOK_def stateRowOK_def)
qed

text \<open>
  The steps of the service: a batch of the runner, with any clock and any failure, or an insert by
  the intake. Each is atomic: SQLite has one writer.
\<close>

inductive backfill_step :: "int \<Rightarrow> backfillDB \<Rightarrow> backfillDB \<Rightarrow> bool" for h where
  batch: "backfillUsageRollupsBatch faults wall now h db = (db', r, err) \<Longrightarrow> backfill_step h db db'"
| ensure: "backfill_step h db (ensureUsageRollupBackfillState db)"
| insert: "\<lbrakk>\<forall>e \<in> set events. timed e \<and> keyOK e;
     insertUsageEvents fault events (bf_store db) = (st', res)\<rbrakk> \<Longrightarrow>
     backfill_step h db (db\<lparr>bf_store := st'\<rparr>)"

inductive_cases backfill_stepE: "backfill_step h db db'"

lemma ensure_backfillOK: "backfillOK legacy db \<Longrightarrow> backfillOK legacy (ensureUsageRollupBackfillState db)"
  by (cases "bf_state db")
    (auto simp: ensureUsageRollupBackfillState_def backfillOK_def stateRowOK_def statusOK_pending
      getUsageRollupBackfillStatus_def statusOK_nonempty)

lemma backfill_step_ok:
  assumes "backfill_step h db db'" "h \<le> maxBatchHours" "backfillOK legacy db"
  shows "backfillOK legacy db'"
  using assms by (elim backfill_stepE) (auto intro: batch_backfillOK ensure_backfillOK insert_backfillOK)

text \<open>What the upgrade leaves: stored events and an empty rollup table.\<close>

definition upgradedDB :: "usageEvent list \<Rightarrow> backfillDB \<Rightarrow> bool" where
  "upgradedDB legacy db \<longleftrightarrow> st_events (bf_store db) = legacy \<and> st_rollups (bf_store db) = [] \<and>
     bf_state db = None \<and> (\<forall>e \<in> set legacy. stateOK e) \<and> distinct (map ev_EventKey legacy)"

lemma upgraded_ok: "upgradedDB legacy db \<Longrightarrow> backfillOK legacy db"
proof -
  assume up: "upgradedDB legacy db"
  have "rollupSpec legacy k = None" if "rk_BucketStart k \<notin> eventBucket ` set legacy" for k
  proof -
    have "groupOf k legacy = []" using that by (auto simp: groupOf_def filter_empty_conv)
    then show ?thesis by (simp add: rollupSpec_def)
  qed
  with up show "backfillOK legacy db"
    by (auto simp: upgradedDB_def backfillOK_def stateRowOK_def noPhantom_def storeOK_def
        rollupTableOK_def maintained_def getUsageRollupBackfillStatus_def
        pendingRollupBackfillStatus_def emptyBackfillStatus_def)
qed

lemma backfill_reachable_ok:
  assumes "upgradedDB legacy db0" "(backfill_step h)\<^sup>*\<^sup>* db0 db" "h \<le> maxBatchHours"
  shows "backfillOK legacy db"
  using assms(2,1)
proof (induction rule: rtranclp_induct)
  case base
  then show ?case by (rule upgraded_ok)
next
  case (step y z)
  with assms(3) show ?case by (blast intro: backfill_step_ok)
qed

section \<open>The runner terminates\<close>

text \<open>How many fault-free batches are left, when no target lies after \<open>limit\<close>.\<close>

definition batchesLeft :: "instant \<Rightarrow> backfillDB \<Rightarrow> nat" where
  "batchesLeft limit db =
     (case bs_CoveredBucketStart (getUsageRollupBackfillStatus db) of
        Some c \<Rightarrow> Suc (nat ((limit - c) div hour))
      | None \<Rightarrow>
          (case earliestUsageEventBucket (st_events (bf_store db)) of
             None \<Rightarrow> 1
           | Some earliest \<Rightarrow> Suc (Suc (nat ((limit - earliest) div hour)))))"

lemma hours_between: "a + hour \<le> b \<Longrightarrow> b \<le> limit \<Longrightarrow>
  nat ((limit - b) div hour) < nat ((limit - a) div hour)"
proof -
  assume "a + hour \<le> b" "b \<le> limit"
  then have "(limit - b) div hour \<le> (limit - a - hour) div hour" by (intro zdiv_mono1) simp_all
  moreover have "(limit - a - hour) div hour = (limit - a) div hour - 1"
    using div_add_self2 [of hour "limit - a - hour"] by simp
  moreover have "0 \<le> (limit - b) div hour" using \<open>b \<le> limit\<close>
    by (simp add: pos_imp_zdiv_nonneg_iff)
  ultimately show ?thesis by linarith
qed

lemma hours_mono: "a \<le> b \<Longrightarrow> nat ((limit - b) div hour) \<le> nat ((limit - a) div hour)"
  by (intro nat_mono zdiv_mono1) simp_all

lemma rebuilt_progress:
  assumes "outcome db db' (Rebuilt nxt batchEnd target)" "target \<le> limit" "stateRowOK db"
  shows "batchesLeft limit db' < batchesLeft limit db"
proof -
  have f: "firstMissing db nxt" "nxt \<le> batchEnd" "batchEnd \<le> target"
      "bs_CoveredBucketStart (getUsageRollupBackfillStatus db') = Some batchEnd"
    using assms(1) by auto
  show ?thesis
  proof (cases "bs_CoveredBucketStart (getUsageRollupBackfillStatus db)")
    case None
    with f(1) have "earliestUsageEventBucket (st_events (bf_store db)) = Some nxt"
      by (auto simp: firstMissing_def)
    with None f(2) show ?thesis by (simp add: batchesLeft_def f(4) less_Suc_eq_le hours_mono)
  next
    case (Some c)
    then have "aligned c" using get_ok [OF assms(3)] by (auto simp: statusOK_def)
    with f(1) Some have "nxt = c + hour" by (auto simp: firstMissing_def)
    with f(2,3) assms(2) have "nat ((limit - batchEnd) div hour) < nat ((limit - c) div hour)"
      by (intro hours_between) simp_all
    with Some show ?thesis by (simp add: batchesLeft_def f(4))
  qed
qed

definition targetBelow :: "instant \<Rightarrow> backfillDB \<Rightarrow> bool" where
  "targetBelow limit db \<longleftrightarrow>
     (\<forall>t. bs_TargetBucketStart (getUsageRollupBackfillStatus db) = Some t \<longrightarrow> t \<le> limit)"

definition tickClock :: "backfillTick \<Rightarrow> instant" where
  "tickClock t = (if isZero (bt_now t) then bt_wall t else bt_now t)"

lemma target_le_limit:
  assumes "targetBelow limit db" "stateRowOK db" "truncateTo hour clock - hour \<le> limit"
  shows "rollupBackfillTarget (getUsageRollupBackfillStatus db) clock \<le> limit"
  using assms get_ok [OF assms(2)]
  by (auto simp: targetBelow_def rollupBackfillTarget_def statusOK_def split: option.split)

text \<open>
  A batch that does not finish brings the rest down when nothing fails in it; when something fails,
  it loses nothing.
\<close>

lemma tick_progress:
  assumes ok: "stateRowOK db" and hours: "h \<le> maxBatchHours" and below: "targetBelow limit db"
    and clock: "truncateTo hour (tickClock t) - hour \<le> limit"
    and run: "backfillUsageRollupsBatch (bt_faults t) (bt_wall t) (bt_now t) h db = (db', r, err)"
    and going: "err \<noteq> None \<or> \<not> bb_Done r"
  shows "stateRowOK db' \<and> targetBelow limit db' \<and> batchesLeft limit db' \<le> batchesLeft limit db \<and>
    (bt_faults t = noBackfillFaults \<longrightarrow> err = None \<and> batchesLeft limit db' < batchesLeft limit db)"
proof -
  let ?target = "rollupBackfillTarget (getUsageRollupBackfillStatus db) (tickClock t)"
  note all = batch_outcome [OF ok hours run, folded tickClock_def]
  from all obtain oc where o: "outcome db db' oc" "reported db db' oc r err"
      "outcomeTarget oc \<in> {None, Some ?target}" by (elim conjE exE)
  have row': "stateRowOK db'" using all by (rule conjunct1)
  have err: "err \<noteq> None \<longrightarrow> bx_ReadState (bt_faults t) \<or> bx_ReadEvents (bt_faults t) \<or>
      bx_Save (bt_faults t) \<or> bx_Tx (bt_faults t) \<noteq> None"
    using all by (elim conjE)
  have tl: "?target \<le> limit" using target_le_limit [OF below ok clock] .
  have free: "bt_faults t = noBackfillFaults \<Longrightarrow> err = None"
    using err by (auto simp: noBackfillFaults_def)
  have rebuilt: "err = None \<Longrightarrow> \<exists>nxt batchEnd. oc = Rebuilt nxt batchEnd ?target"
    using o(2,3) going by (auto simp: reported_def split: if_splits)
  have below': "targetBelow limit db'"
    using o(1,3) below tl by (cases oc) (auto simp: targetBelow_def)
  have "batchesLeft limit db' \<le> batchesLeft limit db \<and>
      (err = None \<longrightarrow> batchesLeft limit db' < batchesLeft limit db)"
  proof (cases "err = None")
    case True
    then obtain nxt batchEnd where "oc = Rebuilt nxt batchEnd ?target" using rebuilt by blast
    with o(1) have "outcome db db' (Rebuilt nxt batchEnd ?target)" by (simp only:)
    from rebuilt_progress [OF this tl ok] show ?thesis by simp
  next
    case False
    then have "oc = Unchanged \<or> (\<exists>target. oc = Announced target)" using o(2) by (simp add: reported_def)
    then have "batchesLeft limit db' = batchesLeft limit db"
      using o(1) by (elim disjE exE) (simp_all add: batchesLeft_def split: option.split)
    with False show ?thesis by simp
  qed
  with row' below' free show ?thesis by blast
qed

text \<open>The loop returns once the fault-free iterations suffice.\<close>

lemma run_terminates:
  assumes "stateRowOK db" "h \<le> maxBatchHours" "targetBelow limit db"
    "\<forall>t \<in> set ticks. truncateTo hour (tickClock t) - hour \<le> limit"
    "batchesLeft limit db \<le> length (filter (\<lambda>t. bt_faults t = noBackfillFaults) ticks)"
  shows "\<exists>db' r. runBackfill ticks h db = (db', Some r) \<and>
    bs_Status (bb_Status r) = statusCompleted \<and> bb_Status r = getUsageRollupBackfillStatus db'"
  using assms(1,3-5)
proof (induction ticks arbitrary: db)
  case Nil
  then show ?case by (simp add: batchesLeft_def split: option.splits)
next
  case (Cons t ticks)
  obtain db1 r err where b:
    "backfillUsageRollupsBatch (bt_faults t) (bt_wall t) (bt_now t) h db = (db1, r, err)"
    by (rule prod_cases3)
  show ?case
  proof (cases "err = None \<and> bb_Done r")
    case True
    obtain oc where "reported db db1 oc r err"
      using batch_outcome [OF Cons.prems(1) assms(2) b] by blast
    with True b show ?thesis by (simp add: reported_def)
  next
    case False
    then have "err \<noteq> None \<or> \<not> bb_Done r" by simp
    moreover have "truncateTo hour (tickClock t) - hour \<le> limit" using Cons.prems(3) by simp
    ultimately have p: "stateRowOK db1" "targetBelow limit db1" "batchesLeft limit db1 \<le> batchesLeft limit db"
      "bt_faults t = noBackfillFaults \<longrightarrow> err = None \<and> batchesLeft limit db1 < batchesLeft limit db"
      using tick_progress [OF Cons.prems(1) assms(2) Cons.prems(2) _ b] by blast+
    have enough: "batchesLeft limit db1 \<le> length (filter (\<lambda>t. bt_faults t = noBackfillFaults) ticks)"
      using p(3,4) Cons.prems(4) by (cases "bt_faults t = noBackfillFaults") simp_all
    have "runBackfill (t # ticks) h db = runBackfill ticks h db1"
      using False by (cases err) (simp_all add: b)
    with Cons.IH [OF p(1,2) _ enough] Cons.prems(3) show ?thesis by simp
  qed
qed

section \<open>Properties\<close>

text \<open>
  C11. Once the backfill reports completion, the rollups it covers are exact. Starting from a store
  of legacy events and an empty rollup table, after any interleaving of batches (failing anywhere,
  at any clock) and inserts by the intake: if the row says \<open>completed\<close>, it has a target that is
  covered, and every row of an hour up to the target, and of every hour without legacy events, is
  the aggregate of all the stored events of its key; no other row exists there.
\<close>

theorem backfill_exact:
  assumes "upgradedDB legacy db0" "(backfill_step h)\<^sup>*\<^sup>* db0 db" "h \<le> maxBatchHours"
    "bs_Status (getUsageRollupBackfillStatus db) = statusCompleted"
  shows "\<exists>target. bs_TargetBucketStart (getUsageRollupBackfillStatus db) = Some target \<and>
    (\<forall>k. aligned (rk_BucketStart k) \<and>
       (rk_BucketStart k \<le> target \<or> rk_BucketStart k \<notin> eventBucket ` set legacy) \<longrightarrow>
       map_of (st_rollups (bf_store db)) k = rollupSpec (st_events (bf_store db)) k)"
proof -
  let ?s = "getUsageRollupBackfillStatus db"
  have ok: "backfillOK legacy db" by (rule backfill_reachable_ok [OF assms(1-3)])
  then have "statusOK ?s" by (simp add: backfillOK_def get_ok)
  then obtain t c where tc: "bs_TargetBucketStart ?s = Some t" "bs_CoveredBucketStart ?s = Some c" "t \<le> c"
    using assms(4) by (auto simp: statusOK_def rollupBackfillTargetCovered_def split: option.splits)
  have "maintained legacy ?s b" if "b \<le> t \<or> b \<notin> eventBucket ` set legacy" for b
    using that tc(2,3) by (auto simp: maintained_def)
  with ok tc(1) show ?thesis by (auto simp: backfillOK_def storeOK_def)
qed

definition legacyEvent :: usageEvent where
  "legacyEvent = statedEvent (sampleEvent\<lparr>ev_ID := 1, ev_EventKey := ''k'', ev_Timestamp := 36300 * second\<rparr>)"

definition legacyDB :: backfillDB where
  "legacyDB = \<lparr>bf_store = \<lparr>st_events = [legacyEvent], st_next = 2, st_rollups = []\<rparr>, bf_state = None\<rparr>"

lemma legacyEvent_ok: "stateOK legacyEvent"
proof -
  have "\<not> refused sampleEvent" by (simp add: refused_def sampleEvent_def sample_validated)
  then have "\<not> refused (sampleEvent\<lparr>ev_ID := 1, ev_EventKey := ''k'', ev_Timestamp := 36300 * second\<rparr>)"
    by (simp add: refused_def)
  moreover have "timed (sampleEvent\<lparr>ev_ID := 1, ev_EventKey := ''k'', ev_Timestamp := 36300 * second\<rparr>)"
    by (simp add: timed_def zero_time_def second_def)
  moreover have "keyOK (sampleEvent\<lparr>ev_ID := 1, ev_EventKey := ''k'', ev_Timestamp := 36300 * second\<rparr>)"
    by (simp add: keyOK_def trimmed_def ws_seqs_def)
  ultimately show ?thesis unfolding legacyEvent_def by (rule statedEvent_ok)
qed

lemma legacyDB_upgraded: "upgradedDB [legacyEvent] legacyDB"
  using legacyEvent_ok by (simp add: upgradedDB_def legacyDB_def)

text \<open>The clock of the examples: \<open>hh\<close> hours and \<open>mm\<close> minutes after the epoch.\<close>

abbreviation clockAt :: "int \<Rightarrow> int \<Rightarrow> instant" where
  "clockAt hh mm \<equiv> hh * hour + mm * minute"

lemma clock_hours: "truncateTo hour (36300 * second) = 10 * hour"
  "truncateTo hour (clockAt 10 30) = 10 * hour" "truncateTo hour (clockAt 11 30) = 11 * hour"
  by (simp_all add: truncateTo_hour second_def minute_def) (simp_all add: hour_def)

lemma legacyEvent_earliest: "earliestUsageEventBucket [legacyEvent] = Some (10 * hour)"
  by (simp add: earliestUsageEventBucket_def legacyEvent_def statedEvent_def clock_hours)

lemma legacyDB_get: "getUsageRollupBackfillStatus legacyDB = pendingRollupBackfillStatus"
  by (simp add: getUsageRollupBackfillStatus_def legacyDB_def)

lemma legacyDB_store: "st_events (bf_store legacyDB) = [legacyEvent]" "st_rollups (bf_store legacyDB) = []"
  by (simp_all add: legacyDB_def)

lemma legacyDB_batch:
  assumes "truncateTo hour now = hh * hour" "\<not> isZero now"
  shows "backfillUsageRollupsBatch noBackfillFaults wall now 24 legacyDB =
    (if (hh - 1) * hour < 10 * hour
     then completeBackfill noBackfillFaults now ((hh - 1) * hour) now legacyDB
     else rebuildBackfillBatch noBackfillFaults now ((hh - 1) * hour) now None (10 * hour) 24 legacyDB)"
  using assms
  by (simp add: backfillUsageRollupsBatch_def legacyDB_get legacyDB_store legacyEvent_earliest Let_def
      pendingRollupBackfillStatus_def emptyBackfillStatus_def status_defs rollupBackfillTarget_def
      noBackfillFaults_def algebra_simps)

lemma legacyDB_completes:
  "\<exists>db r. backfillUsageRollupsBatch noBackfillFaults 0 (clockAt 11 30) 24 legacyDB = (db, r, None) \<and>
     bs_Status (getUsageRollupBackfillStatus db) = statusCompleted \<and>
     bs_TargetBucketStart (getUsageRollupBackfillStatus db) = Some (10 * hour) \<and>
     st_events (bf_store db) = [legacyEvent]"
proof -
  have nz: "\<not> isZero (clockAt 11 30)" by (simp add: isZero_def zero_time_def minute_def hour_def)
  have span: "batchSpan 24 = 23 * hour" using batchSpan_exact [of 24] by (simp add: maxBatchHours_def)
  show ?thesis
    unfolding legacyDB_batch [OF clock_hours(3) nz]
    by (simp add: rebuildBackfillBatch_def noBackfillFaults_def Let_def span legacyDB_store
        statusCompleted_def getUsageRollupBackfillStatus_def saveUsageRollupBackfillStatus_def
        emptyBackfillStatus_def normalizeRollupBackfillStatus_def)
qed

lemma backfill_exact_witness:
  "\<exists>db. (backfill_step 24)\<^sup>*\<^sup>* legacyDB db \<and>
     map_of (st_rollups (bf_store db)) (hourlyUsageRollupKey legacyEvent) =
       Some (applyUsageEventToHourlyRollup emptyRollup legacyEvent)"
proof -
  obtain db r where b: "backfillUsageRollupsBatch noBackfillFaults 0 (clockAt 11 30) 24 legacyDB = (db, r, None)"
    and c: "bs_Status (getUsageRollupBackfillStatus db) = statusCompleted"
      "bs_TargetBucketStart (getUsageRollupBackfillStatus db) = Some (10 * hour)"
      "st_events (bf_store db) = [legacyEvent]"
    using legacyDB_completes by blast
  have steps: "(backfill_step 24)\<^sup>*\<^sup>* legacyDB db" using backfill_step.batch [OF b] by blast
  have "(24 :: int) \<le> maxBatchHours" by (simp add: maxBatchHours_def)
  from backfill_exact [OF legacyDB_upgraded steps this c(1)]
  have all: "aligned (rk_BucketStart k) \<and> rk_BucketStart k \<le> 10 * hour \<longrightarrow>
      map_of (st_rollups (bf_store db)) k = rollupSpec [legacyEvent] k" for k
    by (auto simp: c(2,3))
  have "eventBucket legacyEvent = 10 * hour"
    by (simp add: eventBucket_def legacyEvent_def statedEvent_def clock_hours)
  moreover have "aligned (10 * hour)" by (simp add: truncateTo_hour)
  ultimately have "map_of (st_rollups (bf_store db)) (hourlyUsageRollupKey legacyEvent) =
      rollupSpec [legacyEvent] (hourlyUsageRollupKey legacyEvent)" using all by simp
  then show ?thesis using steps by (auto simp: rollupSpec_def groupOf_def)
qed

text \<open>
  The hour of the upgrade is not covered: when the first batch runs in the hour of a legacy event,
  its target is the hour before, the backfill completes, and the event has no rollup row.
\<close>

lemma backfill_misses_upgrade_hour:
  "\<exists>db r. backfillUsageRollupsBatch noBackfillFaults 0 (clockAt 10 30) 24 legacyDB = (db, r, None) \<and>
     bb_Done r \<and> bs_Status (getUsageRollupBackfillStatus db) = statusCompleted \<and>
     st_events (bf_store db) = [legacyEvent] \<and> st_rollups (bf_store db) = []"
proof -
  have nz: "\<not> isZero (clockAt 10 30)" by (simp add: isZero_def zero_time_def minute_def hour_def)
  show ?thesis
    unfolding legacyDB_batch [OF clock_hours(2) nz]
    by (simp add: completeBackfill_def noBackfillFaults_def Let_def legacyDB_store
        statusCompleted_def getUsageRollupBackfillStatus_def saveUsageRollupBackfillStatus_def
        emptyBackfillStatus_def normalizeRollupBackfillStatus_def)
qed

text \<open>
  C12. The runner's loop terminates with the backfill completed. From any reachable state, whatever
  fails in some iterations, the loop returns as soon as the number of iterations in which nothing
  fails reaches a bound known in advance: two more than the hours between the earliest event, or
  the covered bucket, and the latest target the clocks allow. The status it returns is the one
  that is stored.
\<close>

theorem backfill_terminates:
  assumes "upgradedDB legacy db0" "(backfill_step h)\<^sup>*\<^sup>* db0 db" "h \<le> maxBatchHours"
    "targetBelow limit db" "\<forall>t \<in> set ticks. truncateTo hour (tickClock t) - hour \<le> limit"
    "batchesLeft limit db \<le> length (filter (\<lambda>t. bt_faults t = noBackfillFaults) ticks)"
  shows "\<exists>db' r. runBackfill ticks h db = (db', Some r) \<and>
    bs_Status (bb_Status r) = statusCompleted \<and> bb_Status r = getUsageRollupBackfillStatus db'"
proof -
  have "stateRowOK db" using backfill_reachable_ok [OF assms(1-3)] by (simp add: backfillOK_def)
  then show ?thesis using assms(3-6) by (rule run_terminates)
qed

text \<open>The example fails once, in its transaction, and then succeeds; two good iterations are enough.\<close>

definition exampleTicks :: "backfillTick list" where
  "exampleTicks =
     [\<lparr>bt_wall = 0, bt_now = clockAt 11 30, bt_faults = noBackfillFaults\<lparr>bx_Tx := Some ''busy''\<rparr>\<rparr>,
      \<lparr>bt_wall = 0, bt_now = clockAt 11 30, bt_faults = noBackfillFaults\<rparr>,
      \<lparr>bt_wall = 0, bt_now = clockAt 11 30, bt_faults = noBackfillFaults\<rparr>]"

lemma backfill_terminates_witness:
  "\<exists>db' r. runBackfill exampleTicks 24 legacyDB = (db', Some r) \<and> bs_Status (bb_Status r) = statusCompleted"
proof -
  have nz: "\<not> isZero (clockAt 11 30)" by (simp add: isZero_def zero_time_def minute_def hour_def)
  have h: "(24 :: int) \<le> maxBatchHours" by (simp add: maxBatchHours_def)
  have below: "targetBelow (10 * hour) legacyDB"
    by (simp add: targetBelow_def legacyDB_get pendingRollupBackfillStatus_def emptyBackfillStatus_def)
  have clocks: "\<forall>t \<in> set exampleTicks. truncateTo hour (tickClock t) - hour \<le> 10 * hour"
    using nz by (simp add: exampleTicks_def tickClock_def clock_hours)
  have enough: "batchesLeft (10 * hour) legacyDB \<le>
      length (filter (\<lambda>t. bt_faults t = noBackfillFaults) exampleTicks)"
    by (simp add: batchesLeft_def legacyDB_get legacyDB_store legacyEvent_earliest exampleTicks_def
        pendingRollupBackfillStatus_def emptyBackfillStatus_def noBackfillFaults_def)
  from backfill_terminates [OF legacyDB_upgraded rtranclp.rtrancl_refl h below clocks enough]
  show ?thesis by blast
qed

end
