(* ===== verification/AnalyticsCore.thy ===== *)
theory AnalyticsCore
  imports SourceRows AnalyticsSummary Backfill
begin

text \<open>
  The read model of the analytics summary (\<open>repository/analytics_core.go\<close>, \<open>analytics_trend.go\<close>,
  \<open>analytics_summary.go\<close>, filters of \<open>dto/usage_query_filter.go\<close>): the plan that splits a window
  into raw segments and full hours, the permission to read rollups, and the combined summary. The
  main result is that the combined summary is the one the raw events give.
\<close>

section \<open>Filters\<close>

record usageTimeScope =
  us_StartTime :: "instant option"
  us_EndTime :: "instant option"
  us_Provider :: string

record analyticsFilter = usageTimeScope +
  fl_Range :: string
  fl_FixedWindowEnd :: "instant option"
  fl_Granularity :: string

definition applyUsageQueryWindow :: "('a usageTimeScope_scheme) \<Rightarrow> instant \<Rightarrow> bool" where
  "applyUsageQueryWindow scope t \<longleftrightarrow>
     (case us_StartTime scope of None \<Rightarrow> True | Some s \<Rightarrow> s \<le> t) \<and>
     (case us_EndTime scope of None \<Rightarrow> True | Some s \<Rightarrow> t \<le> s)"

definition applyAnalyticsScopeFilter :: "('a usageTimeScope_scheme) \<Rightarrow> sourceRow \<Rightarrow> bool" where
  "applyAnalyticsScopeFilter scope s \<longleftrightarrow> applyUsageQueryWindow scope (sr_Instant s) \<and>
     (let provider = trimSpace (us_Provider scope) in provider = [] \<or> sr_Provider s = provider)"

text \<open>The query and scan of one source: filter, join, select, sum.\<close>

definition buildAnalyticsAggregateRow ::
  "modelPriceSetting list \<Rightarrow> analyticsFilter \<Rightarrow> sourceRow list \<Rightarrow> analyticsAggregateRow" where
  "buildAnalyticsAggregateRow settings filt source =
     sumRows (selectRows settings (filter (applyAnalyticsScopeFilter filt) source))"

section \<open>The plan\<close>

record analyticsCoreWindowPlan =
  wp_rawFilters :: "analyticsFilter list"
  wp_rollupFilter :: "analyticsFilter option"

definition analyticsCoreRawWindowPlan :: "analyticsFilter \<Rightarrow> analyticsCoreWindowPlan" where
  "analyticsCoreRawWindowPlan filt = \<lparr>wp_rawFilters = [filt], wp_rollupFilter = None\<rparr>"

definition rawOnlyFilter :: "analyticsCoreWindowPlan \<Rightarrow> analyticsFilter option" where
  "rawOnlyFilter plan =
     (case (wp_rollupFilter plan, wp_rawFilters plan) of (None, [f]) \<Rightarrow> Some f | _ \<Rightarrow> None)"

definition analyticsFilterWithWindow :: "analyticsFilter \<Rightarrow> instant \<Rightarrow> instant \<Rightarrow> analyticsFilter" where
  "analyticsFilterWithWindow filt start end = filt\<lparr>us_StartTime := Some start, us_EndTime := Some end\<rparr>"

definition minTime :: "instant \<Rightarrow> instant \<Rightarrow> instant" where
  "minTime a b = (if a < b then a else b)"

definition firstFullBucket :: "instant \<Rightarrow> instant" where
  "firstFullBucket start =
     (if truncateTo hour start < start then truncateTo hour start + hour else truncateTo hour start)"

definition lastFullBucket :: "instant \<Rightarrow> instant" where
  "lastFullBucket end =
     (if truncateTo hour end + hour > end + nanosecond then truncateTo hour end - hour
      else truncateTo hour end)"

definition analyticsCoreRollupWindowPlan :: "analyticsFilter \<Rightarrow> analyticsCoreWindowPlan" where
  "analyticsCoreRollupWindowPlan filt =
     (case (us_StartTime filt, us_EndTime filt) of
        (Some start, Some end) \<Rightarrow>
          if end < start then analyticsCoreRawWindowPlan filt
          else
            let first = firstFullBucket start; last = lastFullBucket end
            in if last < first then analyticsCoreRawWindowPlan filt
               else
                 let head = (if start < first
                             then [analyticsFilterWithWindow filt start (minTime (first - nanosecond) end)]
                             else []);
                     tailStart = last + hour;
                     tail = (if tailStart \<le> end then [analyticsFilterWithWindow filt tailStart end] else [])
                 in \<lparr>wp_rawFilters = head @ tail,
                     wp_rollupFilter = Some (analyticsFilterWithWindow filt first last)\<rparr>
      | _ \<Rightarrow> analyticsCoreRawWindowPlan filt)"

text \<open>The permission, and the detail of a refusal.\<close>

definition analyticsRollupReadAllowed :: "rollupBackfillStatus \<Rightarrow> bool \<times> string" where
  "analyticsRollupReadAllowed status =
     (if bs_Status status \<noteq> statusCompleted then (False, ''status_'' @ bs_Status status)
      else case bs_TargetBucketStart status of
        None \<Rightarrow> (False, ''missing_target_bucket'')
      | Some target \<Rightarrow>
          (case bs_CoveredBucketStart status of
             None \<Rightarrow> (False, ''missing_covered_bucket'')
           | Some covered \<Rightarrow>
               if truncateTo hour covered < truncateTo hour target then (False, ''covered_before_target'')
               else (True, [])))"

definition buildAnalyticsCoreSummary ::
  "modelPriceSetting list \<Rightarrow> eventStore \<Rightarrow> analyticsCoreWindowPlan \<Rightarrow> analyticsSummary" where
  "buildAnalyticsCoreSummary settings st plan =
     (let events = map analyticsEventsAggregateSource (st_events st);
          rollups = map analyticsRollupsAggregateSource (st_rollups st);
          raw = fold (\<lambda>filt combined. addAnalyticsAggregateRow combined
                   (buildAnalyticsAggregateRow settings filt events)) (wp_rawFilters plan) zeroAggregateRow
      in mapAnalyticsSummary
           (case wp_rollupFilter plan of
              None \<Rightarrow> raw
            | Some filt \<Rightarrow> addAnalyticsAggregateRow raw (buildAnalyticsAggregateRow settings filt rollups)))"

text \<open>\<open>BuildAnalyticsCoreWithFilter\<close>, its plan and its summary.\<close>

definition analyticsCorePlan :: "rollupBackfillStatus \<Rightarrow> analyticsFilter \<Rightarrow> analyticsCoreWindowPlan" where
  "analyticsCorePlan status filt =
     (let plan = analyticsCoreRollupWindowPlan filt
      in case wp_rollupFilter plan of
           None \<Rightarrow> plan
         | Some f \<Rightarrow>
             if fst (analyticsRollupReadAllowed status) then plan else analyticsCoreRawWindowPlan filt)"

definition buildAnalyticsCoreWithFilter ::
  "modelPriceSetting list \<Rightarrow> backfillDB \<Rightarrow> analyticsFilter \<Rightarrow> analyticsSummary" where
  "buildAnalyticsCoreWithFilter settings db filt =
     buildAnalyticsCoreSummary settings (bf_store db)
       (analyticsCorePlan (getUsageRollupBackfillStatus db) filt)"

text \<open>The summary from the raw events alone.\<close>

definition buildAnalyticsSummary ::
  "modelPriceSetting list \<Rightarrow> usageEvent list \<Rightarrow> analyticsFilter \<Rightarrow> analyticsSummary" where
  "buildAnalyticsSummary settings events filt =
     mapAnalyticsSummary (buildAnalyticsAggregateRow settings filt (map analyticsEventsAggregateSource events))"

definition analyticsPreviousPeriodFilter :: "analyticsFilter \<Rightarrow> analyticsFilter option" where
  "analyticsPreviousPeriodFilter filt =
     (case (us_StartTime filt, us_EndTime filt) of
        (Some start, Some end) \<Rightarrow>
          if end \<le> start then None
          else let duration = end - start + nanosecond
               in Some (filt\<lparr>us_StartTime := Some (start - duration), us_EndTime := Some (start - nanosecond)\<rparr>)
      | _ \<Rightarrow> None)"

section \<open>The plan partitions the window\<close>

text \<open>The instants that the segments of a plan read.\<close>

definition rollupHours :: "analyticsFilter \<Rightarrow> instant \<Rightarrow> bool" where
  "rollupHours filt t \<longleftrightarrow> applyUsageQueryWindow filt (truncateTo hour t)"

lemma firstFull: "aligned (firstFullBucket start)" "start \<le> firstFullBucket start"
  "firstFullBucket start < start + hour"
  using truncateTo_le [of hour start] truncateTo_gt [of hour start]
  by (auto simp: firstFullBucket_def truncateTo_hour_add1)

lemma lastFull: "aligned (lastFullBucket end)" "lastFullBucket end + hour \<le> end + 1"
  using truncateTo_le [of hour "end"] truncateTo_gt [of hour "end"]
  by (auto simp: lastFullBucket_def nanosecond_def aligned_minus1)

lemma truncate_ge: "aligned b \<Longrightarrow> b \<le> truncateTo hour t \<longleftrightarrow> b \<le> t"
  using truncateTo_hour_mono [of b t] truncateTo_le [of hour t] by auto

lemma truncate_le: "aligned b \<Longrightarrow> truncateTo hour t \<le> b \<longleftrightarrow> t < b + hour"
proof -
  assume b: "aligned b"
  have "b + hour \<le> truncateTo hour t \<longleftrightarrow> b + hour \<le> t" by (rule truncate_ge [OF aligned_plus1 [OF b]])
  moreover have "b < truncateTo hour t \<longleftrightarrow> b + hour \<le> truncateTo hour t"
    using aligned_step [OF b truncateTo_hour_idem, of t] hour_pos(1) by (intro iffI) linarith+
  ultimately show ?thesis by linarith
qed

abbreviation filterWindow :: "analyticsFilter \<Rightarrow> instant \<Rightarrow> bool" where
  "filterWindow \<equiv> applyUsageQueryWindow"

lemma plan_cases:
  obtains "analyticsCoreRollupWindowPlan filt = analyticsCoreRawWindowPlan filt"
  | start "end" first last where
    "us_StartTime filt = Some start" "us_EndTime filt = Some end"
    "aligned first" "aligned last" "start \<le> first" "first \<le> last" "last + hour \<le> end + 1"
    "analyticsCoreRollupWindowPlan filt =
      \<lparr>wp_rawFilters = (if start < first then [analyticsFilterWithWindow filt start (first - 1)] else [])
         @ (if last + hour \<le> end then [analyticsFilterWithWindow filt (last + hour) end] else []),
       wp_rollupFilter = Some (analyticsFilterWithWindow filt first last)\<rparr>"
proof (cases "us_StartTime filt")
  case None
  then show thesis using that(1) by (simp add: analyticsCoreRollupWindowPlan_def)
next
  case start: (Some start)
  show thesis
  proof (cases "us_EndTime filt")
    case None
    then show thesis using start that(1) by (simp add: analyticsCoreRollupWindowPlan_def)
  next
    case fin: (Some "end")
    let ?first = "firstFullBucket start" and ?last = "lastFullBucket end"
    show thesis
    proof (cases "end < start \<or> ?last < ?first")
      case True
      then show thesis using start fin that(1) by (auto simp: analyticsCoreRollupWindowPlan_def Let_def)
    next
      case False
      have "?first - 1 < end" using False lastFull(2) [of "end"] hour_pos(1) by linarith
      then have "minTime (?first - nanosecond) end = ?first - 1" by (simp add: minTime_def nanosecond_def)
      then show thesis
        using False start fin firstFull [of start] lastFull [of "end"]
        by (intro that(2) [of start "end" ?first ?last])
          (auto simp: analyticsCoreRollupWindowPlan_def Let_def)
    qed
  qed
qed

lemma window_filter [simp]: "filterWindow (analyticsFilterWithWindow filt a b) t \<longleftrightarrow> a \<le> t \<and> t \<le> b"
  by (simp add: applyUsageQueryWindow_def analyticsFilterWithWindow_def)

lemma rollupHours_filter:
  "aligned a \<Longrightarrow> aligned b \<Longrightarrow> rollupHours (analyticsFilterWithWindow filt a b) t \<longleftrightarrow> a \<le> t \<and> t < b + hour"
  by (simp add: rollupHours_def truncate_ge truncate_le)

definition segmentCount :: "analyticsCoreWindowPlan \<Rightarrow> instant \<Rightarrow> nat" where
  "segmentCount plan t = length (filter (\<lambda>f. filterWindow f t) (wp_rawFilters plan))
     + (case wp_rollupFilter plan of None \<Rightarrow> 0 | Some f \<Rightarrow> if rollupHours f t then 1 else 0)"

lemma plan_partition:
  "segmentCount (analyticsCoreRollupWindowPlan filt) t = (if filterWindow filt t then 1 else 0)"
proof (rule plan_cases [of filt])
  assume "analyticsCoreRollupWindowPlan filt = analyticsCoreRawWindowPlan filt"
  then show ?thesis by (simp add: segmentCount_def analyticsCoreRawWindowPlan_def)
next
  fix start "end" first last
  assume w: "us_StartTime filt = Some start" "us_EndTime filt = Some end"
    and o: "aligned first" "aligned last" "start \<le> first" "first \<le> last" "last + hour \<le> end + 1"
    and plan: "analyticsCoreRollupWindowPlan filt =
      \<lparr>wp_rawFilters = (if start < first then [analyticsFilterWithWindow filt start (first - 1)] else [])
         @ (if last + hour \<le> end then [analyticsFilterWithWindow filt (last + hour) end] else []),
       wp_rollupFilter = Some (analyticsFilterWithWindow filt first last)\<rparr>"
  have win: "filterWindow filt t \<longleftrightarrow> start \<le> t \<and> t \<le> end" using w by (simp add: applyUsageQueryWindow_def)
  show ?thesis
    using o hour_pos(1) by (auto simp: plan segmentCount_def win rollupHours_filter simp del: hour_pos)
qed

section \<open>The summaries agree\<close>

lemma costlyD:
  assumes "costly r = costly s"
  shows "ag_RequestCount r = ag_RequestCount s"
    "ag_SuccessCount r = ag_SuccessCount s"
    "ag_FailureCount r = ag_FailureCount s"
    "ag_InputTokens r = ag_InputTokens s"
    "ag_OutputTokens r = ag_OutputTokens s"
    "ag_TotalTokens r = ag_TotalTokens s"
    "ag_TotalCost r = ag_TotalCost s"
    "ag_CachedTokens r = ag_CachedTokens s"
    "ag_CacheReadTokens r = ag_CacheReadTokens s"
    "ag_CacheReadObservedInputTokens r = ag_CacheReadObservedInputTokens s"
    "ag_ReasoningTokens r = ag_ReasoningTokens s"
    "ag_CacheSavings r = ag_CacheSavings s"
    "ag_MissingPricingEvents r = ag_MissingPricingEvents s"
    "ag_PricedBillableEvents r = ag_PricedBillableEvents s"
    "ag_AccountingAbsentAttempts r = ag_AccountingAbsentAttempts s"
    "ag_AccountingValidAttempts r = ag_AccountingValidAttempts s"
    "ag_AccountingValidCompleteAttempts r = ag_AccountingValidCompleteAttempts s"
    "ag_AccountingValidInconsistentAttempts r = ag_AccountingValidInconsistentAttempts s"
    "ag_AccountingValidUnclassifiedAttempts r = ag_AccountingValidUnclassifiedAttempts s"
    "ag_CanonicalTotalTokens r = ag_CanonicalTotalTokens s"
    "ag_CanonicalInputTokens r = ag_CanonicalInputTokens s"
    "ag_CanonicalUncachedTokens r = ag_CanonicalUncachedTokens s"
    "ag_CanonicalCacheReadTokens r = ag_CanonicalCacheReadTokens s"
    "ag_CanonicalCacheWriteTokens r = ag_CanonicalCacheWriteTokens s"
    "ag_CanonicalOutputTokens r = ag_CanonicalOutputTokens s"
    "ag_CanonicalNonReasoningTokens r = ag_CanonicalNonReasoningTokens s"
    "ag_CanonicalReasoningTokens r = ag_CanonicalReasoningTokens s"
    "ag_CanonicalUnclassifiedTokens r = ag_CanonicalUnclassifiedTokens s"
  using assms by (cases r; cases s; simp add: costly_def)+

lemma same_columns:
  assumes "summarises settings es r" "length es < 2 ^ 63"
  shows "costly r = costly (rawRow settings es)"
    "analyticsCacheEfficiency i ob c s (ag_CacheSavingsEligibleRows r) (ag_CacheSavingsIneligibleRows r) pc =
     analyticsCacheEfficiency i ob c s (ag_CacheSavingsEligibleRows (rawRow settings es))
       (ag_CacheSavingsIneligibleRows (rawRow settings es)) pc"
proof -
  let ?s = "rawRow settings es"
  have "summarises settings es ?s" by (rule summarises_raw)
  then have zero: "(ag_CacheSavingsEligibleRows r = 0) = (ag_CacheSavingsEligibleRows ?s = 0)"
      "(0 <s ag_CacheSavingsIneligibleRows r) = (0 <s ag_CacheSavingsIneligibleRows ?s)"
    using assms countsTo_read [OF _ assms(2)] unfolding summarises_def by blast+
  show "costly r = costly ?s" using assms(1) by (simp add: summarises_def)
  show "analyticsCacheEfficiency i ob c s (ag_CacheSavingsEligibleRows r) (ag_CacheSavingsIneligibleRows r) pc =
      analyticsCacheEfficiency i ob c s (ag_CacheSavingsEligibleRows ?s) (ag_CacheSavingsIneligibleRows ?s) pc"
    by (simp only: analyticsCacheEfficiency_def zero)
qed

lemma sameSummary:
  assumes "summarises settings es r" "length es < 2 ^ 63"
  shows "mapAnalyticsSummary r = mapAnalyticsSummary (rawRow settings es)"
  by (simp only: mapAnalyticsSummary_def mapAnalyticsAccountingSummary_def
      costlyD [OF same_columns(1) [OF assms]] same_columns(2) [OF assms])

definition providerIn :: "analyticsFilter \<Rightarrow> string \<Rightarrow> bool" where
  "providerIn filt p \<longleftrightarrow> trimSpace (us_Provider filt) = [] \<or> p = trimSpace (us_Provider filt)"

lemma provider_window [simp]: "providerIn (analyticsFilterWithWindow filt a b) = providerIn filt"
  by (simp add: providerIn_def analyticsFilterWithWindow_def fun_eq_iff)

lemma scope_event: "tidy e \<Longrightarrow> applyAnalyticsScopeFilter filt (analyticsEventsAggregateSource e) \<longleftrightarrow>
    filterWindow filt (ev_Timestamp e) \<and> providerIn filt (ev_Provider e)"
  by (simp add: applyAnalyticsScopeFilter_def analyticsEventsAggregateSource_def Let_def providerIn_def
      tidy_def sqlTrim_trimmed)

lemma scope_events:
  "\<forall>e \<in> set es. tidy e \<Longrightarrow> filter (applyAnalyticsScopeFilter filt) (map analyticsEventsAggregateSource es) =
     map analyticsEventsAggregateSource
       (filter (\<lambda>e. filterWindow filt (ev_Timestamp e) \<and> providerIn filt (ev_Provider e)) es)"
  unfolding filter_map o_def
  by (intro arg_cong [where f = "map analyticsEventsAggregateSource"] filter_cong) (simp_all add: scope_event)

lemma raw_segment:
  assumes "uniquePrices settings" "\<forall>e \<in> set es. tidy e"
  shows "buildAnalyticsAggregateRow settings filt (map analyticsEventsAggregateSource es) =
    rawRow settings (filter (\<lambda>e. filterWindow filt (ev_Timestamp e) \<and> providerIn filt (ev_Provider e)) es)"
proof -
  have m: "sr_Model (analyticsEventsAggregateSource e) = sqlTrim (ev_Model e)" for e
    by (simp add: analyticsEventsAggregateSource_def Let_def)
  show ?thesis
    unfolding buildAnalyticsAggregateRow_def scope_events [OF assms(2)] selectRows_unique [OF assms(1)] rawRow_def
      eventPrice_def map_map o_def m ..
qed

lemma covers_segment:
  assumes "\<forall>e \<in> set es. tidy e"
  shows "covers settings (filter (\<lambda>e. filterWindow filt (ev_Timestamp e) \<and> providerIn filt (ev_Provider e)) es)
    (filter (applyAnalyticsScopeFilter filt) (map analyticsEventsAggregateSource es))"
  unfolding scope_events [OF assms] using assms by (intro covers_events) simp

text \<open>
  The rows of a rollup segment are the rollups of groups, and those groups make up the events of the hours of
  the segment.
\<close>

lemma rollup_groups:
  assumes events: "\<forall>e \<in> set es. storedOK e \<and> tidy e"
    and tab: "rollupTableOK rows"
    and exact: "\<forall>k. aligned (rk_BucketStart k) \<and> a \<le> rk_BucketStart k \<and> rk_BucketStart k \<le> b \<longrightarrow>
      map_of rows k = rollupSpec es k"
    and ab: "aligned a" "aligned b"
  obtains ks where
    "filter (applyAnalyticsScopeFilter (analyticsFilterWithWindow filt a b)) (map analyticsRollupsAggregateSource rows) =
      map (\<lambda>k. analyticsRollupsAggregateSource (k, sqlGroupRollup (groupOf k es))) ks"
    "\<forall>k \<in> set ks. groupOf k es \<noteq> []"
    "mset (concat (map (\<lambda>k. groupOf k es) ks)) = mset (filter (\<lambda>e. a \<le> ev_Timestamp e \<and>
       ev_Timestamp e < b + hour \<and> providerIn filt (ev_Provider e)) es)"
proof -
  let ?P = "\<lambda>k. a \<le> rk_BucketStart k \<and> rk_BucketStart k \<le> b \<and> providerIn filt (sqlTrim (rk_Provider k))"
  let ?R = "filter (\<lambda>kr. ?P (fst kr)) rows"
  let ?W = "filter (\<lambda>e. a \<le> ev_Timestamp e \<and> ev_Timestamp e < b + hour \<and> providerIn filt (ev_Provider e)) es"
  have dist: "distinct (map fst rows)" and al: "\<And>k r. (k, r) \<in> set rows \<Longrightarrow> aligned (rk_BucketStart k)"
    using tab by (auto simp: rollupTableOK_def)
  have scope: "applyAnalyticsScopeFilter (analyticsFilterWithWindow filt a b) (analyticsRollupsAggregateSource (k, r))
      \<longleftrightarrow> ?P k" for k r
    by (simp add: applyAnalyticsScopeFilter_def analyticsRollupsAggregateSource_def Let_def)
      (simp add: providerIn_def analyticsFilterWithWindow_def)
  have row: "r = sqlGroupRollup (groupOf k es)" "groupOf k es \<noteq> []"
    if kr: "(k, r) \<in> set rows" and k: "?P k" for k r
  proof -
    have "map_of rows k = Some r" using dist kr by simp
    moreover have "map_of rows k = rollupSpec es k" using exact al [OF kr] k by blast
    ultimately have "rollupSpec es k = Some r" by simp
    then have spec: "groupOf k es \<noteq> []" "r = rollupOf (groupOf k es)"
      by (auto simp: rollupSpec_def Let_def split: if_splits)
    moreover have "\<forall>e \<in> set (groupOf k es). storedOK e" using events by (simp add: groupOf_def)
    ultimately show "r = sqlGroupRollup (groupOf k es)" "groupOf k es \<noteq> []"
      using sqlGroup_eq [of "groupOf k es"] by simp_all
  qed
  have "filter (applyAnalyticsScopeFilter (analyticsFilterWithWindow filt a b)) (map analyticsRollupsAggregateSource rows)
      = map analyticsRollupsAggregateSource ?R"
    unfolding filter_map o_def
    by (intro arg_cong [where f = "map analyticsRollupsAggregateSource"] filter_cong) (auto simp: scope)
  also have "\<dots> = map (\<lambda>k. analyticsRollupsAggregateSource (k, sqlGroupRollup (groupOf k es))) (map fst ?R)"
    using row(1) by auto
  finally have rows: "filter (applyAnalyticsScopeFilter (analyticsFilterWithWindow filt a b))
      (map analyticsRollupsAggregateSource rows) =
    map (\<lambda>k. analyticsRollupsAggregateSource (k, sqlGroupRollup (groupOf k es))) (map fst ?R)" .
  have bucket: "a \<le> rk_BucketStart (hourlyUsageRollupKey e) \<and> rk_BucketStart (hourlyUsageRollupKey e) \<le> b \<longleftrightarrow>
      a \<le> ev_Timestamp e \<and> ev_Timestamp e < b + hour" for e
    by (simp add: eventBucket_def truncate_ge [OF ab(1)] truncate_le [OF ab(2)])
  have inW: "?P (hourlyUsageRollupKey e) \<longleftrightarrow> e \<in> set ?W" if "e \<in> set es" for e
    using that bucket [of e] key_facts(2) [OF refl, of e] events by auto
  have sub: "hourlyUsageRollupKey ` set ?W \<subseteq> set (map fst ?R)"
  proof (rule image_subsetI)
    fix e assume e: "e \<in> set ?W"
    let ?k = "hourlyUsageRollupKey e"
    have P: "?P ?k" using e inW by simp
    have "rollupSpec es ?k \<noteq> None"
      using e by (auto simp: rollupSpec_def groupOf_def filter_empty_conv)
    moreover have "map_of rows ?k = rollupSpec es ?k" using exact P by simp
    ultimately obtain r where "map_of rows ?k = Some r" by auto
    then have "(?k, r) \<in> set rows" by (rule map_of_SomeD)
    with P show "?k \<in> set (map fst ?R)" by force
  qed
  have same: "groupOf k es = filter (\<lambda>e. hourlyUsageRollupKey e = k) ?W" if "k \<in> set (map fst ?R)" for k
  proof -
    have P: "?P k" using that by auto
    have "e \<in> set ?W" if e: "e \<in> set es" "hourlyUsageRollupKey e = k" for e
      using P inW [OF e(1), unfolded e(2)] by (simp only:)
    then show ?thesis unfolding groupOf_def filter_filter by (intro filter_cong) auto
  qed
  have "map (\<lambda>k. groupOf k es) (map fst ?R) =
      map (\<lambda>k. filter (\<lambda>e. hourlyUsageRollupKey e = k) ?W) (map fst ?R)"
    by (intro map_cong refl same)
  moreover have "distinct (map fst ?R)" using dist by (rule distinct_map_filter)
  ultimately have "mset (concat (map (\<lambda>k. groupOf k es) (map fst ?R))) = mset ?W"
    using mset_groups [OF _ sub] by (simp only:)
  with rows row(2) show thesis by (intro that [of "map fst ?R"]) auto
qed

lemma covers_rollups:
  assumes events: "\<forall>e \<in> set es. storedOK e \<and> tidy e" "fits es"
    and seg: "rollupTableOK rows" "\<forall>k. aligned (rk_BucketStart k) \<and> a \<le> rk_BucketStart k \<and> rk_BucketStart k \<le> b \<longrightarrow>
      map_of rows k = rollupSpec es k" "aligned a" "aligned b"
  shows "covers settings
    (filter (\<lambda>e. a \<le> ev_Timestamp e \<and> ev_Timestamp e < b + hour \<and> providerIn filt (ev_Provider e)) es)
    (filter (applyAnalyticsScopeFilter (analyticsFilterWithWindow filt a b)) (map analyticsRollupsAggregateSource rows))"
proof -
  obtain ks where ks:
    "filter (applyAnalyticsScopeFilter (analyticsFilterWithWindow filt a b)) (map analyticsRollupsAggregateSource rows) =
      map (\<lambda>k. analyticsRollupsAggregateSource (k, sqlGroupRollup (groupOf k es))) ks"
    "\<forall>k \<in> set ks. groupOf k es \<noteq> []"
    "mset (concat (map (\<lambda>k. groupOf k es) ks)) = mset (filter (\<lambda>e. a \<le> ev_Timestamp e \<and>
       ev_Timestamp e < b + hour \<and> providerIn filt (ev_Provider e)) es)"
    by (rule rollup_groups [OF events(1) seg, where filt = filt])
  have "stands settings (groupOf k es) (analyticsRollupsAggregateSource (k, sqlGroupRollup (groupOf k es)))"
    if "k \<in> set ks" for k
    using that ks(2) events fits_filter [of es] by (intro stands_group) (simp_all add: groupOf_def)
  then have "list_all2 (stands settings) (map (\<lambda>k. groupOf k es) ks)
      (map (\<lambda>k. analyticsRollupsAggregateSource (k, sqlGroupRollup (groupOf k es))) ks)"
    by (simp add: list_all2_map1 list_all2_map2 list_all2_same)
  then show ?thesis unfolding covers_def ks(1) using ks(3) by blast
qed

section \<open>The rows of a plan\<close>

definition planRows :: "eventStore \<Rightarrow> analyticsCoreWindowPlan \<Rightarrow> sourceRow list" where
  "planRows st plan =
     concat (map (\<lambda>f. filter (applyAnalyticsScopeFilter f) (map analyticsEventsAggregateSource (st_events st)))
       (wp_rawFilters plan)) @
     (case wp_rollupFilter plan of None \<Rightarrow> []
      | Some f \<Rightarrow> filter (applyAnalyticsScopeFilter f) (map analyticsRollupsAggregateSource (st_rollups st)))"

definition windowEvents :: "eventStore \<Rightarrow> analyticsFilter \<Rightarrow> usageEvent list" where
  "windowEvents st filt =
     filter (\<lambda>e. filterWindow filt (ev_Timestamp e) \<and> providerIn filt (ev_Provider e)) (st_events st)"

lemma core_planRows:
  assumes "uniquePrices settings"
  shows "buildAnalyticsCoreSummary settings st plan =
    mapAnalyticsSummary (sumRows (map (pricedSelect settings) (planRows st plan)))"
proof -
  have row: "buildAnalyticsAggregateRow settings f rows =
      sumRows (map (pricedSelect settings) (filter (applyAnalyticsScopeFilter f) rows))" for f rows
    by (simp add: buildAnalyticsAggregateRow_def selectRows_unique [OF assms])
  have fold: "fold (\<lambda>f acc. addAnalyticsAggregateRow acc (buildAnalyticsAggregateRow settings f rows)) fs acc =
      addAnalyticsAggregateRow acc (sumRows (map (pricedSelect settings)
        (concat (map (\<lambda>f. filter (applyAnalyticsScopeFilter f) rows) fs))))" for fs rows acc
    by (induction fs arbitrary: acc) (simp_all add: aggRow.add_zero_right row aggRow.total_append aggRow.add_assoc)
  show ?thesis
    unfolding buildAnalyticsCoreSummary_def Let_def fold planRows_def
    by (simp add: row aggRow.add_zero aggRow.total_append aggRow.add_zero_right split: option.split)
qed

text \<open>Splitting the events of a window by the segments.\<close>

lemma mset_filter3:
  assumes "\<And>e. of_bool (P e) = (of_bool (A e) + of_bool (B e) + of_bool (C e) :: nat)"
  shows "mset (filter A es @ filter C es @ filter B es) = mset (filter P es)"
proof (induction es)
  case (Cons e es)
  show ?case using assms [of e] Cons by (cases "P e"; cases "A e"; cases "B e"; cases "C e") simp_all
qed simp

definition exactOn :: "analyticsFilter option \<Rightarrow> eventStore \<Rightarrow> bool" where
  "exactOn filt st \<longleftrightarrow> (\<forall>f k. filt = Some f \<and> aligned (rk_BucketStart k) \<and> filterWindow f (rk_BucketStart k) \<longrightarrow>
     map_of (st_rollups st) k = rollupSpec (st_events st) k)"

lemma raw_plan_covers:
  "\<forall>e \<in> set (st_events st). tidy e \<Longrightarrow>
     covers settings (windowEvents st filt) (planRows st (analyticsCoreRawWindowPlan filt))"
  using covers_segment by (simp add: planRows_def analyticsCoreRawWindowPlan_def windowEvents_def)

lemma plan_covers:
  assumes events: "\<forall>e \<in> set (st_events st). storedOK e \<and> tidy e" "fits (st_events st)"
    and tab: "rollupTableOK (st_rollups st)"
    and exact: "exactOn (wp_rollupFilter (analyticsCoreRollupWindowPlan filt)) st"
  shows "covers settings (windowEvents st filt) (planRows st (analyticsCoreRollupWindowPlan filt))"
proof (rule plan_cases [of filt])
  assume "analyticsCoreRollupWindowPlan filt = analyticsCoreRawWindowPlan filt"
  with events(1) raw_plan_covers [of st] show ?thesis by simp
next
  fix start "end" first last
  assume w: "us_StartTime filt = Some start" "us_EndTime filt = Some end"
    and o: "aligned first" "aligned last" "start \<le> first" "first \<le> last" "last + hour \<le> end + 1"
    and plan: "analyticsCoreRollupWindowPlan filt =
      \<lparr>wp_rawFilters = (if start < first then [analyticsFilterWithWindow filt start (first - 1)] else [])
         @ (if last + hour \<le> end then [analyticsFilterWithWindow filt (last + hour) end] else []),
       wp_rollupFilter = Some (analyticsFilterWithWindow filt first last)\<rparr>"
  let ?es = "st_events st" and ?prov = "\<lambda>e. providerIn filt (ev_Provider e)"
  let ?A = "\<lambda>e. (start \<le> ev_Timestamp e \<and> ev_Timestamp e \<le> first - 1) \<and> ?prov e"
  let ?B = "\<lambda>e. first \<le> ev_Timestamp e \<and> ev_Timestamp e < last + hour \<and> ?prov e"
  let ?C = "\<lambda>e. (last + hour \<le> ev_Timestamp e \<and> ev_Timestamp e \<le> end) \<and> ?prov e"
  have seg: "covers settings (filter (\<lambda>e. (x \<le> ev_Timestamp e \<and> ev_Timestamp e \<le> y) \<and> ?prov e) ?es)
      (concat (map (\<lambda>f. filter (applyAnalyticsScopeFilter f) (map analyticsEventsAggregateSource ?es))
        (if q then [analyticsFilterWithWindow filt x y] else [])))" if "q \<or> y < x" for x y q
  proof (cases q)
    case True
    then show ?thesis using covers_segment [of ?es settings "analyticsFilterWithWindow filt x y"] events(1) by simp
  next
    case False
    with that have "filter (\<lambda>e. (x \<le> ev_Timestamp e \<and> ev_Timestamp e \<le> y) \<and> ?prov e) ?es = []"
      by (auto simp: filter_empty_conv)
    with False show ?thesis by (simp add: covers_Nil)
  qed
  have "\<forall>k. aligned (rk_BucketStart k) \<and> first \<le> rk_BucketStart k \<and> rk_BucketStart k \<le> last \<longrightarrow>
      map_of (st_rollups st) k = rollupSpec ?es k"
    using exact unfolding exactOn_def plan by simp
  then have "covers settings (filter ?B ?es) (filter (applyAnalyticsScopeFilter (analyticsFilterWithWindow filt first last))
      (map analyticsRollupsAggregateSource (st_rollups st)))"
    by (rule covers_rollups [OF events tab _ o(1,2)])
  moreover have "covers settings (filter ?A ?es) (concat (map (\<lambda>f. filter (applyAnalyticsScopeFilter f)
        (map analyticsEventsAggregateSource ?es))
      (if start < first then [analyticsFilterWithWindow filt start (first - 1)] else [])))" by (rule seg) auto
  moreover have "covers settings (filter ?C ?es) (concat (map (\<lambda>f. filter (applyAnalyticsScopeFilter f)
        (map analyticsEventsAggregateSource ?es))
      (if last + hour \<le> end then [analyticsFilterWithWindow filt (last + hour) end] else [])))" by (rule seg) auto
  ultimately have "covers settings (filter ?A ?es @ filter ?C ?es @ filter ?B ?es)
      (planRows st (analyticsCoreRollupWindowPlan filt))"
    unfolding planRows_def plan analyticsCoreWindowPlan.simps option.simps map_append concat_append append_assoc
    by (intro covers_append)
  moreover have "of_bool (filterWindow filt (ev_Timestamp e) \<and> ?prov e) =
      (of_bool (?A e) + of_bool (?B e) + of_bool (?C e) :: nat)" for e
    using o w hour_pos(1) by (cases "?prov e") (auto simp: applyUsageQueryWindow_def simp del: hour_pos)
  then have "mset (filter ?A ?es @ filter ?C ?es @ filter ?B ?es) = mset (windowEvents st filt)"
    unfolding windowEvents_def by (rule mset_filter3)
  ultimately show ?thesis by (rule covers_perm [rotated])
qed

lemma read_allowed: "fst (analyticsRollupReadAllowed s) \<longleftrightarrow> bs_Status s = statusCompleted \<and> rollupBackfillTargetCovered s"
  by (auto simp: analyticsRollupReadAllowed_def rollupBackfillTargetCovered_def split: option.split)

lemma core_plan_raw:
  "wp_rollupFilter (analyticsCorePlan status filt) = None \<Longrightarrow>
     analyticsCorePlan status filt = analyticsCoreRawWindowPlan filt"
  by (rule plan_cases [of filt]) (auto simp: analyticsCorePlan_def Let_def split: option.splits)

text \<open>
  Which plan is taken is up to the backfill. Whichever it is, its rows cover the events of the window, in
  every state that the backfill and the intake reach, if no legacy event lies after the target.
\<close>

definition legacyBeforeTarget :: "usageEvent list \<Rightarrow> backfillDB \<Rightarrow> bool" where
  "legacyBeforeTarget legacy db \<longleftrightarrow>
     (\<forall>target. bs_TargetBucketStart (getUsageRollupBackfillStatus db) = Some target \<longrightarrow>
        (\<forall>e \<in> set legacy. eventBucket e \<le> target))"

definition readable :: "usageEvent list \<Rightarrow> backfillDB \<Rightarrow> bool" where
  "readable legacy db \<longleftrightarrow> (\<exists>db0 h. upgradedDB legacy db0 \<and> h \<le> maxBatchHours \<and> (backfill_step h)\<^sup>*\<^sup>* db0 db) \<and>
     (\<forall>e \<in> set (st_events (bf_store db)). tidy e) \<and> fits (st_events (bf_store db)) \<and> legacyBeforeTarget legacy db"

lemma core_covers:
  assumes "readable legacy db"
  shows "covers settings (windowEvents (bf_store db) filt)
    (planRows (bf_store db) (analyticsCorePlan (getUsageRollupBackfillStatus db) filt))"
proof -
  let ?s = "getUsageRollupBackfillStatus db"
  have ok: "backfillOK legacy db" using assms backfill_reachable_ok by (auto simp: readable_def)
  then have st: "storeOK (maintained legacy ?s) (bf_store db)" by (simp add: backfillOK_def)
  then have ev: "\<forall>e \<in> set (st_events (bf_store db)). storedOK e \<and> tidy e" "fits (st_events (bf_store db))"
      "rollupTableOK (st_rollups (bf_store db))"
    using assms by (auto simp: storeOK_def stateOK_def readable_def)
  note raw = raw_plan_covers [of "bf_store db" settings filt]
  show ?thesis
  proof (cases "fst (analyticsRollupReadAllowed ?s)")
    case True
    then obtain t c where tc: "bs_TargetBucketStart ?s = Some t" "bs_CoveredBucketStart ?s = Some c"
        "\<not> truncateTo hour c < truncateTo hour t"
      by (auto simp: read_allowed rollupBackfillTargetCovered_def split: option.splits)
    have "statusOK ?s" using ok by (simp add: backfillOK_def get_ok)
    with tc have "t \<le> c" by (auto simp: statusOK_def)
    then have "maintained legacy ?s b" for b
      using tc(1,2) assms by (fastforce simp: maintained_def readable_def legacyBeforeTarget_def)
    with st have "exactOn (wp_rollupFilter (analyticsCoreRollupWindowPlan filt)) (bf_store db)"
      by (auto simp: exactOn_def storeOK_def)
    from plan_covers [OF ev this] True raw ev(1) show ?thesis
      by (auto simp: analyticsCorePlan_def Let_def split: option.split)
  next
    case False
    then have "analyticsCorePlan ?s filt = analyticsCoreRawWindowPlan filt"
      using core_plan_raw [of ?s filt] by (auto simp: analyticsCorePlan_def Let_def split: option.splits)
    with raw ev(1) show ?thesis by simp
  qed
qed

lemma window_length: "length (windowEvents st filt) \<le> length (st_events st)"
  by (simp add: windowEvents_def)

lemma readable_length: "readable legacy db \<Longrightarrow> length (windowEvents (bf_store db) filt) < 2 ^ 63"
  using window_length [of "bf_store db" filt] unfolding readable_def fits_def by linarith

section \<open>Properties\<close>

text \<open>
  The segments of the analytics plan partition the window: every instant of the window lies in
  exactly one segment, raw or full hours, and an instant outside the window in none.
\<close>

theorem analyticsPlan_partition:
  "segmentCount (analyticsCoreRollupWindowPlan filt) t = (if applyUsageQueryWindow filt t then 1 else 0)"
  by (rule plan_partition)

text \<open>
  C6. The analytics summary does not depend on the source. In every state reachable from an upgraded
  store by batches of the backfill and inserts of the intake, with one price per trimmed model, with
  tidy events whose tokens fit 64 bits, and when no legacy event lies in an hour after the backfill's
  target, the summary that combines raw segments and rollups (or falls back to raw reads) equals the
  summary computed from the raw events alone: counts, tokens, cost, completeness, cache shares and
  savings.
\<close>

theorem analytics_exact:
  assumes "upgradedDB legacy db0" "(backfill_step h)\<^sup>*\<^sup>* db0 db" "h \<le> maxBatchHours"
    "priceTableOK prices" "\<forall>e \<in> set (st_events (bf_store db)). tidy e" "fits (st_events (bf_store db))"
    "\<forall>target. bs_TargetBucketStart (getUsageRollupBackfillStatus db) = Some target \<longrightarrow>
       (\<forall>e \<in> set legacy. eventBucket e \<le> target)"
  shows "buildAnalyticsCoreWithFilter (map snd (tbl_rows prices)) db filt =
    buildAnalyticsSummary (map snd (tbl_rows prices)) (st_events (bf_store db)) filt"
proof -
  let ?settings = "map snd (tbl_rows prices)" and ?es = "windowEvents (bf_store db) filt"
  have r: "readable legacy db" using assms by (auto simp: readable_def legacyBeforeTarget_def)
  have u: "uniquePrices ?settings" by (rule priceTable_unique [OF assms(4)])
  have "buildAnalyticsSummary ?settings (st_events (bf_store db)) filt = mapAnalyticsSummary (rawRow ?settings ?es)"
    unfolding buildAnalyticsSummary_def raw_segment [OF u assms(5)] windowEvents_def ..
  with sameSummary [OF covers_summarises [OF core_covers [OF r]] readable_length [OF r]] show ?thesis
    unfolding buildAnalyticsCoreWithFilter_def core_planRows [OF u] by simp
qed

definition sampleFilter :: "instant \<Rightarrow> instant \<Rightarrow> analyticsFilter" where
  "sampleFilter start end = \<lparr>us_StartTime = Some start, us_EndTime = Some end, us_Provider = [],
     fl_Range = ''custom'', fl_FixedWindowEnd = None, fl_Granularity = ''hour''\<rparr>"

lemma legacyEvent_facts:
  "tidy legacyEvent" "sqlValid legacyEvent" "sint (coalesced ua_TotalTokens legacyEvent) = 15"
  "eventBucket legacyEvent = 10 * hour" "ev_Timestamp legacyEvent = 36300 * second"
proof -
  have "\<not> accountingFactsAbsent (ev_UsageAccounting sampleEvent)"
    by (simp add: sampleEvent_def sampleAccounting_def accountingFactsAbsent_def)
  then show "sqlValid legacyEvent" "sint (coalesced ua_TotalTokens legacyEvent) = 15"
    by (simp_all add: legacyEvent_def statedEvent_def sqlValid_def AccountingValid_def)
      (simp add: sampleEvent_def sampleAccounting_def)
  show "tidy legacyEvent"
    by (simp add: legacyEvent_def statedEvent_def tidy_def sampleEvent_def trimmed_def ws_seqs_def)
  show "eventBucket legacyEvent = 10 * hour"
    by (simp add: eventBucket_def legacyEvent_def statedEvent_def clock_hours)
  show "ev_Timestamp legacyEvent = 36300 * second" by (simp add: legacyEvent_def statedEvent_def)
qed

lemma legacyEvent_raw:
  "su_RequestCount (buildAnalyticsSummary settings [legacyEvent] (sampleFilter (10 * hour) (11 * hour - 1))) = 1"
  if "uniquePrices settings"
proof -
  have "applyUsageQueryWindow (sampleFilter (10 * hour) (11 * hour - 1)) (36300 * second)"
    by (simp add: applyUsageQueryWindow_def sampleFilter_def second_def hour_def)
  moreover have "providerIn (sampleFilter (10 * hour) (11 * hour - 1)) p" for p
    by (simp add: providerIn_def sampleFilter_def)
  ultimately have "buildAnalyticsAggregateRow settings (sampleFilter (10 * hour) (11 * hour - 1))
      (map analyticsEventsAggregateSource [legacyEvent]) = rawRow settings [legacyEvent]"
    using raw_segment [OF that, of "[legacyEvent]"] legacyEvent_facts by simp
  moreover have "ag_RequestCount (rawRow settings [legacyEvent]) = 1"
    by (simp add: rawRow_def analyticsSummarySelect_def analyticsEventsAggregateSource_def Let_def)
  ultimately show ?thesis
    by (simp add: buildAnalyticsSummary_def mapAnalyticsSummary_def Let_def split: prod.split)
qed

lemma sample_readable:
  "\<exists>db. readable [legacyEvent] db \<and> fst (analyticsRollupReadAllowed (getUsageRollupBackfillStatus db)) \<and>
     windowEvents (bf_store db) (sampleFilter (10 * hour) (11 * hour - 1)) = [legacyEvent]"
proof -
  obtain db r where b: "backfillUsageRollupsBatch noBackfillFaults 0 (clockAt 11 30) 24 legacyDB = (db, r, None)"
    and c: "bs_Status (getUsageRollupBackfillStatus db) = statusCompleted"
      "bs_TargetBucketStart (getUsageRollupBackfillStatus db) = Some (10 * hour)"
      "st_events (bf_store db) = [legacyEvent]"
    using legacyDB_completes by blast
  have steps: "(backfill_step 24)\<^sup>*\<^sup>* legacyDB db" using backfill_step.batch [OF b] by blast
  have "stateRowOK legacyDB" by (simp add: stateRowOK_def legacyDB_def)
  from batch_outcome [OF this _ b] have "stateRowOK db" by (simp add: maxBatchHours_def)
  then have "statusOK (getUsageRollupBackfillStatus db)" by (rule get_ok)
  with c(1) have "fst (analyticsRollupReadAllowed (getUsageRollupBackfillStatus db))"
    by (simp add: read_allowed statusOK_def)
  moreover have "windowEvents (bf_store db) (sampleFilter (10 * hour) (11 * hour - 1)) = [legacyEvent]"
    by (simp add: windowEvents_def c(3) legacyEvent_facts applyUsageQueryWindow_def sampleFilter_def providerIn_def)
      (simp add: second_def hour_def)
  moreover have "\<exists>db0 h. upgradedDB [legacyEvent] db0 \<and> h \<le> maxBatchHours \<and> (backfill_step h)\<^sup>*\<^sup>* db0 db"
    using legacyDB_upgraded steps by (intro exI [of _ legacyDB] exI [of _ 24]) (simp add: maxBatchHours_def)
  then have "readable [legacyEvent] db"
    unfolding readable_def by (intro conjI) (simp_all add: legacyBeforeTarget_def c legacyEvent_facts fits_def)
  ultimately show ?thesis by blast
qed

lemma analytics_exact_witness:
  "\<exists>db. (backfill_step 24)\<^sup>*\<^sup>* legacyDB db \<and> bs_Status (getUsageRollupBackfillStatus db) = statusCompleted \<and>
     su_RequestCount (buildAnalyticsCoreWithFilter [] db (sampleFilter (10 * hour) (11 * hour - 1))) = 1"
proof -
  obtain db r where b: "backfillUsageRollupsBatch noBackfillFaults 0 (clockAt 11 30) 24 legacyDB = (db, r, None)"
    and c: "bs_Status (getUsageRollupBackfillStatus db) = statusCompleted"
      "bs_TargetBucketStart (getUsageRollupBackfillStatus db) = Some (10 * hour)"
      "st_events (bf_store db) = [legacyEvent]"
    using legacyDB_completes by blast
  have steps: "(backfill_step 24)\<^sup>*\<^sup>* legacyDB db" using backfill_step.batch [OF b] by blast
  have h: "(24 :: int) \<le> maxBatchHours" by (simp add: maxBatchHours_def)
  have prices: "priceTableOK emptyTable" by (simp add: priceTableOK_def) (simp add: emptyTable_def)
  have tidy: "\<forall>e \<in> set (st_events (bf_store db)). tidy e" by (simp add: c(3) legacyEvent_facts)
  have fits: "fits (st_events (bf_store db))" by (simp add: c(3) fits_def legacyEvent_facts)
  have target: "\<forall>target. bs_TargetBucketStart (getUsageRollupBackfillStatus db) = Some target \<longrightarrow>
      (\<forall>e \<in> set [legacyEvent]. eventBucket e \<le> target)" by (simp add: c(2) legacyEvent_facts)
  from analytics_exact [OF legacyDB_upgraded steps h prices tidy fits target, of "sampleFilter (10 * hour) (11 * hour - 1)"]
  have "buildAnalyticsCoreWithFilter [] db (sampleFilter (10 * hour) (11 * hour - 1)) =
      buildAnalyticsSummary [] [legacyEvent] (sampleFilter (10 * hour) (11 * hour - 1))"
    by (simp add: c(3) emptyTable_def)
  with steps c(1) legacyEvent_raw [of "[]"] show ?thesis by (auto simp: uniquePrices_def)
qed


text \<open>
  The previous period has the length of the selected one and ends one nanosecond before it: an
  instant is in one of the two windows exactly when it is in the window that spans both, and in
  both never.
\<close>

theorem previousPeriod_exact:
  assumes "us_StartTime filt = Some start" "us_EndTime filt = Some end" "start < end"
  shows "\<exists>prev p. analyticsPreviousPeriodFilter filt = Some prev \<and> us_StartTime prev = Some p \<and>
    us_Provider prev = us_Provider filt \<and> start - p = end - start + nanosecond \<and>
    (\<forall>t. (applyUsageQueryWindow prev t \<or> applyUsageQueryWindow filt t) = (p \<le> t \<and> t \<le> end)) \<and>
    (\<forall>t. \<not> (applyUsageQueryWindow prev t \<and> applyUsageQueryWindow filt t))"
  using assms
  by (auto simp: analyticsPreviousPeriodFilter_def Let_def applyUsageQueryWindow_def nanosecond_def)

lemma previousPeriod_exact_witness:
  "\<exists>prev. analyticsPreviousPeriodFilter (sampleFilter 100 199) = Some prev \<and> us_StartTime prev = Some 0"
  using previousPeriod_exact [of "sampleFilter 100 199" 100 199]
  by (auto simp: sampleFilter_def nanosecond_def)

section \<open>Bounds of the summary\<close>

lemma raw_columns:
  "ag_RequestCount (rawRow settings es) = of_nat (length es)"
  "ag_SuccessCount (rawRow settings es) = sumCase (\<lambda>e. \<not> ev_Failed e) (\<lambda>e. 1) es"
  "ag_CacheReadObservedInputTokens (rawRow settings es) = ag_InputTokens (rawRow settings es)"
proof -
  show "ag_RequestCount (rawRow settings es) = of_nat (length es)"
    unfolding rawRow_def sumRows_columns
    by (simp add: analyticsSummarySelect_def analyticsEventsAggregateSource_def Let_def o_def) (induction es; simp)
  show "ag_SuccessCount (rawRow settings es) = sumCase (\<lambda>e. \<not> ev_Failed e) (\<lambda>e. 1) es"
    unfolding rawRow_def sumRows_columns sumCase_def
    by (intro arg_cong [where f = sum_list])
      (simp add: analyticsSummarySelect_def analyticsEventsAggregateSource_def Let_def)
  show "ag_CacheReadObservedInputTokens (rawRow settings es) = ag_InputTokens (rawRow settings es)"
    unfolding rawRow_def sumRows_columns
    by (simp add: analyticsSummarySelect_def analyticsEventsAggregateSource_def Let_def o_def)
qed

lemma raw_tokens:
  assumes "\<forall>e \<in> set es. storedOK e"
  shows "ag_InputTokens (rawRow settings es) = sumCase sqlValid (coalesced ua_InputTokens) es"
    "ag_CacheReadTokens (rawRow settings es) = sumCase sqlValid (coalesced ua_CacheReadTokens) es"
  using sum_positive [OF columns_ok(1) [OF assms]] sum_positive [OF columns_ok(4) [OF assms]]
  by (simp_all add: rawRow_def sumRows_columns o_def analyticsSummarySelect_def
      analyticsEventsAggregateSource_def Let_def whenTokens_def)

lemma cacheRead_le_input:
  assumes "\<forall>e \<in> set es. storedOK e" "fits es"
  shows "sint (sumCase sqlValid (coalesced ua_CacheReadTokens) es) \<le> sint (sumCase sqlValid (coalesced ua_InputTokens) es)"
  unfolding column_exact(1) [OF columns_ok(4) [OF assms(1)] assms(2,1)]
    column_exact(1) [OF columns_ok(1) [OF assms(1)] assms(2,1)]
proof (rule sum_list_mono)
  fix e assume "e \<in> set es"
  then have "sqlValid e \<Longrightarrow> accountingWellFormed (ev_UsageAccounting e)" using assms(1) stored_valid by blast
  from wellFormed_values [OF this]
  show "sint (if sqlValid e then coalesced ua_CacheReadTokens e else 0)
      \<le> sint (if sqlValid e then coalesced ua_InputTokens e else 0)" by (cases "sqlValid e") auto
qed

lemma ratio_bounds:
  fixes x y :: int
  assumes "0 \<le> x" "x \<le> y" "0 < y"
  shows "0 \<le> of_int x / of_int y * (100 :: rat)" "of_int x / of_int y * 100 \<le> (100 :: rat)"
    "of_int y / of_int y * 100 = (100 :: rat)"
proof -
  have "(0::rat) < of_int y" "(of_int x :: rat) \<le> of_int y" "(0::rat) \<le> of_int x"
    using assms by simp_all
  then show "0 \<le> of_int x / of_int y * (100 :: rat)" "of_int x / of_int y * 100 \<le> (100 :: rat)"
    "of_int y / of_int y * 100 = (100 :: rat)"
    by (simp_all add: divide_le_eq)
qed

lemma percent_bounds:
  assumes "0 \<le> sint a" "sint a \<le> sint b" "0 < sint b"
  shows "0 \<le> percentOf a b" "percentOf a b \<le> 100" "percentOf b b = 100"
  unfolding percentOf_def by (rule ratio_bounds [OF assms])+

lemma sint_countsTo: "countsTo w b some \<Longrightarrow> b < 2 ^ 63 \<Longrightarrow> 0 \<le> sint w \<and> sint w \<le> int b"
proof -
  assume "countsTo w b some" and b: "b < 2 ^ 63"
  then obtain n where n: "w = word_of_int (int n)" "n \<le> b" by (auto simp: countsTo_def)
  then have "int n < 2 ^ 63" using b by (metis le_less_trans of_nat_less_numeral_power_cancel_iff)
  moreover have "sint w = signed_take_bit 63 (int n)" unfolding n(1) by (simp only: sint_sbintrunc') simp
  ultimately show ?thesis using n(2) by (simp add: signed_take_bit_int_eq_self)
qed

lemma sint_length: "length es < 2 ^ 63 \<Longrightarrow> sint (of_nat (length es) :: i64) = int (length es)"
proof -
  assume "length es < 2 ^ 63"
  then have "int (length es) < 2 ^ 63" by (metis of_nat_less_numeral_power_cancel_iff)
  moreover have "sint (word_of_int (int (length es)) :: i64) = signed_take_bit 63 (int (length es))"
    by (simp only: sint_sbintrunc') simp
  ultimately show ?thesis by (simp add: signed_take_bit_int_eq_self)
qed

lemma summary_bounds:
  assumes "\<forall>e \<in> set es. storedOK e" "fits es"
    and s_def: "s = mapAnalyticsSummary (rawRow settings es)"
  shows "0 \<le> su_SuccessRate s \<and> su_SuccessRate s \<le> 100"
    "0 \<le> su_CacheReadShare s \<and> su_CacheReadShare s \<le> 100"
    "su_CacheReadShareState s = (if 0 <s su_InputTokens s then shareAvailable else shareNoPromptInput)"
proof -
  let ?r = "rawRow settings es"
  have len: "length es < 2 ^ 63" using assms(2) by (simp add: fits_def)
  have rate: "su_SuccessRate s = (if 0 <s ag_RequestCount ?r
      then percentOf (ag_SuccessCount ?r) (ag_RequestCount ?r) else 0)"
    by (simp add: s_def mapAnalyticsSummary_def Let_def split: prod.split)
  have "0 \<le> sint (ag_SuccessCount ?r) \<and> sint (ag_SuccessCount ?r) \<le> sint (ag_RequestCount ?r)"
    unfolding raw_columns(1,2) sint_length [OF len] by (rule sint_countsTo [OF sumCase_countsTo len])
  then show "0 \<le> su_SuccessRate s \<and> su_SuccessRate s \<le> 100"
    using percent_bounds [of "ag_SuccessCount ?r" "ag_RequestCount ?r"] by (auto simp: rate i64_order)
  have metrics: "(su_CacheReadShare s, su_CacheReadCoverage s, su_CacheReadShareState s) =
      analyticsCacheReadMetrics (ag_InputTokens ?r) (ag_InputTokens ?r) (ag_CacheReadTokens ?r)"
    by (simp add: s_def mapAnalyticsSummary_def Let_def analyticsCacheEfficiency_def raw_columns(3)
        split: prod.split)
  have input: "su_InputTokens s = ag_InputTokens ?r"
    by (simp add: s_def mapAnalyticsSummary_def Let_def split: prod.split)
  have full: "percentOf (ag_InputTokens ?r) (ag_InputTokens ?r) = 100" if "0 < sint (ag_InputTokens ?r)"
    using that percent_bounds(3) [of "ag_InputTokens ?r" "ag_InputTokens ?r"] by simp
  have le: "0 \<le> sint (ag_CacheReadTokens ?r)" "sint (ag_CacheReadTokens ?r) \<le> sint (ag_InputTokens ?r)"
    unfolding raw_tokens [OF assms(1)]
    using column_exact(2) [OF columns_ok(4) [OF assms(1)] assms(2,1)] cacheRead_le_input [OF assms(1,2)] by blast+
  show "0 \<le> su_CacheReadShare s \<and> su_CacheReadShare s \<le> 100"
    "su_CacheReadShareState s = (if 0 <s su_InputTokens s then shareAvailable else shareNoPromptInput)"
    using metrics full percent_bounds [OF le] unfolding input
    by (auto simp: analyticsCacheReadMetrics_def i64_order Let_def split: if_splits)
qed

text \<open>
  The shares of a summary are percentages, and its cache state is one of two. Over stored events
  that fit, the success rate and the cache read share lie between 0 and 100, and the state of the
  share is \<open>available\<close> when there is prompt input and \<open>no_prompt_input\<close> otherwise: the observed
  input is the same column as the input, so the states for partial and missing cache data are not
  reached.
\<close>

theorem analyticsSummary_bounds:
  assumes "uniquePrices settings" "\<forall>e \<in> set events. storedOK e \<and> tidy e" "fits events"
  shows "let s = buildAnalyticsSummary settings events filt in
    0 \<le> su_SuccessRate s \<and> su_SuccessRate s \<le> 100 \<and>
    0 \<le> su_CacheReadShare s \<and> su_CacheReadShare s \<le> 100 \<and>
    su_CacheReadShareState s = (if 0 <s su_InputTokens s then shareAvailable else shareNoPromptInput)"
proof -
  let ?W = "filter (\<lambda>e. filterWindow filt (ev_Timestamp e) \<and> providerIn filt (ev_Provider e)) events"
  have tidy: "\<forall>e \<in> set events. tidy e" and st: "\<forall>e \<in> set events. storedOK e" using assms(2) by simp_all
  have "\<forall>e \<in> set ?W. storedOK e" "fits ?W" using st fits_filter [OF st assms(3)] by simp_all
  from summary_bounds [OF this refl, of settings] show ?thesis
    unfolding buildAnalyticsSummary_def raw_segment [OF assms(1) tidy] Let_def by blast
qed

lemma analyticsSummary_bounds_witness:
  "su_CacheReadShareState (buildAnalyticsSummary [] [legacyEvent] (sampleFilter (10 * hour) (11 * hour - 1)))
     \<in> {shareAvailable, shareNoPromptInput}"
proof -
  have "uniquePrices []" by (simp add: uniquePrices_def)
  moreover have "\<forall>e \<in> set [legacyEvent]. storedOK e \<and> tidy e"
    using legacyEvent_ok by (simp add: legacyEvent_facts stateOK_def)
  moreover have "fits [legacyEvent]" by (simp add: fits_def legacyEvent_facts)
  ultimately show ?thesis
    using analyticsSummary_bounds [of "[]" "[legacyEvent]" "sampleFilter (10 * hour) (11 * hour - 1)"]
    by (simp add: Let_def)
qed

end
