(* ===== verification/Grouping.thy ===== *)
theory Grouping
  imports AnalyticsCore "HOL-Library.AList" "HOL-Library.Product_Lexorder"
begin

text \<open>
  What the breakdowns of the analytics share: \<open>GROUP BY\<close>, the Go map that the rows of the segments are added
  into, the loop over the segments of a plan, and the ranking of the result. A Go map that is filled by key and
  then sorted is an association list; the key column of a row is the key and kept apart from its sums.
\<close>

section \<open>Groups and maps of sums\<close>

definition sqlGroupBy :: "('r \<Rightarrow> 'r \<Rightarrow> 'r) \<Rightarrow> 'r \<Rightarrow> ('x \<Rightarrow> 'k) \<Rightarrow> ('x \<Rightarrow> 'r) \<Rightarrow> 'x list \<Rightarrow> ('k \<times> 'r) list" where
  "sqlGroupBy add zero key select xs =
     map (\<lambda>k. (k, totalRows add zero (map select (filter (\<lambda>x. key x = k) xs)))) (remdups (map key xs))"

text \<open>\<open>combined := dst[key]; combined += row; dst[key] = combined\<close>; a missing key reads as the zero row.\<close>

definition addRow :: "('r \<Rightarrow> 'r \<Rightarrow> 'r) \<Rightarrow> 'r \<Rightarrow> 'k \<times> 'r \<Rightarrow> ('k \<times> 'r) list \<Rightarrow> ('k \<times> 'r) list" where
  "addRow add zero kr dst =
     (case kr of (k, r) \<Rightarrow> AList.update k (add (case map_of dst k of None \<Rightarrow> zero | Some c \<Rightarrow> c) r) dst)"

definition addRows :: "('r \<Rightarrow> 'r \<Rightarrow> 'r) \<Rightarrow> 'r \<Rightarrow> ('k \<times> 'r) list \<Rightarrow> ('k \<times> 'r) list \<Rightarrow> ('k \<times> 'r) list" where
  "addRows add zero rows dst = fold (addRow add zero) rows dst"

lemma addRows_keys:
  "distinct (map fst dst) \<Longrightarrow> distinct (map fst (addRows add zero rows dst))"
  "fst ` set (addRows add zero rows dst) = fst ` set dst \<union> fst ` set rows"
proof -
  show "distinct (map fst dst) \<Longrightarrow> distinct (map fst (addRows add zero rows dst))"
    unfolding addRows_def
    by (induction rows arbitrary: dst) (auto simp: addRow_def distinct_update split: prod.split)
  have keys: "fst ` set (addRow add zero kr dst) = insert (fst kr) (fst ` set dst)" for kr dst
    by (cases kr) (simp add: addRow_def dom_update)
  show "fst ` set (addRows add zero rows dst) = fst ` set dst \<union> fst ` set rows"
    unfolding addRows_def by (induction rows arbitrary: dst) (simp_all add: keys)
qed

lemma addRows_append: "addRows add zero (rows @ rows') dst = addRows add zero rows' (addRows add zero rows dst)"
  by (simp add: addRows_def)

context row_sum begin

abbreviation (input) tot :: "'r list \<Rightarrow> 'r" where "tot \<equiv> totalRows add zero"

lemma total_concat: "tot (concat xss) = tot (map tot xss)"
  by (induction xss) (simp_all add: total_append)

text \<open>Adding up the groups of a \<open>GROUP BY\<close> under a coarser key gives the sums under that key.\<close>

lemma groupBy_total:
  "tot (map snd (filter (\<lambda>kr. c (fst kr) = k) (sqlGroupBy add zero key select xs))) =
     tot (map select (filter (\<lambda>x. c (key x) = k) xs))"
proof -
  let ?xs = "filter (\<lambda>x. c (key x) = k) xs" and ?ks = "filter (\<lambda>j. c j = k) (remdups (map key xs))"
  have same: "filter (\<lambda>x. key x = j) xs = filter (\<lambda>x. key x = j) ?xs" if "j \<in> set ?ks" for j
    unfolding filter_filter using that by (intro filter_cong refl) auto
  have groups: "map (\<lambda>j. tot (map select (filter (\<lambda>x. key x = j) xs))) ?ks =
      map (\<lambda>j. tot (map select (filter (\<lambda>x. key x = j) ?xs))) ?ks"
    by (rule map_cong [OF refl]) (simp only: same)
  have "mset (concat (map (\<lambda>j. filter (\<lambda>x. key x = j) ?xs) ?ks)) = mset ?xs"
    by (rule mset_groups) auto
  then have "tot (map select (concat (map (\<lambda>j. filter (\<lambda>x. key x = j) ?xs) ?ks))) = tot (map select ?xs)"
    by (intro total_perm) (simp add: mset_map)
  then show ?thesis
    unfolding sqlGroupBy_def filter_map o_def fst_conv map_map snd_conv groups
    by (simp only: map_concat total_concat map_map o_def)
qed

lemma addRows_lookup:
  "map_of (addRows add zero rows dst) k =
     (if \<exists>r. (k, r) \<in> set rows
      then Some (add (case map_of dst k of None \<Rightarrow> zero | Some c \<Rightarrow> c) (tot (map snd (filter (\<lambda>kr. fst kr = k) rows))))
      else map_of dst k)"
proof (induction rows arbitrary: dst)
  case Nil
  show ?case by (simp add: addRows_def)
next
  case (Cons kr rows)
  obtain j r where kr: "kr = (j, r)" by (cases kr)
  have "addRows add zero (kr # rows) dst = addRows add zero rows (addRow add zero (j, r) dst)"
    by (simp add: addRows_def kr)
  moreover have "filter (\<lambda>kr. fst kr = k) rows = []" if "\<nexists>r. (k, r) \<in> set rows"
    using that by (auto simp: filter_empty_conv)
  ultimately show ?case
    using Cons.IH [of "addRow add zero (j, r) dst"]
    by (auto simp: kr addRow_def update_conv' add_assoc add_zero_right split: option.split)
qed

text \<open>The map that a list of rows gives: one sum for each key.\<close>

lemma addRows_map:
  "addRows add zero rows [] =
     map (\<lambda>k. (k, tot (map snd (filter (\<lambda>kr. fst kr = k) rows)))) (map fst (addRows add zero rows []))"
proof -
  let ?m = "addRows add zero rows []"
  have d: "distinct (map fst ?m)" "fst ` set ?m = fst ` set rows"
    using addRows_keys [where dst = "[]" and add = add and zero = zero and rows = rows] by auto
  have "snd kr = tot (map snd (filter (\<lambda>kr'. fst kr' = fst kr) rows))" if "kr \<in> set ?m" for kr
  proof -
    have "map_of ?m (fst kr) = Some (snd kr)" using that d(1) by simp
    moreover have "\<exists>r. (fst kr, r) \<in> set rows" using that d(2) by (metis (no_types) image_iff prod.collapse)
    ultimately show ?thesis using addRows_lookup [of rows "[]" "fst kr"] by (simp add: add_zero)
  qed
  then show ?thesis by (simp add: map_idI [symmetric] prod_eq_iff o_def)
qed

end

section \<open>The segments of a plan\<close>

text \<open>The loop over the raw filters of a plan, and its rollup filter.\<close>

definition overPlan ::
  "(analyticsFilter \<Rightarrow> sourceRow list \<Rightarrow> 'a \<Rightarrow> 'a) \<Rightarrow> eventStore \<Rightarrow> analyticsCoreWindowPlan \<Rightarrow> 'a \<Rightarrow> 'a" where
  "overPlan step st plan start =
     (let raw = fold (\<lambda>f acc. step f (map analyticsEventsAggregateSource (st_events st)) acc) (wp_rawFilters plan) start
      in case wp_rollupFilter plan of
           None \<Rightarrow> raw
         | Some f \<Rightarrow> step f (map analyticsRollupsAggregateSource (st_rollups st)) raw)"

text \<open>The joined rows of a query: source, filter and prices.\<close>

definition pricedQuery ::
  "modelPriceSetting list \<Rightarrow> analyticsFilter \<Rightarrow> sourceRow list \<Rightarrow> (sourceRow \<times> modelPriceSetting option) list" where
  "pricedQuery settings filt source =
     concat (map (\<lambda>s. map (Pair s) (joinPrices settings s)) (filter (applyAnalyticsScopeFilter filt) source))"

lemma pricedQuery_unique:
  "uniquePrices settings \<Longrightarrow> pricedQuery settings filt source =
     map (\<lambda>s. (s, priceAt settings (sr_Model s))) (filter (applyAnalyticsScopeFilter filt) source)"
  by (induction source) (simp_all add: pricedQuery_def joinPrices_unique)

definition planSegments :: "eventStore \<Rightarrow> analyticsCoreWindowPlan \<Rightarrow> (analyticsFilter \<times> sourceRow list) list" where
  "planSegments st plan =
     map (\<lambda>f. (f, map analyticsEventsAggregateSource (st_events st))) (wp_rawFilters plan) @
     (case wp_rollupFilter plan of None \<Rightarrow> []
      | Some f \<Rightarrow> [(f, map analyticsRollupsAggregateSource (st_rollups st))])"

lemma overPlan_segments: "overPlan step st plan a = fold (\<lambda>(f, source). step f source) (planSegments st plan) a"
  by (simp add: overPlan_def planSegments_def fold_map o_def split: option.split)

lemma planRows_segments:
  "planRows st plan = concat (map (\<lambda>(f, source). filter (applyAnalyticsScopeFilter f) source) (planSegments st plan))"
  by (simp add: planRows_def planSegments_def o_def split: option.split)

lemma fold_addRows:
  "fold (\<lambda>x. addRows add zero (g x)) xs dst = addRows add zero (concat (map g xs)) dst"
  by (induction xs arbitrary: dst) (simp_all add: addRows_append, simp add: addRows_def)

text \<open>
  A breakdown adds the groups of every segment into one map. Its keys are the coarser keys of the rows that
  the plan reads, and its sums those over the rows with that key, wherever they come from.
\<close>

definition groupedOver ::
  "('r \<Rightarrow> 'r \<Rightarrow> 'r) \<Rightarrow> 'r \<Rightarrow> modelPriceSetting list \<Rightarrow> (sourceRow \<Rightarrow> 'j) \<Rightarrow> (sourceRow \<Rightarrow> bool) \<Rightarrow>
     (sourceRow \<Rightarrow> modelPriceSetting option \<Rightarrow> 'r) \<Rightarrow> analyticsFilter \<Rightarrow> sourceRow list \<Rightarrow> ('j \<times> 'r) list" where
  "groupedOver add zero settings key shown select filt source =
     sqlGroupBy add zero (\<lambda>(s, p). key s) (\<lambda>(s, p). select s p)
       (filter (\<lambda>(s, p). shown s) (pricedQuery settings filt source))"

definition sumOver ::
  "('r \<Rightarrow> 'r \<Rightarrow> 'r) \<Rightarrow> 'r \<Rightarrow> modelPriceSetting list \<Rightarrow> (sourceRow \<Rightarrow> modelPriceSetting option \<Rightarrow> 'r) \<Rightarrow>
     sourceRow list \<Rightarrow> 'r" where
  "sumOver add zero settings select rows = totalRows add zero (map (\<lambda>s. select s (priceAt settings (sr_Model s))) rows)"

lemma grouped_keys:
  assumes "uniquePrices settings"
  shows "fst ` set (groupedOver add zero settings key shown select filt source) =
    key ` {s \<in> set source. applyAnalyticsScopeFilter filt s \<and> shown s}"
  by (auto simp: groupedOver_def sqlGroupBy_def pricedQuery_unique [OF assms] image_iff)

lemma grouped_keys_all:
  assumes "uniquePrices settings"
  shows "fst ` set (concat (map (\<lambda>(f, source). groupedOver add zero settings key shown select f source) segs)) =
    key ` {s \<in> set (concat (map (\<lambda>(f, source). filter (applyAnalyticsScopeFilter f) source) segs)). shown s}"
proof (induction segs)
  case (Cons seg segs)
  obtain f source where seg: "seg = (f, source)" by (cases seg)
  have "{s. (s \<in> set source \<and> applyAnalyticsScopeFilter f s \<or> Q s) \<and> shown s} =
      {s \<in> set source. applyAnalyticsScopeFilter f s \<and> shown s} \<union> {s. Q s \<and> shown s}" for Q by blast
  with Cons.IH grouped_keys [OF assms, of add zero key shown select f source] show ?case
    by (simp add: seg image_Un)
qed simp

context row_sum begin

lemma grouped_total:
  assumes "uniquePrices settings"
  shows "tot (map snd (filter (\<lambda>kr. c (fst kr) = k) (groupedOver add zero settings key shown select filt source))) =
    sumOver add zero settings select
      (filter (\<lambda>s. shown s \<and> c (key s) = k) (filter (applyAnalyticsScopeFilter filt) source))"
  unfolding groupedOver_def groupBy_total sumOver_def
  by (simp add: pricedQuery_unique [OF assms] filter_map o_def conj_ac)

lemma sumOver_append:
  "sumOver add zero settings select (xs @ ys) = add (sumOver add zero settings select xs) (sumOver add zero settings select ys)"
  by (simp add: sumOver_def total_append)

lemma grouped_totals:
  assumes "uniquePrices settings"
  shows "tot (map snd (filter (\<lambda>kr. c (fst kr) = k)
      (concat (map (\<lambda>(f, source). groupedOver add zero settings key shown select f source) segs)))) =
    sumOver add zero settings select (filter (\<lambda>s. shown s \<and> c (key s) = k)
      (concat (map (\<lambda>(f, source). filter (applyAnalyticsScopeFilter f) source) segs)))"
proof (induction segs)
  case (Cons seg segs)
  obtain f source where seg: "seg = (f, source)" by (cases seg)
  show ?case
    using Cons.IH grouped_total [OF assms, of c k key shown select f source]
    by (simp add: seg total_append sumOver_append del: filter_filter)
qed (simp add: sumOver_def)

lemma breakdown_map:
  assumes "uniquePrices settings"
    and "mset rows = mset (concat
      (map (\<lambda>(f, source). groupedOver add zero settings key shown select f source) (planSegments st plan)))"
  shows "\<exists>ks. distinct ks \<and> set ks = (\<lambda>s. c (key s)) ` {s \<in> set (planRows st plan). shown s} \<and>
    addRows add zero (map (\<lambda>(k, r). (c k, r)) rows) [] = map (\<lambda>k. (k, sumOver add zero settings select
      (filter (\<lambda>s. shown s \<and> c (key s) = k) (planRows st plan)))) ks"
proof -
  let ?rows = "map (\<lambda>(k, r). (c k, r)) rows"
  let ?ks = "map fst (addRows add zero ?rows [])"
  have "distinct ?ks" by (rule addRows_keys(1)) simp
  moreover have "fst ` set rows = key ` {s \<in> set (planRows st plan). shown s}"
    unfolding mset_eq_setD [OF assms(2)] planRows_segments by (rule grouped_keys_all [OF assms(1)])
  moreover have "set ?ks = fst ` set ?rows"
    using addRows_keys(2) [of add zero ?rows "[]"] by simp
  moreover have "fst ` set ?rows = c ` fst ` set rows" by force
  ultimately have "distinct ?ks" "set ?ks = (\<lambda>s. c (key s)) ` {s \<in> set (planRows st plan). shown s}"
    by (simp_all only: image_image)
  moreover have "tot (map snd (filter (\<lambda>kr. fst kr = k) ?rows)) = sumOver add zero settings select
      (filter (\<lambda>s. shown s \<and> c (key s) = k) (planRows st plan))" for k
    unfolding planRows_segments grouped_totals [OF assms(1), symmetric]
    by (rule total_perm) (simp add: assms(2) filter_map o_def case_prod_unfold)
  then have "addRows add zero ?rows [] = map (\<lambda>k. (k, sumOver add zero settings select
      (filter (\<lambda>s. shown s \<and> c (key s) = k) (planRows st plan)))) ?ks"
    using addRows_map [of ?rows] by (simp only:)
  ultimately show ?thesis by blast
qed

end

section \<open>Ranking\<close>

lemma sort_key_map_key: "sort_key f (map g xs) = map g (sort_key (\<lambda>x. f (g x)) xs)"
proof -
  have "insort_key f (g x) (map g ys) = map g (insort_key (\<lambda>x. f (g x)) x ys)" for x ys
    by (induction ys) simp_all
  then show ?thesis by (induction xs) simp_all
qed

lemma insort_key_same:
  "\<forall>y \<in> insert x (set ys). f y = g y \<Longrightarrow> insort_key f x ys = insort_key g x ys"
  by (induction ys) auto

lemma sort_key_same: "\<forall>x \<in> set xs. f x = g x \<Longrightarrow> sort_key f xs = sort_key g xs"
  by (induction xs) (auto intro: insort_key_same)

text \<open>Rows that agree in their rank and in what is shown of them give the same list, whatever their order.\<close>

lemma ranking_eq:
  assumes "distinct xs" "distinct ys" "set xs = set ys" "inj_on rank (set xs)"
    and "\<And>x. x \<in> set xs \<Longrightarrow> order (f x) = rank x \<and> order' (g x) = rank x \<and> out (f x) = out' (g x)"
  shows "map out (take n (sort_key order (map f xs))) = map out' (take n (sort_key order' (map g ys)))"
proof -
  have "mset xs = mset ys" using assms(1-3) by (simp add: set_eq_iff_mset_eq_distinct)
  then have "sort_key rank xs = sort_key rank ys" using assms(4) by (rule sort_key_eq_sort_key)
  moreover have "sort_key (\<lambda>x. order (f x)) xs = sort_key rank xs" "sort_key (\<lambda>x. order' (g x)) ys = sort_key rank ys"
    using assms(3,5) by (auto intro!: sort_key_same)
  moreover have "map (\<lambda>x. out (f x)) (take n (sort_key rank xs)) = map (\<lambda>x. out' (g x)) (take n (sort_key rank xs))"
    using assms(5) by (intro map_cong refl) (auto dest: in_set_takeD)
  ultimately show ?thesis by (simp add: sort_key_map_key take_map o_def)
qed

corollary ranking_all:
  assumes "distinct xs" "distinct ys" "set xs = set ys" "inj_on rank (set xs)"
    and "\<And>x. x \<in> set xs \<Longrightarrow> order (f x) = rank x \<and> order' (g x) = rank x \<and> out (f x) = out' (g x)"
  shows "map out (sort_key order (map f xs)) = map out' (sort_key order' (map g ys))"
proof -
  have "length ys = length xs" using assms(1-3) by (metis distinct_card)
  moreover have "map out (take (length xs) (sort_key order (map f xs))) =
      map out' (take (length xs) (sort_key order' (map g ys)))"
    by (rule ranking_eq [where rank = rank]) (use assms in simp_all)
  ultimately show ?thesis by simp
qed

section \<open>An empty price table\<close>

lemma noPrices: "priceTableOK emptyTable"
  by (simp add: priceTableOK_def) (simp add: emptyTable_def)

lemma noPricesRows: "map snd (tbl_rows emptyTable) = []"
  by (simp add: emptyTable_def)

end
