(* ===== verification/Breakdowns.thy ===== *)
theory Breakdowns
  imports Grouping
begin

text \<open>
  The breakdown by model and the provider options of the analytics (\<open>repository/analytics_model.go\<close>,
  \<open>analytics_rollup_provider_model.go\<close>, rows of \<open>analytics_rows.go\<close>). With rollups in the plan the rows of all
  segments are merged in Go before the best twenty are taken; a plan of raw events alone goes through one query
  that groups and limits in SQL. Both are shown to give the same list. The columns \<open>Model\<close>, \<open>Provider\<close> and
  \<open>ProviderCount\<close> of a row are its key and kept apart from the sums.
\<close>

section \<open>Rows\<close>











section \<open>What is returned\<close>






section \<open>The breakdown by model\<close>











section \<open>The provider options\<close>





section \<open>Rows over the events\<close>







section \<open>The providers of a model\<close>






section \<open>The ranking of the events\<close>












section \<open>The ranking of the providers\<close>







section \<open>Properties\<close>





end
