(* ===== verification/GoNet.thy ===== *)
theory GoNet
  imports GoStrings
begin

text \<open>
  Go's error values and host addresses as the network code uses them.
\<close>

section \<open>Errors\<close>

text \<open>
  The sentinel errors the code tests for, an opaque error with its text, and what \<open>fmt.Errorf\<close>
  builds: a text with the errors its \<open>%w\<close> verbs wrap.
\<close>

datatype goErr =
    ContextCanceled
  | ContextDeadlineExceeded
  | ErrRedisQueueAuth
  | ErrSyncAlreadyRunning
  | ErrSyncCompletedWithWarnings
  | ErrSyncUnavailable
  | ErrValidation
  | ErrNotFound
  | ErrUnsupportedType
  | ErrProviderInput
  | ErrTaskNotFound
  | ErrRecordNotFound
  | PlainError string
  | WrapError string "goErr list"

fun errText :: "goErr \<Rightarrow> string" where
  "errText ContextCanceled = ''context canceled''"
| "errText ContextDeadlineExceeded = ''context deadline exceeded''"
| "errText ErrRedisQueueAuth = ''redis queue auth failed''"
| "errText ErrSyncAlreadyRunning = ''sync already running''"
| "errText ErrSyncCompletedWithWarnings = ''sync completed with warnings''"
| "errText ErrSyncUnavailable = ''sync unavailable''"
| "errText ErrValidation = ''quota request validation failed''"
| "errText ErrNotFound = ''quota auth identity not found''"
| "errText ErrUnsupportedType = ''quota identity type is unsupported''"
| "errText ErrProviderInput = ''quota provider input is invalid''"
| "errText ErrTaskNotFound = ''quota refresh task not found''"
| "errText ErrRecordNotFound = ''record not found''"
| "errText (PlainError s) = s"
| "errText (WrapError s es) = s"

text \<open>\<open>errors.Is\<close> with one of the sentinels.\<close>

fun errIs :: "goErr \<Rightarrow> goErr \<Rightarrow> bool" where
  "errIs (WrapError s es) target = (WrapError s es = target \<or> (\<exists>e \<in> set es. errIs e target))"
| "errIs e target = (e = target)"

definition wrap :: "string \<Rightarrow> goErr \<Rightarrow> goErr" where
  "wrap pre e = WrapError (pre @ errText e) [e]"

lemma errIs_wrap: "target \<in> {ContextCanceled, ContextDeadlineExceeded, ErrRedisQueueAuth,
    ErrSyncAlreadyRunning, ErrSyncCompletedWithWarnings, ErrSyncUnavailable} \<Longrightarrow>
    errIs (wrap pre e) target \<longleftrightarrow> errIs e target"
  by (auto simp: wrap_def)

section \<open>Host and port\<close>

text \<open>\<open>net.SplitHostPort\<close>: the host, or no result on a malformed address.\<close>

definition cutAtLast :: "char \<Rightarrow> string \<Rightarrow> (string \<times> string) option" where
  "cutAtLast c s =
     (if c \<notin> set s then None
      else (let tl = takeWhile (\<lambda>x. x \<noteq> c) (rev s)
            in Some (take (length s - length tl - 1) s, rev tl)))"

definition splitHostPort :: "string \<Rightarrow> string option" where
  "splitHostPort hostport =
     (case cutAtLast (CHR '':'') hostport of
        None \<Rightarrow> None
      | Some (before, port) \<Rightarrow>
          if hostport \<noteq> [] \<and> hd hostport = CHR ''['' then
            (let host = takeWhile (\<lambda>c. c \<noteq> CHR '']'') (tl hostport)
             in if before = ''['' @ host @ '']'' \<and> CHR ''['' \<notin> set host \<and>
                   CHR ''['' \<notin> set port \<and> CHR '']'' \<notin> set port
                then Some host else None)
          else if CHR '':'' \<in> set before then None
          else if CHR ''['' \<in> set hostport \<or> CHR '']'' \<in> set hostport then None
          else Some before)"

text \<open>\<open>net.JoinHostPort\<close>, and \<open>URL.Hostname\<close> and \<open>URL.Port\<close> on the host of a parsed URL.\<close>

definition joinHostPort :: "string \<Rightarrow> string \<Rightarrow> string" where
  "joinHostPort host port =
     (if CHR '':'' \<in> set host then ''['' @ host @ '']:'' @ port else host @ '':'' @ port)"

definition urlSplitHost :: "string \<Rightarrow> string \<times> string" where
  "urlSplitHost hostPort =
     (let (host, port) =
        (case cutAtLast (CHR '':'') hostPort of
           Some (before, after) \<Rightarrow>
             if \<forall>c \<in> set after. char_digit c \<noteq> None then (before, after) else (hostPort, [])
         | None \<Rightarrow> (hostPort, []))
      in (if hasPrefix host ''['' \<and> hasSuffix host '']'' then butlast (tl host) else host, port))"

definition urlHostname :: "string \<Rightarrow> string" where
  "urlHostname host = fst (urlSplitHost host)"

definition urlPort :: "string \<Rightarrow> string" where
  "urlPort host = snd (urlSplitHost host)"

end
