(* ===== verification/UsageEvents.thy ===== *)
theory UsageEvents
  imports AnalyticsCore GoNet "HOL-Library.Product_Lexorder"
begin

text \<open>
  The request evidence: the selection and the pages of \<open>repository/usage_events.go\<close>, and the distribution of
  failures of \<open>repository/usage_failures.go\<close>, with their records (\<open>dto/usage_events.go\<close>, filters of
  \<open>dto/usage_query_filter.go\<close>). A Go \<open>int\<close> is an integer, wrapped to 64 bits where it is computed.
\<close>

section \<open>The selection\<close>

record usageDiagnosticFilter = usageTimeScope +
  df_Model :: string
  df_ModelAlias :: string
  df_Account :: string
  df_Endpoint :: string
  df_Status :: string
  df_RequestID :: string
  df_MinLatencyMS :: "i64 option"

record usageEventListFilter = usageDiagnosticFilter +
  lf_Page :: int
  lf_PageSize :: int
  lf_Offset :: int
  lf_Source :: string
  lf_AuthIndex :: string
  lf_Result :: string

text \<open>\<open>INSTR\<close> of one character, and the endpoint without its query and fragment.\<close>

definition instr :: "char \<Rightarrow> string \<Rightarrow> nat" where
  "instr c s = (if c \<in> set s then length (takeWhile (\<lambda>x. x \<noteq> c) s) + 1 else 0)"

definition publicUsageEndpointSQL :: "string \<Rightarrow> string" where
  "publicUsageEndpointSQL s =
     sqlTrim (if 0 < instr (CHR ''?'') s \<and> (instr (CHR ''#'') s = 0 \<or> instr (CHR ''?'') s < instr (CHR ''#'') s)
              then take (instr (CHR ''?'') s - 1) s
              else if 0 < instr (CHR ''#'') s then take (instr (CHR ''#'') s - 1) s
              else s)"

text \<open>
  The bound text of a status is compared with the integer column, which converts a decimal number; the
  statuses the API lets through are canonical. \<open>status[0]-'0'\<close> is a byte.
\<close>

definition applyUsageStatusFilter :: "string \<Rightarrow> int \<Rightarrow> bool" where
  "applyUsageStatusFilter rawStatus code =
     (let status = trimSpace rawStatus
      in if status = [] then True
         else if status = ''unknown'' then code = 0
         else if status = ''other'' then code \<noteq> 0 \<and> (code < 100 \<or> 599 < code)
         else if length status = 3 \<and> tl status = ''xx''
           then (let lower = (of_char (hd status) - 48) mod 256 * 100 in lower \<le> code \<and> code < lower + 100)
         else parseInt64 status = Some code)"

definition applyUsageDiagnosticQuery :: "'a usageDiagnosticFilter_scheme \<Rightarrow> usageEvent \<Rightarrow> bool" where
  "applyUsageDiagnosticQuery filt e \<longleftrightarrow>
     applyUsageQueryWindow filt (ev_Timestamp e) \<and>
     (let provider = trimSpace (us_Provider filt) in provider = [] \<or> sqlTrim (ev_Provider e) = provider) \<and>
     (let model = trimSpace (df_Model filt) in model = [] \<or> sqlTrim (ev_Model e) = model) \<and>
     (let modelAlias = trimSpace (df_ModelAlias filt)
      in modelAlias = [] \<or> (case ev_ModelAlias e of None \<Rightarrow> False | Some a \<Rightarrow> sqlTrim a = modelAlias)) \<and>
     (let account = trimSpace (df_Account filt) in account = [] \<or> sqlTrim (ev_AuthIndex e) = account) \<and>
     (let endpoint = trimSpace (df_Endpoint filt) in endpoint = [] \<or> publicUsageEndpointSQL (ev_Endpoint e) = endpoint) \<and>
     (let requestID = trimSpace (df_RequestID filt) in requestID = [] \<or> sqlTrim (ev_RequestID e) = requestID) \<and>
     (case df_MinLatencyMS filt of None \<Rightarrow> True | Some m \<Rightarrow> m \<le>s ev_LatencyMS e) \<and>
     applyUsageStatusFilter (df_Status filt) (ev_StatusCode e)"

definition applyUsageEventListQuery :: "usageEventListFilter \<Rightarrow> usageEvent \<Rightarrow> bool" where
  "applyUsageEventListQuery filt e \<longleftrightarrow>
     applyUsageDiagnosticQuery filt e \<and>
     (let source = trimSpace (lf_Source filt); authIndex = trimSpace (lf_AuthIndex filt)
      in if source \<noteq> [] then
           (if authIndex \<noteq> [] then sqlTrim (ev_AuthIndex e) = authIndex \<or> sqlTrim (ev_Source e) = source
            else sqlTrim (ev_Source e) = source)
         else if authIndex \<noteq> [] then sqlTrim (ev_AuthIndex e) = authIndex else True) \<and>
     (let result = trimSpace (lf_Result filt)
      in if result = ''success'' then \<not> ev_Failed e else if result = ''failed'' then ev_Failed e else True)"

section \<open>Pages\<close>

record usageEventRecord =
  er_AttemptFacts :: usageAttemptFacts
  er_ID :: nat
  er_Timestamp :: instant
  er_APIGroupKey :: string
  er_APIKeyIdentity :: string
  er_Model :: string
  er_ModelAlias :: string
  er_Endpoint :: string
  er_RequestID :: string
  er_AuthType :: string
  er_Provider :: string
  er_Source :: string
  er_AuthIndex :: string
  er_Failed :: bool
  er_StatusCode :: "int option"
  er_ExecutorType :: string
  er_ReasoningEffort :: string
  er_LatencyMS :: i64
  er_TTFTMS :: "i64 option"

record usageEventsPage =
  pg_Events :: "usageEventRecord list"
  pg_Models :: "string list"
  pg_TotalCount :: int
  pg_Page :: int
  pg_PageSize :: int
  pg_TotalPages :: int

definition DefaultUsageEventsLimit :: int where "DefaultUsageEventsLimit = 100"

definition usageEventRecordOf :: "usageEvent \<Rightarrow> usageEventRecord option" where
  "usageEventRecordOf e = map_option (\<lambda>facts.
     \<lparr>er_AttemptFacts = facts, er_ID = ev_ID e, er_Timestamp = ev_Timestamp e,
      er_APIGroupKey = trimSpace (ev_APIGroupKey e), er_APIKeyIdentity = usageEventAPIKeyIdentity e,
      er_Model = trimSpace (ev_Model e), er_ModelAlias = trimSpace (optionalStringValue (ev_ModelAlias e)),
      er_Endpoint = trimSpace (ev_Endpoint e), er_RequestID = trimSpace (ev_RequestID e),
      er_AuthType = trimSpace (ev_AuthType e), er_Provider = trimSpace (ev_Provider e),
      er_Source = trimSpace (ev_Source e), er_AuthIndex = trimSpace (ev_AuthIndex e), er_Failed = ev_Failed e,
      er_StatusCode = usageEventStatusCode (ev_StatusCode e), er_ExecutorType = trimSpace (ev_ExecutorType e),
      er_ReasoningEffort = trimSpace (ev_ReasoningEffort e), er_LatencyMS = ev_LatencyMS e,
      er_TTFTMS = ev_TTFTMS e\<rparr>) (interpretUsageAttempt e)"

definition listUsageEventModelFilterOptions :: "'a usageTimeScope_scheme \<Rightarrow> usageEvent list \<Rightarrow> string list" where
  "listUsageEventModelFilterOptions scope stored =
     sort (remdups (filter (\<lambda>m. m \<noteq> []) (map (\<lambda>e. sqlTrim (ev_Model e))
       (filter (\<lambda>e. applyUsageQueryWindow scope (ev_Timestamp e) \<and>
          (let provider = trimSpace (us_Provider scope) in provider = [] \<or> sqlTrim (ev_Provider e) = provider)) stored))))"

definition wrap64 :: "int \<Rightarrow> int" where
  "wrap64 i = sint (word_of_int i :: i64)"

text \<open>\<open>ORDER BY timestamp DESC, id DESC\<close>.\<close>

definition newestFirst :: "usageEvent list \<Rightarrow> usageEvent list" where
  "newestFirst = sort_key (\<lambda>e. (- ev_Timestamp e, - int (ev_ID e)))"

text \<open>A negative or zero offset is no offset. \<open>None\<close>: the panic of \<open>interpretUsageAttempt\<close>.\<close>

definition listUsageEvents :: "usageEventListFilter \<Rightarrow> usageEvent list \<Rightarrow> (goErr + usageEventsPage) option" where
  "listUsageEvents filt stored =
     (if trimSpace (df_RequestID filt) \<noteq> [] \<and> (us_StartTime filt = None \<or> us_EndTime filt = None)
      then Some (Inl (PlainError ''request ID correlation requires bounded start and end times''))
      else
        (let matching = filter (applyUsageEventListQuery filt) stored;
             totalCount = int (length matching);
             page = (if lf_Page filt \<le> 0 then 1 else lf_Page filt);
             pageSize = (if lf_PageSize filt \<le> 0 then DefaultUsageEventsLimit else lf_PageSize filt);
             offset = (if lf_Offset filt \<le> 0 then wrap64 (wrap64 (page - 1) * pageSize) else lf_Offset filt);
             offset = (if offset < 0 then 0 else offset);
             events = take (nat pageSize) (drop (nat offset) (newestFirst matching));
             (page, totalPages) = (if 0 < totalCount then (page, wrap64 (totalCount + pageSize - 1) div pageSize) else (1, 1))
         in map_option (\<lambda>rows. Inr
              \<lparr>pg_Events = rows, pg_Models = listUsageEventModelFilterOptions filt stored, pg_TotalCount = totalCount,
               pg_Page = page, pg_PageSize = pageSize, pg_TotalPages = totalPages\<rparr>)
            (those (map usageEventRecordOf events))))"

section \<open>The distribution of failures\<close>

definition UsageFailureBreakdownLimit :: nat where "UsageFailureBreakdownLimit = 8"

record failureBreakdownItem =
  fi_Value :: string
  fi_Count :: i64

record failureBreakdown =
  fb_Items :: "failureBreakdownItem list"
  fb_OtherCount :: i64

record failureDistribution =
  fd_TotalFailures :: i64
  fd_Categories :: failureBreakdown
  fd_Statuses :: failureBreakdown
  fd_Providers :: failureBreakdown
  fd_Accounts :: failureBreakdown
  fd_Models :: failureBreakdown
  fd_Endpoints :: failureBreakdown

definition failureStatusCategorySQL :: "int \<Rightarrow> string" where
  "failureStatusCategorySQL code =
     (if code = 0 then ''unknown''
      else if 100 \<le> code \<and> code \<le> 199 then ''1xx''
      else if 200 \<le> code \<and> code \<le> 299 then ''2xx''
      else if 300 \<le> code \<and> code \<le> 399 then ''3xx''
      else if 400 \<le> code \<and> code \<le> 499 then ''4xx''
      else if 500 \<le> code \<and> code \<le> 599 then ''5xx''
      else ''other'')"

text \<open>
  One breakdown: the rows of the predicate grouped by the expression, the most frequent first and then by
  value, at most eight. The flag is that of the status codes, whose 0 is shown as \<open>unknown\<close>.
\<close>

definition loadUsageFailureBreakdown ::
  "usageEvent list \<Rightarrow> bool \<Rightarrow> (usageEvent \<Rightarrow> string) \<Rightarrow> (usageEvent \<Rightarrow> bool) \<Rightarrow> failureBreakdownItem list" where
  "loadUsageFailureBreakdown base codes expression predicate =
     (let rows = filter predicate base;
          groups = map (\<lambda>v. (v, length (filter (\<lambda>e. expression e = v) rows))) (remdups (map expression rows));
          shown = take UsageFailureBreakdownLimit (sort_key (\<lambda>(v, n). (- int n, v)) groups)
      in map (\<lambda>(v, n).
           let value = trimSpace v;
               value = (if value = ''0'' \<and> codes then ''unknown'' else value)
           in \<lparr>fi_Value = value, fi_Count = of_nat n\<rparr>) shown)"

definition withUsageFailureOtherCount :: "failureBreakdownItem list \<Rightarrow> i64 \<Rightarrow> failureBreakdown" where
  "withUsageFailureOtherCount items allFailures =
     (let visible = sum_list (map fi_Count items);
          rest = allFailures - visible
      in \<lparr>fb_Items = items, fb_OtherCount = (if rest <s 0 then 0 else rest)\<rparr>)"

definition buildUsageFailureDistribution :: "'a usageDiagnosticFilter_scheme \<Rightarrow> usageEvent list \<Rightarrow> goErr + failureDistribution" where
  "buildUsageFailureDistribution filt stored =
     (if us_StartTime filt = None \<or> us_EndTime filt = None
      then Inl (PlainError ''failure distribution requires bounded start and end times'')
      else
        (let base = filter (\<lambda>e. applyUsageDiagnosticQuery filt e \<and> ev_Failed e) stored;
             n = of_nat (length base);
             breakdown = (\<lambda>codes expression predicate.
               withUsageFailureOtherCount (loadUsageFailureBreakdown base codes expression predicate) n)
         in Inr \<lparr>fd_TotalFailures = n,
              fd_Categories = breakdown False (\<lambda>e. failureStatusCategorySQL (ev_StatusCode e)) (\<lambda>e. True),
              fd_Statuses = breakdown True (\<lambda>e. formatInt (ev_StatusCode e))
                (\<lambda>e. ev_StatusCode e = 0 \<or> 100 \<le> ev_StatusCode e \<and> ev_StatusCode e \<le> 599),
              fd_Providers = breakdown False (\<lambda>e. sqlTrim (ev_Provider e)) (\<lambda>e. sqlTrim (ev_Provider e) \<noteq> []),
              fd_Accounts = breakdown False (\<lambda>e. sqlTrim (ev_AuthIndex e)) (\<lambda>e. sqlTrim (ev_AuthIndex e) \<noteq> []),
              fd_Models = breakdown False (\<lambda>e. sqlTrim (ev_Model e)) (\<lambda>e. sqlTrim (ev_Model e) \<noteq> []),
              fd_Endpoints = breakdown False (\<lambda>e. publicUsageEndpointSQL (ev_Endpoint e))
                (\<lambda>e. publicUsageEndpointSQL (ev_Endpoint e) \<noteq> [])\<rparr>))"

section \<open>Pages\<close>

lemma concat_chunks:
  "concat (map (\<lambda>p. take s (drop (p * s) xs)) [0..<n]) = take (n * s) xs"
proof (induction n)
  case (Suc n)
  have "take (n * s) xs @ take s (drop (n * s) xs) = take (n * s + s) xs" by (rule take_add [symmetric])
  with Suc show ?case by (simp add: add.commute)
qed simp

lemma wrap64_id: "- (2 ^ 63) \<le> i \<Longrightarrow> i < 2 ^ 63 \<Longrightarrow> wrap64 i = i"
  unfolding wrap64_def by (rule sint_of_int_i64)

lemma newestFirst_set [simp]: "set (newestFirst es) = set es" "length (newestFirst es) = length es"
  by (simp_all add: newestFirst_def)

lemma newestFirst_Nil [simp]: "newestFirst es = [] \<longleftrightarrow> es = []"
  by (metis length_0_conv newestFirst_set(2))

lemma newestFirst_sorted:
  "sorted_wrt (\<lambda>a b. ev_Timestamp b < ev_Timestamp a \<or> ev_Timestamp a = ev_Timestamp b \<and> ev_ID b \<le> ev_ID a) (newestFirst es)"
proof -
  have "sorted (map (\<lambda>e. (- ev_Timestamp e, - int (ev_ID e))) (newestFirst es))" unfolding newestFirst_def by simp
  then show ?thesis unfolding sorted_map by (rule sorted_wrt_mono_rel [rotated]) (auto simp: less_eq_prod_def less_le)
qed

lemma newestFirst_mset [simp]: "mset (newestFirst es) = mset es"
  by (simp add: newestFirst_def)

lemma those_total:
  "\<forall>x \<in> set xs. f x \<noteq> None \<Longrightarrow> those (map f xs) = Some (map (\<lambda>x. the (f x)) xs)"
  by (induction xs) auto

text \<open>The filter of one page, with the offset the API computes for it.\<close>

definition onPage :: "usageEventListFilter \<Rightarrow> nat \<Rightarrow> usageEventListFilter" where
  "onPage filt p = filt\<lparr>lf_Page := int p, lf_Offset := (int p - 1) * lf_PageSize filt\<rparr>"

definition matchingRows :: "usageEventListFilter \<Rightarrow> usageEvent list \<Rightarrow> usageEventRecord list" where
  "matchingRows filt stored = map (\<lambda>e. the (usageEventRecordOf e)) (newestFirst (filter (applyUsageEventListQuery filt) stored))"

lemma onPage_query [simp]: "applyUsageEventListQuery (onPage filt p) = applyUsageEventListQuery filt"
  by (simp add: applyUsageEventListQuery_def applyUsageDiagnosticQuery_def applyUsageQueryWindow_def onPage_def [abs_def] fun_eq_iff)

lemma listUsageEvents_page:
  assumes total: "\<forall>e \<in> set stored. interpretUsageAttempt e \<noteq> None"
    and bounded: "trimSpace (df_RequestID filt) = [] \<or> us_StartTime filt \<noteq> None \<and> us_EndTime filt \<noteq> None"
    and size: "0 < lf_PageSize filt" and p: "0 < p" and fits: "int p * lf_PageSize filt < 2 ^ 63"
    and small: "int (length stored) + lf_PageSize filt < 2 ^ 63"
  defines "rows \<equiv> matchingRows filt stored"
  shows "\<exists>pg. listUsageEvents (onPage filt p) stored = Some (Inr pg) \<and>
    pg_Events pg = take (nat (lf_PageSize filt)) (drop ((p - 1) * nat (lf_PageSize filt)) rows) \<and>
    pg_TotalCount pg = int (length rows) \<and> pg_PageSize pg = lf_PageSize filt \<and>
    (rows \<noteq> [] \<longrightarrow> pg_Page pg = int p \<and>
      pg_TotalPages pg = (int (length rows) + lf_PageSize filt - 1) div lf_PageSize filt)"
proof -
  let ?f = "onPage filt p" and ?s = "lf_PageSize filt"
  let ?m = "filter (applyUsageEventListQuery filt) stored"
  have lengths: "length ?m \<le> length stored" "length rows = length ?m" by (simp_all add: rows_def matchingRows_def)
  have "0 \<le> (int p - 1) * ?s" "(int p - 1) * ?s \<le> int p * ?s" using p size by (simp_all add: mult_right_mono)
  then have range: "- (2 ^ 63) \<le> (int p - 1) * ?s" "(int p - 1) * ?s < 2 ^ 63" using fits by linarith+
  have "int p \<le> int p * ?s" using size p by (simp add: mult_le_cancel_left1)
  then have "wrap64 (int p - 1) = int p - 1" using p fits by (intro wrap64_id) linarith+
  then have off: "(if lf_Offset ?f \<le> 0 then wrap64 (wrap64 (int p - 1) * ?s) else lf_Offset ?f) = (int p - 1) * ?s"
    using wrap64_id [OF range] by (simp add: onPage_def)
  have nat: "nat ((int p - 1) * ?s) = (p - 1) * nat ?s"
    using p size by (simp add: nat_mult_distrib nat_diff_distrib)
  have count: "wrap64 (int (length ?m) + ?s - 1) = int (length rows) + ?s - 1"
    using lengths small size by (subst wrap64_id) linarith+
  have nonneg: "\<not> (int p - 1) * ?s < 0" using p size by (simp add: not_less)
  let ?events = "take (nat ?s) (drop ((p - 1) * nat ?s) (newestFirst ?m))"
  have "\<forall>e \<in> set ?events. usageEventRecordOf e \<noteq> None"
    using total by (auto simp: usageEventRecordOf_def dest!: in_set_takeD in_set_dropD)
  then have those: "those (map usageEventRecordOf ?events) =
      Some (take (nat ?s) (drop ((p - 1) * nat ?s) rows))"
    by (simp add: those_total rows_def matchingRows_def take_map drop_map)
  have fields: "df_RequestID ?f = df_RequestID filt" "us_StartTime ?f = us_StartTime filt" "us_EndTime ?f = us_EndTime filt"
    "lf_Page ?f = int p" "lf_PageSize ?f = ?s" by (simp_all add: onPage_def)
  have req: "\<not> (trimSpace (df_RequestID filt) \<noteq> [] \<and> (us_StartTime filt = None \<or> us_EndTime filt = None))"
    using bounded by blast
  have empty: "rows = [] \<longleftrightarrow> ?m = []" using lengths(2) by (metis length_0_conv)
  have pos: "\<not> int p \<le> 0" "\<not> ?s \<le> 0" using p size by simp_all
  show ?thesis
    unfolding listUsageEvents_def fields onPage_query if_not_P [OF req] Let_def if_not_P [OF pos(1)] if_not_P [OF pos(2)] off
      if_not_P [OF nonneg] nat those count option.map
    using empty lengths(2) by (cases "?m = []") simp_all
qed

lemma page_count:
  fixes m S :: nat
  assumes S: "0 < S" and len: "0 < m"
  defines "n \<equiv> (m + S - 1) div S"
  shows "0 < n" "n * S < m + S" "m \<le> n * S"
proof -
  have "S \<le> m + S - 1" using len by linarith
  then show "0 < n" unfolding n_def using S by (simp add: div_greater_zero_iff)
  have "n * S \<le> m + S - 1" unfolding n_def by simp
  then show "n * S < m + S" using len by linarith
  have "m + S - 1 < n * S + S"
    unfolding n_def using mod_less_divisor [OF S, of "m + S - 1"]
      div_mult_mod_eq [of "m + S - 1" S] by linarith
  then show "m \<le> n * S" using S by linarith
qed

text \<open>
  C36. Walking the pages of a selection shows every matching event exactly once, the newest first: whatever the
  page size, the pages from the first to the last put together are the whole selection, each page names
  the same number of pages and the same count, and no page before the end is short.
\<close>
theorem usageEvents_pages:
  assumes total: "\<forall>e \<in> set stored. interpretUsageAttempt e \<noteq> None"
    and bounded: "trimSpace (df_RequestID filt) = [] \<or> us_StartTime filt \<noteq> None \<and> us_EndTime filt \<noteq> None"
    and size: "0 < lf_PageSize filt" and small: "int (length stored) + lf_PageSize filt < 2 ^ 63"
    and nonempty: "matchingRows filt stored \<noteq> []"
  defines "rows \<equiv> matchingRows filt stored"
  shows "\<exists>pages n. 0 < n \<and> (\<forall>p. 0 < p \<and> p \<le> n \<longrightarrow>
      listUsageEvents (onPage filt p) stored = Some (Inr (pages p)) \<and> pg_TotalCount (pages p) = int (length rows) \<and>
      pg_TotalPages (pages p) = int n \<and> pg_Page (pages p) = int p \<and>
      (p < n \<longrightarrow> int (length (pg_Events (pages p))) = lf_PageSize filt) \<and> pg_Events (pages p) \<noteq> []) \<and>
    concat (map (\<lambda>p. pg_Events (pages (Suc p))) [0..<n]) = rows \<and>
    (\<exists>es. rows = map (\<lambda>e. the (usageEventRecordOf e)) es \<and> mset es = mset (filter (applyUsageEventListQuery filt) stored) \<and>
       sorted_wrt (\<lambda>a b. ev_Timestamp b < ev_Timestamp a \<or> ev_Timestamp a = ev_Timestamp b \<and> ev_ID b \<le> ev_ID a) es)"
proof -
  have order: "\<exists>es. rows = map (\<lambda>e. the (usageEventRecordOf e)) es \<and> mset es = mset (filter (applyUsageEventListQuery filt) stored) \<and>
       sorted_wrt (\<lambda>a b. ev_Timestamp b < ev_Timestamp a \<or> ev_Timestamp a = ev_Timestamp b \<and> ev_ID b \<le> ev_ID a) es"
    unfolding rows_def matchingRows_def using newestFirst_sorted newestFirst_mset by blast
  obtain S where S: "lf_PageSize filt = int S" "0 < S" using size by (metis zero_less_imp_eq_int)
  define n where "n = (length rows + S - 1) div S"
  have len: "0 < length rows" "length rows \<le> length stored" using nonempty by (simp_all add: rows_def matchingRows_def)
  have n: "0 < n" "n * S < length rows + S" "length rows \<le> n * S"
    using page_count [OF S(2) len(1)] by (simp_all add: n_def)
  have pages: "\<exists>pg. listUsageEvents (onPage filt p) stored = Some (Inr pg) \<and>
      pg_Events pg = take S (drop ((p - 1) * S) rows) \<and> pg_TotalCount pg = int (length rows) \<and>
      pg_Page pg = int p \<and> pg_TotalPages pg = int n" if p: "0 < p" "p \<le> n" for p
  proof -
    have "p * S \<le> n * S" using p(2) by simp
    then have "int (p * S) < int (length rows) + int S" using n(2) by linarith
    then have "int p * lf_PageSize filt < 2 ^ 63" using small len(2) by (simp add: S(1))
    note page = listUsageEvents_page [OF total bounded size p(1) this small]
    have "int ((length rows + S - 1) div S) = (int (length rows) + int S - 1) div int S"
    proof -
      have "int (length rows + S - 1) = int (length rows) + int S - 1" using len(1) by linarith
      then show ?thesis by (simp only: zdiv_int)
    qed
    with page nonempty show ?thesis unfolding rows_def [symmetric] n_def S(1) by auto
  qed
  then obtain pages where pages: "\<And>p. 0 < p \<Longrightarrow> p \<le> n \<Longrightarrow> listUsageEvents (onPage filt p) stored = Some (Inr (pages p)) \<and>
      pg_Events (pages p) = take S (drop ((p - 1) * S) rows) \<and> pg_TotalCount (pages p) = int (length rows) \<and>
      pg_Page (pages p) = int p \<and> pg_TotalPages (pages p) = int n" by metis
  have before: "(p - 1) * S < length rows" if "0 < p" "p \<le> n" for p
  proof -
    have "(p - 1) * S + S = p * S" using that(1) by (cases p) simp_all
    moreover have "p * S \<le> n * S" using that(2) by simp
    ultimately show ?thesis using n(2) by linarith
  qed
  have full: "length (take S (drop ((p - 1) * S) rows)) = S" if "0 < p" "p < n" for p
  proof -
    have "p * S < length rows" using before [of "Suc p"] that by simp
    moreover have "(p - 1) * S + S = p * S" using that(1) by (cases p) simp_all
    ultimately show ?thesis by simp
  qed
  have "concat (map (\<lambda>p. pg_Events (pages (Suc p))) [0..<n]) = concat (map (\<lambda>p. take S (drop (p * S) rows)) [0..<n])"
    using pages by (intro arg_cong [where f = concat] map_cong) auto
  also have "\<dots> = rows" unfolding concat_chunks using n(3) by simp
  finally have all: "concat (map (\<lambda>p. pg_Events (pages (Suc p))) [0..<n]) = rows" .
  have "pg_Events (pages p) \<noteq> []" if "0 < p" "p \<le> n" for p
    using pages [OF that] before [OF that] S(2) by (simp add: not_le)
  with pages full all n(1) S order show ?thesis
    by (intro exI [of _ pages] exI [of _ n] conjI allI impI) simp_all
qed

text \<open>The offset of a page can wrap: the page with the largest number is the first one, under its number.\<close>

lemma page_overflow:
  assumes "lf_PageSize filt = 100" "lf_Offset filt = wrap64 (wrap64 (lf_Page filt - 1) * 100)" "lf_Page filt = 2 ^ 63 - 1"
    and "listUsageEvents filt stored = Some (Inr pg)"
  shows "pg_Events pg = take 100 (matchingRows filt stored) \<and>
    (matchingRows filt stored \<noteq> [] \<longrightarrow> pg_Page pg = 2 ^ 63 - 1)"
proof -
  have "wrap64 (2 ^ 63 - 2) = 2 ^ 63 - 2" by (rule wrap64_id) simp_all
  moreover have "wrap64 ((2 ^ 63 - 2) * 100) = - 200" by (simp add: wrap64_def)
  ultimately have off: "lf_Offset filt = - 200" "wrap64 (wrap64 (lf_Page filt - 1) * 100) = - 200" using assms(2,3) by simp_all
  let ?m = "filter (applyUsageEventListQuery filt) stored"
  have "those (map usageEventRecordOf (take 100 (newestFirst ?m))) = Some (pg_Events pg) \<and> (?m \<noteq> [] \<longrightarrow> pg_Page pg = 2 ^ 63 - 1)"
    using assms(1,3,4) off unfolding listUsageEvents_def Let_def
    by (cases "?m = []") (auto split: if_splits prod.splits)
  moreover have "xs = map (\<lambda>e. the (f e)) es" if "those (map f es) = Some xs" for f :: "usageEvent \<Rightarrow> usageEventRecord option" and es xs
    using that by (induction es arbitrary: xs) (auto split: option.splits)
  ultimately show ?thesis by (auto simp: matchingRows_def take_map)
qed

section \<open>The distribution of failures\<close>

lemma group_lengths:
  assumes "distinct vs" "f ` set rows \<subseteq> set vs"
  shows "sum_list (map (\<lambda>v. length (filter (\<lambda>e. f e = v) rows)) vs) = length rows"
  using assms(2)
proof (induction rows)
  case (Cons r rows)
  have "sum_list (map (\<lambda>v. if f r = v then 1 else 0) vs) = (1 :: nat)"
    using assms(1) Cons.prems by (simp add: sum_list_map_eq_sum_count2 [symmetric] sum_list_distinct_conv_sum_set)
  moreover have "sum_list (map (\<lambda>v. length (filter (\<lambda>e. f e = v) (r # rows))) vs) =
      sum_list (map (\<lambda>v. (if f r = v then 1 else 0) + length (filter (\<lambda>e. f e = v) rows)) vs)"
    by (intro arg_cong [where f = sum_list] map_cong) auto
  ultimately show ?case using Cons by (simp add: sum_list_addf)
qed simp

lemma sum_list_sort: "sum_list (map (h :: _ \<Rightarrow> nat) (sort_key k xs)) = sum_list (map h xs)"
proof -
  have "mset (map h (sort_key k xs)) = mset (map h xs)" by simp
  then show ?thesis by (metis sum_mset_sum_list)
qed

lemma sum_take_le: "sum_list (take n (xs :: nat list)) \<le> sum_list xs"
  by (metis append_take_drop_id le_add1 sum_list_append)

definition failureGroups :: "usageEvent list \<Rightarrow> (usageEvent \<Rightarrow> string) \<Rightarrow> (usageEvent \<Rightarrow> bool) \<Rightarrow> (string \<times> nat) list" where
  "failureGroups base ex pr = take UsageFailureBreakdownLimit (sort_key (\<lambda>(v, n). (- int n, v))
     (map (\<lambda>v. (v, length (filter (\<lambda>e. ex e = v) (filter pr base)))) (remdups (map ex (filter pr base)))))"

lemma breakdown_groups:
  "loadUsageFailureBreakdown base codes ex pr = map (\<lambda>(v, n).
     \<lparr>fi_Value = (if trimSpace v = ''0'' \<and> codes then ''unknown'' else trimSpace v), fi_Count = of_nat n\<rparr>) (failureGroups base ex pr)"
  by (simp add: loadUsageFailureBreakdown_def failureGroups_def Let_def)

lemma failureGroups_mem:
  assumes "(v, n) \<in> set (failureGroups base ex pr)"
  shows "n = length (filter (\<lambda>e. pr e \<and> ex e = v) base) \<and> (\<exists>e \<in> set base. pr e \<and> ex e = v)"
proof -
  from in_set_takeD [OF assms [unfolded failureGroups_def]]
  have "(v, n) \<in> set (map (\<lambda>v. (v, length (filter (\<lambda>e. ex e = v) (filter pr base)))) (remdups (map ex (filter pr base))))"
    by (simp only: set_sort)
  then show ?thesis by (auto simp: conj_commute)
qed

lemma failureGroups_sum: "sum_list (map snd (failureGroups base ex pr)) \<le> length base"
proof -
  let ?rows = "filter pr base"
  let ?groups = "map (\<lambda>v. (v, length (filter (\<lambda>e. ex e = v) ?rows))) (remdups (map ex ?rows))"
  have "sum_list (map snd (failureGroups base ex pr)) \<le> sum_list (map snd (sort_key (\<lambda>(v, n). (- int n, v)) ?groups))"
    unfolding failureGroups_def take_map [symmetric] by (rule sum_take_le)
  also have "\<dots> = sum_list (map snd ?groups)"
    by (rule sum_list_sort)
  also have "\<dots> = length ?rows"
    using group_lengths [of "remdups (map ex ?rows)" ex ?rows] by (simp add: o_def)
  finally show ?thesis using length_filter_le [of pr base] by linarith
qed

text \<open>A breakdown shows at most eight values and accounts for every failure.\<close>

definition breakdownOf :: "failureBreakdown \<Rightarrow> i64 \<Rightarrow> bool" where
  "breakdownOf b n \<longleftrightarrow> length (fb_Items b) \<le> 8 \<and>
     sum_list (map fi_Count (fb_Items b)) + fb_OtherCount b = n \<and> 0 \<le> sint (fb_OtherCount b) \<and>
     sorted (map (\<lambda>i. - sint (fi_Count i)) (fb_Items b))"

lemma of_nat_i64: "n < 2 ^ 63 \<Longrightarrow> sint (of_nat n :: i64) = int n"
  using sint_of_int_i64 [of "int n"] by simp

lemma sorted_take: "sorted xs \<Longrightarrow> sorted (take n xs)"
  by (metis append_take_drop_id sorted_append)

lemma breakdown_ok:
  assumes small: "length base < 2 ^ 63"
  shows "breakdownOf (withUsageFailureOtherCount (loadUsageFailureBreakdown base codes ex pr) (of_nat (length base))) (of_nat (length base))"
proof -
  let ?g = "failureGroups base ex pr"
  let ?items = "loadUsageFailureBreakdown base codes ex pr"
  define m where "m = sum_list (map snd ?g)"
  have m: "m \<le> length base" unfolding m_def by (rule failureGroups_sum)
  have "sum_list (map (\<lambda>p. of_nat (snd p)) g) = (of_nat (sum_list (map snd g)) :: i64)" for g :: "(string \<times> nat) list"
    by (induction g) simp_all
  then have visible: "sum_list (map fi_Count ?items) = of_nat m"
    unfolding breakdown_groups m_def by (simp add: o_def case_prod_beta)
  have rest: "of_nat (length base) - of_nat m = (of_nat (length base - m) :: i64)" using m by (simp add: of_nat_diff)
  have "length base - m < 2 ^ 63" using small by simp
  then have sint: "sint (of_nat (length base) - of_nat m :: i64) = int (length base - m)" unfolding rest by (rule of_nat_i64)
  then have "\<not> (of_nat (length base) - of_nat m :: i64) <s 0" by (simp add: word_sless_alt)
  then have other: "fb_OtherCount (withUsageFailureOtherCount ?items (of_nat (length base))) = of_nat (length base) - of_nat m"
    by (simp add: withUsageFailureOtherCount_def Let_def visible)
  have len: "length ?items \<le> 8" unfolding breakdown_groups failureGroups_def by (simp add: UsageFailureBreakdownLimit_def)
  have "sorted (map (\<lambda>(v, n). (- int n, v)) ?g)"
    unfolding failureGroups_def take_map [symmetric] by (intro sorted_take sorted_sort_key)
  then have ord: "sorted_wrt (\<lambda>p q. - int (snd p) \<le> - int (snd q)) ?g"
    unfolding sorted_map by (rule sorted_wrt_mono_rel [rotated]) (auto simp: less_eq_prod_def)
  have cnt: "sint (of_nat (snd p) :: i64) = int (snd p)" if "p \<in> set ?g" for p
  proof (rule of_nat_i64)
    obtain v n where p: "p = (v, n)" by (cases p)
    from failureGroups_mem [of v n base ex pr] that have "n = length (filter (\<lambda>e. pr e \<and> ex e = v) base)" unfolding p by blast
    then have "n \<le> length base" by simp
    then show "snd p < 2 ^ 63" using small p by simp
  qed
  have "sorted_wrt (\<lambda>p q. - sint (of_nat (snd p) :: i64) \<le> - sint (of_nat (snd q) :: i64)) ?g"
    by (rule sorted_wrt_mono_rel [OF _ ord]) (simp add: cnt)
  then have "sorted (map (\<lambda>i. - sint (fi_Count i)) ?items)"
    unfolding breakdown_groups by (simp add: sorted_map sorted_wrt_map case_prod_beta)
  with len visible sint other show ?thesis
    by (simp add: breakdownOf_def) (simp add: withUsageFailureOtherCount_def Let_def visible)
qed

text \<open>The request evidence of a selection: its failed events, on the first page of any size.\<close>

definition evidenceOf :: "usageDiagnosticFilter \<Rightarrow> usageEventListFilter" where
  "evidenceOf filt = usageDiagnosticFilter.extend filt
     \<lparr>lf_Page = 1, lf_PageSize = 100, lf_Offset = 0, lf_Source = [], lf_AuthIndex = [], lf_Result = ''failed''\<rparr>"

definition evidenceCount :: "usageDiagnosticFilter \<Rightarrow> usageEvent list \<Rightarrow> i64" where
  "evidenceCount filt stored = of_nat (length (filter (applyUsageEventListQuery (evidenceOf filt)) stored))"

lemma trimmed_plain:
  assumes "\<forall>w \<in> set ws_seqs. \<forall>c \<in> set w. c \<notin> set s"
  shows "trimmed s"
proof -
  have mem: "hd w \<in> set w" if "w \<in> set ws_seqs" for w using that ws_seqs_nonempty(1) by (metis hd_in_set)
  have "\<not> set w \<subseteq> set s" if "w \<in> set ws_seqs" for w using mem [OF that] assms that by blast
  then have "\<not> prefix w s" "\<not> prefix (rev w) (rev s)" if "w \<in> set ws_seqs" for w
    using that set_mono_prefix [of w s] set_mono_prefix [of "rev w" "rev s"] by auto
  then show ?thesis by (auto simp: trimmed_def lead_len_0 [OF ws_seqs_nonempty(1)] lead_len_0 [OF ws_seqs_nonempty(2)])
qed

lemma trimmed_digits:
  assumes "\<forall>c \<in> set s. \<exists>d < 10. c = digit_char d"
  shows "trimmed s"
proof (rule trimmed_plain, intro ballI notI)
  fix w c assume w: "w \<in> set ws_seqs" "c \<in> set w" "c \<in> set s"
  have "list_all (list_all (\<lambda>c. char_digit c = None)) ws_seqs" by code_simp
  with w have "char_digit c = None" by (auto simp: list_all_iff)
  with assms w(3) show False by auto
qed

lemma applyUsageEventListQuery_evidence:
  "applyUsageEventListQuery (evidenceOf filt) e \<longleftrightarrow> applyUsageDiagnosticQuery filt e \<and> ev_Failed e"
proof -
  have [simp]: "trimSpace ''failed'' = ''failed''" by code_simp
  show ?thesis
    by (simp add: applyUsageEventListQuery_def evidenceOf_def applyUsageDiagnosticQuery_def applyUsageQueryWindow_def
        usageDiagnosticFilter.defs)
qed

lemma evidence_item:
  assumes sel: "\<And>e. e \<in> set stored \<Longrightarrow> applyUsageDiagnosticQuery g e \<longleftrightarrow> applyUsageDiagnosticQuery filt e \<and> pr e \<and> ex e = v"
    and n: "n = length (filter (\<lambda>e. pr e \<and> ex e = v) (filter (\<lambda>e. applyUsageDiagnosticQuery filt e \<and> ev_Failed e) stored))"
  shows "evidenceCount g stored = of_nat n"
proof -
  have "filter (applyUsageEventListQuery (evidenceOf g)) stored =
      filter (\<lambda>e. pr e \<and> ex e = v) (filter (\<lambda>e. applyUsageDiagnosticQuery filt e \<and> ev_Failed e) stored)"
    unfolding filter_filter using sel by (intro filter_cong) (auto simp: applyUsageEventListQuery_evidence)
  then show ?thesis using n by (simp add: evidenceCount_def)
qed

lemma status_category:
  "applyUsageStatusFilter (failureStatusCategorySQL c) code \<longleftrightarrow> failureStatusCategorySQL code = failureStatusCategorySQL c"
proof -
  have trims: "trimSpace ''unknown'' = ''unknown''" "trimSpace ''1xx'' = ''1xx''" "trimSpace ''2xx'' = ''2xx''" "trimSpace ''3xx'' = ''3xx''"
    "trimSpace ''4xx'' = ''4xx''" "trimSpace ''5xx'' = ''5xx''" "trimSpace ''other'' = ''other''" by code_simp+
  have each: "applyUsageStatusFilter v code \<longleftrightarrow> failureStatusCategorySQL code = v"
    if "v \<in> {''unknown'', ''1xx'', ''2xx'', ''3xx'', ''4xx'', ''5xx'', ''other''}" for v
    using that unfolding applyUsageStatusFilter_def
    by (elim insertE emptyE) (simp_all add: trims failureStatusCategorySQL_def, auto)
  have "failureStatusCategorySQL c \<in> {''unknown'', ''1xx'', ''2xx'', ''3xx'', ''4xx'', ''5xx'', ''other''}"
    by (simp add: failureStatusCategorySQL_def)
  then show ?thesis by (rule each)
qed

lemma status_code:
  assumes "c = 0 \<or> 100 \<le> c \<and> c \<le> 599"
  shows "applyUsageStatusFilter (if formatInt c = ''0'' then ''unknown'' else formatInt c) code \<longleftrightarrow>
    (code = 0 \<or> 100 \<le> code \<and> code \<le> 599) \<and> formatInt code = formatInt c"
proof (cases "c = 0")
  case True
  have "formatInt 0 = ''0''" "trimSpace ''unknown'' = ''unknown''" by code_simp+
  moreover have "formatInt code = ''0'' \<longleftrightarrow> code = 0" if "0 \<le> code" "code \<le> 599"
    using that parse_formatInt [of code] parse_formatInt [of 0] \<open>formatInt 0 = ''0''\<close>
    by (auto simp: in_int64_def int64_min_def int64_max_def)
  ultimately show ?thesis using True by (auto simp: applyUsageStatusFilter_def)
next
  case False
  then have c: "0 \<le> c" "100 \<le> c" "c \<le> 599" "in_int64 c" using assms by (auto simp: in_int64_def int64_min_def int64_max_def)
  have chars: "\<forall>x \<in> set (formatInt c). \<exists>d < 10. x = digit_char d"
    using c(1) nat_digits_chars by (auto simp: formatInt_def)
  then have trim: "trimSpace (formatInt c) = formatInt c" by (intro trimSpace_id trimmed_digits)
  have parse: "parseInt64 (formatInt c) = Some c" by (rule parse_formatInt [OF c(4)])
  have "parseInt64 ''unknown'' = None" "parseInt64 ''other'' = None" "parseInt64 [] = None" by code_simp+
  with parse have texts: "formatInt c \<noteq> ''unknown''" "formatInt c \<noteq> ''other''" "formatInt c \<noteq> []"
    "formatInt c \<noteq> ''0''" using c(2) by (auto simp: parseInt64_def parseUnsigned_def split: if_splits) (code_simp | simp)+
  have "char_digit (CHR ''x'') = None" by code_simp
  then have "CHR ''x'' \<notin> set (formatInt c)" using chars by force
  then have "tl (formatInt c) \<noteq> ''xx''" by (cases "formatInt c") auto
  moreover have "parseInt64 (formatInt c) = Some code \<longleftrightarrow> (code = 0 \<or> 100 \<le> code \<and> code \<le> 599) \<and> formatInt code = formatInt c"
    using parse parse_formatInt [of code] c assms by (auto simp: in_int64_def int64_min_def int64_max_def)
  ultimately show ?thesis using texts by (simp add: applyUsageStatusFilter_def trim Let_def)
qed

lemma breakdown_evidence:
  assumes item: "i \<in> set (loadUsageFailureBreakdown (filter (\<lambda>e. applyUsageDiagnosticQuery filt e \<and> ev_Failed e) stored) codes ex pr)"
    and sel: "\<And>e0 e. e0 \<in> set stored \<Longrightarrow> applyUsageDiagnosticQuery filt e0 \<Longrightarrow> pr e0 \<Longrightarrow> e \<in> set stored \<Longrightarrow>
      applyUsageDiagnosticQuery (g (if trimSpace (ex e0) = ''0'' \<and> codes then ''unknown'' else trimSpace (ex e0))) e \<longleftrightarrow>
        applyUsageDiagnosticQuery filt e \<and> pr e \<and> ex e = ex e0"
  shows "fi_Count i = evidenceCount (g (fi_Value i)) stored"
proof -
  from item obtain v n where vn: "(v, n) \<in> set (failureGroups (filter (\<lambda>e. applyUsageDiagnosticQuery filt e \<and> ev_Failed e) stored) ex pr)"
    and i: "fi_Value i = (if trimSpace v = ''0'' \<and> codes then ''unknown'' else trimSpace v)" "fi_Count i = of_nat n"
    unfolding breakdown_groups by auto
  from failureGroups_mem [OF vn] obtain e0 where e0: "e0 \<in> set stored" "applyUsageDiagnosticQuery filt e0" "pr e0" "ex e0 = v"
    and n: "n = length (filter (\<lambda>e. pr e \<and> ex e = v) (filter (\<lambda>e. applyUsageDiagnosticQuery filt e \<and> ev_Failed e) stored))" by auto
  have "applyUsageDiagnosticQuery (g (fi_Value i)) e \<longleftrightarrow> applyUsageDiagnosticQuery filt e \<and> pr e \<and> ex e = v"
    if "e \<in> set stored" for e using sel [OF e0(1-3) that] unfolding i e0(4) .
  from evidence_item [OF this n] i(2) show ?thesis by simp
qed

lemma category_evidence:
  assumes item: "i \<in> set (loadUsageFailureBreakdown (filter (\<lambda>e. applyUsageDiagnosticQuery filt e \<and> ev_Failed e) stored)
      False (\<lambda>e. failureStatusCategorySQL (ev_StatusCode e)) (\<lambda>e. True))"
    and none: "trimSpace (df_Status filt) = []"
  shows "fi_Count i = evidenceCount (filt\<lparr>df_Status := fi_Value i\<rparr>) stored"
proof (rule breakdown_evidence [OF item, where g = "\<lambda>v. filt\<lparr>df_Status := v\<rparr>"])
  show "applyUsageDiagnosticQuery (filt\<lparr>df_Status := (if trimSpace (failureStatusCategorySQL (ev_StatusCode e0)) = ''0'' \<and> False
      then ''unknown'' else trimSpace (failureStatusCategorySQL (ev_StatusCode e0)))\<rparr>) e \<longleftrightarrow>
    applyUsageDiagnosticQuery filt e \<and> True \<and> failureStatusCategorySQL (ev_StatusCode e) = failureStatusCategorySQL (ev_StatusCode e0)"
    for e0 e using none status_category [of "ev_StatusCode e0" "ev_StatusCode e"]
    by (simp add: applyUsageDiagnosticQuery_def applyUsageQueryWindow_def) (simp add: applyUsageStatusFilter_def Let_def conj_ac)
qed

lemma status_evidence:
  assumes item: "i \<in> set (loadUsageFailureBreakdown (filter (\<lambda>e. applyUsageDiagnosticQuery filt e \<and> ev_Failed e) stored)
      True (\<lambda>e. formatInt (ev_StatusCode e))
      (\<lambda>e. ev_StatusCode e = 0 \<or> 100 \<le> ev_StatusCode e \<and> ev_StatusCode e \<le> 599))"
    and none: "trimSpace (df_Status filt) = []"
  shows "fi_Count i = evidenceCount (filt\<lparr>df_Status := fi_Value i\<rparr>) stored"
proof (rule breakdown_evidence [OF item, where g = "\<lambda>v. filt\<lparr>df_Status := v\<rparr>"])
  have every: "applyUsageStatusFilter (df_Status filt) (ev_StatusCode e)" for e
    using none by (simp add: applyUsageStatusFilter_def)
  fix e0 e :: usageEvent
  assume c: "ev_StatusCode e0 = 0 \<or> 100 \<le> ev_StatusCode e0 \<and> ev_StatusCode e0 \<le> 599"
  have "0 \<le> ev_StatusCode e0" using c by auto
  then have trim: "trimSpace (formatInt (ev_StatusCode e0)) = formatInt (ev_StatusCode e0)"
    using nat_digits_chars by (intro trimSpace_id trimmed_digits) (auto simp: formatInt_def)
  show "applyUsageDiagnosticQuery (filt\<lparr>df_Status := (if trimSpace (formatInt (ev_StatusCode e0)) = ''0'' \<and> True
      then ''unknown'' else trimSpace (formatInt (ev_StatusCode e0)))\<rparr>) e \<longleftrightarrow>
    applyUsageDiagnosticQuery filt e \<and> (ev_StatusCode e = 0 \<or> 100 \<le> ev_StatusCode e \<and> ev_StatusCode e \<le> 599) \<and>
    formatInt (ev_StatusCode e) = formatInt (ev_StatusCode e0)"
  proof -
    define v where "v = (if formatInt (ev_StatusCode e0) = ''0'' then ''unknown'' else formatInt (ev_StatusCode e0))"
    have "applyUsageStatusFilter v (ev_StatusCode e) \<longleftrightarrow> (ev_StatusCode e = 0 \<or> 100 \<le> ev_StatusCode e \<and> ev_StatusCode e \<le> 599) \<and>
        formatInt (ev_StatusCode e) = formatInt (ev_StatusCode e0)"
      unfolding v_def by (rule status_code [OF c])
    with every [of e] show ?thesis unfolding trim simp_thms v_def [symmetric]
      by (simp add: applyUsageDiagnosticQuery_def applyUsageQueryWindow_def conj_ac)
  qed
qed

lemma column_evidence:
  assumes item: "i \<in> set (loadUsageFailureBreakdown (filter (\<lambda>e. applyUsageDiagnosticQuery filt e \<and> ev_Failed e) stored)
      False ex (\<lambda>e. ex e \<noteq> []))"
    and clean: "\<forall>e \<in> set stored. trimSpace (ex e) = ex e"
    and sel: "\<And>e0 e. applyUsageDiagnosticQuery filt e0 \<Longrightarrow> ex e0 \<noteq> [] \<Longrightarrow> trimSpace (ex e0) = ex e0 \<Longrightarrow>
      applyUsageDiagnosticQuery (g (ex e0)) e \<longleftrightarrow> applyUsageDiagnosticQuery filt e \<and> ex e = ex e0"
  shows "fi_Count i = evidenceCount (g (fi_Value i)) stored"
proof (rule breakdown_evidence [OF item])
  fix e0 e assume "e0 \<in> set stored" "applyUsageDiagnosticQuery filt e0" "ex e0 \<noteq> []"
  with sel [of e0 e] clean
  show "applyUsageDiagnosticQuery (g (if trimSpace (ex e0) = ''0'' \<and> False then ''unknown'' else trimSpace (ex e0))) e \<longleftrightarrow>
      applyUsageDiagnosticQuery filt e \<and> ex e \<noteq> [] \<and> ex e = ex e0"
    by auto
qed

lemma distribution_parts:
  assumes res: "buildUsageFailureDistribution filt stored = Inr d"
  defines "base \<equiv> filter (\<lambda>e. applyUsageDiagnosticQuery filt e \<and> ev_Failed e) stored"
  shows "fd_TotalFailures d = of_nat (length base)"
    "fd_Categories d = withUsageFailureOtherCount (loadUsageFailureBreakdown base False (\<lambda>e. failureStatusCategorySQL (ev_StatusCode e))
       (\<lambda>e. True)) (of_nat (length base))"
    "fd_Statuses d = withUsageFailureOtherCount (loadUsageFailureBreakdown base True (\<lambda>e. formatInt (ev_StatusCode e))
       (\<lambda>e. ev_StatusCode e = 0 \<or> 100 \<le> ev_StatusCode e \<and> ev_StatusCode e \<le> 599)) (of_nat (length base))"
    "fd_Providers d = withUsageFailureOtherCount (loadUsageFailureBreakdown base False (\<lambda>e. sqlTrim (ev_Provider e))
       (\<lambda>e. sqlTrim (ev_Provider e) \<noteq> [])) (of_nat (length base))"
    "fd_Accounts d = withUsageFailureOtherCount (loadUsageFailureBreakdown base False (\<lambda>e. sqlTrim (ev_AuthIndex e))
       (\<lambda>e. sqlTrim (ev_AuthIndex e) \<noteq> [])) (of_nat (length base))"
    "fd_Models d = withUsageFailureOtherCount (loadUsageFailureBreakdown base False (\<lambda>e. sqlTrim (ev_Model e))
       (\<lambda>e. sqlTrim (ev_Model e) \<noteq> [])) (of_nat (length base))"
    "fd_Endpoints d = withUsageFailureOtherCount (loadUsageFailureBreakdown base False (\<lambda>e. publicUsageEndpointSQL (ev_Endpoint e))
       (\<lambda>e. publicUsageEndpointSQL (ev_Endpoint e) \<noteq> [])) (of_nat (length base))"
  using res by (auto simp: buildUsageFailureDistribution_def base_def Let_def split: if_splits)

definition trimmedEvents :: "usageEvent list \<Rightarrow> bool" where
  "trimmedEvents stored \<longleftrightarrow> (\<forall>e \<in> set stored. trimSpace (sqlTrim (ev_Provider e)) = sqlTrim (ev_Provider e) \<and>
     trimSpace (sqlTrim (ev_AuthIndex e)) = sqlTrim (ev_AuthIndex e) \<and> trimSpace (sqlTrim (ev_Model e)) = sqlTrim (ev_Model e) \<and>
     trimSpace (publicUsageEndpointSQL (ev_Endpoint e)) = publicUsageEndpointSQL (ev_Endpoint e))"

text \<open>Selecting the trimmed value of a column that a selected event has narrows the selection to that value.\<close>

lemma select_provider:
  assumes sel: "applyUsageDiagnosticQuery filt e0" and v: "sqlTrim (ev_Provider e0) \<noteq> []" "trimSpace (sqlTrim (ev_Provider e0)) = sqlTrim (ev_Provider e0)"
  shows "applyUsageDiagnosticQuery (filt\<lparr>us_Provider := sqlTrim (ev_Provider e0)\<rparr>) e \<longleftrightarrow>
    applyUsageDiagnosticQuery filt e \<and> sqlTrim (ev_Provider e) = sqlTrim (ev_Provider e0)"
proof -
  have "trimSpace (us_Provider filt) = [] \<or> trimSpace (us_Provider filt) = sqlTrim (ev_Provider e0)"
    using sel by (auto simp: applyUsageDiagnosticQuery_def Let_def)
  then show ?thesis using v
    by (cases "sqlTrim (ev_Provider e) = sqlTrim (ev_Provider e0)") (auto simp: applyUsageDiagnosticQuery_def applyUsageQueryWindow_def Let_def)
qed

lemma select_account:
  assumes sel: "applyUsageDiagnosticQuery filt e0" and v: "sqlTrim (ev_AuthIndex e0) \<noteq> []" "trimSpace (sqlTrim (ev_AuthIndex e0)) = sqlTrim (ev_AuthIndex e0)"
  shows "applyUsageDiagnosticQuery (filt\<lparr>df_Account := sqlTrim (ev_AuthIndex e0)\<rparr>) e \<longleftrightarrow>
    applyUsageDiagnosticQuery filt e \<and> sqlTrim (ev_AuthIndex e) = sqlTrim (ev_AuthIndex e0)"
proof -
  have "trimSpace (df_Account filt) = [] \<or> trimSpace (df_Account filt) = sqlTrim (ev_AuthIndex e0)"
    using sel by (auto simp: applyUsageDiagnosticQuery_def Let_def)
  then show ?thesis using v
    by (cases "sqlTrim (ev_AuthIndex e) = sqlTrim (ev_AuthIndex e0)") (auto simp: applyUsageDiagnosticQuery_def applyUsageQueryWindow_def Let_def)
qed

lemma select_model:
  assumes sel: "applyUsageDiagnosticQuery filt e0" and v: "sqlTrim (ev_Model e0) \<noteq> []" "trimSpace (sqlTrim (ev_Model e0)) = sqlTrim (ev_Model e0)"
  shows "applyUsageDiagnosticQuery (filt\<lparr>df_Model := sqlTrim (ev_Model e0)\<rparr>) e \<longleftrightarrow>
    applyUsageDiagnosticQuery filt e \<and> sqlTrim (ev_Model e) = sqlTrim (ev_Model e0)"
proof -
  have "trimSpace (df_Model filt) = [] \<or> trimSpace (df_Model filt) = sqlTrim (ev_Model e0)"
    using sel by (auto simp: applyUsageDiagnosticQuery_def Let_def)
  then show ?thesis using v
    by (cases "sqlTrim (ev_Model e) = sqlTrim (ev_Model e0)") (auto simp: applyUsageDiagnosticQuery_def applyUsageQueryWindow_def Let_def)
qed

lemma select_endpoint:
  assumes sel: "applyUsageDiagnosticQuery filt e0" and v: "publicUsageEndpointSQL (ev_Endpoint e0) \<noteq> []" "trimSpace (publicUsageEndpointSQL (ev_Endpoint e0)) = publicUsageEndpointSQL (ev_Endpoint e0)"
  shows "applyUsageDiagnosticQuery (filt\<lparr>df_Endpoint := publicUsageEndpointSQL (ev_Endpoint e0)\<rparr>) e \<longleftrightarrow>
    applyUsageDiagnosticQuery filt e \<and> publicUsageEndpointSQL (ev_Endpoint e) = publicUsageEndpointSQL (ev_Endpoint e0)"
proof -
  have "trimSpace (df_Endpoint filt) = [] \<or> trimSpace (df_Endpoint filt) = publicUsageEndpointSQL (ev_Endpoint e0)"
    using sel by (auto simp: applyUsageDiagnosticQuery_def Let_def)
  then show ?thesis using v
    by (cases "publicUsageEndpointSQL (ev_Endpoint e) = publicUsageEndpointSQL (ev_Endpoint e0)") (auto simp: applyUsageDiagnosticQuery_def applyUsageQueryWindow_def Let_def)
qed

text \<open>
  C37. The failure distribution of a selection is consistent with the request evidence behind it, for stored events
  whose provider, account, model and endpoint have no outer Unicode white space beyond the blanks that SQLite's
  \<open>TRIM\<close> removes (decoding trims them; Go trims the selected value with \<open>TrimSpace\<close>). Its total is the
  number of failed events of the selection; every breakdown shows at most eight values, the most frequent
  first, and accounts for the total; and the count beside a value is what the evidence list counts when
  that value is selected: a category or a status if none was selected, a provider, an account, a model, an
  endpoint.
\<close>
theorem failureDistribution_evidence:
  assumes res: "buildUsageFailureDistribution filt stored = Inr d" and small: "length stored < 2 ^ 63"
    and clean: "trimmedEvents stored"
  shows "fd_TotalFailures d = evidenceCount filt stored \<and>
    (\<forall>b \<in> {fd_Categories d, fd_Statuses d, fd_Providers d, fd_Accounts d, fd_Models d, fd_Endpoints d}.
       breakdownOf b (fd_TotalFailures d)) \<and>
    (trimSpace (df_Status filt) = [] \<longrightarrow>
      (\<forall>i \<in> set (fb_Items (fd_Categories d)). fi_Count i = evidenceCount (filt\<lparr>df_Status := fi_Value i\<rparr>) stored) \<and>
      (\<forall>i \<in> set (fb_Items (fd_Statuses d)). fi_Count i = evidenceCount (filt\<lparr>df_Status := fi_Value i\<rparr>) stored)) \<and>
    (\<forall>i \<in> set (fb_Items (fd_Providers d)). fi_Count i = evidenceCount (filt\<lparr>us_Provider := fi_Value i\<rparr>) stored) \<and>
    (\<forall>i \<in> set (fb_Items (fd_Accounts d)). fi_Count i = evidenceCount (filt\<lparr>df_Account := fi_Value i\<rparr>) stored) \<and>
    (\<forall>i \<in> set (fb_Items (fd_Models d)). fi_Count i = evidenceCount (filt\<lparr>df_Model := fi_Value i\<rparr>) stored) \<and>
    (\<forall>i \<in> set (fb_Items (fd_Endpoints d)). fi_Count i = evidenceCount (filt\<lparr>df_Endpoint := fi_Value i\<rparr>) stored)"
proof -
  let ?base = "filter (\<lambda>e. applyUsageDiagnosticQuery filt e \<and> ev_Failed e) stored"
  have "length ?base \<le> length stored" by simp
  with small have base: "length ?base < 2 ^ 63" by linarith
  note parts = distribution_parts [OF res]
  have items: "fb_Items (withUsageFailureOtherCount xs n) = xs" for xs n by (simp add: withUsageFailureOtherCount_def Let_def)
  have clean': "\<forall>e \<in> set stored. trimSpace (sqlTrim (ev_Provider e)) = sqlTrim (ev_Provider e)"
    "\<forall>e \<in> set stored. trimSpace (sqlTrim (ev_AuthIndex e)) = sqlTrim (ev_AuthIndex e)"
    "\<forall>e \<in> set stored. trimSpace (sqlTrim (ev_Model e)) = sqlTrim (ev_Model e)"
    "\<forall>e \<in> set stored. trimSpace (publicUsageEndpointSQL (ev_Endpoint e)) = publicUsageEndpointSQL (ev_Endpoint e)"
    using clean unfolding trimmedEvents_def by blast+
  have total: "fd_TotalFailures d = evidenceCount filt stored"
    by (simp add: parts evidenceCount_def applyUsageEventListQuery_evidence [abs_def])
  have ok: "\<forall>b \<in> {fd_Categories d, fd_Statuses d, fd_Providers d, fd_Accounts d, fd_Models d, fd_Endpoints d}.
       breakdownOf b (fd_TotalFailures d)"
    using breakdown_ok [OF base] by (simp add: parts)
  have status: "trimSpace (df_Status filt) = [] \<longrightarrow>
      (\<forall>i \<in> set (fb_Items (fd_Categories d)). fi_Count i = evidenceCount (filt\<lparr>df_Status := fi_Value i\<rparr>) stored) \<and>
      (\<forall>i \<in> set (fb_Items (fd_Statuses d)). fi_Count i = evidenceCount (filt\<lparr>df_Status := fi_Value i\<rparr>) stored)"
    using category_evidence status_evidence by (simp add: parts items)
  have providers: "\<forall>i \<in> set (fb_Items (fd_Providers d)). fi_Count i = evidenceCount (filt\<lparr>us_Provider := fi_Value i\<rparr>) stored"
    by (intro ballI column_evidence [where ex = "\<lambda>e. sqlTrim (ev_Provider e)" and g = "\<lambda>v. filt\<lparr>us_Provider := v\<rparr>", OF _ clean'(1) select_provider])
      (simp_all add: parts items)
  have accounts: "\<forall>i \<in> set (fb_Items (fd_Accounts d)). fi_Count i = evidenceCount (filt\<lparr>df_Account := fi_Value i\<rparr>) stored"
    by (intro ballI column_evidence [where ex = "\<lambda>e. sqlTrim (ev_AuthIndex e)" and g = "\<lambda>v. filt\<lparr>df_Account := v\<rparr>", OF _ clean'(2) select_account])
      (simp_all add: parts items)
  have models: "\<forall>i \<in> set (fb_Items (fd_Models d)). fi_Count i = evidenceCount (filt\<lparr>df_Model := fi_Value i\<rparr>) stored"
    by (intro ballI column_evidence [where ex = "\<lambda>e. sqlTrim (ev_Model e)" and g = "\<lambda>v. filt\<lparr>df_Model := v\<rparr>", OF _ clean'(3) select_model])
      (simp_all add: parts items)
  have endpoints: "\<forall>i \<in> set (fb_Items (fd_Endpoints d)). fi_Count i = evidenceCount (filt\<lparr>df_Endpoint := fi_Value i\<rparr>) stored"
    by (intro ballI column_evidence [where ex = "\<lambda>e. publicUsageEndpointSQL (ev_Endpoint e)" and g = "\<lambda>v. filt\<lparr>df_Endpoint := v\<rparr>", OF _ clean'(4) select_endpoint])
      (simp_all add: parts items)
  show ?thesis
    by (rule conjI [OF total conjI [OF ok conjI [OF status conjI [OF providers conjI [OF accounts conjI [OF models endpoints]]]]]])
qed

definition dayOfEvents :: usageDiagnosticFilter where
  "dayOfEvents = \<lparr>us_StartTime = Some 0, us_EndTime = Some 1000, us_Provider = [],
     df_Model = [], df_ModelAlias = [], df_Account = [], df_Endpoint = [], df_Status = [], df_RequestID = [], df_MinLatencyMS = None\<rparr>"

definition pageOfEvents :: usageEventListFilter where
  "pageOfEvents = usageDiagnosticFilter.extend dayOfEvents
     \<lparr>lf_Page = 1, lf_PageSize = 1, lf_Offset = 0, lf_Source = [], lf_AuthIndex = [], lf_Result = []\<rparr>"

lemma trim_Nil: "trimSpace [] = []" by code_simp

lemma dayOfEvents_selects: "applyUsageDiagnosticQuery dayOfEvents e \<longleftrightarrow> 0 \<le> ev_Timestamp e \<and> ev_Timestamp e \<le> 1000"
  by (auto simp: applyUsageDiagnosticQuery_def applyUsageQueryWindow_def dayOfEvents_def trim_Nil applyUsageStatusFilter_def)

theorem usageEvents_pages_witness:
  "\<exists>pages n. 0 < n \<and> pg_Events (pages 1) \<noteq> [] \<and>
    listUsageEvents (onPage pageOfEvents 1) [sampleEvent, sampleEvent\<lparr>ev_ID := 1\<rparr>] = Some (Inr (pages 1)) \<and>
    concat (map (\<lambda>p. pg_Events (pages (Suc p))) [0..<n]) = matchingRows pageOfEvents [sampleEvent, sampleEvent\<lparr>ev_ID := 1\<rparr>]"
proof -
  let ?es = "[sampleEvent, sampleEvent\<lparr>ev_ID := 1\<rparr>]"
  have valid: "validateUsageAccounting (ev_UsageAccounting sampleEvent) = None" by (simp add: sampleEvent_def sample_validated)
  then have tot: "\<forall>e \<in> set ?es. interpretUsageAttempt e \<noteq> None"
    using interpret_validated_Some [of sampleEvent] interpret_validated_Some [of "sampleEvent\<lparr>ev_ID := 1\<rparr>"] by auto
  have fields: "df_RequestID pageOfEvents = []" "lf_PageSize pageOfEvents = 1" "us_StartTime pageOfEvents = Some 0"
    "us_EndTime pageOfEvents = Some 1000" by (simp_all add: pageOfEvents_def dayOfEvents_def usageDiagnosticFilter.defs)
  have "applyUsageEventListQuery pageOfEvents sampleEvent"
    by (simp add: applyUsageEventListQuery_def applyUsageDiagnosticQuery_def applyUsageQueryWindow_def pageOfEvents_def
        dayOfEvents_def usageDiagnosticFilter.defs trim_Nil applyUsageStatusFilter_def sampleEvent_def)
  then have "matchingRows pageOfEvents ?es \<noteq> []" by (simp add: matchingRows_def)
  from usageEvents_pages [OF tot _ _ _ this] obtain pages n where n: "0 < n"
    and p: "\<forall>p. 0 < p \<and> p \<le> n \<longrightarrow>
      listUsageEvents (onPage pageOfEvents p) ?es = Some (Inr (pages p)) \<and> pg_Events (pages p) \<noteq> []"
    and all: "concat (map (\<lambda>p. pg_Events (pages (Suc p))) [0..<n]) = matchingRows pageOfEvents ?es"
    by (auto simp: fields)
  from n p have "listUsageEvents (onPage pageOfEvents 1) ?es = Some (Inr (pages 1)) \<and> pg_Events (pages 1) \<noteq> []" by simp
  with n all show ?thesis by blast
qed

theorem failureDistribution_evidence_witness:
  "\<exists>d. buildUsageFailureDistribution dayOfEvents [sampleEvent\<lparr>ev_Failed := True\<rparr>] = Inr d \<and>
    fd_TotalFailures d = evidenceCount dayOfEvents [sampleEvent\<lparr>ev_Failed := True\<rparr>] \<and>
    breakdownOf (fd_Models d) (fd_TotalFailures d)"
proof -
  let ?es = "[sampleEvent\<lparr>ev_Failed := True\<rparr>]"
  obtain d where d: "buildUsageFailureDistribution dayOfEvents ?es = Inr d"
    by (auto simp: buildUsageFailureDistribution_def dayOfEvents_def Let_def)
  have "trimmedEvents ?es" unfolding trimmedEvents_def sampleEvent_def by simp code_simp
  moreover have "length ?es < 2 ^ 63" by simp
  ultimately have t: "fd_TotalFailures d = evidenceCount dayOfEvents ?es"
    and b: "\<forall>b \<in> {fd_Categories d, fd_Statuses d, fd_Providers d, fd_Accounts d, fd_Models d, fd_Endpoints d}.
      breakdownOf b (fd_TotalFailures d)"
    using failureDistribution_evidence [OF d] by blast+
  from b have "breakdownOf (fd_Models d) (fd_TotalFailures d)" by blast
  with d t show ?thesis by blast
qed

end
