(* ===== verification/GoTime.thy ===== *)
theory GoTime
  imports GoStrings
begin

text \<open>
  Calendar dates of UTC instants, as \<open>Time.Format(time.RFC3339)\<close> prints them: the day number of the
  proleptic Gregorian calendar is split into eras of 400 years that begin on 1 March.
\<close>

definition civilFromDays :: "int \<Rightarrow> int \<times> int \<times> int" where
  "civilFromDays days =
     (let z = days + 719468;
          era = z div 146097;
          doe = z mod 146097;
          yoe = (doe - doe div 1460 + doe div 36524 - doe div 146096) div 365;
          doy = doe - (365 * yoe + yoe div 4 - yoe div 100);
          mp = (5 * doy + 2) div 153;
          d = doy - (153 * mp + 2) div 5 + 1;
          m = (if mp < 10 then mp + 3 else mp - 9);
          y = yoe + era * 400 + (if m \<le> 2 then 1 else 0)
      in (y, m, d))"

text \<open>Zero-padded decimals of at least the given width.\<close>

definition padInt :: "nat \<Rightarrow> int \<Rightarrow> string" where
  "padInt width i =
     (let ds = nat_digits (nat \<bar>i\<bar>)
      in (if i < 0 then ''-'' else []) @ replicate (width - length ds) (CHR ''0'') @ ds)"

definition formatRFC3339 :: "int \<Rightarrow> string" where
  "formatRFC3339 unixSecs =
     (let (y, m, d) = civilFromDays (unixSecs div 86400);
          s = unixSecs mod 86400
      in padInt 4 y @ ''-'' @ padInt 2 m @ ''-'' @ padInt 2 d @ ''T''
           @ padInt 2 (s div 3600) @ '':'' @ padInt 2 (s div 60 mod 60) @ '':'' @ padInt 2 (s mod 60) @ ''Z'')"

text \<open>\<open>time.Unix(sec, 0)\<close> keeps the seconds since year 1 in 64 bits.\<close>

definition unixSecondsWrapped :: "i64 \<Rightarrow> int" where
  "unixSecondsWrapped secs = sint (secs + word_of_int 62135596800) - 62135596800"

end
