(* ===== verification/LocalTime.thy ===== *)
theory LocalTime
  imports GoTime
begin

text \<open>
  Local dates. The zone of the process (\<open>time.Local\<close>) is a parameter: the offset, in seconds east of UTC, that
  holds at a Unix second. \<open>time.Date\<close> first reads the offset at the wall clock taken as UTC and then the offset
  at the instant that gives, which is what the library does with the transitions of the zone.
\<close>

type_synonym zone = "int \<Rightarrow> int"

definition daySeconds :: int where "daySeconds = 86400"

definition localSeconds :: "zone \<Rightarrow> instant \<Rightarrow> int" where
  "localSeconds zone t = t div second + zone (t div second)"

definition localDay :: "zone \<Rightarrow> instant \<Rightarrow> int" where
  "localDay zone t = localSeconds zone t div daySeconds"

text \<open>\<open>time.Date\<close> of a wall clock given in seconds.\<close>

definition dateLocal :: "zone \<Rightarrow> int \<Rightarrow> instant" where
  "dateLocal zone wall = (if zone wall = 0 then wall else wall - zone (wall - zone wall)) * second"

definition clockOfDay :: "zone \<Rightarrow> int \<Rightarrow> int \<Rightarrow> instant" where
  "clockOfDay zone hours d = dateLocal zone (d * daySeconds + hours * 3600)"

definition startOfDay :: "zone \<Rightarrow> instant \<Rightarrow> instant" where
  "startOfDay zone t = clockOfDay zone 0 (localDay zone t)"

text \<open>\<open>AddDate(0, 0, n)\<close> keeps the wall clock.\<close>

definition addDays :: "zone \<Rightarrow> int \<Rightarrow> instant \<Rightarrow> instant" where
  "addDays zone n t = dateLocal zone (localSeconds zone t + n * daySeconds) + t mod second"

text \<open>\<open>Time.Sub\<close> stops at the ends of the range of a \<open>Duration\<close>.\<close>

definition timeSub :: "instant \<Rightarrow> instant \<Rightarrow> duration" where
  "timeSub t u = max (- (2 ^ 63)) (min (2 ^ 63 - 1) (t - u))"

section \<open>Formats\<close>

definition formatDate :: "int \<Rightarrow> string" where
  "formatDate days =
     (let (y, m, d) = civilFromDays days in padInt 4 y @ ''-'' @ padInt 2 m @ ''-'' @ padInt 2 d)"

definition formatLocalDate :: "zone \<Rightarrow> instant \<Rightarrow> string" where
  "formatLocalDate zone t = formatDate (localDay zone t)"

definition formatUTCHour :: "instant \<Rightarrow> string" where
  "formatUTCHour t =
     (let s = t div second in
      formatDate (s div daySeconds) @ ''T'' @ padInt 2 (s mod daySeconds div 3600) @ '':00:00Z'')"

section \<open>Zones with a fixed offset\<close>

definition fixedZone :: "int \<Rightarrow> zone" where
  "fixedZone off = (\<lambda>s. off)"

lemma le_div_iff:
  fixes d :: int
  assumes "0 < d"
  shows "a \<le> t div d \<longleftrightarrow> a * d \<le> t"
proof
  assume "a \<le> t div d"
  then have "a * d \<le> t div d * d" using assms by (intro mult_right_mono) simp_all
  also have "\<dots> \<le> t" using pos_mod_sign [OF assms, of t] div_mult_mod_eq [of t d] by linarith
  finally show "a * d \<le> t" .
next
  assume "a * d \<le> t"
  from zdiv_mono1 [OF this assms] show "a \<le> t div d" using assms by simp
qed

lemma dateLocal_fixed [simp]: "dateLocal (fixedZone off) wall = (wall - off) * second"
  by (simp add: dateLocal_def fixedZone_def)

lemma localSeconds_fixed: "localSeconds (fixedZone off) t = t div second + off"
  by (simp add: localSeconds_def fixedZone_def)

lemma localDay_fixed:
  "localDay (fixedZone off) t = d \<longleftrightarrow>
     (d * daySeconds - off) * second \<le> t \<and> t < ((d + 1) * daySeconds - off) * second"
proof -
  have "localDay (fixedZone off) t = d \<longleftrightarrow>
      daySeconds * d \<le> t div second + off \<and> t div second + off < daySeconds * d + daySeconds"
    unfolding localDay_def localSeconds_fixed by (rule div_eq_iff_between) (simp add: daySeconds_def)
  also have "daySeconds * d \<le> t div second + off \<longleftrightarrow> (d * daySeconds - off) * second \<le> t"
    using le_div_iff [of second "daySeconds * d - off" t] by (simp add: algebra_simps)
  also have "t div second + off < daySeconds * d + daySeconds \<longleftrightarrow> t < ((d + 1) * daySeconds - off) * second"
    using le_div_iff [of second "daySeconds * d + daySeconds - off" t] by (simp add: algebra_simps not_le [symmetric])
  finally show ?thesis .
qed

lemma startOfDay_fixed: "startOfDay (fixedZone off) t = (localDay (fixedZone off) t * daySeconds - off) * second"
  by (simp add: startOfDay_def clockOfDay_def)

lemma startOfDay_bounds:
  "startOfDay (fixedZone off) t \<le> t" "t < startOfDay (fixedZone off) t + daySeconds * second"
  using localDay_fixed [of off t "localDay (fixedZone off) t"]
  by (simp_all add: startOfDay_fixed algebra_simps)

lemma addDays_startOfDay:
  "addDays (fixedZone off) n (startOfDay (fixedZone off) t) = startOfDay (fixedZone off) t + n * daySeconds * second"
  by (simp add: addDays_def localSeconds_fixed startOfDay_fixed algebra_simps)

end
