(* ===== verification/UsageSnapshot.thy ===== *)
theory UsageSnapshot
  imports LocalTime Accounting "HOL-Library.Multiset"
begin

text \<open>
  The snapshot of the usage statistics the overview shows (\<open>repository/usage_overview.go\<close>, records of
  \<open>dto/usage_snapshot.go\<close>): totals, the totals of each API key and each model, and the series of days and
  hours, kept up to date event by event. The theorem says that all of them are the counts of the events
  they stand for. \<open>None\<close> is the panic of \<open>interpretUsageAttempt\<close>.
\<close>

section \<open>Records\<close>

record usageTally =
  sn_TotalRequests :: i64
  sn_SuccessCount :: i64
  sn_FailureCount :: i64
  sn_TotalTokens :: i64
  sn_CanonicalValidAttempts :: i64

record requestDetail =
  dt_Timestamp :: instant
  dt_LatencyMS :: i64
  dt_Source :: string
  dt_SourceRaw :: string
  dt_SourceDisplay :: string
  dt_SourceType :: string
  dt_AuthIndex :: string
  dt_Failed :: bool
  dt_Tokens :: tokenStats
  dt_CanonicalTokensAvailable :: bool

record modelSnapshot = usageTally +
  mn_Details :: "requestDetail list"

record apiSnapshot = usageTally +
  an_DisplayName :: string
  an_Models :: "string \<rightharpoonup> modelSnapshot"

record statisticsSnapshot = usageTally +
  st_APIs :: "string \<rightharpoonup> apiSnapshot"
  st_RequestsByDay :: "string \<rightharpoonup> i64"
  st_RequestsByHour :: "string \<rightharpoonup> i64"
  st_TokensByDay :: "string \<rightharpoonup> i64"
  st_TokensByHour :: "string \<rightharpoonup> i64"

text \<open>Reading a Go map: a missing key reads as the zero value.\<close>

definition entry :: "('k \<rightharpoonup> 'v) \<Rightarrow> 'v \<Rightarrow> 'k \<Rightarrow> 'v" where
  "entry m zero k = (case m k of None \<Rightarrow> zero | Some v \<Rightarrow> v)"

definition emptyModel :: modelSnapshot where
  "emptyModel = \<lparr>sn_TotalRequests = 0, sn_SuccessCount = 0, sn_FailureCount = 0, sn_TotalTokens = 0,
     sn_CanonicalValidAttempts = 0, mn_Details = []\<rparr>"

definition emptyAPI :: apiSnapshot where
  "emptyAPI = \<lparr>sn_TotalRequests = 0, sn_SuccessCount = 0, sn_FailureCount = 0, sn_TotalTokens = 0,
     sn_CanonicalValidAttempts = 0, an_DisplayName = [], an_Models = Map.empty\<rparr>"

definition emptySnapshot :: statisticsSnapshot where
  "emptySnapshot = \<lparr>sn_TotalRequests = 0, sn_SuccessCount = 0, sn_FailureCount = 0, sn_TotalTokens = 0,
     sn_CanonicalValidAttempts = 0, st_APIs = Map.empty, st_RequestsByDay = Map.empty,
     st_RequestsByHour = Map.empty, st_TokensByDay = Map.empty, st_TokensByHour = Map.empty\<rparr>"

section \<open>Counting an event\<close>

definition normalizeUsageOverviewDimension :: "string \<Rightarrow> string" where
  "normalizeUsageOverviewDimension value =
     (let trimmed = trimSpace value in if trimmed = [] then ''unknown'' else trimmed)"

definition noTokens :: tokenStats where
  "noTokens = \<lparr>ts_InputTokens = 0, ts_OutputTokens = 0, ts_ReasoningTokens = 0, ts_CachedTokens = 0, ts_TotalTokens = 0\<rparr>"

text \<open>The counters of one level.\<close>

definition tally :: "i64 \<Rightarrow> bool \<Rightarrow> bool \<Rightarrow> 'a usageTally_scheme \<Rightarrow> 'a usageTally_scheme" where
  "tally tokens canonical failed t =
     (let t = t\<lparr>sn_TotalRequests := sn_TotalRequests t + 1, sn_TotalTokens := sn_TotalTokens t + tokens\<rparr>;
          t = (if canonical then t\<lparr>sn_CanonicalValidAttempts := sn_CanonicalValidAttempts t + 1\<rparr> else t)
      in if failed then t\<lparr>sn_FailureCount := sn_FailureCount t + 1\<rparr>
         else t\<lparr>sn_SuccessCount := sn_SuccessCount t + 1\<rparr>)"

definition requestDetailOf :: "tokenStats \<Rightarrow> bool \<Rightarrow> usageEvent \<Rightarrow> requestDetail" where
  "requestDetailOf tokens canonical e =
     \<lparr>dt_Timestamp = ev_Timestamp e, dt_LatencyMS = ev_LatencyMS e, dt_Source = trimSpace (ev_Source e),
      dt_SourceRaw = [], dt_SourceDisplay = [], dt_SourceType = [], dt_AuthIndex = trimSpace (ev_AuthIndex e),
      dt_Failed = ev_Failed e, dt_Tokens = tokens, dt_CanonicalTokensAvailable = canonical\<rparr>"

definition countEvent ::
  "zone \<Rightarrow> bool \<Rightarrow> usageEvent \<Rightarrow> tokenStats \<Rightarrow> bool \<Rightarrow> statisticsSnapshot \<Rightarrow> statisticsSnapshot" where
  "countEvent zone includeDetails e tokens canonical s =
     (let apiKey = normalizeUsageOverviewDimension (ev_APIGroupKey e);
          modelName = normalizeUsageOverviewDimension (ev_Model e);
          api = entry (st_APIs s) emptyAPI apiKey;
          model = entry (an_Models api) emptyModel modelName;
          model = (if includeDetails then model\<lparr>mn_Details := mn_Details model @ [requestDetailOf tokens canonical e]\<rparr> else model);
          dayKey = formatLocalDate zone (ev_Timestamp e);
          hourKey = formatUTCHour (ev_Timestamp e);
          s = tally (ts_TotalTokens tokens) canonical (ev_Failed e) s;
          model = tally (ts_TotalTokens tokens) canonical (ev_Failed e) model;
          api = tally (ts_TotalTokens tokens) canonical (ev_Failed e) api
      in s\<lparr>st_RequestsByDay := (st_RequestsByDay s)(dayKey \<mapsto> entry (st_RequestsByDay s) 0 dayKey + 1),
           st_RequestsByHour := (st_RequestsByHour s)(hourKey \<mapsto> entry (st_RequestsByHour s) 0 hourKey + 1),
           st_TokensByDay := (st_TokensByDay s)(dayKey \<mapsto> entry (st_TokensByDay s) 0 dayKey + ts_TotalTokens tokens),
           st_TokensByHour := (st_TokensByHour s)(hourKey \<mapsto> entry (st_TokensByHour s) 0 hourKey + ts_TotalTokens tokens),
           st_APIs := (st_APIs s)(apiKey \<mapsto> api\<lparr>an_Models := (an_Models api)(modelName \<mapsto> model)\<rparr>)\<rparr>)"

definition applyUsageEventToSnapshot ::
  "zone \<Rightarrow> bool \<Rightarrow> usageEvent \<Rightarrow> statisticsSnapshot \<Rightarrow> statisticsSnapshot option" where
  "applyUsageEventToSnapshot zone includeDetails e s =
     (case usageEventCanonicalTokenStats e of
        None \<Rightarrow> None
      | Some None \<Rightarrow> Some (countEvent zone includeDetails e noTokens False s)
      | Some (Some tokens) \<Rightarrow> Some (countEvent zone includeDetails e tokens True s))"

text \<open>The details of each model in the order of their time; \<open>sort.Slice\<close> leaves ties in any order.\<close>

definition finalizeUsageSnapshot :: "bool \<Rightarrow> statisticsSnapshot \<Rightarrow> statisticsSnapshot" where
  "finalizeUsageSnapshot includeDetails s =
     (if \<not> includeDetails then s
      else s\<lparr>st_APIs := (\<lambda>k. map_option (\<lambda>api. api\<lparr>an_Models := (\<lambda>m. map_option (\<lambda>model.
             model\<lparr>mn_Details := sort_key dt_Timestamp (mn_Details model)\<rparr>) (an_Models api m))\<rparr>) (st_APIs s k))\<rparr>)"

fun foldOption :: "('e \<Rightarrow> 's \<Rightarrow> 's option) \<Rightarrow> 'e list \<Rightarrow> 's \<Rightarrow> 's option" where
  "foldOption f [] s = Some s"
| "foldOption f (e # es) s = (case f e s of None \<Rightarrow> None | Some s' \<Rightarrow> foldOption f es s')"

definition buildUsageSnapshotFromEvents :: "zone \<Rightarrow> usageEvent list \<Rightarrow> statisticsSnapshot option" where
  "buildUsageSnapshotFromEvents zone events =
     (if length events = 0 then Some emptySnapshot
      else map_option (finalizeUsageSnapshot True)
        (foldOption (applyUsageEventToSnapshot zone True) events emptySnapshot))"

section \<open>Maps that group events\<close>

text \<open>
  A map groups events by a key when it has an entry exactly for the keys that occur, and each entry stands
  for the events of its key.
\<close>

definition grouped :: "('e \<Rightarrow> 'k) \<Rightarrow> ('v \<Rightarrow> 'e list \<Rightarrow> bool) \<Rightarrow> ('k \<rightharpoonup> 'v) \<Rightarrow> 'e list \<Rightarrow> bool" where
  "grouped key Q m es \<longleftrightarrow> (\<forall>k. case m k of
     None \<Rightarrow> filter (\<lambda>e. key e = k) es = []
   | Some v \<Rightarrow> filter (\<lambda>e. key e = k) es \<noteq> [] \<and> Q v (filter (\<lambda>e. key e = k) es))"

lemma grouped_empty [simp]: "grouped key Q Map.empty []"
  by (simp add: grouped_def)

lemma grouped_entry:
  assumes "grouped key Q m es" "Q zero []"
  shows "Q (entry m zero k) (filter (\<lambda>e. key e = k) es)"
  using assms(1) [unfolded grouped_def, rule_format, of k] assms(2)
  by (auto simp: entry_def split: option.splits)

lemma grouped_snoc:
  assumes "grouped key Q m es" "Q v (filter (\<lambda>x. key x = key e) es @ [e])"
  shows "grouped key Q (m(key e \<mapsto> v)) (es @ [e])"
  unfolding grouped_def
proof
  fix k
  show "case (m(key e \<mapsto> v)) k of None \<Rightarrow> filter (\<lambda>x. key x = k) (es @ [e]) = []
    | Some v \<Rightarrow> filter (\<lambda>x. key x = k) (es @ [e]) \<noteq> [] \<and> Q v (filter (\<lambda>x. key x = k) (es @ [e]))"
    using assms(1) [unfolded grouped_def, rule_format, of k] assms(2)
    by (cases "k = key e") (auto split: option.splits)
qed

lemma grouped_map:
  assumes "grouped key Q m es" "\<And>v vs. Q v vs \<Longrightarrow> R (f v) vs"
  shows "grouped key R (\<lambda>k. map_option f (m k)) es"
  unfolding grouped_def
proof
  fix k
  show "case map_option f (m k) of None \<Rightarrow> filter (\<lambda>e. key e = k) es = []
    | Some v \<Rightarrow> filter (\<lambda>e. key e = k) es \<noteq> [] \<and> R v (filter (\<lambda>e. key e = k) es)"
    using assms(1) [unfolded grouped_def, rule_format, of k] assms(2) by (auto split: option.splits)
qed

section \<open>The snapshot counts its events\<close>

definition canonicalOf :: "usageEvent \<Rightarrow> bool" where
  "canonicalOf e \<longleftrightarrow> (\<exists>t. usageEventCanonicalTokenStats e = Some (Some t))"

definition tokensOf :: "usageEvent \<Rightarrow> tokenStats" where
  "tokensOf e = (case usageEventCanonicalTokenStats e of Some (Some t) \<Rightarrow> t | _ \<Rightarrow> noTokens)"

lemma applyUsageEventToSnapshot_Some:
  "interpretUsageAttempt e \<noteq> None \<Longrightarrow>
    applyUsageEventToSnapshot zone includeDetails e s =
      Some (countEvent zone includeDetails e (tokensOf e) (canonicalOf e) s)"
proof -
  assume "interpretUsageAttempt e \<noteq> None"
  then obtain o1 where "usageEventCanonicalTokenStats e = Some o1" by (auto simp: usageEventCanonicalTokenStats_def)
  then show ?thesis by (cases o1) (simp_all add: applyUsageEventToSnapshot_def tokensOf_def canonicalOf_def)
qed

text \<open>The five counters of a list of events.\<close>

definition tallies :: "'a usageTally_scheme \<Rightarrow> usageEvent list \<Rightarrow> bool" where
  "tallies t es \<longleftrightarrow> sn_TotalRequests t = of_nat (length es) \<and>
     sn_SuccessCount t = of_nat (length (filter (\<lambda>e. \<not> ev_Failed e) es)) \<and>
     sn_FailureCount t = of_nat (length (filter ev_Failed es)) \<and>
     sn_TotalTokens t = sum_list (map (\<lambda>e. ts_TotalTokens (tokensOf e)) es) \<and>
     sn_CanonicalValidAttempts t = of_nat (length (filter canonicalOf es))"

definition detailOf :: "usageEvent \<Rightarrow> requestDetail" where
  "detailOf e = requestDetailOf (tokensOf e) (canonicalOf e) e"

abbreviation apiKeyOf :: "usageEvent \<Rightarrow> string" where
  "apiKeyOf e \<equiv> normalizeUsageOverviewDimension (ev_APIGroupKey e)"
abbreviation modelKeyOf :: "usageEvent \<Rightarrow> string" where
  "modelKeyOf e \<equiv> normalizeUsageOverviewDimension (ev_Model e)"

definition modelCounts :: "(requestDetail list \<Rightarrow> requestDetail list) \<Rightarrow> modelSnapshot \<Rightarrow> usageEvent list \<Rightarrow> bool" where
  "modelCounts view m es \<longleftrightarrow> tallies m es \<and> mn_Details m = view (map detailOf es)"

definition apiCounts :: "(requestDetail list \<Rightarrow> requestDetail list) \<Rightarrow> apiSnapshot \<Rightarrow> usageEvent list \<Rightarrow> bool" where
  "apiCounts view a es \<longleftrightarrow> tallies a es \<and> grouped modelKeyOf (modelCounts view) (an_Models a) es"

definition snapshotCounts ::
  "zone \<Rightarrow> (requestDetail list \<Rightarrow> requestDetail list) \<Rightarrow> statisticsSnapshot \<Rightarrow> usageEvent list \<Rightarrow> bool" where
  "snapshotCounts zone view s es \<longleftrightarrow> tallies s es \<and> grouped apiKeyOf (apiCounts view) (st_APIs s) es \<and>
     grouped (\<lambda>e. formatLocalDate zone (ev_Timestamp e)) (\<lambda>v vs. v = of_nat (length vs)) (st_RequestsByDay s) es \<and>
     grouped (\<lambda>e. formatUTCHour (ev_Timestamp e)) (\<lambda>v vs. v = of_nat (length vs)) (st_RequestsByHour s) es \<and>
     grouped (\<lambda>e. formatLocalDate zone (ev_Timestamp e))
       (\<lambda>v vs. v = sum_list (map (\<lambda>e. ts_TotalTokens (tokensOf e)) vs)) (st_TokensByDay s) es \<and>
     grouped (\<lambda>e. formatUTCHour (ev_Timestamp e))
       (\<lambda>v vs. v = sum_list (map (\<lambda>e. ts_TotalTokens (tokensOf e)) vs)) (st_TokensByHour s) es"

lemma tallies_empty [simp]: "tallies emptyModel []" "tallies emptyAPI []" "tallies emptySnapshot []"
  by (simp_all add: tallies_def emptyModel_def emptyAPI_def emptySnapshot_def)

lemma tally_fields [simp]:
  "sn_TotalRequests (tally tok c f t) = sn_TotalRequests t + 1"
  "sn_TotalTokens (tally tok c f t) = sn_TotalTokens t + tok"
  "sn_CanonicalValidAttempts (tally tok c f t) = sn_CanonicalValidAttempts t + (if c then 1 else 0)"
  "sn_FailureCount (tally tok c f t) = sn_FailureCount t + (if f then 1 else 0)"
  "sn_SuccessCount (tally tok c f t) = sn_SuccessCount t + (if f then 0 else 1)"
  by (simp_all add: tally_def Let_def)

lemma tally_more [simp]:
  "usageTally.more (tally tok c f t) = usageTally.more t"
  by (simp add: tally_def Let_def)

lemma tallies_snoc:
  "tallies t es \<Longrightarrow> tallies (tally (ts_TotalTokens (tokensOf e)) (canonicalOf e) (ev_Failed e) t) (es @ [e])"
  by (simp add: tallies_def add.commute)

lemma tally_parts [simp]:
  "mn_Details (tally tok c f m) = mn_Details m"
  "an_Models (tally tok c f a) = an_Models a"
  "st_APIs (tally tok c f s) = st_APIs s" "st_RequestsByDay (tally tok c f s) = st_RequestsByDay s"
  "st_RequestsByHour (tally tok c f s) = st_RequestsByHour s" "st_TokensByDay (tally tok c f s) = st_TokensByDay s"
  "st_TokensByHour (tally tok c f s) = st_TokensByHour s"
  by (simp_all add: tally_def Let_def)

lemma tallies_update [simp]:
  "tallies (m\<lparr>mn_Details := d\<rparr>) es = tallies m es"
  "tallies (a\<lparr>an_Models := ms\<rparr>) es = tallies a es"
  "tallies (s\<lparr>st_APIs := x1\<rparr>) es = tallies s es" "tallies (s\<lparr>st_RequestsByDay := x2\<rparr>) es = tallies s es"
  "tallies (s\<lparr>st_RequestsByHour := x2\<rparr>) es = tallies s es" "tallies (s\<lparr>st_TokensByDay := x2\<rparr>) es = tallies s es"
  "tallies (s\<lparr>st_TokensByHour := x2\<rparr>) es = tallies s es"
  by (simp_all add: tallies_def)

text \<open>The view of the details while counting: all of them, or none.\<close>

definition kept :: "bool \<Rightarrow> requestDetail list \<Rightarrow> requestDetail list" where
  "kept includeDetails ds = (if includeDetails then ds else [])"

lemma model_snoc:
  assumes "modelCounts (kept inc) m es"
  shows "modelCounts (kept inc) (tally (ts_TotalTokens (tokensOf e)) (canonicalOf e) (ev_Failed e)
    (if inc then m\<lparr>mn_Details := mn_Details m @ [requestDetailOf (tokensOf e) (canonicalOf e) e]\<rparr> else m)) (es @ [e])"
  using assms tallies_snoc [of m es e]
    tallies_snoc [of "m\<lparr>mn_Details := mn_Details m @ [requestDetailOf (tokensOf e) (canonicalOf e) e]\<rparr>" es e]
  by (cases inc) (simp_all add: modelCounts_def kept_def detailOf_def)

lemma api_snoc:
  fixes e :: usageEvent
  assumes "apiCounts (kept inc) a es"
  defines "m \<equiv> entry (an_Models a) emptyModel (modelKeyOf e)"
  shows "apiCounts (kept inc) (tally (ts_TotalTokens (tokensOf e)) (canonicalOf e) (ev_Failed e) a
    \<lparr>an_Models := (an_Models a)(modelKeyOf e \<mapsto> tally (ts_TotalTokens (tokensOf e)) (canonicalOf e) (ev_Failed e)
      (if inc then m\<lparr>mn_Details := mn_Details m @ [requestDetailOf (tokensOf e) (canonicalOf e) e]\<rparr> else m))\<rparr>) (es @ [e])"
proof -
  have g: "grouped modelKeyOf (modelCounts (kept inc)) (an_Models a) es" using assms(1) by (simp add: apiCounts_def)
  have "modelCounts (kept inc) emptyModel []" by (simp add: modelCounts_def kept_def emptyModel_def [THEN arg_cong, of mn_Details])
  then have "modelCounts (kept inc) m (filter (\<lambda>x. modelKeyOf x = modelKeyOf e) es)"
    unfolding m_def by (rule grouped_entry [OF g])
  from grouped_snoc [OF g model_snoc [OF this]] tallies_snoc [of a es e] assms(1)
  show ?thesis by (simp add: apiCounts_def)
qed

lemma count_series:
  fixes m :: "string \<rightharpoonup> i64"
  assumes "grouped key (\<lambda>v vs. v = of_nat (length vs)) m es"
  shows "grouped key (\<lambda>v vs. v = of_nat (length vs)) (m(key e \<mapsto> entry m 0 (key e) + 1)) (es @ [e])"
  by (rule grouped_snoc [OF assms]) (simp add: grouped_entry [OF assms, of 0 "key e"])

lemma sum_series:
  fixes m :: "string \<rightharpoonup> i64"
  assumes "grouped key (\<lambda>v vs. v = sum_list (map h vs)) m es"
  shows "grouped key (\<lambda>v vs. v = sum_list (map h vs)) (m(key e \<mapsto> entry m 0 (key e) + h e)) (es @ [e])"
  by (rule grouped_snoc [OF assms]) (simp add: grouped_entry [OF assms, of 0 "key e"])

lemma snapshot_snoc:
  assumes "snapshotCounts zone (kept inc) s es"
  shows "snapshotCounts zone (kept inc) (countEvent zone inc e (tokensOf e) (canonicalOf e) s) (es @ [e])"
proof -
  note c = assms [unfolded snapshotCounts_def]
  have g: "grouped apiKeyOf (apiCounts (kept inc)) (st_APIs s) es" using c by simp
  have "apiCounts (kept inc) emptyAPI []" by (simp add: apiCounts_def emptyAPI_def [THEN arg_cong, of an_Models])
  then have api: "apiCounts (kept inc) (entry (st_APIs s) emptyAPI (apiKeyOf e)) (filter (\<lambda>x. apiKeyOf x = apiKeyOf e) es)"
    by (rule grouped_entry [OF g])
  let ?a = "entry (st_APIs s) emptyAPI (apiKeyOf e)"
  let ?m = "entry (an_Models ?a) emptyModel (modelKeyOf e)"
  have apis: "grouped apiKeyOf (apiCounts (kept inc)) ((st_APIs s)(apiKeyOf e \<mapsto>
      (tally (ts_TotalTokens (tokensOf e)) (canonicalOf e) (ev_Failed e) ?a)
      \<lparr>an_Models := (an_Models ?a)(modelKeyOf e \<mapsto> tally (ts_TotalTokens (tokensOf e)) (canonicalOf e) (ev_Failed e)
        (if inc then ?m\<lparr>mn_Details := mn_Details ?m @ [requestDetailOf (tokensOf e) (canonicalOf e) e]\<rparr> else ?m))\<rparr>)) (es @ [e])"
    by (rule grouped_snoc [where Q = "apiCounts (kept inc)", OF g]) (rule api_snoc [OF api])
  let ?day = "\<lambda>e. formatLocalDate zone (ev_Timestamp e)" and ?hour = "\<lambda>e. formatUTCHour (ev_Timestamp e)"
  show ?thesis
    using c apis tallies_snoc [of s es e]
      count_series [of ?day "st_RequestsByDay s" es e] count_series [of ?hour "st_RequestsByHour s" es e]
      sum_series [of ?day "\<lambda>e. ts_TotalTokens (tokensOf e)" "st_TokensByDay s" es e]
      sum_series [of ?hour "\<lambda>e. ts_TotalTokens (tokensOf e)" "st_TokensByHour s" es e]
    unfolding snapshotCounts_def countEvent_def Let_def
    by (intro conjI) (simp_all del: fun_upd_apply)
qed

lemma fold_snapshot:
  assumes "\<forall>e \<in> set es. interpretUsageAttempt e \<noteq> None" "snapshotCounts zone (kept inc) s past"
  shows "\<exists>s'. foldOption (applyUsageEventToSnapshot zone inc) es s = Some s' \<and> snapshotCounts zone (kept inc) s' (past @ es)"
  using assms
proof (induction es arbitrary: s past)
  case (Cons e es)
  from Cons.IH [OF _ snapshot_snoc [OF Cons.prems(2), of e]] Cons.prems(1)
  show ?case by (simp add: applyUsageEventToSnapshot_Some)
qed simp

lemma finalized_counts:
  assumes "snapshotCounts zone (kept True) s es"
  shows "snapshotCounts zone (sort_key dt_Timestamp) (finalizeUsageSnapshot True s) es"
proof -
  let ?model = "\<lambda>m. m\<lparr>mn_Details := sort_key dt_Timestamp (mn_Details m)\<rparr>"
  let ?api = "\<lambda>a. a\<lparr>an_Models := (\<lambda>m. map_option ?model (an_Models a m))\<rparr>"
  have model: "modelCounts (sort_key dt_Timestamp) (?model m) vs" if "modelCounts (kept True) m vs" for m vs
    using that by (simp add: modelCounts_def kept_def)
  have api: "apiCounts (sort_key dt_Timestamp) (?api a) vs" if "apiCounts (kept True) a vs" for a vs
  proof -
    have "grouped modelKeyOf (modelCounts (kept True)) (an_Models a) vs" using that by (simp add: apiCounts_def)
    from grouped_map [of modelKeyOf "modelCounts (kept True)" "an_Models a" vs "modelCounts (sort_key dt_Timestamp)" ?model, OF this model] that
    show ?thesis by (simp add: apiCounts_def)
  qed
  have "grouped apiKeyOf (apiCounts (kept True)) (st_APIs s) es" using assms by (simp add: snapshotCounts_def)
  from grouped_map [of apiKeyOf "apiCounts (kept True)" "st_APIs s" es "apiCounts (sort_key dt_Timestamp)" ?api, OF this api] assms
  show ?thesis by (simp add: snapshotCounts_def finalizeUsageSnapshot_def)
qed

text \<open>
  A usage snapshot is what grouping its events gives: the totals count every event, each API key that
  occurs (and no other) has the counts of its events, each model under it likewise, with the details of
  those events in the order of their time, and each local day and each UTC hour that occurs has its
  requests and tokens.
\<close>
theorem usageSnapshot_exact:
  assumes "\<forall>e \<in> set events. interpretUsageAttempt e \<noteq> None"
  shows "\<exists>s. buildUsageSnapshotFromEvents zone events = Some s \<and>
    snapshotCounts zone (sort_key dt_Timestamp) s events"
proof (cases "events = []")
  case True
  have "snapshotCounts zone (sort_key dt_Timestamp) emptySnapshot []"
    by (simp add: snapshotCounts_def) (simp add: emptySnapshot_def)
  with True show ?thesis by (simp add: buildUsageSnapshotFromEvents_def)
next
  case False
  have "snapshotCounts zone (kept True) emptySnapshot []"
    by (simp add: snapshotCounts_def) (simp add: emptySnapshot_def)
  from fold_snapshot [OF assms this] finalized_counts False
  show ?thesis by (auto simp: buildUsageSnapshotFromEvents_def)
qed

theorem usageSnapshot_exact_witness:
  "\<exists>s. buildUsageSnapshotFromEvents (fixedZone 28800) [sampleEvent, sampleEvent\<lparr>ev_Failed := True\<rparr>] = Some s \<and>
     snapshotCounts (fixedZone 28800) (sort_key dt_Timestamp) s [sampleEvent, sampleEvent\<lparr>ev_Failed := True\<rparr>]"
proof (rule usageSnapshot_exact)
  have "validateUsageAccounting (ev_UsageAccounting sampleEvent) = None" by (simp add: sampleEvent_def sample_validated)
  then show "\<forall>e \<in> set [sampleEvent, sampleEvent\<lparr>ev_Failed := True\<rparr>]. interpretUsageAttempt e \<noteq> None"
    using interpret_validated_Some [of sampleEvent] interpret_validated_Some [of "sampleEvent\<lparr>ev_Failed := True\<rparr>"] by simp
qed

end
