(* ===== verification/RequestHealth.thy ===== *)
theory RequestHealth
  imports AnalyticsCore "HOL-Library.Signed_Division"
begin

text \<open>
  The request health grid (\<open>repository/usage_health.go\<close>): the blocks of a window, the in-memory count the
  overview keeps (\<open>updateUsageOverviewHealthBlock\<close> and the health part of \<open>applyUsageEventToOverview\<close>), and the
  SQL aggregates of the request-health endpoint. On grids whose blocks are whole seconds the two agree; on
  the preset grids they do not.
\<close>

section \<open>The grid\<close>

record usageOverviewFilter = usageTimeScope +
  uo_Range :: string

record healthBlock =
  hb_StartTime :: instant
  hb_EndTime :: instant
  hb_Success :: i64
  hb_Failure :: i64
  hb_Rate :: float64

record usageHealth =
  uh_TotalSuccess :: i64
  uh_TotalFailure :: i64
  uh_SuccessRate :: float64
  uh_Rows :: nat
  uh_Columns :: nat
  uh_BucketSeconds :: int
  uh_WindowStart :: instant
  uh_WindowEnd :: instant
  uh_BlockDetails :: "healthBlock list"

definition usageOverviewHealthRows :: nat where "usageOverviewHealthRows = 7"
definition usageOverviewHealthDefaultColumns :: nat where "usageOverviewHealthDefaultColumns = 96"
definition usageOverviewHealthDefaultSpan :: duration where "usageOverviewHealthDefaultSpan = 15 * minute"
definition usageOverviewHealthPresetWindow :: duration where "usageOverviewHealthPresetWindow = 24 * hour"
definition usageOverviewHealthPresetSpan :: duration where
  "usageOverviewHealthPresetSpan =
     (usageOverviewHealthPresetWindow + int (usageOverviewHealthRows * usageOverviewHealthDefaultColumns) - 1)
       div int (usageOverviewHealthRows * usageOverviewHealthDefaultColumns)"

lemmas health_consts =
  usageOverviewHealthRows_def usageOverviewHealthDefaultColumns_def usageOverviewHealthDefaultSpan_def
  usageOverviewHealthPresetWindow_def usageOverviewHealthPresetSpan_def duration_defs

definition isUsageOverviewShortHealthRange :: "string \<Rightarrow> bool" where
  "isUsageOverviewShortHealthRange value \<longleftrightarrow>
     value \<in> {''4h'', ''8h'', ''12h'', ''24h'', ''today''}"

definition usageOverviewHealthGrid :: "usageOverviewFilter \<Rightarrow> nat \<times> nat \<times> duration" where
  "usageOverviewHealthGrid filt =
     (if \<not> isUsageOverviewShortHealthRange (uo_Range filt)
      then (usageOverviewHealthRows, usageOverviewHealthDefaultColumns, usageOverviewHealthDefaultSpan)
      else if uo_Range filt = ''24h'' then (8, 60, 3 * minute)
      else (usageOverviewHealthRows, usageOverviewHealthDefaultColumns, usageOverviewHealthPresetSpan))"

definition usageOverviewHealthWindow ::
  "instant \<Rightarrow> usageOverviewFilter \<Rightarrow> nat \<Rightarrow> duration \<Rightarrow> instant \<times> instant" where
  "usageOverviewHealthWindow now filt totalBlocks width =
     (let end = (case us_EndTime filt of None \<Rightarrow> now | Some t \<Rightarrow> t)
      in if isUsageOverviewShortHealthRange (uo_Range filt) then (end - usageOverviewHealthPresetWindow, end)
         else (let windowEnd = truncateTo width end + width
               in (windowEnd - int totalBlocks * width, windowEnd)))"

definition healthBlockAt :: "instant \<Rightarrow> duration \<Rightarrow> nat \<Rightarrow> healthBlock" where
  "healthBlockAt windowStart width index =
     (let startTime = windowStart + int index * width
      in \<lparr>hb_StartTime = startTime, hb_EndTime = startTime + width, hb_Success = 0, hb_Failure = 0, hb_Rate = -1\<rparr>)"

definition buildUsageOverviewHealth :: "instant \<Rightarrow> usageOverviewFilter \<Rightarrow> usageHealth" where
  "buildUsageOverviewHealth now filt =
     (let (rows, columns, width) = usageOverviewHealthGrid filt;
          totalBlocks = rows * columns;
          (windowStart, windowEnd) = usageOverviewHealthWindow now filt totalBlocks width
      in \<lparr>uh_TotalSuccess = 0, uh_TotalFailure = 0, uh_SuccessRate = 0, uh_Rows = rows, uh_Columns = columns,
          uh_BucketSeconds = (width + second - 1) div second, uh_WindowStart = windowStart, uh_WindowEnd = windowEnd,
          uh_BlockDetails = map (healthBlockAt windowStart width) [0..<totalBlocks]\<rparr>)"

section \<open>In memory\<close>

definition ratio :: "i64 \<Rightarrow> i64 \<Rightarrow> float64" where
  "ratio success counted = of_int (sint success) / of_int (sint counted)"

definition countBlock :: "usageEvent \<Rightarrow> healthBlock \<Rightarrow> healthBlock" where
  "countBlock e b =
     (let b = (if ev_Failed e then b\<lparr>hb_Failure := hb_Failure b + 1\<rparr> else b\<lparr>hb_Success := hb_Success b + 1\<rparr>);
          counted = hb_Success b + hb_Failure b
      in if 0 <s counted then b\<lparr>hb_Rate := ratio (hb_Success b) counted\<rparr> else b)"

fun updateUsageOverviewHealthBlock :: "healthBlock list \<Rightarrow> usageEvent \<Rightarrow> healthBlock list" where
  "updateUsageOverviewHealthBlock [] e = []"
| "updateUsageOverviewHealthBlock (b # blocks) e =
     (if ev_Timestamp e < hb_StartTime b \<or> \<not> ev_Timestamp e < hb_EndTime b
      then b # updateUsageOverviewHealthBlock blocks e
      else countBlock e b # blocks)"

definition countHealth :: "usageEvent \<Rightarrow> usageHealth \<Rightarrow> usageHealth" where
  "countHealth e h =
     (let h = (if ev_Failed e then h\<lparr>uh_TotalFailure := uh_TotalFailure h + 1\<rparr>
               else h\<lparr>uh_TotalSuccess := uh_TotalSuccess h + 1\<rparr>)
      in h\<lparr>uh_BlockDetails := updateUsageOverviewHealthBlock (uh_BlockDetails h) e\<rparr>)"

definition finalizeHealth :: "usageHealth \<Rightarrow> usageHealth" where
  "finalizeHealth h =
     (let counted = uh_TotalSuccess h + uh_TotalFailure h
      in if 0 <s counted then h\<lparr>uh_SuccessRate := ratio (uh_TotalSuccess h) counted * 100\<rparr> else h)"

definition overviewHealth :: "instant \<Rightarrow> usageOverviewFilter \<Rightarrow> usageEvent list \<Rightarrow> usageHealth" where
  "overviewHealth now filt events = finalizeHealth (fold countHealth events (buildUsageOverviewHealth now filt))"

section \<open>In SQL\<close>

definition applyUsageOverviewQuery :: "('a usageTimeScope_scheme) \<Rightarrow> usageEvent \<Rightarrow> bool" where
  "applyUsageOverviewQuery scope e \<longleftrightarrow> applyUsageQueryWindow scope (ev_Timestamp e) \<and>
     (let provider = trimSpace (us_Provider scope) in provider = [] \<or> sqlTrim (ev_Provider e) = provider)"

definition healthCounts :: "usageEvent list \<Rightarrow> i64 \<times> i64" where
  "healthCounts events =
     (sum_list (map (\<lambda>e. if ev_Failed e then 0 else 1) events), sum_list (map (\<lambda>e. if ev_Failed e then 1 else 0) events))"

text \<open>\<open>unixepoch\<close> is the second of an instant; the quotient of integers is truncated.\<close>

definition healthBucketIndex :: "usageHealth \<Rightarrow> usageEvent \<Rightarrow> int" where
  "healthBucketIndex h e =
     (ev_Timestamp e div second - uh_WindowStart h div second) sdiv uh_BucketSeconds h"

definition healthBucketRows :: "usageHealth \<Rightarrow> usageEvent list \<Rightarrow> (int \<times> i64 \<times> i64) list" where
  "healthBucketRows h events =
     (let inside = filter (\<lambda>e. uh_WindowStart h \<le> ev_Timestamp e \<and> ev_Timestamp e < uh_WindowEnd h) events
      in map (\<lambda>k. (k, healthCounts (filter (\<lambda>e. healthBucketIndex h e = k) inside)))
           (remdups (map (healthBucketIndex h) inside)))"

definition fillBlock :: "int \<times> i64 \<times> i64 \<Rightarrow> healthBlock list \<Rightarrow> healthBlock list" where
  "fillBlock = (\<lambda>(index, success, failure) blocks.
     if index < 0 \<or> int (length blocks) \<le> index then blocks
     else (let block = (blocks ! nat index)\<lparr>hb_Success := success, hb_Failure := failure\<rparr>;
               counted = success + failure
           in blocks[nat index := (if 0 <s counted then block\<lparr>hb_Rate := ratio success counted\<rparr> else block)]))"

definition buildUsageRequestHealth :: "instant \<Rightarrow> usageOverviewFilter \<Rightarrow> usageEvent list \<Rightarrow> usageHealth" where
  "buildUsageRequestHealth now filt stored =
     (let events = filter (applyUsageOverviewQuery filt) stored;
          h = buildUsageOverviewHealth now filt;
          (success, failure) = healthCounts events;
          h = finalizeHealth (h\<lparr>uh_TotalSuccess := success, uh_TotalFailure := failure\<rparr>)
      in if length (uh_BlockDetails h) = 0 then h
         else h\<lparr>uh_BlockDetails := fold fillBlock (healthBucketRows h events) (uh_BlockDetails h)\<rparr>)"

section \<open>Counting in a block\<close>

abbreviation inBlock :: "healthBlock \<Rightarrow> usageEvent \<Rightarrow> bool" where
  "inBlock b e \<equiv> hb_StartTime b \<le> ev_Timestamp e \<and> ev_Timestamp e < hb_EndTime b"

lemma countBlock_window [simp]:
  "hb_StartTime (countBlock e b) = hb_StartTime b" "hb_EndTime (countBlock e b) = hb_EndTime b"
  by (simp_all add: countBlock_def Let_def)

lemma list_update_map:
  assumes "sorted_wrt (\<lambda>a b. hb_EndTime a \<le> hb_StartTime b) blocks" "\<forall>b \<in> set blocks. hb_StartTime b \<le> hb_EndTime b"
  shows "updateUsageOverviewHealthBlock blocks e = map (\<lambda>b. if inBlock b e then countBlock e b else b) blocks"
  using assms
proof (induction blocks)
  case (Cons b blocks)
  show ?case
  proof (cases "inBlock b e")
    case True
    then have "\<not> inBlock x e" if "x \<in> set blocks" for x using Cons.prems that by fastforce
    then have "map (\<lambda>b. if inBlock b e then countBlock e b else b) blocks = blocks"
      by (intro map_idI) auto
    with True show ?thesis by simp
  next
    case False
    with Cons show ?thesis by auto
  qed
qed simp

definition countIn :: "usageEvent list \<Rightarrow> healthBlock \<Rightarrow> healthBlock" where
  "countIn events b = fold countBlock (filter (inBlock b) events) b"

lemma fold_countBlock_window [simp]:
  "hb_StartTime (fold countBlock es b) = hb_StartTime b" "hb_EndTime (fold countBlock es b) = hb_EndTime b"
  by (induction es arbitrary: b) simp_all

lemma fold_update:
  assumes "sorted_wrt (\<lambda>a b. hb_EndTime a \<le> hb_StartTime b) blocks" "\<forall>b \<in> set blocks. hb_StartTime b \<le> hb_EndTime b"
  shows "fold (\<lambda>e bs. updateUsageOverviewHealthBlock bs e) events blocks = map (countIn events) blocks"
  using assms
proof (induction events arbitrary: blocks)
  case Nil
  show ?case by (simp add: countIn_def map_idI)
next
  case (Cons e events)
  let ?step = "\<lambda>b. if inBlock b e then countBlock e b else b"
  have win: "hb_StartTime (?step b) = hb_StartTime b" "hb_EndTime (?step b) = hb_EndTime b" for b by auto
  have "sorted_wrt (\<lambda>a b. hb_EndTime a \<le> hb_StartTime b) (map ?step blocks)"
    using Cons.prems(1) unfolding sorted_wrt_map win .
  moreover have "\<forall>b \<in> set (map ?step blocks). hb_StartTime b \<le> hb_EndTime b" using Cons.prems(2) by auto
  ultimately have "fold (\<lambda>e bs. updateUsageOverviewHealthBlock bs e) events (map ?step blocks) =
      map (countIn events) (map ?step blocks)" by (rule Cons.IH)
  moreover have "countIn events (?step b) = countIn (e # events) b" for b
    by (auto simp: countIn_def)
  ultimately show ?case by (simp add: list_update_map [OF Cons.prems])
qed

text \<open>The counters and the rate of a block after its events, while they fit an \<open>int64\<close>.\<close>

definition blockOf :: "healthBlock \<Rightarrow> nat \<Rightarrow> nat \<Rightarrow> healthBlock" where
  "blockOf b succ fail = b\<lparr>hb_Success := of_nat succ, hb_Failure := of_nat fail,
     hb_Rate := (if succ + fail = 0 then hb_Rate b else of_nat succ / of_nat (succ + fail))\<rparr>"

abbreviation failures :: "usageEvent list \<Rightarrow> nat" where "failures es \<equiv> length (filter ev_Failed es)"
abbreviation successes :: "usageEvent list \<Rightarrow> nat" where "successes es \<equiv> length (filter (\<lambda>e. \<not> ev_Failed e) es)"

lemma of_nat_counted: "n < 2 ^ 63 \<Longrightarrow> sint (of_nat n :: i64) = int n"
  using sint_of_int_i64 [of "int n"] by simp

lemma of_nat_zero: "n < 2 ^ 63 \<Longrightarrow> (of_nat n :: i64) = 0 \<longleftrightarrow> n = 0"
  using of_nat_counted [of n] by (cases "n = 0") auto

lemma ratio_nat: "s + f < 2 ^ 63 \<Longrightarrow> ratio (of_nat s) (of_nat s + of_nat f) = of_nat s / of_nat (s + f)"
  unfolding ratio_def of_nat_add [symmetric] by (simp add: of_nat_counted del: of_nat_add)

lemma positive_nat: "n < 2 ^ 63 \<Longrightarrow> 0 <s (of_nat n :: i64) \<longleftrightarrow> 0 < n"
  by (simp add: word_sless_alt of_nat_counted)

lemma success_failure: "successes es + failures es = length es"
  using sum_length_filter_compl [of ev_Failed es] by simp

lemma countBlock_blockOf:
  assumes "Suc (s + f) < 2 ^ 63"
  shows "countBlock e (blockOf b s f) =
    (if ev_Failed e then blockOf b s (Suc f) else blockOf b (Suc s) f)"
proof (cases "ev_Failed e")
  case True
  have n: "s + Suc f < 2 ^ 63" using assms by simp
  have "0 <s (of_nat s + of_nat (Suc f) :: i64)" unfolding of_nat_add [symmetric] positive_nat [OF n] by simp
  then show ?thesis using True ratio_nat [OF n] by (simp add: countBlock_def blockOf_def Let_def add.commute)
next
  case False
  have n: "Suc s + f < 2 ^ 63" using assms by simp
  have "0 <s (of_nat (Suc s) + of_nat f :: i64)" unfolding of_nat_add [symmetric] positive_nat [OF n] by simp
  then show ?thesis using False ratio_nat [OF n] by (simp add: countBlock_def blockOf_def Let_def add.commute add.left_commute)
qed

lemma fold_countBlock:
  assumes "length es < 2 ^ 63" "hb_Success b = 0" "hb_Failure b = 0"
  shows "fold countBlock es b = blockOf b (successes es) (failures es)"
  using assms(1)
proof (induction es rule: rev_induct)
  case Nil
  show ?case using assms(2,3) by (simp add: blockOf_def)
next
  case (snoc e es)
  have "Suc (successes es + failures es) < 2 ^ 63" unfolding success_failure using snoc.prems by simp
  from countBlock_blockOf [OF this, of e b] snoc show ?case by simp
qed

section \<open>In the two grids\<close>

lemma grid_sorted:
  assumes "0 \<le> width"
  shows "sorted_wrt (\<lambda>a b. hb_EndTime a \<le> hb_StartTime b) (map (healthBlockAt ws width) [0..<n])"
    "\<forall>b \<in> set (map (healthBlockAt ws width) [0..<n]). hb_StartTime b \<le> hb_EndTime b"
proof -
  have "ws + int i * width + width \<le> ws + int j * width" if "i < j" for i j
  proof -
    have "(int i + 1) * width \<le> int j * width" by (rule mult_right_mono) (use that assms in auto)
    then show ?thesis by (simp add: algebra_simps)
  qed
  then show "sorted_wrt (\<lambda>a b. hb_EndTime a \<le> hb_StartTime b) (map (healthBlockAt ws width) [0..<n])"
    by (auto simp: sorted_wrt_iff_nth_less healthBlockAt_def Let_def)
  show "\<forall>b \<in> set (map (healthBlockAt ws width) [0..<n]). hb_StartTime b \<le> hb_EndTime b"
    using assms by (auto simp: healthBlockAt_def Let_def)
qed

lemma fold_countHealth:
  "uh_BlockDetails (fold countHealth es h) = fold (\<lambda>e bs. updateUsageOverviewHealthBlock bs e) es (uh_BlockDetails h) \<and>
   fold countHealth es h = (h\<lparr>uh_TotalSuccess := uh_TotalSuccess h + of_nat (successes es),
     uh_TotalFailure := uh_TotalFailure h + of_nat (failures es),
     uh_BlockDetails := fold (\<lambda>e bs. updateUsageOverviewHealthBlock bs e) es (uh_BlockDetails h)\<rparr>)"
  by (induction es arbitrary: h) (simp_all add: countHealth_def Let_def add.assoc)

lemma healthCounts_nat: "healthCounts es = (of_nat (successes es), of_nat (failures es))"
  by (induction es) (auto simp: healthCounts_def)

lemma block_index:
  assumes "0 < width"
  shows "inBlock (healthBlockAt ws width i) e \<longleftrightarrow> (ev_Timestamp e - ws) div width = int i"
  by (subst div_eq_iff_between [OF assms]) (auto simp: healthBlockAt_def Let_def algebra_simps)

text \<open>What filling a list of rows with distinct indexes leaves in each block.\<close>

lemma fillBlock_length [simp]: "length (fillBlock r blocks) = length blocks"
  by (simp add: fillBlock_def Let_def split: prod.split)

lemma fold_fillBlock_length [simp]: "length (fold fillBlock rows blocks) = length blocks"
  by (induction rows arbitrary: blocks) simp_all

lemma fillBlock_nth:
  "i < length blocks \<Longrightarrow> fillBlock (k, s, f) blocks ! i =
     (if k = int i then (if 0 <s s + f then (blocks ! i)\<lparr>hb_Success := s, hb_Failure := f, hb_Rate := ratio s (s + f)\<rparr>
        else (blocks ! i)\<lparr>hb_Success := s, hb_Failure := f\<rparr>) else blocks ! i)"
  by (auto simp: fillBlock_def Let_def)

lemma fold_fillBlock_other:
  "i < length blocks \<Longrightarrow> int i \<notin> fst ` set rows \<Longrightarrow> fold fillBlock rows blocks ! i = blocks ! i"
proof (induction rows arbitrary: blocks)
  case (Cons r rows)
  then show ?case by (cases r) (auto simp: fillBlock_nth)
qed simp

lemma fold_fillBlock_nth:
  assumes "i < length blocks" "distinct (map fst rows)" "(int i, s, f) \<in> set rows"
  shows "fold fillBlock rows blocks ! i = fillBlock (int i, s, f) blocks ! i"
  using assms
proof (induction rows arbitrary: blocks)
  case (Cons r rows)
  obtain k s' f' where r: "r = (k, s', f')" by (cases r)
  show ?case
  proof (cases "k = int i")
    case True
    with Cons.prems r have "int i \<notin> fst ` set rows" "(s, f) = (s', f')" by force+
    with True Cons.prems(1) r show ?thesis by (simp add: fold_fillBlock_other)
  next
    case False
    with Cons r have "fold fillBlock rows (fillBlock r blocks) ! i = fillBlock (int i, s, f) (fillBlock r blocks) ! i" by auto
    with False Cons.prems(1) r show ?thesis by (simp add: fillBlock_nth)
  qed
qed simp

section \<open>The grids agree on whole seconds\<close>

definition healthEnd :: "instant \<Rightarrow> usageOverviewFilter \<Rightarrow> instant" where
  "healthEnd now filt = (case us_EndTime filt of None \<Rightarrow> now | Some t \<Rightarrow> t)"

definition wholeSecondGrid :: "instant \<Rightarrow> usageOverviewFilter \<Rightarrow> bool" where
  "wholeSecondGrid now filt \<longleftrightarrow> \<not> isUsageOverviewShortHealthRange (uo_Range filt) \<or>
     uo_Range filt = ''24h'' \<and> second dvd healthEnd now filt"

definition gridOf :: "usageHealth \<Rightarrow> instant \<Rightarrow> duration \<Rightarrow> nat \<Rightarrow> bool" where
  "gridOf h ws width n \<longleftrightarrow> uh_TotalSuccess h = 0 \<and> uh_TotalFailure h = 0 \<and> uh_WindowStart h = ws \<and>
     uh_WindowEnd h = ws + int n * width \<and> uh_BlockDetails h = map (healthBlockAt ws width) [0..<n] \<and> 0 < n \<and>
     0 < width \<and> width = second * uh_BucketSeconds h \<and> second dvd ws"

lemma truncate_minutes_aligned: "second dvd truncateTo (15 * minute) t"
proof -
  have "truncateTo (15 * minute) t = zero_time + (15 * minute) * ((t - zero_time) div (15 * minute))"
    by (simp add: truncateTo_def minute_def minus_mod_eq_mult_div [symmetric])
  moreover have "second dvd zero_time" "second dvd 15 * minute" by (simp_all add: zero_time_def duration_defs)
  ultimately show ?thesis by (metis dvd_add dvd_mult2)
qed

lemma wholeSecond_grid:
  assumes "wholeSecondGrid now filt"
  shows "\<exists>ws width n. gridOf (buildUsageOverviewHealth now filt) ws width n"
proof (cases "isUsageOverviewShortHealthRange (uo_Range filt)")
  case True
  with assms have r: "uo_Range filt = ''24h''" "second dvd healthEnd now filt" by (simp_all add: wholeSecondGrid_def)
  have "second dvd healthEnd now filt - 24 * hour" by (rule dvd_diff [OF r(2)]) (simp add: duration_defs)
  then have "gridOf (buildUsageOverviewHealth now filt) (healthEnd now filt - 24 * hour) (3 * minute) 480"
    using r(1) by (simp add: gridOf_def buildUsageOverviewHealth_def usageOverviewHealthGrid_def usageOverviewHealthWindow_def
        isUsageOverviewShortHealthRange_def healthEnd_def Let_def health_consts split: option.splits)
  then show ?thesis by blast
next
  case False
  let ?ws = "truncateTo (15 * minute) (healthEnd now filt) + 15 * minute - 672 * (15 * minute)"
  have "second dvd ?ws"
    by (intro dvd_diff dvd_add truncate_minutes_aligned) (simp_all add: duration_defs)
  then have "gridOf (buildUsageOverviewHealth now filt) ?ws (15 * minute) 672"
    using False by (simp add: gridOf_def buildUsageOverviewHealth_def usageOverviewHealthGrid_def usageOverviewHealthWindow_def
        healthEnd_def Let_def health_consts split: option.splits)
  then show ?thesis by blast
qed

lemma bucketIndex_block:
  assumes grid: "gridOf h ws width n" and i: "i < n"
  shows "uh_WindowStart h \<le> ev_Timestamp e \<and> ev_Timestamp e < uh_WindowEnd h \<and> healthBucketIndex h e = int i \<longleftrightarrow>
    inBlock (healthBlockAt ws width i) e"
proof -
  let ?t = "ev_Timestamp e" and ?k = "uh_BucketSeconds h"
  note g = grid [unfolded gridOf_def]
  have k: "0 < ?k" using g by (simp add: zero_less_mult_iff second_def)
  obtain w where w: "ws = second * w" using g by (auto elim: dvdE)
  have "(?t - ws) div width = (?t div second - ws div second) div ?k"
  proof -
    have "(?t - ws) div width = (?t - second * w) div second div ?k"
      using g k unfolding w by (simp add: zdiv_zmult2_eq)
    also have "(?t - second * w) div second = ?t div second - w" using div_mult_self2 [of second ?t "- w"] by simp
    finally show ?thesis unfolding w by simp
  qed
  moreover have "0 \<le> ?t div second - ws div second" if "ws \<le> ?t" using that by (simp add: zdiv_mono1)
  ultimately have idx: "healthBucketIndex h e = (?t - ws) div width" if "ws \<le> ?t"
    using that g k by (simp add: healthBucketIndex_def signed_divide_int_def sgn_if)
  have "0 < width" using g by simp
  then have blk: "inBlock (healthBlockAt ws width i) e \<longleftrightarrow> (?t - ws) div width = int i" by (rule block_index)
  have inside: "ws \<le> ?t \<and> ?t < ws + int n * width" if "inBlock (healthBlockAt ws width i) e"
  proof -
    have "int i * width + width \<le> int n * width"
      using mult_right_mono [of "int i + 1" "int n" width] i \<open>0 < width\<close> by (simp add: algebra_simps)
    moreover have "0 \<le> int i * width" using \<open>0 < width\<close> by simp
    moreover have "ws + int i * width \<le> ?t" "?t < ws + int i * width + width"
      using that by (simp_all add: healthBlockAt_def Let_def)
    ultimately show ?thesis by linarith
  qed
  show ?thesis
  proof
    assume "uh_WindowStart h \<le> ?t \<and> ?t < uh_WindowEnd h \<and> healthBucketIndex h e = int i"
    then show "inBlock (healthBlockAt ws width i) e" using g idx blk by simp
  next
    assume b: "inBlock (healthBlockAt ws width i) e"
    with inside idx blk g show "uh_WindowStart h \<le> ?t \<and> ?t < uh_WindowEnd h \<and> healthBucketIndex h e = int i" by simp
  qed
qed

lemma healthBucketRows_frame [simp]:
  "healthBucketRows (h\<lparr>uh_TotalSuccess := s\<rparr>) = healthBucketRows h"
  "healthBucketRows (h\<lparr>uh_TotalFailure := s\<rparr>) = healthBucketRows h"
  "healthBucketRows (h\<lparr>uh_SuccessRate := r\<rparr>) = healthBucketRows h"
  by (simp_all add: healthBucketRows_def [abs_def] healthBucketIndex_def [abs_def])

lemma bucketRows_distinct: "distinct (map fst (healthBucketRows h events))"
  by (simp add: healthBucketRows_def Let_def o_def)

lemma bucketRows_mem:
  fixes events :: "usageEvent list"
  assumes "gridOf h ws width n" "i < n"
  defines "inside \<equiv> filter (inBlock (healthBlockAt ws width i)) events"
  shows "int i \<in> fst ` set (healthBucketRows h events) \<longleftrightarrow> inside \<noteq> []"
    and "inside \<noteq> [] \<Longrightarrow> (int i, healthCounts inside) \<in> set (healthBucketRows h events)"
proof -
  let ?all = "filter (\<lambda>e. uh_WindowStart h \<le> ev_Timestamp e \<and> ev_Timestamp e < uh_WindowEnd h) events"
  have same: "filter (\<lambda>e. healthBucketIndex h e = int i) ?all = inside"
    unfolding inside_def filter_filter using bucketIndex_block [OF assms(1,2)] by (intro filter_cong) auto
  have "int i \<in> set (map (healthBucketIndex h) ?all) \<longleftrightarrow> filter (\<lambda>e. healthBucketIndex h e = int i) ?all \<noteq> []"
    by (auto simp: filter_empty_conv intro: rev_image_eqI)
  then have mem: "int i \<in> set (map (healthBucketIndex h) ?all) \<longleftrightarrow> inside \<noteq> []" unfolding same .
  then show "int i \<in> fst ` set (healthBucketRows h events) \<longleftrightarrow> inside \<noteq> []"
    by (simp add: healthBucketRows_def Let_def image_image)
  show "(int i, healthCounts inside) \<in> set (healthBucketRows h events)" if "inside \<noteq> []"
    using mem that same unfolding healthBucketRows_def Let_def set_map set_remdups
    by (intro image_eqI [of _ _ "int i"]) simp_all
qed

lemma filled_grid:
  assumes grid: "gridOf h ws width n" and small: "length events < 2 ^ 63"
  shows "fold fillBlock (healthBucketRows h events) (uh_BlockDetails h) = map (countIn events) (uh_BlockDetails h)"
proof (rule nth_equalityI)
  fix i assume "i < length (fold fillBlock (healthBucketRows h events) (uh_BlockDetails h))"
  then have i: "i < n" "i < length (uh_BlockDetails h)" using grid by (simp_all add: gridOf_def)
  let ?b = "healthBlockAt ws width i"
  let ?in = "filter (inBlock ?b) events"
  have b: "uh_BlockDetails h ! i = ?b" using grid i(1) by (simp add: gridOf_def)
  have zero: "hb_Success ?b = 0" "hb_Failure ?b = 0" by (simp_all add: healthBlockAt_def Let_def)
  have len: "length ?in < 2 ^ 63" using small length_filter_le [of "inBlock ?b" events] by linarith
  have counted: "countIn events ?b = blockOf ?b (successes ?in) (failures ?in)"
    unfolding countIn_def by (rule fold_countBlock [OF len zero])
  have "fold fillBlock (healthBucketRows h events) (uh_BlockDetails h) ! i = blockOf ?b (successes ?in) (failures ?in)"
  proof (cases "?in = []")
    case True
    then have "int i \<notin> fst ` set (healthBucketRows h events)" using bucketRows_mem(1) [OF grid i(1)] by simp
    then have "fold fillBlock (healthBucketRows h events) (uh_BlockDetails h) ! i = ?b"
      using fold_fillBlock_other [OF i(2)] b by simp
    moreover have "blockOf ?b (successes ?in) (failures ?in) = ?b" using True zero by (simp add: blockOf_def)
    ultimately show ?thesis by simp
  next
    case False
    obtain S F where sf: "successes ?in = S" "failures ?in = F" by blast
    have n: "S + F < 2 ^ 63" unfolding sf [symmetric] success_failure by (rule len)
    have pos: "0 < S + F" unfolding sf [symmetric] success_failure using False by simp
    have "(int i, healthCounts ?in) \<in> set (healthBucketRows h events)"
      by (rule bucketRows_mem(2) [OF grid i(1) False])
    then have "fold fillBlock (healthBucketRows h events) (uh_BlockDetails h) ! i =
        fillBlock (int i, of_nat S, of_nat F) (uh_BlockDetails h) ! i"
      unfolding healthCounts_nat sf by (rule fold_fillBlock_nth [OF i(2) bucketRows_distinct])
    moreover have "0 <s (of_nat S + of_nat F :: i64)"
      unfolding of_nat_add [symmetric] positive_nat [OF n] by (rule pos)
    ultimately show ?thesis
      unfolding fillBlock_nth [OF i(2)] b sf using ratio_nat [OF n] pos by (auto simp: blockOf_def)
  qed
  then show "fold fillBlock (healthBucketRows h events) (uh_BlockDetails h) ! i = map (countIn events) (uh_BlockDetails h) ! i"
    using i(2) b counted by simp
qed simp

text \<open>The totals do not depend on the grid.\<close>

lemma requestHealth_totals:
  fixes filt :: usageOverviewFilter and stored :: "usageEvent list"
  defines "es \<equiv> filter (applyUsageOverviewQuery filt) stored"
  shows "uh_TotalSuccess (buildUsageRequestHealth now filt stored) = of_nat (successes es)"
    "uh_TotalFailure (buildUsageRequestHealth now filt stored) = of_nat (failures es)"
    "uh_SuccessRate (buildUsageRequestHealth now filt stored) = uh_SuccessRate (overviewHealth now filt es)"
    "uh_TotalSuccess (overviewHealth now filt es) = of_nat (successes es)"
    "uh_TotalFailure (overviewHealth now filt es) = of_nat (failures es)"
proof -
  have zero: "uh_TotalSuccess (buildUsageOverviewHealth now filt) = 0"
      "uh_TotalFailure (buildUsageOverviewHealth now filt) = 0"
      "uh_SuccessRate (buildUsageOverviewHealth now filt) = 0"
    by (simp_all add: buildUsageOverviewHealth_def Let_def case_prod_beta)
  have counts: "uh_TotalSuccess (fold countHealth es (buildUsageOverviewHealth now filt)) = of_nat (successes es)"
      "uh_TotalFailure (fold countHealth es (buildUsageOverviewHealth now filt)) = of_nat (failures es)"
      "uh_SuccessRate (fold countHealth es (buildUsageOverviewHealth now filt)) = 0"
    by (subst conjunct2 [OF fold_countHealth], simp add: zero)+
  show "uh_TotalSuccess (overviewHealth now filt es) = of_nat (successes es)"
    "uh_TotalFailure (overviewHealth now filt es) = of_nat (failures es)"
    by (simp_all add: overviewHealth_def counts finalizeHealth_def Let_def)
  show "uh_TotalSuccess (buildUsageRequestHealth now filt stored) = of_nat (successes es)"
    "uh_TotalFailure (buildUsageRequestHealth now filt stored) = of_nat (failures es)"
    "uh_SuccessRate (buildUsageRequestHealth now filt stored) = uh_SuccessRate (overviewHealth now filt es)"
    by (simp_all add: buildUsageRequestHealth_def healthCounts_nat overviewHealth_def counts zero finalizeHealth_def
        es_def [symmetric] Let_def del: filter_filter)
qed

lemma requestHealth_blocks:
  assumes aligned: "wholeSecondGrid now filt" and small: "length stored < 2 ^ 63"
  shows "buildUsageRequestHealth now filt stored = overviewHealth now filt (filter (applyUsageOverviewQuery filt) stored)"
proof -
  let ?h = "buildUsageOverviewHealth now filt" and ?es = "filter (applyUsageOverviewQuery filt) stored"
  obtain ws width n where grid: "gridOf ?h ws width n" using wholeSecond_grid [OF aligned] by blast
  have len: "length ?es < 2 ^ 63" using small length_filter_le [of "applyUsageOverviewQuery filt" stored] by linarith
  have blocks: "uh_BlockDetails ?h = map (healthBlockAt ws width) [0..<n]" and "0 < width" "0 < n"
    and zero: "uh_TotalSuccess ?h = 0" "uh_TotalFailure ?h = 0" using grid by (simp_all add: gridOf_def)
  have mem: "fold (\<lambda>e bs. updateUsageOverviewHealthBlock bs e) ?es (uh_BlockDetails ?h) = map (countIn ?es) (uh_BlockDetails ?h)"
    unfolding blocks by (rule fold_update) (use grid_sorted [of width] \<open>0 < width\<close> in auto)
  have sql: "fold fillBlock (healthBucketRows ?h ?es) (uh_BlockDetails ?h) = map (countIn ?es) (uh_BlockDetails ?h)"
    by (rule filled_grid [OF grid len])
  let ?f = "finalizeHealth (?h\<lparr>uh_TotalSuccess := of_nat (successes ?es), uh_TotalFailure := of_nat (failures ?es)\<rparr>)"
  have f: "uh_BlockDetails ?f = uh_BlockDetails ?h" "healthBucketRows ?f ?es = healthBucketRows ?h ?es"
    by (simp_all add: finalizeHealth_def Let_def)
  have nonempty: "uh_BlockDetails ?h \<noteq> []" unfolding blocks using \<open>0 < n\<close> by simp
  have "buildUsageRequestHealth now filt stored = ?f\<lparr>uh_BlockDetails := map (countIn ?es) (uh_BlockDetails ?h)\<rparr>"
    using nonempty by (simp only: buildUsageRequestHealth_def healthCounts_nat Let_def case_prod_conv f sql length_0_conv if_False)
  moreover have "overviewHealth now filt ?es =
      finalizeHealth (?h\<lparr>uh_TotalSuccess := of_nat (successes ?es), uh_TotalFailure := of_nat (failures ?es),
        uh_BlockDetails := map (countIn ?es) (uh_BlockDetails ?h)\<rparr>)"
    unfolding overviewHealth_def using fold_countHealth [of ?es ?h] mem zero by simp
  moreover have "finalizeHealth (g\<lparr>uh_BlockDetails := bs\<rparr>) = finalizeHealth g\<lparr>uh_BlockDetails := bs\<rparr>" for g bs
    by (simp add: finalizeHealth_def Let_def)
  ultimately show ?thesis by simp
qed

text \<open>
  C33. The SQL aggregates of the request-health endpoint against the record the overview counts in memory
  from the same events. For every range and every end the totals and the success rate are the same.
  The blocks, and so the whole record, are the same where the grid begins on a whole second and its blocks
  last whole seconds: on every range but 4h, 8h, 12h, 24h and \<open>today\<close>, whatever the end, and on 24h
  when its end is a whole second (not when it lies between two seconds, as a reading of the clock does).
\<close>
theorem request_health_exact:
  assumes small: "length stored < 2 ^ 63"
  shows "uh_TotalSuccess (buildUsageRequestHealth now filt stored) =
      uh_TotalSuccess (overviewHealth now filt (filter (applyUsageOverviewQuery filt) stored)) \<and>
    uh_TotalFailure (buildUsageRequestHealth now filt stored) =
      uh_TotalFailure (overviewHealth now filt (filter (applyUsageOverviewQuery filt) stored)) \<and>
    uh_SuccessRate (buildUsageRequestHealth now filt stored) =
      uh_SuccessRate (overviewHealth now filt (filter (applyUsageOverviewQuery filt) stored)) \<and>
    (\<not> isUsageOverviewShortHealthRange (uo_Range filt) \<or>
     uo_Range filt = ''24h'' \<and> second dvd healthEnd now filt \<longrightarrow>
       buildUsageRequestHealth now filt stored =
         overviewHealth now filt (filter (applyUsageOverviewQuery filt) stored))"
  using requestHealth_totals requestHealth_blocks [OF _ small] by (auto simp: wholeSecondGrid_def)

definition dayFilter :: "string \<Rightarrow> usageOverviewFilter" where
  "dayFilter r = \<lparr>us_StartTime = Some 0, us_EndTime = Some (24 * hour), us_Provider = [], uo_Range = r\<rparr>"

definition lateEvent :: usageEvent where
  "lateEvent = sampleEvent\<lparr>ev_Timestamp := 24 * hour - second\<rparr>"

lemma lateEvent_selected: "applyUsageOverviewQuery (dayFilter r) lateEvent"
  by (simp add: applyUsageOverviewQuery_def applyUsageQueryWindow_def dayFilter_def lateEvent_def duration_defs)

theorem request_health_exact_witness:
  "buildUsageRequestHealth 0 (dayFilter ''24h'') [lateEvent] = overviewHealth 0 (dayFilter ''24h'') [lateEvent] \<and>
   uh_TotalSuccess (buildUsageRequestHealth 0 (dayFilter ''24h'') [lateEvent]) +
     uh_TotalFailure (buildUsageRequestHealth 0 (dayFilter ''24h'') [lateEvent]) = 1"
proof -
  have "second dvd healthEnd 0 (dayFilter ''24h'')" "uo_Range (dayFilter ''24h'') = ''24h''"
    by (simp_all add: dayFilter_def healthEnd_def duration_defs)
  moreover have "filter (applyUsageOverviewQuery (dayFilter ''24h'')) [lateEvent] = [lateEvent]"
    by (simp add: lateEvent_selected)
  moreover have "ev_Failed lateEvent = ev_Failed sampleEvent" by (simp add: lateEvent_def)
  ultimately show ?thesis
    using request_health_exact [of "[lateEvent]" 0 "dayFilter ''24h''"]
      requestHealth_totals(1,2) [of 0 "dayFilter ''24h''" "[lateEvent]"]
    by (cases "ev_Failed sampleEvent") simp_all
qed

section \<open>The grids differ on the presets\<close>

lemma preset_width: "usageOverviewHealthPresetSpan = 128571428572"
  by (simp add: health_consts)

lemma preset_grid:
  assumes "uo_Range filt \<in> {''4h'', ''8h'', ''12h'', ''today''}"
  shows "uh_WindowStart (buildUsageOverviewHealth now filt) = healthEnd now filt - 24 * hour"
    "uh_WindowEnd (buildUsageOverviewHealth now filt) = healthEnd now filt"
    "uh_BucketSeconds (buildUsageOverviewHealth now filt) = 129"
    "uh_BlockDetails (buildUsageOverviewHealth now filt) =
      map (healthBlockAt (healthEnd now filt - 24 * hour) 128571428572) [0..<672]"
  using assms
  by (auto simp: buildUsageOverviewHealth_def usageOverviewHealthGrid_def usageOverviewHealthWindow_def
      isUsageOverviewShortHealthRange_def healthEnd_def Let_def health_consts)

lemma preset_index:
  assumes "uo_Range filt \<in> {''4h'', ''8h'', ''12h'', ''today''}"
    and "(k, c) \<in> set (healthBucketRows (buildUsageOverviewHealth now filt) events)"
  shows "k \<le> 669"
proof -
  let ?h = "buildUsageOverviewHealth now filt"
  from assms(2) obtain e where e: "k = healthBucketIndex ?h e"
    "uh_WindowStart ?h \<le> ev_Timestamp e" "ev_Timestamp e < uh_WindowEnd ?h"
    by (auto simp: healthBucketRows_def Let_def)
  define d where "d = ev_Timestamp e div second - (healthEnd now filt - 24 * hour) div second"
  have k: "k = d sdiv 129" unfolding e(1) healthBucketIndex_def preset_grid(1,3) [OF assms(1)] d_def ..
  have "(healthEnd now filt - 24 * hour) div second = healthEnd now filt div second - 86400"
    using div_mult_self2 [of second "healthEnd now filt" "- 86400"] by (simp add: duration_defs)
  moreover have "ev_Timestamp e div second \<le> healthEnd now filt div second"
    using e(3) preset_grid(2) [OF assms(1)] by (intro zdiv_mono1) simp_all
  moreover have "(healthEnd now filt - 24 * hour) div second \<le> ev_Timestamp e div second"
    using e(2) preset_grid(1) [OF assms(1)] by (intro zdiv_mono1) simp_all
  ultimately have "0 \<le> d" "d \<le> 86400" unfolding d_def by linarith+
  moreover from this have "k = d div 129" unfolding k by (simp add: signed_divide_int_def sgn_if)
  ultimately show ?thesis by (simp add: zdiv_mono1 [of d 86400 129, simplified])
qed

text \<open>
  C34. For the presets below a day and \<open>today\<close> the request-health endpoint is wrong about the end of the window: its
  buckets are rounded up to 129 seconds while the blocks it reports last 128.57, so the last two of the 672
  blocks are always reported empty, whatever the store holds; a request in the last 128 seconds of the
  window is in the last block of the overview's own count.
\<close>
theorem request_health_loses_end:
  assumes range: "uo_Range filt \<in> {''4h'', ''8h'', ''12h'', ''today''}" and i: "i \<in> {670, 671}"
  shows "length (uh_BlockDetails (buildUsageRequestHealth now filt stored)) = 672 \<and>
    hb_Success (uh_BlockDetails (buildUsageRequestHealth now filt stored) ! i) = 0 \<and>
    hb_Failure (uh_BlockDetails (buildUsageRequestHealth now filt stored) ! i) = 0 \<and>
    (healthEnd now filt - 128 * second \<le> ev_Timestamp e \<and> ev_Timestamp e < healthEnd now filt \<longrightarrow>
       hb_Success (uh_BlockDetails (overviewHealth now filt [e]) ! 671) +
       hb_Failure (uh_BlockDetails (overviewHealth now filt [e]) ! 671) = 1)"
proof -
  let ?h = "buildUsageOverviewHealth now filt"
  let ?blocks = "map (healthBlockAt (healthEnd now filt - 24 * hour) 128571428572) [0..<672]"
  have blocks: "uh_BlockDetails ?h = ?blocks" by (rule preset_grid(4) [OF range])
  have sql: "\<exists>es. uh_BlockDetails (buildUsageRequestHealth now filt stored) = fold fillBlock (healthBucketRows ?h es) ?blocks"
    using blocks by (auto simp: buildUsageRequestHealth_def healthCounts_nat finalizeHealth_def Let_def)
  then obtain es where es: "uh_BlockDetails (buildUsageRequestHealth now filt stored) = fold fillBlock (healthBucketRows ?h es) ?blocks" ..
  have "int i \<notin> fst ` set (healthBucketRows ?h es)" using preset_index [OF range] i by fastforce
  then have "uh_BlockDetails (buildUsageRequestHealth now filt stored) ! i = ?blocks ! i"
    unfolding es using i by (intro fold_fillBlock_other) auto
  moreover have "?blocks ! i = healthBlockAt (healthEnd now filt - 24 * hour) 128571428572 i" using i by auto
  moreover have "hb_Success (uh_BlockDetails (overviewHealth now filt [e]) ! 671) +
      hb_Failure (uh_BlockDetails (overviewHealth now filt [e]) ! 671) = 1"
    if e: "healthEnd now filt - 128 * second \<le> ev_Timestamp e" "ev_Timestamp e < healthEnd now filt"
  proof -
    let ?b = "healthBlockAt (healthEnd now filt - 24 * hour) 128571428572 671"
    have "uh_BlockDetails (overviewHealth now filt [e]) = updateUsageOverviewHealthBlock ?blocks e"
      using blocks by (simp add: overviewHealth_def finalizeHealth_def countHealth_def Let_def)
    also have "\<dots> = map (\<lambda>b. if inBlock b e then countBlock e b else b) ?blocks"
      by (rule list_update_map) (use grid_sorted [of 128571428572] in auto)
    finally have "uh_BlockDetails (overviewHealth now filt [e]) ! 671 = (if inBlock ?b e then countBlock e ?b else ?b)"
      by simp
    moreover have "inBlock ?b e" using e by (simp add: healthBlockAt_def Let_def duration_defs)
    ultimately show ?thesis by (simp add: countBlock_def healthBlockAt_def Let_def)
  qed
  moreover have "length (uh_BlockDetails (buildUsageRequestHealth now filt stored)) = 672" unfolding es by simp
  ultimately show ?thesis by (simp add: healthBlockAt_def Let_def)
qed

theorem request_health_loses_end_witness:
  "hb_Success (uh_BlockDetails (buildUsageRequestHealth 0 (dayFilter ''4h'') [lateEvent]) ! 671) = 0 \<and>
   hb_Success (uh_BlockDetails (overviewHealth 0 (dayFilter ''4h'') [lateEvent]) ! 671) +
     hb_Failure (uh_BlockDetails (overviewHealth 0 (dayFilter ''4h'') [lateEvent]) ! 671) = 1"
proof -
  have preset: "uo_Range (dayFilter ''4h'') \<in> {''4h'', ''8h'', ''12h'', ''today''}" by (simp add: dayFilter_def)
  show ?thesis
    using request_health_loses_end [OF preset, of 671 0 "[lateEvent]" lateEvent]
    by (simp add: dayFilter_def lateEvent_def healthEnd_def duration_defs)
qed

end
