(* ===== verification/Overview.thy ===== *)
theory Overview
  imports UsageSnapshot RequestHealth
begin

text \<open>
  The usage overview (\<open>repository/usage_overview.go\<close>, records of \<open>dto/usage_overview.go\<close>): the summary of a
  window, its series by bucket, by hour and by day, each also by model, the snapshot and the health grid,
  all built in one pass over the events. The theorem says what each part counts. \<open>None\<close> is the panic of
  \<open>interpretUsageAttempt\<close>; the clock and the zone are arguments.
\<close>

section \<open>Records\<close>

record usageOverviewSummary =
  ou_RequestCount :: i64
  ou_TokenCount :: i64
  ou_WindowMinutes :: int
  ou_RPM :: float64
  ou_TPM :: float64
  ou_TotalCost :: float64
  ou_CostAvailable :: bool
  ou_CachedTokens :: i64
  ou_ReasoningTokens :: i64
  ou_CanonicalValidAttempts :: i64

text \<open>A series holds the series of its models; those of a model hold none.\<close>

record usageSeriesMaps =
  sv_Requests :: "string \<rightharpoonup> i64"
  sv_Tokens :: "string \<rightharpoonup> i64"
  sv_RPM :: "string \<rightharpoonup> float64"
  sv_TPM :: "string \<rightharpoonup> float64"
  sv_Cost :: "string \<rightharpoonup> float64"
  sv_CostStatus :: "string \<rightharpoonup> string"
  sv_InputTokens :: "string \<rightharpoonup> i64"
  sv_OutputTokens :: "string \<rightharpoonup> i64"
  sv_CachedTokens :: "string \<rightharpoonup> i64"
  sv_ReasoningTokens :: "string \<rightharpoonup> i64"
  sv_CanonicalValidAttempts :: "string \<rightharpoonup> i64"

record usageOverviewSeries = usageSeriesMaps +
  sv_Models :: "string \<rightharpoonup> usageSeriesMaps"

record usageOverview =
  ov_Usage :: statisticsSnapshot
  ov_Summary :: usageOverviewSummary
  ov_Series :: usageOverviewSeries
  ov_HourlySeries :: usageOverviewSeries
  ov_DailySeries :: usageOverviewSeries
  ov_Health :: usageHealth

definition newSeriesMaps :: usageSeriesMaps where
  "newSeriesMaps = \<lparr>sv_Requests = Map.empty, sv_Tokens = Map.empty, sv_RPM = Map.empty, sv_TPM = Map.empty,
     sv_Cost = Map.empty, sv_CostStatus = Map.empty, sv_InputTokens = Map.empty, sv_OutputTokens = Map.empty,
     sv_CachedTokens = Map.empty, sv_ReasoningTokens = Map.empty, sv_CanonicalValidAttempts = Map.empty\<rparr>"

definition newUsageOverviewSeriesRecord :: usageOverviewSeries where
  "newUsageOverviewSeriesRecord = usageSeriesMaps.extend newSeriesMaps \<lparr>sv_Models = Map.empty\<rparr>"

section \<open>Windows and buckets\<close>

definition usageOverviewDailyBucketThresholdMinutes :: int where
  "usageOverviewDailyBucketThresholdMinutes = 7 * 24 * 60"

definition computeWindowMinutes :: "usageOverviewFilter \<Rightarrow> int" where
  "computeWindowMinutes filt =
     (case (us_StartTime filt, us_EndTime filt) of
        (Some start, Some end) \<Rightarrow>
          if end < start then 0
          else (let minutes = timeSub end start div minute;
                    minutes = (if timeSub end start mod minute \<noteq> 0 then minutes + 1 else minutes)
                in if minutes < 1 then 1 else minutes)
      | _ \<Rightarrow> 0)"

definition shouldBucketUsageOverviewByDay :: "usageOverviewFilter \<Rightarrow> int \<Rightarrow> bool" where
  "shouldBucketUsageOverviewByDay filt windowMinutes \<longleftrightarrow>
     uo_Range filt = ''all'' \<or> uo_Range filt = ''7d'' \<or> usageOverviewDailyBucketThresholdMinutes \<le> windowMinutes"

definition usageOverviewBucket :: "zone \<Rightarrow> bool \<Rightarrow> instant \<Rightarrow> string \<times> int" where
  "usageOverviewBucket zone byDay timestamp =
     (if byDay then (formatLocalDate zone timestamp, 24 * 60) else (formatUTCHour timestamp, 60))"

definition latestHourlySeriesStart :: "usageOverviewFilter \<Rightarrow> instant option" where
  "latestHourlySeriesStart filt = map_option (\<lambda>end. truncateTo hour end - 23 * hour) (us_EndTime filt)"

section \<open>One event\<close>

definition mergeUsageOverviewCostStatus :: "i64 \<Rightarrow> string \<Rightarrow> string \<Rightarrow> string" where
  "mergeUsageOverviewCostStatus existingRequests existingStatus incomingStatus =
     (if existingRequests = 0 then incomingStatus
      else if existingStatus = incomingStatus then existingStatus
      else costStatusPartial)"

definition usageEventRequiresPricing :: "usageEvent \<Rightarrow> bool option" where
  "usageEventRequiresPricing e =
     (case usageEventHasCompleteAccounting e of
        None \<Rightarrow> None
      | Some False \<Rightarrow> Some False
      | Some True \<Rightarrow> map_option (\<lambda>i. let facts = af_Accounting i in
            0 <s optionalInt64Value (ti_UncachedTokens (ar_Input facts)) \<or>
            0 <s optionalInt64Value (ti_CacheWriteTokens (ar_Input facts)) \<or>
            0 <s optionalInt64Value (ti_CacheReadTokens (ar_Input facts)) \<or>
            0 <s optionalInt64Value (to_TotalTokens (ar_Output facts))) (interpretUsageAttempt e))"

definition addPoint ::
  "tokenStats \<Rightarrow> bool \<Rightarrow> float64 \<Rightarrow> string \<Rightarrow> string \<Rightarrow> int \<Rightarrow> 'a usageSeriesMaps_scheme \<Rightarrow> 'a usageSeriesMaps_scheme" where
  "addPoint tokens canonical cost status k minutes m =
     (let m = m\<lparr>sv_CostStatus := (sv_CostStatus m)(k \<mapsto>
            mergeUsageOverviewCostStatus (entry (sv_Requests m) 0 k) (entry (sv_CostStatus m) [] k) status)\<rparr>;
          m = m\<lparr>sv_Requests := (sv_Requests m)(k \<mapsto> entry (sv_Requests m) 0 k + 1),
                sv_Tokens := (sv_Tokens m)(k \<mapsto> entry (sv_Tokens m) 0 k + ts_TotalTokens tokens),
                sv_Cost := (sv_Cost m)(k \<mapsto> entry (sv_Cost m) 0 k + cost),
                sv_InputTokens := (sv_InputTokens m)(k \<mapsto> entry (sv_InputTokens m) 0 k + ts_InputTokens tokens),
                sv_OutputTokens := (sv_OutputTokens m)(k \<mapsto> entry (sv_OutputTokens m) 0 k + ts_OutputTokens tokens),
                sv_CachedTokens := (sv_CachedTokens m)(k \<mapsto> entry (sv_CachedTokens m) 0 k + ts_CachedTokens tokens),
                sv_ReasoningTokens := (sv_ReasoningTokens m)(k \<mapsto> entry (sv_ReasoningTokens m) 0 k + ts_ReasoningTokens tokens)\<rparr>;
          m = (if canonical then m\<lparr>sv_CanonicalValidAttempts :=
                 (sv_CanonicalValidAttempts m)(k \<mapsto> entry (sv_CanonicalValidAttempts m) 0 k + 1)\<rparr> else m)
      in m\<lparr>sv_RPM := (sv_RPM m)(k \<mapsto> of_int (sint (entry (sv_Requests m) 0 k)) / of_int minutes),
           sv_TPM := (sv_TPM m)(k \<mapsto> of_int (sint (entry (sv_Tokens m) 0 k)) / of_int minutes)\<rparr>)"

definition applyUsageEventToOverviewSeries ::
  "usageEvent \<Rightarrow> tokenStats \<Rightarrow> bool \<Rightarrow> float64 \<Rightarrow> string \<Rightarrow> string \<Rightarrow> int \<Rightarrow> usageOverviewSeries \<Rightarrow> usageOverviewSeries" where
  "applyUsageEventToOverviewSeries e tokens canonical cost status k minutes series =
     (let series = addPoint tokens canonical cost status k minutes series;
          modelName = normalizeUsageOverviewDimension (ev_Model e);
          modelSeries = entry (sv_Models series) newSeriesMaps modelName
      in series\<lparr>sv_Models := (sv_Models series)(modelName \<mapsto>
           addPoint tokens canonical cost status k minutes modelSeries)\<rparr>)"

definition noPrice :: modelPriceSetting where
  "noPrice = \<lparr>mp_Model = [], mp_PromptPricePer1M = 0, mp_CompletionPricePer1M = 0, mp_CachePricePer1M = 0\<rparr>"

definition countInOverview ::
  "zone \<Rightarrow> bool \<Rightarrow> instant option \<Rightarrow> usageEvent \<Rightarrow> tokenStats \<Rightarrow> bool \<Rightarrow> float64 \<Rightarrow> string \<Rightarrow> usageOverview \<Rightarrow> usageOverview" where
  "countInOverview zone byDay latestHourlyStart e tokens canonical cost status o0 =
     (let t = ev_Timestamp e;
          sm = ov_Summary o0;
          sm = sm\<lparr>ou_CachedTokens := ou_CachedTokens sm + ts_CachedTokens tokens,
                  ou_ReasoningTokens := ou_ReasoningTokens sm + ts_ReasoningTokens tokens\<rparr>;
          sm = (if canonical then sm\<lparr>ou_CanonicalValidAttempts := ou_CanonicalValidAttempts sm + 1\<rparr> else sm);
          sm = sm\<lparr>ou_TotalCost := ou_TotalCost sm + cost\<rparr>;
          add = (\<lambda>daily. applyUsageEventToOverviewSeries e tokens canonical cost status
                   (fst (usageOverviewBucket zone daily t)) (snd (usageOverviewBucket zone daily t)))
      in o0\<lparr>ov_Summary := sm,
            ov_Series := add byDay (ov_Series o0),
            ov_HourlySeries := (case latestHourlyStart of
                None \<Rightarrow> add False (ov_HourlySeries o0)
              | Some start \<Rightarrow> if t < start then ov_HourlySeries o0 else add False (ov_HourlySeries o0)),
            ov_DailySeries := add True (ov_DailySeries o0),
            ov_Health := countHealth e (ov_Health o0)\<rparr>)"

definition applyUsageEventToOverview ::
  "zone \<Rightarrow> bool \<Rightarrow> instant option \<Rightarrow> (string \<rightharpoonup> modelPriceSetting) \<Rightarrow> usageEvent \<Rightarrow> usageOverview \<Rightarrow> usageOverview option" where
  "applyUsageEventToOverview zone byDay latestHourlyStart pricingByModel e o0 =
     (let pricing = pricingByModel (trimSpace (ev_Model e))
      in case (usageEventCanonicalTokenStats e, calculateUsageEventCost e (case pricing of None \<Rightarrow> noPrice | Some p \<Rightarrow> p),
               usageEventHasCompleteAccounting e, usageEventRequiresPricing e) of
        (Some stats, Some cost, Some full, Some requires) \<Rightarrow>
          Some (countInOverview zone byDay latestHourlyStart e (case stats of None \<Rightarrow> noTokens | Some t \<Rightarrow> t) (stats \<noteq> None)
            cost (if full \<and> (\<not> requires \<or> pricing \<noteq> None) then costStatusAvailable else costStatusUnavailable) o0)
      | _ \<Rightarrow> None)"

section \<open>All events\<close>

text \<open>\<open>(missingPricingEvents, knownCostAttempts)\<close> beside the overview.\<close>

definition overviewStep ::
  "zone \<Rightarrow> bool \<Rightarrow> instant option \<Rightarrow> (string \<rightharpoonup> modelPriceSetting) \<Rightarrow> usageEvent \<Rightarrow>
    (i64 \<times> i64) \<times> usageOverview \<Rightarrow> ((i64 \<times> i64) \<times> usageOverview) option" where
  "overviewStep zone byDay latestHourlyStart pricingByModel e = (\<lambda>((missing, known), o0).
     (case (usageEventHasCompleteAccounting e, usageEventRequiresPricing e) of
        (Some full, Some requires) \<Rightarrow>
          (let counts = (if \<not> full then (missing + 1, known)
                 else if \<not> requires \<or> pricingByModel (trimSpace (ev_Model e)) \<noteq> None then (missing, known + 1)
                 else (missing + 1, known))
           in case applyUsageEventToSnapshot zone False e (ov_Usage o0) of
                None \<Rightarrow> None
              | Some usage \<Rightarrow> map_option (Pair counts)
                  (applyUsageEventToOverview zone byDay latestHourlyStart pricingByModel e (o0\<lparr>ov_Usage := usage\<rparr>)))
      | _ \<Rightarrow> None))"

definition emptyOverview :: "instant \<Rightarrow> usageOverviewFilter \<Rightarrow> usageOverview" where
  "emptyOverview now filt =
     \<lparr>ov_Usage = emptySnapshot,
      ov_Summary = \<lparr>ou_RequestCount = 0, ou_TokenCount = 0, ou_WindowMinutes = computeWindowMinutes filt, ou_RPM = 0,
        ou_TPM = 0, ou_TotalCost = 0, ou_CostAvailable = False, ou_CachedTokens = 0, ou_ReasoningTokens = 0,
        ou_CanonicalValidAttempts = 0\<rparr>,
      ov_Series = newUsageOverviewSeriesRecord, ov_HourlySeries = newUsageOverviewSeriesRecord,
      ov_DailySeries = newUsageOverviewSeriesRecord, ov_Health = buildUsageOverviewHealth now filt\<rparr>"

definition finalizeUsageOverview :: "bool \<Rightarrow> usageOverview \<Rightarrow> usageOverview" where
  "finalizeUsageOverview includeDetails o0 =
     (let usage = finalizeUsageSnapshot includeDetails (ov_Usage o0);
          sm = (ov_Summary o0)\<lparr>ou_RequestCount := sn_TotalRequests usage, ou_TokenCount := sn_TotalTokens usage\<rparr>;
          sm = (if 0 < ou_WindowMinutes sm
                then sm\<lparr>ou_RPM := of_int (sint (ou_RequestCount sm)) / of_int (ou_WindowMinutes sm),
                        ou_TPM := of_int (sint (ou_TokenCount sm)) / of_int (ou_WindowMinutes sm)\<rparr>
                else sm)
      in o0\<lparr>ov_Usage := usage, ov_Summary := sm, ov_Health := finalizeHealth (ov_Health o0)\<rparr>)"

definition buildUsageOverviewFromEvents ::
  "zone \<Rightarrow> instant \<Rightarrow> usageEvent list \<Rightarrow> usageOverviewFilter \<Rightarrow> (string \<rightharpoonup> modelPriceSetting) \<Rightarrow> usageOverview option" where
  "buildUsageOverviewFromEvents zone now events filt pricingByModel =
     (let windowMinutes = computeWindowMinutes filt;
          byDay = shouldBucketUsageOverviewByDay filt windowMinutes;
          latestHourlyStart = latestHourlySeriesStart filt
      in if length events = 0 then Some (emptyOverview now filt)
         else map_option (\<lambda>((missing, known), o0).
             finalizeUsageOverview False (o0\<lparr>ov_Summary := (ov_Summary o0)\<lparr>ou_CostAvailable :=
               fst (assessCostCompleteness missing known)\<rparr>\<rparr>))
           (foldOption (overviewStep zone byDay latestHourlyStart pricingByModel) events ((0, 0), emptyOverview now filt)))"

text \<open>The events of the window in the order of their time.\<close>

definition loadUsageOverviewEvents :: "usageOverviewFilter \<Rightarrow> usageEvent list \<Rightarrow> usageEvent list" where
  "loadUsageOverviewEvents filt stored = sort_key ev_Timestamp (filter (applyUsageOverviewQuery filt) stored)"

definition buildUsageOverviewWithFilter ::
  "zone \<Rightarrow> instant \<Rightarrow> priceTable \<Rightarrow> usageEvent list \<Rightarrow> usageOverviewFilter \<Rightarrow> usageOverview option" where
  "buildUsageOverviewWithFilter zone now prices stored filt =
     buildUsageOverviewFromEvents zone now (loadUsageOverviewEvents filt stored) filt (loadPriceSettingsByModel prices)"

section \<open>What an event counts for\<close>

definition knownCost :: "(string \<rightharpoonup> modelPriceSetting) \<Rightarrow> usageEvent \<Rightarrow> bool" where
  "knownCost prices e \<longleftrightarrow> usageEventHasCompleteAccounting e = Some True \<and>
     (usageEventRequiresPricing e \<noteq> Some True \<or> prices (trimSpace (ev_Model e)) \<noteq> None)"

definition costOf :: "(string \<rightharpoonup> modelPriceSetting) \<Rightarrow> usageEvent \<Rightarrow> float64" where
  "costOf prices e =
     (case calculateUsageEventCost e (case prices (trimSpace (ev_Model e)) of None \<Rightarrow> noPrice | Some p \<Rightarrow> p) of
        None \<Rightarrow> 0 | Some c \<Rightarrow> c)"

definition statusOf :: "(string \<rightharpoonup> modelPriceSetting) \<Rightarrow> usageEvent \<Rightarrow> string" where
  "statusOf prices e = (if knownCost prices e then costStatusAvailable else costStatusUnavailable)"

text \<open>The status of a group: available or unavailable if all are, else partial.\<close>

definition mergedStatus :: "(string \<rightharpoonup> modelPriceSetting) \<Rightarrow> usageEvent list \<Rightarrow> string" where
  "mergedStatus prices es =
     (if \<forall>e \<in> set es. knownCost prices e then costStatusAvailable
      else if \<forall>e \<in> set es. \<not> knownCost prices e then costStatusUnavailable
      else costStatusPartial)"

definition pointsOf ::
  "(string \<rightharpoonup> modelPriceSetting) \<Rightarrow> (usageEvent \<Rightarrow> string) \<Rightarrow> int \<Rightarrow> 'a usageSeriesMaps_scheme \<Rightarrow> usageEvent list \<Rightarrow> bool" where
  "pointsOf prices key minutes m es \<longleftrightarrow>
     grouped key (\<lambda>v vs. v = of_nat (length vs)) (sv_Requests m) es \<and>
     grouped key (\<lambda>v vs. v = sum_list (map (\<lambda>e. ts_TotalTokens (tokensOf e)) vs)) (sv_Tokens m) es \<and>
     grouped key (\<lambda>v vs. v = of_nat (length vs) / of_int minutes) (sv_RPM m) es \<and>
     grouped key (\<lambda>v vs. v = of_int (sint (sum_list (map (\<lambda>e. ts_TotalTokens (tokensOf e)) vs))) / of_int minutes) (sv_TPM m) es \<and>
     grouped key (\<lambda>v vs. v = sum_list (map (costOf prices) vs)) (sv_Cost m) es \<and>
     grouped key (\<lambda>v vs. v = mergedStatus prices vs) (sv_CostStatus m) es \<and>
     grouped key (\<lambda>v vs. v = sum_list (map (\<lambda>e. ts_InputTokens (tokensOf e)) vs)) (sv_InputTokens m) es \<and>
     grouped key (\<lambda>v vs. v = sum_list (map (\<lambda>e. ts_OutputTokens (tokensOf e)) vs)) (sv_OutputTokens m) es \<and>
     grouped key (\<lambda>v vs. v = sum_list (map (\<lambda>e. ts_CachedTokens (tokensOf e)) vs)) (sv_CachedTokens m) es \<and>
     grouped key (\<lambda>v vs. v = sum_list (map (\<lambda>e. ts_ReasoningTokens (tokensOf e)) vs)) (sv_ReasoningTokens m) es \<and>
     grouped key (\<lambda>v vs. v = of_nat (length vs)) (sv_CanonicalValidAttempts m) (filter canonicalOf es)"

definition seriesOf ::
  "(string \<rightharpoonup> modelPriceSetting) \<Rightarrow> (usageEvent \<Rightarrow> string) \<Rightarrow> int \<Rightarrow> usageOverviewSeries \<Rightarrow> usageEvent list \<Rightarrow> bool" where
  "seriesOf prices key minutes s es \<longleftrightarrow>
     pointsOf prices key minutes s es \<and> grouped modelKeyOf (pointsOf prices key minutes) (sv_Models s) es"

abbreviation point ::
  "(string \<rightharpoonup> modelPriceSetting) \<Rightarrow> (usageEvent \<Rightarrow> string) \<Rightarrow> int \<Rightarrow> usageEvent \<Rightarrow> 'a usageSeriesMaps_scheme \<Rightarrow> 'a usageSeriesMaps_scheme" where
  "point prices key minutes e \<equiv>
     addPoint (tokensOf e) (canonicalOf e) (costOf prices e) (statusOf prices e) (key e) minutes"

lemma costStatuses: "costStatusAvailable \<noteq> costStatusUnavailable" "costStatusAvailable \<noteq> costStatusPartial"
  "costStatusUnavailable \<noteq> costStatusPartial"
  by (simp_all add: cost_status_defs)

lemma merge_snoc:
  assumes "length vs < 2 ^ 63" "vs \<noteq> [] \<Longrightarrow> st = mergedStatus prices vs"
  shows "mergeUsageOverviewCostStatus (of_nat (length vs)) st (statusOf prices e) = mergedStatus prices (vs @ [e])"
proof (cases "vs = []")
  case True
  then show ?thesis by (simp add: mergeUsageOverviewCostStatus_def mergedStatus_def statusOf_def)
next
  case False
  then have "(of_nat (length vs) :: i64) \<noteq> 0" using of_nat_zero [OF assms(1)] by simp
  moreover obtain v where "v \<in> set vs" using False by (cases vs) auto
  ultimately show ?thesis
    using assms(2) [OF False] costStatuses
    by (auto simp: mergeUsageOverviewCostStatus_def mergedStatus_def statusOf_def)
qed

lemma grouped_entry_some:
  assumes "grouped key Q m es" "filter (\<lambda>e. key e = k) es \<noteq> []"
  shows "Q (entry m zero k) (filter (\<lambda>e. key e = k) es)"
  using assms(1) [unfolded grouped_def, rule_format, of k] assms(2)
  by (auto simp: entry_def split: option.splits)

lemma entry_update [simp]: "entry (m(k \<mapsto> v)) zero k = v"
  by (simp add: entry_def)

lemma sum_series_float:
  fixes m :: "string \<rightharpoonup> float64"
  assumes "grouped key (\<lambda>v vs. v = sum_list (map h vs)) m es"
  shows "grouped key (\<lambda>v vs. v = sum_list (map h vs)) (m(key e \<mapsto> entry m 0 (key e) + h e)) (es @ [e])"
  by (rule grouped_snoc [OF assms]) (simp add: grouped_entry [OF assms, of 0 "key e"])

lemma point_snoc:
  assumes p: "pointsOf prices key minutes m es" and len: "length (es @ [e]) < 2 ^ 63"
  shows "pointsOf prices key minutes (point prices key minutes e m) (es @ [e])"
proof -
  note g = p [unfolded pointsOf_def]
  let ?in = "filter (\<lambda>x. key x = key e) es"
  have "length ?in \<le> length es" by simp
  with len have small: "length (?in @ [e]) < 2 ^ 63" unfolding length_append by linarith
  have requests: "entry (sv_Requests m) 0 (key e) = of_nat (length ?in)"
    by (rule grouped_entry [where Q = "\<lambda>v vs. v = of_nat (length vs)"]) (use g in simp_all)
  have tokens: "entry (sv_Tokens m) 0 (key e) = sum_list (map (\<lambda>e. ts_TotalTokens (tokensOf e)) ?in)"
    by (rule grouped_entry [where Q = "\<lambda>v vs. v = sum_list (map (\<lambda>e. ts_TotalTokens (tokensOf e)) vs)"]) (use g in simp_all)
  have status: "mergeUsageOverviewCostStatus (entry (sv_Requests m) 0 (key e)) (entry (sv_CostStatus m) [] (key e)) (statusOf prices e) =
      mergedStatus prices (?in @ [e])"
    unfolding requests
  proof (rule merge_snoc)
    show "length ?in < 2 ^ 63" using small by simp
    show "entry (sv_CostStatus m) [] (key e) = mergedStatus prices ?in" if "?in \<noteq> []"
      by (rule grouped_entry_some [where Q = "\<lambda>v vs. v = mergedStatus prices vs", OF _ that]) (use g in simp)
  qed
  have rate: "sint (entry (sv_Requests m) 0 (key e) + 1) = int (length (?in @ [e]))"
    using of_nat_counted [OF small] unfolding requests by (simp add: add.commute)
  have total: "entry (sv_Tokens m) 0 (key e) + ts_TotalTokens (tokensOf e) =
      sum_list (map (\<lambda>e. ts_TotalTokens (tokensOf e)) (?in @ [e]))" unfolding tokens by simp
  have g3: "grouped key (\<lambda>v vs. v = of_nat (length vs) / of_int minutes)
      ((sv_RPM m)(key e \<mapsto> of_int (sint (entry (sv_Requests m) 0 (key e) + 1)) / of_int minutes)) (es @ [e])"
    by (rule grouped_snoc) (use g in simp, simp add: rate)
  have g4: "grouped key (\<lambda>v vs. v = of_int (sint (sum_list (map (\<lambda>e. ts_TotalTokens (tokensOf e)) vs))) / of_int minutes)
      ((sv_TPM m)(key e \<mapsto> of_int (sint (entry (sv_Tokens m) 0 (key e) + ts_TotalTokens (tokensOf e))) / of_int minutes)) (es @ [e])"
    by (rule grouped_snoc) (use g in simp, simp only: total)
  have g6: "grouped key (\<lambda>v vs. v = mergedStatus prices vs) ((sv_CostStatus m)(key e \<mapsto>
      mergeUsageOverviewCostStatus (entry (sv_Requests m) 0 (key e)) (entry (sv_CostStatus m) [] (key e)) (statusOf prices e))) (es @ [e])"
    by (rule grouped_snoc) (use g in simp, rule status)
  show ?thesis
    using g g3 g4 g6
      count_series [of key "sv_Requests m" es e] sum_series [of key "\<lambda>e. ts_TotalTokens (tokensOf e)" "sv_Tokens m" es e]
      sum_series_float [of key "costOf prices" "sv_Cost m" es e] sum_series [of key "\<lambda>e. ts_InputTokens (tokensOf e)" "sv_InputTokens m" es e]
      sum_series [of key "\<lambda>e. ts_OutputTokens (tokensOf e)" "sv_OutputTokens m" es e]
      sum_series [of key "\<lambda>e. ts_CachedTokens (tokensOf e)" "sv_CachedTokens m" es e]
      sum_series [of key "\<lambda>e. ts_ReasoningTokens (tokensOf e)" "sv_ReasoningTokens m" es e]
      count_series [of key "sv_CanonicalValidAttempts m" "filter canonicalOf es" e]
    unfolding pointsOf_def addPoint_def Let_def
    by (intro conjI) (simp_all del: fun_upd_apply)
qed

lemma point_models [simp]: "sv_Models (addPoint t c x st k n s) = sv_Models s"
  by (simp add: addPoint_def Let_def)

lemma pointsOf_models [simp]: "pointsOf prices key minutes (s\<lparr>sv_Models := ms\<rparr>) es = pointsOf prices key minutes s es"
  by (simp add: pointsOf_def)

lemma pointsOf_new: "pointsOf prices key minutes newSeriesMaps []"
  by (simp add: pointsOf_def newSeriesMaps_def)

lemma seriesOf_new: "seriesOf prices key minutes newUsageOverviewSeriesRecord []"
  by (simp add: seriesOf_def pointsOf_def newUsageOverviewSeriesRecord_def newSeriesMaps_def usageSeriesMaps.defs)

lemma series_snoc:
  assumes s: "seriesOf prices key minutes s es" and len: "length (es @ [e]) < 2 ^ 63"
  shows "seriesOf prices key minutes (applyUsageEventToOverviewSeries e (tokensOf e) (canonicalOf e) (costOf prices e)
    (statusOf prices e) (key e) minutes s) (es @ [e])"
proof -
  have g: "grouped modelKeyOf (pointsOf prices key minutes) (sv_Models s) es" and p: "pointsOf prices key minutes s es"
    using s by (simp_all add: seriesOf_def)
  let ?in = "filter (\<lambda>x. modelKeyOf x = modelKeyOf e) es"
  have m: "pointsOf prices key minutes (entry (sv_Models s) newSeriesMaps (modelKeyOf e)) ?in"
    by (rule grouped_entry [where Q = "pointsOf prices key minutes", OF g pointsOf_new])
  have "length ?in \<le> length es" by simp
  with len have "length (?in @ [e]) < 2 ^ 63" unfolding length_append by linarith
  from grouped_snoc [where Q = "pointsOf prices key minutes", OF g point_snoc [OF m this]] point_snoc [OF p len]
  show ?thesis by (simp add: seriesOf_def applyUsageEventToOverviewSeries_def Let_def)
qed

section \<open>What the overview counts\<close>

abbreviation bucketOf :: "zone \<Rightarrow> bool \<Rightarrow> usageEvent \<Rightarrow> string" where
  "bucketOf zone byDay e \<equiv> fst (usageOverviewBucket zone byDay (ev_Timestamp e))"
definition bucketMinutes :: "bool \<Rightarrow> int" where
  "bucketMinutes byDay = (if byDay then 1440 else 60)"

lemma bucket_minutes: "snd (usageOverviewBucket zone byDay t) = bucketMinutes byDay"
  by (simp add: usageOverviewBucket_def bucketMinutes_def)

abbreviation recent :: "instant option \<Rightarrow> usageEvent \<Rightarrow> bool" where
  "recent start e \<equiv> (case start of None \<Rightarrow> True | Some s \<Rightarrow> \<not> ev_Timestamp e < s)"

definition summaryOf :: "(string \<rightharpoonup> modelPriceSetting) \<Rightarrow> usageOverviewSummary \<Rightarrow> usageEvent list \<Rightarrow> bool" where
  "summaryOf prices sm es \<longleftrightarrow> ou_TotalCost sm = sum_list (map (costOf prices) es) \<and>
     ou_CachedTokens sm = sum_list (map (\<lambda>e. ts_CachedTokens (tokensOf e)) es) \<and>
     ou_ReasoningTokens sm = sum_list (map (\<lambda>e. ts_ReasoningTokens (tokensOf e)) es) \<and>
     ou_CanonicalValidAttempts sm = of_nat (length (filter canonicalOf es))"

definition countedOf ::
  "zone \<Rightarrow> bool \<Rightarrow> instant option \<Rightarrow> (string \<rightharpoonup> modelPriceSetting) \<Rightarrow> usageHealth \<Rightarrow> int \<Rightarrow> (i64 \<times> i64) \<times> usageOverview \<Rightarrow>
    usageEvent list \<Rightarrow> bool" where
  "countedOf zone byDay start prices health0 minutes = (\<lambda>((missing, known), o0) es.
     missing = of_nat (length (filter (\<lambda>e. \<not> knownCost prices e) es)) \<and>
     known = of_nat (length (filter (knownCost prices) es)) \<and>
     snapshotCounts zone (kept False) (ov_Usage o0) es \<and> summaryOf prices (ov_Summary o0) es \<and>
     ou_WindowMinutes (ov_Summary o0) = minutes \<and>
     seriesOf prices (bucketOf zone byDay) (bucketMinutes byDay) (ov_Series o0) es \<and>
     seriesOf prices (bucketOf zone False) 60 (ov_HourlySeries o0) (filter (recent start) es) \<and>
     seriesOf prices (bucketOf zone True) 1440 (ov_DailySeries o0) es \<and>
     ov_Health o0 = fold countHealth es health0)"

lemma overviewStep_Some:
  assumes "interpretUsageAttempt e \<noteq> None"
  shows "overviewStep zone byDay start prices e ((missing, known), o0) =
    Some (if knownCost prices e then (missing, known + 1) else (missing + 1, known),
      countInOverview zone byDay start e (tokensOf e) (canonicalOf e) (costOf prices e) (statusOf prices e)
        (o0\<lparr>ov_Usage := countEvent zone False e (tokensOf e) (canonicalOf e) (ov_Usage o0)\<rparr>))"
proof -
  obtain i where i: "interpretUsageAttempt e = Some i" using assms by blast
  obtain stats where stats: "usageEventCanonicalTokenStats e = Some stats"
    using i by (simp add: usageEventCanonicalTokenStats_def)
  obtain full where full: "usageEventHasCompleteAccounting e = Some full"
    using i by (simp add: usageEventHasCompleteAccounting_def)
  obtain requires where requires: "usageEventRequiresPricing e = Some requires"
    using i full by (cases full) (simp_all add: usageEventRequiresPricing_def)
  have "calculateUsageEventCost e p \<noteq> None" for p using i by (simp add: calculateUsageEventCost_def Let_def)
  then obtain cost where cost: "calculateUsageEventCost e
      (case prices (trimSpace (ev_Model e)) of None \<Rightarrow> noPrice | Some p \<Rightarrow> p) = Some cost" by blast
  have views: "(case stats of None \<Rightarrow> noTokens | Some t \<Rightarrow> t) = tokensOf e" "(stats \<noteq> None) = canonicalOf e"
    using stats by (auto simp: tokensOf_def canonicalOf_def)
  have applied: "applyUsageEventToOverview zone byDay start prices e o1 =
      Some (countInOverview zone byDay start e (tokensOf e) (canonicalOf e) (costOf prices e) (statusOf prices e) o1)" for o1
    unfolding applyUsageEventToOverview_def Let_def stats full requires cost prod.case option.case views
    by (simp add: costOf_def cost statusOf_def knownCost_def full requires)
  show ?thesis
    using applyUsageEventToSnapshot_Some [OF assms, of zone False "ov_Usage o0"] full requires
    by (auto simp: overviewStep_def Let_def applied knownCost_def)
qed

lemma counted_snoc:
  assumes c: "countedOf zone byDay start prices health0 minutes ((missing, known), o0) es"
    and len: "length (es @ [e]) < 2 ^ 63"
  shows "countedOf zone byDay start prices health0 minutes
    (if knownCost prices e then (missing, known + 1) else (missing + 1, known),
      countInOverview zone byDay start e (tokensOf e) (canonicalOf e) (costOf prices e) (statusOf prices e)
        (o0\<lparr>ov_Usage := countEvent zone False e (tokensOf e) (canonicalOf e) (ov_Usage o0)\<rparr>)) (es @ [e])"
proof -
  note g = c [unfolded countedOf_def prod.case]
  let ?add = "\<lambda>daily. applyUsageEventToOverviewSeries e (tokensOf e) (canonicalOf e) (costOf prices e) (statusOf prices e)
    (bucketOf zone daily e) (snd (usageOverviewBucket zone daily (ev_Timestamp e)))"
  have len': "length (filter (recent start) es @ [e]) < 2 ^ 63"
  proof -
    have "length (filter (recent start) es) \<le> length es" by simp
    with len show ?thesis unfolding length_append by linarith
  qed
  have s1: "seriesOf prices (bucketOf zone byDay) (bucketMinutes byDay) (?add byDay (ov_Series o0)) (es @ [e])"
    unfolding bucket_minutes by (rule series_snoc [OF _ len]) (use g in simp)
  have s2: "seriesOf prices (bucketOf zone False) 60 (?add False (ov_HourlySeries o0)) (filter (recent start) es @ [e])"
    using series_snoc [OF _ len', of prices "bucketOf zone False" 60 "ov_HourlySeries o0"] g
    by (simp add: bucket_minutes bucketMinutes_def)
  have s3: "seriesOf prices (bucketOf zone True) 1440 (?add True (ov_DailySeries o0)) (es @ [e])"
    using series_snoc [OF _ len, of prices "bucketOf zone True" 1440 "ov_DailySeries o0"] g
    by (simp add: bucket_minutes bucketMinutes_def)
  have u: "snapshotCounts zone (kept False) (countEvent zone False e (tokensOf e) (canonicalOf e) (ov_Usage o0)) (es @ [e])"
    by (rule snapshot_snoc) (use g in simp)
  show ?thesis
    using g s1 s2 s3 u
    by (auto simp: countedOf_def countInOverview_def Let_def summaryOf_def split: option.split)
qed

lemma counted_fold:
  assumes "\<forall>e \<in> set es. interpretUsageAttempt e \<noteq> None" "length (past @ es) < 2 ^ 63"
    and "countedOf zone byDay start prices health0 minutes st past"
  shows "\<exists>st'. foldOption (overviewStep zone byDay start prices) es st = Some st' \<and>
    countedOf zone byDay start prices health0 minutes st' (past @ es)"
  using assms
proof (induction es arbitrary: st past)
  case (Cons e es)
  obtain missing known o0 where st: "st = ((missing, known), o0)" by (cases st) auto
  have "length (past @ [e]) < 2 ^ 63" using Cons.prems(2) by simp
  note snoc = counted_snoc [OF Cons.prems(3) [unfolded st] this]
  have "\<forall>e \<in> set es. interpretUsageAttempt e \<noteq> None" "length ((past @ [e]) @ es) < 2 ^ 63" using Cons.prems(1,2) by simp_all
  from Cons.IH [OF this snoc] overviewStep_Some [of e zone byDay start prices missing known o0] Cons.prems(1)
  show ?case by (simp add: st)
qed simp

lemma counted_start:
  "countedOf zone byDay start prices (buildUsageOverviewHealth now filt) (computeWindowMinutes filt)
    ((0, 0), emptyOverview now filt) []"
  using seriesOf_new
  by (simp add: countedOf_def emptyOverview_def snapshotCounts_def summaryOf_def) (simp add: emptySnapshot_def)

text \<open>What an overview says of its events.\<close>

definition overviewCounts ::
  "zone \<Rightarrow> instant \<Rightarrow> usageOverviewFilter \<Rightarrow> (string \<rightharpoonup> modelPriceSetting) \<Rightarrow> usageOverview \<Rightarrow> usageEvent list \<Rightarrow> bool" where
  "overviewCounts zone now filt prices o0 es \<longleftrightarrow>
     (let byDay = shouldBucketUsageOverviewByDay filt (computeWindowMinutes filt);
          sm = ov_Summary o0
      in snapshotCounts zone (kept False) (ov_Usage o0) es \<and> summaryOf prices sm es \<and>
         ou_RequestCount sm = of_nat (length es) \<and>
         ou_TokenCount sm = sum_list (map (\<lambda>e. ts_TotalTokens (tokensOf e)) es) \<and>
         (0 < computeWindowMinutes filt \<longrightarrow> ou_RPM sm = of_nat (length es) / of_int (computeWindowMinutes filt)) \<and>
         (ou_CostAvailable sm \<longleftrightarrow> es \<noteq> [] \<and> (\<forall>e \<in> set es. knownCost prices e)) \<and>
         seriesOf prices (bucketOf zone byDay) (bucketMinutes byDay) (ov_Series o0) es \<and>
         seriesOf prices (bucketOf zone False) 60 (ov_HourlySeries o0) (filter (recent (latestHourlySeriesStart filt)) es) \<and>
         seriesOf prices (bucketOf zone True) 1440 (ov_DailySeries o0) es \<and>
         ov_Health o0 = overviewHealth now filt es)"

lemma none_missing:
  assumes "length es < 2 ^ 63"
  shows "(of_nat (length (filter P es)) :: i64) = 0 \<longleftrightarrow> (\<forall>e \<in> set es. \<not> P e)"
proof -
  have "length (filter P es) \<le> length es" by simp
  with assms have "length (filter P es) < 2 ^ 63" by linarith
  from of_nat_zero [OF this] show ?thesis by (simp add: filter_empty_conv)
qed

lemma counted_final:
  assumes c: "countedOf zone (shouldBucketUsageOverviewByDay filt (computeWindowMinutes filt)) (latestHourlySeriesStart filt) prices
      (buildUsageOverviewHealth now filt) (computeWindowMinutes filt) ((missing, known), o0) es"
    and es: "es \<noteq> []" "length es < 2 ^ 63"
  shows "overviewCounts zone now filt prices (finalizeUsageOverview False (o0\<lparr>ov_Summary := (ov_Summary o0)\<lparr>ou_CostAvailable :=
    fst (assessCostCompleteness missing known)\<rparr>\<rparr>)) es"
proof -
  note g = c [unfolded countedOf_def prod.case]
  have tally: "sn_TotalRequests (ov_Usage o0) = of_nat (length es)"
    "sn_TotalTokens (ov_Usage o0) = sum_list (map (\<lambda>e. ts_TotalTokens (tokensOf e)) es)"
    using g by (simp_all add: snapshotCounts_def tallies_def)
  have cost: "fst (assessCostCompleteness missing known) \<longleftrightarrow> (\<forall>e \<in> set es. knownCost prices e)"
    using none_missing [OF es(2), of "\<lambda>e. \<not> knownCost prices e"] g by (simp add: assessCostCompleteness_def)
  have rate: "(of_int (sint (of_nat (length es) :: i64)) :: float64) = of_nat (length es)"
    by (simp only: of_nat_counted [OF es(2)] of_int_of_nat_eq)
  show ?thesis
    using g tally cost es rate
    unfolding overviewCounts_def Let_def
    by (simp add: finalizeUsageOverview_def finalizeUsageSnapshot_def summaryOf_def overviewHealth_def Let_def)
qed

text \<open>
  C32. A usage overview is what grouping the events of its window gives. The summary has the number of requests,
  their tokens, their cost and rate, and says the cost is complete exactly if there are requests and the
  price of each is known; the series by bucket, by day and by hour (the last 24 hours of the window) have
  an entry exactly for the buckets that occur, with the counts, sums and cost status of their requests, and
  so have the series of each model; the snapshot and the health grid count the same events.
\<close>
theorem usageOverview_exact:
  assumes total: "\<forall>e \<in> set stored. interpretUsageAttempt e \<noteq> None" and small: "length stored < 2 ^ 63"
  shows "\<exists>o0. buildUsageOverviewWithFilter zone now prices stored filt = Some o0 \<and>
    overviewCounts zone now filt (loadPriceSettingsByModel prices) o0 (loadUsageOverviewEvents filt stored)"
proof -
  let ?es = "loadUsageOverviewEvents filt stored" and ?p = "loadPriceSettingsByModel prices"
  let ?byDay = "shouldBucketUsageOverviewByDay filt (computeWindowMinutes filt)"
  have "length ?es \<le> length stored" by (simp add: loadUsageOverviewEvents_def)
  with small have es: "length ?es < 2 ^ 63" "\<forall>e \<in> set ?es. interpretUsageAttempt e \<noteq> None"
    using total by (linarith, simp add: loadUsageOverviewEvents_def)
  show ?thesis
  proof (cases "?es = []")
    case True
    have "overviewCounts zone now filt ?p (emptyOverview now filt) []"
      using counted_start [of zone ?byDay "latestHourlySeriesStart filt" ?p now filt]
      by (simp add: countedOf_def overviewCounts_def Let_def overviewHealth_def finalizeHealth_def)
        (simp add: emptyOverview_def buildUsageOverviewHealth_def Let_def split: prod.splits)
    with True show ?thesis by (simp add: buildUsageOverviewWithFilter_def buildUsageOverviewFromEvents_def)
  next
    case False
    from counted_fold [OF es(2) _ counted_start, of zone ?byDay "latestHourlySeriesStart filt" ?p now filt] es(1)
    obtain missing known o0 where o0: "foldOption (overviewStep zone ?byDay (latestHourlySeriesStart filt) ?p) ?es
        ((0, 0), emptyOverview now filt) = Some ((missing, known), o0)"
      "countedOf zone ?byDay (latestHourlySeriesStart filt) ?p (buildUsageOverviewHealth now filt)
        (computeWindowMinutes filt) ((missing, known), o0) ?es" by auto
    from counted_final [OF o0(2) False es(1)] o0(1) False
    show ?thesis by (simp add: buildUsageOverviewWithFilter_def buildUsageOverviewFromEvents_def Let_def)
  qed
qed

theorem usageOverview_exact_witness:
  "\<exists>o0. buildUsageOverviewWithFilter (fixedZone 0) 0 emptyTable [sampleEvent] (dayFilter ''24h'') = Some o0 \<and>
     overviewCounts (fixedZone 0) 0 (dayFilter ''24h'') (loadPriceSettingsByModel emptyTable) o0
       (loadUsageOverviewEvents (dayFilter ''24h'') [sampleEvent])"
proof (rule usageOverview_exact)
  have "validateUsageAccounting (ev_UsageAccounting sampleEvent) = None" by (simp add: sampleEvent_def sample_validated)
  then show "\<forall>e \<in> set [sampleEvent]. interpretUsageAttempt e \<noteq> None"
    using interpret_validated_Some [of sampleEvent] by simp
qed simp

end
