(* ===== verification/UsageFilter.thy ===== *)
theory UsageFilter
  imports UsageEvents Overview
begin

text \<open>
  The query parameters of the read endpoints (\<open>api/usage_filter.go\<close>, the summary filter of
  \<open>api/analytics.go\<close>) up to the repository filters they become. A query is the first value of each
  parameter that is present; \<open>None\<close> is a nil request or nil query. The parser of RFC 3339 times is a parameter,
  the one of dates is written out, and the zone is that of \<open>LocalTime\<close>. The theorems say which instants a
  range selects and that the filters the parser lets through are canonical.
\<close>

section \<open>Dates\<close>

text \<open>The day number of a date, and \<open>time.ParseInLocation(time.DateOnly, ...)\<close> up to the zone.\<close>

definition daysFromCivil :: "int \<Rightarrow> int \<Rightarrow> int \<Rightarrow> int" where
  "daysFromCivil y m d =
     (let y = (if m \<le> 2 then y - 1 else y);
          yoe = y mod 400;
          doy = (153 * (if 2 < m then m - 3 else m + 9) + 2) div 5 + d - 1;
          doe = yoe * 365 + yoe div 4 - yoe div 100 + doy
      in y div 400 * 146097 + doe - 719468)"

definition isLeapYear :: "int \<Rightarrow> bool" where
  "isLeapYear y \<longleftrightarrow> y mod 4 = 0 \<and> (y mod 100 \<noteq> 0 \<or> y mod 400 = 0)"

definition daysIn :: "int \<Rightarrow> int \<Rightarrow> int" where
  "daysIn m y = (if m = 2 then (if isLeapYear y then 29 else 28) else if m \<in> {4, 6, 9, 11} then 30 else 31)"

definition fixedDigits :: "nat \<Rightarrow> string \<Rightarrow> (int \<times> string) option" where
  "fixedDigits n s = (if n \<le> length s then map_option (\<lambda>v. (int v, drop n s)) (parse_digits 0 (take n s)) else None)"

definition parseDateOnly :: "string \<Rightarrow> int option" where
  "parseDateOnly s =
     (case fixedDigits 4 s of
        Some (y, CHR ''-'' # s1) \<Rightarrow> (case fixedDigits 2 s1 of
            Some (m, CHR ''-'' # s2) \<Rightarrow> (case fixedDigits 2 s2 of
                Some (d, []) \<Rightarrow> if 1 \<le> m \<and> m \<le> 12 \<and> 1 \<le> d \<and> d \<le> daysIn m y then Some (daysFromCivil y m d) else None
              | _ \<Rightarrow> None)
          | _ \<Rightarrow> None)
      | _ \<Rightarrow> None)"

section \<open>Requests\<close>

type_synonym mapQuery = "string \<rightharpoonup> string"

definition queryGet :: "mapQuery \<Rightarrow> string \<Rightarrow> string" where
  "queryGet query name = (case query name of None \<Rightarrow> [] | Some v \<Rightarrow> v)"

datatype filterError =
    CustomRangeRequired
  | InvalidStart string
  | InvalidEnd string
  | CustomRangeReversed
  | UnsupportedRange string
  | InvalidPage string
  | RemovedLimit
  | InvalidPageSize string
  | InvalidResult string
  | ExportRequiresWindowEnd
  | ExportDoesNotAccept string
  | RangeRequires24h
  | InvalidWindowEnd string
  | ExceedsBytes string nat
  | InvalidValue string
  | InvalidEndpoint string
  | InvalidStatus string
  | InvalidMinLatency string
  | UnsupportedGranularity string

record usageWindow =
  uw_Range :: string
  uw_StartTime :: "instant option"
  uw_EndTime :: "instant option"
  uw_FixedWindowEnd :: "instant option"

record usageTimeFilter = usageWindow +
  ut_Provider :: string

record diagnosticRequest = usageTimeFilter +
  dq_Model :: string
  dq_ModelAlias :: string
  dq_Account :: string
  dq_Endpoint :: string
  dq_Status :: string
  dq_RequestID :: string
  dq_MinLatencyMS :: "i64 option"

record eventListRequest = diagnosticRequest +
  lq_Page :: int
  lq_PageSize :: int
  lq_Offset :: int
  lq_Source :: string
  lq_AuthIndex :: string
  lq_Result :: string

record analyticsRequest = usageTimeFilter +
  aq_Granularity :: string

section \<open>The repository filters\<close>

definition repositoryScope :: "'a usageTimeFilter_scheme \<Rightarrow> usageTimeScope" where
  "repositoryScope f = \<lparr>us_StartTime = uw_StartTime f, us_EndTime = uw_EndTime f, us_Provider = ut_Provider f\<rparr>"

definition repositoryOverviewFilter :: "'a usageTimeFilter_scheme \<Rightarrow> usageOverviewFilter" where
  "repositoryOverviewFilter f = usageTimeScope.extend (repositoryScope f) \<lparr>uo_Range = uw_Range f\<rparr>"

definition repositoryDiagnosticFilter :: "'a diagnosticRequest_scheme \<Rightarrow> usageDiagnosticFilter" where
  "repositoryDiagnosticFilter f = usageTimeScope.extend (repositoryScope f)
     \<lparr>df_Model = dq_Model f, df_ModelAlias = dq_ModelAlias f, df_Account = dq_Account f, df_Endpoint = dq_Endpoint f,
      df_Status = dq_Status f, df_RequestID = dq_RequestID f, df_MinLatencyMS = dq_MinLatencyMS f\<rparr>"

definition repositoryListFilter :: "eventListRequest \<Rightarrow> usageEventListFilter" where
  "repositoryListFilter f = usageDiagnosticFilter.extend (repositoryDiagnosticFilter f)
     \<lparr>lf_Page = lq_Page f, lf_PageSize = lq_PageSize f, lf_Offset = lq_Offset f, lf_Source = lq_Source f,
      lf_AuthIndex = lq_AuthIndex f, lf_Result = lq_Result f\<rparr>"

definition repositoryAnalyticsFilter :: "analyticsRequest \<Rightarrow> analyticsFilter" where
  "repositoryAnalyticsFilter f = usageTimeScope.extend (repositoryScope f)
     \<lparr>fl_Range = uw_Range f, fl_FixedWindowEnd = uw_FixedWindowEnd f, fl_Granularity = aq_Granularity f\<rparr>"

section \<open>Windows\<close>

definition day :: duration where "day = 24 * hour"

definition presetUsageRangeDurations :: "string \<rightharpoonup> duration" where
  "presetUsageRangeDurations =
     [''4h'' \<mapsto> 4 * hour, ''8h'' \<mapsto> 8 * hour, ''12h'' \<mapsto> 12 * hour, ''24h'' \<mapsto> 24 * hour, ''7d'' \<mapsto> 7 * day, ''30d'' \<mapsto> 30 * day]"

definition allowedUsageEventsPageSizes :: "int list" where
  "allowedUsageEventsPageSizes = [1, 10, 20, 50, 100, 500, 1000]"

definition parseCustomUsageRangeBoundary :: "(string \<Rightarrow> instant option) \<Rightarrow> zone \<Rightarrow> string \<Rightarrow> bool \<Rightarrow> instant option" where
  "parseCustomUsageRangeBoundary parseRFC3339 zone value endOfDay =
     (case parseDateOnly value of
        Some d \<Rightarrow>
          (let date = clockOfDay zone 0 d in Some (if endOfDay then addDays zone 1 date - nanosecond else date))
      | None \<Rightarrow> parseRFC3339 value)"

definition emptyWindow :: usageWindow where
  "emptyWindow = \<lparr>uw_Range = [], uw_StartTime = None, uw_EndTime = None, uw_FixedWindowEnd = None\<rparr>"

definition parseUsageWindowQuery ::
  "(string \<Rightarrow> instant option) \<Rightarrow> zone \<Rightarrow> mapQuery option \<Rightarrow> instant \<Rightarrow> filterError + usageWindow" where
  "parseUsageWindowQuery parseRFC3339 zone req anchor =
     (case req of
        None \<Rightarrow> Inr emptyWindow
      | Some query \<Rightarrow>
          (let value = trimSpace (queryGet query ''range'');
               rangeValue = (if value = [] then ''all'' else value);
               window = \<lparr>uw_Range = rangeValue, uw_StartTime = None, uw_EndTime = None, uw_FixedWindowEnd = Some anchor\<rparr>
           in if rangeValue = ''all'' then Inr window
              else if rangeValue = ''today'' \<or> rangeValue = ''yesterday'' then
                (let localStart = startOfDay zone anchor;
                     localStart = (if rangeValue = ''yesterday'' then addDays zone (-1) localStart else localStart)
                 in Inr (window\<lparr>uw_StartTime := Some localStart,
                      uw_EndTime := Some (addDays zone 1 localStart - nanosecond)\<rparr>))
              else if rangeValue = ''custom'' then
                (let startValue = trimSpace (queryGet query ''start''); endValue = trimSpace (queryGet query ''end'')
                 in if startValue = [] \<or> endValue = [] then Inl CustomRangeRequired
                    else (case parseCustomUsageRangeBoundary parseRFC3339 zone startValue False of
                        None \<Rightarrow> Inl (InvalidStart startValue)
                      | Some startTime \<Rightarrow> (case parseCustomUsageRangeBoundary parseRFC3339 zone endValue True of
                            None \<Rightarrow> Inl (InvalidEnd endValue)
                          | Some endTime \<Rightarrow>
                              if endTime < startTime then Inl CustomRangeReversed
                              else Inr (window\<lparr>uw_StartTime := Some startTime, uw_EndTime := Some endTime\<rparr>))))
              else (case presetUsageRangeDurations rangeValue of
                  None \<Rightarrow> Inl (UnsupportedRange rangeValue)
                | Some preset \<Rightarrow>
                    Inr (window\<lparr>uw_StartTime := Some (anchor - preset), uw_EndTime := Some anchor\<rparr>))))"

definition parseUsageTimeFilterQuery ::
  "(string \<Rightarrow> instant option) \<Rightarrow> zone \<Rightarrow> mapQuery option \<Rightarrow> instant \<Rightarrow> filterError + usageTimeFilter" where
  "parseUsageTimeFilterQuery parseRFC3339 zone req anchor =
     (case parseUsageWindowQuery parseRFC3339 zone req anchor of
        Inl e \<Rightarrow> Inl e
      | Inr window \<Rightarrow> Inr (usageWindow.extend window
          \<lparr>ut_Provider = (case req of None \<Rightarrow> [] | Some query \<Rightarrow> trimSpace (queryGet query ''provider''))\<rparr>))"

definition parseAnalyticsSummaryFilterQuery ::
  "(string \<Rightarrow> instant option) \<Rightarrow> zone \<Rightarrow> mapQuery option \<Rightarrow> instant \<Rightarrow> filterError + analyticsRequest" where
  "parseAnalyticsSummaryFilterQuery parseRFC3339 zone req anchor =
     (case parseUsageTimeFilterQuery parseRFC3339 zone req anchor of
        Inl e \<Rightarrow> Inl e
      | Inr timeFilter \<Rightarrow>
          (let filt = usageTimeFilter.extend timeFilter \<lparr>aq_Granularity = ''hour''\<rparr>
           in case req of
                None \<Rightarrow> Inr filt
              | Some query \<Rightarrow>
                  (let filt = filt\<lparr>ut_Provider := trimSpace (queryGet query ''provider'')\<rparr>;
                       value = trimSpace (queryGet query ''granularity'')
                   in if value = [] then Inr filt
                      else if value = ''hour'' \<or> value = ''day'' then Inr (filt\<lparr>aq_Granularity := value\<rparr>)
                      else Inl (UnsupportedGranularity value))))"

section \<open>Diagnostic selections\<close>

text \<open>
  \<open>strings.IndexFunc(value, unicode.IsControl) >= 0\<close>: the control characters of ASCII, and those of Latin-1,
  which UTF-8 writes as \<open>C2 80\<close> to \<open>C2 9F\<close> (the byte \<open>C2\<close> occurs in no other role).
\<close>

fun hasControl :: "string \<Rightarrow> bool" where
  "hasControl [] = False"
| "hasControl (c # s) =
     ((of_char c :: nat) < 32 \<or> (of_char c :: nat) = 127 \<or>
      (of_char c :: nat) = 194 \<and> s \<noteq> [] \<and> 128 \<le> (of_char (hd s) :: nat) \<and> (of_char (hd s) :: nat) < 160 \<or> hasControl s)"

definition normalizeDiagnosticValue :: "string \<Rightarrow> string \<Rightarrow> nat \<Rightarrow> filterError + string" where
  "normalizeDiagnosticValue name raw maxLength =
     (let value = trimSpace raw
      in if maxLength < length value then Inl (ExceedsBytes name maxLength)
         else if hasControl value then Inl (InvalidValue name)
         else Inr value)"

definition normalizeDiagnosticStatus :: "string \<Rightarrow> filterError + string" where
  "normalizeDiagnosticStatus raw =
     (let value = toLower (trimSpace raw)
      in if value = [] \<or> value = ''unknown'' \<or> value = ''other'' then Inr value
         else if length value = 3 \<and> tl value = ''xx'' \<and> hd value \<in> set ''12345'' then Inr value
         else (case parseInt64 value of
             None \<Rightarrow> Inl (InvalidStatus value)
           | Some code \<Rightarrow>
               if code < 100 \<or> 599 < code \<or> formatInt code \<noteq> value then Inl (InvalidStatus value) else Inr value))"

definition normalizeDiagnosticMinLatency :: "string \<Rightarrow> filterError + i64 option" where
  "normalizeDiagnosticMinLatency raw =
     (let value = trimSpace raw
      in if value = [] then Inr None
         else (case parseInt64 value of
             None \<Rightarrow> Inl (InvalidMinLatency value)
           | Some threshold \<Rightarrow>
               if threshold \<le> 0 \<or> formatInt threshold \<noteq> value then Inl (InvalidMinLatency value)
               else Inr (Some (word_of_int threshold))))"

definition parseUsageDiagnosticSelection :: "mapQuery \<Rightarrow> filterError + diagnosticRequest" where
  "parseUsageDiagnosticSelection query =
     (case normalizeDiagnosticValue ''provider'' (queryGet query ''provider'') 128 of Inl e \<Rightarrow> Inl e | Inr provider \<Rightarrow>
     (case normalizeDiagnosticValue ''model'' (queryGet query ''model'') 128 of Inl e \<Rightarrow> Inl e | Inr model \<Rightarrow>
     (case normalizeDiagnosticValue ''model_alias'' (queryGet query ''model_alias'') 128 of Inl e \<Rightarrow> Inl e | Inr modelAlias \<Rightarrow>
     (case normalizeDiagnosticValue ''account'' (queryGet query ''account'') 128 of Inl e \<Rightarrow> Inl e | Inr account \<Rightarrow>
     (case normalizeDiagnosticValue ''endpoint'' (queryGet query ''endpoint'') 256 of Inl e \<Rightarrow> Inl e | Inr endpoint \<Rightarrow>
      if CHR ''?'' \<in> set endpoint \<or> CHR ''#'' \<in> set endpoint then Inl (InvalidEndpoint endpoint) else
     (case normalizeDiagnosticStatus (queryGet query ''status'') of Inl e \<Rightarrow> Inl e | Inr status \<Rightarrow>
     (case normalizeDiagnosticValue ''request_id'' (queryGet query ''request_id'') 256 of Inl e \<Rightarrow> Inl e | Inr requestID \<Rightarrow>
     (case normalizeDiagnosticMinLatency (queryGet query ''min_latency_ms'') of Inl e \<Rightarrow> Inl e | Inr minLatencyMS \<Rightarrow>
      Inr \<lparr>uw_Range = [], uw_StartTime = None, uw_EndTime = None, uw_FixedWindowEnd = None, ut_Provider = provider,
           dq_Model = model, dq_ModelAlias = modelAlias, dq_Account = account, dq_Endpoint = endpoint, dq_Status = status,
           dq_RequestID = requestID, dq_MinLatencyMS = minLatencyMS\<rparr>))))))))"

definition diagnosticParameters :: "string list" where
  "diagnosticParameters =
     [''model_alias'', ''account'', ''endpoint'', ''status'', ''request_id'', ''min_latency_ms'', ''window_end'']"

definition hasUsageDiagnosticSelection :: "mapQuery \<Rightarrow> bool" where
  "hasUsageDiagnosticSelection query \<longleftrightarrow> list_ex (\<lambda>name. trimSpace (queryGet query name) \<noteq> []) diagnosticParameters"

definition diagnosticWindow :: "instant \<Rightarrow> usageWindow" where
  "diagnosticWindow windowEnd =
     \<lparr>uw_Range = ''24h'', uw_StartTime = Some (windowEnd - 24 * hour), uw_EndTime = Some windowEnd, uw_FixedWindowEnd = Some windowEnd\<rparr>"

definition parseFixedUsageDiagnosticWindow ::
  "(string \<Rightarrow> instant option) \<Rightarrow> mapQuery option \<Rightarrow> instant \<Rightarrow> filterError + usageWindow" where
  "parseFixedUsageDiagnosticWindow parseRFC3339 req anchor =
     (case req of
        None \<Rightarrow> Inr (diagnosticWindow anchor)
      | Some query \<Rightarrow>
          (let rangeValue = trimSpace (queryGet query ''range''); value = trimSpace (queryGet query ''window_end'')
           in if rangeValue \<noteq> [] \<and> rangeValue \<noteq> ''24h'' then Inl RangeRequires24h
              else if value = [] then Inr (diagnosticWindow anchor)
              else (case parseRFC3339 value of
                  None \<Rightarrow> Inl (InvalidWindowEnd value)
                | Some parsed \<Rightarrow> Inr (diagnosticWindow parsed))))"

definition withWindow :: "'b usageWindow_scheme \<Rightarrow> 'a usageWindow_scheme \<Rightarrow> 'a usageWindow_scheme" where
  "withWindow w f = f\<lparr>uw_Range := uw_Range w, uw_StartTime := uw_StartTime w, uw_EndTime := uw_EndTime w,
     uw_FixedWindowEnd := uw_FixedWindowEnd w\<rparr>"

definition emptySelection :: diagnosticRequest where
  "emptySelection = usageWindow.extend emptyWindow
     \<lparr>ut_Provider = [], dq_Model = [], dq_ModelAlias = [], dq_Account = [], dq_Endpoint = [], dq_Status = [],
      dq_RequestID = [], dq_MinLatencyMS = None\<rparr>"

definition parseFixedUsageDiagnosticFilterQuery ::
  "(string \<Rightarrow> instant option) \<Rightarrow> mapQuery option \<Rightarrow> instant \<Rightarrow> filterError + diagnosticRequest" where
  "parseFixedUsageDiagnosticFilterQuery parseRFC3339 req anchor =
     (case parseFixedUsageDiagnosticWindow parseRFC3339 None anchor of
        Inl e \<Rightarrow> Inl e
      | Inr window \<Rightarrow> (case req of
            None \<Rightarrow> Inr (withWindow window emptySelection)
          | Some query \<Rightarrow> (case parseFixedUsageDiagnosticWindow parseRFC3339 (Some query) anchor of
                Inl e \<Rightarrow> Inl e
              | Inr window \<Rightarrow> (case parseUsageDiagnosticSelection query of
                    Inl e \<Rightarrow> Inl e
                  | Inr selection \<Rightarrow> Inr (withWindow window selection)))))"

section \<open>Lists\<close>

definition parsePage :: "mapQuery \<Rightarrow> filterError + int" where
  "parsePage query =
     (let pageValue = trimSpace (queryGet query ''page'')
      in if pageValue = [] then Inr 1
         else (case parseInt64 pageValue of
             None \<Rightarrow> Inl (InvalidPage pageValue)
           | Some page \<Rightarrow> if page < 1 then Inl (InvalidPage pageValue) else Inr page))"

definition parsePageSize :: "mapQuery \<Rightarrow> filterError + int" where
  "parsePageSize query =
     (let pageSizeValue = trimSpace (queryGet query ''page_size'')
      in if query ''limit'' \<noteq> None then Inl RemovedLimit
         else if pageSizeValue = [] then Inr DefaultUsageEventsLimit
         else (case parseInt64 pageSizeValue of
             None \<Rightarrow> Inl (InvalidPageSize pageSizeValue)
           | Some pageSize \<Rightarrow>
               if pageSize \<notin> set allowedUsageEventsPageSizes then Inl (InvalidPageSize pageSizeValue) else Inr pageSize))"

definition listRequest :: "diagnosticRequest \<Rightarrow> int \<Rightarrow> int \<Rightarrow> int \<Rightarrow> eventListRequest" where
  "listRequest selection page pageSize offset = diagnosticRequest.extend selection
     \<lparr>lq_Page = page, lq_PageSize = pageSize, lq_Offset = offset, lq_Source = [], lq_AuthIndex = [], lq_Result = []\<rparr>"

definition parseUsageEventListFilterQuery ::
  "(string \<Rightarrow> instant option) \<Rightarrow> zone \<Rightarrow> mapQuery option \<Rightarrow> instant \<Rightarrow> filterError + eventListRequest" where
  "parseUsageEventListFilterQuery parseRFC3339 zone req anchor =
     (case parseUsageWindowQuery parseRFC3339 zone req anchor of Inl e \<Rightarrow> Inl e | Inr window \<Rightarrow>
     (case req of
        None \<Rightarrow> Inr (listRequest (withWindow window emptySelection) 1 DefaultUsageEventsLimit 0)
      | Some query \<Rightarrow>
         (case (if hasUsageDiagnosticSelection query then parseFixedUsageDiagnosticWindow parseRFC3339 (Some query) anchor
                else Inr window) of Inl e \<Rightarrow> Inl e | Inr window \<Rightarrow>
         (case parsePage query of Inl e \<Rightarrow> Inl e | Inr page \<Rightarrow>
         (case parsePageSize query of Inl e \<Rightarrow> Inl e | Inr pageSize \<Rightarrow>
         (case parseUsageDiagnosticSelection query of Inl e \<Rightarrow> Inl e | Inr selection \<Rightarrow>
          (let filt = (listRequest (withWindow window selection) page pageSize (wrap64 (wrap64 (page - 1) * pageSize)))
                 \<lparr>lq_Source := trimSpace (queryGet query ''source''), lq_AuthIndex := trimSpace (queryGet query ''auth_index''),
                  lq_Result := trimSpace (queryGet query ''result'')\<rparr>
           in if lq_Result filt \<noteq> [] \<and> lq_Result filt \<noteq> ''success'' \<and> lq_Result filt \<noteq> ''failed''
              then Inl (InvalidResult (lq_Result filt)) else Inr filt)))))))"

definition exportRefuses :: "string list" where
  "exportRefuses = [''page'', ''page_size'', ''limit'', ''source'', ''auth_index'']"

definition parseUsageEventExportFilterQuery ::
  "(string \<Rightarrow> instant option) \<Rightarrow> zone \<Rightarrow> mapQuery option \<Rightarrow> instant \<Rightarrow> int \<Rightarrow> filterError + eventListRequest" where
  "parseUsageEventExportFilterQuery parseRFC3339 zone req anchor limit =
     (case req of
        None \<Rightarrow> Inl ExportRequiresWindowEnd
      | Some query \<Rightarrow>
         (if trimSpace (queryGet query ''window_end'') = [] then Inl ExportRequiresWindowEnd
          else (case find (\<lambda>name. trimSpace (queryGet query name) \<noteq> []) exportRefuses of
              Some name \<Rightarrow> Inl (ExportDoesNotAccept name)
            | None \<Rightarrow> (case parseUsageEventListFilterQuery parseRFC3339 zone (Some query) anchor of
                  Inl e \<Rightarrow> Inl e
                | Inr filt \<Rightarrow> Inr (filt\<lparr>lq_Page := 1, lq_PageSize := limit + 1, lq_Offset := 0\<rparr>)))))"

text \<open>The source drop-down sends a usage identity, which selects by account.\<close>

definition applyUsageEventsSourceFilter :: "eventListRequest \<Rightarrow> eventListRequest" where
  "applyUsageEventsSourceFilter filt =
     (let source = trimSpace (lq_Source filt)
      in if source = [] then filt else filt\<lparr>lq_AuthIndex := source, lq_Source := []\<rparr>)"

section \<open>What a range selects\<close>

abbreviation selected :: "'a usageTimeFilter_scheme \<Rightarrow> instant \<Rightarrow> bool" where
  "selected f t \<equiv> applyUsageQueryWindow (repositoryScope f) t"

abbreviation rangeOf :: "mapQuery \<Rightarrow> string" where
  "rangeOf query \<equiv> (let v = trimSpace (queryGet query ''range'') in if v = [] then ''all'' else v)"

lemma selected_iff:
  "selected f t \<longleftrightarrow> (case uw_StartTime f of None \<Rightarrow> True | Some a \<Rightarrow> a \<le> t) \<and>
     (case uw_EndTime f of None \<Rightarrow> True | Some b \<Rightarrow> t \<le> b)"
  by (simp add: applyUsageQueryWindow_def repositoryScope_def)

lemma whole_days:
  "((a * daySeconds - off) * second \<le> t \<and> t \<le> ((b + 1) * daySeconds - off) * second - nanosecond) \<longleftrightarrow>
     a \<le> localDay (fixedZone off) t \<and> localDay (fixedZone off) t \<le> b"
proof -
  define d where "d = localDay (fixedZone off) t"
  have d: "(d * daySeconds - off) * second \<le> t" "t < ((d + 1) * daySeconds - off) * second"
    using localDay_fixed [of off t d] by (simp_all add: d_def)
  have mono: "(i * daySeconds - off) * second \<le> (j * daySeconds - off) * second \<longleftrightarrow> i \<le> j" for i j
    by (simp add: mult_le_cancel_right daySeconds_def second_def)
  have "(a * daySeconds - off) * second \<le> t \<longleftrightarrow> a \<le> d"
  proof
    assume "(a * daySeconds - off) * second \<le> t"
    then have "\<not> ((d + 1) * daySeconds - off) * second \<le> (a * daySeconds - off) * second" using d(2) by linarith
    then show "a \<le> d" unfolding mono by linarith
  next
    assume "a \<le> d"
    then show "(a * daySeconds - off) * second \<le> t" using d(1) mono [of a d] by linarith
  qed
  moreover have "t < ((b + 1) * daySeconds - off) * second \<longleftrightarrow> d \<le> b"
  proof
    assume "t < ((b + 1) * daySeconds - off) * second"
    then have "\<not> ((b + 1) * daySeconds - off) * second \<le> (d * daySeconds - off) * second" using d(1) by linarith
    then show "d \<le> b" unfolding mono by linarith
  next
    assume "d \<le> b"
    then show "t < ((b + 1) * daySeconds - off) * second" using d(2) mono [of "d + 1" "b + 1"] by linarith
  qed
  ultimately show ?thesis unfolding d_def nanosecond_def by linarith
qed

lemma days_in_order:
  assumes "\<not> ((d2 + 1) * daySeconds - off) * second - nanosecond < (d1 * daySeconds - off) * second"
  shows "d1 \<le> d2"
proof -
  have "localDay (fixedZone off) ((d1 * daySeconds - off) * second) = d1"
    by (simp add: localDay_fixed daySeconds_def second_def)
  with assms whole_days [of d1 off "(d1 * daySeconds - off) * second" d2] show ?thesis by simp
qed

lemma addDays_clock: "addDays (fixedZone off) n ((d * daySeconds - off) * second) = ((d + n) * daySeconds - off) * second"
  by (simp add: addDays_def localSeconds_fixed algebra_simps)

lemma custom_dates:
  "parseDateOnly v = Some d \<Longrightarrow> parseCustomUsageRangeBoundary p (fixedZone off) v endOfDay =
     Some (if endOfDay then ((d + 1) * daySeconds - off) * second - nanosecond else (d * daySeconds - off) * second)"
  by (simp add: parseCustomUsageRangeBoundary_def clockOfDay_def Let_def addDays_clock)

text \<open>
  C38. In a zone with a fixed offset, the window of a range selects the instants its name says: all of them, those of
  the local day of the request or of the day before, those of the local days from the first to the last date
  of a custom range, which are in order, or those of the preset span that ends at the request. A range of any
  other name is refused.
\<close>
theorem usage_window_exact:
  assumes parse: "parseUsageTimeFilterQuery p (fixedZone off) (Some query) anchor = Inr f"
  defines "day_of \<equiv> localDay (fixedZone off)" and "start_text \<equiv> trimSpace (queryGet query ''start'')"
    and "end_text \<equiv> trimSpace (queryGet query ''end'')"
  shows "uw_Range f = rangeOf query \<and>
    (case uw_Range f of rg \<Rightarrow>
      (if rg = ''all'' then \<forall>t. selected f t
       else if rg = ''today'' then \<forall>t. selected f t \<longleftrightarrow> day_of t = day_of anchor
       else if rg = ''yesterday'' then \<forall>t. selected f t \<longleftrightarrow> day_of t = day_of anchor - 1
       else if rg = ''custom'' then
         (\<forall>d1 d2. parseDateOnly start_text = Some d1 \<and> parseDateOnly end_text = Some d2 \<longrightarrow>
            d1 \<le> d2 \<and> (\<forall>t. selected f t \<longleftrightarrow> d1 \<le> day_of t \<and> day_of t \<le> d2))
       else \<exists>preset. presetUsageRangeDurations rg = Some preset \<and> (\<forall>t. selected f t \<longleftrightarrow> anchor - preset \<le> t \<and> t \<le> anchor)))"
proof -
  define r where "r = rangeOf query"
  from parse obtain w where w: "parseUsageWindowQuery p (fixedZone off) (Some query) anchor = Inr w"
    and f: "f = usageWindow.extend w \<lparr>ut_Provider = trimSpace (queryGet query ''provider'')\<rparr>"
    by (auto simp: parseUsageTimeFilterQuery_def split: sum.splits)
  have sel: "selected f t \<longleftrightarrow> (case uw_StartTime w of None \<Rightarrow> True | Some a \<Rightarrow> a \<le> t) \<and>
     (case uw_EndTime w of None \<Rightarrow> True | Some b \<Rightarrow> t \<le> b)" for t
    by (simp add: selected_iff f usageWindow.defs)
  note w' = w [unfolded parseUsageWindowQuery_def option.case Let_def, folded r_def [unfolded Let_def]]
  have range: "uw_Range w = r" using w' by (auto split: if_splits option.splits)
  have fr: "uw_Range f = r" by (simp add: f usageWindow.defs range)
  consider "r = ''all''" | "r = ''today''" | "r = ''yesterday''" | "r = ''custom''"
    | "r \<notin> {''all'', ''today'', ''yesterday'', ''custom''}" by auto
  then show ?thesis
  proof cases
    case 1
    have "uw_StartTime w = None" "uw_EndTime w = None" using w' 1 by auto
    then have "\<forall>t. selected f t" by (intro allI) (simp add: sel)
    with 1 show ?thesis by (simp add: fr r_def [symmetric])
  next
    case 2
    let ?d = "localDay (fixedZone off) anchor"
    have b: "uw_StartTime w = Some ((?d * daySeconds - off) * second)"
      "uw_EndTime w = Some (((?d + 1) * daySeconds - off) * second - nanosecond)"
      using w' 2 by (auto simp: startOfDay_fixed addDays_clock)
    have "\<forall>t. selected f t \<longleftrightarrow> day_of t = day_of anchor"
      unfolding sel b option.case whole_days day_of_def by auto
    with 2 show ?thesis by (simp add: fr r_def [symmetric])
  next
    case 3
    let ?d = "localDay (fixedZone off) anchor - 1"
    have b: "uw_StartTime w = Some ((?d * daySeconds - off) * second)"
      "uw_EndTime w = Some (((?d + 1) * daySeconds - off) * second - nanosecond)"
      using w' 3 by (auto simp: startOfDay_fixed addDays_clock)
    have "\<forall>t. selected f t \<longleftrightarrow> day_of t = day_of anchor - 1"
      unfolding sel b option.case whole_days day_of_def by auto
    with 3 show ?thesis by (simp add: fr r_def [symmetric])
  next
    case 4
    have "d1 \<le> d2 \<and> (\<forall>t. selected f t \<longleftrightarrow> d1 \<le> day_of t \<and> day_of t \<le> d2)"
      if "parseDateOnly start_text = Some d1" "parseDateOnly end_text = Some d2" for d1 d2
    proof -
      have "uw_StartTime w = Some ((d1 * daySeconds - off) * second)"
        "uw_EndTime w = Some (((d2 + 1) * daySeconds - off) * second - nanosecond)"
        "\<not> ((d2 + 1) * daySeconds - off) * second - nanosecond < (d1 * daySeconds - off) * second"
        using w' 4 that by (auto simp: start_text_def end_text_def custom_dates split: if_splits)
      then show ?thesis using whole_days [of d1 off _ d2] days_in_order [of d2 off d1]
        by (simp add: sel day_of_def)
    qed
    with 4 show ?thesis by (simp add: fr r_def [symmetric])
  next
    case 5
    then show ?thesis using w' by (auto simp: fr r_def [symmetric] sel split: option.splits)
  qed
qed

theorem usage_window_exact_witness:
  "\<exists>f. parseUsageTimeFilterQuery (\<lambda>_. None) (fixedZone 28800) (Some [''range'' \<mapsto> ''today'']) 0 = Inr f \<and>
     selected f (hour * 15) \<and> \<not> selected f (hour * 16)"
proof -
  let ?q = "[''range'' \<mapsto> ''today'']"
  have t: "trimSpace ''today'' = ''today''" by code_simp
  then obtain f where f: "parseUsageTimeFilterQuery (\<lambda>_. None) (fixedZone 28800) (Some ?q) 0 = Inr f"
    by (auto simp: parseUsageTimeFilterQuery_def parseUsageWindowQuery_def queryGet_def Let_def)
  from usage_window_exact [OF f] have "\<forall>t. selected f t \<longleftrightarrow> localDay (fixedZone 28800) t = localDay (fixedZone 28800) 0"
    by (simp add: queryGet_def t)
  moreover have "localDay (fixedZone 28800) (hour * 15) = localDay (fixedZone 28800) 0"
    "localDay (fixedZone 28800) (hour * 16) \<noteq> localDay (fixedZone 28800) 0"
    by (simp_all add: localDay_def localSeconds_fixed daySeconds_def hour_def second_def)
  ultimately show ?thesis using f by blast
qed

section \<open>What the parser lets through\<close>

definition canonicalText :: "nat \<Rightarrow> string \<Rightarrow> bool" where
  "canonicalText n s \<longleftrightarrow> trimSpace s = s \<and> length s \<le> n \<and> \<not> hasControl s"

definition canonicalStatus :: "string \<Rightarrow> bool" where
  "canonicalStatus s \<longleftrightarrow> s \<in> {[], ''unknown'', ''other'', ''1xx'', ''2xx'', ''3xx'', ''4xx'', ''5xx''} \<or>
     (\<exists>code. 100 \<le> code \<and> code \<le> 599 \<and> s = formatInt code)"

definition canonicalSelection :: "'a diagnosticRequest_scheme \<Rightarrow> bool" where
  "canonicalSelection f \<longleftrightarrow> canonicalText 128 (ut_Provider f) \<and> canonicalText 128 (dq_Model f) \<and>
     canonicalText 128 (dq_ModelAlias f) \<and> canonicalText 128 (dq_Account f) \<and> canonicalText 256 (dq_Endpoint f) \<and>
     CHR ''?'' \<notin> set (dq_Endpoint f) \<and> CHR ''#'' \<notin> set (dq_Endpoint f) \<and> canonicalText 256 (dq_RequestID f) \<and>
     canonicalStatus (dq_Status f) \<and> (case dq_MinLatencyMS f of None \<Rightarrow> True | Some m \<Rightarrow> 0 <s m)"

lemma canonical_value: "normalizeDiagnosticValue name raw n = Inr v \<Longrightarrow> canonicalText n v"
  by (auto simp: normalizeDiagnosticValue_def canonicalText_def Let_def split: if_splits)

lemma canonical_status: "normalizeDiagnosticStatus raw = Inr v \<Longrightarrow> canonicalStatus v"
proof -
  assume v: "normalizeDiagnosticStatus raw = Inr v"
  define w where "w = toLower (trimSpace raw)"
  define short where "short \<longleftrightarrow> length w = 3 \<and> tl w = ''xx'' \<and> hd w \<in> set ''12345''"
  have "v = w \<and> (w = [] \<or> w = ''unknown'' \<or> w = ''other'' \<or> short \<or>
      (\<exists>code. \<not> code < 100 \<and> \<not> 599 < code \<and> formatInt code = w))"
    using v unfolding normalizeDiagnosticStatus_def Let_def w_def [symmetric] short_def [symmetric]
    by (cases "parseInt64 w") (auto simp only: option.case sum.inject sum.distinct split: if_split_asm)
  then consider "v = []" | "v = ''unknown''" | "v = ''other''" | "length v = 3 \<and> tl v = ''xx'' \<and> hd v \<in> set ''12345''"
    | code where "100 \<le> code" "code \<le> 599" "formatInt code = v"
    unfolding short_def not_less by metis
  then show ?thesis
  proof cases
    case 4
    then obtain c where "v = [c, CHR ''x'', CHR ''x'']" "c \<in> set ''12345''" by (cases v) auto
    then show ?thesis by (auto simp: canonicalStatus_def)
  qed (auto simp: canonicalStatus_def)
qed

lemma canonical_latency: "normalizeDiagnosticMinLatency raw = Inr (Some m) \<Longrightarrow> 0 <s m"
proof -
  assume a: "normalizeDiagnosticMinLatency raw = Inr (Some m)"
  then obtain i where i: "parseInt64 (trimSpace raw) = Some i" "0 < i" "m = word_of_int i"
    by (auto simp: normalizeDiagnosticMinLatency_def Let_def split: if_splits option.splits)
  from parseInt64_range [OF i(1)] have "sint (word_of_int i :: i64) = i"
    by (intro sint_of_int_i64) (auto simp: in_int64_def int64_min_def int64_max_def)
  with i(2,3) show ?thesis by (simp add: word_sless_alt)
qed

lemma canonical_selection:
  assumes "parseUsageDiagnosticSelection query = Inr f"
  shows "canonicalSelection f \<and> (dq_RequestID f \<noteq> [] \<longrightarrow> hasUsageDiagnosticSelection query)"
proof -
  have req: "normalizeDiagnosticValue n raw k = Inr v \<Longrightarrow> v = trimSpace raw" for n raw k v
    by (auto simp: normalizeDiagnosticValue_def Let_def split: if_splits)
  from assms obtain p m a c e s r l where
    n: "normalizeDiagnosticValue ''provider'' (queryGet query ''provider'') 128 = Inr p"
    "normalizeDiagnosticValue ''model'' (queryGet query ''model'') 128 = Inr m"
    "normalizeDiagnosticValue ''model_alias'' (queryGet query ''model_alias'') 128 = Inr a"
    "normalizeDiagnosticValue ''account'' (queryGet query ''account'') 128 = Inr c"
    "normalizeDiagnosticValue ''endpoint'' (queryGet query ''endpoint'') 256 = Inr e"
    "normalizeDiagnosticStatus (queryGet query ''status'') = Inr s"
    "normalizeDiagnosticValue ''request_id'' (queryGet query ''request_id'') 256 = Inr r"
    "normalizeDiagnosticMinLatency (queryGet query ''min_latency_ms'') = Inr l"
    and e: "CHR ''?'' \<notin> set e" "CHR ''#'' \<notin> set e"
    and f: "f = \<lparr>uw_Range = [], uw_StartTime = None, uw_EndTime = None, uw_FixedWindowEnd = None, ut_Provider = p,
           dq_Model = m, dq_ModelAlias = a, dq_Account = c, dq_Endpoint = e, dq_Status = s, dq_RequestID = r, dq_MinLatencyMS = l\<rparr>"
    unfolding parseUsageDiagnosticSelection_def by (auto split: sum.splits if_splits)
  have "case l of None \<Rightarrow> True | Some m \<Rightarrow> 0 <s m" using n(8) canonical_latency by (cases l) auto
  then have "canonicalSelection f"
    using n e canonical_value canonical_status by (simp add: canonicalSelection_def f)
  moreover have "hasUsageDiagnosticSelection query" if "r \<noteq> []"
    using req [OF n(7)] that by (simp add: hasUsageDiagnosticSelection_def diagnosticParameters_def)
  ultimately show ?thesis by (simp add: f)
qed

lemma page_positive: "parsePage query = Inr page \<Longrightarrow> 1 \<le> page \<and> page < 2 ^ 63"
  by (auto simp: parsePage_def Let_def in_int64_def int64_max_def dest: parseInt64_range split: if_splits option.splits)

lemma page_size_allowed: "parsePageSize query = Inr pageSize \<Longrightarrow> pageSize \<in> set allowedUsageEventsPageSizes"
  by (auto simp: parsePageSize_def Let_def DefaultUsageEventsLimit_def allowedUsageEventsPageSizes_def split: if_splits option.splits)

lemma diagnostic_window:
  "parseFixedUsageDiagnosticWindow p req anchor = Inr w \<Longrightarrow> \<exists>windowEnd. w = diagnosticWindow windowEnd"
  by (auto simp: parseFixedUsageDiagnosticWindow_def Let_def split: option.splits if_splits)

text \<open>The parts of a list filter that was let through.\<close>

lemma list_filter_parts:
  assumes "parseUsageEventListFilterQuery p zone (Some query) anchor = Inr f"
  obtains window page pageSize selection where
    "(if hasUsageDiagnosticSelection query then parseFixedUsageDiagnosticWindow p (Some query) anchor
      else parseUsageWindowQuery p zone (Some query) anchor) = Inr window"
    "parsePage query = Inr page" "parsePageSize query = Inr pageSize" "parseUsageDiagnosticSelection query = Inr selection"
    "f = (listRequest (withWindow window selection) page pageSize (wrap64 (wrap64 (page - 1) * pageSize)))
       \<lparr>lq_Source := trimSpace (queryGet query ''source''), lq_AuthIndex := trimSpace (queryGet query ''auth_index''),
        lq_Result := trimSpace (queryGet query ''result'')\<rparr>"
    "lq_Result f \<in> {[], ''success'', ''failed''}"
  using assms unfolding parseUsageEventListFilterQuery_def Let_def option.case
  by (cases "hasUsageDiagnosticSelection query") (auto split: sum.splits if_split_asm)

lemma list_request_fields [simp]:
  "canonicalSelection (listRequest (withWindow w selection) page pageSize offset) = canonicalSelection selection"
  "dq_RequestID (listRequest (withWindow w selection) page pageSize offset) = dq_RequestID selection"
  "uw_StartTime (listRequest (withWindow w selection) page pageSize offset) = uw_StartTime w"
  "uw_EndTime (listRequest (withWindow w selection) page pageSize offset) = uw_EndTime w"
  "lq_Page (listRequest (withWindow w selection) page pageSize offset) = page"
  "lq_PageSize (listRequest (withWindow w selection) page pageSize offset) = pageSize"
  "lq_Offset (listRequest (withWindow w selection) page pageSize offset) = offset"
  by (simp_all add: listRequest_def withWindow_def canonicalSelection_def diagnosticRequest.defs)

lemma list_request_update [simp]:
  "canonicalSelection (f\<lparr>lq_Source := a\<rparr>) = canonicalSelection f" "canonicalSelection (f\<lparr>lq_AuthIndex := a\<rparr>) = canonicalSelection f"
  "canonicalSelection (f\<lparr>lq_Result := a\<rparr>) = canonicalSelection f"
  by (simp_all add: canonicalSelection_def)

text \<open>
  C39. A request for evidence that the parser lets through is canonical: its page, page size and result are among those
  allowed; provider, model, alias, account, endpoint and request id are trimmed, bounded and free of control
  characters, the status is a class, a code or one of the named groups, the latency bound is positive; source and
  authentication index are the trimmed parameters, of any length and any characters. If it selects by a diagnostic
  parameter its window is the 24 hours up to its end. The evidence list never refuses it, and as long as the end of the page can be counted
  it is the page of that number of the whole selection.
\<close>
theorem evidence_filter_canonical:
  assumes parse: "parseUsageEventListFilterQuery p zone (Some query) anchor = Inr f"
  defines "rf \<equiv> repositoryListFilter f"
  shows "canonicalSelection f \<and> 1 \<le> lq_Page f \<and> lq_PageSize f \<in> set allowedUsageEventsPageSizes \<and>
    lq_Result f \<in> {[], ''success'', ''failed''} \<and>
    lq_Source f = trimSpace (queryGet query ''source'') \<and> lq_AuthIndex f = trimSpace (queryGet query ''auth_index'') \<and>
    (hasUsageDiagnosticSelection query \<longrightarrow>
      (\<exists>windowEnd. uw_StartTime f = Some (windowEnd - 24 * hour) \<and> uw_EndTime f = Some windowEnd)) \<and>
    (\<forall>stored e. listUsageEvents rf stored \<noteq> Some (Inl e)) \<and>
    (lq_Page f * lq_PageSize f < 2 ^ 63 \<longrightarrow> rf = onPage rf (nat (lq_Page f)))"
proof -
  obtain window page pageSize selection where
    w: "(if hasUsageDiagnosticSelection query then parseFixedUsageDiagnosticWindow p (Some query) anchor
      else parseUsageWindowQuery p zone (Some query) anchor) = Inr window"
    and page: "parsePage query = Inr page" and size: "parsePageSize query = Inr pageSize"
    and selection: "parseUsageDiagnosticSelection query = Inr selection"
    and f: "f = (listRequest (withWindow window selection) page pageSize (wrap64 (wrap64 (page - 1) * pageSize)))
       \<lparr>lq_Source := trimSpace (queryGet query ''source''), lq_AuthIndex := trimSpace (queryGet query ''auth_index''),
        lq_Result := trimSpace (queryGet query ''result'')\<rparr>"
    and result: "lq_Result f \<in> {[], ''success'', ''failed''}"
    by (rule list_filter_parts [OF parse])
  note page = page_positive [OF page] and size = page_size_allowed [OF size] and selection = canonical_selection [OF selection]
  have window: "\<exists>windowEnd. uw_StartTime f = Some (windowEnd - 24 * hour) \<and> uw_EndTime f = Some windowEnd"
    if "hasUsageDiagnosticSelection query"
    using w that diagnostic_window [of p "Some query" anchor window] by (auto simp: f diagnosticWindow_def)
  have rf: "df_RequestID rf = dq_RequestID f" "us_StartTime rf = uw_StartTime f" "us_EndTime rf = uw_EndTime f"
    by (simp_all add: rf_def repositoryListFilter_def repositoryDiagnosticFilter_def repositoryScope_def
        usageDiagnosticFilter.defs usageTimeScope.defs)
  have "dq_RequestID f \<noteq> [] \<Longrightarrow> uw_StartTime f \<noteq> None \<and> uw_EndTime f \<noteq> None" using window selection by (auto simp: f)
  then have "\<not> (trimSpace (df_RequestID rf) \<noteq> [] \<and> (us_StartTime rf = None \<or> us_EndTime rf = None))"
    unfolding rf by (cases "dq_RequestID f = []") auto
  then have accepted: "listUsageEvents rf stored \<noteq> Some (Inl e)" for stored e
    by (auto simp: listUsageEvents_def Let_def split: prod.splits)
  have offset: "rf = onPage rf (nat page)" if "page * pageSize < 2 ^ 63"
  proof -
    have s: "1 \<le> pageSize" using size by (auto simp: allowedUsageEventsPageSizes_def)
    have "(page - 1) * pageSize \<le> page * pageSize" "0 \<le> (page - 1) * pageSize" using page s by (simp_all add: mult_right_mono)
    then have "wrap64 (wrap64 (page - 1) * pageSize) = (page - 1) * pageSize" using page that by (simp add: wrap64_id)
    then show ?thesis using page
      by (simp add: rf_def repositoryListFilter_def onPage_def usageDiagnosticFilter.defs f)
  qed
  show ?thesis using selection page size result window accepted offset by (auto simp: f)
qed

theorem evidence_filter_canonical_witness:
  "\<exists>f. parseUsageEventListFilterQuery (\<lambda>_. None) (fixedZone 0) (Some [''status'' \<mapsto> ''429'', ''page'' \<mapsto> ''3'']) 0 = Inr f \<and>
     canonicalSelection f \<and> uw_EndTime f \<noteq> None"
proof -
  let ?q = "[''status'' \<mapsto> ''429'', ''page'' \<mapsto> ''3'']"
  have t: "trimSpace ''429'' = ''429''" "trimSpace ''3'' = ''3''" "toLower ''429'' = ''429''" "parseInt64 ''429'' = Some 429"
    "parseInt64 ''3'' = Some 3" "formatInt 429 = ''429''" by code_simp+
  have f: "\<exists>f. parseUsageEventListFilterQuery (\<lambda>_. None) (fixedZone 0) (Some ?q) 0 = Inr f"
    by (simp add: parseUsageEventListFilterQuery_def parseUsageWindowQuery_def queryGet_def Let_def t hasUsageDiagnosticSelection_def
        diagnosticParameters_def parseFixedUsageDiagnosticWindow_def parsePage_def parsePageSize_def
        parseUsageDiagnosticSelection_def normalizeDiagnosticValue_def normalizeDiagnosticStatus_def
        normalizeDiagnosticMinLatency_def listRequest_def diagnosticRequest.defs)
  then obtain f where f: "parseUsageEventListFilterQuery (\<lambda>_. None) (fixedZone 0) (Some ?q) 0 = Inr f" by blast
  have "hasUsageDiagnosticSelection ?q"
    by (simp add: hasUsageDiagnosticSelection_def diagnosticParameters_def queryGet_def t)
  with evidence_filter_canonical [OF f] f show ?thesis by auto
qed

end
