(* ===== verification/Trend.thy ===== *)
theory Trend
  imports Grouping UsageFilter
begin

text \<open>
  The trend of the analytics (\<open>repository/analytics_trend.go\<close>, \<open>analytics_core.go\<close>, bucket expressions of
  \<open>analytics_sql.go\<close>): the sums of a window by UTC hour or by local day, from raw segments and rollups. By
  hour the source does not matter; by day it does not where every UTC hour lies in one local day, and an event
  moves to another day where it does not. \<open>strftime\<close> is that of \<open>LocalTime\<close>, with the zone of the process;
  the parser of RFC 3339 times is a parameter, and \<open>None\<close> is a bucket that it refuses.
\<close>

section \<open>Buckets\<close>

definition analyticsTrendBucketsByDay :: "analyticsFilter \<Rightarrow> bool" where
  "analyticsTrendBucketsByDay filt \<longleftrightarrow> trimSpace (fl_Granularity filt) = ''day''"

definition analyticsBucket :: "zone \<Rightarrow> bool \<Rightarrow> instant \<Rightarrow> string" where
  "analyticsBucket zone byDay t = (if byDay then formatLocalDate zone t else formatUTCHour t)"

text \<open>\<open>Format("2006-01-02 15:04 -0700")\<close> of an instant in the zone.\<close>

definition formatLocalMinute :: "zone \<Rightarrow> instant \<Rightarrow> string" where
  "formatLocalMinute zone t =
     (let s = localSeconds zone t mod daySeconds; offset = zone (t div second); minutes = \<bar>offset\<bar> div 60
      in formatLocalDate zone t @ '' '' @ padInt 2 (s div 3600) @ '':'' @ padInt 2 (s div 60 mod 60) @ '' '' @
         (if offset < 0 \<and> minutes \<noteq> 0 then ''-'' else ''+'') @ padInt 2 (minutes div 60) @ padInt 2 (minutes mod 60))"

section \<open>Rows and points\<close>

text \<open>The columns the trend selects; the others of the row stay zero.\<close>

definition analyticsSummaryTrendSelect :: "sourceRow \<Rightarrow> modelPriceSetting option \<Rightarrow> analyticsAggregateRow" where
  "analyticsSummaryTrendSelect s price = zeroAggregateRow
     \<lparr>ag_RequestCount := sr_RequestCount s,
      ag_SuccessCount := sr_SuccessSum s,
      ag_FailureCount := sr_FailureSum s,
      ag_AccountingValidAttempts := sr_StateAttempts s AccountingValid,
      ag_InputTokens := analyticsPositiveToken (sr_InputTokens s),
      ag_OutputTokens := analyticsPositiveToken (sr_OutputTokens s),
      ag_ReasoningTokens := analyticsPositiveToken (sr_ReasoningTokens s),
      ag_CachedTokens := analyticsPositiveToken (sr_CachedTokens s),
      ag_TotalTokens := sr_TotalTokens s,
      ag_TotalCost := analyticsCostWithPromptTokens (sr_CompletePromptTokens s) (sr_CompleteOutputTokens s)
        (sr_CompleteCacheReadTokens s) price,
      ag_MissingPricingEvents :=
        analyticsMissingPricing (sr_RequestCount s) (sr_CompleteAttempts s) (sr_CompleteZeroAttempts s) price,
      ag_PricedBillableEvents := analyticsPricedBillable (sr_CompleteAttempts s) (sr_CompleteZeroAttempts s) price\<rparr>"

record analyticsTrendPoint =
  tp_Label :: string
  tp_BucketStart :: instant
  tp_BucketEnd :: instant
  tp_TotalCost :: float64
  tp_TotalTokens :: i64
  tp_InputTokens :: i64
  tp_OutputTokens :: i64
  tp_ReasoningTokens :: i64
  tp_CachedTokens :: i64
  tp_RequestCount :: i64
  tp_SuccessCount :: i64
  tp_FailureCount :: i64
  tp_CanonicalValidAttempts :: i64
  tp_CostAvailable :: bool
  tp_CostStatus :: string

definition trendBucketBounds ::
  "zone \<Rightarrow> (string \<Rightarrow> instant option) \<Rightarrow> bool \<Rightarrow> string \<Rightarrow> (instant \<times> instant) option" where
  "trendBucketBounds zone parseRFC3339 byDay bucket =
     (if byDay
      then map_option (\<lambda>d. (clockOfDay zone 0 d, addDays zone 1 (clockOfDay zone 0 d))) (parseDateOnly bucket)
      else map_option (\<lambda>t. (t, t + hour)) (parseRFC3339 bucket))"

definition mapAnalyticsTrendPoint ::
  "zone \<Rightarrow> (string \<Rightarrow> instant option) \<Rightarrow> bool \<Rightarrow> string \<times> analyticsAggregateRow \<Rightarrow> analyticsTrendPoint option" where
  "mapAnalyticsTrendPoint zone parseRFC3339 byDay keyed =
     (case keyed of (bucket, row) \<Rightarrow> (case trendBucketBounds zone parseRFC3339 byDay bucket of
        None \<Rightarrow> None
      | Some (bucketStart, bucketEnd) \<Rightarrow>
          let cost = assessCostCompleteness (ag_MissingPricingEvents row) (ag_PricedBillableEvents row)
          in Some \<lparr>tp_Label = (if byDay then bucket else formatLocalMinute zone bucketStart),
               tp_BucketStart = bucketStart,
               tp_BucketEnd = bucketEnd,
               tp_TotalCost = ag_TotalCost row,
               tp_TotalTokens = ag_TotalTokens row,
               tp_InputTokens = ag_InputTokens row,
               tp_OutputTokens = ag_OutputTokens row,
               tp_ReasoningTokens = ag_ReasoningTokens row,
               tp_CachedTokens = ag_CachedTokens row,
               tp_RequestCount = ag_RequestCount row,
               tp_SuccessCount = ag_SuccessCount row,
               tp_FailureCount = ag_FailureCount row,
               tp_CanonicalValidAttempts = ag_AccountingValidAttempts row,
               tp_CostAvailable = fst cost,
               tp_CostStatus = snd cost\<rparr>))"

section \<open>The trend\<close>

definition buildAnalyticsAggregateRowsByBucket ::
  "zone \<Rightarrow> modelPriceSetting list \<Rightarrow> analyticsFilter \<Rightarrow> sourceRow list \<Rightarrow> (string \<times> analyticsAggregateRow) list" where
  "buildAnalyticsAggregateRowsByBucket zone settings filt source =
     sort_key fst (groupedOver addAnalyticsAggregateRow zeroAggregateRow settings
       (\<lambda>s. analyticsBucket zone (analyticsTrendBucketsByDay filt) (sr_Instant s)) (\<lambda>s. True)
       analyticsSummaryTrendSelect filt source)"

definition addAnalyticsAggregateRowsByBucket ::
  "(string \<times> analyticsAggregateRow) list \<Rightarrow> (string \<times> analyticsAggregateRow) list \<Rightarrow> (string \<times> analyticsAggregateRow) list" where
  "addAnalyticsAggregateRowsByBucket rows dst = addRows addAnalyticsAggregateRow zeroAggregateRow rows dst"

definition buildAnalyticsCoreTrend ::
  "zone \<Rightarrow> (string \<Rightarrow> instant option) \<Rightarrow> modelPriceSetting list \<Rightarrow> eventStore \<Rightarrow> analyticsCoreWindowPlan \<Rightarrow>
     analyticsFilter \<Rightarrow> analyticsTrendPoint list option" where
  "buildAnalyticsCoreTrend zone parseRFC3339 settings st plan filt =
     (let combined = overPlan (\<lambda>f source. addAnalyticsAggregateRowsByBucket
            (buildAnalyticsAggregateRowsByBucket zone settings f source)) st plan []
      in those (map (mapAnalyticsTrendPoint zone parseRFC3339 (analyticsTrendBucketsByDay filt)) (sort_key fst combined)))"

definition buildAnalyticsTrend ::
  "zone \<Rightarrow> (string \<Rightarrow> instant option) \<Rightarrow> modelPriceSetting list \<Rightarrow> usageEvent list \<Rightarrow> analyticsFilter \<Rightarrow>
     analyticsTrendPoint list option" where
  "buildAnalyticsTrend zone parseRFC3339 settings events filt =
     those (map (mapAnalyticsTrendPoint zone parseRFC3339 (analyticsTrendBucketsByDay filt))
       (buildAnalyticsAggregateRowsByBucket zone settings filt (map analyticsEventsAggregateSource events)))"

section \<open>Sums of the trend\<close>

definition trendColumns :: "analyticsAggregateRow \<Rightarrow> analyticsAggregateRow" where
  "trendColumns r = zeroAggregateRow
     \<lparr>ag_RequestCount := ag_RequestCount r,
      ag_SuccessCount := ag_SuccessCount r,
      ag_FailureCount := ag_FailureCount r,
      ag_AccountingValidAttempts := ag_AccountingValidAttempts r,
      ag_InputTokens := ag_InputTokens r,
      ag_OutputTokens := ag_OutputTokens r,
      ag_ReasoningTokens := ag_ReasoningTokens r,
      ag_CachedTokens := ag_CachedTokens r,
      ag_TotalTokens := ag_TotalTokens r,
      ag_TotalCost := ag_TotalCost r,
      ag_MissingPricingEvents := ag_MissingPricingEvents r,
      ag_PricedBillableEvents := ag_PricedBillableEvents r\<rparr>"

lemma trend_zero: "trendColumns zeroAggregateRow = zeroAggregateRow"
  by (simp add: trendColumns_def zeroAggregateRow_def)

lemma trend_add:
  "addAnalyticsAggregateRow (trendColumns a) (trendColumns b) = trendColumns (addAnalyticsAggregateRow a b)"
  by (simp add: trendColumns_def addAnalyticsAggregateRow_def zeroAggregateRow_def)

lemma sumOver_trend:
  "sumOver addAnalyticsAggregateRow zeroAggregateRow settings analyticsSummaryTrendSelect rows =
     trendColumns (sumRows (map (pricedSelect settings) rows))"
proof (induction rows)
  case (Cons s rows)
  have "analyticsSummaryTrendSelect s p = trendColumns (analyticsSummarySelect s p)" for p
    by (simp add: analyticsSummaryTrendSelect_def trendColumns_def analyticsSummarySelect_def)
  with Cons show ?case by (simp add: sumOver_def trend_add)
qed (simp add: sumOver_def trend_zero)

lemma trend_costly: "costly r = costly s \<Longrightarrow> trendColumns r = trendColumns s"
proof -
  assume c: "costly r = costly s"
  show ?thesis by (simp only: trendColumns_def costlyD [OF c])
qed

section \<open>Zones and buckets\<close>

text \<open>Every UTC hour lies in one local day.\<close>

definition wholeHourDays :: "zone \<Rightarrow> bool" where
  "wholeHourDays zone \<longleftrightarrow> (\<forall>t u. sameHour t u \<longrightarrow> localDay zone t = localDay zone u)"

definition trendable :: "zone \<Rightarrow> analyticsFilter \<Rightarrow> bool" where
  "trendable zone filt \<longleftrightarrow> \<not> analyticsTrendBucketsByDay filt \<or> wholeHourDays zone"

lemma sameHour_div: "sameHour t u \<longleftrightarrow> t div hour = u div hour"
  by (simp add: sameHour_def truncateTo_hour)

lemma hour_of_second: "t div second div 3600 = t div hour"
proof -
  have "t div second div 3600 = t div (second * 3600)" by (rule zdiv_zmult2_eq [symmetric]) simp
  then show ?thesis by (simp add: second_def hour_def)
qed

lemma wholeHourDays_fixed:
  assumes "3600 dvd off"
  shows "wholeHourDays (fixedZone off)"
proof -
  obtain k where off: "off = 3600 * k" using assms by (rule dvdE)
  have "localDay (fixedZone off) t = (t div hour + k) div 24" for t
  proof -
    have "(t div second + off) div daySeconds = (t div second + off) div (3600 * 24)" by (simp add: daySeconds_def)
    also have "\<dots> = (t div second + off) div 3600 div 24" by (rule zdiv_zmult2_eq) simp
    also have "(t div second + off) div 3600 = t div hour + k" by (simp add: off hour_of_second [symmetric])
    finally show ?thesis by (simp add: localDay_def localSeconds_fixed)
  qed
  then show ?thesis by (simp add: wholeHourDays_def sameHour_div)
qed

lemma sameHour_format: "sameHour t u \<Longrightarrow> formatUTCHour t = formatUTCHour u"
proof -
  assume h: "sameHour t u"
  have days: "s div daySeconds = s div 3600 div 24" for s :: int
    using zdiv_zmult2_eq [of 24 s 3600] by (simp add: daySeconds_def)
  have hours: "s mod daySeconds div 3600 = s div 3600 mod 24" for s :: int
    using zmod_zmult2_eq [of 24 s 3600] by (simp add: daySeconds_def)
  show ?thesis
    using h by (simp add: formatUTCHour_def Let_def days hours hour_of_second sameHour_div)
qed

lemma sameHour_bucket:
  "trendable zone filt \<Longrightarrow> sameHour t u \<Longrightarrow>
     analyticsBucket zone (analyticsTrendBucketsByDay filt) t = analyticsBucket zone (analyticsTrendBucketsByDay filt) u"
  by (auto simp: trendable_def analyticsBucket_def wholeHourDays_def formatLocalDate_def intro: sameHour_format)

section \<open>The trend of the events\<close>

definition inBucket :: "zone \<Rightarrow> bool \<Rightarrow> string \<Rightarrow> usageEvent list \<Rightarrow> usageEvent list" where
  "inBucket zone byDay b = filter (\<lambda>e. analyticsBucket zone byDay (ev_Timestamp e) = b)"

text \<open>The specification: one row for each bucket that has an event, in the order of the buckets.\<close>

definition trendRows :: "zone \<Rightarrow> bool \<Rightarrow> modelPriceSetting list \<Rightarrow> usageEvent list \<Rightarrow> (string \<times> analyticsAggregateRow) list" where
  "trendRows zone byDay settings es =
     map (\<lambda>b. (b, trendColumns (rawRow settings (inBucket zone byDay b es))))
       (sort (remdups (map (\<lambda>e. analyticsBucket zone byDay (ev_Timestamp e)) es)))"

definition trendOf ::
  "zone \<Rightarrow> (string \<Rightarrow> instant option) \<Rightarrow> bool \<Rightarrow> modelPriceSetting list \<Rightarrow> usageEvent list \<Rightarrow>
     analyticsTrendPoint list option" where
  "trendOf zone parseRFC3339 byDay settings es =
     those (map (mapAnalyticsTrendPoint zone parseRFC3339 byDay) (trendRows zone byDay settings es))"

lemma sort_by_key: "sort_key fst (map (\<lambda>b. (b, g b)) bs) = map (\<lambda>b. (b, g b)) (sort bs)"
  by (simp add: sort_key_map_key)

lemma bucket_row:
  assumes "covers settings es rows" "trendable zone filt"
  defines "byDay \<equiv> analyticsTrendBucketsByDay filt"
  shows "sumOver addAnalyticsAggregateRow zeroAggregateRow settings analyticsSummaryTrendSelect
      (filter (\<lambda>s. analyticsBucket zone byDay (sr_Instant s) = b) rows) =
    trendColumns (rawRow settings (inBucket zone byDay b es))"
proof -
  have "covers settings (inBucket zone byDay b es) (filter (\<lambda>s. analyticsBucket zone byDay (sr_Instant s) = b) rows)"
    unfolding inBucket_def
  proof (rule covers_filter [OF assms(1)])
    fix g s e assume "stands settings g s" "e \<in> set g"
    from sameHour_bucket [OF assms(2) standsD(3) [OF this]]
    show "(analyticsBucket zone byDay (ev_Timestamp e) = b) = (analyticsBucket zone byDay (sr_Instant s) = b)"
      by (simp add: byDay_def)
  qed
  from covers_summarises [OF this] show ?thesis
    unfolding sumOver_trend summarises_def by (blast intro: trend_costly)
qed

lemma bucket_set:
  assumes "covers settings es rows" "trendable zone filt"
  shows "(\<lambda>s. analyticsBucket zone (analyticsTrendBucketsByDay filt) (sr_Instant s)) ` set rows =
    (\<lambda>e. analyticsBucket zone (analyticsTrendBucketsByDay filt) (ev_Timestamp e)) ` set es"
  by (rule covers_set [OF assms(1)]) (rule sameHour_bucket [OF assms(2) standsD(3)])

text \<open>One row for each bucket of the rows that a plan reads.\<close>

definition bucketRows :: "zone \<Rightarrow> bool \<Rightarrow> modelPriceSetting list \<Rightarrow> sourceRow list \<Rightarrow> (string \<times> analyticsAggregateRow) list" where
  "bucketRows zone byDay settings rows =
     map (\<lambda>b. (b, sumOver addAnalyticsAggregateRow zeroAggregateRow settings analyticsSummaryTrendSelect
         (filter (\<lambda>s. analyticsBucket zone byDay (sr_Instant s) = b) rows)))
       (sort (remdups (map (\<lambda>s. analyticsBucket zone byDay (sr_Instant s)) rows)))"

lemma sort_same_set: "distinct xs \<Longrightarrow> distinct ys \<Longrightarrow> set xs = set ys \<Longrightarrow> sort xs = sort ys"
proof -
  assume "distinct xs" "distinct ys" "set xs = set ys"
  then have "mset xs = mset ys" using set_eq_iff_mset_eq_distinct by blast
  then show ?thesis by (rule sort_key_eq_sort_key) simp
qed

lemma covered_rows:
  assumes "covers settings es rows" "trendable zone filt"
  shows "bucketRows zone (analyticsTrendBucketsByDay filt) settings rows =
    trendRows zone (analyticsTrendBucketsByDay filt) settings es"
proof -
  have "sort (remdups (map (\<lambda>s. analyticsBucket zone (analyticsTrendBucketsByDay filt) (sr_Instant s)) rows)) =
      sort (remdups (map (\<lambda>e. analyticsBucket zone (analyticsTrendBucketsByDay filt) (ev_Timestamp e)) es))"
    by (rule sort_same_set) (simp_all add: bucket_set [OF assms])
  then show ?thesis unfolding bucketRows_def trendRows_def bucket_row [OF assms] by (simp only:)
qed

lemma mset_sorted_segments:
  "mset (concat (map (\<lambda>(f, source). sort_key fst (g f source)) segs)) = mset (concat (map (\<lambda>(f, source). g f source) segs))"
  by (induction segs) auto

lemma core_trend_rows:
  assumes "uniquePrices settings"
    "\<forall>seg \<in> set (planSegments st plan). fl_Granularity (fst seg) = fl_Granularity filt"
  shows "buildAnalyticsCoreTrend zone parseRFC3339 settings st plan filt =
    those (map (mapAnalyticsTrendPoint zone parseRFC3339 (analyticsTrendBucketsByDay filt))
      (bucketRows zone (analyticsTrendBucketsByDay filt) settings (planRows st plan)))"
proof -
  let ?key = "\<lambda>s. analyticsBucket zone (analyticsTrendBucketsByDay filt) (sr_Instant s)"
  let ?g = "groupedOver addAnalyticsAggregateRow zeroAggregateRow settings ?key (\<lambda>s. True) analyticsSummaryTrendSelect"
  let ?R = "concat (map (\<lambda>(f, source). sort_key fst (?g f source)) (planSegments st plan))"
  have "buildAnalyticsAggregateRowsByBucket zone settings f source = sort_key fst (?g f source)"
    if "(f, source) \<in> set (planSegments st plan)" for f source
    using assms(2) that by (auto simp: buildAnalyticsAggregateRowsByBucket_def analyticsTrendBucketsByDay_def)
  then have R: "map (\<lambda>(f, source). buildAnalyticsAggregateRowsByBucket zone settings f source) (planSegments st plan) =
      map (\<lambda>(f, source). sort_key fst (?g f source)) (planSegments st plan)" by (intro map_cong) auto
  have "overPlan (\<lambda>f source. addAnalyticsAggregateRowsByBucket
      (buildAnalyticsAggregateRowsByBucket zone settings f source)) st plan [] =
    addRows addAnalyticsAggregateRow zeroAggregateRow (concat
      (map (\<lambda>(f, source). buildAnalyticsAggregateRowsByBucket zone settings f source) (planSegments st plan))) []"
    unfolding overPlan_segments addAnalyticsAggregateRowsByBucket_def by (simp add: fold_addRows case_prod_unfold)
  note merged = this [unfolded R]
  obtain ks where ks: "distinct ks" "set ks = (\<lambda>s. ?key s) ` {s \<in> set (planRows st plan). True}"
    "addRows addAnalyticsAggregateRow zeroAggregateRow (map (\<lambda>(k, r). (k, r)) ?R) [] =
       map (\<lambda>k. (k, sumOver addAnalyticsAggregateRow zeroAggregateRow settings analyticsSummaryTrendSelect
         (filter (\<lambda>s. True \<and> ?key s = k) (planRows st plan)))) ks"
    using aggRow.breakdown_map [OF assms(1) mset_sorted_segments, where c = "\<lambda>k. k" and st = st and plan = plan and
        key = ?key and shown = "\<lambda>s. True" and select = analyticsSummaryTrendSelect]
    by (elim exE conjE) (rule that)
  have "sort ks = sort (remdups (map ?key (planRows st plan)))"
    by (rule sort_same_set [OF ks(1)]) (simp_all add: ks(2))
  then have "sort_key fst (addRows addAnalyticsAggregateRow zeroAggregateRow ?R []) =
      bucketRows zone (analyticsTrendBucketsByDay filt) settings (planRows st plan)"
    using ks(3) by (simp add: bucketRows_def sort_by_key)
  then show ?thesis by (simp add: buildAnalyticsCoreTrend_def merged Let_def)
qed

lemma core_trend:
  assumes "uniquePrices settings" "covers settings es (planRows st plan)" "trendable zone filt"
    "\<forall>seg \<in> set (planSegments st plan). fl_Granularity (fst seg) = fl_Granularity filt"
  shows "buildAnalyticsCoreTrend zone parseRFC3339 settings st plan filt =
    trendOf zone parseRFC3339 (analyticsTrendBucketsByDay filt) settings es"
  unfolding core_trend_rows [OF assms(1,4)] covered_rows [OF assms(2,3)] trendOf_def ..

lemma raw_trend:
  assumes "uniquePrices settings" "\<forall>e \<in> set (st_events st). tidy e" "trendable zone filt"
  shows "buildAnalyticsTrend zone parseRFC3339 settings (st_events st) filt =
    trendOf zone parseRFC3339 (analyticsTrendBucketsByDay filt) settings (windowEvents st filt)"
proof -
  let ?rows = "planRows st (analyticsCoreRawWindowPlan filt)"
  have "buildAnalyticsAggregateRowsByBucket zone settings filt (map analyticsEventsAggregateSource (st_events st)) =
      bucketRows zone (analyticsTrendBucketsByDay filt) settings ?rows"
    by (simp add: buildAnalyticsAggregateRowsByBucket_def groupedOver_def sqlGroupBy_def sumOver_def bucketRows_def
        pricedQuery_unique [OF assms(1)] planRows_def analyticsCoreRawWindowPlan_def filter_map o_def
        case_prod_unfold sort_by_key del: filter_filter)
  then show ?thesis
    by (simp add: buildAnalyticsTrend_def trendOf_def covered_rows [OF raw_plan_covers [OF assms(2)] assms(3)])
qed

text \<open>The filters of a plan keep the granularity.\<close>

lemma plan_granularity:
  "\<forall>seg \<in> set (planSegments st (analyticsCorePlan status filt)). fl_Granularity (fst seg) = fl_Granularity filt"
  by (rule plan_cases [of filt])
    (auto simp: analyticsCorePlan_def analyticsCoreRawWindowPlan_def planSegments_def analyticsFilterWithWindow_def
      Let_def split: option.splits if_splits)

section \<open>The trend and its zone\<close>

text \<open>
  The trend does not depend on the source either. In every state that the backfill and the intake reach from
  an upgraded store, by hour in any zone, and by day in a zone where every UTC hour lies in one local day, the
  trend that the core snapshot returns is the one of the window's events: for each bucket that has an event the
  sums and the cost state of the events in it, in order; and the trend from raw events alone is the same.
\<close>

lemma trend_exact:
  assumes "readable legacy db" "priceTableOK prices" "trendable zone filt"
  shows "buildAnalyticsCoreTrend zone parseRFC3339 (map snd (tbl_rows prices)) (bf_store db)
      (analyticsCorePlan (getUsageRollupBackfillStatus db) filt) filt =
      trendOf zone parseRFC3339 (analyticsTrendBucketsByDay filt) (map snd (tbl_rows prices))
        (windowEvents (bf_store db) filt) \<and>
    buildAnalyticsTrend zone parseRFC3339 (map snd (tbl_rows prices)) (st_events (bf_store db)) filt =
      trendOf zone parseRFC3339 (analyticsTrendBucketsByDay filt) (map snd (tbl_rows prices))
        (windowEvents (bf_store db) filt)"
proof -
  note u = priceTable_unique [OF assms(2)]
  have tidy: "\<forall>e \<in> set (st_events (bf_store db)). tidy e" using assms(1) by (simp add: readable_def)
  show ?thesis
    by (intro conjI core_trend [OF u core_covers [OF assms(1)] assms(3) plan_granularity] raw_trend [OF u tidy assms(3)])
qed

lemma trim_day: "trimSpace ''day'' = ''day''"
  by (rule trimSpace_id) (simp add: trimmed_def ws_seqs_def)

lemma trend_exact_witness:
  "\<exists>db ps. readable [legacyEvent] db \<and>
     buildAnalyticsCoreTrend (fixedZone 28800) (\<lambda>s. None) [] (bf_store db)
       (analyticsCorePlan (getUsageRollupBackfillStatus db)
         ((sampleFilter (10 * hour) (11 * hour - 1))\<lparr>fl_Granularity := ''day''\<rparr>))
       ((sampleFilter (10 * hour) (11 * hour - 1))\<lparr>fl_Granularity := ''day''\<rparr>) = Some ps \<and>
     map (\<lambda>p. (tp_Label p, tp_RequestCount p)) ps = [(''1970-01-01'', 1)]"
proof -
  let ?f = "(sampleFilter (10 * hour) (11 * hour - 1))\<lparr>fl_Granularity := ''day''\<rparr>"
  obtain db where db: "readable [legacyEvent] db"
      "windowEvents (bf_store db) (sampleFilter (10 * hour) (11 * hour - 1)) = [legacyEvent]"
    using sample_readable by blast
  then have w: "windowEvents (bf_store db) ?f = [legacyEvent]"
    by (simp add: windowEvents_def applyUsageQueryWindow_def providerIn_def)
  have byDay: "analyticsTrendBucketsByDay ?f" by (simp add: analyticsTrendBucketsByDay_def trim_day)
  have tr: "trendable (fixedZone 28800) ?f" by (simp add: trendable_def wholeHourDays_fixed)
  have "localDay (fixedZone 28800) (ev_Timestamp legacyEvent) = 0"
    by (simp add: legacyEvent_facts localDay_def localSeconds_fixed daySeconds_def)
  then have b: "analyticsBucket (fixedZone 28800) True (ev_Timestamp legacyEvent) = ''1970-01-01''"
    by (simp add: analyticsBucket_def formatLocalDate_def) code_simp
  have d: "parseDateOnly ''1970-01-01'' = Some 0" by code_simp
  have "trendOf (fixedZone 28800) (\<lambda>s. None) True [] [legacyEvent] =
      those [mapAnalyticsTrendPoint (fixedZone 28800) (\<lambda>s. None) True
        (''1970-01-01'', trendColumns (rawRow [] [legacyEvent]))]"
    by (simp add: trendOf_def trendRows_def inBucket_def b)
  moreover have "ag_RequestCount (trendColumns (rawRow [] [legacyEvent])) = 1"
    by (simp add: trendColumns_def raw_columns)
  ultimately obtain ps where ps: "trendOf (fixedZone 28800) (\<lambda>s. None) True [] [legacyEvent] = Some ps"
      "map (\<lambda>p. (tp_Label p, tp_RequestCount p)) ps = [(''1970-01-01'', 1)]"
    by (simp add: mapAnalyticsTrendPoint_def trendBucketBounds_def d Let_def)
  have "buildAnalyticsCoreTrend (fixedZone 28800) (\<lambda>s. None) [] (bf_store db)
      (analyticsCorePlan (getUsageRollupBackfillStatus db) ?f) ?f = Some ps"
    using trend_exact [OF db(1) noPrices tr, of "\<lambda>s. None"] byDay ps(1) by (simp only: noPricesRows w simp_thms)
  with db(1) ps(2) show ?thesis by (intro exI [of _ db] exI [of _ ps] conjI)
qed

text \<open>An event at 18:45 UTC, which is 00:15 of the next day in a zone of half an hour more than five hours.\<close>

definition eveningEvent :: usageEvent where
  "eveningEvent = statedEvent (sampleEvent\<lparr>ev_ID := 1, ev_EventKey := ''k'', ev_Timestamp := 67500 * second\<rparr>)"

definition eveningStore :: eventStore where
  "eveningStore = \<lparr>st_events = [eveningEvent], st_next = 2,
     st_rollups = [(hourlyUsageRollupKey eveningEvent, sqlGroupRollup [eveningEvent])]\<rparr>"

definition eveningFilter :: analyticsFilter where
  "eveningFilter = (sampleFilter (18 * hour) (19 * hour - 1))\<lparr>fl_Granularity := ''day''\<rparr>"

lemma eveningEvent_ok: "stateOK eveningEvent"
proof -
  have "\<not> refused sampleEvent" by (simp add: refused_def sampleEvent_def sample_validated)
  then have "\<not> refused (sampleEvent\<lparr>ev_ID := 1, ev_EventKey := ''k'', ev_Timestamp := 67500 * second\<rparr>)"
    by (simp add: refused_def)
  moreover have "timed (sampleEvent\<lparr>ev_ID := 1, ev_EventKey := ''k'', ev_Timestamp := 67500 * second\<rparr>)"
    by (simp add: timed_def zero_time_def second_def)
  moreover have "keyOK (sampleEvent\<lparr>ev_ID := 1, ev_EventKey := ''k'', ev_Timestamp := 67500 * second\<rparr>)"
    by (simp add: keyOK_def trimmed_def ws_seqs_def)
  ultimately show ?thesis unfolding eveningEvent_def by (rule statedEvent_ok)
qed

lemma eveningEvent_facts:
  "ev_Timestamp eveningEvent = 67500 * second" "tidy eveningEvent" "eventBucket eveningEvent = 18 * hour"
proof -
  show "ev_Timestamp eveningEvent = 67500 * second" by (simp add: eveningEvent_def statedEvent_def)
  then show "eventBucket eveningEvent = 18 * hour"
    by (simp add: eventBucket_def truncateTo_hour) (simp add: second_def hour_def)
  show "tidy eveningEvent"
    by (simp add: eveningEvent_def statedEvent_def tidy_def sampleEvent_def trimmed_def ws_seqs_def)
qed

lemma eveningStore_ok: "storeOK (\<lambda>b. True) eveningStore"
proof -
  have "sqlGroupRollup [eveningEvent] = rollupOf [eveningEvent]"
    using sqlGroup_eq [of "[eveningEvent]"] eveningEvent_ok by (simp add: stateOK_def)
  moreover have "truncateTo hour (18 * hour) = 18 * hour" by (simp add: truncateTo_hour)
  ultimately show ?thesis
    by (auto simp: storeOK_def eveningStore_def eveningEvent_ok rollupTableOK_def hourlyUsageRollupKey_def
        eveningEvent_facts rollupSpec_def groupOf_def Let_def)
qed

lemma evening_labels:
  "analyticsBucket (fixedZone 19800) True (18 * hour) = ''1970-01-01''"
  "analyticsBucket (fixedZone 19800) True (67500 * second) = ''1970-01-02''"
proof -
  have "localDay (fixedZone 19800) (18 * hour) = 0" "localDay (fixedZone 19800) (67500 * second) = 1"
    by (simp_all add: localDay_def localSeconds_fixed daySeconds_def hour_def second_def)
  moreover have "formatDate 0 = ''1970-01-01''" "formatDate 1 = ''1970-01-02''" by code_simp+
  ultimately show "analyticsBucket (fixedZone 19800) True (18 * hour) = ''1970-01-01''"
    "analyticsBucket (fixedZone 19800) True (67500 * second) = ''1970-01-02''"
    by (simp_all add: analyticsBucket_def formatLocalDate_def)
qed

lemma single_point:
  assumes "parseDateOnly b = Some d" "analyticsBucket zone True (sr_Instant s) = b" "sr_RequestCount s = n"
  shows "\<exists>ps. those (map (mapAnalyticsTrendPoint zone parseRFC3339 True) (bucketRows zone True settings [s])) = Some ps \<and>
    map (\<lambda>p. (tp_Label p, tp_RequestCount p)) ps = [(b, n)]"
  using assms
  by (simp add: bucketRows_def mapAnalyticsTrendPoint_def trendBucketBounds_def Let_def sumOver_def
      analyticsSummaryTrendSelect_def aggRow.add_zero_right)

text \<open>
  The zone matters. In a zone half an hour off the full hours, in a store whose rollups are exact, the trend
  by day from rollups counts an event at a quarter past local midnight in the day before, and the trend from raw
  events, which is what the same request returns while the backfill is not complete, in its own day.
\<close>

lemma trend_shifts_day:
  "storeOK (\<lambda>b. True) eveningStore \<and>
   (\<exists>ps qs. buildAnalyticsCoreTrend (fixedZone 19800) parseRFC3339 [] eveningStore
        (analyticsCoreRollupWindowPlan eveningFilter) eveningFilter = Some ps \<and>
      buildAnalyticsCoreTrend (fixedZone 19800) parseRFC3339 [] eveningStore
        (analyticsCoreRawWindowPlan eveningFilter) eveningFilter = Some qs \<and>
      map (\<lambda>p. (tp_Label p, tp_RequestCount p)) ps = [(''1970-01-01'', 1)] \<and>
      map (\<lambda>p. (tp_Label p, tp_RequestCount p)) qs = [(''1970-01-02'', 1)])"
proof -
  have byDay: "analyticsTrendBucketsByDay eveningFilter"
    by (simp add: analyticsTrendBucketsByDay_def eveningFilter_def trim_day)
  have hours: "truncateTo hour (18 * hour) = 18 * hour" "truncateTo hour (19 * hour - 1) = 18 * hour"
    by (simp_all add: truncateTo_hour) (simp_all add: hour_def)
  have plan: "analyticsCoreRollupWindowPlan eveningFilter = \<lparr>wp_rawFilters = [],
      wp_rollupFilter = Some (analyticsFilterWithWindow eveningFilter (18 * hour) (18 * hour))\<rparr>"
    by (simp add: analyticsCoreRollupWindowPlan_def eveningFilter_def sampleFilter_def Let_def firstFullBucket_def
        lastFullBucket_def hours nanosecond_def) (simp add: hour_def)
  let ?r = "analyticsRollupsAggregateSource (hourlyUsageRollupKey eveningEvent, sqlGroupRollup [eveningEvent])"
  let ?e = "analyticsEventsAggregateSource eveningEvent"
  have src: "sr_Instant ?r = 18 * hour" "sr_RequestCount ?r = 1" "sr_Instant ?e = 67500 * second" "sr_RequestCount ?e = 1"
    by (simp_all add: analyticsRollupsAggregateSource_def analyticsEventsAggregateSource_def Let_def
        hourlyUsageRollupKey_def eveningEvent_facts sqlGroupRollup_def)
  have rows: "planRows eveningStore (analyticsCoreRollupWindowPlan eveningFilter) = [?r]"
    "planRows eveningStore (analyticsCoreRawWindowPlan eveningFilter) = [?e]"
    unfolding planRows_def plan
    by (simp_all add: analyticsCoreRawWindowPlan_def eveningStore_def applyAnalyticsScopeFilter_def
        applyUsageQueryWindow_def analyticsFilterWithWindow_def eveningFilter_def sampleFilter_def src Let_def)
      (simp_all add: second_def hour_def)
  have dates: "parseDateOnly ''1970-01-01'' = Some 0" "parseDateOnly ''1970-01-02'' = Some 1" by code_simp+
  have u: "uniquePrices []" by (simp add: uniquePrices_def)
  have gran: "\<forall>seg \<in> set (planSegments eveningStore p). fl_Granularity (fst seg) = fl_Granularity eveningFilter"
    if "p \<in> {analyticsCoreRollupWindowPlan eveningFilter, analyticsCoreRawWindowPlan eveningFilter}" for p
    using that by (auto simp: plan planSegments_def analyticsCoreRawWindowPlan_def analyticsFilterWithWindow_def)
  note trend = core_trend_rows [OF u gran]
  show ?thesis
    using eveningStore_ok single_point [OF dates(1) evening_labels(1) [folded src(1)] src(2), of parseRFC3339 "[]"]
      single_point [OF dates(2) evening_labels(2) [folded src(3)] src(4), of parseRFC3339 "[]"]
    by (auto simp: trend rows byDay)
qed

end
