(* ===== verification/Crypto.thy ===== *)
theory Crypto
  imports Encodings
begin

text \<open>
  The standard-library cryptography the sessions use, written out: SHA-256 (FIPS 180-4) on 32-bit
  words and HMAC over it (RFC 2104). \<open>subtle.ConstantTimeCompare\<close> is equality of byte lists.
\<close>

unbundle bit_operations_syntax

type_synonym w32 = "32 word"

text \<open>
  The constants of SHA-256 are the first 32 bits of the fractional parts of the cube roots of the
  first 64 primes and of the square roots of the first eight; they are computed here. \<open>rootBits\<close>
  finds the largest number of at most \<open>b\<close> bits whose \<open>k\<close>-th power is at most \<open>n\<close>, bit by bit.
\<close>

fun rootBits :: "nat \<Rightarrow> nat \<Rightarrow> nat \<Rightarrow> nat \<Rightarrow> nat" where
  "rootBits k n 0 acc = acc"
| "rootBits k n (Suc b) acc =
     (if (acc + 2 ^ b) ^ k \<le> n then rootBits k n b (acc + 2 ^ b) else rootBits k n b acc)"

definition primesBelow :: "nat \<Rightarrow> nat list" where
  "primesBelow m = filter (\<lambda>n. 2 \<le> n \<and> (\<forall>d \<in> {2..<n}. n mod d \<noteq> 0)) [2..<m]"

definition fractionBits :: "nat \<Rightarrow> nat \<Rightarrow> w32" where
  "fractionBits k p = of_nat (rootBits k (p * 2 ^ (32 * k)) 40 0)"

definition sha256_k :: "w32 list" where
  "sha256_k = map (fractionBits 3) (primesBelow 312)"

definition sha256_init :: "w32 list" where
  "sha256_init = map (fractionBits 2) (primesBelow 20)"

lemma length_sha256_init: "length sha256_init = 8"
proof -
  have "primesBelow 20 = [2, 3, 5, 7, 11, 13, 17, 19]" by code_simp
  then show ?thesis by (simp add: sha256_init_def)
qed

lemma rootBits_largest:
  assumes "acc ^ k \<le> n" "n < (acc + 2 ^ b) ^ k"
  shows "rootBits k n b acc ^ k \<le> n" "n < (rootBits k n b acc + 1) ^ k"
proof -
  have "rootBits k n b acc ^ k \<le> n \<and> n < (rootBits k n b acc + 1) ^ k"
    using assms by (induction b arbitrary: acc) (auto simp: not_le mult_2 add.assoc)
  then show "rootBits k n b acc ^ k \<le> n" "n < (rootBits k n b acc + 1) ^ k" by simp_all
qed

text \<open>Bytes and big-endian words.\<close>

definition wordOfBytes :: "string \<Rightarrow> w32" where
  "wordOfBytes s = foldl (\<lambda>w c. push_bit 8 w OR of_nat (of_char c)) 0 s"

definition bytesOfNat :: "nat \<Rightarrow> nat \<Rightarrow> string" where
  "bytesOfNat k n = map (\<lambda>i. char_of (n div 256 ^ (k - 1 - i) mod 256)) [0..<k]"

fun groupsOf :: "nat \<Rightarrow> nat \<Rightarrow> 'a list \<Rightarrow> 'a list list" where
  "groupsOf k 0 xs = []"
| "groupsOf k (Suc m) xs = take k xs # groupsOf k m (drop k xs)"

definition sha256_pad :: "string \<Rightarrow> string" where
  "sha256_pad s =
     s @ [CHR 0x80] @ replicate ((119 - length s mod 64) mod 64) (CHR 0x00)
       @ bytesOfNat 8 (8 * length s)"

text \<open>The message schedule, grown from the 16 words of the block to 64.\<close>

definition sha256_next :: "w32 list \<Rightarrow> w32" where
  "sha256_next w =
     (let t = length w;
          a = w ! (t - 15);
          b = w ! (t - 2);
          s0 = word_rotr 7 a XOR word_rotr 18 a XOR drop_bit 3 a;
          s1 = word_rotr 17 b XOR word_rotr 19 b XOR drop_bit 10 b
      in w ! (t - 16) + s0 + w ! (t - 7) + s1)"

definition sha256_schedule :: "w32 list \<Rightarrow> w32 list" where
  "sha256_schedule block = ((\<lambda>w. w @ [sha256_next w]) ^^ 48) block"

fun sha256_round :: "w32 list \<Rightarrow> w32 \<times> w32 \<Rightarrow> w32 list" where
  "sha256_round [a, b, c, d, e, f, g, h] (k, w) =
     (let s1 = word_rotr 6 e XOR word_rotr 11 e XOR word_rotr 25 e;
          ch = (e AND f) XOR (NOT e AND g);
          t1 = h + s1 + ch + k + w;
          s0 = word_rotr 2 a XOR word_rotr 13 a XOR word_rotr 22 a;
          maj = (a AND b) XOR (a AND c) XOR (b AND c);
          t2 = s0 + maj
      in [t1 + t2, a, b, c, d + t1, e, f, g])"
| "sha256_round state kw = state"

definition sha256_block :: "w32 list \<Rightarrow> string \<Rightarrow> w32 list" where
  "sha256_block state block =
     map2 (+) state
       (foldl sha256_round state
          (zip sha256_k (sha256_schedule (map wordOfBytes (groupsOf 4 16 block)))))"

definition sha256 :: "string \<Rightarrow> string" where
  "sha256 s =
     (let p = sha256_pad s
      in concat (map (\<lambda>w. bytesOfNat 4 (unat w))
           (foldl sha256_block sha256_init (groupsOf 64 (length p div 64) p))))"

definition xorBytes :: "nat \<Rightarrow> string \<Rightarrow> string" where
  "xorBytes m s = map (\<lambda>c. char_of (of_char c XOR m)) s"

definition hmacSha256 :: "string \<Rightarrow> string \<Rightarrow> string" where
  "hmacSha256 key msg =
     (let short = (if 64 < length key then sha256 key else key);
          k = short @ replicate (64 - length short) (CHR 0x00)
      in sha256 (xorBytes 0x5c k @ sha256 (xorBytes 0x36 k @ msg)))"

lemma length_bytesOfNat [simp]: "length (bytesOfNat k n) = k"
  by (simp add: bytesOfNat_def)

lemma length_sha256_round [simp]: "length (sha256_round s kw) = length s"
  by (cases "(s, kw)" rule: sha256_round.cases) (simp_all add: Let_def)

lemma length_sha256_rounds [simp]: "length (foldl sha256_round s kws) = length s"
  by (induction kws arbitrary: s) simp_all

lemma length_sha256_block [simp]: "length (sha256_block s b) = length s"
  by (simp add: sha256_block_def)

lemma length_sha256_blocks [simp]: "length (foldl sha256_block s bs) = length s"
  by (induction bs arbitrary: s) simp_all

lemma sum_list_replicate_4: "\<forall>x \<in> set xs. length (f x) = 4 \<Longrightarrow> sum_list (map (length \<circ> f) xs) = 4 * length xs"
  by (induction xs) auto

text \<open>A digest has 32 bytes.\<close>

lemma length_sha256: "length (sha256 s) = 32"
  by (simp add: sha256_def Let_def length_concat o_def sum_list_replicate_4 sum_list_triv length_sha256_init)

lemma hmacSha256_nonempty [simp]: "hmacSha256 key msg \<noteq> []"
  using length_sha256 by (metis hmacSha256_def length_0_conv zero_neq_numeral)

end
