(* ===== verification/Session.thy ===== *)
theory Session
  imports Crypto
begin

text \<open>
  The session manager (\<open>auth/session.go\<close>). Without a signing key a session is an entry of a map
  from tokens to expiry instants; with one the token itself carries the expiry second and an
  HMAC-SHA256 signature. Every clock reading of an operation is an argument, in the order the
  code takes them, and so is what \<open>rand.Read\<close> gives: an error or the bytes it filled.
\<close>

record sessionManager =
  sm_ttl :: duration
  sm_signingKey :: string
  sm_sessions :: "string \<rightharpoonup> instant"

definition newSessionManager :: "duration \<Rightarrow> sessionManager" where
  "newSessionManager ttl = \<lparr>sm_ttl = ttl, sm_signingKey = [], sm_sessions = Map.empty\<rparr>"

definition newSignedSessionManager :: "duration \<Rightarrow> string \<Rightarrow> sessionManager" where
  "newSignedSessionManager ttl key = (newSessionManager ttl)\<lparr>sm_signingKey := key\<rparr>"

definition signedSessionVersion :: string where
  "signedSessionVersion = ''v1''"

definition generateToken :: "string + string \<Rightarrow> string + string" where
  "generateToken random =
     (case random of Inl err \<Rightarrow> Inl (''generate session token: '' @ err) | Inr buf \<Rightarrow> Inr (hexEncode buf))"

definition signSessionPayload :: "string \<Rightarrow> string \<Rightarrow> string" where
  "signSessionPayload key payload = base64RawURL (hmacSha256 key payload)"

text \<open>\<open>Time.Unix\<close> and \<open>time.Unix(sec, 0)\<close>, which counts seconds from year 1 in 64 bits.\<close>

definition unixSeconds :: "instant \<Rightarrow> int" where
  "unixSeconds t = t div second"

definition unixInstant :: "int \<Rightarrow> instant" where
  "unixInstant secs = second * (sint (word_of_int (secs + 62135596800) :: i64) - 62135596800)"

definition signToken :: "sessionManager \<Rightarrow> instant \<Rightarrow> string \<Rightarrow> string" where
  "signToken m expiresAt nonce =
     (let payload = join ''.'' [signedSessionVersion, formatInt (unixSeconds expiresAt), nonce]
      in payload @ ''.'' @ signSessionPayload (sm_signingKey m) payload)"

definition validateSignedToken :: "sessionManager \<Rightarrow> instant \<Rightarrow> string \<Rightarrow> bool" where
  "validateSignedToken m now token =
     (let parts = split_on (CHR ''.'') token
      in if length parts \<noteq> 4 \<or> parts ! 0 \<noteq> signedSessionVersion \<or> parts ! 2 = [] \<or> parts ! 3 = []
         then False
         else (case parseInt64 (parts ! 1) of
                 None \<Rightarrow> False
               | Some expiresUnix \<Rightarrow>
                   if \<not> now < unixInstant expiresUnix then False
                   else parts ! 3 = signSessionPayload (sm_signingKey m) (join ''.'' (take 3 parts))))"

definition cleanupExpired :: "sessionManager \<Rightarrow> instant \<Rightarrow> sessionManager" where
  "cleanupExpired m now =
     m\<lparr>sm_sessions := (\<lambda>token. case sm_sessions m token of
          None \<Rightarrow> None
        | Some expiresAt \<Rightarrow> if \<not> now < expiresAt then None else Some expiresAt)\<rparr>"

definition createSession ::
  "sessionManager \<Rightarrow> instant \<Rightarrow> instant \<Rightarrow> string + string \<Rightarrow> sessionManager \<times> (string + string \<times> instant)"
  where
  "createSession m now sweptAt random =
     (case generateToken random of
        Inl err \<Rightarrow> (m, Inl err)
      | Inr nonce \<Rightarrow>
          (let expiresAt = now + sm_ttl m
           in if 0 < length (sm_signingKey m) then (m, Inr (signToken m expiresAt nonce, expiresAt))
              else (let m = cleanupExpired m sweptAt
                    in (m\<lparr>sm_sessions := (sm_sessions m)(nonce \<mapsto> expiresAt)\<rparr>, Inr (nonce, expiresAt)))))"

definition deleteSession :: "sessionManager \<Rightarrow> string \<Rightarrow> sessionManager" where
  "deleteSession m token =
     (if token = [] then m
      else if 0 < length (sm_signingKey m) then m
      else m\<lparr>sm_sessions := (sm_sessions m)(token := None)\<rparr>)"

definition validateSession :: "sessionManager \<Rightarrow> instant \<Rightarrow> string \<Rightarrow> sessionManager \<times> bool" where
  "validateSession m now token =
     (if token = [] then (m, False)
      else if 0 < length (sm_signingKey m) then (m, validateSignedToken m now token)
      else (case sm_sessions m token of
              None \<Rightarrow> (m, False)
            | Some expiresAt \<Rightarrow> if \<not> now < expiresAt then (deleteSession m token, False) else (m, True)))"

section \<open>Signed tokens\<close>

lemma nth_of_four: "[a, b, c, d] ! 1 = b" "[a, b, c, d] ! 2 = c" "[a, b, c, d] ! 3 = d"
  by simp_all

lemma split_four:
  assumes "CHR ''.'' \<notin> set a" "CHR ''.'' \<notin> set b" "CHR ''.'' \<notin> set c" "CHR ''.'' \<notin> set d"
  shows "split_on (CHR ''.'') (a @ ''.'' @ b @ ''.'' @ c @ ''.'' @ d) = [a, b, c, d]"
  using split_join [of "[a, b, c, d]" "CHR ''.''"] assms by simp

lemma split_four_iff:
  "split_on (CHR ''.'') s = [a, b, c, d] \<longleftrightarrow>
     s = a @ ''.'' @ b @ ''.'' @ c @ ''.'' @ d \<and>
     CHR ''.'' \<notin> set a \<and> CHR ''.'' \<notin> set b \<and> CHR ''.'' \<notin> set c \<and> CHR ''.'' \<notin> set d"
  using join_split [of "CHR ''.''" s] split_on_free [of _ "CHR ''.''" s] split_four by auto

lemma length_four_iff: "length xs = 4 \<longleftrightarrow> (\<exists>a b c d. xs = [a, b, c, d])"
  by (auto simp: numeral_eq_Suc length_Suc_conv)

lemma sessionVersion_plain: "CHR ''.'' \<notin> set signedSessionVersion"
  by (simp add: signedSessionVersion_def)

text \<open>
  The tokens a signed manager accepts are exactly its own: version, a decimal expiry, a nonce and
  the signature of those three.
\<close>

definition signedPayload :: "string \<Rightarrow> string \<Rightarrow> string" where
  "signedPayload stamp nonce = signedSessionVersion @ ''.'' @ stamp @ ''.'' @ nonce"

lemma validateSignedToken_parts:
  assumes "split_on (CHR ''.'') token = [v, stamp, nonce, sig]"
  shows "validateSignedToken m now token \<longleftrightarrow>
    v = signedSessionVersion \<and> nonce \<noteq> [] \<and>
    sig = signSessionPayload (sm_signingKey m) (signedPayload stamp nonce) \<and>
    (\<exists>secs. parseInt64 stamp = Some secs \<and> now < unixInstant secs)"
  by (cases "parseInt64 stamp")
    (auto simp: validateSignedToken_def assms signedPayload_def signSessionPayload_def
       nth_of_four take_Cons' simp del: One_nat_def)

lemma signature_plain: "CHR ''.'' \<notin> set (signSessionPayload key p)"
  by (simp add: signSessionPayload_def base64_no_dot)

lemma validateSignedToken_iff:
  "validateSignedToken m now token \<longleftrightarrow>
     (\<exists>stamp nonce secs.
        token = signedPayload stamp nonce @ ''.''
                  @ signSessionPayload (sm_signingKey m) (signedPayload stamp nonce) \<and>
        CHR ''.'' \<notin> set stamp \<and> CHR ''.'' \<notin> set nonce \<and> nonce \<noteq> [] \<and>
        parseInt64 stamp = Some secs \<and> now < unixInstant secs)"
proof
  assume v: "validateSignedToken m now token"
  then have "length (split_on (CHR ''.'') token) = 4"
    by (auto simp: validateSignedToken_def Let_def split: if_splits)
  then obtain a b c d where sp: "split_on (CHR ''.'') token = [a, b, c, d]"
    by (auto simp: length_four_iff)
  then show "\<exists>stamp nonce secs.
        token = signedPayload stamp nonce @ ''.''
                  @ signSessionPayload (sm_signingKey m) (signedPayload stamp nonce) \<and>
        CHR ''.'' \<notin> set stamp \<and> CHR ''.'' \<notin> set nonce \<and> nonce \<noteq> [] \<and>
        parseInt64 stamp = Some secs \<and> now < unixInstant secs"
    using v validateSignedToken_parts [OF sp] sp [unfolded split_four_iff]
    by (intro exI [of _ b] exI [of _ c]) (auto simp: signedPayload_def)
next
  assume "\<exists>stamp nonce secs.
        token = signedPayload stamp nonce @ ''.''
                  @ signSessionPayload (sm_signingKey m) (signedPayload stamp nonce) \<and>
        CHR ''.'' \<notin> set stamp \<and> CHR ''.'' \<notin> set nonce \<and> nonce \<noteq> [] \<and>
        parseInt64 stamp = Some secs \<and> now < unixInstant secs"
  then obtain stamp nonce secs where
    tok: "token = signedPayload stamp nonce @ ''.''
                  @ signSessionPayload (sm_signingKey m) (signedPayload stamp nonce)"
    and plain: "CHR ''.'' \<notin> set stamp" "CHR ''.'' \<notin> set nonce" and ne: "nonce \<noteq> []"
    and live: "parseInt64 stamp = Some secs" "now < unixInstant secs" by blast
  have "split_on (CHR ''.'') token =
      [signedSessionVersion, stamp, nonce,
       signSessionPayload (sm_signingKey m) (signedPayload stamp nonce)]"
    unfolding split_four_iff
    using tok plain sessionVersion_plain signature_plain by (simp add: signedPayload_def)
  from validateSignedToken_parts [OF this] live ne show "validateSignedToken m now token" by blast
qed

lemma hexEncode_chars:
  assumes "c \<in> set (hexEncode s)" shows "c \<noteq> CHR ''.''"
proof -
  have digit: "hex_digit n \<noteq> CHR ''.''" if "n < 16" for n
  proof -
    have "(of_char (hex_digit n) :: nat) \<noteq> of_char (CHR ''.'')"
      using that by (auto simp: hex_digit_def)
    then show ?thesis by auto
  qed
  obtain b where b: "c \<in> set (hex_byte b)" using assms by (auto simp: hexEncode_def)
  have "(of_char b :: nat) div 16 < 16" "(of_char b :: nat) mod 16 < 16"
    using nat_of_char_less_256 [of b] by (simp_all add: less_mult_imp_div_less)
  then show ?thesis using b digit [of "of_char b div 16"] digit [of "of_char b mod 16"]
    by (auto simp: hex_byte_def Let_def)
qed

lemma hexEncode_no_dot: "CHR ''.'' \<notin> set (hexEncode s)"
  using hexEncode_chars by blast

lemma unixInstant_exact:
  assumes "int64_min \<le> secs" "secs \<le> int64_max - 62135596800"
  shows "unixInstant secs = second * secs"
proof -
  have "sint (word_of_int (secs + 62135596800) :: i64) = secs + 62135596800"
    by (rule sint_of_int_i64) (use assms in \<open>simp_all add: int64_min_def int64_max_def\<close>)
  then show ?thesis by (simp add: unixInstant_def)
qed

lemma signToken_eq:
  "signToken m expiresAt nonce =
     signedPayload (formatInt (unixSeconds expiresAt)) nonce @ ''.''
       @ signSessionPayload (sm_signingKey m) (signedPayload (formatInt (unixSeconds expiresAt)) nonce)"
  by (simp add: signToken_def signedPayload_def Let_def)

lemma signedPayload_split:
  assumes "CHR ''.'' \<notin> set nonce"
  shows "split_on (CHR ''.'') (signedPayload (formatInt i) nonce @ ''.'' @ signSessionPayload key p) =
    [signedSessionVersion, formatInt i, nonce, signSessionPayload key p]"
  unfolding split_four_iff
  using assms sessionVersion_plain signature_plain formatInt_no_dot
  by (simp add: signedPayload_def)

lemma validate_signToken:
  assumes "nonce \<noteq> []" "CHR ''.'' \<notin> set nonce"
    and "int64_min \<le> unixSeconds expiresAt" "unixSeconds expiresAt \<le> int64_max - 62135596800"
  shows "validateSignedToken m now (signToken m expiresAt nonce) \<longleftrightarrow> now < second * unixSeconds expiresAt"
  unfolding signToken_eq validateSignedToken_parts [OF signedPayload_split [OF assms(2)]]
  using assms(1,3,4) unixInstant_exact [OF assms(3,4)] parse_formatInt [of "unixSeconds expiresAt"]
  by (auto simp: in_int64_def)

section \<open>Histories of the session map\<close>

text \<open>The operations as data, with the clock readings and random bytes each of them gets.\<close>

datatype sessionOp =
    OpCreate instant instant "string + string"
  | OpValidate instant string
  | OpDelete string
  | OpCleanup instant

fun applySessionOp :: "sessionManager \<Rightarrow> sessionOp \<Rightarrow> sessionManager" where
  "applySessionOp m (OpCreate now sweptAt random) = fst (createSession m now sweptAt random)"
| "applySessionOp m (OpValidate now token) = fst (validateSession m now token)"
| "applySessionOp m (OpDelete token) = deleteSession m token"
| "applySessionOp m (OpCleanup now) = cleanupExpired m now"

definition runSessionOps :: "sessionManager \<Rightarrow> sessionOp list \<Rightarrow> sessionManager" where
  "runSessionOps = foldl applySessionOp"

text \<open>No clock reading of the operation is after \<open>t\<close>; the operation creates no session named \<open>tok\<close>.\<close>

fun opBefore :: "instant \<Rightarrow> sessionOp \<Rightarrow> bool" where
  "opBefore t (OpCreate now sweptAt random) = (now \<le> t \<and> sweptAt \<le> t)"
| "opBefore t (OpValidate now token) = (now \<le> t)"
| "opBefore t (OpDelete token) = True"
| "opBefore t (OpCleanup now) = (now \<le> t)"

fun opFresh :: "string \<Rightarrow> sessionOp \<Rightarrow> bool" where
  "opFresh tok (OpCreate now sweptAt random) = (generateToken random \<noteq> Inr tok)"
| "opFresh tok op = True"

lemma runSessionOps_Nil [simp]: "runSessionOps m [] = m"
  by (simp add: runSessionOps_def)

lemma runSessionOps_Cons [simp]: "runSessionOps m (op # ops) = runSessionOps (applySessionOp m op) ops"
  by (simp add: runSessionOps_def)

lemma applySessionOp_key [simp]: "sm_signingKey (applySessionOp m op) = sm_signingKey m"
  by (cases op)
    (auto simp: createSession_def validateSession_def deleteSession_def cleanupExpired_def Let_def
       split: sum.split option.split)

lemma runSessionOps_key [simp]: "sm_signingKey (runSessionOps m ops) = sm_signingKey m"
  by (induction ops arbitrary: m) simp_all

text \<open>An unexpired entry stays until it is deleted, and a missing one stays missing.\<close>

lemma applySessionOp_live:
  assumes "sm_signingKey m = []" "sm_sessions m tok = Some e" "opBefore t op" "t < e"
    "op \<noteq> OpDelete tok" "opFresh tok op"
  shows "sm_sessions (applySessionOp m op) tok = Some e"
  using assms
  by (cases op)
    (auto simp: createSession_def validateSession_def deleteSession_def cleanupExpired_def Let_def
       split: sum.split option.split)

lemma applySessionOp_missing:
  assumes "sm_signingKey m = []" "sm_sessions m tok = None" "opFresh tok op"
  shows "sm_sessions (applySessionOp m op) tok = None"
  using assms
  by (cases op)
    (auto simp: createSession_def validateSession_def deleteSession_def cleanupExpired_def Let_def
       split: sum.split option.split)

lemma applySessionOp_entry:
  assumes "sm_signingKey m = []" "sm_sessions m tok = Some e" "opFresh tok op"
  shows "sm_sessions (applySessionOp m op) tok \<in> {None, Some e}"
  using assms
  by (cases op)
    (auto simp: createSession_def validateSession_def deleteSession_def cleanupExpired_def Let_def
       split: sum.split option.split)

lemma applySessionOp_delete:
  assumes "sm_signingKey m = []" "tok \<noteq> []"
  shows "sm_sessions (applySessionOp m (OpDelete tok)) tok = None"
  using assms by (simp add: deleteSession_def)

lemma run_missing:
  assumes "sm_signingKey m = []" "sm_sessions m tok = None" "\<forall>op \<in> set ops. opFresh tok op"
  shows "sm_sessions (runSessionOps m ops) tok = None"
  using assms by (induction ops arbitrary: m) (simp_all add: applySessionOp_missing)

lemma run_live:
  assumes "sm_signingKey m = []" "sm_sessions m tok = Some e" "t < e"
    "\<forall>op \<in> set ops. opFresh tok op \<and> opBefore t op" "OpDelete tok \<notin> set ops"
  shows "sm_sessions (runSessionOps m ops) tok = Some e"
  using assms by (induction ops arbitrary: m) (auto simp: applySessionOp_live)

lemma run_entry:
  assumes "sm_signingKey m = []" "sm_sessions m tok \<in> {None, Some e}" "\<forall>op \<in> set ops. opFresh tok op"
  shows "sm_sessions (runSessionOps m ops) tok \<in> {None, Some e}"
  using assms
proof (induction ops arbitrary: m)
  case Nil
  then show ?case by simp
next
  case (Cons op ops)
  then have "sm_sessions (applySessionOp m op) tok \<in> {None, Some e}"
    using applySessionOp_missing [of m tok op] applySessionOp_entry [of m tok e op] by auto
  then show ?case using Cons by simp
qed

lemma run_deleted:
  assumes "sm_signingKey m = []" "tok \<noteq> []" "\<forall>op \<in> set ops. opFresh tok op" "OpDelete tok \<in> set ops"
  shows "sm_sessions (runSessionOps m ops) tok = None"
  using assms
proof (induction ops arbitrary: m)
  case Nil
  then show ?case by simp
next
  case (Cons op ops)
  show ?case
  proof (cases "op = OpDelete tok")
    case True
    have "sm_signingKey (applySessionOp m op) = []" using Cons.prems(1) by (simp only: applySessionOp_key)
    moreover have "sm_sessions (applySessionOp m op) tok = None"
      unfolding True by (rule applySessionOp_delete [OF Cons.prems(1,2)])
    moreover have "\<forall>op \<in> set ops. opFresh tok op" using Cons.prems(3) by simp
    ultimately have "sm_sessions (runSessionOps (applySessionOp m op) ops) tok = None"
      by (rule run_missing)
    then show ?thesis by simp
  next
    case False
    then show ?thesis using Cons by simp
  qed
qed

lemma validateSession_map:
  assumes "sm_signingKey m = []" "tok \<noteq> []"
  shows "snd (validateSession m now tok) \<longleftrightarrow> (\<exists>e. sm_sessions m tok = Some e \<and> now < e)"
  using assms by (auto simp: validateSession_def split: option.split)

lemma hexEncode_Nil_iff [simp]: "hexEncode s = [] \<longleftrightarrow> s = []"
  using length_hexEncode [of s] by (metis length_0_conv mult_is_0 zero_neq_numeral)

lemma created_map_entry:
  assumes "sm_signingKey m = []" "createSession m now sweptAt random = (m', Inr (tok, expiresAt))"
  shows "sm_signingKey m' = []" "sm_sessions m' tok = Some expiresAt" "expiresAt = now + sm_ttl m"
    "generateToken random = Inr tok"
  using assms
  by (auto simp: createSession_def Let_def cleanupExpired_def split: sum.splits)

lemma token_nonempty: "generateToken (Inr buf) = Inr tok \<Longrightarrow> buf \<noteq> [] \<Longrightarrow> tok \<noteq> []"
  by (auto simp: generateToken_def)

text \<open>
  A session kept in memory is valid from its creation until its expiry instant unless it is
  deleted, whatever happens in between: after any sequence of creations of other sessions,
  validations, deletions and clean-ups, at times not after \<open>t\<close>, validating its token at \<open>t\<close>
  succeeds exactly if \<open>t\<close> is before the creation time plus the manager's lifetime and no
  deletion named the token.
\<close>

theorem session_lifetime:
  assumes key: "sm_signingKey m = []"
    and created: "createSession m now sweptAt (Inr buf) = (m', Inr (tok, expiresAt))" "length buf = 32"
    and history: "\<forall>op \<in> set ops. opFresh tok op \<and> opBefore t op"
  shows "snd (validateSession (runSessionOps m' ops) t tok) \<longleftrightarrow>
    t < now + sm_ttl m \<and> OpDelete tok \<notin> set ops"
proof -
  note entry = created_map_entry [OF key created(1)]
  have "buf \<noteq> []" using created(2) by auto
  from token_nonempty [OF entry(4) this] have tok: "tok \<noteq> []" .
  have fresh: "\<forall>op \<in> set ops. opFresh tok op" using history by blast
  have valid: "snd (validateSession (runSessionOps m' ops) t tok) \<longleftrightarrow>
      (\<exists>e. sm_sessions (runSessionOps m' ops) tok = Some e \<and> t < e)"
    by (rule validateSession_map) (simp_all add: entry(1) tok)
  have "sm_sessions (runSessionOps m' ops) tok \<in> {None, Some expiresAt}"
    by (rule run_entry [OF entry(1) _ fresh]) (simp add: entry(2))
  moreover have "sm_sessions (runSessionOps m' ops) tok = Some expiresAt"
    if "t < expiresAt" "OpDelete tok \<notin> set ops"
    by (rule run_live [OF entry(1,2) that(1) history that(2)])
  moreover have "sm_sessions (runSessionOps m' ops) tok = None" if "OpDelete tok \<in> set ops"
    by (rule run_deleted [OF entry(1) tok fresh that])
  ultimately show ?thesis unfolding valid entry(3) [symmetric] by auto
qed

theorem session_lifetime_witness:
  "snd (validateSession
      (runSessionOps (fst (createSession (newSessionManager 10) 5 5 (Inr (replicate 32 (CHR 0x01)))))
         [OpCleanup 12, OpDelete ''other'', OpCreate 13 13 (Inr (replicate 32 (CHR 0x02)))])
      14 (hexEncode (replicate 32 (CHR 0x01))))"
proof -
  let ?buf = "replicate 32 (CHR 0x01)"
  have c: "createSession (newSessionManager 10) 5 5 (Inr ?buf) =
      (fst (createSession (newSessionManager 10) 5 5 (Inr ?buf)), Inr (hexEncode ?buf, 15))"
    by (simp add: createSession_def generateToken_def newSessionManager_def Let_def)
  have distinct_tokens: "hexEncode (replicate 32 (CHR 0x02)) \<noteq> hexEncode ?buf"
    by code_simp
  have "hexEncode ?buf \<noteq> ''other''"
  proof
    assume "hexEncode ?buf = ''other''"
    then have "length (hexEncode ?buf) = length ''other''" by simp
    then show False by simp
  qed
  then show ?thesis
    using distinct_tokens
    by (subst session_lifetime [OF _ c]) (auto simp: newSessionManager_def generateToken_def)
qed

text \<open>
  C16. Signed sessions need no state and cannot be altered. Whatever the manager has signed before,
  validation accepts a token at \<open>now\<close> exactly if it is \<open>v1\<close>, a decimal 64-bit expiry second after
  \<open>now\<close>, a non-empty nonce and the manager's own HMAC signature of exactly those three fields.
  The token \<open>Create\<close> returns is accepted by every manager with the same key, up to the whole second
  its expiry falls in, and no validation or deletion changes that.
\<close>

theorem signed_session_exact:
  assumes key: "sm_signingKey m \<noteq> []" "sm_signingKey other = sm_signingKey m"
    and created: "createSession m now sweptAt (Inr buf) = (m', Inr (tok, expiresAt))" "length buf = 32"
    and range: "int64_min \<le> unixSeconds expiresAt" "unixSeconds expiresAt \<le> int64_max - 62135596800"
  shows "(snd (validateSession (runSessionOps other ops) t tok) \<longleftrightarrow> t < second * ((now + sm_ttl m) div second)) \<and>
    (\<forall>any. snd (validateSession (runSessionOps other ops) t any) \<longleftrightarrow>
      (\<exists>stamp nonce secs.
        any = signedPayload stamp nonce @ ''.''
                @ signSessionPayload (sm_signingKey m) (signedPayload stamp nonce) \<and>
        CHR ''.'' \<notin> set stamp \<and> CHR ''.'' \<notin> set nonce \<and> nonce \<noteq> [] \<and>
        parseInt64 stamp = Some secs \<and> t < unixInstant secs))"
proof -
  have tok: "tok = signToken m expiresAt (hexEncode buf)" and e: "expiresAt = now + sm_ttl m"
    using key created by (auto simp: createSession_def generateToken_def Let_def)
  have same: "validateSignedToken (runSessionOps other ops) = validateSignedToken m"
    by (intro ext) (simp only: validateSignedToken_def runSessionOps_key key(2))
  have general: "snd (validateSession (runSessionOps other ops) t x) \<longleftrightarrow> validateSignedToken m t x" for x
  proof (cases "x = []")
    case True
    then have "\<not> validateSignedToken m t x" by (simp add: validateSignedToken_def)
    then show ?thesis using True by (simp add: validateSession_def)
  next
    case False
    then show ?thesis using key by (simp add: validateSession_def same)
  qed
  have "hexEncode buf \<noteq> []" using created(2) by auto
  from validate_signToken [OF this hexEncode_no_dot range, of m t]
  have "snd (validateSession (runSessionOps other ops) t tok) \<longleftrightarrow> t < second * ((now + sm_ttl m) div second)"
    by (simp add: general tok e [symmetric] unixSeconds_def)
  moreover have "snd (validateSession (runSessionOps other ops) t any) \<longleftrightarrow>
      (\<exists>stamp nonce secs.
        any = signedPayload stamp nonce @ ''.''
                @ signSessionPayload (sm_signingKey m) (signedPayload stamp nonce) \<and>
        CHR ''.'' \<notin> set stamp \<and> CHR ''.'' \<notin> set nonce \<and> nonce \<noteq> [] \<and>
        parseInt64 stamp = Some secs \<and> t < unixInstant secs)" for any
    unfolding general validateSignedToken_iff ..
  ultimately show ?thesis by blast
qed

theorem signed_session_exact_witness:
  "snd (validateSession (newSignedSessionManager 0 ''key'') (1700000005 * second)
      (signToken (newSignedSessionManager (10 * second) ''key'') (1700000010 * second + 1)
         (hexEncode (replicate 32 (CHR 0x01)))))"
proof -
  let ?m = "newSignedSessionManager (10 * second) ''key''"
  let ?buf = "replicate 32 (CHR 0x01)"
  have c: "createSession ?m (1700000000 * second + 1) 0 (Inr ?buf) =
      (?m, Inr (signToken ?m (1700000010 * second + 1) (hexEncode ?buf), 1700000010 * second + 1))"
    by (simp add: createSession_def generateToken_def newSignedSessionManager_def newSessionManager_def Let_def
        second_def)
  show ?thesis
    by (subst signed_session_exact
          [where other = "newSignedSessionManager 0 ''key''" and ops = "[]", simplified,
           OF _ _ c _ _ _, THEN conjunct1])
      (simp_all add: newSignedSessionManager_def newSessionManager_def unixSeconds_def second_def
        int64_min_def int64_max_def)
qed

end
