(* ===== verification/LoginGuard.thy ===== *)
theory LoginGuard
  imports Session GoNet "HOL-Library.Signed_Division" "HOL-Library.Multiset"
begin

text \<open>
  The login, logout and session handlers and the authentication middleware (\<open>api/auth.go\<close>), with
  the throttle on failed logins. A request holds what the handlers read of it: the parsed body or
  the binding error, the headers, the cookies as gin decodes them, the client address gin trusts.
  A response holds what they write. A handler pointer may be nil, hence the \<open>option\<close>. Requests are
  served concurrently: a login is a sequence of steps, one for each lock it takes, and a run of the
  program is an interleaving of the steps of all the requests.
\<close>

definition defaultSessionCookieName :: string where
  "defaultSessionCookieName = ''cpa_usage_session''"

definition maxFailedLoginAttempts :: int where
  "maxFailedLoginAttempts = 5"

definition failedLoginAttemptWindow :: duration where
  "failedLoginAttemptWindow = 15 * minute"

record authConfig =
  cf_Enabled :: bool
  cf_LoginPassword :: string
  cf_SharedBearerToken :: string
  cf_SessionTTL :: duration
  cf_BasePath :: string
  cf_SessionCookieName :: string
  cf_SessionCookieDomain :: string
  cf_SessionCookiePath :: string
  cf_TrustedProxies :: "string list"

record failedLoginAttempt =
  fa_count :: int
  fa_lastFailedAt :: instant

record authHandler =
  ah_config :: authConfig
  ah_sessions :: "sessionManager option"
  ah_failedAttempts :: "string \<rightharpoonup> failedLoginAttempt"

record authRequest =
  rq_body :: "string + string"
  rq_authorization :: string
  rq_cookie :: "string \<Rightarrow> string option"
  rq_clientIP :: string
  rq_remoteAddr :: string
  rq_tls :: bool
  rq_forwardedProto :: string

record httpCookie =
  ck_name :: string
  ck_value :: string
  ck_path :: string
  ck_domain :: string
  ck_secure :: bool
  ck_expires :: instant
  ck_maxAge :: int

datatype authBody = NoBody | ErrorBody string | Authenticated bool

record authResponse =
  rs_status :: nat
  rs_body :: authBody
  rs_setCookie :: "httpCookie option"

definition statusOnly :: "nat \<Rightarrow> authResponse" where
  "statusOnly code = \<lparr>rs_status = code, rs_body = NoBody, rs_setCookie = None\<rparr>"

definition errorStatus :: "nat \<Rightarrow> string \<Rightarrow> authResponse" where
  "errorStatus code msg = \<lparr>rs_status = code, rs_body = ErrorBody msg, rs_setCookie = None\<rparr>"

text \<open>\<open>writeInternalError\<close> logs the message and hides it from the client.\<close>

definition writeInternalError :: "string \<Rightarrow> authResponse" where
  "writeInternalError message = errorStatus 500 ''internal server error''"

definition sessionResponse :: "bool \<Rightarrow> authResponse" where
  "sessionResponse b = \<lparr>rs_status = 200, rs_body = Authenticated b, rs_setCookie = None\<rparr>"

definition newAuthHandler :: "authConfig \<Rightarrow> sessionManager option \<Rightarrow> authHandler" where
  "newAuthHandler cfg sessions =
     \<lparr>ah_config = cfg, ah_sessions = sessions, ah_failedAttempts = Map.empty\<rparr>"

section \<open>Credentials\<close>

definition passwordMatches :: "authHandler option \<Rightarrow> string \<Rightarrow> bool" where
  "passwordMatches h password =
     (case h of
        None \<Rightarrow> False
      | Some h \<Rightarrow>
          if cf_LoginPassword (ah_config h) \<noteq> [] \<and> password = cf_LoginPassword (ah_config h) then True
          else cf_SharedBearerToken (ah_config h) \<noteq> [] \<and> password = cf_SharedBearerToken (ah_config h))"

text \<open>
  \<open>strings.EqualFold\<close> with a pattern of ASCII letters none of which is \<open>k\<close> or \<open>s\<close> (the two letters
  with a non-ASCII fold) is equality up to ASCII case.
\<close>

definition bearerToken :: "string \<Rightarrow> string" where
  "bearerToken header =
     (let pre = ''Bearer ''
      in if length header \<le> length pre \<or> toLower (take (length pre) header) \<noteq> toLower pre then []
         else trimSpace (drop (length pre) header))"

definition validateBearerToken :: "authHandler option \<Rightarrow> string \<Rightarrow> bool" where
  "validateBearerToken h header =
     (case h of
        None \<Rightarrow> False
      | Some h \<Rightarrow>
          if cf_SharedBearerToken (ah_config h) = [] then False
          else (let token = bearerToken header
                in token \<noteq> [] \<and> token = cf_SharedBearerToken (ah_config h)))"

definition sessionCookieName :: "authHandler option \<Rightarrow> string" where
  "sessionCookieName h =
     (case h of
        None \<Rightarrow> defaultSessionCookieName
      | Some h \<Rightarrow> if cf_SessionCookieName (ah_config h) = [] then defaultSessionCookieName
                  else cf_SessionCookieName (ah_config h))"

definition sessionCookiePath :: "authHandler option \<Rightarrow> string" where
  "sessionCookiePath h =
     (case h of
        None \<Rightarrow> ''/''
      | Some h \<Rightarrow>
          if cf_SessionCookiePath (ah_config h) \<noteq> [] then cf_SessionCookiePath (ah_config h)
          else if cf_BasePath (ah_config h) \<noteq> [] then cf_BasePath (ah_config h) else ''/'')"

text \<open>
  \<open>validateRequest\<close>: the bearer token of the request, else its session cookie. Validating an
  expired session removes it, so the handler is returned as well.
\<close>

definition validateRequest :: "authHandler option \<Rightarrow> instant \<Rightarrow> authRequest \<Rightarrow> authHandler option \<times> bool" where
  "validateRequest h now req =
     (case h of
        None \<Rightarrow> (h, False)
      | Some a \<Rightarrow>
          if validateBearerToken h (rq_authorization req) then (h, True)
          else (case ah_sessions a of
                  None \<Rightarrow> (h, False)
                | Some sessions \<Rightarrow>
                    (case rq_cookie req (sessionCookieName h) of
                       None \<Rightarrow> (h, False)
                     | Some token \<Rightarrow>
                         (let (sessions', ok) = validateSession sessions now token
                          in (Some (a\<lparr>ah_sessions := Some sessions'\<rparr>), ok)))))"

text \<open>\<open>middleware\<close>: no response means that the next handler runs.\<close>

definition middleware :: "authHandler option \<Rightarrow> instant \<Rightarrow> authRequest \<Rightarrow> authHandler option \<times> authResponse option" where
  "middleware h now req =
     (if (case h of None \<Rightarrow> True | Some a \<Rightarrow> \<not> cf_Enabled (ah_config a)) then (h, None)
      else if (case h of None \<Rightarrow> False | Some a \<Rightarrow> ah_sessions a = None)
      then (h, Some (errorStatus 401 ''authentication required''))
      else (let (h', ok) = validateRequest h now req
            in if \<not> ok then (h', Some (errorStatus 401 ''authentication required'')) else (h', None)))"

definition getSession :: "authHandler option \<Rightarrow> instant \<Rightarrow> authRequest \<Rightarrow> authHandler option \<times> authResponse" where
  "getSession h now req =
     (if (case h of None \<Rightarrow> True | Some a \<Rightarrow> \<not> cf_Enabled (ah_config a)) then (h, sessionResponse True)
      else if (case h of None \<Rightarrow> False | Some a \<Rightarrow> ah_sessions a = None) then (h, sessionResponse False)
      else (let (h', ok) = validateRequest h now req in (h', sessionResponse ok)))"

section \<open>The throttle\<close>

definition pruneExpiredFailedAttemptsLocked :: "authHandler \<Rightarrow> instant \<Rightarrow> authHandler" where
  "pruneExpiredFailedAttemptsLocked h now =
     h\<lparr>ah_failedAttempts := (\<lambda>key. case ah_failedAttempts h key of
          None \<Rightarrow> None
        | Some attempt \<Rightarrow>
            if failedLoginAttemptWindow < now - fa_lastFailedAt attempt then None else Some attempt)\<rparr>"

text \<open>A read of a missing key gives the zero struct.\<close>

definition attemptOf :: "authHandler \<Rightarrow> string \<Rightarrow> failedLoginAttempt" where
  "attemptOf h key =
     (case ah_failedAttempts h key of
        None \<Rightarrow> \<lparr>fa_count = 0, fa_lastFailedAt = zero_time\<rparr>
      | Some attempt \<Rightarrow> attempt)"

definition tooManyFailedAttempts :: "authHandler \<Rightarrow> instant \<Rightarrow> string \<Rightarrow> authHandler \<times> bool" where
  "tooManyFailedAttempts h now key =
     (let h = pruneExpiredFailedAttemptsLocked h now
      in (h, maxFailedLoginAttempts \<le> fa_count (attemptOf h key)))"

definition recordFailedAttempt :: "authHandler \<Rightarrow> instant \<Rightarrow> string \<Rightarrow> authHandler" where
  "recordFailedAttempt h now key =
     (let h = pruneExpiredFailedAttemptsLocked h now;
          attempt = attemptOf h key;
          attempt = attempt\<lparr>fa_count := fa_count attempt + 1\<rparr>;
          attempt = attempt\<lparr>fa_lastFailedAt := now\<rparr>
      in h\<lparr>ah_failedAttempts := (ah_failedAttempts h)(key \<mapsto> attempt)\<rparr>)"

definition clearFailedAttempts :: "authHandler \<Rightarrow> string \<Rightarrow> authHandler" where
  "clearFailedAttempts h key = h\<lparr>ah_failedAttempts := (ah_failedAttempts h)(key := None)\<rparr>"

definition loginClientKey :: "authRequest \<Rightarrow> string" where
  "loginClientKey req =
     (if rq_clientIP req \<noteq> [] then rq_clientIP req
      else (case splitHostPort (rq_remoteAddr req) of
              Some host \<Rightarrow> if host \<noteq> [] then host else rq_remoteAddr req
            | None \<Rightarrow> rq_remoteAddr req))"

section \<open>Login and logout\<close>

text \<open>
  A login takes the lock of the throttle twice, once to check the counter and once to record a
  failure or clear the counter, and the lock of the sessions after that; requests run concurrently,
  so other requests may come between. The stages of a login are separate definitions: after the check
  it is answered, or about to record its failure, or about to clear the counter and then to create
  its session.
\<close>

datatype loginProgress =
    LoginAnswered authResponse
  | LoginRecording
  | LoginClearing
  | LoginCreating

text \<open>Up to and with \<open>tooManyFailedAttempts\<close>, whose clock reading is \<open>now\<close>.\<close>

definition loginCheck :: "authHandler \<Rightarrow> instant \<Rightarrow> authRequest \<Rightarrow> authHandler \<times> loginProgress" where
  "loginCheck a now req =
     (if \<not> cf_Enabled (ah_config a) then (a, LoginAnswered (statusOnly 204))
      else if ah_sessions a = None
      then (a, LoginAnswered (writeInternalError ''session manager is not configured''))
      else (case rq_body req of
        Inl err \<Rightarrow> (a, LoginAnswered (errorStatus 400 err))
      | Inr password \<Rightarrow>
          (let clientKey = loginClientKey req;
               matches = passwordMatches (Some a) password;
               (a1, tooMany) = tooManyFailedAttempts a now clientKey
           in if tooMany \<and> \<not> matches
              then (a1, LoginAnswered (errorStatus 429 ''too many failed login attempts''))
              else if \<not> matches then (a1, LoginRecording)
              else (a1, LoginClearing))))"

definition loginRecord :: "authHandler \<Rightarrow> instant \<Rightarrow> authRequest \<Rightarrow> authHandler \<times> authResponse" where
  "loginRecord a now req =
     (recordFailedAttempt a now (loginClientKey req), errorStatus 401 ''invalid password'')"

definition loginClear :: "authHandler \<Rightarrow> authRequest \<Rightarrow> authHandler" where
  "loginClear a req = clearFailedAttempts a (loginClientKey req)"

text \<open>The other clock readings of a login, in the order it takes them, and its random bytes.\<close>

record createEnv =
  ce_createdAt :: instant
  ce_sweptAt :: instant
  ce_answeredAt :: instant
  ce_random :: "string + string"

definition loginCreate :: "authHandler \<Rightarrow> createEnv \<Rightarrow> authRequest \<Rightarrow> authHandler \<times> authResponse" where
  "loginCreate a env req =
     (case ah_sessions a of
        None \<Rightarrow> (a, writeInternalError ''session manager is not configured'')
      | Some sessions \<Rightarrow>
          (case createSession sessions (ce_createdAt env) (ce_sweptAt env) (ce_random env) of
             (sessions', Inl err) \<Rightarrow>
               (a\<lparr>ah_sessions := Some sessions'\<rparr>, writeInternalError ''create auth session failed'')
           | (sessions', Inr (token, expiresAt)) \<Rightarrow>
               (a\<lparr>ah_sessions := Some sessions'\<rparr>,
                \<lparr>rs_status = 204, rs_body = NoBody,
                 rs_setCookie = Some
                   \<lparr>ck_name = sessionCookieName (Some a), ck_value = token,
                    ck_path = sessionCookiePath (Some a),
                    ck_domain = cf_SessionCookieDomain (ah_config a),
                    ck_secure = (rq_tls req \<or> rq_forwardedProto req = ''https''),
                    ck_expires = expiresAt,
                    ck_maxAge = (expiresAt - ce_answeredAt env) sdiv second\<rparr>\<rparr>)))"

text \<open>The whole handler, for a request that no other one interrupts.\<close>

definition login ::
  "authHandler option \<Rightarrow> instant \<Rightarrow> instant \<Rightarrow> createEnv \<Rightarrow> authRequest \<Rightarrow> authHandler option \<times> authResponse"
  where
  "login h checkedAt recordedAt env req =
     (case h of
        None \<Rightarrow> (h, statusOnly 204)
      | Some a \<Rightarrow>
          (case loginCheck a checkedAt req of
             (a1, LoginAnswered r) \<Rightarrow> (Some a1, r)
           | (a1, LoginRecording) \<Rightarrow> map_prod Some id (loginRecord a1 recordedAt req)
           | (a1, _) \<Rightarrow> map_prod Some id (loginCreate (loginClear a1 req) env req)))"

definition clearSessionCookie :: "string \<Rightarrow> string \<Rightarrow> string \<Rightarrow> httpCookie" where
  "clearSessionCookie name cookiePath domain =
     \<lparr>ck_name = name, ck_value = [], ck_path = cookiePath, ck_domain = domain, ck_secure = False,
      ck_expires = 0, ck_maxAge = -1\<rparr>"

definition logout :: "authHandler option \<Rightarrow> authRequest \<Rightarrow> authHandler option \<times> authResponse" where
  "logout h req =
     (case h of
        None \<Rightarrow> (h, statusOnly 204)
      | Some a \<Rightarrow>
      if \<not> cf_Enabled (ah_config a) then (h, statusOnly 204)
      else
        (let a' = (case ah_sessions a of
                     None \<Rightarrow> a
                   | Some sessions \<Rightarrow>
                       (case rq_cookie req (sessionCookieName h) of
                          None \<Rightarrow> a
                        | Some token \<Rightarrow> a\<lparr>ah_sessions := Some (deleteSession sessions token)\<rparr>))
         in (Some a',
             (statusOnly 204)\<lparr>rs_setCookie := Some (clearSessionCookie (sessionCookieName h)
                (sessionCookiePath h) (cf_SessionCookieDomain (ah_config a)))\<rparr>)))"

section \<open>Interleaved requests\<close>

text \<open>
  The state of the program: the handler, which all requests share, and the logins so far in the order
  of their checks, each with the stage it has reached and the clock reading of its last visit to the
  throttle. An event lets one request take its next step, so the events of a run are an
  interleaving of the requests; one that names a login that is not at that stage is no step.
\<close>

record loginRun =
  lr_request :: authRequest
  lr_progress :: loginProgress
  lr_at :: instant

record authSystem =
  as_handler :: authHandler
  as_logins :: "loginRun list"

datatype authEvent =
    LoginChecks instant authRequest
  | LoginRecords nat instant
  | LoginClears nat
  | LoginCreates nat createEnv
  | LogoutEvent authRequest
  | GuardedEvent instant authRequest
  | SessionEvent instant authRequest

definition atStage :: "authSystem \<Rightarrow> nat \<Rightarrow> loginProgress \<Rightarrow> bool" where
  "atStage s i p \<longleftrightarrow> i < length (as_logins s) \<and> lr_progress (as_logins s ! i) = p"

definition moveLogin :: "authSystem \<Rightarrow> nat \<Rightarrow> authHandler \<Rightarrow> (loginRun \<Rightarrow> loginRun) \<Rightarrow> authSystem" where
  "moveLogin s i a f = \<lparr>as_handler = a, as_logins = (as_logins s)[i := f (as_logins s ! i)]\<rparr>"

definition withHandler :: "authSystem \<Rightarrow> authHandler option \<Rightarrow> authSystem option" where
  "withHandler s h = map_option (\<lambda>a. s\<lparr>as_handler := a\<rparr>) h"

fun authStep :: "authSystem \<Rightarrow> authEvent \<Rightarrow> authSystem option" where
  "authStep s (LoginChecks now req) =
     (case loginCheck (as_handler s) now req of
        (a, p) \<Rightarrow> Some \<lparr>as_handler = a,
          as_logins = as_logins s @ [\<lparr>lr_request = req, lr_progress = p, lr_at = now\<rparr>]\<rparr>)"
| "authStep s (LoginRecords i now) =
     (if atStage s i LoginRecording
      then (case loginRecord (as_handler s) now (lr_request (as_logins s ! i)) of
              (a, r) \<Rightarrow> Some (moveLogin s i a (\<lambda>l. l\<lparr>lr_progress := LoginAnswered r, lr_at := now\<rparr>)))
      else None)"
| "authStep s (LoginClears i) =
     (if atStage s i LoginClearing
      then Some (moveLogin s i (loginClear (as_handler s) (lr_request (as_logins s ! i)))
             (\<lambda>l. l\<lparr>lr_progress := LoginCreating\<rparr>))
      else None)"
| "authStep s (LoginCreates i env) =
     (if atStage s i LoginCreating
      then (case loginCreate (as_handler s) env (lr_request (as_logins s ! i)) of
              (a, r) \<Rightarrow> Some (moveLogin s i a (\<lambda>l. l\<lparr>lr_progress := LoginAnswered r\<rparr>)))
      else None)"
| "authStep s (LogoutEvent req) = withHandler s (fst (logout (Some (as_handler s)) req))"
| "authStep s (GuardedEvent now req) = withHandler s (fst (middleware (Some (as_handler s)) now req))"
| "authStep s (SessionEvent now req) = withHandler s (fst (getSession (Some (as_handler s)) now req))"

fun authRun :: "authSystem \<Rightarrow> authEvent list \<Rightarrow> authSystem option" where
  "authRun s [] = Some s"
| "authRun s (e # es) = (case authStep s e of None \<Rightarrow> None | Some s' \<Rightarrow> authRun s' es)"

definition authStart :: "authConfig \<Rightarrow> sessionManager option \<Rightarrow> authSystem" where
  "authStart cfg sessions = \<lparr>as_handler = newAuthHandler cfg sessions, as_logins = []\<rparr>"

text \<open>The logins of a client between their check and their record, and the most there are in a run.\<close>

definition loginKey :: "loginRun \<Rightarrow> string" where
  "loginKey l = loginClientKey (lr_request l)"

definition inFlight :: "string \<Rightarrow> authSystem \<Rightarrow> nat" where
  "inFlight k s = length (filter (\<lambda>l. loginKey l = k \<and> lr_progress l = LoginRecording) (as_logins s))"

fun peak :: "string \<Rightarrow> authSystem \<Rightarrow> authEvent list \<Rightarrow> nat" where
  "peak k s [] = inFlight k s"
| "peak k s (e # es) = max (inFlight k s) (case authStep s e of None \<Rightarrow> 0 | Some s' \<Rightarrow> peak k s' es)"

text \<open>The status a login was answered with, and when a client's logins were answered 401.\<close>

definition statusOf :: "loginRun \<Rightarrow> nat option" where
  "statusOf l = (case lr_progress l of LoginAnswered r \<Rightarrow> Some (rs_status r) | _ \<Rightarrow> None)"

definition failuresOf :: "string \<Rightarrow> authSystem \<Rightarrow> instant list" where
  "failuresOf k s = map lr_at (filter (\<lambda>l. loginKey l = k \<and> statusOf l = Some 401) (as_logins s))"

text \<open>
  The clock, which both steps at the throttle read under its lock, does not run backwards over them.
\<close>

fun timely :: "instant \<Rightarrow> authEvent list \<Rightarrow> bool" where
  "timely T [] = True"
| "timely T (LoginChecks now req # es) = (T \<le> now \<and> timely now es)"
| "timely T (LoginRecords i now # es) = (T \<le> now \<and> timely now es)"
| "timely T (e # es) = timely T es"

text \<open>A login of the given client with a password that is neither of the configured secrets.\<close>

fun wrongLogin :: "authConfig \<Rightarrow> string \<Rightarrow> authEvent \<Rightarrow> bool" where
  "wrongLogin cfg k (LoginChecks now req) =
     (loginClientKey req = k \<longrightarrow>
        (case rq_body req of
           Inl err \<Rightarrow> True
         | Inr p \<Rightarrow> \<not> (cf_LoginPassword cfg \<noteq> [] \<and> p = cf_LoginPassword cfg) \<and>
                   \<not> (cf_SharedBearerToken cfg \<noteq> [] \<and> p = cf_SharedBearerToken cfg)))"
| "wrongLogin cfg k e = True"

text \<open>The other handlers leave the throttle alone, and none changes the configuration.\<close>

definition sameGuard :: "authHandler \<Rightarrow> authHandler \<Rightarrow> bool" where
  "sameGuard a a' \<longleftrightarrow> ah_failedAttempts a' = ah_failedAttempts a \<and> ah_config a' = ah_config a \<and>
     (ah_sessions a' = None \<longleftrightarrow> ah_sessions a = None)"

lemma sameGuard_refl [simp]: "sameGuard a a"
  by (simp add: sameGuard_def)

lemma validateRequest_keeps: "\<exists>a'. fst (validateRequest (Some a) now req) = Some a' \<and> sameGuard a a'"
  by (auto simp: validateRequest_def sameGuard_def split: option.splits prod.splits)

lemma middleware_handler:
  "fst (middleware (Some a) now req) = Some a \<or>
   fst (middleware (Some a) now req) = fst (validateRequest (Some a) now req)"
  by (simp add: middleware_def split: prod.split)

lemma getSession_handler:
  "fst (getSession (Some a) now req) = Some a \<or>
   fst (getSession (Some a) now req) = fst (validateRequest (Some a) now req)"
  by (simp add: getSession_def split: prod.split)

lemma middleware_keeps: "\<exists>a'. fst (middleware (Some a) now req) = Some a' \<and> sameGuard a a'"
  using middleware_handler [of a now req] validateRequest_keeps [of a now req] by (elim disjE) simp_all

lemma getSession_keeps: "\<exists>a'. fst (getSession (Some a) now req) = Some a' \<and> sameGuard a a'"
  using getSession_handler [of a now req] validateRequest_keeps [of a now req] by (elim disjE) simp_all

lemma logout_keeps: "\<exists>a'. fst (logout (Some a) req) = Some a' \<and> sameGuard a a'"
  by (auto simp: logout_def sameGuard_def Let_def split: option.splits)

lemma loginCreate_keeps: "sameGuard a (fst (loginCreate a env req))"
  by (auto simp: loginCreate_def sameGuard_def split: option.splits prod.splits sum.splits)

text \<open>
  What the throttle remembers of a client: the failures since its counter was last dropped are
  \<open>recent\<close>, and every earlier one is more than a window before those and before now.
\<close>

definition inWindow :: "instant \<Rightarrow> instant \<Rightarrow> bool" where
  "inWindow s f \<longleftrightarrow> s \<le> f \<and> f \<le> s + failedLoginAttemptWindow"

definition throttles :: "nat \<Rightarrow> authHandler \<Rightarrow> string \<Rightarrow> instant \<Rightarrow> instant list \<Rightarrow> instant list \<Rightarrow> bool" where
  "throttles m a k T old recent \<longleftrightarrow>
     (case ah_failedAttempts a k of
        None \<Rightarrow> recent = []
      | Some attempt \<Rightarrow> recent \<noteq> [] \<and> fa_count attempt = int (length recent) \<and>
                        fa_lastFailedAt attempt = last recent) \<and>
     length recent \<le> m \<and> sorted recent \<and> (\<forall>f \<in> set recent. f \<le> T) \<and>
     (\<forall>f \<in> set old. f + failedLoginAttemptWindow < T) \<and>
     (\<forall>f \<in> set old. \<forall>g \<in> set recent. f + failedLoginAttemptWindow < g) \<and>
     (\<forall>s. length (filter (inWindow s) old) \<le> m)"

lemma throttlesD:
  assumes "throttles m a k T old recent"
  shows "ah_failedAttempts a k = None \<Longrightarrow> recent = []"
    and "ah_failedAttempts a k = Some x \<Longrightarrow>
      recent \<noteq> [] \<and> fa_count x = int (length recent) \<and> fa_lastFailedAt x = last recent"
    and "length recent \<le> m" and "sorted recent" and "f \<in> set recent \<Longrightarrow> f \<le> T"
    and "g \<in> set old \<Longrightarrow> g + failedLoginAttemptWindow < T"
    and "g \<in> set old \<Longrightarrow> f \<in> set recent \<Longrightarrow> g + failedLoginAttemptWindow < f"
    and "length (filter (inWindow s) old) \<le> m"
  using assms by (simp_all add: throttles_def)

lemma throttles_bound:
  assumes th: "throttles m a k T old recent"
  shows "length (filter (inWindow s) (old @ recent)) \<le> m"
proof (cases "filter (inWindow s) recent = []")
  case True
  then show ?thesis using throttlesD(8) [OF th] by simp
next
  case False
  then obtain g where g: "g \<in> set recent" "inWindow s g" by (metis filter_False)
  have "\<not> inWindow s f" if "f \<in> set old" for f
    using throttlesD(7) [OF th that g(1)] g(2) by (simp add: inWindow_def)
  then have "filter (inWindow s) old = []" by (simp add: filter_empty_conv)
  then show ?thesis using order_trans [OF length_filter_le throttlesD(3) [OF th]] by simp
qed

lemma throttles_later:
  assumes th: "throttles m a k T old recent" and "T \<le> T'"
  shows "throttles m a k T' old recent"
proof -
  have "f \<le> T'" if "f \<in> set recent" for f using throttlesD(5) [OF th that] \<open>T \<le> T'\<close> by simp
  moreover have "f + failedLoginAttemptWindow < T'" if "f \<in> set old" for f
    using throttlesD(6) [OF th that] \<open>T \<le> T'\<close> by simp
  ultimately show ?thesis using th by (simp add: throttles_def)
qed

lemma throttles_same:
  "throttles m a k T old recent \<Longrightarrow> ah_failedAttempts a' k = ah_failedAttempts a k \<Longrightarrow> throttles m a' k T old recent"
  by (simp add: throttles_def)

lemma throttles_start: "ah_failedAttempts a k = None \<Longrightarrow> throttles m a k T [] []"
  by (simp add: throttles_def)

lemma sorted_le_last: "sorted xs \<Longrightarrow> x \<in> set xs \<Longrightarrow> x \<le> last xs" for xs :: "'a :: linorder list"
  by (induction xs) auto

text \<open>Pruning either keeps what is remembered or forgets the recent failures.\<close>

lemma throttles_prune:
  assumes th: "throttles m a k T old recent" and "T \<le> t"
  shows "\<exists>old' recent'. old' @ recent' = old @ recent \<and> length recent' \<le> length recent \<and>
    throttles m (pruneExpiredFailedAttemptsLocked a t) k t old' recent'"
proof (cases "\<exists>x. ah_failedAttempts a k = Some x \<and> failedLoginAttemptWindow < t - fa_lastFailedAt x")
  case False
  then have "ah_failedAttempts (pruneExpiredFailedAttemptsLocked a t) k = ah_failedAttempts a k"
    by (auto simp: pruneExpiredFailedAttemptsLocked_def split: option.split)
  from throttles_same [OF throttles_later [OF th \<open>T \<le> t\<close>] this] show ?thesis by blast
next
  case True
  then obtain x where x: "ah_failedAttempts a k = Some x" "failedLoginAttemptWindow < t - fa_lastFailedAt x"
    by blast
  have last: "recent \<noteq> []" "fa_lastFailedAt x = last recent" using throttlesD(2) [OF th x(1)] by simp_all
  have gone: "f + failedLoginAttemptWindow < t" if "f \<in> set (old @ recent)" for f
  proof (cases "f \<in> set old")
    case True
    then show ?thesis using throttlesD(6) [OF th] \<open>T \<le> t\<close> by force
  next
    case False
    then have "f \<in> set recent" using that by simp
    then have "f \<le> last recent" by (rule sorted_le_last [OF throttlesD(4) [OF th]])
    then show ?thesis using x(2) last(2) by simp
  qed
  have "ah_failedAttempts (pruneExpiredFailedAttemptsLocked a t) k = None"
    using x by (simp add: pruneExpiredFailedAttemptsLocked_def)
  then have "throttles m (pruneExpiredFailedAttemptsLocked a t) k t (old @ recent) []"
    unfolding throttles_def using gone throttles_bound [OF th] by auto
  then show ?thesis by (intro exI [of _ "old @ recent"] exI [of _ "[]"]) simp
qed

text \<open>Counting one more failure after pruning.\<close>

lemma throttles_record:
  assumes th: "throttles m a k T old recent" and "T \<le> t" and room: "length recent < m"
  shows "\<exists>old' recent'. old' @ recent' = old @ recent @ [t] \<and> length recent' \<le> Suc (length recent) \<and>
    throttles m (recordFailedAttempt a t k) k t old' recent'"
proof -
  obtain old' recent' where p: "old' @ recent' = old @ recent" "length recent' \<le> length recent"
      "throttles m (pruneExpiredFailedAttemptsLocked a t) k t old' recent'"
    using throttles_prune [OF th \<open>T \<le> t\<close>] by blast
  let ?a = "pruneExpiredFailedAttemptsLocked a t"
  have count: "fa_count (attemptOf ?a k) = int (length recent')"
    using throttlesD(1,2) [OF p(3)] by (cases "ah_failedAttempts ?a k") (auto simp: attemptOf_def)
  have entry: "ah_failedAttempts (recordFailedAttempt a t k) k =
      Some \<lparr>fa_count = int (length recent') + 1, fa_lastFailedAt = t\<rparr>"
    by (simp add: recordFailedAttempt_def Let_def count [symmetric])
  have "throttles m (recordFailedAttempt a t k) k t old' (recent' @ [t])"
    unfolding throttles_def entry
    using throttlesD(3,4,7,8) [OF p(3)] throttlesD(5,6) [OF p(3)] p(2) room
    by (auto simp: sorted_append)
  moreover have "old' @ recent' @ [t] = old @ recent @ [t]" using p(1) by (metis append.assoc)
  moreover have "length (recent' @ [t]) \<le> Suc (length recent)" using p(2) by simp
  ultimately show ?thesis by blast
qed

lemma record_other:
  "k' \<noteq> k \<Longrightarrow> ah_failedAttempts (recordFailedAttempt a t k') k =
     ah_failedAttempts (pruneExpiredFailedAttemptsLocked a t) k"
  by (simp add: recordFailedAttempt_def Let_def)

lemma prune_config [simp]: "ah_config (pruneExpiredFailedAttemptsLocked a t) = ah_config a"
  by (simp add: pruneExpiredFailedAttemptsLocked_def)

lemma record_config [simp]: "ah_config (recordFailedAttempt a t k) = ah_config a"
  by (simp add: recordFailedAttempt_def Let_def)

lemma too_many_iff:
  assumes "throttles m a k T old recent"
  shows "maxFailedLoginAttempts \<le> fa_count (attemptOf a k) \<longleftrightarrow> 5 \<le> length recent"
  using throttlesD(1,2) [OF assms]
  by (cases "ah_failedAttempts a k") (auto simp: attemptOf_def maxFailedLoginAttempts_def)

lemma prune_sessions [simp]: "ah_sessions (pruneExpiredFailedAttemptsLocked a t) = ah_sessions a"
  by (simp add: pruneExpiredFailedAttemptsLocked_def)

lemma record_sessions [simp]: "ah_sessions (recordFailedAttempt a t k) = ah_sessions a"
  by (simp add: recordFailedAttempt_def Let_def)

lemma prune_fresh:
  "ah_failedAttempts (pruneExpiredFailedAttemptsLocked a t) k = Some x \<Longrightarrow>
     t \<le> fa_lastFailedAt x + failedLoginAttemptWindow"
  by (auto simp: pruneExpiredFailedAttemptsLocked_def split: option.splits if_splits)

section \<open>Steps of the logins\<close>

text \<open>The outcomes of the check: before the throttle, refused by it, and the two that go on.\<close>

definition exempt :: "authHandler \<Rightarrow> authRequest \<Rightarrow> bool" where
  "exempt a req \<longleftrightarrow> \<not> cf_Enabled (ah_config a) \<or> ah_sessions a = None \<or> (\<exists>err. rq_body req = Inl err)"

lemma check_exempt:
  assumes "exempt a req"
  shows "\<exists>r. loginCheck a now req = (a, LoginAnswered r) \<and> rs_status r \<notin> {401, 429}"
  using assms
  by (auto simp: exempt_def loginCheck_def statusOnly_def errorStatus_def writeInternalError_def
      split: sum.split)

lemma check_checked:
  assumes "\<not> exempt a req"
  obtains p where "rq_body req = Inr p"
    "loginCheck a now req = (pruneExpiredFailedAttemptsLocked a now,
       (if passwordMatches (Some a) p then LoginClearing
        else if maxFailedLoginAttempts
            \<le> fa_count (attemptOf (pruneExpiredFailedAttemptsLocked a now) (loginClientKey req))
        then LoginAnswered (errorStatus 429 ''too many failed login attempts'') else LoginRecording))"
proof -
  obtain p where "rq_body req = Inr p" using assms by (cases "rq_body req") (auto simp: exempt_def)
  then show thesis
    using assms that by (auto simp: exempt_def loginCheck_def tooManyFailedAttempts_def Let_def)
qed

lemma wrongLogin_password:
  "wrongLogin (ah_config a) k (LoginChecks now req) \<Longrightarrow> loginClientKey req = k \<Longrightarrow>
     rq_body req = Inr p \<Longrightarrow> \<not> passwordMatches (Some a) p"
  by (auto simp: passwordMatches_def)

text \<open>What one more login, or the next stage of one, does to the two counts.\<close>

lemma failures_check:
  "failuresOf k \<lparr>as_handler = a, as_logins = ls @ [l]\<rparr> =
     failuresOf k \<lparr>as_handler = b, as_logins = ls\<rparr> @ (if loginKey l = k \<and> statusOf l = Some 401 then [lr_at l] else [])"
  by (simp add: failuresOf_def)

lemma inFlight_check:
  "inFlight k \<lparr>as_handler = a, as_logins = ls @ [l]\<rparr> =
     inFlight k \<lparr>as_handler = b, as_logins = ls\<rparr> + (if loginKey l = k \<and> lr_progress l = LoginRecording then 1 else 0)"
  by (simp add: inFlight_def)

lemma filter_update:
  assumes "i < length xs"
  shows "mset (filter P (xs[i := y])) + (if P (xs ! i) then {#xs ! i#} else {#}) =
    mset (filter P xs) + (if P y then {#y#} else {#})"
proof -
  have "filter P xs = filter P (take i xs) @ filter P [xs ! i] @ filter P (drop (Suc i) xs)"
    using id_take_nth_drop [OF assms] by (metis append_Cons append_Nil filter_append)
  then show ?thesis using assms by (simp add: upd_conv_take_nth_drop)
qed

lemma count_update:
  assumes "i < length xs"
  shows "length (filter P (xs[i := y])) + (if P (xs ! i) then 1 else 0) =
    length (filter P xs) + (if P y then 1 else 0)"
proof -
  have "filter P xs = filter P (take i xs) @ filter P [xs ! i] @ filter P (drop (Suc i) xs)"
    using id_take_nth_drop [OF assms] by (metis append_Cons append_Nil filter_append)
  then show ?thesis using assms by (simp add: upd_conv_take_nth_drop)
qed

lemma failures_move:
  assumes "i < length (as_logins s)" "\<not> (loginKey (as_logins s ! i) = k \<and> statusOf (as_logins s ! i) = Some 401)"
  shows "mset (failuresOf k (moveLogin s i a f)) = mset (failuresOf k s) +
    (if loginKey (f (as_logins s ! i)) = k \<and> statusOf (f (as_logins s ! i)) = Some 401
     then {#lr_at (f (as_logins s ! i))#} else {#})"
  using filter_update [OF assms(1), of "\<lambda>l. loginKey l = k \<and> statusOf l = Some 401" "f (as_logins s ! i)"] assms(2)
  by (simp add: failuresOf_def moveLogin_def mset_map [symmetric] del: mset_map) (simp split: if_splits)

lemma inFlight_move:
  assumes "i < length (as_logins s)"
  shows "inFlight k (moveLogin s i a f) +
      (if loginKey (as_logins s ! i) = k \<and> lr_progress (as_logins s ! i) = LoginRecording then 1 else 0) =
    inFlight k s +
      (if loginKey (f (as_logins s ! i)) = k \<and> lr_progress (f (as_logins s ! i)) = LoginRecording then 1 else 0)"
  using count_update [OF assms, of "\<lambda>l. loginKey l = k \<and> lr_progress l = LoginRecording" "f (as_logins s ! i)"]
  by (simp add: inFlight_def moveLogin_def)

section \<open>The invariant of a guessing client\<close>

text \<open>
  Where a login of the client may stand: its password is wrong, so it never gets past the throttle; if
  it passed the first checks it is answered 401 or 429; and 429 only when five failures were counted
  before it, the last at most a window ago.
\<close>

definition guessed :: "authConfig \<Rightarrow> bool \<Rightarrow> instant multiset \<Rightarrow> loginRun \<Rightarrow> bool" where
  "guessed cfg ns F l \<longleftrightarrow>
     lr_progress l \<noteq> LoginClearing \<and> lr_progress l \<noteq> LoginCreating \<and>
     (cf_Enabled cfg \<and> \<not> ns \<and> (\<exists>p. rq_body (lr_request l) = Inr p) \<longrightarrow>
        lr_progress l = LoginRecording \<or> statusOf l = Some 401 \<or> statusOf l = Some 429) \<and>
     (statusOf l = Some 429 \<longrightarrow>
        5 \<le> size (filter_mset (\<lambda>f. f \<le> lr_at l) F) \<and>
        (\<exists>f \<in># F. f \<le> lr_at l \<and> lr_at l \<le> f + failedLoginAttemptWindow))"

lemma guessed_mono:
  assumes "guessed cfg ns F l" "F \<subseteq># G"
  shows "guessed cfg ns G l"
proof -
  have "size (filter_mset P F) \<le> size (filter_mset P G)" for P :: "instant \<Rightarrow> bool"
    using assms(2) by (intro size_mset_mono multiset_filter_mono)
  then show ?thesis
    using assms unfolding guessed_def by (meson le_trans mset_subset_eqD)
qed

definition guardOK ::
  "authConfig \<Rightarrow> bool \<Rightarrow> nat \<Rightarrow> string \<Rightarrow> instant \<Rightarrow> authSystem \<Rightarrow> instant list \<Rightarrow> instant list \<Rightarrow> bool" where
  "guardOK cfg ns n k T s old recent \<longleftrightarrow>
     throttles (4 + n) (as_handler s) k T old recent \<and>
     mset (failuresOf k s) = mset (old @ recent) \<and> length recent + inFlight k s \<le> 4 + n \<and>
     ah_config (as_handler s) = cfg \<and> (ah_sessions (as_handler s) = None \<longleftrightarrow> ns) \<and>
     (\<forall>l \<in> set (as_logins s). loginKey l = k \<longrightarrow> guessed cfg ns (mset (old @ recent)) l)"

lemma guardOK_D:
  assumes "guardOK cfg ns n k T s old recent"
  shows "throttles (4 + n) (as_handler s) k T old recent" "mset (failuresOf k s) = mset (old @ recent)"
    "length recent + inFlight k s \<le> 4 + n" "ah_config (as_handler s) = cfg"
    "ah_sessions (as_handler s) = None \<longleftrightarrow> ns"
    "l \<in> set (as_logins s) \<Longrightarrow> loginKey l = k \<Longrightarrow> guessed cfg ns (mset (old @ recent)) l"
  using assms by (simp_all add: guardOK_def)

text \<open>The other requests, and the later stages of other clients' logins.\<close>

lemma guardOK_handler:
  assumes "guardOK cfg ns n k T s old recent" "sameGuard (as_handler s) a"
  shows "guardOK cfg ns n k T (s\<lparr>as_handler := a\<rparr>) old recent"
proof -
  have "throttles (4 + n) a k T old recent"
    using assms(2) by (intro throttles_same [OF guardOK_D(1) [OF assms(1)]]) (simp add: sameGuard_def)
  then show ?thesis
    using assms by (simp add: guardOK_def sameGuard_def failuresOf_def inFlight_def)
qed

lemma moved_logins: "l \<in> set (as_logins (moveLogin s i a f)) \<Longrightarrow> i < length (as_logins s) \<Longrightarrow>
    l \<in> set (as_logins s) \<or> l = f (as_logins s ! i)"
  by (auto simp: moveLogin_def dest: set_update_subset_insert [THEN subsetD])

lemma guardOK_foreign:
  assumes ok: "guardOK cfg ns n k T s old recent"
    and i: "i < length (as_logins s)" "loginKey (as_logins s ! i) \<noteq> k"
    and f: "loginKey (f (as_logins s ! i)) = loginKey (as_logins s ! i)"
    and a: "ah_config a = ah_config (as_handler s)" "ah_sessions a = None \<longleftrightarrow> ah_sessions (as_handler s) = None"
    and th: "throttles (4 + n) a k t old' recent'" "old' @ recent' = old @ recent" "length recent' \<le> length recent"
  shows "guardOK cfg ns n k t (moveLogin s i a f) old' recent'"
proof -
  have "mset (failuresOf k (moveLogin s i a f)) = mset (failuresOf k s)"
    using failures_move [OF i(1), of k a f] i(2) f by simp
  moreover have "inFlight k (moveLogin s i a f) = inFlight k s"
    using inFlight_move [OF i(1), of k a f] i(2) f by simp
  moreover have "guessed cfg ns (mset (old' @ recent')) l"
    if "l \<in> set (as_logins (moveLogin s i a f))" "loginKey l = k" for l
    using moved_logins [OF that(1) i(1)] that(2) i(2) f guardOK_D(6) [OF ok] th(2) by auto
  ultimately show ?thesis
    using guardOK_D [OF ok] th a by (auto simp: guardOK_def) (simp_all add: moveLogin_def)
qed

lemma guardOK_check:
  assumes ok: "guardOK cfg ns n k T s old recent" and "T \<le> now"
    and wrong: "wrongLogin cfg k (LoginChecks now req)"
    and step: "authStep s (LoginChecks now req) = Some s'" and few: "inFlight k s' \<le> n"
  shows "\<exists>old' recent'. guardOK cfg ns n k now s' old' recent'"
proof -
  let ?a = "as_handler s"
  obtain old1 recent1 where p: "old1 @ recent1 = old @ recent" "length recent1 \<le> length recent"
      "throttles (4 + n) (pruneExpiredFailedAttemptsLocked ?a now) k now old1 recent1"
    using throttles_prune [OF guardOK_D(1) [OF ok] \<open>T \<le> now\<close>] by blast
  obtain a q where q: "loginCheck ?a now req = (a, q)" by (cases "loginCheck ?a now req")
  define l where "l = \<lparr>lr_request = req, lr_progress = q, lr_at = now\<rparr>"
  have s': "s' = \<lparr>as_handler = a, as_logins = as_logins s @ [l]\<rparr>" using step q by (simp add: l_def)
  have key: "loginKey l = loginClientKey req" by (simp add: l_def loginKey_def)
  have s: "s = \<lparr>as_handler = ?a, as_logins = as_logins s\<rparr>" by simp
  have result: "guardOK cfg ns n k now s' old' recent'"
    if th: "throttles (4 + n) a k now old' recent'" "old' @ recent' = old @ recent"
      and a: "ah_config a = ah_config ?a" "ah_sessions a = ah_sessions ?a"
      and bound: "length recent' + inFlight k s' \<le> 4 + n"
      and l: "statusOf l \<noteq> Some 401" "loginKey l = k \<Longrightarrow> guessed cfg ns (mset (old' @ recent')) l"
    for old' recent'
  proof -
    have "failuresOf k s' = failuresOf k s"
      using failures_check [of k a "as_logins s" l ?a] l(1) s s' by simp
    then show ?thesis
      using guardOK_D [OF ok] th a bound l(2) by (auto simp: guardOK_def s')
  qed
  have flight: "inFlight k s' = inFlight k s + (if loginKey l = k \<and> q = LoginRecording then 1 else 0)"
    using inFlight_check [of k a "as_logins s" l ?a] s s' by (simp add: l_def)
  show ?thesis
  proof (cases "exempt ?a req")
    case True
    obtain r where r: "a = ?a" "q = LoginAnswered r" "rs_status r \<notin> {401, 429}"
      using check_exempt [OF True, of now] q by auto
    have "guardOK cfg ns n k now s' old recent"
    proof (rule result)
      show "throttles (4 + n) a k now old recent"
        using throttles_later [OF guardOK_D(1) [OF ok] \<open>T \<le> now\<close>] r(1) by simp
      show "length recent + inFlight k s' \<le> 4 + n" using guardOK_D(3) [OF ok] flight r(2) by simp
      show "guessed cfg ns (mset (old @ recent)) l"
        using True r guardOK_D(4,5) [OF ok] by (auto simp: guessed_def l_def statusOf_def exempt_def)
    qed (use r in \<open>simp_all add: l_def statusOf_def\<close>)
    then show ?thesis by blast
  next
    case False
    let ?b = "pruneExpiredFailedAttemptsLocked ?a now"
    obtain p' where c: "rq_body req = Inr p'"
      "loginCheck ?a now req = (?b, (if passwordMatches (Some ?a) p' then LoginClearing
        else if maxFailedLoginAttempts \<le> fa_count (attemptOf ?b (loginClientKey req))
        then LoginAnswered (errorStatus 429 ''too many failed login attempts'') else LoginRecording))"
      using check_checked [OF False, of now] by blast
    have a: "a = ?b" using q c(2) by simp
    have mine: "\<not> passwordMatches (Some ?a) p'" if "loginClientKey req = k"
      using wrongLogin_password [OF _ that c(1)] wrong guardOK_D(4) [OF ok] by auto
    have count: "maxFailedLoginAttempts \<le> fa_count (attemptOf ?b k) \<longleftrightarrow> 5 \<le> length recent1"
      by (rule too_many_iff [OF p(3)])
    have "guardOK cfg ns n k now s' old1 recent1"
    proof (rule result)
      show "length recent1 + inFlight k s' \<le> 4 + n"
      proof (cases "loginKey l = k \<and> q = LoginRecording")
        case True
        then have "\<not> 5 \<le> length recent1" using count q c(2) key by (auto split: if_splits)
        then show ?thesis using few by simp
      next
        case False
        then show ?thesis using flight guardOK_D(3) [OF ok] p(2) by auto
      qed
      show "guessed cfg ns (mset (old1 @ recent1)) l" if lk: "loginKey l = k"
      proof (cases "q = LoginRecording")
        case True
        then show ?thesis by (simp add: guessed_def l_def statusOf_def)
      next
        case False
        then have refused: "q = LoginAnswered (errorStatus 429 ''too many failed login attempts'')"
            "5 \<le> length recent1"
          using q c(2) mine count lk key by (auto split: if_splits)
        have all: "filter_mset (\<lambda>f. f \<le> now) (mset recent1) = mset recent1"
          using throttlesD(5) [OF p(3)] by (simp add: filter_mset_eq_conv)
        have "5 \<le> size (filter_mset (\<lambda>f. f \<le> now) (mset (old1 @ recent1)))"
          using refused(2) all by simp
        moreover obtain x where x: "ah_failedAttempts ?b k = Some x" "fa_lastFailedAt x = last recent1"
          using refused(2) throttlesD(1,2) [OF p(3)] by (cases "ah_failedAttempts ?b k") auto
        moreover have "last recent1 \<in> set recent1" using refused(2) by (intro last_in_set) auto
        ultimately show ?thesis
          using prune_fresh [OF x(1)] throttlesD(5) [OF p(3)] refused(1)
          by (auto simp: guessed_def l_def statusOf_def errorStatus_def intro!: bexI [of _ "last recent1"])
      qed
      show "statusOf l \<noteq> Some 401" using q c(2) by (auto simp: l_def statusOf_def errorStatus_def split: if_splits)
    qed (use a p in simp_all)
    then show ?thesis by blast
  qed
qed

lemma guardOK_record:
  assumes ok: "guardOK cfg ns n k T s old recent" and "T \<le> now"
    and step: "authStep s (LoginRecords i now) = Some s'"
  shows "\<exists>old' recent'. guardOK cfg ns n k now s' old' recent'"
proof -
  let ?a = "as_handler s" and ?l = "as_logins s ! i"
  let ?f = "\<lambda>l. l\<lparr>lr_progress := LoginAnswered (errorStatus 401 ''invalid password''), lr_at := now\<rparr>"
  let ?b = "recordFailedAttempt ?a now (loginKey ?l)"
  have i: "i < length (as_logins s)" "lr_progress ?l = LoginRecording"
    and s': "s' = moveLogin s i ?b ?f"
    using step by (auto simp: atStage_def loginRecord_def loginKey_def split: if_splits)
  have f: "loginKey (?f ?l) = loginKey ?l" "statusOf (?f ?l) = Some 401" "lr_at (?f ?l) = now"
    by (simp_all add: loginKey_def statusOf_def errorStatus_def)
  have notyet: "statusOf ?l = None" using i(2) by (simp add: statusOf_def)
  show ?thesis
  proof (cases "loginKey ?l = k")
    case False
    obtain old1 recent1 where p: "old1 @ recent1 = old @ recent" "length recent1 \<le> length recent"
        "throttles (4 + n) (pruneExpiredFailedAttemptsLocked ?a now) k now old1 recent1"
      using throttles_prune [OF guardOK_D(1) [OF ok] \<open>T \<le> now\<close>] by blast
    have "throttles (4 + n) ?b k now old1 recent1"
      by (rule throttles_same [OF p(3)]) (rule record_other [OF False])
    then have "guardOK cfg ns n k now (moveLogin s i ?b ?f) old1 recent1"
      using p by (intro guardOK_foreign [OF ok i(1) False]) (simp_all add: f(1))
    then show ?thesis unfolding s' by blast
  next
    case True
    have flight: "Suc (inFlight k s') = inFlight k s"
      using inFlight_move [OF i(1), of k ?b ?f] True i(2) by (simp add: s')
    then have room: "length recent < 4 + n" using guardOK_D(3) [OF ok] by simp
    obtain old1 recent1 where p: "old1 @ recent1 = old @ recent @ [now]"
        "length recent1 \<le> Suc (length recent)" "throttles (4 + n) ?b k now old1 recent1"
      using throttles_record [OF guardOK_D(1) [OF ok] \<open>T \<le> now\<close> room] True by auto
    have F: "mset (old1 @ recent1) = mset (old @ recent) + {#now#}" unfolding p(1) by simp
    have "mset (failuresOf k s') = mset (old1 @ recent1)"
      unfolding F guardOK_D(2) [OF ok, symmetric] s'
      using failures_move [OF i(1), of k ?b ?f] True notyet f by simp
    moreover have "guessed cfg ns (mset (old1 @ recent1)) l"
      if "l \<in> set (as_logins s')" "loginKey l = k" for l
    proof -
      have "guessed cfg ns (mset (old1 @ recent1)) (?f ?l)"
        by (simp add: guessed_def statusOf_def errorStatus_def)
      moreover have "mset (old @ recent) \<subseteq># mset (old1 @ recent1)" unfolding F by simp
      ultimately show ?thesis
        using moved_logins [OF that(1) [unfolded s'] i(1)] that(2) guessed_mono guardOK_D(6) [OF ok] by blast
    qed
    ultimately have "guardOK cfg ns n k now s' old1 recent1"
      using guardOK_D [OF ok] p(2,3) flight unfolding guardOK_def by (simp add: s' moveLogin_def)
    then show ?thesis by blast
  qed
qed

lemma stage_foreign:
  assumes "guardOK cfg ns n k T s old recent" "atStage s i p" "p = LoginClearing \<or> p = LoginCreating"
  shows "i < length (as_logins s)" "loginKey (as_logins s ! i) \<noteq> k"
  using assms guardOK_D(6) [OF assms(1), of "as_logins s ! i"]
  by (auto simp: atStage_def guessed_def)

lemma guardOK_clear:
  assumes ok: "guardOK cfg ns n k T s old recent" and step: "authStep s (LoginClears i) = Some s'"
  shows "guardOK cfg ns n k T s' old recent"
proof -
  have at: "atStage s i LoginClearing" using step by (simp split: if_splits)
  note i = stage_foreign [OF ok at, simplified]
  let ?b = "loginClear (as_handler s) (lr_request (as_logins s ! i))"
  have "throttles (4 + n) ?b k T old recent"
    using i(2) by (intro throttles_same [OF guardOK_D(1) [OF ok]])
      (simp add: loginClear_def clearFailedAttempts_def loginKey_def)
  then show ?thesis
    using guardOK_foreign [OF ok i, of "\<lambda>l. l\<lparr>lr_progress := LoginCreating\<rparr>" ?b T old recent] step at
    by (simp add: loginKey_def loginClear_def clearFailedAttempts_def)
qed

lemma guardOK_create:
  assumes ok: "guardOK cfg ns n k T s old recent" and step: "authStep s (LoginCreates i env) = Some s'"
  shows "guardOK cfg ns n k T s' old recent"
proof -
  have at: "atStage s i LoginCreating" using step by (simp split: if_splits)
  note i = stage_foreign [OF ok at, simplified]
  obtain b r where b: "loginCreate (as_handler s) env (lr_request (as_logins s ! i)) = (b, r)"
    by (cases "loginCreate (as_handler s) env (lr_request (as_logins s ! i))")
  have same: "sameGuard (as_handler s) b" using loginCreate_keeps [of "as_handler s"] b by (metis fst_conv)
  have "throttles (4 + n) b k T old recent"
    using same by (intro throttles_same [OF guardOK_D(1) [OF ok]]) (simp add: sameGuard_def)
  then show ?thesis
    using guardOK_foreign [OF ok i, of "\<lambda>l. l\<lparr>lr_progress := LoginAnswered r\<rparr>" b T old recent] step at b same
    by (simp add: loginKey_def sameGuard_def)
qed

text \<open>The clock after an event.\<close>

fun clockAfter :: "instant \<Rightarrow> authEvent \<Rightarrow> instant" where
  "clockAfter T (LoginChecks now req) = now"
| "clockAfter T (LoginRecords i now) = now"
| "clockAfter T e = T"

lemma timely_Cons: "timely T (e # es) \<longleftrightarrow> T \<le> clockAfter T e \<and> timely (clockAfter T e) es"
  by (cases e) simp_all

lemma guardOK_step:
  assumes ok: "guardOK cfg ns n k T s old recent" and "T \<le> clockAfter T e" "wrongLogin cfg k e"
    and step: "authStep s e = Some s'" and "inFlight k s' \<le> n"
  shows "\<exists>old' recent'. guardOK cfg ns n k (clockAfter T e) s' old' recent'"
proof (cases e)
  case (LoginChecks now req)
  then show ?thesis using guardOK_check [OF ok] assms by simp
next
  case (LoginRecords i now)
  then show ?thesis using guardOK_record [OF ok] assms by simp
next
  case (LoginClears i)
  then show ?thesis using guardOK_clear [OF ok, of i s'] step by (intro exI) simp
next
  case (LoginCreates i env)
  then show ?thesis using guardOK_create [OF ok, of i env s'] step by (intro exI) simp
next
  case (LogoutEvent req)
  obtain a where "fst (logout (Some (as_handler s)) req) = Some a" "sameGuard (as_handler s) a"
    using logout_keeps by blast
  then show ?thesis using guardOK_handler [OF ok] step LogoutEvent by (auto simp: withHandler_def)
next
  case (GuardedEvent now req)
  obtain a where "fst (middleware (Some (as_handler s)) now req) = Some a" "sameGuard (as_handler s) a"
    using middleware_keeps by blast
  then show ?thesis using guardOK_handler [OF ok] step GuardedEvent by (auto simp: withHandler_def)
next
  case (SessionEvent now req)
  obtain a where "fst (getSession (Some (as_handler s)) now req) = Some a" "sameGuard (as_handler s) a"
    using getSession_keeps by blast
  then show ?thesis using guardOK_handler [OF ok] step SessionEvent by (auto simp: withHandler_def)
qed

lemma peak_now: "inFlight k s \<le> peak k s es"
  by (cases es) simp_all

lemma guardOK_run:
  assumes "guardOK cfg ns n k T s old recent" "authRun s es = Some s'" "timely T es"
    "\<forall>e \<in> set es. wrongLogin cfg k e" "peak k s es \<le> n"
  shows "\<exists>T' old' recent'. guardOK cfg ns n k T' s' old' recent'"
  using assms
proof (induction es arbitrary: T s old recent)
  case (Cons e es)
  obtain s1 where s1: "authStep s e = Some s1" "authRun s1 es = Some s'"
    using Cons.prems(2) by (auto split: option.splits)
  have peak1: "peak k s1 es \<le> n" using Cons.prems(5) s1(1) by simp
  have few: "inFlight k s1 \<le> n" using order_trans [OF peak_now peak1] .
  have time: "T \<le> clockAfter T e" "timely (clockAfter T e) es" using Cons.prems(3) by (simp_all only: timely_Cons)
  have wrong: "wrongLogin cfg k e" "\<forall>e \<in> set es. wrongLogin cfg k e" using Cons.prems(4) by simp_all
  obtain old1 recent1 where "guardOK cfg ns n k (clockAfter T e) s1 old1 recent1"
    using guardOK_step [OF Cons.prems(1) time(1) wrong(1) s1(1) few] by blast
  from Cons.IH [OF this s1(2) time(2) wrong(2) peak1] show ?case .
qed auto

lemma guardOK_start:
  "guardOK cfg (sessions = None) n k T (authStart cfg sessions) [] []"
  by (auto simp: guardOK_def authStart_def newAuthHandler_def failuresOf_def inFlight_def intro: throttles_start)

lemma window_count:
  assumes "mset xs = mset ys"
  shows "length (filter P xs) = length (filter P ys)"
  using assms by (metis mset_filter size_mset)

text \<open>
  C17. The throttle bounds password guessing, whatever the interleaving of the requests. In every run of
  logins, logouts and guarded requests of a freshly made handler, step by step between the locks, in
  which a client's logins all carry a wrong password and \<open>n\<close> is the largest number of them that were
  ever between their check and their record at once: the client is answered 401 at most \<open>4 + n\<close> times
  in any fifteen minutes, so five times when its logins follow one another; each of its logins that
  names a password is answered 401 or 429 or is about to be answered 401; it is answered 429 only
  when at least five of its logins had been answered 401, the last at most fifteen minutes ago; and
  its counter never exceeds the number of its answers 401, so an answer 429 is not counted.
\<close>

theorem login_throttled:
  assumes run: "authRun (authStart cfg sessions) es = Some s"
    and "timely T es" "\<forall>e \<in> set es. wrongLogin cfg k e"
  shows "length (filter (\<lambda>t. from \<le> t \<and> t \<le> from + failedLoginAttemptWindow) (failuresOf k s))
        \<le> maxFailedLoginAttempts - 1 + peak k (authStart cfg sessions) es \<and>
     (\<forall>l \<in> set (as_logins s). loginKey l = k \<longrightarrow>
        (cf_Enabled cfg \<and> sessions \<noteq> None \<and> (\<exists>p. rq_body (lr_request l) = Inr p) \<longrightarrow>
           lr_progress l = LoginRecording \<or> statusOf l = Some 401 \<or> statusOf l = Some 429) \<and>
        (statusOf l = Some 429 \<longrightarrow>
           5 \<le> length (filter (\<lambda>f. f \<le> lr_at l) (failuresOf k s)) \<and>
           (\<exists>f \<in> set (failuresOf k s). f \<le> lr_at l \<and> lr_at l \<le> f + failedLoginAttemptWindow))) \<and>
     fa_count (attemptOf (as_handler s) k) \<le> int (length (failuresOf k s))"
proof -
  define n where "n = peak k (authStart cfg sessions) es"
  obtain T' old recent where ok: "guardOK cfg (sessions = None) n k T' s old recent"
    using guardOK_run [OF guardOK_start run assms(2,3), of n] n_def by blast
  note F = guardOK_D(2) [OF ok]
  have "length (filter (inWindow from) (failuresOf k s)) \<le> 4 + n"
    using throttles_bound [OF guardOK_D(1) [OF ok], of "from"] window_count [OF F, of "inWindow from"] by simp
  moreover have "guessed cfg (sessions = None) (mset (failuresOf k s)) l"
    if "l \<in> set (as_logins s)" "loginKey l = k" for l
    using guardOK_D(6) [OF ok that] F by simp
  moreover have "fa_count (attemptOf (as_handler s) k) \<le> int (length (failuresOf k s))"
    using throttlesD(1,2) [OF guardOK_D(1) [OF ok]] mset_eq_length [OF F]
    by (cases "ah_failedAttempts (as_handler s) k") (auto simp: attemptOf_def)
  ultimately show ?thesis
    unfolding n_def by (auto simp: guessed_def inWindow_def [abs_def] maxFailedLoginAttempts_def)
      (simp_all flip: mset_filter)
qed

definition sampleConfig :: authConfig where
  "sampleConfig = \<lparr>cf_Enabled = True, cf_LoginPassword = ''secret'', cf_SharedBearerToken = [],
     cf_SessionTTL = hour, cf_BasePath = [], cf_SessionCookieName = [], cf_SessionCookieDomain = [],
     cf_SessionCookiePath = [], cf_TrustedProxies = []\<rparr>"

definition sampleLogin :: "string \<Rightarrow> authRequest" where
  "sampleLogin password =
     \<lparr>rq_body = Inr password, rq_authorization = [], rq_cookie = (\<lambda>name. None), rq_clientIP = ''10.0.0.1'',
      rq_remoteAddr = [], rq_tls = False, rq_forwardedProto = []\<rparr>"

text \<open>
  The bound is reached: four guesses one after the other, then two whose checks both come before the
  record of either, give six answers 401 within six nanoseconds; the next guess is refused.
\<close>

definition sampleGuesses :: "authEvent list" where
  "sampleGuesses = concat (map (\<lambda>i. [LoginChecks (int i) (sampleLogin ''guess''), LoginRecords i (int i)]) [0, 1, 2, 3]) @
     [LoginChecks 4 (sampleLogin ''guess''), LoginChecks 4 (sampleLogin ''guess''),
      LoginRecords 4 5, LoginRecords 5 6, LoginChecks 6 (sampleLogin ''guess'')]"

lemma sampleGuesses_peak: "peak ''10.0.0.1'' (authStart sampleConfig (Some (newSessionManager hour))) sampleGuesses = 2"
  by code_simp

lemma sampleGuesses_run:
  "map_option (\<lambda>s. (failuresOf ''10.0.0.1'' s, map statusOf (as_logins s)))
     (authRun (authStart sampleConfig (Some (newSessionManager hour))) sampleGuesses) =
   Some ([0, 1, 2, 3, 5, 6], [Some 401, Some 401, Some 401, Some 401, Some 401, Some 401, Some 429])"
  by code_simp

lemma login_throttled_witness:
  "\<exists>s. authRun (authStart sampleConfig (Some (newSessionManager hour))) sampleGuesses = Some s \<and>
     length (filter (\<lambda>t. 0 \<le> t \<and> t \<le> failedLoginAttemptWindow) (failuresOf ''10.0.0.1'' s)) \<le> 6 \<and>
     length (failuresOf ''10.0.0.1'' s) = 6"
proof -
  obtain s where s: "authRun (authStart sampleConfig (Some (newSessionManager hour))) sampleGuesses = Some s"
      "failuresOf ''10.0.0.1'' s = [0, 1, 2, 3, 5, 6]"
    using sampleGuesses_run by (auto simp: map_option_case split: option.splits)
  have "timely 0 sampleGuesses" "\<forall>e \<in> set sampleGuesses. wrongLogin sampleConfig ''10.0.0.1'' e"
    by (simp_all add: sampleGuesses_def sampleLogin_def sampleConfig_def)
  from login_throttled [OF s(1) this, of 0] show ?thesis
    using s by (simp add: sampleGuesses_peak maxFailedLoginAttempts_def)
qed

end
