(* ===== verification/Resp.thy ===== *)
theory Resp
  imports GoNet
begin

text \<open>
  The RESP reader and writer of \<open>cpa/redis_queue_client.go\<close>, over the bytes a connection delivers
  and the error it ends with. The protocol itself is the specification: replies as data and
  their encoding.
\<close>

section \<open>Values and writing\<close>

datatype respValue =
  RespValue (rv_simple: string) (rv_bulk: "string option") (rv_array: "respValue list")
    (rv_err: string) (rv_nil: bool)

abbreviation zeroResp :: respValue where
  "zeroResp \<equiv> RespValue [] None [] [] False"

abbreviation crlf :: string where
  "crlf \<equiv> [CHR 0x0D, CHR 0x0A]"

text \<open>The texts of the successive \<open>Write\<close> calls of one command.\<close>

definition respCommandWrites :: "string list \<Rightarrow> string list" where
  "respCommandWrites parts =
     (''*'' @ formatInt (int (length parts)) @ crlf)
       # map (\<lambda>part. ''$'' @ formatInt (int (length part)) @ crlf @ part @ crlf) parts"

text \<open>
  \<open>writeRESPCommand\<close> on a connection that takes \<open>budget\<close> more writes and then fails: the writes
  that went through, the budget left, and whether the command was written.
\<close>

definition writeRESPCommand :: "nat \<Rightarrow> string list \<Rightarrow> string list \<times> nat \<times> bool" where
  "writeRESPCommand budget parts =
     (let writes = respCommandWrites parts
      in (take budget writes, budget - length writes, length writes \<le> budget))"

fun bulksOf :: "respValue list \<Rightarrow> string list" where
  "bulksOf [] = []"
| "bulksOf (item # items) =
     (case rv_bulk item of None \<Rightarrow> bulksOf items | Some s \<Rightarrow> s # bulksOf items)"

definition respStrings :: "respValue \<Rightarrow> string list" where
  "respStrings v =
     (if rv_nil v then []
      else (case rv_bulk v of
              Some s \<Rightarrow> [s]
            | None \<Rightarrow> if length (rv_array v) = 0 then [] else bulksOf (rv_array v)))"

section \<open>Reading\<close>

text \<open>
  A read gives a value and the bytes left, an error, or a panic: \<open>make\<close> panics when the slice
  would exceed the largest allocation of a 64-bit platform. The fuel bounds the nesting of
  arrays; more than the number of bytes is enough, as the lemmas below show.
\<close>

datatype 'a respRead = ReadOk 'a string | ReadError goErr | ReadPanic | ReadFuel

definition maxAlloc :: int where
  "maxAlloc = 2 ^ 48"

text \<open>\<open>unsafe.Sizeof(respValue{})\<close>: two strings, a pointer, a slice and a padded bool.\<close>

definition sizeofRespValue :: int where
  "sizeofRespValue = 72"

definition readRESPLine :: "goErr \<Rightarrow> string \<Rightarrow> string respRead" where
  "readRESPLine ended s =
     (if CHR 0x0A \<notin> set s then ReadError ended
      else (let line = takeWhile (\<lambda>c. c \<noteq> CHR 0x0A) s @ [CHR 0x0A]
            in ReadOk (trimSuffix [CHR 0x0D] (trimSuffix [CHR 0x0A] line)) (drop (length line) s)))"

text \<open>\<open>io.ReadFull\<close>: a stream that ends within the bytes wanted gives an unexpected EOF.\<close>

definition ioEOF :: goErr where
  "ioEOF = PlainError ''EOF''"

definition readFull :: "goErr \<Rightarrow> nat \<Rightarrow> string \<Rightarrow> string respRead" where
  "readFull ended n s =
     (if n \<le> length s then ReadOk (take n s) (drop n s)
      else if s \<noteq> [] \<and> ended = ioEOF then ReadError (PlainError ''unexpected EOF'')
      else ReadError ended)"

definition readRESPBulk :: "goErr \<Rightarrow> string \<Rightarrow> respValue respRead" where
  "readRESPBulk ended s =
     (case readRESPLine ended s of
        ReadOk line s \<Rightarrow>
          (case parseInt64 line of
             None \<Rightarrow> ReadError (PlainError (''parse bulk size: '' @ line))
           | Some sz \<Rightarrow>
               if sz < 0 then ReadOk (RespValue [] None [] [] True) s
               else if sz + 2 > maxAlloc then ReadPanic
               else (case readFull ended (nat sz + 2) s of
                       ReadOk buf s \<Rightarrow> ReadOk (RespValue [] (Some (take (nat sz) buf)) [] [] False) s
                     | ReadError e \<Rightarrow> ReadError e | ReadPanic \<Rightarrow> ReadPanic | ReadFuel \<Rightarrow> ReadFuel))
      | ReadError e \<Rightarrow> ReadError e | ReadPanic \<Rightarrow> ReadPanic | ReadFuel \<Rightarrow> ReadFuel)"

text \<open>The loop of \<open>readRESPArray\<close>, with the reader of one value as an argument.\<close>

primrec readRESPItems :: "(string \<Rightarrow> respValue respRead) \<Rightarrow> nat \<Rightarrow> string \<Rightarrow> respValue list respRead" where
  "readRESPItems rd 0 s = ReadOk [] s"
| "readRESPItems rd (Suc n) s =
     (case rd s of
        ReadOk item s \<Rightarrow>
          (case readRESPItems rd n s of
             ReadOk items s \<Rightarrow> ReadOk (item # items) s
           | ReadError e \<Rightarrow> ReadError e | ReadPanic \<Rightarrow> ReadPanic | ReadFuel \<Rightarrow> ReadFuel)
      | ReadError e \<Rightarrow> ReadError e | ReadPanic \<Rightarrow> ReadPanic | ReadFuel \<Rightarrow> ReadFuel)"

definition readRESPArray ::
  "(string \<Rightarrow> respValue respRead) \<Rightarrow> goErr \<Rightarrow> string \<Rightarrow> respValue respRead" where
  "readRESPArray rd ended s =
     (case readRESPLine ended s of
        ReadOk line s \<Rightarrow>
          (case parseInt64 line of
             None \<Rightarrow> ReadError (PlainError (''parse array size: '' @ line))
           | Some count \<Rightarrow>
               if count < 0 then ReadOk (RespValue [] None [] [] True) s
               else if count * sizeofRespValue > maxAlloc then ReadPanic
               else (case readRESPItems rd (nat count) s of
                       ReadOk items s \<Rightarrow> ReadOk (RespValue [] None items [] False) s
                     | ReadError e \<Rightarrow> ReadError e | ReadPanic \<Rightarrow> ReadPanic | ReadFuel \<Rightarrow> ReadFuel))
      | ReadError e \<Rightarrow> ReadError e | ReadPanic \<Rightarrow> ReadPanic | ReadFuel \<Rightarrow> ReadFuel)"

primrec readRESPValue :: "nat \<Rightarrow> goErr \<Rightarrow> string \<Rightarrow> respValue respRead" where
  "readRESPValue 0 ended s = ReadFuel"
| "readRESPValue (Suc fuel) ended s =
     (case s of
        [] \<Rightarrow> ReadError ended
      | tag # s \<Rightarrow>
          if tag = CHR ''+'' then
            (case readRESPLine ended s of
               ReadOk line s \<Rightarrow> ReadOk (RespValue line None [] [] False) s
             | ReadError e \<Rightarrow> ReadError e | ReadPanic \<Rightarrow> ReadPanic | ReadFuel \<Rightarrow> ReadFuel)
          else if tag = CHR ''-'' then
            (case readRESPLine ended s of
               ReadOk line s \<Rightarrow> ReadOk (RespValue [] None [] line False) s
             | ReadError e \<Rightarrow> ReadError e | ReadPanic \<Rightarrow> ReadPanic | ReadFuel \<Rightarrow> ReadFuel)
          else if tag = CHR ''$'' then readRESPBulk ended s
          else if tag = CHR ''*'' then readRESPArray (readRESPValue fuel ended) ended s
          else ReadError (PlainError (''unexpected RESP prefix '' @ [tag])))"

definition readRESP :: "goErr \<Rightarrow> string \<Rightarrow> respValue respRead" where
  "readRESP ended s = readRESPValue (Suc (length s)) ended s"

section \<open>A read consumes bytes, and the fuel is enough\<close>

lemma readRESPLine_eq:
  assumes "CHR 0x0A \<notin> set l"
  shows "readRESPLine ended (l @ CHR 0x0A # t) = ReadOk (trimSuffix [CHR 0x0D] l) t"
proof -
  have tw: "takeWhile (\<lambda>c. c \<noteq> CHR 0x0A) (l @ CHR 0x0A # t) = l"
    using assms by (induction l) auto
  have "trimSuffix [CHR 0x0A] (l @ [CHR 0x0A]) = l" by simp
  then show ?thesis unfolding readRESPLine_def Let_def tw by simp
qed

lemma readRESPLine_none: "CHR 0x0A \<notin> set s \<Longrightarrow> readRESPLine ended s = ReadError ended"
  by (simp add: readRESPLine_def)

lemma readRESPLine_shorter: "readRESPLine ended s = ReadOk line t \<Longrightarrow> length t < length s"
proof -
  assume r: "readRESPLine ended s = ReadOk line t"
  then have "CHR 0x0A \<in> set s" using readRESPLine_none by force
  then obtain l u where "s = l @ CHR 0x0A # u" "CHR 0x0A \<notin> set l" by (meson split_list_first)
  then show "length t < length s" using r readRESPLine_eq [of l ended u] by simp
qed

lemma readRESPLine_total: "readRESPLine ended s \<noteq> ReadFuel"
  by (simp add: readRESPLine_def Let_def)

lemma readFull_total: "readFull ended n s \<noteq> ReadFuel"
  by (simp add: readFull_def)

lemma readFull_shorter: "readFull ended n s = ReadOk b t \<Longrightarrow> length t \<le> length s"
  by (auto simp: readFull_def split: if_splits)

lemma readRESPBulk_shorter: "readRESPBulk ended s = ReadOk v t \<Longrightarrow> length t < length s"
  by (auto simp: readRESPBulk_def split: respRead.splits option.splits if_splits
      dest!: readRESPLine_shorter readFull_shorter)

lemma readRESPBulk_total: "readRESPBulk ended s \<noteq> ReadFuel"
  using readRESPLine_total [of ended s] readFull_total
  by (auto simp: readRESPBulk_def split: respRead.split option.split)

lemma readRESPItems_shorter:
  assumes "\<And>s v t. rd s = ReadOk v t \<Longrightarrow> length t < length s"
  shows "readRESPItems rd n s = ReadOk vs t \<Longrightarrow> length t \<le> length s"
proof (induction n arbitrary: s vs)
  case 0
  then show ?case by simp
next
  case (Suc n)
  then obtain v u vs' where "rd s = ReadOk v u" "readRESPItems rd n u = ReadOk vs' t"
    by (auto split: respRead.splits)
  with Suc.IH [of u vs'] assms [of s v u] show ?case by simp
qed

lemma readRESPArray_shorter:
  assumes "\<And>s v t. rd s = ReadOk v t \<Longrightarrow> length t < length s"
    and r: "readRESPArray rd ended s = ReadOk v t"
  shows "length t < length s"
proof -
  obtain line u where u: "readRESPLine ended s = ReadOk line u"
    using r by (auto simp: readRESPArray_def split: respRead.splits)
  have "length t \<le> length u"
    using r readRESPItems_shorter [of rd, OF assms(1)]
    by (auto simp: readRESPArray_def u split: respRead.splits option.splits if_splits)
  with readRESPLine_shorter [OF u] show ?thesis by simp
qed

lemma readRESPValue_shorter: "readRESPValue fuel ended s = ReadOk v t \<Longrightarrow> length t < length s"
proof (induction fuel arbitrary: s v t)
  case 0
  then show ?case by simp
next
  case (Suc fuel)
  have array: "readRESPArray (readRESPValue fuel ended) ended u = ReadOk v t \<Longrightarrow> length t < length u" for u v t
    by (rule readRESPArray_shorter [OF Suc.IH])
  from Suc.prems show ?case
    by (cases s)
      (auto split: if_splits respRead.splits dest!: readRESPLine_shorter readRESPBulk_shorter array
        intro: less_SucI)
qed

lemma readRESPItems_cong:
  assumes "\<And>t. length t \<le> length s \<Longrightarrow> rd t = rd' t"
    and "\<And>s v t. rd s = ReadOk v t \<Longrightarrow> length t < length s"
  shows "readRESPItems rd n s = readRESPItems rd' n s"
  using assms(1)
proof (induction n arbitrary: s)
  case 0
  then show ?case by simp
next
  case (Suc n)
  have same: "rd s = rd' s" by (rule Suc.prems) simp
  show ?case
  proof (cases "rd' s")
    case (ReadOk v u)
    then have "length u < length s" using assms(2) same by simp
    then have "readRESPItems rd n u = readRESPItems rd' n u"
      by (intro Suc.IH Suc.prems) simp
    then show ?thesis by (simp add: same ReadOk)
  qed (simp_all add: same)
qed

lemma readRESPArray_cong:
  assumes "\<And>t. length t < length s \<Longrightarrow> rd t = rd' t"
    and "\<And>s v t. rd s = ReadOk v t \<Longrightarrow> length t < length s"
  shows "readRESPArray rd ended s = readRESPArray rd' ended s"
proof (cases "readRESPLine ended s")
  case (ReadOk line u)
  have "readRESPItems rd n u = readRESPItems rd' n u" for n
    by (rule readRESPItems_cong [OF assms(1) assms(2)]) (use readRESPLine_shorter [OF ReadOk] in simp)
  then show ?thesis by (cases "parseInt64 line") (simp_all add: readRESPArray_def ReadOk)
qed (simp_all add: readRESPArray_def)

text \<open>More fuel than bytes changes nothing.\<close>

lemma readRESPValue_fuel:
  "length s < fuel \<Longrightarrow> length s < fuel' \<Longrightarrow> readRESPValue fuel ended s = readRESPValue fuel' ended s"
proof (induction fuel arbitrary: fuel' s)
  case 0
  then show ?case by simp
next
  case (Suc fuel)
  then obtain fuel'' where f: "fuel' = Suc fuel''" by (cases fuel') auto
  show ?case
  proof (cases s)
    case Nil
    then show ?thesis by (simp add: f)
  next
    case (Cons c u)
    have "readRESPArray (readRESPValue fuel ended) ended u = readRESPArray (readRESPValue fuel'' ended) ended u"
      by (rule readRESPArray_cong [OF _ readRESPValue_shorter], rule Suc.IH) (use Suc.prems f Cons in auto)
    then show ?thesis by (simp add: f Cons)
  qed
qed

lemma readRESPItems_total:
  assumes "\<And>t. length t \<le> length s \<Longrightarrow> rd t \<noteq> ReadFuel"
    and "\<And>s v t. rd s = ReadOk v t \<Longrightarrow> length t < length s"
  shows "readRESPItems rd n s \<noteq> ReadFuel"
  using assms(1)
proof (induction n arbitrary: s)
  case 0
  then show ?case by simp
next
  case (Suc n)
  have ok: "rd s \<noteq> ReadFuel" by (rule Suc.prems) simp
  show ?case
  proof (cases "rd s")
    case (ReadOk v u)
    then have "readRESPItems rd n u \<noteq> ReadFuel"
      using assms(2) [OF ReadOk] by (intro Suc.IH Suc.prems) simp
    then show ?thesis by (simp add: ReadOk split: respRead.split)
  qed (use ok in simp_all)
qed

lemma readRESPValue_total: "length s < fuel \<Longrightarrow> readRESPValue fuel ended s \<noteq> ReadFuel"
proof (induction fuel arbitrary: s)
  case 0
  then show ?case by simp
next
  case (Suc fuel)
  show ?case
  proof (cases s)
    case Nil
    then show ?thesis by simp
  next
    case (Cons c u)
    have items: "readRESPItems (readRESPValue fuel ended) n t \<noteq> ReadFuel" if "length t < length u" for n t
      by (rule readRESPItems_total [OF Suc.IH readRESPValue_shorter]) (use that Suc.prems Cons in auto)
    have "readRESPArray (readRESPValue fuel ended) ended u \<noteq> ReadFuel"
    proof (cases "readRESPLine ended u")
      case (ReadOk line t)
      from items [OF readRESPLine_shorter [OF ReadOk]] show ?thesis
        by (auto simp: readRESPArray_def ReadOk split: option.split respRead.split)
    qed (use readRESPLine_total [of ended u] in \<open>simp_all add: readRESPArray_def\<close>)
    then show ?thesis
      using readRESPLine_total [of ended u] readRESPBulk_total [of ended u]
      by (auto simp: Cons split: respRead.split)
  qed
qed

lemma readRESP_total: "readRESP ended s \<noteq> ReadFuel"
  unfolding readRESP_def by (rule readRESPValue_total) simp

section \<open>The protocol\<close>

text \<open>The replies a server sends, their encoding and what the client makes of them.\<close>

datatype respReply =
    SimpleReply string
  | ErrorReply string
  | BulkReply string
  | NilBulkReply
  | ArrayReply "respReply list"
  | NilArrayReply

fun encodeRESP :: "respReply \<Rightarrow> string" where
  "encodeRESP (SimpleReply s) = ''+'' @ s @ crlf"
| "encodeRESP (ErrorReply s) = ''-'' @ s @ crlf"
| "encodeRESP (BulkReply s) = ''$'' @ formatInt (int (length s)) @ crlf @ s @ crlf"
| "encodeRESP NilBulkReply = ''$-1'' @ crlf"
| "encodeRESP (ArrayReply rs) = ''*'' @ formatInt (int (length rs)) @ crlf @ concat (map encodeRESP rs)"
| "encodeRESP NilArrayReply = ''*-1'' @ crlf"

fun respMeaning :: "respReply \<Rightarrow> respValue" where
  "respMeaning (SimpleReply s) = RespValue s None [] [] False"
| "respMeaning (ErrorReply s) = RespValue [] None [] s False"
| "respMeaning (BulkReply s) = RespValue [] (Some s) [] [] False"
| "respMeaning NilBulkReply = RespValue [] None [] [] True"
| "respMeaning (ArrayReply rs) = RespValue [] None (map respMeaning rs) [] False"
| "respMeaning NilArrayReply = RespValue [] None [] [] True"

text \<open>Simple strings and errors are one line; sizes stay within what can be allocated.\<close>

fun respFormed :: "respReply \<Rightarrow> bool" where
  "respFormed (SimpleReply s) = (CHR 0x0A \<notin> set s)"
| "respFormed (ErrorReply s) = (CHR 0x0A \<notin> set s)"
| "respFormed (BulkReply s) = (int (length s) + 2 \<le> maxAlloc)"
| "respFormed (ArrayReply rs) =
     (int (length rs) * sizeofRespValue \<le> maxAlloc \<and> (\<forall>r \<in> set rs. respFormed r))"
| "respFormed r = True"

lemma readRESPLine_crlf [simp]:
  "CHR 0x0A \<notin> set l \<Longrightarrow> readRESPLine ended (l @ CHR 0x0D # CHR 0x0A # t) = ReadOk l t"
  using readRESPLine_eq [of "l @ [CHR 0x0D]" ended t] by simp

lemma formatInt_line: "CHR 0x0A \<notin> set (formatInt i)"
proof -
  have "CHR 0x0A \<notin> set (nat_digits n)" for n
  proof
    assume "CHR 0x0A \<in> set (nat_digits n)"
    then obtain d where d: "d < 10" "CHR 0x0A = digit_char d" using nat_digits_chars by blast
    then have "char_digit (CHR 0x0A) = Some d" by simp
    then show False by (simp add: char_digit_def)
  qed
  then show ?thesis by (simp add: formatInt_def)
qed

lemma parse_length: "int n \<le> maxAlloc \<Longrightarrow> parseInt64 (formatInt (int n)) = Some (int n)"
  by (rule parse_formatInt) (simp add: in_int64_def int64_min_def int64_max_def maxAlloc_def)

lemma readRESPBulk_encoded:
  assumes "int (length s) + 2 \<le> maxAlloc"
  shows "readRESPBulk ended (formatInt (int (length s)) @ CHR 0x0D # CHR 0x0A # s @ CHR 0x0D # CHR 0x0A # t)
    = ReadOk (RespValue [] (Some s) [] [] False) t"
  using assms parse_length [of "length s"]
  by (simp add: readRESPBulk_def formatInt_line readFull_def nat_int_add del: of_nat_add)

lemma parse_minus_one: "parseInt64 ''-1'' = Some (- 1)"
  by code_simp

lemma readRESPBulk_nil: "readRESPBulk ended (CHR ''-'' # CHR ''1'' # CHR 0x0D # CHR 0x0A # t)
    = ReadOk (RespValue [] None [] [] True) t"
  using readRESPLine_crlf [of "''-1''" ended t] by (simp add: readRESPBulk_def parse_minus_one)

lemma readRESPArray_nil: "readRESPArray rd ended (CHR ''-'' # CHR ''1'' # CHR 0x0D # CHR 0x0A # t)
    = ReadOk (RespValue [] None [] [] True) t"
  using readRESPLine_crlf [of "''-1''" ended t] by (simp add: readRESPArray_def parse_minus_one)

lemma readRESPArray_encoded:
  assumes "int n * sizeofRespValue \<le> maxAlloc" "readRESPItems rd n s = ReadOk items t"
  shows "readRESPArray rd ended (formatInt (int n) @ CHR 0x0D # CHR 0x0A # s)
    = ReadOk (RespValue [] None items [] False) t"
proof -
  have "int n \<le> maxAlloc" using assms(1) by (simp add: sizeofRespValue_def)
  then show ?thesis using assms parse_length [of n] by (simp add: readRESPArray_def formatInt_line)
qed

lemma readRESPItems_encoded:
  assumes "\<And>r t. r \<in> set rs \<Longrightarrow> length (encodeRESP r @ t) < Suc (length (concat (map encodeRESP rs) @ u)) \<Longrightarrow>
      rd (encodeRESP r @ t) = ReadOk (respMeaning r) t"
  shows "readRESPItems rd (length rs) (concat (map encodeRESP rs) @ u) = ReadOk (map respMeaning rs) u"
  using assms
proof (induction rs)
  case Nil
  then show ?case by simp
next
  case (Cons r rs)
  have "rd (encodeRESP r @ concat (map encodeRESP rs) @ u) = ReadOk (respMeaning r) (concat (map encodeRESP rs) @ u)"
    by (rule Cons.prems) simp_all
  moreover have "readRESPItems rd (length rs) (concat (map encodeRESP rs) @ u) = ReadOk (map respMeaning rs) u"
    by (rule Cons.IH) (rule Cons.prems, simp_all)
  ultimately show ?case by simp
qed

lemma readRESPValue_encoded:
  "respFormed r \<Longrightarrow> length (encodeRESP r @ t) < fuel \<Longrightarrow>
     readRESPValue fuel ended (encodeRESP r @ t) = ReadOk (respMeaning r) t"
proof (induction r arbitrary: t fuel)
  case (ArrayReply rs)
  then obtain fuel' where f: "fuel = Suc fuel'" by (cases fuel) auto
  have "readRESPItems (readRESPValue fuel' ended) (length rs) (concat (map encodeRESP rs) @ t)
      = ReadOk (map respMeaning rs) t"
    by (rule readRESPItems_encoded, rule ArrayReply.IH) (use ArrayReply.prems f in auto)
  from readRESPArray_encoded [OF _ this] ArrayReply.prems(1) show ?case by (simp add: f)
next
  case (BulkReply s)
  then obtain fuel' where "fuel = Suc fuel'" by (cases fuel) auto
  with BulkReply readRESPBulk_encoded show ?case by simp
next
  case NilBulkReply
  then obtain fuel' where "fuel = Suc fuel'" by (cases fuel) auto
  then show ?case by (simp add: readRESPBulk_nil)
next
  case NilArrayReply
  then obtain fuel' where "fuel = Suc fuel'" by (cases fuel) auto
  then show ?case by (simp add: readRESPArray_nil)
next
  case (SimpleReply s)
  then obtain fuel' where "fuel = Suc fuel'" by (cases fuel) auto
  with SimpleReply show ?case by simp
next
  case (ErrorReply s)
  then obtain fuel' where "fuel = Suc fuel'" by (cases fuel) auto
  with ErrorReply show ?case by simp
qed

text \<open>Reading inverts the encoding, whatever follows on the connection.\<close>

lemma readRESP_encoded:
  "respFormed r \<Longrightarrow> readRESP ended (encodeRESP r @ t) = ReadOk (respMeaning r) t"
  unfolding readRESP_def by (rule readRESPValue_encoded) simp_all

text \<open>A command is sent as the array of its parts.\<close>

lemma command_encoded: "concat (respCommandWrites parts) = encodeRESP (ArrayReply (map BulkReply parts))"
  by (simp add: respCommandWrites_def o_def)

lemma bulksOf_map [simp]: "bulksOf (map respMeaning (map BulkReply ms)) = ms"
  by (induction ms) auto

end
