(* ===== verification/CpaClient.thy ===== *)
theory CpaClient
  imports GoNet
begin

text \<open>
  The HTTP client of the CPA management interface (\<open>cpa/client.go\<close>). A request is what the client
  puts on the wire; the transport's answer to it and \<open>json.Unmarshal\<close> into the target of the call
  are arguments. Every result names the requests the call sent.
\<close>

section \<open>Escaping of query values and path segments\<close>

definition urlUnreserved :: "char \<Rightarrow> bool" where
  "urlUnreserved c \<longleftrightarrow>
     (let n = of_char c :: nat
      in (97 \<le> n \<and> n \<le> 122) \<or> (65 \<le> n \<and> n \<le> 90) \<or> (48 \<le> n \<and> n \<le> 57) \<or>
         c = CHR ''-'' \<or> c = CHR ''_'' \<or> c = CHR ''.'' \<or> c = CHR ''~'')"

definition upper_hex_digit :: "nat \<Rightarrow> char" where
  "upper_hex_digit n = (if n < 10 then char_of (48 + n) else char_of (55 + n))"

definition percentEncode :: "char \<Rightarrow> string" where
  "percentEncode c =
     (let n = of_char c :: nat in [CHR ''%'', upper_hex_digit (n div 16), upper_hex_digit (n mod 16)])"

definition queryEscape :: "string \<Rightarrow> string" where
  "queryEscape s = concat (map (\<lambda>c.
     if urlUnreserved c then [c] else if c = CHR '' '' then ''+'' else percentEncode c) s)"

definition pathEscape :: "string \<Rightarrow> string" where
  "pathEscape s = concat (map (\<lambda>c.
     if urlUnreserved c \<or> c \<in> set ''$&+=:@'' then [c] else percentEncode c) s)"

section \<open>Requests\<close>

record httpRequest =
  hq_method :: string
  hq_url :: string
  hq_authorization :: "string option"

text \<open>
  The transport: an error building the request, an error sending it, the status, and the body or
  the error reading it.
\<close>

record httpWorld =
  hw_buildError :: "goErr option"
  hw_doError :: "goErr option"
  hw_status :: int
  hw_body :: "goErr + string"

record 'a httpResult =
  hr_sent :: "httpRequest list"
  hr_status :: int
  hr_body :: string
  hr_out :: "goErr + 'a"

record cpaClient =
  cl_baseURL :: string
  cl_managementKey :: string

definition newClient :: "string \<Rightarrow> string \<Rightarrow> cpaClient" where
  "newClient baseURL managementKey =
     \<lparr>cl_baseURL = trimRightChar (CHR ''/'') (trimSpace baseURL),
      cl_managementKey = trimSpace managementKey\<rparr>"

definition failedBefore :: "goErr \<Rightarrow> 'a httpResult" where
  "failedBefore e = \<lparr>hr_sent = [], hr_status = 0, hr_body = [], hr_out = Inl e\<rparr>"

definition doJSONRequestWithBody ::
  "cpaClient option \<Rightarrow> string \<Rightarrow> string \<Rightarrow> string \<Rightarrow> string option \<Rightarrow> (string \<Rightarrow> goErr + 'a) \<Rightarrow> httpWorld
    \<Rightarrow> 'a httpResult" where
  "doJSONRequestWithBody c method path kind authorization unmarshal w =
     (case c of
        None \<Rightarrow> failedBefore (PlainError ''cpa client is nil'')
      | Some c \<Rightarrow>
      if cl_baseURL c = [] then failedBefore (PlainError ''cpa base url is required'')
      else (case hw_buildError w of
        Some e \<Rightarrow> failedBefore (wrap (''build '' @ kind @ '' request: '') e)
      | None \<Rightarrow>
      (let req = \<lparr>hq_method = method, hq_url = cl_baseURL c @ path, hq_authorization = authorization\<rparr> in
      case hw_doError w of
        Some e \<Rightarrow> \<lparr>hr_sent = [req], hr_status = 0, hr_body = [],
                   hr_out = Inl (wrap (''request '' @ kind @ '': '') e)\<rparr>
      | None \<Rightarrow>
      (case hw_body w of
        Inl e \<Rightarrow> \<lparr>hr_sent = [req], hr_status = hw_status w, hr_body = [],
                  hr_out = Inl (wrap (''read '' @ kind @ '' response: '') e)\<rparr>
      | Inr body \<Rightarrow>
          \<lparr>hr_sent = [req], hr_status = hw_status w, hr_body = body,
           hr_out =
             (if hw_status w < 200 \<or> 300 \<le> hw_status w
              then Inl (PlainError (kind @ '' request returned status '' @ formatInt (hw_status w)))
              else (case unmarshal body of
                      Inl e \<Rightarrow> Inl (wrap (''decode '' @ kind @ '' json: '') e)
                    | Inr payload \<Rightarrow> Inr payload))\<rparr>))))"

definition doManagementJSONRequest ::
  "cpaClient option \<Rightarrow> string \<Rightarrow> string \<Rightarrow> (string \<Rightarrow> goErr + 'a) \<Rightarrow> httpWorld \<Rightarrow> 'a httpResult" where
  "doManagementJSONRequest c path kind unmarshal w =
     (case c of
        None \<Rightarrow> failedBefore (PlainError ''cpa client is nil'')
      | Some cl \<Rightarrow>
          if cl_managementKey cl = [] then failedBefore (PlainError ''cpa management key is required'')
          else doJSONRequestWithBody c ''GET'' path (''management '' @ kind)
                 (Some (''Bearer '' @ cl_managementKey cl)) unmarshal w)"

text \<open>\<open>doManagementJSONBodyRequest\<close>: the body is the JSON the caller's request marshals to, or the error.\<close>

definition doManagementJSONBodyRequest ::
  "cpaClient option \<Rightarrow> string \<Rightarrow> string \<Rightarrow> string \<Rightarrow> goErr + string \<Rightarrow> (string \<Rightarrow> goErr + 'a) \<Rightarrow> httpWorld
    \<Rightarrow> 'a httpResult" where
  "doManagementJSONBodyRequest c method path kind marshalled unmarshal w =
     (case c of
        None \<Rightarrow> failedBefore (PlainError ''cpa client is nil'')
      | Some cl \<Rightarrow>
          if cl_managementKey cl = [] then failedBefore (PlainError ''cpa management key is required'')
          else (case marshalled of
                  Inl e \<Rightarrow> failedBefore (wrap (''encode management '' @ kind @ '' json: '') e)
                | Inr body \<Rightarrow> doJSONRequestWithBody c method path (''management '' @ kind)
                    (Some (''Bearer '' @ cl_managementKey cl)) unmarshal w))"

section \<open>Calls\<close>

definition fetchExternalAPIKeys ::
  "cpaClient option \<Rightarrow> (string \<Rightarrow> goErr + string list) \<Rightarrow> httpWorld \<Rightarrow> string list httpResult" where
  "fetchExternalAPIKeys c unmarshal w =
     doManagementJSONRequest c ''/v0/management/api-keys'' ''external api keys'' unmarshal w"

definition fetchUsageQueue ::
  "cpaClient option \<Rightarrow> int \<Rightarrow> (string \<Rightarrow> goErr + string list) \<Rightarrow> httpWorld \<Rightarrow> string list httpResult" where
  "fetchUsageQueue c count unmarshal w =
     (if count \<le> 0 then failedBefore (PlainError ''usage queue count must be positive'')
      else doManagementJSONRequest c
             (''/v0/management/usage-queue?count='' @ queryEscape (formatInt count)) ''usage queue'' unmarshal w)"

fun firstNonEmptyString :: "string list \<Rightarrow> string" where
  "firstNonEmptyString [] = []"
| "firstNonEmptyString (v # vs) =
     (let trimmed = trimSpace v in if trimmed \<noteq> [] then trimmed else firstNonEmptyString vs)"

definition fetchModels ::
  "cpaClient option \<Rightarrow> (string \<Rightarrow> goErr + string list) \<Rightarrow> (string \<Rightarrow> goErr + 'a) \<Rightarrow> httpWorld \<Rightarrow> httpWorld
    \<Rightarrow> 'a httpResult" where
  "fetchModels c unmarshalKeys unmarshal w1 w2 =
     (let keys = fetchExternalAPIKeys c unmarshalKeys w1 in
      case hr_out keys of
        Inl e \<Rightarrow> \<lparr>hr_sent = hr_sent keys, hr_status = 0, hr_body = [], hr_out = Inl e\<rparr>
      | Inr ks \<Rightarrow>
          (let externalAPIKey = firstNonEmptyString ks in
           if externalAPIKey = []
           then \<lparr>hr_sent = hr_sent keys, hr_status = 0, hr_body = [],
                 hr_out = Inl (PlainError ''cpa external api keys are required'')\<rparr>
           else (let r = doJSONRequestWithBody c ''GET'' ''/v1/models'' ''models''
                           (Some (''Bearer '' @ externalAPIKey)) unmarshal w2
                 in r\<lparr>hr_sent := hr_sent keys @ hr_sent r\<rparr>)))"

definition fetchAuthFiles ::
  "cpaClient option \<Rightarrow> (string \<Rightarrow> goErr + 'a) \<Rightarrow> httpWorld \<Rightarrow> 'a httpResult" where
  "fetchAuthFiles c unmarshal w =
     doManagementJSONRequest c ''/v8/management/credentials'' ''auth files'' unmarshal w"

definition fetchAuthFileModels ::
  "cpaClient option \<Rightarrow> string \<Rightarrow> (string \<Rightarrow> goErr + 'a) \<Rightarrow> httpWorld \<Rightarrow> 'a httpResult" where
  "fetchAuthFileModels c name unmarshal w =
     (let name = trimSpace name in
      if name = [] then failedBefore (PlainError ''auth file name is required'')
      else doManagementJSONRequest c (''/v8/management/credentials/models?name='' @ queryEscape name)
             ''auth file models'' unmarshal w)"

definition fetchStaticModelDefinitions ::
  "cpaClient option \<Rightarrow> string \<Rightarrow> (string \<Rightarrow> goErr + 'a) \<Rightarrow> httpWorld \<Rightarrow> 'a httpResult" where
  "fetchStaticModelDefinitions c channel unmarshal w =
     (let channel = toLower (trimSpace channel) in
      if channel = [] then failedBefore (PlainError ''model definition channel is required'')
      else doManagementJSONRequest c (''/v0/management/model-definitions/'' @ pathEscape channel)
             ''model definitions'' unmarshal w)"

text \<open>The payload here is the list of the credentials found.\<close>

definition fetchAuthFileByAuthIndex ::
  "cpaClient option \<Rightarrow> string \<Rightarrow> (string \<Rightarrow> goErr + 'a list) \<Rightarrow> httpWorld
    \<Rightarrow> httpRequest list \<times> (goErr + 'a option)" where
  "fetchAuthFileByAuthIndex c authIndex unmarshal w =
     (let r = doManagementJSONRequest c
                (''/v8/management/credentials?auth_index='' @ queryEscape (trimSpace authIndex))
                ''auth files by auth index'' unmarshal w
      in (hr_sent r,
          case hr_out r of
            Inl e \<Rightarrow> Inl e
          | Inr files \<Rightarrow> Inr (case files of [] \<Rightarrow> None | f # fs \<Rightarrow> Some f)))"

definition setAuthFileDisabled ::
  "cpaClient option \<Rightarrow> (string \<Rightarrow> bool \<Rightarrow> goErr + string) \<Rightarrow> string \<Rightarrow> bool \<Rightarrow> (string \<Rightarrow> goErr + unit) \<Rightarrow> httpWorld
    \<Rightarrow> httpRequest list \<times> goErr option" where
  "setAuthFileDisabled c marshal name disabled unmarshal w =
     (let r = doManagementJSONBodyRequest c ''PATCH'' ''/v8/management/credentials/status''
                ''auth file status'' (marshal (trimSpace name) disabled) unmarshal w
      in (hr_sent r, case hr_out r of Inl e \<Rightarrow> Some e | Inr u \<Rightarrow> None))"

definition callManagementAPI ::
  "cpaClient option \<Rightarrow> goErr + string \<Rightarrow> (string \<Rightarrow> goErr + 'a) \<Rightarrow> httpWorld \<Rightarrow> 'a httpResult" where
  "callManagementAPI c marshalled unmarshal w =
     doManagementJSONBodyRequest c ''POST'' ''/v0/management/api-call'' ''api call'' marshalled unmarshal w"

text \<open>
  Provider configurations come as a list or as an object that holds the list under the provider's
  key; \<open>direct\<close> and \<open>wrapped\<close> are \<open>json.Unmarshal\<close> into the two targets.
\<close>

definition decodeProviderKeyConfigPayload ::
  "(string \<Rightarrow> goErr + 'a) \<Rightarrow> (string \<Rightarrow> goErr + (string \<rightharpoonup> string)) \<Rightarrow> string \<Rightarrow> string \<Rightarrow> goErr + 'a" where
  "decodeProviderKeyConfigPayload direct wrapped raw payloadKey =
     (case direct raw of
        Inr configs \<Rightarrow> Inr configs
      | Inl e \<Rightarrow>
          (case wrapped raw of
             Inl e \<Rightarrow> Inl e
           | Inr object \<Rightarrow>
               (case object payloadKey of
                  None \<Rightarrow> Inl (PlainError (''missing '' @ payloadKey @ '' payload''))
                | Some payloadRaw \<Rightarrow> direct payloadRaw)))"

definition fetchProviderKeyConfig ::
  "cpaClient option \<Rightarrow> string \<Rightarrow> string \<Rightarrow> string \<Rightarrow> (string \<Rightarrow> goErr + string) \<Rightarrow> (string \<Rightarrow> goErr + 'a) \<Rightarrow>
    (string \<Rightarrow> goErr + (string \<rightharpoonup> string)) \<Rightarrow> httpWorld \<Rightarrow> 'a httpResult" where
  "fetchProviderKeyConfig c path payloadKey kind rawJSON direct wrapped w =
     (let r = doManagementJSONRequest c path kind rawJSON w
      in \<lparr>hr_sent = hr_sent r, hr_status = hr_status r, hr_body = hr_body r,
          hr_out = (case hr_out r of
                      Inl e \<Rightarrow> Inl e
                    | Inr raw \<Rightarrow>
                        (case decodeProviderKeyConfigPayload direct wrapped raw payloadKey of
                           Inl e \<Rightarrow> Inl (wrap (''decode management '' @ kind @ '' json: '') e)
                         | Inr payload \<Rightarrow> Inr payload))\<rparr>)"

section \<open>What a call sends\<close>

lemma doJSONRequestWithBody_sent:
  "hr_sent (doJSONRequestWithBody c method path kind auth un w) =
     (case c of
        None \<Rightarrow> []
      | Some cl \<Rightarrow>
          if cl_baseURL cl = [] \<or> hw_buildError w \<noteq> None then []
          else [\<lparr>hq_method = method, hq_url = cl_baseURL cl @ path, hq_authorization = auth\<rparr>])"
  by (simp add: doJSONRequestWithBody_def failedBefore_def Let_def split: option.split sum.split)

lemma doManagementJSONRequest_sent:
  "hr_sent (doManagementJSONRequest c path kind un w) =
     (case c of
        None \<Rightarrow> []
      | Some cl \<Rightarrow>
          if cl_managementKey cl = [] \<or> cl_baseURL cl = [] \<or> hw_buildError w \<noteq> None then []
          else [\<lparr>hq_method = ''GET'', hq_url = cl_baseURL cl @ path,
                 hq_authorization = Some (''Bearer '' @ cl_managementKey cl)\<rparr>])"
  by (simp add: doManagementJSONRequest_def doJSONRequestWithBody_sent failedBefore_def split: option.split)

lemma fetchUsageQueue_sent: "length (hr_sent (fetchUsageQueue c n un w)) \<le> 1"
  by (simp add: fetchUsageQueue_def doManagementJSONRequest_sent failedBefore_def split: option.split)

text \<open>A result needs a request answered with a 2xx status and a body that decodes.\<close>

lemma doJSONRequestWithBody_ok:
  "hr_out (doJSONRequestWithBody c method path kind auth un w) = Inr payload \<longleftrightarrow>
     (\<exists>cl body. c = Some cl \<and> cl_baseURL cl \<noteq> [] \<and> hw_buildError w = None \<and> hw_doError w = None \<and>
        hw_body w = Inr body \<and> 200 \<le> hw_status w \<and> hw_status w < 300 \<and> un body = Inr payload)"
  by (auto simp: doJSONRequestWithBody_def failedBefore_def Let_def split: option.split sum.split)

end
