(* ===== verification/QueueClient.thy ===== *)
theory QueueClient
  imports Resp CpaClient
begin

text \<open>
  The usage queue client (\<open>cpa/redis_queue_client.go\<close>): the choice between the Redis protocol and
  HTTP, the authenticated connection, the destructive pop and the fall-back. One call gets the
  state of the network as an argument and returns, beside its result, the effects it had on the
  queue: a pop is counted as soon as the first byte of its command may have been written.
\<close>

datatype redisQueueSyncMode = SyncModeUnset | SyncModeRedis | SyncModeHTTP

text \<open>
  The constants follow two others in their block, so \<open>iota\<close> gives them 2 and 3; the zero value of
  a result is neither.
\<close>

definition redisQueueEffectNotStarted :: nat where "redisQueueEffectNotStarted = 2"
definition redisQueueEffectMayHaveStarted :: nat where "redisQueueEffectMayHaveStarted = 3"

record redisQueuePopResult =
  pr_messages :: "string list"
  pr_err :: "goErr option"
  pr_effectState :: nat

record redisQueueClient =
  qc_address :: string
  qc_managementKey :: string
  qc_timeout :: duration
  qc_queueKey :: string
  qc_batchSize :: int
  qc_httpClient :: "cpaClient option"
  qc_syncMode :: redisQueueSyncMode

record redisQueueOptions =
  qo_BaseURL :: string
  qo_RedisAddr :: string
  qo_ManagementKey :: string
  qo_Timeout :: duration
  qo_QueueKey :: string
  qo_BatchSize :: int
  qo_TLS :: bool

text \<open>
  A connection: what dialling it gives, how many writes go through before one fails, the bytes
  the server sends and the error the stream ends with, and what \<open>ctx.Err()\<close> gives if a step fails.
\<close>

record respWorld =
  rw_dialError :: "goErr option"
  rw_writes :: nat
  rw_writeError :: goErr
  rw_input :: string
  rw_inputEnd :: goErr
  rw_ctxErr :: "goErr option"

datatype queueEffect = PopCommand "string list" | HttpPop httpRequest

section \<open>Addresses\<close>

text \<open>\<open>url.Parse\<close> is an argument: the scheme and the host of the URL, or no result.\<close>

definition redisQueueAddress ::
  "(string \<Rightarrow> (string \<times> string) option) \<Rightarrow> string \<Rightarrow> string \<Rightarrow> string \<times> bool" where
  "redisQueueAddress urlParse baseURL redisQueueAddr =
     (let override = trimSpace redisQueueAddr in
      if override \<noteq> [] then
        (case urlParse override of
           Some (scheme, host) \<Rightarrow>
             if host \<noteq> [] then (host, scheme = ''rediss'') else (override, False)
         | None \<Rightarrow> (override, False))
      else (let trimmed = trimSpace baseURL in
        if trimmed = [] then ([], False)
        else
          (let plain =
             (let trimmed = trimPrefix ''https://'' (trimPrefix ''http://'' trimmed) in
              if splitHostPort trimmed \<noteq> None then (trimmed, False)
              else (joinHostPort trimmed ''8317'', False))
           in case urlParse trimmed of
                Some (scheme, host) \<Rightarrow>
                  if host \<noteq> [] then
                    (let useTLS = (scheme = ''https'') in
                     if urlPort host \<noteq> [] then (host, useTLS)
                     else (joinHostPort (urlHostname host) ''8317'', useTLS))
                  else plain
              | None \<Rightarrow> plain)))"

text \<open>The dialler and its TLS set-up are the network's: the flag says which of the two is used.\<close>

definition newRedisQueueClientWithOptions ::
  "(string \<Rightarrow> (string \<times> string) option) \<Rightarrow> redisQueueOptions \<Rightarrow> redisQueueClient \<times> bool" where
  "newRedisQueueClientWithOptions urlParse opts =
     (let (addr, useTLS) = redisQueueAddress urlParse (qo_BaseURL opts) (qo_RedisAddr opts)
      in (\<lparr>qc_address = addr, qc_managementKey = trimSpace (qo_ManagementKey opts),
           qc_timeout = qo_Timeout opts, qc_queueKey = trimSpace (qo_QueueKey opts),
           qc_batchSize = qo_BatchSize opts,
           qc_httpClient = Some (newClient (qo_BaseURL opts) (qo_ManagementKey opts)),
           qc_syncMode = SyncModeUnset\<rparr>, qo_TLS opts \<or> useTLS))"

section \<open>The Redis protocol\<close>

definition connectionContextError :: "respWorld \<Rightarrow> goErr \<Rightarrow> goErr" where
  "connectionContextError w err = (case rw_ctxErr w of Some contextErr \<Rightarrow> contextErr | None \<Rightarrow> err)"

text \<open>
  \<open>openAuthenticatedConnection\<close>: the writes left and the bytes still to read, an error, or \<open>None\<close>
  for a panic.
\<close>

definition openAuthenticatedConnection ::
  "redisQueueClient \<Rightarrow> respWorld \<Rightarrow> (goErr + nat \<times> string) option" where
  "openAuthenticatedConnection c w =
     (if qc_address c = [] then Some (Inl (PlainError ''redis queue address is required''))
      else if qc_managementKey c = [] then Some (Inl (PlainError ''redis queue management key is required''))
      else (case rw_dialError w of
        Some err \<Rightarrow> Some (Inl (wrap ''connect redis queue: '' (connectionContextError w err)))
      | None \<Rightarrow>
          (case writeRESPCommand (rw_writes w) [''AUTH'', qc_managementKey c] of
             (written, budget, False) \<Rightarrow>
               Some (Inl (wrap ''write redis queue auth command: '' (connectionContextError w (rw_writeError w))))
           | (written, budget, True) \<Rightarrow>
               (case readRESP (rw_inputEnd w) (rw_input w) of
                  ReadError err \<Rightarrow>
                    Some (Inl (wrap ''read redis queue auth response: '' (connectionContextError w err)))
                | ReadOk authResponse rest \<Rightarrow>
                    if rv_err authResponse \<noteq> []
                    then Some (Inl (WrapError (errText ErrRedisQueueAuth @ '': '' @ rv_err authResponse)
                                      [ErrRedisQueueAuth]))
                    else Some (Inr (budget, rest))
                | ReadPanic \<Rightarrow> None
                | ReadFuel \<Rightarrow> None))))"

text \<open>\<open>popUsageOverRedis\<close>: the effects and the result, or \<open>None\<close> for a panic.\<close>

definition popUsageOverRedis ::
  "redisQueueClient \<Rightarrow> respWorld \<Rightarrow> queueEffect list \<times> redisQueuePopResult option" where
  "popUsageOverRedis c w =
     (case openAuthenticatedConnection c w of
        None \<Rightarrow> ([], None)
      | Some (Inl err) \<Rightarrow> ([], Some \<lparr>pr_messages = [], pr_err = Some err, pr_effectState = 0\<rparr>)
      | Some (Inr (budget, input)) \<Rightarrow>
          (let result = \<lparr>pr_messages = [], pr_err = None, pr_effectState = redisQueueEffectMayHaveStarted\<rparr>;
               command = [''LPOP'', qc_queueKey c, formatInt (qc_batchSize c)];
               effects = [PopCommand command]
           in case writeRESPCommand budget command of
                (written, budget, False) \<Rightarrow>
                  (effects, Some (result\<lparr>pr_err := Some (wrap ''write redis queue pop command: ''
                     (connectionContextError w (rw_writeError w)))\<rparr>))
              | (written, budget, True) \<Rightarrow>
                  (case readRESP (rw_inputEnd w) input of
                     ReadError err \<Rightarrow>
                       (effects, Some (result\<lparr>pr_err := Some (wrap ''read redis queue pop response: ''
                          (connectionContextError w err))\<rparr>))
                   | ReadOk popResponse rest \<Rightarrow>
                       if rv_err popResponse \<noteq> []
                       then (effects, Some (result\<lparr>pr_err :=
                              Some (PlainError (''redis queue pop failed: '' @ rv_err popResponse))\<rparr>))
                       else (effects, Some (result\<lparr>pr_messages := respStrings popResponse\<rparr>))
                   | ReadPanic \<Rightarrow> (effects, None)
                   | ReadFuel \<Rightarrow> (effects, None))))"

section \<open>HTTP\<close>

definition canFallbackToHTTP :: "redisQueueClient \<Rightarrow> bool" where
  "canFallbackToHTTP c =
     (case qc_httpClient c of None \<Rightarrow> False | Some h \<Rightarrow> trimSpace (cl_baseURL h) \<noteq> [])"

fun trimmedItems :: "string list \<Rightarrow> string list" where
  "trimmedItems [] = []"
| "trimmedItems (item # items) =
     (let trimmed = trimSpace item
      in if trimmed = [] \<or> trimmed = ''null'' then trimmedItems items else trimmed # trimmedItems items)"

definition popUsageOverHTTP ::
  "redisQueueClient \<Rightarrow> (string \<Rightarrow> goErr + string list) \<Rightarrow> httpWorld \<Rightarrow> queueEffect list \<times> (goErr + string list)"
  where
  "popUsageOverHTTP c unmarshal w =
     (case qc_httpClient c of
        None \<Rightarrow> ([], Inl (PlainError ''redis queue http client is nil''))
      | Some h \<Rightarrow>
          (let r = fetchUsageQueue (Some h) (qc_batchSize c) unmarshal w
           in (map HttpPop (hr_sent r),
               case hr_out r of
                 Inl err \<Rightarrow> Inl (wrap ''fetch usage queue over http: '' err)
               | Inr payload \<Rightarrow> Inr (trimmedItems payload))))"

section \<open>The pop\<close>

record popEnv =
  pe_redis :: respWorld
  pe_http :: httpWorld
  pe_unmarshal :: "string \<Rightarrow> goErr + string list"

text \<open>The client after the call, its effects, and the result, or \<open>None\<close> for a panic.\<close>

definition popUsage ::
  "redisQueueClient option \<Rightarrow> popEnv
    \<Rightarrow> redisQueueClient option \<times> queueEffect list \<times> (string list \<times> goErr option) option" where
  "popUsage client env =
     (case client of
        None \<Rightarrow> (client, [], Some ([], Some (PlainError ''redis queue client is nil'')))
      | Some c \<Rightarrow>
      if qc_queueKey c = [] then (client, [], Some ([], Some (PlainError ''redis queue key is required'')))
      else if qc_batchSize c \<le> 0 then
        (client, [], Some ([], Some (PlainError ''redis queue batch size must be positive'')))
      else if qc_timeout c \<le> 0 then
        (client, [], Some ([], Some (PlainError ''redis queue timeout must be positive'')))
      else (case qc_syncMode c of
        SyncModeRedis \<Rightarrow>
          (case popUsageOverRedis c (pe_redis env) of
             (effects, None) \<Rightarrow> (client, effects, None)
           | (effects, Some result) \<Rightarrow> (client, effects, Some (pr_messages result, pr_err result)))
      | SyncModeHTTP \<Rightarrow>
          (case popUsageOverHTTP c (pe_unmarshal env) (pe_http env) of
             (effects, Inl err) \<Rightarrow> (client, effects, Some ([], Some err))
           | (effects, Inr messages) \<Rightarrow> (client, effects, Some (messages, None)))
      | SyncModeUnset \<Rightarrow>
          (case popUsageOverRedis c (pe_redis env) of
             (effects, None) \<Rightarrow> (client, effects, None)
           | (effects, Some result) \<Rightarrow>
               (case pr_err result of
                  None \<Rightarrow> (Some (c\<lparr>qc_syncMode := SyncModeRedis\<rparr>), effects, Some (pr_messages result, None))
                | Some err \<Rightarrow>
                    if errIs err ContextCanceled \<or> errIs err ContextDeadlineExceeded
                    then (client, effects, Some ([], Some (wrap ''usage queue sync stopped: '' err)))
                    else if pr_effectState result = redisQueueEffectMayHaveStarted
                    then (client, effects, Some ([],
                            Some (wrap ''usage queue sync failed after redis queue pop may have started: '' err)))
                    else if \<not> canFallbackToHTTP c
                    then (client, effects, Some ([],
                            Some (WrapError (''usage queue sync failed: '' @ errText err
                                    @ ''; http usage queue fallback not possible'') [err])))
                    else (case popUsageOverHTTP c (pe_unmarshal env) (pe_http env) of
                            (tried, Inl fallbackErr) \<Rightarrow>
                              (client, effects @ tried, Some ([],
                                 Some (WrapError (''usage queue sync failed: '' @ errText err
                                         @ ''; http usage queue fallback failed: '' @ errText fallbackErr)
                                         [err, fallbackErr])))
                          | (tried, Inr messages) \<Rightarrow>
                              (Some (c\<lparr>qc_syncMode := SyncModeHTTP\<rparr>), effects @ tried,
                               Some (messages, None)))))))"

section \<open>At most one destructive pop\<close>

lemma openAuthenticated_state:
  "openAuthenticatedConnection c w = Some (Inl err) \<Longrightarrow>
     popUsageOverRedis c w = ([], Some \<lparr>pr_messages = [], pr_err = Some err, pr_effectState = 0\<rparr>)"
  by (simp add: popUsageOverRedis_def)

lemma popUsageOverRedis_cases:
  obtains (panic) effects where "popUsageOverRedis c w = (effects, None)" "length effects \<le> 1"
  | (before) err where "popUsageOverRedis c w = ([], Some \<lparr>pr_messages = [], pr_err = Some err, pr_effectState = 0\<rparr>)"
  | (started) command result where "popUsageOverRedis c w = ([PopCommand command], Some result)"
      "pr_effectState result = redisQueueEffectMayHaveStarted" "pr_err result \<noteq> None \<longrightarrow> pr_messages result = []"
proof (cases "openAuthenticatedConnection c w")
  case None
  then show ?thesis using panic [of "[]"] by (simp add: popUsageOverRedis_def)
next
  case (Some x)
  show ?thesis
  proof (cases x)
    case (Inl err)
    then show ?thesis using before [of err] Some by (simp add: popUsageOverRedis_def)
  next
    case (Inr y)
    obtain budget input where y: "y = (budget, input)" by (cases y)
    obtain written budget' ok where
      wr: "writeRESPCommand budget [''LPOP'', qc_queueKey c, formatInt (qc_batchSize c)] = (written, budget', ok)"
      by (cases "writeRESPCommand budget [''LPOP'', qc_queueKey c, formatInt (qc_batchSize c)]")
    show ?thesis
    proof (cases "ok \<and> (readRESP (rw_inputEnd w) input = ReadPanic \<or> readRESP (rw_inputEnd w) input = ReadFuel)")
      case True
      then show ?thesis
        using panic [of "[PopCommand [''LPOP'', qc_queueKey c, formatInt (qc_batchSize c)]]"]
        by (auto simp: popUsageOverRedis_def Some Inr y wr)
    next
      case False
      note st = started [of "[''LPOP'', qc_queueKey c, formatInt (qc_batchSize c)]"]
      show ?thesis
      proof (cases "ok \<and> (\<exists>v t. readRESP (rw_inputEnd w) input = ReadOk v t)")
        case True
        then obtain v t where v: "ok" "readRESP (rw_inputEnd w) input = ReadOk v t" by blast
        then show ?thesis
          using st by (cases "rv_err v = []") (simp_all add: popUsageOverRedis_def Some Inr y wr)
      next
        case other: False
        then show ?thesis
          using st False by (cases ok; cases "readRESP (rw_inputEnd w) input")
            (simp_all add: popUsageOverRedis_def Some Inr y wr)
      qed
    qed
  qed
qed

lemma popUsageOverHTTP_one: "length (fst (popUsageOverHTTP c un w)) \<le> 1"
  using fetchUsageQueue_sent by (simp add: popUsageOverHTTP_def Let_def split: option.split)

definition modeOf :: "redisQueueClient option \<Rightarrow> redisQueueSyncMode" where
  "modeOf client = (case client of None \<Rightarrow> SyncModeUnset | Some c \<Rightarrow> qc_syncMode c)"

text \<open>The protocol an effect belongs to, and those of the calls of a run that returned no error.\<close>

fun protocolOf :: "queueEffect \<Rightarrow> redisQueueSyncMode" where
  "protocolOf (PopCommand command) = SyncModeRedis"
| "protocolOf (HttpPop request) = SyncModeHTTP"

fun popRun :: "redisQueueClient option \<Rightarrow> popEnv list
    \<Rightarrow> (queueEffect list \<times> (string list \<times> goErr option) option) list" where
  "popRun client [] = []"
| "popRun client (env # envs) =
     (case popUsage client env of (client', effects, result) \<Rightarrow> (effects, result) # popRun client' envs)"

definition successful :: "(string list \<times> goErr option) option \<Rightarrow> bool" where
  "successful result = (case result of Some (messages, None) \<Rightarrow> True | r \<Rightarrow> False)"

definition successProtocols :: "(queueEffect list \<times> (string list \<times> goErr option) option) list \<Rightarrow> redisQueueSyncMode list" where
  "successProtocols run =
     map protocolOf (concat (map fst (filter (\<lambda>(effects, result). successful result) run)))"

lemma popUsage_unset:
  assumes "qc_queueKey c \<noteq> []" "0 < qc_batchSize c" "0 < qc_timeout c" "qc_syncMode c = SyncModeUnset"
    "popUsage (Some c) env = (client', effects, result)"
  shows "length effects \<le> 1 \<and>
    (if successful result then list_all (\<lambda>e. protocolOf e = modeOf client') effects \<and> modeOf client' \<noteq> SyncModeUnset
     else client' = Some c)"
proof (cases rule: popUsageOverRedis_cases [of c "pe_redis env"])
  case (panic effects')
  then show ?thesis using assms by (auto simp: popUsage_def successful_def)
next
  case (before err)
  obtain tried out where http: "popUsageOverHTTP c (pe_unmarshal env) (pe_http env) = (tried, out)"
    by (cases "popUsageOverHTTP c (pe_unmarshal env) (pe_http env)")
  then have one: "length tried \<le> 1" using popUsageOverHTTP_one [of c "pe_unmarshal env" "pe_http env"] by simp
  have kind: "list_all (\<lambda>e. protocolOf e = SyncModeHTTP) tried"
    using http by (auto simp: popUsageOverHTTP_def Let_def list_all_iff split: option.splits)
  show ?thesis
    using assms before http one kind
    by (cases out)
      (auto simp: popUsage_def successful_def modeOf_def redisQueueEffectMayHaveStarted_def split: if_splits)
next
  case (started command r)
  then show ?thesis
    using assms by (cases "pr_err r") (auto simp: popUsage_def successful_def modeOf_def split: if_splits)
qed

lemma popUsage_set:
  assumes "qc_queueKey c \<noteq> []" "0 < qc_batchSize c" "0 < qc_timeout c" "qc_syncMode c \<noteq> SyncModeUnset"
    "popUsage (Some c) env = (client', effects, result)"
  shows "client' = Some c \<and> length effects \<le> 1 \<and> list_all (\<lambda>e. protocolOf e = qc_syncMode c) effects"
proof (cases "qc_syncMode c")
  case SyncModeUnset
  then show ?thesis using assms by simp
next
  case SyncModeRedis
  have kinds: "length (fst (popUsageOverRedis c w)) \<le> 1 \<and>
      list_all (\<lambda>e. protocolOf e = SyncModeRedis) (fst (popUsageOverRedis c w))" for w
    by (auto simp: popUsageOverRedis_def Let_def split: option.split sum.split prod.split bool.split respRead.split)
  show ?thesis
    using assms SyncModeRedis kinds [of "pe_redis env"]
    by (auto simp: popUsage_def split: prod.splits option.splits)
next
  case SyncModeHTTP
  have kind: "list_all (\<lambda>e. protocolOf e = SyncModeHTTP) (fst (popUsageOverHTTP c un w))" for un w
    by (auto simp: popUsageOverHTTP_def Let_def list_all_iff split: option.splits)
  show ?thesis
    using assms SyncModeHTTP popUsageOverHTTP_one [of c "pe_unmarshal env" "pe_http env"]
      kind [of "pe_unmarshal env" "pe_http env"]
    by (auto simp: popUsage_def split: prod.splits sum.splits)
qed

lemma popUsage_invalid:
  assumes "client = None \<or> client = Some c \<and> (qc_queueKey c = [] \<or> qc_batchSize c \<le> 0 \<or> qc_timeout c \<le> 0)"
  shows "\<exists>e. popUsage client env = (client, [], Some ([], Some e))"
  using assms by (auto simp: popUsage_def)

text \<open>The three kinds of calls together.\<close>

lemma popUsage_step:
  assumes step: "popUsage client env = (client', effects, result)"
  shows "length effects \<le> 1"
    and "modeOf client \<noteq> SyncModeUnset \<Longrightarrow> modeOf client' = modeOf client"
    and "successful result \<Longrightarrow> modeOf client' \<noteq> SyncModeUnset \<and> list_all (\<lambda>e. protocolOf e = modeOf client') effects"
proof -
  consider (invalid) c where
      "client = None \<or> client = Some c \<and> (qc_queueKey c = [] \<or> qc_batchSize c \<le> 0 \<or> qc_timeout c \<le> 0)"
    | (unset) c where "client = Some c" "qc_queueKey c \<noteq> []" "0 < qc_batchSize c" "0 < qc_timeout c"
        "qc_syncMode c = SyncModeUnset"
    | (set) c where "client = Some c" "qc_queueKey c \<noteq> []" "0 < qc_batchSize c" "0 < qc_timeout c"
        "qc_syncMode c \<noteq> SyncModeUnset"
    by (cases client) force+
  then have "length effects \<le> 1 \<and>
    (modeOf client \<noteq> SyncModeUnset \<longrightarrow> modeOf client' = modeOf client) \<and>
    (successful result \<longrightarrow> modeOf client' \<noteq> SyncModeUnset \<and> list_all (\<lambda>e. protocolOf e = modeOf client') effects)"
  proof cases
    case (invalid c)
    then show ?thesis using popUsage_invalid [OF invalid, of env] step by (auto simp: successful_def)
  next
    case (unset c)
    have "modeOf client = SyncModeUnset" using unset by (simp add: modeOf_def)
    moreover have "popUsage (Some c) env = (client', effects, result)" using step unset(1) by simp
    ultimately show ?thesis using popUsage_unset [OF unset(2-5)] by (cases "successful result") auto
  next
    case (set c)
    have mode: "modeOf client = qc_syncMode c" using set by (simp add: modeOf_def)
    have "popUsage (Some c) env = (client', effects, result)" using step set(1) by simp
    from popUsage_set [OF set(2-5) this] show ?thesis using set(1,5) mode by simp
  qed
  then show "length effects \<le> 1" "modeOf client \<noteq> SyncModeUnset \<Longrightarrow> modeOf client' = modeOf client"
    "successful result \<Longrightarrow> modeOf client' \<noteq> SyncModeUnset \<and> list_all (\<lambda>e. protocolOf e = modeOf client') effects"
    by blast+
qed

lemma successProtocols_Nil [simp]: "successProtocols [] = []"
  by (simp add: successProtocols_def)

lemma successProtocols_Cons:
  "successProtocols ((effects, result) # run) =
     (if successful result then map protocolOf effects else []) @ successProtocols run"
  by (simp add: successProtocols_def)

lemma popRun_mode:
  "modeOf client \<noteq> SyncModeUnset \<Longrightarrow> set (successProtocols (popRun client envs)) \<subseteq> {modeOf client}"
proof (induction envs arbitrary: client)
  case Nil
  then show ?case by simp
next
  case (Cons env envs)
  obtain client' effects result where s: "popUsage client env = (client', effects, result)"
    by (cases "popUsage client env")
  note step = popUsage_step [OF s]
  have "modeOf client' = modeOf client" by (rule step(2) [OF Cons.prems])
  with Cons.IH [of client'] Cons.prems step(3) show ?case
    by (auto simp: s successProtocols_Cons list_all_iff)
qed

text \<open>
  No call pops the queue twice, and the protocol never changes once it has worked: in every run
  of calls, each call has at most one destructive effect on the queue (the Redis pop it may have
  begun to write, or the one HTTP request), so a failed Redis pop is never followed by an HTTP pop
  of the same call; and all calls that returned without an error used one and the same protocol.
\<close>

theorem popUsage_pops_once:
  "list_all (\<lambda>(effects, result). length effects \<le> 1) (popRun client envs) \<and>
   card (set (successProtocols (popRun client envs))) \<le> 1"
proof
  show "list_all (\<lambda>(effects, result). length effects \<le> 1) (popRun client envs)"
  proof (induction envs arbitrary: client)
    case (Cons env envs)
    obtain client' effects result where s: "popUsage client env = (client', effects, result)"
      by (cases "popUsage client env")
    from popUsage_step(1) [OF s] Cons.IH [of client'] show ?case by (simp add: s)
  qed simp
  have "\<exists>m. set (successProtocols (popRun client envs)) \<subseteq> {m}"
  proof (induction envs arbitrary: client)
    case (Cons env envs)
    obtain client' effects result where s: "popUsage client env = (client', effects, result)"
      by (cases "popUsage client env")
    show ?case
    proof (cases "successful result")
      case True
      with popUsage_step(3) [OF s] popRun_mode [of client' envs] show ?thesis
        by (intro exI [of _ "modeOf client'"]) (auto simp: s successProtocols_Cons list_all_iff)
    next
      case False
      with Cons.IH [of client'] show ?thesis by (simp add: s successProtocols_Cons)
    qed
  qed simp
  then obtain m where "set (successProtocols (popRun client envs)) \<subseteq> {m}" by blast
  from card_mono [OF _ this] show "card (set (successProtocols (popRun client envs))) \<le> 1" by simp
qed

section \<open>Delivery\<close>

lemma writeRESPCommand_ok:
  "Suc (length parts) \<le> budget \<Longrightarrow>
     writeRESPCommand budget parts = (respCommandWrites parts, budget - Suc (length parts), True)"
  by (simp add: writeRESPCommand_def respCommandWrites_def Let_def)

lemma respStrings_bulks [simp]: "respStrings (respMeaning (ArrayReply (map BulkReply ms))) = ms"
  using bulksOf_map [of ms] by (cases ms) (simp_all add: respStrings_def)

lemma rv_err_array [simp]: "rv_err (respMeaning (ArrayReply rs)) = []"
  by simp

text \<open>
  C14. Messages arrive complete, unchanged and in order. If the server accepts the key and answers the
  pop with the array of its messages, whatever bytes the messages hold, and the writes go through,
  the call returns exactly those messages, has sent one pop of the configured queue and batch
  size, and keeps to the Redis protocol from then on.
\<close>

theorem popUsage_delivers:
  assumes config: "qc_queueKey c \<noteq> []" "0 < qc_batchSize c" "0 < qc_timeout c" "qc_address c \<noteq> []"
      "qc_managementKey c \<noteq> []" "qc_syncMode c \<noteq> SyncModeHTTP"
    and network: "rw_dialError (pe_redis env) = None" "7 \<le> rw_writes (pe_redis env)"
    and server: "rw_input (pe_redis env) = encodeRESP auth @ encodeRESP (ArrayReply (map BulkReply ms)) @ rest"
      "respFormed auth" "rv_err (respMeaning auth) = []" "respFormed (ArrayReply (map BulkReply ms))"
  shows "popUsage (Some c) env =
    (Some (c\<lparr>qc_syncMode := SyncModeRedis\<rparr>),
     [PopCommand [''LPOP'', qc_queueKey c, formatInt (qc_batchSize c)]], Some (ms, None))"
proof -
  let ?w = "pe_redis env"
  have auth: "writeRESPCommand (rw_writes ?w) [''AUTH'', qc_managementKey c] =
      (respCommandWrites [''AUTH'', qc_managementKey c], rw_writes ?w - 3, True)"
    using writeRESPCommand_ok [of "[''AUTH'', qc_managementKey c]" "rw_writes ?w"] network by simp
  have pop: "writeRESPCommand (rw_writes ?w - 3) [''LPOP'', qc_queueKey c, formatInt (qc_batchSize c)] =
      (respCommandWrites [''LPOP'', qc_queueKey c, formatInt (qc_batchSize c)], rw_writes ?w - 3 - 4, True)"
    using writeRESPCommand_ok [of "[''LPOP'', qc_queueKey c, formatInt (qc_batchSize c)]" "rw_writes ?w - 3"] network
    by simp
  have conn: "openAuthenticatedConnection c ?w =
      Some (Inr (rw_writes ?w - 3, encodeRESP (ArrayReply (map BulkReply ms)) @ rest))"
    by (simp only: openAuthenticatedConnection_def config network auth server(1)
        readRESP_encoded [OF server(2)] server(3) if_False option.case prod.case bool.case respRead.case simp_thms)
  have "popUsageOverRedis c ?w =
      ([PopCommand [''LPOP'', qc_queueKey c, formatInt (qc_batchSize c)]],
       Some \<lparr>pr_messages = ms, pr_err = None, pr_effectState = redisQueueEffectMayHaveStarted\<rparr>)"
    unfolding popUsageOverRedis_def conn option.case sum.case prod.case Let_def pop bool.case
      readRESP_encoded [OF server(4)] respRead.case
    by (simp del: respMeaning.simps)
  then show ?thesis
    using config by (cases "qc_syncMode c") (simp_all add: popUsage_def)
qed

definition sampleQueueClient :: redisQueueClient where
  "sampleQueueClient = \<lparr>qc_address = ''cpa:8317'', qc_managementKey = ''key'', qc_timeout = second,
     qc_queueKey = ''usage'', qc_batchSize = 10, qc_httpClient = None, qc_syncMode = SyncModeUnset\<rparr>"

definition samplePopEnv :: popEnv where
  "samplePopEnv = \<lparr>pe_redis = \<lparr>rw_dialError = None, rw_writes = 7, rw_writeError = ioEOF,
       rw_input = ''+OK'' @ crlf @ ''*2'' @ crlf @ ''$2'' @ crlf @ ''{}'' @ crlf @ ''$3'' @ crlf @ ''[1]'' @ crlf,
       rw_inputEnd = ioEOF, rw_ctxErr = None\<rparr>,
     pe_http = \<lparr>hw_buildError = None, hw_doError = None, hw_status = 200, hw_body = Inr []\<rparr>,
     pe_unmarshal = (\<lambda>body. Inr [])\<rparr>"

theorem popUsage_delivers_witness:
  "popUsage (Some sampleQueueClient) samplePopEnv =
    (Some (sampleQueueClient\<lparr>qc_syncMode := SyncModeRedis\<rparr>),
     [PopCommand [''LPOP'', ''usage'', ''10'']], Some ([''{}'', ''[1]''], None))"
proof -
  have n: "formatInt 10 = ''10''" "formatInt 2 = ''2''" "formatInt 3 = ''3''" by code_simp+
  show ?thesis
    using popUsage_delivers [of sampleQueueClient samplePopEnv "SimpleReply ''OK''" "[''{}'', ''[1]'']" "[]"]
    by (simp add: sampleQueueClient_def samplePopEnv_def second_def n maxAlloc_def sizeofRespValue_def)
qed

end
