(* ===== verification/Drain.thy ===== *)
theory Drain
  imports Intake GoNet
begin

text \<open>
  The scheduler of the intake (\<open>poller/redis_drain.go\<close>, \<open>poller/poller.go\<close>) and the manual
  synchronisation that shares it (\<open>app/manual_sync.go\<close>): the admission flags, the results of a
  stage, the throughput counters and the two background loops. Each critical section of the code
  is one operation here; the concurrent runs are in the theory on interleavings.

  The stages themselves are the intake's pull and processing run; here a stage is what it returns:
  a result, if any, and an error, if any.
\<close>

section \<open>State\<close>

record redisDrain =
  rd_hasSyncer :: bool
  rd_IdleInterval :: duration
  rd_ErrorBackoff :: duration
  rd_running :: bool
  rd_manualRunning :: bool
  rd_pullRunning :: bool
  rd_processRunning :: bool
  rd_processedEventsTotal :: i64
  rd_processedBatchesTotal :: i64
  rd_lastProcessedAt :: i64

definition newRedisDrain :: "bool \<Rightarrow> duration \<Rightarrow> duration \<Rightarrow> redisDrain" where
  "newRedisDrain hasSyncer idle backoff =
     \<lparr>rd_hasSyncer = hasSyncer, rd_IdleInterval = idle, rd_ErrorBackoff = backoff,
      rd_running = False, rd_manualRunning = False, rd_pullRunning = False, rd_processRunning = False,
      rd_processedEventsTotal = 0, rd_processedBatchesTotal = 0, rd_lastProcessedAt = 0\<rparr>"

record syncStatus =
  ss_Running :: bool
  ss_LastRunAt :: instant
  ss_LastError :: string
  ss_LastWarning :: string
  ss_LastStatus :: string
  ss_SyncRunning :: bool

record manualSyncOutcome =
  mo_Status :: string
  mo_Error :: string
  mo_Warning :: string

definition zeroStatus :: syncStatus where
  "zeroStatus = \<lparr>ss_Running = False, ss_LastRunAt = zero_time, ss_LastError = [], ss_LastWarning = [],
     ss_LastStatus = [], ss_SyncRunning = False\<rparr>"

definition outcomeOf :: "string \<Rightarrow> manualSyncOutcome" where
  "outcomeOf status = \<lparr>mo_Status = status, mo_Error = [], mo_Warning = []\<rparr>"

definition drainStatus :: "redisDrain \<Rightarrow> syncStatus" where
  "drainStatus d = zeroStatus\<lparr>ss_Running := rd_running d,
     ss_SyncRunning := (rd_manualRunning d \<or> rd_pullRunning d \<or> rd_processRunning d)\<rparr>"

definition setRunning :: "bool \<Rightarrow> redisDrain \<Rightarrow> redisDrain" where
  "setRunning running d = d\<lparr>rd_running := running\<rparr>"

text \<open>The receiver may be nil; the defaults for the clock and the sleep are those of the model.\<close>

definition validateDrain :: "redisDrain option \<Rightarrow> goErr option" where
  "validateDrain drain =
     (case drain of
        None \<Rightarrow> Some (PlainError ''redis drain is nil'')
      | Some d \<Rightarrow>
          if \<not> rd_hasSyncer d then Some (PlainError ''redis drain syncer is nil'')
          else if rd_IdleInterval d \<le> 0
          then Some (PlainError ''redis drain idle interval must be greater than zero'')
          else if rd_ErrorBackoff d \<le> 0
          then Some (PlainError ''redis drain error backoff must be greater than zero'')
          else None)"

definition shouldLogSyncError :: "goErr option \<Rightarrow> bool" where
  "shouldLogSyncError err =
     (case err of
        None \<Rightarrow> False
      | Some e \<Rightarrow> \<not> errIs e ErrSyncCompletedWithWarnings \<and> \<not> errIs e ErrSyncAlreadyRunning \<and>
                  \<not> errIs e ContextCanceled)"

section \<open>Critical sections\<close>

definition beginManualSync :: "redisDrain \<Rightarrow> redisDrain \<times> goErr option" where
  "beginManualSync d =
     (if rd_manualRunning d \<or> rd_pullRunning d \<or> rd_processRunning d then (d, Some ErrSyncAlreadyRunning)
      else (let d = d\<lparr>rd_manualRunning := True\<rparr>;
                d = d\<lparr>rd_pullRunning := True\<rparr>;
                d = d\<lparr>rd_processRunning := True\<rparr>
            in (d, None)))"

definition endManualSync :: "redisDrain \<Rightarrow> redisDrain" where
  "endManualSync d = d\<lparr>rd_manualRunning := False, rd_pullRunning := False, rd_processRunning := False\<rparr>"

definition beginPull :: "redisDrain \<Rightarrow> redisDrain \<times> goErr option" where
  "beginPull d =
     (if rd_pullRunning d then (d, Some ErrSyncAlreadyRunning) else (d\<lparr>rd_pullRunning := True\<rparr>, None))"

definition endPull :: "redisDrain \<Rightarrow> redisDrain" where
  "endPull d = d\<lparr>rd_pullRunning := False\<rparr>"

definition beginProcess :: "redisDrain \<Rightarrow> redisDrain \<times> goErr option" where
  "beginProcess d =
     (if rd_processRunning d then (d, Some ErrSyncAlreadyRunning) else (d\<lparr>rd_processRunning := True\<rparr>, None))"

definition endProcess :: "redisDrain \<Rightarrow> redisDrain" where
  "endProcess d = d\<lparr>rd_processRunning := False\<rparr>"

section \<open>Throughput counters\<close>

definition resultEvents :: "batchResult \<Rightarrow> i64" where
  "resultEvents r = of_nat (br_InsertedEvents r + br_DedupedEvents r)"

definition recordProcessMetrics :: "instant \<Rightarrow> batchResult option \<Rightarrow> redisDrain \<Rightarrow> redisDrain" where
  "recordProcessMetrics now result d =
     (case result of
        None \<Rightarrow> d
      | Some r \<Rightarrow>
          if br_Status r = ''failed'' then d
          else (let events = resultEvents r in
            if events = 0 then d
            else d\<lparr>rd_processedBatchesTotal := rd_processedBatchesTotal d + 1,
                   rd_processedEventsTotal := rd_processedEventsTotal d + events,
                   rd_lastProcessedAt := word_of_int now\<rparr>))"

record processMetrics =
  pm_EventsTotal :: i64
  pm_BatchesTotal :: i64
  pm_LastProcessedAt :: instant

definition readProcessMetrics :: "redisDrain \<Rightarrow> processMetrics" where
  "readProcessMetrics d =
     \<lparr>pm_EventsTotal = rd_processedEventsTotal d, pm_BatchesTotal = rd_processedBatchesTotal d,
      pm_LastProcessedAt = (if rd_lastProcessedAt d \<noteq> 0 then sint (rd_lastProcessedAt d) else zero_time)\<rparr>"

section \<open>Stages\<close>

text \<open>A warning: the run has an error but a result that is not failed.\<close>

definition processReturnErr :: "batchResult option \<Rightarrow> goErr option \<Rightarrow> goErr option" where
  "processReturnErr result err =
     (case err of
        None \<Rightarrow> None
      | Some e \<Rightarrow>
          (case result of
             None \<Rightarrow> Some e
           | Some r \<Rightarrow>
               if br_Status r \<noteq> [] \<and> br_Status r \<noteq> ''failed''
               then Some (WrapError (errText ErrSyncCompletedWithWarnings @ '': '' @ errText e)
                            [ErrSyncCompletedWithWarnings])
               else Some e))"

definition runRedisPull ::
  "pullResult option \<times> goErr option \<Rightarrow> redisDrain \<Rightarrow> redisDrain \<times> pullResult option \<times> goErr option" where
  "runRedisPull stage d =
     (case beginPull d of
        (d, Some e) \<Rightarrow> (d, None, Some e)
      | (d, None) \<Rightarrow> (endPull d, fst stage, snd stage))"

definition runRedisProcess ::
  "instant \<Rightarrow> batchResult option \<times> goErr option \<Rightarrow> redisDrain \<Rightarrow> redisDrain \<times> batchResult option \<times> goErr option"
  where
  "runRedisProcess now stage d =
     (case beginProcess d of
        (d, Some e) \<Rightarrow> (d, None, Some e)
      | (d, None) \<Rightarrow>
          (let d = recordProcessMetrics now (fst stage) d
           in (endProcess d, fst stage, processReturnErr (fst stage) (snd stage))))"

definition manualPullOutcome :: "pullResult option \<Rightarrow> goErr option \<Rightarrow> manualSyncOutcome" where
  "manualPullOutcome result err =
     (let status = (case result of Some r \<Rightarrow> if pr_Status r \<noteq> [] then pr_Status r else ''failed''
                                 | None \<Rightarrow> ''failed'')
      in case err of
           Some e \<Rightarrow> (outcomeOf status)\<lparr>mo_Error := errText e\<rparr>
         | None \<Rightarrow> outcomeOf status)"

definition manualProcessOutcome :: "batchResult option \<Rightarrow> goErr option \<Rightarrow> manualSyncOutcome" where
  "manualProcessOutcome result err =
     (let status = (case result of Some r \<Rightarrow> br_Status r | None \<Rightarrow> []);
          status = (if status = [] then if err \<noteq> None then ''failed'' else ''completed'' else status);
          outcome = outcomeOf status
      in case err of
           None \<Rightarrow> outcome
         | Some e \<Rightarrow> if status \<noteq> ''failed'' then outcome\<lparr>mo_Warning := errText e\<rparr>
                     else outcome\<lparr>mo_Error := errText e\<rparr>)"

text \<open>
  \<open>SyncNow\<close> of the drain. The processing stage runs only when the pull gave no error; its arguments
  are what the two stages return and the clock reading of the metrics.
\<close>

definition drainSyncNow ::
  "redisDrain option \<Rightarrow> pullResult option \<times> goErr option \<Rightarrow> instant \<Rightarrow> batchResult option \<times> goErr option
    \<Rightarrow> redisDrain option \<times> manualSyncOutcome \<times> goErr option" where
  "drainSyncNow drain pulled now processed =
     (case validateDrain drain of
        Some e \<Rightarrow> (drain, (outcomeOf ''failed'')\<lparr>mo_Error := errText e\<rparr>, Some e)
      | None \<Rightarrow>
          (case beginManualSync (the drain) of
             (d, Some e) \<Rightarrow> (Some d, outcomeOf [], Some e)
           | (d, None) \<Rightarrow>
               (case snd pulled of
                  Some e \<Rightarrow> (Some (endManualSync d), manualPullOutcome (fst pulled) (Some e), Some e)
                | None \<Rightarrow>
                    (let returnErr = processReturnErr (fst processed) (snd processed);
                         d = recordProcessMetrics now (fst processed) d
                     in (Some (endManualSync d), manualProcessOutcome (fst processed) (snd processed),
                         returnErr)))))"

section \<open>The background loops\<close>

definition redisInboxProcessInterval :: duration where
  "redisInboxProcessInterval = 5 * second"

definition redisInboxProcessBurstBatches :: nat where
  "redisInboxProcessBurstBatches = 4"

datatype loopAction = PullCall | ProcessCall | SleepFor duration

text \<open>
  One iteration of the pull loop: whether the context is done at its start, what
  \<open>runRedisPull\<close> returns, and whether the sleep ran to its end. The loops run over the iterations
  the environment gives them; the flag says whether the loop has returned.
\<close>

record pullTurn =
  pt_cancelled :: bool
  pt_returned :: "pullResult option \<times> goErr option"
  pt_slept :: bool

fun runPullLoop :: "redisDrain \<Rightarrow> pullTurn list \<Rightarrow> loopAction list \<times> bool" where
  "runPullLoop d [] = ([], False)"
| "runPullLoop d (turn # turns) =
     (if pt_cancelled turn then ([], True)
      else
        (let (result, err) = pt_returned turn;
             continue = (\<lambda>actions. let (rest, returned) = runPullLoop d turns in (actions @ rest, returned))
         in if err \<noteq> None then
              (if \<not> pt_slept turn then ([PullCall, SleepFor (rd_ErrorBackoff d)], True)
               else continue [PullCall, SleepFor (rd_ErrorBackoff d)])
            else if (case result of Some r \<Rightarrow> pr_Empty r | None \<Rightarrow> False) then
              (if \<not> pt_slept turn then ([PullCall, SleepFor (rd_IdleInterval d)], True)
               else continue [PullCall, SleepFor (rd_IdleInterval d)])
            else continue [PullCall]))"

text \<open>The burst of one turn of the process loop: the number of calls it makes.\<close>

fun processBurst :: "nat \<Rightarrow> (batchResult option \<times> goErr option) list \<Rightarrow> nat" where
  "processBurst 0 calls = 0"
| "processBurst (Suc n) [] = 0"
| "processBurst (Suc n) ((result, err) # calls) =
     (if err \<noteq> None then 1
      else if (case result of None \<Rightarrow> True | Some r \<Rightarrow> \<not> br_BatchLimitReached r) then 1
      else Suc (processBurst n calls))"

record processTurn =
  pu_slept :: bool
  pu_calls :: "(batchResult option \<times> goErr option) list"

fun runProcessLoop :: "processTurn list \<Rightarrow> loopAction list \<times> bool" where
  "runProcessLoop [] = ([], False)"
| "runProcessLoop (turn # turns) =
     (if \<not> pu_slept turn then ([SleepFor redisInboxProcessInterval], True)
      else (let (rest, returned) = runProcessLoop turns
            in (SleepFor redisInboxProcessInterval
                  # replicate (processBurst redisInboxProcessBurstBatches (pu_calls turn)) ProcessCall @ rest,
                returned)))"

lemma processBurst_le: "processBurst n calls \<le> n"
  by (induction n calls rule: processBurst.induct) auto

text \<open>A burst goes on exactly while full batches come back without an error.\<close>

lemma processBurst_stops:
  assumes "processBurst n calls = Suc k" "Suc k < n" "Suc k < length calls"
  shows "\<exists>result err. calls ! k = (result, err) \<and>
    (err \<noteq> None \<or> result = None \<or> (\<exists>r. result = Some r \<and> \<not> br_BatchLimitReached r))"
  using assms
proof (induction n calls arbitrary: k rule: processBurst.induct)
  case (3 n result err calls)
  have more: "processBurst n calls \<noteq> 0" if "0 < n" "calls \<noteq> []"
    using that by (cases n; cases calls) (auto split: prod.splits)
  show ?case
    using "3.prems" "3.IH" more by (cases k) (auto split: if_splits option.splits)
qed simp_all

section \<open>The manual synchronisation\<close>

record manualSyncRunner =
  mr_hasRedis :: bool
  mr_hasMetadata :: bool
  mr_admissionClosed :: bool
  mr_manualRunning :: bool
  mr_lastRunAt :: instant
  mr_lastError :: string
  mr_lastWarning :: string
  mr_lastStatus :: string

definition newManualSyncRunner :: "bool \<Rightarrow> bool \<Rightarrow> manualSyncRunner" where
  "newManualSyncRunner hasRedis hasMetadata =
     \<lparr>mr_hasRedis = hasRedis, mr_hasMetadata = hasMetadata, mr_admissionClosed = False,
      mr_manualRunning = False, mr_lastRunAt = zero_time, mr_lastError = [], mr_lastWarning = [],
      mr_lastStatus = []\<rparr>"

definition manualStatus :: "manualSyncRunner option \<Rightarrow> syncStatus \<Rightarrow> syncStatus" where
  "manualStatus runner redisStatus =
     (case runner of
        None \<Rightarrow> zeroStatus
      | Some r \<Rightarrow>
          (let status = (if mr_hasRedis r then redisStatus else zeroStatus)
           in status\<lparr>ss_SyncRunning := (ss_SyncRunning status \<or> mr_manualRunning r),
                     ss_LastRunAt := mr_lastRunAt r, ss_LastError := mr_lastError r,
                     ss_LastWarning := mr_lastWarning r, ss_LastStatus := mr_lastStatus r\<rparr>))"

definition closeAdmission :: "manualSyncRunner \<Rightarrow> manualSyncRunner" where
  "closeAdmission r = r\<lparr>mr_admissionClosed := True\<rparr>"

definition beginManual :: "manualSyncRunner \<Rightarrow> manualSyncRunner \<times> goErr option" where
  "beginManual r =
     (if mr_admissionClosed r then (r, Some ErrSyncUnavailable)
      else if mr_manualRunning r then (r, Some ErrSyncAlreadyRunning)
      else (r\<lparr>mr_manualRunning := True\<rparr>, None))"

definition finishRunning :: "manualSyncRunner \<Rightarrow> manualSyncRunner" where
  "finishRunning r = r\<lparr>mr_manualRunning := False\<rparr>"

definition recordOutcome :: "instant \<Rightarrow> manualSyncOutcome \<Rightarrow> manualSyncRunner \<Rightarrow> manualSyncRunner" where
  "recordOutcome now outcome r =
     (let r = r\<lparr>mr_lastRunAt := now, mr_lastStatus := mo_Status outcome, mr_lastError := mo_Error outcome,
                mr_lastWarning := mo_Warning outcome\<rparr>
      in if mr_lastStatus r = [] then
           r\<lparr>mr_lastStatus :=
               (if mo_Warning outcome \<noteq> [] then ''completed_with_warnings''
                else if mo_Error outcome \<noteq> [] then ''failed'' else ''completed'')\<rparr>
         else r)"

definition manualSyncStageError :: "string \<Rightarrow> goErr \<Rightarrow> goErr" where
  "manualSyncStageError message err = wrap (message @ '': '') err"

text \<open>
  \<open>SyncNow\<close> of the runner, after \<open>begin\<close> has admitted it, up to the deferred \<open>finishRunning\<close>: what
  it records and returns, given what the drain and the metadata stage return.
\<close>

definition manualBody ::
  "instant \<Rightarrow> manualSyncOutcome \<times> goErr option \<Rightarrow> goErr option \<Rightarrow> manualSyncRunner \<Rightarrow> manualSyncRunner \<times> goErr option"
  where
  "manualBody now redis metadata r =
     (if \<not> mr_hasRedis r then
        (let err = PlainError ''manual redis syncer is nil''
         in (recordOutcome now ((outcomeOf ''failed'')\<lparr>mo_Error := errText err\<rparr>) r, Some err))
      else (case snd redis of
        Some err \<Rightarrow>
          (if \<not> errIs err ErrSyncAlreadyRunning then recordOutcome now (fst redis) r else r,
           Some (manualSyncStageError ''redis sync failed'' err))
      | None \<Rightarrow>
          if \<not> mr_hasMetadata r then
            (let err = PlainError ''manual metadata syncer is nil''
             in (recordOutcome now ((outcomeOf ''completed_with_warnings'')\<lparr>mo_Warning := errText err\<rparr>) r,
                 Some err))
          else (case metadata of
            Some err \<Rightarrow>
              (recordOutcome now ((outcomeOf ''completed_with_warnings'')\<lparr>mo_Warning := errText err\<rparr>) r,
               Some (manualSyncStageError ''metadata sync failed'' err))
          | None \<Rightarrow> (recordOutcome now (fst redis) r, None))))"

definition manualSyncNow ::
  "instant \<Rightarrow> manualSyncOutcome \<times> goErr option \<Rightarrow> goErr option \<Rightarrow> manualSyncRunner option
    \<Rightarrow> manualSyncRunner option \<times> goErr option" where
  "manualSyncNow now redis metadata runner =
     (case runner of
        None \<Rightarrow> (runner, Some (PlainError ''manual sync runner is nil''))
      | Some r \<Rightarrow>
          (case beginManual r of
             (r, Some e) \<Rightarrow> (Some r, Some e)
           | (r, None) \<Rightarrow>
               (let (r, err) = manualBody now redis metadata r in (Some (finishRunning r), err))))"

end
