(* ===== verification/DrainRuns.thy ===== *)
theory DrainRuns
  imports Drain
begin

text \<open>
  Any number of threads run the background stages and the manual synchronisation on one drain and
  one manual runner. A step of the relation is one critical section or one write of the code; the
  threads interleave in every order. Ghost state holds the processing results that were recorded.
\<close>

section \<open>Threads\<close>

text \<open>
  Where a thread is: in neither, inside the pull of the background loop, inside its processing
  run, between recording the metrics and releasing the stage; admitted to a manual run, inside its
  pull, its processing run, before the release of the drain with the outcome so far, in the metadata stage,
  before the final release of the runner.
\<close>

datatype activity =
    Idle
  | BackgroundPull
  | BackgroundProcess
  | BackgroundRelease
  | ManualAdmitted
  | ManualPull
  | ManualProcess
  | ManualRelease manualSyncOutcome "goErr option"
  | ManualMetadata manualSyncOutcome
  | ManualFinish

record drainWorld =
  dw_drain :: redisDrain
  dw_manual :: manualSyncRunner
  dw_threads :: "nat \<Rightarrow> activity"
  dw_recorded :: "(instant \<times> batchResult option) list"

inductive drain_step :: "drainWorld \<Rightarrow> drainWorld \<Rightarrow> bool" where
  ds_running: "drain_step w (w\<lparr>dw_drain := setRunning b (dw_drain w)\<rparr>)"
| ds_closeAdmission: "drain_step w (w\<lparr>dw_manual := closeAdmission (dw_manual w)\<rparr>)"
| ds_beginPull:
    "dw_threads w t = Idle \<Longrightarrow> beginPull (dw_drain w) = (d, None) \<Longrightarrow>
     drain_step w (w\<lparr>dw_drain := d, dw_threads := (dw_threads w)(t := BackgroundPull)\<rparr>)"
| ds_endPull:
    "dw_threads w t = BackgroundPull \<Longrightarrow>
     drain_step w (w\<lparr>dw_drain := endPull (dw_drain w), dw_threads := (dw_threads w)(t := Idle)\<rparr>)"
| ds_beginProcess:
    "dw_threads w t = Idle \<Longrightarrow> beginProcess (dw_drain w) = (d, None) \<Longrightarrow>
     drain_step w (w\<lparr>dw_drain := d, dw_threads := (dw_threads w)(t := BackgroundProcess)\<rparr>)"
| ds_recordBackground:
    "dw_threads w t = BackgroundProcess \<Longrightarrow>
     drain_step w (w\<lparr>dw_drain := recordProcessMetrics now result (dw_drain w),
                     dw_recorded := (now, result) # dw_recorded w,
                     dw_threads := (dw_threads w)(t := BackgroundRelease)\<rparr>)"
| ds_endProcess:
    "dw_threads w t = BackgroundRelease \<Longrightarrow>
     drain_step w (w\<lparr>dw_drain := endProcess (dw_drain w), dw_threads := (dw_threads w)(t := Idle)\<rparr>)"
| ds_beginManual:
    "dw_threads w t = Idle \<Longrightarrow> beginManual (dw_manual w) = (r, None) \<Longrightarrow>
     drain_step w (w\<lparr>dw_manual := r, dw_threads := (dw_threads w)(t := ManualAdmitted)\<rparr>)"
| ds_manualNoDrain:
    "dw_threads w t = ManualAdmitted \<Longrightarrow> \<not> mr_hasRedis (dw_manual w) \<or> validateDrain (Some (dw_drain w)) \<noteq> None \<Longrightarrow>
     drain_step w (w\<lparr>dw_manual := recordOutcome now outcome (dw_manual w),
                     dw_threads := (dw_threads w)(t := ManualFinish)\<rparr>)"
| ds_manualRefused:
    "dw_threads w t = ManualAdmitted \<Longrightarrow> beginManualSync (dw_drain w) = (d, Some e) \<Longrightarrow>
     drain_step w (w\<lparr>dw_threads := (dw_threads w)(t := ManualFinish)\<rparr>)"
| ds_beginManualSync:
    "dw_threads w t = ManualAdmitted \<Longrightarrow> beginManualSync (dw_drain w) = (d, None) \<Longrightarrow>
     drain_step w (w\<lparr>dw_drain := d, dw_threads := (dw_threads w)(t := ManualPull)\<rparr>)"
| ds_manualPullFailed:
    "dw_threads w t = ManualPull \<Longrightarrow>
     drain_step w (w\<lparr>dw_threads := (dw_threads w)(t :=
       ManualRelease (manualPullOutcome result (Some e)) (Some e))\<rparr>)"
| ds_manualPulled:
    "dw_threads w t = ManualPull \<Longrightarrow>
     drain_step w (w\<lparr>dw_threads := (dw_threads w)(t := ManualProcess)\<rparr>)"
| ds_recordManual:
    "dw_threads w t = ManualProcess \<Longrightarrow>
     drain_step w (w\<lparr>dw_drain := recordProcessMetrics now result (dw_drain w),
                     dw_recorded := (now, result) # dw_recorded w,
                     dw_threads := (dw_threads w)(t :=
                       ManualRelease (manualProcessOutcome result err) (processReturnErr result err))\<rparr>)"
| ds_endManualFailed:
    "dw_threads w t = ManualRelease outcome (Some e) \<Longrightarrow>
     drain_step w (w\<lparr>dw_drain := endManualSync (dw_drain w),
                     dw_manual := (if errIs e ErrSyncAlreadyRunning then dw_manual w
                                   else recordOutcome now outcome (dw_manual w)),
                     dw_threads := (dw_threads w)(t := ManualFinish)\<rparr>)"
| ds_endManualSync:
    "dw_threads w t = ManualRelease outcome None \<Longrightarrow>
     drain_step w (w\<lparr>dw_drain := endManualSync (dw_drain w),
                     dw_threads := (dw_threads w)(t := ManualMetadata outcome)\<rparr>)"
| ds_manualMetadata:
    "dw_threads w t = ManualMetadata outcome \<Longrightarrow>
     drain_step w (w\<lparr>dw_manual := recordOutcome now outcome' (dw_manual w),
                     dw_threads := (dw_threads w)(t := ManualFinish)\<rparr>)"
| ds_finishManual:
    "dw_threads w t = ManualFinish \<Longrightarrow>
     drain_step w (w\<lparr>dw_manual := finishRunning (dw_manual w), dw_threads := (dw_threads w)(t := Idle)\<rparr>)"

definition startWorld :: "redisDrain \<Rightarrow> manualSyncRunner \<Rightarrow> drainWorld" where
  "startWorld d r = \<lparr>dw_drain = d, dw_manual = r, dw_threads = (\<lambda>t. Idle), dw_recorded = []\<rparr>"

section \<open>Who holds what\<close>

fun holdsPull :: "activity \<Rightarrow> bool" where
  "holdsPull BackgroundPull = True"
| "holdsPull ManualPull = True"
| "holdsPull ManualProcess = True"
| "holdsPull (ManualRelease outcome err) = True"
| "holdsPull a = False"

fun holdsProcess :: "activity \<Rightarrow> bool" where
  "holdsProcess BackgroundProcess = True"
| "holdsProcess BackgroundRelease = True"
| "holdsProcess ManualPull = True"
| "holdsProcess ManualProcess = True"
| "holdsProcess (ManualRelease outcome err) = True"
| "holdsProcess a = False"

fun holdsDrain :: "activity \<Rightarrow> bool" where
  "holdsDrain ManualPull = True"
| "holdsDrain ManualProcess = True"
| "holdsDrain (ManualRelease outcome err) = True"
| "holdsDrain a = False"

fun holdsManual :: "activity \<Rightarrow> bool" where
  "holdsManual Idle = False"
| "holdsManual BackgroundPull = False"
| "holdsManual BackgroundProcess = False"
| "holdsManual BackgroundRelease = False"
| "holdsManual a = True"

text \<open>A flag is set exactly while one thread holds what it stands for.\<close>

definition guarded :: "(activity \<Rightarrow> bool) \<Rightarrow> (nat \<Rightarrow> activity) \<Rightarrow> bool \<Rightarrow> bool" where
  "guarded holds threads flag \<longleftrightarrow>
     (if flag then (\<exists>!t. holds (threads t)) else (\<forall>t. \<not> holds (threads t)))"

lemma guarded_keep [simp]:
  "h a = h (threads t) \<Longrightarrow> guarded h (threads(t := a)) flag = guarded h threads flag"
proof -
  assume same: "h a = h (threads t)"
  then have "h ((threads(t := a)) u) = h (threads u)" for u by simp
  then show ?thesis by (simp add: guarded_def)
qed

lemma guarded_acquire [simp]:
  "h a \<Longrightarrow> guarded h threads False \<Longrightarrow> guarded h (threads(t := a)) True"
  by (auto simp: guarded_def)

lemma guarded_release:
  "guarded h threads flag \<Longrightarrow> h (threads t) \<Longrightarrow> \<not> h a \<Longrightarrow> guarded h (threads(t := a)) False"
  by (auto simp: guarded_def split: if_splits)

lemma guarded_holder: "guarded h threads flag \<Longrightarrow> h (threads t) \<Longrightarrow> flag"
  by (auto simp: guarded_def split: if_splits)

lemma guarded_unique: "guarded h threads flag \<Longrightarrow> h (threads t) \<Longrightarrow> h (threads u) \<Longrightarrow> t = u"
  by (auto simp: guarded_def split: if_splits)

definition drainOK :: "drainWorld \<Rightarrow> bool" where
  "drainOK w \<longleftrightarrow>
     guarded holdsPull (dw_threads w) (rd_pullRunning (dw_drain w)) \<and>
     guarded holdsProcess (dw_threads w) (rd_processRunning (dw_drain w)) \<and>
     guarded holdsDrain (dw_threads w) (rd_manualRunning (dw_drain w)) \<and>
     guarded holdsManual (dw_threads w) (mr_manualRunning (dw_manual w))"

lemma drainOK_D:
  assumes "drainOK w"
  shows "guarded holdsPull (dw_threads w) (rd_pullRunning (dw_drain w))"
    "guarded holdsProcess (dw_threads w) (rd_processRunning (dw_drain w))"
    "guarded holdsDrain (dw_threads w) (rd_manualRunning (dw_drain w))"
    "guarded holdsManual (dw_threads w) (mr_manualRunning (dw_manual w))"
  using assms by (simp_all add: drainOK_def)

lemma record_flags [simp]:
  "rd_pullRunning (recordProcessMetrics now result d) = rd_pullRunning d"
  "rd_processRunning (recordProcessMetrics now result d) = rd_processRunning d"
  "rd_manualRunning (recordProcessMetrics now result d) = rd_manualRunning d"
  by (simp_all add: recordProcessMetrics_def Let_def split: option.split)

lemma recordOutcome_running [simp]: "mr_manualRunning (recordOutcome now outcome r) = mr_manualRunning r"
  by (simp add: recordOutcome_def Let_def)

lemma drainOK_step:
  assumes "drain_step w w'" "drainOK w"
  shows "drainOK w'"
  using assms(1)
proof cases
  case (ds_running b)
  then show ?thesis using assms(2) by (simp add: drainOK_def setRunning_def)
next
  case ds_closeAdmission
  then show ?thesis using assms(2) by (simp add: drainOK_def closeAdmission_def)
next
  case (ds_beginPull t d)
  then show ?thesis
    using drainOK_D [OF assms(2)]
    by (auto simp: drainOK_def beginPull_def split: if_splits)
next
  case (ds_endPull t)
  then show ?thesis
    using drainOK_D [OF assms(2)] by (auto simp: drainOK_def endPull_def intro: guarded_release)
next
  case (ds_beginProcess t d)
  then show ?thesis
    using drainOK_D [OF assms(2)]
    by (auto simp: drainOK_def beginProcess_def split: if_splits)
next
  case (ds_recordBackground t now result)
  then show ?thesis
    using drainOK_D [OF assms(2)] by (auto simp: drainOK_def)
next
  case (ds_endProcess t)
  then show ?thesis
    using drainOK_D [OF assms(2)] by (auto simp: drainOK_def endProcess_def intro: guarded_release)
next
  case (ds_beginManual t r)
  then show ?thesis
    using drainOK_D [OF assms(2)]
    by (auto simp: drainOK_def beginManual_def split: if_splits)
next
  case (ds_manualNoDrain t now outcome)
  then show ?thesis
    using drainOK_D [OF assms(2)] by (auto simp: drainOK_def)
next
  case (ds_manualRefused t d e)
  then show ?thesis
    using drainOK_D [OF assms(2)] by (auto simp: drainOK_def)
next
  case (ds_beginManualSync t d)
  then show ?thesis
    using drainOK_D [OF assms(2)]
    by (auto simp: drainOK_def beginManualSync_def Let_def split: if_splits
       )
next
  case (ds_manualPullFailed t result e)
  then show ?thesis
    using drainOK_D [OF assms(2)] by (auto simp: drainOK_def)
next
  case (ds_manualPulled t)
  then show ?thesis
    using drainOK_D [OF assms(2)] by (auto simp: drainOK_def)
next
  case (ds_recordManual t now result err)
  then show ?thesis
    using drainOK_D [OF assms(2)] by (auto simp: drainOK_def)
next
  case (ds_endManualFailed t outcome e now)
  then show ?thesis
    using drainOK_D [OF assms(2)]
    by (auto simp: drainOK_def endManualSync_def intro: guarded_release)
next
  case (ds_endManualSync t outcome)
  then show ?thesis
    using drainOK_D [OF assms(2)]
    by (auto simp: drainOK_def endManualSync_def intro: guarded_release)
next
  case (ds_manualMetadata t outcome now outcome')
  then show ?thesis
    using drainOK_D [OF assms(2)] by (auto simp: drainOK_def)
next
  case (ds_finishManual t)
  then show ?thesis
    using drainOK_D [OF assms(2)]
    by (auto simp: drainOK_def finishRunning_def intro: guarded_release)
qed

lemma drainOK_start: "drainOK (startWorld (newRedisDrain b i e) (newManualSyncRunner x y))"
  by (simp add: drainOK_def startWorld_def newRedisDrain_def newManualSyncRunner_def guarded_def)

lemma drainOK_reachable:
  "drain_step\<^sup>*\<^sup>* (startWorld (newRedisDrain b i e) (newManualSyncRunner x y)) w \<Longrightarrow> drainOK w"
  by (induction rule: rtranclp_induct) (auto simp: drainOK_start intro: drainOK_step)

section \<open>Properties\<close>

text \<open>
  C15. Mutual exclusion, and no flag is ever left behind. However background and manual runs
  interleave: at most one thread is inside a pull, background or manual, and at most one is
  inside a processing run; while a manual run has the drain no other thread is inside a stage;
  at most one manual run is admitted; and when no thread is active every flag is clear, so the
  next run of every kind is admitted.
\<close>

theorem drain_exclusive:
  assumes reach: "drain_step\<^sup>*\<^sup>* (startWorld (newRedisDrain b i e) (newManualSyncRunner x y)) w"
  shows "(\<forall>t u. holdsPull (dw_threads w t) \<and> holdsPull (dw_threads w u) \<longrightarrow> t = u) \<and>
    (\<forall>t u. holdsProcess (dw_threads w t) \<and> holdsProcess (dw_threads w u) \<longrightarrow> t = u) \<and>
    (\<forall>t u. holdsDrain (dw_threads w t) \<and> (holdsPull (dw_threads w u) \<or> holdsProcess (dw_threads w u)) \<longrightarrow> t = u) \<and>
    (\<forall>t u. holdsManual (dw_threads w t) \<and> holdsManual (dw_threads w u) \<longrightarrow> t = u) \<and>
    ((\<forall>t. dw_threads w t = Idle) \<longrightarrow>
       \<not> ss_SyncRunning (drainStatus (dw_drain w)) \<and>
       snd (beginPull (dw_drain w)) = None \<and> snd (beginProcess (dw_drain w)) = None \<and>
       snd (beginManualSync (dw_drain w)) = None \<and>
       (mr_admissionClosed (dw_manual w) \<or> snd (beginManual (dw_manual w)) = None))"
proof -
  note ok = drainOK_D [OF drainOK_reachable [OF reach]]
  have "t = u" if "holdsDrain (dw_threads w t)" "holdsPull (dw_threads w u) \<or> holdsProcess (dw_threads w u)" for t u
  proof -
    have "holdsPull (dw_threads w t)" "holdsProcess (dw_threads w t)"
      using that(1) by (cases "dw_threads w t"; simp)+
    then show ?thesis using that(2) guarded_unique [OF ok(1)] guarded_unique [OF ok(2)] by blast
  qed
  moreover have "\<not> rd_pullRunning (dw_drain w)" "\<not> rd_processRunning (dw_drain w)"
    "\<not> rd_manualRunning (dw_drain w)" "\<not> mr_manualRunning (dw_manual w)"
    if "\<forall>t. dw_threads w t = Idle"
    using ok that by (auto simp: guarded_def split: if_splits)
  ultimately show ?thesis
    using guarded_unique [OF ok(1)] guarded_unique [OF ok(2)] guarded_unique [OF ok(4)]
    by (auto simp: drainStatus_def zeroStatus_def beginPull_def beginProcess_def beginManualSync_def
        beginManual_def Let_def)
qed

definition sampleDrain :: redisDrain where
  "sampleDrain = newRedisDrain True second second"

definition sampleManual :: manualSyncRunner where
  "sampleManual = newManualSyncRunner True True"

definition sampleResult :: batchResult where
  "sampleResult = \<lparr>br_Empty = False, br_BatchLimitReached = False, br_Status = ''completed'',
     br_InsertedEvents = 3, br_DedupedEvents = 1\<rparr>"

text \<open>A background processing run that has recorded its result while another thread pulls.\<close>

definition sampleWorld :: drainWorld where
  "sampleWorld = \<lparr>dw_drain = (recordProcessMetrics 7 (Some sampleResult) (sampleDrain\<lparr>rd_processRunning := True\<rparr>))
       \<lparr>rd_pullRunning := True\<rparr>,
     dw_manual = sampleManual, dw_threads = (\<lambda>t. Idle)(0 := BackgroundRelease, 1 := BackgroundPull),
     dw_recorded = [(7, Some sampleResult)]\<rparr>"

lemma sampleWorld_reachable:
  "drain_step\<^sup>*\<^sup>* (startWorld (newRedisDrain True second second) (newManualSyncRunner True True)) sampleWorld"
proof -
  let ?w0 = "startWorld (newRedisDrain True second second) (newManualSyncRunner True True)"
  let ?w1 = "?w0\<lparr>dw_drain := sampleDrain\<lparr>rd_processRunning := True\<rparr>,
    dw_threads := (dw_threads ?w0)(0 := BackgroundProcess)\<rparr>"
  let ?w2 = "?w1\<lparr>dw_drain := recordProcessMetrics 7 (Some sampleResult) (dw_drain ?w1),
    dw_recorded := (7, Some sampleResult) # dw_recorded ?w1,
    dw_threads := (dw_threads ?w1)(0 := BackgroundRelease)\<rparr>"
  let ?w3 = "?w2\<lparr>dw_drain := (dw_drain ?w2)\<lparr>rd_pullRunning := True\<rparr>,
    dw_threads := (dw_threads ?w2)(1 := BackgroundPull)\<rparr>"
  have "drain_step ?w0 ?w1"
    by (rule ds_beginProcess) (simp_all add: startWorld_def beginProcess_def sampleDrain_def newRedisDrain_def)
  moreover have "drain_step ?w1 ?w2" by (rule ds_recordBackground) simp
  moreover have "drain_step ?w2 ?w3"
    by (rule ds_beginPull) (simp_all add: startWorld_def beginPull_def sampleDrain_def newRedisDrain_def)
  moreover have "?w3 = sampleWorld"
    by (simp add: sampleWorld_def startWorld_def sampleDrain_def sampleManual_def)
  ultimately show ?thesis by (metis (no_types, lifting) r_into_rtranclp rtranclp.rtrancl_into_rtrancl)
qed

theorem drain_exclusive_witness:
  "\<not> holdsProcess (dw_threads sampleWorld 5) \<and> holdsPull (dw_threads sampleWorld 1)"
proof -
  have "holdsProcess (dw_threads sampleWorld 0)" by (simp add: sampleWorld_def)
  with drain_exclusive [OF sampleWorld_reachable] have "\<not> holdsProcess (dw_threads sampleWorld 5)"
    by (metis zero_neq_numeral)
  then show ?thesis by (simp add: sampleWorld_def)
qed

text \<open>The results that count: not failed, and with events.\<close>

definition counted :: "(instant \<times> batchResult option) list \<Rightarrow> (instant \<times> batchResult) list" where
  "counted recorded =
     concat (map (\<lambda>(now, result). case result of
        None \<Rightarrow> []
      | Some r \<Rightarrow> if br_Status r = ''failed'' \<or> resultEvents r = 0 then [] else [(now, r)]) recorded)"

lemma counted_Nil [simp]: "counted [] = []"
  by (simp add: counted_def)

lemma counted_Cons:
  "counted ((now, result) # recorded) =
     (case result of None \<Rightarrow> []
      | Some r \<Rightarrow> if br_Status r = ''failed'' \<or> resultEvents r = 0 then [] else [(now, r)]) @ counted recorded"
  by (simp add: counted_def)

definition countersOK :: "drainWorld \<Rightarrow> bool" where
  "countersOK w \<longleftrightarrow>
     rd_processedEventsTotal (dw_drain w) = sum_list (map (resultEvents \<circ> snd) (counted (dw_recorded w))) \<and>
     rd_processedBatchesTotal (dw_drain w) = of_nat (length (counted (dw_recorded w))) \<and>
     rd_lastProcessedAt (dw_drain w) =
       (case counted (dw_recorded w) of [] \<Rightarrow> 0 | (now, r) # rest \<Rightarrow> word_of_int now)"

lemma countersOK_record:
  assumes "countersOK w"
  shows "countersOK (w\<lparr>dw_drain := recordProcessMetrics now result (dw_drain w),
    dw_recorded := (now, result) # dw_recorded w, dw_threads := threads\<rparr>)"
  using assms
  by (cases result)
    (simp_all add: countersOK_def recordProcessMetrics_def counted_Cons Let_def algebra_simps)

lemma countersOK_same:
  assumes "countersOK w" "dw_recorded w' = dw_recorded w"
    "rd_processedEventsTotal (dw_drain w') = rd_processedEventsTotal (dw_drain w)"
    "rd_processedBatchesTotal (dw_drain w') = rd_processedBatchesTotal (dw_drain w)"
    "rd_lastProcessedAt (dw_drain w') = rd_lastProcessedAt (dw_drain w)"
  shows "countersOK w'"
  using assms by (simp add: countersOK_def)

lemma countersOK_step: "drain_step w w' \<Longrightarrow> countersOK w \<Longrightarrow> countersOK w'"
proof (induction rule: drain_step.induct)
  case (ds_recordBackground w t now result)
  then show ?case using countersOK_record by blast
next
  case (ds_recordManual w t now result err)
  then show ?case using countersOK_record by blast
qed (auto elim!: countersOK_same
    simp: setRunning_def beginPull_def endPull_def beginProcess_def endProcess_def beginManualSync_def
      endManualSync_def Let_def split: if_splits)

lemma countersOK_reachable:
  "drain_step\<^sup>*\<^sup>* (startWorld (newRedisDrain b i e) (newManualSyncRunner x y)) w \<Longrightarrow> countersOK w"
proof (induction rule: rtranclp_induct)
  case base
  show ?case by (simp add: countersOK_def startWorld_def newRedisDrain_def)
next
  case (step w w')
  show ?case by (rule countersOK_step [OF step(2,3)])
qed

text \<open>
  The throughput counters lose and repeat nothing under any interleaving: they are the number of
  processing runs, background or manual, that stored or recognised at least one event and did not
  fail, the 64-bit sum of their events, and the time of the latest of them.
\<close>

theorem drain_metrics_exact:
  assumes reach: "drain_step\<^sup>*\<^sup>* (startWorld (newRedisDrain b i e) (newManualSyncRunner x y)) w"
    and clock: "\<forall>(now, result) \<in> set (dw_recorded w). 0 < now \<and> now < 2 ^ 63"
  shows "readProcessMetrics (dw_drain w) =
    \<lparr>pm_EventsTotal = sum_list (map (resultEvents \<circ> snd) (counted (dw_recorded w))),
     pm_BatchesTotal = of_nat (length (counted (dw_recorded w))),
     pm_LastProcessedAt = (case counted (dw_recorded w) of [] \<Rightarrow> zero_time | (now, r) # rest \<Rightarrow> now)\<rparr>"
proof -
  note ok = countersOK_reachable [OF reach, unfolded countersOK_def]
  have range: "sint (word_of_int now :: i64) = now" "(word_of_int now :: i64) \<noteq> 0" if "0 < now" "now < 2 ^ 63" for now
  proof -
    show s: "sint (word_of_int now :: i64) = now"
      by (rule sint_of_int_i64) (use that in simp_all)
    show "(word_of_int now :: i64) \<noteq> 0"
    proof
      assume "(word_of_int now :: i64) = 0"
      then have "sint (word_of_int now :: i64) = 0" by simp
      with s that(1) show False by simp
    qed
  qed
  show ?thesis
  proof (cases "counted (dw_recorded w)")
    case Nil
    then show ?thesis using ok by (simp add: readProcessMetrics_def)
  next
    case (Cons c rest)
    obtain now r where c: "c = (now, r)" by (cases c)
    have "(now, r) \<in> set (counted (dw_recorded w))" using Cons c by simp
    then obtain result where "(now, result) \<in> set (dw_recorded w)"
      by (fastforce simp: counted_def split: option.splits if_splits)
    then have "0 < now" "now < 2 ^ 63" using clock by auto
    from range [OF this] ok Cons c show ?thesis by (simp add: readProcessMetrics_def)
  qed
qed

theorem drain_metrics_exact_witness:
  "readProcessMetrics (dw_drain sampleWorld) =
    \<lparr>pm_EventsTotal = 4, pm_BatchesTotal = 1, pm_LastProcessedAt = 7\<rparr>"
  using drain_metrics_exact [OF sampleWorld_reachable]
  by (simp add: sampleWorld_def sampleResult_def counted_Cons resultEvents_def)

end
