(* ===== verification/JsonFields.thy ===== *)
theory JsonFields
  imports GoStrings
begin

text \<open>
  Reading fields of JSON objects as \<open>quota/payloads.go\<close> does. A raw message is its JSON value, a
  number keeps its literal text, an object keeps its members in order (a repeated key overrides
  the earlier ones). Two functions of the standard library are arguments: the JSON value a text
  parses to and the value \<open>strconv.ParseFloat\<close> gives a text.
\<close>

datatype json =
    JNull
  | JBool bool
  | JNum string
  | JStr string
  | JArr "json list"
  | JObj "(string \<times> json) list"

type_synonym jsonObject = "(string \<times> json) list"

record jsonEnv =
  je_parse :: "string \<Rightarrow> json option"
  je_float :: "string \<Rightarrow> rat option"

definition jsonLookup :: "jsonObject \<Rightarrow> string \<Rightarrow> json option" where
  "jsonLookup object key = map_of (rev object) key"

text \<open>
  \<open>rawObject\<close>: an object, or a string whose text is an object again. The fuel is the length of the
  text: a string in a JSON text is shorter than the text.
\<close>

fun rawObjectText :: "nat \<Rightarrow> jsonEnv \<Rightarrow> string \<Rightarrow> jsonObject option" where
  "rawObjectText fuel env text =
     (if text = [] then None
      else (case je_parse env text of
              Some (JObj object) \<Rightarrow> Some object
            | Some (JStr s) \<Rightarrow>
                (case fuel of 0 \<Rightarrow> None | Suc n \<Rightarrow> rawObjectText n env (trimSpace s))
            | other \<Rightarrow> None))"

declare rawObjectText.simps [simp del]

definition rawObject :: "jsonEnv \<Rightarrow> json \<Rightarrow> jsonObject option" where
  "rawObject env raw =
     (case raw of
        JObj object \<Rightarrow> Some object
      | JStr s \<Rightarrow> rawObjectText (length s) env (trimSpace s)
      | other \<Rightarrow> None)"

text \<open>A nil map has no members.\<close>

fun objectField :: "jsonEnv \<Rightarrow> jsonObject \<Rightarrow> string list \<Rightarrow> jsonObject option" where
  "objectField env object [] = None"
| "objectField env object (key # keys) =
     (case jsonLookup object key of
        Some raw \<Rightarrow> rawObject env raw
      | None \<Rightarrow> objectField env object keys)"

fun arrayField :: "jsonObject \<Rightarrow> string list \<Rightarrow> json list" where
  "arrayField object [] = []"
| "arrayField object (key # keys) =
     (case jsonLookup object key of
        Some (JArr values) \<Rightarrow> values
      | Some JNull \<Rightarrow> []
      | other \<Rightarrow> arrayField object keys)"

text \<open>\<open>json.Unmarshal\<close> of \<open>null\<close> succeeds and leaves the zero value.\<close>

fun stringField :: "jsonObject \<Rightarrow> string list \<Rightarrow> string" where
  "stringField object [] = []"
| "stringField object (key # keys) =
     (case jsonLookup object key of
        Some (JStr s) \<Rightarrow> trimSpace s
      | Some JNull \<Rightarrow> []
      | Some (JNum literal) \<Rightarrow> literal
      | other \<Rightarrow> stringField object keys)"

fun floatValue :: "jsonEnv \<Rightarrow> jsonObject \<Rightarrow> string list \<Rightarrow> rat option" where
  "floatValue env object [] = None"
| "floatValue env object (key # keys) =
     (case jsonLookup object key of
        Some (JNum literal) \<Rightarrow>
          (case je_float env literal of Some x \<Rightarrow> Some x | None \<Rightarrow> floatValue env object keys)
      | Some JNull \<Rightarrow> Some 0
      | Some (JStr s) \<Rightarrow>
          (case je_float env (trimSpace s) of Some x \<Rightarrow> Some x | None \<Rightarrow> floatValue env object keys)
      | other \<Rightarrow> floatValue env object keys)"

definition floatField :: "jsonEnv \<Rightarrow> jsonObject \<Rightarrow> string list \<Rightarrow> rat" where
  "floatField env object keys = (case floatValue env object keys of Some x \<Rightarrow> x | None \<Rightarrow> 0)"

definition floatPtrField :: "jsonEnv \<Rightarrow> jsonObject \<Rightarrow> string list \<Rightarrow> rat option" where
  "floatPtrField env object keys = floatValue env object keys"

text \<open>
  \<open>int64(value)\<close> truncates toward zero; out of range it is the least value, as on amd64.
\<close>

definition truncRat :: "rat \<Rightarrow> int" where
  "truncRat x = (if x < 0 then - \<lfloor>- x\<rfloor> else \<lfloor>x\<rfloor>)"

definition int64OfFloat :: "rat \<Rightarrow> i64" where
  "int64OfFloat x = (if in_int64 (truncRat x) then word_of_int (truncRat x) else word_of_int int64_min)"

definition intPtrField :: "jsonEnv \<Rightarrow> jsonObject \<Rightarrow> string list \<Rightarrow> i64 option" where
  "intPtrField env object keys = map_option int64OfFloat (floatValue env object keys)"

definition intField :: "jsonEnv \<Rightarrow> jsonObject \<Rightarrow> string list \<Rightarrow> i64" where
  "intField env object keys = (case intPtrField env object keys of None \<Rightarrow> 0 | Some x \<Rightarrow> x)"

definition boolWord :: "string \<Rightarrow> bool option" where
  "boolWord s =
     (let w = toLower (trimSpace s) in
      if w \<in> {''true'', ''1'', ''yes'', ''y'', ''on''} then Some True
      else if w \<in> {''false'', ''0'', ''no'', ''n'', ''off''} then Some False
      else None)"

fun boolPtrField :: "jsonObject \<Rightarrow> string list \<Rightarrow> bool option" where
  "boolPtrField object [] = None"
| "boolPtrField object (key # keys) =
     (case jsonLookup object key of
        Some (JBool b) \<Rightarrow> Some b
      | Some (JStr s) \<Rightarrow> (case boolWord s of Some b \<Rightarrow> Some b | None \<Rightarrow> boolPtrField object keys)
      | other \<Rightarrow> boolPtrField object keys)"

definition boolField :: "jsonObject \<Rightarrow> string list \<Rightarrow> bool" where
  "boolField object keys = (boolPtrField object keys = Some True)"

end
