(* ===== verification/QuotaRows.thy ===== *)
theory QuotaRows
  imports JsonFields GoTime "HOL-Library.List_Lexorder" "HOL-Library.Char_ord"
begin

text \<open>
  The quota payloads of the providers (\<open>quota/types.go\<close>) and their normalisation into the rows the
  dashboard shows (\<open>quota/normalize.go\<close>). A pointer to a number is an \<open>option\<close>: absent and zero
  differ.
\<close>

section \<open>Payloads and rows\<close>

record quotaWindow =
  qw_Duration :: "rat option"
  qw_Unit :: string
  qw_Seconds :: "i64 option"

record quotaRow =
  qr_Key :: string
  qr_Label :: string
  qr_Scope :: string
  qr_Metric :: string
  qr_PlanType :: string
  qr_Used :: "rat option"
  qr_Limit :: "rat option"
  qr_Remaining :: "rat option"
  qr_Balance :: string
  qr_Unit :: string
  qr_UsedPercent :: "rat option"
  qr_RemainingFraction :: "rat option"
  qr_Allowed :: "bool option"
  qr_LimitReached :: "bool option"
  qr_HasCredits :: "bool option"
  qr_Unlimited :: "bool option"
  qr_OverageLimitReached :: "bool option"
  qr_Window :: "quotaWindow option"
  qr_ResetAt :: string
  qr_ResetAfterSeconds :: "i64 option"

text \<open>A row with only its key, label and scope set.\<close>

definition baseRow :: "string \<Rightarrow> string \<Rightarrow> string \<Rightarrow> quotaRow" where
  "baseRow key label scope =
     \<lparr>qr_Key = key, qr_Label = label, qr_Scope = scope, qr_Metric = [], qr_PlanType = [],
      qr_Used = None, qr_Limit = None, qr_Remaining = None, qr_Balance = [], qr_Unit = [],
      qr_UsedPercent = None, qr_RemainingFraction = None, qr_Allowed = None, qr_LimitReached = None,
      qr_HasCredits = None, qr_Unlimited = None, qr_OverageLimitReached = None, qr_Window = None,
      qr_ResetAt = [], qr_ResetAfterSeconds = None\<rparr>"

record antigravityQuotaInfo =
  ai_RemainingFraction :: rat
  ai_Remaining :: rat
  ai_ResetTime :: string

record antigravityQuotaModel =
  am_DisplayName :: string
  am_QuotaInfo :: "antigravityQuotaInfo option"

text \<open>The map of models, with distinct keys.\<close>

type_synonym antigravityQuotaPayload = "(string \<times> antigravityQuotaModel) list"

record codexUsageWindow =
  xw_UsedPercent :: "rat option"
  xw_LimitWindowSeconds :: i64
  xw_ResetAfterSeconds :: "i64 option"
  xw_ResetAt :: i64

record codexRateLimitInfo =
  xi_Allowed :: "bool option"
  xi_LimitReached :: "bool option"
  xi_PrimaryWindow :: "codexUsageWindow option"
  xi_SecondaryWindow :: "codexUsageWindow option"

record codexAdditionalRateLimit =
  xa_LimitName :: string
  xa_MeteredFeature :: string
  xa_RateLimit :: "codexRateLimitInfo option"

record codexCredits =
  xc_Balance :: string
  xc_HasCredits :: "bool option"
  xc_Unlimited :: "bool option"
  xc_OverageLimitReached :: "bool option"

record codexUsagePayload =
  xp_PlanType :: string
  xp_RateLimit :: "codexRateLimitInfo option"
  xp_CodeReviewRateLimit :: "codexRateLimitInfo option"
  xp_AdditionalRateLimits :: "codexAdditionalRateLimit list"
  xp_Credits :: "codexCredits option"

record geminiCliQuotaBucket =
  gb_ModelID :: string
  gb_TokenType :: string
  gb_RemainingFraction :: rat
  gb_RemainingAmount :: rat
  gb_ResetTime :: string

record geminiCliCredits =
  gc_CreditType :: string
  gc_CreditAmount :: rat

record geminiCliUserTier =
  gt_ID :: string
  gt_Name :: string
  gt_Description :: string
  gt_AvailableCredits :: "geminiCliCredits list"

record geminiCLICodeAssistPayload =
  ga_CurrentTier :: "geminiCliUserTier option"
  ga_PaidTier :: "geminiCliUserTier option"

record claudeUsageWindow =
  dw_Utilization :: rat
  dw_ResetsAt :: string

record claudeExtraUsage =
  de_IsEnabled :: bool
  de_MonthlyLimit :: rat
  de_UsedCredits :: rat
  de_Utilization :: "rat option"

record claudeUsagePayload =
  dp_FiveHour :: "claudeUsageWindow option"
  dp_SevenDay :: "claudeUsageWindow option"
  dp_SevenDayOAuthApps :: "claudeUsageWindow option"
  dp_SevenDayOpus :: "claudeUsageWindow option"
  dp_SevenDaySonnet :: "claudeUsageWindow option"
  dp_SevenDayCowork :: "claudeUsageWindow option"
  dp_IguanaNecktie :: "claudeUsageWindow option"
  dp_ExtraUsage :: "claudeExtraUsage option"

record kimiUsageDetail =
  kd_Used :: "rat option"
  kd_Limit :: "rat option"
  kd_Remaining :: "rat option"
  kd_Name :: string
  kd_Title :: string
  kd_ResetAt :: string
  kd_ResetIn :: rat
  kd_TTL :: rat

record kimiLimitWindow =
  kw_Duration :: i64
  kw_TimeUnit :: string

record kimiLimitItem =
  kl_Name :: string
  kl_Title :: string
  kl_Scope :: string
  kl_Detail :: "kimiUsageDetail option"
  kl_Window :: "kimiLimitWindow option"
  kl_Used :: "rat option"
  kl_Limit :: "rat option"
  kl_Remaining :: "rat option"
  kl_Duration :: i64
  kl_TimeUnit :: string
  kl_ResetAt :: string
  kl_ResetIn :: rat
  kl_TTL :: rat

record kimiUsagePayload =
  kp_Usage :: "kimiUsageDetail option"
  kp_Limits :: "kimiLimitItem list"

text \<open>The result of a provider; the profile of Claude does not reach the rows.\<close>

datatype quotaResult =
    AntigravityResult "antigravityQuotaPayload option"
  | CodexResult "codexUsagePayload option"
  | GeminiCLIResult "geminiCliQuotaBucket list option" "geminiCLICodeAssistPayload option"
  | ClaudeResult "claudeUsagePayload option"
  | KimiResult "kimiUsagePayload option"

fun firstNonEmptyText :: "string list \<Rightarrow> string" where
  "firstNonEmptyText [] = []"
| "firstNonEmptyText (v # vs) = (if v \<noteq> [] then v else firstNonEmptyText vs)"

section \<open>Claude\<close>

definition appendClaudeWindowQuotaRow ::
  "quotaRow list \<Rightarrow> string \<Rightarrow> string \<Rightarrow> string \<Rightarrow> claudeUsageWindow option \<Rightarrow> quotaRow list" where
  "appendClaudeWindowQuotaRow rows key label scope window =
     (case window of
        None \<Rightarrow> rows
      | Some w \<Rightarrow> rows @ [(baseRow key label scope)\<lparr>qr_UsedPercent := Some (dw_Utilization w),
                                                  qr_ResetAt := dw_ResetsAt w\<rparr>])"

definition claudeQuotaRows :: "claudeUsagePayload option \<Rightarrow> quotaRow list" where
  "claudeQuotaRows usage =
     (case usage of
        None \<Rightarrow> []
      | Some u \<Rightarrow>
          (let rows = [];
               rows = appendClaudeWindowQuotaRow rows ''five_hour'' ''5h'' ''window'' (dp_FiveHour u);
               rows = appendClaudeWindowQuotaRow rows ''seven_day'' ''Weekly'' ''window'' (dp_SevenDay u);
               rows = appendClaudeWindowQuotaRow rows ''seven_day_oauth_apps'' ''7d OAuth Apps'' ''window''
                        (dp_SevenDayOAuthApps u);
               rows = appendClaudeWindowQuotaRow rows ''seven_day_opus'' ''7d Opus'' ''model'' (dp_SevenDayOpus u);
               rows = appendClaudeWindowQuotaRow rows ''seven_day_sonnet'' ''7d Sonnet'' ''model''
                        (dp_SevenDaySonnet u);
               rows = appendClaudeWindowQuotaRow rows ''seven_day_cowork'' ''7d Cowork'' ''window''
                        (dp_SevenDayCowork u);
               rows = appendClaudeWindowQuotaRow rows ''iguana_necktie'' ''Iguana Necktie'' ''window''
                        (dp_IguanaNecktie u)
           in case dp_ExtraUsage u of
                None \<Rightarrow> rows
              | Some e \<Rightarrow>
                  rows @ [(baseRow ''extra_usage'' ''Extra Usage'' ''extra_usage'')\<lparr>
                    qr_Used := Some (de_UsedCredits e), qr_Limit := Some (de_MonthlyLimit e),
                    qr_UsedPercent := de_Utilization e, qr_Allowed := Some (de_IsEnabled e)\<rparr>]))"

section \<open>Codex\<close>

definition codexUnknownWindowLabel :: "string \<Rightarrow> string" where
  "codexUnknownWindowLabel label =
     (if label = ''5h'' \<or> label = ''Weekly'' then ''Window''
      else if contains label ''5h'' then replace_first ''5h'' ''Window'' label
      else if contains label ''Weekly'' then replace_first ''Weekly'' ''Window'' label
      else label)"

definition codexWindowLabel :: "string \<Rightarrow> i64 \<Rightarrow> string" where
  "codexWindowLabel label seconds =
     (if seconds = 18000 then
        (if contains label ''Weekly'' then replace_first ''Weekly'' ''5h'' label else label)
      else if seconds = 604800 then
        (if contains label ''5h'' then replace_first ''5h'' ''Weekly'' label else label)
      else codexUnknownWindowLabel label)"

definition appendCodexWindowQuotaRow ::
  "quotaRow list \<Rightarrow> string \<Rightarrow> string \<Rightarrow> string \<Rightarrow> string \<Rightarrow> codexRateLimitInfo \<Rightarrow> codexUsageWindow option
    \<Rightarrow> quotaRow list" where
  "appendCodexWindowQuotaRow rows key label scope metric info window =
     (case window of
        None \<Rightarrow> rows
      | Some w \<Rightarrow>
          (let label = codexWindowLabel label (xw_LimitWindowSeconds w);
               row = (baseRow key label scope)\<lparr>qr_Metric := metric, qr_Allowed := xi_Allowed info,
                        qr_LimitReached := xi_LimitReached info\<rparr>;
               row = (if xw_UsedPercent w \<noteq> None then row\<lparr>qr_UsedPercent := xw_UsedPercent w\<rparr> else row);
               row = (if xw_ResetAfterSeconds w \<noteq> None
                      then row\<lparr>qr_ResetAfterSeconds := xw_ResetAfterSeconds w\<rparr> else row);
               row = (if xw_LimitWindowSeconds w \<noteq> 0
                      then row\<lparr>qr_Window := Some \<lparr>qw_Duration = None, qw_Unit = [],
                                 qw_Seconds = Some (xw_LimitWindowSeconds w)\<rparr>\<rparr> else row);
               row = (if xw_ResetAt w \<noteq> 0
                      then row\<lparr>qr_ResetAt := formatRFC3339 (unixSecondsWrapped (xw_ResetAt w))\<rparr> else row)
           in rows @ [row]))"

definition appendCodexWindowQuotaRows ::
  "quotaRow list \<Rightarrow> string \<Rightarrow> string \<Rightarrow> string \<Rightarrow> string \<Rightarrow> string \<Rightarrow> codexRateLimitInfo option
    \<Rightarrow> quotaRow list" where
  "appendCodexWindowQuotaRows rows keyPrefix primaryLabel secondaryLabel scope metric info =
     (case info of
        None \<Rightarrow> rows
      | Some i \<Rightarrow>
          (let rows = appendCodexWindowQuotaRow rows (keyPrefix @ ''.primary_window'') primaryLabel scope metric
                        i (xi_PrimaryWindow i);
               rows = appendCodexWindowQuotaRow rows (keyPrefix @ ''.secondary_window'') secondaryLabel scope metric
                        i (xi_SecondaryWindow i)
           in rows))"

text \<open>
  The remaining credits are \<open>ParseFloat\<close> of the balance, an argument here; its error is ignored,
  which leaves zero.
\<close>

definition codexCreditsRow :: "(string \<Rightarrow> rat option) \<Rightarrow> codexCredits \<Rightarrow> quotaRow" where
  "codexCreditsRow parseFloat credits =
     (let row = (baseRow ''credits'' ''Credits'' ''credits'')\<lparr>qr_Metric := ''credits'', qr_Unit := ''credits'',
                  qr_Balance := xc_Balance credits, qr_HasCredits := xc_HasCredits credits,
                  qr_Unlimited := xc_Unlimited credits,
                  qr_OverageLimitReached := xc_OverageLimitReached credits\<rparr>
      in if xc_Balance credits \<noteq> [] then
           row\<lparr>qr_Remaining := Some (case parseFloat (xc_Balance credits) of Some x \<Rightarrow> x | None \<Rightarrow> 0)\<rparr>
         else row)"

definition codexQuotaRows :: "(string \<Rightarrow> rat option) \<Rightarrow> codexUsagePayload option \<Rightarrow> quotaRow list" where
  "codexQuotaRows parseFloat usage =
     (case usage of
        None \<Rightarrow> []
      | Some u \<Rightarrow>
          (let rows = [];
               rows = appendCodexWindowQuotaRows rows ''rate_limit'' ''5h'' ''Weekly'' ''window'' [] (xp_RateLimit u);
               rows = appendCodexWindowQuotaRows rows ''code_review_rate_limit'' ''Code Review 5h''
                        ''Code Review Weekly'' ''code_review'' [] (xp_CodeReviewRateLimit u);
               rows = foldl (\<lambda>rows additional.
                        let metric = (if xa_MeteredFeature additional = [] then xa_LimitName additional
                                      else xa_MeteredFeature additional)
                        in appendCodexWindowQuotaRows rows
                             (''additional_rate_limits.'' @ xa_LimitName additional)
                             (xa_LimitName additional @ '' 5h'') (xa_LimitName additional @ '' Weekly'')
                             ''additional'' metric (xa_RateLimit additional))
                      rows (xp_AdditionalRateLimits u);
               rows = (case xp_Credits u of
                         None \<Rightarrow> rows
                       | Some credits \<Rightarrow> rows @ [codexCreditsRow parseFloat credits]);
               planType = trimSpace (xp_PlanType u)
           in if planType \<noteq> [] then map (\<lambda>row. row\<lparr>qr_PlanType := planType\<rparr>) rows else rows))"

section \<open>Gemini CLI\<close>

definition appendGeminiCLICredits ::
  "quotaRow list \<Rightarrow> string \<Rightarrow> geminiCliUserTier option \<Rightarrow> quotaRow list" where
  "appendGeminiCLICredits rows keyPrefix tier =
     (case tier of
        None \<Rightarrow> rows
      | Some t \<Rightarrow>
          rows @ map (\<lambda>credit.
            (baseRow (keyPrefix @ ''.'' @ gc_CreditType credit) ''Code Assist Credit'' ''credits'')
              \<lparr>qr_Metric := gc_CreditType credit, qr_Remaining := Some (gc_CreditAmount credit)\<rparr>)
            (gt_AvailableCredits t))"

definition geminiCLIQuotaRows ::
  "geminiCliQuotaBucket list option \<Rightarrow> geminiCLICodeAssistPayload option \<Rightarrow> quotaRow list" where
  "geminiCLIQuotaRows quota codeAssist =
     (let rows = [];
          rows = (case quota of
                    None \<Rightarrow> rows
                  | Some buckets \<Rightarrow>
                      rows @ map (\<lambda>bucket.
                        (baseRow (''bucket.'' @ gb_ModelID bucket @ ''.'' @ gb_TokenType bucket)
                           (gb_ModelID bucket) ''model'')
                          \<lparr>qr_Metric := gb_TokenType bucket, qr_Remaining := Some (gb_RemainingAmount bucket),
                           qr_RemainingFraction := Some (gb_RemainingFraction bucket),
                           qr_ResetAt := gb_ResetTime bucket\<rparr>) buckets)
      in case codeAssist of
           None \<Rightarrow> rows
         | Some c \<Rightarrow>
             (let rows = appendGeminiCLICredits rows ''code_assist.current_tier'' (ga_CurrentTier c)
              in appendGeminiCLICredits rows ''code_assist.paid_tier'' (ga_PaidTier c)))"

section \<open>Antigravity\<close>

definition antigravityQuotaRow :: "string \<times> antigravityQuotaModel \<Rightarrow> quotaRow" where
  "antigravityQuotaRow entry =
     (let (key, model) = entry;
          label = (if am_DisplayName model = [] then key else am_DisplayName model);
          row = (baseRow (''model.'' @ key) label ''model'')\<lparr>qr_Metric := key\<rparr>
      in case am_QuotaInfo model of
           None \<Rightarrow> row
         | Some info \<Rightarrow> row\<lparr>qr_Remaining := Some (ai_Remaining info),
                            qr_RemainingFraction := Some (ai_RemainingFraction info),
                            qr_ResetAt := ai_ResetTime info\<rparr>)"

definition antigravityQuotaRows :: "antigravityQuotaPayload option \<Rightarrow> quotaRow list" where
  "antigravityQuotaRows quota =
     (case quota of
        None \<Rightarrow> []
      | Some models \<Rightarrow> map antigravityQuotaRow (sort_key fst models))"

section \<open>Kimi\<close>

definition kimiWeeklyWindowSeconds :: i64 where
  "kimiWeeklyWindowSeconds = 604800"

definition kimiWindowUnitSeconds :: "string \<rightharpoonup> i64" where
  "kimiWindowUnitSeconds = map_of
     [(''second'', 1), (''minute'', 60), (''hour'', 3600), (''day'', 86400), (''week'', 604800)]"

definition kimiUsedPercent :: "rat option \<Rightarrow> rat option \<Rightarrow> rat \<Rightarrow> rat option" where
  "kimiUsedPercent used remaining limit =
     (case used of
        Some u \<Rightarrow> Some (u / limit * 100)
      | None \<Rightarrow> (case remaining of Some r \<Rightarrow> Some ((limit - r) / limit * 100) | None \<Rightarrow> None))"

definition isMeaningfulKimiDetail :: "kimiUsageDetail option \<Rightarrow> bool" where
  "isMeaningfulKimiDetail detail =
     (case detail of
        None \<Rightarrow> False
      | Some d \<Rightarrow> kd_Used d \<noteq> None \<or> kd_Limit d \<noteq> None \<or> kd_Remaining d \<noteq> None \<or> kd_Name d \<noteq> [] \<or>
                  kd_Title d \<noteq> [] \<or> kd_ResetAt d \<noteq> [] \<or> kd_ResetIn d \<noteq> 0 \<or> kd_TTL d \<noteq> 0)"

definition resetAtFromKimiDetail :: "kimiUsageDetail option \<Rightarrow> string" where
  "resetAtFromKimiDetail detail = (case detail of None \<Rightarrow> [] | Some d \<Rightarrow> kd_ResetAt d)"

definition kimiWindow :: "kimiLimitItem \<Rightarrow> quotaWindow option" where
  "kimiWindow limit =
     (let (duration, unit) =
        (case kl_Window limit of
           Some w \<Rightarrow> (kw_Duration w, kw_TimeUnit w)
         | None \<Rightarrow> (kl_Duration limit, kl_TimeUnit limit))
      in if duration = 0 \<and> unit = [] then None
         else Some \<lparr>qw_Duration = Some (of_int (sint duration)), qw_Unit = unit,
                    qw_Seconds =
                      (if 0 <s duration then
                         (case kimiWindowUnitSeconds (toLower (trimSuffix ''s'' unit)) of
                            Some unitSeconds \<Rightarrow> Some (duration * unitSeconds)
                          | None \<Rightarrow> None)
                       else None)\<rparr>)"

definition kimiWindowLabel :: "quotaWindow option \<Rightarrow> string" where
  "kimiWindowLabel window =
     (case window of
        None \<Rightarrow> []
      | Some w \<Rightarrow>
          (case qw_Seconds w of
             None \<Rightarrow> []
           | Some seconds \<Rightarrow>
               if seconds = 18000 then ''5h''
               else if seconds = kimiWeeklyWindowSeconds then ''Weekly'' else []))"

text \<open>The percentage is set when the limit is present and positive and a share can be formed.\<close>

definition kimiPercent :: "rat option \<Rightarrow> rat option \<Rightarrow> rat option \<Rightarrow> rat option" where
  "kimiPercent used remaining limit =
     (case limit of
        Some l \<Rightarrow> if 0 < l then kimiUsedPercent used remaining l else None
      | None \<Rightarrow> None)"

definition kimiDetailQuotaRow :: "string \<Rightarrow> string \<Rightarrow> string \<Rightarrow> kimiUsageDetail \<Rightarrow> quotaRow" where
  "kimiDetailQuotaRow key scope fallbackLabel d =
     (let row = (baseRow key (firstNonEmptyText [kd_Title d, fallbackLabel]) scope)
            \<lparr>qr_Metric := kd_Name d, qr_Used := kd_Used d, qr_Limit := kd_Limit d,
             qr_Remaining := kd_Remaining d, qr_ResetAt := kd_ResetAt d,
             qr_Window := Some \<lparr>qw_Duration = None, qw_Unit = [], qw_Seconds = Some kimiWeeklyWindowSeconds\<rparr>\<rparr>;
          row = row\<lparr>qr_UsedPercent := kimiPercent (kd_Used d) (kd_Remaining d) (kd_Limit d)\<rparr>
      in if kd_ResetIn d \<noteq> 0 then row\<lparr>qr_ResetAfterSeconds := Some (int64OfFloat (kd_ResetIn d))\<rparr> else row)"

definition kimiLimitQuotaRow :: "nat \<Rightarrow> kimiLimitItem \<Rightarrow> quotaRow" where
  "kimiLimitQuotaRow index limit =
     (let keyName = (if kl_Name limit = [] then formatInt (int index) else kl_Name limit);
          window = kimiWindow limit;
          label = firstNonEmptyText [kl_Title limit, kl_Name limit, kimiWindowLabel window, ''Limit''];
          scope = firstNonEmptyText [kl_Scope limit, ''limit''];
          row = (baseRow (''limits.'' @ keyName) label scope)
            \<lparr>qr_Metric := kl_Name limit, qr_Used := kl_Used limit, qr_Limit := kl_Limit limit,
             qr_Remaining := kl_Remaining limit,
             qr_ResetAt := firstNonEmptyText [kl_ResetAt limit, resetAtFromKimiDetail (kl_Detail limit)],
             qr_Window := window\<rparr>;
          row = row\<lparr>qr_UsedPercent := kimiPercent (kl_Used limit) (kl_Remaining limit) (kl_Limit limit)\<rparr>
      in if kl_ResetIn limit \<noteq> 0 then row\<lparr>qr_ResetAfterSeconds := Some (int64OfFloat (kl_ResetIn limit))\<rparr>
         else (case kl_Detail limit of
                 Some d \<Rightarrow> if kd_ResetIn d \<noteq> 0
                           then row\<lparr>qr_ResetAfterSeconds := Some (int64OfFloat (kd_ResetIn d))\<rparr> else row
               | None \<Rightarrow> row))"

definition kimiQuotaRows :: "kimiUsagePayload option \<Rightarrow> quotaRow list" where
  "kimiQuotaRows usage =
     (case usage of
        None \<Rightarrow> []
      | Some u \<Rightarrow>
          (let rows = (if isMeaningfulKimiDetail (kp_Usage u)
                       then [kimiDetailQuotaRow ''usage'' ''summary'' ''Weekly'' (the (kp_Usage u))] else [])
           in rows @ map (\<lambda>(index, limit). kimiLimitQuotaRow index limit)
                (zip [0..<length (kp_Limits u)] (kp_Limits u))))"

section \<open>All providers\<close>

text \<open>\<open>NormalizeQuotaRows\<close>: a result that is no rows provider gives no rows.\<close>

definition normalizeQuotaRows :: "(string \<Rightarrow> rat option) \<Rightarrow> quotaResult option \<Rightarrow> quotaRow list" where
  "normalizeQuotaRows parseFloat result =
     (case result of
        None \<Rightarrow> []
      | Some (AntigravityResult quota) \<Rightarrow> antigravityQuotaRows quota
      | Some (CodexResult usage) \<Rightarrow> codexQuotaRows parseFloat usage
      | Some (GeminiCLIResult quota codeAssist) \<Rightarrow> geminiCLIQuotaRows quota codeAssist
      | Some (ClaudeResult usage) \<Rightarrow> claudeQuotaRows usage
      | Some (KimiResult usage) \<Rightarrow> kimiQuotaRows usage)"

end
