(* ===== verification/QuotaPayloads.thy ===== *)
theory QuotaPayloads
  imports QuotaRows GoNet
begin

text \<open>
  The parsers of the provider responses (\<open>quota/payloads.go\<close>) and the providers that call them
  (\<open>quota/claude.go\<close>, \<open>codex.go\<close>, \<open>gemini_cli.go\<close>, \<open>antigravity.go\<close>, \<open>kimi.go\<close>). The management API
  call is an argument: it gives a request a response, none, or an error.
\<close>

section \<open>Responses\<close>

record apiResponse =
  ar_StatusCode :: int
  ar_BodyText :: string
  ar_Body :: "json option"

text \<open>A parsed string member of an error body.\<close>

definition targetErrorMessageFromJson :: "json \<Rightarrow> jsonEnv \<Rightarrow> string \<Rightarrow> string" where
  "targetErrorMessageFromJson j env raw =
     (case j of
        JStr s \<Rightarrow> trimSpace s
      | JNull \<Rightarrow> []
      | other \<Rightarrow>
          (case rawObject env j of
             None \<Rightarrow> trimSpace raw
           | Some object \<Rightarrow>
               (let message = stringField object [''message'', ''error_description'', ''detail''];
                    errorText = stringField object [''error'']
                in if message \<noteq> [] then message
                   else if errorText \<noteq> [] then errorText
                   else (case objectField env object [''error''] of
                           None \<Rightarrow> trimSpace raw
                         | Some nested \<Rightarrow>
                             (let message = stringField nested [''message'', ''detail'', ''error_description'']
                              in if message \<noteq> [] then message else trimSpace raw)))))"

text \<open>
  \<open>targetErrorMessage\<close> tries the structured body, whose text is an argument beside its value, then
  the body text.
\<close>

definition targetErrorMessageFromText :: "jsonEnv \<Rightarrow> string \<Rightarrow> string" where
  "targetErrorMessageFromText env text =
     (if text = [] then []
      else (case je_parse env text of
              None \<Rightarrow> trimSpace text
            | Some j \<Rightarrow> targetErrorMessageFromJson j env text))"

definition targetErrorMessage :: "jsonEnv \<Rightarrow> (json \<Rightarrow> string) \<Rightarrow> apiResponse \<Rightarrow> string" where
  "targetErrorMessage env jsonText response =
     (let fromBody = (case ar_Body response of
                        None \<Rightarrow> []
                      | Some j \<Rightarrow> targetErrorMessageFromJson j env (jsonText j))
      in if fromBody \<noteq> [] then fromBody
         else (let fromText = targetErrorMessageFromText env (trimSpace (ar_BodyText response))
               in if fromText \<noteq> [] then fromText else trimSpace (ar_BodyText response)))"

definition targetHTTPError :: "jsonEnv \<Rightarrow> (json \<Rightarrow> string) \<Rightarrow> apiResponse \<Rightarrow> goErr" where
  "targetHTTPError env jsonText response =
     PlainError (''HTTP '' @ formatInt (ar_StatusCode response) @ '': '' @ targetErrorMessage env jsonText response)"

definition parseResponseObject ::
  "jsonEnv \<Rightarrow> (json \<Rightarrow> string) \<Rightarrow> apiResponse option \<Rightarrow> goErr + jsonObject" where
  "parseResponseObject env jsonText response =
     (case response of
        None \<Rightarrow> Inl (PlainError ''missing quota response'')
      | Some r \<Rightarrow>
          if ar_StatusCode r < 200 \<or> 300 \<le> ar_StatusCode r then Inl (targetHTTPError env jsonText r)
          else (case Option.bind (ar_Body r) (rawObject env) of
                  Some object \<Rightarrow> Inr object
                | None \<Rightarrow>
                    (let trimmed = trimSpace (ar_BodyText r) in
                     if trimmed = [] then Inl (PlainError ''empty quota response body'')
                     else (case rawObjectText (length trimmed) env trimmed of
                             Some object \<Rightarrow> Inr object
                           | None \<Rightarrow> Inl (PlainError ''parse quota response body'')))))"

section \<open>Antigravity\<close>

definition parseAntigravityModel :: "jsonEnv \<Rightarrow> jsonObject \<Rightarrow> antigravityQuotaModel" where
  "parseAntigravityModel env modelObject =
     \<lparr>am_DisplayName = stringField modelObject [''displayName'', ''display_name''],
      am_QuotaInfo =
        (case objectField env modelObject [''quotaInfo'', ''quota_info''] of
           None \<Rightarrow> None
         | Some info \<Rightarrow> Some
             \<lparr>ai_RemainingFraction = floatField env info [''remainingFraction'', ''remaining_fraction''],
              ai_Remaining = floatField env info [''remaining''],
              ai_ResetTime = stringField info [''resetTime'', ''reset_time'']\<rparr>)\<rparr>"

text \<open>The members of a map once each, with the last value given for a key.\<close>

definition members :: "jsonObject \<Rightarrow> (string \<times> json) list" where
  "members object = map (\<lambda>key. (key, the (jsonLookup object key))) (remdups (map fst object))"

definition parseAntigravityQuotaPayload ::
  "jsonEnv \<Rightarrow> (json \<Rightarrow> string) \<Rightarrow> apiResponse option \<Rightarrow> goErr + antigravityQuotaPayload" where
  "parseAntigravityQuotaPayload env jsonText response =
     (case parseResponseObject env jsonText response of
        Inl err \<Rightarrow> Inl err
      | Inr object \<Rightarrow>
          (let object = (if jsonLookup object ''models'' = None then
                           (case objectField env object [''body''] of Some nested \<Rightarrow> nested | None \<Rightarrow> object)
                         else object);
               modelsObject = (case objectField env object [''models''] of Some o' \<Rightarrow> o' | None \<Rightarrow> [])
           in Inr (concat (map (\<lambda>(key, raw).
                case rawObject env raw of
                  None \<Rightarrow> []
                | Some modelObject \<Rightarrow> [(key, parseAntigravityModel env modelObject)]) (members modelsObject)))))"

section \<open>Codex\<close>

text \<open>
  \<open>parseCreditBalance\<close>: digits with at most one inner point, at most 64 bytes.
\<close>

fun creditChars :: "bool \<Rightarrow> bool \<Rightarrow> string \<Rightarrow> bool" where
  "creditChars decimal first [] = True"
| "creditChars decimal first (c # cs) =
     (if c = CHR ''.'' \<and> \<not> decimal \<and> \<not> first \<and> cs \<noteq> [] then creditChars True False cs
      else if char_digit c = None then False
      else creditChars decimal False cs)"

definition parseCreditBalance :: "string \<Rightarrow> string option" where
  "parseCreditBalance text =
     (let text = trimSpace text in
      if text = [] \<or> 64 < length text then None
      else if creditChars False True text then Some text else None)"

text \<open>
  The balance member as text: the string it decodes to (none for \<open>null\<close>), else its source text, which
  for a number is the literal and for every other value starts with a character no balance has.
\<close>

definition balanceText :: "json \<Rightarrow> string" where
  "balanceText raw = (case raw of JStr s \<Rightarrow> s | JNum literal \<Rightarrow> literal | other \<Rightarrow> [])"

definition parseCodexCredits :: "jsonObject option \<Rightarrow> codexCredits option" where
  "parseCodexCredits source =
     (let object = (case source of Some object \<Rightarrow> object | None \<Rightarrow> []);
          balance = (case jsonLookup object ''balance'' of
                       None \<Rightarrow> []
                     | Some raw \<Rightarrow> (case parseCreditBalance (balanceText raw) of Some b \<Rightarrow> b | None \<Rightarrow> []));
          credits = \<lparr>xc_Balance = balance,
                     xc_HasCredits = boolPtrField object [''has_credits'', ''hasCredits''],
                     xc_Unlimited = boolPtrField object [''unlimited''],
                     xc_OverageLimitReached =
                       boolPtrField object [''overage_limit_reached'', ''overageLimitReached'']\<rparr>
      in if xc_Balance credits = [] \<and> xc_HasCredits credits = None \<and> xc_Unlimited credits = None \<and>
            xc_OverageLimitReached credits = None then None
         else Some credits)"

definition parseCodexUsageWindow :: "jsonEnv \<Rightarrow> jsonObject option \<Rightarrow> codexUsageWindow option" where
  "parseCodexUsageWindow env source =
     (case source of
        None \<Rightarrow> None
      | Some object \<Rightarrow> Some
          \<lparr>xw_UsedPercent = floatPtrField env object [''used_percent'', ''usedPercent''],
           xw_LimitWindowSeconds = intField env object [''limit_window_seconds'', ''limitWindowSeconds''],
           xw_ResetAfterSeconds = intPtrField env object [''reset_after_seconds'', ''resetAfterSeconds''],
           xw_ResetAt = intField env object [''reset_at'', ''resetAt'']\<rparr>)"

definition parseCodexRateLimitInfo :: "jsonEnv \<Rightarrow> jsonObject option \<Rightarrow> codexRateLimitInfo option" where
  "parseCodexRateLimitInfo env source =
     (case source of
        None \<Rightarrow> None
      | Some object \<Rightarrow> Some
          \<lparr>xi_Allowed = boolPtrField object [''allowed''],
           xi_LimitReached = boolPtrField object [''limit_reached'', ''limitReached''],
           xi_PrimaryWindow = parseCodexUsageWindow env (objectField env object [''primary_window'', ''primaryWindow'']),
           xi_SecondaryWindow =
             parseCodexUsageWindow env (objectField env object [''secondary_window'', ''secondaryWindow''])\<rparr>)"

text \<open>The objects among the elements of an array.\<close>

definition objectsOf :: "jsonEnv \<Rightarrow> json list \<Rightarrow> jsonObject list" where
  "objectsOf env raws = List.map_filter (rawObject env) raws"

definition parseCodexUsagePayload ::
  "jsonEnv \<Rightarrow> (json \<Rightarrow> string) \<Rightarrow> apiResponse option \<Rightarrow> goErr + codexUsagePayload" where
  "parseCodexUsagePayload env jsonText response =
     (case parseResponseObject env jsonText response of
        Inl err \<Rightarrow> Inl err
      | Inr object \<Rightarrow> Inr
          \<lparr>xp_PlanType = stringField object [''plan_type'', ''planType''],
           xp_RateLimit = parseCodexRateLimitInfo env (objectField env object [''rate_limit'', ''rateLimit'']),
           xp_CodeReviewRateLimit =
             parseCodexRateLimitInfo env (objectField env object [''code_review_rate_limit'', ''codeReviewRateLimit'']),
           xp_AdditionalRateLimits =
             map (\<lambda>limitObject.
                 \<lparr>xa_LimitName = stringField limitObject [''limit_name'', ''limitName''],
                  xa_MeteredFeature = stringField limitObject [''metered_feature'', ''meteredFeature''],
                  xa_RateLimit =
                    parseCodexRateLimitInfo env (objectField env limitObject [''rate_limit'', ''rateLimit''])\<rparr>)
               (objectsOf env (arrayField object [''additional_rate_limits'', ''additionalRateLimits''])),
           xp_Credits = parseCodexCredits (objectField env object [''credits''])\<rparr>)"

section \<open>Gemini CLI\<close>

definition parseGeminiCliQuotaPayload ::
  "jsonEnv \<Rightarrow> (json \<Rightarrow> string) \<Rightarrow> apiResponse option \<Rightarrow> goErr + geminiCliQuotaBucket list" where
  "parseGeminiCliQuotaPayload env jsonText response =
     (case parseResponseObject env jsonText response of
        Inl err \<Rightarrow> Inl err
      | Inr object \<Rightarrow> Inr (map (\<lambda>bucketObject.
          \<lparr>gb_ModelID = stringField bucketObject [''modelId'', ''model_id''],
           gb_TokenType = stringField bucketObject [''tokenType'', ''token_type''],
           gb_RemainingFraction = floatField env bucketObject [''remainingFraction'', ''remaining_fraction''],
           gb_RemainingAmount = floatField env bucketObject [''remainingAmount'', ''remaining_amount''],
           gb_ResetTime = stringField bucketObject [''resetTime'', ''reset_time'']\<rparr>)
          (objectsOf env (arrayField object [''buckets'']))))"

definition parseGeminiCliUserTier :: "jsonEnv \<Rightarrow> jsonObject option \<Rightarrow> geminiCliUserTier option" where
  "parseGeminiCliUserTier env source =
     (case source of
        None \<Rightarrow> None
      | Some object \<Rightarrow> Some
          \<lparr>gt_ID = stringField object [''id''], gt_Name = stringField object [''name''],
           gt_Description = stringField object [''description''],
           gt_AvailableCredits = map (\<lambda>creditObject.
             \<lparr>gc_CreditType = stringField creditObject [''creditType'', ''credit_type''],
              gc_CreditAmount = floatField env creditObject [''creditAmount'', ''credit_amount'']\<rparr>)
             (objectsOf env (arrayField object [''availableCredits'', ''available_credits'']))\<rparr>)"

definition parseGeminiCliCodeAssistPayload ::
  "jsonEnv \<Rightarrow> (json \<Rightarrow> string) \<Rightarrow> apiResponse option \<Rightarrow> goErr + geminiCLICodeAssistPayload" where
  "parseGeminiCliCodeAssistPayload env jsonText response =
     (case parseResponseObject env jsonText response of
        Inl err \<Rightarrow> Inl err
      | Inr object \<Rightarrow> Inr
          \<lparr>ga_CurrentTier = parseGeminiCliUserTier env (objectField env object [''currentTier'', ''current_tier'']),
           ga_PaidTier = parseGeminiCliUserTier env (objectField env object [''paidTier'', ''paid_tier''])\<rparr>)"

section \<open>Claude\<close>

definition parseClaudeUsageWindow :: "jsonEnv \<Rightarrow> jsonObject option \<Rightarrow> claudeUsageWindow option" where
  "parseClaudeUsageWindow env source =
     (case source of
        None \<Rightarrow> None
      | Some object \<Rightarrow> Some \<lparr>dw_Utilization = floatField env object [''utilization''],
                             dw_ResetsAt = stringField object [''resets_at'', ''resetsAt'']\<rparr>)"

definition parseClaudeExtraUsage :: "jsonEnv \<Rightarrow> jsonObject option \<Rightarrow> claudeExtraUsage option" where
  "parseClaudeExtraUsage env source =
     (case source of
        None \<Rightarrow> None
      | Some object \<Rightarrow> Some
          \<lparr>de_IsEnabled = boolField object [''is_enabled'', ''isEnabled''],
           de_MonthlyLimit = floatField env object [''monthly_limit'', ''monthlyLimit''],
           de_UsedCredits = floatField env object [''used_credits'', ''usedCredits''],
           de_Utilization = floatPtrField env object [''utilization'']\<rparr>)"

definition parseClaudeUsagePayload ::
  "jsonEnv \<Rightarrow> (json \<Rightarrow> string) \<Rightarrow> apiResponse option \<Rightarrow> goErr + claudeUsagePayload" where
  "parseClaudeUsagePayload env jsonText response =
     (case parseResponseObject env jsonText response of
        Inl err \<Rightarrow> Inl err
      | Inr object \<Rightarrow>
          (let window = (\<lambda>keys. parseClaudeUsageWindow env (objectField env object keys)) in Inr
            \<lparr>dp_FiveHour = window [''five_hour'', ''fiveHour''],
             dp_SevenDay = window [''seven_day'', ''sevenDay''],
             dp_SevenDayOAuthApps = window [''seven_day_oauth_apps'', ''sevenDayOauthApps''],
             dp_SevenDayOpus = window [''seven_day_opus'', ''sevenDayOpus''],
             dp_SevenDaySonnet = window [''seven_day_sonnet'', ''sevenDaySonnet''],
             dp_SevenDayCowork = window [''seven_day_cowork'', ''sevenDayCowork''],
             dp_IguanaNecktie = window [''iguana_necktie'', ''iguanaNecktie''],
             dp_ExtraUsage =
               parseClaudeExtraUsage env (objectField env object [''extra_usage'', ''extraUsage''])\<rparr>))"

record claudeProfileAccount =
  ca_UUID :: string
  ca_FullName :: string
  ca_DisplayName :: string
  ca_Email :: string
  ca_HasClaudeMax :: bool
  ca_HasClaudePro :: bool

record claudeProfileOrganization =
  co_UUID :: string
  co_Name :: string
  co_OrganizationType :: string
  co_BillingType :: string
  co_RateLimitTier :: string
  co_HasExtraUsageEnabled :: bool
  co_SubscriptionStatus :: string

record claudeProfileResponse =
  cp_Account :: "claudeProfileAccount option"
  cp_Organization :: "claudeProfileOrganization option"

definition parseClaudeProfileAccount :: "jsonObject option \<Rightarrow> claudeProfileAccount option" where
  "parseClaudeProfileAccount source =
     (case source of
        None \<Rightarrow> None
      | Some object \<Rightarrow> Some
          \<lparr>ca_UUID = stringField object [''uuid''],
           ca_FullName = stringField object [''full_name'', ''fullName''],
           ca_DisplayName = stringField object [''display_name'', ''displayName''],
           ca_Email = stringField object [''email''],
           ca_HasClaudeMax = boolField object [''has_claude_max'', ''hasClaudeMax''],
           ca_HasClaudePro = boolField object [''has_claude_pro'', ''hasClaudePro'']\<rparr>)"

definition parseClaudeProfileOrganization :: "jsonObject option \<Rightarrow> claudeProfileOrganization option" where
  "parseClaudeProfileOrganization source =
     (case source of
        None \<Rightarrow> None
      | Some object \<Rightarrow> Some
          \<lparr>co_UUID = stringField object [''uuid''],
           co_Name = stringField object [''name''],
           co_OrganizationType = stringField object [''organization_type'', ''organizationType''],
           co_BillingType = stringField object [''billing_type'', ''billingType''],
           co_RateLimitTier = stringField object [''rate_limit_tier'', ''rateLimitTier''],
           co_HasExtraUsageEnabled = boolField object [''has_extra_usage_enabled'', ''hasExtraUsageEnabled''],
           co_SubscriptionStatus = stringField object [''subscription_status'', ''subscriptionStatus'']\<rparr>)"

definition parseClaudeProfilePayload ::
  "jsonEnv \<Rightarrow> (json \<Rightarrow> string) \<Rightarrow> apiResponse option \<Rightarrow> goErr + claudeProfileResponse" where
  "parseClaudeProfilePayload env jsonText response =
     (case parseResponseObject env jsonText response of
        Inl err \<Rightarrow> Inl err
      | Inr object \<Rightarrow> Inr
          \<lparr>cp_Account = parseClaudeProfileAccount (objectField env object [''account'']),
           cp_Organization = parseClaudeProfileOrganization (objectField env object [''organization''])\<rparr>)"

section \<open>Kimi\<close>

definition normalizeKimiTimeUnit :: "string \<Rightarrow> string" where
  "normalizeKimiTimeUnit unit =
     (if hasPrefix unit ''TIME_UNIT_'' then toLower (drop (length ''TIME_UNIT_'') unit) else unit)"

definition parseKimiUsageDetail :: "jsonEnv \<Rightarrow> jsonObject option \<Rightarrow> kimiUsageDetail option" where
  "parseKimiUsageDetail env source =
     (case source of
        None \<Rightarrow> None
      | Some object \<Rightarrow> Some
          \<lparr>kd_Used = floatPtrField env object [''used''],
           kd_Limit = floatPtrField env object [''limit''],
           kd_Remaining = floatPtrField env object [''remaining''],
           kd_Name = stringField object [''name''],
           kd_Title = stringField object [''title''],
           kd_ResetAt = stringField object [''resetAt'', ''reset_at'', ''resetTime'', ''reset_time''],
           kd_ResetIn = floatField env object [''resetIn'', ''reset_in''],
           kd_TTL = floatField env object [''ttl'']\<rparr>)"

definition parseKimiLimitWindow :: "jsonEnv \<Rightarrow> jsonObject option \<Rightarrow> kimiLimitWindow option" where
  "parseKimiLimitWindow env source =
     (case source of
        None \<Rightarrow> None
      | Some object \<Rightarrow> Some
          \<lparr>kw_Duration = intField env object [''duration''],
           kw_TimeUnit = normalizeKimiTimeUnit (stringField object [''timeUnit'', ''time_unit''])\<rparr>)"

text \<open>An item whose own numbers are missing takes those of its detail.\<close>

definition kimiFromDetail :: "kimiUsageDetail option \<Rightarrow> kimiLimitItem \<Rightarrow> kimiLimitItem" where
  "kimiFromDetail detail limit =
     (case detail of
        None \<Rightarrow> limit
      | Some d \<Rightarrow>
          (let limit = (if kl_Used limit = None then limit\<lparr>kl_Used := kd_Used d\<rparr> else limit);
               limit = (if kl_Limit limit = None then limit\<lparr>kl_Limit := kd_Limit d\<rparr> else limit);
               limit = (if kl_Remaining limit = None then limit\<lparr>kl_Remaining := kd_Remaining d\<rparr> else limit);
               limit = (if kl_ResetAt limit = [] then limit\<lparr>kl_ResetAt := kd_ResetAt d\<rparr> else limit);
               limit = (if kl_ResetIn limit = 0 then limit\<lparr>kl_ResetIn := kd_ResetIn d\<rparr> else limit);
               limit = (if kl_TTL limit = 0 then limit\<lparr>kl_TTL := kd_TTL d\<rparr> else limit)
           in limit))"

definition parseKimiLimitItem :: "jsonEnv \<Rightarrow> jsonObject \<Rightarrow> kimiLimitItem" where
  "parseKimiLimitItem env object =
     (let detail = parseKimiUsageDetail env (objectField env object [''detail''])
      in kimiFromDetail detail
        \<lparr>kl_Name = stringField object [''name''],
         kl_Title = stringField object [''title''],
         kl_Scope = stringField object [''scope''],
         kl_Detail = detail,
         kl_Window = parseKimiLimitWindow env (objectField env object [''window'']),
         kl_Used = floatPtrField env object [''used''],
         kl_Limit = floatPtrField env object [''limit''],
         kl_Remaining = floatPtrField env object [''remaining''],
         kl_Duration = intField env object [''duration''],
         kl_TimeUnit = normalizeKimiTimeUnit (stringField object [''timeUnit'', ''time_unit'']),
         kl_ResetAt = stringField object [''resetAt'', ''reset_at'', ''resetTime'', ''reset_time''],
         kl_ResetIn = floatField env object [''resetIn'', ''reset_in''],
         kl_TTL = floatField env object [''ttl'']\<rparr>)"

definition parseKimiUsagePayload ::
  "jsonEnv \<Rightarrow> (json \<Rightarrow> string) \<Rightarrow> apiResponse option \<Rightarrow> goErr + kimiUsagePayload" where
  "parseKimiUsagePayload env jsonText response =
     (case parseResponseObject env jsonText response of
        Inl err \<Rightarrow> Inl err
      | Inr object \<Rightarrow> Inr
          \<lparr>kp_Usage = parseKimiUsageDetail env (objectField env object [''usage'']),
           kp_Limits = map (parseKimiLimitItem env) (objectsOf env (arrayField object [''limits'']))\<rparr>)"

end
