(* ===== verification/QuotaProviders.thy ===== *)
theory QuotaProviders
  imports QuotaPayloads
begin

text \<open>
  The quota providers (\<open>quota/claude.go\<close>, \<open>codex.go\<close>, \<open>gemini_cli.go\<close>, \<open>antigravity.go\<close>, \<open>kimi.go\<close>),
  their configuration (\<open>config.go\<close>) and registry (\<open>registry.go\<close>). The management API is an
  argument: it answers a request with a response, none, or an error.
\<close>

section \<open>Configuration\<close>

record apiCallConfig =
  ac_Method :: string
  ac_URL :: string
  ac_Headers :: "string \<rightharpoonup> string"

record providerConfigs =
  pc_Antigravity :: "apiCallConfig list"
  pc_Codex :: apiCallConfig
  pc_GeminiCLI :: apiCallConfig
  pc_GeminiCLICodeAssist :: apiCallConfig
  pc_ClaudeUsage :: apiCallConfig
  pc_ClaudeProfile :: apiCallConfig
  pc_Kimi :: apiCallConfig

definition tokenHeaders :: "(string \<times> string) list \<Rightarrow> string \<rightharpoonup> string" where
  "tokenHeaders extra = map_of (extra @ [(''Authorization'', ''Bearer $TOKEN$'')])"

definition jsonHeaders :: "(string \<times> string) list \<Rightarrow> string \<rightharpoonup> string" where
  "jsonHeaders extra = tokenHeaders (extra @ [(''Content-Type'', ''application/json'')])"

definition antigravityConfig :: "string \<Rightarrow> apiCallConfig" where
  "antigravityConfig url = \<lparr>ac_Method = ''POST'', ac_URL = url,
     ac_Headers = jsonHeaders [(''User-Agent'', ''antigravity/1.11.5 windows/amd64'')]\<rparr>"

definition defaultProviderConfigs :: providerConfigs where
  "defaultProviderConfigs =
     \<lparr>pc_Antigravity =
        [antigravityConfig ''https://daily-cloudcode-pa.googleapis.com/v1internal:fetchAvailableModels'',
         antigravityConfig ''https://daily-cloudcode-pa.sandbox.googleapis.com/v1internal:fetchAvailableModels'',
         antigravityConfig ''https://cloudcode-pa.googleapis.com/v1internal:fetchAvailableModels''],
      pc_Codex = \<lparr>ac_Method = ''GET'', ac_URL = ''https://chatgpt.com/backend-api/wham/usage'',
        ac_Headers = jsonHeaders
          [(''User-Agent'', ''codex_cli_rs/0.76.0 (Debian 13.0.0; x86_64) WindowsTerminal'')]\<rparr>,
      pc_GeminiCLI = \<lparr>ac_Method = ''POST'',
        ac_URL = ''https://cloudcode-pa.googleapis.com/v1internal:retrieveUserQuota'',
        ac_Headers = jsonHeaders []\<rparr>,
      pc_GeminiCLICodeAssist = \<lparr>ac_Method = ''POST'',
        ac_URL = ''https://cloudcode-pa.googleapis.com/v1internal:loadCodeAssist'',
        ac_Headers = jsonHeaders []\<rparr>,
      pc_ClaudeUsage = \<lparr>ac_Method = ''GET'', ac_URL = ''https://api.anthropic.com/api/oauth/usage'',
        ac_Headers = jsonHeaders [(''anthropic-beta'', ''oauth-2025-04-20'')]\<rparr>,
      pc_ClaudeProfile = \<lparr>ac_Method = ''GET'', ac_URL = ''https://api.anthropic.com/api/oauth/profile'',
        ac_Headers = jsonHeaders [(''anthropic-beta'', ''oauth-2025-04-20'')]\<rparr>,
      pc_Kimi = \<lparr>ac_Method = ''GET'', ac_URL = ''https://api.kimi.com/coding/v1/usages'',
        ac_Headers = tokenHeaders []\<rparr>\<rparr>"

definition apiCallTemplates :: "providerConfigs \<Rightarrow> apiCallConfig list" where
  "apiCallTemplates c = pc_Antigravity c @ [pc_Codex c, pc_GeminiCLI c, pc_GeminiCLICodeAssist c,
     pc_ClaudeUsage c, pc_ClaudeProfile c, pc_Kimi c]"

section \<open>Calls\<close>

text \<open>The data of a request: none, a project, or the Code Assist request of a project.\<close>

datatype apiData = NoData | ProjectData string | CodeAssistData string

record apiCallRequest =
  aq_AuthIndex :: string
  aq_Method :: string
  aq_URL :: string
  aq_Header :: "string \<rightharpoonup> string"
  aq_Data :: apiData

text \<open>The columns of a usage identity the quota service reads.\<close>

record quotaIdentity =
  qi_ID :: nat
  qi_Identity :: string
  qi_Provider :: string
  qi_Type :: string
  qi_ProjectID :: "string option"
  qi_AccountID :: "string option"

record quotaEnv =
  qe_json :: jsonEnv
  qe_text :: "json \<Rightarrow> string"
  qe_call :: "apiCallRequest \<Rightarrow> goErr + apiResponse option"

definition apiRequest :: "quotaIdentity \<Rightarrow> apiCallConfig \<Rightarrow> apiData \<Rightarrow> apiCallRequest" where
  "apiRequest identity config data =
     \<lparr>aq_AuthIndex = qi_Identity identity, aq_Method = ac_Method config, aq_URL = ac_URL config,
      aq_Header = ac_Headers config, aq_Data = data\<rparr>"

definition mergeHeaders :: "(string \<rightharpoonup> string) \<Rightarrow> (string \<rightharpoonup> string) \<Rightarrow> string \<rightharpoonup> string" where
  "mergeHeaders base overrides = base ++ overrides"

text \<open>One call whose response a parser reads.\<close>

definition callAndParse ::
  "quotaEnv \<Rightarrow> apiCallRequest \<Rightarrow> (jsonEnv \<Rightarrow> (json \<Rightarrow> string) \<Rightarrow> apiResponse option \<Rightarrow> goErr + 'a) \<Rightarrow> goErr + 'a"
  where
  "callAndParse env request parse =
     (case qe_call env request of
        Inl err \<Rightarrow> Inl err
      | Inr response \<Rightarrow> parse (qe_json env) (qe_text env) response)"

definition claudeCheck :: "apiCallConfig \<Rightarrow> apiCallConfig \<Rightarrow> quotaEnv \<Rightarrow> quotaIdentity \<Rightarrow> goErr + quotaResult" where
  "claudeCheck usageConfig profileConfig env identity =
     (case callAndParse env (apiRequest identity usageConfig NoData) parseClaudeUsagePayload of
        Inl err \<Rightarrow> Inl err
      | Inr usage \<Rightarrow>
          (case callAndParse env (apiRequest identity profileConfig NoData) parseClaudeProfilePayload of
             Inl err \<Rightarrow> Inl err
           | Inr profile \<Rightarrow> Inr (ClaudeResult (Some usage))))"

definition optionalAccountID :: "string option \<Rightarrow> string" where
  "optionalAccountID value = (case value of None \<Rightarrow> [] | Some v \<Rightarrow> trimSpace v)"

definition codexCheck :: "apiCallConfig \<Rightarrow> quotaEnv \<Rightarrow> quotaIdentity \<Rightarrow> goErr + quotaResult" where
  "codexCheck config env identity =
     (let accountID = optionalAccountID (qi_AccountID identity);
          headers = (if accountID \<noteq> [] then mergeHeaders (ac_Headers config) [''Chatgpt-Account-Id'' \<mapsto> accountID]
                     else ac_Headers config);
          request = (apiRequest identity config NoData)\<lparr>aq_Header := headers\<rparr>
      in case callAndParse env request parseCodexUsagePayload of
           Inl err \<Rightarrow> Inl err
         | Inr usage \<Rightarrow> Inr (CodexResult (Some usage)))"

text \<open>A missing project identifier stops the two providers that need one before any request.\<close>

definition providerInput :: "string \<Rightarrow> goErr" where
  "providerInput message = WrapError (errText ErrProviderInput @ '': '' @ message) [ErrProviderInput]"

definition checkCodeAssist ::
  "apiCallConfig \<Rightarrow> quotaEnv \<Rightarrow> quotaIdentity \<Rightarrow> string \<Rightarrow> geminiCLICodeAssistPayload option" where
  "checkCodeAssist config env identity projectID =
     (case qe_call env (apiRequest identity config (CodeAssistData projectID)) of
        Inl err \<Rightarrow> None
      | Inr None \<Rightarrow> None
      | Inr (Some response) \<Rightarrow>
          if ar_StatusCode response < 200 \<or> 300 \<le> ar_StatusCode response then None
          else (case parseGeminiCliCodeAssistPayload (qe_json env) (qe_text env) (Some response) of
                  Inl err \<Rightarrow> None
                | Inr payload \<Rightarrow> Some payload))"

definition geminiCLICheck ::
  "apiCallConfig \<Rightarrow> apiCallConfig \<Rightarrow> quotaEnv \<Rightarrow> quotaIdentity \<Rightarrow> goErr + quotaResult" where
  "geminiCLICheck config codeAssistConfig env identity =
     (let projectID = (case qi_ProjectID identity of None \<Rightarrow> [] | Some p \<Rightarrow> p) in
      if projectID = [] then Inl (providerInput ''missing project_id parameter'')
      else (case callAndParse env (apiRequest identity config (ProjectData projectID)) parseGeminiCliQuotaPayload of
              Inl err \<Rightarrow> Inl err
            | Inr quota \<Rightarrow>
                Inr (GeminiCLIResult (Some quota) (checkCodeAssist codeAssistConfig env identity projectID))))"

text \<open>Antigravity tries its endpoints in order until one gives a quota; the last error remains.\<close>

fun antigravityEndpoints ::
  "apiCallConfig list \<Rightarrow> quotaEnv \<Rightarrow> quotaIdentity \<Rightarrow> string \<Rightarrow> goErr \<Rightarrow> goErr + quotaResult" where
  "antigravityEndpoints [] env identity projectID lastErr = Inl lastErr"
| "antigravityEndpoints (config # configs) env identity projectID lastErr =
     (case callAndParse env (apiRequest identity config (ProjectData projectID)) parseAntigravityQuotaPayload of
        Inl err \<Rightarrow> antigravityEndpoints configs env identity projectID err
      | Inr quota \<Rightarrow> Inr (AntigravityResult (Some quota)))"

definition antigravityCheck :: "apiCallConfig list \<Rightarrow> quotaEnv \<Rightarrow> quotaIdentity \<Rightarrow> goErr + quotaResult" where
  "antigravityCheck configs env identity =
     (let projectID = (case qi_ProjectID identity of None \<Rightarrow> [] | Some p \<Rightarrow> p) in
      if projectID = [] then Inl (providerInput ''missing project_id parameter'')
      else if length configs = 0 then Inl (providerInput ''antigravity config is required'')
      else antigravityEndpoints configs env identity projectID (PlainError []))"

definition kimiCheck :: "apiCallConfig \<Rightarrow> quotaEnv \<Rightarrow> quotaIdentity \<Rightarrow> goErr + quotaResult" where
  "kimiCheck config env identity =
     (case callAndParse env (apiRequest identity config NoData) parseKimiUsagePayload of
        Inl err \<Rightarrow> Inl err
      | Inr usage \<Rightarrow> Inr (KimiResult (Some usage)))"

section \<open>Registry\<close>

type_synonym providerHandler = "quotaEnv \<Rightarrow> quotaIdentity \<Rightarrow> goErr + quotaResult"
type_synonym providerRegistry = "string \<rightharpoonup> providerHandler"

definition normalizeIdentityType :: "string \<Rightarrow> string" where
  "normalizeIdentityType identityType = toLower (trimSpace identityType)"

text \<open>A registry of handlers given as a list with distinct names, none of them nil.\<close>

fun newProviderRegistry :: "(string \<times> providerHandler) list \<Rightarrow> providerRegistry" where
  "newProviderRegistry [] = Map.empty"
| "newProviderRegistry ((identityType, handler) # handlers) =
     (let identityType = normalizeIdentityType identityType in
      if identityType = [] then newProviderRegistry handlers
      else (newProviderRegistry handlers)(identityType \<mapsto> handler))"

definition newDefaultProviderRegistry :: "providerConfigs \<Rightarrow> providerRegistry" where
  "newDefaultProviderRegistry c = newProviderRegistry
     [(''antigravity'', antigravityCheck (pc_Antigravity c)),
      (''codex'', codexCheck (pc_Codex c)),
      (''gemini-cli'', geminiCLICheck (pc_GeminiCLI c) (pc_GeminiCLICodeAssist c)),
      (''claude'', claudeCheck (pc_ClaudeUsage c) (pc_ClaudeProfile c)),
      (''kimi'', kimiCheck (pc_Kimi c))]"

definition registryProvider :: "providerRegistry \<Rightarrow> string \<Rightarrow> providerHandler option" where
  "registryProvider r identityType = r (normalizeIdentityType identityType)"

section \<open>Lemmas\<close>

text \<open>Antigravity: the first endpoint that gives a quota decides.\<close>

lemma antigravity_first:
  assumes "callAndParse env (apiRequest identity config (ProjectData p)) parseAntigravityQuotaPayload = Inr quota"
    and "\<forall>c \<in> set before. \<exists>e. callAndParse env (apiRequest identity c (ProjectData p))
           parseAntigravityQuotaPayload = Inl e"
  shows "antigravityEndpoints (before @ config # after) env identity p err = Inr (AntigravityResult (Some quota))"
  using assms by (induction before arbitrary: err) auto

lemma projectless_no_call:
  assumes "qi_ProjectID identity = None \<or> qi_ProjectID identity = Some []"
  shows "antigravityCheck configs env identity = antigravityCheck configs env' identity"
    and "geminiCLICheck c1 c2 env identity = geminiCLICheck c1 c2 env' identity"
  using assms by (auto simp: antigravityCheck_def geminiCLICheck_def)

text \<open>
  Reading a member: \<open>null\<close> is not an absent number but zero, while for a truth value it is absent.
\<close>

lemma floatPtrField_null:
  "jsonLookup object key = Some JNull \<Longrightarrow> floatPtrField env object (key # keys) = Some 0"
  by (simp add: floatPtrField_def)

lemma boolPtrField_null:
  "jsonLookup object key = Some JNull \<Longrightarrow> boolPtrField object (key # keys) = boolPtrField object keys"
  by simp

lemma objectField_hit: "jsonLookup object key = Some (JObj o') \<Longrightarrow> objectField env object (key # keys) = Some o'"
  by (simp add: rawObject_def)

end
