(* ===== verification/QuotaTasks.thy ===== *)
theory QuotaTasks
  imports QuotaProviders
begin

text \<open>
  The quota service: the check of one identity (\<open>quota/service.go\<close>), the store of refresh tasks
  (\<open>quota/refresh_task_store.go\<close>), the admission of a batch and the worker that runs a task
  (\<open>quota/refresh.go\<close>). Each critical section of the code is one operation on the service's state;
  the theory on the workers' runs interleaves them.
\<close>

section \<open>Requests and responses\<close>

record checkResponse =
  cr_ID :: string
  cr_ObservedAt :: instant
  cr_Quota :: "quotaRow list"

text \<open>
  The persistence the service uses: the active auth-file identity of an index, whether any
  identity has the index, and the saving of an observation, which may fail.
\<close>

record quotaRepository =
  qp_FindActiveAuthFileIdentity :: "string \<Rightarrow> goErr + quotaIdentity option"
  qp_HasActiveIdentity :: "string \<Rightarrow> goErr + bool"
  qp_SaveQuotaObservation :: "nat \<Rightarrow> checkResponse \<Rightarrow> goErr option"
  qp_ListQuotaObservations :: "string list \<Rightarrow> int \<Rightarrow> goErr + checkResponse list option"

definition validationError :: "string \<Rightarrow> goErr" where
  "validationError message = WrapError (errText ErrValidation @ '': '' @ message) [ErrValidation]"

definition replaceProviderInput :: "string \<Rightarrow> string" where
  "replaceProviderInput message =
     replaceAll (errText ErrProviderInput @ [CHR 0x0A]) []
       (replaceAll (errText ErrProviderInput @ '': '') [] message)"

definition providerInputErrorMessage :: "goErr \<Rightarrow> string \<Rightarrow> string" where
  "providerInputErrorMessage err fallback =
     (let message = trimSpace (replaceProviderInput (errText err)) in
      if message = [] \<or> message = errText ErrProviderInput then fallback else message)"

section \<open>The check of one identity\<close>

definition resolveQuotaIdentityTypes :: "string \<Rightarrow> string \<Rightarrow> string list" where
  "resolveQuotaIdentityTypes provider identityType =
     fold (\<lambda>value candidates.
       let normalized = normalizeIdentityType value in
       if normalized = [] \<or> normalized \<in> set candidates then candidates else candidates @ [normalized])
     [provider, identityType] []"

fun firstHandler :: "providerRegistry \<Rightarrow> string list \<Rightarrow> (string \<times> providerHandler) option" where
  "firstHandler registry [] = None"
| "firstHandler registry (candidate # candidates) =
     (case registryProvider registry candidate of
        Some handler \<Rightarrow> Some (candidate, handler)
      | None \<Rightarrow> firstHandler registry candidates)"

definition resolveQuotaHandler ::
  "providerRegistry \<Rightarrow> string \<Rightarrow> string \<Rightarrow> (string \<times> providerHandler) option" where
  "resolveQuotaHandler registry provider identityType =
     firstHandler registry (resolveQuotaIdentityTypes provider identityType)"

text \<open>The result, and what the check asked the repository to save.\<close>

definition quotaCheck ::
  "quotaRepository \<Rightarrow> providerRegistry \<Rightarrow> quotaEnv \<Rightarrow> instant \<Rightarrow> string
    \<Rightarrow> (goErr + checkResponse) \<times> (nat \<times> checkResponse) option" where
  "quotaCheck repo registry env now rawAuthIndex =
     (let authIndex = trimSpace rawAuthIndex in
      if authIndex = [] then (Inl (validationError ''auth_index is required''), None)
      else (case qp_FindActiveAuthFileIdentity repo authIndex of
        Inl err \<Rightarrow> (Inl err, None)
      | Inr None \<Rightarrow> (Inl (WrapError (errText ErrNotFound @ '': '' @ authIndex) [ErrNotFound]), None)
      | Inr (Some identity) \<Rightarrow>
          (case resolveQuotaHandler registry (qi_Provider identity) (qi_Type identity) of
             None \<Rightarrow>
               (Inl (WrapError (errText ErrUnsupportedType @ '': '' @ normalizeIdentityType (qi_Provider identity))
                  [ErrUnsupportedType]), None)
           | Some (candidate, handler) \<Rightarrow>
               (case handler env identity of
                  Inl err \<Rightarrow> (Inl err, None)
                | Inr output \<Rightarrow>
                    let rows = normalizeQuotaRows (je_float (qe_json env)) (Some output) in
                    if length rows = 0 then (Inl (PlainError ''quota response has no usable rows''), None)
                    else (let response = \<lparr>cr_ID = authIndex, cr_ObservedAt = now, cr_Quota = rows\<rparr> in
                      case qp_SaveQuotaObservation repo (qi_ID identity) response of
                        Some err \<Rightarrow> (Inl (wrap ''persist quota observation: '' err), None)
                      | None \<Rightarrow> (Inr response, Some (qi_ID identity, response)))))))"

definition getQuotaObservations ::
  "quotaRepository \<Rightarrow> string list \<Rightarrow> int \<Rightarrow> goErr + checkResponse list" where
  "getQuotaObservations repo authIndexes limit =
     (if limit \<le> 0 then Inl (validationError ''limit is required'')
      else (case qp_ListQuotaObservations repo authIndexes limit of
        Inl err \<Rightarrow> Inl err
      | Inr None \<Rightarrow> Inr []
      | Inr (Some items) \<Rightarrow> Inr items))"

section \<open>The store of refresh tasks\<close>

datatype refreshTaskStatus = Queued | Running | Completed | Failed

record refreshTask =
  rt_TaskID :: string
  rt_AuthIndex :: string
  rt_Status :: refreshTaskStatus
  rt_Quota :: "checkResponse option"
  rt_Error :: string
  rt_CreatedAt :: instant
  rt_StartedAt :: instant
  rt_FinishedAt :: instant
  rt_ExpiresAt :: instant

record refreshTaskStore =
  ts_tasks :: "string \<rightharpoonup> refreshTask"
  ts_activeTaskIDsByAuth :: "string \<rightharpoonup> string"
  ts_ttl :: duration
  ts_seq :: "64 word"

definition defaultRefreshTaskTTL :: duration where
  "defaultRefreshTaskTTL = 20 * minute"

definition newRefreshTaskStore :: "duration \<Rightarrow> refreshTaskStore" where
  "newRefreshTaskStore ttl =
     \<lparr>ts_tasks = Map.empty, ts_activeTaskIDsByAuth = Map.empty, ts_ttl = ttl, ts_seq = 0\<rparr>"

definition isActive :: "refreshTask \<Rightarrow> bool" where
  "isActive t \<longleftrightarrow> rt_Status t = Queued \<or> rt_Status t = Running"

definition quotaTaskID :: "64 word \<Rightarrow> string" where
  "quotaTaskID seq = ''quota-refresh-'' @ nat_digits (unat seq)"

definition queuedTask :: "string \<Rightarrow> string \<Rightarrow> instant \<Rightarrow> refreshTask" where
  "queuedTask taskID authIndex now =
     \<lparr>rt_TaskID = taskID, rt_AuthIndex = authIndex, rt_Status = Queued, rt_Quota = None, rt_Error = [],
      rt_CreatedAt = now, rt_StartedAt = zero_time, rt_FinishedAt = zero_time, rt_ExpiresAt = zero_time\<rparr>"

definition activeTask :: "string \<Rightarrow> refreshTaskStore \<Rightarrow> refreshTask option" where
  "activeTask authIndex s =
     (case ts_activeTaskIDsByAuth s authIndex of
        None \<Rightarrow> None
      | Some taskID \<Rightarrow>
          (case ts_tasks s taskID of
             None \<Rightarrow> None
           | Some existing \<Rightarrow> if isActive existing then Some existing else None))"

definition enqueueTask ::
  "instant \<Rightarrow> string \<Rightarrow> refreshTaskStore \<Rightarrow> (refreshTask \<times> bool) \<times> refreshTaskStore" where
  "enqueueTask now authIndex s =
     (case activeTask authIndex s of
        Some existing \<Rightarrow> ((existing, False), s)
      | None \<Rightarrow>
          let seq = ts_seq s + 1; task = queuedTask (quotaTaskID seq) authIndex now
          in ((task, True),
              s\<lparr>ts_tasks := (ts_tasks s)(rt_TaskID task \<mapsto> task),
                ts_activeTaskIDsByAuth := (ts_activeTaskIDsByAuth s)(authIndex \<mapsto> rt_TaskID task),
                ts_seq := seq\<rparr>))"

definition snapshotTask :: "string \<Rightarrow> refreshTaskStore \<Rightarrow> refreshTask option" where
  "snapshotTask taskID s = ts_tasks s taskID"

definition markRunning ::
  "instant \<Rightarrow> string \<Rightarrow> refreshTaskStore \<Rightarrow> string option \<times> refreshTaskStore" where
  "markRunning now taskID s =
     (case ts_tasks s taskID of
        None \<Rightarrow> (None, s)
      | Some task \<Rightarrow>
          if rt_Status task \<noteq> Queued then (None, s)
          else (Some (rt_AuthIndex task),
            s\<lparr>ts_tasks := (ts_tasks s)(taskID \<mapsto> task\<lparr>rt_Status := Running, rt_StartedAt := now\<rparr>)\<rparr>))"

definition markCompleted ::
  "instant \<Rightarrow> string \<Rightarrow> checkResponse \<Rightarrow> refreshTaskStore \<Rightarrow> refreshTaskStore" where
  "markCompleted now taskID response s =
     (case ts_tasks s taskID of
        None \<Rightarrow> s
      | Some task \<Rightarrow>
          s\<lparr>ts_tasks := (ts_tasks s)(taskID \<mapsto>
              task\<lparr>rt_Status := Completed, rt_FinishedAt := now, rt_ExpiresAt := now + ts_ttl s,
                   rt_Quota := Some response\<rparr>)\<rparr>)"

definition markFailed :: "instant \<Rightarrow> string \<Rightarrow> string \<Rightarrow> refreshTaskStore \<Rightarrow> refreshTaskStore" where
  "markFailed now taskID message s =
     (case ts_tasks s taskID of
        None \<Rightarrow> s
      | Some task \<Rightarrow>
          s\<lparr>ts_tasks := (ts_tasks s)(taskID \<mapsto>
              task\<lparr>rt_Status := Failed, rt_FinishedAt := now, rt_ExpiresAt := now + ts_ttl s,
                   rt_Error := message\<rparr>)\<rparr>)"

definition expired :: "instant \<Rightarrow> refreshTask \<Rightarrow> bool" where
  "expired now task \<longleftrightarrow> \<not> (isZero (rt_ExpiresAt task) \<or> now < rt_ExpiresAt task)"

text \<open>
  The loop over the map deletes every expired task, and the index of its account where that still
  names the task; the order of the iteration does not matter.
\<close>

definition cleanupExpiredTasks :: "instant \<Rightarrow> refreshTaskStore \<Rightarrow> refreshTaskStore" where
  "cleanupExpiredTasks now s =
     s\<lparr>ts_tasks := (\<lambda>taskID. case ts_tasks s taskID of
          None \<Rightarrow> None
        | Some task \<Rightarrow> if expired now task then None else Some task),
       ts_activeTaskIDsByAuth := (\<lambda>authIndex. case ts_activeTaskIDsByAuth s authIndex of
          None \<Rightarrow> None
        | Some taskID \<Rightarrow>
            (case ts_tasks s taskID of
               None \<Rightarrow> Some taskID
             | Some task \<Rightarrow>
                 if expired now task \<and> rt_AuthIndex task = authIndex then None else Some taskID))\<rparr>"

section \<open>The service\<close>

text \<open>
  A worker goroutine: started; waiting for a token or the end of its context; holding a token;
  checking an account; and done with the task but holding the token until its deferred release.
  Contexts are numbered; each may have ended with an error.
\<close>

datatype workerPhase = Spawned | Waiting nat | HasToken nat | Checking nat string | Releasing

record quotaService =
  qs_refreshTasks :: refreshTaskStore
  qs_refreshWorkerCtx :: nat
  qs_hasWorkerCancel :: bool
  qs_refreshWorkersClose :: bool
  qs_refreshWorkerWG :: nat
  qs_refreshWorkerTokens :: nat
  qs_workers :: "string \<rightharpoonup> workerPhase"
  qs_ctxErr :: "goErr option list"

definition defaultRefreshWorkerLimit :: nat where
  "defaultRefreshWorkerLimit = 5"

text \<open>The background context never ends by itself.\<close>

definition newQuotaService :: quotaService where
  "newQuotaService =
     \<lparr>qs_refreshTasks = newRefreshTaskStore defaultRefreshTaskTTL, qs_refreshWorkerCtx = 0,
      qs_hasWorkerCancel = False, qs_refreshWorkersClose = False, qs_refreshWorkerWG = 0,
      qs_refreshWorkerTokens = 0, qs_workers = Map.empty, qs_ctxErr = [None]\<rparr>"

definition ctxErr :: "quotaService \<Rightarrow> nat \<Rightarrow> goErr option" where
  "ctxErr s c = (if c < length (qs_ctxErr s) then qs_ctxErr s ! c else None)"

text \<open>A context derived from a parent that may have ended already.\<close>

definition attachRefreshWorkerLifecycle :: "goErr option \<Rightarrow> quotaService \<Rightarrow> quotaService" where
  "attachRefreshWorkerLifecycle parentErr s =
     s\<lparr>qs_ctxErr := qs_ctxErr s @ [parentErr], qs_refreshWorkerCtx := length (qs_ctxErr s),
       qs_hasWorkerCancel := True\<rparr>"

definition closeRefreshAdmission :: "quotaService \<Rightarrow> quotaService" where
  "closeRefreshAdmission s = s\<lparr>qs_refreshWorkersClose := True\<rparr>"

definition endContext :: "nat \<Rightarrow> goErr \<Rightarrow> quotaService \<Rightarrow> quotaService" where
  "endContext c err s = (if ctxErr s c = None then s\<lparr>qs_ctxErr := (qs_ctxErr s)[c := Some err]\<rparr> else s)"

text \<open>The part of \<open>StopRefreshWorkers\<close> before the wait; the wait ends when the group's count is 0.\<close>

definition stopRefreshWorkers :: "quotaService \<Rightarrow> quotaService" where
  "stopRefreshWorkers s =
     (let s = closeRefreshAdmission s in
      if qs_hasWorkerCancel s then endContext (qs_refreshWorkerCtx s) ContextCanceled s else s)"

definition refreshUnavailableCode :: string where
  "refreshUnavailableCode = ''refresh_unavailable''"

definition startRefreshTask ::
  "instant \<Rightarrow> string \<Rightarrow> quotaService \<Rightarrow> (refreshTask option \<times> string) \<times> quotaService" where
  "startRefreshTask now authIndex s =
     (if qs_refreshWorkersClose s \<or> ctxErr s (qs_refreshWorkerCtx s) \<noteq> None
      then ((None, refreshUnavailableCode), s)
      else (case enqueueTask now authIndex (qs_refreshTasks s) of ((task, created), store) \<Rightarrow>
        if \<not> created then ((Some task, ''duplicate''), s)
        else ((Some task, []),
          s\<lparr>qs_refreshTasks := store, qs_refreshWorkerWG := qs_refreshWorkerWG s + 1,
            qs_workers := (qs_workers s)(rt_TaskID task \<mapsto> Spawned)\<rparr>)))"

section \<open>The worker\<close>

definition refreshTaskErrorMessage :: "goErr \<Rightarrow> string" where
  "refreshTaskErrorMessage err =
     (if errIs err ContextDeadlineExceeded \<or> errIs err ContextCanceled
      then ''Quota refresh timed out. Please try again later.''
      else if errIs err ErrProviderInput
      then providerInputErrorMessage err ''Quota request is missing required parameters.''
      else if hasPrefix (errText err) ''HTTP '' then errText err
      else ''Quota refresh failed. Please try again later.'')"

text \<open>
  The steps of \<open>runRefreshTask\<close>; no result where the worker is not at that point, or is blocked:
  the context is read, a token taken or the wait given up, the task marked running, the check's
  result recorded, the token released.
\<close>

definition workerReadContext :: "string \<Rightarrow> quotaService \<Rightarrow> quotaService option" where
  "workerReadContext taskID s =
     (case qs_workers s taskID of
        Some Spawned \<Rightarrow> Some (s\<lparr>qs_workers := (qs_workers s)(taskID \<mapsto> Waiting (qs_refreshWorkerCtx s))\<rparr>)
      | _ \<Rightarrow> None)"

definition workerTakeToken :: "string \<Rightarrow> quotaService \<Rightarrow> quotaService option" where
  "workerTakeToken taskID s =
     (case qs_workers s taskID of
        Some (Waiting c) \<Rightarrow>
          if qs_refreshWorkerTokens s < defaultRefreshWorkerLimit
          then Some (s\<lparr>qs_refreshWorkerTokens := qs_refreshWorkerTokens s + 1,
                       qs_workers := (qs_workers s)(taskID \<mapsto> HasToken c)\<rparr>)
          else None
      | _ \<Rightarrow> None)"

definition workerGiveUp :: "instant \<Rightarrow> string \<Rightarrow> quotaService \<Rightarrow> quotaService option" where
  "workerGiveUp now taskID s =
     (case qs_workers s taskID of
        Some (Waiting c) \<Rightarrow>
          (case ctxErr s c of
             None \<Rightarrow> None
           | Some err \<Rightarrow>
               Some (s\<lparr>qs_refreshTasks := markFailed now taskID (refreshTaskErrorMessage err) (qs_refreshTasks s),
                       qs_refreshWorkerWG := qs_refreshWorkerWG s - 1,
                       qs_workers := (qs_workers s)(taskID := None)\<rparr>))
      | _ \<Rightarrow> None)"

definition workerMarkRunning :: "instant \<Rightarrow> string \<Rightarrow> quotaService \<Rightarrow> quotaService option" where
  "workerMarkRunning now taskID s =
     (case qs_workers s taskID of
        Some (HasToken c) \<Rightarrow>
          (case markRunning now taskID (qs_refreshTasks s) of
             (None, store) \<Rightarrow>
               Some (s\<lparr>qs_refreshTasks := store, qs_workers := (qs_workers s)(taskID \<mapsto> Releasing)\<rparr>)
           | (Some authIndex, store) \<Rightarrow>
               Some (s\<lparr>qs_refreshTasks := store,
                       qs_workers := (qs_workers s)(taskID \<mapsto> Checking c authIndex)\<rparr>))
      | _ \<Rightarrow> None)"

definition workerRecord ::
  "(string \<Rightarrow> goErr + checkResponse) \<Rightarrow> instant \<Rightarrow> string \<Rightarrow> quotaService \<Rightarrow> quotaService option" where
  "workerRecord check now taskID s =
     (case qs_workers s taskID of
        Some (Checking c authIndex) \<Rightarrow>
          Some (s\<lparr>qs_refreshTasks := (case check authIndex of
                    Inl err \<Rightarrow> markFailed now taskID (refreshTaskErrorMessage err) (qs_refreshTasks s)
                  | Inr response \<Rightarrow> markCompleted now taskID response (qs_refreshTasks s)),
                  qs_workers := (qs_workers s)(taskID \<mapsto> Releasing)\<rparr>)
      | _ \<Rightarrow> None)"

definition workerRelease :: "string \<Rightarrow> quotaService \<Rightarrow> quotaService option" where
  "workerRelease taskID s =
     (case qs_workers s taskID of
        Some Releasing \<Rightarrow>
          Some (s\<lparr>qs_refreshWorkerTokens := qs_refreshWorkerTokens s - 1,
                  qs_refreshWorkerWG := qs_refreshWorkerWG s - 1,
                  qs_workers := (qs_workers s)(taskID := None)\<rparr>)
      | _ \<Rightarrow> None)"

section \<open>The requests\<close>

definition validateRefreshAuthIndex ::
  "quotaRepository \<Rightarrow> providerRegistry \<Rightarrow> string \<Rightarrow> goErr + string" where
  "validateRefreshAuthIndex repo registry authIndex =
     (case qp_FindActiveAuthFileIdentity repo authIndex of
        Inl err \<Rightarrow> Inl err
      | Inr (Some identity) \<Rightarrow>
          Inr (if resolveQuotaHandler registry (qi_Provider identity) (qi_Type identity) = None
               then ''unsupported'' else [])
      | Inr None \<Rightarrow>
          (case qp_HasActiveIdentity repo authIndex of
             Inl err \<Rightarrow> Inl err
           | Inr active \<Rightarrow> Inr (if active then ''not_auth_file'' else ''not_found'')))"

record refreshResponse =
  rr_Tasks :: "(string \<times> string) list"
  rr_Rejected :: "(string \<times> string) list"
  rr_Accepted :: int
  rr_Skipped :: int
  rr_Limit :: int

definition reject :: "string \<Rightarrow> string \<Rightarrow> refreshResponse \<Rightarrow> refreshResponse" where
  "reject authIndex code response = response\<lparr>rr_Rejected := rr_Rejected response @ [(authIndex, code)]\<rparr>"

text \<open>
  The loop of \<open>Refresh\<close>. Between two of its critical sections other goroutines may act: \<open>others n\<close>
  is what they do before the item with \<open>n\<close> items left, and \<open>clock\<close> its time. \<open>startRefreshTask\<close> gives
  no rejection only with a task, so the branch without one is not taken.
\<close>

record refreshEnv =
  re_repository :: quotaRepository
  re_registry :: providerRegistry
  re_others :: "nat \<Rightarrow> quotaService \<Rightarrow> quotaService"
  re_clock :: "nat \<Rightarrow> instant"

fun refreshItems ::
  "refreshEnv \<Rightarrow> int \<Rightarrow> string list \<Rightarrow> string set \<Rightarrow> refreshResponse \<Rightarrow> quotaService
    \<Rightarrow> (goErr + refreshResponse) \<times> quotaService" where
  "refreshItems env limit [] seen response s = (Inr response, s)"
| "refreshItems env limit (rawAuthIndex # rest) seen response s =
     (let authIndex = trimSpace rawAuthIndex; n = length rest; s = re_others env n s in
      if authIndex = [] then refreshItems env limit rest seen (reject authIndex ''invalid'' response) s
      else if authIndex \<in> seen
      then refreshItems env limit rest seen (reject authIndex ''duplicate'' response) s
      else (let seen = insert authIndex seen in
        if limit \<le> rr_Accepted response
        then refreshItems env limit rest seen (reject authIndex ''invalid'' response) s
        else (case validateRefreshAuthIndex (re_repository env) (re_registry env) authIndex of
          Inl err \<Rightarrow> (Inl err, s)
        | Inr rejection \<Rightarrow>
            if rejection \<noteq> [] then refreshItems env limit rest seen (reject authIndex rejection response) s
            else (case startRefreshTask (re_clock env n) authIndex s of
              ((task, rejection), s') \<Rightarrow>
                if rejection \<noteq> []
                then refreshItems env limit rest seen (reject authIndex rejection response) s'
                else (case task of
                    None \<Rightarrow> (Inr response, s')
                  | Some task \<Rightarrow>
                      refreshItems env limit rest seen
                        (response\<lparr>rr_Tasks := rr_Tasks response @ [(authIndex, rt_TaskID task)],
                                  rr_Accepted := rr_Accepted response + 1\<rparr>) s')))))"

definition cleanupTasks :: "instant \<Rightarrow> quotaService \<Rightarrow> quotaService" where
  "cleanupTasks now s = s\<lparr>qs_refreshTasks := cleanupExpiredTasks now (qs_refreshTasks s)\<rparr>"

definition quotaRefresh ::
  "refreshEnv \<Rightarrow> instant \<Rightarrow> string list \<Rightarrow> int \<Rightarrow> quotaService
    \<Rightarrow> (goErr + refreshResponse) \<times> quotaService" where
  "quotaRefresh env now authIndexes limit s =
     (if limit \<le> 0 then (Inl (validationError ''limit is required''), s)
      else (case refreshItems env limit authIndexes {}
               \<lparr>rr_Tasks = [], rr_Rejected = [], rr_Accepted = 0, rr_Skipped = 0, rr_Limit = limit\<rparr>
               (cleanupTasks now s) of
        (Inl err, s') \<Rightarrow> (Inl err, s')
      | (Inr response, s') \<Rightarrow>
          (Inr (response\<lparr>rr_Skipped := int (length (rr_Rejected response))\<rparr>), s')))"

record refreshTaskResponse =
  tr_TaskID :: string
  tr_AuthIndex :: string
  tr_Status :: refreshTaskStatus
  tr_Quota :: "checkResponse option"
  tr_Error :: string

definition taskResponse :: "refreshTask \<Rightarrow> refreshTaskResponse" where
  "taskResponse t = \<lparr>tr_TaskID = rt_TaskID t, tr_AuthIndex = rt_AuthIndex t, tr_Status = rt_Status t,
     tr_Quota = rt_Quota t, tr_Error = rt_Error t\<rparr>"

definition getRefreshTask ::
  "instant \<Rightarrow> string \<Rightarrow> quotaService \<Rightarrow> (goErr + refreshTaskResponse) \<times> quotaService" where
  "getRefreshTask now rawTaskID s =
     (let taskID = trimSpace rawTaskID in
      if taskID = [] then (Inl (validationError ''task_id is required''), s)
      else (let s = cleanupTasks now s in
        (case snapshotTask taskID (qs_refreshTasks s) of
           None \<Rightarrow> (Inl ErrTaskNotFound, s)
         | Some task \<Rightarrow> (Inr (taskResponse task), s))))"

end
