(* ===== verification/QuotaRuns.thy ===== *)
theory QuotaRuns
  imports QuotaTasks
begin

text \<open>
  The runs of the quota service: requests, clean-ups, the ends of contexts and the steps of the
  workers, in any order. The invariant ties each active task to one worker; the workers' steps
  end once admission is closed.
\<close>

section \<open>Steps\<close>

inductive worker_step :: "quotaService \<Rightarrow> quotaService \<Rightarrow> bool" where
  read: "workerReadContext taskID s = Some s' \<Longrightarrow> worker_step s s'"
| take: "workerTakeToken taskID s = Some s' \<Longrightarrow> worker_step s s'"
| give_up: "workerGiveUp now taskID s = Some s' \<Longrightarrow> 0 \<le> now \<Longrightarrow> worker_step s s'"
| mark: "workerMarkRunning now taskID s = Some s' \<Longrightarrow> 0 \<le> now \<Longrightarrow> worker_step s s'"
| record_result: "workerRecord (\<lambda>a. fst (quotaCheck repo registry env checkedAt a)) now taskID s = Some s'
    \<Longrightarrow> 0 \<le> now \<Longrightarrow> worker_step s s'"
| release: "workerRelease taskID s = Some s' \<Longrightarrow> worker_step s s'"

text \<open>
  The clock is past 1970, and the store has not used up its 64-bit sequence when a task starts.
\<close>

inductive quota_step :: "quotaService \<Rightarrow> quotaService \<Rightarrow> bool" where
  worker: "worker_step s s' \<Longrightarrow> quota_step s s'"
| start: "startRefreshTask now authIndex s = (r, s') \<Longrightarrow> ts_seq (qs_refreshTasks s) \<noteq> - 1 \<Longrightarrow> quota_step s s'"
| cleanup: "quota_step s (cleanupTasks now s)"
| attach: "quota_step s (attachRefreshWorkerLifecycle parentErr s)"
| close: "quota_step s (closeRefreshAdmission s)"
| stop: "quota_step s (stopRefreshWorkers s)"
| context_ends: "quota_step s (endContext c err s)"

inductive_cases worker_stepE: "worker_step s s'"
inductive_cases quota_stepE: "quota_step s s'"

definition quota_reachable :: "quotaService \<Rightarrow> bool" where
  "quota_reachable s \<longleftrightarrow> quota_step\<^sup>*\<^sup>* newQuotaService s"

lemmas worker_defs = workerReadContext_def workerTakeToken_def workerGiveUp_def workerMarkRunning_def
  workerRecord_def workerRelease_def

section \<open>The invariant\<close>

fun holdsToken :: "workerPhase \<Rightarrow> bool" where
  "holdsToken Spawned = False"
| "holdsToken (Waiting c) = False"
| "holdsToken _ = True"

definition holders :: "(string \<rightharpoonup> workerPhase) \<Rightarrow> string set" where
  "holders workers = {taskID. \<exists>p. workers taskID = Some p \<and> holdsToken p}"

text \<open>What a worker's point says of its task.\<close>

fun phaseFits :: "workerPhase option \<Rightarrow> refreshTask option \<Rightarrow> bool" where
  "phaseFits (Some (Checking c a)) (Some t) \<longleftrightarrow> rt_Status t = Running \<and> rt_AuthIndex t = a"
| "phaseFits (Some Releasing) (Some t) \<longleftrightarrow> \<not> isActive t"
| "phaseFits (Some Releasing) None \<longleftrightarrow> True"
| "phaseFits (Some p) (Some t) \<longleftrightarrow> rt_Status t = Queued"
| "phaseFits (Some p) None \<longleftrightarrow> False"
| "phaseFits None (Some t) \<longleftrightarrow> \<not> isActive t"
| "phaseFits None None \<longleftrightarrow> True"

definition taskOK :: "refreshTaskStore \<Rightarrow> string \<Rightarrow> refreshTask \<Rightarrow> bool" where
  "taskOK store taskID t \<longleftrightarrow>
     rt_TaskID t = taskID \<and>
     (if isActive t then isZero (rt_ExpiresAt t) \<and> ts_activeTaskIDsByAuth store (rt_AuthIndex t) = Some taskID
      else \<not> isZero (rt_ExpiresAt t)) \<and>
     (\<forall>q. rt_Quota t = Some q \<longrightarrow> rt_Status t = Completed \<and> cr_Quota q \<noteq> [])"

text \<open>A name the store has given out.\<close>

definition issued :: "64 word \<Rightarrow> string \<Rightarrow> bool" where
  "issued seq taskID \<longleftrightarrow> (\<exists>k. 1 \<le> k \<and> k \<le> seq \<and> taskID = quotaTaskID k)"

definition storeOK :: "refreshTaskStore \<Rightarrow> bool" where
  "storeOK store \<longleftrightarrow>
     ts_ttl store = defaultRefreshTaskTTL \<and>
     (\<forall>taskID t. ts_tasks store taskID = Some t \<longrightarrow> taskOK store taskID t) \<and>
     (\<forall>a taskID. ts_activeTaskIDsByAuth store a = Some taskID \<longrightarrow>
        (\<exists>t. ts_tasks store taskID = Some t \<and> rt_AuthIndex t = a)) \<and>
     (\<forall>taskID. ts_tasks store taskID \<noteq> None \<longrightarrow>
        issued (ts_seq store) taskID)"

definition poolOK :: "quotaService \<Rightarrow> bool" where
  "poolOK s \<longleftrightarrow>
     finite (dom (qs_workers s)) \<and>
     qs_refreshWorkerWG s = card (dom (qs_workers s)) \<and>
     qs_refreshWorkerTokens s = card (holders (qs_workers s)) \<and>
     qs_refreshWorkerTokens s \<le> defaultRefreshWorkerLimit \<and>
     (\<forall>taskID. qs_workers s taskID \<noteq> None \<longrightarrow>
        issued (ts_seq (qs_refreshTasks s)) taskID) \<and>
     (\<forall>taskID. phaseFits (qs_workers s taskID) (ts_tasks (qs_refreshTasks s) taskID))"

definition quotaOK :: "quotaService \<Rightarrow> bool" where
  "quotaOK s \<longleftrightarrow> storeOK (qs_refreshTasks s) \<and> poolOK s"

section \<open>The store keeps its invariant\<close>

lemma quotaTaskID_inj: "quotaTaskID k = quotaTaskID l \<longleftrightarrow> k = l"
  by (simp add: quotaTaskID_def nat_digits_not_Nil_eq word_unat_eq_iff)

lemma isActive_queuedTask [simp]: "isActive (queuedTask i a now)"
  by (simp add: isActive_def queuedTask_def)

lemma queuedTask_sel [simp]:
  "rt_TaskID (queuedTask i a now) = i" "rt_AuthIndex (queuedTask i a now) = a"
  "rt_Status (queuedTask i a now) = Queued" "rt_Quota (queuedTask i a now) = None"
  "rt_ExpiresAt (queuedTask i a now) = zero_time"
  by (simp_all add: queuedTask_def)

lemma isZero_zero_time [simp]: "isZero zero_time"
  by (simp add: isZero_def)

lemma later_not_zero: "0 \<le> now \<Longrightarrow> \<not> isZero (now + defaultRefreshTaskTTL)"
  by (simp add: isZero_def zero_time_def defaultRefreshTaskTTL_def minute_def)

lemma unat_succ: "s \<noteq> - 1 \<Longrightarrow> unat (s + 1) = Suc (unat s)" for s :: "64 word"
  using unatSuc [of s] by (metis add.commute add_eq_0_iff)

lemma issued_succ: "seq \<noteq> - 1 \<Longrightarrow> issued seq i \<Longrightarrow> issued (seq + 1) i"
  unfolding issued_def by (metis le_SucI unat_succ word_le_nat_alt)

lemma issued_new: "seq \<noteq> - 1 \<Longrightarrow> issued (seq + 1) (quotaTaskID (seq + 1))"
  unfolding issued_def by (rule exI [of _ "seq + 1"]) (simp add: word_le_nat_alt unat_succ)

lemma issued_fresh: "seq \<noteq> - 1 \<Longrightarrow> \<not> issued seq (quotaTaskID (seq + 1))"
  unfolding issued_def by (auto simp: quotaTaskID_inj word_le_nat_alt unat_succ)

lemma storeOK_index:
  "storeOK s \<Longrightarrow> ts_activeTaskIDsByAuth s a = Some i \<Longrightarrow> \<exists>t. ts_tasks s i = Some t \<and> rt_AuthIndex t = a"
  unfolding storeOK_def by blast

lemma newStore_ok: "storeOK (newRefreshTaskStore defaultRefreshTaskTTL)"
  by (simp add: storeOK_def newRefreshTaskStore_def)

lemma activeTask_None:
  "storeOK s \<Longrightarrow> activeTask a s = None \<Longrightarrow> ts_tasks s i = Some t \<Longrightarrow> isActive t \<Longrightarrow> rt_AuthIndex t \<noteq> a"
  by (auto simp: storeOK_def taskOK_def activeTask_def split: option.splits if_splits)

lemma enqueue_fresh: "storeOK s \<Longrightarrow> ts_seq s \<noteq> - 1 \<Longrightarrow> ts_tasks s (quotaTaskID (ts_seq s + 1)) = None"
  using issued_fresh by (auto simp: storeOK_def)

lemma storeOK_enqueue:
  assumes ok: "storeOK s" and seq: "ts_seq s \<noteq> - 1" and none: "activeTask a s = None"
  shows "storeOK (s\<lparr>ts_tasks := (ts_tasks s)(quotaTaskID (ts_seq s + 1) \<mapsto> queuedTask (quotaTaskID (ts_seq s + 1)) a now),
      ts_activeTaskIDsByAuth := (ts_activeTaskIDsByAuth s)(a \<mapsto> quotaTaskID (ts_seq s + 1)),
      ts_seq := ts_seq s + 1\<rparr>)" (is "storeOK ?s")
proof -
  let ?i = "quotaTaskID (ts_seq s + 1)"
  note fresh = enqueue_fresh [OF ok seq] and other = activeTask_None [OF ok none]
  have tasks: "taskOK ?s i t" if "ts_tasks ?s i = Some t" for i t
  proof (cases "i = ?i")
    case True
    with that show ?thesis by (auto simp: taskOK_def)
  next
    case False
    with that have t: "ts_tasks s i = Some t" by simp
    with ok have "taskOK s i t" by (simp add: storeOK_def)
    with other [OF t] show ?thesis by (auto simp: taskOK_def)
  qed
  have index: "\<exists>t. ts_tasks ?s i = Some t \<and> rt_AuthIndex t = b" if "ts_activeTaskIDsByAuth ?s b = Some i" for b i
  proof (cases "b = a")
    case True
    with that show ?thesis by auto
  next
    case False
    with that ok have "\<exists>t. ts_tasks s i = Some t \<and> rt_AuthIndex t = b" by (simp add: storeOK_def)
    with fresh show ?thesis by auto
  qed
  have names: "issued (ts_seq ?s) i" if "ts_tasks ?s i \<noteq> None" for i
    using that ok issued_new [OF seq] issued_succ [OF seq] by (auto simp: storeOK_def split: if_splits)
  from ok have ttl: "ts_ttl ?s = defaultRefreshTaskTTL" by (simp add: storeOK_def)
  show ?thesis unfolding storeOK_def by (intro conjI allI impI ttl tasks index names)
qed

lemma storeOK_update:
  assumes ok: "storeOK s" and t: "ts_tasks s i = Some t" and a: "isActive t"
    and same: "rt_TaskID t' = rt_TaskID t" "rt_AuthIndex t' = rt_AuthIndex t"
    and expires: "isActive t' \<longleftrightarrow> isZero (rt_ExpiresAt t')"
    and quota: "\<forall>q. rt_Quota t' = Some q \<longrightarrow> rt_Status t' = Completed \<and> cr_Quota q \<noteq> []"
  shows "storeOK (s\<lparr>ts_tasks := (ts_tasks s)(i \<mapsto> t')\<rparr>)" (is "storeOK ?s")
proof -
  from ok t a have old: "rt_TaskID t = i" "ts_activeTaskIDsByAuth s (rt_AuthIndex t) = Some i"
    by (auto simp: storeOK_def taskOK_def)
  have tasks: "taskOK ?s j u" if "ts_tasks ?s j = Some u" for j u
  proof (cases "j = i")
    case True
    with that have "u = t'" by simp
    with True old same expires quota show ?thesis by (simp add: taskOK_def)
  next
    case False
    with that ok have "taskOK s j u" by (simp add: storeOK_def)
    then show ?thesis by (simp add: taskOK_def)
  qed
  have index: "\<exists>u. ts_tasks ?s j = Some u \<and> rt_AuthIndex u = b" if "ts_activeTaskIDsByAuth ?s b = Some j" for b j
  proof -
    from that storeOK_index [OF ok] obtain u where "ts_tasks s j = Some u" "rt_AuthIndex u = b" by force
    with t same show ?thesis by (cases "j = i") auto
  qed
  have names: "issued (ts_seq ?s) j" if "ts_tasks ?s j \<noteq> None" for j
    using that ok t by (auto simp: storeOK_def split: if_splits)
  from ok have ttl: "ts_ttl ?s = defaultRefreshTaskTTL" by (simp add: storeOK_def)
  show ?thesis unfolding storeOK_def by (intro conjI allI impI ttl tasks index names)
qed

lemma active_no_quota: "storeOK s \<Longrightarrow> ts_tasks s i = Some t \<Longrightarrow> isActive t \<Longrightarrow> rt_Quota t = None"
  by (cases "rt_Quota t") (auto simp: storeOK_def taskOK_def isActive_def)

lemma storeOK_markFailed:
  "storeOK s \<Longrightarrow> ts_tasks s i = Some t \<Longrightarrow> isActive t \<Longrightarrow> 0 \<le> now \<Longrightarrow> storeOK (markFailed now i m s)"
  by (simp add: markFailed_def, rule storeOK_update)
     (auto simp: isActive_def later_not_zero active_no_quota storeOK_def)

lemma storeOK_markCompleted:
  "storeOK s \<Longrightarrow> ts_tasks s i = Some t \<Longrightarrow> isActive t \<Longrightarrow> 0 \<le> now \<Longrightarrow> cr_Quota r \<noteq> []
    \<Longrightarrow> storeOK (markCompleted now i r s)"
  by (simp add: markCompleted_def, rule storeOK_update)
     (auto simp: isActive_def later_not_zero storeOK_def)

lemma storeOK_markRunning:
  assumes ok: "storeOK s" and t: "ts_tasks s i = Some t" "rt_Status t = Queued"
  shows "storeOK (s\<lparr>ts_tasks := (ts_tasks s)(i \<mapsto> t\<lparr>rt_Status := Running, rt_StartedAt := now\<rparr>)\<rparr>)"
proof -
  from t have a: "isActive t" by (simp add: isActive_def)
  from ok t have "taskOK s i t" by (simp add: storeOK_def)
  with a have z: "isZero (rt_ExpiresAt t)" by (simp add: taskOK_def)
  have q: "rt_Quota t = None" using active_no_quota [OF ok t(1) a] .
  show ?thesis
    by (rule storeOK_update [OF ok t(1) a]) (simp_all add: isActive_def z q)
qed

lemma expired_inactive: "taskOK s i t \<Longrightarrow> expired now t \<Longrightarrow> \<not> isActive t"
  by (auto simp: taskOK_def expired_def split: if_splits)

lemma cleanup_tasks:
  "ts_tasks (cleanupExpiredTasks now s) i = Some t \<longleftrightarrow> ts_tasks s i = Some t \<and> \<not> expired now t"
  by (auto simp: cleanupExpiredTasks_def split: option.splits)

lemma storeOK_cleanup:
  assumes ok: "storeOK s"
  shows "storeOK (cleanupExpiredTasks now s)" (is "storeOK ?s")
proof -
  have tasks: "taskOK ?s i t" if "ts_tasks ?s i = Some t" for i t
  proof -
    from that ok have t: "ts_tasks s i = Some t" "taskOK s i t" "\<not> expired now t"
      by (auto simp: cleanup_tasks storeOK_def)
    then show ?thesis by (auto simp: taskOK_def cleanupExpiredTasks_def)
  qed
  have index: "\<exists>t. ts_tasks ?s i = Some t \<and> rt_AuthIndex t = b" if "ts_activeTaskIDsByAuth ?s b = Some i" for b i
  proof -
    from that have i: "ts_activeTaskIDsByAuth s b = Some i"
      and no: "\<forall>t. ts_tasks s i = Some t \<longrightarrow> \<not> (expired now t \<and> rt_AuthIndex t = b)"
      by (auto simp: cleanupExpiredTasks_def split: option.splits if_splits)
    from storeOK_index [OF ok i] obtain t where "ts_tasks s i = Some t" "rt_AuthIndex t = b" by blast
    with no show ?thesis by (auto simp: cleanup_tasks)
  qed
  have names: "issued (ts_seq ?s) j" if "ts_tasks ?s j \<noteq> None" for j
    using that ok by (auto simp: storeOK_def cleanupExpiredTasks_def split: option.splits if_splits)
  from ok have ttl: "ts_ttl ?s = defaultRefreshTaskTTL" by (simp add: storeOK_def cleanupExpiredTasks_def)
  show ?thesis unfolding storeOK_def by (intro conjI allI impI ttl tasks index names)
qed

section \<open>The pool keeps its invariant\<close>

lemma holders_upd: "holders (m(i \<mapsto> p)) = (if holdsToken p then insert i (holders m) else holders m - {i})"
  by (auto simp: holders_def)

lemma holders_del: "holders (m(i := None)) = holders m - {i}"
  by (auto simp: holders_def)

lemma holders_dom: "holders m \<subseteq> dom m"
  by (auto simp: holders_def)

lemma poolOK_finite: "poolOK s \<Longrightarrow> finite (holders (qs_workers s))"
  using holders_dom finite_subset by (metis poolOK_def)

text \<open>A worker moves on, or leaves; the other tasks stay.\<close>

lemma poolOK_move:
  assumes ok: "poolOK s" and w: "qs_workers s i = Some p"
    and w': "qs_workers s' = (qs_workers s)(i \<mapsto> p')"
    and tokens: "qs_refreshWorkerTokens s' = qs_refreshWorkerTokens s
       + (if holdsToken p' \<and> \<not> holdsToken p then 1 else 0)" "holdsToken p \<longrightarrow> holdsToken p'"
    and bound: "qs_refreshWorkerTokens s' \<le> defaultRefreshWorkerLimit"
    and wg: "qs_refreshWorkerWG s' = qs_refreshWorkerWG s"
    and seq: "ts_seq (qs_refreshTasks s') = ts_seq (qs_refreshTasks s)"
    and tasks: "\<And>j. j \<noteq> i \<Longrightarrow> ts_tasks (qs_refreshTasks s') j = ts_tasks (qs_refreshTasks s) j"
    and fits: "phaseFits (Some p') (ts_tasks (qs_refreshTasks s') i)"
  shows "poolOK s'"
proof -
  have dom: "dom (qs_workers s') = dom (qs_workers s)" using w w' by auto
  have i: "i \<in> holders (qs_workers s) \<longleftrightarrow> holdsToken p" using w by (simp add: holders_def)
  have "qs_refreshWorkerTokens s' = card (holders (qs_workers s'))"
    using ok tokens i poolOK_finite [OF ok]
    by (auto simp: w' holders_upd poolOK_def insert_absorb)
  moreover have "phaseFits (qs_workers s' j) (ts_tasks (qs_refreshTasks s') j)" for j
    using ok fits tasks by (cases "j = i") (simp_all add: w' poolOK_def)
  moreover have "issued (ts_seq (qs_refreshTasks s')) j" if "qs_workers s' j \<noteq> None" for j
    using that ok dom seq by (metis domIff poolOK_def)
  ultimately show ?thesis using ok bound dom wg by (simp add: poolOK_def)
qed

lemma poolOK_leave:
  assumes ok: "poolOK s" and w: "qs_workers s i = Some p"
    and w': "qs_workers s' = (qs_workers s)(i := None)"
    and tokens: "qs_refreshWorkerTokens s' = qs_refreshWorkerTokens s - (if holdsToken p then 1 else 0)"
    and wg: "qs_refreshWorkerWG s' = qs_refreshWorkerWG s - 1"
    and seq: "ts_seq (qs_refreshTasks s') = ts_seq (qs_refreshTasks s)"
    and tasks: "\<And>j. j \<noteq> i \<Longrightarrow> ts_tasks (qs_refreshTasks s') j = ts_tasks (qs_refreshTasks s) j"
    and fits: "phaseFits None (ts_tasks (qs_refreshTasks s') i)"
  shows "poolOK s'"
proof -
  have dom: "dom (qs_workers s') = dom (qs_workers s) - {i}" using w' by auto
  have i: "i \<in> holders (qs_workers s) \<longleftrightarrow> holdsToken p" "i \<in> dom (qs_workers s)"
    using w by (auto simp: holders_def)
  have "qs_refreshWorkerTokens s' = card (holders (qs_workers s'))"
    using ok tokens i poolOK_finite [OF ok] by (auto simp: w' holders_del poolOK_def)
  moreover have "qs_refreshWorkerWG s' = card (dom (qs_workers s'))"
    using ok i wg dom by (simp add: poolOK_def)
  moreover have "phaseFits (qs_workers s' j) (ts_tasks (qs_refreshTasks s') j)" for j
    using ok fits tasks by (cases "j = i") (simp_all add: w' poolOK_def)
  moreover have "issued (ts_seq (qs_refreshTasks s')) j" if "qs_workers s' j \<noteq> None" for j
    using that ok seq w' by (auto simp: poolOK_def split: if_splits)
  moreover have "qs_refreshWorkerTokens s' \<le> defaultRefreshWorkerLimit"
    using ok tokens by (auto simp: poolOK_def intro: le_trans [OF diff_le_self])
  ultimately show ?thesis using ok dom by (simp add: poolOK_def)
qed

section \<open>The steps keep the invariant\<close>

lemma fits_of: "poolOK s \<Longrightarrow> phaseFits (qs_workers s i) (ts_tasks (qs_refreshTasks s) i)"
  by (simp add: poolOK_def)

lemma poolOK_limit: "poolOK s \<Longrightarrow> qs_refreshWorkerTokens s \<le> defaultRefreshWorkerLimit"
  by (simp add: poolOK_def)

lemma queued_of:
  "poolOK s \<Longrightarrow> qs_workers s i = Some p \<Longrightarrow> p \<in> {Spawned} \<union> range Waiting \<union> range HasToken
    \<Longrightarrow> \<exists>t. ts_tasks (qs_refreshTasks s) i = Some t \<and> rt_Status t = Queued"
  using fits_of [of s i] by (cases "ts_tasks (qs_refreshTasks s) i") auto

lemma running_of:
  "poolOK s \<Longrightarrow> qs_workers s i = Some (Checking c a)
    \<Longrightarrow> \<exists>t. ts_tasks (qs_refreshTasks s) i = Some t \<and> rt_Status t = Running \<and> rt_AuthIndex t = a"
  using fits_of [of s i] by (cases "ts_tasks (qs_refreshTasks s) i") auto

lemma check_rows: "fst (quotaCheck repo registry env now a) = Inr r \<Longrightarrow> cr_Quota r \<noteq> []"
  by (auto simp: quotaCheck_def Let_def split: if_splits sum.splits option.splits prod.splits)

lemma mark_seq [simp]:
  "ts_seq (markFailed now i m st) = ts_seq st" "ts_seq (markCompleted now i r st) = ts_seq st"
  by (auto simp: markFailed_def markCompleted_def split: option.splits)

lemma mark_others [simp]:
  "j \<noteq> i \<Longrightarrow> ts_tasks (markFailed now i m st) j = ts_tasks st j"
  "j \<noteq> i \<Longrightarrow> ts_tasks (markCompleted now i r st) j = ts_tasks st j"
  by (auto simp: markFailed_def markCompleted_def split: option.splits)

lemma mark_terminal:
  "ts_tasks st i = Some t \<Longrightarrow> \<exists>u. ts_tasks (markFailed now i m st) i = Some u \<and> rt_Status u = Failed"
  "ts_tasks st i = Some t \<Longrightarrow> \<exists>u. ts_tasks (markCompleted now i r st) i = Some u \<and> rt_Status u = Completed"
  by (auto simp: markFailed_def markCompleted_def)

lemma quotaOK_read:
  assumes ok: "quotaOK s" and step: "workerReadContext i s = Some s'"
  shows "quotaOK s'"
proof -
  from step have w: "qs_workers s i = Some Spawned"
    and s': "s' = s\<lparr>qs_workers := (qs_workers s)(i \<mapsto> Waiting (qs_refreshWorkerCtx s))\<rparr>"
    by (auto simp: workerReadContext_def split: option.splits workerPhase.splits)
  from ok have p: "poolOK s" "storeOK (qs_refreshTasks s)" by (simp_all add: quotaOK_def)
  from queued_of [OF p(1) w] obtain t where t: "ts_tasks (qs_refreshTasks s) i = Some t" "rt_Status t = Queued"
    by auto
  have "poolOK s'"
    by (rule poolOK_move [OF p(1) w, where p' = "Waiting (qs_refreshWorkerCtx s)"])
      (simp_all add: s' t poolOK_limit [OF p(1)])
  with p(2) s' show ?thesis by (simp add: quotaOK_def)
qed

lemma quotaOK_take:
  assumes ok: "quotaOK s" and step: "workerTakeToken i s = Some s'"
  shows "quotaOK s'"
proof -
  from step obtain c where w: "qs_workers s i = Some (Waiting c)"
    and room: "qs_refreshWorkerTokens s < defaultRefreshWorkerLimit"
    and s': "s' = s\<lparr>qs_refreshWorkerTokens := qs_refreshWorkerTokens s + 1,
                     qs_workers := (qs_workers s)(i \<mapsto> HasToken c)\<rparr>"
    by (auto simp: workerTakeToken_def split: option.splits workerPhase.splits if_splits)
  from ok have p: "poolOK s" "storeOK (qs_refreshTasks s)" by (simp_all add: quotaOK_def)
  from queued_of [OF p(1) w] obtain t where t: "ts_tasks (qs_refreshTasks s) i = Some t" "rt_Status t = Queued"
    by auto
  have "poolOK s'"
    by (rule poolOK_move [OF p(1) w, where p' = "HasToken c"]) (use room in \<open>simp_all add: s' t\<close>)
  with p(2) s' show ?thesis by (simp add: quotaOK_def)
qed

lemma quotaOK_give_up:
  assumes ok: "quotaOK s" and step: "workerGiveUp now i s = Some s'" and now: "0 \<le> now"
  shows "quotaOK s'"
proof -
  from step obtain c err where w: "qs_workers s i = Some (Waiting c)"
    and s': "s' = s\<lparr>qs_refreshTasks := markFailed now i (refreshTaskErrorMessage err) (qs_refreshTasks s),
                     qs_refreshWorkerWG := qs_refreshWorkerWG s - 1, qs_workers := (qs_workers s)(i := None)\<rparr>"
    by (auto simp: workerGiveUp_def split: option.splits workerPhase.splits)
  from ok have p: "poolOK s" "storeOK (qs_refreshTasks s)" by (simp_all add: quotaOK_def)
  from queued_of [OF p(1) w] obtain t where t: "ts_tasks (qs_refreshTasks s) i = Some t" "rt_Status t = Queued"
    by auto
  obtain u where u: "ts_tasks (markFailed now i (refreshTaskErrorMessage err) (qs_refreshTasks s)) i = Some u"
      "rt_Status u = Failed"
    using mark_terminal(1) [OF t(1)] by blast
  have "poolOK s'"
    by (rule poolOK_leave [OF p(1) w]) (simp_all add: s' u isActive_def)
  moreover have "storeOK (qs_refreshTasks s')"
    using storeOK_markFailed [OF p(2) t(1) _ now] t(2) by (simp add: s' isActive_def)
  ultimately show ?thesis by (simp add: quotaOK_def)
qed

lemma quotaOK_mark:
  assumes ok: "quotaOK s" and step: "workerMarkRunning now i s = Some s'"
  shows "quotaOK s'"
proof -
  from step obtain c where w: "qs_workers s i = Some (HasToken c)"
    by (auto simp: workerMarkRunning_def split: option.splits workerPhase.splits)
  from ok have p: "poolOK s" "storeOK (qs_refreshTasks s)" by (simp_all add: quotaOK_def)
  from queued_of [OF p(1) w] obtain t where t: "ts_tasks (qs_refreshTasks s) i = Some t" "rt_Status t = Queued"
    by auto
  with step w have s': "s' = s\<lparr>qs_refreshTasks := (qs_refreshTasks s)\<lparr>ts_tasks :=
        (ts_tasks (qs_refreshTasks s))(i \<mapsto> t\<lparr>rt_Status := Running, rt_StartedAt := now\<rparr>)\<rparr>,
      qs_workers := (qs_workers s)(i \<mapsto> Checking c (rt_AuthIndex t))\<rparr>"
    by (simp add: workerMarkRunning_def markRunning_def)
  have "poolOK s'"
    by (rule poolOK_move [OF p(1) w, where p' = "Checking c (rt_AuthIndex t)"])
      (simp_all add: s' poolOK_limit [OF p(1)])
  moreover have "storeOK (qs_refreshTasks s')"
    using storeOK_markRunning [OF p(2) t] by (simp add: s')
  ultimately show ?thesis by (simp add: quotaOK_def)
qed

lemma quotaOK_record:
  assumes ok: "quotaOK s" and now: "0 \<le> now"
    and step: "workerRecord (\<lambda>a. fst (quotaCheck repo registry env at0 a)) now i s = Some s'"
  shows "quotaOK s'"
proof -
  from step obtain c a where w: "qs_workers s i = Some (Checking c a)"
    by (auto simp: workerRecord_def split: option.splits workerPhase.splits)
  from ok have p: "poolOK s" "storeOK (qs_refreshTasks s)" by (simp_all add: quotaOK_def)
  from running_of [OF p(1) w] obtain t where t: "ts_tasks (qs_refreshTasks s) i = Some t" "isActive t"
    by (auto simp: isActive_def)
  let ?r = "fst (quotaCheck repo registry env at0 a)"
  let ?store = "case ?r of Inl err \<Rightarrow> markFailed now i (refreshTaskErrorMessage err) (qs_refreshTasks s)
    | Inr response \<Rightarrow> markCompleted now i response (qs_refreshTasks s)"
  from step w have s': "s' = s\<lparr>qs_refreshTasks := ?store, qs_workers := (qs_workers s)(i \<mapsto> Releasing)\<rparr>"
    by (simp add: workerRecord_def)
  obtain u where u: "ts_tasks ?store i = Some u" "\<not> isActive u"
    using mark_terminal [OF t(1)] by (cases ?r) (fastforce simp: isActive_def)+
  have seq: "ts_seq ?store = ts_seq (qs_refreshTasks s)" by (cases ?r) simp_all
  have others: "ts_tasks ?store j = ts_tasks (qs_refreshTasks s) j" if "j \<noteq> i" for j
    using that by (cases ?r) simp_all
  have "storeOK ?store"
  proof (cases ?r)
    case (Inl err)
    with storeOK_markFailed [OF p(2) t now] show ?thesis by simp
  next
    case (Inr r)
    with storeOK_markCompleted [OF p(2) t now check_rows [OF Inr]] show ?thesis by simp
  qed
  moreover have "poolOK s'"
    by (rule poolOK_move [OF p(1) w, where p' = Releasing])
      (simp_all add: s' poolOK_limit [OF p(1)] seq others u)
  ultimately show ?thesis by (simp add: quotaOK_def s')
qed

lemma quotaOK_release:
  assumes ok: "quotaOK s" and step: "workerRelease i s = Some s'"
  shows "quotaOK s'"
proof -
  from step have w: "qs_workers s i = Some Releasing"
    and s': "s' = s\<lparr>qs_refreshWorkerTokens := qs_refreshWorkerTokens s - 1,
        qs_refreshWorkerWG := qs_refreshWorkerWG s - 1, qs_workers := (qs_workers s)(i := None)\<rparr>"
    by (auto simp: workerRelease_def split: option.splits workerPhase.splits)
  from ok have p: "poolOK s" "storeOK (qs_refreshTasks s)" by (simp_all add: quotaOK_def)
  have fits: "phaseFits None (ts_tasks (qs_refreshTasks s) i)"
    using fits_of [OF p(1), of i] w by (cases "ts_tasks (qs_refreshTasks s) i") simp_all
  have "poolOK s'"
    by (rule poolOK_leave [OF p(1) w]) (simp_all add: s' fits)
  with p(2) s' show ?thesis by (simp add: quotaOK_def)
qed

lemma worker_step_ok: "worker_step s s' \<Longrightarrow> quotaOK s \<Longrightarrow> quotaOK s'"
  by (elim worker_stepE)
    (rule quotaOK_read quotaOK_take quotaOK_give_up quotaOK_mark quotaOK_record quotaOK_release; assumption)+

text \<open>A start is refused, finds an active task, or queues a task and hands it to a worker.\<close>

lemma startRefreshTask_cases:
  assumes "startRefreshTask now a s = ((task, rejection), s')"
  obtains (refused) "task = None" "rejection = refreshUnavailableCode" "s' = s"
      "qs_refreshWorkersClose s \<or> ctxErr s (qs_refreshWorkerCtx s) \<noteq> None"
  | (duplicate) t where "task = Some t" "rejection = ''duplicate''" "s' = s" "activeTask a (qs_refreshTasks s) = Some t"
  | (started) i where "i = quotaTaskID (ts_seq (qs_refreshTasks s) + 1)" "task = Some (queuedTask i a now)" "rejection = []"
      "activeTask a (qs_refreshTasks s) = None"
      "s' = s\<lparr>qs_refreshTasks := (qs_refreshTasks s)\<lparr>ts_tasks := (ts_tasks (qs_refreshTasks s))(i \<mapsto> queuedTask i a now),
           ts_activeTaskIDsByAuth := (ts_activeTaskIDsByAuth (qs_refreshTasks s))(a \<mapsto> i),
           ts_seq := ts_seq (qs_refreshTasks s) + 1\<rparr>,
         qs_refreshWorkerWG := qs_refreshWorkerWG s + 1, qs_workers := (qs_workers s)(i \<mapsto> Spawned)\<rparr>"
proof (cases "qs_refreshWorkersClose s \<or> ctxErr s (qs_refreshWorkerCtx s) \<noteq> None")
  case True
  with assms have "task = None" "rejection = refreshUnavailableCode" "s' = s"
    by (simp_all add: startRefreshTask_def)
  from refused [OF this True] show ?thesis .
next
  case open_: False
  show ?thesis
  proof (cases "activeTask a (qs_refreshTasks s)")
    case (Some t)
    with assms open_ have "task = Some t" "rejection = ''duplicate''" "s' = s"
      by (simp_all add: startRefreshTask_def enqueueTask_def)
    from duplicate [OF this Some] show ?thesis .
  next
    case None
    with assms open_ show ?thesis
      by (intro started [OF refl _ _ None]) (auto simp: startRefreshTask_def enqueueTask_def Let_def)
  qed
qed

lemma worker_fresh:
  "quotaOK s \<Longrightarrow> ts_seq (qs_refreshTasks s) \<noteq> - 1
    \<Longrightarrow> qs_workers s (quotaTaskID (ts_seq (qs_refreshTasks s) + 1)) = None"
  using issued_fresh by (auto simp: quotaOK_def poolOK_def)

lemma quotaOK_start:
  assumes ok: "quotaOK s" and seq: "ts_seq (qs_refreshTasks s) \<noteq> - 1"
    and step: "startRefreshTask now a s = ((task, rejection), s')"
  shows "quotaOK s'"
  using step
proof (cases rule: startRefreshTask_cases)
  case (started i)
  from ok have p: "poolOK s" "storeOK (qs_refreshTasks s)" by (simp_all add: quotaOK_def)
  have w: "qs_workers s i = None" using worker_fresh [OF ok seq] started by simp
  have "storeOK (qs_refreshTasks s')" using storeOK_enqueue [OF p(2) seq started(4)] started by simp
  moreover have "poolOK s'"
  proof -
    have dom: "dom (qs_workers s') = insert i (dom (qs_workers s))" using started by auto
    have "i \<notin> dom (qs_workers s)" "i \<notin> holders (qs_workers s)" using w by (auto simp: holders_def)
    moreover have "phaseFits (qs_workers s' j) (ts_tasks (qs_refreshTasks s') j)" for j
      using p(1) started by (cases "j = i") (simp_all add: poolOK_def)
    moreover have "issued (ts_seq (qs_refreshTasks s')) j" if "qs_workers s' j \<noteq> None" for j
      using that p(1) started issued_new [OF seq] issued_succ [OF seq] by (auto simp: poolOK_def split: if_splits)
    ultimately show ?thesis using p(1) started dom by (simp add: poolOK_def holders_upd)
  qed
  ultimately show ?thesis by (simp add: quotaOK_def)
qed (use ok in simp_all)

lemma quotaOK_cleanup:
  assumes ok: "quotaOK s"
  shows "quotaOK (cleanupTasks now s)"
proof -
  from ok have p: "poolOK s" "storeOK (qs_refreshTasks s)" by (simp_all add: quotaOK_def)
  have "phaseFits (qs_workers s j) (ts_tasks (cleanupExpiredTasks now (qs_refreshTasks s)) j)" for j
  proof (cases "ts_tasks (qs_refreshTasks s) j")
    case None
    with fits_of [OF p(1), of j] show ?thesis by (simp add: cleanupExpiredTasks_def)
  next
    case (Some t)
    with p(2) have "taskOK (qs_refreshTasks s) j t" by (simp add: storeOK_def)
    with expired_inactive have "expired now t \<Longrightarrow> \<not> isActive t" by blast
    with Some fits_of [OF p(1), of j] show ?thesis
      by (cases "(qs_workers s j, Some t)" rule: phaseFits.cases) (auto simp: cleanupExpiredTasks_def isActive_def)
  qed
  moreover have "ts_seq (cleanupExpiredTasks now (qs_refreshTasks s)) = ts_seq (qs_refreshTasks s)"
    by (simp add: cleanupExpiredTasks_def)
  ultimately have "poolOK (cleanupTasks now s)" using p(1) by (simp add: poolOK_def cleanupTasks_def)
  with storeOK_cleanup [OF p(2)] show ?thesis by (simp add: quotaOK_def cleanupTasks_def)
qed

lemma quotaOK_same:
  assumes "quotaOK s" "qs_refreshTasks s' = qs_refreshTasks s" "qs_workers s' = qs_workers s"
    "qs_refreshWorkerWG s' = qs_refreshWorkerWG s" "qs_refreshWorkerTokens s' = qs_refreshWorkerTokens s"
  shows "quotaOK s'"
  using assms by (simp add: quotaOK_def poolOK_def)

lemma life_same:
  "qs_refreshTasks (stopRefreshWorkers s) = qs_refreshTasks s" "qs_workers (stopRefreshWorkers s) = qs_workers s"
  "qs_refreshWorkerWG (stopRefreshWorkers s) = qs_refreshWorkerWG s"
  "qs_refreshWorkerTokens (stopRefreshWorkers s) = qs_refreshWorkerTokens s"
  "qs_refreshTasks (endContext c err s) = qs_refreshTasks s" "qs_workers (endContext c err s) = qs_workers s"
  "qs_refreshWorkerWG (endContext c err s) = qs_refreshWorkerWG s"
  "qs_refreshWorkerTokens (endContext c err s) = qs_refreshWorkerTokens s"
  by (simp_all add: stopRefreshWorkers_def closeRefreshAdmission_def endContext_def Let_def)

lemma quota_step_ok:
  assumes "quota_step s s'" "quotaOK s"
  shows "quotaOK s'"
  using assms(1)
proof cases
  case worker
  with worker_step_ok assms(2) show ?thesis by blast
next
  case (start now a r)
  with quotaOK_start [OF assms(2)] show ?thesis by (cases r) simp
next
  case (cleanup now)
  with quotaOK_cleanup [OF assms(2)] show ?thesis by simp
qed (auto intro!: quotaOK_same [OF assms(2)] simp: attachRefreshWorkerLifecycle_def closeRefreshAdmission_def life_same)

lemma quotaOK_new: "quotaOK newQuotaService"
proof -
  have "holders Map.empty = {}" by (simp add: holders_def)
  with newStore_ok show ?thesis
    by (simp add: quotaOK_def newQuotaService_def poolOK_def newRefreshTaskStore_def)
qed

lemma quota_reachable_ok:
  assumes "quota_reachable s"
  shows "quotaOK s"
  using assms unfolding quota_reachable_def
proof (induction rule: rtranclp_induct)
  case base
  show ?case by (rule quotaOK_new)
next
  case (step t u)
  then show ?case using quota_step_ok by blast
qed

section \<open>The workers' steps end\<close>

fun rank :: "workerPhase \<Rightarrow> nat" where
  "rank Spawned = 5"
| "rank (Waiting c) = 4"
| "rank (HasToken c) = 3"
| "rank (Checking c a) = 2"
| "rank Releasing = 1"

definition work :: "(string \<rightharpoonup> workerPhase) \<Rightarrow> nat" where
  "work m = (\<Sum>i \<in> dom m. rank (the (m i)))"

lemma work_upd:
  assumes "finite (dom m)" "m i = Some p"
  shows "work (m(i \<mapsto> p')) + rank p = work m + rank p'"
proof -
  have i: "i \<in> dom m" using assms by auto
  have "work (m(i \<mapsto> p')) = rank p' + (\<Sum>j \<in> dom m - {i}. rank (the (m j)))"
    using assms i by (simp add: work_def insert_absorb sum.remove [OF _ i] cong: sum.cong_simp)
  moreover have "work m = rank p + (\<Sum>j \<in> dom m - {i}. rank (the (m j)))"
    using assms by (simp add: work_def sum.remove [OF _ i])
  ultimately show ?thesis by simp
qed

lemma work_del:
  assumes "finite (dom m)" "m i = Some p"
  shows "work (m(i := None)) + rank p = work m"
proof -
  have i: "i \<in> dom m" using assms by auto
  have "work (m(i := None)) = (\<Sum>j \<in> dom m - {i}. rank (the (m j)))"
    by (simp add: work_def cong: sum.cong_simp)
  moreover have "work m = rank p + (\<Sum>j \<in> dom m - {i}. rank (the (m j)))"
    using assms by (simp add: work_def sum.remove [OF _ i])
  ultimately show ?thesis by simp
qed

lemma work_le:
  assumes "finite (dom m)"
  shows "work m \<le> 5 * card (dom m)"
proof -
  have "rank p \<le> 5" for p by (cases p) simp_all
  then have "work m \<le> (\<Sum>i \<in> dom m. 5)" unfolding work_def by (intro sum_mono)
  then show ?thesis by simp
qed

lemma finite_workers: "quotaOK s \<Longrightarrow> finite (dom (qs_workers s))"
  by (simp add: quotaOK_def poolOK_def)

lemma rank_pos: "0 < rank p" by (cases p) simp_all

lemma work_upd_less: "finite (dom m) \<Longrightarrow> m i = Some p \<Longrightarrow> rank p' < rank p \<Longrightarrow> work (m(i \<mapsto> p')) < work m"
  using work_upd [of m i p p'] by simp

lemma work_del_less: "finite (dom m) \<Longrightarrow> m i = Some p \<Longrightarrow> work (m(i := None)) < work m"
  using work_del [of m i p] rank_pos [of p] by simp

lemma worker_step_work:
  assumes ok: "quotaOK s" and step: "worker_step s s'"
  shows "work (qs_workers s') < work (qs_workers s)"
  by (rule worker_stepE [OF step])
    (auto simp: worker_defs work_upd_less [OF finite_workers [OF ok]] work_del_less [OF finite_workers [OF ok]]
       split: option.splits workerPhase.splits if_splits prod.splits)

text \<open>While a worker remains, some worker can move: with all tokens taken, a holder can.\<close>

lemma holder_moves:
  assumes ok: "quotaOK s" and h: "i \<in> holders (qs_workers s)"
  shows "\<exists>s'. worker_step s s'"
proof -
  from h obtain p where w: "qs_workers s i = Some p" "holdsToken p" by (auto simp: holders_def)
  show ?thesis
  proof (cases p)
    case (HasToken c)
    with w have "\<exists>s'. workerMarkRunning 0 i s = Some s'"
      by (auto simp: workerMarkRunning_def split: option.split prod.split)
    then show ?thesis by (auto intro: mark)
  next
    case (Checking c a)
    with w have "\<exists>s'. workerRecord (\<lambda>a. fst (quotaCheck repo registry env at0 a)) 0 i s = Some s'"
      for repo registry env at0 by (simp add: workerRecord_def)
    then show ?thesis using record_result [where now = 0] by blast
  next
    case Releasing
    with w have "\<exists>s'. workerRelease i s = Some s'" by (simp add: workerRelease_def)
    then show ?thesis by (auto intro: release)
  qed (use w in simp_all)
qed

lemma workers_move:
  assumes ok: "quotaOK s" and some: "qs_refreshWorkerWG s \<noteq> 0"
  shows "\<exists>s'. worker_step s s'"
proof (cases "holders (qs_workers s) = {}")
  case False
  with holder_moves [OF ok] show ?thesis by auto
next
  case True
  from ok have tokens: "qs_refreshWorkerTokens s = 0" using True by (simp add: quotaOK_def poolOK_def)
  from ok some have "dom (qs_workers s) \<noteq> {}" by (auto simp: quotaOK_def poolOK_def)
  then obtain i p where w: "qs_workers s i = Some p" by (metis domIff all_not_in_conv option.exhaust)
  from True w have "\<not> holdsToken p" by (auto simp: holders_def)
  then show ?thesis
  proof (cases p)
    case Spawned
    with w have "\<exists>s'. workerReadContext i s = Some s'" by (simp add: workerReadContext_def)
    then show ?thesis by (auto intro: read)
  next
    case (Waiting c)
    with w tokens have "\<exists>s'. workerTakeToken i s = Some s'"
      by (simp add: workerTakeToken_def defaultRefreshWorkerLimit_def)
    then show ?thesis by (auto intro: take)
  qed simp_all
qed

lemma worker_steps_ok:
  "(worker_step ^^ n) s s' \<Longrightarrow> quotaOK s \<Longrightarrow> quotaOK s' \<and> work (qs_workers s') + n \<le> work (qs_workers s)"
proof (induction n arbitrary: s')
  case 0
  then show ?case by simp
next
  case (Suc n)
  then obtain t where "(worker_step ^^ n) s t" and step: "worker_step t s'" by auto
  with Suc have t: "quotaOK t" "work (qs_workers t) + n \<le> work (qs_workers s)" by auto
  with worker_step_ok [OF step] worker_step_work [OF t(1) step] show ?case by simp
qed

lemma no_workers_no_active:
  assumes "quotaOK s" "qs_refreshWorkerWG s = 0"
  shows "ts_tasks (qs_refreshTasks s) i = Some t \<Longrightarrow> \<not> isActive t" "qs_refreshWorkerTokens s = 0"
proof -
  from assms have none: "qs_workers s = Map.empty" by (auto simp: quotaOK_def poolOK_def)
  then have "holders (qs_workers s) = {}" by (simp add: holders_def)
  with assms show "qs_refreshWorkerTokens s = 0" by (simp add: quotaOK_def poolOK_def)
  show "\<not> isActive t" if "ts_tasks (qs_refreshTasks s) i = Some t"
    using assms fits_of [of s i] none that by (simp add: quotaOK_def)
qed

section \<open>The life of a task\<close>

definition taskEdge :: "duration \<Rightarrow> refreshTask \<Rightarrow> refreshTask \<Rightarrow> bool" where
  "taskEdge ttl t u \<longleftrightarrow>
     u = t \<or>
     rt_TaskID u = rt_TaskID t \<and> rt_AuthIndex u = rt_AuthIndex t \<and> rt_CreatedAt u = rt_CreatedAt t \<and>
     (rt_Status t, rt_Status u) \<in> {(Queued, Running), (Queued, Failed), (Running, Completed), (Running, Failed)} \<and>
     (rt_Status u \<noteq> Running \<longrightarrow> rt_ExpiresAt u = rt_FinishedAt u + ttl)"

definition keepsTasks :: "refreshTaskStore \<Rightarrow> refreshTaskStore \<Rightarrow> bool" where
  "keepsTasks st st' \<longleftrightarrow> (\<forall>i t. ts_tasks st i = Some t \<longrightarrow> (\<exists>u. ts_tasks st' i = Some u \<and> taskEdge (ts_ttl st) t u))"

lemma keepsTasks_refl: "keepsTasks st st"
  by (simp add: keepsTasks_def taskEdge_def)

lemma keepsTasks_upd:
  "ts_tasks st i = Some t \<Longrightarrow> taskEdge (ts_ttl st) t u \<Longrightarrow> ts_tasks st' = (ts_tasks st)(i \<mapsto> u) \<Longrightarrow> keepsTasks st st'"
  by (auto simp: keepsTasks_def taskEdge_def)

lemma keepsTasks_markFailed:
  "ts_tasks st i = Some t \<Longrightarrow> isActive t \<Longrightarrow> keepsTasks st (markFailed now i m st)"
  by (rule keepsTasks_upd) (auto simp: markFailed_def taskEdge_def isActive_def)

lemma keepsTasks_markCompleted:
  "ts_tasks st i = Some t \<Longrightarrow> rt_Status t = Running \<Longrightarrow> keepsTasks st (markCompleted now i r st)"
  by (rule keepsTasks_upd) (auto simp: markCompleted_def taskEdge_def)

lemma keepsTasks_markRunning: "markRunning now i st = (r, st') \<Longrightarrow> keepsTasks st st'"
proof (cases "ts_tasks st i")
  case (Some t)
  assume m: "markRunning now i st = (r, st')"
  show ?thesis
  proof (cases "rt_Status t = Queued")
    case True
    with m Some have "ts_tasks st' = (ts_tasks st)(i \<mapsto> t\<lparr>rt_Status := Running, rt_StartedAt := now\<rparr>)"
      by (auto simp: markRunning_def)
    with True show ?thesis by (intro keepsTasks_upd [OF Some]) (auto simp: taskEdge_def)
  next
    case False
    with m Some show ?thesis by (simp add: markRunning_def keepsTasks_refl)
  qed
qed (simp add: markRunning_def keepsTasks_refl)

lemma worker_step_keeps:
  assumes ok: "quotaOK s" and step: "worker_step s s'"
  shows "keepsTasks (qs_refreshTasks s) (qs_refreshTasks s')"
proof -
  from ok have pool: "poolOK s" by (simp add: quotaOK_def)
  from step show ?thesis
  proof cases
    case (give_up now i)
    then obtain c err where w: "qs_workers s i = Some (Waiting c)"
      and s': "qs_refreshTasks s' = markFailed now i (refreshTaskErrorMessage err) (qs_refreshTasks s)"
      by (auto simp: workerGiveUp_def split: option.splits workerPhase.splits)
    from queued_of [OF pool w] show ?thesis by (auto simp: s' isActive_def intro!: keepsTasks_markFailed)
  next
    case (mark now i)
    then obtain r where "markRunning now i (qs_refreshTasks s) = (r, qs_refreshTasks s')"
      by (auto simp: workerMarkRunning_def split: option.splits workerPhase.splits prod.splits)
    then show ?thesis by (rule keepsTasks_markRunning)
  next
    case (record_result repo registry env at0 now i)
    then obtain c a where w: "qs_workers s i = Some (Checking c a)"
      by (auto simp: workerRecord_def split: option.splits workerPhase.splits)
    from running_of [OF pool w] obtain t where "ts_tasks (qs_refreshTasks s) i = Some t" "rt_Status t = Running" by auto
    moreover have "isActive t" using calculation by (simp add: isActive_def)
    ultimately show ?thesis using record_result w
      by (auto simp: workerRecord_def keepsTasks_markFailed keepsTasks_markCompleted split: sum.splits)
  qed (auto simp: workerReadContext_def workerTakeToken_def workerRelease_def keepsTasks_refl
         split: option.splits workerPhase.splits if_splits)
qed

lemma start_keeps:
  assumes ok: "quotaOK s" and seq: "ts_seq (qs_refreshTasks s) \<noteq> - 1"
    and step: "startRefreshTask now a s = ((task, rejection), s')"
  shows "keepsTasks (qs_refreshTasks s) (qs_refreshTasks s')"
  using step
proof (cases rule: startRefreshTask_cases)
  case (started i)
  from ok have st: "storeOK (qs_refreshTasks s)" by (simp add: quotaOK_def)
  from started enqueue_fresh [OF st seq] show ?thesis
    by (auto simp: keepsTasks_def taskEdge_def)
qed (simp_all add: keepsTasks_refl)

text \<open>The time a task is kept after its end is the configured one throughout.\<close>

lemma worker_step_ttl: "worker_step s s' \<Longrightarrow> ts_ttl (qs_refreshTasks s') = ts_ttl (qs_refreshTasks s)"
  by (erule worker_stepE)
    (auto simp: worker_defs markFailed_def markCompleted_def markRunning_def
      split: option.splits workerPhase.splits if_splits prod.splits sum.splits)

lemma quota_step_ttl: "quota_step s s' \<Longrightarrow> ts_ttl (qs_refreshTasks s') = ts_ttl (qs_refreshTasks s)"
proof (erule quota_stepE)
  fix now a r
  assume "startRefreshTask now a s = (r, s')"
  then show ?thesis by (cases r) (auto elim!: startRefreshTask_cases)
qed (auto simp: worker_step_ttl cleanupTasks_def cleanupExpiredTasks_def attachRefreshWorkerLifecycle_def
  closeRefreshAdmission_def life_same)

lemma quota_reachable_ttl: "quota_reachable s \<Longrightarrow> ts_ttl (qs_refreshTasks s) = defaultRefreshTaskTTL"
  unfolding quota_reachable_def
  by (induction rule: rtranclp_induct) (simp_all add: quota_step_ttl newQuotaService_def newRefreshTaskStore_def)

text \<open>
  A step leaves a task, moves it forward, or is a clean-up that removes it once it has ended and
  expired.
\<close>

lemma quota_step_task:
  assumes ok: "quotaOK s" and step: "quota_step s s'" and t: "ts_tasks (qs_refreshTasks s) i = Some t"
  shows "case ts_tasks (qs_refreshTasks s') i of
           None \<Rightarrow> \<not> isActive t \<and> (\<exists>now. s' = cleanupTasks now s \<and> expired now t)
         | Some u \<Rightarrow> taskEdge (ts_ttl (qs_refreshTasks s)) t u"
proof -
  have keep: ?thesis if "keepsTasks (qs_refreshTasks s) (qs_refreshTasks s')"
    using that t unfolding keepsTasks_def by fastforce
  from step show ?thesis
  proof cases
    case worker
    with worker_step_keeps [OF ok] keep show ?thesis by blast
  next
    case (start now a r)
    with start_keeps [OF ok] keep show ?thesis by (cases r) blast
  next
    case (cleanup now)
    from ok t have "taskOK (qs_refreshTasks s) i t" by (simp add: quotaOK_def storeOK_def)
    with expired_inactive [OF this, of now] cleanup t show ?thesis
      by (auto simp: cleanupTasks_def cleanupExpiredTasks_def taskEdge_def)
  qed (rule keep, simp add: attachRefreshWorkerLifecycle_def closeRefreshAdmission_def life_same keepsTasks_refl)+
qed

end
