(* ===== verification/QuotaRefresh.thy ===== *)
theory QuotaRefresh
  imports QuotaRuns "HOL-Library.Multiset"
begin

text \<open>
  The admission of a batch of refreshes, and the properties of the quota service: what a batch
  answers, what a task goes through, how many checks run at once, and how the workers stop.
\<close>

section \<open>A batch\<close>

definition acceptedOK :: "refreshEnv \<Rightarrow> refreshResponse \<Rightarrow> bool" where
  "acceptedOK env r \<longleftrightarrow>
     distinct (map fst (rr_Tasks r)) \<and> rr_Accepted r = int (length (rr_Tasks r)) \<and> rr_Accepted r \<le> rr_Limit r \<and>
     (\<forall>(a, i) \<in> set (rr_Tasks r). a \<noteq> [] \<and> validateRefreshAuthIndex (re_repository env) (re_registry env) a = Inr [])"

definition rejectedOK :: "refreshEnv \<Rightarrow> string \<times> string \<Rightarrow> bool" where
  "rejectedOK env = (\<lambda>(a, code). code \<in> {''invalid'', ''duplicate'', refreshUnavailableCode} \<or>
     code \<noteq> [] \<and> validateRefreshAuthIndex (re_repository env) (re_registry env) a = Inr code)"

definition answered :: "refreshResponse \<Rightarrow> string multiset" where
  "answered r = mset (map fst (rr_Tasks r)) + mset (map fst (rr_Rejected r))"

lemma reject_sel [simp]:
  "rr_Tasks (reject a c r) = rr_Tasks r" "rr_Accepted (reject a c r) = rr_Accepted r"
  "rr_Limit (reject a c r) = rr_Limit r" "rr_Rejected (reject a c r) = rr_Rejected r @ [(a, c)]"
  by (simp_all add: reject_def)

lemma start_rejections:
  "startRefreshTask now a s = ((task, rejection), s') \<Longrightarrow>
     rejection \<in> {[], ''duplicate'', refreshUnavailableCode} \<and> (rejection = [] \<longrightarrow> task \<noteq> None)"
  by (erule startRefreshTask_cases) (simp_all add: refreshUnavailableCode_def)

lemma refreshItems_answer:
  assumes "refreshItems env limit items seen r s = (Inr r', s')"
    and "acceptedOK env r" "fst ` set (rr_Tasks r) \<subseteq> seen" "rr_Limit r = limit"
    and "\<forall>e \<in> set (rr_Rejected r). rejectedOK env e"
  shows "acceptedOK env r' \<and> rr_Limit r' = limit \<and> (\<forall>e \<in> set (rr_Rejected r'). rejectedOK env e) \<and>
    answered r' = answered r + mset (map trimSpace items)"
  using assms
proof (induction items arbitrary: seen r s)
  case Nil
  then show ?case by simp
next
  case (Cons raw rest)
  let ?a = "trimSpace raw" and ?n = "length rest"
  let ?s = "re_others env ?n s"
  have skip: ?case if res: "refreshItems env limit rest seen' (reject ?a code r) t = (Inr r', s')"
      and sub: "seen \<subseteq> seen'" and code: "rejectedOK env (?a, code)" for seen' code t
  proof -
    have "acceptedOK env (reject ?a code r)" using Cons.prems(2) by (simp add: acceptedOK_def)
    moreover have "answered (reject ?a code r) = answered r + {# ?a #}" by (simp add: answered_def)
    ultimately show ?thesis using Cons.IH [OF res] Cons.prems sub code by auto
  qed
  show ?case
  proof (cases "?a = [] \<or> ?a \<in> seen \<or> limit \<le> rr_Accepted r")
    case True
    then obtain seen' code t where "refreshItems env limit rest seen' (reject ?a code r) t = (Inr r', s')"
      "seen \<subseteq> seen'" "code \<in> {''invalid'', ''duplicate''}"
      using Cons.prems(1) by (auto simp: Let_def split: if_splits)
    then show ?thesis by (intro skip) (auto simp: rejectedOK_def)
  next
    case False
    then have room: "rr_Accepted r < limit" and new: "?a \<noteq> []" "?a \<notin> seen" by auto
    let ?v = "validateRefreshAuthIndex (re_repository env) (re_registry env) ?a"
    from Cons.prems(1) False obtain v where v: "?v = Inr v"
      by (cases ?v) (auto simp: Let_def)
    obtain task rejection t where st: "startRefreshTask (re_clock env ?n) ?a ?s = ((task, rejection), t)"
      by (metis prod.exhaust)
    note rej = start_rejections [OF st]
    show ?thesis
    proof (cases "v = [] \<and> rejection = []")
      case False
      then obtain seen' code t' where "refreshItems env limit rest seen' (reject ?a code r) t' = (Inr r', s')"
        "seen \<subseteq> seen'" "rejectedOK env (?a, code)"
        using Cons.prems(1) room new v st rej
        by (cases "v = []") (auto simp: Let_def rejectedOK_def split: if_splits)
      then show ?thesis by (rule skip)
    next
      case True
      with rej obtain x where x: "task = Some x" by auto
      let ?r = "r\<lparr>rr_Tasks := rr_Tasks r @ [(?a, rt_TaskID x)], rr_Accepted := rr_Accepted r + 1\<rparr>"
      have res: "refreshItems env limit rest (insert ?a seen) ?r t = (Inr r', s')"
        using Cons.prems(1) room new v st True x by (simp add: Let_def)
      have "?a \<notin> fst ` set (rr_Tasks r)" using Cons.prems(3) new by auto
      then have "acceptedOK env ?r"
        using Cons.prems(2,4) room new v True by (auto simp: acceptedOK_def)
      moreover have "fst ` set (rr_Tasks ?r) \<subseteq> insert ?a seen" using Cons.prems(3) by auto
      moreover have "answered ?r = answered r + {# ?a #}" by (simp add: answered_def)
      ultimately show ?thesis using Cons.IH [OF res] Cons.prems(4,5) by auto
    qed
  qed
qed

text \<open>
  Why each account was answered as it was. A verdict is the account, the code it was rejected with
  (empty for an accepted one) and the service as the loop found it at that account; \<open>batchStates\<close>
  says that those are the states the run goes through: the others act, then an accepted account's
  task is started.
\<close>

type_synonym verdict = "string \<times> string \<times> quotaService"

definition admitted :: "verdict \<Rightarrow> bool" where
  "admitted v \<longleftrightarrow> fst (snd v) = []"

lemma admitted_iff [simp]: "admitted (a, code, t) \<longleftrightarrow> code = []"
  by (simp add: admitted_def)

fun batchStates :: "refreshEnv \<Rightarrow> quotaService \<Rightarrow> verdict list \<Rightarrow> quotaService \<Rightarrow> bool" where
  "batchStates env s [] s' \<longleftrightarrow> s' = s"
| "batchStates env s ((a, code, t) # vs) s' \<longleftrightarrow>
     t = re_others env (length vs) s \<and>
     batchStates env (if code = [] then snd (startRefreshTask (re_clock env (length vs)) a t) else t) vs s'"

definition takesWork :: "quotaService \<Rightarrow> bool" where
  "takesWork s \<longleftrightarrow> \<not> qs_refreshWorkersClose s \<and> ctxErr s (qs_refreshWorkerCtx s) = None"

text \<open>
  The cause of each code, given the accounts before this one and how many of them were accepted:
  the codes 'invalid', 'duplicate' and 'unavailable' are given exactly in these cases, any other is
  the one the validation gave, and an account is accepted exactly when none of this applies.
\<close>

definition verdictOK :: "refreshEnv \<Rightarrow> int \<Rightarrow> string set \<Rightarrow> int \<Rightarrow> verdict \<Rightarrow> bool" where
  "verdictOK env limit earlier taken v =
     (case v of (a, code, t) \<Rightarrow>
       let checked = validateRefreshAuthIndex (re_repository env) (re_registry env) a;
           considered = (a \<noteq> [] \<and> a \<notin> earlier \<and> taken < limit)
       in
       (code = ''invalid'' \<longleftrightarrow> a = [] \<or> a \<notin> earlier \<and> limit \<le> taken) \<and>
       (code = ''duplicate'' \<longleftrightarrow> a \<noteq> [] \<and> a \<in> earlier \<or>
          considered \<and> checked = Inr [] \<and> takesWork t \<and> activeTask a (qs_refreshTasks t) \<noteq> None) \<and>
       (code = refreshUnavailableCode \<longleftrightarrow> considered \<and> checked = Inr [] \<and> \<not> takesWork t) \<and>
       (code \<notin> {[], ''invalid'', ''duplicate'', refreshUnavailableCode} \<longleftrightarrow>
          considered \<and> checked \<noteq> Inr []) \<and>
       (considered \<and> checked \<noteq> Inr [] \<longrightarrow> checked = Inr code) \<and>
       (code = [] \<longleftrightarrow>
          considered \<and> checked = Inr [] \<and> takesWork t \<and> activeTask a (qs_refreshTasks t) = None))"

definition verdictsOK :: "refreshEnv \<Rightarrow> int \<Rightarrow> string set \<Rightarrow> int \<Rightarrow> verdict list \<Rightarrow> bool" where
  "verdictsOK env limit earlier taken vs \<longleftrightarrow>
     (\<forall>j < length vs. verdictOK env limit (earlier \<union> fst ` set (take j vs))
        (taken + int (length (filter admitted (take j vs)))) (vs ! j))"

lemma verdictsOK_Nil [simp]: "verdictsOK env limit earlier taken []"
  by (simp add: verdictsOK_def)

lemma verdictsOK_Cons:
  "verdictsOK env limit earlier taken (v # vs) \<longleftrightarrow>
     verdictOK env limit earlier taken v \<and>
     verdictsOK env limit (insert (fst v) earlier) (taken + (if admitted v then 1 else 0)) vs"
  unfolding verdictsOK_def length_Cons All_less_Suc2 by (simp add: add.assoc)

definition taskOf :: "verdict \<Rightarrow> string \<times> string" where
  "taskOf v = (fst v, quotaTaskID (ts_seq (qs_refreshTasks (snd (snd v))) + 1))"

definition rejectionOf :: "verdict \<Rightarrow> string \<times> string" where
  "rejectionOf v = (fst v, fst (snd v))"

lemma validate_codes:
  "validateRefreshAuthIndex repo registry a = Inr code \<Longrightarrow>
     code \<in> {[], ''unsupported'', ''not_auth_file'', ''not_found''}"
  by (auto simp: validateRefreshAuthIndex_def split: sum.splits option.splits if_splits)

text \<open>The start of a task, by its cause.\<close>

lemma start_verdict:
  assumes "startRefreshTask now a t = ((task, rejection), t')"
  shows "rejection = (if \<not> takesWork t then refreshUnavailableCode
      else if activeTask a (qs_refreshTasks t) \<noteq> None then ''duplicate'' else [])"
    and "rejection \<noteq> [] \<Longrightarrow> t' = t"
    and "rejection = [] \<Longrightarrow>
      \<exists>x. task = Some x \<and> rt_TaskID x = quotaTaskID (ts_seq (qs_refreshTasks t) + 1)"
  using assms
  by (auto simp: startRefreshTask_def takesWork_def enqueueTask_def Let_def refreshUnavailableCode_def
      queuedTask_def split: option.splits if_splits prod.splits)

lemma refreshItems_verdicts:
  assumes "refreshItems env limit items seen r s = (Inr r', s')"
    and "\<And>a. a \<noteq> [] \<Longrightarrow> a \<in> earlier \<longleftrightarrow> a \<in> seen"
  shows "\<exists>vs. map fst vs = map trimSpace items \<and> batchStates env s vs s' \<and>
    verdictsOK env limit earlier (rr_Accepted r) vs \<and>
    rr_Tasks r' = rr_Tasks r @ map taskOf (filter admitted vs) \<and>
    rr_Rejected r' = rr_Rejected r @ map rejectionOf (filter (\<lambda>v. \<not> admitted v) vs)"
  using assms
proof (induction items arbitrary: seen earlier r s)
  case Nil
  then show ?case by (intro exI [of _ "[]"]) simp
next
  case (Cons raw rest)
  let ?a = "trimSpace raw" and ?n = "length rest"
  let ?s = "re_others env ?n s"
  let ?v = "validateRefreshAuthIndex (re_repository env) (re_registry env) ?a"
  have extend: ?case
    if res: "refreshItems env limit rest seen' r1 s1 = (Inr r', s')"
      and seen': "\<And>a. a \<noteq> [] \<Longrightarrow> a \<in> insert ?a earlier \<longleftrightarrow> a \<in> seen'"
      and ok: "verdictOK env limit earlier (rr_Accepted r) (?a, code, ?s)"
      and s1: "s1 = (if code = [] then snd (startRefreshTask (re_clock env ?n) ?a ?s) else ?s)"
      and r1: "r1 = (if code = []
        then r\<lparr>rr_Tasks := rr_Tasks r @ [taskOf (?a, code, ?s)], rr_Accepted := rr_Accepted r + 1\<rparr>
        else reject ?a code r)"
    for seen' r1 s1 code
  proof -
    obtain vs where vs: "map fst vs = map trimSpace rest" "batchStates env s1 vs s'"
      "verdictsOK env limit (insert ?a earlier) (rr_Accepted r1) vs"
      "rr_Tasks r' = rr_Tasks r1 @ map taskOf (filter admitted vs)"
      "rr_Rejected r' = rr_Rejected r1 @ map rejectionOf (filter (\<lambda>v. \<not> admitted v) vs)"
      using Cons.IH [OF res seen'] by blast
    have len: "length vs = ?n" using vs(1) by (metis length_map)
    have acc: "rr_Accepted r1 = rr_Accepted r + (if admitted (?a, code, ?s) then 1 else 0)"
      by (simp add: r1)
    show ?thesis
      using vs ok s1 r1 len acc
      by (intro exI [of _ "(?a, code, ?s) # vs"]) (auto simp: verdictsOK_Cons rejectionOf_def)
  qed
  have seen1: "a \<in> insert ?a earlier \<longleftrightarrow> a \<in> insert ?a seen" if "a \<noteq> []" for a
    using Cons.prems(2) [OF that] by simp
  show ?case
  proof (cases "?a = [] \<or> ?a \<in> seen \<or> limit \<le> rr_Accepted r")
    case True
    define code where "code = (if ?a = [] then ''invalid'' else if ?a \<in> seen then ''duplicate'' else ''invalid'')"
    obtain seen' where res: "refreshItems env limit rest seen' (reject ?a code r) ?s = (Inr r', s')"
      and seen': "seen' = (if ?a = [] \<or> ?a \<in> seen then seen else insert ?a seen)"
      using Cons.prems(1) True by (auto simp: code_def Let_def split: if_splits)
    show ?thesis
    proof (rule extend [OF res])
      show "a \<in> insert ?a earlier \<longleftrightarrow> a \<in> seen'" if "a \<noteq> []" for a
        using Cons.prems(2) [OF that] that seen' by auto
      show "verdictOK env limit earlier (rr_Accepted r) (?a, code, ?s)"
        using True Cons.prems(2) [of ?a]
        by (auto simp: verdictOK_def code_def refreshUnavailableCode_def Let_def)
    qed (simp_all add: code_def)
  next
    case False
    then have new: "?a \<noteq> []" "?a \<notin> earlier" "?a \<notin> seen" "rr_Accepted r < limit"
      using Cons.prems(2) [of ?a] by auto
    from Cons.prems(1) new obtain v where v: "?v = Inr v" by (cases ?v) (auto simp: Let_def)
    obtain task rejection t where st: "startRefreshTask (re_clock env ?n) ?a ?s = ((task, rejection), t)"
      by (metis prod.exhaust)
    define code where "code = (if v \<noteq> [] then v else rejection)"
    have ok: "verdictOK env limit earlier (rr_Accepted r) (?a, code, ?s)"
      using new v validate_codes [OF v] start_verdict(1) [OF st]
      by (auto simp: verdictOK_def code_def refreshUnavailableCode_def Let_def)
    show ?thesis
    proof (cases "code = []")
      case True
      then have c: "v = []" "rejection = []" by (simp_all add: code_def split: if_splits)
      obtain x where x: "task = Some x" "rt_TaskID x = quotaTaskID (ts_seq (qs_refreshTasks ?s) + 1)"
        using start_verdict(3) [OF st c(2)] by blast
      have res: "refreshItems env limit rest (insert ?a seen)
          (r\<lparr>rr_Tasks := rr_Tasks r @ [taskOf (?a, code, ?s)], rr_Accepted := rr_Accepted r + 1\<rparr>) t = (Inr r', s')"
        using Cons.prems(1) new v c st x by (simp add: taskOf_def Let_def)
      show ?thesis by (rule extend [OF res seen1 ok]) (simp_all add: True st)
    next
      case False
      have res: "refreshItems env limit rest (insert ?a seen) (reject ?a code r) ?s = (Inr r', s')"
        using Cons.prems(1) new v st False start_verdict(2) [OF st] by (auto simp: code_def Let_def split: if_splits)
      show ?thesis by (rule extend [OF res seen1 ok]) (simp_all add: False)
    qed
  qed
qed

text \<open>
  The steps of a batch are steps of the service, if what the others do is: each of them adds at
  most \<open>k\<close> tasks, and the sequence is not used up.
\<close>

definition othersOK :: "refreshEnv \<Rightarrow> nat \<Rightarrow> bool" where
  "othersOK env k \<longleftrightarrow> (\<forall>n t. quota_step\<^sup>*\<^sup>* t (re_others env n t) \<and>
     unat (ts_seq (qs_refreshTasks (re_others env n t))) \<le> unat (ts_seq (qs_refreshTasks t)) + k)"

lemma unat_minus_one_word64: "unat (- 1 :: 64 word) = 2 ^ 64 - 1"
  by (simp add: unsigned_minus_1_eq_mask mask_eq_exp_minus_1)

lemma start_seq:
  "startRefreshTask now a s = (r, s') \<Longrightarrow> ts_seq (qs_refreshTasks s) \<noteq> - 1
    \<Longrightarrow> unat (ts_seq (qs_refreshTasks s')) \<le> unat (ts_seq (qs_refreshTasks s)) + 1"
  by (cases r, cases "fst r") (auto elim!: startRefreshTask_cases simp: unat_succ)

lemma refreshItems_steps:
  assumes "refreshItems env limit items seen r s = (res, s')" "othersOK env k"
    and "unat (ts_seq (qs_refreshTasks s)) + (k + 1) * length items < 2 ^ 64 - 1"
  shows "quota_step\<^sup>*\<^sup>* s s'"
  using assms
proof (induction items arbitrary: seen r s)
  case Nil
  then show ?case by simp
next
  case (Cons raw rest)
  let ?n = "length rest"
  let ?s = "re_others env ?n s"
  obtain task rejection t where st: "startRefreshTask (re_clock env ?n) (trimSpace raw) ?s = ((task, rejection), t)"
    by (metis prod.exhaust)
  from Cons.prems(2) have others: "quota_step\<^sup>*\<^sup>* s ?s"
    and grow: "unat (ts_seq (qs_refreshTasks ?s)) \<le> unat (ts_seq (qs_refreshTasks s)) + k"
    by (simp_all add: othersOK_def)
  have small: "unat (ts_seq (qs_refreshTasks ?s)) + 1 + (k + 1) * ?n < 2 ^ 64 - 1"
    using grow Cons.prems(3) by simp
  then have seq: "ts_seq (qs_refreshTasks ?s) \<noteq> - 1" using unat_minus_one_word64 by auto
  from start [OF st seq] others have started: "quota_step\<^sup>*\<^sup>* s t" by (rule rtranclp.rtrancl_into_rtrancl [rotated])
  have smallt: "unat (ts_seq (qs_refreshTasks t)) + (k + 1) * ?n < 2 ^ 64 - 1"
    using start_seq [OF st seq] small by simp
  have cont: "quota_step\<^sup>*\<^sup>* s s'" if "refreshItems env limit rest seen' r' u = (res, s')"
    "u = ?s \<or> u = t" for seen' r' u
  proof -
    have "quota_step\<^sup>*\<^sup>* s u" using that(2) others started by auto
    moreover have "quota_step\<^sup>*\<^sup>* u s'" using Cons.IH [OF that(1) Cons.prems(2)] that(2) small smallt by auto
    ultimately show ?thesis by (rule rtranclp_trans)
  qed
  from Cons.prems(1) have "(\<exists>seen' r' u. refreshItems env limit rest seen' r' u = (res, s') \<and> (u = ?s \<or> u = t))
      \<or> s' = ?s \<or> s' = t"
    using st by (fastforce simp: Let_def split: if_splits sum.splits option.splits)
  with cont others started show ?case by blast
qed

lemma quotaRefresh_steps:
  assumes "quotaRefresh env now items limit s = (res, s')" "othersOK env k"
    and "unat (ts_seq (qs_refreshTasks s)) + (k + 1) * length items < 2 ^ 64 - 1"
  shows "quota_step\<^sup>*\<^sup>* s s'"
proof (cases "limit \<le> 0")
  case True
  with assms show ?thesis by (simp add: quotaRefresh_def)
next
  case False
  let ?r = "\<lparr>rr_Tasks = [], rr_Rejected = [], rr_Accepted = 0, rr_Skipped = 0, rr_Limit = limit\<rparr>"
  obtain res' where "refreshItems env limit items {} ?r (cleanupTasks now s) = (res', s')"
    using assms(1) False by (auto simp: quotaRefresh_def split: prod.splits sum.splits)
  from refreshItems_steps [OF this assms(2)] assms(3) have "quota_step\<^sup>*\<^sup>* (cleanupTasks now s) s'"
    by (simp add: cleanupTasks_def cleanupExpiredTasks_def)
  with cleanup show ?thesis by (rule converse_rtranclp_into_rtranclp)
qed

section \<open>Concrete values\<close>

text \<open>Two accounts, one of a provider that needs a project and has none.\<close>

definition exampleIdentity :: "string \<Rightarrow> quotaIdentity" where
  "exampleIdentity provider = \<lparr>qi_ID = 7, qi_Identity = ''a'', qi_Provider = provider, qi_Type = [],
     qi_ProjectID = None, qi_AccountID = None\<rparr>"

definition exampleRepository :: quotaRepository where
  "exampleRepository =
     \<lparr>qp_FindActiveAuthFileIdentity = (\<lambda>a. Inr (if a = ''a'' then Some (exampleIdentity ''kimi'')
        else if a = ''b'' then Some (exampleIdentity ''gemini-cli'') else None)),
      qp_HasActiveIdentity = (\<lambda>a. Inr (a = ''k'')), qp_SaveQuotaObservation = (\<lambda>i r. None),
      qp_ListQuotaObservations = (\<lambda>l n. Inr None)\<rparr>"

definition exampleRegistry :: providerRegistry where
  "exampleRegistry = newDefaultProviderRegistry defaultProviderConfigs"

definition exampleRefreshEnv :: refreshEnv where
  "exampleRefreshEnv = \<lparr>re_repository = exampleRepository, re_registry = exampleRegistry,
     re_others = (\<lambda>n s. s), re_clock = (\<lambda>n. 0)\<rparr>"

definition oneTask :: quotaService where
  "oneTask = snd (startRefreshTask 0 ''a'' newQuotaService)"

lemma oneTask_started:
  "startRefreshTask 0 ''a'' newQuotaService = ((Some (queuedTask (quotaTaskID 1) ''a'' 0), []), oneTask)"
  by (simp add: oneTask_def startRefreshTask_def enqueueTask_def activeTask_def newQuotaService_def
      newRefreshTaskStore_def ctxErr_def Let_def)

lemma oneTask_step: "quota_step newQuotaService oneTask"
  by (rule start [OF oneTask_started]) (simp add: newQuotaService_def newRefreshTaskStore_def)

lemma oneTask_reachable: "quota_reachable oneTask"
  unfolding quota_reachable_def using oneTask_step by (rule r_into_rtranclp)

lemma oneTask_task: "ts_tasks (qs_refreshTasks oneTask) (quotaTaskID 1) = Some (queuedTask (quotaTaskID 1) ''a'' 0)"
  by (simp add: oneTask_def startRefreshTask_def enqueueTask_def activeTask_def newQuotaService_def
      newRefreshTaskStore_def ctxErr_def Let_def)

section \<open>The registry\<close>

lemma normalize_names:
  "normalizeIdentityType ''antigravity'' = ''antigravity''" "normalizeIdentityType ''codex'' = ''codex''"
  "normalizeIdentityType ''gemini-cli'' = ''gemini-cli''" "normalizeIdentityType ''claude'' = ''claude''"
  "normalizeIdentityType ''kimi'' = ''kimi''"
  by code_simp+

lemma defaultRegistry:
  "registryProvider (newDefaultProviderRegistry c) ''antigravity'' = Some (antigravityCheck (pc_Antigravity c))"
  "registryProvider (newDefaultProviderRegistry c) ''gemini-cli'' =
     Some (geminiCLICheck (pc_GeminiCLI c) (pc_GeminiCLICodeAssist c))"
  by (simp_all add: registryProvider_def newDefaultProviderRegistry_def normalize_names)

lemma resolve_provider:
  assumes "normalizeIdentityType provider = p" "p \<noteq> []" "registryProvider registry p = Some handler"
  shows "resolveQuotaHandler registry provider identityType = Some (p, handler)"
  using assms by (simp add: resolveQuotaHandler_def resolveQuotaIdentityTypes_def Let_def)

lemma missing_project_message:
  "refreshTaskErrorMessage (providerInput ''missing project_id parameter'') = ''missing project_id parameter''"
  by code_simp

section \<open>Properties\<close>

text \<open>
  C19. In every reachable state of the quota service at most five checks run at once and no more
  than five tokens are out; an account has at most one active task, and the index leads to it;
  every active task has a worker; a task that has ended carries the time it expires, and only a
  completed task carries quota rows, of which there is at least one; no index entry outlives its task.
\<close>
theorem quotaService_wellformed:
  assumes "quota_reachable s"
  shows "qs_refreshWorkerTokens s \<le> 5 \<and>
    card {i. \<exists>t. ts_tasks (qs_refreshTasks s) i = Some t \<and> rt_Status t = Running} \<le> 5 \<and>
    (\<forall>i t. ts_tasks (qs_refreshTasks s) i = Some t \<longrightarrow> rt_TaskID t = i \<and>
      (if isActive t then qs_workers s i \<noteq> None \<and> ts_activeTaskIDsByAuth (qs_refreshTasks s) (rt_AuthIndex t) = Some i
       else \<not> isZero (rt_ExpiresAt t)) \<and>
      (\<forall>q. rt_Quota t = Some q \<longrightarrow> rt_Status t = Completed \<and> cr_Quota q \<noteq> [])) \<and>
    (\<forall>a i. ts_activeTaskIDsByAuth (qs_refreshTasks s) a = Some i \<longrightarrow>
      (\<exists>t. ts_tasks (qs_refreshTasks s) i = Some t \<and> rt_AuthIndex t = a)) \<and>
    (\<forall>i t j u. ts_tasks (qs_refreshTasks s) i = Some t \<and> isActive t \<and>
      ts_tasks (qs_refreshTasks s) j = Some u \<and> isActive u \<and> rt_AuthIndex t = rt_AuthIndex u \<longrightarrow> i = j)"
proof -
  from quota_reachable_ok [OF assms] have pool: "poolOK s" and store: "storeOK (qs_refreshTasks s)"
    by (simp_all add: quotaOK_def)
  let ?run = "{i. \<exists>t. ts_tasks (qs_refreshTasks s) i = Some t \<and> rt_Status t = Running}"
  have tokens: "qs_refreshWorkerTokens s \<le> 5" using poolOK_limit [OF pool] by (simp add: defaultRefreshWorkerLimit_def)
  have "?run \<subseteq> holders (qs_workers s)"
  proof
    fix i assume "i \<in> ?run"
    then obtain t where t: "ts_tasks (qs_refreshTasks s) i = Some t" "rt_Status t = Running" by auto
    from fits_of [OF pool, of i] t show "i \<in> holders (qs_workers s)"
      by (cases "(qs_workers s i, Some t)" rule: phaseFits.cases) (auto simp: holders_def isActive_def)
  qed
  then have "card ?run \<le> card (holders (qs_workers s))" by (rule card_mono [OF poolOK_finite [OF pool]])
  then have run: "card ?run \<le> 5" using pool tokens by (simp add: poolOK_def)
  have task: "taskOK (qs_refreshTasks s) i t" if "ts_tasks (qs_refreshTasks s) i = Some t" for i t
    using store that by (simp add: storeOK_def)
  have worker: "qs_workers s i \<noteq> None" if "ts_tasks (qs_refreshTasks s) i = Some t" "isActive t" for i t
    using fits_of [OF pool, of i] that by (cases "qs_workers s i") auto
  have one: "i = j" if "ts_tasks (qs_refreshTasks s) i = Some t \<and> isActive t \<and>
      ts_tasks (qs_refreshTasks s) j = Some u \<and> isActive u \<and> rt_AuthIndex t = rt_AuthIndex u" for i t j u
    using task [of i t] task [of j u] that by (simp add: taskOK_def)
  show ?thesis
    by (intro conjI tokens run allI impI; (rule one, assumption)?) (use task worker storeOK_index [OF store] in \<open>auto simp: taskOK_def\<close>)
qed

lemma quotaService_wellformed_witness:
  "qs_refreshWorkerTokens oneTask \<le> 5 \<and> isActive (queuedTask (quotaTaskID 1) ''a'' 0) \<and>
   ts_activeTaskIDsByAuth (qs_refreshTasks oneTask) ''a'' = Some (quotaTaskID 1)"
  using quotaService_wellformed [OF oneTask_reachable] oneTask_task by fastforce

text \<open>
  C20. A task only moves from queued to running or failed and from running to completed or failed,
  keeping its name, account and creation time, and when it ends it gets an expiry twenty minutes after
  its end; what has ended never changes again. Only a clean-up removes a task, and a clean-up at any
  instant removes exactly the tasks that have ended and whose expiry is not after that instant.
\<close>
theorem quotaTask_lifecycle:
  assumes "quota_reachable s" and "quota_step s s'" and "ts_tasks (qs_refreshTasks s) i = Some t"
  shows "(case ts_tasks (qs_refreshTasks s') i of
      None \<Rightarrow> rt_Status t \<in> {Completed, Failed} \<and> (\<exists>now. s' = cleanupTasks now s \<and> rt_ExpiresAt t \<le> now)
    | Some u \<Rightarrow> u = t \<or>
        rt_TaskID u = rt_TaskID t \<and> rt_AuthIndex u = rt_AuthIndex t \<and> rt_CreatedAt u = rt_CreatedAt t \<and>
        (rt_Status t, rt_Status u) \<in> {(Queued, Running), (Queued, Failed), (Running, Completed), (Running, Failed)} \<and>
        (rt_Status u \<noteq> Running \<longrightarrow> rt_ExpiresAt u = rt_FinishedAt u + 20 * minute)) \<and>
    (\<forall>now. ts_tasks (qs_refreshTasks (cleanupTasks now s)) i =
       (if rt_Status t \<in> {Completed, Failed} \<and> rt_ExpiresAt t \<le> now then None else Some t))"
proof -
  have ok: "quotaOK s" by (rule quota_reachable_ok [OF assms(1)])
  have ttl: "ts_ttl (qs_refreshTasks s) = 20 * minute"
    using quota_reachable_ttl [OF assms(1)] by (simp add: defaultRefreshTaskTTL_def)
  have task: "taskOK (qs_refreshTasks s) i t" using ok assms(3) by (simp add: quotaOK_def storeOK_def)
  have ended: "rt_Status t \<in> {Completed, Failed} \<longleftrightarrow> \<not> isActive t"
    by (cases "rt_Status t") (simp_all add: isActive_def)
  have "expired now t \<longleftrightarrow> \<not> isActive t \<and> rt_ExpiresAt t \<le> now" for now
    using task by (auto simp: expired_def taskOK_def split: if_splits)
  then have clean: "ts_tasks (qs_refreshTasks (cleanupTasks now s)) i =
      (if rt_Status t \<in> {Completed, Failed} \<and> rt_ExpiresAt t \<le> now then None else Some t)" for now
    using assms(3) by (simp add: cleanupTasks_def cleanupExpiredTasks_def ended del: insert_iff)
  from quota_step_task [OF ok assms(2,3)] show ?thesis
    using clean by (cases "rt_Status t") (auto simp: taskEdge_def ttl isActive_def expired_def split: option.splits)
qed

lemma quotaTask_lifecycle_witness:
  "ts_tasks (qs_refreshTasks (cleanupTasks 5 oneTask)) (quotaTaskID 1) = Some (queuedTask (quotaTaskID 1) ''a'' 0)"
  using quotaTask_lifecycle [OF oneTask_reachable cleanup oneTask_task, of 5]
  by (simp add: queuedTask_def)

text \<open>
  C21. Once the workers are told to stop, no task is admitted any more; and from every reachable
  state the workers make at most five steps each, one of them can always move while any is left,
  and when none is left no task is active and every token is back: the wait of
  \<open>StopRefreshWorkers\<close> ends.
\<close>
theorem quotaWorkers_stop:
  assumes "quota_reachable s" and "(worker_step ^^ n) (stopRefreshWorkers s) s'"
  shows "startRefreshTask now a (stopRefreshWorkers s) = ((None, refreshUnavailableCode), stopRefreshWorkers s) \<and>
    n \<le> 5 * qs_refreshWorkerWG s \<and>
    (qs_refreshWorkerWG s' \<noteq> 0 \<longrightarrow> (\<exists>s''. worker_step s' s'')) \<and>
    (qs_refreshWorkerWG s' = 0 \<longrightarrow> qs_refreshWorkerTokens s' = 0 \<and>
      (\<forall>i t. ts_tasks (qs_refreshTasks s') i = Some t \<longrightarrow> rt_Status t = Completed \<or> rt_Status t = Failed))"
proof -
  let ?s = "stopRefreshWorkers s"
  have ok: "quotaOK ?s" by (rule quota_step_ok [OF stop quota_reachable_ok [OF assms(1)]])
  have closed: "qs_refreshWorkersClose ?s"
    by (simp add: stopRefreshWorkers_def closeRefreshAdmission_def endContext_def Let_def)
  from worker_steps_ok [OF assms(2) ok] have ok': "quotaOK s'" and n: "work (qs_workers s') + n \<le> work (qs_workers ?s)"
    by auto
  have "work (qs_workers ?s) \<le> 5 * qs_refreshWorkerWG s"
    using work_le [OF finite_workers [OF ok]] ok life_same by (simp add: quotaOK_def poolOK_def)
  with n have "n \<le> 5 * qs_refreshWorkerWG s" by simp
  moreover have "rt_Status t = Completed \<or> rt_Status t = Failed" if "\<not> isActive t" for t
    using that by (cases "rt_Status t") (simp_all add: isActive_def)
  ultimately show ?thesis
    using closed workers_move [OF ok'] no_workers_no_active [OF ok'] by (simp add: startRefreshTask_def)
qed

lemma quotaWorkers_stop_witness:
  "startRefreshTask 0 ''b'' (stopRefreshWorkers oneTask) = ((None, refreshUnavailableCode), stopRefreshWorkers oneTask)"
  using quotaWorkers_stop [OF oneTask_reachable, of 0 "stopRefreshWorkers oneTask" 0 "''b''"] by simp

text \<open>
  C22. A batch that answers has answered each requested account exactly once, in order, as a task or
  as a rejection, each for its cause (\<open>verdictOK\<close>), with \<open>s\<close> cleaned up before and the others acting
  between the accounts: 'invalid' is given exactly to a blank account and, when the limit is already
  reached by the accepted accounts before it, to a new one; 'duplicate' exactly to an account named
  before in the batch and to a valid one within the limit that already has an active task; the
  'unavailable' code exactly to a valid one when the service takes no more work; any other code is the
  one the validation gives; and every other account is accepted, with the task the store names
  next. The accepted accounts are distinct, valid and at most the limit; the skipped count is that
  of the rejections; and the batch is a run of the service's own steps.
\<close>
theorem quotaRefresh_exact:
  assumes "quotaRefresh env now items limit s = (Inr r, s')" and "othersOK env k"
    and "quota_reachable s" and "unat (ts_seq (qs_refreshTasks s)) + (k + 1) * length items < 2 ^ 64 - 1"
  shows "(\<exists>vs. map fst vs = map trimSpace items \<and> batchStates env (cleanupTasks now s) vs s' \<and>
      verdictsOK env limit {} 0 vs \<and> rr_Tasks r = map taskOf (filter admitted vs) \<and>
      rr_Rejected r = map rejectionOf (filter (\<lambda>v. \<not> admitted v) vs)) \<and>
    mset (map fst (rr_Tasks r)) + mset (map fst (rr_Rejected r)) = mset (map trimSpace items) \<and>
    distinct (map fst (rr_Tasks r)) \<and> rr_Accepted r = int (length (rr_Tasks r)) \<and> rr_Accepted r \<le> limit \<and>
    rr_Skipped r = int (length (rr_Rejected r)) \<and>
    (\<forall>(a, i) \<in> set (rr_Tasks r). a \<noteq> [] \<and> validateRefreshAuthIndex (re_repository env) (re_registry env) a = Inr []) \<and>
    (\<forall>(a, code) \<in> set (rr_Rejected r). code \<in> {''invalid'', ''duplicate'', refreshUnavailableCode} \<or>
       code \<noteq> [] \<and> validateRefreshAuthIndex (re_repository env) (re_registry env) a = Inr code) \<and>
    quota_reachable s'"
proof -
  let ?r = "\<lparr>rr_Tasks = [], rr_Rejected = [], rr_Accepted = 0, rr_Skipped = 0, rr_Limit = limit\<rparr>"
  have limit: "0 < limit" using assms(1) by (auto simp: quotaRefresh_def split: if_splits)
  then obtain r' where res: "refreshItems env limit items {} ?r (cleanupTasks now s) = (Inr r', s')"
    and r: "r = r'\<lparr>rr_Skipped := int (length (rr_Rejected r'))\<rparr>"
    using assms(1) by (auto simp: quotaRefresh_def split: prod.splits sum.splits)
  have "acceptedOK env ?r" using limit by (simp add: acceptedOK_def)
  from refreshItems_answer [OF res this] have a: "acceptedOK env r'" "rr_Limit r' = limit"
    "\<forall>e \<in> set (rr_Rejected r'). rejectedOK env e" "answered r' = mset (map trimSpace items)"
    by (simp_all add: answered_def)
  from quotaRefresh_steps [OF assms(1,2,4)] assms(3) have "quota_reachable s'"
    unfolding quota_reachable_def by (rule rtranclp_trans [rotated])
  moreover obtain vs where "map fst vs = map trimSpace items" "batchStates env (cleanupTasks now s) vs s'"
      "verdictsOK env limit {} 0 vs" "rr_Tasks r' = map taskOf (filter admitted vs)"
      "rr_Rejected r' = map rejectionOf (filter (\<lambda>v. \<not> admitted v) vs)"
    using refreshItems_verdicts [OF res, of "{}"] by auto
  ultimately show ?thesis using a r by (auto simp: acceptedOK_def rejectedOK_def answered_def)
qed

lemma exampleRefresh:
  "fst (quotaRefresh exampleRefreshEnv 0 ['' a '', ''a'', ''k'', [], ''b''] 2 newQuotaService) =
     Inr \<lparr>rr_Tasks = [(''a'', ''quota-refresh-1''), (''b'', ''quota-refresh-2'')],
          rr_Rejected = [(''a'', ''duplicate''), (''k'', ''not_auth_file''), ([], ''invalid'')],
          rr_Accepted = 2, rr_Skipped = 3, rr_Limit = 2\<rparr>"
  by code_simp

lemma exampleEnv_others: "othersOK exampleRefreshEnv 0"
  by (simp add: othersOK_def exampleRefreshEnv_def)

lemma quotaRefresh_exact_witness:
  "\<exists>s'. snd (quotaRefresh exampleRefreshEnv 0 ['' a '', ''a'', ''k'', [], ''b''] 2 newQuotaService) = s' \<and> quota_reachable s'"
proof -
  obtain r s' where res: "quotaRefresh exampleRefreshEnv 0 ['' a '', ''a'', ''k'', [], ''b''] 2 newQuotaService = (Inr r, s')"
    using exampleRefresh by (metis fst_conv prod.exhaust)
  have "quota_reachable newQuotaService" by (simp add: quota_reachable_def)
  from quotaRefresh_exact [OF res exampleEnv_others this] res show ?thesis
    by (simp add: newQuotaService_def newRefreshTaskStore_def)
qed

text \<open>
  A check succeeds only for a known auth file with a supported type and a provider that
  answered: it returns at least one row and has saved exactly what it returns; a check that fails
  has saved nothing.
\<close>
theorem quotaCheck_saves:
  assumes "quotaCheck repo registry env now raw = (res, saved)"
  shows "case res of
      Inl err \<Rightarrow> saved = None
    | Inr response \<Rightarrow> \<exists>identity candidate handler output.
        qp_FindActiveAuthFileIdentity repo (trimSpace raw) = Inr (Some identity) \<and>
        resolveQuotaHandler registry (qi_Provider identity) (qi_Type identity) = Some (candidate, handler) \<and>
        handler env identity = Inr output \<and>
        response = \<lparr>cr_ID = trimSpace raw, cr_ObservedAt = now,
                    cr_Quota = normalizeQuotaRows (je_float (qe_json env)) (Some output)\<rparr> \<and>
        cr_Quota response \<noteq> [] \<and> saved = Some (qi_ID identity, response) \<and>
        qp_SaveQuotaObservation repo (qi_ID identity) response = None"
  using assms by (auto simp: quotaCheck_def Let_def split: if_splits sum.splits option.splits prod.splits)

lemma quotaCheck_saves_witness:
  "snd (quotaCheck exampleRepository exampleRegistry env 0 ''zz'') = None"
proof -
  have "trimSpace ''zz'' = ''zz''" by code_simp
  then have "fst (quotaCheck exampleRepository exampleRegistry env 0 ''zz'') =
      Inl (WrapError (errText ErrNotFound @ '': '' @ ''zz'') [ErrNotFound])"
    by (simp add: quotaCheck_def exampleRepository_def)
  with quotaCheck_saves [OF prod.collapse [symmetric], of exampleRepository exampleRegistry env 0 "''zz''"]
  show ?thesis by simp
qed

text \<open>
  An account of the two providers that need a project, but without one, is refused whatever
  the upstream would answer: nothing is saved, the error is the provider-input error, and the task
  shows the message without its internal prefix.
\<close>
theorem quotaCheck_missing_project:
  assumes "qp_FindActiveAuthFileIdentity repo (trimSpace raw) = Inr (Some identity)" and "trimSpace raw \<noteq> []"
    and "normalizeIdentityType (qi_Provider identity) \<in> {''antigravity'', ''gemini-cli''}"
    and "qi_ProjectID identity = None \<or> qi_ProjectID identity = Some []"
  shows "\<exists>err. quotaCheck repo (newDefaultProviderRegistry configs) env now raw = (Inl err, None) \<and>
    errIs err ErrProviderInput \<and> refreshTaskErrorMessage err = ''missing project_id parameter''"
proof -
  have resolve: "\<exists>h. resolveQuotaHandler (newDefaultProviderRegistry configs) (qi_Provider identity) (qi_Type identity)
      = Some (normalizeIdentityType (qi_Provider identity), h) \<and>
      h env identity = Inl (providerInput ''missing project_id parameter'')"
    using assms(3,4) resolve_provider [OF _ _ defaultRegistry(1)] resolve_provider [OF _ _ defaultRegistry(2)]
    by (auto simp: antigravityCheck_def geminiCLICheck_def)
  then have "quotaCheck repo (newDefaultProviderRegistry configs) env now raw =
      (Inl (providerInput ''missing project_id parameter''), None)"
    using assms(1,2) by (auto simp: quotaCheck_def Let_def)
  with missing_project_message show ?thesis by (auto simp: providerInput_def)
qed

lemma quotaCheck_missing_project_witness:
  "\<forall>env. \<exists>err. quotaCheck exampleRepository (newDefaultProviderRegistry defaultProviderConfigs) env 0 ''b'' = (Inl err, None) \<and>
    errIs err ErrProviderInput \<and> refreshTaskErrorMessage err = ''missing project_id parameter''"
proof
  fix env
  have "trimSpace ''b'' = ''b''" by code_simp
  then show "\<exists>err. quotaCheck exampleRepository (newDefaultProviderRegistry defaultProviderConfigs) env 0 ''b'' = (Inl err, None) \<and>
    errIs err ErrProviderInput \<and> refreshTaskErrorMessage err = ''missing project_id parameter''"
    by (intro quotaCheck_missing_project [where identity = "exampleIdentity ''gemini-cli''"])
      (simp_all add: exampleRepository_def exampleIdentity_def normalize_names)
qed

text \<open>
  A JSON \<open>null\<close> is read as the number zero. The summary row of any Kimi usage object whose
  \<open>remaining\<close> is \<open>null\<close> says that nothing is left and, where the limit is positive and no used amount
  is given, that 100 percent are used; an object without the field leaves what is left unknown, and
  without a used amount the percentage too.
\<close>
lemma kimi_null_remaining:
  assumes "jsonLookup detail ''remaining'' = Some JNull"
  shows "\<exists>row rows.
    kimiQuotaRows (Some \<lparr>kp_Usage = parseKimiUsageDetail env (Some detail), kp_Limits = limits\<rparr>) = row # rows \<and>
    qr_Remaining row = Some 0 \<and>
    (\<forall>limit. floatPtrField env detail [''limit''] = Some limit \<and> 0 < limit \<and>
       floatPtrField env detail [''used''] = None \<longrightarrow> qr_UsedPercent row = Some 100)"
  using assms
  by (auto simp: kimiQuotaRows_def parseKimiUsageDetail_def isMeaningfulKimiDetail_def kimiDetailQuotaRow_def
      baseRow_def kimiPercent_def kimiUsedPercent_def floatPtrField_def Let_def)

lemma kimi_absent_remaining:
  assumes "jsonLookup detail ''remaining'' = None"
    and "isMeaningfulKimiDetail (parseKimiUsageDetail env (Some detail))"
  shows "\<exists>row rows.
    kimiQuotaRows (Some \<lparr>kp_Usage = parseKimiUsageDetail env (Some detail), kp_Limits = limits\<rparr>) = row # rows \<and>
    qr_Remaining row = None \<and> (floatPtrField env detail [''used''] = None \<longrightarrow> qr_UsedPercent row = None)"
  using assms
  by (auto simp: kimiQuotaRows_def parseKimiUsageDetail_def kimiDetailQuotaRow_def
      baseRow_def kimiPercent_def kimiUsedPercent_def floatPtrField_def Let_def split: option.split)

end
