(* ===== verification/Identities.thy ===== *)
theory Identities
  imports AnalyticsSummary "HOL-Library.AList" "HOL-Library.Product_Lexorder"
begin

text \<open>
  The usage identities (\<open>repository/usage_identities.go\<close>): the synchronisation of the accounts CPA
  reports, the reads and the updates of single rows. The table holds the entities under their key.
  A transaction whose statement fails leaves the table as it was: \<open>fault\<close>. \<open>clock\<close> is the time gorm
  stamps on rows it creates or updates.
\<close>

type_synonym identityTable = "usageIdentity table"

section \<open>Normalisation\<close>

definition trimOptionalString :: "string option \<Rightarrow> string option" where
  "trimOptionalString value =
     (case value of
        None \<Rightarrow> None
      | Some v \<Rightarrow> (let trimmed = trimSpace v in if trimmed = [] then None else Some trimmed))"

definition normalizedIdentity :: "authType \<Rightarrow> usageIdentity \<Rightarrow> usageIdentity" where
  "normalizedIdentity authType i = i
     \<lparr>ui_AuthType := authType,
      ui_Identity := trimSpace (ui_Identity i),
      ui_Name := trimSpace (ui_Name i),
      ui_AuthTypeName := (case canonicalName authType of None \<Rightarrow> [] | Some n \<Rightarrow> n),
      ui_Type := trimSpace (ui_Type i),
      ui_Provider := trimSpace (ui_Provider i),
      ui_LookupKey := trimSpace (ui_LookupKey i),
      ui_Prefix := trimSpace (ui_Prefix i),
      ui_BaseURL := trimSpace (ui_BaseURL i),
      ui_AccountID := trimOptionalString (ui_AccountID i),
      ui_ProjectID := trimOptionalString (ui_ProjectID i),
      ui_PlanType := trimOptionalString (ui_PlanType i),
      ui_AuthFileStatus := trimOptionalString (ui_AuthFileStatus i),
      ui_IsDeleted := False,
      ui_DeletedAt := None\<rparr>"

text \<open>The second result is the list of identities the first one holds.\<close>

fun normalizeFrom :: "authType \<Rightarrow> string set \<Rightarrow> usageIdentity list \<Rightarrow> usageIdentity list \<times> string list" where
  "normalizeFrom authType seen [] = ([], [])"
| "normalizeFrom authType seen (i # is) =
     (let authIndex = trimSpace (ui_Identity i) in
      if authIndex = [] then normalizeFrom authType seen is
      else if authIndex \<in> seen then normalizeFrom authType seen is
      else (case normalizeFrom authType (insert authIndex seen) is of
        (normalized, incoming) \<Rightarrow> (normalizedIdentity authType i # normalized, authIndex # incoming)))"

definition normalizeUsageIdentities :: "usageIdentity list \<Rightarrow> authType \<Rightarrow> usageIdentity list \<times> string list" where
  "normalizeUsageIdentities identities authType = normalizeFrom authType {} identities"

fun normalizeTypesFrom :: "string set \<Rightarrow> string list \<Rightarrow> string list" where
  "normalizeTypesFrom seen [] = []"
| "normalizeTypesFrom seen (t # ts) =
     (let t = trimSpace t in
      if t = [] \<or> t \<in> seen then normalizeTypesFrom seen ts
      else t # normalizeTypesFrom (insert t seen) ts)"

definition normalizeProviderTypes :: "string list \<Rightarrow> string list" where
  "normalizeProviderTypes = normalizeTypesFrom {}"

section \<open>Quota snapshots\<close>

text \<open>The newer snapshot wins as a whole; at the same source time the incoming one does.\<close>

definition mergePassiveAccountObservation ::
  "passiveQuotaObservation option \<Rightarrow> passiveQuotaObservation option \<Rightarrow> passiveQuotaObservation option" where
  "mergePassiveAccountObservation existing incoming =
     (case incoming of
        None \<Rightarrow> existing
      | Some n \<Rightarrow>
          if isZero (po_ObservedAt n) then existing
          else (case existing of
                  None \<Rightarrow> incoming
                | Some e \<Rightarrow> if \<not> po_ObservedAt n < po_ObservedAt e then incoming else existing))"

definition observeModel ::
  "passiveModelQuotaObservation \<Rightarrow> (string \<times> passiveModelQuotaObservation) list
    \<Rightarrow> (string \<times> passiveModelQuotaObservation) list" where
  "observeModel observation byModel =
     (let model = trimSpace (pq_Model observation) in
      if model = [] \<or> isZero (pq_ObservedAt observation) then byModel
      else (let observation = observation\<lparr>pq_Model := model\<rparr> in
        (case map_of byModel model of
           None \<Rightarrow> AList.update model observation byModel
         | Some current \<Rightarrow>
             if pq_ObservedAt current < pq_ObservedAt observation
             then AList.update model observation byModel else byModel)))"

definition mergePassiveModelObservations ::
  "passiveModelQuotaObservation list \<Rightarrow> passiveModelQuotaObservation list \<Rightarrow> passiveModelQuotaObservation list" where
  "mergePassiveModelObservations existing incoming =
     map snd (sort_key fst (fold observeModel incoming (fold observeModel existing [])))"

section \<open>Reads\<close>

definition sameIdentity :: "authType \<Rightarrow> string \<Rightarrow> usageIdentity \<Rightarrow> bool" where
  "sameIdentity authType identity r \<longleftrightarrow> ui_AuthType r = authType \<and> ui_Identity r = identity"

definition findIdentity :: "identityTable \<Rightarrow> authType \<Rightarrow> string \<Rightarrow> (nat \<times> usageIdentity) option" where
  "findIdentity t authType identity =
     (case selectWhere (\<lambda>_. sameIdentity authType identity) t of [] \<Rightarrow> None | r # _ \<Rightarrow> Some r)"

text \<open>
  The rows of the incoming identities, which are distinct after the normalisation, are loaded in
  batches; each incoming identity takes the newer snapshots.
\<close>

definition mergePersistedPassiveQuota :: "identityTable \<Rightarrow> usageIdentity list \<Rightarrow> usageIdentity list" where
  "mergePersistedPassiveQuota t incoming =
     map (\<lambda>i. case findIdentity t (ui_AuthType i) (ui_Identity i) of
        None \<Rightarrow> i
      | Some (_, existing) \<Rightarrow> i
          \<lparr>ui_PassiveQuota := mergePassiveAccountObservation (ui_PassiveQuota existing) (ui_PassiveQuota i),
           ui_PassiveModelQuotas :=
             mergePassiveModelObservations (ui_PassiveModelQuotas existing) (ui_PassiveModelQuotas i)\<rparr>) incoming"

section \<open>Synchronisation\<close>

definition stampIdentity :: "instant \<Rightarrow> usageIdentity \<Rightarrow> usageIdentity" where
  "stampIdentity clock i = i
     \<lparr>ui_CreatedAt := (if isZero (ui_CreatedAt i) then clock else ui_CreatedAt i),
      ui_UpdatedAt := (if isZero (ui_UpdatedAt i) then clock else ui_UpdatedAt i)\<rparr>"

text \<open>The assignments of \<open>DO UPDATE SET\<close>; the second row is \<open>excluded\<close>.\<close>

definition refreshIdentity :: "usageIdentity \<Rightarrow> usageIdentity \<Rightarrow> usageIdentity" where
  "refreshIdentity r x = r
     \<lparr>ui_Name := ui_Name x, ui_AuthTypeName := ui_AuthTypeName x, ui_Type := ui_Type x,
      ui_Provider := ui_Provider x, ui_LookupKey := ui_LookupKey x, ui_Prefix := ui_Prefix x,
      ui_BaseURL := ui_BaseURL x, ui_AccountID := ui_AccountID x, ui_ProjectID := ui_ProjectID x,
      ui_ActiveStart := ui_ActiveStart x, ui_ActiveUntil := ui_ActiveUntil x, ui_PlanType := ui_PlanType x,
      ui_AuthFileStatus := ui_AuthFileStatus x, ui_Unavailable := ui_Unavailable x,
      ui_LastRefresh := ui_LastRefresh x, ui_NextRetryAfter := ui_NextRetryAfter x,
      ui_MetadataObservedAt := ui_MetadataObservedAt x, ui_AuthRenewal := ui_AuthRenewal x,
      ui_PassiveQuota := ui_PassiveQuota x, ui_PassiveModelQuotas := ui_PassiveModelQuotas x,
      ui_Disabled := ui_Disabled x, ui_IsDeleted := False, ui_DeletedAt := None, ui_UpdatedAt := ui_UpdatedAt x\<rparr>"

text \<open>\<open>INSERT ... ON CONFLICT (auth_type, identity) DO UPDATE\<close> of one row.\<close>

definition upsertIdentity :: "instant \<Rightarrow> usageIdentity \<Rightarrow> identityTable \<Rightarrow> identityTable" where
  "upsertIdentity clock i t =
     (case findIdentity t (ui_AuthType i) (ui_Identity i) of
        None \<Rightarrow> insertRows [stampIdentity clock i] t
      | Some _ \<Rightarrow> updateWhere (\<lambda>_. sameIdentity (ui_AuthType i) (ui_Identity i))
                    (\<lambda>_ r. refreshIdentity r (stampIdentity clock i)) t)"

text \<open>The key is not bound by an insert: thirty-nine columns are.\<close>

definition identityBatchSize :: nat where
  "identityBatchSize = nat (insertBatchSize 39)"

definition upsertUsageIdentities :: "instant \<Rightarrow> usageIdentity list \<Rightarrow> identityTable \<Rightarrow> identityTable" where
  "upsertUsageIdentities clock identities t =
     (if length identities = 0 then t
      else fold (fold (upsertIdentity clock)) (batches identityBatchSize identities) t)"

definition markStaleUsageIdentitiesDeleted ::
  "instant \<Rightarrow> (usageIdentity \<Rightarrow> bool) \<Rightarrow> string list \<Rightarrow> instant \<Rightarrow> identityTable \<Rightarrow> identityTable" where
  "markStaleUsageIdentitiesDeleted clock query incoming now t =
     (let candidates = selectWhere (\<lambda>_. query) t;
          staleIDs = map fst (filter (\<lambda>(i, r). ui_Identity r \<notin> set incoming) candidates)
      in fold (\<lambda>b. updateWhere (\<lambda>i _. i \<in> set b)
                (\<lambda>_ r. r\<lparr>ui_IsDeleted := True, ui_DeletedAt := Some now, ui_UpdatedAt := clock\<rparr>))
           (batches identityBatchSize staleIDs) t)"

datatype identityError = InvalidAuthType | IdentityStatementFailed | IdentityNotFound nat

definition replaceUsageIdentitiesForAuthType ::
  "bool \<Rightarrow> instant \<Rightarrow> usageIdentity list \<Rightarrow> authType \<Rightarrow> instant \<Rightarrow> identityTable
    \<Rightarrow> identityTable \<times> identityError option" where
  "replaceUsageIdentitiesForAuthType fault clock identities authType now t =
     (if \<not> authTypeValid authType then (t, Some InvalidAuthType)
      else (case normalizeUsageIdentities identities authType of (normalized, incoming) \<Rightarrow>
        if fault then (t, Some IdentityStatementFailed)
        else (markStaleUsageIdentitiesDeleted clock (\<lambda>r. ui_AuthType r = authType \<and> ui_IsDeleted r = False)
                incoming now
                (upsertUsageIdentities clock (mergePersistedPassiveQuota t normalized) t), None)))"

definition replaceUsageIdentitiesForProviderTypes ::
  "bool \<Rightarrow> instant \<Rightarrow> usageIdentity list \<Rightarrow> string list \<Rightarrow> instant \<Rightarrow> identityTable
    \<Rightarrow> identityTable \<times> identityError option" where
  "replaceUsageIdentitiesForProviderTypes fault clock identities providerTypes now t =
     (case normalizeUsageIdentities identities UsageIdentityAuthTypeAIProvider of (normalized, incoming) \<Rightarrow>
       let types = normalizeProviderTypes providerTypes in
       if fault then (t, Some IdentityStatementFailed)
       else (let t = upsertUsageIdentities clock normalized t in
         if length types = 0 then (t, None)
         else (fold (\<lambda>b. markStaleUsageIdentitiesDeleted clock
                  (\<lambda>r. ui_AuthType r = UsageIdentityAuthTypeAIProvider \<and> ui_IsDeleted r = False \<and> ui_Type r \<in> set b)
                  incoming now) (batches identityBatchSize types) t, None)))"

section \<open>Lists\<close>

record listUsageIdentitiesPageRequest =
  lr_AuthType :: "authType option"
  lr_Page :: int
  lr_PageSize :: int

definition listUsageIdentities :: "identityTable \<Rightarrow> (nat \<times> usageIdentity) list" where
  "listUsageIdentities t = sort_key (\<lambda>(i, r). (ui_AuthType r, ui_Name r, i)) (tbl_rows t)"

definition activeUsageIdentitiesQuery :: "identityTable \<Rightarrow> authType option \<Rightarrow> (nat \<times> usageIdentity) list" where
  "activeUsageIdentitiesQuery t authType =
     selectWhere (\<lambda>_ r. ui_IsDeleted r = False \<and>
       ui_AuthType r \<in> {UsageIdentityAuthTypeAuthFile, UsageIdentityAuthTypeAIProvider} \<and>
       (case authType of None \<Rightarrow> True | Some a \<Rightarrow> ui_AuthType r = a)) t"

definition listActiveUsageIdentities :: "identityTable \<Rightarrow> (nat \<times> usageIdentity) list" where
  "listActiveUsageIdentities t =
     sort_key (\<lambda>(i, r). (ui_AuthType r, ui_Name r, i)) (activeUsageIdentitiesQuery t None)"

text \<open>\<open>LIMIT\<close> and \<open>OFFSET\<close> of a page that starts at 1.\<close>

definition pageRows :: "int \<Rightarrow> int \<Rightarrow> 'a list \<Rightarrow> 'a list" where
  "pageRows page pageSize rows = take (nat pageSize) (drop (nat ((page - 1) * pageSize)) rows)"

section \<open>Cost of the listed identities\<close>

definition usageIdentityEventAuthType :: "authType \<Rightarrow> string option" where
  "usageIdentityEventAuthType authType = canonicalName authType"

text \<open>
  The events of an identity: the kind by its canonical name, and exactly its auth index.
\<close>

definition usageIdentityEventsQuery :: "usageIdentity \<Rightarrow> usageEvent list \<Rightarrow> usageEvent list option" where
  "usageIdentityEventsQuery identity events =
     (case usageIdentityEventAuthType (ui_AuthType identity) of
        None \<Rightarrow> None
      | Some eventAuthType \<Rightarrow>
          Some (filter (\<lambda>e. ev_AuthType e = eventAuthType \<and> ev_AuthIndex e = ui_Identity identity) events))"

definition pricedRows :: "modelPriceSetting list \<Rightarrow> usageEvent list \<Rightarrow> (sourceRow \<times> modelPriceSetting option) list" where
  "pricedRows prices events =
     concat (map (\<lambda>e. let s = analyticsEventsAggregateSource e in map (Pair s) (joinPrices prices s)) events)"

definition identityWithoutCosts :: "usageIdentity \<Rightarrow> usageIdentity" where
  "identityWithoutCosts i = i
     \<lparr>ui_InputTokens := 0, ui_OutputTokens := 0, ui_ReasoningTokens := 0, ui_CachedTokens := 0,
      ui_TotalTokens := 0, ui_CanonicalValidAttempts := 0, ui_TotalCost := 0, ui_CostAvailable := False\<rparr>"

text \<open>One group of the aggregation; an identity without events has none and keeps the zeros.\<close>

definition identityWithCosts ::
  "(sourceRow \<times> modelPriceSetting option) list \<Rightarrow> usageIdentity \<Rightarrow> usageIdentity" where
  "identityWithCosts rows i =
     (let total = (\<lambda>expr. sum_list (map (expr \<circ> fst) rows));
          cost = assessCostCompleteness
            (sum_list (map (\<lambda>(s, p). analyticsMissingPricing (sr_RequestCount s) (sr_CompleteAttempts s)
               (sr_CompleteZeroAttempts s) p) rows))
            (sum_list (map (\<lambda>(s, p). analyticsPricedBillable (sr_CompleteAttempts s)
               (sr_CompleteZeroAttempts s) p) rows))
      in i\<lparr>ui_InputTokens := total sr_InputTokens, ui_OutputTokens := total sr_OutputTokens,
           ui_ReasoningTokens := total sr_ReasoningTokens, ui_CachedTokens := total sr_CachedTokens,
           ui_TotalTokens := total sr_TotalTokens,
           ui_CanonicalValidAttempts := total (\<lambda>s. sr_StateAttempts s AccountingValid),
           ui_TotalCost := sum_list (map (\<lambda>(s, p). analyticsCostWithPromptTokens (sr_CompletePromptTokens s)
             (sr_CompleteOutputTokens s) (sr_CompleteCacheReadTokens s) p) rows),
           ui_CostAvailable := fst cost\<rparr>)"

text \<open>The listed identities have distinct kinds and indexes, so each takes the group of its own.\<close>

definition attachUsageIdentityCosts ::
  "modelPriceSetting list \<Rightarrow> usageEvent list \<Rightarrow> usageIdentity list \<Rightarrow> usageIdentity list" where
  "attachUsageIdentityCosts prices events identities =
     map (\<lambda>i. let i = identityWithoutCosts i in
       case usageIdentityEventsQuery i events of
         None \<Rightarrow> i
       | Some evs \<Rightarrow> if evs = [] then i else identityWithCosts (pricedRows prices evs) i) identities"

definition listActiveUsageIdentitiesPage ::
  "modelPriceSetting list \<Rightarrow> usageEvent list \<Rightarrow> identityTable \<Rightarrow> listUsageIdentitiesPageRequest
    \<Rightarrow> (nat \<times> usageIdentity) list \<times> nat" where
  "listActiveUsageIdentitiesPage prices events t request =
     (let page = (if lr_Page request \<le> 0 then 1 else lr_Page request);
          pageSize = (if lr_PageSize request \<le> 0 then 10 else lr_PageSize request);
          query = activeUsageIdentitiesQuery t (lr_AuthType request);
          rows = pageRows page pageSize (sort_key (\<lambda>(i, r). (- sint (ui_TotalRequests r), i)) query)
      in (zip (map fst rows) (attachUsageIdentityCosts prices events (map snd rows)), length query))"

section \<open>Single rows\<close>

definition getUsageIdentityByID :: "nat \<Rightarrow> identityTable \<Rightarrow> usageIdentity option" where
  "getUsageIdentityByID i t = lookupRow t i"

definition setUsageIdentityDisabled ::
  "nat \<Rightarrow> bool \<Rightarrow> instant \<Rightarrow> identityTable \<Rightarrow> identityTable \<times> identityError option" where
  "setUsageIdentityDisabled i disabled now t =
     (if lookupRow t i = None then (t, Some (IdentityNotFound i))
      else (updateWhere (\<lambda>j _. j = i) (\<lambda>_ r. r\<lparr>ui_Disabled := disabled, ui_UpdatedAt := now\<rparr>) t, None))"

text \<open>The column \<open>updated_at\<close> takes the observation time, an absent one reads as the zero time.\<close>

definition updateUsageIdentityAuthFileState ::
  "nat \<Rightarrow> usageIdentity \<Rightarrow> identityTable \<Rightarrow> identityTable \<times> identityError option" where
  "updateUsageIdentityAuthFileState i observed t =
     (if lookupRow t i = None then (t, Some (IdentityNotFound i))
      else (updateWhere (\<lambda>j _. j = i) (\<lambda>_ r. r
          \<lparr>ui_Disabled := ui_Disabled observed, ui_AuthFileStatus := ui_AuthFileStatus observed,
           ui_Unavailable := ui_Unavailable observed, ui_LastRefresh := ui_LastRefresh observed,
           ui_NextRetryAfter := ui_NextRetryAfter observed,
           ui_MetadataObservedAt := ui_MetadataObservedAt observed, ui_AuthRenewal := ui_AuthRenewal observed,
           ui_UpdatedAt := (case ui_MetadataObservedAt observed of Some at' \<Rightarrow> at' | None \<Rightarrow> zero_time)\<rparr>) t,
        None))"

definition getActiveAuthFileUsageIdentityByAuthIndex ::
  "string \<Rightarrow> identityTable \<Rightarrow> (nat \<times> usageIdentity) option" where
  "getActiveAuthFileUsageIdentityByAuthIndex authIndex t =
     (case selectWhere (\<lambda>_ r. ui_AuthType r = UsageIdentityAuthTypeAuthFile \<and>
         ui_Identity r = trimSpace authIndex \<and> ui_IsDeleted r = False) t of
        [] \<Rightarrow> None
      | r # _ \<Rightarrow> Some r)"

definition hasActiveUsageIdentityByAuthIndex :: "string \<Rightarrow> identityTable \<Rightarrow> bool" where
  "hasActiveUsageIdentityByAuthIndex authIndex t =
     (0 < length (selectWhere (\<lambda>_ r. ui_Identity r = authIndex \<and> ui_IsDeleted r = False) t))"

section \<open>Statistics\<close>

record usageIdentityStatsDelta =
  sd_TotalRequests :: i64
  sd_SuccessCount :: i64
  sd_FailureCount :: i64
  sd_MaxUsageEventID :: nat
  sd_FirstUsedAt :: "instant option"
  sd_LastUsedAt :: "instant option"

text \<open>The events after the cursor; the first and the last one in the order of time, then of the key.\<close>

definition aggregateUsageIdentityDelta :: "usageEvent list \<Rightarrow> usageIdentity \<Rightarrow> usageIdentityStatsDelta" where
  "aggregateUsageIdentityDelta events identity =
     (case usageIdentityEventsQuery identity events of
        None \<Rightarrow> \<lparr>sd_TotalRequests = 0, sd_SuccessCount = 0, sd_FailureCount = 0, sd_MaxUsageEventID = 0,
                 sd_FirstUsedAt = None, sd_LastUsedAt = None\<rparr>
      | Some query \<Rightarrow>
          (let new = filter (\<lambda>e. ui_LastAggregatedUsageEventID identity < ev_ID e) query;
               firstEvent = hd (sort_key (\<lambda>e. (ev_Timestamp e, int (ev_ID e))) new);
               lastEvent = hd (sort_key (\<lambda>e. (- ev_Timestamp e, - int (ev_ID e))) new)
           in \<lparr>sd_TotalRequests = of_nat (length new),
               sd_SuccessCount = of_nat (length (filter (\<lambda>e. \<not> ev_Failed e) new)),
               sd_FailureCount = of_nat (length (filter ev_Failed new)),
               sd_MaxUsageEventID = fold max (map ev_ID new) 0,
               sd_FirstUsedAt = (if new = [] then None else Some (ev_Timestamp firstEvent)),
               sd_LastUsedAt = (if new = [] then None else Some (ev_Timestamp lastEvent))\<rparr>))"

definition earlierOf :: "instant option \<Rightarrow> instant option \<Rightarrow> instant option" where
  "earlierOf current new =
     (case new of
        None \<Rightarrow> current
      | Some n \<Rightarrow> (case current of None \<Rightarrow> new | Some c \<Rightarrow> if n < c then new else current))"

definition laterOf :: "instant option \<Rightarrow> instant option \<Rightarrow> instant option" where
  "laterOf current new =
     (case new of
        None \<Rightarrow> current
      | Some n \<Rightarrow> (case current of None \<Rightarrow> new | Some c \<Rightarrow> if c < n then new else current))"

definition withStats :: "instant \<Rightarrow> instant \<Rightarrow> usageIdentity \<Rightarrow> usageIdentityStatsDelta \<Rightarrow> usageIdentity \<Rightarrow> usageIdentity" where
  "withStats clock now identity delta r = r
     \<lparr>ui_TotalRequests := ui_TotalRequests identity + sd_TotalRequests delta,
      ui_SuccessCount := ui_SuccessCount identity + sd_SuccessCount delta,
      ui_FailureCount := ui_FailureCount identity + sd_FailureCount delta,
      ui_FirstUsedAt := earlierOf (ui_FirstUsedAt identity) (sd_FirstUsedAt delta),
      ui_LastUsedAt := laterOf (ui_LastUsedAt identity) (sd_LastUsedAt delta),
      ui_StatsUpdatedAt := Some now,
      ui_LastAggregatedUsageEventID := sd_MaxUsageEventID delta,
      ui_UpdatedAt := clock\<rparr>"

definition aggregateOne ::
  "instant \<Rightarrow> instant \<Rightarrow> usageEvent list \<Rightarrow> nat \<times> usageIdentity \<Rightarrow> identityTable \<Rightarrow> identityTable" where
  "aggregateOne clock now events = (\<lambda>(i, identity) t.
     let delta = aggregateUsageIdentityDelta events identity in
     if sd_TotalRequests delta = 0 then t
     else updateWhere (\<lambda>j _. j = i) (\<lambda>_. withStats clock now identity delta) t)"

text \<open>The identities are read before the transaction that updates them.\<close>

definition aggregateUsageIdentityStats ::
  "bool \<Rightarrow> instant \<Rightarrow> instant \<Rightarrow> usageEvent list \<Rightarrow> identityTable \<Rightarrow> identityTable \<times> identityError option" where
  "aggregateUsageIdentityStats fault clock now events t =
     (if fault then (t, Some IdentityStatementFailed)
      else (fold (aggregateOne clock now events) (tbl_rows t) t, None))"

end
