(* ===== verification/IdentitySync.thy ===== *)
theory IdentitySync
  imports Identities
begin

text \<open>
  The synchronisation of the usage identities as an operation on the map from kind and index to
  row: what it inserts, refreshes, restores and marks deleted, and what it keeps.
\<close>

section \<open>The table as a map\<close>

definition identityOK :: "identityTable \<Rightarrow> bool" where
  "identityOK t \<longleftrightarrow> tableOK t \<and>
     (\<forall>i r j s. lookupRow t i = Some r \<longrightarrow> lookupRow t j = Some s \<longrightarrow>
        ui_AuthType r = ui_AuthType s \<longrightarrow> ui_Identity r = ui_Identity s \<longrightarrow> i = j)"

lemma identityOK_table: "identityOK t \<Longrightarrow> tableOK t"
  by (simp add: identityOK_def)

lemma findIdentity_Some:
  assumes ok: "identityOK t"
  shows "findIdentity t a k = Some (i, r) \<longleftrightarrow> lookupRow t i = Some r \<and> sameIdentity a k r"
proof -
  let ?P = "\<lambda>_. sameIdentity a k"
  have mem: "(j, s) \<in> set (selectWhere ?P t) \<longleftrightarrow> lookupRow t j = Some s \<and> sameIdentity a k s" for j s
    by (rule lookup_selectWhere [OF identityOK_table [OF ok]])
  have unique: "i = j \<and> r = s" if "lookupRow t i = Some r" "sameIdentity a k r" "lookupRow t j = Some s" "sameIdentity a k s"
    for i r j s
  proof -
    have "ui_AuthType r = ui_AuthType s" "ui_Identity r = ui_Identity s" using that by (simp_all add: sameIdentity_def)
    with ok that have "i = j" unfolding identityOK_def by blast
    with that show ?thesis by simp
  qed
  show ?thesis
  proof (cases "selectWhere ?P t")
    case Nil
    with mem [of i r] show ?thesis by (simp add: findIdentity_def)
  next
    case (Cons p rest)
    obtain j s where p: "p = (j, s)" by (cases p)
    with Cons mem [of j s] have js: "lookupRow t j = Some s" "sameIdentity a k s" by simp_all
    from Cons p have f: "findIdentity t a k = Some (j, s)" by (simp add: findIdentity_def)
    show ?thesis
    proof
      assume "findIdentity t a k = Some (i, r)"
      with f js show "lookupRow t i = Some r \<and> sameIdentity a k r" by simp
    next
      assume "lookupRow t i = Some r \<and> sameIdentity a k r"
      with unique [of i r j s] js f show "findIdentity t a k = Some (i, r)" by simp
    qed
  qed
qed

lemma findIdentity_None:
  assumes "identityOK t"
  shows "findIdentity t a k = None \<longleftrightarrow> (\<forall>i r. lookupRow t i = Some r \<longrightarrow> \<not> sameIdentity a k r)"
  using findIdentity_Some [OF assms] by (metis not_None_eq surj_pair)

lemma identity_mapI:
  assumes ok: "identityOK t"
    and eq: "\<And>i r. lookupRow t i = Some r \<and> sameIdentity a k r \<longleftrightarrow> x = Some (i, r)"
  shows "findIdentity t a k = x"
  by (rule option_eqI) (auto simp: findIdentity_Some [OF ok] eq)

lemma sameIdentity_self [simp]: "sameIdentity (ui_AuthType r) (ui_Identity r) r"
  by (simp add: sameIdentity_def)

lemma refreshIdentity_key [simp]:
  "ui_AuthType (refreshIdentity r x) = ui_AuthType r" "ui_Identity (refreshIdentity r x) = ui_Identity r"
  by (simp_all add: refreshIdentity_def)

lemma stampIdentity_key [simp]:
  "ui_AuthType (stampIdentity c x) = ui_AuthType x" "ui_Identity (stampIdentity c x) = ui_Identity x"
  by (simp_all add: stampIdentity_def)

lemma sameIdentity_refresh [simp]: "sameIdentity a k (refreshIdentity r x) = sameIdentity a k r"
  by (simp add: sameIdentity_def)

text \<open>An update that keeps the keys acts on the map row by row.\<close>

lemma update_map:
  assumes ok: "identityOK t"
    and key: "\<And>i r. ui_AuthType (f i r) = ui_AuthType r \<and> ui_Identity (f i r) = ui_Identity r"
  shows "identityOK (updateWhere P f t)"
    and "findIdentity (updateWhere P f t) a k =
      map_option (\<lambda>(i, r). (i, if P i r then f i r else r)) (findIdentity t a k)"
proof -
  let ?g = "\<lambda>i r. if P i r then f i r else r"
  have keys: "ui_AuthType (?g i r) = ui_AuthType r" "ui_Identity (?g i r) = ui_Identity r" for i r
    using key by simp_all
  have look: "lookupRow (updateWhere P f t) i = map_option (?g i) (lookupRow t i)" for i
    by (rule lookup_updateWhere)
  show ok': "identityOK (updateWhere P f t)"
    unfolding identityOK_def
  proof (intro conjI allI impI)
    show "tableOK (updateWhere P f t)" by (rule updateWhere_ok [OF identityOK_table [OF ok]])
  next
    fix i r j s
    assume r: "lookupRow (updateWhere P f t) i = Some r" and s: "lookupRow (updateWhere P f t) j = Some s"
      and same: "ui_AuthType r = ui_AuthType s" "ui_Identity r = ui_Identity s"
    from r obtain r0 where r0: "lookupRow t i = Some r0" "r = ?g i r0" unfolding look by (auto simp del: if_split)
    from s obtain s0 where s0: "lookupRow t j = Some s0" "s = ?g j s0" unfolding look by (auto simp del: if_split)
    from same have "ui_AuthType r0 = ui_AuthType s0" "ui_Identity r0 = ui_Identity s0"
      unfolding r0 s0 keys .
    with ok r0(1) s0(1) show "i = j" unfolding identityOK_def by blast
  qed
  have same: "sameIdentity a k (?g i r) = sameIdentity a k r" for i r
    unfolding sameIdentity_def keys ..
  show "findIdentity (updateWhere P f t) a k = map_option (\<lambda>(i, r). (i, ?g i r)) (findIdentity t a k)"
  proof (rule identity_mapI [OF ok'])
    fix i r
    show "lookupRow (updateWhere P f t) i = Some r \<and> sameIdentity a k r \<longleftrightarrow>
        map_option (\<lambda>(i, r). (i, ?g i r)) (findIdentity t a k) = Some (i, r)"
    proof
      assume "lookupRow (updateWhere P f t) i = Some r \<and> sameIdentity a k r"
      then obtain r0 where r0: "lookupRow t i = Some r0" "r = ?g i r0" and "sameIdentity a k r"
        unfolding look by (auto simp del: if_split)
      then have "sameIdentity a k r0" unfolding r0 same by simp
      with r0(1) have "findIdentity t a k = Some (i, r0)" by (simp add: findIdentity_Some [OF ok])
      with r0(2) show "map_option (\<lambda>(i, r). (i, ?g i r)) (findIdentity t a k) = Some (i, r)" by simp
    next
      assume "map_option (\<lambda>(i, r). (i, ?g i r)) (findIdentity t a k) = Some (i, r)"
      then obtain r0 where "findIdentity t a k = Some (i, r0)" and r: "r = ?g i r0" by auto
      then have r0: "lookupRow t i = Some r0" "sameIdentity a k r0" by (simp_all add: findIdentity_Some [OF ok])
      then show "lookupRow (updateWhere P f t) i = Some r \<and> sameIdentity a k r"
        unfolding look r same by simp
    qed
  qed
qed

section \<open>Upserts\<close>

lemma insert_map:
  assumes ok: "identityOK t" and new: "findIdentity t (ui_AuthType x) (ui_Identity x) = None"
  shows "identityOK (insertRows [x] t)"
    and "findIdentity (insertRows [x] t) a k = (if sameIdentity a k x then Some (tbl_next t, x) else findIdentity t a k)"
proof -
  note table = identityOK_table [OF ok]
  have look: "lookupRow (insertRows [x] t) i = (if i < tbl_next t then lookupRow t i
      else if i = tbl_next t then Some x else None)" for i
    using lookup_insertRows [OF table, of "[x]" i] by auto
  have old: "i < tbl_next t" if "lookupRow t i = Some r" for i r
    using lookup_bound [OF table that] by simp
  have other: "\<not> (ui_AuthType r = ui_AuthType x \<and> ui_Identity r = ui_Identity x)" if "lookupRow t i = Some r" for i r
    using new that unfolding findIdentity_None [OF ok] sameIdentity_def by blast
  show ok': "identityOK (insertRows [x] t)"
    unfolding identityOK_def
  proof (intro conjI allI impI)
    show "tableOK (insertRows [x] t)" by (rule insertRows_ok [OF table])
  next
    fix i r j s
    assume "lookupRow (insertRows [x] t) i = Some r" "lookupRow (insertRows [x] t) j = Some s"
      "ui_AuthType r = ui_AuthType s" "ui_Identity r = ui_Identity s"
    then show "i = j"
      using ok other [of i r] other [of j s] unfolding look identityOK_def by (auto split: if_splits)
  qed
  show "findIdentity (insertRows [x] t) a k =
      (if sameIdentity a k x then Some (tbl_next t, x) else findIdentity t a k)"
  proof (rule identity_mapI [OF ok'])
    fix i r
    show "lookupRow (insertRows [x] t) i = Some r \<and> sameIdentity a k r \<longleftrightarrow>
        (if sameIdentity a k x then Some (tbl_next t, x) else findIdentity t a k) = Some (i, r)"
      using old [of i r] other [of i r] unfolding look
      by (auto simp: findIdentity_Some [OF ok] sameIdentity_def)
  qed
qed

lemma upsert_map:
  assumes ok: "identityOK t"
  shows "identityOK (upsertIdentity c x t)"
    and "\<not> sameIdentity a k x \<Longrightarrow> findIdentity (upsertIdentity c x t) a k = findIdentity t a k"
    and "findIdentity (upsertIdentity c x t) (ui_AuthType x) (ui_Identity x) =
      Some (case findIdentity t (ui_AuthType x) (ui_Identity x) of
              None \<Rightarrow> (tbl_next t, stampIdentity c x)
            | Some (i, r) \<Rightarrow> (i, refreshIdentity r (stampIdentity c x)))"
proof -
  let ?a = "ui_AuthType x" and ?k = "ui_Identity x"
  consider (new) "findIdentity t ?a ?k = None" | (old) i r where "findIdentity t ?a ?k = Some (i, r)"
    by (cases "findIdentity t ?a ?k") auto
  note cases = this
  have upd: "identityOK (updateWhere (\<lambda>_. sameIdentity ?a ?k) (\<lambda>_ r. refreshIdentity r (stampIdentity c x)) t)"
    "findIdentity (updateWhere (\<lambda>_. sameIdentity ?a ?k) (\<lambda>_ r. refreshIdentity r (stampIdentity c x)) t) b m =
      map_option (\<lambda>(i, r). (i, if sameIdentity ?a ?k r then refreshIdentity r (stampIdentity c x) else r))
        (findIdentity t b m)" for b m
    by (rule update_map [OF ok]; simp)+
  have ins: "identityOK (insertRows [stampIdentity c x] t)"
    "findIdentity (insertRows [stampIdentity c x] t) b m =
      (if sameIdentity b m (stampIdentity c x) then Some (tbl_next t, stampIdentity c x) else findIdentity t b m)"
    if "findIdentity t ?a ?k = None" for b m
    using insert_map [OF ok, of "stampIdentity c x"] that by simp_all
  show "identityOK (upsertIdentity c x t)"
    using upd ins by (cases rule: cases) (simp_all add: upsertIdentity_def)
  show "findIdentity (upsertIdentity c x t) ?a ?k =
      Some (case findIdentity t ?a ?k of
              None \<Rightarrow> (tbl_next t, stampIdentity c x)
            | Some (i, r) \<Rightarrow> (i, refreshIdentity r (stampIdentity c x)))"
  proof (cases rule: cases)
    case new
    with ins [OF new] show ?thesis by (simp add: upsertIdentity_def sameIdentity_def)
  next
    case (old i r)
    then have "sameIdentity ?a ?k r" by (simp add: findIdentity_Some [OF ok])
    with old upd show ?thesis by (simp add: upsertIdentity_def)
  qed
  assume other: "\<not> sameIdentity a k x"
  show "findIdentity (upsertIdentity c x t) a k = findIdentity t a k"
  proof (cases rule: cases)
    case new
    with ins [OF new] other show ?thesis by (auto simp: upsertIdentity_def sameIdentity_def)
  next
    case (old i r)
    have "map_option (\<lambda>(i, r). (i, if sameIdentity ?a ?k r then refreshIdentity r (stampIdentity c x) else r))
        (findIdentity t a k) = findIdentity t a k"
    proof (cases "findIdentity t a k")
      case (Some p)
      then obtain j s where p: "p = (j, s)" and "sameIdentity a k s"
        by (cases p) (simp add: findIdentity_Some [OF ok])
      with other have "\<not> sameIdentity ?a ?k s" by (auto simp: sameIdentity_def)
      with Some p show ?thesis by simp
    qed simp
    with old upd show ?thesis by (simp add: upsertIdentity_def)
  qed
qed

lemma fold_batches:
  assumes "0 < n"
  shows "fold (fold f) (batches n xs) t = fold f xs t"
proof -
  have "fold (fold f) bs t = fold f (concat bs) t" for bs
    by (induction bs arbitrary: t) simp_all
  with assms show ?thesis by simp
qed

lemma identityBatchSize_pos: "0 < identityBatchSize"
  using insertBatchSize_pos [of 39] by (simp add: identityBatchSize_def)

lemma upsertUsageIdentities_fold: "upsertUsageIdentities c xs t = fold (upsertIdentity c) xs t"
  by (cases xs) (simp_all add: upsertUsageIdentities_def fold_batches [OF identityBatchSize_pos])

text \<open>The row an incoming identity ends in: a new one, or the one it has, refreshed.\<close>

definition syncedRow :: "instant \<Rightarrow> usageIdentity \<Rightarrow> (nat \<times> usageIdentity) option \<Rightarrow> usageIdentity" where
  "syncedRow c x old = (case old of
      None \<Rightarrow> stampIdentity c x
    | Some (i, r) \<Rightarrow> refreshIdentity r (stampIdentity c x))"

lemma upserts_map:
  assumes "identityOK t" "distinct (map ui_Identity xs)" "\<forall>x \<in> set xs. ui_AuthType x = a"
  shows "identityOK (fold (upsertIdentity c) xs t)"
    and "b \<noteq> a \<or> k \<notin> ui_Identity ` set xs \<Longrightarrow> findIdentity (fold (upsertIdentity c) xs t) b k = findIdentity t b k"
    and "x \<in> set xs \<Longrightarrow> \<exists>i. findIdentity (fold (upsertIdentity c) xs t) a (ui_Identity x) =
      Some (i, syncedRow c x (findIdentity t a (ui_Identity x))) \<and>
      (\<forall>j r. findIdentity t a (ui_Identity x) = Some (j, r) \<longrightarrow> i = j)"
  using assms
proof (induction xs arbitrary: t b k)
  case Nil
  { case 1 then show ?case by simp }
  { case 2 then show ?case by simp }
  { case 3 then show ?case by simp }
next
  case (Cons y ys)
  { case 1
    then show ?case using Cons.IH(1) [OF upsert_map(1) [OF 1(1)]] by auto }
  { case 2
    let ?t = "upsertIdentity c y t"
    have "\<not> sameIdentity b k y" using 2 by (auto simp: sameIdentity_def)
    with 2 have "findIdentity ?t b k = findIdentity t b k" by (simp add: upsert_map(2))
    with 2 show ?case using Cons.IH(2) [OF _ upsert_map(1) [OF 2(2)]] by auto }
  { case 3
    let ?t = "upsertIdentity c y t"
    have ok: "identityOK ?t" by (rule upsert_map(1) [OF 3(2)])
    show ?case
    proof (cases "x = y")
      case True
      have "findIdentity (fold (upsertIdentity c) ys ?t) a (ui_Identity x) = findIdentity ?t a (ui_Identity x)"
        using 3 True by (intro Cons.IH(2) [OF _ ok]) auto
      moreover have "findIdentity ?t a (ui_Identity x) = Some (case findIdentity t a (ui_Identity x) of
          None \<Rightarrow> (tbl_next t, stampIdentity c x) | Some (i, r) \<Rightarrow> (i, refreshIdentity r (stampIdentity c x)))"
        using upsert_map(3) [OF 3(2), of c x] 3 True by simp
      ultimately show ?thesis by (auto simp: syncedRow_def split: option.split)
    next
      case False
      with 3 have x: "x \<in> set ys" by simp
      have "findIdentity ?t a (ui_Identity x) = findIdentity t a (ui_Identity x)"
        using 3 x by (intro upsert_map(2)) (auto simp: sameIdentity_def)
      with Cons.IH(3) [OF x ok] 3 show ?thesis by simp
    qed }
qed

section \<open>Stale rows\<close>

definition staleRow :: "instant \<Rightarrow> instant \<Rightarrow> usageIdentity \<Rightarrow> usageIdentity" where
  "staleRow clock now r = r\<lparr>ui_IsDeleted := True, ui_DeletedAt := Some now, ui_UpdatedAt := clock\<rparr>"

lemma staleRow_sel [simp]:
  "ui_AuthType (staleRow c n r) = ui_AuthType r" "ui_Identity (staleRow c n r) = ui_Identity r"
  "ui_Type (staleRow c n r) = ui_Type r" "ui_IsDeleted (staleRow c n r)"
  by (simp_all add: staleRow_def)

lemma markStale_map:
  assumes ok: "identityOK t"
  shows "identityOK (markStaleUsageIdentitiesDeleted c Q inc now t)"
    and "findIdentity (markStaleUsageIdentitiesDeleted c Q inc now t) a k =
      map_option (\<lambda>(i, r). (i, if Q r \<and> k \<notin> set inc then staleRow c now r else r)) (findIdentity t a k)"
proof -
  let ?ids = "map fst (filter (\<lambda>(i, r). ui_Identity r \<notin> set inc) (selectWhere (\<lambda>_. Q) t))"
  have table: "tableOK t" by (rule identityOK_table [OF ok])
  have "sorted_wrt (<) (map fst (selectWhere (\<lambda>_. Q) t))" by (rule selectWhere_sorted [OF table])
  then have "distinct (map fst (selectWhere (\<lambda>_. Q) t))" by (simp add: strict_sorted_iff)
  then have "distinct ?ids" by (rule distinct_map_filter)
  then have dist: "distinct (concat (batches identityBatchSize ?ids))"
    by (simp add: identityBatchSize_pos)
  have mark: "markStaleUsageIdentitiesDeleted c Q inc now t =
      updateWhere (\<lambda>i _. i \<in> set ?ids) (\<lambda>_. staleRow c now) t"
    unfolding markStaleUsageIdentitiesDeleted_def Let_def staleRow_def [symmetric]
    using fold_updateWhere_ids [OF dist, of "\<lambda>_. staleRow c now" t]
    by (simp add: identityBatchSize_pos)
  have ids: "i \<in> set ?ids \<longleftrightarrow> (\<exists>r. lookupRow t i = Some r \<and> Q r \<and> ui_Identity r \<notin> set inc)" for i
    using lookup_selectWhere [OF table, of _ _ "\<lambda>_. Q"] by force
  note upd = update_map [OF ok, of "\<lambda>_. staleRow c now" "\<lambda>i _. i \<in> set ?ids"]
  show "identityOK (markStaleUsageIdentitiesDeleted c Q inc now t)"
    unfolding mark by (rule upd(1)) simp
  have "map_option (\<lambda>(i, r). (i, if i \<in> set ?ids then staleRow c now r else r)) (findIdentity t a k) =
      map_option (\<lambda>(i, r). (i, if Q r \<and> k \<notin> set inc then staleRow c now r else r)) (findIdentity t a k)"
  proof (cases "findIdentity t a k")
    case (Some p)
    obtain i r where p: "p = (i, r)" by (cases p)
    with Some have r: "lookupRow t i = Some r" "ui_Identity r = k"
      by (simp_all add: findIdentity_Some [OF ok] sameIdentity_def)
    then have "i \<in> set ?ids \<longleftrightarrow> Q r \<and> k \<notin> set inc" unfolding ids by auto
    with Some p show ?thesis by simp
  qed simp
  with upd(2) show "findIdentity (markStaleUsageIdentitiesDeleted c Q inc now t) a k =
      map_option (\<lambda>(i, r). (i, if Q r \<and> k \<notin> set inc then staleRow c now r else r)) (findIdentity t a k)"
    unfolding mark by simp
qed

text \<open>Over batches of types, each row is marked at most once.\<close>

lemma markStale_types:
  assumes "identityOK t"
  shows "identityOK (fold (\<lambda>b. markStaleUsageIdentitiesDeleted c
        (\<lambda>r. ui_AuthType r = a0 \<and> ui_IsDeleted r = False \<and> ui_Type r \<in> set b) inc now) bs t)"
    and "findIdentity (fold (\<lambda>b. markStaleUsageIdentitiesDeleted c
        (\<lambda>r. ui_AuthType r = a0 \<and> ui_IsDeleted r = False \<and> ui_Type r \<in> set b) inc now) bs t) a k =
      map_option (\<lambda>(i, r). (i, if ui_AuthType r = a0 \<and> ui_IsDeleted r = False \<and> ui_Type r \<in> set (concat bs) \<and> k \<notin> set inc
        then staleRow c now r else r)) (findIdentity t a k)"
  using assms
proof (induction bs arbitrary: t)
  case Nil
  { case 1 then show ?case by simp }
  { case 2 then show ?case by (cases "findIdentity t a k") auto }
next
  case (Cons b bs)
  { case 1 show ?case using Cons.IH(1) [OF markStale_map(1) [OF 1]] by simp }
  { case 2
    show ?case
      unfolding fold_simps comp_apply Cons.IH(2) [OF markStale_map(1) [OF 2]] markStale_map(2) [OF 2]
      by (cases "findIdentity t a k") (auto split: if_splits) }
qed

section \<open>Normalised input\<close>

lemma normalizedIdentity_sel [simp]:
  "ui_AuthType (normalizedIdentity a i) = a" "ui_Identity (normalizedIdentity a i) = trimSpace (ui_Identity i)"
  "ui_IsDeleted (normalizedIdentity a i) = False"
  by (simp_all add: normalizedIdentity_def)

lemma normalizeFrom_list:
  assumes "normalizeFrom a seen is = (ns, inc)"
  shows "map ui_Identity ns = inc \<and> distinct inc \<and> set inc = trimSpace ` ui_Identity ` set is - {[]} - seen \<and>
    (\<forall>n \<in> set ns. \<exists>i \<in> set is. n = normalizedIdentity a i)"
  using assms
proof (induction "is" arbitrary: seen ns inc)
  case Nil
  then show ?case by simp
next
  case (Cons i "is")
  let ?k = "trimSpace (ui_Identity i)"
  show ?case
  proof (cases "?k = [] \<or> ?k \<in> seen")
    case True
    with Cons.prems have "normalizeFrom a seen is = (ns, inc)" by (simp add: Let_def split: if_splits)
    from Cons.IH [OF this] True show ?thesis by auto
  next
    case False
    obtain ms ks where rest: "normalizeFrom a (insert ?k seen) is = (ms, ks)" by (cases "normalizeFrom a (insert ?k seen) is")
    with False Cons.prems have "ns = normalizedIdentity a i # ms" "inc = ?k # ks" by (auto simp: Let_def)
    with Cons.IH [OF rest] False show ?thesis by auto
  qed
qed

text \<open>An index is taken from its first occurrence.\<close>

lemma normalizeFrom_first:
  assumes "normalizeFrom a seen is = (ns, inc)" "k \<noteq> []" "k \<notin> seen"
    and "find (\<lambda>i. trimSpace (ui_Identity i) = k) is = Some i"
  shows "normalizedIdentity a i \<in> set ns"
  using assms
proof (induction "is" arbitrary: seen ns inc)
  case Nil
  then show ?case by simp
next
  case (Cons j "is")
  let ?k = "trimSpace (ui_Identity j)"
  show ?case
  proof (cases "?k = [] \<or> ?k \<in> seen")
    case True
    with Cons.prems have "normalizeFrom a seen is = (ns, inc)" by (simp add: Let_def split: if_splits)
    moreover have "?k \<noteq> k" using True Cons.prems by auto
    ultimately have "normalizeFrom a seen is = (ns, inc)" "?k \<noteq> k" .
    with Cons show ?thesis by simp
  next
    case False
    obtain ms ks where rest: "normalizeFrom a (insert ?k seen) is = (ms, ks)" by (cases "normalizeFrom a (insert ?k seen) is")
    with False Cons.prems have ns: "ns = normalizedIdentity a j # ms" by (auto simp: Let_def)
    show ?thesis
    proof (cases "?k = k")
      case True
      with Cons.prems ns show ?thesis by simp
    next
      case neq: False
      with Cons.IH [OF rest] Cons.prems ns show ?thesis by simp
    qed
  qed
qed

lemma mergePersisted_keys:
  "map ui_Identity (mergePersistedPassiveQuota t xs) = map ui_Identity xs"
  "\<forall>x \<in> set xs. ui_AuthType x = a \<Longrightarrow> \<forall>x \<in> set (mergePersistedPassiveQuota t xs). ui_AuthType x = a"
  by (auto simp: mergePersistedPassiveQuota_def split: option.split)

section \<open>Concrete values\<close>

text \<open>The zero value of the entity.\<close>

definition emptyIdentity :: usageIdentity where
  "emptyIdentity =
     \<lparr>ui_CanonicalValidAttempts = 0, ui_Name = [], ui_AuthType = 0, ui_AuthTypeName = [], ui_Identity = [],
      ui_Type = [], ui_Provider = [], ui_LookupKey = [], ui_Prefix = [], ui_BaseURL = [], ui_AccountID = None,
      ui_ProjectID = None, ui_ActiveStart = None, ui_ActiveUntil = None, ui_PlanType = None,
      ui_AuthFileStatus = None, ui_Unavailable = None, ui_LastRefresh = None, ui_NextRetryAfter = None,
      ui_MetadataObservedAt = None, ui_AuthRenewal = None, ui_PassiveQuota = None, ui_PassiveModelQuotas = [],
      ui_TotalRequests = 0, ui_SuccessCount = 0, ui_FailureCount = 0, ui_InputTokens = 0, ui_OutputTokens = 0,
      ui_ReasoningTokens = 0, ui_CachedTokens = 0, ui_TotalTokens = 0, ui_LastAggregatedUsageEventID = 0,
      ui_FirstUsedAt = None, ui_LastUsedAt = None, ui_StatsUpdatedAt = None, ui_TotalCost = 0,
      ui_CostAvailable = False, ui_IsDeleted = False, ui_Disabled = False, ui_CreatedAt = zero_time,
      ui_UpdatedAt = zero_time, ui_DeletedAt = None\<rparr>"

definition account :: "string \<Rightarrow> usageIdentity" where
  "account k = emptyIdentity\<lparr>ui_Identity := k\<rparr>"

lemma identityOK_empty: "identityOK emptyTable"
  by (simp add: identityOK_def lookupRow_def emptyTable_def tableOK_def)

lemma trimSpace_a: "trimSpace ''a'' = ''a''"
  by code_simp

section \<open>Properties\<close>

text \<open>What the aggregation of usage maintains of a row, and what CPA reports of it.\<close>

definition identityUsage ::
  "usageIdentity \<Rightarrow> (i64 \<times> i64 \<times> i64) \<times> nat \<times> instant option \<times> instant option \<times> instant option \<times> instant" where
  "identityUsage r = ((ui_TotalRequests r, ui_SuccessCount r, ui_FailureCount r), ui_LastAggregatedUsageEventID r,
     ui_FirstUsedAt r, ui_LastUsedAt r, ui_StatsUpdatedAt r, ui_CreatedAt r)"

definition identityReport ::
  "usageIdentity \<Rightarrow> string list \<times> string option list \<times> bool option \<times> instant option list \<times> bool" where
  "identityReport r = ([ui_Name r, ui_AuthTypeName r, ui_Type r, ui_Provider r, ui_LookupKey r, ui_Prefix r, ui_BaseURL r],
     [ui_AccountID r, ui_ProjectID r, ui_PlanType r, ui_AuthFileStatus r], ui_Unavailable r,
     [ui_ActiveStart r, ui_ActiveUntil r, ui_LastRefresh r, ui_NextRetryAfter r, ui_MetadataObservedAt r], ui_Disabled r)"

lemma syncedRow_report [simp]: "identityReport (syncedRow c x old) = identityReport x"
  by (auto simp: syncedRow_def identityReport_def refreshIdentity_def stampIdentity_def split: option.split)

lemma syncedRow_usage [simp]: "identityUsage (syncedRow c x (Some (i, r))) = identityUsage r"
  by (simp add: syncedRow_def identityUsage_def refreshIdentity_def)

lemma syncedRow_active: "ui_IsDeleted x = False \<Longrightarrow> ui_IsDeleted (syncedRow c x old) = False"
  by (auto simp: syncedRow_def refreshIdentity_def stampIdentity_def split: option.split)

lemma staleRow_usage [simp]: "identityUsage (staleRow c n r) = identityUsage r"
  by (simp add: staleRow_def identityUsage_def)

lemma mergePersisted_mem:
  assumes "x \<in> set xs"
  shows "\<exists>y \<in> set (mergePersistedPassiveQuota t xs). ui_Identity y = ui_Identity x \<and> ui_AuthType y = ui_AuthType x \<and>
    identityReport y = identityReport x \<and> ui_IsDeleted y = ui_IsDeleted x \<and> identityUsage y = identityUsage x"
  using assms
  by (force simp: mergePersistedPassiveQuota_def identityReport_def identityUsage_def split: option.split)

lemma mergePersisted_mem':
  assumes "y \<in> set (mergePersistedPassiveQuota t xs)"
  shows "\<exists>x \<in> set xs. ui_Identity y = ui_Identity x \<and> ui_IsDeleted y = ui_IsDeleted x \<and> identityUsage y = identityUsage x"
  using assms by (force simp: mergePersistedPassiveQuota_def identityUsage_def split: option.splits)

section \<open>The table after a synchronisation\<close>

definition reportedIndexes :: "usageIdentity list \<Rightarrow> string set" where
  "reportedIndexes identities = trimSpace ` ui_Identity ` set identities - {[]}"

text \<open>
  Upserts of the reports \<open>xs\<close> of one kind, followed by marking the rows of the kind that satisfy \<open>S\<close>
  and are not reported.
\<close>

lemma synced_rows:
  assumes ok: "identityOK t" and kind: "\<forall>x \<in> set xs. ui_AuthType x = a" and dist: "distinct (map ui_Identity xs)"
    and final: "\<And>b k. findIdentity t' b k = map_option (\<lambda>(i, r). (i, if ui_AuthType r = a \<and> S r \<and>
      k \<notin> ui_Identity ` set xs then staleRow clock now r else r)) (findIdentity (fold (upsertIdentity clock) xs t) b k)"
  shows "b \<noteq> a \<Longrightarrow> findIdentity t' b k = findIdentity t b k"
    and "k \<notin> ui_Identity ` set xs \<Longrightarrow> findIdentity t' a k =
      map_option (\<lambda>(i, r). (i, if S r then staleRow clock now r else r)) (findIdentity t a k)"
    and "x \<in> set xs \<Longrightarrow> \<exists>i. findIdentity t' a (ui_Identity x) =
      Some (i, syncedRow clock x (findIdentity t a (ui_Identity x))) \<and>
      (\<forall>j r. findIdentity t a (ui_Identity x) = Some (j, r) \<longrightarrow> i = j)"
proof -
  note up = upserts_map [OF ok dist kind, where c = clock]
  have kind_of: "ui_AuthType r = b" if "findIdentity t b k = Some (i, r)" for b k i r
    using that by (simp add: findIdentity_Some [OF ok] sameIdentity_def)
  show "findIdentity t' b k = findIdentity t b k" if "b \<noteq> a"
    using final [of b k] up(2) [of b k] kind_of [of b k] that by (cases "findIdentity t b k") auto
  show "findIdentity t' a k = map_option (\<lambda>(i, r). (i, if S r then staleRow clock now r else r)) (findIdentity t a k)"
    if "k \<notin> ui_Identity ` set xs"
    using final [of a k] up(2) [of a k] kind_of [of a k] that by (cases "findIdentity t a k") auto
  show "\<exists>i. findIdentity t' a (ui_Identity x) = Some (i, syncedRow clock x (findIdentity t a (ui_Identity x))) \<and>
      (\<forall>j r. findIdentity t a (ui_Identity x) = Some (j, r) \<longrightarrow> i = j)" if "x \<in> set xs"
    using up(3) [OF that] that by (auto simp: final)
qed

text \<open>When every unreported active row of the kind is marked, the reported ones are the active ones.\<close>

lemma synced_active:
  assumes ok: "identityOK t" and kind: "\<forall>x \<in> set xs. ui_AuthType x = a" and dist: "distinct (map ui_Identity xs)"
    and active: "\<forall>x \<in> set xs. ui_IsDeleted x = False"
    and final: "\<And>b k. findIdentity t' b k = map_option (\<lambda>(i, r). (i, if ui_AuthType r = a \<and> \<not> ui_IsDeleted r \<and>
      k \<notin> ui_Identity ` set xs then staleRow clock now r else r)) (findIdentity (fold (upsertIdentity clock) xs t) b k)"
  shows "(\<exists>i r. findIdentity t' a k = Some (i, r) \<and> \<not> ui_IsDeleted r) \<longleftrightarrow> k \<in> ui_Identity ` set xs"
proof (cases "k \<in> ui_Identity ` set xs")
  case True
  with synced_rows(3) [OF ok kind dist final] active show ?thesis by (fastforce simp: syncedRow_active)
next
  case False
  then show ?thesis by (auto simp: synced_rows(2) [OF ok kind dist final])
qed

lemma authSync_reports:
  assumes ok: "identityOK t" and res: "replaceUsageIdentitiesForAuthType False clock identities a now t = (t', None)"
  obtains xs where "\<forall>x \<in> set xs. ui_AuthType x = a" "\<forall>x \<in> set xs. ui_IsDeleted x = False"
    "distinct (map ui_Identity xs)" "ui_Identity ` set xs = reportedIndexes identities"
    "\<forall>k y. k \<noteq> [] \<and> find (\<lambda>i. trimSpace (ui_Identity i) = k) identities = Some y \<longrightarrow>
       (\<exists>x \<in> set xs. ui_Identity x = k \<and> identityReport x = identityReport (normalizedIdentity a y))"
    "identityOK t'"
    "\<forall>b k. findIdentity t' b k = map_option (\<lambda>(i, r). (i, if ui_AuthType r = a \<and> \<not> ui_IsDeleted r \<and>
       k \<notin> ui_Identity ` set xs then staleRow clock now r else r)) (findIdentity (fold (upsertIdentity clock) xs t) b k)"
proof -
  obtain ns inc where norm: "normalizeFrom a {} identities = (ns, inc)" by (cases "normalizeFrom a {} identities")
  note list = normalizeFrom_list [OF norm]
  let ?xs = "mergePersistedPassiveQuota t ns"
  let ?u = "fold (upsertIdentity clock) ?xs t"
  have t': "t' = markStaleUsageIdentitiesDeleted clock (\<lambda>r. ui_AuthType r = a \<and> ui_IsDeleted r = False) inc now ?u"
    using res norm by (simp add: replaceUsageIdentitiesForAuthType_def normalizeUsageIdentities_def
        upsertUsageIdentities_fold split: if_splits)
  have types: "\<forall>x \<in> set ?xs. ui_AuthType x = a" using list by (intro mergePersisted_keys(2)) auto
  have active: "\<forall>x \<in> set ?xs. ui_IsDeleted x = False" using mergePersisted_mem' list by fastforce
  have keys: "map ui_Identity ?xs = inc" using list by (simp add: mergePersisted_keys(1))
  then have set_keys: "ui_Identity ` set ?xs = set inc" by (metis set_map)
  have dist: "distinct (map ui_Identity ?xs)" using keys list by simp
  have oku: "identityOK ?u" by (rule upserts_map(1) [OF ok dist types])
  note stale = markStale_map [OF oku, of clock "\<lambda>r. ui_AuthType r = a \<and> ui_IsDeleted r = False" inc now, folded t']
  have first: "\<exists>x \<in> set ?xs. ui_Identity x = k \<and> identityReport x = identityReport (normalizedIdentity a y)"
    if "k \<noteq> []" "find (\<lambda>i. trimSpace (ui_Identity i) = k) identities = Some y" for k y
  proof -
    have "normalizedIdentity a y \<in> set ns" by (rule normalizeFrom_first [OF norm that(1) _ that(2)]) simp
    moreover have "trimSpace (ui_Identity y) = k" using that(2) by (simp add: find_Some_iff) blast
    ultimately show ?thesis using mergePersisted_mem [of "normalizedIdentity a y" ns t] by auto
  qed
  show thesis
    by (rule that [OF types active dist _ _ stale(1)]) (use set_keys list first stale(2) in \<open>simp_all add: reportedIndexes_def\<close>)
qed

text \<open>
  C24. After a synchronisation of one kind of identity, the table still has one row per kind and
  index; the active rows of the kind are exactly the reported indexes; each reported index carries
  what its first report says; a row keeps its key, its counted usage and its creation time whether
  it is refreshed, restored or marked deleted; and rows of other kinds, as well as those deleted
  before and still not reported, are not touched.
\<close>
theorem identitySync_exact:
  assumes ok: "identityOK t"
    and res: "replaceUsageIdentitiesForAuthType False clock identities a now t = (t', None)"
  shows "identityOK t' \<and>
    {k. \<exists>i r. findIdentity t' a k = Some (i, r) \<and> \<not> ui_IsDeleted r} = trimSpace ` ui_Identity ` set identities - {[]} \<and>
    (\<forall>k x. k \<noteq> [] \<and> find (\<lambda>i. trimSpace (ui_Identity i) = k) identities = Some x \<longrightarrow>
       (\<exists>i r. findIdentity t' a k = Some (i, r) \<and> identityReport r = identityReport (normalizedIdentity a x))) \<and>
    (\<forall>k i r. findIdentity t a k = Some (i, r) \<longrightarrow> (\<exists>r'. findIdentity t' a k = Some (i, r') \<and> identityUsage r' = identityUsage r \<and>
       (k \<notin> trimSpace ` ui_Identity ` set identities \<and> ui_IsDeleted r \<longrightarrow> r' = r))) \<and>
    (\<forall>b k. b \<noteq> a \<longrightarrow> findIdentity t' b k = findIdentity t b k)"
proof -
  obtain xs where kind: "\<forall>x \<in> set xs. ui_AuthType x = a"
    and active: "\<forall>x \<in> set xs. ui_IsDeleted x = False" and dist: "distinct (map ui_Identity xs)"
    and keys: "ui_Identity ` set xs = trimSpace ` ui_Identity ` set identities - {[]}"
    and first: "\<forall>k y. k \<noteq> [] \<and> find (\<lambda>i. trimSpace (ui_Identity i) = k) identities = Some y \<longrightarrow>
       (\<exists>x \<in> set xs. ui_Identity x = k \<and> identityReport x = identityReport (normalizedIdentity a y))"
    and ok': "identityOK t'"
    and final: "\<forall>b k. findIdentity t' b k = map_option (\<lambda>(i, r). (i, if ui_AuthType r = a \<and> \<not> ui_IsDeleted r \<and>
       k \<notin> ui_Identity ` set xs then staleRow clock now r else r)) (findIdentity (fold (upsertIdentity clock) xs t) b k)"
    by (rule authSync_reports [OF ok res, unfolded reportedIndexes_def]) (erule (6) that)
  note rows = synced_rows [OF ok kind dist final [rule_format]]
  note set_active = synced_active [OF ok kind dist active final [rule_format]]
  have kept: "\<exists>r'. findIdentity t' a k = Some (i, r') \<and> identityUsage r' = identityUsage r \<and>
      (k \<notin> trimSpace ` ui_Identity ` set identities \<and> ui_IsDeleted r \<longrightarrow> r' = r)"
    if old: "findIdentity t a k = Some (i, r)" for k i r
  proof (cases "k \<in> ui_Identity ` set xs")
    case True
    then obtain x where "x \<in> set xs" "k = ui_Identity x" by blast
    with rows(3) [of x] old True keys show ?thesis by auto
  next
    case False
    with rows(2) [OF False] old show ?thesis by auto
  qed
  have reports: "\<exists>i r. findIdentity t' a k = Some (i, r) \<and> identityReport r = identityReport (normalizedIdentity a y)"
    if "k \<noteq> []" "find (\<lambda>i. trimSpace (ui_Identity i) = k) identities = Some y" for k y
  proof -
    from first that obtain x where "x \<in> set xs" "ui_Identity x = k" "identityReport x = identityReport (normalizedIdentity a y)"
      by blast
    with rows(3) [of x] show ?thesis by auto
  qed
  have "{k. \<exists>i r. findIdentity t' a k = Some (i, r) \<and> \<not> ui_IsDeleted r} = trimSpace ` ui_Identity ` set identities - {[]}"
    by (simp only: set_active keys Collect_mem_eq)
  then show ?thesis
    using ok' by (intro conjI allI impI) (assumption | rule rows(1) kept reports | erule conjunct1 conjunct2)+
qed

lemma identitySync_exact_witness:
  "\<exists>t'. replaceUsageIdentitiesForAuthType False 5 [account ''a''] UsageIdentityAuthTypeAuthFile 5 emptyTable = (t', None) \<and>
     {k. \<exists>i r. findIdentity t' UsageIdentityAuthTypeAuthFile k = Some (i, r) \<and> \<not> ui_IsDeleted r} = {''a''}"
proof -
  let ?res = "replaceUsageIdentitiesForAuthType False 5 [account ''a''] UsageIdentityAuthTypeAuthFile 5 emptyTable"
  have res: "?res = (fst ?res, None)"
    by (simp add: replaceUsageIdentitiesForAuthType_def authTypeValid_def split: prod.split)
  from identitySync_exact [OF identityOK_empty res] have
    "{k. \<exists>i r. findIdentity (fst ?res) UsageIdentityAuthTypeAuthFile k = Some (i, r) \<and> \<not> ui_IsDeleted r} =
      trimSpace ` ui_Identity ` set [account ''a''] - {[]}" by blast
  with res show ?thesis by (auto simp: account_def trimSpace_a)
qed

lemma normalizeTypes_set: "set (normalizeTypesFrom seen ts) = trimSpace ` set ts - {[]} - seen"
  by (induction ts arbitrary: seen) (auto simp: Let_def)

lemma providerSync_reports:
  assumes ok: "identityOK t"
    and res: "replaceUsageIdentitiesForProviderTypes False clock identities types now t = (t', None)"
  obtains xs where "\<forall>x \<in> set xs. ui_AuthType x = UsageIdentityAuthTypeAIProvider" "\<forall>x \<in> set xs. ui_IsDeleted x = False"
    "distinct (map ui_Identity xs)" "ui_Identity ` set xs = reportedIndexes identities"
    "\<forall>k y. k \<noteq> [] \<and> find (\<lambda>i. trimSpace (ui_Identity i) = k) identities = Some y \<longrightarrow>
       (\<exists>x \<in> set xs. ui_Identity x = k \<and> identityReport x = identityReport (normalizedIdentity UsageIdentityAuthTypeAIProvider y))"
    "identityOK t'"
    "\<forall>b k. findIdentity t' b k = map_option (\<lambda>(i, r). (i, if ui_AuthType r = UsageIdentityAuthTypeAIProvider \<and>
       (\<not> ui_IsDeleted r \<and> ui_Type r \<in> trimSpace ` set types - {[]}) \<and> k \<notin> ui_Identity ` set xs
       then staleRow clock now r else r)) (findIdentity (fold (upsertIdentity clock) xs t) b k)"
proof -
  let ?a = UsageIdentityAuthTypeAIProvider
  obtain ns inc where norm: "normalizeFrom ?a {} identities = (ns, inc)" by (cases "normalizeFrom ?a {} identities")
  note list = normalizeFrom_list [OF norm]
  let ?u = "fold (upsertIdentity clock) ns t"
  let ?bs = "batches identityBatchSize (normalizeProviderTypes types)"
  have t': "t' = fold (\<lambda>b. markStaleUsageIdentitiesDeleted clock
      (\<lambda>r. ui_AuthType r = ?a \<and> ui_IsDeleted r = False \<and> ui_Type r \<in> set b) inc now) ?bs ?u"
    using res norm
    by (cases "normalizeProviderTypes types")
      (simp_all add: replaceUsageIdentitiesForProviderTypes_def normalizeUsageIdentities_def
        upsertUsageIdentities_fold Let_def batches.simps [of _ "[]"])
  have dist: "distinct (map ui_Identity ns)" and kind: "\<forall>x \<in> set ns. ui_AuthType x = ?a"
    and active: "\<forall>x \<in> set ns. ui_IsDeleted x = False" and set_keys: "ui_Identity ` set ns = set inc"
    and inc: "set inc = reportedIndexes identities"
    using list by (auto simp: reportedIndexes_def simp flip: set_map)
  have types: "set (concat ?bs) = trimSpace ` set types - {[]}"
    using normalizeTypes_set by (simp add: normalizeProviderTypes_def identityBatchSize_pos)
  note stale = markStale_types [OF upserts_map(1) [OF ok dist kind], of clock ?a inc now ?bs clock, folded t', unfolded types]
  have first: "\<exists>x \<in> set ns. ui_Identity x = k \<and> identityReport x = identityReport (normalizedIdentity ?a y)"
    if "k \<noteq> []" "find (\<lambda>i. trimSpace (ui_Identity i) = k) identities = Some y" for k y
  proof -
    have "normalizedIdentity ?a y \<in> set ns" by (rule normalizeFrom_first [OF norm that(1) _ that(2)]) simp
    moreover have "trimSpace (ui_Identity y) = k" using that(2) by (simp add: find_Some_iff) blast
    ultimately show ?thesis by (metis normalizedIdentity_sel(2))
  qed
  show thesis
    by (rule that [OF kind active dist _ _ stale(1)]) (use set_keys inc first stale(2) in \<open>simp_all add: conj_assoc\<close>)
qed

text \<open>
  A synchronisation of provider identities touches no other kind; the reported indexes are
  active afterwards; and of the others exactly the active rows of a fetched provider type are
  marked deleted, keeping all else.
\<close>
theorem identityProviderSync_exact:
  assumes ok: "identityOK t"
    and res: "replaceUsageIdentitiesForProviderTypes False clock identities types now t = (t', None)"
  shows "identityOK t' \<and>
    (\<forall>k \<in> trimSpace ` ui_Identity ` set identities - {[]}.
       \<exists>i r. findIdentity t' UsageIdentityAuthTypeAIProvider k = Some (i, r) \<and> \<not> ui_IsDeleted r) \<and>
    (\<forall>k. k \<notin> trimSpace ` ui_Identity ` set identities - {[]} \<longrightarrow>
       findIdentity t' UsageIdentityAuthTypeAIProvider k = map_option (\<lambda>(i, r). (i,
         if ui_IsDeleted r = False \<and> ui_Type r \<in> trimSpace ` set types - {[]} then staleRow clock now r else r))
         (findIdentity t UsageIdentityAuthTypeAIProvider k)) \<and>
    (\<forall>b k. b \<noteq> UsageIdentityAuthTypeAIProvider \<longrightarrow> findIdentity t' b k = findIdentity t b k)"
proof -
  let ?a = UsageIdentityAuthTypeAIProvider
  obtain xs where kind: "\<forall>x \<in> set xs. ui_AuthType x = ?a"
    and active: "\<forall>x \<in> set xs. ui_IsDeleted x = False" and dist: "distinct (map ui_Identity xs)"
    and keys: "ui_Identity ` set xs = trimSpace ` ui_Identity ` set identities - {[]}"
    and ok': "identityOK t'"
    and final: "\<forall>b k. findIdentity t' b k = map_option (\<lambda>(i, r). (i, if ui_AuthType r = ?a \<and>
       (\<not> ui_IsDeleted r \<and> ui_Type r \<in> trimSpace ` set types - {[]}) \<and> k \<notin> ui_Identity ` set xs
       then staleRow clock now r else r)) (findIdentity (fold (upsertIdentity clock) xs t) b k)"
    by (rule providerSync_reports [OF ok res, unfolded reportedIndexes_def]) (erule (5) that)
  note rows = synced_rows [OF ok kind dist final [rule_format]]
  have "\<exists>i r. findIdentity t' ?a k = Some (i, r) \<and> \<not> ui_IsDeleted r" if "k \<in> ui_Identity ` set xs" for k
    using that rows(3) active by (fastforce simp: syncedRow_active)
  with rows(1,2) ok' keys show ?thesis by simp
qed

lemma identityProviderSync_exact_witness:
  "\<exists>t'. replaceUsageIdentitiesForProviderTypes False 5 [account ''a''] [''openai''] 5 emptyTable = (t', None) \<and>
     (\<exists>i r. findIdentity t' UsageIdentityAuthTypeAIProvider ''a'' = Some (i, r) \<and> \<not> ui_IsDeleted r)"
proof -
  let ?res = "replaceUsageIdentitiesForProviderTypes False 5 [account ''a''] [''openai''] 5 emptyTable"
  have res: "?res = (fst ?res, None)"
    by (simp add: replaceUsageIdentitiesForProviderTypes_def Let_def split: prod.split)
  from identityProviderSync_exact [OF identityOK_empty res] have
    "\<forall>k \<in> trimSpace ` ui_Identity ` set [account ''a''] - {[]}.
       \<exists>i r. findIdentity (fst ?res) UsageIdentityAuthTypeAIProvider k = Some (i, r) \<and> \<not> ui_IsDeleted r" by blast
  with res show ?thesis by (auto simp: account_def trimSpace_a)
qed

end
