(* ===== verification/QuotaStore.thy ===== *)
theory QuotaStore
  imports QuotaTasks IdentitySync
begin

text \<open>
  The persisted quota observations (\<open>repository/quota_observations.go\<close>) and the adapter that gives
  the quota service its persistence (\<open>quota/repository.go\<close>). An observation is stored per identity;
  a newer one replaces it. The JSON text of the rows is written and read by two arguments, and a
  third one is the quoting of an index in an error text.
\<close>

section \<open>The tables\<close>

record quotaObservation =
  qo_ObservedAt :: instant
  qo_QuotaJSON :: string

record quotaDB =
  qd_identities :: identityTable
  qd_observations :: "nat \<rightharpoonup> quotaObservation"

record quotaCodec =
  qc_marshal :: "quotaRow list \<Rightarrow> goErr + string"
  qc_unmarshal :: "string \<Rightarrow> goErr + quotaRow list"
  qc_quote :: "string \<Rightarrow> string"

text \<open>\<open>fault\<close>: a statement of the transaction fails.\<close>

definition saveQuotaObservation ::
  "goErr option \<Rightarrow> nat \<Rightarrow> instant \<Rightarrow> string \<Rightarrow> quotaDB \<Rightarrow> quotaDB \<times> goErr option" where
  "saveQuotaObservation fault identityID observedAt quotaJSON db =
     (if identityID = 0 \<or> isZero observedAt \<or> trimSpace quotaJSON = []
      then (db, Some (PlainError ''invalid quota observation''))
      else (case fault of
        Some err \<Rightarrow> (db, Some err)
      | None \<Rightarrow>
          if length (selectWhere (\<lambda>i r. i = identityID \<and> ui_AuthType r = UsageIdentityAuthTypeAuthFile \<and>
               ui_IsDeleted r = False) (qd_identities db)) = 0
          then (db, Some ErrRecordNotFound)
          else (let observation = \<lparr>qo_ObservedAt = observedAt, qo_QuotaJSON = quotaJSON\<rparr> in
            (case qd_observations db identityID of
               None \<Rightarrow> (db\<lparr>qd_observations := (qd_observations db)(identityID \<mapsto> observation)\<rparr>, None)
             | Some current \<Rightarrow>
                 if qo_ObservedAt current < observedAt
                 then (db\<lparr>qd_observations := (qd_observations db)(identityID \<mapsto> observation)\<rparr>, None)
                 else (db, None)))))"

text \<open>The join, in the order of the identities, which no caller relies on.\<close>

definition listActiveAuthFileQuotaObservations ::
  "string list \<Rightarrow> quotaDB \<Rightarrow> (string \<times> quotaObservation) list" where
  "listActiveAuthFileQuotaObservations authIndexes db =
     (if length authIndexes = 0 then []
      else concat (map (\<lambda>(i, r). case qd_observations db i of
             None \<Rightarrow> []
           | Some observation \<Rightarrow> [(ui_Identity r, observation)])
        (selectWhere (\<lambda>_ r. ui_AuthType r = UsageIdentityAuthTypeAuthFile \<and> ui_IsDeleted r = False \<and>
           ui_Identity r \<in> set authIndexes) (qd_identities db))))"

section \<open>The adapter\<close>

definition quotaIdentityOf :: "nat \<times> usageIdentity \<Rightarrow> quotaIdentity" where
  "quotaIdentityOf = (\<lambda>(i, r).
     \<lparr>qi_ID = i, qi_Identity = ui_Identity r, qi_Provider = ui_Provider r, qi_Type = ui_Type r,
      qi_ProjectID = ui_ProjectID r, qi_AccountID = ui_AccountID r\<rparr>)"

definition findActiveAuthFileIdentity :: "goErr option \<Rightarrow> quotaDB \<Rightarrow> string \<Rightarrow> goErr + quotaIdentity option" where
  "findActiveAuthFileIdentity fault db authIndex =
     (case fault of
        Some err \<Rightarrow> Inl err
      | None \<Rightarrow> Inr (map_option quotaIdentityOf
          (getActiveAuthFileUsageIdentityByAuthIndex authIndex (qd_identities db))))"

definition hasActiveIdentity :: "goErr option \<Rightarrow> quotaDB \<Rightarrow> string \<Rightarrow> goErr + bool" where
  "hasActiveIdentity fault db authIndex =
     (case fault of
        Some err \<Rightarrow> Inl err
      | None \<Rightarrow> Inr (hasActiveUsageIdentityByAuthIndex authIndex (qd_identities db)))"

definition saveObservation ::
  "quotaCodec \<Rightarrow> goErr option \<Rightarrow> nat \<Rightarrow> checkResponse \<Rightarrow> quotaDB \<Rightarrow> quotaDB \<times> goErr option" where
  "saveObservation codec fault identityID response db =
     (if identityID = 0 \<or> isZero (cr_ObservedAt response) then (db, Some (PlainError ''invalid quota observation''))
      else (case qc_marshal codec (cr_Quota response) of
        Inl err \<Rightarrow> (db, Some (wrap ''marshal quota observation: '' err))
      | Inr quotaJSON \<Rightarrow>
          (case saveQuotaObservation fault identityID (cr_ObservedAt response) quotaJSON db of
             (db', Some err) \<Rightarrow>
               if errIs err ErrRecordNotFound
               then (db', Some (WrapError (errText ErrNotFound @ '': identity '' @ nat_digits identityID) [ErrNotFound]))
               else (db', Some err)
           | (db', None) \<Rightarrow> (db', None))))"

fun requestedIndexes :: "int \<Rightarrow> string list \<Rightarrow> string list \<Rightarrow> string list" where
  \<comment> \<open>the first list is \<open>requested\<close>, which also holds what has been seen\<close>
  "requestedIndexes limit requested [] = requested"
| "requestedIndexes limit requested (raw # rest) =
     (if limit \<le> int (length requested) then requested
      else (let authIndex = trimSpace raw in
        if authIndex = [] \<or> authIndex \<in> set requested then requestedIndexes limit requested rest
        else requestedIndexes limit (requested @ [authIndex]) rest))"

fun decodeObservations ::
  "quotaCodec \<Rightarrow> (string \<times> quotaObservation) list \<Rightarrow> goErr + (string \<rightharpoonup> checkResponse)" where
  "decodeObservations codec [] = Inr Map.empty"
| "decodeObservations codec ((authIndex, o') # rows) =
     (case qc_unmarshal codec (qo_QuotaJSON o') of
        Inl err \<Rightarrow> Inl (wrap (''decode quota observation for '' @ qc_quote codec authIndex @ '': '') err)
      | Inr quotaRows \<Rightarrow>
          (case decodeObservations codec rows of
             Inl err \<Rightarrow> Inl err
           | Inr byAuthIndex \<Rightarrow>
               Inr ([authIndex \<mapsto> \<lparr>cr_ID = authIndex, cr_ObservedAt = qo_ObservedAt o', cr_Quota = quotaRows\<rparr>]
                 ++ byAuthIndex)))"

definition listObservations ::
  "quotaCodec \<Rightarrow> goErr option \<Rightarrow> quotaDB \<Rightarrow> string list \<Rightarrow> int \<Rightarrow> goErr + checkResponse list option" where
  "listObservations codec fault db authIndexes limit =
     (if limit \<le> 0 then Inl (validationError ''limit is required'')
      else (let requested = requestedIndexes limit [] authIndexes in
        if length requested = 0 then Inr (Some [])
        else (case fault of
          Some err \<Rightarrow> Inl err
        | None \<Rightarrow>
            (case decodeObservations codec (listActiveAuthFileQuotaObservations requested db) of
               Inl err \<Rightarrow> Inl err
             | Inr byAuthIndex \<Rightarrow> Inr (Some (List.map_filter byAuthIndex requested))))))"

text \<open>The service's repository over the tables, and the check with its effect on them.\<close>

definition newQuotaRepository :: "quotaCodec \<Rightarrow> quotaDB \<Rightarrow> quotaRepository" where
  "newQuotaRepository codec db =
     \<lparr>qp_FindActiveAuthFileIdentity = findActiveAuthFileIdentity None db,
      qp_HasActiveIdentity = hasActiveIdentity None db,
      qp_SaveQuotaObservation = (\<lambda>i response. snd (saveObservation codec None i response db)),
      qp_ListQuotaObservations = listObservations codec None db\<rparr>"

definition checkOnDB ::
  "quotaCodec \<Rightarrow> providerRegistry \<Rightarrow> quotaEnv \<Rightarrow> instant \<Rightarrow> string \<Rightarrow> quotaDB \<Rightarrow> quotaDB \<times> (goErr + checkResponse)" where
  "checkOnDB codec registry env now authIndex db =
     (case quotaCheck (newQuotaRepository codec db) registry env now authIndex of
        (res, None) \<Rightarrow> (db, res)
      | (res, Some (i, response)) \<Rightarrow> (fst (saveObservation codec None i response db), res))"

section \<open>What a store of observations promises\<close>

text \<open>
  A save either changes nothing and fails, or leaves the newer of the stored and the given
  observation of its identity, and no other observation changes.
\<close>

locale observation_store =
  fixes save :: "nat \<Rightarrow> instant \<Rightarrow> string \<Rightarrow> 'db \<Rightarrow> 'db \<times> goErr option"
    and stored :: "'db \<Rightarrow> nat \<Rightarrow> (instant \<times> string) option"
  assumes failed: "save i t json db = (db', Some err) \<Longrightarrow> db' = db"
    and others: "save i t json db = (db', res) \<Longrightarrow> j \<noteq> i \<Longrightarrow> stored db' j = stored db j"
    and saved: "save i t json db = (db', None) \<Longrightarrow> stored db' i =
      (case stored db i of Some (t0, json0) \<Rightarrow> if t0 < t then Some (t, json) else Some (t0, json0)
       | None \<Rightarrow> Some (t, json))"
begin

definition saveAll :: "(nat \<times> instant \<times> string) list \<Rightarrow> 'db \<Rightarrow> 'db" where
  "saveAll = fold (\<lambda>(i, t, json) db. fst (save i t json db))"

lemma save_newer:
  assumes "stored db i = Some (t0, json0)"
  shows "\<exists>t1 json1. stored (fst (save j t json db)) i = Some (t1, json1) \<and> t0 \<le> t1 \<and>
    ((t1, json1) = (t0, json0) \<or> (j, t1, json1) = (i, t, json))"
proof -
  obtain db' res where s: "save j t json db = (db', res)" by (cases "save j t json db")
  show ?thesis
  proof (cases "j = i")
    case False
    with others [OF s] assms s show ?thesis by force
  next
    case True
    show ?thesis
    proof (cases res)
      case None
      with saved [OF s [unfolded None]] True assms s show ?thesis by auto
    next
      case (Some err)
      with failed [OF s [unfolded Some]] assms s show ?thesis by auto
    qed
  qed
qed

text \<open>Over any sequence of saves the stored time never goes back, and what is stored was saved.\<close>

lemma saveAll_newer:
  "stored db i = Some (t0, json0) \<Longrightarrow>
    \<exists>t1 json1. stored (saveAll saves db) i = Some (t1, json1) \<and> t0 \<le> t1 \<and>
      ((t1, json1) = (t0, json0) \<or> (i, t1, json1) \<in> set saves)"
proof (induction saves arbitrary: db t0 json0)
  case Nil
  then show ?case by (simp add: saveAll_def)
next
  case (Cons s saves)
  obtain j t json where s: "s = (j, t, json)" by (cases s)
  from save_newer [OF Cons.prems, of j t json] obtain t1 json1 where
    one: "stored (fst (save j t json db)) i = Some (t1, json1)" "t0 \<le> t1"
      "(t1, json1) = (t0, json0) \<or> (j, t1, json1) = (i, t, json)" by blast
  from Cons.IH [OF one(1)] obtain t2 json2 where
    "stored (saveAll saves (fst (save j t json db))) i = Some (t2, json2)" "t1 \<le> t2"
    "(t2, json2) = (t1, json1) \<or> (i, t2, json2) \<in> set saves" by blast
  with one s show ?case by (auto simp: saveAll_def)
qed

end

definition storedObservation :: "quotaDB \<Rightarrow> nat \<Rightarrow> (instant \<times> string) option" where
  "storedObservation db i = map_option (\<lambda>o'. (qo_ObservedAt o', qo_QuotaJSON o')) (qd_observations db i)"

lemma save_cases:
  assumes "saveQuotaObservation fault i t json db = (db', res)"
  shows "(res \<noteq> None \<longrightarrow> db' = db) \<and> qd_identities db' = qd_identities db \<and>
    (\<forall>j. j \<noteq> i \<longrightarrow> qd_observations db' j = qd_observations db j) \<and>
    (res = None \<longrightarrow> qd_observations db' i = (case qd_observations db i of
       None \<Rightarrow> Some \<lparr>qo_ObservedAt = t, qo_QuotaJSON = json\<rparr>
     | Some o' \<Rightarrow> if qo_ObservedAt o' < t then Some \<lparr>qo_ObservedAt = t, qo_QuotaJSON = json\<rparr> else Some o'))"
  using assms by (auto simp: saveQuotaObservation_def Let_def split: if_splits option.splits)

interpretation obs: observation_store "saveQuotaObservation None" storedObservation
proof
  fix i t json db db' err
  assume "saveQuotaObservation None i t json db = (db', Some err)"
  from save_cases [OF this] show "db' = db" by simp
next
  fix i t json db db' res j
  assume "saveQuotaObservation None i t json db = (db', res)" "j \<noteq> i"
  from save_cases [OF this(1)] this(2) show "storedObservation db' j = storedObservation db j"
    by (simp add: storedObservation_def)
next
  fix i t json db db'
  assume "saveQuotaObservation None i t json db = (db', None)"
  from save_cases [OF this] show "storedObservation db' i =
      (case storedObservation db i of Some (t0, json0) \<Rightarrow> if t0 < t then Some (t, json) else Some (t0, json0)
       | None \<Rightarrow> Some (t, json))"
    by (auto simp: storedObservation_def split: option.splits)
qed

section \<open>A check and the list\<close>

lemma singleton_list: "distinct xs \<Longrightarrow> set xs = {x} \<Longrightarrow> xs = [x]"
  by (cases xs) (auto simp: subset_singleton_iff)

lemma set_singletonI: "x \<in> A \<Longrightarrow> (\<And>y. y \<in> A \<Longrightarrow> y = x) \<Longrightarrow> A = {x}"
  by blast

lemma select_one:
  assumes ok: "identityOK t" and r: "lookupRow t i = Some r" "ui_AuthType r = a" "ui_Identity r = k"
    and P: "\<And>j s. P j s \<Longrightarrow> ui_AuthType s = a \<and> ui_Identity s = k" and Pr: "P i r"
  shows "selectWhere P t = [(i, r)]"
proof -
  note mem = lookup_selectWhere [OF identityOK_table [OF ok], of _ _ P]
  have one: "p = (i, r)" if "p \<in> set (selectWhere P t)" for p
  proof -
    obtain j s where p: "p = (j, s)" by (cases p)
    with that have s: "lookupRow t j = Some s" "P j s" by (simp_all only: mem)
    have "ui_AuthType s = ui_AuthType r" "ui_Identity s = ui_Identity r" using P [OF s(2)] r by simp_all
    with ok s(1) r(1) have "j = i" unfolding identityOK_def by blast
    with s(1) r(1) p show ?thesis by simp
  qed
  have "(i, r) \<in> set (selectWhere P t)" by (simp only: mem r(1) Pr)
  then have "set (selectWhere P t) = {(i, r)}" by (rule set_singletonI) (rule one)
  moreover have "distinct (map fst (selectWhere P t))"
    using selectWhere_sorted [OF identityOK_table [OF ok], of P] by (simp only: strict_sorted_iff)
  then have "distinct (selectWhere P t)" by (simp only: distinct_map)
  ultimately show ?thesis by (rule singleton_list [rotated])
qed

lemma find_active:
  assumes "getActiveAuthFileUsageIdentityByAuthIndex k t = Some (i, r)" "tableOK t"
  shows "lookupRow t i = Some r \<and> ui_AuthType r = UsageIdentityAuthTypeAuthFile \<and> ui_Identity r = trimSpace k \<and>
    ui_IsDeleted r = False"
proof -
  let ?P = "\<lambda>_ r. ui_AuthType r = UsageIdentityAuthTypeAuthFile \<and> ui_Identity r = trimSpace k \<and> ui_IsDeleted r = False"
  from assms(1) have "(i, r) \<in> set (selectWhere ?P t)"
    by (auto simp: getActiveAuthFileUsageIdentityByAuthIndex_def split: list.splits)
  then show ?thesis using lookup_selectWhere [OF assms(2)] by fastforce
qed

text \<open>What the list shows of one stored observation: its text decoded, or the error of the decoding.\<close>

definition shownObservation :: "quotaCodec \<Rightarrow> string \<Rightarrow> instant \<times> string \<Rightarrow> goErr + checkResponse list" where
  "shownObservation codec authIndex = (\<lambda>(observedAt, json).
     case qc_unmarshal codec json of
       Inl err \<Rightarrow> Inl (wrap (''decode quota observation for '' @ qc_quote codec authIndex @ '': '') err)
     | Inr rows \<Rightarrow> Inr [\<lparr>cr_ID = authIndex, cr_ObservedAt = observedAt, cr_Quota = rows\<rparr>])"

lemma list_one:
  assumes ok: "identityOK (qd_identities db)" and r: "lookupRow (qd_identities db) i = Some r"
    "ui_AuthType r = UsageIdentityAuthTypeAuthFile" "ui_Identity r = trimSpace raw" "ui_IsDeleted r = False"
    and k: "trimSpace raw \<noteq> []" and stored: "storedObservation db i = Some o'"
  shows "getQuotaObservations (newQuotaRepository codec db) [raw] 1 = shownObservation codec (trimSpace raw) o'"
proof -
  let ?k = "trimSpace raw"
  obtain q where q: "qd_observations db i = Some q" "o' = (qo_ObservedAt q, qo_QuotaJSON q)"
    using stored by (auto simp: storedObservation_def)
  have select: "selectWhere (\<lambda>_ r. ui_AuthType r = UsageIdentityAuthTypeAuthFile \<and> ui_IsDeleted r = False \<and>
      ui_Identity r \<in> set [?k]) (qd_identities db) = [(i, r)]"
    by (rule select_one [OF ok r(1,2,3)]) (use r in auto)
  have "listActiveAuthFileQuotaObservations [?k] db = [(?k, q)]"
    using select q(1) r(3) by (simp add: listActiveAuthFileQuotaObservations_def)
  moreover have "requestedIndexes 1 [] [raw] = [?k]" using k by (simp add: Let_def)
  ultimately show ?thesis
    by (simp add: getQuotaObservations_def newQuotaRepository_def listObservations_def List.map_filter_def
        shownObservation_def q(2) Let_def split: sum.split)
qed

text \<open>
  C31. A successful check stores the JSON text of its rows under the account, unless the account
  already has an observation of the same or a later time, which is then kept; the list of
  observations shows next the time and the decoded text of the one that is stored, or the decoding
  error; so it shows the response itself, rows and time alike, if the text of these rows decodes to
  them and the observation the account had, if any, was earlier. No other account's observation
  changes, and whatever is saved in whatever order afterwards, the time of a stored observation never
  goes back.
\<close>
theorem quotaObservation_roundtrip:
  assumes ok: "identityOK (qd_identities db)"
    and check: "checkOnDB codec registry env now raw db = (db', Inr response)"
  shows "\<exists>i json.
    map_option fst (getActiveAuthFileUsageIdentityByAuthIndex (trimSpace raw) (qd_identities db)) = Some i \<and>
    qc_marshal codec (cr_Quota response) = Inr json \<and>
    storedObservation db' i =
      (case storedObservation db i of
         Some (t0, json0) \<Rightarrow> Some (if t0 < now then (now, json) else (t0, json0)) | None \<Rightarrow> Some (now, json)) \<and>
    (\<forall>j. j \<noteq> i \<longrightarrow> storedObservation db' j = storedObservation db j) \<and>
    getQuotaObservations (newQuotaRepository codec db') [raw] 1 =
      shownObservation codec (trimSpace raw) (the (storedObservation db' i)) \<and>
    (qc_unmarshal codec json = Inr (cr_Quota response) \<and>
       (\<forall>t0 json0. storedObservation db i = Some (t0, json0) \<longrightarrow> t0 < now) \<longrightarrow>
       getQuotaObservations (newQuotaRepository codec db') [raw] 1 = Inr [response]) \<and>
    (\<forall>saves j t0 json0. storedObservation db' j = Some (t0, json0) \<longrightarrow>
       (\<exists>t1 json1. storedObservation (fold (\<lambda>(i, t, json) db. fst (saveQuotaObservation None i t json db)) saves db') j
          = Some (t1, json1) \<and> t0 \<le> t1))"
proof -
  let ?k = "trimSpace raw"
  from check obtain i r where find: "getActiveAuthFileUsageIdentityByAuthIndex ?k (qd_identities db) = Some (i, r)"
    and resp: "cr_ID response = ?k" "cr_ObservedAt response = now" and k: "?k \<noteq> []"
    and save': "fst (saveObservation codec None i response db) = db'" "snd (saveObservation codec None i response db) = None"
    by (auto simp: checkOnDB_def quotaCheck_def newQuotaRepository_def findActiveAuthFileIdentity_def Let_def
        quotaIdentityOf_def split: if_splits option.splits sum.splits prod.splits)
  from save' have save: "saveObservation codec None i response db = (db', None)" by (metis prod.collapse)
  have table: "tableOK (qd_identities db)" by (rule identityOK_table [OF ok])
  from find_active [OF find table] have r: "lookupRow (qd_identities db) i = Some r"
    "ui_AuthType r = UsageIdentityAuthTypeAuthFile" "ui_Identity r = ?k" "ui_IsDeleted r = False" by simp_all
  from save obtain json where json: "qc_marshal codec (cr_Quota response) = Inr json"
    and saved: "saveQuotaObservation None i now json db = (db', None)"
    by (auto simp: saveObservation_def resp split: if_splits sum.splits prod.splits option.splits)
  have stored: "storedObservation db' i = (case storedObservation db i of
      Some (t0, json0) \<Rightarrow> Some (if t0 < now then (now, json) else (t0, json0)) | None \<Rightarrow> Some (now, json))"
    using obs.saved [OF saved] by (auto split: option.splits)
  have others: "storedObservation db' j = storedObservation db j" if "j \<noteq> i" for j
    by (rule obs.others [OF saved that])
  have ids: "qd_identities db' = qd_identities db" using save_cases [OF saved] by simp
  have "storedObservation db' i \<noteq> None" by (simp add: stored split: option.split)
  then obtain o' where o': "storedObservation db' i = Some o'" by blast
  have shown: "getQuotaObservations (newQuotaRepository codec db') [raw] 1 =
      shownObservation codec ?k (the (storedObservation db' i))"
    using list_one [OF _ _ r(2,3,4) k o'] ok r(1) o' by (simp add: ids)
  have "getQuotaObservations (newQuotaRepository codec db') [raw] 1 = Inr [response]"
    if "qc_unmarshal codec json = Inr (cr_Quota response)"
      "\<forall>t0 json0. storedObservation db i = Some (t0, json0) \<longrightarrow> t0 < now"
    unfolding shown using that resp
    by (cases "storedObservation db i") (auto simp: stored shownObservation_def)
  moreover have "\<exists>t1 json1. storedObservation (fold (\<lambda>(i, t, json) db. fst (saveQuotaObservation None i t json db)) saves db') j
      = Some (t1, json1) \<and> t0 \<le> t1" if "storedObservation db' j = Some (t0, json0)" for saves j t0 json0
    using obs.saveAll_newer [OF that, of saves] unfolding obs.saveAll_def by blast
  ultimately show ?thesis using find json stored others shown by (intro exI [of _ i] exI [of _ json]) auto
qed

text \<open>An account whose provider answers with one model.\<close>

definition exampleResult :: quotaResult where
  "exampleResult = AntigravityResult (Some [(''m'', \<lparr>am_DisplayName = [], am_QuotaInfo = None\<rparr>)])"

definition exampleRows :: "quotaRow list" where
  "exampleRows = normalizeQuotaRows (\<lambda>s. None) (Some exampleResult)"

definition exampleCodec :: quotaCodec where
  "exampleCodec = \<lparr>qc_marshal = (\<lambda>rows. if rows = exampleRows then Inr ''x'' else Inl (PlainError [])),
     qc_unmarshal = (\<lambda>s. Inr exampleRows), qc_quote = id\<rparr>"

definition exampleAccount :: usageIdentity where
  "exampleAccount = (account ''a'')\<lparr>ui_AuthType := UsageIdentityAuthTypeAuthFile, ui_Provider := ''kimi''\<rparr>"

definition exampleDB :: quotaDB where
  "exampleDB = \<lparr>qd_identities = insertRows [exampleAccount] emptyTable, qd_observations = Map.empty\<rparr>"

lemma exampleDB_rows: "tbl_rows (qd_identities exampleDB) = [(1, exampleAccount)]"
  by (simp add: exampleDB_def insertRows_def newRows_def emptyTable_def)

lemma exampleAccount_sel [simp]:
  "ui_AuthType exampleAccount = UsageIdentityAuthTypeAuthFile" "ui_Identity exampleAccount = ''a''"
  "ui_IsDeleted exampleAccount = False" "ui_Provider exampleAccount = ''kimi''"
  by (simp_all add: exampleAccount_def account_def emptyIdentity_def)

lemma exampleDB_ok: "identityOK (qd_identities exampleDB)"
  using insert_map(1) [OF identityOK_empty, of exampleAccount]
  by (simp add: exampleDB_def findIdentity_def selectWhere_def emptyTable_def)

lemma exampleRows_some: "exampleRows \<noteq> []"
  by (simp add: exampleRows_def exampleResult_def normalizeQuotaRows_def antigravityQuotaRows_def)

lemma exampleCheck:
  assumes "je_float (qe_json env) = (\<lambda>s. None)"
  shows "checkOnDB exampleCodec [''kimi'' \<mapsto> (\<lambda>env i. Inr exampleResult)] env 9 ''a'' exampleDB =
    (exampleDB\<lparr>qd_observations := [1 \<mapsto> \<lparr>qo_ObservedAt = 9, qo_QuotaJSON = ''x''\<rparr>]\<rparr>,
     Inr \<lparr>cr_ID = ''a'', cr_ObservedAt = 9, cr_Quota = exampleRows\<rparr>)"
proof -
  have find: "getActiveAuthFileUsageIdentityByAuthIndex ''a'' (qd_identities exampleDB) = Some (1, exampleAccount)"
    by (simp add: getActiveAuthFileUsageIdentityByAuthIndex_def selectWhere_def exampleDB_rows trimSpace_a)
  have kimi: "normalizeIdentityType ''kimi'' = ''kimi''" by code_simp
  have handler: "resolveQuotaHandler [''kimi'' \<mapsto> h] ''kimi'' type = Some (''kimi'', h)" for h type
    by (simp add: resolveQuotaHandler_def resolveQuotaIdentityTypes_def registryProvider_def kimi Let_def)
  have x: "trimSpace ''x'' = ''x''" by code_simp
  have rows: "normalizeQuotaRows (\<lambda>s. None) (Some exampleResult) = exampleRows" by (simp add: exampleRows_def)
  have active: "selectWhere (\<lambda>i r. i = 1 \<and> ui_AuthType r = UsageIdentityAuthTypeAuthFile \<and> ui_IsDeleted r = False)
      (qd_identities exampleDB) = [(1, exampleAccount)]"
    by (simp add: selectWhere_def exampleDB_rows)
  have save: "saveObservation exampleCodec None 1 \<lparr>cr_ID = ''a'', cr_ObservedAt = 9, cr_Quota = exampleRows\<rparr> exampleDB =
      (exampleDB\<lparr>qd_observations := [1 \<mapsto> \<lparr>qo_ObservedAt = 9, qo_QuotaJSON = ''x''\<rparr>]\<rparr>, None)"
    using active
    by (simp add: saveObservation_def saveQuotaObservation_def exampleCodec_def isZero_def zero_time_def x)
      (simp add: exampleDB_def)
  show ?thesis
    by (simp add: checkOnDB_def quotaCheck_def newQuotaRepository_def findActiveAuthFileIdentity_def find trimSpace_a
        quotaIdentityOf_def handler assms rows exampleRows_some save [unfolded One_nat_def] Let_def)
qed

lemma quotaObservation_roundtrip_witness:
  "\<exists>db'. getQuotaObservations (newQuotaRepository exampleCodec db') [''a''] 1 =
     Inr [\<lparr>cr_ID = ''a'', cr_ObservedAt = 9, cr_Quota = exampleRows\<rparr>]"
proof -
  let ?env = "\<lparr>qe_json = \<lparr>je_parse = (\<lambda>s. None), je_float = (\<lambda>s. None)\<rparr>, qe_text = (\<lambda>j. []), qe_call = (\<lambda>r. Inr None)\<rparr>"
  let ?db = "exampleDB\<lparr>qd_observations := [1 \<mapsto> \<lparr>qo_ObservedAt = 9, qo_QuotaJSON = ''x''\<rparr>]\<rparr>"
  have check: "checkOnDB exampleCodec [''kimi'' \<mapsto> (\<lambda>env i. Inr exampleResult)] ?env 9 ''a'' exampleDB =
    (?db, Inr \<lparr>cr_ID = ''a'', cr_ObservedAt = 9, cr_Quota = exampleRows\<rparr>)" by (rule exampleCheck) simp
  have "qc_unmarshal exampleCodec json = Inr exampleRows" for json by (simp add: exampleCodec_def)
  moreover have "storedObservation exampleDB i = None" for i by (simp add: exampleDB_def storedObservation_def)
  ultimately have "getQuotaObservations (newQuotaRepository exampleCodec ?db) [''a''] 1 =
      Inr [\<lparr>cr_ID = ''a'', cr_ObservedAt = 9, cr_Quota = exampleRows\<rparr>]"
    using quotaObservation_roundtrip [OF exampleDB_ok check] by auto
  then show ?thesis by blast
qed

end
