(* ===== verification/PassiveQuota.thy ===== *)
theory PassiveQuota
  imports QuotaPayloads Entities Encodings GoTime "HOL-Library.AList" "HOL-Library.Multiset"
begin

text \<open>
  The quota signals CPA observed on the responses of the providers (\<open>quota/passive.go\<close>): an allow
  list of headers turned into metrics, where anything malformed gives no fact. The maps of the code
  are lists of their entries in the order of one iteration; \<open>codexRows_order\<close> shows that the order
  does not matter. What \<open>strconv.ParseFloat\<close>, \<open>time.Parse\<close> with RFC 3339 and \<open>http.ParseTime\<close> give a
  text are arguments; a text that is not a finite number has no float.
\<close>

record passiveEnv =
  pv_float :: "string \<Rightarrow> rat option"
  pv_rfc3339 :: "string \<Rightarrow> instant option"
  pv_httpTime :: "string \<Rightarrow> instant option"

record passiveQuotaSnapshot =
  ps_Account :: "passiveQuotaObservation option"
  ps_Models :: "passiveModelQuotaObservation list"

text \<open>The transport values stay untyped: \<open>JNull\<close> is a missing one.\<close>

record rawQuotaObservation =
  rq_ObservedAt :: json
  rq_Signals :: "(string \<times> json) list"

section \<open>Values\<close>

text \<open>\<open>unicode.IsControl\<close> of a rune by its bytes: U+0000 to U+001F and U+007F to U+009F.\<close>

definition controlRune :: "string \<Rightarrow> bool" where
  "controlRune r \<longleftrightarrow>
     (case map (of_char :: char \<Rightarrow> nat) r of
        [a] \<Rightarrow> a < 0x20 \<or> a = 0x7F
      | [a, b] \<Rightarrow> a = 0xC2 \<and> b < 0xA0
      | _ \<Rightarrow> False)"

definition containsControl :: "string \<Rightarrow> bool" where
  "containsControl value \<longleftrightarrow> list_ex controlRune (runes value)"

definition identifierChar :: "char \<Rightarrow> bool" where
  "identifierChar c \<longleftrightarrow> byte_in 97 122 c \<or> byte_in 48 57 c \<or> c = CHR ''-'' \<or> c = CHR ''_'' \<or> c = CHR ''.''"

definition safePassiveIdentifier :: "string \<Rightarrow> string" where
  "safePassiveIdentifier value =
     (let value = toLower (trimSpace value) in
      if value = [] \<or> 128 < length value then []
      else if list_all identifierChar value then value else [])"

definition safePassiveLabel :: "string \<Rightarrow> nat \<Rightarrow> string" where
  "safePassiveLabel value maxLength =
     (let value = trimSpace value in
      if value = [] \<or> maxLength < length value \<or> containsControl value then [] else value)"

definition parseAllowedStatus :: "string \<Rightarrow> bool option" where
  "parseAllowedStatus value =
     (let v = toLower (trimSpace value) in
      if v = ''allowed'' \<or> v = ''allowed_warning'' then Some True
      else if v = ''rejected'' then Some False
      else None)"

definition parseBool :: "string \<Rightarrow> bool option" where
  "parseBool value =
     (let v = trimSpace value in
      if v \<in> {''1'', ''t'', ''T'', ''true'', ''TRUE'', ''True''} then Some True
      else if v \<in> {''0'', ''f'', ''F'', ''false'', ''FALSE'', ''False''} then Some False
      else None)"

definition parseBoundedFloat :: "passiveEnv \<Rightarrow> string \<Rightarrow> rat \<Rightarrow> rat \<Rightarrow> rat option" where
  "parseBoundedFloat env value minValue maxValue =
     (case pv_float env (trimSpace value) of
        None \<Rightarrow> None
      | Some parsed \<Rightarrow> if parsed < minValue \<or> parsed > maxValue then None else Some parsed)"

text \<open>Every finite value is at most \<open>math.MaxFloat64\<close>.\<close>

definition maxFloat64 :: rat where
  "maxFloat64 = (2 ^ 53 - 1) * 2 ^ 971"

definition parseNonNegativeFloat :: "passiveEnv \<Rightarrow> string \<Rightarrow> rat option" where
  "parseNonNegativeFloat env value = parseBoundedFloat env value 0 maxFloat64"

text \<open>
  \<open>time.Unix\<close> of the whole and the fractional seconds, as the second it falls in;
  \<open>float64(math.MaxInt64)\<close> is \<open>2 ^ 63\<close>.
\<close>

definition parseUnixTimeValue :: "passiveEnv \<Rightarrow> string \<Rightarrow> int option" where
  "parseUnixTimeValue env value =
     (case pv_float env value of
        None \<Rightarrow> None
      | Some seconds \<Rightarrow>
          if seconds \<le> 0 \<or> 2 ^ 63 < seconds then None
          else (let whole = int64OfFloat seconds;
                    nsec = sint (int64OfFloat ((seconds - of_int (sint whole)) * 1000000000))
                in Some (unixSecondsWrapped (whole + word_of_int (nsec div 1000000000)))))"

definition sourceYear :: "int \<Rightarrow> string option" where
  "sourceYear secs =
     (let year = fst (civilFromDays (secs div 86400)) in
      if year < 2000 \<or> year > 9999 then None else Some (formatRFC3339 secs))"

definition parseUnixTime :: "passiveEnv \<Rightarrow> string \<Rightarrow> string option" where
  "parseUnixTime env value = Option.bind (parseUnixTimeValue env (trimSpace value)) sourceYear"

definition parseSourceTime :: "passiveEnv \<Rightarrow> string \<Rightarrow> string option" where
  "parseSourceTime env value =
     (let value = trimSpace value in
      case parseUnixTimeValue env value of
        Some secs \<Rightarrow> sourceYear secs
      | None \<Rightarrow> (case pv_rfc3339 env value of
          Some t \<Rightarrow> sourceYear (t div second)
        | None \<Rightarrow> (case pv_httpTime env value of
            Some t \<Rightarrow> sourceYear (t div second)
          | None \<Rightarrow> None)))"

definition passiveObservedAt :: "passiveEnv \<Rightarrow> json \<Rightarrow> instant option" where
  "passiveObservedAt env value =
     (case value of
        JStr raw \<Rightarrow> (case pv_rfc3339 env (trimSpace raw) of
            Some parsed \<Rightarrow> if isZero parsed then None else Some parsed
          | None \<Rightarrow> None)
      | _ \<Rightarrow> None)"

definition maxPassiveSignalValueLength :: nat where
  "maxPassiveSignalValueLength = 512"

definition addSignal :: "string \<times> json \<Rightarrow> (string \<times> string) list \<Rightarrow> (string \<times> string) list" where
  "addSignal = (\<lambda>(key, value) result.
     case value of
       JStr text \<Rightarrow>
         (let name = toLower (trimSpace key); text = trimSpace text in
          if name = [] \<or> text = [] \<or> maxPassiveSignalValueLength < length text \<or> containsControl text
          then result else AList.update name text result)
     | _ \<Rightarrow> result)"

definition normalizedPassiveSignals :: "(string \<times> json) list \<Rightarrow> (string \<times> string) list" where
  "normalizedPassiveSignals input = fold addSignal input []"

text \<open>A missing key of a map of strings reads as the empty string.\<close>

definition signal :: "(string \<times> string) list \<Rightarrow> string \<Rightarrow> string" where
  "signal signals key = (case map_of signals key of None \<Rightarrow> [] | Some v \<Rightarrow> v)"

definition metric :: "string \<Rightarrow> string \<Rightarrow> string \<Rightarrow> passiveQuotaMetric" where
  "metric key label scope =
     \<lparr>pm_Key = key, pm_Label = label, pm_Scope = scope, pm_Metric = [], pm_PlanType = [],
      pm_UsedPercent = None, pm_Remaining = None, pm_Balance = [], pm_Unit = [], pm_Allowed = None,
      pm_LimitReached = None, pm_HasCredits = None, pm_Unlimited = None, pm_Window = None,
      pm_ResetAt = [], pm_ResetAfterSeconds = None\<rparr>"

definition passiveRetryHint :: "passiveEnv \<Rightarrow> string \<Rightarrow> string \<Rightarrow> string \<Rightarrow> passiveQuotaMetric option" where
  "passiveRetryHint env key scope value =
     (let row = metric key ''Observed retry hint'' scope in
      case parseNonNegativeFloat env value of
        Some seconds \<Rightarrow> Some (row\<lparr>pm_ResetAfterSeconds := Some seconds\<rparr>)
      | None \<Rightarrow> (case parseSourceTime env value of
          Some resetAt \<Rightarrow> Some (row\<lparr>pm_ResetAt := resetAt\<rparr>)
        | None \<Rightarrow> None))"

section \<open>Claude\<close>

definition setAllowed :: "bool option \<Rightarrow> passiveQuotaMetric \<Rightarrow> passiveQuotaMetric" where
  "setAllowed status row =
     (case status of
        None \<Rightarrow> row
      | Some allowed \<Rightarrow> row\<lparr>pm_Allowed := Some allowed, pm_LimitReached := Some (\<not> allowed)\<rparr>)"

definition setResetAt :: "string option \<Rightarrow> passiveQuotaMetric \<Rightarrow> passiveQuotaMetric" where
  "setResetAt resetAt row = (case resetAt of None \<Rightarrow> row | Some at' \<Rightarrow> row\<lparr>pm_ResetAt := at'\<rparr>)"

definition claudeWindowRow ::
  "passiveEnv \<Rightarrow> string \<Rightarrow> (string \<times> string) list \<Rightarrow> string \<times> string \<times> i64 \<Rightarrow> passiveQuotaMetric option" where
  "claudeWindowRow env scope signals = (\<lambda>(name, label, seconds).
     let pre = ''anthropic-ratelimit-unified-'' @ name @ ''-'';
         row = (metric (''claude.'' @ name) label scope)\<lparr>pm_Window := Some seconds\<rparr>;
         used = parseBoundedFloat env (signal signals (pre @ ''utilization'')) 0 1;
         row = (case used of None \<Rightarrow> row | Some value \<Rightarrow> row\<lparr>pm_UsedPercent := Some (value * 100)\<rparr>);
         status = parseAllowedStatus (signal signals (pre @ ''status''));
         resetAt = parseSourceTime env (signal signals (pre @ ''reset''));
         row = setResetAt resetAt (setAllowed status row)
     in if used \<noteq> None \<or> status \<noteq> None \<or> resetAt \<noteq> None then Some row else None)"

definition claudeStateRow ::
  "passiveEnv \<Rightarrow> (string \<times> string) list \<Rightarrow> string \<times> string \<times> string \<times> string \<times> string \<Rightarrow> passiveQuotaMetric option" where
  "claudeStateRow env signals = (\<lambda>(key, pre, label, rowScope, metricName).
     let row = (metric key label rowScope)\<lparr>pm_Metric := metricName\<rparr>;
         status = parseAllowedStatus (signal signals (pre @ ''status''));
         resetAt = parseSourceTime env (signal signals (pre @ ''reset''));
         row = setResetAt resetAt (setAllowed status row)
     in if status \<noteq> None \<or> resetAt \<noteq> None then Some row else None)"

definition normalizeClaudePassiveRows ::
  "passiveEnv \<Rightarrow> string \<Rightarrow> (string \<times> string) list \<Rightarrow> passiveQuotaMetric list" where
  "normalizeClaudePassiveRows env scope signals =
     List.map_filter (claudeWindowRow env scope signals)
       [(''5h'', ''5h'', 5 * 60 * 60), (''7d'', ''Weekly'', 7 * 24 * 60 * 60)] @
     List.map_filter (claudeStateRow env signals)
       [(''claude.unified'', ''anthropic-ratelimit-unified-'', ''Unified limit'', scope, ''''),
        (''claude.7d_oi'', ''anthropic-ratelimit-unified-7d_oi-'', ''Fable 7d'', ''model'', ''Fable'')] @
     (case passiveRetryHint env ''claude.retry_after'' scope (signal signals ''retry-after'') of
        None \<Rightarrow> [] | Some row \<Rightarrow> [row])"

section \<open>Codex\<close>

record codexPassiveWindow =
  cw_usedPercent :: "rat option"
  cw_seconds :: "i64 option"
  cw_zeroDuration :: bool
  cw_resetAfter :: "rat option"
  cw_resetAt :: string

record codexPassiveGroup =
  cg_name :: string
  cg_limitName :: string
  cg_allowed :: "bool option"
  cg_limit :: "bool option"
  cg_windowData :: "string \<Rightarrow> codexPassiveWindow option"

type_synonym codexGroups = "string \<Rightarrow> codexPassiveGroup option"

text \<open>The name of the group, which is empty for the account's own limit, and the field.\<close>

fun splitGroupAt :: "string list \<Rightarrow> string \<Rightarrow> (string \<times> string) option" where
  "splitGroupAt [] body = None"
| "splitGroupAt (field # rest) body =
     (let suffix = ''-'' @ field; name = trimSuffix suffix body in
      if body = field then Some ([], field)
      else if hasSuffix body suffix \<and> safePassiveIdentifier name \<noteq> [] then Some (name, field)
      else splitGroupAt rest body)"

definition codexGroupFields :: "string list" where
  "codexGroupFields = [''limit-reached'', ''limit-name'', ''allowed'']"

definition splitCodexGroupField :: "string \<Rightarrow> (string \<times> string) option" where
  "splitCodexGroupField body = splitGroupAt codexGroupFields body"

definition codexWindowOrder :: "(string \<times> string) list" where
  "codexWindowOrder = concat (map (\<lambda>field. [(''primary'', field), (''secondary'', field)])
     [''reset-after-seconds'', ''window-minutes'', ''used-percent'', ''reset-at''])"

fun splitWindowAt :: "(string \<times> string) list \<Rightarrow> string \<Rightarrow> (string \<times> string \<times> string) option" where
  "splitWindowAt [] body = None"
| "splitWindowAt ((window, field) # rest) body =
     (let suffix = ''-'' @ window @ ''-'' @ field; name = trimSuffix suffix body in
      if body = window @ ''-'' @ field then Some ([], window, field)
      else if hasSuffix body suffix \<and> safePassiveIdentifier name \<noteq> [] then Some (name, window, field)
      else splitWindowAt rest body)"

definition splitCodexWindowField :: "string \<Rightarrow> (string \<times> string \<times> string) option" where
  "splitCodexWindowField body = splitWindowAt codexWindowOrder body"

text \<open>What a signal key names: a field of a group, a field of one of its windows, or neither.\<close>

definition codexField :: "string \<Rightarrow> (string \<times> string option \<times> string) option" where
  "codexField key =
     (if \<not> hasPrefix key ''x-codex-'' then None
      else (let body = trimPrefix ''x-codex-'' key in
        if body = ''plan-type'' \<or> body = ''active-limit'' \<or> hasPrefix body ''credits-'' then None
        else (case splitCodexGroupField body of
            Some (name, field) \<Rightarrow> Some (name, None, field)
          | None \<Rightarrow> (case splitCodexWindowField body of
              Some (name, window, field) \<Rightarrow> Some (name, Some window, field)
            | None \<Rightarrow> None))))"

definition setGroupField :: "string \<Rightarrow> string \<Rightarrow> codexPassiveGroup \<Rightarrow> codexPassiveGroup" where
  "setGroupField field value entry =
     (if field = ''allowed'' then
        (case parseBool value of Some parsed \<Rightarrow> entry\<lparr>cg_allowed := Some parsed\<rparr> | None \<Rightarrow> entry)
      else if field = ''limit-reached'' then
        (case parseBool value of Some parsed \<Rightarrow> entry\<lparr>cg_limit := Some parsed\<rparr> | None \<Rightarrow> entry)
      else if field = ''limit-name'' then entry\<lparr>cg_limitName := safePassiveLabel value 160\<rparr>
      else entry)"

definition setWindowField :: "passiveEnv \<Rightarrow> string \<Rightarrow> string \<Rightarrow> codexPassiveWindow \<Rightarrow> codexPassiveWindow" where
  "setWindowField env field value window =
     (if field = ''used-percent'' then
        (case parseBoundedFloat env value 0 100 of
           Some parsed \<Rightarrow> window\<lparr>cw_usedPercent := Some parsed\<rparr> | None \<Rightarrow> window)
      else if field = ''window-minutes'' then
        (case parseInt64 (trimSpace value) of
           Some minutes \<Rightarrow>
             if 0 \<le> minutes \<and> minutes \<le> int64_max div 60
             then (if minutes = 0 then window\<lparr>cw_zeroDuration := True\<rparr>
                   else window\<lparr>cw_seconds := Some (word_of_int (minutes * 60))\<rparr>)
             else window
         | None \<Rightarrow> window)
      else if field = ''reset-after-seconds'' then
        (case parseNonNegativeFloat env value of
           Some parsed \<Rightarrow> window\<lparr>cw_resetAfter := Some parsed\<rparr> | None \<Rightarrow> window)
      else if field = ''reset-at'' then
        (case parseUnixTime env value of
           Some parsed \<Rightarrow> window\<lparr>cw_resetAt := parsed\<rparr> | None \<Rightarrow> window)
      else window)"

definition emptyCodexWindow :: codexPassiveWindow where
  "emptyCodexWindow = \<lparr>cw_usedPercent = None, cw_seconds = None, cw_zeroDuration = False,
     cw_resetAfter = None, cw_resetAt = []\<rparr>"

definition codexGroup :: "codexGroups \<Rightarrow> string \<Rightarrow> codexPassiveGroup" where
  "codexGroup groups name =
     (case groups name of
        Some entry \<Rightarrow> entry
      | None \<Rightarrow> \<lparr>cg_name = name, cg_limitName = [], cg_allowed = None, cg_limit = None,
                 cg_windowData = (\<lambda>w. None)\<rparr>)"

definition setField :: "passiveEnv \<Rightarrow> string option \<Rightarrow> string \<Rightarrow> string \<Rightarrow> codexPassiveGroup \<Rightarrow> codexPassiveGroup" where
  "setField env windowName field value entry =
     (case windowName of
        None \<Rightarrow> setGroupField field value entry
      | Some w \<Rightarrow>
          (let window = (case cg_windowData entry w of Some win \<Rightarrow> win | None \<Rightarrow> emptyCodexWindow)
           in entry\<lparr>cg_windowData := (cg_windowData entry)(w \<mapsto> setWindowField env field value window)\<rparr>))"

definition codexSignal :: "passiveEnv \<Rightarrow> string \<times> string \<Rightarrow> codexGroups \<Rightarrow> codexGroups" where
  "codexSignal env = (\<lambda>(key, value) groups.
     case codexField key of
       None \<Rightarrow> groups
     | Some (name, windowName, field) \<Rightarrow>
         groups(name \<mapsto> setField env windowName field value (codexGroup groups name)))"

text \<open>The keys of the groups, sorted.\<close>

definition codexNames :: "(string \<times> string) list \<Rightarrow> string list" where
  "codexNames signals = sort (remdups (map fst (List.map_filter (codexField \<circ> fst) signals)))"

definition noWindowFact :: "codexPassiveWindow \<Rightarrow> bool" where
  "noWindowFact window \<longleftrightarrow> cw_usedPercent window = None \<and> cw_seconds window = None \<and>
     cw_resetAfter window = None \<and> cw_resetAt window = []"

definition zeroPlaceholder :: "codexPassiveWindow \<Rightarrow> bool" where
  "zeroPlaceholder window \<longleftrightarrow> cw_zeroDuration window \<and>
     (cw_usedPercent window = None \<or> cw_usedPercent window = Some 0) \<and>
     (cw_resetAfter window = None \<or> cw_resetAfter window = Some 0) \<and> cw_resetAt window = []"

text \<open>The windows without a fact are deleted, and contradictory flags of a group cleared.\<close>

definition cleanCodexGroup :: "codexPassiveGroup \<Rightarrow> codexPassiveGroup" where
  "cleanCodexGroup entry =
     (let entry = entry\<lparr>cg_windowData := (\<lambda>w. case cg_windowData entry w of
            None \<Rightarrow> None
          | Some window \<Rightarrow> if zeroPlaceholder window \<or> noWindowFact window then None else Some window)\<rparr>
      in if cg_allowed entry \<noteq> None \<and> cg_limit entry \<noteq> None \<and> cg_allowed entry = cg_limit entry
         then entry\<lparr>cg_allowed := None, cg_limit := None\<rparr> else entry)"

definition codexMetricKey :: "string \<Rightarrow> string \<Rightarrow> string" where
  "codexMetricKey entry window = ''codex.'' @ (if entry = [] then ''rate_limit'' else entry) @ ''.'' @ window"

text \<open>
  \<open>strings.ToUpper\<close> of one byte: a byte above 7F alone is not UTF-8 and becomes the replacement rune.
\<close>

definition upperByte :: "char \<Rightarrow> string" where
  "upperByte c = (if byte_in 97 122 c then [char_of (of_char c - 32 :: nat)]
                  else if byte_in 0 127 c then [c] else rune_error)"

definition codexPassiveGroupLabel :: "codexPassiveGroup \<Rightarrow> string" where
  "codexPassiveGroupLabel entry =
     (if cg_limitName entry \<noteq> [] then cg_limitName entry
      else if cg_name entry = [] then ''Rate limit''
      else (let name = trimPrefix ''additional-'' (cg_name entry);
                parts = filter (\<lambda>p. p \<noteq> []) (split_on (CHR ''-'')
                  (map (\<lambda>c. if c = CHR ''_'' then CHR ''-'' else c) name))
            in join '' '' (map (\<lambda>p. upperByte (hd p) @ tl p) parts)))"

definition codexPassiveLabel :: "codexPassiveGroup \<Rightarrow> string \<Rightarrow> i64 option \<Rightarrow> string" where
  "codexPassiveLabel entry window seconds =
     (let base = codexPassiveGroupLabel entry;
          windowLabel = (if seconds = Some (5 * 60 * 60) then ''5h''
                         else if seconds = Some (7 * 24 * 60 * 60) then ''Weekly'' else ''Window'')
      in if cg_name entry = [] then windowLabel else base @ '' '' @ windowLabel)"

definition codexWindowRow ::
  "string \<Rightarrow> string \<Rightarrow> codexPassiveGroup \<Rightarrow> string \<Rightarrow> string \<Rightarrow> passiveQuotaMetric option" where
  "codexWindowRow scope planType entry name windowName =
     (case cg_windowData entry windowName of
        None \<Rightarrow> None
      | Some window \<Rightarrow>
          if noWindowFact window then None
          else Some ((metric (codexMetricKey name windowName)
                 (codexPassiveLabel entry windowName (cw_seconds window)) scope)
            \<lparr>pm_Metric := cg_limitName entry, pm_PlanType := planType,
             pm_UsedPercent := cw_usedPercent window, pm_Allowed := cg_allowed entry,
             pm_LimitReached := cg_limit entry, pm_ResetAfterSeconds := cw_resetAfter window,
             pm_ResetAt := cw_resetAt window, pm_Window := cw_seconds window\<rparr>))"

definition codexGroupRows :: "string \<Rightarrow> string \<Rightarrow> codexGroups \<Rightarrow> string \<Rightarrow> passiveQuotaMetric list" where
  "codexGroupRows scope planType groups name =
     (let entry = cleanCodexGroup (codexGroup groups name) in
      List.map_filter (codexWindowRow scope planType entry name) [''primary'', ''secondary''] @
      (if (\<forall>w \<in> set [''primary'', ''secondary'']. cg_windowData entry w = None) \<and>
          (cg_allowed entry \<noteq> None \<or> cg_limit entry \<noteq> None)
       then [(metric (codexMetricKey name ''state'') (codexPassiveGroupLabel entry) scope)
          \<lparr>pm_Metric := cg_limitName entry, pm_PlanType := planType, pm_Allowed := cg_allowed entry,
           pm_LimitReached := cg_limit entry\<rparr>]
       else []))"

definition normalizeCodexCredits ::
  "passiveEnv \<Rightarrow> string \<Rightarrow> string \<Rightarrow> (string \<times> string) list \<Rightarrow> passiveQuotaMetric option" where
  "normalizeCodexCredits env scope planType signals =
     (let hasCredits = parseBool (signal signals ''x-codex-credits-has-credits'');
          unlimited = parseBool (signal signals ''x-codex-credits-unlimited'');
          balance = parseCreditBalance (signal signals ''x-codex-credits-balance'');
          row = (metric ''codex.credits'' ''Credits'' scope)
            \<lparr>pm_Metric := ''credits'', pm_Unit := ''credits'', pm_PlanType := planType,
             pm_HasCredits := hasCredits, pm_Unlimited := unlimited\<rparr>;
          row = (case balance of
              None \<Rightarrow> row
            | Some b \<Rightarrow> row\<lparr>pm_Balance := b,
                pm_Remaining := Some (case pv_float env b of Some value \<Rightarrow> value | None \<Rightarrow> 0)\<rparr>)
      in if hasCredits = None \<and> unlimited = None \<and> balance = None then None else Some row)"

definition normalizeCodexPassiveRows ::
  "passiveEnv \<Rightarrow> string \<Rightarrow> (string \<times> string) list \<Rightarrow> passiveQuotaMetric list" where
  "normalizeCodexPassiveRows env scope signals =
     (let planType = safePassiveLabel (signal signals ''x-codex-plan-type'') 80;
          groups = fold (codexSignal env) signals (\<lambda>name. None)
      in concat (map (codexGroupRows scope planType groups) (codexNames signals)) @
         (case normalizeCodexCredits env scope planType signals of None \<Rightarrow> [] | Some row \<Rightarrow> [row]) @
         (case passiveRetryHint env ''codex.retry_after'' scope (signal signals ''retry-after'') of
            None \<Rightarrow> [] | Some row \<Rightarrow> [row\<lparr>pm_PlanType := planType\<rparr>]))"

section \<open>Snapshots\<close>

definition normalizePassiveObservation ::
  "passiveEnv \<Rightarrow> string \<Rightarrow> string \<Rightarrow> rawQuotaObservation option \<Rightarrow> passiveQuotaObservation option" where
  "normalizePassiveObservation env provider scope raw =
     (case raw of
        None \<Rightarrow> None
      | Some r \<Rightarrow> (case passiveObservedAt env (rq_ObservedAt r) of
          None \<Rightarrow> None
        | Some observedAt \<Rightarrow>
            (let signals = normalizedPassiveSignals (rq_Signals r);
                 rows = (if provider = ''claude'' then normalizeClaudePassiveRows env scope signals
                         else if provider = ''codex'' then normalizeCodexPassiveRows env scope signals
                         else []);
                 activeLimit = (if provider = ''codex''
                   then safePassiveIdentifier (signal signals ''x-codex-active-limit'') else [])
             in if length rows = 0 \<and> activeLimit = [] then None
                else Some \<lparr>po_ObservedAt = observedAt, po_ActiveLimit = activeLimit, po_Quota = rows\<rparr>)))"

definition passiveModel ::
  "passiveEnv \<Rightarrow> string \<Rightarrow> string \<times> rawQuotaObservation \<Rightarrow> passiveModelQuotaObservation option" where
  "passiveModel env provider = (\<lambda>(model, raw).
     let trimmedModel = trimSpace model in
     if trimmedModel = [] \<or> 200 < length trimmedModel \<or> containsControl trimmedModel then None
     else map_option (\<lambda>observation.
         \<lparr>pq_Model = trimmedModel, pq_ObservedAt = po_ObservedAt observation,
          pq_ActiveLimit = po_ActiveLimit observation, pq_Quota = po_Quota observation\<rparr>)
       (normalizePassiveObservation env provider ''model'' (Some raw)))"

definition normalizePassiveQuotaSnapshot ::
  "passiveEnv \<Rightarrow> string \<Rightarrow> rawQuotaObservation option \<Rightarrow> (string \<times> rawQuotaObservation) list
    \<Rightarrow> passiveQuotaSnapshot" where
  "normalizePassiveQuotaSnapshot env provider account models =
     (let provider = toLower (trimSpace provider) in
      if provider \<noteq> ''claude'' \<and> provider \<noteq> ''codex'' then \<lparr>ps_Account = None, ps_Models = []\<rparr>
      else \<lparr>ps_Account = normalizePassiveObservation env provider ''account'' account,
            ps_Models = List.map_filter (passiveModel env provider) (sort_key fst models)\<rparr>)"

section \<open>The order of the signals\<close>

definition fieldText :: "string \<Rightarrow> string option \<Rightarrow> string \<Rightarrow> string" where
  "fieldText name windowName field =
     (let f = (case windowName of None \<Rightarrow> field | Some w \<Rightarrow> w @ ''-'' @ field)
      in if name = [] then f else name @ ''-'' @ f)"

lemma trimSuffix_append: "suffix p body \<Longrightarrow> trimSuffix p body @ p = body"
  by (auto simp: suffix_def)

lemma trimPrefix_append: "prefix p body \<Longrightarrow> p @ trimPrefix p body = body"
  by (auto simp: prefix_def)

declare trimSuffix.simps [simp del] trimPrefix.simps [simp del]

lemma safePassiveIdentifier_nil [simp]: "safePassiveIdentifier [] = []"
  by (simp add: safePassiveIdentifier_def toLower_def Let_def)

lemma splitGroupAt_text: "splitGroupAt fs body = Some (name, f) \<Longrightarrow> body = fieldText name None f"
  by (induction fs body rule: splitGroupAt.induct)
    (auto simp: fieldText_def Let_def trimSuffix_append split: if_splits)

lemma splitWindowAt_text: "splitWindowAt fs body = Some (name, w, f) \<Longrightarrow> body = fieldText name (Some w) f"
  by (induction fs body rule: splitWindowAt.induct)
    (auto simp: fieldText_def Let_def trimSuffix_append split: if_splits)

lemma codexField_text:
  assumes "codexField key = Some (name, w, f)"
  shows "key = ''x-codex-'' @ fieldText name w f"
proof -
  from assms have pre: "hasPrefix key ''x-codex-''" by (auto simp: codexField_def split: if_splits)
  have "trimPrefix ''x-codex-'' key = fieldText name w f"
    using assms by (auto simp: codexField_def Let_def splitCodexGroupField_def splitCodexWindowField_def
        split: if_splits option.splits dest: splitGroupAt_text splitWindowAt_text)
  then show ?thesis using trimPrefix_append [of "''x-codex-''" key] pre by simp
qed

lemma codexField_inj: "codexField k = Some x \<Longrightarrow> codexField k' = Some x \<Longrightarrow> k = k'"
  by (cases x) (metis codexField_text)

lemma setGroupField_commute:
  "f \<noteq> f' \<Longrightarrow> setGroupField f v (setGroupField f' v' e) = setGroupField f' v' (setGroupField f v e)"
  by (simp add: setGroupField_def split: option.split)

lemma setWindowField_eqs:
  "setWindowField env ''used-percent'' v w =
     (case parseBoundedFloat env v 0 100 of Some x \<Rightarrow> w\<lparr>cw_usedPercent := Some x\<rparr> | None \<Rightarrow> w)"
  "setWindowField env ''window-minutes'' v w =
     (case parseInt64 (trimSpace v) of
        Some m \<Rightarrow> if 0 \<le> m \<and> m \<le> int64_max div 60
          then (if m = 0 then w\<lparr>cw_zeroDuration := True\<rparr> else w\<lparr>cw_seconds := Some (word_of_int (m * 60))\<rparr>) else w
      | None \<Rightarrow> w)"
  "setWindowField env ''reset-after-seconds'' v w =
     (case parseNonNegativeFloat env v of Some x \<Rightarrow> w\<lparr>cw_resetAfter := Some x\<rparr> | None \<Rightarrow> w)"
  "setWindowField env ''reset-at'' v w =
     (case parseUnixTime env v of Some x \<Rightarrow> w\<lparr>cw_resetAt := x\<rparr> | None \<Rightarrow> w)"
  "f \<notin> {''used-percent'', ''window-minutes'', ''reset-after-seconds'', ''reset-at''} \<Longrightarrow> setWindowField env f v w = w"
  by (simp_all add: setWindowField_def)

lemma windowField_cases:
  obtains "f = ''used-percent''" | "f = ''window-minutes''" | "f = ''reset-after-seconds''" | "f = ''reset-at''"
  | "f \<notin> {''used-percent'', ''window-minutes'', ''reset-after-seconds'', ''reset-at''}"
  by blast

lemma setWindowField_commute:
  assumes "f \<noteq> f'"
  shows "setWindowField env f v (setWindowField env f' v' e) = setWindowField env f' v' (setWindowField env f v e)"
  using assms
  by (cases f rule: windowField_cases; cases f' rule: windowField_cases)
    (auto simp: setWindowField_eqs split: option.split)

lemma setGroupField_windows [simp]:
  "cg_windowData (setGroupField f v e) = cg_windowData e"
  "setGroupField f v (e\<lparr>cg_windowData := d\<rparr>) = (setGroupField f v e)\<lparr>cg_windowData := d\<rparr>"
  by (simp_all add: setGroupField_def split: option.split)

lemma setField_commute:
  "(w, f) \<noteq> (w', f') \<Longrightarrow> setField env w f v (setField env w' f' v' e) = setField env w' f' v' (setField env w f v e)"
  by (cases w; cases w') (auto simp: setField_def setGroupField_commute setWindowField_commute fun_upd_twist split: option.split)

lemma codexSignal_commute:
  assumes "key \<noteq> key'"
  shows "codexSignal env (key, v) \<circ> codexSignal env (key', v') = codexSignal env (key', v') \<circ> codexSignal env (key, v)"
proof (cases "codexField key = None \<or> codexField key' = None")
  case True then show ?thesis by (auto simp: codexSignal_def fun_eq_iff split: option.split)
next
  case False
  then obtain n w f n' w' f' where fields: "codexField key = Some (n, w, f)" "codexField key' = Some (n', w', f')"
    by auto
  then have "(n, w, f) \<noteq> (n', w', f')" using codexField_inj assms by metis
  then show ?thesis using fields
    by (cases "n = n'") (auto simp: codexSignal_def codexGroup_def fun_eq_iff setField_commute)
qed

lemma map_of_mset:
  assumes "mset xs = mset ys" "distinct (map fst xs)"
  shows "map_of xs = map_of ys"
proof -
  have "distinct (map fst ys)" using assms by (metis mset_map mset_eq_imp_distinct_iff)
  then show ?thesis using assms mset_eq_setD [OF assms(1)] by (simp add: map_of_inject_set)
qed

text \<open>
  The order in which Go walks the maps of signals does not matter: any two walks over the same
  signals give the same Codex rows, in the same order.
\<close>
theorem codexRows_order:
  assumes "mset signals = mset signals'" and "distinct (map fst signals)"
  shows "normalizeCodexPassiveRows env scope signals = normalizeCodexPassiveRows env scope signals'"
proof -
  have lookup: "signal signals = signal signals'"
    using map_of_mset [OF assms] by (simp add: signal_def fun_eq_iff)
  have "codexSignal env x \<circ> codexSignal env y = codexSignal env y \<circ> codexSignal env x"
    if "x \<in> set signals" "y \<in> set signals" for x y
  proof (cases "fst x = fst y")
    case True
    then have "x = y" using that assms(2) eq_key_imp_eq_value by (metis prod.collapse)
    then show ?thesis by simp
  next
    case False then show ?thesis using codexSignal_commute by (metis prod.collapse)
  qed
  then have groups: "fold (codexSignal env) signals = fold (codexSignal env) signals'"
    by (rule fold_multiset_equiv [OF _ assms(1)])
  have "set signals = set signals'" using assms(1) by (rule mset_eq_setD)
  then have "set (codexNames signals) = set (codexNames signals')" by (simp add: codexNames_def set_map_filter)
  then have names: "codexNames signals = codexNames signals'"
    by (simp add: codexNames_def sorted_distinct_set_unique)
  show ?thesis by (simp add: normalizeCodexPassiveRows_def normalizeCodexCredits_def lookup groups names)
qed

lemma codexRows_order_witness:
  "\<forall>env. normalizeCodexPassiveRows env ''account''
     [(''x-codex-primary-used-percent'', ''40''), (''x-codex-primary-window-minutes'', ''300'')] =
   normalizeCodexPassiveRows env ''account''
     [(''x-codex-primary-window-minutes'', ''300''), (''x-codex-primary-used-percent'', ''40'')]"
  by (intro allI codexRows_order) simp_all

section \<open>No fact is made up\<close>

text \<open>A row states at least one fact, and what it states is in range and not contradictory.\<close>

definition metricOK :: "passiveQuotaMetric \<Rightarrow> bool" where
  "metricOK m \<longleftrightarrow>
     (pm_UsedPercent m \<noteq> None \<or> pm_Allowed m \<noteq> None \<or> pm_LimitReached m \<noteq> None \<or> pm_ResetAt m \<noteq> [] \<or>
      pm_ResetAfterSeconds m \<noteq> None \<or> (pm_Window m \<noteq> None \<and> prefix ''codex.'' (pm_Key m)) \<or> pm_HasCredits m \<noteq> None \<or>
      pm_Unlimited m \<noteq> None \<or> pm_Remaining m \<noteq> None) \<and>
     (\<forall>p. pm_UsedPercent m = Some p \<longrightarrow> 0 \<le> p \<and> p \<le> 100) \<and>
     (\<forall>r. pm_ResetAfterSeconds m = Some r \<longrightarrow> 0 \<le> r) \<and>
     (\<forall>w. pm_Window m = Some w \<longrightarrow> 0 < sint w \<and> sint w mod 60 = 0) \<and>
     \<not> (pm_Allowed m \<noteq> None \<and> pm_Allowed m = pm_LimitReached m)"

definition windowOK :: "codexPassiveWindow \<Rightarrow> bool" where
  "windowOK window \<longleftrightarrow>
     (\<forall>p. cw_usedPercent window = Some p \<longrightarrow> 0 \<le> p \<and> p \<le> 100) \<and>
     (\<forall>r. cw_resetAfter window = Some r \<longrightarrow> 0 \<le> r) \<and>
     (\<forall>s. cw_seconds window = Some s \<longrightarrow> 0 < sint s \<and> sint s mod 60 = 0)"

definition groupOK :: "codexPassiveGroup \<Rightarrow> bool" where
  "groupOK entry \<longleftrightarrow> (\<forall>w window. cg_windowData entry w = Some window \<longrightarrow> windowOK window)"

lemma bounded_float: "parseBoundedFloat env v lo hi = Some x \<Longrightarrow> lo \<le> x \<and> x \<le> hi"
  by (auto simp: parseBoundedFloat_def split: option.splits if_splits)

lemma nonNegative_float: "parseNonNegativeFloat env v = Some x \<Longrightarrow> 0 \<le> x"
  by (auto simp: parseNonNegativeFloat_def dest: bounded_float)

lemma window_minutes:
  assumes "0 \<le> m" "m \<le> int64_max div 60" "m \<noteq> 0"
  shows "0 < sint (word_of_int (m * 60) :: i64) \<and> sint (word_of_int (m * 60) :: i64) mod 60 = 0"
proof -
  have "sint (word_of_int (m * 60) :: i64) = m * 60"
    by (rule sint_of_int_i64) (use assms in \<open>auto simp: int64_max_def\<close>)
  then show ?thesis using assms by simp
qed

lemma windowOK_set: "windowOK w \<Longrightarrow> windowOK (setWindowField env f v w)"
  by (cases f rule: windowField_cases)
    (auto simp: setWindowField_eqs windowOK_def window_minutes simp del: of_int_mult
      dest: bounded_float nonNegative_float split: option.split)

lemma groupOK_set: "groupOK e \<Longrightarrow> groupOK (setField env w f v e)"
  by (auto simp: groupOK_def setField_def emptyCodexWindow_def windowOK_def [of "\<lparr>cw_usedPercent = None, cw_seconds = None, cw_zeroDuration = False,
     cw_resetAfter = None, cw_resetAt = []\<rparr>"] intro!: windowOK_set split: option.splits if_splits)

lemma groupOK_get: "\<forall>n e. groups n = Some e \<longrightarrow> groupOK e \<Longrightarrow> groupOK (codexGroup groups name)"
  by (auto simp: codexGroup_def groupOK_def split: option.split)

lemma groupsOK_fold:
  "\<forall>n e. groups n = Some e \<longrightarrow> groupOK e \<Longrightarrow> \<forall>n e. fold (codexSignal env) signals groups n = Some e \<longrightarrow> groupOK e"
proof (induction signals arbitrary: groups)
  case (Cons kv signals)
  have "\<forall>n e. codexSignal env kv groups n = Some e \<longrightarrow> groupOK e"
    using Cons.prems groupOK_set [OF groupOK_get [OF Cons.prems]]
    by (cases kv) (auto simp: codexSignal_def split: option.split)
  then show ?case using Cons.IH by simp
qed simp

lemma groupOK_clean: "groupOK e \<Longrightarrow> groupOK (cleanCodexGroup e)"
  by (auto simp: groupOK_def cleanCodexGroup_def Let_def split: option.splits if_splits)

lemma clean_flags: "\<not> (cg_allowed (cleanCodexGroup e) \<noteq> None \<and> cg_allowed (cleanCodexGroup e) = cg_limit (cleanCodexGroup e))"
  by (auto simp: cleanCodexGroup_def Let_def)

lemma codexGroupRows_ok:
  assumes "groupOK (codexGroup groups name)" and "m \<in> set (codexGroupRows scope planType groups name)"
  shows "metricOK m"
proof -
  let ?e = "cleanCodexGroup (codexGroup groups name)"
  from assms(2) consider w window where "cg_windowData ?e w = Some window" "\<not> noWindowFact window"
      "m = the (codexWindowRow scope planType ?e name w)"
    | "cg_allowed ?e \<noteq> None \<or> cg_limit ?e \<noteq> None" "pm_UsedPercent m = None" "pm_ResetAfterSeconds m = None"
      "pm_Window m = None" "pm_Allowed m = cg_allowed ?e" "pm_LimitReached m = cg_limit ?e"
    by (auto simp: codexGroupRows_def Let_def set_map_filter codexWindowRow_def metric_def split: option.splits if_splits)
  then show ?thesis
  proof cases
    case 1
    have "windowOK window" using groupOK_clean [OF assms(1)] 1(1) by (auto simp: groupOK_def)
    then show ?thesis using 1 clean_flags [of "codexGroup groups name"]
      by (auto simp: metricOK_def codexWindowRow_def windowOK_def noWindowFact_def metric_def codexMetricKey_def)
  next
    case 2
    then show ?thesis using clean_flags [of "codexGroup groups name"] by (auto simp: metricOK_def)
  qed
qed

lemma sourceYear_text: "sourceYear secs = Some t \<Longrightarrow> t \<noteq> []"
  by (auto simp: sourceYear_def formatRFC3339_def Let_def split: if_splits prod.splits)

lemma sourceTime_text: "parseSourceTime env v = Some t \<Longrightarrow> t \<noteq> []"
  by (auto simp: parseSourceTime_def Let_def split: option.splits dest: sourceYear_text)

lemma retryHint_ok: "passiveRetryHint env key scope v = Some m \<Longrightarrow> metricOK m"
  by (auto simp: passiveRetryHint_def Let_def metric_def metricOK_def split: option.splits
      dest: nonNegative_float sourceTime_text)

lemma setAllowed_sel [simp]:
  "pm_UsedPercent (setAllowed s m) = pm_UsedPercent m" "pm_Window (setAllowed s m) = pm_Window m"
  "pm_ResetAfterSeconds (setAllowed s m) = pm_ResetAfterSeconds m" "pm_ResetAt (setAllowed s m) = pm_ResetAt m"
  "pm_Allowed (setAllowed s m) = (case s of None \<Rightarrow> pm_Allowed m | Some a \<Rightarrow> Some a)"
  "pm_LimitReached (setAllowed s m) = (case s of None \<Rightarrow> pm_LimitReached m | Some a \<Rightarrow> Some (\<not> a))"
  by (auto simp: setAllowed_def split: option.split)

lemma setResetAt_sel [simp]:
  "pm_UsedPercent (setResetAt s m) = pm_UsedPercent m" "pm_Window (setResetAt s m) = pm_Window m"
  "pm_ResetAfterSeconds (setResetAt s m) = pm_ResetAfterSeconds m" "pm_Allowed (setResetAt s m) = pm_Allowed m"
  "pm_LimitReached (setResetAt s m) = pm_LimitReached m"
  "pm_ResetAt (setResetAt s m) = (case s of None \<Rightarrow> pm_ResetAt m | Some t \<Rightarrow> t)"
  by (auto simp: setResetAt_def split: option.split)

lemma claudeWindowRow_ok:
  assumes "claudeWindowRow env scope signals (name, label, seconds) = Some m" and "0 < sint seconds" "sint seconds mod 60 = 0"
  shows "metricOK m"
  using assms
  by (auto simp: claudeWindowRow_def Let_def metricOK_def metric_def split: if_splits option.splits
      dest: bounded_float sourceTime_text)

lemma claudeStateRow_ok: "claudeStateRow env signals x = Some m \<Longrightarrow> metricOK m"
  by (cases x) (auto simp: claudeStateRow_def Let_def metricOK_def metric_def split: if_splits option.splits
      dest: sourceTime_text)

lemma set_case_row: "set (case x of None \<Rightarrow> [] | Some r \<Rightarrow> [f r]) = {f r | r. x = Some r}"
  by (cases x) auto

lemma claudeRows_ok:
  assumes "m \<in> set (normalizeClaudePassiveRows env scope signals)"
  shows "metricOK m"
proof -
  from assms consider name label secs where "claudeWindowRow env scope signals (name, label, secs) = Some m"
      "0 < sint secs" "sint secs mod 60 = 0"
    | x where "claudeStateRow env signals x = Some m"
    | "passiveRetryHint env ''claude.retry_after'' scope (signal signals ''retry-after'') = Some m"
    unfolding normalizeClaudePassiveRows_def set_append set_map_filter set_case_row by fastforce
  then show ?thesis by cases (rule claudeWindowRow_ok claudeStateRow_ok retryHint_ok; assumption)+
qed

lemma credits_ok: "normalizeCodexCredits env scope planType signals = Some m \<Longrightarrow> metricOK m"
  by (auto simp: normalizeCodexCredits_def Let_def metric_def metricOK_def split: if_splits option.splits)

lemma metricOK_planType: "metricOK m \<Longrightarrow> metricOK (m\<lparr>pm_PlanType := p\<rparr>)"
  by (simp add: metricOK_def)

lemma codexRows_ok:
  assumes "m \<in> set (normalizeCodexPassiveRows env scope signals)"
  shows "metricOK m"
proof -
  let ?groups = "fold (codexSignal env) signals (\<lambda>name. None)"
  have groups: "groupOK (codexGroup ?groups name)" for name
    by (rule groupOK_get [OF groupsOK_fold]) simp
  from assms consider name plan where "m \<in> set (codexGroupRows scope plan ?groups name)"
    | plan where "normalizeCodexCredits env scope plan signals = Some m"
    | plan r where "passiveRetryHint env ''codex.retry_after'' scope (signal signals ''retry-after'') = Some r"
      "m = r\<lparr>pm_PlanType := plan\<rparr>"
    unfolding normalizeCodexPassiveRows_def Let_def set_append set_concat set_case_row by auto
  then show ?thesis
    by cases (auto intro: codexGroupRows_ok [OF groups] metricOK_planType retryHint_ok credits_ok)
qed

text \<open>
  C28. No fact is made up. Every metric of a stored snapshot, of the account or of a model, states at
  least one fact: a percentage lies between 0 and 100, a delay is not negative, a window is a
  positive number of whole minutes, and the flags for allowed and limit reached do not contradict each other;
  each snapshot has its source time, and an unknown provider gives none.
\<close>
theorem passiveQuota_facts:
  "(\<forall>o' \<in> set_option (ps_Account (normalizePassiveQuotaSnapshot env provider account models)).
      \<not> isZero (po_ObservedAt o') \<and> (po_Quota o' \<noteq> [] \<or> po_ActiveLimit o' \<noteq> []) \<and> (\<forall>m \<in> set (po_Quota o'). metricOK m)) \<and>
   (\<forall>o' \<in> set (ps_Models (normalizePassiveQuotaSnapshot env provider account models)).
      pq_Model o' \<noteq> [] \<and> \<not> isZero (pq_ObservedAt o') \<and> (\<forall>m \<in> set (pq_Quota o'). metricOK m)) \<and>
   (toLower (trimSpace provider) \<notin> {''claude'', ''codex''} \<longrightarrow>
      normalizePassiveQuotaSnapshot env provider account models = \<lparr>ps_Account = None, ps_Models = []\<rparr>)"
proof -
  have obs: "\<not> isZero (po_ObservedAt o') \<and> (po_Quota o' \<noteq> [] \<or> po_ActiveLimit o' \<noteq> []) \<and> (\<forall>m \<in> set (po_Quota o'). metricOK m)"
    if "normalizePassiveObservation env p scope raw = Some o'" for p scope raw o'
    using that by (auto simp: normalizePassiveObservation_def passiveObservedAt_def Let_def
        split: option.splits if_splits json.splits dest: claudeRows_ok codexRows_ok)
  have model: "pq_Model o' \<noteq> [] \<and> \<not> isZero (pq_ObservedAt o') \<and> (\<forall>m \<in> set (pq_Quota o'). metricOK m)"
    if "passiveModel env p x = Some o'" for p x o'
    using that by (cases x) (auto simp: passiveModel_def Let_def split: if_splits dest: obs)
  show ?thesis
    using obs model by (simp add: normalizePassiveQuotaSnapshot_def set_map_filter Let_def) blast
qed

lemma passiveQuota_facts_witness:
  "\<exists>o' m. ps_Account (normalizePassiveQuotaSnapshot
      \<lparr>pv_float = (\<lambda>s. if s = ''0.5'' then Some (1 / 2) else None),
       pv_rfc3339 = (\<lambda>s. if s = ''t'' then Some 5 else None), pv_httpTime = (\<lambda>s. None)\<rparr> ''Claude''
      (Some \<lparr>rq_ObservedAt = JStr ''t'', rq_Signals = [(''anthropic-ratelimit-unified-5h-utilization'', JStr ''0.5'')]\<rparr>) [])
    = Some o' \<and> m \<in> set (po_Quota o') \<and> metricOK m"
proof -
  let ?env = "\<lparr>pv_float = (\<lambda>s. if s = ''0.5'' then Some (1 / 2) else None),
       pv_rfc3339 = (\<lambda>s. if s = ''t'' then Some 5 else None), pv_httpTime = (\<lambda>s. None)\<rparr>"
  let ?raw = "\<lparr>rq_ObservedAt = JStr ''t'', rq_Signals = [(''anthropic-ratelimit-unified-5h-utilization'', JStr ''0.5'')]\<rparr>"
  let ?s = "normalizePassiveQuotaSnapshot ?env ''Claude'' (Some ?raw) []"
  have "case ps_Account ?s of None \<Rightarrow> False | Some o' \<Rightarrow> map pm_UsedPercent (po_Quota o') = [Some 50]"
    by code_simp
  then obtain o' where o': "ps_Account ?s = Some o'" "map pm_UsedPercent (po_Quota o') = [Some 50]"
    by (cases "ps_Account ?s") simp_all
  then obtain m where "m \<in> set (po_Quota o')" by (cases "po_Quota o'") auto
  with o' passiveQuota_facts [of ?env "''Claude''" "Some ?raw" "[]"] show ?thesis by auto
qed

end
