(* ===== verification/IdentityStats.thy ===== *)
theory IdentityStats
  imports IdentitySync EventStore
begin

text \<open>
  The usage statistics of the identities: each row counts the events up to its cursor, whatever
  sequence of insertions, synchronisations and updates led there, so one aggregation run brings
  every row to what counting all its events gives.
\<close>

section \<open>Counting from the start\<close>

definition identityEvents :: "usageIdentity \<Rightarrow> usageEvent list \<Rightarrow> usageEvent list" where
  "identityEvents r events = (case usageIdentityEventsQuery r events of None \<Rightarrow> [] | Some q \<Rightarrow> q)"

definition usageOf :: "usageEvent list \<Rightarrow> i64 \<times> i64 \<times> i64 \<times> instant option \<times> instant option" where
  "usageOf evs =
     (of_nat (length evs), of_nat (length (filter (\<lambda>e. \<not> ev_Failed e) evs)), of_nat (length (filter ev_Failed evs)),
      (if evs = [] then None else Some (Min (ev_Timestamp ` set evs))),
      (if evs = [] then None else Some (Max (ev_Timestamp ` set evs))))"

definition identityCounts :: "usageIdentity \<Rightarrow> i64 \<times> i64 \<times> i64 \<times> instant option \<times> instant option" where
  "identityCounts r = (ui_TotalRequests r, ui_SuccessCount r, ui_FailureCount r, ui_FirstUsedAt r, ui_LastUsedAt r)"

definition countedEvents :: "usageIdentity \<Rightarrow> usageEvent list \<Rightarrow> usageEvent list" where
  "countedEvents r events = filter (\<lambda>e. ev_ID e \<le> ui_LastAggregatedUsageEventID r) (identityEvents r events)"

definition statsOK :: "usageEvent list \<Rightarrow> usageIdentity \<Rightarrow> bool" where
  "statsOK events r \<longleftrightarrow> identityCounts r = usageOf (countedEvents r events)"

text \<open>An account that no aggregation has seen.\<close>

definition unused :: "usageIdentity \<Rightarrow> bool" where
  "unused r \<longleftrightarrow> identityCounts r = (0, 0, 0, None, None) \<and> ui_LastAggregatedUsageEventID r = 0"

lemma identityEvents_append: "identityEvents r (xs @ ys) = identityEvents r xs @ identityEvents r ys"
  by (auto simp: identityEvents_def usageIdentityEventsQuery_def split: option.split)

lemma identityEvents_subset: "set (identityEvents r events) \<subseteq> set events"
  by (auto simp: identityEvents_def usageIdentityEventsQuery_def split: option.split)

lemma identityEvents_key:
  "ui_AuthType r = ui_AuthType s \<Longrightarrow> ui_Identity r = ui_Identity s \<Longrightarrow> identityEvents r = identityEvents s"
  by (auto simp: identityEvents_def usageIdentityEventsQuery_def split: option.split)

lemma statsOK_key:
  "ui_AuthType r = ui_AuthType s \<Longrightarrow> ui_Identity r = ui_Identity s \<Longrightarrow> identityCounts r = identityCounts s
    \<Longrightarrow> ui_LastAggregatedUsageEventID r = ui_LastAggregatedUsageEventID s \<Longrightarrow> statsOK events r = statsOK events s"
  by (simp add: statsOK_def countedEvents_def identityEvents_key [of r s])

lemma usageOf_Nil [simp]: "usageOf [] = (0, 0, 0, None, None)"
  by (simp add: usageOf_def)

lemma statsOK_unused: "unused r \<Longrightarrow> \<forall>e \<in> set events. 0 < ev_ID e \<Longrightarrow> statsOK events r"
proof -
  assume u: "unused r" and pos: "\<forall>e \<in> set events. 0 < ev_ID e"
  have "countedEvents r events = []"
    using u pos identityEvents_subset [of r events] by (auto simp: countedEvents_def unused_def filter_empty_conv)
  with u show ?thesis by (simp add: statsOK_def unused_def)
qed

lemma statsOK_append:
  assumes "\<forall>e \<in> set new. ui_LastAggregatedUsageEventID r < ev_ID e"
  shows "statsOK (events @ new) r = statsOK events r"
proof -
  have "filter (\<lambda>e. ev_ID e \<le> ui_LastAggregatedUsageEventID r) (identityEvents r new) = []"
    using assms identityEvents_subset [of r new] by (force simp: filter_empty_conv)
  then show ?thesis by (simp add: statsOK_def countedEvents_def identityEvents_append)
qed

section \<open>One aggregation\<close>

lemma hd_sort_key:
  assumes "xs \<noteq> []"
  shows "hd (sort_key f xs) \<in> set xs" "\<forall>x \<in> set xs. f (hd (sort_key f xs)) \<le> f x"
proof -
  obtain y ys where y: "sort_key f xs = y # ys" using assms by (metis list.exhaust length_0_conv length_sort)
  then have "set xs = insert y (set ys)" using set_sort [of f xs] by simp
  moreover have "\<forall>x \<in> set ys. f y \<le> f x" using y sorted_sort_key [of f xs] by simp
  ultimately show "hd (sort_key f xs) \<in> set xs" "\<forall>x \<in> set xs. f (hd (sort_key f xs)) \<le> f x"
    using y by auto
qed

lemma first_min:
  assumes "xs \<noteq> []"
  shows "ev_Timestamp (hd (sort_key (\<lambda>e. (ev_Timestamp e, int (ev_ID e))) xs)) = Min (ev_Timestamp ` set xs)"
  using hd_sort_key [OF assms, of "\<lambda>e. (ev_Timestamp e, int (ev_ID e))"]
  by (intro Min_eqI [symmetric]) (auto simp: less_eq_prod_def)

lemma last_max:
  assumes "xs \<noteq> []"
  shows "ev_Timestamp (hd (sort_key (\<lambda>e. (- ev_Timestamp e, - int (ev_ID e))) xs)) = Max (ev_Timestamp ` set xs)"
  using hd_sort_key [OF assms, of "\<lambda>e. (- ev_Timestamp e, - int (ev_ID e))"]
  by (intro Max_eqI [symmetric]) (auto simp: less_eq_prod_def)

lemma fold_max: "fold max xs (m::nat) = Max (insert m (set xs))"
proof (induction xs arbitrary: m)
  case (Cons x xs)
  have "Max (insert (max x m) (set xs)) = Max (insert x (insert m (set xs)))"
    by (cases "set xs = {}") (simp_all add: max.assoc max.commute max.left_commute)
  with Cons show ?case by (simp add: insert_commute)
qed simp

lemma usageOf_append:
  assumes "usageOf xs = (n, good, bad, lo, hi)" "ys \<noteq> []"
  shows "usageOf (xs @ ys) = (n + of_nat (length ys), good + of_nat (length (filter (\<lambda>e. \<not> ev_Failed e) ys)),
    bad + of_nat (length (filter ev_Failed ys)),
    earlierOf lo (Some (Min (ev_Timestamp ` set ys))), laterOf hi (Some (Max (ev_Timestamp ` set ys))))"
proof (cases "xs = []")
  case True
  with assms show ?thesis by (auto simp: usageOf_def earlierOf_def laterOf_def)
next
  case False
  have "Min (ev_Timestamp ` set (xs @ ys)) = min (Min (ev_Timestamp ` set xs)) (Min (ev_Timestamp ` set ys))"
    "Max (ev_Timestamp ` set (xs @ ys)) = max (Max (ev_Timestamp ` set xs)) (Max (ev_Timestamp ` set ys))"
    using False assms(2) by (simp_all add: image_Un Min_Un Max_Un del: Min_le_iff Max_ge_iff)
  moreover have "earlierOf (Some u) (Some v) = Some (min u v)" "laterOf (Some u) (Some v) = Some (max u v)" for u v
    by (simp_all add: earlierOf_def laterOf_def)
  ultimately show ?thesis using False assms unfolding usageOf_def by force
qed

lemma usageOf_set:
  assumes "mset xs = mset ys"
  shows "usageOf xs = usageOf ys"
proof -
  have "length xs = length ys" "set xs = set ys" using assms by (metis size_mset, metis set_mset_mset)
  moreover have "length (filter P xs) = length (filter P ys)" for P
    using assms by (metis mset_filter size_mset)
  ultimately show ?thesis by (auto simp: usageOf_def)
qed

text \<open>The row an aggregation leaves counts all events of the identity, and its cursor is at the last one.\<close>

lemma aggregate_row:
  assumes ok: "statsOK events r" and short: "length events < 2 ^ 64"
    and delta: "delta = aggregateUsageIdentityDelta events r"
    and r': "r' = (if sd_TotalRequests delta = 0 then r else withStats clock now r delta r)"
  shows "identityCounts r' = usageOf (identityEvents r events)"
    and "ui_LastAggregatedUsageEventID r' = ui_LastAggregatedUsageEventID r \<or>
      (\<exists>e \<in> set events. ui_LastAggregatedUsageEventID r' = ev_ID e)"
    and "\<forall>e \<in> set (identityEvents r events). ev_ID e \<le> ui_LastAggregatedUsageEventID r'"
    and "ui_AuthType r' = ui_AuthType r" "ui_Identity r' = ui_Identity r"
proof -
  let ?c = "ui_LastAggregatedUsageEventID r"
  let ?q = "identityEvents r events"
  let ?new = "filter (\<lambda>e. ?c < ev_ID e) ?q"
  show keys: "ui_AuthType r' = ui_AuthType r" "ui_Identity r' = ui_Identity r"
    using r' by (simp_all add: withStats_def)
  have total: "sd_TotalRequests delta = of_nat (length ?new)"
    by (auto simp: delta aggregateUsageIdentityDelta_def identityEvents_def Let_def split: option.split)
  have "length ?new \<le> length events"
  proof -
    have "length ?q \<le> length events"
      by (auto simp: identityEvents_def usageIdentityEventsQuery_def split: option.split)
    then show ?thesis using length_filter_le [of "\<lambda>e. ?c < ev_ID e" ?q] by linarith
  qed
  then have lt: "length ?new < 2 ^ 64" using short by linarith
  have zero: "sd_TotalRequests delta = 0 \<longleftrightarrow> ?new = []"
  proof
    assume "sd_TotalRequests delta = 0"
    then have "(2::nat) ^ 64 dvd length ?new" by (simp add: total word_of_nat_eq_0_iff)
    with lt show "?new = []" by (metis dvd_imp_le length_0_conv linorder_not_less neq0_conv)
  next
    assume "?new = []"
    then show "sd_TotalRequests delta = 0" unfolding total by simp
  qed
  have part: "mset (countedEvents r events @ ?new) = mset ?q"
    by (simp add: countedEvents_def flip: not_le)
  show "identityCounts r' = usageOf ?q"
    and "ui_LastAggregatedUsageEventID r' = ?c \<or> (\<exists>e \<in> set events. ui_LastAggregatedUsageEventID r' = ev_ID e)"
    and "\<forall>e \<in> set ?q. ev_ID e \<le> ui_LastAggregatedUsageEventID r'"
  proof (atomize (full), cases "?new = []")
    case True
    then have "r' = r" using zero r' by simp
    moreover have "identityCounts r = usageOf ?q"
      using ok usageOf_set [OF part] True by (simp add: statsOK_def)
    moreover have "\<forall>e \<in> set ?q. ev_ID e \<le> ?c" using True by (auto simp: filter_empty_conv)
    ultimately show "identityCounts r' = usageOf ?q \<and>
      (ui_LastAggregatedUsageEventID r' = ?c \<or> (\<exists>e \<in> set events. ui_LastAggregatedUsageEventID r' = ev_ID e)) \<and>
      (\<forall>e \<in> set ?q. ev_ID e \<le> ui_LastAggregatedUsageEventID r')" by simp
  next
    case False
    then have w: "r' = withStats clock now r delta r" using zero r' by simp
    from False obtain q where "usageIdentityEventsQuery r events = Some q"
      by (cases "usageIdentityEventsQuery r events") (auto simp: identityEvents_def)
    then have d: "delta = \<lparr>sd_TotalRequests = of_nat (length ?new),
        sd_SuccessCount = of_nat (length (filter (\<lambda>e. \<not> ev_Failed e) ?new)),
        sd_FailureCount = of_nat (length (filter ev_Failed ?new)), sd_MaxUsageEventID = fold max (map ev_ID ?new) 0,
        sd_FirstUsedAt = Some (Min (ev_Timestamp ` set ?new)), sd_LastUsedAt = Some (Max (ev_Timestamp ` set ?new))\<rparr>"
      using False first_min [OF False] last_max [OF False]
      by (simp add: delta aggregateUsageIdentityDelta_def identityEvents_def Let_def)
    obtain n good bad lo hi where u: "usageOf (countedEvents r events) = (n, good, bad, lo, hi)"
      by (metis prod_cases5)
    with ok have "identityCounts r = (n, good, bad, lo, hi)" by (simp add: statsOK_def)
    then have "identityCounts r' = usageOf (countedEvents r events @ ?new)"
      unfolding usageOf_append [OF u False] by (simp add: w d withStats_def identityCounts_def)
    then have counts: "identityCounts r' = usageOf ?q" using usageOf_set [OF part] by simp
    have cursor: "ui_LastAggregatedUsageEventID r' = Max (insert 0 (ev_ID ` set ?new))"
      by (simp add: w d withStats_def fold_max)
    have ge: "ev_ID e \<le> ui_LastAggregatedUsageEventID r'" if "e \<in> set ?new" for e
      unfolding cursor using that by (intro Max_ge) auto
    obtain e0 where e0: "e0 \<in> set ?new" using False by (meson list.set_sel(1))
    have "ui_LastAggregatedUsageEventID r' \<in> insert 0 (ev_ID ` set ?new)"
      unfolding cursor by (intro Max_in) auto
    moreover have "?c < ev_ID e0" using e0 by simp
    then have pos: "?c < ui_LastAggregatedUsageEventID r'" using ge [OF e0] by linarith
    ultimately have "\<exists>e \<in> set ?new. ui_LastAggregatedUsageEventID r' = ev_ID e" by auto
    then have mem: "\<exists>e \<in> set events. ui_LastAggregatedUsageEventID r' = ev_ID e"
      using identityEvents_subset [of r events] by auto
    have "ev_ID e \<le> ui_LastAggregatedUsageEventID r'" if "e \<in> set ?q" for e
      using that ge [of e] pos by (cases "?c < ev_ID e") auto
    with counts mem show "identityCounts r' = usageOf ?q \<and>
      (ui_LastAggregatedUsageEventID r' = ?c \<or> (\<exists>e \<in> set events. ui_LastAggregatedUsageEventID r' = ev_ID e)) \<and>
      (\<forall>e \<in> set ?q. ev_ID e \<le> ui_LastAggregatedUsageEventID r')" by blast
  qed
qed

lemma aggregate_fold:
  assumes "distinct (map fst rows)"
  shows "lookupRow (fold (aggregateOne clock now events) rows t) i =
    (case map_of rows i of
       None \<Rightarrow> lookupRow t i
     | Some r0 \<Rightarrow> map_option (\<lambda>r. let delta = aggregateUsageIdentityDelta events r0 in
         if sd_TotalRequests delta = 0 then r else withStats clock now r0 delta r) (lookupRow t i))"
  using assms
proof (induction rows arbitrary: t)
  case Nil
  then show ?case by simp
next
  case (Cons p rows)
  obtain j r0 where p: "p = (j, r0)" by (cases p)
  have one: "lookupRow (aggregateOne clock now events (j, r0) t) k =
      (if k = j then map_option (\<lambda>r. let delta = aggregateUsageIdentityDelta events r0 in
         if sd_TotalRequests delta = 0 then r else withStats clock now r0 delta r) (lookupRow t k) else lookupRow t k)" for k
    by (cases "lookupRow t k") (auto simp: aggregateOne_def Let_def lookup_updateWhere)
  have notin: "map_of rows j = None" using Cons.prems p by (auto simp: map_of_eq_None_iff)
  show ?case
    using Cons.IH [of "aggregateOne clock now events p t"] Cons.prems notin
    by (auto simp: p one split: option.splits)
qed

lemma aggregate_lookup:
  assumes "tableOK t"
  shows "lookupRow (fst (aggregateUsageIdentityStats False clock now events t)) i =
    map_option (\<lambda>r. let delta = aggregateUsageIdentityDelta events r in
      if sd_TotalRequests delta = 0 then r else withStats clock now r delta r) (lookupRow t i)"
  using aggregate_fold [OF tableOK_distinct [OF assms]]
  by (cases "lookupRow t i") (simp_all add: aggregateUsageIdentityStats_def lookupRow_def)

section \<open>Rows, one by one\<close>

definition rowsAll :: "('r \<Rightarrow> bool) \<Rightarrow> 'r table \<Rightarrow> bool" where
  "rowsAll P t \<longleftrightarrow> (\<forall>(i, r) \<in> set (tbl_rows t). P r)"

lemma rowsAll_insert: "rowsAll P t \<Longrightarrow> P x \<Longrightarrow> rowsAll P (insertRows [x] t)"
  by (auto simp: rowsAll_def insertRows_def newRows_def)

lemma rowsAll_update: "rowsAll P t \<Longrightarrow> (\<And>i r. P r \<Longrightarrow> P (f i r)) \<Longrightarrow> rowsAll P (updateWhere Q f t)"
  by (force simp: rowsAll_def updateWhere_def)

lemma rowsAll_mono: "rowsAll P t \<Longrightarrow> (\<And>r. P r \<Longrightarrow> Q r) \<Longrightarrow> rowsAll Q t"
  by (auto simp: rowsAll_def)

lemma rowsAll_lookup: "tableOK t \<Longrightarrow> rowsAll P t \<longleftrightarrow> (\<forall>i r. lookupRow t i = Some r \<longrightarrow> P r)"
  by (auto simp: rowsAll_def lookup_mem)

text \<open>Statements about the usage of a row are kept by everything but an aggregation.\<close>

definition usageOnly :: "(usageIdentity \<Rightarrow> bool) \<Rightarrow> bool" where
  "usageOnly P \<longleftrightarrow> (\<forall>r s. ui_AuthType r = ui_AuthType s \<longrightarrow> ui_Identity r = ui_Identity s \<longrightarrow>
     identityCounts r = identityCounts s \<longrightarrow>
     ui_LastAggregatedUsageEventID r = ui_LastAggregatedUsageEventID s \<longrightarrow> P r = P s)"

lemma usageOnlyD:
  "usageOnly P \<Longrightarrow> P s \<Longrightarrow> ui_AuthType r = ui_AuthType s \<Longrightarrow> ui_Identity r = ui_Identity s \<Longrightarrow>
    identityCounts r = identityCounts s \<Longrightarrow> ui_LastAggregatedUsageEventID r = ui_LastAggregatedUsageEventID s \<Longrightarrow> P r"
  unfolding usageOnly_def by blast

lemma stampIdentity_usage:
  "identityCounts (stampIdentity c x) = identityCounts x"
  "ui_LastAggregatedUsageEventID (stampIdentity c x) = ui_LastAggregatedUsageEventID x"
  by (simp_all add: stampIdentity_def identityCounts_def)

lemma refreshIdentity_usage:
  "identityCounts (refreshIdentity r x) = identityCounts r"
  "ui_LastAggregatedUsageEventID (refreshIdentity r x) = ui_LastAggregatedUsageEventID r"
  by (simp_all add: refreshIdentity_def identityCounts_def)

lemma upsert_rows:
  assumes P: "usageOnly P" and t: "rowsAll P t \<and> tableOK t" and x: "P x"
  shows "rowsAll P (upsertIdentity c x t) \<and> tableOK (upsertIdentity c x t)"
proof -
  have stamp: "P (stampIdentity c x)"
    by (rule usageOnlyD [OF P x]) (simp_all only: stampIdentity_usage stampIdentity_key)
  have refresh: "P (refreshIdentity r y)" if "P r" for r y
    by (rule usageOnlyD [OF P that]) (simp_all only: refreshIdentity_usage refreshIdentity_key)
  show ?thesis
  proof (cases "findIdentity t (ui_AuthType x) (ui_Identity x)")
    case None
    then have "upsertIdentity c x t = insertRows [stampIdentity c x] t" by (simp add: upsertIdentity_def)
    with t show ?thesis by (metis rowsAll_insert insertRows_ok stamp)
  next
    case (Some p)
    then have u: "upsertIdentity c x t = updateWhere (\<lambda>_. sameIdentity (ui_AuthType x) (ui_Identity x))
        (\<lambda>_ r. refreshIdentity r (stampIdentity c x)) t" by (simp add: upsertIdentity_def)
    have "rowsAll P (upsertIdentity c x t)" unfolding u using t by (intro rowsAll_update refresh) simp_all
    moreover have "tableOK (upsertIdentity c x t)" unfolding u using t by (intro updateWhere_ok) simp
    ultimately show ?thesis ..
  qed
qed

lemma upserts_rows:
  "usageOnly P \<Longrightarrow> rowsAll P t \<and> tableOK t \<Longrightarrow> \<forall>x \<in> set xs. P x \<Longrightarrow>
    rowsAll P (fold (upsertIdentity c) xs t) \<and> tableOK (fold (upsertIdentity c) xs t)"
  by (induction xs arbitrary: t) (simp_all add: upsert_rows)

lemma update_rows:
  assumes P: "usageOnly P" and t: "rowsAll P t \<and> tableOK t"
    and f: "\<And>i r. ui_AuthType (f i r) = ui_AuthType r \<and> ui_Identity (f i r) = ui_Identity r \<and>
      identityCounts (f i r) = identityCounts r \<and> ui_LastAggregatedUsageEventID (f i r) = ui_LastAggregatedUsageEventID r"
  shows "rowsAll P (updateWhere Q f t) \<and> tableOK (updateWhere Q f t)"
proof -
  have "P (f i r)" if "P r" for i r
    using usageOnlyD [OF P that] f [of i r] by blast
  with t show ?thesis by (simp add: rowsAll_update updateWhere_ok)
qed

lemma markStale_rows:
  assumes P: "usageOnly P" and t: "rowsAll P t \<and> tableOK t"
  shows "rowsAll P (markStaleUsageIdentitiesDeleted c Q inc now t) \<and> tableOK (markStaleUsageIdentitiesDeleted c Q inc now t)"
proof -
  have "rowsAll P (fold (\<lambda>b. updateWhere (\<lambda>i _. i \<in> set b)
      (\<lambda>_ r. r\<lparr>ui_IsDeleted := True, ui_DeletedAt := Some now, ui_UpdatedAt := c\<rparr>)) bs t) \<and>
    tableOK (fold (\<lambda>b. updateWhere (\<lambda>i _. i \<in> set b)
      (\<lambda>_ r. r\<lparr>ui_IsDeleted := True, ui_DeletedAt := Some now, ui_UpdatedAt := c\<rparr>)) bs t)" for bs
    using t
  proof (induction bs arbitrary: t)
    case (Cons b bs)
    from update_rows [OF P Cons.prems, of "\<lambda>_ r. r\<lparr>ui_IsDeleted := True, ui_DeletedAt := Some now, ui_UpdatedAt := c\<rparr>"]
    show ?case unfolding fold_simps comp_apply by (intro Cons.IH) (simp add: identityCounts_def)
  qed simp
  then show ?thesis by (simp add: markStaleUsageIdentitiesDeleted_def Let_def)
qed

lemma normalized_rows:
  assumes P: "\<And>a i. i \<in> set identities \<Longrightarrow> P (normalizedIdentity a i)"
    and norm: "normalizeUsageIdentities identities a = (ns, inc)"
  shows "\<forall>n \<in> set ns. P n"
  using normalizeFrom_list [OF norm [unfolded normalizeUsageIdentities_def]] P by auto

lemma merged_rows:
  assumes P: "usageOnly P" and ns: "\<forall>n \<in> set ns. P n"
  shows "\<forall>n \<in> set (mergePersistedPassiveQuota t ns). P n"
proof -
  have "P (n\<lparr>ui_PassiveQuota := x, ui_PassiveModelQuotas := y\<rparr>)" if "n \<in> set ns" for n x y
    by (rule usageOnlyD [OF P, of n]) (use ns that in \<open>simp_all add: identityCounts_def\<close>)
  with ns show ?thesis by (auto simp: mergePersistedPassiveQuota_def split: option.split)
qed

lemma sync_rows:
  assumes P: "usageOnly P" and t: "rowsAll P t \<and> tableOK t"
    and new: "\<And>a i. i \<in> set identities \<Longrightarrow> P (normalizedIdentity a i)"
    and res: "replaceUsageIdentitiesForAuthType fault clock identities a now t = (t', err)"
  shows "rowsAll P t' \<and> tableOK t'"
proof (cases "\<not> authTypeValid a \<or> fault")
  case True
  with res t show ?thesis by (auto simp: replaceUsageIdentitiesForAuthType_def split: prod.splits if_splits)
next
  case False
  obtain ns inc where norm: "normalizeUsageIdentities identities a = (ns, inc)"
    by (cases "normalizeUsageIdentities identities a")
  have rows: "rowsAll P (fold (upsertIdentity clock) (mergePersistedPassiveQuota t ns) t) \<and>
      tableOK (fold (upsertIdentity clock) (mergePersistedPassiveQuota t ns) t)"
    by (rule upserts_rows [OF P t merged_rows [OF P normalized_rows [where P = P, OF new norm]]])
  from markStale_rows [OF P rows] res norm False show ?thesis
    by (auto simp: replaceUsageIdentitiesForAuthType_def upsertUsageIdentities_fold)
qed

lemma provider_sync_rows:
  assumes P: "usageOnly P" and t: "rowsAll P t \<and> tableOK t"
    and new: "\<And>a i. i \<in> set identities \<Longrightarrow> P (normalizedIdentity a i)"
    and res: "replaceUsageIdentitiesForProviderTypes fault clock identities types now t = (t', err)"
  shows "rowsAll P t' \<and> tableOK t'"
proof -
  obtain ns inc where norm: "normalizeUsageIdentities identities UsageIdentityAuthTypeAIProvider = (ns, inc)"
    by (cases "normalizeUsageIdentities identities UsageIdentityAuthTypeAIProvider")
  let ?mark = "\<lambda>b. markStaleUsageIdentitiesDeleted clock
      (\<lambda>r. ui_AuthType r = UsageIdentityAuthTypeAIProvider \<and> ui_IsDeleted r = False \<and> ui_Type r \<in> set b) inc now"
  have rows: "rowsAll P (fold (upsertIdentity clock) ns t) \<and> tableOK (fold (upsertIdentity clock) ns t)"
    by (rule upserts_rows [OF P t normalized_rows [where P = P, OF new norm]])
  have marks: "rowsAll P (fold ?mark bs u) \<and> tableOK (fold ?mark bs u)" if "rowsAll P u \<and> tableOK u" for bs u
    using that by (induction bs arbitrary: u) (simp_all add: markStale_rows [OF P])
  from rows marks [OF rows] res norm t show ?thesis
    by (auto simp: replaceUsageIdentitiesForProviderTypes_def upsertUsageIdentities_fold Let_def split: if_splits)
qed

section \<open>Events are appended under larger keys\<close>

definition appended :: "eventStore \<Rightarrow> eventStore \<Rightarrow> bool" where
  "appended st st' \<longleftrightarrow> (\<exists>new. st_events st' = st_events st @ new \<and>
     (\<forall>e \<in> set new. st_next st \<le> ev_ID e \<and> ev_ID e < st_next st') \<and> st_next st \<le> st_next st')"

lemma appended_refl: "appended st st"
  by (simp add: appended_def)

lemma appended_trans: "appended a b \<Longrightarrow> appended b c \<Longrightarrow> appended a c"
proof -
  assume "appended a b" "appended b c"
  then obtain x y where "st_events b = st_events a @ x" "\<forall>e \<in> set x. st_next a \<le> ev_ID e \<and> ev_ID e < st_next b"
    "st_next a \<le> st_next b" "st_events c = st_events b @ y"
    "\<forall>e \<in> set y. st_next b \<le> ev_ID e \<and> ev_ID e < st_next c" "st_next b \<le> st_next c"
    by (auto simp: appended_def)
  then show ?thesis unfolding appended_def by (intro exI [of _ "x @ y"]) fastforce
qed

lemma appended_insertEvent: "appended st (insertEvent e st)"
  by (auto simp: insertEvent_def appended_def)

lemma appended_fold: "appended st (fold insertEvent es st)"
proof (induction es arbitrary: st)
  case (Cons e es)
  then show ?case using appended_trans [OF appended_insertEvent] by auto
qed (simp add: appended_refl)

lemma appended_batches: "appended st (fst (fold insertBatch bs (st, keys, n)))"
proof (induction bs arbitrary: st keys n)
  case (Cons b bs)
  obtain keys' n' where b: "insertBatch b (st, keys, n) = (fold insertEvent b st, keys', n')"
    by (auto simp: insertBatch_def Let_def)
  show ?case using appended_trans [OF appended_fold Cons.IH] by (simp add: b)
qed (simp add: appended_refl)

lemma appended_insert:
  assumes "insertUsageEvents fault events st = (st', res)"
  shows "appended st st'"
proof (cases "events = [] \<or> fault")
  case True
  with assms show ?thesis by (auto simp: insertUsageEvents_def appended_refl split: if_splits sum.splits)
next
  case False
  show ?thesis
  proof (cases "stateEvents events")
    case (Inl err)
    with assms False show ?thesis by (auto simp: insertUsageEvents_def appended_refl)
  next
    case (Inr stated)
    obtain st1 keys n where f: "fold insertBatch (batches usageEventBatchSize stated) (st, [], 0) = (st1, keys, n)"
      by (metis prod_cases3)
    have "appended st st1" using appended_batches [of st "batches usageEventBatchSize stated" "[]" 0] by (simp add: f)
    with assms False Inr f show ?thesis by (auto simp: insertUsageEvents_def appended_def Let_def split: if_splits)
  qed
qed

section \<open>Runs\<close>

record usageWorld =
  uw_store :: eventStore
  uw_identities :: identityTable

text \<open>
  What happens to the two tables: events are stored, CPA's accounts synchronised, single rows
  updated and the statistics aggregated. Synchronised accounts carry no usage of their own.
\<close>

inductive usage_step :: "usageWorld \<Rightarrow> usageWorld \<Rightarrow> bool" where
  store_events: "insertUsageEvents fault events (uw_store w) = (st', res) \<Longrightarrow> usage_step w (w\<lparr>uw_store := st'\<rparr>)"
| sync: "replaceUsageIdentitiesForAuthType fault clock identities a now (uw_identities w) = (t', err) \<Longrightarrow>
    \<forall>i \<in> set identities. unused i \<Longrightarrow> usage_step w (w\<lparr>uw_identities := t'\<rparr>)"
| provider_sync: "replaceUsageIdentitiesForProviderTypes fault clock identities types now (uw_identities w) = (t', err) \<Longrightarrow>
    \<forall>i \<in> set identities. unused i \<Longrightarrow> usage_step w (w\<lparr>uw_identities := t'\<rparr>)"
| set_disabled: "setUsageIdentityDisabled i disabled now (uw_identities w) = (t', err) \<Longrightarrow>
    usage_step w (w\<lparr>uw_identities := t'\<rparr>)"
| set_state: "updateUsageIdentityAuthFileState i observed (uw_identities w) = (t', err) \<Longrightarrow>
    usage_step w (w\<lparr>uw_identities := t'\<rparr>)"
| aggregate: "aggregateUsageIdentityStats fault clock now (st_events (uw_store w)) (uw_identities w) = (t', err) \<Longrightarrow>
    length (st_events (uw_store w)) < 2 ^ 64 \<Longrightarrow> usage_step w (w\<lparr>uw_identities := t'\<rparr>)"

inductive_cases usage_stepE: "usage_step w w'"

definition emptyWorld :: usageWorld where
  "emptyWorld = \<lparr>uw_store = emptyStore, uw_identities = emptyTable\<rparr>"

definition usage_reachable :: "usageWorld \<Rightarrow> bool" where
  "usage_reachable w \<longleftrightarrow> usage_step\<^sup>*\<^sup>* emptyWorld w"

definition rowOK :: "eventStore \<Rightarrow> usageIdentity \<Rightarrow> bool" where
  "rowOK st r \<longleftrightarrow> statsOK (st_events st) r \<and> ui_LastAggregatedUsageEventID r < st_next st"

definition usageOK :: "usageWorld \<Rightarrow> bool" where
  "usageOK w \<longleftrightarrow> 0 < st_next (uw_store w) \<and>
     (\<forall>e \<in> set (st_events (uw_store w)). 0 < ev_ID e \<and> ev_ID e < st_next (uw_store w)) \<and>
     rowsAll (rowOK (uw_store w)) (uw_identities w) \<and> tableOK (uw_identities w)"

lemma rowOK_usageOnly: "usageOnly (rowOK st)"
  unfolding usageOnly_def rowOK_def using statsOK_key by metis

lemma normalized_unused: "unused i \<Longrightarrow> unused (normalizedIdentity a i)"
  by (simp add: unused_def identityCounts_def normalizedIdentity_def)

lemma rowOK_unused:
  assumes ok: "usageOK w" and i: "unused i"
  shows "rowOK (uw_store w) (normalizedIdentity a i)"
proof -
  have "\<forall>e \<in> set (st_events (uw_store w)). 0 < ev_ID e" "0 < st_next (uw_store w)" using ok by (simp_all add: usageOK_def)
  with statsOK_unused [OF normalized_unused [OF i]] normalized_unused [OF i, of a] show ?thesis
    by (simp add: rowOK_def unused_def)
qed

lemma usageOK_identities:
  "usageOK w \<Longrightarrow> rowsAll (rowOK (uw_store w)) t' \<and> tableOK t' \<Longrightarrow> usageOK (w\<lparr>uw_identities := t'\<rparr>)"
  by (simp add: usageOK_def)

lemma usageOK_aggregate:
  assumes ok: "usageOK w" and short: "length (st_events (uw_store w)) < 2 ^ 64"
    and res: "aggregateUsageIdentityStats fault clock now (st_events (uw_store w)) (uw_identities w) = (t', err)"
  shows "rowsAll (rowOK (uw_store w)) t' \<and> tableOK t'"
proof (cases fault)
  case True
  with ok res show ?thesis by (simp add: aggregateUsageIdentityStats_def usageOK_def)
next
  case False
  let ?events = "st_events (uw_store w)"
  have table: "tableOK (uw_identities w)" using ok by (simp add: usageOK_def)
  have t': "t' = fst (aggregateUsageIdentityStats False clock now ?events (uw_identities w))"
    using res False by simp
  have fold_table: "tableOK (fold (aggregateOne clock now ?events) rows t)" if "tableOK t" for rows t
    using that by (induction rows arbitrary: t) (auto simp: aggregateOne_def Let_def updateWhere_ok)
  have table': "tableOK t'" unfolding t' aggregateUsageIdentityStats_def using fold_table [OF table] by simp
  have "rowOK (uw_store w) r'" if r': "lookupRow t' i = Some r'" for i r'
  proof -
    from r' obtain r where r: "lookupRow (uw_identities w) i = Some r" and
      r'_def: "r' = (if sd_TotalRequests (aggregateUsageIdentityDelta ?events r) = 0 then r
        else withStats clock now r (aggregateUsageIdentityDelta ?events r) r)"
      unfolding t' aggregate_lookup [OF table] by (auto simp: Let_def)
    have row: "rowOK (uw_store w) r" using ok r rowsAll_lookup [OF table] by (simp add: usageOK_def)
    then have stats: "statsOK ?events r" by (simp add: rowOK_def)
    note agg = aggregate_row [OF stats short refl r'_def]
    have "countedEvents r' ?events = identityEvents r ?events"
      using agg(3) by (simp add: countedEvents_def identityEvents_key [OF agg(4,5)])
    with agg(1) have "statsOK ?events r'" by (simp add: statsOK_def)
    moreover have "ui_LastAggregatedUsageEventID r' < st_next (uw_store w)"
      using agg(2) row ok by (auto simp: rowOK_def usageOK_def)
    ultimately show ?thesis by (simp add: rowOK_def)
  qed
  with table' rowsAll_lookup [OF table'] show ?thesis by blast
qed

lemma usageOK_store:
  assumes ok: "usageOK w" and st: "appended (uw_store w) st'"
  shows "usageOK (w\<lparr>uw_store := st'\<rparr>)"
proof -
  obtain new where new: "st_events st' = st_events (uw_store w) @ new"
    "\<forall>e \<in> set new. st_next (uw_store w) \<le> ev_ID e \<and> ev_ID e < st_next st'" "st_next (uw_store w) \<le> st_next st'"
    using st by (auto simp: appended_def)
  have "rowOK st' r" if "rowOK (uw_store w) r" for r
  proof -
    have "statsOK (st_events (uw_store w) @ new) r = statsOK (st_events (uw_store w)) r"
      using that new(2) by (intro statsOK_append) (fastforce simp: rowOK_def)
    with that new show ?thesis by (simp add: rowOK_def)
  qed
  then have "rowsAll (rowOK st') (uw_identities w)"
    using ok by (auto simp: usageOK_def intro: rowsAll_mono)
  with ok new show ?thesis by (fastforce simp: usageOK_def)
qed

lemma usage_step_ok:
  assumes "usage_step w w'" "usageOK w"
  shows "usageOK w'"
proof -
  have rows: "rowsAll (rowOK (uw_store w)) (uw_identities w) \<and> tableOK (uw_identities w)"
    using assms(2) by (simp add: usageOK_def)
  note upd = update_rows [OF rowOK_usageOnly rows]
  from assms(1) show ?thesis
  proof cases
    case (store_events fault events st' res)
    with usageOK_store [OF assms(2) appended_insert] show ?thesis by blast
  next
    case (sync fault clock identities a now t' err)
    have "rowsAll (rowOK (uw_store w)) t' \<and> tableOK t'"
      by (rule sync_rows [OF rowOK_usageOnly rows _ sync(2)]) (use rowOK_unused [OF assms(2)] sync(3) in blast)
    with usageOK_identities [OF assms(2)] sync(1) show ?thesis by simp
  next
    case (provider_sync fault clock identities types now t' err)
    have "rowsAll (rowOK (uw_store w)) t' \<and> tableOK t'"
      by (rule provider_sync_rows [OF rowOK_usageOnly rows _ provider_sync(2)])
        (use rowOK_unused [OF assms(2)] provider_sync(3) in blast)
    with usageOK_identities [OF assms(2)] provider_sync(1) show ?thesis by simp
  next
    case (set_disabled i disabled now t' err)
    have "rowsAll (rowOK (uw_store w)) t' \<and> tableOK t'"
      using set_disabled(2) rows upd [of "\<lambda>_ r. r\<lparr>ui_Disabled := disabled, ui_UpdatedAt := now\<rparr>" "\<lambda>j _. j = i"]
      by (auto simp: setUsageIdentityDisabled_def identityCounts_def split: if_splits)
    with usageOK_identities [OF assms(2)] set_disabled(1) show ?thesis by simp
  next
    case (set_state i observed t' err)
    have "rowsAll (rowOK (uw_store w)) t' \<and> tableOK t'"
      using set_state(2) rows upd [of "\<lambda>_ r. r
          \<lparr>ui_Disabled := ui_Disabled observed, ui_AuthFileStatus := ui_AuthFileStatus observed,
           ui_Unavailable := ui_Unavailable observed, ui_LastRefresh := ui_LastRefresh observed,
           ui_NextRetryAfter := ui_NextRetryAfter observed,
           ui_MetadataObservedAt := ui_MetadataObservedAt observed, ui_AuthRenewal := ui_AuthRenewal observed,
           ui_UpdatedAt := (case ui_MetadataObservedAt observed of Some at' \<Rightarrow> at' | None \<Rightarrow> zero_time)\<rparr>" "\<lambda>j _. j = i"]
      by (auto simp: updateUsageIdentityAuthFileState_def identityCounts_def split: if_splits)
    with usageOK_identities [OF assms(2)] set_state(1) show ?thesis by simp
  next
    case (aggregate fault clock now t' err)
    from usageOK_aggregate [OF assms(2) aggregate(3,2)] usageOK_identities [OF assms(2)] aggregate(1)
    show ?thesis by simp
  qed
qed

lemma usage_reachable_ok:
  assumes "usage_reachable w"
  shows "usageOK w"
  using assms unfolding usage_reachable_def
proof (induction rule: rtranclp_induct)
  case base
  show ?case by (simp add: usageOK_def emptyWorld_def emptyStore_def rowsAll_def emptyTable_def tableOK_def)
next
  case (step u v)
  then show ?case using usage_step_ok by blast
qed

section \<open>Properties\<close>

lemma aggregate_counts:
  assumes ok: "usageOK w" and short: "length (st_events (uw_store w)) < 2 ^ 64"
    and r: "lookupRow (fst (aggregateUsageIdentityStats False clock now (st_events (uw_store w)) (uw_identities w))) i = Some r"
  shows "identityCounts r = usageOf (identityEvents r (st_events (uw_store w)))"
proof -
  let ?events = "st_events (uw_store w)"
  have table: "tableOK (uw_identities w)" using ok by (simp add: usageOK_def)
  from r obtain r0 where r0: "lookupRow (uw_identities w) i = Some r0" and
    r': "r = (if sd_TotalRequests (aggregateUsageIdentityDelta ?events r0) = 0 then r0
      else withStats clock now r0 (aggregateUsageIdentityDelta ?events r0) r0)"
    unfolding aggregate_lookup [OF table] by (auto simp: Let_def)
  have stats: "statsOK ?events r0" using ok r0 rowsAll_lookup [OF table] by (simp add: usageOK_def rowOK_def)
  note agg = aggregate_row [OF stats short refl r']
  from agg(1) show ?thesis by (simp add: identityEvents_key [OF agg(4,5)])
qed

text \<open>
  C30. Whatever events were stored, accounts synchronised, deleted and restored, and aggregations
  run before: one more aggregation gives every identity, deleted ones included, the numbers of its
  attempts, successes and failures and the first and last time it was used that counting all its
  stored events from the start gives.
\<close>
theorem identityStats_exact:
  assumes "usage_reachable w" and "length (st_events (uw_store w)) < 2 ^ 64"
    and "lookupRow (fst (aggregateUsageIdentityStats False clock now (st_events (uw_store w)) (uw_identities w))) i = Some r"
  shows "(ui_TotalRequests r, ui_SuccessCount r, ui_FailureCount r, ui_FirstUsedAt r, ui_LastUsedAt r) =
    usageOf (identityEvents r (st_events (uw_store w)))"
  using aggregate_counts [OF usage_reachable_ok [OF assms(1)] assms(2,3)] by (simp add: identityCounts_def)

lemma unused_account: "unused (account k)"
  by (simp add: unused_def account_def emptyIdentity_def identityCounts_def)

lemma identityStats_exact_witness:
  "\<exists>w r. usage_reachable w \<and> lookupRow (uw_identities w) 1 = Some r \<and>
    (ui_TotalRequests r, ui_SuccessCount r, ui_FailureCount r, ui_FirstUsedAt r, ui_LastUsedAt r) = usageOf []"
proof -
  let ?x = "normalizedIdentity UsageIdentityAuthTypeAuthFile (account ''a'')"
  let ?t = "insertRows [stampIdentity 5 ?x] emptyTable"
  let ?w = "emptyWorld\<lparr>uw_identities := ?t\<rparr>"
  have norm: "normalizeUsageIdentities [account ''a''] UsageIdentityAuthTypeAuthFile = ([?x], [''a''])"
    by (simp add: normalizeUsageIdentities_def account_def trimSpace_a Let_def)
  have none: "findIdentity emptyTable a k = None" for a k
    by (simp add: findIdentity_def selectWhere_def emptyTable_def)
  have key: "trimSpace (ui_Identity (account ''a'')) = ''a''" by (simp add: account_def trimSpace_a)
  have rows: "tbl_rows ?t = [(1, stampIdentity 5 ?x)]" by (simp add: insertRows_def newRows_def emptyTable_def)
  have up: "upsertUsageIdentities 5 (mergePersistedPassiveQuota emptyTable [?x]) emptyTable = ?t"
    by (simp add: mergePersistedPassiveQuota_def none upsertUsageIdentities_fold upsertIdentity_def)
  have stale: "markStaleUsageIdentitiesDeleted 5 Q [''a''] 5 ?t = ?t" for Q
    by (simp add: markStaleUsageIdentitiesDeleted_def selectWhere_def rows key batches.simps [of _ "[]"])
  have "replaceUsageIdentitiesForAuthType False 5 [account ''a''] UsageIdentityAuthTypeAuthFile 5 emptyTable = (?t, None)"
    by (simp add: replaceUsageIdentitiesForAuthType_def authTypeValid_def norm up stale)
  then have "replaceUsageIdentitiesForAuthType False 5 [account ''a''] UsageIdentityAuthTypeAuthFile 5
      (uw_identities emptyWorld) = (?t, None)" by (simp add: emptyWorld_def)
  from sync [OF this] have "usage_step emptyWorld ?w" using unused_account by simp
  then have reach: "usage_reachable ?w" unfolding usage_reachable_def by (rule r_into_rtranclp)
  have row: "lookupRow ?t 1 = Some (stampIdentity 5 ?x)"
    by (simp add: lookupRow_def insertRows_def newRows_def emptyTable_def)
  have events: "st_events (uw_store ?w) = []" by (simp add: emptyWorld_def emptyStore_def)
  have none_new: "aggregateUsageIdentityStats False 9 9 [] t = (t, None)" for t
  proof -
    have "fold (aggregateOne 9 9 []) rows t = t" for rows t
      by (induction rows arbitrary: t)
        (auto simp: aggregateOne_def aggregateUsageIdentityDelta_def usageIdentityEventsQuery_def Let_def split: option.split)
    then show ?thesis by (simp add: aggregateUsageIdentityStats_def)
  qed
  have "lookupRow (fst (aggregateUsageIdentityStats False 9 9 (st_events (uw_store ?w)) (uw_identities ?w))) 1 =
      Some (stampIdentity 5 ?x)" unfolding events none_new using row by simp
  note exact = identityStats_exact [OF reach _ this, unfolded events]
  have no_events: "identityEvents (stampIdentity 5 ?x) [] = []" by (simp add: identityEvents_def
      usageIdentityEventsQuery_def split: option.split)
  have "lookupRow (uw_identities ?w) 1 = Some (stampIdentity 5 ?x)" using row by simp
  with exact [unfolded no_events] reach show ?thesis
    by (intro exI [of _ ?w] exI [of _ "stampIdentity 5 ?x"] conjI) simp_all
qed

end
