(* ===== verification/MetadataSync.thy ===== *)
theory MetadataSync
  imports PassiveQuota IdentityStats UsageMessage GoNet
begin

text \<open>
  The metadata synchronisation (\<open>service/sync.go\<close>, \<open>service/provider_metadata.go\<close>,
  \<open>service/auth_file_to_usage_identity_fields.go\<close>, the DTOs under \<open>cpa/dto\<close>) and the account switch
  (\<open>service/account_status.go\<close>): what CPA reports becomes rows of the identity table. The answers of
  the management API are arguments. A JSON \<open>any\<close> of a decoded document is its \<open>json\<close> value, and a Go
  map the list of its entries.
\<close>

section \<open>Auth files\<close>

record authFileRefreshError =
  fe_Code :: string
  fe_HTTPStatus :: int

record authFileIDToken =
  ft_AccountID :: "string option"
  ft_AccountIDCamel :: "string option"
  ft_ActiveStart :: "instant option"
  ft_ActiveStartCamel :: "instant option"
  ft_ActiveUntil :: "instant option"
  ft_ActiveUntilCamel :: "instant option"
  ft_PlanType :: "string option"
  ft_PlanTypeCamel :: "string option"

text \<open>The fields of a credential that the service reads.\<close>

record authFile =
  af_ID :: string
  af_AuthIndex :: string
  af_Name :: string
  af_Email :: string
  af_Type :: string
  af_Provider :: string
  af_Label :: string
  af_Status :: "string option"
  af_Disabled :: bool
  af_Unavailable :: "bool option"
  af_LastRefresh :: "instant option"
  af_NextRetryAfter :: "instant option"
  af_RequiresSignIn :: "bool option"
  af_RenewalState :: "string option"
  af_RecoveryStage :: "string option"
  af_AccessTokenExpiresAt :: "instant option"
  af_NextRefreshAfter :: "instant option"
  af_NextAction :: "string option"
  af_RecoveryHint :: "string option"
  af_RefreshError :: "authFileRefreshError option"
  af_Quota :: "rawQuotaObservation option"
  af_ModelQuotas :: "(string \<times> rawQuotaObservation) list"
  af_Account :: string
  af_Metadata :: jsonObject
  af_Attributes :: jsonObject
  af_ProjectID :: string
  af_ProjectIDCamel :: string
  af_IDToken :: "authFileIDToken option"

fun firstNonEmptyStringPtr :: "string option list \<Rightarrow> string option" where
  "firstNonEmptyStringPtr [] = None"
| "firstNonEmptyStringPtr (None # rest) = firstNonEmptyStringPtr rest"
| "firstNonEmptyStringPtr (Some value # rest) =
     (let t = trimSpace value in if t = [] then firstNonEmptyStringPtr rest else Some t)"

definition stringValue :: "string \<Rightarrow> string option" where
  "stringValue value = firstNonEmptyStringPtr [Some value]"

text \<open>The exact key, or the first one of the walk that differs only in case.\<close>

definition mapValue :: "jsonObject \<Rightarrow> string \<Rightarrow> json option" where
  "mapValue values key =
     (case jsonLookup values key of
        Some v \<Rightarrow> Some v
      | None \<Rightarrow> map_option snd (find (\<lambda>(k, _). toLower k = toLower key) values))"

fun mapString :: "jsonObject \<Rightarrow> string list \<Rightarrow> string option" where
  "mapString values [] = None"
| "mapString values [key] =
     (case mapValue values key of Some (JStr s) \<Rightarrow> stringValue s | _ \<Rightarrow> None)"
| "mapString values (key # key' # path) =
     (case mapValue values key of Some (JObj inner) \<Rightarrow> mapString inner (key' # path) | _ \<Rightarrow> None)"

definition lastParenthesizedValue :: "string \<Rightarrow> string option" where
  "lastParenthesizedValue value =
     (case cutAtLast (CHR '')'') value of
        None \<Rightarrow> None
      | Some (before, _) \<Rightarrow> (case cutAtLast (CHR ''('') before of
          None \<Rightarrow> None
        | Some (_, inner) \<Rightarrow> stringValue inner))"

definition lastParenthesizedValuePtr :: "string option \<Rightarrow> string option" where
  "lastParenthesizedValuePtr value = Option.bind value lastParenthesizedValue"

definition resolveCodexAccountID :: "authFile \<Rightarrow> string option" where
  "resolveCodexAccountID file = firstNonEmptyStringPtr
     ([Option.bind (af_IDToken file) ft_AccountID, Option.bind (af_IDToken file) ft_AccountIDCamel] @
      concat (map (\<lambda>values. concat (map (\<lambda>token. map (\<lambda>key. mapString values [token, key])
          [''chatgpt_account_id'', ''chatgptAccountId'']) [''id_token'', ''idToken'']))
        [af_Metadata file, af_Attributes file]))"

definition resolveCodexPlanType :: "authFile \<Rightarrow> string option" where
  "resolveCodexPlanType file = firstNonEmptyStringPtr
     ([Option.bind (af_IDToken file) ft_PlanType, Option.bind (af_IDToken file) ft_PlanTypeCamel] @
      concat (map (\<lambda>values. map (mapString values)
          [[''plan_type''], [''planType''], [''id_token'', ''plan_type''], [''id_token'', ''planType''],
           [''idToken'', ''plan_type''], [''idToken'', ''planType'']])
        [af_Metadata file, af_Attributes file]))"

definition resolveCodexActiveStart :: "authFile \<Rightarrow> instant option" where
  "resolveCodexActiveStart file =
     (case af_IDToken file of
        None \<Rightarrow> None
      | Some token \<Rightarrow> if ft_ActiveStart token \<noteq> None then ft_ActiveStart token else ft_ActiveStartCamel token)"

definition resolveCodexActiveUntil :: "authFile \<Rightarrow> instant option" where
  "resolveCodexActiveUntil file =
     (case af_IDToken file of
        None \<Rightarrow> None
      | Some token \<Rightarrow> if ft_ActiveUntil token \<noteq> None then ft_ActiveUntil token else ft_ActiveUntilCamel token)"

definition resolveGeminiCLIProjectID :: "authFile \<Rightarrow> string option" where
  "resolveGeminiCLIProjectID file = firstNonEmptyStringPtr
     [lastParenthesizedValue (af_Account file),
      lastParenthesizedValuePtr (mapString (af_Metadata file) [''account'']),
      lastParenthesizedValuePtr (mapString (af_Attributes file) [''account''])]"

definition resolveAntigravityProjectID :: "authFile \<Rightarrow> string option" where
  "resolveAntigravityProjectID file = firstNonEmptyStringPtr
     ([stringValue (af_ProjectID file), stringValue (af_ProjectIDCamel file)] @
      concat (map (\<lambda>values. map (mapString values)
          [[''project_id''], [''projectId''], [''installed'', ''project_id''], [''installed'', ''projectId''],
           [''web'', ''project_id''], [''web'', ''projectId'']])
        [af_Metadata file, af_Attributes file]))"

definition resolveAuthFileProjectID :: "authFile \<Rightarrow> string option" where
  "resolveAuthFileProjectID file =
     (let t = toLower (trimSpace (af_Type file)) in
      if t = ''antigravity'' then resolveAntigravityProjectID file
      else if t = ''gemini'' \<or> t = ''gemini-cli'' \<or> t = ''gemini-cli-code-assist''
        then resolveGeminiCLIProjectID file
      else None)"

definition copyOptionalTime :: "instant option \<Rightarrow> instant option" where
  "copyOptionalTime value =
     (case value of None \<Rightarrow> None | Some t \<Rightarrow> if isZero t then None else Some t)"

definition boundedAuthFileStatus :: "string option \<Rightarrow> string option" where
  "boundedAuthFileStatus status =
     (case status of
        None \<Rightarrow> None
      | Some s \<Rightarrow>
          (let normalized = toLower (trimSpace s) in
           if normalized = [] then None
           else if normalized \<in> {''active'', ''pending'', ''refreshing'', ''error'', ''disabled'', ''unknown''}
             then Some normalized
           else Some ''other''))"

definition authRenewalObservationOf :: "authFile \<Rightarrow> authRenewalObservation option" where
  "authRenewalObservationOf file =
     (if af_RequiresSignIn file = None \<and> af_RenewalState file = None \<and> af_RecoveryStage file = None \<and>
         af_AccessTokenExpiresAt file = None \<and> af_NextRefreshAfter file = None \<and> af_NextAction file = None \<and>
         af_RecoveryHint file = None \<and> af_RefreshError file = None
      then None
      else Some
        \<lparr>rn_RequiresSignIn = af_RequiresSignIn file, rn_RenewalState = af_RenewalState file,
         rn_RecoveryStage = af_RecoveryStage file,
         rn_AccessTokenExpiresAt = copyOptionalTime (af_AccessTokenExpiresAt file),
         rn_NextRefreshAfter = copyOptionalTime (af_NextRefreshAfter file),
         rn_NextAction = af_NextAction file, rn_RecoveryHint = af_RecoveryHint file,
         rn_RefreshError = map_option (\<lambda>e. \<lparr>ae_Code = fe_Code e, ae_HTTPStatus = fe_HTTPStatus e\<rparr>) (af_RefreshError file)\<rparr>)"

definition baseAuthFileUsageIdentity :: "authFile \<Rightarrow> instant \<Rightarrow> usageIdentity" where
  "baseAuthFileUsageIdentity file observedAt = emptyIdentity
     \<lparr>ui_Name := firstNonEmpty [af_Email file, af_Label file, af_Name file, af_AuthIndex file],
      ui_AuthType := UsageIdentityAuthTypeAuthFile,
      ui_AuthTypeName := (case canonicalName UsageIdentityAuthTypeAuthFile of None \<Rightarrow> [] | Some n \<Rightarrow> n),
      ui_Identity := af_AuthIndex file,
      ui_Type := af_Type file,
      ui_Provider := af_Provider file,
      ui_Disabled := af_Disabled file,
      ui_AuthFileStatus := boundedAuthFileStatus (af_Status file),
      ui_Unavailable := af_Unavailable file,
      ui_LastRefresh := copyOptionalTime (af_LastRefresh file),
      ui_NextRetryAfter := copyOptionalTime (af_NextRetryAfter file),
      ui_MetadataObservedAt := Some observedAt,
      ui_AuthRenewal := authRenewalObservationOf file\<rparr>"

definition extendCodexAuthFileUsageIdentity :: "authFile \<Rightarrow> usageIdentity \<Rightarrow> usageIdentity" where
  "extendCodexAuthFileUsageIdentity file identity = identity
     \<lparr>ui_AccountID := resolveCodexAccountID file, ui_ActiveStart := resolveCodexActiveStart file,
      ui_ActiveUntil := resolveCodexActiveUntil file, ui_PlanType := resolveCodexPlanType file\<rparr>"

definition authFileUsageIdentity :: "passiveEnv \<Rightarrow> authFile \<Rightarrow> instant \<Rightarrow> usageIdentity" where
  "authFileUsageIdentity env file observedAt =
     (let identity = baseAuthFileUsageIdentity file observedAt;
          passiveQuota = normalizePassiveQuotaSnapshot env (firstNonEmpty [af_Type file, af_Provider file])
            (af_Quota file) (af_ModelQuotas file);
          identity = identity\<lparr>ui_PassiveQuota := ps_Account passiveQuota, ui_PassiveModelQuotas := ps_Models passiveQuota\<rparr>;
          identity = (if toLower (trimSpace (af_Type file)) = ''codex''
                      then extendCodexAuthFileUsageIdentity file identity else identity)
      in identity\<lparr>ui_ProjectID := resolveAuthFileProjectID file\<rparr>)"

section \<open>Provider configurations\<close>

record providerKeyConfig =
  pk_APIKey :: string
  pk_Prefix :: string
  pk_Name :: string
  pk_BaseURL :: string
  pk_AuthIndex :: string

record openAIApiKeyEntry =
  oe_APIKey :: string
  oe_AuthIndex :: string

record openAICompatibilityConfig =
  oc_Name :: string
  oc_Prefix :: string
  oc_BaseURL :: string
  oc_APIKeyEntries :: "openAIApiKeyEntry list"

fun firstString :: "jsonObject \<Rightarrow> string list \<Rightarrow> string" where
  "firstString raw [] = []"
| "firstString raw (key # keys) =
     (case jsonLookup raw key of Some (JStr text) \<Rightarrow> text | _ \<Rightarrow> firstString raw keys)"

text \<open>A JSON \<open>null\<close> decodes into a map without entries; any other value is an error (\<open>None\<close>).\<close>

definition decodeMap :: "json \<Rightarrow> jsonObject option" where
  "decodeMap data = (case data of JObj raw \<Rightarrow> Some raw | JNull \<Rightarrow> Some [] | _ \<Rightarrow> None)"

definition unmarshalProviderKeyConfig :: "json \<Rightarrow> providerKeyConfig option" where
  "unmarshalProviderKeyConfig data = map_option (\<lambda>raw.
     \<lparr>pk_APIKey = firstString raw [''apiKey'', ''api-key'', ''key''],
      pk_Prefix = firstString raw [''prefix''],
      pk_Name = firstString raw [''name''],
      pk_BaseURL = firstString raw [''base-url'', ''base_url'', ''baseURL''],
      pk_AuthIndex = firstString raw [''auth-index'', ''auth_index'', ''authIndex'']\<rparr>) (decodeMap data)"

definition decodeOpenAIApiKeyEntry :: "json \<Rightarrow> openAIApiKeyEntry option" where
  "decodeOpenAIApiKeyEntry raw =
     (case raw of
        JStr value \<Rightarrow> Some \<lparr>oe_APIKey = value, oe_AuthIndex = []\<rparr>
      | JObj value \<Rightarrow> Some
          \<lparr>oe_APIKey = firstString value [''api-key'', ''api_key'', ''apiKey'', ''key''],
           oe_AuthIndex = firstString value [''auth-index'', ''auth_index'', ''authIndex'']\<rparr>
      | JNull \<Rightarrow> Some \<lparr>oe_APIKey = [], oe_AuthIndex = []\<rparr>
      | _ \<Rightarrow> None)"

fun decodeEntries :: "json list \<Rightarrow> openAIApiKeyEntry list option" where
  "decodeEntries [] = Some []"
| "decodeEntries (raw # rest) =
     (case decodeOpenAIApiKeyEntry raw of
        None \<Rightarrow> None
      | Some entry \<Rightarrow> map_option (\<lambda>entries. if oe_APIKey entry = [] then entries else entry # entries)
          (decodeEntries rest))"

definition decodeOpenAIApiKeyEntries :: "json \<Rightarrow> openAIApiKeyEntry list option" where
  "decodeOpenAIApiKeyEntries value = (case value of JArr raws \<Rightarrow> decodeEntries raws | _ \<Rightarrow> Some [])"

fun firstPresent :: "jsonObject \<Rightarrow> string list \<Rightarrow> json option" where
  "firstPresent raw [] = None"
| "firstPresent raw (key # keys) =
     (case jsonLookup raw key of Some value \<Rightarrow> Some value | None \<Rightarrow> firstPresent raw keys)"

definition unmarshalOpenAICompatibilityConfig :: "json \<Rightarrow> openAICompatibilityConfig option" where
  "unmarshalOpenAICompatibilityConfig data =
     (case decodeMap data of
        None \<Rightarrow> None
      | Some raw \<Rightarrow>
          (case (case firstPresent raw [''apiKeyEntries'', ''api-key-entries'', ''api-keys''] of
                   None \<Rightarrow> Some [] | Some value \<Rightarrow> decodeOpenAIApiKeyEntries value) of
             None \<Rightarrow> None
           | Some entries \<Rightarrow> Some
               \<lparr>oc_Name = firstString raw [''name'', ''id''], oc_Prefix = firstString raw [''prefix''],
                oc_BaseURL = firstString raw [''base-url'', ''base_url'', ''baseURL''],
                oc_APIKeyEntries = entries\<rparr>))"

record providerMetadataInput =
  pi_LookupKey :: string
  pi_Prefix :: string
  pi_ProviderType :: string
  pi_DisplayName :: string
  pi_AuthIndex :: string
  pi_BaseURL :: string

definition newProviderMetadataInput ::
  "string \<Rightarrow> string \<Rightarrow> string \<Rightarrow> string \<Rightarrow> string \<Rightarrow> string \<Rightarrow> providerMetadataInput option" where
  "newProviderMetadataInput lookupKey pre providerType name authIndex baseURL =
     (let input = \<lparr>pi_LookupKey = trimSpace lookupKey, pi_Prefix = trimSpace pre,
            pi_ProviderType = trimSpace providerType, pi_DisplayName = trimSpace name,
            pi_AuthIndex = trimSpace authIndex, pi_BaseURL = trimSpace baseURL\<rparr>
      in if pi_LookupKey input = [] \<or> pi_ProviderType input = [] \<or> pi_DisplayName input = [] \<or>
            pi_AuthIndex input = [] then None else Some input)"

definition providerKeyConfigInputs :: "string \<Rightarrow> providerKeyConfig list \<Rightarrow> providerMetadataInput list" where
  "providerKeyConfigInputs providerType configs = List.map_filter (\<lambda>cfg.
     newProviderMetadataInput (pk_APIKey cfg) (pk_Prefix cfg) providerType
       (firstNonEmpty [pk_Name cfg, providerType]) (pk_AuthIndex cfg) (pk_BaseURL cfg)) configs"

text \<open>What the management API answers to the fetches; a missing result is \<open>None\<close>.\<close>

record metadataFetcher =
  mf_FetchAuthFiles :: "goErr + authFile list option"
  mf_FetchGeminiAPIKeys :: "goErr + providerKeyConfig list option"
  mf_FetchClaudeAPIKeys :: "goErr + providerKeyConfig list option"
  mf_FetchCodexAPIKeys :: "goErr + providerKeyConfig list option"
  mf_FetchVertexAPIKeys :: "goErr + providerKeyConfig list option"
  mf_FetchOpenAICompatibility :: "goErr + openAICompatibilityConfig list option"

record providerMetadataAdapter =
  ad_providerType :: string
  ad_fetch :: "metadataFetcher \<Rightarrow> goErr + providerMetadataInput list"

definition newProviderKeyConfigAdapter ::
  "string \<Rightarrow> (metadataFetcher \<Rightarrow> goErr + providerKeyConfig list option) \<Rightarrow> providerMetadataAdapter" where
  "newProviderKeyConfigAdapter providerType fetch =
     \<lparr>ad_providerType = providerType,
      ad_fetch = (\<lambda>fetcher. case fetch fetcher of
          Inl err \<Rightarrow> Inl (wrap (''fetch '' @ providerType @ '' api keys: '') err)
        | Inr None \<Rightarrow> Inl (PlainError (providerType @ '' api keys response is nil''))
        | Inr (Some payload) \<Rightarrow> Inr (providerKeyConfigInputs providerType payload))\<rparr>"

definition openAIInputs :: "openAICompatibilityConfig \<Rightarrow> providerMetadataInput list" where
  "openAIInputs provider =
     (let name = firstNonEmpty [oc_Name provider, ''openai''] in
      List.map_filter (\<lambda>entry. newProviderMetadataInput (oe_APIKey entry) (oc_Prefix provider) ''openai''
        name (firstNonEmpty [oe_AuthIndex entry, oe_APIKey entry]) (oc_BaseURL provider)) (oc_APIKeyEntries provider))"

definition newOpenAICompatibilityAdapter :: providerMetadataAdapter where
  "newOpenAICompatibilityAdapter =
     \<lparr>ad_providerType = ''openai'',
      ad_fetch = (\<lambda>fetcher. case mf_FetchOpenAICompatibility fetcher of
          Inl err \<Rightarrow> Inl (wrap ''fetch openai compatibility: '' err)
        | Inr None \<Rightarrow> Inl (PlainError ''openai compatibility response is nil'')
        | Inr (Some payload) \<Rightarrow> Inr (concat (map openAIInputs payload)))\<rparr>"

text \<open>An adapter with an empty type is not registered.\<close>

definition newProviderMetadataRegistry :: "providerMetadataAdapter list \<Rightarrow> providerMetadataAdapter list" where
  "newProviderMetadataRegistry adapters = filter (\<lambda>a. trimSpace (ad_providerType a) \<noteq> []) adapters"

definition newDefaultProviderMetadataRegistry :: "providerMetadataAdapter list" where
  "newDefaultProviderMetadataRegistry = newProviderMetadataRegistry
     [newProviderKeyConfigAdapter ''gemini'' mf_FetchGeminiAPIKeys,
      newProviderKeyConfigAdapter ''claude'' mf_FetchClaudeAPIKeys,
      newProviderKeyConfigAdapter ''codex'' mf_FetchCodexAPIKeys,
      newProviderKeyConfigAdapter ''vertex'' mf_FetchVertexAPIKeys,
      newOpenAICompatibilityAdapter]"

definition joinErrors :: "goErr option list \<Rightarrow> goErr option" where
  "joinErrors errs =
     (let messages = map (\<lambda>e. trimSpace (errText e)) (List.map_filter (\<lambda>e. e) errs) in
      if length messages = 0 then None else Some (PlainError (join ''; '' messages)))"

text \<open>The first input of each auth index, over all adapters.\<close>

fun newInputs :: "string set \<Rightarrow> providerMetadataInput list \<Rightarrow> providerMetadataInput list" where
  "newInputs seen [] = []"
| "newInputs seen (input # rest) =
     (if pi_AuthIndex input \<in> seen then newInputs seen rest
      else input # newInputs (insert (pi_AuthIndex input) seen) rest)"

fun fetchFrom ::
  "string set \<Rightarrow> metadataFetcher \<Rightarrow> providerMetadataAdapter list
    \<Rightarrow> providerMetadataInput list \<times> string list \<times> goErr option list" where
  "fetchFrom seen fetcher [] = ([], [], [])"
| "fetchFrom seen fetcher (adapter # rest) =
     (case ad_fetch adapter fetcher of
        Inl err \<Rightarrow> (case fetchFrom seen fetcher rest of (inputs, types, errs) \<Rightarrow> (inputs, types, Some err # errs))
      | Inr found \<Rightarrow>
          (let new = newInputs seen found in
           case fetchFrom (seen \<union> pi_AuthIndex ` set found) fetcher rest of
             (inputs, types, errs) \<Rightarrow> (new @ inputs, ad_providerType adapter # types, errs)))"

definition fetchMetadata ::
  "providerMetadataAdapter list \<Rightarrow> metadataFetcher \<Rightarrow> providerMetadataInput list \<times> string list \<times> goErr option" where
  "fetchMetadata registry fetcher =
     (case fetchFrom {} fetcher registry of (inputs, types, errs) \<Rightarrow> (inputs, types, joinErrors errs))"

definition providerMetadataUsageIdentities :: "providerMetadataInput list \<Rightarrow> usageIdentity list" where
  "providerMetadataUsageIdentities inputs = map (\<lambda>input. emptyIdentity
     \<lparr>ui_Name := pi_DisplayName input, ui_AuthType := UsageIdentityAuthTypeAIProvider,
      ui_AuthTypeName := (case canonicalName UsageIdentityAuthTypeAIProvider of None \<Rightarrow> [] | Some n \<Rightarrow> n),
      ui_Identity := pi_AuthIndex input, ui_Type := pi_ProviderType input,
      ui_Provider := pi_DisplayName input, ui_LookupKey := pi_LookupKey input,
      ui_Prefix := pi_Prefix input, ui_BaseURL := pi_BaseURL input\<rparr>) inputs"

section \<open>Synchronisation\<close>

text \<open>\<open>describe\<close> is the text of an error of the database.\<close>

definition syncAuthFiles ::
  "(identityError \<Rightarrow> goErr) \<Rightarrow> passiveEnv \<Rightarrow> bool \<Rightarrow> instant \<Rightarrow> goErr + authFile list option \<Rightarrow> instant
    \<Rightarrow> identityTable \<Rightarrow> identityTable \<times> goErr option" where
  "syncAuthFiles describe env fault clock fetched now t =
     (case fetched of
        Inl err \<Rightarrow> (t, Some (wrap ''fetch auth files: '' err))
      | Inr None \<Rightarrow> (t, Some (PlainError ''fetch auth files: empty response''))
      | Inr (Some files) \<Rightarrow>
          (let identities = map (\<lambda>file. authFileUsageIdentity env file now) files in
           case replaceUsageIdentitiesForAuthType fault clock identities UsageIdentityAuthTypeAuthFile now t of
             (t', None) \<Rightarrow> (t', None)
           | (t', Some err) \<Rightarrow> (t', Some (wrap ''sync auth file usage identities: '' (describe err)))))"

text \<open>An error of the table, and a warning that some provider could not be fetched.\<close>

definition syncProviderMetadata ::
  "(identityError \<Rightarrow> goErr) \<Rightarrow> bool \<Rightarrow> instant \<Rightarrow> providerMetadataInput list \<Rightarrow> string list \<Rightarrow> goErr option \<Rightarrow> instant
    \<Rightarrow> identityTable \<Rightarrow> identityTable \<times> goErr option \<times> goErr option" where
  "syncProviderMetadata describe fault clock inputs fetchedProviderTypes fetchErr now t =
     (case replaceUsageIdentitiesForProviderTypes fault clock (providerMetadataUsageIdentities inputs)
        fetchedProviderTypes now t of
        (t', Some err) \<Rightarrow> (t', Some (wrap ''sync provider usage identities: '' (describe err)), None)
      | (t', None) \<Rightarrow> (t', None, map_option (wrap ''fetch provider metadata: '') fetchErr))"

record syncFaults =
  sf_auth :: bool
  sf_provider :: bool
  sf_aggregate :: bool

definition syncMetadata ::
  "(identityError \<Rightarrow> goErr) \<Rightarrow> passiveEnv \<Rightarrow> syncFaults \<Rightarrow> instant \<Rightarrow> providerMetadataAdapter list
    \<Rightarrow> metadataFetcher \<Rightarrow> instant \<Rightarrow> usageEvent list \<Rightarrow> identityTable \<Rightarrow> identityTable \<times> goErr option" where
  "syncMetadata describe env faults clock registry fetcher fetchedAt events t =
     (case fetchMetadata registry fetcher of (inputs, types, fetchErr) \<Rightarrow>
      case syncAuthFiles describe env (sf_auth faults) clock (mf_FetchAuthFiles fetcher) fetchedAt t of (t1, authErr) \<Rightarrow>
      case syncProviderMetadata describe (sf_provider faults) clock inputs types fetchErr fetchedAt t1 of
        (t2, providerErr, warning) \<Rightarrow>
      let upsertErr = joinErrors [authErr, providerErr] in
      case (if upsertErr = None then
              (case aggregateUsageIdentityStats (sf_aggregate faults) clock fetchedAt events t2 of
                 (t3, e) \<Rightarrow> (t3, map_option (\<lambda>e. wrap ''aggregate usage identity stats: '' (describe e)) e))
            else (t2, None)) of
        (t3, aggregateErr) \<Rightarrow> (t3, joinErrors [upsertErr, aggregateErr, warning]))"

section \<open>Runs\<close>

lemma authFile_unused: "unused (authFileUsageIdentity env file now)"
  by (simp add: authFileUsageIdentity_def baseAuthFileUsageIdentity_def extendCodexAuthFileUsageIdentity_def
      emptyIdentity_def unused_def identityCounts_def Let_def)

lemma provider_unused: "\<forall>i \<in> set (providerMetadataUsageIdentities inputs). unused i"
  by (simp add: providerMetadataUsageIdentities_def emptyIdentity_def unused_def identityCounts_def)

lemma syncAuthFiles_run:
  assumes "syncAuthFiles describe env fault clock fetched now (uw_identities w) = (t', err)"
  shows "usage_step\<^sup>*\<^sup>* w (w\<lparr>uw_identities := t'\<rparr>)"
proof (cases "\<exists>files. fetched = Inr (Some files)")
  case True
  then obtain files where files: "fetched = Inr (Some files)" by blast
  obtain e where "replaceUsageIdentitiesForAuthType fault clock (map (\<lambda>file. authFileUsageIdentity env file now) files)
      UsageIdentityAuthTypeAuthFile now (uw_identities w) = (t', e)"
    using assms files by (auto simp: syncAuthFiles_def Let_def split: prod.splits option.splits)
  from sync [OF this] have "usage_step w (w\<lparr>uw_identities := t'\<rparr>)" using authFile_unused by simp
  then show ?thesis by (rule r_into_rtranclp)
next
  case False
  then have "t' = uw_identities w" using assms by (auto simp: syncAuthFiles_def split: sum.splits option.splits)
  then show ?thesis by simp
qed

lemma syncProviderMetadata_run:
  assumes "syncProviderMetadata describe fault clock inputs types fetchErr now (uw_identities w) = (t', err, warning)"
  shows "usage_step w (w\<lparr>uw_identities := t'\<rparr>)"
proof -
  obtain e where "replaceUsageIdentitiesForProviderTypes fault clock (providerMetadataUsageIdentities inputs)
      types now (uw_identities w) = (t', e)"
    using assms by (auto simp: syncProviderMetadata_def split: prod.splits option.splits)
  from provider_sync [OF this] show ?thesis using provider_unused by simp
qed

lemma joinErrors_None [simp]: "joinErrors errs = None \<longleftrightarrow> (\<forall>e \<in> set errs. e = None)"
  by (induction errs) (auto simp: joinErrors_def Let_def split: option.splits if_splits)

lemma joinErrors_Some [simp]: "(\<exists>e. joinErrors errs = Some e) \<longleftrightarrow> (\<exists>e \<in> set errs. e \<noteq> None)"
  using joinErrors_None [of errs] by (metis not_None_eq)

text \<open>The three stages of a synchronisation.\<close>

lemma syncMetadata_stages:
  assumes "syncMetadata describe env faults clock registry fetcher now events t = (t', err)"
  obtains inputs types fetchErr t1 authErr t2 providerErr warning where
    "fetchMetadata registry fetcher = (inputs, types, fetchErr)"
    "syncAuthFiles describe env (sf_auth faults) clock (mf_FetchAuthFiles fetcher) now t = (t1, authErr)"
    "syncProviderMetadata describe (sf_provider faults) clock inputs types fetchErr now t1 = (t2, providerErr, warning)"
    "authErr = None \<and> providerErr = None \<and> t' = fst (aggregateUsageIdentityStats (sf_aggregate faults) clock now events t2) \<or>
     \<not> (authErr = None \<and> providerErr = None) \<and> t' = t2"
    "err = None \<longrightarrow> authErr = None \<and> providerErr = None \<and> warning = None \<and> \<not> sf_aggregate faults"
proof -
  obtain inputs types fetchErr where f: "fetchMetadata registry fetcher = (inputs, types, fetchErr)" by (metis prod_cases3)
  obtain t1 authErr where a: "syncAuthFiles describe env (sf_auth faults) clock (mf_FetchAuthFiles fetcher) now t = (t1, authErr)"
    by (metis surj_pair)
  obtain t2 providerErr warning where p: "syncProviderMetadata describe (sf_provider faults) clock inputs types fetchErr now t1
      = (t2, providerErr, warning)" by (metis prod_cases3)
  show thesis
    by (rule that [OF f a p])
      (use assms in \<open>auto simp: syncMetadata_def f a p Let_def aggregateUsageIdentityStats_def split: if_splits\<close>)
qed

text \<open>
  C26. A metadata synchronisation, whatever fails in it, is a run of the abstract steps on the
  identity table: so the counted usage stays that of the stored events, and after one that reports
  no error every identity, deleted or not, shows exactly the usage of all its stored events.
\<close>
theorem metadataSync_counts:
  assumes reach: "usage_reachable w" and short: "length (st_events (uw_store w)) < 2 ^ 64"
    and res: "syncMetadata describe env faults clock registry fetcher now (st_events (uw_store w)) (uw_identities w) = (t', err)"
  shows "usage_reachable (w\<lparr>uw_identities := t'\<rparr>) \<and>
    (err = None \<longrightarrow> (\<forall>i r. lookupRow t' i = Some r \<longrightarrow>
       (ui_TotalRequests r, ui_SuccessCount r, ui_FailureCount r, ui_FirstUsedAt r, ui_LastUsedAt r) =
         usageOf (identityEvents r (st_events (uw_store w)))))"
proof -
  obtain inputs types fetchErr t1 authErr t2 providerErr warning where
    auth: "syncAuthFiles describe env (sf_auth faults) clock (mf_FetchAuthFiles fetcher) now (uw_identities w) = (t1, authErr)"
    and provider: "syncProviderMetadata describe (sf_provider faults) clock inputs types fetchErr now t1 = (t2, providerErr, warning)"
    and last: "authErr = None \<and> providerErr = None \<and> t' = fst (aggregateUsageIdentityStats (sf_aggregate faults) clock now
       (st_events (uw_store w)) t2) \<or> \<not> (authErr = None \<and> providerErr = None) \<and> t' = t2"
    and err: "err = None \<longrightarrow> authErr = None \<and> providerErr = None \<and> warning = None \<and> \<not> sf_aggregate faults"
    by (rule syncMetadata_stages [OF res])
  let ?w1 = "w\<lparr>uw_identities := t1\<rparr>" and ?w2 = "w\<lparr>uw_identities := t2\<rparr>"
  have "usage_step ?w1 ?w2" using syncProviderMetadata_run [of describe _ _ _ _ _ _ ?w1] provider by simp
  with syncAuthFiles_run [OF auth] reach have reach2: "usage_reachable ?w2"
    unfolding usage_reachable_def by (meson rtranclp_trans rtranclp.rtrancl_into_rtrancl)
  have "usage_step ?w2 (w\<lparr>uw_identities := fst (aggregateUsageIdentityStats (sf_aggregate faults) clock now (st_events (uw_store w)) t2)\<rparr>)"
  proof -
    have "aggregateUsageIdentityStats (sf_aggregate faults) clock now (st_events (uw_store ?w2)) (uw_identities ?w2) =
        (fst (aggregateUsageIdentityStats (sf_aggregate faults) clock now (st_events (uw_store w)) t2),
         snd (aggregateUsageIdentityStats (sf_aggregate faults) clock now (st_events (uw_store w)) t2))" by simp
    from aggregate [OF this] short show ?thesis by simp
  qed
  with reach2 last have reach': "usage_reachable (w\<lparr>uw_identities := t'\<rparr>)"
    unfolding usage_reachable_def by (metis rtranclp.rtrancl_into_rtrancl)
  have "identityCounts r = usageOf (identityEvents r (st_events (uw_store w)))" if "err = None" "lookupRow t' i = Some r" for i r
    using aggregate_counts [OF usage_reachable_ok [OF reach2], of clock now i r] last err short that by simp
  with reach' show ?thesis by (simp add: identityCounts_def)
qed

section \<open>What a synchronisation changes\<close>

definition aggregatedRow :: "instant \<Rightarrow> instant \<Rightarrow> usageEvent list \<Rightarrow> usageIdentity \<Rightarrow> usageIdentity" where
  "aggregatedRow clock now events r =
     (let delta = aggregateUsageIdentityDelta events r in
      if sd_TotalRequests delta = 0 then r else withStats clock now r delta r)"

lemma aggregatedRow_sel [simp]:
  "ui_AuthType (aggregatedRow c n es r) = ui_AuthType r" "ui_Identity (aggregatedRow c n es r) = ui_Identity r"
  "ui_IsDeleted (aggregatedRow c n es r) = ui_IsDeleted r" "identityReport (aggregatedRow c n es r) = identityReport r"
  "sameIdentity a k (aggregatedRow c n es r) = sameIdentity a k r"
  by (simp_all add: aggregatedRow_def withStats_def Let_def identityReport_def sameIdentity_def)

lemma aggregate_map:
  assumes ok: "identityOK t" and t': "t' = fst (aggregateUsageIdentityStats fault clock now events t)"
  shows "identityOK t' \<and> (\<forall>a k. findIdentity t' a k =
    (if fault then findIdentity t a k else map_option (\<lambda>(i, r). (i, aggregatedRow clock now events r)) (findIdentity t a k)))"
proof (cases fault)
  case True
  with ok t' show ?thesis by (simp add: aggregateUsageIdentityStats_def)
next
  case False
  have table: "tableOK t" by (rule identityOK_table [OF ok])
  have fold_table: "tableOK (fold (aggregateOne clock now events) rows s)" if "tableOK s" for rows s
    using that by (induction rows arbitrary: s) (auto simp: aggregateOne_def Let_def updateWhere_ok)
  have table': "tableOK t'" using fold_table [OF table] t' False by (simp add: aggregateUsageIdentityStats_def)
  have look: "lookupRow t' i = map_option (aggregatedRow clock now events) (lookupRow t i)" for i
    using aggregate_lookup [OF table, of clock now events i] t' False
    by (simp add: aggregatedRow_def [abs_def])
  have ok': "identityOK t'" using ok table' unfolding identityOK_def look by fastforce
  have "findIdentity t' a k = Some (i, r') \<longleftrightarrow>
      map_option (\<lambda>(i, r). (i, aggregatedRow clock now events r)) (findIdentity t a k) = Some (i, r')" for a k i r'
    unfolding findIdentity_Some [OF ok'] look map_option_eq_Some
    by (auto simp: findIdentity_Some [OF ok])
  then have "findIdentity t' a k = map_option (\<lambda>(i, r). (i, aggregatedRow clock now events r)) (findIdentity t a k)" for a k
    by (intro option_eqI) auto
  with ok' False show ?thesis by simp
qed

lemma authFile_index: "ui_Identity (authFileUsageIdentity env file now) = af_AuthIndex file"
  by (simp add: authFileUsageIdentity_def baseAuthFileUsageIdentity_def extendCodexAuthFileUsageIdentity_def Let_def)

definition authIndexes :: "authFile list \<Rightarrow> string set" where
  "authIndexes files = trimSpace ` af_AuthIndex ` set files - {[]}"

lemma syncAuthFiles_map:
  assumes ok: "identityOK t" and res: "syncAuthFiles describe env False clock fetched now t = (t', err)"
  shows "identityOK t' \<and> (\<forall>k. findIdentity t' UsageIdentityAuthTypeAIProvider k = findIdentity t UsageIdentityAuthTypeAIProvider k) \<and>
    (case fetched of
       Inr (Some files) \<Rightarrow> err = None \<and> (\<forall>k. (\<exists>i r. findIdentity t' UsageIdentityAuthTypeAuthFile k = Some (i, r) \<and> \<not> ui_IsDeleted r)
         \<longleftrightarrow> k \<in> authIndexes files)
     | _ \<Rightarrow> err \<noteq> None \<and> t' = t)"
proof (cases "\<exists>files. fetched = Inr (Some files)")
  case True
  then obtain files where files: "fetched = Inr (Some files)" by blast
  let ?ids = "map (\<lambda>file. authFileUsageIdentity env file now) files"
  have ran: "replaceUsageIdentitiesForAuthType False clock ?ids UsageIdentityAuthTypeAuthFile now t = (t', None) \<and> err = None"
    using res files by (auto simp: syncAuthFiles_def Let_def replaceUsageIdentitiesForAuthType_def authTypeValid_def
        split: prod.splits)
  have idx: "reportedIndexes ?ids = authIndexes files"
    by (simp add: reportedIndexes_def authIndexes_def image_image authFile_index)
  obtain xs where kind: "\<forall>x \<in> set xs. ui_AuthType x = UsageIdentityAuthTypeAuthFile"
    and active: "\<forall>x \<in> set xs. ui_IsDeleted x = False" and dist: "distinct (map ui_Identity xs)"
    and keys: "ui_Identity ` set xs = authIndexes files" and ok': "identityOK t'"
    and final: "\<forall>b k. findIdentity t' b k = map_option (\<lambda>(i, r). (i, if ui_AuthType r = UsageIdentityAuthTypeAuthFile \<and>
       \<not> ui_IsDeleted r \<and> k \<notin> ui_Identity ` set xs then staleRow clock now r else r)) (findIdentity (fold (upsertIdentity clock) xs t) b k)"
    by (rule authSync_reports [OF ok conjunct1 [OF ran], unfolded idx]) (erule (5) that)
  note rows = synced_rows [OF ok kind dist final [rule_format]]
  note set_active = synced_active [OF ok kind dist active final [rule_format], unfolded keys]
  have "findIdentity t' UsageIdentityAuthTypeAIProvider k = findIdentity t UsageIdentityAuthTypeAIProvider k" for k
    by (rule rows(1)) (simp add: UsageIdentityAuthTypeAIProvider_def UsageIdentityAuthTypeAuthFile_def)
  then show ?thesis using ok' ran set_active unfolding files by simp
next
  case False
  with res ok show ?thesis by (auto simp: syncAuthFiles_def split: sum.splits option.splits)
qed

lemma fetchFrom_sets:
  assumes "fetchFrom seen fetcher registry = (inputs, types, errs)"
  shows "types = map ad_providerType (filter (\<lambda>a. \<not> isl (ad_fetch a fetcher)) registry) \<and>
    (errs = [] \<longleftrightarrow> (\<forall>a \<in> set registry. \<not> isl (ad_fetch a fetcher))) \<and> (\<forall>e \<in> set errs. e \<noteq> None)"
  using assms
proof (induction seen fetcher registry arbitrary: inputs types errs rule: fetchFrom.induct)
  case (2 seen fetcher adapter rest)
  show ?case
  proof (cases "ad_fetch adapter fetcher")
    case (Inl err)
    then show ?thesis using 2 by (auto split: prod.splits)
  next
    case (Inr found)
    then show ?thesis using 2(2) [OF Inr refl] 2(3) by (auto simp: Let_def split: prod.splits)
  qed
qed simp

lemma fetchMetadata_sets:
  assumes "fetchMetadata registry fetcher = (inputs, types, fetchErr)"
  shows "set types = ad_providerType ` {a \<in> set registry. \<not> isl (ad_fetch a fetcher)}"
    and "fetchErr = None \<longleftrightarrow> (\<forall>a \<in> set registry. \<not> isl (ad_fetch a fetcher))"
proof -
  obtain errs where f: "fetchFrom {} fetcher registry = (inputs, types, errs)" "fetchErr = joinErrors errs"
    using assms by (auto simp: fetchMetadata_def split: prod.splits)
  note sets = fetchFrom_sets [OF f(1)]
  then show "set types = ad_providerType ` {a \<in> set registry. \<not> isl (ad_fetch a fetcher)}" by auto
  show "fetchErr = None \<longleftrightarrow> (\<forall>a \<in> set registry. \<not> isl (ad_fetch a fetcher))"
    using sets f(2) by (cases errs) auto
qed

text \<open>
  The first report of an index by a provider that was fetched, and what it leaves in the table: the
  row of the index, the old one if there was one, is active and carries that report.
\<close>

definition reportFor :: "providerMetadataInput list \<Rightarrow> string \<Rightarrow> usageIdentity option" where
  "reportFor inputs k =
     (if k = [] then None
      else find (\<lambda>i. trimSpace (ui_Identity i) = k) (providerMetadataUsageIdentities inputs))"

definition reportedAs :: "identityTable \<Rightarrow> identityTable \<Rightarrow> string \<Rightarrow> usageIdentity \<Rightarrow> bool" where
  "reportedAs t t' k y \<longleftrightarrow>
     (\<exists>i r. findIdentity t' UsageIdentityAuthTypeAIProvider k = Some (i, r) \<and> \<not> ui_IsDeleted r \<and>
        identityReport r = identityReport (normalizedIdentity UsageIdentityAuthTypeAIProvider y) \<and>
        (\<forall>j q. findIdentity t UsageIdentityAuthTypeAIProvider k = Some (j, q) \<longrightarrow> i = j))"

lemma syncProviderMetadata_map:
  assumes ok: "identityOK t"
    and res: "syncProviderMetadata describe False clock inputs types fetchErr now t = (t', err, warning)"
  shows "identityOK t' \<and> err = None \<and> (warning = None \<longleftrightarrow> fetchErr = None) \<and>
    (\<forall>b k. b \<noteq> UsageIdentityAuthTypeAIProvider \<longrightarrow> findIdentity t' b k = findIdentity t b k) \<and>
    (\<forall>k i r. findIdentity t UsageIdentityAuthTypeAIProvider k = Some (i, r) \<longrightarrow> k \<notin> trimSpace ` pi_AuthIndex ` set inputs \<longrightarrow>
       ui_Type r \<notin> trimSpace ` set types \<longrightarrow> findIdentity t' UsageIdentityAuthTypeAIProvider k = Some (i, r)) \<and>
    (\<forall>k y. reportFor inputs k = Some y \<longrightarrow> reportedAs t t' k y)"
proof -
  let ?a = UsageIdentityAuthTypeAIProvider and ?ids = "providerMetadataUsageIdentities inputs"
  have ran: "replaceUsageIdentitiesForProviderTypes False clock ?ids types now t = (t', None) \<and> err = None \<and>
      (warning = None \<longleftrightarrow> fetchErr = None)"
    using res by (auto simp: syncProviderMetadata_def replaceUsageIdentitiesForProviderTypes_def Let_def
        split: prod.splits if_splits)
  have idx: "reportedIndexes ?ids = trimSpace ` pi_AuthIndex ` set inputs - {[]}"
    by (simp add: reportedIndexes_def providerMetadataUsageIdentities_def image_image)
  obtain xs where kind: "\<forall>x \<in> set xs. ui_AuthType x = ?a" and active: "\<forall>x \<in> set xs. ui_IsDeleted x = False"
    and dist: "distinct (map ui_Identity xs)" and keys: "ui_Identity ` set xs = trimSpace ` pi_AuthIndex ` set inputs - {[]}"
    and first: "\<forall>k y. k \<noteq> [] \<and> find (\<lambda>i. trimSpace (ui_Identity i) = k) ?ids = Some y \<longrightarrow>
       (\<exists>x \<in> set xs. ui_Identity x = k \<and> identityReport x = identityReport (normalizedIdentity ?a y))"
    and ok': "identityOK t'"
    and final: "\<forall>b k. findIdentity t' b k = map_option (\<lambda>(i, r). (i, if ui_AuthType r = ?a \<and>
       (\<not> ui_IsDeleted r \<and> ui_Type r \<in> trimSpace ` set types - {[]}) \<and> k \<notin> ui_Identity ` set xs
       then staleRow clock now r else r)) (findIdentity (fold (upsertIdentity clock) xs t) b k)"
    by (rule providerSync_reports [OF ok conjunct1 [OF ran], unfolded idx]) (erule (6) that)
  note rows = synced_rows [OF ok kind dist final [rule_format], unfolded keys]
  have "findIdentity t' ?a k = Some (i, r)"
    if "findIdentity t ?a k = Some (i, r)" "k \<notin> trimSpace ` pi_AuthIndex ` set inputs" "ui_Type r \<notin> trimSpace ` set types" for k i r
    using rows(2) [of k] that by auto
  moreover have "reportedAs t t' k y" if report: "reportFor inputs k = Some y" for k y
  proof -
    obtain x where x: "x \<in> set xs" "ui_Identity x = k" "identityReport x = identityReport (normalizedIdentity ?a y)"
      using first report by (auto simp: reportFor_def split: if_splits)
    obtain i where i: "findIdentity t' ?a k = Some (i, syncedRow clock x (findIdentity t ?a k))"
        "\<forall>j q. findIdentity t ?a k = Some (j, q) \<longrightarrow> i = j"
      using rows(3) [OF x(1)] x(2) by blast
    have "ui_IsDeleted (syncedRow clock x (findIdentity t ?a k)) = False"
      by (rule syncedRow_active) (use active x(1) in blast)
    with i x(3) show ?thesis unfolding reportedAs_def by (intro exI [of _ i] exI) auto
  qed
  ultimately show ?thesis using rows(1) ok' ran by simp
qed

lemma defaultRegistry_types:
  "map ad_providerType newDefaultProviderMetadataRegistry = [''gemini'', ''claude'', ''codex'', ''vertex'', ''openai'']"
  by code_simp

lemma trimSpace_types:
  "trimSpace ''gemini'' = ''gemini''" "trimSpace ''claude'' = ''claude''" "trimSpace ''codex'' = ''codex''"
  "trimSpace ''vertex'' = ''vertex''" "trimSpace ''openai'' = ''openai''"
  by code_simp+

text \<open>The types of the default registry are distinct and trimmed.\<close>

lemma failed_type:
  assumes "set types = ad_providerType ` {a \<in> set newDefaultProviderMetadataRegistry. \<not> isl (ad_fetch a fetcher)}"
    and "adapter \<in> set newDefaultProviderMetadataRegistry" "isl (ad_fetch adapter fetcher)"
  shows "ad_providerType adapter \<notin> trimSpace ` set types"
proof -
  let ?reg = newDefaultProviderMetadataRegistry
  have "distinct (map ad_providerType ?reg)" by (simp add: defaultRegistry_types)
  then have inj: "inj_on ad_providerType (set ?reg)" by (simp add: distinct_map)
  have trim: "trimSpace (ad_providerType a) = ad_providerType a" if "a \<in> set ?reg" for a
  proof -
    have "ad_providerType a \<in> set (map ad_providerType ?reg)" using that by simp
    then show ?thesis unfolding defaultRegistry_types set_simps insert_iff empty_iff by (elim disjE) (simp_all add: trimSpace_types)
  qed
  show ?thesis
  proof
    assume "ad_providerType adapter \<in> trimSpace ` set types"
    then obtain b where b: "b \<in> set ?reg" "\<not> isl (ad_fetch b fetcher)" "ad_providerType adapter = trimSpace (ad_providerType b)"
      using assms(1) by auto
    then have "adapter = b" using trim inj assms(2) by (auto dest: inj_onD)
    with b assms(3) show False by simp
  qed
qed

text \<open>The last stage keeps keys, reports and deletion marks.\<close>

definition keeps :: "identityTable \<Rightarrow> identityTable \<Rightarrow> bool" where
  "keeps t t' \<longleftrightarrow> (\<forall>a k. rel_option (\<lambda>(i, r) (i', r'). i' = i \<and> identityReport r' = identityReport r \<and>
     ui_IsDeleted r' = ui_IsDeleted r) (findIdentity t a k) (findIdentity t' a k))"

lemma keeps_Some:
  "keeps t t' \<Longrightarrow> findIdentity t a k = Some (i, r) \<Longrightarrow>
    \<exists>r'. findIdentity t' a k = Some (i, r') \<and> identityReport r' = identityReport r \<and> ui_IsDeleted r' = ui_IsDeleted r"
  by (auto simp: keeps_def option_rel_Some1 dest!: spec [of _ a] spec [of _ k])

lemma keeps_active:
  assumes "keeps t t'"
  shows "(\<exists>i r. findIdentity t' a k = Some (i, r) \<and> \<not> ui_IsDeleted r) \<longleftrightarrow> (\<exists>i r. findIdentity t a k = Some (i, r) \<and> \<not> ui_IsDeleted r)"
  using assms unfolding keeps_def
  by (cases "findIdentity t a k"; cases "findIdentity t' a k") (auto dest!: spec [of _ a] spec [of _ k])

lemma keeps_refl: "keeps t t"
  unfolding keeps_def by (intro allI option.rel_refl_strong) auto

lemma aggregate_keeps:
  assumes "identityOK t"
  shows "identityOK (fst (aggregateUsageIdentityStats fault clock now events t)) \<and>
    keeps t (fst (aggregateUsageIdentityStats fault clock now events t))"
  using aggregate_map [OF assms refl, of fault clock now events]
  by (auto simp: keeps_def option.rel_map option.rel_refl intro!: option.rel_refl)

text \<open>
  C25. What a metadata synchronisation changes when every statement succeeds. The active auth
  files are exactly the reported ones, or all untouched when the report could not be fetched; of a
  provider whose configuration could not be fetched, every identity with an index that none of the
  other providers reports keeps its row, its details and its deletion mark; an index that a fetched
  provider reports is active, in the row it had if there was one, whichever provider that belonged
  to, with the details of the first report of it; and no error is returned exactly when everything
  was fetched.
\<close>
theorem metadataSync_frame:
  assumes ok: "identityOK t"
    and res: "syncMetadata describe env \<lparr>sf_auth = False, sf_provider = False, sf_aggregate = False\<rparr> clock
      newDefaultProviderMetadataRegistry fetcher now events t = (t', err)"
  shows "identityOK t' \<and>
    (case mf_FetchAuthFiles fetcher of
       Inr (Some files) \<Rightarrow> (\<forall>k. (\<exists>i r. findIdentity t' UsageIdentityAuthTypeAuthFile k = Some (i, r) \<and> \<not> ui_IsDeleted r)
         \<longleftrightarrow> k \<in> trimSpace ` af_AuthIndex ` set files - {[]})
     | _ \<Rightarrow> (\<forall>k. findIdentity t' UsageIdentityAuthTypeAuthFile k = findIdentity t UsageIdentityAuthTypeAuthFile k)) \<and>
    (\<forall>adapter \<in> set newDefaultProviderMetadataRegistry. isl (ad_fetch adapter fetcher) \<longrightarrow>
       (\<forall>k i r. findIdentity t UsageIdentityAuthTypeAIProvider k = Some (i, r) \<longrightarrow> ui_Type r = ad_providerType adapter \<longrightarrow>
          k \<notin> trimSpace ` pi_AuthIndex ` set (fst (fetchMetadata newDefaultProviderMetadataRegistry fetcher)) \<longrightarrow>
          (\<exists>r'. findIdentity t' UsageIdentityAuthTypeAIProvider k = Some (i, r') \<and>
             identityReport r' = identityReport r \<and> ui_IsDeleted r' = ui_IsDeleted r))) \<and>
    (\<forall>k y. reportFor (fst (fetchMetadata newDefaultProviderMetadataRegistry fetcher)) k = Some y \<longrightarrow>
       reportedAs t t' k y) \<and>
    (err = None \<longleftrightarrow> (\<exists>files. mf_FetchAuthFiles fetcher = Inr (Some files)) \<and>
       (\<forall>adapter \<in> set newDefaultProviderMetadataRegistry. \<not> isl (ad_fetch adapter fetcher)))"
proof -
  let ?reg = newDefaultProviderMetadataRegistry and ?a = UsageIdentityAuthTypeAuthFile and ?p = UsageIdentityAuthTypeAIProvider
  have kinds: "?p \<noteq> ?a" by (simp add: UsageIdentityAuthTypeAIProvider_def UsageIdentityAuthTypeAuthFile_def)
  obtain inputs types fetchErr where f: "fetchMetadata ?reg fetcher = (inputs, types, fetchErr)" by (metis prod_cases3)
  obtain t1 authErr where a: "syncAuthFiles describe env False clock (mf_FetchAuthFiles fetcher) now t = (t1, authErr)"
    by (metis surj_pair)
  obtain t2 providerErr warning where p: "syncProviderMetadata describe False clock inputs types fetchErr now t1
      = (t2, providerErr, warning)" by (metis prod_cases3)
  note auth = syncAuthFiles_map [OF ok a]
  note provider = syncProviderMetadata_map [OF conjunct1 [OF auth] p]
  have t': "t' = (if authErr = None then fst (aggregateUsageIdentityStats False clock now events t2) else t2)"
    and err: "err = None \<longleftrightarrow> authErr = None \<and> warning = None"
    using res provider by (auto simp: syncMetadata_def f a p Let_def aggregateUsageIdentityStats_def split: if_splits)
  have last: "identityOK t' \<and> keeps t2 t'"
    unfolding t' using aggregate_keeps [of t2 False clock now events] provider keeps_refl by simp
  note types = fetchMetadata_sets [OF f]
  have files: "case mf_FetchAuthFiles fetcher of
       Inr (Some files) \<Rightarrow> (\<forall>k. (\<exists>i r. findIdentity t' ?a k = Some (i, r) \<and> \<not> ui_IsDeleted r) \<longleftrightarrow> k \<in> trimSpace ` af_AuthIndex ` set files - {[]})
     | _ \<Rightarrow> (\<forall>k. findIdentity t' ?a k = findIdentity t ?a k)"
    using auth provider kinds keeps_active [OF conjunct2 [OF last]]
    by (auto simp: t' authIndexes_def split: sum.splits option.splits if_splits)
  have failed: "\<exists>r'. findIdentity t' ?p k = Some (i, r') \<and> identityReport r' = identityReport r \<and> ui_IsDeleted r' = ui_IsDeleted r"
    if "adapter \<in> set ?reg" "isl (ad_fetch adapter fetcher)" "findIdentity t ?p k = Some (i, r)"
      "ui_Type r = ad_providerType adapter" "k \<notin> trimSpace ` pi_AuthIndex ` set inputs" for adapter k i r
  proof -
    have "findIdentity t1 ?p k = Some (i, r)" using auth that(3) by simp
    moreover have "ui_Type r \<notin> trimSpace ` set types" using failed_type [OF types(1) that(1,2)] that(4) by simp
    ultimately have "findIdentity t2 ?p k = Some (i, r)" using provider that(5) by simp
    then show ?thesis by (rule keeps_Some [OF conjunct2 [OF last]])
  qed
  have reported: "reportedAs t t' k y" if "reportFor inputs k = Some y" for k y
  proof -
    have "reportedAs t1 t2 k y" using provider that by blast
    then obtain i r where ir: "findIdentity t2 ?p k = Some (i, r)" "\<not> ui_IsDeleted r"
        "identityReport r = identityReport (normalizedIdentity ?p y)"
        "\<forall>j q. findIdentity t ?p k = Some (j, q) \<longrightarrow> i = j"
      using auth unfolding reportedAs_def by auto
    from keeps_Some [OF conjunct2 [OF last] ir(1)] ir show ?thesis unfolding reportedAs_def by auto
  qed
  have "authErr = None \<longleftrightarrow> (\<exists>files. mf_FetchAuthFiles fetcher = Inr (Some files))"
    using auth by (auto split: sum.splits option.splits)
  moreover have "warning = None \<longleftrightarrow> (\<forall>adapter \<in> set ?reg. \<not> isl (ad_fetch adapter fetcher))"
    using provider types(2) by simp
  ultimately show ?thesis using last files failed reported err f by simp
qed

section \<open>Concrete values\<close>

definition exampleFile :: authFile where
  "exampleFile =
     \<lparr>af_ID = [], af_AuthIndex = ''a'', af_Name = ''n'', af_Email = [], af_Type = ''codex'', af_Provider = ''codex'', af_Label = [],
      af_Status = Some ''Active'', af_Disabled = False, af_Unavailable = None, af_LastRefresh = None,
      af_NextRetryAfter = None, af_RequiresSignIn = None, af_RenewalState = None, af_RecoveryStage = None,
      af_AccessTokenExpiresAt = None, af_NextRefreshAfter = None, af_NextAction = None, af_RecoveryHint = None,
      af_RefreshError = None, af_Quota = None, af_ModelQuotas = [], af_Account = [], af_Metadata = [],
      af_Attributes = [], af_ProjectID = [], af_ProjectIDCamel = [], af_IDToken = None\<rparr>"

text \<open>One auth file is reported and one provider cannot be fetched.\<close>

definition exampleFetcher :: metadataFetcher where
  "exampleFetcher =
     \<lparr>mf_FetchAuthFiles = Inr (Some [exampleFile]), mf_FetchGeminiAPIKeys = Inl ContextCanceled,
      mf_FetchClaudeAPIKeys = Inr (Some []), mf_FetchCodexAPIKeys = Inr (Some []),
      mf_FetchVertexAPIKeys = Inr (Some []), mf_FetchOpenAICompatibility = Inr (Some [])\<rparr>"

definition exampleSync :: "identityTable \<times> goErr option" where
  "exampleSync = syncMetadata (\<lambda>e. PlainError ''database'')
     \<lparr>pv_float = (\<lambda>s. None), pv_rfc3339 = (\<lambda>s. None), pv_httpTime = (\<lambda>s. None)\<rparr>
     \<lparr>sf_auth = False, sf_provider = False, sf_aggregate = False\<rparr> 5 newDefaultProviderMetadataRegistry exampleFetcher 5
     (st_events (uw_store emptyWorld)) (uw_identities emptyWorld)"

lemma metadataSync_counts_witness:
  "usage_reachable (emptyWorld\<lparr>uw_identities := fst exampleSync\<rparr>)"
proof -
  have "usage_reachable emptyWorld" by (simp add: usage_reachable_def)
  moreover have "length (st_events (uw_store emptyWorld)) < 2 ^ 64" by (simp add: emptyWorld_def emptyStore_def)
  ultimately show ?thesis
    using metadataSync_counts [OF _ _ prod.collapse [symmetric, of exampleSync, unfolded exampleSync_def]]
    unfolding exampleSync_def by blast
qed

lemma metadataSync_frame_witness:
  "(\<exists>i r. findIdentity (fst exampleSync) UsageIdentityAuthTypeAuthFile ''a'' = Some (i, r) \<and> \<not> ui_IsDeleted r) \<and>
   snd exampleSync \<noteq> None"
proof -
  have ok: "identityOK (uw_identities emptyWorld)" by (simp add: emptyWorld_def identityOK_empty)
  have index: "''a'' \<in> trimSpace ` af_AuthIndex ` set [exampleFile] - {[]}"
    by (simp add: exampleFile_def trimSpace_a)
  have "isl (ad_fetch (newProviderKeyConfigAdapter ''gemini'' mf_FetchGeminiAPIKeys) exampleFetcher)"
    by (simp add: newProviderKeyConfigAdapter_def exampleFetcher_def)
  moreover have "newProviderKeyConfigAdapter ''gemini'' mf_FetchGeminiAPIKeys \<in> set newDefaultProviderMetadataRegistry"
    by (simp add: newDefaultProviderMetadataRegistry_def newProviderMetadataRegistry_def newProviderKeyConfigAdapter_def
        trimSpace_types)
  ultimately show ?thesis
    using metadataSync_frame [OF ok prod.collapse [symmetric, of exampleSync, unfolded exampleSync_def]] index
    unfolding exampleSync_def [symmetric] by (auto simp: exampleFetcher_def)
qed

section \<open>Switching an account\<close>

definition ErrUsageIdentityMissing :: goErr where "ErrUsageIdentityMissing = PlainError ''usage identity not found''"
definition ErrIdentityNotAuthFile :: goErr where "ErrIdentityNotAuthFile = PlainError ''identity is not an auth-file account''"
definition ErrAuthFileNotFoundInCPA :: goErr where "ErrAuthFileNotFoundInCPA = PlainError ''auth file not found in CPA''"
definition ErrAccountStatusRefresh :: goErr where
  "ErrAccountStatusRefresh = PlainError ''account status refresh failed after CPA accepted the change''"

text \<open>The answers of CPA, before and after the change, and the faults of the database.\<close>

record authFileStatusClient =
  ac_fetchBefore :: "string \<Rightarrow> goErr + authFile option"
  ac_setDisabled :: "string \<Rightarrow> bool \<Rightarrow> goErr option"
  ac_fetchAfter :: "string \<Rightarrow> goErr + authFile option"

record accountFaults =
  cf_load :: "goErr option"
  cf_disable :: "goErr option"
  cf_state :: "goErr option"

definition refreshError :: "string \<Rightarrow> goErr \<Rightarrow> goErr" where
  "refreshError text err = WrapError (errText ErrAccountStatusRefresh @ '': '' @ text @ errText err) [ErrAccountStatusRefresh, err]"

text \<open>
  After CPA accepted the change: the flag is stored, then CPA's state is read back. A fault of a
  statement leaves the table as it was.
\<close>

definition storeDisabled ::
  "(identityError \<Rightarrow> goErr) \<Rightarrow> accountFaults \<Rightarrow> instant \<Rightarrow> nat \<Rightarrow> bool \<Rightarrow> identityTable \<Rightarrow> identityTable \<times> goErr option" where
  "storeDisabled describe faults now1 identityID disabled t =
     (case cf_disable faults of
        Some err \<Rightarrow> (t, Some err)
      | None \<Rightarrow> (case setUsageIdentityDisabled identityID disabled now1 t of (t', e) \<Rightarrow> (t', map_option describe e)))"

definition storeState ::
  "(identityError \<Rightarrow> goErr) \<Rightarrow> accountFaults \<Rightarrow> instant \<Rightarrow> nat \<Rightarrow> authFile \<Rightarrow> identityTable \<Rightarrow> identityTable \<times> goErr option" where
  "storeState describe faults now2 identityID file t =
     (case cf_state faults of
        Some err \<Rightarrow> (t, Some err)
      | None \<Rightarrow> (case updateUsageIdentityAuthFileState identityID (baseAuthFileUsageIdentity file now2) t of
          (t', e) \<Rightarrow> (t', map_option describe e)))"

definition confirmSwitch ::
  "(identityError \<Rightarrow> goErr) \<Rightarrow> accountFaults \<Rightarrow> authFileStatusClient \<Rightarrow> instant \<Rightarrow> instant \<Rightarrow> nat \<Rightarrow> string \<Rightarrow> bool
    \<Rightarrow> identityTable \<Rightarrow> identityTable \<times> goErr option" where
  "confirmSwitch describe faults client now1 now2 identityID authIndex disabled t =
     (case storeDisabled describe faults now1 identityID disabled t of
        (t1, Some err) \<Rightarrow> (t1, Some (refreshError ''persist disabled: '' err))
      | (t1, None) \<Rightarrow>
     (case ac_fetchAfter client authIndex of
        Inl err \<Rightarrow> (t1, Some (refreshError ''read auth file: '' err))
      | Inr None \<Rightarrow> (t1, Some (refreshError [] ErrAuthFileNotFoundInCPA))
      | Inr (Some file) \<Rightarrow>
     (case storeState describe faults now2 identityID file t1 of
        (t2, Some err) \<Rightarrow> (t2, Some (refreshError [] err))
      | (t2, None) \<Rightarrow>
          if af_Disabled file \<noteq> disabled
          then (t2, Some (WrapError (errText ErrAccountStatusRefresh @ '': observed disabled flag differs from request'')
                  [ErrAccountStatusRefresh]))
          else (t2, None))))"

text \<open>The result is the table, the changes CPA was asked for and the error.\<close>

definition setIdentityDisabled ::
  "(identityError \<Rightarrow> goErr) \<Rightarrow> accountFaults \<Rightarrow> authFileStatusClient \<Rightarrow> instant \<Rightarrow> instant \<Rightarrow> nat \<Rightarrow> bool
    \<Rightarrow> identityTable \<Rightarrow> identityTable \<times> (string \<times> bool) list \<times> goErr option" where
  "setIdentityDisabled describe faults client now1 now2 identityID disabled t =
     (case cf_load faults of
        Some err \<Rightarrow> (t, [], Some (wrap ''load usage identity: '' err))
      | None \<Rightarrow>
     (case getUsageIdentityByID identityID t of
        None \<Rightarrow> (t, [], Some ErrUsageIdentityMissing)
      | Some identity \<Rightarrow>
     (if ui_AuthType identity \<noteq> UsageIdentityAuthTypeAuthFile then (t, [], Some ErrIdentityNotAuthFile)
      else
     (case ac_fetchBefore client (ui_Identity identity) of
        Inl err \<Rightarrow> (t, [], Some (wrap ''resolve auth file name: '' err))
      | Inr None \<Rightarrow> (t, [], Some ErrAuthFileNotFoundInCPA)
      | Inr (Some file) \<Rightarrow>
     (let calls = [(af_Name file, disabled)] in
      case ac_setDisabled client (af_Name file) disabled of
        Some err \<Rightarrow> (t, calls, Some (wrap ''set auth file disabled: '' err))
      | None \<Rightarrow>
      case confirmSwitch describe faults client now1 now2 identityID (ui_Identity identity) disabled t of
        (t', err) \<Rightarrow> (t', calls, err))))))"

text \<open>What a switch may not touch of a row.\<close>

definition accountKept :: "usageIdentity \<Rightarrow> usageIdentity \<Rightarrow> bool" where
  "accountKept r r' \<longleftrightarrow> identityUsage r' = identityUsage r \<and> ui_AuthType r' = ui_AuthType r \<and>
     ui_Identity r' = ui_Identity r \<and> ui_IsDeleted r' = ui_IsDeleted r \<and> ui_Name r' = ui_Name r \<and>
     ui_PassiveQuota r' = ui_PassiveQuota r \<and> ui_PassiveModelQuotas r' = ui_PassiveModelQuotas r"

definition switchedOnly :: "nat \<Rightarrow> identityTable \<Rightarrow> identityTable \<Rightarrow> bool" where
  "switchedOnly i t t' \<longleftrightarrow> (\<forall>j. j \<noteq> i \<longrightarrow> lookupRow t' j = lookupRow t j) \<and>
     rel_option accountKept (lookupRow t i) (lookupRow t' i)"

lemma switchedOnly_refl: "switchedOnly i t t"
  by (auto simp: switchedOnly_def accountKept_def intro: option.rel_refl_strong)

lemma switchedOnly_trans: "switchedOnly i t u \<Longrightarrow> switchedOnly i u v \<Longrightarrow> switchedOnly i t v"
  by (auto simp: switchedOnly_def option.rel_sel accountKept_def)

lemma lookup_update_one:
  "lookupRow (updateWhere (\<lambda>j _. j = i) (\<lambda>_. f) t) j = (if j = i then map_option f (lookupRow t i) else lookupRow t j)"
  using lookup_updateWhere [of "\<lambda>j _. j = i" "\<lambda>_. f" t j] by (cases "lookupRow t j") (auto split: if_splits)

lemma refreshError_is: "errIs (refreshError text err) ErrAccountStatusRefresh"
  by (simp add: refreshError_def ErrAccountStatusRefresh_def)

lemma account_error_is: "errIs (WrapError text (ErrAccountStatusRefresh # es)) ErrAccountStatusRefresh"
  by (simp add: ErrAccountStatusRefresh_def)

lemma storeDisabled_spec:
  assumes "storeDisabled describe faults now1 i disabled t = (t', err)"
  shows "switchedOnly i t t' \<and> (err = None \<longrightarrow> (\<exists>r'. lookupRow t' i = Some r' \<and> ui_Disabled r' = disabled))"
  using assms switchedOnly_refl
  by (auto simp: storeDisabled_def setUsageIdentityDisabled_def switchedOnly_def lookup_update_one accountKept_def
      identityUsage_def option.rel_map split: option.splits if_splits)

lemma storeState_spec:
  assumes "storeState describe faults now2 i file t = (t', err)"
  shows "switchedOnly i t t' \<and> (err = None \<longrightarrow> (\<exists>r'. lookupRow t' i = Some r' \<and> ui_Disabled r' = af_Disabled file))"
  using assms switchedOnly_refl
  by (auto simp: storeState_def updateUsageIdentityAuthFileState_def switchedOnly_def lookup_update_one accountKept_def
      identityUsage_def baseAuthFileUsageIdentity_def option.rel_map split: option.splits if_splits)

lemma confirmSwitch_spec:
  assumes "confirmSwitch describe faults client now1 now2 i authIndex disabled t = (t', err)"
  shows "switchedOnly i t t' \<and> (err = None \<longrightarrow> (\<exists>r'. lookupRow t' i = Some r' \<and> ui_Disabled r' = disabled)) \<and>
    (\<forall>e. err = Some e \<longrightarrow> errIs e ErrAccountStatusRefresh)"
  using assms
  by (auto simp: confirmSwitch_def refreshError_is account_error_is simp del: errIs.simps split: option.splits sum.splits prod.splits if_splits
      dest!: storeDisabled_spec storeState_spec dest: switchedOnly_trans)

text \<open>
  C27. Switching an account touches its row alone, and there neither its usage nor its identity nor
  its quota snapshots; before CPA has accepted the change nothing at all; success means that the
  stored flag is the requested one; and every error after CPA has accepted says so.
\<close>
theorem account_switch_safe:
  assumes "setIdentityDisabled describe faults client now1 now2 i disabled t = (t', calls, err)"
  shows "(\<forall>j. j \<noteq> i \<longrightarrow> lookupRow t' j = lookupRow t j) \<and> rel_option accountKept (lookupRow t i) (lookupRow t' i) \<and>
    (t' \<noteq> t \<or> err = None \<longrightarrow> (\<exists>name. calls = [(name, disabled)] \<and> ac_setDisabled client name disabled = None)) \<and>
    (err = None \<longrightarrow> (\<exists>r. lookupRow t' i = Some r \<and> ui_Disabled r = disabled \<and> ui_AuthType r = UsageIdentityAuthTypeAuthFile)) \<and>
    (\<forall>name e. calls = [(name, disabled)] \<and> ac_setDisabled client name disabled = None \<and> err = Some e \<longrightarrow>
       errIs e ErrAccountStatusRefresh)"
proof (cases "\<exists>name. calls = [(name, disabled)] \<and> ac_setDisabled client name disabled = None")
  case True
  then obtain r where r: "lookupRow t i = Some r" "ui_AuthType r = UsageIdentityAuthTypeAuthFile"
    and confirm: "confirmSwitch describe faults client now1 now2 i (ui_Identity r) disabled t = (t', err)"
    using assms by (auto simp: setIdentityDisabled_def getUsageIdentityByID_def Let_def
        split: option.splits sum.splits if_splits prod.splits)
  from confirmSwitch_spec [OF confirm] r True show ?thesis
    by (auto simp: switchedOnly_def accountKept_def option_rel_Some1)
next
  case False
  then have "t' = t \<and> err \<noteq> None \<and> (\<forall>name. calls = [(name, disabled)] \<longrightarrow> ac_setDisabled client name disabled \<noteq> None)"
    using assms by (auto simp: setIdentityDisabled_def Let_def split: option.splits sum.splits if_splits prod.splits)
  with switchedOnly_refl [of i t] show ?thesis by (auto simp: switchedOnly_def)
qed

definition exampleAccounts :: identityTable where
  "exampleAccounts = \<lparr>tbl_rows = [(1, (account ''a'')\<lparr>ui_AuthType := UsageIdentityAuthTypeAuthFile\<rparr>)], tbl_next = 2\<rparr>"

text \<open>CPA accepts the change and then reports the account as disabled.\<close>

definition exampleSwitch :: "identityTable \<times> (string \<times> bool) list \<times> goErr option" where
  "exampleSwitch = setIdentityDisabled (\<lambda>e. PlainError ''database'') \<lparr>cf_load = None, cf_disable = None, cf_state = None\<rparr>
     \<lparr>ac_fetchBefore = (\<lambda>k. Inr (Some exampleFile)), ac_setDisabled = (\<lambda>name disabled. None),
      ac_fetchAfter = (\<lambda>k. Inr (Some (exampleFile\<lparr>af_Disabled := True\<rparr>)))\<rparr> 5 6 1 True exampleAccounts"

lemma account_switch_safe_witness:
  "\<exists>r. lookupRow (fst exampleSwitch) 1 = Some r \<and> ui_Disabled r"
proof -
  have err: "snd (snd exampleSwitch) = None" by code_simp
  have res: "exampleSwitch = (fst exampleSwitch, fst (snd exampleSwitch), snd (snd exampleSwitch))" by simp
  from account_switch_safe [OF res [unfolded exampleSwitch_def]] err show ?thesis
    unfolding exampleSwitch_def by blast
qed

end
