(* ===== verification/ModelSupport.thy ===== *)
theory ModelSupport
  imports MetadataSync
begin

text \<open>
  The model support of a selection of accounts (\<open>service/model_support.go\<close>): what models CPA has
  registered for each account, what the static catalogue of its channel says of them, and how many
  accounts of the selection support each model. The goroutines of \<open>runBounded\<close> each run one index and
  write one slot, so the result is that of a loop over the indexes; the answers of CPA are arguments.
\<close>

section \<open>Requests and answers\<close>

definition ModelSupportMaxAccounts :: nat where "ModelSupportMaxAccounts = 12"
definition ModelSupportMaxConcurrency :: nat where "ModelSupportMaxConcurrency = 4"
definition ModelSupportTimeout :: duration where "ModelSupportTimeout = 15 * second"
definition ModelSupportMaxRequestsPerItem :: nat where "ModelSupportMaxRequestsPerItem = 3"

record registeredModel =
  rm_ID :: string
  rm_DisplayName :: string
  rm_Type :: string
  rm_OwnedBy :: string

record thinkingSupport =
  th_Min :: "int option"
  th_Max :: "int option"
  th_ZeroAllowed :: "bool option"
  th_DynamicAllowed :: "bool option"
  th_Levels :: "string list"

record staticModelDefinition =
  sm_ID :: string
  sm_DisplayName :: string
  sm_ContextLength :: "int option"
  sm_InputTokenLimit :: "int option"
  sm_MaxCompletionTokens :: "int option"
  sm_OutputTokenLimit :: "int option"
  sm_SupportedInputModalities :: "string list"
  sm_SupportedOutputModalities :: "string list"
  sm_Thinking :: "thinkingSupport option"

text \<open>A missing result, and a result whose list of models is \<open>nil\<close>, are \<open>None\<close>.\<close>

record modelSupportClient =
  mc_FetchAuthFileByAuthIndex :: "string \<Rightarrow> goErr + authFile option"
  mc_FetchAuthFileModels :: "string \<Rightarrow> goErr + registeredModel list option option"
  mc_FetchStaticModelDefinitions :: "string \<Rightarrow> goErr + (string \<times> staticModelDefinition list option) option"

record modelSupportLimits =
  ml_MaxAccounts :: nat
  ml_MaxConcurrency :: nat
  ml_TimeoutSeconds :: int
  ml_MaxUpstreamRequests :: nat

record modelCapability =
  cp_ContextLength :: "int option"
  cp_InputTokenLimit :: "int option"
  cp_MaxCompletionTokens :: "int option"
  cp_OutputTokenLimit :: "int option"
  cp_SupportedInputModalities :: "string list"
  cp_SupportedOutputModalities :: "string list"
  cp_Thinking :: "thinkingSupport option"

record registeredModelSupport =
  rs_ID :: string
  rs_DisplayName :: string
  rs_Type :: string
  rs_OwnedBy :: string
  rs_DefinitionStatus :: string
  rs_Capability :: "modelCapability option"

record accountModelSupport =
  as_IdentityID :: nat
  as_AuthIndex :: string
  as_DisplayName :: string
  as_Provider :: string
  as_Channel :: string
  as_Disabled :: bool
  as_Unavailable :: "bool option"
  as_Status :: string
  as_ErrorCode :: string
  as_CatalogStatus :: string
  as_RegisteredModels :: "registeredModelSupport list"

record modelSupportCoverage =
  cv_ModelID :: string
  cv_DisplayName :: string
  cv_ObservedSupportingAccounts :: nat
  cv_SelectedAccounts :: nat
  cv_SingleRegisteredAccountInScope :: "bool option"

record modelSupportResult =
  ms_Complete :: bool
  ms_SelectedCount :: nat
  ms_LoadedCount :: nat
  ms_Accounts :: "accountModelSupport list"
  ms_Models :: "modelSupportCoverage list"
  ms_Limits :: modelSupportLimits

definition defaultModelSupportLimits :: modelSupportLimits where
  "defaultModelSupportLimits =
     \<lparr>ml_MaxAccounts = ModelSupportMaxAccounts, ml_MaxConcurrency = ModelSupportMaxConcurrency,
      ml_TimeoutSeconds = ModelSupportTimeout div second,
      ml_MaxUpstreamRequests = ModelSupportMaxAccounts * ModelSupportMaxRequestsPerItem\<rparr>"

section \<open>The selection\<close>

definition ErrModelSupportScopeRequired :: goErr where
  "ErrModelSupportScopeRequired = PlainError ''model support account scope is required''"
definition ErrModelSupportScopeTooLarge :: goErr where
  "ErrModelSupportScopeTooLarge = PlainError ''model support account scope is too large''"
definition ErrModelSupportScopeInvalid :: goErr where
  "ErrModelSupportScopeInvalid = PlainError ''model support account scope is invalid''"

definition scopeError :: "goErr \<Rightarrow> string \<Rightarrow> goErr" where
  "scopeError err text = WrapError (errText err @ '': '' @ text) [err]"

fun checkScope :: "nat set \<Rightarrow> nat list \<Rightarrow> goErr + nat list" where
  "checkScope seen [] = Inr []"
| "checkScope seen (i # rest) =
     (if i = 0 then Inl (scopeError ErrModelSupportScopeInvalid ''account id must be positive'')
      else if i \<in> seen then Inl (scopeError ErrModelSupportScopeInvalid (''duplicate account id '' @ nat_digits i))
      else (case checkScope (insert i seen) rest of Inl err \<Rightarrow> Inl err | Inr ids \<Rightarrow> Inr (i # ids)))"

definition validateModelSupportScope :: "nat list \<Rightarrow> goErr + nat list" where
  "validateModelSupportScope raw =
     (if length raw = 0 then Inl ErrModelSupportScopeRequired
      else if ModelSupportMaxAccounts < length raw
        then Inl (scopeError ErrModelSupportScopeTooLarge
               (''select at most '' @ nat_digits ModelSupportMaxAccounts @ '' accounts''))
      else checkScope {} raw)"

text \<open>\<open>fault\<close>: the query of an identity fails.\<close>

fun loadModelSupportIdentities ::
  "(nat \<Rightarrow> goErr option) \<Rightarrow> identityTable \<Rightarrow> nat list \<Rightarrow> goErr + (nat \<times> usageIdentity) list" where
  "loadModelSupportIdentities fault t [] = Inr []"
| "loadModelSupportIdentities fault t (i # ids) =
     (case fault i of
        Some err \<Rightarrow> Inl (wrap (''load model support account '' @ nat_digits i @ '': '') err)
      | None \<Rightarrow> (case getUsageIdentityByID i t of
          None \<Rightarrow> Inl (scopeError ErrModelSupportScopeInvalid (''account '' @ nat_digits i @ '' was not found''))
        | Some identity \<Rightarrow>
            if ui_IsDeleted identity \<or> ui_AuthType identity \<noteq> UsageIdentityAuthTypeAuthFile \<or>
               trimSpace (ui_Identity identity) = []
            then Inl (scopeError ErrModelSupportScopeInvalid
                   (''account '' @ nat_digits i @ '' is not an active auth-file identity''))
            else (case loadModelSupportIdentities fault t ids of
                Inl err \<Rightarrow> Inl err | Inr rest \<Rightarrow> Inr ((i, identity) # rest))))"

section \<open>Accounts\<close>

definition modelDefinitionChannel :: "string \<Rightarrow> string option" where
  "modelDefinitionChannel providerType =
     (let t = toLower (trimSpace providerType) in
      if t = ''claude'' then Some ''claude''
      else if t = ''gemini'' \<or> t = ''gemini-cli'' then Some ''gemini''
      else if t = ''gemini-interactions'' then Some ''gemini-interactions''
      else if t = ''vertex'' then Some ''vertex''
      else if t = ''aistudio'' then Some ''aistudio''
      else if t = ''codex'' then Some ''codex''
      else if t = ''kimi'' then Some ''kimi''
      else if t = ''antigravity'' then Some ''antigravity''
      else if t = ''xai'' \<or> t = ''x-ai'' \<or> t = ''grok'' then Some ''xai''
      else None)"

fun registeredFrom :: "string set \<Rightarrow> registeredModel list \<Rightarrow> registeredModelSupport list option" where
  "registeredFrom seen [] = Some []"
| "registeredFrom seen (item # rest) =
     (let i = trimSpace (rm_ID item) in
      if i = [] then None
      else if i \<in> seen then registeredFrom seen rest
      else map_option (\<lambda>models.
          \<lparr>rs_ID = i, rs_DisplayName = trimSpace (rm_DisplayName item), rs_Type = trimSpace (rm_Type item),
           rs_OwnedBy = trimSpace (rm_OwnedBy item), rs_DefinitionStatus = [], rs_Capability = None\<rparr> # models)
        (registeredFrom (insert i seen) rest))"

definition buildRegisteredModelSupport :: "registeredModel list option \<Rightarrow> registeredModelSupport list option" where
  "buildRegisteredModelSupport items =
     (case items of None \<Rightarrow> None | Some is \<Rightarrow> map_option (sort_key rs_ID) (registeredFrom {} is))"

definition loadAccount :: "modelSupportClient \<Rightarrow> nat \<times> usageIdentity \<Rightarrow> accountModelSupport" where
  "loadAccount client = (\<lambda>(i, identity).
     let channel = modelDefinitionChannel (ui_Type identity);
         account = \<lparr>as_IdentityID = i, as_AuthIndex = ui_Identity identity, as_DisplayName = displayName identity,
           as_Provider = trimSpace (ui_Provider identity),
           as_Channel = (case channel of None \<Rightarrow> [] | Some c \<Rightarrow> c),
           as_Disabled = ui_Disabled identity, as_Unavailable = ui_Unavailable identity, as_Status = ''failed'',
           as_ErrorCode = [], as_CatalogStatus = (if channel = None then ''unknown_channel'' else ''error''),
           as_RegisteredModels = []\<rparr>
     in case mc_FetchAuthFileByAuthIndex client (ui_Identity identity) of
        Inl err \<Rightarrow> account\<lparr>as_ErrorCode := ''upstream_error''\<rparr>
      | Inr None \<Rightarrow> account\<lparr>as_ErrorCode := ''auth_file_missing''\<rparr>
      | Inr (Some file) \<Rightarrow>
          (let lookupName = (if trimSpace (af_ID file) = [] then trimSpace (af_Name file) else trimSpace (af_ID file)) in
           if lookupName = [] then account\<lparr>as_ErrorCode := ''auth_file_missing''\<rparr>
           else if trimSpace (af_AuthIndex file) \<noteq> trimSpace (ui_Identity identity)
             then account\<lparr>as_ErrorCode := ''invalid_upstream_response''\<rparr>
           else (case mc_FetchAuthFileModels client lookupName of
               Inl err \<Rightarrow> account\<lparr>as_ErrorCode := ''upstream_error''\<rparr>
             | Inr None \<Rightarrow> account\<lparr>as_ErrorCode := ''upstream_error''\<rparr>
             | Inr (Some registered) \<Rightarrow> (case buildRegisteredModelSupport registered of
                   None \<Rightarrow> account\<lparr>as_ErrorCode := ''invalid_upstream_response''\<rparr>
                 | Some models \<Rightarrow> account\<lparr>as_Status := ''loaded'', as_RegisteredModels := models\<rparr>))))"

definition loadAccounts :: "modelSupportClient \<Rightarrow> (nat \<times> usageIdentity) list \<Rightarrow> accountModelSupport list" where
  "loadAccounts client identities = map (loadAccount client) identities"

definition uniqueLoadedModelSupportChannels :: "accountModelSupport list \<Rightarrow> string list" where
  "uniqueLoadedModelSupportChannels accounts =
     sort (remdups (map as_Channel (filter (\<lambda>a. as_Status a = ''loaded'' \<and> as_Channel a \<noteq> []) accounts)))"

section \<open>Catalogues\<close>

record modelDefinitionCatalog =
  mk_status :: string
  mk_definitions :: "(string \<times> staticModelDefinition) list"

fun indexFrom :: "string set \<Rightarrow> staticModelDefinition list \<Rightarrow> (string \<times> staticModelDefinition) list option" where
  "indexFrom seen [] = Some []"
| "indexFrom seen (item # rest) =
     (let i = trimSpace (sm_ID item) in
      if i = [] \<or> i \<in> seen then None
      else map_option (\<lambda>definitions. (i, item\<lparr>sm_ID := i\<rparr>) # definitions) (indexFrom (insert i seen) rest))"

definition indexStaticModelDefinitions :: "staticModelDefinition list \<Rightarrow> (string \<times> staticModelDefinition) list option" where
  "indexStaticModelDefinitions items = indexFrom {} items"

definition loadCatalog :: "modelSupportClient \<Rightarrow> string \<Rightarrow> modelDefinitionCatalog" where
  "loadCatalog client channel =
     (case mc_FetchStaticModelDefinitions client channel of
        Inr (Some (answered, Some models)) \<Rightarrow>
          (if toLower (trimSpace answered) = toLower channel then
             (case indexStaticModelDefinitions models of
                None \<Rightarrow> \<lparr>mk_status = ''error'', mk_definitions = []\<rparr>
              | Some definitions \<Rightarrow> \<lparr>mk_status = ''loaded'', mk_definitions = definitions\<rparr>)
           else \<lparr>mk_status = ''error'', mk_definitions = []\<rparr>)
      | _ \<Rightarrow> \<lparr>mk_status = ''error'', mk_definitions = []\<rparr>)"

definition loadDefinitionCatalogs ::
  "modelSupportClient \<Rightarrow> string list \<Rightarrow> (string \<times> modelDefinitionCatalog) list" where
  "loadDefinitionCatalogs client channels = map (\<lambda>channel. (channel, loadCatalog client channel)) channels"

definition modelCapabilityOf :: "staticModelDefinition \<Rightarrow> modelCapability option" where
  "modelCapabilityOf item =
     (if sm_ContextLength item = None \<and> sm_InputTokenLimit item = None \<and> sm_MaxCompletionTokens item = None \<and>
         sm_OutputTokenLimit item = None \<and> sm_SupportedInputModalities item = [] \<and>
         sm_SupportedOutputModalities item = [] \<and> sm_Thinking item = None
      then None
      else Some
        \<lparr>cp_ContextLength = sm_ContextLength item, cp_InputTokenLimit = sm_InputTokenLimit item,
         cp_MaxCompletionTokens = sm_MaxCompletionTokens item, cp_OutputTokenLimit = sm_OutputTokenLimit item,
         cp_SupportedInputModalities = sm_SupportedInputModalities item,
         cp_SupportedOutputModalities = sm_SupportedOutputModalities item, cp_Thinking = sm_Thinking item\<rparr>)"

definition applyCatalog :: "modelDefinitionCatalog \<Rightarrow> registeredModelSupport \<Rightarrow> registeredModelSupport" where
  "applyCatalog catalog model =
     (if mk_status catalog \<noteq> ''loaded'' then model\<lparr>rs_DefinitionStatus := ''error''\<rparr>
      else (case map_of (mk_definitions catalog) (rs_ID model) of
          None \<Rightarrow> model\<lparr>rs_DefinitionStatus := ''absent''\<rparr>
        | Some item \<Rightarrow> model\<lparr>rs_DefinitionStatus := ''available'', rs_Capability := modelCapabilityOf item\<rparr>))"

text \<open>A channel without a catalogue reads as the zero catalogue, whose status is empty.\<close>

definition applyModelDefinitionCatalogs ::
  "(string \<times> modelDefinitionCatalog) list \<Rightarrow> accountModelSupport list \<Rightarrow> accountModelSupport list" where
  "applyModelDefinitionCatalogs catalogs accounts = map (\<lambda>account.
     if as_Status account \<noteq> ''loaded'' then account
     else if as_Channel account = [] then account\<lparr>as_RegisteredModels :=
       map (\<lambda>m. m\<lparr>rs_DefinitionStatus := ''unknown_channel''\<rparr>) (as_RegisteredModels account)\<rparr>
     else (let catalog = (case map_of catalogs (as_Channel account) of
               None \<Rightarrow> \<lparr>mk_status = [], mk_definitions = []\<rparr> | Some c \<Rightarrow> c)
           in account\<lparr>as_CatalogStatus := mk_status catalog,
                as_RegisteredModels := map (applyCatalog catalog) (as_RegisteredModels account)\<rparr>)) accounts"

section \<open>Coverage\<close>

definition countModel :: "registeredModelSupport \<Rightarrow> (string \<times> string \<times> nat) list \<Rightarrow> (string \<times> string \<times> nat) list" where
  "countModel model byModel =
     (case (case map_of byModel (rs_ID model) of None \<Rightarrow> ([], 0) | Some item \<Rightarrow> item) of
        (name, n) \<Rightarrow>
          AList.update (rs_ID model) (if name = [] then rs_DisplayName model else name, n + 1) byModel)"

definition buildModelSupportCoverage :: "accountModelSupport list \<Rightarrow> bool \<Rightarrow> modelSupportCoverage list" where
  "buildModelSupportCoverage accounts allLoaded =
     (let byModel = fold countModel
            (concat (map as_RegisteredModels (filter (\<lambda>a. as_Status a = ''loaded'') accounts))) []
      in sort_key (\<lambda>c. (- int (cv_ObservedSupportingAccounts c), cv_ModelID c))
           (map (\<lambda>(i, name, n).
              \<lparr>cv_ModelID = i, cv_DisplayName = name, cv_ObservedSupportingAccounts = n,
               cv_SelectedAccounts = length accounts,
               cv_SingleRegisteredAccountInScope = (if allLoaded then Some (n = 1) else None)\<rparr>) byModel))"

definition loadModelSupport ::
  "modelSupportClient \<Rightarrow> (nat \<Rightarrow> goErr option) \<Rightarrow> identityTable \<Rightarrow> nat list \<Rightarrow> goErr + modelSupportResult" where
  "loadModelSupport client fault t raw =
     (case validateModelSupportScope raw of
        Inl err \<Rightarrow> Inl err
      | Inr ids \<Rightarrow> (case loadModelSupportIdentities fault t ids of
          Inl err \<Rightarrow> Inl err
        | Inr identities \<Rightarrow>
            (let accounts = loadAccounts client identities;
                 catalogs = loadDefinitionCatalogs client (uniqueLoadedModelSupportChannels accounts);
                 accounts = applyModelDefinitionCatalogs catalogs accounts;
                 loaded = length (filter (\<lambda>a. as_Status a = ''loaded'') accounts);
                 allLoaded = (loaded = length accounts)
             in Inr \<lparr>ms_Complete = allLoaded, ms_SelectedCount = length accounts, ms_LoadedCount = loaded,
                  ms_Accounts = accounts, ms_Models = buildModelSupportCoverage accounts allLoaded,
                  ms_Limits = defaultModelSupportLimits\<rparr>)))"

section \<open>Counting\<close>

lemma distinct_map_sort: "distinct (map f (sort_key k xs)) \<longleftrightarrow> distinct (map f xs)"
  by (rule mset_eq_imp_distinct_iff) simp

lemma length_filter_all: "length (filter P xs) = length xs \<longleftrightarrow> (\<forall>x \<in> set xs. P x)"
proof (induction xs)
  case (Cons x xs)
  have "length (filter P xs) \<noteq> Suc (length xs)" using length_filter_le [of P xs] by linarith
  with Cons show ?case by auto
qed simp

definition supports :: "accountModelSupport \<Rightarrow> string \<Rightarrow> bool" where
  "supports a i \<longleftrightarrow> as_Status a = ''loaded'' \<and> i \<in> rs_ID ` set (as_RegisteredModels a)"

definition counted :: "(string \<times> string \<times> nat) list \<Rightarrow> string \<Rightarrow> nat" where
  "counted byModel i = (case map_of byModel i of None \<Rightarrow> 0 | Some (name, n) \<Rightarrow> n)"

lemma countModel_update:
  "\<exists>name. countModel m bm = AList.update (rs_ID m) (name, counted bm (rs_ID m) + 1) bm"
  by (auto simp: countModel_def counted_def split: option.split prod.split)

lemma countModel_one:
  "counted (countModel m bm) i = counted bm i + (if rs_ID m = i then 1 else 0)"
  "fst ` set (countModel m bm) = insert (rs_ID m) (fst ` set bm)"
  "distinct (map fst bm) \<Longrightarrow> distinct (map fst (countModel m bm))"
proof -
  obtain name where one: "countModel m bm = AList.update (rs_ID m) (name, counted bm (rs_ID m) + 1) bm"
    using countModel_update by blast
  show "counted (countModel m bm) i = counted bm i + (if rs_ID m = i then 1 else 0)"
    unfolding one by (simp add: counted_def update_conv')
  show "fst ` set (countModel m bm) = insert (rs_ID m) (fst ` set bm)" unfolding one by (simp add: dom_update)
  show "distinct (map fst (countModel m bm))" if "distinct (map fst bm)" unfolding one using that by (rule distinct_update)
qed

lemma countModel_fold:
  "counted (fold countModel ms bm) i = counted bm i + count_list (map rs_ID ms) i"
  "fst ` set (fold countModel ms bm) = fst ` set bm \<union> rs_ID ` set ms"
  "distinct (map fst bm) \<Longrightarrow> distinct (map fst (fold countModel ms bm))"
  by (induction ms arbitrary: bm) (auto simp: countModel_one)

lemma count_distinct: "distinct xs \<Longrightarrow> count_list xs x = (if x \<in> set xs then 1 else 0)"
  by (induction xs) auto

lemma count_supporting:
  assumes "\<forall>a \<in> set accounts. distinct (map rs_ID (as_RegisteredModels a))"
  shows "count_list (map rs_ID (concat (map as_RegisteredModels (filter (\<lambda>a. as_Status a = ''loaded'') accounts)))) i =
    length (filter (\<lambda>a. supports a i) accounts)"
  using assms
  by (induction accounts) (auto simp: supports_def count_distinct)

lemma counted_mem: "distinct (map fst bm) \<Longrightarrow> (i, name, n) \<in> set bm \<Longrightarrow> counted bm i = n"
  by (simp add: counted_def)

lemma coverage_spec:
  assumes distinct: "\<forall>a \<in> set accounts. distinct (map rs_ID (as_RegisteredModels a))"
    and cov: "cov = buildModelSupportCoverage accounts allLoaded"
  shows "distinct (map cv_ModelID cov) \<and> sorted (map (\<lambda>c. (- int (cv_ObservedSupportingAccounts c), cv_ModelID c)) cov) \<and>
    cv_ModelID ` set cov = {i. \<exists>a \<in> set accounts. supports a i} \<and>
    (\<forall>c \<in> set cov. cv_ObservedSupportingAccounts c = length (filter (\<lambda>a. supports a (cv_ModelID c)) accounts) \<and>
       cv_SelectedAccounts c = length accounts \<and>
       cv_SingleRegisteredAccountInScope c = (if allLoaded then Some (cv_ObservedSupportingAccounts c = 1) else None))"
proof -
  let ?ms = "concat (map as_RegisteredModels (filter (\<lambda>a. as_Status a = ''loaded'') accounts))"
  let ?bm = "fold countModel ?ms []"
  let ?row = "\<lambda>(i, name, n). \<lparr>cv_ModelID = i, cv_DisplayName = name, cv_ObservedSupportingAccounts = n,
    cv_SelectedAccounts = length accounts, cv_SingleRegisteredAccountInScope = (if allLoaded then Some (n = 1) else None)\<rparr>"
  have cov': "cov = sort_key (\<lambda>c. (- int (cv_ObservedSupportingAccounts c), cv_ModelID c)) (map ?row ?bm)"
    unfolding cov buildModelSupportCoverage_def Let_def ..
  have keys: "distinct (map fst ?bm)" by (rule countModel_fold(3)) simp
  have ids: "map cv_ModelID (map ?row ?bm) = map fst ?bm" by auto
  have "distinct (map cv_ModelID (map ?row ?bm))" unfolding ids by (rule keys)
  then have dist: "distinct (map cv_ModelID cov)" unfolding cov' distinct_map_sort .
  have "cv_ModelID ` set cov = set (map cv_ModelID (map ?row ?bm))" unfolding cov' by (simp add: image_image)
  also have "\<dots> = rs_ID ` set ?ms" unfolding ids using countModel_fold(2) [of ?ms "[]"] by simp
  also have "\<dots> = {i. \<exists>a \<in> set accounts. supports a i}" by (auto simp: supports_def)
  finally have set: "cv_ModelID ` set cov = {i. \<exists>a \<in> set accounts. supports a i}" .
  have "n = length (filter (\<lambda>a. supports a i) accounts)" if "(i, name, n) \<in> set ?bm" for i name n
    using counted_mem [OF keys that] countModel_fold(1) [of ?ms "[]" i] count_supporting [OF distinct]
    by (simp add: counted_def)
  then have rows: "cv_ObservedSupportingAccounts (?row x) = length (filter (\<lambda>a. supports a (cv_ModelID (?row x))) accounts)"
    if "x \<in> set ?bm" for x using that by (cases x) simp
  have "\<forall>c \<in> set cov. cv_ObservedSupportingAccounts c = length (filter (\<lambda>a. supports a (cv_ModelID c)) accounts) \<and>
       cv_SelectedAccounts c = length accounts \<and>
       cv_SingleRegisteredAccountInScope c = (if allLoaded then Some (cv_ObservedSupportingAccounts c = 1) else None)"
  proof
    fix c assume "c \<in> set cov"
    then have "c \<in> ?row ` set ?bm" unfolding cov' by simp
    then obtain x where x: "x \<in> set ?bm" "c = ?row x" by (rule imageE)
    have "cv_SelectedAccounts (?row x) = length accounts \<and>
       cv_SingleRegisteredAccountInScope (?row x) = (if allLoaded then Some (cv_ObservedSupportingAccounts (?row x) = 1) else None)"
      by (simp add: case_prod_beta)
    with rows [OF x(1)] show "cv_ObservedSupportingAccounts c = length (filter (\<lambda>a. supports a (cv_ModelID c)) accounts) \<and>
       cv_SelectedAccounts c = length accounts \<and>
       cv_SingleRegisteredAccountInScope c = (if allLoaded then Some (cv_ObservedSupportingAccounts c = 1) else None)"
      unfolding x(2) by (rule conjI)
  qed
  moreover have "sorted (map (\<lambda>c. (- int (cv_ObservedSupportingAccounts c), cv_ModelID c)) cov)"
    unfolding cov' by (rule sorted_sort_key)
  ultimately show ?thesis using dist set by (intro conjI)
qed

section \<open>The accounts\<close>

lemma checkScope_ok: "checkScope seen raw = Inr ids \<Longrightarrow> ids = raw \<and> distinct raw \<and> set raw \<inter> seen = {} \<and> 0 \<notin> set raw"
  by (induction seen raw arbitrary: ids rule: checkScope.induct) (auto split: if_splits sum.splits)

lemma identities_ok:
  "loadModelSupportIdentities fault t ids = Inr identities \<Longrightarrow> map fst identities = ids \<and>
    (\<forall>i \<in> set ids. \<exists>r. lookupRow t i = Some r \<and> \<not> ui_IsDeleted r \<and> ui_AuthType r = UsageIdentityAuthTypeAuthFile)"
  by (induction ids arbitrary: identities)
    (auto simp: getUsageIdentityByID_def split: option.splits if_splits sum.splits)

lemma registeredFrom_ids:
  "registeredFrom seen items = Some models \<Longrightarrow> distinct (map rs_ID models) \<and> rs_ID ` set models \<inter> seen = {}"
proof (induction items arbitrary: seen models)
  case (Cons item items)
  let ?i = "trimSpace (rm_ID item)"
  show ?case
  proof (cases "?i \<in> seen")
    case True
    with Cons show ?thesis by (simp add: Let_def split: if_splits)
  next
    case False
    with Cons.prems obtain ms where ms: "registeredFrom (insert ?i seen) items = Some ms" "map rs_ID models = ?i # map rs_ID ms"
      by (auto simp: Let_def split: if_splits)
    then have "rs_ID ` set models = insert ?i (rs_ID ` set ms)" by (metis list.set_map list.simps(15))
    with Cons.IH [OF ms(1)] ms(2) False show ?thesis by auto
  qed
qed simp

lemma loadAccount_ids: "distinct (map rs_ID (as_RegisteredModels (loadAccount client x)))"
proof -
  have "distinct (map rs_ID (sort_key rs_ID models))" if "registeredFrom {} is = Some models" for "is" models
    using registeredFrom_ids [OF that] by (simp add: distinct_map_sort)
  then show ?thesis
    by (cases x) (auto simp: loadAccount_def Let_def buildRegisteredModelSupport_def split: option.splits sum.splits)
qed

lemma loadAccount_key: "as_IdentityID (loadAccount client (i, r)) = i"
  by (auto simp: loadAccount_def Let_def split: option.splits sum.splits)

lemma applyCatalog_id [simp]: "rs_ID (applyCatalog catalog m) = rs_ID m"
  by (auto simp: applyCatalog_def split: option.split)

lemma applied_accounts:
  "map (\<lambda>a. (as_IdentityID a, as_Status a, map rs_ID (as_RegisteredModels a))) (applyModelDefinitionCatalogs catalogs accounts) =
   map (\<lambda>a. (as_IdentityID a, as_Status a, map rs_ID (as_RegisteredModels a))) accounts"
  by (induction accounts) (auto simp: applyModelDefinitionCatalogs_def Let_def)

text \<open>
  C29. A model support report covers exactly the selected accounts, at most twelve and without
  repetition, all of them active auth files. A model is listed exactly if some loaded account has it
  registered, once, with the number of such accounts, the best covered first and then by name;
  the report is complete exactly when every account could be loaded, and only then a model is said
  to be, or not to be, on a single account.
\<close>
theorem modelSupport_coverage:
  assumes res: "loadModelSupport client fault t raw = Inr result"
  shows "map as_IdentityID (ms_Accounts result) = raw \<and> distinct raw \<and> 0 < length raw \<and> length raw \<le> 12 \<and>
    (\<forall>i \<in> set raw. \<exists>r. lookupRow t i = Some r \<and> \<not> ui_IsDeleted r \<and> ui_AuthType r = UsageIdentityAuthTypeAuthFile) \<and>
    (ms_Complete result \<longleftrightarrow> (\<forall>a \<in> set (ms_Accounts result). as_Status a = ''loaded'')) \<and>
    distinct (map cv_ModelID (ms_Models result)) \<and>
    sorted (map (\<lambda>c. (- int (cv_ObservedSupportingAccounts c), cv_ModelID c)) (ms_Models result)) \<and>
    cv_ModelID ` set (ms_Models result) = {i. \<exists>a \<in> set (ms_Accounts result). supports a i} \<and>
    (\<forall>c \<in> set (ms_Models result).
       cv_ObservedSupportingAccounts c = length (filter (\<lambda>a. supports a (cv_ModelID c)) (ms_Accounts result)) \<and>
       cv_SelectedAccounts c = length raw \<and>
       cv_SingleRegisteredAccountInScope c =
         (if ms_Complete result then Some (cv_ObservedSupportingAccounts c = 1) else None))"
proof -
  from res obtain ids identities where ids: "validateModelSupportScope raw = Inr ids"
    and identities: "loadModelSupportIdentities fault t ids = Inr identities"
    by (auto simp: loadModelSupport_def split: sum.splits)
  have scope: "ids = raw" "distinct raw" "0 < length raw" "length raw \<le> 12"
    using ids checkScope_ok [of "{}" raw ids]
    by (auto simp: validateModelSupportScope_def ModelSupportMaxAccounts_def split: if_splits)
  note loaded = identities_ok [OF identities]
  obtain catalogs where accounts: "ms_Accounts result = applyModelDefinitionCatalogs catalogs (loadAccounts client identities)"
    and models: "ms_Models result = buildModelSupportCoverage (ms_Accounts result) (ms_Complete result)"
    and allLoaded: "ms_Complete result \<longleftrightarrow> length (filter (\<lambda>a. as_Status a = ''loaded'') (ms_Accounts result)) = length (ms_Accounts result)"
    using res ids identities by (auto simp: loadModelSupport_def Let_def)
  note applied = applied_accounts [of catalogs "loadAccounts client identities", folded accounts]
  have "map as_IdentityID (ms_Accounts result) = map as_IdentityID (loadAccounts client identities)"
    using arg_cong [OF applied, of "map fst"] by (simp add: o_def)
  also have "\<dots> = map fst identities" by (auto simp: loadAccounts_def loadAccount_key)
  finally have keys: "map as_IdentityID (ms_Accounts result) = raw" using loaded scope(1) by simp
  then have len: "length (ms_Accounts result) = length raw" by (metis length_map)
  have "\<forall>a \<in> set (loadAccounts client identities). distinct (map rs_ID (as_RegisteredModels a))"
    by (auto simp: loadAccounts_def loadAccount_ids)
  moreover have "map rs_ID ` as_RegisteredModels ` set (ms_Accounts result) =
      map rs_ID ` as_RegisteredModels ` set (loadAccounts client identities)"
    using arg_cong [OF applied, of "\<lambda>xs. snd ` snd ` set xs"] by (simp add: image_image)
  ultimately have "\<forall>a \<in> set (ms_Accounts result). distinct (map rs_ID (as_RegisteredModels a))" by (metis (no_types, lifting) imageE imageI)
  note cov = coverage_spec [OF this models]
  have "\<forall>i \<in> set raw. \<exists>r. lookupRow t i = Some r \<and> \<not> ui_IsDeleted r \<and> ui_AuthType r = UsageIdentityAuthTypeAuthFile"
    using loaded scope(1) by simp
  moreover have "ms_Complete result \<longleftrightarrow> (\<forall>a \<in> set (ms_Accounts result). as_Status a = ''loaded'')"
    unfolding allLoaded by (rule length_filter_all)
  ultimately show ?thesis using keys scope cov unfolding len by (intro conjI) (elim conjE, assumption)+
qed

definition exampleModels :: modelSupportClient where
  "exampleModels =
     \<lparr>mc_FetchAuthFileByAuthIndex = (\<lambda>k. Inr (Some exampleFile)),
      mc_FetchAuthFileModels = (\<lambda>name. Inr (Some (Some
        [\<lparr>rm_ID = ''m'', rm_DisplayName = ''M'', rm_Type = [], rm_OwnedBy = []\<rparr>]))),
      mc_FetchStaticModelDefinitions = (\<lambda>channel. Inr None)\<rparr>"

theorem modelSupport_coverage_witness:
  "\<exists>result. loadModelSupport exampleModels (\<lambda>i. None) exampleAccounts [1] = Inr result \<and>
     ms_Complete result \<and> map as_IdentityID (ms_Accounts result) = [1] \<and> ''m'' \<in> cv_ModelID ` set (ms_Models result)"
proof -
  let ?run = "loadModelSupport exampleModels (\<lambda>i. None) exampleAccounts [1]"
  have "case ?run of Inl e \<Rightarrow> False
    | Inr r \<Rightarrow> ms_Complete r \<and> map (\<lambda>a. (as_Status a, map rs_ID (as_RegisteredModels a))) (ms_Accounts r) = [(''loaded'', [''m''])]"
    by code_simp
  then obtain result where res: "?run = Inr result" "ms_Complete result"
    "map (\<lambda>a. (as_Status a, map rs_ID (as_RegisteredModels a))) (ms_Accounts result) = [(''loaded'', [''m''])]"
    by (cases ?run) auto
  then have "\<exists>a \<in> set (ms_Accounts result). supports a ''m''" by (auto simp: supports_def)
  with modelSupport_coverage [OF res(1)] res(1,2) show ?thesis by auto
qed

end
