(* ===== verification/UpdateCheck.thy ===== *)
theory UpdateCheck
  imports GoNet "HOL-Library.Product_Lexorder"
begin

text \<open>
  The update check (\<open>updatecheck/checker.go\<close>): stable versions, their comparison, the latest one among a release
  and the tags, and the answer shown. The replies of the release API are arguments.
\<close>

section \<open>Versions\<close>

definition allDigits :: "string \<Rightarrow> bool" where
  "allDigits s \<longleftrightarrow> s \<noteq> [] \<and> list_all (\<lambda>c. char_digit c \<noteq> None) s"

text \<open>The groups of the pattern: a \<open>v\<close> and three runs of digits between two points.\<close>

definition versionGroups :: "string \<Rightarrow> string list option" where
  "versionGroups value =
     (case trimSpace value of
        [] \<Rightarrow> None
      | c # rest \<Rightarrow>
          (let groups = split_on (CHR ''.'') rest in
           if c = CHR ''v'' \<and> length groups = 3 \<and> list_all allDigits groups then Some groups else None))"

definition isStableVersion :: "string \<Rightarrow> bool" where
  "isStableVersion value \<longleftrightarrow> versionGroups value \<noteq> None"

text \<open>\<open>strconv.Atoi\<close> of a run of digits: an error when it does not fit an \<open>int\<close>.\<close>

definition atoiDigits :: "string \<Rightarrow> int option" where
  "atoiDigits s =
     (case parseUnsigned s of
        None \<Rightarrow> None
      | Some n \<Rightarrow> if int n \<le> int64_max then Some (int n) else None)"

definition parseStableVersion :: "string \<Rightarrow> (int \<times> int \<times> int) option" where
  "parseStableVersion value =
     (case versionGroups value of
        Some [a, b, c] \<Rightarrow> (case (atoiDigits a, atoiDigits b, atoiDigits c) of
            (Some x, Some y, Some z) \<Rightarrow> Some (x, y, z)
          | _ \<Rightarrow> None)
      | _ \<Rightarrow> None)"

fun compareParts :: "(int \<times> int) list \<Rightarrow> int" where
  "compareParts [] = 0"
| "compareParts ((l, r) # rest) = (if l < r then -1 else if l > r then 1 else compareParts rest)"

definition compareStableVersions :: "string \<Rightarrow> string \<Rightarrow> int option" where
  "compareStableVersions left right =
     (case parseStableVersion left of
        None \<Rightarrow> None
      | Some (a, b, c) \<Rightarrow> (case parseStableVersion right of
          None \<Rightarrow> None
        | Some (x, y, z) \<Rightarrow> Some (compareParts [(a, x), (b, y), (c, z)])))"

section \<open>The check\<close>

record updateResult =
  ur_CurrentVersion :: string
  ur_LatestVersion :: string
  ur_UpdateAvailable :: bool
  ur_CanCompare :: bool
  ur_Message :: string

text \<open>A reply is the decoded payload, or the status (0 without one) and the error.\<close>

record updateSource =
  us_release :: "(nat \<times> goErr) + string"
  us_tags :: "(nat \<times> goErr) + string list"

definition fetchLatestRelease :: "updateSource \<Rightarrow> goErr + string" where
  "fetchLatestRelease source =
     (case us_release source of
        Inl (status, err) \<Rightarrow> if status = 404 then Inr [] else Inl err
      | Inr tagName \<Rightarrow> Inr (trimSpace tagName))"

definition fetchTags :: "updateSource \<Rightarrow> goErr + string list" where
  "fetchTags source =
     (case us_tags source of
        Inl (status, err) \<Rightarrow> Inl err
      | Inr names \<Rightarrow> Inr (filter (\<lambda>n. n \<noteq> []) (map trimSpace names)))"

fun latestTagFrom :: "string \<Rightarrow> string list \<Rightarrow> string" where
  "latestTagFrom latest [] = latest"
| "latestTagFrom latest (tag # tags) =
     (if \<not> isStableVersion tag then latestTagFrom latest tags
      else if latest = [] then latestTagFrom tag tags
      else (case compareStableVersions latest tag of
          Some comparison \<Rightarrow> latestTagFrom (if comparison < 0 then tag else latest) tags
        | None \<Rightarrow> latestTagFrom latest tags))"

definition latestStableVersion :: "updateSource \<Rightarrow> goErr + string option" where
  "latestStableVersion source =
     (case fetchLatestRelease source of
        Inr release \<Rightarrow>
          if isStableVersion release then Inr (Some release)
          else (case fetchTags source of
              Inl err \<Rightarrow> Inl err
            | Inr tags \<Rightarrow> (let latest = latestTagFrom [] tags in Inr (if latest = [] then None else Some latest)))
      | Inl err \<Rightarrow> (case fetchTags source of
              Inl err' \<Rightarrow> Inl err'
            | Inr tags \<Rightarrow> (let latest = latestTagFrom [] tags in Inr (if latest = [] then None else Some latest))))"

definition checkUpdate :: "string \<Rightarrow> updateSource \<Rightarrow> goErr + updateResult" where
  "checkUpdate currentVersion source =
     (let unknown = (\<lambda>latest message. \<lparr>ur_CurrentVersion = currentVersion, ur_LatestVersion = latest,
            ur_UpdateAvailable = False, ur_CanCompare = False, ur_Message = message\<rparr>)
      in if \<not> isStableVersion currentVersion then Inr (unknown [] ''current build is not comparable'')
      else (case latestStableVersion source of
          Inl err \<Rightarrow> Inl err
        | Inr None \<Rightarrow> Inr (unknown [] ''no comparable release found'')
        | Inr (Some latest) \<Rightarrow> (case compareStableVersions currentVersion latest of
            None \<Rightarrow> Inr (unknown latest ''current build is not comparable'')
          | Some comparison \<Rightarrow> Inr
              \<lparr>ur_CurrentVersion = currentVersion, ur_LatestVersion = latest,
               ur_UpdateAvailable = (comparison < 0), ur_CanCompare = True,
               ur_Message = (if comparison < 0 then ''new version available: '' @ latest
                             else ''already on the latest version'')\<rparr>)))"

section \<open>The checker\<close>

text \<open>The HTTP client is known by its timeout; \<open>None\<close> is a \<open>nil\<close> client, and a \<open>nil\<close> option is skipped.\<close>

definition defaultGitHubAPIBaseURL :: string where "defaultGitHubAPIBaseURL = ''https://api.github.com''"
definition defaultGitHubOwner :: string where "defaultGitHubOwner = ''evenluo''"
definition defaultGitHubRepo :: string where "defaultGitHubRepo = ''cpa-usage''"
definition defaultRequestTimeout :: duration where "defaultRequestTimeout = 10 * second"

record updateChecker =
  uc_currentVersion :: string
  uc_baseURL :: string
  uc_owner :: string
  uc_repo :: string
  uc_client :: "duration option"

type_synonym updateOption = "updateChecker \<Rightarrow> updateChecker"

definition withBaseURL :: "string \<Rightarrow> updateOption" where
  "withBaseURL baseURL c = c\<lparr>uc_baseURL := trimRightChar (CHR ''/'') (trimSpace baseURL)\<rparr>"

definition withHTTPClient :: "duration option \<Rightarrow> updateOption" where
  "withHTTPClient client c = c\<lparr>uc_client := client\<rparr>"

definition withRepository :: "string \<Rightarrow> string \<Rightarrow> updateOption" where
  "withRepository owner repo c = c\<lparr>uc_owner := trimSpace owner, uc_repo := trimSpace repo\<rparr>"

definition newChecker :: "string \<Rightarrow> updateOption option list \<Rightarrow> updateChecker" where
  "newChecker currentVersion opts =
     (let c = fold (\<lambda>opt c. case opt of None \<Rightarrow> c | Some f \<Rightarrow> f c) opts
            \<lparr>uc_currentVersion = trimSpace currentVersion, uc_baseURL = defaultGitHubAPIBaseURL,
             uc_owner = defaultGitHubOwner, uc_repo = defaultGitHubRepo, uc_client = Some defaultRequestTimeout\<rparr>
      in c\<lparr>uc_client := (if uc_client c = None then Some defaultRequestTimeout else uc_client c),
           uc_baseURL := (if uc_baseURL c = [] then defaultGitHubAPIBaseURL else uc_baseURL c),
           uc_owner := (if uc_owner c = [] then defaultGitHubOwner else uc_owner c),
           uc_repo := (if uc_repo c = [] then defaultGitHubRepo else uc_repo c)\<rparr>)"

text \<open>The two addresses that are read.\<close>

definition latestReleaseURL :: "updateChecker \<Rightarrow> string" where
  "latestReleaseURL c = uc_baseURL c @ ''/repos/'' @ uc_owner c @ ''/'' @ uc_repo c @ ''/releases/latest''"

definition tagsURL :: "updateChecker \<Rightarrow> string" where
  "tagsURL c = uc_baseURL c @ ''/repos/'' @ uc_owner c @ ''/'' @ uc_repo c @ ''/tags?per_page=100''"

text \<open>
  \<open>getJSON\<close>: the status (0 if there is none) with the error, or the decoded payload. The answers of the
  server are \<open>get\<close>: a transport error, or a status and the decoded body.
\<close>

definition getJSON :: "(string \<Rightarrow> goErr + nat \<times> (goErr + 'p)) \<Rightarrow> string \<Rightarrow> (nat \<times> goErr) + 'p" where
  "getJSON get url =
     (case get url of
        Inl err \<Rightarrow> Inl (0, err)
      | Inr (status, body) \<Rightarrow>
          if status < 200 \<or> 300 \<le> status then Inl (status, PlainError (''unexpected status '' @ nat_digits status))
          else (case body of Inl err \<Rightarrow> Inl (status, err) | Inr payload \<Rightarrow> Inr payload))"

definition updateSourceOf ::
  "updateChecker \<Rightarrow> (string \<Rightarrow> goErr + nat \<times> (goErr + string)) \<Rightarrow>
    (string \<Rightarrow> goErr + nat \<times> (goErr + string list)) \<Rightarrow> updateSource" where
  "updateSourceOf c getRelease getTags =
     \<lparr>us_release = getJSON getRelease (latestReleaseURL c), us_tags = getJSON getTags (tagsURL c)\<rparr>"

section \<open>Comparison\<close>

lemma compareParts_three:
  "compareParts [(a, x), (b, y), (c, z)] < 0 \<longleftrightarrow> (a, b, c) < (x, y, z)"
  "compareParts [(a, x), (b, y), (c, z)] > 0 \<longleftrightarrow> (x, y, z) < (a, b, c)"
  by auto

lemma compare_less:
  "parseStableVersion l = Some p \<Longrightarrow> parseStableVersion r = Some q \<Longrightarrow>
    \<exists>c. compareStableVersions l r = Some c \<and> (c < 0 \<longleftrightarrow> p < q)"
  using compareParts_three(1) by (cases p; cases q) (simp add: compareStableVersions_def)

lemma parse_stable: "parseStableVersion v = Some p \<Longrightarrow> isStableVersion v"
  by (auto simp: parseStableVersion_def isStableVersion_def split: option.splits)

lemma stable_nonempty: "isStableVersion v \<Longrightarrow> v \<noteq> []"
  by (auto simp: isStableVersion_def versionGroups_def)

text \<open>The first of the greatest versions is kept, if every stable tag fits.\<close>

lemma latestTag_max:
  assumes "\<forall>t \<in> set tags. isStableVersion t \<longrightarrow> parseStableVersion t \<noteq> None"
    and "latest = [] \<or> parseStableVersion latest \<noteq> None"
  shows "(latestTagFrom latest tags = [] \<longleftrightarrow> latest = [] \<and> (\<forall>t \<in> set tags. \<not> isStableVersion t)) \<and>
    (latestTagFrom latest tags \<noteq> [] \<longrightarrow>
      (\<exists>p. parseStableVersion (latestTagFrom latest tags) = Some p \<and>
        latestTagFrom latest tags \<in> insert latest (set tags) \<and>
        (\<forall>t \<in> insert latest (set tags). \<forall>q. parseStableVersion t = Some q \<longrightarrow> q \<le> p)))"
  using assms
proof (induction latest tags rule: latestTagFrom.induct)
  case (1 latest)
  then show ?case by (cases "latest = []") (auto dest: parse_stable stable_nonempty)
next
  case (2 latest tag tags)
  have nil: "parseStableVersion [] = None" by code_simp
  consider (skip) "\<not> isStableVersion tag" | (start) "isStableVersion tag" "latest = []"
    | (cmp) p q c where "isStableVersion tag" "latest \<noteq> []" "parseStableVersion latest = Some p"
        "parseStableVersion tag = Some q" "compareStableVersions latest tag = Some c" "c < 0 \<longleftrightarrow> p < q"
    using 2(5,6) compare_less by (metis list.set_intros(1) not_None_eq)
  then show ?case
  proof cases
    case skip
    then have "parseStableVersion tag = None" using parse_stable by (metis not_None_eq)
    with skip 2(1) 2(5,6) show ?thesis by auto
  next
    case start
    with 2(2) 2(5) stable_nonempty nil show ?thesis by auto
  next
    case cmp
    let ?l = "if c < 0 then tag else latest" and ?r = "latestTagFrom (if c < 0 then tag else latest) tags"
    have l: "latestTagFrom latest (tag # tags) = ?r" using cmp by simp
    have "?l = [] \<or> parseStableVersion ?l \<noteq> None" by (cases "c < 0") (simp_all only: if_True if_False cmp(3,4) option.simps simp_thms)
    moreover have "\<forall>t \<in> set tags. isStableVersion t \<longrightarrow> parseStableVersion t \<noteq> None" using 2(5) by simp
    ultimately have ih: "(?r = [] \<longleftrightarrow> ?l = [] \<and> (\<forall>t \<in> set tags. \<not> isStableVersion t)) \<and>
      (?r \<noteq> [] \<longrightarrow> (\<exists>p. parseStableVersion ?r = Some p \<and> ?r \<in> insert ?l (set tags) \<and>
        (\<forall>t \<in> insert ?l (set tags). \<forall>q. parseStableVersion t = Some q \<longrightarrow> q \<le> p)))"
      using 2(4) [OF _ cmp(2) cmp(5)] cmp(1) by blast
    have "?l \<noteq> []" using cmp(2) stable_nonempty [OF cmp(1)] by simp
    with ih obtain p' where p': "parseStableVersion ?r = Some p'" "?r \<in> insert ?l (set tags)" "?r \<noteq> []"
      "\<forall>t \<in> insert ?l (set tags). \<forall>q. parseStableVersion t = Some q \<longrightarrow> q \<le> p'"
      by blast
    have "parseStableVersion ?l = Some (if c < 0 then q else p)" using cmp by simp
    with p'(4) have "(if c < 0 then q else p) \<le> p'" by blast
    with cmp(6) have "p \<le> p'" "q \<le> p'" by (auto simp del: less_eq_prod_simp less_prod_simp split: if_splits)
    then have all: "\<forall>t \<in> insert latest (set (tag # tags)). \<forall>q. parseStableVersion t = Some q \<longrightarrow> q \<le> p'"
      using p'(4) cmp(3,4) by (metis insert_iff list.simps(15) option.inject)
    have "?r \<in> insert latest (set (tag # tags))" using p'(2) by (auto split: if_splits)
    with all p'(1,3) show ?thesis unfolding l using cmp(2) by blast
  qed
qed

text \<open>What the check compares with: a stable release, or else every stable tag.\<close>

definition offeredVersions :: "updateSource \<Rightarrow> string set" where
  "offeredVersions source =
     (case fetchLatestRelease source of
        Inr release \<Rightarrow> if isStableVersion release then {release}
                        else {t. \<exists>ts. fetchTags source = Inr ts \<and> t \<in> set ts \<and> isStableVersion t}
      | Inl err \<Rightarrow> {t. \<exists>ts. fetchTags source = Inr ts \<and> t \<in> set ts \<and> isStableVersion t})"

lemma tags_offered:
  assumes "\<forall>t \<in> set ts. isStableVersion t \<longrightarrow> parseStableVersion t \<noteq> None"
  shows "case (if latestTagFrom [] ts = [] then None else Some (latestTagFrom [] ts)) of
      None \<Rightarrow> \<forall>t \<in> set ts. \<not> isStableVersion t
    | Some l \<Rightarrow> l \<in> set ts \<and> isStableVersion l \<and>
        (\<exists>p. parseStableVersion l = Some p \<and> (\<forall>t \<in> set ts. \<forall>q. parseStableVersion t = Some q \<longrightarrow> q \<le> p))"
  using latestTag_max [OF assms, of "[]"] by (auto dest: parse_stable)

lemma latest_offered:
  assumes fits: "\<forall>t \<in> offeredVersions source. parseStableVersion t \<noteq> None"
    and res: "latestStableVersion source = Inr latest"
  shows "case latest of
      None \<Rightarrow> offeredVersions source = {}
    | Some l \<Rightarrow> l \<in> offeredVersions source \<and>
        (\<exists>p. parseStableVersion l = Some p \<and>
          (\<forall>t \<in> offeredVersions source. \<forall>q. parseStableVersion t = Some q \<longrightarrow> q \<le> p))"
proof (cases "\<exists>release. fetchLatestRelease source = Inr release \<and> isStableVersion release")
  case True
  with fits res show ?thesis by (auto simp: latestStableVersion_def offeredVersions_def)
next
  case False
  then obtain ts where ts: "fetchTags source = Inr ts" "latest = (if latestTagFrom [] ts = [] then None else Some (latestTagFrom [] ts))"
    using res by (auto simp: latestStableVersion_def Let_def split: sum.splits if_splits)
  have offered: "offeredVersions source = {t \<in> set ts. isStableVersion t}"
    using False ts(1) by (auto simp: offeredVersions_def split: sum.splits)
  have "\<forall>t \<in> set ts. isStableVersion t \<longrightarrow> parseStableVersion t \<noteq> None" using fits offered by auto
  note off = tags_offered [OF this]
  show ?thesis
  proof (cases "latestTagFrom [] ts = []")
    case True
    with off show ?thesis unfolding ts(2) offered by simp
  next
    case False
    with off have "latestTagFrom [] ts \<in> {t \<in> set ts. isStableVersion t}"
      "\<exists>p. parseStableVersion (latestTagFrom [] ts) = Some p \<and>
        (\<forall>t \<in> set ts. \<forall>q. parseStableVersion t = Some q \<longrightarrow> q \<le> p)" by simp_all
    with False show ?thesis unfolding ts(2) offered by (simp del: split_paired_All split_paired_Ex) blast
  qed
qed

text \<open>
  For a current version and offered versions whose numbers fit an \<open>int\<close>, a check that
  answers announces an update exactly if some offered version is greater than the current one; it
  compares exactly if a version is offered; and the version it names is the greatest one offered.
\<close>
theorem update_check_exact:
  assumes current: "parseStableVersion current = Some p"
    and fits: "\<forall>t \<in> offeredVersions source. parseStableVersion t \<noteq> None"
    and res: "checkUpdate current source = Inr result"
  shows "(ur_UpdateAvailable result \<longleftrightarrow> (\<exists>t \<in> offeredVersions source. \<exists>q. parseStableVersion t = Some q \<and> p < q)) \<and>
    (ur_CanCompare result \<longleftrightarrow> offeredVersions source \<noteq> {}) \<and>
    (ur_CanCompare result \<longrightarrow> ur_LatestVersion result \<in> offeredVersions source \<and>
      (\<exists>m. parseStableVersion (ur_LatestVersion result) = Some m \<and>
        (\<forall>t \<in> offeredVersions source. \<forall>q. parseStableVersion t = Some q \<longrightarrow> q \<le> m)))"
proof -
  have stable: "isStableVersion current" by (rule parse_stable [OF current])
  then obtain latest where latest: "latestStableVersion source = Inr latest"
    using res by (auto simp: checkUpdate_def Let_def split: sum.splits)
  note off = latest_offered [OF fits latest]
  show ?thesis
  proof (cases latest)
    case None
    with off res stable latest show ?thesis by (auto simp: checkUpdate_def Let_def)
  next
    case (Some l)
    with off obtain m where l: "l \<in> offeredVersions source" "parseStableVersion l = Some m"
      and max: "\<forall>t \<in> offeredVersions source. \<forall>q. parseStableVersion t = Some q \<longrightarrow> q \<le> m" by auto
    obtain c where c: "compareStableVersions current l = Some c" "c < 0 \<longleftrightarrow> p < m"
      using compare_less [OF current l(2)] by blast
    have "ur_UpdateAvailable result = (c < 0)" "ur_CanCompare result" "ur_LatestVersion result = l"
      using res stable latest Some c(1) by (auto simp: checkUpdate_def Let_def)
    moreover have "(\<exists>t \<in> offeredVersions source. \<exists>q. parseStableVersion t = Some q \<and> p < q) \<longleftrightarrow> p < m"
      using l max by (meson less_le_trans)
    ultimately show ?thesis using c(2) l max by auto
  qed
qed

definition exampleReleases :: updateSource where
  "exampleReleases = \<lparr>us_release = Inl (404, PlainError ''not found''),
     us_tags = Inr [''v1.2.0'', ''nightly'', '' v1.10.0 '', ''v1.9.9'']\<rparr>"

theorem update_check_exact_witness:
  "\<exists>result. checkUpdate ''v1.9.0'' exampleReleases = Inr result \<and> ur_UpdateAvailable result \<and>
     ur_LatestVersion result = ''v1.10.0''"
proof -
  have current: "parseStableVersion ''v1.9.0'' = Some (1, 9, 0)" by code_simp
  have "fetchLatestRelease exampleReleases = Inr []"
    "fetchTags exampleReleases = Inr [''v1.2.0'', ''nightly'', ''v1.10.0'', ''v1.9.9'']" by code_simp+
  moreover have "\<not> isStableVersion []" "isStableVersion ''v1.2.0''" "\<not> isStableVersion ''nightly''"
    "isStableVersion ''v1.10.0''" "isStableVersion ''v1.9.9''" by code_simp+
  ultimately have offered: "offeredVersions exampleReleases = {''v1.2.0'', ''v1.10.0'', ''v1.9.9''}"
    by (auto simp: offeredVersions_def)
  have parsed: "parseStableVersion ''v1.2.0'' = Some (1, 2, 0)" "parseStableVersion ''v1.10.0'' = Some (1, 10, 0)"
    "parseStableVersion ''v1.9.9'' = Some (1, 9, 9)" by code_simp+
  then have fits: "\<forall>t \<in> offeredVersions exampleReleases. parseStableVersion t \<noteq> None" unfolding offered by simp
  have res: "checkUpdate ''v1.9.0'' exampleReleases =
    Inr \<lparr>ur_CurrentVersion = ''v1.9.0'', ur_LatestVersion = ''v1.10.0'', ur_UpdateAvailable = True,
      ur_CanCompare = True, ur_Message = ''new version available: v1.10.0''\<rparr>" by code_simp
  have "(1, 9, 0) < ((1, 10, 0) :: int \<times> int \<times> int)" by simp
  with update_check_exact [OF current fits res] res parsed(2) show ?thesis by auto
qed

end
