(* ===== verification/Redact.thy ===== *)
theory Redact
  imports UsageSnapshot Crypto
begin

text \<open>
  Redaction of API keys (\<open>redact/redact.go\<close>): the alias that stands for a key, the display name that keeps its
  two ends, and the copy of a usage snapshot under aliases. Go walks a map in an unspecified order, so the
  order of the keys is an argument.
\<close>

section \<open>Keys\<close>

definition apiAliasPrefix :: string where "apiAliasPrefix = ''redacted_api_''"

definition apiAlias :: "string \<Rightarrow> string" where
  "apiAlias value =
     (let trimmed = trimSpace value
      in if trimmed = [] then ''unknown''
         else if trimmed = ''unknown'' \<or> hasPrefix trimmed apiAliasPrefix then trimmed
         else apiAliasPrefix @ take 12 (hexEncode (sha256 trimmed)))"

definition apiKeyDisplayName :: "string \<Rightarrow> string" where
  "apiKeyDisplayName value =
     (let trimmed = trimSpace value
      in if trimmed = [] \<or> trimmed = ''unknown'' then ''unknown''
         else (let n = runeCount trimmed; rs = runes trimmed
               in if n \<le> 4 then replicate n (CHR ''*'')
                  else if n \<le> 8 then concat (take 1 rs) @ replicate (n - 2) (CHR ''*'') @ concat (drop (n - 1) rs)
                  else concat (take 4 rs) @ replicate (n - 8) (CHR ''*'') @ concat (drop (n - 4) rs)))"

section \<open>Snapshots\<close>

definition cloneIntMap :: "(string \<rightharpoonup> i64) \<Rightarrow> string \<rightharpoonup> i64" where
  "cloneIntMap src = src"

definition cloneModelSnapshot :: "modelSnapshot \<Rightarrow> modelSnapshot" where
  "cloneModelSnapshot src =
     emptyModel\<lparr>sn_TotalRequests := sn_TotalRequests src, sn_SuccessCount := sn_SuccessCount src,
       sn_FailureCount := sn_FailureCount src, sn_TotalTokens := sn_TotalTokens src, mn_Details := mn_Details src\<rparr>"

definition cloneAPISnapshot :: "apiSnapshot \<Rightarrow> apiSnapshot" where
  "cloneAPISnapshot src =
     emptyAPI\<lparr>an_DisplayName := an_DisplayName src, sn_TotalRequests := sn_TotalRequests src,
       sn_SuccessCount := sn_SuccessCount src, sn_FailureCount := sn_FailureCount src,
       sn_TotalTokens := sn_TotalTokens src, an_Models := (\<lambda>m. map_option cloneModelSnapshot (an_Models src m))\<rparr>"

definition redactAPI :: "(string \<rightharpoonup> apiSnapshot) \<Rightarrow> string \<Rightarrow> (string \<rightharpoonup> apiSnapshot) \<Rightarrow> string \<rightharpoonup> apiSnapshot" where
  "redactAPI apis apiKey redacted =
     (case apis apiKey of
        None \<Rightarrow> redacted
      | Some api \<Rightarrow> redacted(apiAlias apiKey \<mapsto> (cloneAPISnapshot api)\<lparr>an_DisplayName := apiKeyDisplayName apiKey\<rparr>))"

definition redactUsageSnapshot :: "string list \<Rightarrow> statisticsSnapshot option \<Rightarrow> statisticsSnapshot option" where
  "redactUsageSnapshot order snapshot =
     map_option (\<lambda>s. emptySnapshot\<lparr>sn_TotalRequests := sn_TotalRequests s, sn_SuccessCount := sn_SuccessCount s,
         sn_FailureCount := sn_FailureCount s, sn_TotalTokens := sn_TotalTokens s,
         st_APIs := fold (redactAPI (st_APIs s)) order Map.empty,
         st_RequestsByDay := cloneIntMap (st_RequestsByDay s), st_RequestsByHour := cloneIntMap (st_RequestsByHour s),
         st_TokensByDay := cloneIntMap (st_TokensByDay s), st_TokensByHour := cloneIntMap (st_TokensByHour s)\<rparr>) snapshot"

section \<open>What a redacted key tells\<close>


lemma fold_redact_mem:
  "fold (redactAPI apis) order m k = Some a \<Longrightarrow> m k = Some a \<or>
     (\<exists>key api. key \<in> set order \<and> apis key = Some api \<and> k = apiAlias key \<and>
        a = (cloneAPISnapshot api)\<lparr>an_DisplayName := apiKeyDisplayName key\<rparr>)"
proof (induction order arbitrary: m)
  case (Cons key order)
  from Cons.IH [of "redactAPI apis key m"] Cons.prems show ?case
    by (auto simp: redactAPI_def split: option.splits if_splits)
qed simp






text \<open>
  The counters of a level in the copy: four are those of the original, the number of attempts with
  valid accounting is lost.
\<close>

definition redactedCounts :: "'a usageTally_scheme \<Rightarrow> 'b usageTally_scheme \<Rightarrow> bool" where
  "redactedCounts t u \<longleftrightarrow> sn_TotalRequests t = sn_TotalRequests u \<and> sn_SuccessCount t = sn_SuccessCount u \<and>
     sn_FailureCount t = sn_FailureCount u \<and> sn_TotalTokens t = sn_TotalTokens u \<and>
     sn_CanonicalValidAttempts t = 0"

definition sameModels :: "apiSnapshot \<Rightarrow> apiSnapshot \<Rightarrow> bool" where
  "sameModels a b \<longleftrightarrow> (\<forall>m. case an_Models a m of
     None \<Rightarrow> an_Models b m = None
   | Some x \<Rightarrow> \<exists>y. an_Models b m = Some y \<and> redactedCounts x y \<and> mn_Details x = mn_Details y)"


lemma redactedCounts_name [simp]: "redactedCounts (a\<lparr>an_DisplayName := d\<rparr>) b = redactedCounts a b"
  by (simp add: redactedCounts_def)

lemma sameModels_name [simp]: "sameModels (a\<lparr>an_DisplayName := d\<rparr>) b = sameModels a b"
  by (simp add: sameModels_def)


text \<open>
  The redacted snapshot has lost the count of the attempts with valid accounting, at every level: it is
  zero whatever the snapshot counted.
\<close>
theorem redaction_loses_canonical:
  assumes res: "redactUsageSnapshot order (Some s) = Some r"
  shows "sn_CanonicalValidAttempts r = 0 \<and>
    (\<forall>k a. st_APIs r k = Some a \<longrightarrow> sn_CanonicalValidAttempts a = 0 \<and>
      (\<forall>m x. an_Models a m = Some x \<longrightarrow> sn_CanonicalValidAttempts x = 0))"
proof -
  have "st_APIs r = fold (redactAPI (st_APIs s)) order Map.empty" "sn_CanonicalValidAttempts r = 0"
    using res by (auto simp: redactUsageSnapshot_def emptySnapshot_def)
  moreover have "sn_CanonicalValidAttempts a = 0 \<and> (\<forall>m x. an_Models a m = Some x \<longrightarrow> sn_CanonicalValidAttempts x = 0)"
    if "fold (redactAPI (st_APIs s)) order Map.empty k = Some a" for k a
    using fold_redact_mem [OF that]
    by (auto simp: cloneAPISnapshot_def cloneModelSnapshot_def emptyAPI_def emptyModel_def)
  ultimately show ?thesis by auto
qed

theorem redaction_loses_canonical_witness:
  "\<exists>s r. buildUsageSnapshotFromEvents (fixedZone 0) [sampleEvent] = Some s \<and> sn_CanonicalValidAttempts s = 1 \<and>
     redactUsageSnapshot [''sk-a''] (Some s) = Some r \<and> sn_CanonicalValidAttempts r = 0"
proof -
  have "map_option sn_CanonicalValidAttempts (buildUsageSnapshotFromEvents (fixedZone 0) [sampleEvent]) = Some 1"
    by code_simp
  then obtain s where s: "buildUsageSnapshotFromEvents (fixedZone 0) [sampleEvent] = Some s" "sn_CanonicalValidAttempts s = 1"
    by auto
  have "redactUsageSnapshot [''sk-a''] (Some s) \<noteq> None" by (simp add: redactUsageSnapshot_def)
  then obtain r where r: "redactUsageSnapshot [''sk-a''] (Some s) = Some r" by blast
  from s r redaction_loses_canonical [OF r] show ?thesis by blast
qed



end
