(* ===== verification/KeyAliases.thy ===== *)
theory KeyAliases
  imports Redact MetadataSync IdentitySync
begin

text \<open>
  The readable aliases of accounts and API keys: the table (\<open>repository/key_alias.go\<close>), the API keys seen in the
  events (\<open>ListAPIKeySources\<close> of \<open>repository/api_key_alias_targets.go\<close>, the identity expression of
  \<open>repository/analytics_sql.go\<close>) and the service (\<open>service/key_alias_service.go\<close>). The table refines a map from
  keys to aliases. Failing statements are not modelled.
\<close>

section \<open>The table\<close>

record keyAlias =
  ka_AuthType :: authType
  ka_Identity :: string
  ka_Alias :: string
  ka_CreatedAt :: instant
  ka_UpdatedAt :: instant

type_synonym keyAliasKey = "authType \<times> string"
type_synonym aliasTable = "keyAlias table"

definition KeyAliasMaxLength :: nat where "KeyAliasMaxLength = 80"
definition keyAliasLookupBatchSize :: nat where "keyAliasLookupBatchSize = 400"
definition ErrInvalidKeyAlias :: goErr where "ErrInvalidKeyAlias = PlainError ''invalid key alias''"
definition ErrKeyAliasNotFound :: goErr where "ErrKeyAliasNotFound = PlainError ''key alias not found''"

definition keyOf :: "keyAlias \<Rightarrow> keyAliasKey" where
  "keyOf r = (ka_AuthType r, ka_Identity r)"

definition normalizeKeyAlias :: "string \<Rightarrow> goErr + string" where
  "normalizeKeyAlias input =
     (let t = trimSpace input
      in if t = [] then Inr [] else if KeyAliasMaxLength < runeCount t then Inl ErrInvalidKeyAlias else Inr t)"

definition normalizeKeyAliasKey :: "authType \<Rightarrow> string \<Rightarrow> goErr + keyAliasKey" where
  "normalizeKeyAliasKey kind identity =
     (if \<not> authTypeValid kind then Inl ErrInvalidKeyAlias
      else if trimSpace identity = [] then Inl ErrInvalidKeyAlias
      else Inr (kind, trimSpace identity))"

definition getKeyAlias :: "authType \<Rightarrow> string \<Rightarrow> aliasTable \<Rightarrow> goErr + keyAlias" where
  "getKeyAlias kind identity t =
     (case normalizeKeyAliasKey kind identity of
        Inl e \<Rightarrow> Inl e
      | Inr key \<Rightarrow> (case selectWhere (\<lambda>_ r. keyOf r = key) t of
            [] \<Rightarrow> Inl ErrKeyAliasNotFound
          | (_, r) # _ \<Rightarrow> Inr r))"

text \<open>The insert whose conflict on the unique key updates the alias and the time of the change.\<close>

definition upsertKeyAlias :: "keyAliasKey \<Rightarrow> string \<Rightarrow> instant \<Rightarrow> aliasTable \<Rightarrow> aliasTable" where
  "upsertKeyAlias key input now t =
     (if selectWhere (\<lambda>_ r. keyOf r = key) t = []
      then insertRows [\<lparr>ka_AuthType = fst key, ka_Identity = snd key, ka_Alias = input, ka_CreatedAt = now, ka_UpdatedAt = now\<rparr>] t
      else updateWhere (\<lambda>_ r. keyOf r = key) (\<lambda>_ r. r\<lparr>ka_Alias := input, ka_UpdatedAt := now\<rparr>) t)"

definition setKeyAlias :: "authType \<Rightarrow> string \<Rightarrow> string \<Rightarrow> instant \<Rightarrow> aliasTable \<Rightarrow> aliasTable \<times> (goErr + keyAlias)" where
  "setKeyAlias kind identity input now t =
     (case normalizeKeyAliasKey kind identity of
        Inl e \<Rightarrow> (t, Inl e)
      | Inr key \<Rightarrow> (case normalizeKeyAlias input of
            Inl e \<Rightarrow> (t, Inl e)
          | Inr normalized \<Rightarrow>
              (let t' = upsertKeyAlias key normalized now t in (t', getKeyAlias (fst key) (snd key) t'))))"

definition clearKeyAlias :: "authType \<Rightarrow> string \<Rightarrow> aliasTable \<Rightarrow> aliasTable \<times> goErr option" where
  "clearKeyAlias kind identity t =
     (case normalizeKeyAliasKey kind identity of
        Inl e \<Rightarrow> (t, Some e)
      | Inr key \<Rightarrow> (deleteWhere (\<lambda>_ r. keyOf r = key) t, None))"

definition normalizeKey :: "keyAliasKey \<Rightarrow> keyAliasKey list \<Rightarrow> keyAliasKey list" where
  "normalizeKey raw normalized =
     (case normalizeKeyAliasKey (fst raw) (snd raw) of
        Inl _ \<Rightarrow> normalized
      | Inr key \<Rightarrow> if key \<in> set normalized then normalized else normalized @ [key])"

definition collectRows :: "aliasTable \<Rightarrow> authType \<Rightarrow> string list \<Rightarrow> (keyAliasKey \<rightharpoonup> keyAlias) \<Rightarrow> keyAliasKey \<rightharpoonup> keyAlias" where
  "collectRows t kind identities result =
     fold (\<lambda>(_, row) m. m(keyOf row \<mapsto> row)) (selectWhere (\<lambda>_ r. ka_AuthType r = kind \<and> ka_Identity r \<in> set identities) t) result"

definition listKeyAliases :: "keyAliasKey list \<Rightarrow> aliasTable \<Rightarrow> keyAliasKey \<rightharpoonup> keyAlias" where
  "listKeyAliases keys t =
     (let normalized = fold normalizeKey keys [];
          authTypes = rev (remdups (rev (map fst normalized)))
      in fold (\<lambda>kind. fold (collectRows t kind)
             (batches keyAliasLookupBatchSize (map snd (filter (\<lambda>k. fst k = kind) normalized))))
           authTypes Map.empty)"

section \<open>API keys\<close>

text \<open>SQLite's \<open>LIKE\<close> does not tell the cases of ASCII letters apart.\<close>

definition likeKey :: "string \<Rightarrow> bool" where
  "likeKey s \<longleftrightarrow> toLower (take 3 s) = ''sk-''"

definition analyticsAPIKeyIdentitySQL :: "usageEvent \<Rightarrow> string" where
  "analyticsAPIKeyIdentitySQL e =
     (if likeKey (sqlTrim (ev_APIGroupKey e)) then sqlTrim (ev_APIGroupKey e)
      else if sqlTrim (ev_AuthType e) = UsageIdentityAuthTypeNameAPIKey \<and> likeKey (sqlTrim (ev_Source e))
      then sqlTrim (ev_Source e)
      else [])"

definition listAPIKeySources :: "usageEvent list \<Rightarrow> string list" where
  "listAPIKeySources stored =
     filter (\<lambda>v. v \<noteq> []) (map trimSpace
       (sort (remdups (filter (\<lambda>v. v \<noteq> []) (map analyticsAPIKeyIdentitySQL stored)))))"

section \<open>The service\<close>

definition listAliasesForUsageIdentities :: "usageIdentity list \<Rightarrow> aliasTable \<Rightarrow> keyAliasKey \<rightharpoonup> string" where
  "listAliasesForUsageIdentities identities t =
     map_option ka_Alias \<circ> listKeyAliases (map (\<lambda>r. (ui_AuthType r, ui_Identity r)) identities) t"

definition listAliasesForAPIKeyIdentities :: "string list \<Rightarrow> aliasTable \<Rightarrow> string \<rightharpoonup> string" where
  "listAliasesForAPIKeyIdentities identities t =
     (\<lambda>i. map_option ka_Alias (listKeyAliases (map (\<lambda>i. (UsageIdentityAuthTypeAIProvider, i)) identities) t
        (UsageIdentityAuthTypeAIProvider, i)))"

definition getUsageIdentityAlias :: "nat \<Rightarrow> identityTable \<Rightarrow> aliasTable \<Rightarrow> goErr + string" where
  "getUsageIdentityAlias i identities t =
     (case getUsageIdentityByID i identities of
        None \<Rightarrow> Inl ErrUsageIdentityMissing
      | Some identity \<Rightarrow> (case getKeyAlias (ui_AuthType identity) (ui_Identity identity) t of
            Inl e \<Rightarrow> if errIs e ErrKeyAliasNotFound then Inr [] else Inl e
          | Inr row \<Rightarrow> Inr (ka_Alias row)))"

text \<open>What both setters do once they know the key: an empty alias clears, another one is stored.\<close>

definition setAlias ::
  "string \<Rightarrow> authType \<Rightarrow> string \<Rightarrow> string \<Rightarrow> instant \<Rightarrow> aliasTable \<Rightarrow> aliasTable \<times> (goErr + string)" where
  "setAlias what kind identity input now t =
     (case normalizeKeyAlias input of
        Inl e \<Rightarrow> (t, Inl e)
      | Inr normalized \<Rightarrow>
          if normalized = [] then
            (case clearKeyAlias kind identity t of (t', None) \<Rightarrow> (t', Inr []) | (t', Some e) \<Rightarrow> (t', Inl e))
          else (case setKeyAlias kind identity normalized now t of
              (t', Inl e) \<Rightarrow> (t', Inl (wrap what e))
            | (t', Inr row) \<Rightarrow> (t', Inr (ka_Alias row))))"

definition setUsageIdentityAlias ::
  "nat \<Rightarrow> string \<Rightarrow> instant \<Rightarrow> identityTable \<Rightarrow> aliasTable \<Rightarrow> aliasTable \<times> (goErr + string)" where
  "setUsageIdentityAlias i input now identities t =
     (case getUsageIdentityByID i identities of
        None \<Rightarrow> (t, Inl ErrUsageIdentityMissing)
      | Some identity \<Rightarrow>
          setAlias ''set usage identity alias: '' (ui_AuthType identity) (ui_Identity identity) input now t)"

definition clearUsageIdentityAlias :: "nat \<Rightarrow> identityTable \<Rightarrow> aliasTable \<Rightarrow> aliasTable \<times> goErr option" where
  "clearUsageIdentityAlias i identities t =
     (case getUsageIdentityByID i identities of
        None \<Rightarrow> (t, Some ErrUsageIdentityMissing)
      | Some identity \<Rightarrow> clearKeyAlias (ui_AuthType identity) (ui_Identity identity) t)"

definition resolveAPIKeyAliasIdentity :: "string \<Rightarrow> usageEvent list \<Rightarrow> goErr + string" where
  "resolveAPIKeyAliasIdentity apiKeyID stored =
     (case find (\<lambda>source. apiAlias source = apiKeyID) (listAPIKeySources stored) of
        Some source \<Rightarrow> Inr source
      | None \<Rightarrow> Inl ErrUsageIdentityMissing)"

definition setAPIKeyAlias ::
  "string \<Rightarrow> string \<Rightarrow> instant \<Rightarrow> usageEvent list \<Rightarrow> aliasTable \<Rightarrow> aliasTable \<times> (goErr + string)" where
  "setAPIKeyAlias apiKeyID input now stored t =
     (case resolveAPIKeyAliasIdentity apiKeyID stored of
        Inl e \<Rightarrow> (t, Inl e)
      | Inr identity \<Rightarrow> setAlias ''set api key alias: '' UsageIdentityAuthTypeAIProvider identity input now t)"

definition clearAPIKeyAlias :: "string \<Rightarrow> usageEvent list \<Rightarrow> aliasTable \<Rightarrow> aliasTable \<times> goErr option" where
  "clearAPIKeyAlias apiKeyID stored t =
     (case resolveAPIKeyAliasIdentity apiKeyID stored of
        Inl e \<Rightarrow> (t, Some e)
      | Inr identity \<Rightarrow> clearKeyAlias UsageIdentityAuthTypeAIProvider identity t)"

section \<open>The table as a map\<close>

definition rowOf :: "aliasTable \<Rightarrow> keyAliasKey \<Rightarrow> keyAlias option" where
  "rowOf t k = map_option snd (find (\<lambda>(_, r). keyOf r = k) (tbl_rows t))"

definition aliasOf :: "aliasTable \<Rightarrow> keyAliasKey \<rightharpoonup> string" where
  "aliasOf t k = map_option ka_Alias (rowOf t k)"

definition aliasRowOK :: "keyAlias \<Rightarrow> bool" where
  "aliasRowOK r \<longleftrightarrow> authTypeValid (ka_AuthType r) \<and> trimmed (ka_Identity r) \<and> ka_Identity r \<noteq> [] \<and>
     trimmed (ka_Alias r) \<and> ka_Alias r \<noteq> [] \<and> runeCount (ka_Alias r) \<le> KeyAliasMaxLength"

definition aliasTableOK :: "aliasTable \<Rightarrow> bool" where
  "aliasTableOK t \<longleftrightarrow> tableOK t \<and> distinct (map (keyOf \<circ> snd) (tbl_rows t)) \<and> (\<forall>(i, r) \<in> set (tbl_rows t). aliasRowOK r)"

lemma find_filter: "find P xs = (case filter P xs of [] \<Rightarrow> None | x # _ \<Rightarrow> Some x)"
  by (induction xs) auto

lemma select_rowOf:
  "(case selectWhere (\<lambda>_ r. keyOf r = k) t of [] \<Rightarrow> a | (i, r) # _ \<Rightarrow> f r) = (case rowOf t k of None \<Rightarrow> a | Some r \<Rightarrow> f r)"
  by (simp add: rowOf_def selectWhere_def find_filter split: list.splits)

lemma select_empty: "selectWhere (\<lambda>_ r. keyOf r = k) t = [] \<longleftrightarrow> rowOf t k = None"
  by (simp add: rowOf_def selectWhere_def find_filter split: list.splits)

lemma rowOf_key: "rowOf t k = Some r \<Longrightarrow> keyOf r = k \<and> r \<in> snd ` set (tbl_rows t)"
proof -
  assume "rowOf t k = Some r"
  then obtain i where "find (\<lambda>(_, r). keyOf r = k) (tbl_rows t) = Some (i, r)" by (auto simp: rowOf_def)
  then have "(i, r) \<in> set (tbl_rows t) \<and> keyOf r = k" by (auto simp: find_Some_iff) (metis nth_mem)
  then show ?thesis by force
qed

lemma rowOf_insert: "rowOf t (keyOf r) = None \<Longrightarrow> rowOf (insertRows [r] t) = (rowOf t)(keyOf r \<mapsto> r)"
proof (rule ext)
  fix k assume "rowOf t (keyOf r) = None"
  moreover have "find P (xs @ [x]) = (case find P xs of None \<Rightarrow> if P x then Some x else None | Some y \<Rightarrow> Some y)"
    for P xs and x :: "nat \<times> keyAlias" by (induction xs) auto
  ultimately show "rowOf (insertRows [r] t) k = ((rowOf t)(keyOf r \<mapsto> r)) k"
    by (auto simp: rowOf_def insertRows_def newRows_def split: option.splits)
qed

lemma rowOf_update:
  assumes "\<And>r. keyOf (f r) = keyOf r"
  shows "rowOf (updateWhere (\<lambda>_ r. keyOf r = k) (\<lambda>_. f) t) = (rowOf t)(k := map_option f (rowOf t k))"
proof (rule ext)
  fix k'
  have "find (\<lambda>(_, r). keyOf r = k') (map (\<lambda>(i, r). (i, if keyOf r = k then f r else r)) rows) =
      map_option (\<lambda>(i, r). (i, if k' = k then f r else r)) (find (\<lambda>(_, r). keyOf r = k') rows)" for rows :: "(nat \<times> keyAlias) list"
  proof (induction rows)
    case (Cons x rows)
    have "keyOf (if keyOf r = k then f r else r) = keyOf r" for r using assms by simp
    with Cons show ?case by (cases x) (auto simp: assms)
  qed simp
  then show "rowOf (updateWhere (\<lambda>_ r. keyOf r = k) (\<lambda>_. f) t) k' = ((rowOf t)(k := map_option f (rowOf t k))) k'"
    by (cases "find (\<lambda>(_, r). keyOf r = k') (tbl_rows t)") (auto simp: rowOf_def updateWhere_def)
qed

lemma rowOf_delete: "rowOf (deleteWhere (\<lambda>_ r. keyOf r = k) t) = (rowOf t)(k := None)"
proof (rule ext)
  fix k'
  have "find (\<lambda>(_, r). keyOf r = k') (filter (\<lambda>(i, r). keyOf r \<noteq> k) rows) =
      (if k' = k then None else find (\<lambda>(_, r). keyOf r = k') rows)" for rows :: "(nat \<times> keyAlias) list"
    by (induction rows) auto
  then show "rowOf (deleteWhere (\<lambda>_ r. keyOf r = k) t) k' = ((rowOf t)(k := None)) k'"
    by (simp add: rowOf_def deleteWhere_def)
qed

lemma getKeyAlias_row: "getKeyAlias kind identity t =
    (case normalizeKeyAliasKey kind identity of Inl e \<Rightarrow> Inl e
     | Inr key \<Rightarrow> (case rowOf t key of None \<Rightarrow> Inl ErrKeyAliasNotFound | Some r \<Rightarrow> Inr r))"
  unfolding getKeyAlias_def select_rowOf ..

lemma keyOf_update [simp]: "keyOf (r\<lparr>ka_Alias := a, ka_UpdatedAt := now\<rparr>) = keyOf r"
  by (simp add: keyOf_def)

lemma aliasOf_upsert: "aliasOf (upsertKeyAlias k input now t) = (aliasOf t)(k \<mapsto> input)"
proof (cases "rowOf t k")
  case None
  let ?r = "\<lparr>ka_AuthType = fst k, ka_Identity = snd k, ka_Alias = input, ka_CreatedAt = now, ka_UpdatedAt = now\<rparr>"
  have "keyOf ?r = k" by (simp add: keyOf_def)
  with None rowOf_insert [of t ?r] show ?thesis
    by (auto simp: upsertKeyAlias_def select_empty aliasOf_def fun_eq_iff)
next
  case (Some r)
  then show ?thesis
    by (auto simp: upsertKeyAlias_def select_empty aliasOf_def fun_eq_iff rowOf_update)
qed

lemma aliasOf_delete: "aliasOf (deleteWhere (\<lambda>_ r. keyOf r = k) t) = (aliasOf t)(k := None)"
  by (simp add: aliasOf_def fun_eq_iff rowOf_delete)

lemma alias_upsert_ok:
  assumes ok: "aliasTableOK t" and k: "authTypeValid (fst k)" "trimmed (snd k)" "snd k \<noteq> []"
    and al: "trimmed input" "input \<noteq> []" "runeCount input \<le> KeyAliasMaxLength"
  shows "aliasTableOK (upsertKeyAlias k input now t)"
proof (cases "rowOf t k")
  case None
  define r where "r = \<lparr>ka_AuthType = fst k, ka_Identity = snd k, ka_Alias = input, ka_CreatedAt = now, ka_UpdatedAt = now\<rparr>"
  have row: "aliasRowOK r" "keyOf r = k" using k al by (simp_all add: aliasRowOK_def keyOf_def r_def)
  have "find (\<lambda>(_, r). keyOf r = k) (tbl_rows t) = None" using None by (simp add: rowOf_def)
  then have new: "k \<notin> (keyOf \<circ> snd) ` set (tbl_rows t)" by (force simp: find_None_iff)
  have rows: "tbl_rows (insertRows [r] t) = tbl_rows t @ [(tbl_next t, r)]" by (simp add: insertRows_def newRows_def)
  have "distinct (map (keyOf \<circ> snd) (tbl_rows (insertRows [r] t)))"
    using ok new unfolding rows by (simp add: aliasTableOK_def row(2))
  then have "aliasTableOK (insertRows [r] t)"
    using ok row(1) insertRows_ok [of t "[r]"] rows by (simp add: aliasTableOK_def)
  with None show ?thesis by (simp add: upsertKeyAlias_def select_empty r_def)
next
  case (Some r)
  let ?f = "\<lambda>r. r\<lparr>ka_Alias := input, ka_UpdatedAt := now\<rparr>"
  let ?t = "updateWhere (\<lambda>_ r. keyOf r = k) (\<lambda>_. ?f) t"
  have rows: "tbl_rows ?t = map (\<lambda>(i, r). (i, if keyOf r = k then ?f r else r)) (tbl_rows t)" by (simp add: updateWhere_def)
  have "map (keyOf \<circ> snd) (tbl_rows ?t) = map (keyOf \<circ> snd) (tbl_rows t)"
    unfolding rows map_map by (intro map_cong) auto
  moreover have "aliasRowOK r \<Longrightarrow> aliasRowOK (?f r)" for r using al by (simp add: aliasRowOK_def)
  then have "\<forall>(i, r) \<in> set (tbl_rows ?t). aliasRowOK r" using ok unfolding rows aliasTableOK_def by auto
  ultimately have "aliasTableOK ?t" using ok updateWhere_ok [of t] by (simp add: aliasTableOK_def)
  with Some show ?thesis by (simp add: upsertKeyAlias_def select_empty)
qed

lemma alias_delete_ok: "aliasTableOK t \<Longrightarrow> aliasTableOK (deleteWhere P t)"
proof -
  assume ok: "aliasTableOK t"
  have rows: "tbl_rows (deleteWhere P t) = filter (\<lambda>(i, r). \<not> P i r) (tbl_rows t)" by (simp add: deleteWhere_def)
  have "distinct (map (keyOf \<circ> snd) (tbl_rows (deleteWhere P t)))"
    using ok unfolding rows aliasTableOK_def by (simp add: distinct_map_filter)
  moreover have "\<forall>(i, r) \<in> set (tbl_rows (deleteWhere P t)). aliasRowOK r" using ok unfolding rows aliasTableOK_def by auto
  ultimately show ?thesis using ok by (simp add: aliasTableOK_def deleteWhere_ok)
qed

text \<open>Storing an alias for a key that can be normalised.\<close>

lemma setAlias_spec:
  assumes ok: "aliasTableOK t" and key: "normalizeKeyAliasKey kind identity = Inr k"
  shows "(case setAlias what kind identity input now t of
      (t', Inr shown) \<Rightarrow> aliasTableOK t' \<and> shown = trimSpace input \<and> runeCount shown \<le> KeyAliasMaxLength \<and>
        aliasOf t' = (aliasOf t)(k := (if shown = [] then None else Some shown))
    | (t', Inl e) \<Rightarrow> t' = t \<and> KeyAliasMaxLength < runeCount (trimSpace input))"
proof (cases "KeyAliasMaxLength < runeCount (trimSpace input)")
  case True
  then have "trimSpace input \<noteq> []" by (auto simp: runeCount_def)
  with True show ?thesis by (simp add: setAlias_def normalizeKeyAlias_def Let_def)
next
  case False
  have k: "authTypeValid (fst k)" "trimmed (snd k)" "snd k \<noteq> []" "k = (kind, trimSpace identity)"
    using key by (auto simp: normalizeKeyAliasKey_def split: if_splits)
  then have again: "normalizeKeyAliasKey (fst k) (snd k) = Inr k" by (auto simp: normalizeKeyAliasKey_def trimSpace_id)
  show ?thesis
  proof (cases "trimSpace input = []")
    case True
    then show ?thesis using alias_delete_ok [OF ok]
      by (simp add: setAlias_def normalizeKeyAlias_def clearKeyAlias_def key aliasOf_delete runeCount_def)
  next
    case nonempty: False
    let ?t = "upsertKeyAlias k (trimSpace input) now t"
    have n: "normalizeKeyAlias input = Inr (trimSpace input)" "normalizeKeyAlias (trimSpace input) = Inr (trimSpace input)"
      using False nonempty by (simp_all add: normalizeKeyAlias_def Let_def)
    have "aliasOf ?t k = Some (trimSpace input)" by (simp add: aliasOf_upsert)
    then obtain r where r: "rowOf ?t k = Some r" "ka_Alias r = trimSpace input" by (auto simp: aliasOf_def)
    have "aliasTableOK ?t" using False nonempty k(1-3) by (intro alias_upsert_ok [OF ok]) simp_all
    then show ?thesis using False nonempty r
      by (simp add: setAlias_def n setKeyAlias_def key Let_def getKeyAlias_row again aliasOf_upsert)
  qed
qed

section \<open>Listing\<close>

lemma normalizeKey_set:
  "distinct acc \<Longrightarrow> distinct (fold normalizeKey keys acc) \<and>
     set (fold normalizeKey keys acc) = set acc \<union> {k. \<exists>raw \<in> set keys. normalizeKeyAliasKey (fst raw) (snd raw) = Inr k}"
  by (induction keys arbitrary: acc) (auto simp: normalizeKey_def split: sum.splits)

lemma fold_rows:
  assumes "distinct (map (keyOf \<circ> snd) rows)"
  shows "fold (\<lambda>(_, row) m. m(keyOf row \<mapsto> row)) (filter (\<lambda>(i, r). P (keyOf r)) rows) m k =
    (case find (\<lambda>(_, r). keyOf r = k) rows of None \<Rightarrow> m k | Some (i, r) \<Rightarrow> if P k then Some r else m k)"
  using assms
proof (induction rows arbitrary: m)
  case (Cons x rows)
  obtain i r where x: "x = (i, r)" by (cases x)
  have "find (\<lambda>(_, r). keyOf r = k) rows = None" if "keyOf r = k"
    using Cons.prems that by (force simp: x find_None_iff)
  with Cons show ?case by (auto simp: x split: option.splits)
qed simp

lemma collectRows_apply:
  assumes "aliasTableOK t"
  shows "collectRows t kind identities m k =
    (if fst k = kind \<and> snd k \<in> set identities \<and> rowOf t k \<noteq> None then rowOf t k else m k)"
proof -
  have "distinct (map (keyOf \<circ> snd) (tbl_rows t))" using assms by (simp add: aliasTableOK_def)
  from fold_rows [OF this, of "\<lambda>k. fst k = kind \<and> snd k \<in> set identities" m k]
  show ?thesis by (simp add: collectRows_def selectWhere_def rowOf_def keyOf_def split: option.splits prod.splits)
qed

lemma collect_batches:
  assumes "aliasTableOK t"
  shows "fold (collectRows t kind) bs m k =
    (if fst k = kind \<and> snd k \<in> set (concat bs) \<and> rowOf t k \<noteq> None then rowOf t k else m k)"
  by (induction bs arbitrary: m) (auto simp: collectRows_apply [OF assms])

lemma collect_types:
  assumes "aliasTableOK t"
  shows "fold (\<lambda>kind. fold (collectRows t kind) (batches keyAliasLookupBatchSize (ids kind))) kinds m k =
    (if fst k \<in> set kinds \<and> snd k \<in> set (ids (fst k)) \<and> rowOf t k \<noteq> None then rowOf t k else m k)"
  by (induction kinds arbitrary: m) (auto simp: collect_batches [OF assms] keyAliasLookupBatchSize_def)

lemma listKeyAliases_rows:
  assumes "aliasTableOK t"
  shows "listKeyAliases keys t k =
    (if \<exists>raw \<in> set keys. normalizeKeyAliasKey (fst raw) (snd raw) = Inr k then rowOf t k else None)"
proof -
  let ?n = "fold normalizeKey keys []"
  have n: "set ?n = {k. \<exists>raw \<in> set keys. normalizeKeyAliasKey (fst raw) (snd raw) = Inr k}"
    using normalizeKey_set [of "[]" keys] by simp
  have "snd k \<in> set (map snd (filter (\<lambda>j. fst j = fst k) ?n)) \<longleftrightarrow> k \<in> set ?n" by (cases k) force
  moreover have "k \<in> set ?n \<Longrightarrow> fst k \<in> set (rev (remdups (rev (map fst ?n))))" by simp
  moreover have "(\<exists>raw \<in> set keys. normalizeKeyAliasKey (fst raw) (snd raw) = Inr k) \<longleftrightarrow> k \<in> set ?n"
    unfolding n by blast
  ultimately show ?thesis unfolding listKeyAliases_def Let_def collect_types [OF assms]
    by (cases "k \<in> set ?n"; cases "rowOf t k") (simp_all del: set_map set_filter)
qed

section \<open>Properties\<close>

text \<open>
  C40. The alias table is a map from accounts to aliases. Setting an alias changes that of the account alone, to the
  trimmed input, which clears it when it is empty, and is refused exactly for an input of more than eighty
  characters, then leaving everything as it was; clearing forgets that account alone; reading one and listing
  many return what the map holds; and the table stays well formed.
\<close>
theorem key_aliases_refine:
  assumes ok: "aliasTableOK t" and identity: "getUsageIdentityByID i identities = Some r"
    and key: "normalizeKeyAliasKey (ui_AuthType r) (ui_Identity r) = Inr k"
  shows "(case setUsageIdentityAlias i input now identities t of
      (t', Inr shown) \<Rightarrow> aliasTableOK t' \<and> shown = trimSpace input \<and> runeCount shown \<le> KeyAliasMaxLength \<and>
        aliasOf t' = (aliasOf t)(k := (if shown = [] then None else Some shown))
    | (t', Inl e) \<Rightarrow> t' = t \<and> KeyAliasMaxLength < runeCount (trimSpace input)) \<and>
    (\<exists>t'. clearUsageIdentityAlias i identities t = (t', None) \<and> aliasTableOK t' \<and> aliasOf t' = (aliasOf t)(k := None)) \<and>
    getUsageIdentityAlias i identities t = Inr (case aliasOf t k of None \<Rightarrow> [] | Some a \<Rightarrow> a) \<and>
    (r \<in> set rs \<longrightarrow> listAliasesForUsageIdentities rs t k = aliasOf t k)"
proof (intro conjI impI)
  show "case setUsageIdentityAlias i input now identities t of
      (t', Inr shown) \<Rightarrow> aliasTableOK t' \<and> shown = trimSpace input \<and> runeCount shown \<le> KeyAliasMaxLength \<and>
        aliasOf t' = (aliasOf t)(k := (if shown = [] then None else Some shown))
    | (t', Inl e) \<Rightarrow> t' = t \<and> KeyAliasMaxLength < runeCount (trimSpace input)"
    using setAlias_spec [OF ok key, where what = "''set usage identity alias: ''" and input = input and now = now]
    unfolding setUsageIdentityAlias_def identity option.case .
  show "\<exists>t'. clearUsageIdentityAlias i identities t = (t', None) \<and> aliasTableOK t' \<and> aliasOf t' = (aliasOf t)(k := None)"
    using alias_delete_ok [OF ok] by (simp add: clearUsageIdentityAlias_def identity clearKeyAlias_def key aliasOf_delete)
  show "getUsageIdentityAlias i identities t = Inr (case aliasOf t k of None \<Rightarrow> [] | Some a \<Rightarrow> a)"
    by (simp add: getUsageIdentityAlias_def identity getKeyAlias_row key aliasOf_def ErrKeyAliasNotFound_def split: option.split)
  assume "r \<in> set rs"
  then have "\<exists>raw \<in> set (map (\<lambda>r. (ui_AuthType r, ui_Identity r)) rs). normalizeKeyAliasKey (fst raw) (snd raw) = Inr k"
    using key by force
  then show "listAliasesForUsageIdentities rs t k = aliasOf t k"
    by (simp add: listAliasesForUsageIdentities_def listKeyAliases_rows [OF ok] aliasOf_def)
qed

text \<open>An API key is named by its alias only: any other name changes nothing.\<close>

lemma setAPIKeyAlias_exact:
  assumes ok: "aliasTableOK t" and source: "source \<in> set (listAPIKeySources stored)"
    and apart: "\<forall>s \<in> set (listAPIKeySources stored). apiAlias s = apiAlias source \<longrightarrow> s = source"
  shows "(case setAPIKeyAlias (apiAlias source) input now stored t of
      (t', Inr shown) \<Rightarrow> aliasTableOK t' \<and> shown = trimSpace input \<and>
        aliasOf t' = (aliasOf t)((UsageIdentityAuthTypeAIProvider, source) := (if shown = [] then None else Some shown))
    | (t', Inl e) \<Rightarrow> t' = t \<and> KeyAliasMaxLength < runeCount (trimSpace input)) \<and>
    (\<forall>name. (\<forall>s \<in> set (listAPIKeySources stored). apiAlias s \<noteq> name) \<longrightarrow>
      setAPIKeyAlias name input now stored t = (t, Inl ErrUsageIdentityMissing))"
proof -
  have "find (\<lambda>s. apiAlias s = apiAlias source) xs = Some source"
    if "source \<in> set xs" "set xs \<subseteq> set (listAPIKeySources stored)" for xs
    using that apart by (induction xs) auto
  from this [OF source subset_refl] have f: "find (\<lambda>s. apiAlias s = apiAlias source) (listAPIKeySources stored) = Some source" .
  have "trimSpace source = source" "source \<noteq> []" using source by (auto simp: listAPIKeySources_def)
  then have key: "normalizeKeyAliasKey UsageIdentityAuthTypeAIProvider source = Inr (UsageIdentityAuthTypeAIProvider, source)"
    by (simp add: normalizeKeyAliasKey_def authTypeValid_def)
  have missing: "find (\<lambda>s. apiAlias s = name) (listAPIKeySources stored) = None"
    if "\<forall>s \<in> set (listAPIKeySources stored). apiAlias s \<noteq> name" for name
    using that by (simp add: find_None_iff)
  have resolved: "setAPIKeyAlias (apiAlias source) input now stored t =
      setAlias ''set api key alias: '' UsageIdentityAuthTypeAIProvider source input now t"
    by (simp add: setAPIKeyAlias_def resolveAPIKeyAliasIdentity_def f)
  have other: "\<forall>name. (\<forall>s \<in> set (listAPIKeySources stored). apiAlias s \<noteq> name) \<longrightarrow>
      setAPIKeyAlias name input now stored t = (t, Inl ErrUsageIdentityMissing)"
    by (simp add: setAPIKeyAlias_def resolveAPIKeyAliasIdentity_def missing)
  from setAlias_spec [OF ok key, where what = "''set api key alias: ''" and input = input and now = now]
  have "case setAPIKeyAlias (apiAlias source) input now stored t of
      (t', Inr shown) \<Rightarrow> aliasTableOK t' \<and> shown = trimSpace input \<and>
        aliasOf t' = (aliasOf t)((UsageIdentityAuthTypeAIProvider, source) := (if shown = [] then None else Some shown))
    | (t', Inl e) \<Rightarrow> t' = t \<and> KeyAliasMaxLength < runeCount (trimSpace input)"
    unfolding resolved by (simp split: prod.splits sum.splits)
  with other show ?thesis by blast
qed

text \<open>
  The SQL expression of the API key and the Go function agree on trimmed columns, except on the case of
  the prefix: a key that begins with \<open>SK-\<close> is a key for the one and none for the other, which the rollups,
  the evidence list and its aliases follow.
\<close>

lemma api_key_identity_agrees:
  assumes "trimmed (ev_APIGroupKey e)" "trimmed (ev_AuthType e)" "trimmed (ev_Source e)"
    and "\<forall>s \<in> {ev_APIGroupKey e, ev_Source e}. likeKey s \<longrightarrow> hasPrefix s ''sk-''"
  shows "analyticsAPIKeyIdentitySQL e = usageEventAPIKeyIdentity e"
proof -
  have "hasPrefix s ''sk-'' \<Longrightarrow> likeKey s" for s
  proof -
    assume "hasPrefix s ''sk-''"
    then have "take 3 s = ''sk-''" by (auto simp: prefix_def)
    moreover have "toLower ''sk-'' = ''sk-''" by code_simp
    ultimately show "likeKey s" by (simp add: likeKey_def)
  qed
  then have "likeKey s \<longleftrightarrow> hasPrefix s ''sk-''" if "s \<in> {ev_APIGroupKey e, ev_Source e}" for s using assms(4) that by blast
  then show ?thesis using assms(1-3)
    by (simp add: analyticsAPIKeyIdentitySQL_def usageEventAPIKeyIdentity_def sqlTrim_trimmed trimSpace_id Let_def)
qed

lemma api_key_identity_case:
  assumes "ev_APIGroupKey e = ''SK-a''" "ev_AuthType e = ''oauth''"
  shows "analyticsAPIKeyIdentitySQL e = ''SK-a'' \<and> usageEventAPIKeyIdentity e = []"
proof -
  have "sqlTrim ''SK-a'' = ''SK-a''" "trimSpace ''SK-a'' = ''SK-a''" "likeKey ''SK-a''" "trimSpace ''oauth'' = ''oauth''" by code_simp+
  with assms show ?thesis
    by (simp add: analyticsAPIKeyIdentitySQL_def usageEventAPIKeyIdentity_def UsageIdentityAuthTypeNameAPIKey_def Let_def)
qed

definition oneAccount :: usageIdentity where
  "oneAccount = emptyIdentity\<lparr>ui_AuthType := UsageIdentityAuthTypeAuthFile, ui_Identity := ''a''\<rparr>"

theorem key_aliases_refine_witness:
  "\<exists>t'. setUsageIdentityAlias 1 '' ops '' 0 (insertRows [oneAccount] emptyTable) emptyTable = (t', Inr ''ops'') \<and>
     aliasOf t' = [(UsageIdentityAuthTypeAuthFile, ''a'') \<mapsto> ''ops'']"
proof -
  let ?ids = "insertRows [oneAccount] emptyTable"
  have t: "trimSpace ''a'' = ''a''" "trimSpace '' ops '' = ''ops''" "runeCount ''ops'' = 3" by code_simp+
  have ok: "aliasTableOK emptyTable" by (simp add: aliasTableOK_def) (simp add: emptyTable_def)
  have i: "getUsageIdentityByID 1 ?ids = Some oneAccount"
    by (simp add: getUsageIdentityByID_def lookupRow_def insertRows_def newRows_def emptyTable_def)
  have k: "normalizeKeyAliasKey (ui_AuthType oneAccount) (ui_Identity oneAccount) = Inr (UsageIdentityAuthTypeAuthFile, ''a'')"
    by (simp add: normalizeKeyAliasKey_def oneAccount_def authTypeValid_def t)
  have none: "aliasOf emptyTable = Map.empty" by (simp add: aliasOf_def rowOf_def emptyTable_def fun_eq_iff)
  from conjunct1 [OF key_aliases_refine [OF ok i k, of "'' ops ''" 0 "[]"]] show ?thesis
    by (auto simp: t none KeyAliasMaxLength_def split: prod.splits sum.splits)
qed

end
