(* ===== verification/Spec2Isabelle.thy ===== *)
theory Spec2Isabelle
  imports Intake Transactions AnalyticsCore Breakdowns Trend LoginGuard QueueClient DrainRuns QuotaRefresh QuotaStore MetadataSync ModelSupport UpdateCheck UsageFilter KeyAliases
begin

text \<open>
  Verification of \<open>cpa-usage\<close>, a service that drains the usage queue of a CPA proxy into SQLite, keeps hourly
  aggregates and account metadata beside the events, and answers usage analytics over HTTP. The theories
  are translated from the Go sources under \<open>src/internal\<close>; a definition has the name of the function, method or type
  it models, and the fields of a record are those of the struct behind a short prefix.

  \<^bold>\<open>Conventions.\<close> A Go string is the list of its bytes; an \<open>int64\<close> counter is a 64-bit word that wraps; an \<open>int\<close>
  is an integer, wrapped or bounded where the code can reach the end of its range; a \<open>float64\<close> is an exact
  rational; an instant is a number of nanoseconds; a nil pointer is \<open>None\<close>; an error is a value of \<open>goErr\<close> or of a
  datatype of the component; a panic or a run that does not return is \<open>None\<close>. A table is the list of its rows in the
  order of their keys with the next key (\<open>Tables\<close>); a statement is a function on it. Go walks a map in no fixed
  order: where that shows, the order is an argument.

  \<^bold>\<open>Shared ground.\<close> \<open>Prelude\<close> (types, durations, words), \<open>GoStrings\<close> (\<open>strings\<close>, \<open>strconv\<close>), \<open>Encodings\<close> (UTF-8, base64,
  hexadecimal), \<open>Crypto\<close> (SHA-256, HMAC), \<open>GoTime\<close> and \<open>LocalTime\<close> (calendar, zones), \<open>GoNet\<close> (errors, dialling),
  \<open>JsonFields\<close> (decoded JSON), \<open>Tables\<close> (SQL tables, batches), \<open>Entities\<close> (\<open>entities\<close>).

  \<^bold>\<open>From the queue to the store.\<close> \<open>UsageMessage\<close> decodes a queue message (\<open>service/redis_usage.go\<close>,
  \<open>cpa/usage_accounting.go\<close>) and replaces it by a text safe to store; \<open>Accounting\<close> validates, interprets and prices the
  tokens of an attempt (\<open>repository/usage_accounting.go\<close>); \<open>Inbox\<close> is the durable inbox with its retries
  (\<open>repository/redis_usage_inbox.go\<close>); \<open>EventStore\<close> inserts events once per key with their rollups in one transaction
  (\<open>repository/db.go\<close>), and \<open>Transactions\<close> runs the same insert statement by statement, any of which may fail, and shows
  that the transaction keeps all of it or nothing; \<open>Intake\<close> composes pulling and processing (\<open>service/redis_usage_intake.go\<close>,
  \<open>redis_usage_processor.go\<close>). The main result is that every message becomes exactly one event, under any
  interleaving of pulls, runs and failures; it is stated for pulls whose clock and whose
  messages, as far as they carry a timestamp, date from year 1 or later. \<open>Resp\<close>, \<open>CpaClient\<close> and \<open>QueueClient\<close> are the queue client down to the bytes of
  RESP (\<open>cpa/redis_queue_client.go\<close>, \<open>cpa/client.go\<close>); \<open>Drain\<close> and \<open>DrainRuns\<close> the scheduler of the background loop and of
  manual runs (\<open>poller\<close>, \<open>app/manual_sync.go\<close>), which never overlap.

  \<^bold>\<open>Aggregates.\<close> \<open>Aggregates\<close> and \<open>Rollups\<close> keep the hourly rows, incrementally and by SQL
  (\<open>repository/usage_rollups_hourly.go\<close>): the three ways of building them agree. \<open>Backfill\<close> rebuilds the hours before an
  upgrade in batches (\<open>usage_rollup_backfill*.go\<close>): it ends and is exact. \<open>AnalyticsRows\<close>, \<open>AnalyticsSums\<close>,
  \<open>AnalyticsSummary\<close> and \<open>AnalyticsCore\<close> answer the summary of a window from raw segments and full hours
  (\<open>repository/analytics_*.go\<close>): the answer is the one all raw events give. \<open>SourceRows\<close>
  and \<open>Grouping\<close> say of any grouped sum over the segments of a window what events it is the sum of; on them rest \<open>Breakdowns\<close>
  (by model and by provider, \<open>analytics_model.go\<close>, \<open>analytics_rollup_provider_model.go\<close>), again independent of the source, and
  \<open>Trend\<close> (\<open>analytics_trend.go\<close>), which is so by hour and in zones whose days begin at a full UTC hour. \<open>Pricing\<close> holds the prices
  (\<open>repository/pricing.go\<close>, \<open>service/pricing_service.go\<close>).

  \<^bold>\<open>Read models over raw events.\<close> \<open>UsageSnapshot\<close>, \<open>RequestHealth\<close> and \<open>Overview\<close> (\<open>repository/usage_overview.go\<close>,
  \<open>usage_health.go\<close>) and \<open>Redact\<close> (\<open>redact/redact.go\<close>), \<open>UsageEvents\<close> (\<open>repository/usage_events.go\<close>, \<open>usage_failures.go\<close>),
  \<open>UsageFilter\<close> (\<open>api/usage_filter.go\<close>): what a query selects, that pages cover a selection once, that each count
  is that of the events behind it, and that no key leaves unmasked.

  \<^bold>\<open>Accounts.\<close> \<open>Identities\<close>, \<open>IdentitySync\<close>, \<open>IdentityStats\<close> (\<open>repository/usage_identities.go\<close>) and \<open>MetadataSync\<close>
  (\<open>service/sync.go\<close>, \<open>provider_metadata.go\<close>, \<open>account_status.go\<close>) mirror the accounts CPA reports without losing
  their statistics; \<open>KeyAliases\<close> (\<open>repository/key_alias.go\<close>, \<open>service/key_alias_service.go\<close>) is a map from accounts to
  aliases; \<open>ModelSupport\<close> (\<open>service/model_support.go\<close>) counts the models of a selection of accounts.

  \<^bold>\<open>Quotas.\<close> \<open>QuotaPayloads\<close>, \<open>QuotaRows\<close> and \<open>QuotaProviders\<close> read the quota answers of the providers, \<open>PassiveQuota\<close> the
  signals CPA observed (\<open>quota/*.go\<close>); \<open>QuotaTasks\<close>, \<open>QuotaRuns\<close> and \<open>QuotaRefresh\<close> are the refresh tasks and their
  workers as a transition system (\<open>quota/service.go\<close>), with its invariant, the life of a task and the stop of the
  workers; \<open>QuotaStore\<close> keeps the latest observation (\<open>repository/quota_observations.go\<close>).

  \<^bold>\<open>Access and updates.\<close> \<open>Session\<close> (\<open>auth/session.go\<close>), \<open>LoginGuard\<close> (\<open>api/auth.go\<close>): sessions cannot be forged
  from a token that was not signed, expire on time. A login takes its locks one after the other, so the steps of concurrent logins interleave: of
  one client's wrong logins in fifteen minutes at most four plus the number that were under way at once are answered
  401, the others 429. \<open>UpdateCheck\<close>
  (\<open>updatecheck/checker.go\<close>) compares stable versions.

  \<^bold>\<open>Bounds and fuel.\<close> A run of the backfill takes its ticks from a list, and one tick per batch of hours is shown to
  be enough; reading RESP takes fuel of the bytes received plus one, scanning a raw JSON object the length of
  the text, each step consuming at least a byte; the refresh service has five workers, and its task numbers are
  taken to stay below 64 bits; page offsets and retry counts are wrapped or bounded as in the code.

  \<^bold>\<open>Parameters.\<close> The answers of CPA, GitHub and the providers, the JSON codec, \<open>strconv.ParseFloat\<close>, the parsers of RFC 3339
  times, the offsets of the local zone, random bytes and the clock are arguments of the definitions that use them.

  \<^bold>\<open>Outside the model.\<close> The rounding of floating-point numbers and of SQLite's time functions below a millisecond, the
  integer overflow error of \<open>SUM\<close>, the order \<open>sort.Slice\<close> gives to equal elements (the model keeps their order),
  Unicode beyond ASCII in \<open>strings.ToLower\<close>, allocation failures.

  \<^bold>\<open>Not modelled.\<close> The heatmap, the insights and the breakdowns by account and by API key of the analytics, the
  performance, mapping and analysis queries, and the paged statistics of API keys: long SQL selections whose
  sums are those of \<open>AnalyticsRows\<close>, grouped further. The JSON payloads, routes and metrics of \<open>api\<close> and the wiring of
  \<open>app\<close> pass values on. Migrations, backups, logging and configuration are I/O; the web interface is TypeScript.
\<close>

end
